(* ===== verification/Bpf_Prelude.thy ===== *)
theory Bpf_Prelude
  imports Main "HOL-Library.Word" "HOL-Library.Multiset" "HOL-Library.Sublist"
begin

text \<open>
  Shared vocabulary of the development: machine integers and bytes, the values of
  \<^verbatim>\<open>errno\<close>, the result type every fallible operation returns, little-endian
  encoding of integers in byte buffers, reads and writes of byte ranges, and the
  interface locales the map components implement (\<open>slot_layout\<close>, \<open>key_cursor\<close>,
  \<open>key_iteration\<close>, \<open>map_store\<close>, \<open>exact_map_store\<close>).
\<close>

section \<open>Machine types, errors and results\<close>

type_synonym byte = "8 word"
type_synonym bytes = "byte list"
type_synonym u16 = "16 word"
type_synonym u32 = "32 word"
type_synonym u64 = "64 word"

datatype errno =
    EPERM | ENOENT | EINTR | E2BIG | EBADF | EEXIST | EINVAL | ENOSPC | ENOTSUP

text \<open>
  How a call of the runtime can fail. \<open>Errno e\<close>: the call returns -1 (or a null pointer)
  and sets \<^verbatim>\<open>errno\<close>; \<open>Silent\<close>: it returns -1 or null and leaves \<^verbatim>\<open>errno\<close>
  alone; \<open>NegErrno e\<close>: it returns \<^verbatim>\<open>-e\<close> itself; \<open>Throw\<close>: a C++ exception leaves
  it; \<open>Fault\<close>: the C++ code touches memory outside the object it addresses (undefined
  behaviour), so nothing is promised afterwards.
\<close>

datatype err = Errno errno | Silent | NegErrno errno | Throw | Fault

type_synonym 'a res = "err + 'a"

text \<open>Sequencing: \<open>bindr m f\<close> runs \<open>f\<close> on the value of \<open>m\<close>, and stops at an error;
  \<open>or_fault\<close> turns a failed memory access into \<open>Fault\<close>.\<close>

definition bindr :: "'a res \<Rightarrow> ('a \<Rightarrow> 'b res) \<Rightarrow> 'b res" where
  "bindr m f = (case m of Inl e \<Rightarrow> Inl e | Inr x \<Rightarrow> f x)"

definition or_fault :: "'a option \<Rightarrow> 'a res" where
  "or_fault x = (case x of None \<Rightarrow> Inl Fault | Some y \<Rightarrow> Inr y)"

lemma bindr_simps [simp]: "bindr (Inl e) f = Inl e" "bindr (Inr x) f = f x"
  by (simp_all add: bindr_def)

lemma or_fault_simps [simp]: "or_fault None = Inl Fault" "or_fault (Some x) = Inr x"
  by (simp_all add: or_fault_def)

lemma bindr_eq_Inr: "bindr m f = Inr y \<longleftrightarrow> (\<exists>x. m = Inr x \<and> f x = Inr y)"
  by (cases m) auto

lemma bindr_eq_Inl: "bindr m f = Inl e \<longleftrightarrow> m = Inl e \<or> (\<exists>x. m = Inr x \<and> f x = Inl e)"
  by (cases m) auto

lemma or_fault_eq_Inr [simp]: "or_fault x = Inr y \<longleftrightarrow> x = Some y"
  by (cases x) auto

lemma or_fault_eq_Inl [simp]: "or_fault x = Inl e \<longleftrightarrow> x = None \<and> e = Fault"
  by (cases x) auto

text \<open>A loop over items that ends at the first call that fails.\<close>

fun for_each :: "('i \<Rightarrow> 's \<Rightarrow> unit res \<times> 's) \<Rightarrow> 'i list \<Rightarrow> 's \<Rightarrow> unit res \<times> 's" where
  "for_each f [] s = (Inr (), s)"
| "for_each f (i # is) s = (case f i s of (Inl e, s') \<Rightarrow> (Inl e, s') | (Inr _, s') \<Rightarrow> for_each f is s')"

text \<open>\<^verbatim>\<open>std::map\<close>: entries in ascending order of their keys, which is also the order of iteration.\<close>

fun omap_put :: "'k :: linorder \<Rightarrow> 'v \<Rightarrow> ('k \<times> 'v) list \<Rightarrow> ('k \<times> 'v) list" where
  "omap_put k v [] = [(k, v)]"
| "omap_put k v ((k', v') # r) =
     (if k = k' then (k, v) # r else if k < k' then (k, v) # (k', v') # r else (k', v') # omap_put k v r)"

definition omap_del :: "'k \<Rightarrow> ('k \<times> 'v) list \<Rightarrow> ('k \<times> 'v) list" where
  "omap_del k m = filter (\<lambda>e. fst e \<noteq> k) m"

abbreviation omap_ok :: "('k :: linorder \<times> 'v) list \<Rightarrow> bool" where
  "omap_ok m \<equiv> sorted_wrt (<) (map fst m)"

lemma map_of_omap_put [simp]: "map_of (omap_put k v m) = (map_of m)(k \<mapsto> v)"
  by (induction m) (auto simp: fun_eq_iff)

lemma omap_put_keys: "set (map fst (omap_put k v m)) = insert k (set (map fst m))"
proof (induction m)
  case (Cons e m)
  then show ?case by (cases e) (simp add: insert_commute)
qed simp

lemma omap_put_ok: "omap_ok m \<Longrightarrow> omap_ok (omap_put k v m)"
proof (induction m)
  case (Cons e m)
  obtain k' v' where e: "e = (k', v')" by fastforce
  have keys: "set (map fst (omap_put k v m)) = insert k (set (map fst m))" by (rule omap_put_keys)
  consider "k = k'" | "k < k'" | "k' < k" by (rule linorder_cases [of k k']) auto
  then show ?case
  proof cases
    case 3
    then have "\<forall>x \<in> set (map fst (omap_put k v m)). k' < x" using keys Cons.prems e by auto
    with 3 Cons e show ?thesis by (auto simp: not_less_iff_gr_or_eq)
  qed (use Cons.prems e in \<open>auto dest: less_trans\<close>)
qed simp

lemma set_omap_put: "k \<notin> set (map fst m) \<Longrightarrow> set (omap_put k v m) = insert (k, v) (set m)"
proof (induction m)
  case (Cons e m)
  then show ?case by (cases e) (simp add: insert_commute)
qed simp

lemma omap_distinct: "omap_ok m \<Longrightarrow> distinct (map fst m)"
  by (simp add: strict_sorted_iff)

lemma map_of_omap_del [simp]: "map_of (omap_del k m) = (map_of m)(k := None)"
  by (induction m) (auto simp: omap_del_def fun_eq_iff)

lemma omap_del_ok: "omap_ok m \<Longrightarrow> omap_ok (omap_del k m)"
  by (simp add: omap_del_def sorted_wrt_map sorted_wrt_filter)

named_theorems mem_simps \<open>reads over writes of byte ranges\<close>

section \<open>Byte ranges of a buffer\<close>

text \<open>\<open>seg off n mem\<close> is \<^verbatim>\<open>memcpy(dst, mem + off, n)\<close> read; \<open>put off bs mem\<close> is
  the buffer after \<^verbatim>\<open>memcpy(mem + off, bs, |bs|)\<close>. Both are meaningful for ranges
  inside the buffer only; \<open>rd\<close> and \<open>wr\<close> check that and return \<open>None\<close> otherwise.\<close>

definition seg :: "nat \<Rightarrow> nat \<Rightarrow> 'a list \<Rightarrow> 'a list" where
  "seg off n mem = take n (drop off mem)"

definition put :: "nat \<Rightarrow> 'a list \<Rightarrow> 'a list \<Rightarrow> 'a list" where
  "put off bs mem = take off mem @ bs @ drop (off + length bs) mem"

definition rd :: "'a list \<Rightarrow> nat \<Rightarrow> nat \<Rightarrow> 'a list option" where
  "rd mem off n = (if off + n \<le> length mem then Some (seg off n mem) else None)"

definition wr :: "'a list \<Rightarrow> nat \<Rightarrow> 'a list \<Rightarrow> 'a list option" where
  "wr mem off bs = (if off + length bs \<le> length mem then Some (put off bs mem) else None)"

lemma length_put [mem_simps]: "off + length bs \<le> length mem \<Longrightarrow> length (put off bs mem) = length mem"
  by (simp add: put_def)

lemma length_seg [mem_simps]: "off + n \<le> length mem \<Longrightarrow> length (seg off n mem) = n"
  by (simp add: seg_def)

lemma seg_put_same [mem_simps]:
  "off + length bs \<le> length mem \<Longrightarrow> seg off (length bs) (put off bs mem) = bs"
  by (simp add: seg_def put_def)

lemma nth_put:
  assumes "off + length bs \<le> length mem" "i < length mem"
  shows "put off bs mem ! i =
    (if off \<le> i \<and> i < off + length bs then bs ! (i - off) else mem ! i)"
  using assms by (auto simp: put_def nth_append min_def)

lemma seg_nth_eqI:
  assumes "off + n \<le> length mem" "length mem' = length mem"
    and "\<And>i. off \<le> i \<Longrightarrow> i < off + n \<Longrightarrow> mem' ! i = mem ! i"
  shows "seg off n mem' = seg off n mem"
  unfolding seg_def
proof (rule nth_equalityI)
  show "length (take n (drop off mem')) = length (take n (drop off mem))"
    using assms by simp
  fix i assume "i < length (take n (drop off mem'))"
  then have i: "i < n" "off + i < length mem" using assms by auto
  then show "take n (drop off mem') ! i = take n (drop off mem) ! i"
    using assms by simp
qed

lemma seg_put_other [mem_simps]:
  assumes "off + length bs \<le> length mem" "o' + n \<le> length mem"
    and "o' + n \<le> off \<or> off + length bs \<le> o'"
  shows "seg o' n (put off bs mem) = seg o' n mem"
  using assms by (intro seg_nth_eqI) (auto simp: nth_put length_put)

lemma seg_replicate [mem_simps]:
  "off + n \<le> m \<Longrightarrow> seg off n (replicate m x) = replicate n x"
  by (simp add: seg_def)

lemma seg_seg: "c + s \<le> n \<Longrightarrow> seg c s (seg off n mem) = seg (off + c) s mem"
  by (simp add: seg_def drop_take min_def add.commute)

lemma rd_eq_Some: "rd mem off n = Some bs \<longleftrightarrow> off + n \<le> length mem \<and> bs = seg off n mem"
  by (auto simp: rd_def)

lemma rd_eq_None: "rd mem off n = None \<longleftrightarrow> length mem < off + n"
  by (auto simp: rd_def)

lemma wr_eq_Some:
  "wr mem off bs = Some mem' \<longleftrightarrow> off + length bs \<le> length mem \<and> mem' = put off bs mem"
  by (auto simp: wr_def)

lemma wr_eq_None: "wr mem off bs = None \<longleftrightarrow> length mem < off + length bs"
  by (auto simp: wr_def)

lemma rd_in [simp]: "off + n \<le> length mem \<Longrightarrow> rd mem off n = Some (seg off n mem)"
  by (simp add: rd_def)

lemma seg_whole [simp]: "length mem = n \<Longrightarrow> seg 0 n mem = mem"
  by (simp add: seg_def)

lemma rd_whole [simp]: "length mem = n \<Longrightarrow> rd mem 0 n = Some mem"
  by (simp add: rd_def seg_def)

lemma wr_in [simp]: "off + length bs \<le> length mem \<Longrightarrow> wr mem off bs = Some (put off bs mem)"
  by (simp add: wr_def)

lemmas mem_eqs = rd_eq_Some rd_eq_None wr_eq_Some wr_eq_None

section \<open>Little-endian integers\<close>

lemma unat_byte_less: "unat (b :: byte) < 256"
  using unsigned_less [of b, where ?'a = nat] by simp

lemma unat_u32_less: "unat (x :: u32) < 2 ^ 32"
  using unsigned_less [of x, where ?'a = nat] by simp

lemma u32_of_nat_inject: "i < 2 ^ 32 \<Longrightarrow> j < 2 ^ 32 \<Longrightarrow> (of_nat i :: u32) = of_nat j \<longleftrightarrow> i = j"
  by (auto simp: word_of_nat_eq_iff take_bit_nat_eq_self)

lemma unat_of_nat_u32: "i < 2 ^ 32 \<Longrightarrow> unat (of_nat i :: u32) = i"
  by (simp add: unat_of_nat)

lemma u32_of_nat_eq: "i < 2 ^ 32 \<Longrightarrow> of_nat i = (w :: u32) \<longleftrightarrow> i = unat w"
  using unat_of_nat_u32 by auto

lemma unat_u32_le: "unat (x :: u32) \<le> 2 ^ 32"
  using unat_u32_less [of x] by simp

lemma unat_u64_less: "unat (x :: u64) < 2 ^ 64"
  using unsigned_less [of x, where ?'a = nat] by simp

fun nat_of_bytes :: "bytes \<Rightarrow> nat" where
  "nat_of_bytes [] = 0"
| "nat_of_bytes (b # bs) = unat b + 256 * nat_of_bytes bs"

fun bytes_of_nat :: "nat \<Rightarrow> nat \<Rightarrow> bytes" where
  "bytes_of_nat 0 n = []"
| "bytes_of_nat (Suc w) n = of_nat n # bytes_of_nat w (n div 256)"

lemma length_bytes_of_nat [simp]: "length (bytes_of_nat w n) = w"
  by (induction w arbitrary: n) auto

lemma nat_of_bytes_of_nat: "nat_of_bytes (bytes_of_nat w n) = n mod 256 ^ w"
proof (induction w arbitrary: n)
  case 0
  then show ?case by simp
next
  case (Suc w)
  have "n mod 256 ^ Suc w = 256 * (n div 256 mod 256 ^ w) + n mod 256"
    by (metis mod_mult2_eq power_Suc)
  with Suc show ?case by (simp add: unat_of_nat)
qed

lemma nat_of_bytes_bound: "nat_of_bytes bs < 256 ^ length bs"
proof (induction bs)
  case Nil
  then show ?case by simp
next
  case (Cons b bs)
  have "unat b < 256" using unat_byte_less [of b] by simp
  with Cons show ?case by simp
qed

lemma bytes_of_nat_of_bytes: "bytes_of_nat (length bs) (nat_of_bytes bs) = bs"
proof (induction bs)
  case Nil
  then show ?case by simp
next
  case (Cons b bs)
  have b: "unat b < 256" using unat_byte_less [of b] by simp
  have "(256 :: byte) = 0" using word_exp_length_eq_0 [where 'a = 8] by simp
  then have "256 * of_nat (nat_of_bytes bs) = (0 :: byte)" by (metis mult_zero_left)
  then have "(of_nat (unat b + 256 * nat_of_bytes bs) :: byte) = b" by simp
  moreover have "(unat b + 256 * nat_of_bytes bs) div 256 = nat_of_bytes bs" using b by simp
  ultimately show ?case using Cons by simp
qed

text \<open>A \<^verbatim>\<open>uint32_t\<close> read through a pointer into a byte buffer; a buffer shorter than the
  integer is an out-of-bounds read.\<close>

definition ld32 :: "bytes \<Rightarrow> u32 option" where
  "ld32 bs = (if 4 \<le> length bs then Some (of_nat (nat_of_bytes (take 4 bs))) else None)"

definition st32 :: "u32 \<Rightarrow> bytes" where
  "st32 x = bytes_of_nat 4 (unat x)"

lemma length_st32 [simp]: "length (st32 x) = 4"
  by (simp add: st32_def)

lemma nat_of_st32: "nat_of_bytes (st32 x) = unat x"
proof -
  have "unat x < 256 ^ 4" using unat_u32_less [of x] by simp
  then show ?thesis by (simp add: st32_def nat_of_bytes_of_nat)
qed

lemma ld32_st32 [simp]: "ld32 (st32 x) = Some x"
  by (simp add: ld32_def nat_of_st32)

lemma inj_st32: "inj st32"
  by (metis injI ld32_st32 option.inject)

lemma st32_eq_iff [simp]: "st32 x = st32 y \<longleftrightarrow> x = y"
  using inj_st32 by (auto dest: injD)

lemma st32_ld32: "length bs = 4 \<Longrightarrow> ld32 bs = Some x \<Longrightarrow> st32 x = bs"
proof -
  assume len: "length bs = 4" and "ld32 bs = Some x"
  then have x: "x = of_nat (nat_of_bytes bs)" by (simp add: ld32_def)
  have "nat_of_bytes bs < 2 ^ 32" using nat_of_bytes_bound [of bs] len by simp
  then have "unat x = nat_of_bytes bs" using x by (simp add: unat_of_nat)
  then show ?thesis using bytes_of_nat_of_bytes [of bs] len by (simp add: st32_def)
qed

lemma ld32_eq_None [simp]: "ld32 bs = None \<longleftrightarrow> length bs < 4"
  by (auto simp: ld32_def)

section \<open>Positions in a ring\<close>

lemma and_exp_minus_1: "and (n :: nat) (2 ^ k - 1) = n mod 2 ^ k"
  by (metis mask_eq_exp_minus_1 take_bit_eq_mask take_bit_eq_mod)

lemma mod_step:
  assumes "0 < M" "d < (M :: nat)"
  shows "(p + d) mod M = (if p mod M + d < M then p mod M + d else p mod M + d - M)"
proof -
  have eq: "(p + d) mod M = (p mod M + d) mod M" by (simp add: mod_add_left_eq)
  have a: "p mod M < M" using assms(1) by simp
  show ?thesis
  proof (cases "p mod M + d < M")
    case True
    then show ?thesis unfolding eq by simp
  next
    case False
    then have "(p mod M + d) mod M = (p mod M + d - M) mod M" by (intro le_mod_geq) simp
    also have "\<dots> = p mod M + d - M" using a assms(2) by (intro mod_less) linarith
    finally show ?thesis using False unfolding eq by simp
  qed
qed

section \<open>Interface: fixed-size slots of one buffer\<close>

text \<open>
  The array maps and the hash table keep all their entries in one byte vector, at
  computed offsets. What they rely on is that the slots of valid indices lie inside the
  buffer and do not overlap; then a write of one slot is read back and leaves every
  other slot alone.
\<close>

locale slot_layout =
  fixes off :: "'i \<Rightarrow> nat" and size :: nat and total :: nat and valid :: "'i \<Rightarrow> bool"
  assumes in_range: "valid i \<Longrightarrow> off i + size \<le> total"
    and disjoint: "valid i \<Longrightarrow> valid j \<Longrightarrow> i \<noteq> j \<Longrightarrow> off i + size \<le> off j \<or> off j + size \<le> off i"
begin

lemma write_length:
  "valid i \<Longrightarrow> length mem = total \<Longrightarrow> length v = size \<Longrightarrow> length (put (off i) v mem) = total"
  using in_range [of i] by (simp add: length_put)

lemma read_same:
  "valid i \<Longrightarrow> length mem = total \<Longrightarrow> length v = size \<Longrightarrow> seg (off i) size (put (off i) v mem) = v"
  using in_range [of i] seg_put_same [of "off i" v mem] by simp

lemma read_other:
  assumes "valid i" "valid j" "i \<noteq> j" "length mem = total" "length v = size"
  shows "seg (off j) size (put (off i) v mem) = seg (off j) size mem"
  using assms in_range [of i] in_range [of j] disjoint [of i j]
  by (intro seg_put_other) auto

end

section \<open>Interface: iteration over the keys of a map\<close>

text \<open>
  User space walks a map with \<^verbatim>\<open>bpf_map_get_next_key\<close>: it starts from a null key and
  passes each returned key back in, until the call fails. \<open>walk\<close> is that client loop,
  bounded by a number of calls.
\<close>

fun walk :: "('k option \<Rightarrow> 'k res) \<Rightarrow> nat \<Rightarrow> 'k option \<Rightarrow> 'k list" where
  "walk nxt 0 k = []"
| "walk nxt (Suc n) k = (case nxt k of Inl _ \<Rightarrow> [] | Inr k' \<Rightarrow> k' # walk nxt n (Some k'))"

locale key_cursor =
  fixes nxt :: "'s \<Rightarrow> 'k option \<Rightarrow> 'k res" and keys :: "'s \<Rightarrow> 'k list" and ok :: "'s \<Rightarrow> bool"
  assumes keys_distinct: "ok s \<Longrightarrow> distinct (keys s)"
    and next_first: "ok s \<Longrightarrow>
      nxt s None = (case keys s of [] \<Rightarrow> Inl (Errno ENOENT) | k # _ \<Rightarrow> Inr k)"
    and next_step: "ok s \<Longrightarrow> i < length (keys s) \<Longrightarrow>
      nxt s (Some (keys s ! i)) =
        (if Suc i < length (keys s) then Inr (keys s ! Suc i) else Inl (Errno ENOENT))"
begin

lemma walk_from:
  assumes "ok s" "i < length (keys s)" "length (keys s) \<le> n + i"
  shows "walk (nxt s) n (Some (keys s ! i)) = drop (Suc i) (keys s)"
  using assms
proof (induction n arbitrary: i)
  case 0
  then show ?case by simp
next
  case (Suc n)
  show ?case
  proof (cases "Suc i < length (keys s)")
    case True
    then have "walk (nxt s) n (Some (keys s ! Suc i)) = drop (Suc (Suc i)) (keys s)"
      using Suc by simp
    with True Suc.prems show ?thesis by (simp add: next_step Cons_nth_drop_Suc)
  next
    case False
    with Suc.prems show ?thesis by (simp add: next_step)
  qed
qed

lemma walk_all:
  assumes "ok s" "length (keys s) < n"
  shows "walk (nxt s) n None = keys s"
proof (cases "keys s")
  case Nil
  with assms next_first [of s] show ?thesis by (cases n) auto
next
  case (Cons k ks)
  from assms obtain m where n: "n = Suc m" by (cases n) auto
  have "walk (nxt s) m (Some (keys s ! 0)) = drop (Suc 0) (keys s)"
    using assms n Cons by (intro walk_from) auto
  with assms n Cons next_first [of s] show ?thesis by simp
qed

end

text \<open>The documented contract also says that an unknown key restarts the iteration.\<close>

locale key_iteration = key_cursor +
  fixes sized :: "'a \<Rightarrow> 'b \<Rightarrow> bool"
  assumes next_missing: "ok s \<Longrightarrow> sized s k \<Longrightarrow> k \<notin> set (keys s) \<Longrightarrow> nxt s (Some k) = nxt s None"
begin

lemma walk_restart:
  assumes "ok s" "sized s k" "k \<notin> set (keys s)" "length (keys s) < n"
  shows "walk (nxt s) n (Some k) = keys s"
proof -
  from assms obtain m where n: "n = Suc m" by (cases n) auto
  have "walk (nxt s) n (Some k) = walk (nxt s) n None"
    using assms n by (simp add: next_missing)
  with walk_all [OF assms(1,4)] show ?thesis by simp
qed

end

section \<open>Interface: a key/value map with update flags\<close>

text \<open>
  What the hash-like maps promise to their clients. \<open>lookup\<close> is the value a lookup finds,
  \<open>shape\<close> says that key and value buffers have the sizes the map was created with. An
  update stores the value under its key and may drop other keys (an LRU map evicts), but
  never changes what is stored under them.
\<close>

datatype ('k, 'v) map_op = Upd 'k 'v u64 | Del 'k

fun run_ops :: "('s \<Rightarrow> 'k \<Rightarrow> 'v \<Rightarrow> u64 \<Rightarrow> 's res) \<Rightarrow> ('s \<Rightarrow> 'k \<Rightarrow> 's res) \<Rightarrow>
    ('k, 'v) map_op list \<Rightarrow> 's \<Rightarrow> 's" where
  "run_ops upd del [] s = s"
| "run_ops upd del (Upd k v f # ops) s =
     run_ops upd del ops (case upd s k v f of Inl _ \<Rightarrow> s | Inr s' \<Rightarrow> s')"
| "run_ops upd del (Del k # ops) s =
     run_ops upd del ops (case del s k of Inl _ \<Rightarrow> s | Inr s' \<Rightarrow> s')"

fun apply_op :: "('k \<rightharpoonup> 'v) \<Rightarrow> ('k, 'v) map_op \<Rightarrow> ('k \<rightharpoonup> 'v)" where
  "apply_op m (Upd k v f) = m(k \<mapsto> v)"
| "apply_op m (Del k) = m(k := None)"

fun op_shape :: "('k \<Rightarrow> 'v \<Rightarrow> bool) \<Rightarrow> ('k, 'v) map_op \<Rightarrow> bool" where
  "op_shape sh (Upd k v f) = sh k v"
| "op_shape sh (Del k) = (\<exists>v. sh k v)"

locale map_store =
  fixes lookup :: "'s \<Rightarrow> 'k \<Rightarrow> 'v option"
    and update :: "'s \<Rightarrow> 'k \<Rightarrow> 'v \<Rightarrow> u64 \<Rightarrow> 's res"
    and delete :: "'s \<Rightarrow> 'k \<Rightarrow> 's res"
    and capacity :: "'s \<Rightarrow> nat"
    and shape :: "'s \<Rightarrow> 'k \<Rightarrow> 'v \<Rightarrow> bool"
    and inv :: "'s \<Rightarrow> bool"
  assumes update_inv: "inv s \<Longrightarrow> shape s k v \<Longrightarrow> update s k v f = Inr s' \<Longrightarrow>
      inv s' \<and> capacity s' = capacity s \<and> shape s' = shape s"
    and update_same: "inv s \<Longrightarrow> shape s k v \<Longrightarrow> update s k v f = Inr s' \<Longrightarrow> lookup s' k = Some v"
    and update_other: "inv s \<Longrightarrow> shape s k v \<Longrightarrow> update s k v f = Inr s' \<Longrightarrow> k' \<noteq> k \<Longrightarrow>
      lookup s' k' = lookup s k' \<or> lookup s' k' = None"
    and delete_inv: "inv s \<Longrightarrow> shape s k v \<Longrightarrow> delete s k = Inr s' \<Longrightarrow>
      inv s' \<and> capacity s' = capacity s \<and> shape s' = shape s"
    and delete_lookup: "inv s \<Longrightarrow> shape s k v \<Longrightarrow> delete s k = Inr s' \<Longrightarrow>
      lookup s' = (lookup s)(k := None)"
    and bounded: "inv s \<Longrightarrow> finite (dom (lookup s)) \<and> card (dom (lookup s)) \<le> capacity s"
begin

lemma run_ops_inv:
  assumes "inv s" "\<forall>x \<in> set ops. op_shape (shape s) x"
  shows "inv (run_ops update delete ops s) \<and>
    capacity (run_ops update delete ops s) = capacity s \<and>
    shape (run_ops update delete ops s) = shape s"
  using assms
proof (induction ops arbitrary: s)
  case Nil
  then show ?case by simp
next
  case (Cons x ops)
  show ?case
  proof (cases x)
    case (Upd k v f)
    with Cons.prems have "shape s k v" by simp
    show ?thesis
    proof (cases "update s k v f")
      case (Inl e)
      with Cons Upd show ?thesis by simp
    next
      case (Inr s')
      with update_inv Cons.prems(1) \<open>shape s k v\<close>
      have "inv s' \<and> capacity s' = capacity s \<and> shape s' = shape s" by blast
      with Cons Upd Inr show ?thesis by simp
    qed
  next
    case (Del k)
    with Cons.prems obtain v where "shape s k v" by auto
    show ?thesis
    proof (cases "delete s k")
      case (Inl e)
      with Cons Del show ?thesis by simp
    next
      case (Inr s')
      with delete_inv Cons.prems(1) \<open>shape s k v\<close>
      have "inv s' \<and> capacity s' = capacity s \<and> shape s' = shape s" by blast
      with Cons Del Inr show ?thesis by simp
    qed
  qed
qed

text \<open>A lookup never invents a value: it was there before or some update wrote it.\<close>

lemma run_ops_sound:
  assumes "inv s" "\<forall>x \<in> set ops. op_shape (shape s) x"
    and "lookup (run_ops update delete ops s) k = Some v"
  shows "lookup s k = Some v \<or> (\<exists>f. Upd k v f \<in> set ops)"
  using assms
proof (induction ops arbitrary: s)
  case Nil
  then show ?case by simp
next
  case (Cons x ops)
  show ?case
  proof (cases x)
    case (Upd k' v' f)
    show ?thesis
    proof (cases "update s k' v' f")
      case (Inl e)
      with Cons Upd show ?thesis by auto
    next
      case (Inr s')
      from Cons.prems Upd have sh: "shape s k' v'" by simp
      note inv' = update_inv [OF Cons.prems(1) sh Inr]
      have "lookup s' k = Some v \<or> (\<exists>f. Upd k v f \<in> set ops)"
        using Cons.IH [of s'] Cons.prems Upd Inr inv' by simp
      then show ?thesis
        using update_same [OF Cons.prems(1) sh Inr] update_other [OF Cons.prems(1) sh Inr, of k] Upd
        by (cases "k = k'") auto
    qed
  next
    case (Del k')
    show ?thesis
    proof (cases "delete s k'")
      case (Inl e)
      with Cons Del show ?thesis by auto
    next
      case (Inr s')
      from Cons.prems Del obtain w where sh: "shape s k' w" by auto
      note inv' = delete_inv [OF Cons.prems(1) sh Inr]
      have "lookup s' k = Some v \<or> (\<exists>f. Upd k v f \<in> set ops)"
        using Cons.IH [of s'] Cons.prems Del Inr inv' by simp
      then show ?thesis using delete_lookup [OF Cons.prems(1) sh Inr] by (auto split: if_splits)
    qed
  qed
qed

end

text \<open>A map that never evicts behaves exactly like a finite partial function.\<close>

locale exact_map_store = map_store +
  assumes update_exact: "inv s \<Longrightarrow> shape s k v \<Longrightarrow> update s k v f = Inr s' \<Longrightarrow>
      lookup s' = (lookup s)(k \<mapsto> v)"
begin

text \<open>The content is that of the accepted operations, applied in order to a partial function.\<close>

lemma run_ops_exact:
  assumes "inv s" "\<forall>x \<in> set ops. op_shape (shape s) x"
  shows "\<exists>ops'. subseq ops' ops \<and>
    lookup (run_ops update delete ops s) = foldl apply_op (lookup s) ops'"
  using assms
proof (induction ops arbitrary: s)
  case Nil
  then show ?case by (intro exI [of _ "[]"]) simp
next
  case (Cons x ops)
  have tail: "\<exists>ops'. subseq ops' ops \<and>
    lookup (run_ops update delete ops s') = foldl apply_op (lookup s') ops'"
    if "inv s'" "shape s' = shape s" for s'
    using Cons.IH [OF that(1)] Cons.prems(2) that(2) by simp
  have step: "\<exists>ops'. subseq ops' (x # ops) \<and>
    lookup (run_ops update delete ops s') = foldl apply_op (lookup s) ops'"
    if "inv s'" "shape s' = shape s" "lookup s' = apply_op (lookup s) x" for s'
  proof -
    from tail [OF that(1,2)] obtain ops' where o: "subseq ops' ops"
      "lookup (run_ops update delete ops s') = foldl apply_op (lookup s') ops'" by blast
    then have "subseq (x # ops') (x # ops)"
      "lookup (run_ops update delete ops s') = foldl apply_op (lookup s) (x # ops')"
      using that(3) by simp_all
    then show ?thesis by blast
  qed
  have skip: "\<exists>ops'. subseq ops' (x # ops) \<and>
    lookup (run_ops update delete ops s) = foldl apply_op (lookup s) ops'"
    using tail [OF Cons.prems(1)] by (metis list_emb_Cons)
  show ?case
  proof (cases x)
    case (Upd k v f)
    with Cons.prems have sh: "shape s k v" by simp
    show ?thesis
    proof (cases "update s k v f")
      case (Inl e)
      with skip Upd show ?thesis by simp
    next
      case (Inr s')
      with step [of s'] update_inv [OF Cons.prems(1) sh Inr] update_exact [OF Cons.prems(1) sh Inr] Upd
      show ?thesis by simp
    qed
  next
    case (Del k)
    with Cons.prems obtain v where sh: "shape s k v" by auto
    show ?thesis
    proof (cases "delete s k")
      case (Inl e)
      with skip Del show ?thesis by simp
    next
      case (Inr s')
      with step [of s'] delete_inv [OF Cons.prems(1) sh Inr] delete_lookup [OF Cons.prems(1) sh Inr] Del
      show ?thesis by simp
    qed
  qed
qed

end

end
