(* ===== verification/Array_Maps.thy ===== *)
theory Array_Maps
  imports Bpf_Prelude
begin

text \<open>
  The array-like maps of \<^verbatim>\<open>runtime/src/bpf_map/userspace\<close>: \<^verbatim>\<open>array_map.cpp\<close>,
  \<^verbatim>\<open>per_cpu_array_map.cpp\<close>, \<^verbatim>\<open>map_in_maps.hpp\<close>, \<^verbatim>\<open>perf_event_array_map.cpp\<close> and
  \<^verbatim>\<open>prog_array.cpp\<close>. A key or value argument is the byte buffer behind the
  \<^verbatim>\<open>void *\<close>; a possibly null key is an option. Pointers into a map are values of
  \<open>ptr\<close>; reading them back is the map's \<open>load\<close> function.
\<close>

section \<open>Flags and pointers shared by all maps\<close>

definition BPF_ANY :: u64 where "BPF_ANY = 0"
definition BPF_NOEXIST :: u64 where "BPF_NOEXIST = 1"
definition BPF_EXIST :: u64 where "BPF_EXIST = 2"

lemmas flag_defs = BPF_ANY_def BPF_NOEXIST_def BPF_EXIST_def

definition check_update_flags :: "u64 \<Rightarrow> bool" where
  "check_update_flags flags \<longleftrightarrow> \<not> (flags \<noteq> 0 \<and> flags \<noteq> 1 \<and> flags \<noteq> 2)"

text \<open>\<open>PData o\<close>: byte \<open>o\<close> of the map's data vector; \<open>PSlot i\<close>: element \<open>i\<close> of its
  \<^verbatim>\<open>int32_t\<close> vector; \<open>PVal k o\<close>: byte \<open>o\<close> of the value vector stored under \<open>k\<close>;
  \<open>PTls x\<close>: the thread-local word, holding \<open>x\<close>; \<open>PRaw x\<close>: the integer \<open>x\<close> cast to a
  pointer; \<open>PMem b\<close>: memory outside the runtime's maps that holds the bytes \<open>b\<close>.\<close>

datatype ptr = PData nat | PSlot nat | PVal bytes nat | PTls u32 | PRaw u64 | PMem bytes

section \<open>array_map_impl\<close>

record array_map =
  am_data :: bytes
  am_value_size :: u32
  am_max_entries :: u32

definition array_map_new :: "u32 \<Rightarrow> u32 \<Rightarrow> array_map" where
  "array_map_new value_size max_entries =
     \<lparr>am_data = replicate (unat (value_size * max_entries)) 0,
      am_value_size = value_size, am_max_entries = max_entries\<rparr>"

text \<open>\<^verbatim>\<open>&data[key_val * _value_size]\<close>: the product is a 32-bit one, and indexing at or past
  the end of the vector is undefined.\<close>

definition am_elem_at :: "array_map \<Rightarrow> u32 \<Rightarrow> nat res" where
  "am_elem_at m key_val =
     (let o' = unat (key_val * am_value_size m)
      in if o' < length (am_data m) then Inr o' else Inl Fault)"

definition am_elem_lookup :: "array_map \<Rightarrow> bytes \<Rightarrow> ptr res" where
  "am_elem_lookup m key =
     bindr (or_fault (ld32 key)) (\<lambda>key_val.
       if am_max_entries m \<le> key_val then Inl (Errno ENOENT)
       else bindr (am_elem_at m key_val) (\<lambda>o'. Inr (PData o')))"

definition am_elem_update :: "array_map \<Rightarrow> bytes \<Rightarrow> bytes \<Rightarrow> u64 \<Rightarrow> array_map res" where
  "am_elem_update m key val flags =
     (if \<not> check_update_flags flags then Inl (Errno EINVAL)
      else bindr (or_fault (ld32 key)) (\<lambda>key_val.
        if key_val < am_max_entries m \<and> flags = BPF_NOEXIST then Inl (Errno EEXIST)
        else if am_max_entries m \<le> key_val then Inl (Errno E2BIG)
        else bindr (am_elem_at m key_val) (\<lambda>o'.
             bindr (or_fault (rd val 0 (unat (am_value_size m)))) (\<lambda>v.
             bindr (or_fault (wr (am_data m) o' v)) (\<lambda>d.
             Inr (m\<lparr>am_data := d\<rparr>))))))"

definition am_elem_delete :: "array_map \<Rightarrow> bytes \<Rightarrow> array_map res" where
  "am_elem_delete m key = bindr (or_fault (ld32 key)) (\<lambda>key_val. Inl (Errno EINVAL))"

definition am_get_next_key :: "array_map \<Rightarrow> bytes option \<Rightarrow> bytes res" where
  "am_get_next_key m key =
     (case key of None \<Rightarrow> Inr (st32 0)
      | Some kb \<Rightarrow>
          bindr (or_fault (ld32 kb)) (\<lambda>deref_key.
            if am_max_entries m \<le> deref_key then Inr (st32 0)
            else if deref_key = am_max_entries m - 1 then Inl (Errno ENOENT)
            else Inr (st32 (deref_key + 1))))"

text \<open>What a client reads through the pointer a lookup returned.\<close>

definition am_load :: "array_map \<Rightarrow> ptr \<Rightarrow> bytes option" where
  "am_load m p = (case p of PData o' \<Rightarrow> rd (am_data m) o' (unat (am_value_size m)) | _ \<Rightarrow> None)"

definition am_value :: "array_map \<Rightarrow> u32 \<Rightarrow> bytes option" where
  "am_value m k = (case am_elem_lookup m (st32 k) of Inl _ \<Rightarrow> None | Inr p \<Rightarrow> am_load m p)"

text \<open>The invariant: the vector has room for every entry, that is, the 32-bit product that
  sized it did not wrap.\<close>

definition am_inv :: "array_map \<Rightarrow> bool" where
  "am_inv m \<longleftrightarrow> 0 < am_value_size m \<and>
     unat (am_value_size m) * unat (am_max_entries m) < 2 ^ 32 \<and>
     length (am_data m) = unat (am_value_size m) * unat (am_max_entries m)"

lemma unat_mult_nowrap:
  "unat (a :: u32) * unat b < 2 ^ 32 \<Longrightarrow> unat (a * b) = unat a * unat b"
  by (simp add: unat_word_ariths)

lemma am_inv_new:
  "0 < value_size \<Longrightarrow> unat value_size * unat max_entries < 2 ^ 32 \<Longrightarrow>
     am_inv (array_map_new value_size max_entries)"
  by (simp add: am_inv_def array_map_new_def unat_mult_nowrap)

lemma slot_mult_bound: "(k :: nat) < n \<Longrightarrow> k * s + s \<le> n * s"
  by (metis Suc_leI add.commute mult_Suc mult_le_mono1)

lemma slot_mult_disjoint: "(i :: nat) \<noteq> j \<Longrightarrow> i * s + s \<le> j * s \<or> j * s + s \<le> i * s"
  using slot_mult_bound [of i j s] slot_mult_bound [of j i s] by linarith

interpretation am: slot_layout "\<lambda>k. k * s" s "n * s" "\<lambda>k. k < n" for s n :: nat
  by unfold_locales (auto simp: slot_mult_bound slot_mult_disjoint)

lemma am_elem_at_inv:
  assumes "am_inv m" "k < am_max_entries m"
  shows "am_elem_at m k = Inr (unat k * unat (am_value_size m))"
proof -
  let ?vs = "unat (am_value_size m)" and ?n = "unat (am_max_entries m)"
  have k: "unat k < ?n" using assms(2) by (simp add: word_less_nat_alt)
  have vs: "0 < ?vs" using assms(1) by (simp add: am_inv_def word_less_nat_alt)
  have b: "unat k * ?vs + ?vs \<le> ?n * ?vs" using k by (rule slot_mult_bound)
  then have "unat k * ?vs < 2 ^ 32" using assms(1) vs by (simp add: am_inv_def mult.commute)
  then have "unat (k * am_value_size m) = unat k * ?vs" by (rule unat_mult_nowrap)
  with k vs assms(1) show ?thesis by (simp add: am_elem_at_def am_inv_def mult.commute)
qed

lemma am_value_inv:
  assumes "am_inv m" "k < am_max_entries m"
  shows "am_value m k =
    Some (seg (unat k * unat (am_value_size m)) (unat (am_value_size m)) (am_data m))"
proof -
  have "unat k < unat (am_max_entries m)" using assms(2) by (simp add: word_less_nat_alt)
  from slot_mult_bound [OF this, of "unat (am_value_size m)"] assms show ?thesis
    by (simp add: am_value_def am_elem_lookup_def am_elem_at_inv am_load_def am_inv_def
        mult.commute not_le [symmetric])
qed

lemma am_value_out: "am_max_entries m \<le> k \<Longrightarrow> am_value m k = None"
  by (simp add: am_value_def am_elem_lookup_def)

lemma am_update_inv:
  assumes inv: "am_inv m" and fl: "flags = BPF_ANY \<or> flags = BPF_EXIST"
    and k: "k < am_max_entries m" and v: "length v = unat (am_value_size m)"
  shows "am_elem_update m (st32 k) v flags =
    Inr (m\<lparr>am_data := put (unat k * unat (am_value_size m)) v (am_data m)\<rparr>)"
proof -
  have "unat k < unat (am_max_entries m)" using k by (simp add: word_less_nat_alt)
  from slot_mult_bound [OF this, of "unat (am_value_size m)"] inv
  have "unat k * unat (am_value_size m) + length v \<le> length (am_data m)"
    by (simp add: v am_inv_def mult.commute)
  moreover have "check_update_flags flags" "flags \<noteq> BPF_NOEXIST"
    using fl by (auto simp: check_update_flags_def flag_defs)
  ultimately show ?thesis using k inv
    by (simp add: am_elem_update_def am_elem_at_inv v not_le [symmetric])
qed

lemma am_update_value:
  assumes inv: "am_inv m" and fl: "flags = BPF_ANY \<or> flags = BPF_EXIST"
    and k: "k < am_max_entries m" and v: "length v = unat (am_value_size m)"
  shows "\<exists>m'. am_elem_update m (st32 k) v flags = Inr m' \<and> am_inv m' \<and>
    am_value m' = (am_value m)(k \<mapsto> v)"
proof -
  let ?vs = "unat (am_value_size m)" and ?n = "unat (am_max_entries m)"
  let ?m = "m\<lparr>am_data := put (unat k * ?vs) v (am_data m)\<rparr>"
  have len: "length (am_data m) = ?n * ?vs" using inv by (simp add: am_inv_def mult.commute)
  have kn: "unat k < ?n" using k by (simp add: word_less_nat_alt)
  have inv': "am_inv ?m"
    using inv am.write_length [OF kn len v] len by (simp add: am_inv_def)
  have "am_value ?m x = ((am_value m)(k \<mapsto> v)) x" for x
  proof (cases "x < am_max_entries m")
    case True
    then have xn: "unat x < ?n" by (simp add: word_less_nat_alt)
    show ?thesis
    proof (cases "x = k")
      case True
      then show ?thesis using am_value_inv [OF inv', of k] k am.read_same [OF kn len v] by simp
    next
      case False
      then have "unat k \<noteq> unat x" by (auto dest: unsigned_word_eqI)
      with True False am_value_inv [OF inv', of x] am_value_inv [OF inv, of x]
        am.read_other [OF kn xn _ len v] show ?thesis by simp
    qed
  next
    case False
    then have "am_max_entries m \<le> x" "x \<noteq> k" using k by auto
    then show ?thesis by (simp add: am_value_out)
  qed
  with inv' am_update_inv [OF assms] show ?thesis by auto
qed

text \<open>C10. Array map, update and lookup: on a map whose size did not wrap, an update of an
  existing slot with \<^verbatim>\<open>BPF_ANY\<close> or \<^verbatim>\<open>BPF_EXIST\<close> succeeds without leaving the buffer, keeps
  the invariant, and changes what lookups read at exactly that slot.\<close>

theorem array_update_lookup:
  assumes inv: "am_inv m" and fl: "flags = BPF_ANY \<or> flags = BPF_EXIST"
    and k: "k < am_max_entries m" and v: "length v = unat (am_value_size m)"
  shows "\<exists>m'. am_elem_update m (st32 k) v flags = Inr m' \<and> am_inv m' \<and>
    am_value m' = (am_value m)(k \<mapsto> v)"
  by (rule am_update_value [OF assms])

theorem array_update_lookup_witness:
  "\<exists>m'. am_elem_update (array_map_new 2 3) (st32 1) [7, 8] BPF_ANY = Inr m' \<and> am_inv m' \<and>
    am_value m' = (am_value (array_map_new 2 3))(1 \<mapsto> [7, 8])"
  by (rule array_update_lookup)
    (simp_all add: am_inv_def array_map_new_def)

text \<open>Array map, errors: an update fails exactly for unknown flags (\<^verbatim>\<open>EINVAL\<close>), for an
  index past the end (\<^verbatim>\<open>E2BIG\<close>) and for \<^verbatim>\<open>BPF_NOEXIST\<close> on an existing index
  (\<^verbatim>\<open>EEXIST\<close>); there is no other failure, in particular no access outside the buffer.\<close>

theorem array_update_errors:
  assumes "am_inv m" "length v = unat (am_value_size m)"
  shows "am_elem_update m (st32 k) v flags = Inl e \<longleftrightarrow>
    (\<not> check_update_flags flags \<and> e = Errno EINVAL) \<or>
    (check_update_flags flags \<and> am_max_entries m \<le> k \<and> e = Errno E2BIG) \<or>
    (flags = BPF_NOEXIST \<and> k < am_max_entries m \<and> e = Errno EEXIST)"
proof (cases "flags = BPF_NOEXIST")
  case True
  then show ?thesis
    by (auto simp: am_elem_update_def check_update_flags_def flag_defs not_le [symmetric])
next
  case False
  show ?thesis
  proof (cases "check_update_flags flags \<and> k < am_max_entries m")
    case True
    with False have "flags = BPF_ANY \<or> flags = BPF_EXIST"
      by (auto simp: check_update_flags_def flag_defs)
    with am_update_inv [OF assms(1) this _ assms(2)] True False show ?thesis by auto
  next
    case F: False
    with False show ?thesis by (auto simp: am_elem_update_def not_less)
  qed
qed

theorem array_update_errors_witness:
  "(am_elem_update (array_map_new 2 3) (st32 3) [7, 8] BPF_ANY = Inl (Errno E2BIG)) \<and>
   (am_elem_update (array_map_new 2 3) (st32 2) [7, 8] BPF_NOEXIST = Inl (Errno EEXIST))"
proof -
  have inv: "am_inv (array_map_new 2 3)" by (simp add: am_inv_def array_map_new_def)
  show ?thesis
    using array_update_errors [OF inv, of "[7, 8]" 3 BPF_ANY "Errno E2BIG"]
      array_update_errors [OF inv, of "[7, 8]" 2 BPF_NOEXIST "Errno EEXIST"]
    by (simp add: array_map_new_def check_update_flags_def flag_defs)
qed

text \<open>Array map, size: the vector is sized by a 32-bit product. With 65536 entries of
  65536 bytes the product wraps to 0, the constructor allocates nothing, and every lookup of
  an index below \<^verbatim>\<open>max_entries\<close> indexes past the end of the vector.\<close>

theorem array_size_wraps:
  "am_data (array_map_new 65536 65536) = [] \<and>
   am_elem_lookup (array_map_new 65536 65536) (st32 k) =
     (if 65536 \<le> k then Inl (Errno ENOENT) else Inl Fault)"
  by (simp add: array_map_new_def am_elem_lookup_def am_elem_at_def)

section \<open>Iteration over an index range\<close>

definition index_keys :: "nat \<Rightarrow> bytes list" where
  "index_keys n = map (\<lambda>i. st32 (of_nat i)) [0..<n]"

lemma index_keys_simps [simp]:
  "length (index_keys n) = n"
  "i < n \<Longrightarrow> index_keys n ! i = st32 (of_nat i)"
  by (simp_all add: index_keys_def)

lemma distinct_index_keys: "n \<le> 2 ^ 32 \<Longrightarrow> distinct (index_keys n)"
  by (auto simp: index_keys_def distinct_map inj_on_def u32_of_nat_inject)

lemma index_keys_first: "0 < n \<Longrightarrow> index_keys n = st32 0 # tl (index_keys n)"
  by (cases n) (simp_all add: index_keys_def upt_conv_Cons del: upt_Suc)

lemma set_index_keys: "n \<le> 2 ^ 32 \<Longrightarrow> st32 x \<in> set (index_keys n) \<longleftrightarrow> unat x < n"
proof
  assume "unat x < n"
  then show "st32 x \<in> set (index_keys n)"
    by (auto simp: index_keys_def intro!: image_eqI [where x = "unat x"])
next
  assume n: "n \<le> 2 ^ 32" and "st32 x \<in> set (index_keys n)"
  then obtain i where "i < n" "x = of_nat i" by (auto simp: index_keys_def)
  with n show "unat x < n" by (simp add: unat_of_nat_u32)
qed

text \<open>The successor step the array maps share: index \<open>k\<close> of \<open>n\<close> is followed by \<open>k + 1\<close>.\<close>

definition next_index :: "u32 \<Rightarrow> u32 \<Rightarrow> bytes res" where
  "next_index n k = (if k = n - 1 then Inl (Errno ENOENT) else Inr (st32 (k + 1)))"

lemma next_index_keys:
  assumes "i < unat n"
  shows "next_index n (of_nat i) =
    (if Suc i < unat n then Inr (index_keys (unat n) ! Suc i) else Inl (Errno ENOENT))"
proof -
  have ub: "unat n < 2 ^ 32" by (rule unat_u32_less)
  have "unat (n - 1) = unat n - 1" using assms by (simp add: unat_sub_if')
  then have "of_nat i = n - 1 \<longleftrightarrow> i = unat n - 1"
    using assms ub by (simp add: u32_of_nat_eq)
  moreover have "(of_nat i :: u32) + 1 = of_nat (Suc i)" by simp
  ultimately show ?thesis using assms by (auto simp: next_index_def)
qed

interpretation am_iter: key_iteration am_get_next_key
  "\<lambda>m. index_keys (unat (am_max_entries m))" "\<lambda>m. 0 < am_max_entries m" "\<lambda>m k. length k = 4"
proof (unfold_locales, goal_cases)
  case (1 m)
  then show ?case by (intro distinct_index_keys unat_u32_le)
next
  case (2 m)
  then have "0 < unat (am_max_entries m)" by (simp add: word_less_nat_alt)
  then obtain ks where "index_keys (unat (am_max_entries m)) = st32 0 # ks"
    using index_keys_first by blast
  then show ?case by (simp add: am_get_next_key_def)
next
  case (3 m i)
  then have "\<not> am_max_entries m \<le> of_nat i"
    using unat_u32_less [of "am_max_entries m"] by (simp add: word_le_nat_alt unat_of_nat_u32)
  with 3 next_index_keys [of i "am_max_entries m"] show ?case
    by (auto simp: am_get_next_key_def next_index_def)
next
  case (4 m k)
  then obtain x where x: "ld32 k = Some x" by (cases "ld32 k") auto
  with 4 have "k = st32 x" by (simp add: st32_ld32)
  with 4 have "am_max_entries m \<le> x"
    using set_index_keys [OF unat_u32_le] by (simp add: word_le_nat_alt)
  with x show ?case by (simp add: am_get_next_key_def)
qed

text \<open>Array map, iteration: the client loop over \<^verbatim>\<open>get_next_key\<close> from a null key, or from
  any key past the end, ends after \<^verbatim>\<open>max_entries\<close> keys and sees every index once, in order.\<close>

theorem array_walk:
  assumes "0 < am_max_entries m" "unat (am_max_entries m) < n"
  shows "walk (am_get_next_key m) n None = index_keys (unat (am_max_entries m)) \<and>
    (\<forall>k. am_max_entries m \<le> k \<longrightarrow>
       walk (am_get_next_key m) n (Some (st32 k)) = index_keys (unat (am_max_entries m)))"
proof (intro conjI allI impI)
  show "walk (am_get_next_key m) n None = index_keys (unat (am_max_entries m))"
    using assms by (intro am_iter.walk_all) auto
  fix k assume "am_max_entries m \<le> k"
  then have "st32 k \<notin> set (index_keys (unat (am_max_entries m)))"
    using set_index_keys [OF unat_u32_le] by (simp add: word_le_nat_alt)
  then show "walk (am_get_next_key m) n (Some (st32 k)) = index_keys (unat (am_max_entries m))"
    using assms by (intro am_iter.walk_restart) auto
qed

theorem array_walk_witness:
  "walk (am_get_next_key (array_map_new 2 3)) 4 None = [st32 0, st32 1, st32 2]"
  using array_walk [of "array_map_new 2 3" 4]
  by (simp add: array_map_new_def index_keys_def upt_rec)

end
