(* ===== verification/Percpu_Array.thy ===== *)
theory Percpu_Array
  imports Array_Maps
begin

text \<open>
  \<^verbatim>\<open>per_cpu_array_map.cpp\<close>: an array in which every entry has one value per CPU, laid out
  entry by entry and, inside an entry, CPU by CPU. eBPF programs see the value of the CPU
  they run on (\<^verbatim>\<open>my_sched_getcpu()\<close>, here the argument \<open>cpu\<close>); system calls see all
  values of an entry at once.
\<close>

record percpu_array =
  pa_data :: bytes
  pa_ncpu :: u32
  pa_value_size :: u32
  pa_max_ent :: u32

definition percpu_array_new :: "u32 \<Rightarrow> u32 \<Rightarrow> u32 \<Rightarrow> percpu_array" where
  "percpu_array_new value_size max_entries ncpu =
     \<lparr>pa_data = replicate (unat (max_entries * ncpu * value_size)) 0,
      pa_ncpu = ncpu, pa_value_size = value_size, pa_max_ent = max_entries\<rparr>"

text \<open>\<^verbatim>\<open>data_at\<close> computes in \<^verbatim>\<open>size_t\<close>.\<close>

definition pa_data_at :: "percpu_array \<Rightarrow> nat \<Rightarrow> nat \<Rightarrow> nat" where
  "pa_data_at m idx cpu =
     (idx * unat (pa_value_size m) * unat (pa_ncpu m) + cpu * unat (pa_value_size m)) mod 2 ^ 64"

definition pa_elem_lookup :: "percpu_array \<Rightarrow> nat \<Rightarrow> bytes option \<Rightarrow> ptr res" where
  "pa_elem_lookup m cpu key =
     (case key of None \<Rightarrow> Inl (Errno ENOENT)
      | Some kb \<Rightarrow> bindr (or_fault (ld32 kb)) (\<lambda>key_val.
          if pa_max_ent m \<le> key_val then Inl (Errno ENOENT)
          else Inr (PData (pa_data_at m (unat key_val) cpu))))"

text \<open>The two update functions differ in the bytes they copy and where they copy them.\<close>

definition pa_store :: "percpu_array \<Rightarrow> nat \<Rightarrow> bytes \<Rightarrow> nat \<Rightarrow> percpu_array res" where
  "pa_store m o' val n =
     bindr (or_fault (rd val 0 n)) (\<lambda>v.
     bindr (or_fault (wr (pa_data m) o' v)) (\<lambda>d. Inr (m\<lparr>pa_data := d\<rparr>)))"

definition pa_elem_update ::
    "percpu_array \<Rightarrow> nat \<Rightarrow> bytes option \<Rightarrow> bytes \<Rightarrow> u64 \<Rightarrow> percpu_array res" where
  "pa_elem_update m cpu key val flags =
     (if \<not> check_update_flags flags then Inl (Errno EINVAL)
      else case key of None \<Rightarrow> Inl (Errno ENOENT)
      | Some kb \<Rightarrow> bindr (or_fault (ld32 kb)) (\<lambda>key_val.
          if key_val < pa_max_ent m \<and> flags = BPF_NOEXIST then Inl (Errno EEXIST)
          else if pa_max_ent m \<le> key_val then Inl (Errno E2BIG)
          else pa_store m (pa_data_at m (unat key_val) cpu) val (unat (pa_value_size m))))"

definition pa_elem_delete :: "percpu_array \<Rightarrow> bytes option \<Rightarrow> percpu_array res" where
  "pa_elem_delete m key = Inl (Errno EINVAL)"

definition pa_get_next_key :: "percpu_array \<Rightarrow> bytes option \<Rightarrow> bytes res" where
  "pa_get_next_key m key =
     (case key of None \<Rightarrow> Inr (st32 0)
      | Some kb \<Rightarrow> bindr (or_fault (ld32 kb)) (\<lambda>deref_key.
          if pa_max_ent m \<le> deref_key then Inr (st32 0)
          else if deref_key = pa_max_ent m - 1 then Inl (Errno ENOENT)
          else Inr (st32 (deref_key + 1))))"

definition pa_elem_lookup_userspace :: "percpu_array \<Rightarrow> bytes option \<Rightarrow> ptr res" where
  "pa_elem_lookup_userspace m key =
     (case key of None \<Rightarrow> Inl (Errno ENOENT)
      | Some kb \<Rightarrow> bindr (or_fault (ld32 kb)) (\<lambda>key_val.
          if pa_max_ent m \<le> key_val then Inl (Errno ENOENT)
          else Inr (PData (pa_data_at m (unat key_val) 0))))"

definition pa_elem_update_userspace ::
    "percpu_array \<Rightarrow> bytes option \<Rightarrow> bytes \<Rightarrow> u64 \<Rightarrow> percpu_array res" where
  "pa_elem_update_userspace m key val flags =
     (if \<not> check_update_flags flags then Inl (Errno EINVAL)
      else case key of None \<Rightarrow> Inl (Errno ENOENT)
      | Some kb \<Rightarrow> bindr (or_fault (ld32 kb)) (\<lambda>key_val.
          if key_val < pa_max_ent m \<and> flags = BPF_NOEXIST then Inl (Errno EEXIST)
          else if pa_max_ent m \<le> key_val then Inl (Errno E2BIG)
          else pa_store m (pa_data_at m (unat key_val) 0) val
                 (unat (pa_ncpu m * pa_value_size m))))"

definition pa_elem_delete_userspace :: "percpu_array \<Rightarrow> bytes option \<Rightarrow> percpu_array res" where
  "pa_elem_delete_userspace m key = Inl (Errno EINVAL)"

text \<open>What the program on \<open>cpu\<close> reads for index \<open>k\<close>, and what a system call reads.\<close>

definition pa_value :: "percpu_array \<Rightarrow> nat \<Rightarrow> u32 \<Rightarrow> bytes option" where
  "pa_value m cpu k =
     (case pa_elem_lookup m cpu (Some (st32 k)) of
        Inr (PData o') \<Rightarrow> rd (pa_data m) o' (unat (pa_value_size m)) | _ \<Rightarrow> None)"

definition pa_value_all :: "percpu_array \<Rightarrow> u32 \<Rightarrow> bytes option" where
  "pa_value_all m k =
     (case pa_elem_lookup_userspace m (Some (st32 k)) of
        Inr (PData o') \<Rightarrow> rd (pa_data m) o' (unat (pa_value_size m) * unat (pa_ncpu m)) | _ \<Rightarrow> None)"

section \<open>Layout\<close>

definition pa_inv :: "percpu_array \<Rightarrow> bool" where
  "pa_inv m \<longleftrightarrow> 0 < pa_value_size m \<and> 0 < pa_ncpu m \<and>
     unat (pa_max_ent m) * unat (pa_ncpu m) * unat (pa_value_size m) < 2 ^ 32 \<and>
     length (pa_data m) = unat (pa_max_ent m) * unat (pa_ncpu m) * unat (pa_value_size m)"

lemma pa_inv_new:
  assumes "0 < vs" "0 < nc" "unat n * unat nc * unat vs < 2 ^ 32"
  shows "pa_inv (percpu_array_new vs n nc)"
proof -
  have "0 < unat vs" using assms(1) by (simp add: word_less_nat_alt)
  then have "unat n * unat nc * 1 \<le> unat n * unat nc * unat vs"
    by (intro mult_le_mono) auto
  then have "unat n * unat nc < 2 ^ 32" using assms(3) by linarith
  then have "unat (n * nc) = unat n * unat nc" by (rule unat_mult_nowrap)
  with assms(3) have "unat (n * nc * vs) = unat n * unat nc * unat vs"
    by (simp add: unat_mult_nowrap)
  with assms show ?thesis by (simp add: pa_inv_def percpu_array_new_def)
qed

text \<open>Cell \<open>(k, c)\<close> is cell number \<open>k * nc + c\<close> of a flat array of \<open>n * nc\<close> cells.\<close>

lemma flat_cell: "k * s * nc + c * s = (k * nc + c) * (s :: nat)"
  by (simp add: algebra_simps)

lemma flat_bound: "(k :: nat) < n \<Longrightarrow> c < nc \<Longrightarrow> k * nc + c < n * nc"
  using slot_mult_bound [of k n nc] by linarith

lemma flat_inj:
  assumes "(c :: nat) < nc" "c' < nc" "k * nc + c = k' * nc + c'"
  shows "k = k' \<and> c = c'"
proof -
  have "(k * nc + c) div nc = k" using assms(1) by simp
  moreover have "(k' * nc + c') div nc = k'" using assms(2) by simp
  ultimately show ?thesis using assms(3) by auto
qed

interpretation pa: slot_layout "\<lambda>(k, c). (k * nc + c) * s" s "n * nc * s" "\<lambda>(k, c). k < n \<and> c < nc"
  for s n nc :: nat
proof (unfold_locales, goal_cases)
  case (1 i)
  then show ?case using slot_mult_bound [OF flat_bound, of "fst i" n "snd i" nc s]
    by (auto split: prod.splits)
next
  case (2 i j)
  then have "fst i * nc + snd i \<noteq> fst j * nc + snd j"
    using flat_inj [of "snd i" nc "snd j" "fst i" "fst j"] by (auto split: prod.splits simp: prod_eq_iff)
  from slot_mult_disjoint [OF this, of s] show ?case by (auto split: prod.splits)
qed

lemma pa_data_at_inv:
  assumes "pa_inv m" "k < pa_max_ent m" "c < unat (pa_ncpu m)"
  shows "pa_data_at m (unat k) c = (unat k * unat (pa_ncpu m) + c) * unat (pa_value_size m)"
    and "(unat k * unat (pa_ncpu m) + c) * unat (pa_value_size m) + unat (pa_value_size m)
      \<le> length (pa_data m)"
proof -
  have k: "unat k < unat (pa_max_ent m)" using assms(2) by (simp add: word_less_nat_alt)
  show b: "(unat k * unat (pa_ncpu m) + c) * unat (pa_value_size m) + unat (pa_value_size m)
      \<le> length (pa_data m)"
    using slot_mult_bound [OF flat_bound [OF k assms(3)]] assms(1) by (simp add: pa_inv_def)
  then have "(unat k * unat (pa_ncpu m) + c) * unat (pa_value_size m) < 2 ^ 64"
    using assms(1) by (simp add: pa_inv_def)
  then show "pa_data_at m (unat k) c = (unat k * unat (pa_ncpu m) + c) * unat (pa_value_size m)"
    unfolding pa_data_at_def flat_cell by (rule mod_less)
qed

lemma pa_value_inv:
  assumes "pa_inv m" "k < pa_max_ent m" "c < unat (pa_ncpu m)"
  shows "pa_value m c k = Some (seg ((unat k * unat (pa_ncpu m) + c) * unat (pa_value_size m))
    (unat (pa_value_size m)) (pa_data m))"
  using assms pa_data_at_inv [OF assms]
  by (simp add: pa_value_def pa_elem_lookup_def not_le [symmetric])

text \<open>Per-CPU array, update by a program: it succeeds for a valid index and CPU, keeps the
  invariant, and changes the value of that CPU at that index only.\<close>

theorem percpu_array_update_local:
  assumes inv: "pa_inv m" and fl: "flags = BPF_ANY \<or> flags = BPF_EXIST"
    and k: "k < pa_max_ent m" and c: "c < unat (pa_ncpu m)"
    and v: "length v = unat (pa_value_size m)"
  shows "\<exists>m'. pa_elem_update m c (Some (st32 k)) v flags = Inr m' \<and> pa_inv m' \<and>
    (\<forall>k' < pa_max_ent m. \<forall>c' < unat (pa_ncpu m).
       pa_value m' c' k' = (if k' = k \<and> c' = c then Some v else pa_value m c' k'))"
proof -
  let ?s = "unat (pa_value_size m)" and ?nc = "unat (pa_ncpu m)" and ?n = "unat (pa_max_ent m)"
  let ?m = "m\<lparr>pa_data := put ((unat k * ?nc + c) * ?s) v (pa_data m)\<rparr>"
  have len: "length (pa_data m) = ?n * ?nc * ?s" using inv by (simp add: pa_inv_def)
  have valid: "case (unat k, c) of (k, c) \<Rightarrow> k < ?n \<and> c < ?nc"
    using k c by (simp add: word_less_nat_alt)
  have fl': "check_update_flags flags" "flags \<noteq> BPF_NOEXIST"
    using fl by (auto simp: check_update_flags_def flag_defs)
  have upd: "pa_elem_update m c (Some (st32 k)) v flags = Inr ?m"
    using fl' k pa_data_at_inv [OF inv k c] v
    by (simp add: pa_elem_update_def pa_store_def not_le [symmetric])
  have inv': "pa_inv ?m"
    using inv pa.write_length [OF valid len v] len by (simp add: pa_inv_def)
  have "pa_value ?m c' k' = (if k' = k \<and> c' = c then Some v else pa_value m c' k')"
    if k': "k' < pa_max_ent m" and c': "c' < ?nc" for k' c'
  proof (cases "k' = k \<and> c' = c")
    case True
    then show ?thesis using pa_value_inv [OF inv', of k c] k c pa.read_same [OF valid len v] by simp
  next
    case False
    then have ne: "(unat k, c) \<noteq> (unat k', c')" by (auto dest: unsigned_word_eqI)
    have valid': "case (unat k', c') of (k, c) \<Rightarrow> k < ?n \<and> c < ?nc"
      using k' c' by (simp add: word_less_nat_alt)
    from False pa_value_inv [OF inv', of k' c'] pa_value_inv [OF inv, of k' c'] k' c'
      pa.read_other [OF valid valid' ne len v] show ?thesis by auto
  qed
  with upd inv' show ?thesis by blast
qed

theorem percpu_array_update_local_witness:
  "\<exists>m'. pa_elem_update (percpu_array_new 1 2 4) 3 (Some (st32 1)) [9] BPF_ANY = Inr m' \<and> pa_inv m' \<and>
    (\<forall>k' < pa_max_ent (percpu_array_new 1 2 4). \<forall>c' < unat (pa_ncpu (percpu_array_new 1 2 4)).
       pa_value m' c' k' =
         (if k' = 1 \<and> c' = 3 then Some [9] else pa_value (percpu_array_new 1 2 4) c' k'))"
  by (rule percpu_array_update_local)
    (simp_all add: pa_inv_def percpu_array_new_def)

lemma pa_row_bounds:
  assumes inv: "pa_inv m" and k: "k < pa_max_ent m"
  shows "unat (pa_ncpu m * pa_value_size m) = unat (pa_ncpu m) * unat (pa_value_size m)"
    and "unat k * unat (pa_ncpu m) * unat (pa_value_size m) +
      unat (pa_ncpu m) * unat (pa_value_size m) \<le> length (pa_data m)"
proof -
  have kn: "unat k < unat (pa_max_ent m)" using k by (simp add: word_less_nat_alt)
  show b: "unat k * unat (pa_ncpu m) * unat (pa_value_size m) +
      unat (pa_ncpu m) * unat (pa_value_size m) \<le> length (pa_data m)"
    using slot_mult_bound [OF kn, of "unat (pa_ncpu m) * unat (pa_value_size m)"] inv
    by (simp add: pa_inv_def mult.assoc)
  then have "unat (pa_ncpu m) * unat (pa_value_size m) < 2 ^ 32"
    using inv by (simp add: pa_inv_def)
  then show "unat (pa_ncpu m * pa_value_size m) = unat (pa_ncpu m) * unat (pa_value_size m)"
    by (rule unat_mult_nowrap)
qed

text \<open>Per-CPU array, update by a system call: it replaces the values of all CPUs of one
  index, and a program on any CPU then reads its part of the buffer.\<close>

theorem percpu_array_update_userspace:
  assumes inv: "pa_inv m" and fl: "flags = BPF_ANY \<or> flags = BPF_EXIST"
    and k: "k < pa_max_ent m"
    and v: "length v = unat (pa_ncpu m) * unat (pa_value_size m)"
  shows "\<exists>m'. pa_elem_update_userspace m (Some (st32 k)) v flags = Inr m' \<and> pa_inv m' \<and>
    (\<forall>c < unat (pa_ncpu m). pa_value m' c k =
       Some (seg (c * unat (pa_value_size m)) (unat (pa_value_size m)) v))"
proof -
  let ?s = "unat (pa_value_size m)" and ?nc = "unat (pa_ncpu m)"
  let ?m = "m\<lparr>pa_data := put (unat k * ?nc * ?s) v (pa_data m)\<rparr>"
  have nc0: "0 < ?nc" using inv by (simp add: pa_inv_def word_less_nat_alt)
  note row = pa_row_bounds [OF inv k]
  have at: "pa_data_at m (unat k) 0 = unat k * ?nc * ?s"
    using pa_data_at_inv(1) [OF inv k nc0] by simp
  have fl': "check_update_flags flags" "flags \<noteq> BPF_NOEXIST"
    using fl by (auto simp: check_update_flags_def flag_defs)
  have upd: "pa_elem_update_userspace m (Some (st32 k)) v flags = Inr ?m"
    using fl' k row v at by (simp add: pa_elem_update_userspace_def pa_store_def not_le [symmetric])
  have inv': "pa_inv ?m" using inv row v by (simp add: pa_inv_def length_put)
  have "pa_value ?m c k = Some (seg (c * ?s) ?s v)" if c: "c < ?nc" for c
  proof -
    have "(unat k * ?nc + c) * ?s = unat k * ?nc * ?s + c * ?s" by (simp add: algebra_simps)
    then have "pa_value ?m c k =
        Some (seg (c * ?s) ?s (seg (unat k * ?nc * ?s) (?nc * ?s) (put (unat k * ?nc * ?s) v (pa_data m))))"
      using pa_value_inv [OF inv', of k c] k c slot_mult_bound [OF c, of ?s] by (simp add: seg_seg)
    then show ?thesis using seg_put_same [of "unat k * ?nc * ?s" v "pa_data m"] row v by simp
  qed
  with upd inv' show ?thesis by blast
qed

theorem percpu_array_update_userspace_witness:
  "\<exists>m'. pa_elem_update_userspace (percpu_array_new 1 2 4) (Some (st32 1)) [1, 2, 3, 4] BPF_ANY = Inr m' \<and>
    pa_inv m' \<and> (\<forall>c < unat (pa_ncpu (percpu_array_new 1 2 4)). pa_value m' c 1 =
       Some (seg (c * unat (pa_value_size (percpu_array_new 1 2 4)))
         (unat (pa_value_size (percpu_array_new 1 2 4))) [1, 2, 3, 4]))"
  by (rule percpu_array_update_userspace)
    (simp_all add: pa_inv_def percpu_array_new_def)

interpretation pa_iter: key_iteration pa_get_next_key
  "\<lambda>m. index_keys (unat (pa_max_ent m))" "\<lambda>m. 0 < pa_max_ent m" "\<lambda>m k. length k = 4"
proof -
  let ?am = "\<lambda>m. \<lparr>am_data = pa_data m, am_value_size = pa_value_size m, am_max_entries = pa_max_ent m\<rparr>"
  have eq: "pa_get_next_key m k = am_get_next_key (?am m) k" for m k
    by (cases k) (simp_all add: pa_get_next_key_def am_get_next_key_def cong: if_cong)
  show "key_iteration pa_get_next_key (\<lambda>m. index_keys (unat (pa_max_ent m)))
      (\<lambda>m. 0 < pa_max_ent m) (\<lambda>m k. length k = 4)"
  proof (unfold_locales, goal_cases)
    case (1 m) then show ?case using am_iter.keys_distinct [of "?am m"] by simp
  next
    case (2 m) then show ?case using am_iter.next_first [of "?am m"] by (simp add: eq)
  next
    case (3 m i) then show ?case using am_iter.next_step [of "?am m" i] by (simp add: eq)
  next
    case (4 m k) then show ?case using am_iter.next_missing [of "?am m" k] by (simp add: eq)
  qed
qed

end
