(* ===== verification/Fd_Arrays.thy ===== *)
theory Fd_Arrays
  imports Array_Maps
begin

text \<open>
  The arrays of \<^verbatim>\<open>int32_t\<close>: \<^verbatim>\<open>perf_event_array_map.cpp\<close> (a file descriptor per CPU),
  \<^verbatim>\<open>prog_array.cpp\<close> (program ids for tail calls; the kernel translates file descriptors
  to ids and back) and \<^verbatim>\<open>map_in_maps.hpp\<close>. An \<^verbatim>\<open>int32_t\<close> is a 32-bit word read with
  \<open>sint\<close>; the empty slot is -1.
\<close>

section \<open>perf_event_array_map_impl\<close>

type_synonym fd_vec = "u32 list"

text \<open>\<^verbatim>\<open>k < 0 || (size_t)k >= data.size()\<close>\<close>

definition fd_slot :: "fd_vec \<Rightarrow> bytes \<Rightarrow> nat res" where
  "fd_slot d key =
     bindr (or_fault (ld32 key)) (\<lambda>x. let k = sint x in
       if k < 0 \<or> int (length d) \<le> k then Inl (Errno EINVAL) else Inr (nat k))"

definition perf_event_array_new :: "u32 \<Rightarrow> u32 \<Rightarrow> u32 \<Rightarrow> fd_vec res" where
  "perf_event_array_new key_size value_size max_entries =
     (if key_size \<noteq> 4 \<or> value_size \<noteq> 4 then Inl Throw
      else Inr (replicate (unat max_entries) (- 1)))"

definition pe_elem_lookup :: "fd_vec \<Rightarrow> bytes \<Rightarrow> ptr res" where
  "pe_elem_lookup d key = bindr (fd_slot d key) (\<lambda>k. Inr (PSlot k))"

definition pe_elem_update :: "fd_vec \<Rightarrow> bytes \<Rightarrow> bytes \<Rightarrow> u64 \<Rightarrow> fd_vec res" where
  "pe_elem_update d key val flags =
     bindr (fd_slot d key) (\<lambda>k. bindr (or_fault (ld32 val)) (\<lambda>v. Inr (d[k := v])))"

definition pe_elem_delete :: "fd_vec \<Rightarrow> bytes \<Rightarrow> fd_vec res" where
  "pe_elem_delete d key = bindr (fd_slot d key) (\<lambda>k. Inr (d[k := - 1]))"

text \<open>The test for the last key comes before the range test, and \<^verbatim>\<open>k + 1\<close> is a signed
  addition (undefined for \<^verbatim>\<open>INT_MAX\<close>) converted to \<^verbatim>\<open>size_t\<close>.\<close>

definition fd_next_key :: "fd_vec \<Rightarrow> bytes option \<Rightarrow> bytes res" where
  "fd_next_key d key =
     (case key of None \<Rightarrow> Inr (st32 0)
      | Some kb \<Rightarrow> bindr (or_fault (ld32 kb)) (\<lambda>x. let k = sint x in
          if k = 2 ^ 31 - 1 then Inl Fault
          else if (k + 1) mod 2 ^ 64 = int (length d) then Inl (Errno ENOENT)
          else if k < 0 \<or> int (length d) \<le> k then Inl (Errno EINVAL)
          else Inr (st32 (word_of_int (k + 1)))))"

definition pe_get_next_key :: "fd_vec \<Rightarrow> bytes option \<Rightarrow> bytes res" where
  "pe_get_next_key = fd_next_key"

definition pe_value :: "fd_vec \<Rightarrow> nat \<Rightarrow> u32 option" where
  "pe_value d i = (case pe_elem_lookup d (st32 (of_nat i)) of Inr (PSlot k) \<Rightarrow> Some (d ! k) | _ \<Rightarrow> None)"

text \<open>Indices below \<open>2^31\<close> are the ones an \<^verbatim>\<open>int32_t\<close> key can name.\<close>

lemma sint_of_nat: "i < 2 ^ 31 \<Longrightarrow> sint (of_nat i :: u32) = int i"
  by (simp add: sint_uint uint_nat unat_of_nat signed_take_bit_int_eq_self)

lemma fd_slot_of_nat:
  "i < 2 ^ 31 \<Longrightarrow> fd_slot d (st32 (of_nat i)) = (if i < length d then Inr i else Inl (Errno EINVAL))"
  by (simp add: fd_slot_def sint_of_nat)

lemma fd_slot_negative: "sint x < 0 \<Longrightarrow> fd_slot d (st32 x) = Inl (Errno EINVAL)"
  by (simp add: fd_slot_def)

lemma pe_value_of_nat: "i < 2 ^ 31 \<Longrightarrow> pe_value d i = (if i < length d then Some (d ! i) else None)"
  by (simp add: pe_value_def pe_elem_lookup_def fd_slot_of_nat)

lemma pe_update_lookup:
  assumes "length d \<le> 2 ^ 31" "i < length d"
  shows "pe_elem_update d (st32 (of_nat i)) (st32 v) flags = Inr (d[i := v])"
    and "j < 2 ^ 31 \<Longrightarrow> pe_value (d[i := v]) j = ((pe_value d)(i \<mapsto> v)) j"
  using assms by (simp_all add: pe_elem_update_def fd_slot_of_nat pe_value_of_nat)

lemma fd_next_of_nat:
  assumes "i < 2 ^ 31 - 1"
  shows "fd_next_key d (Some (st32 (of_nat i))) =
    (if Suc i = length d then Inl (Errno ENOENT)
     else if length d \<le> i then Inl (Errno EINVAL) else Inr (st32 (of_nat (Suc i))))"
proof -
  have "sint (of_nat i :: u32) = int i" using assms by (simp add: sint_of_nat)
  moreover have "(int i + 1) mod 2 ^ 64 = int (Suc i)" using assms by simp
  moreover have "word_of_int (int i + 1) = (of_nat (Suc i) :: u32)" by simp
  moreover have "int i \<noteq> 2 ^ 31 - 1" using assms by auto
  ultimately show ?thesis by (simp add: fd_next_key_def Let_def)
qed

interpretation pe_iter: key_cursor pe_get_next_key "\<lambda>d. index_keys (length d)"
  "\<lambda>d. d \<noteq> [] \<and> length d < 2 ^ 31"
proof (unfold_locales, goal_cases)
  case (1 d)
  then show ?case by (intro distinct_index_keys) simp
next
  case (2 d)
  then obtain ks where "index_keys (length d) = st32 0 # ks" using index_keys_first by blast
  then show ?case by (simp add: pe_get_next_key_def fd_next_key_def)
next
  case (3 d i)
  then show ?case by (simp add: pe_get_next_key_def fd_next_of_nat)
qed

section \<open>prog_array_map_impl\<close>

text \<open>
  \<^verbatim>\<open>my_bpf_syscall_fd\<close> calls the kernel and retries while the result is
  \<^verbatim>\<open>-EAGAIN\<close> (-11), at most five times. The results of the successive calls are the
  argument \<open>sys\<close>; the second component of the result counts the calls made.
\<close>

fun syscall_retry :: "(nat \<Rightarrow> int) \<Rightarrow> nat \<Rightarrow> nat \<Rightarrow> int \<times> nat" where
  "syscall_retry sys i 0 = (sys i, Suc i)"
| "syscall_retry sys i (Suc left) =
     (let fd = sys i in if fd < 0 \<and> fd = - 11 \<and> 0 < left then syscall_retry sys (Suc i) left else (fd, Suc i))"

definition my_bpf_syscall_fd :: "(nat \<Rightarrow> int) \<Rightarrow> int \<times> nat" where
  "my_bpf_syscall_fd sys = syscall_retry sys 0 5"

text \<open>At most five calls; and when the calls report errors the way libc's \<^verbatim>\<open>syscall\<close> does,
  as -1, the retry never happens.\<close>

lemma syscall_retry_calls: "snd (syscall_retry sys i n) \<le> i + max 1 n"
proof (induction sys i n rule: syscall_retry.induct)
  case (1 sys i)
  then show ?case by simp
next
  case (2 sys i left)
  show ?case
  proof (cases "sys i = - 11 \<and> 0 < left")
    case True
    with 2 have "snd (syscall_retry sys (Suc i) left) \<le> Suc i + max 1 left" by simp
    with True show ?thesis by (simp add: Let_def)
  next
    case False
    then show ?thesis by (auto simp: Let_def)
  qed
qed

lemma syscall_fd_no_retry: "- 1 \<le> sys 0 \<Longrightarrow> my_bpf_syscall_fd sys = (sys 0, 1)"
  by (simp add: my_bpf_syscall_fd_def numeral_eq_Suc Let_def)

definition my_bpf_prog_get_fd_by_id :: "(u32 \<Rightarrow> nat \<Rightarrow> int) \<Rightarrow> u32 \<Rightarrow> int" where
  "my_bpf_prog_get_fd_by_id sys ident = fst (my_bpf_syscall_fd (sys ident))"

definition prog_array_new :: "u32 \<Rightarrow> u32 \<Rightarrow> u32 \<Rightarrow> fd_vec res" where
  "prog_array_new key_size value_size max_entries =
     (if key_size \<noteq> 4 \<or> value_size \<noteq> 4 then Inl Throw
      else Inr (replicate (unat max_entries) (- 1)))"

definition pr_elem_lookup :: "(u32 \<Rightarrow> nat \<Rightarrow> int) \<Rightarrow> fd_vec \<Rightarrow> bytes \<Rightarrow> ptr res" where
  "pr_elem_lookup sys d key =
     bindr (fd_slot d key) (\<lambda>k.
       let fd = my_bpf_prog_get_fd_by_id sys (d ! k) in Inr (PTls (word_of_int fd)))"

text \<open>\<open>obj_info fd\<close> is the kernel's answer to \<^verbatim>\<open>BPF_OBJ_GET_INFO_BY_FD\<close>: an error code and
  the program id.\<close>

definition pr_elem_update :: "(u32 \<Rightarrow> int \<times> u32) \<Rightarrow> fd_vec \<Rightarrow> bytes \<Rightarrow> bytes \<Rightarrow> u64 \<Rightarrow> fd_vec res" where
  "pr_elem_update obj_info d key val flags =
     bindr (fd_slot d key) (\<lambda>k. bindr (or_fault (ld32 val)) (\<lambda>v.
       let (e, ident) = obj_info v in if e < 0 then Inl Silent else Inr (d[k := ident])))"

definition pr_elem_delete :: "fd_vec \<Rightarrow> bytes \<Rightarrow> fd_vec res" where
  "pr_elem_delete d key = bindr (fd_slot d key) (\<lambda>k. Inr (d[k := - 1]))"

definition pr_get_next_key :: "fd_vec \<Rightarrow> bytes option \<Rightarrow> bytes res" where
  "pr_get_next_key = fd_next_key"

interpretation pr_iter: key_cursor pr_get_next_key "\<lambda>d. index_keys (length d)"
  "\<lambda>d. d \<noteq> [] \<and> length d < 2 ^ 31"
  unfolding pr_get_next_key_def pe_get_next_key_def [symmetric] by unfold_locales

text \<open>Prog array, update and lookup: a program stored under a descriptor is found again
  through a descriptor of the same program, when the kernel maps the first descriptor to an
  id and that id to the second descriptor; and the entry of no other index changes.\<close>

theorem prog_array_update_lookup:
  assumes d: "length d \<le> 2 ^ 31" "i < length d"
    and info: "obj_info v = (0, ident)" and live: "sys ident 0 = int fd"
  shows "\<exists>d'. pr_elem_update obj_info d (st32 (of_nat i)) (st32 v) flags = Inr d' \<and>
    pr_elem_lookup sys d' (st32 (of_nat i)) = Inr (PTls (of_nat fd)) \<and>
    (\<forall>j < length d. j \<noteq> i \<longrightarrow>
       pr_elem_lookup sys d' (st32 (of_nat j)) = pr_elem_lookup sys d (st32 (of_nat j)))"
proof -
  have "my_bpf_prog_get_fd_by_id sys ident = int fd"
    by (simp add: my_bpf_prog_get_fd_by_id_def my_bpf_syscall_fd_def live
        numeral_eq_Suc Let_def)
  with assms show ?thesis
    by (simp add: pr_elem_update_def pr_elem_lookup_def fd_slot_of_nat)
qed

theorem prog_array_update_lookup_witness:
  "\<exists>d'. pr_elem_update (\<lambda>fd. (0, fd + 100)) [- 1, - 1] (st32 (of_nat 1)) (st32 5) 0 = Inr d' \<and>
    pr_elem_lookup (\<lambda>x i. if x = 105 then int 6 else - 1) d' (st32 (of_nat 1)) = Inr (PTls (of_nat 6)) \<and>
    (\<forall>j < length [- 1 :: u32, - 1]. j \<noteq> 1 \<longrightarrow>
       pr_elem_lookup (\<lambda>x i. if x = 105 then int 6 else - 1) d' (st32 (of_nat j)) =
       pr_elem_lookup (\<lambda>x i. if x = 105 then int 6 else - 1) [- 1, - 1] (st32 (of_nat j)))"
  by (rule prog_array_update_lookup [where ident = 105]) simp_all

text \<open>Prog array, retry: \<^verbatim>\<open>my_bpf_syscall_fd\<close> makes at most five calls; but libc's
  \<^verbatim>\<open>syscall\<close> reports every error as -1, and with such results the retry on
  \<^verbatim>\<open>-EAGAIN\<close> never happens: the first result is final.\<close>

theorem prog_array_no_retry:
  "snd (my_bpf_syscall_fd sys) \<le> 5 \<and> (- 1 \<le> sys 0 \<longrightarrow> my_bpf_syscall_fd sys = (sys 0, 1))"
  using syscall_retry_calls [of sys 0 5] syscall_fd_no_retry [of sys]
  by (simp add: my_bpf_syscall_fd_def)

theorem prog_array_no_retry_witness: "my_bpf_syscall_fd (\<lambda>i. if i = 0 then - 1 else 3) = (- 1, 1)"
  using prog_array_no_retry [of "\<lambda>i. if i = 0 then - 1 else 3"] by simp

text \<open>Descriptor arrays, iteration: the client loop sees every index once and stops; but a
  key that is not an index does not restart the iteration as the interface promises, it fails
  with \<^verbatim>\<open>EINVAL\<close>.\<close>

theorem fd_array_walk:
  assumes "d \<noteq> []" "length d < 2 ^ 31 - 1" "length d < n"
  shows "walk (pr_get_next_key d) n None = index_keys (length d) \<and>
    walk (pe_get_next_key d) n None = index_keys (length d) \<and>
    pr_get_next_key d (Some (st32 (of_nat (length d)))) = Inl (Errno EINVAL)"
proof (intro conjI)
  show "walk (pr_get_next_key d) n None = index_keys (length d)"
    using assms by (intro pr_iter.walk_all) auto
  show "walk (pe_get_next_key d) n None = index_keys (length d)"
    using assms by (intro pe_iter.walk_all) auto
  show "pr_get_next_key d (Some (st32 (of_nat (length d)))) = Inl (Errno EINVAL)"
    using assms(2) by (simp add: pr_get_next_key_def fd_next_of_nat)
qed

theorem fd_array_walk_witness:
  "walk (pr_get_next_key [5, 6]) 3 None = [st32 0, st32 1]"
  using fd_array_walk [of "[5, 6]" 3] by (simp add: index_keys_def upt_rec)

section \<open>array_map_of_maps_impl\<close>

definition array_of_maps_new :: "u32 \<Rightarrow> array_map" where
  "array_of_maps_new max_entries = array_map_new 4 max_entries"

text \<open>The lookup dereferences the slot without testing the pointer, and returns the inner
  map's id in the upper half of a word (\<^verbatim>\<open>(u_int64_t)map_id << 32\<close>).\<close>

definition mm_elem_lookup :: "array_map \<Rightarrow> bytes \<Rightarrow> ptr res" where
  "mm_elem_lookup m key =
     (case am_elem_lookup m key of Inl e \<Rightarrow> Inl Fault
      | Inr p \<Rightarrow>
          (case p of PData o' \<Rightarrow>
             bindr (or_fault (rd (am_data m) o' 4)) (\<lambda>b.
             bindr (or_fault (ld32 b)) (\<lambda>map_id. Inr (PRaw (push_bit 32 (scast map_id)))))
           | _ \<Rightarrow> Inl Fault))"

lemma mm_update_lookup:
  assumes inv: "am_inv m" and vs: "am_value_size m = 4"
    and k: "k < am_max_entries m" and upd: "am_elem_update m (st32 k) (st32 v) BPF_ANY = Inr m'"
  shows "mm_elem_lookup m' (st32 k) = Inr (PRaw (push_bit 32 (scast v)))"
proof -
  have m': "m' = m\<lparr>am_data := put (unat k * 4) (st32 v) (am_data m)\<rparr>"
    using am_update_inv [OF inv, of BPF_ANY k "st32 v"] k vs upd by simp
  have kn: "unat k < unat (am_max_entries m)" using k by (simp add: word_less_nat_alt)
  have len: "length (am_data m) = unat (am_max_entries m) * 4" using inv vs by (simp add: am_inv_def)
  have inv': "am_inv m'"
    using inv am.write_length [OF kn len, of "st32 v"] len by (simp add: m' am_inv_def vs)
  have "am_elem_lookup m' (st32 k) = Inr (PData (unat k * 4))"
    using am_elem_at_inv [OF inv', of k] k vs by (simp add: m' am_elem_lookup_def not_le [symmetric])
  moreover have "rd (am_data m') (unat k * 4) 4 = Some (st32 v)"
    using am.read_same [OF kn len, of "st32 v"] am.write_length [OF kn len, of "st32 v"]
      slot_mult_bound [OF kn, of 4] by (simp add: m')
  ultimately show ?thesis by (simp add: mm_elem_lookup_def)
qed

end
