(* ===== verification/Prime_Buckets.thy ===== *)
theory Prime_Buckets
  imports Bpf_Prelude
begin

text \<open>
  How \<^verbatim>\<open>bpftime_hash_map\<close> chooses its number of buckets: \<^verbatim>\<open>is_prime\<close> tests the candidates
  by trial division with the numbers \<open>6k \<plusminus> 1\<close>, and \<^verbatim>\<open>next_prime\<close> counts upwards until
  the test succeeds. The request comes from a 32-bit \<^verbatim>\<open>max_entries\<close>, so the products
  \<^verbatim>\<open>i * i\<close> stay below \<open>2^64\<close> and natural numbers are faithful.
\<close>

function prime_loop :: "nat \<Rightarrow> nat \<Rightarrow> bool" where
  "prime_loop n i =
     (if i * i \<le> n
      then if n mod i = 0 \<or> n mod (i + 2) = 0 then False else prime_loop n (i + 6)
      else True)"
  by pat_completeness auto
termination
proof (relation "measure (\<lambda>(n, i). Suc n - i)")
  fix n i :: nat
  assume "i * i \<le> n"
  then have "i \<le> n" by (metis le_square le_trans)
  then show "((n, i + 6), n, i) \<in> measure (\<lambda>(n, i). Suc n - i)" by simp
qed simp

declare prime_loop.simps [simp del]

definition is_prime :: "nat \<Rightarrow> bool" where
  "is_prime n =
     (if n \<le> 1 then False else if n \<le> 3 then True
      else if n mod 2 = 0 \<or> n mod 3 = 0 then False
      else prime_loop n 5)"

text \<open>The specification: no divisor but 1 and itself.\<close>

definition prime_nat :: "nat \<Rightarrow> bool" where
  "prime_nat n \<longleftrightarrow> 1 < n \<and> (\<forall>d. d dvd n \<longrightarrow> d = 1 \<or> d = n)"

lemma prime_loop_iff:
  "prime_loop n i \<longleftrightarrow>
     (\<forall>j. (i + 6 * j) * (i + 6 * j) \<le> n \<longrightarrow> \<not> (i + 6 * j) dvd n \<and> \<not> (i + 6 * j + 2) dvd n)"
proof (induction n i rule: prime_loop.induct)
  case (1 n i)
  show ?case
  proof (cases "i * i \<le> n \<and> \<not> i dvd n \<and> \<not> (i + 2) dvd n")
    case True
    let ?P = "\<lambda>d. d * d \<le> n \<longrightarrow> \<not> d dvd n \<and> \<not> (d + 2) dvd n"
    have "(\<forall>j. ?P (i + 6 * j)) \<longleftrightarrow> (\<forall>j. ?P (i + 6 + 6 * j))"
    proof
      assume "\<forall>j. ?P (i + 6 * j)"
      then have "?P (i + 6 * Suc j)" for j by blast
      then show "\<forall>j. ?P (i + 6 + 6 * j)" by (simp add: algebra_simps)
    next
      assume R: "\<forall>j. ?P (i + 6 + 6 * j)"
      have "?P (i + 6 * j)" for j
      proof (cases j)
        case 0
        with True show ?thesis by simp
      next
        case (Suc j')
        with R [rule_format, of j'] show ?thesis by (simp add: algebra_simps)
      qed
      then show "\<forall>j. ?P (i + 6 * j)" by blast
    qed
    with 1 True show ?thesis by (subst prime_loop.simps) (simp add: mod_eq_0_iff_dvd)
  next
    case False
    show ?thesis
    proof (cases "i * i \<le> n")
      case True
      with False have "\<not> prime_loop n i" by (subst prime_loop.simps) (auto simp: mod_eq_0_iff_dvd)
      moreover have "\<not> (\<forall>j. (i + 6 * j) * (i + 6 * j) \<le> n \<longrightarrow> \<not> (i + 6 * j) dvd n \<and> \<not> (i + 6 * j + 2) dvd n)"
        using True False by (auto intro: exI [of _ 0])
      ultimately show ?thesis by blast
    next
      case F: False
      have "\<not> (i + 6 * j) * (i + 6 * j) \<le> n" for j
        using F mult_le_mono [of i "i + 6 * j" i "i + 6 * j"] by linarith
      with F show ?thesis by (subst prime_loop.simps) simp
    qed
  qed
qed

lemma small_divisor:
  assumes "1 < n" "\<not> prime_nat n"
  shows "\<exists>p. p dvd n \<and> 1 < p \<and> p * p \<le> n"
proof -
  from assms obtain d where d: "d dvd n" "d \<noteq> 1" "d \<noteq> n" by (auto simp: prime_nat_def)
  then obtain e where e: "n = d * e" by (auto elim: dvdE)
  have "1 < d" "1 < e" using d e assms(1) by (metis One_nat_def less_one mult_0 mult_0_right mult_1_right nat_neq_iff not_less0)+
  show ?thesis
  proof (cases "d \<le> e")
    case True
    with e d \<open>1 < d\<close> show ?thesis by (intro exI [of _ d]) simp
  next
    case False
    with e d \<open>1 < e\<close> show ?thesis by (intro exI [of _ e]) simp
  qed
qed

lemma not_div_6:
  assumes "\<not> (2::nat) dvd p" "\<not> 3 dvd p" "1 < p"
  shows "\<exists>j. p = 5 + 6 * j \<or> p = 5 + 6 * j + 2"
proof -
  have "p mod 6 = 1 \<or> p mod 6 = 5" using assms(1,2) by presburger
  then show ?thesis
  proof
    assume h: "p mod 6 = 1"
    then have "p = 6 * (p div 6) + 1" by (metis div_mod_decomp mult.commute)
    with assms(3) obtain j where "p div 6 = Suc j" by (cases "p div 6") auto
    with \<open>p = 6 * (p div 6) + 1\<close> show ?thesis by (intro exI [of _ j]) simp
  next
    assume "p mod 6 = 5"
    then have "p = 6 * (p div 6) + 5" by (metis div_mod_decomp mult.commute)
    then show ?thesis by (intro exI [of _ "p div 6"]) simp
  qed
qed

text \<open>The loop decides primality for numbers prime to 6.\<close>

lemma prime_loop_prime:
  assumes n: "3 < n" "\<not> 2 dvd n" "\<not> 3 dvd n"
  shows "prime_loop n 5 \<longleftrightarrow> prime_nat n"
proof
  assume L: "prime_loop n 5"
  show "prime_nat n"
  proof (rule ccontr)
    assume "\<not> prime_nat n"
    with n obtain p where p: "p dvd n" "1 < p" "p * p \<le> n" using small_divisor [of n] by auto
    then have "\<not> 2 dvd p" "\<not> 3 dvd p" using n by (metis dvd_trans)+
    with p obtain j where j: "p = 5 + 6 * j \<or> p = 5 + 6 * j + 2" using not_div_6 by blast
    have "(5 + 6 * j) * (5 + 6 * j) \<le> p * p" using j by (intro mult_le_mono) auto
    with p(3) have "(5 + 6 * j) * (5 + 6 * j) \<le> n" by linarith
    with L j p(1) show False unfolding prime_loop_iff by blast
  qed
next
  assume P: "prime_nat n"
  have "\<not> d dvd n \<and> \<not> (d + 2) dvd n" if d: "5 \<le> d" "d * d \<le> n" for d
  proof -
    have "5 * d \<le> d * d" using d(1) by (intro mult_le_mono) auto
    with d have "d + 2 < n" by linarith
    with d(1) P show ?thesis by (auto simp: prime_nat_def)
  qed
  then show "prime_loop n 5" unfolding prime_loop_iff by (metis le_add1)
qed

theorem is_prime_correct: "is_prime n \<longleftrightarrow> prime_nat n"
proof -
  consider "n \<le> 1" | "n = 2" | "n = 3" | "3 < n" by linarith
  then show ?thesis
  proof cases
    case 1 then show ?thesis by (simp add: is_prime_def prime_nat_def)
  next
    case 2
    have "d = 1 \<or> d = 2" if "d dvd (2::nat)" for d
      using dvd_imp_le [OF that] that by (cases "d = 0") auto
    with 2 show ?thesis by (auto simp: is_prime_def prime_nat_def)
  next
    case 3
    have "d = 1 \<or> d = 3" if "d dvd (3::nat)" for d
    proof -
      have "d \<le> 3" using dvd_imp_le [OF that] by simp
      then consider "d = 0" | "d = 1" | "d = 2" | "d = 3" by linarith
      then show ?thesis using that by cases auto
    qed
    with 3 show ?thesis by (auto simp: is_prime_def prime_nat_def)
  next
    case 4
    show ?thesis
    proof (cases "2 dvd n \<or> 3 dvd n")
      case True
      then have "\<not> prime_nat n" using 4 by (auto simp: prime_nat_def)
      with True 4 show ?thesis by (auto simp: is_prime_def mod_eq_0_iff_dvd)
    next
      case False
      with 4 show ?thesis by (simp add: is_prime_def mod_eq_0_iff_dvd prime_loop_prime)
    qed
  qed
qed

section \<open>next\_prime\<close>

lemma prime_divisor: "1 < n \<Longrightarrow> \<exists>p. prime_nat p \<and> p dvd n"
proof (induction n rule: less_induct)
  case (less n)
  show ?case
  proof (cases "prime_nat n")
    case True
    then show ?thesis by (intro exI [of _ n]) simp
  next
    case False
    with less.prems obtain p where p: "p dvd n" "1 < p" "p * p \<le> n" using small_divisor by blast
    have "2 * p \<le> p * p" using p(2) by simp
    with p have "p < n" by linarith
    with less.IH p obtain q where "prime_nat q" "q dvd p" by blast
    with p(1) show ?thesis by (blast intro: dvd_trans)
  qed
qed

lemma primes_unbounded: "\<exists>p \<ge> n. prime_nat p"
proof -
  have "1 < (fact n :: nat) + 1" by simp
  then obtain p where p: "prime_nat p" "p dvd fact n + 1"
    using prime_divisor by blast
  have "\<not> p \<le> n"
  proof
    assume "p \<le> n"
    moreover have "1 \<le> p" using p(1) by (simp add: prime_nat_def)
    ultimately have "p dvd fact n" by (simp add: dvd_fact)
    with p(2) have "p dvd 1" by (metis dvd_add_right_iff)
    with p(1) show False by (simp add: prime_nat_def)
  qed
  then show ?thesis using p(1) by (intro exI [of _ p]) simp
qed

function next_prime :: "nat \<Rightarrow> nat" where
  "next_prime n = (if \<not> is_prime n then next_prime (n + 1) else n)"
  by pat_completeness auto
termination
proof (relation "measure (\<lambda>n. (LEAST p. n \<le> p \<and> prime_nat p) - n)")
  fix n
  assume np: "\<not> is_prime n"
  let ?L = "\<lambda>n. LEAST p. n \<le> p \<and> prime_nat p"
  obtain p where p: "n \<le> p \<and> prime_nat p" using primes_unbounded by blast
  have L: "n \<le> ?L n \<and> prime_nat (?L n)" using p by (rule LeastI)
  with np have lt: "n < ?L n" by (metis is_prime_correct le_neq_implies_less)
  have "?L (n + 1) \<le> ?L n" using L lt by (intro Least_le) simp
  with lt show "(n + 1, n) \<in> measure (\<lambda>n. ?L n - n)" by simp
qed simp

declare next_prime.simps [simp del]

text \<open>The loop ends, at the least prime that is not smaller than the request.\<close>

lemma next_prime_least:
  "n \<le> next_prime n \<and> prime_nat (next_prime n) \<and> (\<forall>p. n \<le> p \<and> prime_nat p \<longrightarrow> next_prime n \<le> p)"
proof (induction n rule: next_prime.induct)
  case (1 n)
  show ?case
  proof (cases "is_prime n")
    case True
    then have "next_prime n = n" by (subst next_prime.simps) simp
    with True show ?thesis by (simp add: is_prime_correct)
  next
    case False
    then have eq: "next_prime n = next_prime (n + 1)" by (subst next_prime.simps) simp
    from False have "p \<noteq> n" if "prime_nat p" for p using that is_prime_correct by blast
    with 1 False eq show ?thesis by (metis Suc_eq_plus1 Suc_leD not_less_eq_eq le_antisym)
  qed
qed

lemma next_prime_pos: "0 < next_prime n"
  using next_prime_least [of n] by (auto simp: prime_nat_def)

end
