(* ===== verification/Hash_Table.thy ===== *)
theory Hash_Table
  imports Array_Maps Prime_Buckets
begin

text \<open>
  \<^verbatim>\<open>bpftime_hash_map.hpp\<close>, the open-addressing hash table behind the default hash map, and
  its wrapper \<^verbatim>\<open>fix_hash_map.cpp\<close>. All buckets live in one byte vector: four bytes that
  say whether the bucket is filled, the key, the value. Collisions are resolved by linear
  probing. The probe loop has as much fuel as there are buckets; \<open>find_cases\<close> shows that
  it never runs out.
\<close>

section \<open>The table\<close>

record hash_table =
  ht_key_size :: nat
  ht_value_size :: nat
  ht_num_buckets :: nat
  ht_max_element_count :: nat
  ht_count :: nat
  ht_data_buffer :: bytes

definition ht_stride :: "hash_table \<Rightarrow> nat" where
  "ht_stride t = 4 + ht_key_size t + ht_value_size t"

definition get_elem_offset :: "hash_table \<Rightarrow> nat \<Rightarrow> nat" where
  "get_elem_offset t index = index * ht_stride t"

definition hash_table_new :: "nat \<Rightarrow> nat \<Rightarrow> nat \<Rightarrow> hash_table" where
  "hash_table_new num_buckets key_size value_size =
     \<lparr>ht_key_size = key_size, ht_value_size = value_size,
      ht_num_buckets = next_prime num_buckets, ht_max_element_count = num_buckets,
      ht_count = 0,
      ht_data_buffer = replicate (next_prime num_buckets * (4 + key_size + value_size)) 0\<rparr>"

text \<open>\<^verbatim>\<open>hash = hash * 31 + key[i]\<close> in \<^verbatim>\<open>size_t\<close>, which wraps.\<close>

definition hash_func :: "bytes \<Rightarrow> u64" where
  "hash_func key = foldl (\<lambda>hash b. hash * 31 + ucast b) 0 key"

definition is_empty :: "hash_table \<Rightarrow> nat \<Rightarrow> bool" where
  "is_empty t index \<longleftrightarrow> nat_of_bytes (seg (get_elem_offset t index) 4 (ht_data_buffer t)) = 0"

definition set_empty :: "nat \<Rightarrow> hash_table \<Rightarrow> hash_table" where
  "set_empty index t =
     t\<lparr>ht_data_buffer := put (get_elem_offset t index) (st32 0) (ht_data_buffer t)\<rparr>"

definition set_filled :: "nat \<Rightarrow> hash_table \<Rightarrow> hash_table" where
  "set_filled index t =
     t\<lparr>ht_data_buffer := put (get_elem_offset t index) (st32 1) (ht_data_buffer t)\<rparr>"

definition get_key :: "hash_table \<Rightarrow> nat \<Rightarrow> bytes" where
  "get_key t index = seg (get_elem_offset t index + 4) (ht_key_size t) (ht_data_buffer t)"

definition get_value :: "hash_table \<Rightarrow> nat \<Rightarrow> bytes" where
  "get_value t index =
     seg (get_elem_offset t index + 4 + ht_key_size t) (ht_value_size t) (ht_data_buffer t)"

text \<open>The two \<^verbatim>\<open>memcpy\<close> calls into a bucket.\<close>

definition set_key :: "nat \<Rightarrow> bytes \<Rightarrow> hash_table \<Rightarrow> hash_table" where
  "set_key index key t =
     t\<lparr>ht_data_buffer := put (get_elem_offset t index + 4) key (ht_data_buffer t)\<rparr>"

definition set_value :: "nat \<Rightarrow> bytes \<Rightarrow> hash_table \<Rightarrow> hash_table" where
  "set_value index val t =
     t\<lparr>ht_data_buffer :=
         put (get_elem_offset t index + 4 + ht_key_size t) val (ht_data_buffer t)\<rparr>"

definition get_index_of_value :: "hash_table \<Rightarrow> nat \<Rightarrow> nat" where
  "get_index_of_value t o' =
     (if length (ht_data_buffer t) \<le> o' then 2 ^ 64 - 1 else o' div ht_stride t)"

text \<open>
  The probe loop of the three operations: walk from \<open>start\<close> until a bucket is empty
  (\<open>Hole\<close>), holds the key (\<open>Hit\<close>), or the walk is back at its start (\<open>Wrapped\<close>).
\<close>

datatype probe_result = Hit nat | Hole nat | Wrapped | Unfinished

fun probe :: "hash_table \<Rightarrow> bytes \<Rightarrow> nat \<Rightarrow> nat \<Rightarrow> nat \<Rightarrow> probe_result" where
  "probe t key 0 start index = Unfinished"
| "probe t key (Suc fuel) start index =
     (if is_empty t index then Hole index
      else if get_key t index = key then Hit index
      else let index' = (index + 1) mod ht_num_buckets t
           in if index' \<noteq> start then probe t key fuel start index' else Wrapped)"

definition ht_start :: "hash_table \<Rightarrow> bytes \<Rightarrow> nat" where
  "ht_start t key = unat (hash_func key) mod ht_num_buckets t"

definition ht_find :: "hash_table \<Rightarrow> bytes \<Rightarrow> probe_result" where
  "ht_find t key = probe t key (ht_num_buckets t) (ht_start t key) (ht_start t key)"

definition ht_elem_lookup :: "hash_table \<Rightarrow> bytes \<Rightarrow> nat option" where
  "ht_elem_lookup t key =
     (case ht_find t key of
        Hit index \<Rightarrow> Some (get_elem_offset t index + 4 + ht_key_size t) | _ \<Rightarrow> None)"

definition ht_elem_update :: "hash_table \<Rightarrow> bytes \<Rightarrow> bytes \<Rightarrow> bool \<times> hash_table" where
  "ht_elem_update t key val =
     (case ht_find t key of
        Hole index \<Rightarrow>
          if ht_max_element_count t \<le> ht_count t then (False, t)
          else (True, (set_filled index (set_value index val (set_key index key t)))
                        \<lparr>ht_count := ht_count t + 1\<rparr>)
      | Hit index \<Rightarrow> (True, set_value index val t)
      | _ \<Rightarrow> (False, t))"

text \<open>\<^verbatim>\<open>count--\<close> on a \<^verbatim>\<open>size_t\<close>.\<close>

definition size_dec :: "nat \<Rightarrow> nat" where
  "size_dec c = (if c = 0 then 2 ^ 64 - 1 else c - 1)"

definition ht_elem_delete :: "hash_table \<Rightarrow> bytes \<Rightarrow> bool \<times> hash_table" where
  "ht_elem_delete t key =
     (case ht_find t key of
        Hit index \<Rightarrow> (True, (set_empty index t)\<lparr>ht_count := size_dec (ht_count t)\<rparr>)
      | _ \<Rightarrow> (False, t))"

definition get_elem_count :: "hash_table \<Rightarrow> nat" where
  "get_elem_count t = ht_count t"

section \<open>Bucket fields\<close>

definition ht_wf :: "hash_table \<Rightarrow> bool" where
  "ht_wf t \<longleftrightarrow> 0 < ht_num_buckets t \<and> length (ht_data_buffer t) = ht_num_buckets t * ht_stride t"

lemma ht_wf_new: "ht_wf (hash_table_new n ks vs)"
  by (simp add: ht_wf_def hash_table_new_def ht_stride_def next_prime_pos)

text \<open>Field \<open>a\<close> of bucket \<open>j\<close> is untouched by a write to another bucket or another field.\<close>

lemma field_bound: "(i :: nat) < n \<Longrightarrow> a + l \<le> st \<Longrightarrow> i * st + a + l \<le> n * st"
  using slot_mult_bound [of i n st] by linarith

lemma field_other:
  assumes "i < n" "j < n" "length buf = n * st" "a + l \<le> st" "b + length bs \<le> st"
    and "i \<noteq> j \<or> a + l \<le> b \<or> b + length bs \<le> a"
  shows "seg (j * st + a) l (put (i * st + b) bs buf) = seg (j * st + a) l buf"
proof (rule seg_put_other)
  show "i * st + b + length bs \<le> length buf" "j * st + a + l \<le> length buf"
    using assms field_bound by simp_all
  show "j * st + a + l \<le> i * st + b \<or> i * st + b + length bs \<le> j * st + a"
  proof (cases "i = j")
    case True
    with assms(6) show ?thesis by auto
  next
    case False
    with slot_mult_disjoint [of i j st] assms(4,5) show ?thesis by linarith
  qed
qed

lemma field_same:
  assumes "i < n" "length buf = n * st" "b + length bs \<le> st"
  shows "seg (i * st + b) (length bs) (put (i * st + b) bs buf) = bs"
  using assms field_bound by (intro seg_put_same) simp

lemma field_len:
  assumes "i < n" "length buf = n * st" "b + length bs \<le> st"
  shows "length (put (i * st + b) bs buf) = n * st"
  using assms field_bound by (simp add: length_put)

lemmas ht_field_defs = is_empty_def get_key_def get_value_def get_elem_offset_def
  set_empty_def set_filled_def set_key_def set_value_def

lemma ht_setter_frame [simp]:
  "ht_key_size (set_empty i t) = ht_key_size t" "ht_value_size (set_empty i t) = ht_value_size t"
  "ht_num_buckets (set_empty i t) = ht_num_buckets t" "ht_stride (set_empty i t) = ht_stride t"
  "ht_key_size (set_filled i t) = ht_key_size t" "ht_value_size (set_filled i t) = ht_value_size t"
  "ht_num_buckets (set_filled i t) = ht_num_buckets t" "ht_stride (set_filled i t) = ht_stride t"
  "ht_key_size (set_key i k t) = ht_key_size t" "ht_value_size (set_key i k t) = ht_value_size t"
  "ht_num_buckets (set_key i k t) = ht_num_buckets t" "ht_stride (set_key i k t) = ht_stride t"
  "ht_key_size (set_value i v t) = ht_key_size t" "ht_value_size (set_value i v t) = ht_value_size t"
  "ht_num_buckets (set_value i v t) = ht_num_buckets t" "ht_stride (set_value i v t) = ht_stride t"
  "ht_max_element_count (set_empty i t) = ht_max_element_count t" "ht_count (set_empty i t) = ht_count t"
  "ht_max_element_count (set_filled i t) = ht_max_element_count t" "ht_count (set_filled i t) = ht_count t"
  "ht_max_element_count (set_key i k t) = ht_max_element_count t" "ht_count (set_key i k t) = ht_count t"
  "ht_max_element_count (set_value i v t) = ht_max_element_count t" "ht_count (set_value i v t) = ht_count t"
  by (simp_all add: set_empty_def set_filled_def set_key_def set_value_def ht_stride_def)

lemma ht_count_upd [simp]:
  "is_empty (t\<lparr>ht_count := c\<rparr>) i = is_empty t i" "get_key (t\<lparr>ht_count := c\<rparr>) i = get_key t i"
  "get_value (t\<lparr>ht_count := c\<rparr>) i = get_value t i" "ht_wf (t\<lparr>ht_count := c\<rparr>) = ht_wf t"
  "ht_stride (t\<lparr>ht_count := c\<rparr>) = ht_stride t"
  by (simp_all add: is_empty_def get_key_def get_value_def get_elem_offset_def ht_stride_def ht_wf_def)

lemma set_flag_wf:
  assumes "ht_wf t" "i < ht_num_buckets t"
  shows "ht_wf (set_empty i t)" "ht_wf (set_filled i t)"
  using assms field_len [of i "ht_num_buckets t" "ht_data_buffer t" "ht_stride t" 0 "st32 0"]
    field_len [of i "ht_num_buckets t" "ht_data_buffer t" "ht_stride t" 0 "st32 1"]
  by (simp_all add: ht_wf_def set_empty_def set_filled_def get_elem_offset_def ht_stride_def)

lemma set_key_wf:
  assumes "ht_wf t" "i < ht_num_buckets t" "length k = ht_key_size t"
  shows "ht_wf (set_key i k t)"
  using assms field_len [of i "ht_num_buckets t" "ht_data_buffer t" "ht_stride t" 4 k]
  by (simp add: ht_wf_def set_key_def get_elem_offset_def ht_stride_def)

lemma set_value_wf:
  assumes "ht_wf t" "i < ht_num_buckets t" "length v = ht_value_size t"
  shows "ht_wf (set_value i v t)"
  using assms field_len [of i "ht_num_buckets t" "ht_data_buffer t" "ht_stride t" "4 + ht_key_size t" v]
  by (simp add: ht_wf_def set_value_def get_elem_offset_def ht_stride_def add.assoc)

lemma get_set_key:
  assumes "ht_wf t" "i < ht_num_buckets t" "j < ht_num_buckets t" "length k = ht_key_size t"
  shows "is_empty (set_key i k t) j = is_empty t j"
    and "get_key (set_key i k t) j = (if j = i then k else get_key t j)"
    and "get_value (set_key i k t) j = get_value t j"
  using assms
    field_other [of i "ht_num_buckets t" j "ht_data_buffer t" "ht_stride t" 0 4 4 k]
    field_other [of i "ht_num_buckets t" j "ht_data_buffer t" "ht_stride t" 4 "ht_key_size t" 4 k]
    field_other [of i "ht_num_buckets t" j "ht_data_buffer t" "ht_stride t"
      "4 + ht_key_size t" "ht_value_size t" 4 k]
    field_same [of i "ht_num_buckets t" "ht_data_buffer t" "ht_stride t" 4 k]
  by (auto simp: ht_wf_def is_empty_def get_key_def get_value_def set_key_def get_elem_offset_def
      ht_stride_def add.assoc)

lemma get_set_value:
  assumes "ht_wf t" "i < ht_num_buckets t" "j < ht_num_buckets t" "length v = ht_value_size t"
  shows "is_empty (set_value i v t) j = is_empty t j"
    and "get_key (set_value i v t) j = get_key t j"
    and "get_value (set_value i v t) j = (if j = i then v else get_value t j)"
  using assms
    field_other [of i "ht_num_buckets t" j "ht_data_buffer t" "ht_stride t" 0 4 "4 + ht_key_size t" v]
    field_other [of i "ht_num_buckets t" j "ht_data_buffer t" "ht_stride t" 4 "ht_key_size t"
      "4 + ht_key_size t" v]
    field_other [of i "ht_num_buckets t" j "ht_data_buffer t" "ht_stride t"
      "4 + ht_key_size t" "ht_value_size t" "4 + ht_key_size t" v]
    field_same [of i "ht_num_buckets t" "ht_data_buffer t" "ht_stride t" "4 + ht_key_size t" v]
  by (auto simp: ht_wf_def is_empty_def get_key_def get_value_def set_value_def get_elem_offset_def
      ht_stride_def add.assoc)

text \<open>The flag word: \<open>set_filled\<close> and \<open>set_empty\<close> write 1 and 0.\<close>

definition set_flag :: "u32 \<Rightarrow> nat \<Rightarrow> hash_table \<Rightarrow> hash_table" where
  "set_flag w i t = t\<lparr>ht_data_buffer := put (get_elem_offset t i) (st32 w) (ht_data_buffer t)\<rparr>"

lemma get_set_flag:
  assumes "ht_wf t" "i < ht_num_buckets t" "j < ht_num_buckets t"
  shows "is_empty (set_flag w i t) j = (if j = i then w = 0 else is_empty t j)"
    and "get_key (set_flag w i t) j = get_key t j"
    and "get_value (set_flag w i t) j = get_value t j"
  using assms
    field_other [of i "ht_num_buckets t" j "ht_data_buffer t" "ht_stride t" 0 4 0 "st32 w"]
    field_other [of i "ht_num_buckets t" j "ht_data_buffer t" "ht_stride t" 4 "ht_key_size t" 0 "st32 w"]
    field_other [of i "ht_num_buckets t" j "ht_data_buffer t" "ht_stride t"
      "4 + ht_key_size t" "ht_value_size t" 0 "st32 w"]
    field_same [of i "ht_num_buckets t" "ht_data_buffer t" "ht_stride t" 0 "st32 w"]
  by (auto simp: ht_wf_def is_empty_def get_key_def get_value_def set_flag_def get_elem_offset_def
      ht_stride_def add.assoc nat_of_st32 unat_eq_0)

lemma set_flag_eq: "set_filled = set_flag 1" "set_empty = set_flag 0"
  by (intro ext, simp add: set_filled_def set_empty_def set_flag_def)+

lemmas get_set_filled = get_set_flag [where w = 1, folded set_flag_eq]
lemmas get_set_empty = get_set_flag [where w = 0, folded set_flag_eq]

lemma is_empty_new: "i < next_prime n \<Longrightarrow> is_empty (hash_table_new n ks vs) i"
  using field_bound [of i "next_prime n" 0 4 "4 + ks + vs"]
  by (simp add: is_empty_def get_elem_offset_def hash_table_new_def ht_stride_def seg_replicate
      numeral_eq_Suc)

section \<open>What the probe loop finds\<close>

definition probe_path :: "nat \<Rightarrow> nat \<Rightarrow> nat \<Rightarrow> nat" where
  "probe_path n h d = (h + d) mod n"

lemma probe_path_less: "0 < n \<Longrightarrow> probe_path n h d < n"
  by (simp add: probe_path_def)

lemma probe_path_Suc: "(probe_path n h d + 1) mod n = probe_path n h (Suc d)"
  by (simp add: probe_path_def mod_Suc_eq)

lemma mod_eq_small:
  assumes "h < n" "d < n" "e < n" "(h + d) mod n = (h + e) mod (n :: nat)"
  shows "d = e"
proof -
  have "(h + d) mod n = (if h + d < n then h + d else h + d - n)"
    "(h + e) mod n = (if h + e < n then h + e else h + e - n)"
    using assms(1-3) by (auto simp: mod_if)
  with assms show ?thesis by (auto split: if_splits)
qed

lemma probe_path_inj:
  "h < n \<Longrightarrow> d < n \<Longrightarrow> e < n \<Longrightarrow> probe_path n h d = probe_path n h e \<Longrightarrow> d = e"
  unfolding probe_path_def by (rule mod_eq_small)

lemma probe_path_wrap:
  "h < n \<Longrightarrow> Suc d \<le> n \<Longrightarrow> probe_path n h (Suc d) = h \<longleftrightarrow> Suc d = n"
  using probe_path_inj [of h n "Suc d" 0] by (cases "Suc d = n") (auto simp: probe_path_def)

lemma probe_path_surj:
  assumes "h < n" "i < n"
  shows "\<exists>d < n. probe_path n h d = i"
proof (cases "h \<le> i")
  case True
  with assms show ?thesis by (intro exI [of _ "i - h"]) (simp add: probe_path_def)
next
  case False
  with assms show ?thesis by (intro exI [of _ "i + n - h"]) (simp add: probe_path_def)
qed

definition busy :: "hash_table \<Rightarrow> bytes \<Rightarrow> nat \<Rightarrow> bool" where
  "busy t k i \<longleftrightarrow> \<not> is_empty t i \<and> get_key t i \<noteq> k"

definition first_free :: "hash_table \<Rightarrow> bytes \<Rightarrow> nat \<Rightarrow> bool" where
  "first_free t k d \<longleftrightarrow> d < ht_num_buckets t \<and>
     \<not> busy t k (probe_path (ht_num_buckets t) (ht_start t k) d) \<and>
     (\<forall>e < d. busy t k (probe_path (ht_num_buckets t) (ht_start t k) e))"

lemma probe_from:
  assumes "h < n" "n = ht_num_buckets t" "d + fuel = n" "0 < fuel"
  shows "(\<exists>d'. d \<le> d' \<and> d' < n \<and> (\<forall>e. d \<le> e \<and> e < d' \<longrightarrow> busy t k (probe_path n h e)) \<and>
      \<not> busy t k (probe_path n h d') \<and>
      probe t k fuel h (probe_path n h d) =
        (if is_empty t (probe_path n h d') then Hole (probe_path n h d') else Hit (probe_path n h d')))
    \<or> ((\<forall>e. d \<le> e \<and> e < n \<longrightarrow> busy t k (probe_path n h e)) \<and>
       probe t k fuel h (probe_path n h d) = Wrapped)"
  using assms
proof (induction fuel arbitrary: d)
  case 0
  then show ?case by simp
next
  case (Suc fuel)
  let ?p = "probe_path n h"
  show ?case
  proof (cases "busy t k (?p d)")
    case False
    with Suc.prems have "probe t k (Suc fuel) h (?p d) =
        (if is_empty t (?p d) then Hole (?p d) else Hit (?p d))" by (auto simp: busy_def)
    with False Suc.prems show ?thesis by (intro disjI1 exI [of _ d]) auto
  next
    case busy: True
    show ?thesis
    proof (cases "Suc d = n")
      case True
      with busy Suc.prems have "probe t k (Suc fuel) h (?p d) = Wrapped"
        using probe_path_wrap [of h n d] probe_path_Suc [of n h d] by (simp add: busy_def Let_def)
      moreover have "\<forall>e. d \<le> e \<and> e < n \<longrightarrow> busy t k (?p e)"
        using busy True by (metis le_antisym less_Suc_eq_le)
      ultimately show ?thesis by blast
    next
      case False
      with busy Suc.prems have step: "probe t k (Suc fuel) h (?p d) = probe t k fuel h (?p (Suc d))"
        using probe_path_wrap [of h n d] probe_path_Suc [of n h d] by (simp add: busy_def Let_def)
      have ext: "\<forall>e. d \<le> e \<and> e < b \<longrightarrow> busy t k (?p e)"
        if "\<forall>e. Suc d \<le> e \<and> e < b \<longrightarrow> busy t k (?p e)" for b
        using that busy by (metis Suc_leI le_neq_implies_less)
      have "Suc d + fuel = n" "0 < fuel" using Suc.prems False by auto
      from Suc.IH [OF Suc.prems(1,2) this] show ?thesis unfolding step
      proof (elim disjE exE conjE, goal_cases)
        case (1 d')
        with ext [of d'] show ?case by (intro disjI1 exI [of _ d'] conjI) auto
      next
        case 2
        with ext [of n] show ?case by blast
      qed
    qed
  qed
qed

lemma ht_start_less: "ht_wf t \<Longrightarrow> ht_start t k < ht_num_buckets t"
  by (simp add: ht_start_def ht_wf_def)

abbreviation ht_path :: "hash_table \<Rightarrow> bytes \<Rightarrow> nat \<Rightarrow> nat" where
  "ht_path t k d \<equiv> probe_path (ht_num_buckets t) (ht_start t k) d"

text \<open>The loop always ends: at the first bucket of the probe path that is not busy, or after
  a full turn over busy buckets.\<close>

lemma find_cases:
  assumes "ht_wf t"
  shows "(\<exists>d. first_free t k d \<and>
      ht_find t k = (if is_empty t (ht_path t k d) then Hole (ht_path t k d) else Hit (ht_path t k d)))
    \<or> ((\<forall>d < ht_num_buckets t. busy t k (ht_path t k d)) \<and> ht_find t k = Wrapped)"
proof -
  have h: "ht_start t k < ht_num_buckets t" using assms by (rule ht_start_less)
  have p0: "ht_find t k = probe t k (ht_num_buckets t) (ht_start t k) (ht_path t k 0)"
    using h by (simp add: ht_find_def probe_path_def)
  have "0 + ht_num_buckets t = ht_num_buckets t" "0 < ht_num_buckets t" using h by auto
  from probe_from [OF h refl this, of k] show ?thesis unfolding p0
  proof (elim disjE exE conjE, goal_cases)
    case (1 d)
    then show ?case by (intro disjI1 exI [of _ d] conjI) (simp_all add: first_free_def)
  next
    case 2
    then show ?case by (intro disjI2 conjI) simp_all
  qed
qed

lemma first_free_unique:
  assumes "first_free t k d" "first_free t k e"
  shows "d = e"
  using assms unfolding first_free_def by (metis linorder_neqE_nat)

lemma find_first_free:
  assumes "ht_wf t" "first_free t k d"
  shows "ht_find t k = (if is_empty t (ht_path t k d) then Hole (ht_path t k d) else Hit (ht_path t k d))"
  using find_cases [OF assms(1), of k]
proof (elim disjE exE conjE)
  fix e
  assume "first_free t k e"
    and eq: "ht_find t k = (if is_empty t (ht_path t k e) then Hole (ht_path t k e) else Hit (ht_path t k e))"
  then have "e = d" using first_free_unique assms(2) by blast
  with eq show ?thesis by simp
next
  assume "\<forall>d < ht_num_buckets t. busy t k (ht_path t k d)"
  with assms(2) have False by (auto simp: first_free_def)
  then show ?thesis ..
qed

lemma find_HitD:
  assumes "ht_wf t" "ht_find t k = Hit i"
  shows "\<exists>d. first_free t k d \<and> i = ht_path t k d \<and> i < ht_num_buckets t \<and> \<not> is_empty t i \<and> get_key t i = k"
proof -
  from find_cases [OF assms(1), of k] assms(2) obtain d where
    d: "first_free t k d" "\<not> is_empty t (ht_path t k d)" "i = ht_path t k d"
    by (auto split: if_splits)
  then have "get_key t i = k" by (simp add: first_free_def busy_def)
  with d assms(1) show ?thesis by (auto simp: probe_path_less ht_wf_def)
qed

lemma find_HoleD:
  assumes "ht_wf t" "ht_find t k = Hole i"
  shows "\<exists>d. first_free t k d \<and> i = ht_path t k d \<and> i < ht_num_buckets t \<and> is_empty t i"
  using find_cases [OF assms(1), of k] assms by (auto split: if_splits simp: probe_path_less ht_wf_def)

lemma find_terminates: "ht_wf t \<Longrightarrow> ht_find t k \<noteq> Unfinished"
  using find_cases [of t k] by (auto split: if_splits)

section \<open>The invariant\<close>

definition filled_buckets :: "hash_table \<Rightarrow> nat set" where
  "filled_buckets t = {i. i < ht_num_buckets t \<and> \<not> is_empty t i}"

text \<open>Every key stored in the table is found where it is stored.\<close>

definition chained :: "hash_table \<Rightarrow> bool" where
  "chained t \<longleftrightarrow> (\<forall>i \<in> filled_buckets t. ht_find t (get_key t i) = Hit i)"

definition ht_inv :: "hash_table \<Rightarrow> bool" where
  "ht_inv t \<longleftrightarrow> ht_wf t \<and> chained t \<and> ht_count t = card (filled_buckets t) \<and>
     ht_count t \<le> ht_max_element_count t \<and> ht_max_element_count t \<le> ht_num_buckets t"

definition ht_abs :: "hash_table \<Rightarrow> bytes \<Rightarrow> bytes option" where
  "ht_abs t k = (case ht_find t k of Hit i \<Rightarrow> Some (get_value t i) | _ \<Rightarrow> None)"

lemma finite_filled [simp]: "finite (filled_buckets t)"
  by (simp add: filled_buckets_def)

lemma ht_inv_new: "ht_inv (hash_table_new n ks vs)"
proof -
  have "filled_buckets (hash_table_new n ks vs) = {}"
    using is_empty_new [of _ n ks vs] by (auto simp: filled_buckets_def hash_table_new_def)
  then show ?thesis using next_prime_least [of n]
    by (simp add: ht_inv_def ht_wf_new chained_def) (simp add: hash_table_new_def)
qed

lemma ht_abs_new: "ht_abs (hash_table_new n ks vs) k = None"
proof -
  have "ht_find (hash_table_new n ks vs) k \<noteq> Hit i" for i
  proof
    assume "ht_find (hash_table_new n ks vs) k = Hit i"
    from find_HitD [OF ht_wf_new this] is_empty_new show False by (auto simp: hash_table_new_def)
  qed
  then show ?thesis by (simp add: ht_abs_def split: probe_result.splits)
qed

text \<open>A write that leaves flags and keys alone leaves every search result alone.\<close>

lemma find_cong:
  assumes "ht_wf t" "ht_wf t'" "ht_num_buckets t' = ht_num_buckets t"
    and same: "\<And>i. i < ht_num_buckets t \<Longrightarrow> is_empty t' i = is_empty t i \<and> get_key t' i = get_key t i"
  shows "ht_find t' k = ht_find t k"
proof -
  have start: "ht_start t' k = ht_start t k" by (simp add: ht_start_def assms(3))
  have p: "ht_path t k d < ht_num_buckets t" for d using assms(1) by (simp add: probe_path_less ht_wf_def)
  have "busy t' k (ht_path t k d) = busy t k (ht_path t k d)" for d
    using same [OF p] by (simp add: busy_def)
  then have ff: "first_free t' k d = first_free t k d" for d
    by (simp add: first_free_def start assms(3))
  show ?thesis
  proof (cases "\<exists>d. first_free t k d")
    case True
    then obtain d where "first_free t k d" by blast
    with ff find_first_free [OF assms(1)] find_first_free [OF assms(2)] same [OF p] show ?thesis
      by (simp add: start assms(3))
  next
    case False
    with ff find_cases [OF assms(1), of k] find_cases [OF assms(2), of k] show ?thesis by auto
  qed
qed

section \<open>Update\<close>

definition ht_insert_at :: "nat \<Rightarrow> bytes \<Rightarrow> bytes \<Rightarrow> hash_table \<Rightarrow> hash_table" where
  "ht_insert_at i k v t =
     (set_filled i (set_value i v (set_key i k t)))\<lparr>ht_count := ht_count t + 1\<rparr>"

lemma ht_insert_at_fields:
  assumes "ht_wf t" "i < ht_num_buckets t" "length k = ht_key_size t" "length v = ht_value_size t"
  shows "ht_wf (ht_insert_at i k v t)"
    and "j < ht_num_buckets t \<Longrightarrow> is_empty (ht_insert_at i k v t) j = (j \<noteq> i \<and> is_empty t j)"
    and "j < ht_num_buckets t \<Longrightarrow> get_key (ht_insert_at i k v t) j = (if j = i then k else get_key t j)"
    and "j < ht_num_buckets t \<Longrightarrow> get_value (ht_insert_at i k v t) j = (if j = i then v else get_value t j)"
  using assms
  by (simp_all add: ht_insert_at_def set_flag_wf set_value_wf set_key_wf get_set_filled
      get_set_value get_set_key)

lemma ht_insert_at_frame [simp]:
  "ht_num_buckets (ht_insert_at i k v t) = ht_num_buckets t"
  "ht_max_element_count (ht_insert_at i k v t) = ht_max_element_count t"
  "ht_count (ht_insert_at i k v t) = ht_count t + 1"
  "ht_key_size (ht_insert_at i k v t) = ht_key_size t"
  "ht_value_size (ht_insert_at i k v t) = ht_value_size t"
  "ht_start (ht_insert_at i k v t) x = ht_start t x"
  by (simp_all add: ht_insert_at_def ht_start_def)

text \<open>Filling the hole a search for \<open>k\<close> ended in: \<open>k\<close> is found there, and the search for
  any other key ends as before if it was successful, because it never passed the hole.\<close>

lemma find_insert:
  assumes wf: "ht_wf t" and hole: "ht_find t k = Hole i"
    and len: "length k = ht_key_size t" "length v = ht_value_size t"
  shows "ht_find (ht_insert_at i k v t) k = Hit i"
    and "ht_find t k' = Hit j \<Longrightarrow> ht_find (ht_insert_at i k v t) k' = Hit j"
proof -
  let ?t = "ht_insert_at i k v t"
  obtain d where d: "first_free t k d" "i = ht_path t k d" "i < ht_num_buckets t" "is_empty t i"
    using find_HoleD [OF wf hole] by blast
  note F = ht_insert_at_fields [OF wf d(3) len]
  have bound: "ht_path t k'' e < ht_num_buckets t" for k'' e
    using wf by (simp add: probe_path_less ht_wf_def)
  have busy: "busy ?t k'' j" if "busy t k'' j" "j < ht_num_buckets t" for k'' j
  proof -
    have "j \<noteq> i" using that d(4) by (auto simp: busy_def)
    with that F(2,3) show ?thesis by (simp add: busy_def)
  qed
  show "ht_find ?t k = Hit i"
  proof -
    have "\<not> busy ?t k i" using F(3) d(3) by (simp add: busy_def)
    then have "first_free ?t k d" using d busy bound by (simp add: first_free_def)
    from find_first_free [OF F(1) this] d F(2) show ?thesis by simp
  qed
  assume hit: "ht_find t k' = Hit j"
  from find_HitD [OF wf hit] obtain e where
    e: "first_free t k' e" "j = ht_path t k' e" "j < ht_num_buckets t" "\<not> is_empty t j" "get_key t j = k'"
    by blast
  then have "j \<noteq> i" using d(4) by blast
  then have "\<not> busy ?t k' j" "\<not> is_empty ?t j" using e F(2,3) by (simp_all add: busy_def)
  then have "first_free ?t k' e" using e busy bound by (auto simp: first_free_def)
  from find_first_free [OF F(1) this] e(2) \<open>\<not> is_empty ?t j\<close> show "ht_find ?t k' = Hit j" by simp
qed

lemma find_insert_only:
  assumes wf: "ht_wf t" and ch: "chained t" and hole: "ht_find t k = Hole i"
    and len: "length k = ht_key_size t" "length v = ht_value_size t"
    and hit: "ht_find (ht_insert_at i k v t) k' = Hit j"
  shows "k' = k \<and> j = i \<or> ht_find t k' = Hit j"
proof -
  have i: "i < ht_num_buckets t" using find_HoleD [OF wf hole] by blast
  note F = ht_insert_at_fields [OF wf i len]
  from find_HitD [OF F(1) hit] have j: "j < ht_num_buckets t"
    and j': "\<not> is_empty (ht_insert_at i k v t) j" "get_key (ht_insert_at i k v t) j = k'" by auto
  show ?thesis
  proof (cases "j = i")
    case True
    with j' F(3) i show ?thesis by auto
  next
    case False
    with j j' F(2,3) have "j \<in> filled_buckets t" "get_key t j = k'" by (auto simp: filled_buckets_def)
    with ch show ?thesis by (auto simp: chained_def)
  qed
qed

lemma ht_insert_inv:
  assumes inv: "ht_inv t" and hole: "ht_find t k = Hole i" and room: "ht_count t < ht_max_element_count t"
    and len: "length k = ht_key_size t" "length v = ht_value_size t"
  shows "ht_inv (ht_insert_at i k v t)" and "ht_abs (ht_insert_at i k v t) = (ht_abs t)(k \<mapsto> v)"
proof -
  let ?t = "ht_insert_at i k v t"
  from inv have wf: "ht_wf t" and ch: "chained t" by (auto simp: ht_inv_def)
  have i: "i < ht_num_buckets t" "is_empty t i" using find_HoleD [OF wf hole] by auto
  note F = ht_insert_at_fields [OF wf i(1) len]
  note FI = find_insert [OF wf hole len]
  have fb: "filled_buckets ?t = insert i (filled_buckets t)"
    using i F(2) by (auto simp: filled_buckets_def)
  moreover have "i \<notin> filled_buckets t" using i by (simp add: filled_buckets_def)
  ultimately have card: "card (filled_buckets ?t) = card (filled_buckets t) + 1" by simp
  have "ht_find ?t (get_key ?t j) = Hit j" if "j \<in> filled_buckets ?t" for j
  proof (cases "j = i")
    case True
    with FI(1) F(3) i show ?thesis by simp
  next
    case False
    with that fb have j: "j \<in> filled_buckets t" by simp
    then have "get_key ?t j = get_key t j" using False F(3) by (simp add: filled_buckets_def)
    with j ch FI(2) show ?thesis by (simp add: chained_def)
  qed
  with F(1) inv card room show "ht_inv ?t" by (simp add: ht_inv_def chained_def)
  show "ht_abs ?t = (ht_abs t)(k \<mapsto> v)"
  proof
    fix x
    show "ht_abs ?t x = ((ht_abs t)(k \<mapsto> v)) x"
    proof (cases "x = k")
      case True
      with FI(1) F(4) i show ?thesis by (simp add: ht_abs_def)
    next
      case False
      have eq: "ht_find ?t x = Hit j \<longleftrightarrow> ht_find t x = Hit j" for j
        using FI(2) find_insert_only [OF wf ch hole len] False by blast
      show ?thesis
      proof (cases "ht_find t x")
        case (Hit j)
        with find_HitD [OF wf Hit] i(2) have "j \<noteq> i" "j < ht_num_buckets t" by auto
        moreover have "ht_find ?t x = Hit j" using Hit eq by simp
        ultimately show ?thesis using Hit F(4) False by (simp add: ht_abs_def)
      qed (use eq False in \<open>auto simp: ht_abs_def split: probe_result.splits\<close>)
    qed
  qed
qed

lemma ht_overwrite_inv:
  assumes inv: "ht_inv t" and hit: "ht_find t k = Hit i" and len: "length v = ht_value_size t"
  shows "ht_inv (set_value i v t)" and "ht_abs (set_value i v t) = (ht_abs t)(k \<mapsto> v)"
proof -
  from inv have wf: "ht_wf t" and ch: "chained t" by (auto simp: ht_inv_def)
  from find_HitD [OF wf hit] have i: "i < ht_num_buckets t" "get_key t i = k" by auto
  note wf' = set_value_wf [OF wf i(1) len]
  note G = get_set_value [OF wf i(1) _ len]
  have find: "ht_find (set_value i v t) x = ht_find t x" for x
    using G wf wf' by (intro find_cong) simp_all
  have fb: "filled_buckets (set_value i v t) = filled_buckets t"
    using G by (auto simp: filled_buckets_def)
  show "ht_inv (set_value i v t)"
    using inv wf' fb find G(2) by (simp add: ht_inv_def chained_def filled_buckets_def)
  show "ht_abs (set_value i v t) = (ht_abs t)(k \<mapsto> v)"
  proof
    fix x
    show "ht_abs (set_value i v t) x = ((ht_abs t)(k \<mapsto> v)) x"
    proof (cases "ht_find t x")
      case (Hit j)
      from find_HitD [OF wf this] have "j < ht_num_buckets t" "get_key t j = x" by auto
      with Hit hit i find G(3) show ?thesis by (auto simp: ht_abs_def)
    qed (use hit find in \<open>auto simp: ht_abs_def\<close>)
  qed
qed

text \<open>A full turn over busy buckets means that the table is full.\<close>

lemma wrapped_full:
  assumes "ht_inv t" "ht_find t k = Wrapped"
  shows "ht_count t = ht_max_element_count t"
proof -
  from assms(1) have wf: "ht_wf t" by (simp add: ht_inv_def)
  have busy: "busy t k (ht_path t k d)" if "d < ht_num_buckets t" for d
    using find_cases [OF wf, of k] assms(2) that by (auto split: if_splits)
  have "i \<in> filled_buckets t" if "i < ht_num_buckets t" for i
    using probe_path_surj [OF ht_start_less [OF wf] that, of k] busy that
    by (auto simp: filled_buckets_def busy_def)
  then have "filled_buckets t = {..<ht_num_buckets t}" by (auto simp: filled_buckets_def)
  with assms(1) show ?thesis by (simp add: ht_inv_def)
qed

text \<open>\<^verbatim>\<open>elem_update\<close>: it succeeds exactly when the key is present or there is room, and then it
  is a map update; otherwise the table is unchanged.\<close>

lemma ht_update_correct:
  assumes inv: "ht_inv t" and len: "length k = ht_key_size t" "length v = ht_value_size t"
    and upd: "ht_elem_update t k v = (ok, t')"
  shows "ht_inv t'" and "ok \<longleftrightarrow> k \<in> dom (ht_abs t) \<or> ht_count t < ht_max_element_count t"
    and "ht_abs t' = (if ok then (ht_abs t)(k \<mapsto> v) else ht_abs t)"
proof -
  from inv have wf: "ht_wf t" by (simp add: ht_inv_def)
  have "ht_inv t' \<and> (ok \<longleftrightarrow> k \<in> dom (ht_abs t) \<or> ht_count t < ht_max_element_count t) \<and>
    ht_abs t' = (if ok then (ht_abs t)(k \<mapsto> v) else ht_abs t)"
  proof (cases "ht_find t k")
    case (Hit i)
    with upd have "ok" "t' = set_value i v t" by (auto simp: ht_elem_update_def)
    with ht_overwrite_inv [OF inv Hit len(2)] Hit show ?thesis by (auto simp: ht_abs_def)
  next
    case (Hole i)
    show ?thesis
    proof (cases "ht_count t < ht_max_element_count t")
      case True
      with upd Hole have "ok" "t' = ht_insert_at i k v t"
        by (auto simp: ht_elem_update_def ht_insert_at_def)
      with ht_insert_inv [OF inv Hole True len] True show ?thesis by simp
    next
      case False
      with upd Hole inv show ?thesis by (auto simp: ht_elem_update_def ht_abs_def)
    qed
  next
    case Wrapped
    with wrapped_full [OF inv Wrapped] upd inv show ?thesis by (auto simp: ht_elem_update_def ht_abs_def)
  next
    case Unfinished
    with find_terminates [OF wf] show ?thesis by blast
  qed
  then show "ht_inv t'" "ok \<longleftrightarrow> k \<in> dom (ht_abs t) \<or> ht_count t < ht_max_element_count t"
    "ht_abs t' = (if ok then (ht_abs t)(k \<mapsto> v) else ht_abs t)" by auto
qed

lemma ht_lookup_abs:
  assumes "ht_wf t"
  shows "map_option (\<lambda>o'. seg o' (ht_value_size t) (ht_data_buffer t)) (ht_elem_lookup t k) = ht_abs t k"
  by (simp add: ht_elem_lookup_def ht_abs_def get_value_def split: probe_result.split)

lemma ht_size_bound:
  assumes "ht_inv t"
  shows "dom (ht_abs t) = get_key t ` filled_buckets t" "inj_on (get_key t) (filled_buckets t)"
    and "card (dom (ht_abs t)) = ht_count t"
proof -
  from assms have wf: "ht_wf t" and ch: "chained t" by (auto simp: ht_inv_def)
  show inj: "inj_on (get_key t) (filled_buckets t)"
  proof (rule inj_onI)
    fix i j assume "i \<in> filled_buckets t" "j \<in> filled_buckets t" "get_key t i = get_key t j"
    with ch show "i = j" unfolding chained_def by (metis probe_result.inject(1))
  qed
  show dom: "dom (ht_abs t) = get_key t ` filled_buckets t"
  proof (intro equalityI subsetI)
    fix k assume "k \<in> dom (ht_abs t)"
    then obtain i where "ht_find t k = Hit i" by (auto simp: ht_abs_def split: probe_result.splits)
    from find_HitD [OF wf this] have "i \<in> filled_buckets t" "k = get_key t i"
      by (auto simp: filled_buckets_def)
    then show "k \<in> get_key t ` filled_buckets t" by blast
  next
    fix k assume "k \<in> get_key t ` filled_buckets t"
    with ch show "k \<in> dom (ht_abs t)" by (auto simp: chained_def ht_abs_def)
  qed
  from inj dom assms show "card (dom (ht_abs t)) = ht_count t"
    by (simp add: card_image ht_inv_def)
qed

text \<open>The reference: a partial function with a bound on the number of its keys.\<close>

definition bounded_put :: "nat \<Rightarrow> ('k \<rightharpoonup> 'v) \<Rightarrow> 'k \<times> 'v \<Rightarrow> ('k \<rightharpoonup> 'v)" where
  "bounded_put cap m kv =
     (if fst kv \<in> dom m \<or> card (dom m) < cap then m(fst kv \<mapsto> snd kv) else m)"

definition ht_put :: "hash_table \<Rightarrow> bytes \<times> bytes \<Rightarrow> hash_table" where
  "ht_put t kv = snd (ht_elem_update t (fst kv) (snd kv))"

definition ht_read :: "hash_table \<Rightarrow> bytes \<Rightarrow> bytes option" where
  "ht_read t k = map_option (\<lambda>o'. seg o' (ht_value_size t) (ht_data_buffer t)) (ht_elem_lookup t k)"

lemma ht_update_frame:
  "ht_key_size (snd (ht_elem_update t k v)) = ht_key_size t"
  "ht_value_size (snd (ht_elem_update t k v)) = ht_value_size t"
  "ht_max_element_count (snd (ht_elem_update t k v)) = ht_max_element_count t"
  by (simp_all add: ht_elem_update_def split: probe_result.split)

lemma ht_put_abs:
  assumes "ht_inv t" "length (fst kv) = ht_key_size t" "length (snd kv) = ht_value_size t"
  shows "ht_inv (ht_put t kv)" "ht_abs (ht_put t kv) = bounded_put (ht_max_element_count t) (ht_abs t) kv"
proof -
  obtain ok t' where u: "ht_elem_update t (fst kv) (snd kv) = (ok, t')" by fastforce
  note c = ht_update_correct [OF assms u]
  show "ht_inv (ht_put t kv)" using c(1) u by (simp add: ht_put_def)
  show "ht_abs (ht_put t kv) = bounded_put (ht_max_element_count t) (ht_abs t) kv"
    using c(2,3) u ht_size_bound(3) [OF assms(1)] by (simp add: ht_put_def bounded_put_def)
qed

lemma ht_puts_abs:
  assumes "ht_inv t"
    "\<forall>kv \<in> set kvs. length (fst kv) = ht_key_size t \<and> length (snd kv) = ht_value_size t"
  shows "ht_inv (foldl ht_put t kvs) \<and>
    ht_abs (foldl ht_put t kvs) = foldl (bounded_put (ht_max_element_count t)) (ht_abs t) kvs"
  using assms
proof (induction kvs arbitrary: t)
  case (Cons kv kvs)
  have "ht_inv (ht_put t kv)" "ht_abs (ht_put t kv) = bounded_put (ht_max_element_count t) (ht_abs t) kv"
    using Cons.prems by (auto intro!: ht_put_abs)
  with Cons.IH [of "ht_put t kv"] Cons.prems(2) show ?case
    by (simp add: ht_put_def ht_update_frame)
qed simp

text \<open>C3. Hash table, updates: starting from a new table of \<open>n\<close> elements, after any sequence of
  updates a lookup reads exactly what a partial function bounded to \<open>n\<close> keys holds. Open
  addressing, hashing and the byte layout are invisible.\<close>

theorem hash_table_updates_refine:
  assumes "\<forall>kv \<in> set kvs. length (fst kv) = ks \<and> length (snd kv) = vs"
  shows "ht_read (foldl ht_put (hash_table_new n ks vs) kvs) = foldl (bounded_put n) Map.empty kvs"
proof -
  let ?t = "hash_table_new n ks vs"
  have sz: "ht_key_size ?t = ks" "ht_value_size ?t = vs" "ht_max_element_count ?t = n"
    by (simp_all add: hash_table_new_def)
  have "ht_inv (foldl ht_put ?t kvs) \<and> ht_abs (foldl ht_put ?t kvs) = foldl (bounded_put n) Map.empty kvs"
    using ht_puts_abs [OF ht_inv_new, of kvs n ks vs] assms by (simp add: sz ht_abs_new [abs_def])
  then show ?thesis
    by (intro ext) (simp add: ht_read_def ht_lookup_abs ht_inv_def)
qed

theorem hash_table_updates_refine_witness:
  "ht_read (foldl ht_put (hash_table_new 2 1 1) [([0], [7]), ([3], [8]), ([5], [9])]) [3] = Some [8]"
  using hash_table_updates_refine [of "[([0], [7]), ([3], [8]), ([5], [9])]" 1 1 2]
  by (simp add: bounded_put_def)

section \<open>Delete\<close>

text \<open>Deleting clears the flag of the bucket the search found. The deleted key is gone, no
  other key changes its value; but a key whose probe path passed the cleared bucket is not
  found any more (theorems \<open>hash_delete_loses_key\<close> and \<open>hash_deleted_key_returns\<close>).\<close>

lemma ht_delete_sound:
  assumes inv: "ht_inv t" and del: "ht_elem_delete t k = (ok, t')"
  shows "ht_wf t'" and "ok \<longleftrightarrow> k \<in> dom (ht_abs t)" and "ht_abs t' k = None"
    and "ht_abs t' x = ht_abs t x \<or> ht_abs t' x = None"
proof -
  from inv have wf: "ht_wf t" and ch: "chained t" by (auto simp: ht_inv_def)
  have "ht_wf t' \<and> (ok \<longleftrightarrow> k \<in> dom (ht_abs t)) \<and> ht_abs t' k = None \<and>
    (ht_abs t' x = ht_abs t x \<or> ht_abs t' x = None)"
  proof (cases "\<exists>i. ht_find t k = Hit i")
    case False
    with del wf have "t' = t" "\<not> ok" "ht_abs t k = None"
      by (auto simp: ht_elem_delete_def ht_abs_def split: probe_result.splits)
    with wf show ?thesis by auto
  next
    case True
    then obtain i where hit: "ht_find t k = Hit i" by blast
    define c where "c = size_dec (ht_count t)"
    from del hit have t': "t' = (set_empty i t)\<lparr>ht_count := c\<rparr>" and ok
      by (auto simp: ht_elem_delete_def c_def)
    from find_HitD [OF wf hit] have i: "i < ht_num_buckets t" "get_key t i = k" by auto
    have wf': "ht_wf t'" using set_flag_wf(1) [OF wf i(1)] by (simp add: t')
    have E: "is_empty t' j = (j = i \<or> is_empty t j)" "get_key t' j = get_key t j"
      "get_value t' j = get_value t j" if "j < ht_num_buckets t" for j
      using get_set_empty [OF wf i(1) that] by (simp_all add: t')
    have only: "y \<noteq> k \<and> ht_find t y = Hit j" if "ht_find t' y = Hit j" for y j
    proof -
      from find_HitD [OF wf' that] have j: "j < ht_num_buckets t" "\<not> is_empty t' j" "get_key t' j = y"
        by (auto simp: t')
      with E have "j \<noteq> i" "j \<in> filled_buckets t" "get_key t j = y" by (auto simp: filled_buckets_def)
      moreover from this ch have "ht_find t y = Hit j" by (auto simp: chained_def)
      ultimately show ?thesis using hit by auto
    qed
    have k: "ht_abs t' k = None" using only by (auto simp: ht_abs_def split: probe_result.split)
    have "ht_abs t' x = ht_abs t x \<or> ht_abs t' x = None"
    proof (cases "ht_find t' x")
      case (Hit j)
      from only [OF this] have "ht_find t x = Hit j" by simp
      with Hit find_HitD [OF wf' Hit] E(3) show ?thesis by (auto simp: ht_abs_def t')
    qed (auto simp: ht_abs_def)
    with wf' k \<open>ok\<close> hit show ?thesis by (auto simp: ht_abs_def)
  qed
  then show "ht_wf t'" "ok \<longleftrightarrow> k \<in> dom (ht_abs t)" "ht_abs t' k = None"
    "ht_abs t' x = ht_abs t x \<or> ht_abs t' x = None" by auto
qed

text \<open>The shape of the table survives every operation, and then the search always ends.\<close>

lemma ht_update_wf:
  assumes wf: "ht_wf t" and len: "length k = ht_key_size t" "length v = ht_value_size t"
  shows "ht_wf (snd (ht_elem_update t k v))"
proof (cases "ht_find t k")
  case (Hole i)
  from find_HoleD [OF wf this] have i: "i < ht_num_buckets t" by auto
  then have "ht_wf (set_key i k t)" using wf len(1) by (rule_tac set_key_wf)
  then have "ht_wf (set_value i v (set_key i k t))" using i len(2) by (rule_tac set_value_wf) auto
  with set_flag_wf(2) [OF this, of i] i wf Hole show ?thesis by (simp add: ht_elem_update_def)
next
  case (Hit i)
  with find_HitD [OF wf Hit] set_value_wf [OF wf, of i v] len show ?thesis
    by (auto simp: ht_elem_update_def)
qed (use wf in \<open>simp_all add: ht_elem_update_def\<close>)

lemma ht_delete_wf:
  assumes "ht_wf t"
  shows "ht_wf (snd (ht_elem_delete t k))"
proof (cases "ht_find t k")
  case (Hit i)
  with find_HitD [OF assms Hit] set_flag_wf(1) [OF assms, of i] show ?thesis
    by (auto simp: ht_elem_delete_def)
qed (use assms in \<open>simp_all add: ht_elem_delete_def\<close>)

definition ht_step :: "hash_table \<Rightarrow> (bytes, bytes) map_op \<Rightarrow> hash_table" where
  "ht_step t x = (case x of Upd k v f \<Rightarrow> snd (ht_elem_update t k v) | Del k \<Rightarrow> snd (ht_elem_delete t k))"

lemma ht_delete_frame:
  "ht_key_size (snd (ht_elem_delete t k)) = ht_key_size t"
  "ht_value_size (snd (ht_elem_delete t k)) = ht_value_size t"
  by (simp_all add: ht_elem_delete_def split: probe_result.split)

lemma ht_steps_wf:
  assumes "ht_wf t" "\<forall>k v f. Upd k v f \<in> set ops \<longrightarrow> length k = ht_key_size t \<and> length v = ht_value_size t"
  shows "ht_wf (foldl ht_step t ops)"
  using assms
proof (induction ops arbitrary: t)
  case (Cons x ops)
  have "ht_wf (ht_step t x) \<and> ht_key_size (ht_step t x) = ht_key_size t \<and>
    ht_value_size (ht_step t x) = ht_value_size t"
  proof (cases x)
    case (Upd k v f)
    with Cons.prems show ?thesis by (auto simp: ht_step_def ht_update_wf ht_update_frame)
  next
    case (Del k)
    with Cons.prems show ?thesis
      by (auto simp: ht_step_def ht_delete_wf ht_delete_frame)
  qed
  moreover have "\<forall>k v f. Upd k v f \<in> set ops \<longrightarrow> length k = ht_key_size t \<and> length v = ht_value_size t"
    using Cons.prems(2) by auto
  ultimately show ?case using Cons.IH [of "ht_step t x"] by simp
qed simp

text \<open>Hash table, termination: after any sequence of updates and deletes on a new table the
  search loop ends for every key, within as many steps as there are buckets.\<close>

theorem hash_table_search_terminates:
  assumes "\<forall>k v f. Upd k v f \<in> set ops \<longrightarrow> length k = ks \<and> length v = vs"
  shows "ht_find (foldl ht_step (hash_table_new n ks vs) ops) key \<noteq> Unfinished"
proof -
  have "ht_wf (foldl ht_step (hash_table_new n ks vs) ops)"
    by (rule ht_steps_wf [OF ht_wf_new]) (use assms in \<open>simp add: hash_table_new_def\<close>)
  then show ?thesis by (rule find_terminates)
qed

theorem hash_table_search_terminates_witness:
  "ht_find (foldl ht_step (hash_table_new 2 1 1) [Upd [0] [7] 0, Upd [3] [8] 0, Del [0]]) [4] \<noteq> Unfinished"
  by (rule hash_table_search_terminates [of _ 1 1]) auto

text \<open>Hash table, delete loses a key: keys 0 and 3 collide in a table of three buckets.
  Deleting key 0 empties the bucket the search for key 3 passes through, so key 3, which was
  never deleted, is not found any more, although the element count still counts it.\<close>

theorem hash_delete_loses_key:
  "let t = foldl ht_step (hash_table_new 3 1 1) [Upd [0] [7] 0, Upd [3] [8] 0];
       t' = ht_step t (Del [0])
   in ht_read t [3] = Some [8] \<and> ht_read t' [3] = None \<and> get_elem_count t' = 1"
  by code_simp

text \<open>Hash table, a deleted key returns: storing key 3 again after that makes a second copy
  of it. Deleting it removes one copy; after a later insert of key 0 a lookup of the deleted key
  3 finds the other copy with its stale value.\<close>

theorem hash_deleted_key_returns:
  "let t = foldl ht_step (hash_table_new 3 1 1)
             [Upd [0] [7] 0, Upd [3] [8] 0, Del [0], Upd [3] [9] 0, Del [3]]
   in ht_read t [3] = None \<and> ht_read (ht_step t (Upd [0] [1] 0)) [3] = Some [8]"
  by code_simp

text \<open>Hash table, delete is sound: on a table built by updates a delete reports whether the
  key was there, removes it, and never gives another key a value it did not have.\<close>

theorem hash_table_delete_sound:
  assumes "\<forall>kv \<in> set kvs. length (fst kv) = ks \<and> length (snd kv) = vs"
    and "t = foldl ht_put (hash_table_new n ks vs) kvs" and "ht_elem_delete t k = (ok, t')"
  shows "(ok \<longleftrightarrow> k \<in> dom (ht_read t)) \<and> ht_read t' k = None \<and> ht_read t' \<subseteq>\<^sub>m ht_read t"
proof -
  have inv: "ht_inv t"
    using ht_puts_abs [OF ht_inv_new, of kvs n ks vs] assms by (simp add: hash_table_new_def)
  note d = ht_delete_sound [OF inv assms(3)]
  have rd: "ht_read t = ht_abs t" "ht_read t' = ht_abs t'"
    using inv d(1) by (auto simp: ht_read_def ht_lookup_abs ht_inv_def)
  have "ht_abs t' x = ht_abs t x" if "x \<in> dom (ht_abs t')" for x
    using d(4) [of x] that by auto
  with d(2,3) show ?thesis by (simp add: rd map_le_def)
qed

theorem hash_table_delete_sound_witness:
  "let t = foldl ht_put (hash_table_new 2 1 1) [([0], [7]), ([4], [8])];
       (ok, t') = ht_elem_delete t [4]
   in (ok \<longleftrightarrow> [4] \<in> dom (ht_read t)) \<and> ht_read t' [4] = None \<and> ht_read t' \<subseteq>\<^sub>m ht_read t"
  using hash_table_delete_sound [of "[([0], [7]), ([4], [8])]" 1 1 "foldl ht_put (hash_table_new 2 1 1) [([0], [7]), ([4], [8])]" 2 "[4]"]
  by (simp add: Let_def split: prod.split)

section \<open>fix\_size\_hash\_map\_impl\<close>

record fix_hash_map =
  fh_map_impl :: hash_table
  fh_key_size :: u32
  fh_value_size :: u32
  fh_num_buckets :: u32

definition fix_hash_map_new :: "u32 \<Rightarrow> u32 \<Rightarrow> u32 \<Rightarrow> fix_hash_map" where
  "fix_hash_map_new num_buckets key_size value_size =
     \<lparr>fh_map_impl = hash_table_new (unat num_buckets) (unat key_size) (unat value_size),
      fh_key_size = key_size, fh_value_size = value_size, fh_num_buckets = num_buckets\<rparr>"

text \<open>A missing key gives a null pointer and leaves \<^verbatim>\<open>errno\<close> alone.\<close>

definition fh_elem_lookup :: "fix_hash_map \<Rightarrow> bytes \<Rightarrow> ptr res" where
  "fh_elem_lookup m key =
     bindr (or_fault (rd key 0 (ht_key_size (fh_map_impl m)))) (\<lambda>k.
       case ht_elem_lookup (fh_map_impl m) k of None \<Rightarrow> Inl Silent | Some o' \<Rightarrow> Inr (PData o'))"

text \<open>The flags are ignored, and so is whether the table accepted the element.\<close>

definition fh_elem_update :: "fix_hash_map \<Rightarrow> bytes \<Rightarrow> bytes \<Rightarrow> u64 \<Rightarrow> fix_hash_map res" where
  "fh_elem_update m key val flags =
     bindr (or_fault (rd key 0 (ht_key_size (fh_map_impl m)))) (\<lambda>k.
     bindr (or_fault (rd val 0 (ht_value_size (fh_map_impl m)))) (\<lambda>v.
       Inr (m\<lparr>fh_map_impl := snd (ht_elem_update (fh_map_impl m) k v)\<rparr>)))"

definition fh_elem_delete :: "fix_hash_map \<Rightarrow> bytes \<Rightarrow> fix_hash_map res" where
  "fh_elem_delete m key =
     bindr (or_fault (rd key 0 (ht_key_size (fh_map_impl m)))) (\<lambda>k.
       Inr (m\<lparr>fh_map_impl := snd (ht_elem_delete (fh_map_impl m) k)\<rparr>))"

text \<open>The loops over buckets run up to \<^verbatim>\<open>_num_buckets\<close>, the requested number, not the prime
  number of buckets the table has.\<close>

definition fh_scan :: "fix_hash_map \<Rightarrow> nat \<Rightarrow> bytes res" where
  "fh_scan m i0 =
     (case find (\<lambda>i. \<not> is_empty (fh_map_impl m) i) [i0..<unat (fh_num_buckets m)] of
        None \<Rightarrow> Inl (Errno ENOENT)
      | Some i \<Rightarrow> Inr (get_key (fh_map_impl m) i))"

definition fh_get_next_key :: "fix_hash_map \<Rightarrow> bytes option \<Rightarrow> bool \<Rightarrow> bytes res" where
  "fh_get_next_key m key next_key_null =
     (if next_key_null then Inl (Errno EINVAL)
      else case key of None \<Rightarrow> fh_scan m 0
      | Some kb \<Rightarrow>
          (case fh_elem_lookup m kb of
             Inr (PData value_ptr) \<Rightarrow> fh_scan m (get_index_of_value (fh_map_impl m) value_ptr + 1)
           | Inr _ \<Rightarrow> Inl Fault
           | Inl Fault \<Rightarrow> Inl Fault
           | Inl _ \<Rightarrow> fh_scan m 0))"

lemma get_index_of_value_inverse:
  assumes "ht_wf t" "i < ht_num_buckets t" "0 < ht_value_size t"
  shows "get_index_of_value t (get_elem_offset t i + 4 + ht_key_size t) = i"
proof -
  let ?f = "4 + ht_key_size t"
  have lt: "?f < ht_stride t" using assms(3) by (simp add: ht_stride_def)
  have "i * ht_stride t + ?f < ht_num_buckets t * ht_stride t"
    using slot_mult_bound [OF assms(2), of "ht_stride t"] lt by linarith
  moreover have "(i * ht_stride t + ?f) div ht_stride t = i" using lt by simp
  ultimately show ?thesis
    using assms(1) by (simp add: get_index_of_value_def get_elem_offset_def ht_wf_def add.assoc)
qed

section \<open>Iteration\<close>

lemma find_filter: "find P xs = (case filter P xs of [] \<Rightarrow> None | x # _ \<Rightarrow> Some x)"
  by (induction xs) auto

lemma find_after:
  assumes "i < length (filter P [0..<n])"
  shows "find P [Suc (filter P [0..<n] ! i)..<n] =
    (if Suc i < length (filter P [0..<n]) then Some (filter P [0..<n] ! Suc i) else None)"
proof -
  let ?f = "filter P [0..<n]" and ?b = "filter P [0..<n] ! i"
  have "?b \<in> set ?f" using assms by (rule nth_mem)
  then have b: "?b < n" "P ?b" by auto
  then have "[0..<n] = [0..<?b] @ ?b # [Suc ?b..<n]"
    by (metis append_Cons append_Nil append_assoc less_imp_le upt_conv_Cons upt_add_eq_append zero_le le_add_diff_inverse)
  then have split: "?f = filter P [0..<?b] @ ?b # filter P [Suc ?b..<n]"
    using b(2) by (metis filter.simps(2) filter_append)
  have "?f ! length (filter P [0..<?b]) = ?b" by (subst split) simp
  moreover have "length (filter P [0..<?b]) < length ?f" by (subst (2) split) simp
  moreover have "distinct ?f" by simp
  ultimately have i: "i = length (filter P [0..<?b])"
    using assms nth_eq_iff_index_eq [of ?f i "length (filter P [0..<?b])"] by presburger
  have len: "length ?f = Suc i + length (filter P [Suc ?b..<n])"
    by (subst split, subst i) simp
  have "?f ! Suc i = filter P [Suc ?b..<n] ! 0" if "Suc i < length ?f"
    by (subst split, subst (2) i) (simp add: nth_append)
  with len show ?thesis by (cases "filter P [Suc ?b..<n]") (simp_all add: find_filter)
qed

text \<open>The keys a walk sees: those in the buckets below the requested number.\<close>

definition fh_visible :: "fix_hash_map \<Rightarrow> bytes list" where
  "fh_visible m = map (get_key (fh_map_impl m))
     (filter (\<lambda>i. \<not> is_empty (fh_map_impl m) i) [0..<unat (fh_num_buckets m)])"

definition fh_inv :: "fix_hash_map \<Rightarrow> bool" where
  "fh_inv m \<longleftrightarrow> ht_inv (fh_map_impl m) \<and> 0 < ht_value_size (fh_map_impl m) \<and>
     unat (fh_num_buckets m) = ht_max_element_count (fh_map_impl m)"

lemma fh_inv_new: "0 < vs \<Longrightarrow> fh_inv (fix_hash_map_new n ks vs)"
  by (simp add: fh_inv_def fix_hash_map_new_def ht_inv_new)
    (simp add: hash_table_new_def word_less_nat_alt)

interpretation fh_iter: key_cursor "\<lambda>m k. fh_get_next_key m k False" fh_visible fh_inv
proof (unfold_locales, goal_cases)
  case (1 m)
  let ?t = "fh_map_impl m"
  from 1 have inv: "ht_inv ?t" by (simp add: fh_inv_def)
  have "set (filter (\<lambda>i. \<not> is_empty ?t i) [0..<unat (fh_num_buckets m)]) \<subseteq> filled_buckets ?t"
    using 1 by (auto simp: fh_inv_def ht_inv_def filled_buckets_def)
  with ht_size_bound(2) [OF inv] show ?case
    by (simp add: fh_visible_def distinct_map inj_on_subset)
next
  case (2 m)
  then show ?case
    by (simp add: fh_get_next_key_def fh_scan_def fh_visible_def find_filter split: list.split)
next
  case (3 m i)
  let ?t = "fh_map_impl m" and ?n = "unat (fh_num_buckets m)"
  let ?fs = "filter (\<lambda>i. \<not> is_empty ?t i) [0..<?n]"
  from 3 have inv: "ht_inv ?t" and wf: "ht_wf ?t" and vs: "0 < ht_value_size ?t"
    and n: "?n \<le> ht_num_buckets ?t" by (auto simp: fh_inv_def ht_inv_def)
  have i: "i < length ?fs" using 3 by (simp add: fh_visible_def)
  then have "?fs ! i \<in> set ?fs" by (rule nth_mem)
  then have b: "?fs ! i < ht_num_buckets ?t" "?fs ! i \<in> filled_buckets ?t"
    using n by (auto simp: filled_buckets_def)
  then have hit: "ht_find ?t (get_key ?t (?fs ! i)) = Hit (?fs ! i)"
    using inv by (simp add: ht_inv_def chained_def)
  have len: "length (get_key ?t (?fs ! i)) = ht_key_size ?t"
    using field_bound [OF b(1), of 4 "ht_key_size ?t" "ht_stride ?t"] wf
    by (simp add: get_key_def get_elem_offset_def length_seg ht_wf_def ht_stride_def)
  have key: "fh_visible m ! i = get_key ?t (?fs ! i)" using i by (simp add: fh_visible_def)
  have "fh_get_next_key m (Some (fh_visible m ! i)) False = fh_scan m (Suc (?fs ! i))"
    using hit len get_index_of_value_inverse [OF wf b(1) vs]
    by (simp add: fh_get_next_key_def fh_elem_lookup_def ht_elem_lookup_def key)
  with find_after [OF i] i show ?case by (simp add: fh_scan_def fh_visible_def)
qed

text \<open>Fixed hash map, iteration: on a map without deletions the client loop ends and sees
  each key in a bucket below the requested number once.\<close>

theorem fix_hash_walk:
  assumes "fh_inv m" "length (fh_visible m) < n"
  shows "walk (\<lambda>k. fh_get_next_key m k False) n None = fh_visible m \<and> distinct (fh_visible m) \<and>
    set (fh_visible m) \<subseteq> dom (ht_read (fh_map_impl m))"
proof (intro conjI)
  show "walk (\<lambda>k. fh_get_next_key m k False) n None = fh_visible m"
    using assms by (rule fh_iter.walk_all)
  show "distinct (fh_visible m)" using assms(1) by (rule fh_iter.keys_distinct)
  have "ht_inv (fh_map_impl m)" "unat (fh_num_buckets m) \<le> ht_num_buckets (fh_map_impl m)"
    using assms(1) by (auto simp: fh_inv_def ht_inv_def)
  then show "set (fh_visible m) \<subseteq> dom (ht_read (fh_map_impl m))"
    using ht_size_bound(1) [of "fh_map_impl m"] ht_lookup_abs [of "fh_map_impl m"]
    by (auto simp: fh_visible_def filled_buckets_def ht_read_def ht_inv_def dom_def)
qed

theorem fix_hash_walk_witness:
  "walk (\<lambda>k. fh_get_next_key (fix_hash_map_new 2 1 1) k False) 1 None = []"
proof -
  have "fh_visible (fix_hash_map_new 2 1 1) = []" by code_simp
  with fix_hash_walk [OF fh_inv_new, of 1 2 1 1] show ?thesis by simp
qed

text \<open>Fixed hash map, iteration misses keys: a map for four elements has five buckets, and
  the iteration stops at the fourth. A key in the last bucket is found by a lookup and is
  invisible to \<^verbatim>\<open>get_next_key\<close>.\<close>

theorem fix_hash_walk_misses_key:
  "case fh_elem_update (fix_hash_map_new 4 1 1) [4] [9] BPF_ANY of
     Inl _ \<Rightarrow> False
   | Inr m \<Rightarrow> ht_read (fh_map_impl m) [4] = Some [9] \<and>
       fh_get_next_key m None False = Inl (Errno ENOENT)"
  by code_simp

text \<open>Fixed hash map, a full table: the update that the table rejects still returns success,
  and so does an update with \<^verbatim>\<open>BPF_NOEXIST\<close> of an existing key, which overwrites it.\<close>

theorem fix_hash_update_ignores_result:
  "(case fh_elem_update (fix_hash_map_new 1 1 1) [4] [9] BPF_ANY of
      Inl _ \<Rightarrow> False
    | Inr m \<Rightarrow>
        (case fh_elem_update m [5] [1] BPF_ANY of Inl _ \<Rightarrow> False
         | Inr m' \<Rightarrow> ht_read (fh_map_impl m') [5] = None) \<and>
        (case fh_elem_update m [4] [1] BPF_NOEXIST of Inl _ \<Rightarrow> False
         | Inr m' \<Rightarrow> ht_read (fh_map_impl m') [4] = Some [1]))"
  by code_simp

end
