(* ===== verification/Unordered_Map.thy ===== *)
theory Unordered_Map
  imports Array_Maps
begin

text \<open>
  \<^verbatim>\<open>boost::unordered_map\<close>, the container behind the variable-size, per-CPU and LRU hash
  maps. It is a library of its own, so what is modelled is its interface: the finite map
  and the order in which iterators visit the keys. Where a new key lands in that order is
  the library's choice, given by the parameter \<open>place\<close>; the maps rely only on \<open>um_ok\<close>, that
  an insertion adds the one key. Erasing keeps the order of the remaining keys, as the
  library documents. The iteration code that the three maps repeat is here once.
\<close>

record 'v umap =
  um_order :: "bytes list"
  um_map :: "bytes \<rightharpoonup> 'v"

type_synonym placement = "bytes list \<Rightarrow> bytes \<Rightarrow> bytes list"

definition um_ok :: "placement \<Rightarrow> bool" where
  "um_ok place \<longleftrightarrow> (\<forall>ks k. mset (place ks k) = add_mset k (mset ks))"

definition um_empty :: "'v umap" where
  "um_empty = \<lparr>um_order = [], um_map = Map.empty\<rparr>"

definition um_find :: "'v umap \<Rightarrow> bytes \<Rightarrow> 'v option" where
  "um_find m k = um_map m k"

definition um_size :: "'v umap \<Rightarrow> nat" where
  "um_size m = length (um_order m)"

definition um_insert_or_assign :: "placement \<Rightarrow> bytes \<Rightarrow> 'v \<Rightarrow> 'v umap \<Rightarrow> 'v umap" where
  "um_insert_or_assign place k v m =
     m\<lparr>um_order := (if um_map m k = None then place (um_order m) k else um_order m),
       um_map := (um_map m)(k \<mapsto> v)\<rparr>"

definition um_erase :: "bytes \<Rightarrow> 'v umap \<Rightarrow> 'v umap" where
  "um_erase k m = m\<lparr>um_order := removeAll k (um_order m), um_map := (um_map m)(k := None)\<rparr>"

fun um_after :: "'k list \<Rightarrow> 'k \<Rightarrow> 'k option" where
  "um_after [] k = None"
| "um_after (x # xs) k =
     (if x = k then (case xs of [] \<Rightarrow> None | y # _ \<Rightarrow> Some y) else um_after xs k)"

text \<open>\<^verbatim>\<open>map_get_next_key\<close> of the three classes: first key for null or unknown, else the key
  after it.\<close>

definition um_first_key :: "'v umap \<Rightarrow> bytes res" where
  "um_first_key m = (case um_order m of [] \<Rightarrow> Inl (Errno ENOENT) | k # _ \<Rightarrow> Inr k)"

definition um_next_key :: "nat \<Rightarrow> 'v umap \<Rightarrow> bytes option \<Rightarrow> bytes res" where
  "um_next_key key_size m key =
     (case key of None \<Rightarrow> um_first_key m
      | Some kb \<Rightarrow> bindr (or_fault (rd kb 0 key_size)) (\<lambda>k.
          case um_find m k of None \<Rightarrow> um_first_key m
          | Some _ \<Rightarrow>
              (case um_after (um_order m) k of None \<Rightarrow> Inl (Errno ENOENT) | Some k' \<Rightarrow> Inr k')))"

section \<open>Invariant\<close>

definition um_inv :: "'v umap \<Rightarrow> bool" where
  "um_inv m \<longleftrightarrow> distinct (um_order m) \<and> set (um_order m) = dom (um_map m)"

lemma um_place:
  assumes "um_ok place"
  shows "set (place ks k) = insert k (set ks)" "distinct (place ks k) \<longleftrightarrow> distinct ks \<and> k \<notin> set ks"
proof -
  have eq: "mset (place ks k) = mset (k # ks)" using assms by (simp add: um_ok_def)
  show "set (place ks k) = insert k (set ks)" using mset_eq_setD [OF eq] by simp
  show "distinct (place ks k) \<longleftrightarrow> distinct ks \<and> k \<notin> set ks"
    using mset_eq_imp_distinct_iff [OF eq] by auto
qed

lemma um_inv_empty [simp]: "um_inv um_empty"
  by (simp add: um_inv_def um_empty_def)

lemma um_inv_insert:
  assumes "um_ok place" "um_inv m"
  shows "um_inv (um_insert_or_assign place k v m)"
proof (cases "um_map m k")
  case None
  with assms show ?thesis
    using um_place [OF assms(1), of "um_order m" k] by (auto simp: um_inv_def um_insert_or_assign_def)
next
  case (Some w)
  with assms(2) show ?thesis by (auto simp: um_inv_def um_insert_or_assign_def)
qed

lemma um_inv_erase: "um_inv m \<Longrightarrow> um_inv (um_erase k m)"
  by (auto simp: um_inv_def um_erase_def distinct_removeAll)

lemma um_find_insert [simp]:
  "um_find (um_insert_or_assign place k v m) k' = (if k' = k then Some v else um_find m k')"
  by (simp add: um_find_def um_insert_or_assign_def)

lemma um_find_erase [simp]:
  "um_find (um_erase k m) k' = (if k' = k then None else um_find m k')"
  by (simp add: um_find_def um_erase_def)

lemma um_size_card: "um_inv m \<Longrightarrow> card (dom (um_find m)) = um_size m \<and> finite (dom (um_find m))"
  unfolding um_inv_def um_find_def um_size_def
  by (metis List.finite_set distinct_card eta_contract_eq)

lemma um_size_insert:
  assumes "um_ok place" "um_inv m"
  shows "um_size (um_insert_or_assign place k v m) = (if um_find m k = None then Suc (um_size m) else um_size m)"
proof -
  have "length (place (um_order m) k) = Suc (length (um_order m))"
    using assms(1) by (metis um_ok_def size_add_mset size_mset)
  then show ?thesis by (simp add: um_size_def um_find_def um_insert_or_assign_def)
qed

lemma um_size_erase: "um_size (um_erase k m) \<le> um_size m"
  by (simp add: um_size_def um_erase_def)

lemma um_keys_insert:
  "um_ok place \<Longrightarrow> um_inv m \<Longrightarrow> set (um_order (um_insert_or_assign place k v m)) = insert k (set (um_order m))"
  using um_place(1) [of place "um_order m" k] by (auto simp: um_insert_or_assign_def um_inv_def)

lemma um_keys_erase: "set (um_order (um_erase k m)) = set (um_order m) - {k}"
  by (simp add: um_erase_def)

section \<open>Iteration\<close>

lemma um_after_nth:
  "distinct xs \<Longrightarrow> i < length xs \<Longrightarrow>
     um_after xs (xs ! i) = (if Suc i < length xs then Some (xs ! Suc i) else None)"
proof (induction xs arbitrary: i)
  case (Cons x xs)
  then show ?case
    by (cases i) (auto simp: nth_Cons' split: list.split dest: nth_mem)
qed simp

definition um_sized :: "nat \<Rightarrow> 'v umap \<Rightarrow> bool" where
  "um_sized key_size m \<longleftrightarrow> um_inv m \<and> (\<forall>k \<in> set (um_order m). length k = key_size)"

lemma um_sized_empty [simp]: "um_sized n um_empty"
  by (simp add: um_sized_def um_empty_def um_inv_def)

lemma um_sized_insert:
  "um_ok place \<Longrightarrow> um_sized n m \<Longrightarrow> length k = n \<Longrightarrow> um_sized n (um_insert_or_assign place k v m)"
  by (auto simp: um_sized_def um_inv_insert um_keys_insert)

lemma um_sized_erase: "um_sized n m \<Longrightarrow> um_sized n (um_erase k m)"
  by (auto simp: um_sized_def um_inv_erase um_keys_erase)

interpretation um_iter: key_iteration "um_next_key n" um_order "um_sized n" "\<lambda>m k. length k = n"
  for n
proof (unfold_locales, goal_cases)
  case (1 m)
  then show ?case by (simp add: um_sized_def um_inv_def)
next
  case (2 m)
  then show ?case by (simp add: um_next_key_def um_first_key_def split: list.split)
next
  case (3 m i)
  then have "um_order m ! i \<in> set (um_order m)" by simp
  with 3 have "length (um_order m ! i) = n" "um_order m ! i \<in> dom (um_map m)" "distinct (um_order m)"
    by (auto simp: um_sized_def um_inv_def)
  with 3 um_after_nth [of "um_order m" i] show ?case
    by (auto simp: um_next_key_def um_find_def)
next
  case (4 m k)
  then have "um_map m k = None" by (auto simp: um_sized_def um_inv_def)
  with 4 show ?case by (simp add: um_next_key_def um_find_def)
qed

end
