(* ===== verification/Var_Hash_Map.thy ===== *)
theory Var_Hash_Map
  imports Unordered_Map
begin

text \<open>
  \<^verbatim>\<open>var_hash_map.cpp\<close>: the hash map with access flags. The scratch vectors
  \<^verbatim>\<open>key_vec\<close> and \<^verbatim>\<open>value_vec\<close> are assigned before every use, so they carry no state and
  are the copies \<open>k\<close> and \<open>v\<close> here.
\<close>

unbundle bit_operations_syntax

definition BPF_F_RDONLY :: u32 where "BPF_F_RDONLY = 8"
definition BPF_F_WRONLY :: u32 where "BPF_F_WRONLY = 16"

definition is_good_update_flag :: "u64 \<Rightarrow> bool" where
  "is_good_update_flag flags \<longleftrightarrow> flags = BPF_ANY \<or> flags = BPF_EXIST \<or> flags = BPF_NOEXIST"

record var_hash_map =
  vh_map_impl :: "bytes umap"
  vh_key_size :: u32
  vh_value_size :: u32
  vh_max_entries :: u32
  vh_flags :: u32

definition var_hash_map_new :: "u32 \<Rightarrow> u32 \<Rightarrow> u32 \<Rightarrow> u32 \<Rightarrow> var_hash_map" where
  "var_hash_map_new key_size value_size max_entries flags =
     \<lparr>vh_map_impl = um_empty, vh_key_size = key_size, vh_value_size = value_size,
      vh_max_entries = max_entries, vh_flags = flags\<rparr>"

definition vh_key :: "var_hash_map \<Rightarrow> bytes \<Rightarrow> bytes res" where
  "vh_key m key = or_fault (rd key 0 (unat (vh_key_size m)))"

definition vh_elem_lookup :: "var_hash_map \<Rightarrow> bytes \<Rightarrow> ptr res" where
  "vh_elem_lookup m key =
     (if vh_flags m AND BPF_F_WRONLY \<noteq> 0 then Inl (Errno EPERM)
      else bindr (vh_key m key) (\<lambda>k.
        case um_find (vh_map_impl m) k of None \<Rightarrow> Inl (Errno ENOENT) | Some _ \<Rightarrow> Inr (PVal k 0)))"

definition vh_elem_update ::
  "placement \<Rightarrow> var_hash_map \<Rightarrow> bytes \<Rightarrow> bytes \<Rightarrow> u64 \<Rightarrow> var_hash_map res" where
  "vh_elem_update place m key val flags =
     (if \<not> is_good_update_flag flags then Inl (Errno EINVAL)
      else bindr (vh_key m key) (\<lambda>k.
      bindr (or_fault (rd val 0 (unat (vh_value_size m)))) (\<lambda>v.
      let element_exists = um_find (vh_map_impl m) k \<noteq> None in
        if flags = BPF_NOEXIST \<and> element_exists then Inl (Errno EEXIST)
        else if flags = BPF_EXIST \<and> \<not> element_exists then Inl (Errno ENOENT)
        else if \<not> element_exists \<and> um_size (vh_map_impl m) = unat (vh_max_entries m)
          then Inl (Errno E2BIG)
        else if \<not> element_exists \<and> vh_flags m AND BPF_F_RDONLY \<noteq> 0 then Inl (Errno EPERM)
        else Inr (m\<lparr>vh_map_impl := um_insert_or_assign place k v (vh_map_impl m)\<rparr>))))"

definition vh_elem_delete :: "var_hash_map \<Rightarrow> bytes \<Rightarrow> var_hash_map res" where
  "vh_elem_delete m key =
     bindr (vh_key m key) (\<lambda>k.
       case um_find (vh_map_impl m) k of None \<Rightarrow> Inl (Errno ENOENT)
       | Some _ \<Rightarrow> Inr (m\<lparr>vh_map_impl := um_erase k (vh_map_impl m)\<rparr>))"

definition vh_lookup_and_delete :: "var_hash_map \<Rightarrow> bytes \<Rightarrow> (bytes \<times> var_hash_map) res" where
  "vh_lookup_and_delete m key =
     bindr (vh_key m key) (\<lambda>k.
       case um_find (vh_map_impl m) k of None \<Rightarrow> Inl (Errno ENOENT)
       | Some v \<Rightarrow> bindr (or_fault (rd v 0 (unat (vh_value_size m)))) (\<lambda>value_out.
           Inr (value_out, m\<lparr>vh_map_impl := um_erase k (vh_map_impl m)\<rparr>)))"

definition vh_get_next_key :: "var_hash_map \<Rightarrow> bytes option \<Rightarrow> bytes res" where
  "vh_get_next_key m key =
     (if vh_flags m AND BPF_F_WRONLY \<noteq> 0 then Inl (Errno EPERM)
      else um_next_key (unat (vh_key_size m)) (vh_map_impl m) key)"

text \<open>What a client reads: it looks the key up and copies a value's length from the pointer.\<close>

definition vh_load :: "var_hash_map \<Rightarrow> ptr \<Rightarrow> bytes option" where
  "vh_load m p = (case p of
     PVal k o' \<Rightarrow> Option.bind (um_find (vh_map_impl m) k) (\<lambda>v. rd v o' (unat (vh_value_size m)))
   | _ \<Rightarrow> None)"

definition vh_value :: "var_hash_map \<Rightarrow> bytes \<Rightarrow> bytes option" where
  "vh_value m key = (if length key = unat (vh_key_size m) then
     (case vh_elem_lookup m key of Inl _ \<Rightarrow> None | Inr p \<Rightarrow> vh_load m p) else None)"

definition vh_shape :: "var_hash_map \<Rightarrow> bytes \<Rightarrow> bytes \<Rightarrow> bool" where
  "vh_shape m k v \<longleftrightarrow> length k = unat (vh_key_size m) \<and> length v = unat (vh_value_size m)"

definition vh_inv :: "var_hash_map \<Rightarrow> bool" where
  "vh_inv m \<longleftrightarrow> um_sized (unat (vh_key_size m)) (vh_map_impl m) \<and>
     (\<forall>k v. um_find (vh_map_impl m) k = Some v \<longrightarrow> length v = unat (vh_value_size m)) \<and>
     um_size (vh_map_impl m) \<le> unat (vh_max_entries m)"

definition vh_readable :: "var_hash_map \<Rightarrow> bool" where
  "vh_readable m \<longleftrightarrow> vh_flags m AND BPF_F_WRONLY = 0"

lemma vh_inv_new: "vh_inv (var_hash_map_new ks vs n fl)"
  by (simp add: vh_inv_def var_hash_map_new_def um_find_def um_size_def um_sized_def um_empty_def um_inv_def)

lemma vh_key_exact [simp]: "length key = unat (vh_key_size m) \<Longrightarrow> vh_key m key = Inr key"
  by (simp add: vh_key_def)

lemma um_sized_find: "um_sized n m \<Longrightarrow> um_find m k = Some v \<Longrightarrow> length k = n"
  by (auto simp: um_sized_def um_inv_def um_find_def)

lemma vh_value_find: "vh_inv m \<Longrightarrow> vh_readable m \<Longrightarrow> vh_value m = um_find (vh_map_impl m)"
proof (rule ext)
  fix k assume inv: "vh_inv m" and rd: "vh_readable m"
  show "vh_value m k = um_find (vh_map_impl m) k"
  proof (cases "um_find (vh_map_impl m) k")
    case None
    then show ?thesis using rd by (simp add: vh_value_def vh_elem_lookup_def vh_readable_def)
  next
    case (Some v)
    with inv have "length k = unat (vh_key_size m)" "length v = unat (vh_value_size m)"
      by (auto simp: vh_inv_def dest: um_sized_find)
    with Some rd show ?thesis
      by (simp add: vh_value_def vh_elem_lookup_def vh_readable_def vh_load_def)
  qed
qed

lemma vh_update_cases:
  assumes "vh_shape m k v" "vh_elem_update place m k v f = Inr m'"
  shows "m' = m\<lparr>vh_map_impl := um_insert_or_assign place k v (vh_map_impl m)\<rparr>"
    and "um_find (vh_map_impl m) k = None \<Longrightarrow> um_size (vh_map_impl m) \<noteq> unat (vh_max_entries m)"
  using assms by (auto simp: vh_elem_update_def vh_shape_def Let_def split: if_splits)

lemma vh_delete_cases:
  assumes "vh_shape m k v" "vh_elem_delete m k = Inr m'"
  shows "m' = m\<lparr>vh_map_impl := um_erase k (vh_map_impl m)\<rparr>"
  using assms by (auto simp: vh_elem_delete_def vh_shape_def split: option.splits)

lemma vh_inv_insert:
  assumes "um_ok place" "vh_inv m" "vh_shape m k v" "vh_elem_update place m k v f = Inr m'"
  shows "vh_inv m'"
proof -
  note c = vh_update_cases [OF assms(3,4)]
  have "um_inv (vh_map_impl m)" using assms(2) by (simp add: vh_inv_def um_sized_def)
  note sz = um_size_insert [OF assms(1) this, of k v]
  have "um_size (vh_map_impl m) \<le> unat (vh_max_entries m)" using assms(2) by (simp add: vh_inv_def)
  with c sz have "um_size (vh_map_impl m') \<le> unat (vh_max_entries m')" by (auto split: if_splits)
  with assms c show ?thesis
    by (auto simp: vh_inv_def vh_shape_def um_sized_insert)
qed

lemma vh_inv_erase: "vh_inv m \<Longrightarrow> vh_inv (m\<lparr>vh_map_impl := um_erase k (vh_map_impl m)\<rparr>)"
  using um_size_erase [of k "vh_map_impl m"]
  by (auto simp: vh_inv_def um_sized_erase split: if_splits)

interpretation vh: exact_map_store vh_value "vh_elem_update place" vh_elem_delete
  "\<lambda>m. unat (vh_max_entries m)" vh_shape "\<lambda>m. um_ok place \<and> vh_inv m \<and> vh_readable m" for place
proof (unfold_locales, goal_cases)
  case (1 m k v f m')
  then show ?case using vh_update_cases(1) [of m k v place f m'] vh_inv_insert [of place m k v f m']
    by (auto simp: vh_readable_def vh_shape_def fun_eq_iff)
next
  case (2 m k v f m')
  then have "vh_inv m'" "vh_readable m'"
    using vh_update_cases(1) [of m k v place f m'] vh_inv_insert [of place m k v f m']
    by (auto simp: vh_readable_def)
  with 2 vh_update_cases(1) [of m k v place f m'] show ?case by (simp add: vh_value_find)
next
  case (3 m k v f m' k')
  then have "vh_inv m'" "vh_readable m'"
    using vh_update_cases(1) [of m k v place f m'] vh_inv_insert [of place m k v f m']
    by (auto simp: vh_readable_def)
  with 3 vh_update_cases(1) [of m k v place f m'] show ?case by (simp add: vh_value_find)
next
  case (4 m k v m')
  then show ?case using vh_delete_cases [of m k v m'] vh_inv_erase [of m k]
    by (auto simp: vh_readable_def vh_shape_def fun_eq_iff)
next
  case (5 m k v m')
  then have "vh_inv m'" "vh_readable m'"
    using vh_delete_cases [of m k v m'] vh_inv_erase [of m k] by (auto simp: vh_readable_def)
  with 5 vh_delete_cases [of m k v m'] show ?case by (auto simp: vh_value_find)
next
  case (6 m)
  then have "um_inv (vh_map_impl m)" by (simp add: vh_inv_def um_sized_def)
  with 6 um_size_card [of "vh_map_impl m"] show ?case by (simp add: vh_value_find vh_inv_def)
next
  case (7 m k v f m')
  then have "vh_inv m'" "vh_readable m'"
    using vh_update_cases(1) [of m k v place f m'] vh_inv_insert [of place m k v f m']
    by (auto simp: vh_readable_def)
  with 7 vh_update_cases(1) [of m k v place f m'] show ?case by (auto simp: vh_value_find)
qed

section \<open>Refinement of a bounded partial function\<close>

text \<open>The specification: a partial function of at most \<open>n\<close> keys, which takes no new keys when it is read-only (\<open>ro\<close>).
  Every operation answers with an error or with the function after it.\<close>

definition bounded_step :: "nat \<Rightarrow> bool \<Rightarrow> (bytes \<rightharpoonup> bytes) \<Rightarrow> (bytes, bytes) map_op \<Rightarrow> (bytes \<rightharpoonup> bytes) res" where
  "bounded_step n ro M x = (case x of
     Upd k v f \<Rightarrow>
       if f \<notin> {BPF_ANY, BPF_NOEXIST, BPF_EXIST} then Inl (Errno EINVAL)
       else if k \<in> dom M then (if f = BPF_NOEXIST then Inl (Errno EEXIST) else Inr (M(k \<mapsto> v)))
       else if f = BPF_EXIST then Inl (Errno ENOENT)
       else if card (dom M) = n then Inl (Errno E2BIG)
       else if ro then Inl (Errno EPERM)
       else Inr (M(k \<mapsto> v))
   | Del k \<Rightarrow> if k \<in> dom M then Inr (M(k := None)) else Inl (Errno ENOENT))"

definition vh_step :: "placement \<Rightarrow> var_hash_map \<Rightarrow> (bytes, bytes) map_op \<Rightarrow> var_hash_map res" where
  "vh_step place m x = (case x of Upd k v f \<Rightarrow> vh_elem_update place m k v f | Del k \<Rightarrow> vh_elem_delete m k)"

text \<open>Running operations, with the answer of each; one that fails leaves the state.\<close>

fun run_answers :: "('s \<Rightarrow> 'o \<Rightarrow> 's res) \<Rightarrow> 's \<Rightarrow> 'o list \<Rightarrow> unit res list \<times> 's" where
  "run_answers f s [] = ([], s)"
| "run_answers f s (x # xs) = (case f s x of
     Inl e \<Rightarrow> (let (rs, t) = run_answers f s xs in (Inl e # rs, t))
   | Inr s' \<Rightarrow> (let (rs, t) = run_answers f s' xs in (Inr () # rs, t)))"

lemma vh_step_refines:
  assumes "um_ok place" "vh_inv m" "vh_readable m" "op_shape (vh_shape m) x"
  shows "map_sum id vh_value (vh_step place m x) =
    bounded_step (unat (vh_max_entries m)) (vh_flags m AND BPF_F_RDONLY \<noteq> 0) (vh_value m) x"
proof -
  have sz: "um_size (vh_map_impl m) = card (dom (um_find (vh_map_impl m)))"
    using assms(2) um_size_card [of "vh_map_impl m"] by (simp add: vh_inv_def um_sized_def)
  note old = vh_value_find [OF assms(2,3)]
  show ?thesis
  proof (cases "vh_step place m x")
    case (Inl e)
    then show ?thesis using assms(4) sz
      by (cases x) (auto simp: old vh_step_def bounded_step_def vh_elem_update_def vh_elem_delete_def vh_shape_def
          is_good_update_flag_def flag_defs Let_def dom_def split: if_splits option.splits)
  next
    case (Inr m')
    show ?thesis
    proof (cases x)
      case (Upd k v f)
      then have m': "vh_elem_update place m k v f = Inr m'" "vh_shape m k v" using Inr assms(4) by (simp_all add: vh_step_def)
      have "vh_value m' = (vh_value m)(k \<mapsto> v)"
        using vh.update_exact [of place m k v f m'] assms m' by simp
      then show ?thesis using m' Upd Inr sz
        by (auto simp: old bounded_step_def vh_elem_update_def vh_shape_def is_good_update_flag_def Let_def dom_def split: if_splits)
    next
      case (Del k)
      then obtain v where m': "vh_elem_delete m k = Inr m'" "vh_shape m k v" using Inr assms(4) by (auto simp: vh_step_def)
      have "vh_value m' = (vh_value m)(k := None)"
        using vh.delete_lookup [of place m k v m'] assms m' by (simp add: fun_eq_iff)
      then show ?thesis using m' Del Inr
        by (auto simp: old bounded_step_def vh_elem_delete_def vh_shape_def dom_def split: option.splits)
    qed
  qed
qed

lemma vh_step_keeps:
  assumes "um_ok place" "vh_inv m" "vh_readable m" "op_shape (vh_shape m) x" "vh_step place m x = Inr m'"
  shows "vh_inv m' \<and> vh_readable m' \<and> vh_shape m' = vh_shape m \<and> vh_max_entries m' = vh_max_entries m \<and> vh_flags m' = vh_flags m"
proof (cases x)
  case (Upd k v f)
  then have m': "vh_shape m k v" "vh_elem_update place m k v f = Inr m'" using assms(4,5) by (simp_all add: vh_step_def)
  with vh_update_cases(1) [OF m'] vh_inv_insert [OF assms(1,2) m'] assms(3) show ?thesis
    by (auto simp: vh_readable_def vh_shape_def fun_eq_iff)
next
  case (Del k)
  then obtain v where m': "vh_shape m k v" "vh_elem_delete m k = Inr m'" using assms(4,5) by (auto simp: vh_step_def)
  with vh_delete_cases [OF m'] vh_inv_erase [OF assms(2), of k] assms(3) show ?thesis
    by (auto simp: vh_readable_def vh_shape_def fun_eq_iff)
qed

lemma vh_run_refines:
  assumes "um_ok place" "vh_inv m" "vh_readable m" "\<forall>x \<in> set ops. op_shape (vh_shape m) x"
  shows "map_prod id vh_value (run_answers (vh_step place) m ops) =
      run_answers (bounded_step (unat (vh_max_entries m)) (vh_flags m AND BPF_F_RDONLY \<noteq> 0)) (vh_value m) ops \<and>
    card (dom (vh_value (snd (run_answers (vh_step place) m ops)))) \<le> unat (vh_max_entries m)"
  using assms(2-4)
proof (induction ops arbitrary: m)
  case Nil
  then show ?case using vh.bounded [of place m] assms(1) by simp
next
  case (Cons x ops)
  have x: "op_shape (vh_shape m) x" using Cons.prems(3) by simp
  note st = vh_step_refines [OF assms(1) Cons.prems(1,2) x, symmetric]
  show ?case
  proof (cases "vh_step place m x")
    case (Inl e)
    with Cons.IH [OF Cons.prems(1,2)] Cons.prems(3) st show ?thesis by (auto simp: Let_def split: prod.splits)
  next
    case (Inr m')
    note k = vh_step_keeps [OF assms(1) Cons.prems(1,2) x Inr]
    with Cons.IH [of m'] Cons.prems(3) Inr st show ?thesis by (auto simp: Let_def split: prod.splits)
  qed
qed

text \<open>C11. Variable-size hash map, refinement: over any sequence of updates and deletes on a new map that may be read,
  whatever order the container keeps, every operation succeeds or fails with the very error of the specification, a partial
  function of at most \<^verbatim>\<open>max_entries\<close> keys, and lookups read its content afterwards.\<close>

theorem var_hash_refines_map:
  assumes "um_ok place" "fl AND BPF_F_WRONLY = 0"
    and "\<forall>x \<in> set ops. op_shape (vh_shape (var_hash_map_new ks vs n fl)) x"
  shows "map_prod id vh_value (run_answers (vh_step place) (var_hash_map_new ks vs n fl) ops) =
      run_answers (bounded_step (unat n) (fl AND BPF_F_RDONLY \<noteq> 0)) Map.empty ops \<and>
    card (dom (vh_value (snd (run_answers (vh_step place) (var_hash_map_new ks vs n fl) ops)))) \<le> unat n"
proof -
  let ?m0 = "var_hash_map_new ks vs n fl"
  have ok: "vh_inv ?m0" "vh_readable ?m0"
    using assms(2) by (simp_all add: vh_inv_new vh_readable_def) (simp add: var_hash_map_new_def)
  have 0: "vh_value ?m0 = Map.empty"
    using ok by (intro ext) (simp add: vh_value_find um_find_def, simp add: var_hash_map_new_def um_empty_def)
  have "vh_max_entries ?m0 = n" "vh_flags ?m0 = fl" by (simp_all add: var_hash_map_new_def)
  with vh_run_refines [OF assms(1) ok assms(3)] 0 show ?thesis by simp
qed

theorem var_hash_refines_map_witness:
  "\<exists>m. run_answers (vh_step (\<lambda>ks k. ks @ [k])) (var_hash_map_new 1 2 1 0)
      [Upd [1] [5, 6] BPF_ANY, Del [2], Upd [3] [0, 0] BPF_ANY, Upd [1] [7, 8] BPF_EXIST] =
    ([Inr (), Inl (Errno ENOENT), Inl (Errno E2BIG), Inr ()], m) \<and> vh_value m = [[1] \<mapsto> [7, 8]]"
proof -
  let ?ops = "[Upd [1] [5, 6] BPF_ANY, Del [2], Upd [3] [0, 0] BPF_ANY, Upd [1] [7, 8] BPF_EXIST] :: (bytes, bytes) map_op list"
  have ok: "um_ok (\<lambda>ks k. ks @ [k])" by (simp add: um_ok_def)
  have sh: "vh_shape (var_hash_map_new 1 2 1 0) k v \<longleftrightarrow> length k = 1 \<and> length v = 2" for k v
    by (simp add: vh_shape_def var_hash_map_new_def)
  have "\<forall>x \<in> set ?ops. op_shape (vh_shape (var_hash_map_new 1 2 1 0)) x"
    by (auto simp: sh intro!: exI [of _ "[0, 0]"])
  from var_hash_refines_map [OF ok _ this] show ?thesis
    by (cases "run_answers (vh_step (\<lambda>ks k. ks @ [k])) (var_hash_map_new 1 2 1 0) ?ops")
      (simp add: bounded_step_def flag_defs)
qed

text \<open>Variable-size hash map, iteration: on every map that operations can build, the client
  loop over \<^verbatim>\<open>get_next_key\<close> ends and visits each stored key exactly once, also when it starts
  from a key that is not in the map; on a write-only map every step is refused.\<close>

theorem var_hash_walk:
  assumes "vh_inv m" "um_size (vh_map_impl m) < n" "key = None \<or> (\<exists>k. key = Some k \<and>
      length k = unat (vh_key_size m) \<and> um_find (vh_map_impl m) k = None)"
  shows "if vh_flags m AND BPF_F_WRONLY \<noteq> 0 then vh_get_next_key m key = Inl (Errno EPERM)
    else distinct (walk (vh_get_next_key m) n key) \<and>
      set (walk (vh_get_next_key m) n key) = dom (vh_value m)"
proof (cases "vh_flags m AND BPF_F_WRONLY = 0")
  case False
  then show ?thesis by (simp add: vh_get_next_key_def)
next
  case True
  let ?u = "vh_map_impl m" and ?ks = "unat (vh_key_size m)"
  have ok: "um_sized ?ks ?u" using assms(1) by (simp add: vh_inv_def)
  have eq: "vh_get_next_key m = um_next_key ?ks ?u" using True by (intro ext) (simp add: vh_get_next_key_def)
  have len: "length (um_order ?u) < n" using assms(2) by (simp add: um_size_def)
  have "walk (um_next_key ?ks ?u) n key = um_order ?u"
    using assms(3)
  proof
    assume "\<exists>k. key = Some k \<and> length k = ?ks \<and> um_find ?u k = None"
    then obtain k where "key = Some k" "length k = ?ks" "k \<notin> set (um_order ?u)"
      using ok by (auto simp: um_sized_def um_inv_def um_find_def)
    then show ?thesis using um_iter.walk_restart [OF ok _ _ len] by simp
  qed (simp add: um_iter.walk_all [OF ok len])
  moreover have "set (um_order ?u) = dom (vh_value m)" "distinct (um_order ?u)"
    using ok vh_value_find [OF assms(1)] True by (auto simp: um_sized_def um_inv_def um_find_def vh_readable_def)
  ultimately show ?thesis using True by (simp add: eq)
qed

theorem var_hash_walk_witness:
  "set (walk (vh_get_next_key (var_hash_map_new 1 1 4 0)) 5 (Some [3])) = dom (vh_value (var_hash_map_new 1 1 4 0))"
proof -
  have "um_size (vh_map_impl (var_hash_map_new 1 1 4 0)) < 5"
    "um_find (vh_map_impl (var_hash_map_new 1 1 4 0)) [3] = None"
    "unat (vh_key_size (var_hash_map_new 1 1 4 0)) = 1" "vh_flags (var_hash_map_new 1 1 4 0) = 0"
    by (simp_all add: var_hash_map_new_def um_size_def um_find_def um_empty_def)
  then show ?thesis using var_hash_walk [OF vh_inv_new, of 1 1 4 0 5 "Some [3]"] by simp
qed

text \<open>Variable-size hash map, access flags: on a read-only map no key can be added, whatever
  the operations, while the update of a key that is already there is not refused.\<close>

theorem var_hash_rdonly_no_insert:
  assumes "vh_flags m AND BPF_F_RDONLY \<noteq> 0" "vh_shape m k v" "vh_inv m" "um_ok place"
  shows "(um_find (vh_map_impl m) k = None \<longrightarrow> (\<exists>e. vh_elem_update place m k v f = Inl (Errno e))) \<and>
    (um_find (vh_map_impl m) k \<noteq> None \<longrightarrow> f = BPF_ANY \<or> f = BPF_EXIST \<longrightarrow>
      (\<exists>m'. vh_elem_update place m k v f = Inr m' \<and> um_find (vh_map_impl m') k = Some v \<and> vh_inv m'))"
proof (intro conjI impI)
  assume "um_find (vh_map_impl m) k = None"
  then show "\<exists>e. vh_elem_update place m k v f = Inl (Errno e)"
    using assms(1,2) by (simp add: vh_elem_update_def vh_shape_def Let_def)
next
  assume ex: "um_find (vh_map_impl m) k \<noteq> None" and f: "f = BPF_ANY \<or> f = BPF_EXIST"
  let ?m = "m\<lparr>vh_map_impl := um_insert_or_assign place k v (vh_map_impl m)\<rparr>"
  have "vh_elem_update place m k v f = Inr ?m"
    using ex f assms(2) by (auto simp: vh_elem_update_def vh_shape_def Let_def is_good_update_flag_def flag_defs)
  then show "\<exists>m'. vh_elem_update place m k v f = Inr m' \<and> um_find (vh_map_impl m') k = Some v \<and> vh_inv m'"
    using vh_inv_insert [OF assms(4,3,2), of f] by auto
qed

theorem var_hash_rdonly_no_insert_witness:
  "\<exists>e. vh_elem_update (\<lambda>ks k. k # ks) (var_hash_map_new 1 1 4 8) [1] [2] BPF_ANY = Inl (Errno e)"
proof -
  have "um_ok (\<lambda>ks k. k # ks)" by (simp add: um_ok_def)
  moreover have "vh_flags (var_hash_map_new 1 1 4 8) AND BPF_F_RDONLY \<noteq> 0"
    "vh_shape (var_hash_map_new 1 1 4 8) [1] [2]"
    "um_find (vh_map_impl (var_hash_map_new 1 1 4 8)) [1] = None"
    by (simp_all add: var_hash_map_new_def BPF_F_RDONLY_def vh_shape_def um_find_def um_empty_def)
  ultimately show ?thesis
    using var_hash_rdonly_no_insert [OF _ _ vh_inv_new, of 1 1 4 8 "[1]" "[2]" "\<lambda>ks k. k # ks" BPF_ANY] by blast
qed

text \<open>Variable-size hash map, lookup and delete: it returns the stored value and leaves the map
  as a delete does; for a missing key it fails with \<^verbatim>\<open>ENOENT\<close>.\<close>

theorem var_hash_lookup_and_delete:
  assumes "vh_inv m" "vh_readable m" "length k = unat (vh_key_size m)"
  shows "vh_lookup_and_delete m k =
    (case vh_value m k of None \<Rightarrow> Inl (Errno ENOENT)
     | Some v \<Rightarrow> bindr (vh_elem_delete m k) (\<lambda>m'. Inr (v, m')))"
proof (cases "um_find (vh_map_impl m) k")
  case (Some v)
  with assms(1) have "length v = unat (vh_value_size m)" by (auto simp: vh_inv_def)
  with Some assms show ?thesis
    by (simp add: vh_value_find vh_lookup_and_delete_def vh_elem_delete_def)
qed (use assms in \<open>simp add: vh_value_find vh_lookup_and_delete_def\<close>)

theorem var_hash_lookup_and_delete_witness:
  "vh_lookup_and_delete (var_hash_map_new 1 1 4 0) [1] =
    (case vh_value (var_hash_map_new 1 1 4 0) [1] of None \<Rightarrow> Inl (Errno ENOENT)
     | Some v \<Rightarrow> bindr (vh_elem_delete (var_hash_map_new 1 1 4 0) [1]) (\<lambda>m'. Inr (v, m')))"
  by (rule var_hash_lookup_and_delete [OF vh_inv_new])
    (simp_all add: var_hash_map_new_def vh_readable_def)

end
