(* ===== verification/Percpu_Hash.thy ===== *)
theory Percpu_Hash
  imports Unordered_Map
begin

text \<open>
  \<^verbatim>\<open>per_cpu_hash_map.cpp\<close>. Under each key the map holds one vector with the values of all
  CPUs side by side. The operations of programs work on the CPU they run on (the argument
  \<open>cpu\<close>, from \<^verbatim>\<open>my_sched_getcpu\<close>), those of system calls on all CPUs. Offsets are 32-bit
  products. The per-CPU scratch vectors are assigned before each use and carry no state, but
  indexing them with a CPU number the map has no room for is undefined. Debug messages are left out: with them switched on,
  an update also reads eight bytes of its value as a number, whatever the size of the value.
\<close>

record percpu_hash =
  ph_impl :: "bytes umap"
  ph_key_size :: u32
  ph_value_size :: u32
  ph_ncpu :: u32
  ph_max_entries :: u32
  ph_value_template :: bytes

definition percpu_hash_new :: "u32 \<Rightarrow> u32 \<Rightarrow> u32 \<Rightarrow> u32 \<Rightarrow> percpu_hash" where
  "percpu_hash_new key_size value_size max_entries ncpu =
     \<lparr>ph_impl = um_empty, ph_key_size = key_size, ph_value_size = value_size, ph_ncpu = ncpu,
      ph_max_entries = max_entries, ph_value_template = replicate (unat (value_size * ncpu)) 0\<rparr>"

text \<open>\<^verbatim>\<open>key_templates[cpu].assign(key, key + key_size)\<close>\<close>

definition ph_key :: "percpu_hash \<Rightarrow> nat \<Rightarrow> bytes \<Rightarrow> bytes res" where
  "ph_key m cpu key =
     (if unat (ph_ncpu m) \<le> cpu then Inl Fault else or_fault (rd key 0 (unat (ph_key_size m))))"

definition ph_offset :: "percpu_hash \<Rightarrow> nat \<Rightarrow> nat" where
  "ph_offset m cpu = unat (ph_value_size m * of_nat cpu)"

definition ph_elem_lookup :: "percpu_hash \<Rightarrow> nat \<Rightarrow> bytes option \<Rightarrow> ptr res" where
  "ph_elem_lookup m cpu key =
     (case key of None \<Rightarrow> Inl (Errno ENOENT)
      | Some kb \<Rightarrow> bindr (ph_key m cpu kb) (\<lambda>k.
          case um_find (ph_impl m) k of None \<Rightarrow> Inl (Errno ENOENT)
          | Some v \<Rightarrow> if ph_offset m cpu < length v then Inr (PVal k (ph_offset m cpu)) else Inl Fault))"

definition ph_elem_update ::
  "placement \<Rightarrow> percpu_hash \<Rightarrow> nat \<Rightarrow> bytes \<Rightarrow> bytes \<Rightarrow> u64 \<Rightarrow> percpu_hash res" where
  "ph_elem_update place m cpu key val flags =
     (if \<not> check_update_flags flags then Inl (Errno EINVAL)
      else bindr (ph_key m cpu key) (\<lambda>k.
      bindr (or_fault (rd val 0 (unat (ph_value_size m)))) (\<lambda>v.
      let full_value_vec = (case um_find (ph_impl m) k of Some old \<Rightarrow> old | None \<Rightarrow> ph_value_template m) in
      bindr (or_fault (wr full_value_vec (ph_offset m cpu) v)) (\<lambda>new.
        Inr (m\<lparr>ph_impl := um_insert_or_assign place k new (ph_impl m)\<rparr>)))))"

text \<open>\<^verbatim>\<open>std::fill(begin, begin + cpu * value_size, 0)\<close>: from the start of the vector up to the
  values of this CPU.\<close>

definition ph_elem_delete :: "placement \<Rightarrow> percpu_hash \<Rightarrow> nat \<Rightarrow> bytes \<Rightarrow> percpu_hash res" where
  "ph_elem_delete place m cpu key =
     bindr (ph_key m cpu key) (\<lambda>k.
       case um_find (ph_impl m) k of None \<Rightarrow> Inr m
       | Some old \<Rightarrow>
           bindr (or_fault (wr old 0 (replicate (ph_offset m cpu) 0))) (\<lambda>new.
             Inr (m\<lparr>ph_impl := um_insert_or_assign place k new (ph_impl m)\<rparr>)))"

definition ph_get_next_key :: "percpu_hash \<Rightarrow> bytes option \<Rightarrow> bytes res" where
  "ph_get_next_key m key =
     (case key of None \<Rightarrow> um_first_key (ph_impl m)
      | Some kb \<Rightarrow> bindr (ph_key m 0 kb) (\<lambda>k. um_next_key (unat (ph_key_size m)) (ph_impl m) (Some k)))"

definition ph_elem_lookup_userspace :: "percpu_hash \<Rightarrow> bytes option \<Rightarrow> ptr res" where
  "ph_elem_lookup_userspace m key =
     (case key of None \<Rightarrow> Inl (Errno ENOENT)
      | Some kb \<Rightarrow> bindr (ph_key m 0 kb) (\<lambda>k.
          case um_find (ph_impl m) k of None \<Rightarrow> Inl (Errno ENOENT) | Some _ \<Rightarrow> Inr (PVal k 0)))"

definition ph_elem_update_userspace ::
  "placement \<Rightarrow> percpu_hash \<Rightarrow> bytes \<Rightarrow> bytes \<Rightarrow> u64 \<Rightarrow> percpu_hash res" where
  "ph_elem_update_userspace place m key val flags =
     (if \<not> check_update_flags flags then Inl (Errno EINVAL)
      else bindr (ph_key m 0 key) (\<lambda>k.
      bindr (or_fault (rd val 0 (unat (ph_value_size m * ph_ncpu m)))) (\<lambda>v.
      let elem_exists = um_find (ph_impl m) k \<noteq> None in
        if flags = BPF_NOEXIST \<and> elem_exists then Inl (Errno EEXIST)
        else if flags = BPF_EXIST \<and> \<not> elem_exists then Inl (Errno ENOENT)
        else if \<not> elem_exists \<and> um_size (ph_impl m) = unat (ph_max_entries m) then Inl (Errno E2BIG)
        else Inr (m\<lparr>ph_impl := um_insert_or_assign place k v (ph_impl m)\<rparr>))))"

definition ph_elem_delete_userspace :: "percpu_hash \<Rightarrow> bytes \<Rightarrow> percpu_hash res" where
  "ph_elem_delete_userspace m key =
     bindr (ph_key m 0 key) (\<lambda>k.
       case um_find (ph_impl m) k of None \<Rightarrow> Inl (Errno ENOENT)
       | Some _ \<Rightarrow> Inr (m\<lparr>ph_impl := um_erase k (ph_impl m)\<rparr>))"

definition ph_lookup_and_delete_userspace :: "percpu_hash \<Rightarrow> bytes \<Rightarrow> (bytes \<times> percpu_hash) res" where
  "ph_lookup_and_delete_userspace m key =
     bindr (ph_key m 0 key) (\<lambda>k.
       case um_find (ph_impl m) k of None \<Rightarrow> Inl (Errno ENOENT)
       | Some v \<Rightarrow> bindr (or_fault (rd v 0 (unat (ph_ncpu m * ph_value_size m)))) (\<lambda>out.
           Inr (out, m\<lparr>ph_impl := um_erase k (ph_impl m)\<rparr>)))"

section \<open>What programs and system calls read\<close>

text \<open>The value a program on CPU \<open>cpu\<close> reads, and the buffer a system call reads.\<close>

definition ph_load :: "percpu_hash \<Rightarrow> nat \<Rightarrow> ptr \<Rightarrow> bytes option" where
  "ph_load m n p = (case p of PVal k o' \<Rightarrow> Option.bind (um_find (ph_impl m) k) (\<lambda>v. rd v o' n) | _ \<Rightarrow> None)"

definition ph_value :: "percpu_hash \<Rightarrow> nat \<Rightarrow> bytes \<Rightarrow> bytes option" where
  "ph_value m cpu k = (case ph_elem_lookup m cpu (Some k) of
     Inl _ \<Rightarrow> None | Inr p \<Rightarrow> ph_load m (unat (ph_value_size m)) p)"

definition ph_inv :: "percpu_hash \<Rightarrow> bool" where
  "ph_inv m \<longleftrightarrow> um_sized (unat (ph_key_size m)) (ph_impl m) \<and> 0 < ph_value_size m \<and>
     unat (ph_ncpu m) * unat (ph_value_size m) < 2 ^ 32 \<and>
     (\<forall>k v. um_find (ph_impl m) k = Some v \<longrightarrow> length v = unat (ph_ncpu m) * unat (ph_value_size m)) \<and>
     ph_value_template m = replicate (unat (ph_ncpu m) * unat (ph_value_size m)) 0"

lemma ph_inv_new:
  "0 < vs \<Longrightarrow> unat nc * unat vs < 2 ^ 32 \<Longrightarrow> ph_inv (percpu_hash_new ks vs n nc)"
  by (simp add: ph_inv_def percpu_hash_new_def um_find_def um_empty_def um_sized_def um_inv_def
      unat_mult_nowrap mult.commute)

lemma ph_offset_inv:
  assumes "ph_inv m" "c < unat (ph_ncpu m)"
  shows "ph_offset m c = c * unat (ph_value_size m)"
proof -
  have "c < 2 ^ 32" using assms(2) unat_u32_less [of "ph_ncpu m"] by simp
  then have c: "unat (of_nat c :: u32) = c" by (rule unat_of_nat_u32)
  have "c * unat (ph_value_size m) + unat (ph_value_size m) \<le> unat (ph_ncpu m) * unat (ph_value_size m)"
    using assms(2) by (rule slot_mult_bound)
  then have "unat (ph_value_size m) * c < 2 ^ 32"
    using assms(1) by (simp add: ph_inv_def mult.commute)
  then show ?thesis using c unat_mult_nowrap [of "ph_value_size m" "of_nat c"]
    by (simp add: ph_offset_def mult.commute)
qed

lemma ph_value_inv:
  assumes inv: "ph_inv m" and c: "c < unat (ph_ncpu m)" and k: "length k = unat (ph_key_size m)"
  shows "ph_value m c k = map_option
    (seg (c * unat (ph_value_size m)) (unat (ph_value_size m))) (um_find (ph_impl m) k)"
proof (cases "um_find (ph_impl m) k")
  case None
  then show ?thesis using c k by (simp add: ph_value_def ph_elem_lookup_def ph_key_def)
next
  case (Some v)
  then have len: "length v = unat (ph_ncpu m) * unat (ph_value_size m)" using inv by (simp add: ph_inv_def)
  have vs: "0 < unat (ph_value_size m)" using inv by (simp add: ph_inv_def word_less_nat_alt)
  have "c * unat (ph_value_size m) + unat (ph_value_size m) \<le> length v"
    using slot_mult_bound [OF c, of "unat (ph_value_size m)"] len by simp
  with Some c k vs show ?thesis
    by (simp add: ph_value_def ph_elem_lookup_def ph_key_def ph_load_def ph_offset_inv [OF inv c])
qed

lemma ph_inv_store:
  assumes "um_ok place" "ph_inv m" "length k = unat (ph_key_size m)"
    and "length new = unat (ph_ncpu m) * unat (ph_value_size m)"
  shows "ph_inv (m\<lparr>ph_impl := um_insert_or_assign place k new (ph_impl m)\<rparr>)"
  using assms by (auto simp: ph_inv_def um_sized_insert)

text \<open>The vector an update starts from.\<close>

definition ph_row :: "percpu_hash \<Rightarrow> bytes \<Rightarrow> bytes" where
  "ph_row m k = (case um_find (ph_impl m) k of Some old \<Rightarrow> old | None \<Rightarrow> ph_value_template m)"

lemma length_ph_row: "ph_inv m \<Longrightarrow> length (ph_row m k) = unat (ph_ncpu m) * unat (ph_value_size m)"
  by (auto simp: ph_row_def ph_inv_def split: option.split)

text \<open>Per-CPU hash map, update by a program: it succeeds for every key (with any valid flag),
  the program then reads its value back, other CPUs read what they read before (zeros for a
  new key), and other keys are unchanged.\<close>

theorem percpu_hash_update_local:
  assumes ok: "um_ok place" and inv: "ph_inv m" and c: "c < unat (ph_ncpu m)"
    and k: "length k = unat (ph_key_size m)" and v: "length v = unat (ph_value_size m)"
    and fl: "check_update_flags flags"
  shows "\<exists>m'. ph_elem_update place m c k v flags = Inr m' \<and> ph_inv m' \<and>
    (\<forall>k' c'. c' < unat (ph_ncpu m) \<and> length k' = unat (ph_key_size m) \<longrightarrow>
      ph_value m' c' k' =
        (if k' \<noteq> k then ph_value m c' k' else if c' = c then Some v
         else case ph_value m c' k of None \<Rightarrow> Some (replicate (unat (ph_value_size m)) 0) | Some x \<Rightarrow> Some x))"
proof -
  let ?s = "unat (ph_value_size m)" and ?nc = "unat (ph_ncpu m)"
  let ?new = "put (c * ?s) v (ph_row m k)"
  let ?m = "m\<lparr>ph_impl := um_insert_or_assign place k ?new (ph_impl m)\<rparr>"
  note len = length_ph_row [OF inv, of k]
  have b: "c * ?s + ?s \<le> ?nc * ?s" using c by (rule slot_mult_bound)
  have upd: "ph_elem_update place m c k v flags = Inr ?m"
    using b len c k v fl
    by (simp add: ph_elem_update_def ph_key_def Let_def ph_row_def [symmetric] ph_offset_inv [OF inv c])
  have inv': "ph_inv ?m" using am.write_length [OF c len v] by (intro ph_inv_store [OF ok inv k]) simp
  have "ph_value ?m c' k' =
        (if k' \<noteq> k then ph_value m c' k' else if c' = c then Some v
         else case ph_value m c' k of None \<Rightarrow> Some (replicate ?s 0) | Some x \<Rightarrow> Some x)"
    if c': "c' < ?nc" and k': "length k' = unat (ph_key_size m)" for k' c'
  proof (cases "k' = k")
    case False
    then show ?thesis using ph_value_inv [OF inv', of c' k'] ph_value_inv [OF inv c' k'] c' k' by simp
  next
    case True
    have "ph_value ?m c' k = Some (seg (c' * ?s) ?s ?new)"
      using ph_value_inv [OF inv', of c' k] c' k by simp
    moreover have "seg (c * ?s) ?s ?new = v" using am.read_same [OF c len v] .
    moreover have "seg (c' * ?s) ?s ?new = seg (c' * ?s) ?s (ph_row m k)" if "c' \<noteq> c"
      using am.read_other [OF c c' _ len v] that by simp
    moreover have "(case ph_value m c' k of None \<Rightarrow> Some (replicate ?s 0) | Some x \<Rightarrow> Some x) =
        Some (seg (c' * ?s) ?s (ph_row m k))"
      using ph_value_inv [OF inv c' k] inv slot_mult_bound [OF c', of ?s]
      by (auto simp: ph_row_def ph_inv_def seg_replicate split: option.split)
    ultimately show ?thesis using True by auto
  qed
  with upd inv' show ?thesis by blast
qed

theorem percpu_hash_update_local_witness:
  "\<exists>m'. ph_elem_update (\<lambda>ks k. ks @ [k]) (percpu_hash_new 1 1 1 2) 1 [7] [5] BPF_ANY = Inr m' \<and>
    ph_value m' 1 [7] = Some [5]"
proof -
  have "ph_inv (percpu_hash_new 1 1 1 2)" by (simp add: ph_inv_new)
  moreover have "um_ok (\<lambda>ks k. ks @ [k])" by (simp add: um_ok_def)
  ultimately show ?thesis
    using percpu_hash_update_local [of "\<lambda>ks k. ks @ [k]" "percpu_hash_new 1 1 1 2" 1 "[7]" "[5]" BPF_ANY]
    by (auto simp: percpu_hash_new_def check_update_flags_def flag_defs)
qed

text \<open>Per-CPU hash map, delete by a program: it returns success and the key stays in the map.
  It clears the values of the CPUs before the calling one and leaves the caller's own value,
  so the program reads its old value again.\<close>

theorem percpu_hash_delete_keeps_key:
  assumes ok: "um_ok place" and inv: "ph_inv m" and c: "c < unat (ph_ncpu m)"
    and k: "length k = unat (ph_key_size m)"
  shows "\<exists>m'. ph_elem_delete place m c k = Inr m' \<and> um_order (ph_impl m') = um_order (ph_impl m) \<and>
    (\<forall>c' < unat (ph_ncpu m). ph_value m' c' k =
       (if c' < c then map_option (\<lambda>_. replicate (unat (ph_value_size m)) 0) (ph_value m c' k)
        else ph_value m c' k))"
proof (cases "um_find (ph_impl m) k")
  case None
  then show ?thesis using c k ph_value_inv [OF inv _ k]
    by (auto simp: ph_elem_delete_def ph_key_def)
next
  case (Some old)
  let ?s = "unat (ph_value_size m)" and ?nc = "unat (ph_ncpu m)"
  let ?z = "replicate (c * ?s) (0 :: byte)"
  let ?m = "m\<lparr>ph_impl := um_insert_or_assign place k (put 0 ?z old) (ph_impl m)\<rparr>"
  have len: "length old = ?nc * ?s" using Some inv by (simp add: ph_inv_def)
  have cz: "0 + length ?z \<le> length old" using c len by simp
  have del: "ph_elem_delete place m c k = Inr ?m"
    using cz c k Some by (simp add: ph_elem_delete_def ph_key_def ph_offset_inv [OF inv c])
  have inv': "ph_inv ?m" using cz len by (intro ph_inv_store [OF ok inv k]) (simp add: length_put)
  have "ph_value ?m c' k = (if c' < c then map_option (\<lambda>_. replicate ?s 0) (ph_value m c' k)
      else ph_value m c' k)" if c': "c' < ?nc" for c'
  proof -
    have new: "ph_value ?m c' k = Some (seg (c' * ?s) ?s (put 0 ?z old))"
      using ph_value_inv [OF inv', of c' k] c' k by simp
    have old: "ph_value m c' k = Some (seg (c' * ?s) ?s old)"
      using ph_value_inv [OF inv c' k] Some by simp
    show ?thesis
    proof (cases "c' < c")
      case True
      have b: "c' * ?s + ?s \<le> c * ?s" using True by (rule slot_mult_bound)
      have "seg (c' * ?s) ?s (put 0 ?z old) = seg (c' * ?s) ?s (seg 0 (c * ?s) (put 0 ?z old))"
        using b by (simp add: seg_seg)
      also have "seg 0 (c * ?s) (put 0 ?z old) = ?z"
        using seg_put_same [OF cz] by simp
      also have "seg (c' * ?s) ?s ?z = replicate ?s 0" using b by (rule seg_replicate)
      finally show ?thesis using True new old by simp
    next
      case False
      then have "c * ?s \<le> c' * ?s" by simp
      then have "seg (c' * ?s) ?s (put 0 ?z old) = seg (c' * ?s) ?s old"
        using cz slot_mult_bound [OF c', of ?s] len by (intro seg_put_other) auto
      with False new old show ?thesis by simp
    qed
  qed
  moreover have "um_order (ph_impl ?m) = um_order (ph_impl m)"
    using Some by (simp add: um_insert_or_assign_def um_find_def)
  ultimately show ?thesis using del by blast
qed

theorem percpu_hash_delete_keeps_key_witness:
  "\<exists>m'. ph_elem_delete (\<lambda>ks k. ks @ [k])
     ((percpu_hash_new 1 1 1 2)\<lparr>ph_impl := \<lparr>um_order = [[7]], um_map = [[7] \<mapsto> [5, 6]]\<rparr>\<rparr>) 1 [7] = Inr m' \<and>
    um_order (ph_impl m') = [[7]] \<and> ph_value m' 1 [7] = Some [6]"
proof -
  let ?m = "(percpu_hash_new 1 1 1 2)\<lparr>ph_impl := \<lparr>um_order = [[7]], um_map = [[7] \<mapsto> [5, 6]]\<rparr>\<rparr>"
  have inv: "ph_inv ?m"
    by (simp add: ph_inv_def percpu_hash_new_def um_sized_def um_inv_def um_find_def)
  have v: "ph_value ?m 1 [7] = Some [6]" by code_simp
  have sz: "unat (ph_ncpu ?m) = 2" "unat (ph_key_size ?m) = 1" "um_order (ph_impl ?m) = [[7]]"
    by (simp_all add: percpu_hash_new_def)
  have ok: "um_ok (\<lambda>ks k. ks @ [k])" by (simp add: um_ok_def)
  obtain m' where "ph_elem_delete (\<lambda>ks k. ks @ [k]) ?m 1 [7] = Inr m'"
    "um_order (ph_impl m') = [[7]]" "ph_value m' 1 [7] = ph_value ?m 1 [7]"
    using percpu_hash_delete_keeps_key [OF ok inv, of 1 "[7]", unfolded sz] by auto
  with v show ?thesis by auto
qed

text \<open>Per-CPU hash map, capacity: system calls respect \<^verbatim>\<open>max_entries\<close>, programs do not. On a map
  for one entry a program stores two keys, and the flag \<^verbatim>\<open>BPF_EXIST\<close> does not stop it; from
  then on the full map is not recognized as full and a system call can add a third.\<close>

theorem percpu_hash_exceeds_capacity:
  "case ph_elem_update (\<lambda>ks k. ks @ [k]) (percpu_hash_new 1 1 1 1) 0 [1] [5] BPF_EXIST of Inl _ \<Rightarrow> False
   | Inr m1 \<Rightarrow>
     (case ph_elem_update_userspace (\<lambda>ks k. ks @ [k]) m1 [2] [6] BPF_ANY of Inr _ \<Rightarrow> False
      | Inl e \<Rightarrow> e = Errno E2BIG) \<and>
     (case ph_elem_update (\<lambda>ks k. ks @ [k]) m1 0 [2] [6] BPF_EXIST of Inl _ \<Rightarrow> False
      | Inr m2 \<Rightarrow> um_size (ph_impl m2) = 2 \<and>
         (case ph_elem_update_userspace (\<lambda>ks k. ks @ [k]) m2 [3] [7] BPF_ANY of Inl _ \<Rightarrow> False
          | Inr m3 \<Rightarrow> um_size (ph_impl m3) = 3))"
  by code_simp

interpretation ph_iter: key_iteration ph_get_next_key "\<lambda>m. um_order (ph_impl m)"
  "\<lambda>m. ph_inv m \<and> 0 < ph_ncpu m" "\<lambda>m k. length k = unat (ph_key_size m)"
proof -
  have eq: "ph_get_next_key m key = um_next_key (unat (ph_key_size m)) (ph_impl m) key"
    if "0 < ph_ncpu m" "\<And>k. key = Some k \<Longrightarrow> length k = unat (ph_key_size m)" for m key
    using that by (cases key) (auto simp: ph_get_next_key_def um_next_key_def ph_key_def word_less_nat_alt)
  have sz: "um_sized (unat (ph_key_size m)) (ph_impl m)" if "ph_inv m" for m
    using that by (simp add: ph_inv_def)
  show "key_iteration ph_get_next_key (\<lambda>m. um_order (ph_impl m)) (\<lambda>m. ph_inv m \<and> 0 < ph_ncpu m)
    (\<lambda>m k. length k = unat (ph_key_size m))"
  proof (unfold_locales, goal_cases)
    case (1 m)
    then show ?case using um_iter.keys_distinct sz by blast
  next
    case (2 m)
    then show ?case using um_iter.next_first [OF sz, of m] eq [of m None] by simp
  next
    case (3 m i)
    then have "length (um_order (ph_impl m) ! i) = unat (ph_key_size m)"
      using sz [of m] by (simp add: um_sized_def)
    with 3 show ?case using um_iter.next_step [OF sz, of m i] eq [of m "Some (um_order (ph_impl m) ! i)"] by simp
  next
    case (4 m k)
    then show ?case using um_iter.next_missing [OF sz, of m k] eq [of m "Some k"] eq [of m None] by simp
  qed
qed

text \<open>Per-CPU hash map, system calls: a stored buffer is read back by a system call, split
  among the CPUs, and a delete removes the key for every CPU.\<close>

theorem percpu_hash_userspace:
  assumes ok: "um_ok place" and inv: "ph_inv m" and k: "length k = unat (ph_key_size m)"
    and v: "length v = unat (ph_ncpu m) * unat (ph_value_size m)"
    and upd: "ph_elem_update_userspace place m k v flags = Inr m'" and nc: "0 < ph_ncpu m"
  shows "ph_inv m' \<and> (\<forall>c < unat (ph_ncpu m). ph_value m' c k =
        Some (seg (c * unat (ph_value_size m)) (unat (ph_value_size m)) v)) \<and>
    (\<exists>m''. ph_lookup_and_delete_userspace m' k = Inr (v, m'') \<and> ph_inv m'' \<and>
       ph_elem_delete_userspace m' k = Inr m'' \<and> (\<forall>c < unat (ph_ncpu m). ph_value m'' c k = None))"
proof -
  let ?m = "m\<lparr>ph_impl := um_insert_or_assign place k v (ph_impl m)\<rparr>"
  let ?d = "?m\<lparr>ph_impl := um_erase k (ph_impl ?m)\<rparr>"
  have row: "unat (ph_value_size m * ph_ncpu m) = length v" "unat (ph_ncpu m * ph_value_size m) = length v"
    using inv v by (simp_all add: ph_inv_def unat_mult_nowrap mult.commute)
  have m': "m' = ?m" using upd k row
    by (auto simp: ph_elem_update_userspace_def ph_key_def Let_def split: if_splits)
  have inv': "ph_inv ?m" using v by (intro ph_inv_store [OF ok inv k])
  have inv'': "ph_inv ?d" using inv' by (auto simp: ph_inv_def um_sized_erase split: if_splits)
  have "ph_value ?m c k = Some (seg (c * unat (ph_value_size m)) (unat (ph_value_size m)) v)"
    if "c < unat (ph_ncpu m)" for c using ph_value_inv [OF inv', of c k] that k by simp
  moreover have "ph_lookup_and_delete_userspace ?m k = Inr (v, ?d)" "ph_elem_delete_userspace ?m k = Inr ?d"
    using k nc row by (simp_all add: ph_lookup_and_delete_userspace_def ph_elem_delete_userspace_def
        ph_key_def word_less_nat_alt)
  moreover have "ph_value ?d c k = None" if "c < unat (ph_ncpu m)" for c
    using ph_value_inv [OF inv'', of c k] that k by simp
  ultimately show ?thesis using inv' inv'' m' by blast
qed

theorem percpu_hash_userspace_witness:
  "\<exists>m'. ph_elem_update_userspace (\<lambda>ks k. ks @ [k]) (percpu_hash_new 1 1 1 2) [7] [5, 6] BPF_ANY = Inr m' \<and>
    ph_value m' 1 [7] = Some [6]"
proof -
  let ?m = "percpu_hash_new 1 1 1 2"
  have sz: "unat (ph_ncpu ?m) = 2" "unat (ph_key_size ?m) = 1" "unat (ph_value_size ?m) = 1" "0 < ph_ncpu ?m"
    by (simp_all add: percpu_hash_new_def)
  have ok: "um_ok (\<lambda>ks k. ks @ [k])" by (simp add: um_ok_def)
  have inv: "ph_inv ?m" by (simp add: ph_inv_new)
  obtain m' where u: "ph_elem_update_userspace (\<lambda>ks k. ks @ [k]) ?m [7] [5, 6] BPF_ANY = Inr m'"
    by (simp add: ph_elem_update_userspace_def percpu_hash_new_def check_update_flags_def flag_defs
        ph_key_def um_find_def um_empty_def um_size_def Let_def)
  from percpu_hash_userspace [OF ok inv _ _ u] have "ph_value m' 1 [7] = Some (seg 1 1 [5, 6])"
    by (simp add: sz)
  with u show ?thesis by (simp add: seg_def)
qed

end
