(* ===== verification/Lru_Hash_Map.thy ===== *)
theory Lru_Hash_Map
  imports Var_Hash_Map
begin

text \<open>
  \<^verbatim>\<open>lru_var_hash_map.cpp\<close>: a hash map whose entries are also nodes of a doubly linked list,
  most recently used first. The nodes live in an explicit heap (addresses are naturals, the
  allocator hands out a fresh one); a shared or weak pointer is an address option. Following
  a null pointer or one to a node that was freed is \<open>Fault\<close>. A node is freed when the last
  shared pointer to it goes away, which is at the end of an eviction or a delete: after
  \<^verbatim>\<open>evict_entry\<close> no list pointer refers to it, and the map entry is erased. The list is
  related to the abstract sequence of entries that an LRU cache keeps.
\<close>

section \<open>Nodes and the map\<close>

record lru_node =
  ln_key :: bytes
  ln_next :: "nat option"
  ln_prev :: "nat option"

type_synonym lru_heap = "nat \<rightharpoonup> lru_node"

record lru_map =
  lm_impl :: "(bytes \<times> nat) umap"
  lm_head :: "nat option"
  lm_tail :: "nat option"
  lm_heap :: lru_heap
  lm_fresh :: nat
  lm_key_size :: nat
  lm_value_size :: nat
  lm_max_entries :: nat

definition lru_map_new :: "nat \<Rightarrow> nat \<Rightarrow> nat \<Rightarrow> lru_map" where
  "lru_map_new key_size value_size max_entries =
     \<lparr>lm_impl = um_empty, lm_head = None, lm_tail = None, lm_heap = Map.empty, lm_fresh = 0,
      lm_key_size = key_size, lm_value_size = value_size, lm_max_entries = max_entries\<rparr>"

text \<open>Pointer accesses: \<^verbatim>\<open>p->f\<close>, \<^verbatim>\<open>p->next_entry = q\<close>, \<^verbatim>\<open>p->previous_entry = q\<close> and
  \<^verbatim>\<open>previous_entry.lock()\<close>.\<close>

definition deref :: "lru_map \<Rightarrow> nat option \<Rightarrow> lru_node res" where
  "deref m p = (case p of None \<Rightarrow> Inl Fault | Some a \<Rightarrow> or_fault (lm_heap m a))"

definition set_next :: "nat option \<Rightarrow> nat option \<Rightarrow> lru_map \<Rightarrow> lru_map res" where
  "set_next p q m = (case p of None \<Rightarrow> Inl Fault | Some a \<Rightarrow>
     bindr (or_fault (lm_heap m a)) (\<lambda>nd. Inr (m\<lparr>lm_heap := (lm_heap m)(a \<mapsto> nd\<lparr>ln_next := q\<rparr>)\<rparr>)))"

definition set_prev :: "nat option \<Rightarrow> nat option \<Rightarrow> lru_map \<Rightarrow> lru_map res" where
  "set_prev p q m = (case p of None \<Rightarrow> Inl Fault | Some a \<Rightarrow>
     bindr (or_fault (lm_heap m a)) (\<lambda>nd. Inr (m\<lparr>lm_heap := (lm_heap m)(a \<mapsto> nd\<lparr>ln_prev := q\<rparr>)\<rparr>)))"

definition lock_weak :: "lru_map \<Rightarrow> nat option \<Rightarrow> nat option" where
  "lock_weak m p = (case p of None \<Rightarrow> None | Some a \<Rightarrow> if lm_heap m a = None then None else Some a)"

definition move_to_head :: "nat \<Rightarrow> lru_map \<Rightarrow> lru_map res" where
  "move_to_head entry m =
     (if Some entry = lm_head m then Inr m
      else bindr (deref m (Some entry)) (\<lambda>e.
        let prev = lock_weak m (ln_prev e); nxt = ln_next e in
        bindr (set_next prev nxt m) (\<lambda>m.
        bindr (case nxt of Some _ \<Rightarrow> set_prev nxt prev m | None \<Rightarrow> Inr (m\<lparr>lm_tail := prev\<rparr>)) (\<lambda>m.
        bindr (set_next (Some entry) (lm_head m) m) (\<lambda>m.
        bindr (set_prev (Some entry) None m) (\<lambda>m.
        bindr (set_prev (lm_head m) (Some entry) m) (\<lambda>m.
        Inr (m\<lparr>lm_head := Some entry\<rparr>))))))))"

definition insert_new_entry :: "bytes \<Rightarrow> lru_map \<Rightarrow> (nat \<times> lru_map) res" where
  "insert_new_entry key m =
     (let a = lm_fresh m;
          m = m\<lparr>lm_heap := (lm_heap m)(a \<mapsto> \<lparr>ln_key = key, ln_next = None, ln_prev = None\<rparr>), lm_fresh := Suc a\<rparr> in
      case lm_head m of
        None \<Rightarrow> Inr (a, m\<lparr>lm_head := Some a, lm_tail := Some a\<rparr>)
      | Some _ \<Rightarrow>
          bindr (set_next (Some a) (lm_head m) m) (\<lambda>m.
          bindr (set_prev (lm_head m) (Some a) m) (\<lambda>m.
          Inr (a, m\<lparr>lm_head := Some a\<rparr>))))"

definition evict_entry :: "nat option \<Rightarrow> lru_map \<Rightarrow> lru_map res" where
  "evict_entry entry m =
     (if entry = lm_tail m then
        if entry = lm_head m then Inr (m\<lparr>lm_head := None, lm_tail := None\<rparr>)
        else bindr (deref m entry) (\<lambda>e.
          let prev = lock_weak m (ln_prev e) in
          bindr (set_next prev None m) (\<lambda>m. Inr (m\<lparr>lm_tail := prev\<rparr>)))
      else if entry = lm_head m then
        bindr (deref m entry) (\<lambda>e.
        bindr (set_prev (ln_next e) None m) (\<lambda>m. Inr (m\<lparr>lm_head := ln_next e\<rparr>)))
      else bindr (deref m entry) (\<lambda>e.
        let prev = lock_weak m (ln_prev e); nxt = ln_next e in
        bindr (set_next prev nxt m) (\<lambda>m. set_prev nxt prev m)))"

text \<open>The release of the last shared pointer to a node.\<close>

definition free_node :: "nat option \<Rightarrow> lru_map \<Rightarrow> lru_map" where
  "free_node p m = (case p of None \<Rightarrow> m | Some a \<Rightarrow> m\<lparr>lm_heap := (lm_heap m)(a := None)\<rparr>)"

section \<open>Operations\<close>

definition lru_elem_lookup :: "lru_map \<Rightarrow> bytes \<Rightarrow> (ptr \<times> lru_map) res" where
  "lru_elem_lookup m key =
     bindr (or_fault (rd key 0 (lm_key_size m))) (\<lambda>k.
       case um_find (lm_impl m) k of None \<Rightarrow> Inl (Errno ENOENT)
       | Some (v, entry) \<Rightarrow> bindr (move_to_head entry m) (\<lambda>m. Inr (PVal k 0, m)))"

definition lru_evict_tail :: "lru_map \<Rightarrow> lru_map res" where
  "lru_evict_tail m =
     bindr (deref m (lm_tail m)) (\<lambda>t.
       let m = m\<lparr>lm_impl := um_erase (ln_key t) (lm_impl m)\<rparr> in
       bindr (evict_entry (lm_tail m) m) (\<lambda>m'. Inr (free_node (lm_tail m) m')))"

definition lru_elem_update ::
  "placement \<Rightarrow> lru_map \<Rightarrow> bytes \<Rightarrow> bytes \<Rightarrow> u64 \<Rightarrow> lru_map res" where
  "lru_elem_update place m key val flags =
     (if \<not> is_good_update_flag flags then Inl (Errno EINVAL)
      else bindr (or_fault (rd key 0 (lm_key_size m))) (\<lambda>k.
      let itr = um_find (lm_impl m) k; element_exists = itr \<noteq> None in
      if flags = BPF_NOEXIST \<and> element_exists then Inl (Errno EEXIST)
      else if flags = BPF_EXIST \<and> \<not> element_exists then Inl (Errno ENOENT)
      else bindr (if \<not> element_exists \<and> um_size (lm_impl m) = lm_max_entries m
                  then lru_evict_tail m else Inr m) (\<lambda>m.
      bindr (or_fault (rd val 0 (lm_value_size m))) (\<lambda>v.
      case itr of
        Some (_, entry) \<Rightarrow>
          move_to_head entry (m\<lparr>lm_impl := um_insert_or_assign place k (v, entry) (lm_impl m)\<rparr>)
      | None \<Rightarrow>
          bindr (insert_new_entry k m) (\<lambda>(entry_ptr, m).
          Inr (m\<lparr>lm_impl := um_insert_or_assign place k (v, entry_ptr) (lm_impl m)\<rparr>))))))"

definition lru_elem_delete :: "lru_map \<Rightarrow> bytes \<Rightarrow> lru_map res" where
  "lru_elem_delete m key =
     bindr (or_fault (rd key 0 (lm_key_size m))) (\<lambda>k.
       case um_find (lm_impl m) k of None \<Rightarrow> Inl (Errno ENOENT)
       | Some (v, entry) \<Rightarrow>
           bindr (evict_entry (Some entry) m) (\<lambda>m.
           Inr (free_node (Some entry) (m\<lparr>lm_impl := um_erase k (lm_impl m)\<rparr>))))"

definition lru_get_next_key :: "lru_map \<Rightarrow> bytes option \<Rightarrow> bytes res" where
  "lru_get_next_key m key = um_next_key (lm_key_size m) (lm_impl m) key"

section \<open>Doubly linked list segments\<close>

definition hd_opt :: "'a list \<Rightarrow> 'a option \<Rightarrow> 'a option" where
  "hd_opt xs q = (case xs of [] \<Rightarrow> q | x # _ \<Rightarrow> Some x)"

definition last_opt :: "'a option \<Rightarrow> 'a list \<Rightarrow> 'a option" where
  "last_opt p xs = (if xs = [] then p else Some (last xs))"

fun dll :: "lru_heap \<Rightarrow> nat option \<Rightarrow> nat list \<Rightarrow> nat option \<Rightarrow> bool" where
  "dll h p [] q = True"
| "dll h p (n # ns) q =
     ((\<exists>k. h n = Some \<lparr>ln_key = k, ln_next = hd_opt ns q, ln_prev = p\<rparr>) \<and> dll h (Some n) ns q)"

lemma opt_simps [simp]:
  "hd_opt [] q = q" "hd_opt (x # xs) q = Some x" "last_opt p [] = p" "last_opt p (xs @ [x]) = Some x"
  "hd_opt (xs @ ys) q = hd_opt xs (hd_opt ys q)" "last_opt p (xs @ ys) = last_opt (last_opt p xs) ys"
  "last_opt p (x # xs) = last_opt (Some x) xs"
  by (auto simp: hd_opt_def last_opt_def split: list.split)

lemma dll_append [simp]: "dll h p (xs @ ys) q \<longleftrightarrow> dll h p xs (hd_opt ys q) \<and> dll h (last_opt p xs) ys q"
  by (induction xs arbitrary: p) auto

lemma dll_frame: "(\<And>n. n \<in> set ns \<Longrightarrow> h' n = h n) \<Longrightarrow> dll h' p ns q = dll h p ns q"
  by (induction ns arbitrary: p) auto

lemma dll_upd_other [simp]: "a \<notin> set ns \<Longrightarrow> dll (h(a := x)) p ns q = dll h p ns q"
  by (rule dll_frame) auto

lemma dll_in_heap: "dll h p ns q \<Longrightarrow> n \<in> set ns \<Longrightarrow> \<exists>nd. h n = Some nd"
  by (induction ns arbitrary: p) auto

text \<open>The keys along a list, untouched by pointer updates.\<close>

definition key_of :: "lru_heap \<Rightarrow> nat \<Rightarrow> bytes" where
  "key_of h n = (case h n of None \<Rightarrow> [] | Some nd \<Rightarrow> ln_key nd)"

lemma key_of_upd [simp]:
  "h a = Some nd \<Longrightarrow> key_of (h(a \<mapsto> nd\<lparr>ln_next := q\<rparr>)) n = key_of h n"
  "h a = Some nd \<Longrightarrow> key_of (h(a \<mapsto> nd\<lparr>ln_prev := q\<rparr>)) n = key_of h n"
  by (simp_all add: key_of_def)

section \<open>Pointer operations on the list\<close>

definition lru_list :: "lru_map \<Rightarrow> nat list \<Rightarrow> bool" where
  "lru_list m ns \<longleftrightarrow> distinct ns \<and> dll (lm_heap m) None ns None \<and>
     lm_head m = hd_opt ns None \<and> lm_tail m = last_opt None ns"

text \<open>Two states that differ in the links only.\<close>

definition relinked :: "lru_map \<Rightarrow> lru_map \<Rightarrow> bool" where
  "relinked m m' \<longleftrightarrow> lm_impl m' = lm_impl m \<and> lm_fresh m' = lm_fresh m \<and>
     lm_key_size m' = lm_key_size m \<and> lm_value_size m' = lm_value_size m \<and>
     lm_max_entries m' = lm_max_entries m \<and> dom (lm_heap m') = dom (lm_heap m) \<and>
     key_of (lm_heap m') = key_of (lm_heap m)"

lemma relinked_refl [simp]: "relinked m m"
  by (simp add: relinked_def)

lemma relinked_trans: "relinked m m' \<Longrightarrow> relinked m' m'' \<Longrightarrow> relinked m m''"
  by (simp add: relinked_def)

lemma relinked_head_tail [simp]: "relinked m (m'\<lparr>lm_head := a\<rparr>) = relinked m m'"
  "relinked m (m'\<lparr>lm_tail := a\<rparr>) = relinked m m'"
  by (simp_all add: relinked_def)

lemma relinked_set:
  "set_next p q m = Inr m' \<Longrightarrow> relinked m m'"
  "set_prev p q m = Inr m' \<Longrightarrow> relinked m m'"
  by (auto simp: relinked_def set_next_def set_prev_def bindr_eq_Inr dom_def key_of_def fun_eq_iff
      split: option.splits if_splits)

lemma evict_relinked: "evict_entry p m = Inr m' \<Longrightarrow> relinked m m'"
  by (auto simp: evict_entry_def bindr_eq_Inr Let_def split: if_splits
      dest!: relinked_set intro: relinked_trans)

lemma move_relinked:
  assumes "move_to_head n m = Inr m'"
  shows "relinked m m'"
proof (cases "Some n = lm_head m")
  case False
  with assms obtain prev nxt m1 m2 m3 m4 m5 where
    "set_next prev nxt m = Inr m1"
    "(case nxt of Some _ \<Rightarrow> set_prev nxt prev m1 | None \<Rightarrow> Inr (m1\<lparr>lm_tail := prev\<rparr>)) = Inr m2"
    "set_next (Some n) (lm_head m2) m2 = Inr m3" "set_prev (Some n) None m3 = Inr m4"
    "set_prev (lm_head m4) (Some n) m4 = Inr m5" "m' = m5\<lparr>lm_head := Some n\<rparr>"
    by (auto simp: move_to_head_def bindr_eq_Inr Let_def)
  moreover from this(2) have "relinked m1 m2"
    by (cases nxt) (auto dest: relinked_set)
  ultimately show ?thesis by (metis relinked_set relinked_trans relinked_head_tail(1))
qed (use assms in \<open>simp add: move_to_head_def\<close>)

lemma hd_opt_notin [simp]:
  "n \<notin> set xs \<Longrightarrow> hd_opt xs q = Some n \<longleftrightarrow> xs = [] \<and> q = Some n"
  "n \<notin> set xs \<Longrightarrow> Some n = hd_opt xs q \<longleftrightarrow> xs = [] \<and> q = Some n"
  by (cases xs; auto)+

lemma last_opt_notin [simp]:
  "n \<notin> set xs \<Longrightarrow> last_opt q xs = Some n \<longleftrightarrow> xs = [] \<and> q = Some n"
  "n \<notin> set xs \<Longrightarrow> Some n = last_opt q xs \<longleftrightarrow> xs = [] \<and> q = Some n"
  using last_in_set [of xs] by (auto simp: last_opt_def)

lemmas link_defs = deref_def set_next_def set_prev_def lock_weak_def

lemma evict_entry_list:
  assumes "lru_list m (as @ n # bs)"
  shows "\<exists>m'. evict_entry (Some n) m = Inr m' \<and> lru_list m' (as @ bs)"
proof (cases as rule: rev_cases)
  case Nil
  show ?thesis
  proof (cases bs)
    case Nil
    with \<open>as = []\<close> assms show ?thesis by (simp add: evict_entry_def lru_list_def)
  next
    case (Cons q bs')
    with \<open>as = []\<close> assms show ?thesis
      by (auto simp: evict_entry_def lru_list_def link_defs)
  qed
next
  case (snoc as' p)
  show ?thesis
  proof (cases bs)
    case Nil
    with snoc assms show ?thesis
      by (auto simp: evict_entry_def lru_list_def link_defs)
  next
    case (Cons q bs')
    with snoc assms show ?thesis
      by (auto simp: evict_entry_def lru_list_def link_defs)
  qed
qed

lemma move_to_head_list:
  assumes "lru_list m (as @ n # bs)"
  shows "\<exists>m'. move_to_head n m = Inr m' \<and> lru_list m' (n # as @ bs)"
proof (cases as rule: rev_cases)
  case Nil
  with assms show ?thesis by (simp add: move_to_head_def lru_list_def)
next
  case (snoc as' p)
  show ?thesis
  proof (cases bs)
    case Nil
    with snoc assms show ?thesis
      by (cases as') (auto simp: move_to_head_def Let_def lru_list_def link_defs)
  next
    case (Cons q bs')
    with snoc assms show ?thesis
      by (cases as') (auto simp: move_to_head_def Let_def lru_list_def link_defs)
  qed
qed

lemma insert_new_entry_list:
  assumes "lru_list m ns" "lm_fresh m \<notin> set ns"
  shows "\<exists>m'. insert_new_entry k m = Inr (lm_fresh m, m') \<and> lru_list m' (lm_fresh m # ns) \<and>
    lm_impl m' = lm_impl m \<and> lm_fresh m' = Suc (lm_fresh m) \<and> lm_key_size m' = lm_key_size m \<and>
    lm_value_size m' = lm_value_size m \<and> lm_max_entries m' = lm_max_entries m \<and>
    dom (lm_heap m') = insert (lm_fresh m) (dom (lm_heap m)) \<and>
    key_of (lm_heap m') = (key_of (lm_heap m))(lm_fresh m := k)"
  using assms
  by (cases ns) (auto simp: insert_new_entry_def Let_def lru_list_def link_defs key_of_def fun_eq_iff)

section \<open>The abstract cache\<close>

text \<open>An LRU cache is the sequence of its entries, most recently used first.\<close>

type_synonym lru_spec = "(bytes \<times> bytes) list"

definition spec_touch :: "bytes \<Rightarrow> bytes \<Rightarrow> lru_spec \<Rightarrow> lru_spec" where
  "spec_touch k v es = (k, v) # filter (\<lambda>e. fst e \<noteq> k) es"

definition spec_put :: "nat \<Rightarrow> bytes \<Rightarrow> bytes \<Rightarrow> lru_spec \<Rightarrow> lru_spec" where
  "spec_put cap k v es =
     spec_touch k v (if map_of es k = None \<and> length es = cap then butlast es else es)"

definition spec_delete :: "bytes \<Rightarrow> lru_spec \<Rightarrow> lru_spec" where
  "spec_delete k es = filter (\<lambda>e. fst e \<noteq> k) es"

text \<open>The entries of a concrete map: the list from the head, with the values of the container.\<close>

fun follow :: "lru_heap \<Rightarrow> nat \<Rightarrow> nat option \<Rightarrow> nat list" where
  "follow h 0 p = []"
| "follow h (Suc f) None = []"
| "follow h (Suc f) (Some n) = n # (case h n of None \<Rightarrow> [] | Some nd \<Rightarrow> follow h f (ln_next nd))"

definition entry_of :: "lru_map \<Rightarrow> nat \<Rightarrow> bytes \<times> bytes" where
  "entry_of m n = (let k = key_of (lm_heap m) n
     in (k, case um_find (lm_impl m) k of None \<Rightarrow> [] | Some (v, _) \<Rightarrow> v))"

definition lru_entries :: "lru_map \<Rightarrow> lru_spec" where
  "lru_entries m = map (entry_of m) (follow (lm_heap m) (um_size (lm_impl m)) (lm_head m))"

text \<open>List and container agree: the nodes are exactly the live ones, and the entry of each key
  points to the one node that carries it.\<close>

definition lru_rel :: "lru_map \<Rightarrow> nat list \<Rightarrow> bool" where
  "lru_rel m ns \<longleftrightarrow> lru_list m ns \<and> dom (lm_heap m) = set ns \<and> (\<forall>n \<in> set ns. n < lm_fresh m) \<and>
     um_sized (lm_key_size m) (lm_impl m) \<and>
     (\<forall>k v n. um_find (lm_impl m) k = Some (v, n) \<longrightarrow>
        length v = lm_value_size m \<and> n \<in> set ns \<and> key_of (lm_heap m) n = k) \<and>
     (\<forall>n \<in> set ns. \<exists>v. um_find (lm_impl m) (key_of (lm_heap m) n) = Some (v, n)) \<and>
     length ns \<le> lm_max_entries m"

definition lru_inv :: "lru_map \<Rightarrow> bool" where
  "lru_inv m \<longleftrightarrow> (\<exists>ns. lru_rel m ns)"

lemma lru_rel_new: "lru_rel (lru_map_new ks vs n) []"
  by (simp add: lru_rel_def lru_map_new_def lru_list_def um_find_def um_empty_def um_sized_def um_inv_def)

lemma follow_dll: "dll h p ns None \<Longrightarrow> follow h (length ns) (hd_opt ns None) = ns"
  by (induction ns arbitrary: p) auto

lemma lru_relD:
  assumes "lru_rel m ns"
  shows "um_find (lm_impl m) k = Some (v, n) \<Longrightarrow>
      length v = lm_value_size m \<and> n \<in> set ns \<and> key_of (lm_heap m) n = k"
    and "n \<in> set ns \<Longrightarrow> \<exists>v. um_find (lm_impl m) (key_of (lm_heap m) n) = Some (v, n)"
    and "um_sized (lm_key_size m) (lm_impl m)" "lru_list m ns"
  using assms by (simp_all add: lru_rel_def)

lemma lru_rel_keys_inj:
  assumes "lru_rel m ns"
  shows "inj_on (key_of (lm_heap m)) (set ns)"
proof (rule inj_onI)
  fix a b assume a: "a \<in> set ns" and b: "b \<in> set ns" and eq: "key_of (lm_heap m) a = key_of (lm_heap m) b"
  obtain v where "um_find (lm_impl m) (key_of (lm_heap m) a) = Some (v, a)"
    using lru_relD(2) [OF assms a] by blast
  moreover obtain w where "um_find (lm_impl m) (key_of (lm_heap m) b) = Some (w, b)"
    using lru_relD(2) [OF assms b] by blast
  ultimately have "Some (v, a) = Some (w, b)" unfolding eq by (rule subst)
  then show "a = b" by blast
qed

lemma lru_rel_dom:
  assumes "lru_rel m ns"
  shows "dom (um_find (lm_impl m)) = key_of (lm_heap m) ` set ns"
proof (intro equalityI subsetI)
  fix k assume "k \<in> dom (um_find (lm_impl m))"
  then obtain v n where "um_find (lm_impl m) k = Some (v, n)" by fastforce
  from lru_relD(1) [OF assms this] have "n \<in> set ns" "k = key_of (lm_heap m) n" by auto
  then show "k \<in> key_of (lm_heap m) ` set ns" by blast
next
  fix k assume "k \<in> key_of (lm_heap m) ` set ns"
  with lru_relD(2) [OF assms] show "k \<in> dom (um_find (lm_impl m))" by blast
qed

lemma lru_rel_size:
  assumes "lru_rel m ns"
  shows "um_size (lm_impl m) = length ns"
proof -
  have "um_inv (lm_impl m)" using assms by (simp add: lru_rel_def um_sized_def)
  then have "um_size (lm_impl m) = card (key_of (lm_heap m) ` set ns)"
    using um_size_card lru_rel_dom [OF assms] by metis
  also have "\<dots> = length ns"
    using lru_rel_keys_inj [OF assms] assms by (simp add: card_image lru_rel_def lru_list_def distinct_card)
  finally show ?thesis .
qed

lemma lru_rel_entries:
  assumes "lru_rel m ns"
  shows "lru_entries m = map (entry_of m) ns"
  using assms lru_rel_size [OF assms] follow_dll [of "lm_heap m" None ns]
  by (simp add: lru_entries_def lru_rel_def lru_list_def)

lemma lru_rel_map_of:
  assumes "lru_rel m ns"
  shows "map_of (lru_entries m) k = map_option fst (um_find (lm_impl m) k)"
proof (cases "um_find (lm_impl m) k")
  case None
  then have "k \<notin> key_of (lm_heap m) ` set ns" using lru_rel_dom [OF assms] by auto
  then show ?thesis
    using None by (auto simp: lru_rel_entries [OF assms] map_of_eq_None_iff entry_of_def Let_def image_iff)
next
  case (Some vn)
  obtain v n where vn: "vn = (v, n)" by fastforce
  with Some assms have n: "n \<in> set ns" "key_of (lm_heap m) n = k" by (auto simp: lru_rel_def)
  have "distinct (map fst (lru_entries m))"
    using lru_rel_keys_inj [OF assms] assms
    by (simp add: lru_rel_entries [OF assms] distinct_map lru_rel_def lru_list_def entry_of_def Let_def
        inj_on_def comp_def)
  moreover have "(k, v) \<in> set (lru_entries m)"
    using n Some vn by (auto simp: lru_rel_entries [OF assms] entry_of_def Let_def intro!: image_eqI [of _ _ n])
  ultimately show ?thesis using Some vn by simp
qed

section \<open>Refinement\<close>

lemma lru_list_impl [simp]: "lru_list (m\<lparr>lm_impl := u\<rparr>) ns = lru_list m ns"
  by (simp add: lru_list_def)

lemma lru_find_split:
  assumes "lru_rel m ns" "um_find (lm_impl m) k = Some (v, n)"
  obtains as bs where "ns = as @ n # bs" "n \<notin> set as" "n \<notin> set bs" "key_of (lm_heap m) n = k"
proof -
  from lru_relD(1) [OF assms] have n: "n \<in> set ns" "key_of (lm_heap m) n = k" by auto
  from split_list [OF n(1)] obtain as bs where "ns = as @ n # bs" by blast
  moreover have "distinct ns" using lru_relD(4) [OF assms(1)] by (simp add: lru_list_def)
  ultimately show thesis using that n(2) by auto
qed

lemma entries_without:
  assumes "lru_rel m (as @ n # bs)" "key_of (lm_heap m) n = k"
  shows "filter (\<lambda>e. fst e \<noteq> k) (lru_entries m) = map (entry_of m) (as @ bs)"
    and "x \<in> set (as @ bs) \<Longrightarrow> key_of (lm_heap m) x \<noteq> k"
proof -
  have d: "n \<notin> set (as @ bs)" using lru_relD(4) [OF assms(1)] by (auto simp: lru_list_def)
  show other: "key_of (lm_heap m) x \<noteq> k" if "x \<in> set (as @ bs)" for x
  proof
    assume "key_of (lm_heap m) x = k"
    then have "key_of (lm_heap m) x = key_of (lm_heap m) n" using assms(2) by (rule trans [OF _ sym])
    moreover have "x \<in> set (as @ n # bs)" "n \<in> set (as @ n # bs)" using that by auto
    ultimately have "x = n" by (rule inj_onD [OF lru_rel_keys_inj [OF assms(1)]])
    with that d show False by blast
  qed
  have "fst (entry_of m x) = key_of (lm_heap m) x" for x by (simp add: entry_of_def Let_def)
  then show "filter (\<lambda>e. fst e \<noteq> k) (lru_entries m) = map (entry_of m) (as @ bs)"
    using other assms(2) by (simp add: lru_rel_entries [OF assms(1)] filter_map comp_def)
qed

text \<open>A use of a key, with a new value or the old one.\<close>

lemma lru_touch:
  assumes rel: "lru_rel m ns" and find: "um_find (lm_impl m) k = Some (v0, n)"
    and impl: "um_find u = (um_find (lm_impl m))(k \<mapsto> (v, n))" "um_sized (lm_key_size m) u"
    and v: "length v = lm_value_size m"
  shows "\<exists>m' ns'. move_to_head n (m\<lparr>lm_impl := u\<rparr>) = Inr m' \<and> lru_rel m' ns' \<and>
    relinked (m\<lparr>lm_impl := u\<rparr>) m' \<and> lru_entries m' = spec_touch k v (lru_entries m)"
proof -
  obtain as bs where ns: "ns = as @ n # bs" and d: "n \<notin> set as" "n \<notin> set bs" and k: "key_of (lm_heap m) n = k"
    using lru_find_split [OF rel find] .
  have rel': "lru_rel m (as @ n # bs)" using rel ns by simp
  note without = entries_without [OF rel' k]
  have "lru_list (m\<lparr>lm_impl := u\<rparr>) (as @ n # bs)" using lru_relD(4) [OF rel'] by simp
  from move_to_head_list [OF this] obtain m' where
    m': "move_to_head n (m\<lparr>lm_impl := u\<rparr>) = Inr m'" and l: "lru_list m' (n # as @ bs)" by blast
  note re = move_relinked [OF m']
  have R: "lru_rel m' (n # as @ bs)"
    using l re rel' impl v k without(2) by (auto simp: lru_rel_def relinked_def)
  have "entry_of m' n = (k, v)" using re impl k by (simp add: entry_of_def relinked_def Let_def)
  moreover have "entry_of m' x = entry_of m x" if "x \<in> set (as @ bs)" for x
    using re impl without(2) [OF that] by (simp add: entry_of_def relinked_def Let_def)
  ultimately have "lru_entries m' = (k, v) # map (entry_of m) (as @ bs)"
    by (simp add: lru_rel_entries [OF R])
  with m' R re show ?thesis by (auto simp: spec_touch_def without(1))
qed

text \<open>The removal of a node and of its map entry.\<close>

lemma lru_removed:
  assumes rel: "lru_rel m (as @ n # bs)" and k: "key_of (lm_heap m) n = k"
    and l: "lru_list m1 (as @ bs)" and im: "lm_impl m1 = um_erase k (lm_impl m)"
    and h: "dom (lm_heap m1) = dom (lm_heap m)" "key_of (lm_heap m1) = key_of (lm_heap m)"
    and sz: "lm_key_size m1 = lm_key_size m" "lm_value_size m1 = lm_value_size m"
      "lm_max_entries m1 = lm_max_entries m" "lm_fresh m1 = lm_fresh m"
  shows "lru_rel (free_node (Some n) m1) (as @ bs)"
    and "lru_entries (free_node (Some n) m1) = spec_delete k (lru_entries m)"
proof -
  let ?f = "free_node (Some n) m1"
  note without = entries_without [OF rel k]
  have d: "n \<notin> set (as @ bs)" using lru_relD(4) [OF rel] by (auto simp: lru_list_def)
  have key: "key_of (lm_heap ?f) x = key_of (lm_heap m) x" if "x \<in> set (as @ bs)" for x
  proof -
    have "x \<noteq> n" using that d by blast
    then show ?thesis using fun_cong [OF h(2), of x] by (simp add: free_node_def key_of_def)
  qed
  have flds: "lm_impl ?f = um_erase k (lm_impl m)" "lm_key_size ?f = lm_key_size m"
    "lm_value_size ?f = lm_value_size m" "lm_max_entries ?f = lm_max_entries m" "lm_fresh ?f = lm_fresh m"
    using im sz by (simp_all add: free_node_def)
  have l': "lru_list ?f (as @ bs)" using l d by (simp add: lru_list_def free_node_def)
  have dom: "dom (lm_heap ?f) = set (as @ bs)" using h(1) rel d by (auto simp: free_node_def lru_rel_def)
  have find: "length v = lm_value_size ?f \<and> x \<in> set (as @ bs) \<and> key_of (lm_heap ?f) x = k'"
    if "um_find (lm_impl ?f) k' = Some (v, x)" for k' v x
  proof -
    from that have "k' \<noteq> k" "um_find (lm_impl m) k' = Some (v, x)" by (auto simp: flds split: if_splits)
    moreover from this lru_relD(1) [OF rel this(2)] k have "x \<in> set (as @ bs)" by auto
    ultimately show ?thesis using lru_relD(1) [OF rel] key by (simp add: flds)
  qed
  have onto: "\<exists>v. um_find (lm_impl ?f) (key_of (lm_heap ?f) x) = Some (v, x)" if "x \<in> set (as @ bs)" for x
    using lru_relD(2) [OF rel, of x] that without(2) [OF that] key [OF that] by (auto simp: flds)
  show R: "lru_rel ?f (as @ bs)"
    unfolding lru_rel_def
  proof (intro conjI ballI allI impI)
    show "lru_list ?f (as @ bs)" by (rule l')
    show "dom (lm_heap ?f) = set (as @ bs)" by (rule dom)
    show "um_sized (lm_key_size ?f) (lm_impl ?f)" using lru_relD(3) [OF rel] by (simp add: flds um_sized_erase)
    show "length (as @ bs) \<le> lm_max_entries ?f" using rel by (simp add: flds lru_rel_def)
    fix x assume "x \<in> set (as @ bs)"
    with rel show "x < lm_fresh ?f" by (auto simp: flds lru_rel_def)
  qed (use find onto in blast)+
  have "entry_of ?f x = entry_of m x" if "x \<in> set (as @ bs)" for x
    using key [OF that] without(2) [OF that] by (simp add: entry_of_def Let_def flds)
  then show "lru_entries ?f = spec_delete k (lru_entries m)"
    by (simp add: lru_rel_entries [OF R] spec_delete_def without(1))
qed

lemma lru_insert:
  assumes rel: "lru_rel m ns" and new: "um_find (lm_impl m) k = None" and room: "length ns < lm_max_entries m"
    and ok: "um_ok place" and k: "length k = lm_key_size m" and v: "length v = lm_value_size m"
  shows "\<exists>a m' ns'. insert_new_entry k m = Inr (a, m') \<and> lm_impl m' = lm_impl m \<and>
    lru_rel (m'\<lparr>lm_impl := um_insert_or_assign place k (v, a) (lm_impl m)\<rparr>) ns' \<and>
    lru_entries (m'\<lparr>lm_impl := um_insert_or_assign place k (v, a) (lm_impl m)\<rparr>) = (k, v) # lru_entries m \<and>
    lm_key_size m' = lm_key_size m \<and> lm_value_size m' = lm_value_size m \<and> lm_max_entries m' = lm_max_entries m"
proof -
  let ?a = "lm_fresh m"
  have a: "?a \<notin> set ns" using rel by (auto simp: lru_rel_def)
  from insert_new_entry_list [OF lru_relD(4) [OF rel] a, of k] obtain m' where
    ins: "insert_new_entry k m = Inr (?a, m')" and l: "lru_list m' (?a # ns)" and im: "lm_impl m' = lm_impl m"
    and sz: "lm_fresh m' = Suc ?a" "lm_key_size m' = lm_key_size m" "lm_value_size m' = lm_value_size m"
      "lm_max_entries m' = lm_max_entries m" and dom: "dom (lm_heap m') = insert ?a (dom (lm_heap m))"
    and key: "key_of (lm_heap m') = (key_of (lm_heap m))(?a := k)" by blast
  let ?f = "m'\<lparr>lm_impl := um_insert_or_assign place k (v, ?a) (lm_impl m)\<rparr>"
  have other: "key_of (lm_heap m) x \<noteq> k" if "x \<in> set ns" for x
    using lru_relD(2) [OF rel that] new by auto
  have find: "length w = lm_value_size ?f \<and> x \<in> set (?a # ns) \<and> key_of (lm_heap ?f) x = k'"
    if "um_find (lm_impl ?f) k' = Some (w, x)" for k' w x
    using that lru_relD(1) [OF rel, of k' w x] a v by (auto simp: sz key split: if_splits)
  have onto: "\<exists>w. um_find (lm_impl ?f) (key_of (lm_heap ?f) x) = Some (w, x)" if x: "x \<in> set (?a # ns)" for x
  proof (cases "x = ?a")
    case False
    with x have "x \<in> set ns" by simp
    with False lru_relD(2) [OF rel this] other [OF this] show ?thesis by (simp add: key)
  qed (simp add: key)
  have R: "lru_rel ?f (?a # ns)"
    unfolding lru_rel_def
  proof (intro conjI ballI allI impI)
    show "lru_list ?f (?a # ns)" using l by simp
    show "dom (lm_heap ?f) = set (?a # ns)" using dom rel by (simp add: lru_rel_def)
    show "um_sized (lm_key_size ?f) (lm_impl ?f)" using lru_relD(3) [OF rel] ok k by (simp add: sz um_sized_insert)
    show "length (?a # ns) \<le> lm_max_entries ?f" using room by (simp add: sz)
    fix x assume "x \<in> set (?a # ns)"
    then show "x < lm_fresh ?f" using rel by (auto simp: sz lru_rel_def less_Suc_eq)
  qed (use find onto in blast)+
  have "entry_of ?f ?a = (k, v)" by (simp add: entry_of_def key Let_def)
  moreover have "entry_of ?f x = entry_of m x" if "x \<in> set ns" for x
  proof -
    have "x \<noteq> ?a" using that a by blast
    with other [OF that] show ?thesis by (simp add: entry_of_def key Let_def)
  qed
  ultimately have "lru_entries ?f = (k, v) # lru_entries m"
    by (simp add: lru_rel_entries [OF R] lru_rel_entries [OF rel])
  with ins im R sz show ?thesis by blast
qed

text \<open>The eviction of the tail drops the last entry.\<close>

lemma distinct_filter_last:
  "distinct (map fst es) \<Longrightarrow> es \<noteq> [] \<Longrightarrow> filter (\<lambda>e. fst e \<noteq> fst (last es)) es = butlast es"
  by (cases es rule: rev_cases) (auto simp: filter_id_conv image_iff)

lemma lru_entries_distinct: "lru_rel m ns \<Longrightarrow> distinct (map fst (lru_entries m))"
  using lru_rel_keys_inj [of m ns] lru_relD(4) [of m ns]
  by (simp add: lru_rel_entries [of m ns] distinct_map lru_list_def entry_of_def Let_def inj_on_def comp_def)

lemma lru_evict_tail_correct:
  assumes rel: "lru_rel m ns" and ne: "ns \<noteq> []"
  shows "\<exists>m' as. lru_evict_tail m = Inr m' \<and> lru_rel m' as \<and> length ns = Suc (length as) \<and>
    lru_entries m' = butlast (lru_entries m) \<and> lm_impl m' = um_erase (fst (last (lru_entries m))) (lm_impl m) \<and>
    lm_key_size m' = lm_key_size m \<and> lm_value_size m' = lm_value_size m \<and> lm_max_entries m' = lm_max_entries m"
proof -
  obtain as n where ns: "ns = as @ n # []" using ne by (cases ns rule: rev_cases) auto
  then have rel': "lru_rel m (as @ n # [])" using rel by simp
  have tail: "lm_tail m = Some n" using lru_relD(4) [OF rel'] by (simp add: lru_list_def)
  obtain nd where nd: "lm_heap m n = Some nd"
    using lru_relD(4) [OF rel'] by (auto simp: lru_list_def)
  let ?k = "ln_key nd"
  have k: "key_of (lm_heap m) n = ?k" by (simp add: key_of_def nd)
  let ?u = "m\<lparr>lm_impl := um_erase ?k (lm_impl m)\<rparr>"
  have "lru_list ?u (as @ n # [])" using lru_relD(4) [OF rel'] by simp
  from evict_entry_list [OF this] obtain m1 where m1: "evict_entry (Some n) ?u = Inr m1" "lru_list m1 (as @ [])"
    by blast
  note re = evict_relinked [OF m1(1)]
  have last: "fst (last (lru_entries m)) = ?k"
    using k by (simp add: lru_rel_entries [OF rel'] entry_of_def Let_def)
  have ne': "lru_entries m \<noteq> []" using ns by (simp add: lru_rel_entries [OF rel])
  have "spec_delete ?k (lru_entries m) = butlast (lru_entries m)"
    using distinct_filter_last [OF lru_entries_distinct [OF rel] ne'] by (simp add: spec_delete_def last)
  moreover have "lru_rel (free_node (Some n) m1) (as @ [])"
    "lru_entries (free_node (Some n) m1) = spec_delete ?k (lru_entries m)"
    using lru_removed [OF rel' k m1(2)] re by (auto simp: relinked_def)
  moreover have "lru_evict_tail m = Inr (free_node (Some n) m1)"
    using m1(1) by (simp add: lru_evict_tail_def tail deref_def nd Let_def)
  ultimately show ?thesis using re ns last by (auto simp: relinked_def free_node_def)
qed

section \<open>The operations\<close>

datatype lru_op = LLookup bytes | LUpdate bytes bytes u64 | LDelete bytes

definition lru_step :: "placement \<Rightarrow> lru_map \<Rightarrow> lru_op \<Rightarrow> lru_map res" where
  "lru_step place m x = (case x of
     LLookup k \<Rightarrow> bindr (lru_elem_lookup m k) (\<lambda>r. Inr (snd r))
   | LUpdate k v f \<Rightarrow> lru_elem_update place m k v f
   | LDelete k \<Rightarrow> lru_elem_delete m k)"

definition spec_step :: "nat \<Rightarrow> lru_spec \<Rightarrow> lru_op \<Rightarrow> lru_spec res" where
  "spec_step cap es x = (case x of
     LLookup k \<Rightarrow>
       (case map_of es k of None \<Rightarrow> Inl (Errno ENOENT) | Some v \<Rightarrow> Inr (spec_touch k v es))
   | LUpdate k v f \<Rightarrow>
       (if \<not> is_good_update_flag f then Inl (Errno EINVAL)
        else if f = BPF_NOEXIST \<and> map_of es k \<noteq> None then Inl (Errno EEXIST)
        else if f = BPF_EXIST \<and> map_of es k = None then Inl (Errno ENOENT)
        else Inr (spec_put cap k v es))
   | LDelete k \<Rightarrow>
       (case map_of es k of None \<Rightarrow> Inl (Errno ENOENT) | Some v \<Rightarrow> Inr (spec_delete k es)))"

fun lru_sized :: "nat \<Rightarrow> nat \<Rightarrow> lru_op \<Rightarrow> bool" where
  "lru_sized ks vs (LLookup k) = (length k = ks)"
| "lru_sized ks vs (LUpdate k v f) = (length k = ks \<and> length v = vs)"
| "lru_sized ks vs (LDelete k) = (length k = ks)"

definition same_sizes :: "lru_map \<Rightarrow> lru_map \<Rightarrow> bool" where
  "same_sizes m m' \<longleftrightarrow> lm_key_size m' = lm_key_size m \<and> lm_value_size m' = lm_value_size m \<and>
     lm_max_entries m' = lm_max_entries m"

text \<open>What a step has to establish.\<close>

definition step_refines :: "lru_map \<Rightarrow> lru_map res \<Rightarrow> lru_spec res \<Rightarrow> bool" where
  "step_refines m r s \<longleftrightarrow> map_sum id lru_entries r = s \<and>
     (\<forall>m'. r = Inr m' \<longrightarrow> lru_inv m' \<and> same_sizes m m')"

lemma lru_lookup_refines:
  assumes rel: "lru_rel m ns" and k: "length k = lm_key_size m"
  shows "step_refines m (lru_step place m (LLookup k)) (spec_step cap (lru_entries m) (LLookup k))"
proof (cases "um_find (lm_impl m) k")
  case None
  then show ?thesis
    using k lru_rel_map_of [OF rel, of k]
    by (simp add: step_refines_def lru_step_def lru_elem_lookup_def spec_step_def)
next
  case (Some vn)
  then obtain v n where f: "um_find (lm_impl m) k = Some (v, n)" by (cases vn) auto
  have "um_find (lm_impl m) = (um_find (lm_impl m))(k \<mapsto> (v, n))" using f by (simp add: fun_upd_idem)
  from lru_touch [OF rel f this lru_relD(3) [OF rel]] lru_relD(1) [OF rel f] obtain m' ns' where
    "move_to_head n m = Inr m'" "lru_rel m' ns'" "relinked m m'" "lru_entries m' = spec_touch k v (lru_entries m)"
    by auto
  then show ?thesis
    using f k lru_rel_map_of [OF rel, of k]
    by (auto simp: step_refines_def lru_step_def lru_elem_lookup_def spec_step_def relinked_def lru_inv_def
        same_sizes_def)
qed

lemma lru_delete_refines:
  assumes rel: "lru_rel m ns" and k: "length k = lm_key_size m"
  shows "step_refines m (lru_step place m (LDelete k)) (spec_step cap (lru_entries m) (LDelete k))"
proof (cases "um_find (lm_impl m) k")
  case None
  then show ?thesis
    using k lru_rel_map_of [OF rel, of k]
    by (simp add: step_refines_def lru_step_def lru_elem_delete_def spec_step_def)
next
  case (Some vn)
  then obtain v n where f: "um_find (lm_impl m) k = Some (v, n)" by (cases vn) auto
  obtain as bs where ns: "ns = as @ n # bs" and key: "key_of (lm_heap m) n = k"
    using lru_find_split [OF rel f] .
  have rel': "lru_rel m (as @ n # bs)" using rel ns by simp
  from evict_entry_list [OF lru_relD(4) [OF rel']] obtain m1 where
    m1: "evict_entry (Some n) m = Inr m1" "lru_list m1 (as @ bs)" by blast
  note re = evict_relinked [OF m1(1)]
  let ?u = "m1\<lparr>lm_impl := um_erase k (lm_impl m1)\<rparr>"
  have "lru_list ?u (as @ bs)" using m1(2) by simp
  note rm = lru_removed [OF rel' key this]
  have "lru_rel (free_node (Some n) ?u) (as @ bs)"
    "lru_entries (free_node (Some n) ?u) = spec_delete k (lru_entries m)"
    using re by (auto intro: rm [simplified] simp: relinked_def)
  then show ?thesis
    using f k m1(1) re lru_rel_map_of [OF rel, of k]
    by (auto simp: step_refines_def lru_step_def lru_elem_delete_def spec_step_def relinked_def lru_inv_def
        same_sizes_def free_node_def)
qed

lemma lru_update_refines:
  assumes rel: "lru_rel m ns" and ok: "um_ok place" and cap: "0 < lm_max_entries m"
    and k: "length k = lm_key_size m" and v: "length v = lm_value_size m"
  shows "step_refines m (lru_step place m (LUpdate k v f))
    (spec_step (lm_max_entries m) (lru_entries m) (LUpdate k v f))"
proof (cases "um_find (lm_impl m) k")
  case (Some vn)
  then obtain v0 n where find: "um_find (lm_impl m) k = Some (v0, n)" by (cases vn) auto
  let ?u = "um_insert_or_assign place k (v, n) (lm_impl m)"
  have "um_find ?u = (um_find (lm_impl m))(k \<mapsto> (v, n))" by (simp add: fun_eq_iff)
  moreover have "um_sized (lm_key_size m) ?u" using lru_relD(3) [OF rel] ok k by (simp add: um_sized_insert)
  ultimately obtain m' ns' where m': "move_to_head n (m\<lparr>lm_impl := ?u\<rparr>) = Inr m'" "lru_rel m' ns'"
    "relinked (m\<lparr>lm_impl := ?u\<rparr>) m'" "lru_entries m' = spec_touch k v (lru_entries m)"
    using lru_touch [OF rel find _ _ v] by blast
  have "map_of (lru_entries m) k = Some v0" using lru_rel_map_of [OF rel, of k] find by simp
  with find k v m' show ?thesis
    by (auto simp: step_refines_def lru_step_def lru_elem_update_def spec_step_def spec_put_def Let_def
        relinked_def lru_inv_def same_sizes_def)
next
  case None
  have mo: "map_of (lru_entries m) k = None" using lru_rel_map_of [OF rel, of k] None by simp
  let ?es = "if length ns = lm_max_entries m then butlast (lru_entries m) else lru_entries m"
  have "\<exists>m1 ns1. (if um_size (lm_impl m) = lm_max_entries m then lru_evict_tail m else Inr m) = Inr m1 \<and>
    lru_rel m1 ns1 \<and> lru_entries m1 = ?es \<and> length ns1 < lm_max_entries m1 \<and> same_sizes m m1 \<and>
    um_find (lm_impl m1) k = None"
  proof (cases "length ns = lm_max_entries m")
    case True
    then have "ns \<noteq> []" using cap by auto
    with lru_evict_tail_correct [OF rel] True None lru_rel_size [OF rel] show ?thesis
      by (fastforce simp: same_sizes_def)
  next
    case False
    then have "length ns < lm_max_entries m" using rel by (simp add: lru_rel_def)
    with False rel None lru_rel_size [OF rel] show ?thesis by (auto simp: same_sizes_def)
  qed
  then obtain m1 ns1 where
    ev: "(if um_size (lm_impl m) = lm_max_entries m then lru_evict_tail m else Inr m) = Inr m1"
    and m1: "lru_rel m1 ns1" "lru_entries m1 = ?es" "length ns1 < lm_max_entries m1" "same_sizes m m1"
      "um_find (lm_impl m1) k = None" by blast
  obtain a m2 ns2 where ins: "insert_new_entry k m1 = Inr (a, m2)" "lm_impl m2 = lm_impl m1"
    "lru_rel (m2\<lparr>lm_impl := um_insert_or_assign place k (v, a) (lm_impl m1)\<rparr>) ns2"
    "lru_entries (m2\<lparr>lm_impl := um_insert_or_assign place k (v, a) (lm_impl m1)\<rparr>) = (k, v) # lru_entries m1"
    "same_sizes m1 m2"
    using lru_insert [OF m1(1,5,3) ok, of v] k v m1(4) by (auto simp: same_sizes_def)
  have "k \<notin> fst ` set ?es" using mo by (auto simp: map_of_eq_None_iff dest: in_set_butlastD)
  then have "spec_put (lm_max_entries m) k v (lru_entries m) = (k, v) # ?es"
    using mo lru_rel_entries [OF rel] by (auto simp: spec_put_def spec_touch_def filter_id_conv image_iff)
  then show ?thesis
    using ev ins None mo k v m1(2,4)
    by (auto simp: step_refines_def lru_step_def lru_elem_update_def spec_step_def Let_def lru_inv_def
        same_sizes_def)
qed

text \<open>C4. LRU map, refinement: on every well-formed map each lookup, update and delete does what it
  does on the abstract sequence of entries, with the same error in every error case. In
  particular no null or dangling list pointer is followed, and the map stays well formed.\<close>

theorem lru_step_refines:
  assumes "lru_inv m" "um_ok place" "0 < lm_max_entries m" "lru_sized (lm_key_size m) (lm_value_size m) x"
  shows "map_sum id lru_entries (lru_step place m x) = spec_step (lm_max_entries m) (lru_entries m) x \<and>
    (\<forall>m'. lru_step place m x = Inr m' \<longrightarrow> lru_inv m' \<and> same_sizes m m')"
proof -
  from assms(1) obtain ns where "lru_rel m ns" by (auto simp: lru_inv_def)
  then have "step_refines m (lru_step place m x) (spec_step (lm_max_entries m) (lru_entries m) x)"
    using assms lru_lookup_refines lru_delete_refines lru_update_refines by (cases x) auto
  then show ?thesis by (simp add: step_refines_def)
qed

theorem lru_step_refines_witness:
  "map_sum id lru_entries (lru_step (\<lambda>ks k. ks @ [k]) (lru_map_new 1 1 2) (LUpdate [1] [2] 0)) =
     spec_step 2 [] (LUpdate [1] [2] 0)"
proof -
  have "lru_inv (lru_map_new 1 1 2)" using lru_rel_new by (auto simp: lru_inv_def)
  moreover have "um_ok (\<lambda>ks k. ks @ [k])" by (simp add: um_ok_def)
  moreover have "lru_entries (lru_map_new 1 1 2) = []" by code_simp
  ultimately show ?thesis
    using lru_step_refines [of "lru_map_new 1 1 2" "\<lambda>ks k. ks @ [k]" "LUpdate [1] [2] 0"]
    by (simp add: lru_map_new_def)
qed

section \<open>Runs\<close>

fun run_steps :: "('s \<Rightarrow> 'o \<Rightarrow> 's res) \<Rightarrow> 's \<Rightarrow> 'o list \<Rightarrow> 's" where
  "run_steps stp s [] = s"
| "run_steps stp s (x # xs) = run_steps stp (case stp s x of Inl _ \<Rightarrow> s | Inr s' \<Rightarrow> s') xs"

lemma lru_run_refines:
  assumes "lru_inv m" "um_ok place" "0 < lm_max_entries m"
    "\<forall>x \<in> set xs. lru_sized (lm_key_size m) (lm_value_size m) x"
  shows "lru_inv (run_steps (lru_step place) m xs) \<and> same_sizes m (run_steps (lru_step place) m xs) \<and>
    lru_entries (run_steps (lru_step place) m xs) = run_steps (spec_step (lm_max_entries m)) (lru_entries m) xs"
  using assms
proof (induction xs arbitrary: m)
  case Nil
  then show ?case by (simp add: same_sizes_def)
next
  case (Cons x xs)
  from Cons.prems obtain ns where "lru_rel m ns" by (auto simp: lru_inv_def)
  with Cons.prems have st: "step_refines m (lru_step place m x) (spec_step (lm_max_entries m) (lru_entries m) x)"
    using lru_lookup_refines lru_delete_refines lru_update_refines by (cases x) auto
  show ?case
  proof (cases "lru_step place m x")
    case (Inl e)
    with st have "spec_step (lm_max_entries m) (lru_entries m) x = Inl e" by (simp add: step_refines_def)
    with Inl Cons show ?thesis by simp
  next
    case (Inr m')
    with st have m': "lru_inv m'" "same_sizes m m'"
      "spec_step (lm_max_entries m) (lru_entries m) x = Inr (lru_entries m')" by (auto simp: step_refines_def)
    with Cons.IH [of m'] Cons.prems Inr show ?thesis by (auto simp: same_sizes_def)
  qed
qed

text \<open>How the abstract cache evolves: it stays within its capacity, and a key in it leaves only
  after enough other keys were used.\<close>

lemma spec_run_bound:
  "distinct (map fst es) \<Longrightarrow> length es \<le> cap \<Longrightarrow> 0 < cap \<Longrightarrow>
     length (run_steps (spec_step cap) es xs) \<le> cap \<and> distinct (map fst (run_steps (spec_step cap) es xs))"
proof (induction xs arbitrary: es)
  case (Cons x xs)
  have filt: "length (filter (\<lambda>e. fst e \<noteq> k) es) \<le> cap" for k
    using Cons.prems(2) length_filter_le le_trans by blast
  have dist: "distinct (map fst (filter P es))" for P :: "bytes \<times> bytes \<Rightarrow> bool"
    using Cons.prems(1) by (rule distinct_map_filter)
  have touch: "length (spec_touch k v es) \<le> cap" if "map_of es k \<noteq> None" for k v
  proof -
    have "k \<in> fst ` set es" using that by (simp add: map_of_eq_None_iff)
    then obtain e where "e \<in> set es" "fst e = k" by blast
    then have "length (filter (\<lambda>e. fst e \<noteq> k) es) < length es" by (intro length_filter_less [of e es]) auto
    with Cons.prems(2) show ?thesis by (simp add: spec_touch_def)
  qed
  have put: "length (spec_put cap k v es) \<le> cap" for k v
  proof (cases "map_of es k")
    case None
    let ?es = "if length es = cap then butlast es else es"
    have "length (filter (\<lambda>e. fst e \<noteq> k) ?es) \<le> length ?es" by (rule length_filter_le)
    then have "Suc (length (filter (\<lambda>e. fst e \<noteq> k) ?es)) \<le> Suc (length ?es)" by (rule Suc_le_mono [THEN iffD2])
    also have "\<dots> \<le> cap" using Cons.prems(2,3) by auto
    also have "Suc (length (filter (\<lambda>e. fst e \<noteq> k) ?es)) = length (spec_put cap k v es)"
      using None by (simp add: spec_put_def spec_touch_def)
    finally show ?thesis .
  qed (simp add: spec_put_def touch)
  have dput: "distinct (map fst (spec_put cap k v es))" for k v
  proof -
    have "distinct (map fst (butlast es))" using Cons.prems(1) by (simp add: map_butlast distinct_butlast)
    then show ?thesis using Cons.prems(1) by (auto simp: spec_put_def spec_touch_def distinct_map_filter)
  qed
  have "length es' \<le> cap \<and> distinct (map fst es')" if "spec_step cap es x = Inr es'" for es'
    using that put dput touch filt dist
    by (cases x) (auto simp: spec_step_def spec_delete_def spec_touch_def split: if_splits option.splits)
  then show ?case using Cons.IH Cons.prems by (auto split: sum.split)
qed simp

text \<open>The keys in front of a key: those used since it was.\<close>

definition before :: "bytes \<Rightarrow> lru_spec \<Rightarrow> bytes set" where
  "before k es = fst ` set (takeWhile (\<lambda>e. fst e \<noteq> k) es)"

lemma takeWhile_filter_subset:
  "(\<And>e. \<not> P e \<Longrightarrow> Q e) \<Longrightarrow> set (takeWhile P (filter Q es)) \<subseteq> set (takeWhile P es)"
  by (induction es) auto

lemma takeWhile_append_subset: "set (takeWhile P xs) \<subseteq> set (takeWhile P (xs @ ys))"
  by (induction xs) auto

lemma before_filter: "k' \<noteq> k \<Longrightarrow> before k (filter (\<lambda>e. fst e \<noteq> k') es) \<subseteq> before k es"
  unfolding before_def
  by (rule image_mono) (rule takeWhile_filter_subset, auto)

lemma before_butlast: "before k (butlast es) \<subseteq> before k es"
  unfolding before_def
  by (cases es rule: rev_cases) (auto dest: subsetD [OF takeWhile_append_subset])

lemma before_touch:
  "before k (spec_touch k' v es) \<subseteq> (if k' = k then {} else insert k' (before k es))"
  using before_filter [of k' k es] by (auto simp: spec_touch_def before_def)

lemma keys_touch: "fst ` set (spec_touch k v es) = insert k (fst ` set es)"
  by (auto simp: spec_touch_def)

text \<open>A key is evicted only when it is the last one, so all others were used after it.\<close>

lemma before_last:
  assumes "distinct (map fst (xs @ [e]))" "fst e = k"
  shows "before k (xs @ [e]) = fst ` set xs" "card (before k (xs @ [e])) = length xs"
proof -
  have "takeWhile (\<lambda>e. fst e \<noteq> k) (xs @ [e]) = xs"
    using assms by (subst takeWhile_append2) (auto simp: image_iff)
  then show "before k (xs @ [e]) = fst ` set xs" by (simp add: before_def)
  moreover have "distinct (map fst xs)" using assms(1) by simp
  ultimately show "card (before k (xs @ [e])) = length xs"
    by (metis distinct_card length_map set_map)
qed

lemma put_keeps_recent:
  assumes d: "distinct (map fst es)" and k: "k \<in> fst ` set es"
    and c: "finite U" "before k es \<subseteq> U" "card (insert k' U) < cap" "k' \<noteq> k"
  shows "k \<in> fst ` set (spec_put cap k' v es) \<and> before k (spec_put cap k' v es) \<subseteq> insert k' U"
proof -
  let ?es = "if map_of es k' = None \<and> length es = cap then butlast es else es"
  have "k \<in> fst ` set ?es"
  proof (cases "map_of es k' = None \<and> length es = cap")
    case True
    obtain xs e where es: "es = xs @ [e]" using k by (cases es rule: rev_cases) auto
    have "fst e \<noteq> k"
    proof
      assume e: "fst e = k"
      have d': "distinct (map fst (xs @ [e]))" using d es by simp
      note b = before_last [OF d' e]
      have "k' \<notin> before k es" using True es b(1) by (auto simp: map_of_eq_None_iff)
      then have "card (insert k' (before k es)) = cap"
        using b True es by (simp add: before_def)
      moreover have "card (insert k' (before k es)) \<le> card (insert k' U)"
        using c(1,2) by (intro card_mono) auto
      ultimately show False using c(3) by simp
    qed
    then show ?thesis using True k es by auto
  qed (use k in auto)
  moreover have "before k ?es \<subseteq> U" using before_butlast [of k es] c(2) by auto
  moreover have "before k (spec_touch k' v ?es) \<subseteq> insert k' (before k ?es)"
    using before_touch [of k k' v ?es] c(4) by simp
  ultimately show ?thesis
    unfolding spec_put_def keys_touch by blast
qed

definition op_key :: "lru_op \<Rightarrow> bytes" where
  "op_key x = (case x of LLookup k \<Rightarrow> k | LUpdate k v f \<Rightarrow> k | LDelete k \<Rightarrow> k)"

lemma step_keeps_recent:
  assumes d: "distinct (map fst es)" and k: "k \<in> fst ` set es" and nd: "x \<noteq> LDelete k"
    and c: "finite U" "before k es \<subseteq> U" "card (insert (op_key x) U - {k}) < cap" "k \<notin> U"
    and st: "spec_step cap es x = Inr es'"
  shows "k \<in> fst ` set es' \<and> before k es' \<subseteq> insert (op_key x) U - {k}"
proof (cases "op_key x = k")
  case True
  with nd st obtain v es0 where "es' = spec_touch k v es0"
    by (cases x) (auto simp: op_key_def spec_step_def spec_put_def split: option.splits if_splits)
  then show ?thesis using keys_touch [of k v es0] before_touch [of k k v es0] by auto
next
  case False
  then have U: "insert (op_key x) U - {k} = insert (op_key x) U" using c(4) by auto
  show ?thesis
  proof (cases x)
    case (LLookup k')
    with st False obtain v where "es' = spec_touch k' v es" "k' \<noteq> k"
      by (auto simp: spec_step_def op_key_def split: option.splits)
    then show ?thesis
      using keys_touch [of k' v es] before_touch [of k k' v es] k c(2) LLookup unfolding U by (auto simp: op_key_def)
  next
    case (LUpdate k' v f)
    with st False have "es' = spec_put cap k' v es" "k' \<noteq> k"
      by (auto simp: spec_step_def op_key_def split: if_splits)
    with put_keeps_recent [OF d k c(1,2), of k' cap v] c(3) LUpdate show ?thesis
      unfolding U by (simp add: op_key_def)
  next
    case (LDelete k')
    with st False have "es' = filter (\<lambda>e. fst e \<noteq> k') es" "k' \<noteq> k"
      by (auto simp: spec_step_def op_key_def spec_delete_def split: option.splits)
    then show ?thesis using before_filter [of k' k es] k c(2) unfolding U by auto
  qed
qed

lemma spec_step_keeps:
  assumes "distinct (map fst es)" "length es \<le> cap" "0 < cap" "spec_step cap es x = Inr es'"
  shows "distinct (map fst es') \<and> length es' \<le> cap"
  using spec_run_bound [OF assms(1-3), of "[x]"] assms(4) by simp

lemma run_keeps_recent:
  assumes "distinct (map fst es)" "length es \<le> cap" "0 < cap" "k \<in> fst ` set es"
    and "LDelete k \<notin> set xs" "finite U" "k \<notin> U" "before k es \<subseteq> U"
    and "card ((op_key ` set xs \<union> U) - {k}) < cap"
  shows "k \<in> fst ` set (run_steps (spec_step cap) es xs)"
  using assms
proof (induction xs arbitrary: es U)
  case (Cons x xs)
  let ?U = "insert (op_key x) U - {k}"
  have sub: "(op_key ` set xs \<union> ?U) - {k} = (op_key ` set (x # xs) \<union> U) - {k}" by auto
  have fin: "finite ((op_key ` set (x # xs) \<union> U) - {k})" using Cons.prems(6) by simp
  have "card ?U \<le> card ((op_key ` set (x # xs) \<union> U) - {k})" using fin by (intro card_mono) auto
  then have c: "card ?U < cap" using Cons.prems(9) by simp
  show ?case
  proof (cases "spec_step cap es x")
    case (Inl e)
    have "card ((op_key ` set xs \<union> U) - {k}) \<le> card ((op_key ` set (x # xs) \<union> U) - {k})"
      using fin by (intro card_mono) auto
    with Inl Cons.IH [of es U] Cons.prems show ?thesis by simp
  next
    case (Inr es')
    have "k \<in> fst ` set es' \<and> before k es' \<subseteq> ?U"
      using Cons.prems c Inr by (intro step_keeps_recent [of es k x U cap]) auto
    moreover have "distinct (map fst es') \<and> length es' \<le> cap"
      using spec_step_keeps Cons.prems(1-3) Inr by blast
    moreover have "card ((op_key ` set xs \<union> ?U) - {k}) < cap" unfolding sub by (rule Cons.prems(9))
    ultimately show ?thesis
      using Cons.IH [of es' ?U] Cons.prems(3,5,6) Inr by simp
  qed
qed simp

text \<open>C19. LRU map, a recently used key is not evicted: a key just stored is still found after any
  sequence of operations that does not delete it and uses fewer other keys than the map has
  entries.\<close>

theorem lru_recent_key_survives:
  assumes inv: "lru_inv m" and ok: "um_ok place" and cap: "0 < lm_max_entries m"
    and sz: "\<forall>x \<in> set (LUpdate k v f # xs). lru_sized (lm_key_size m) (lm_value_size m) x"
    and upd: "lru_elem_update place m k v f = Inr m1"
    and nd: "LDelete k \<notin> set xs" and few: "card (op_key ` set xs - {k}) < lm_max_entries m"
  shows "um_find (lm_impl (run_steps (lru_step place) m1 xs)) k \<noteq> None"
proof -
  from inv obtain ns where rel: "lru_rel m ns" by (auto simp: lru_inv_def)
  have "step_refines m (lru_step place m (LUpdate k v f))
      (spec_step (lm_max_entries m) (lru_entries m) (LUpdate k v f))"
    using sz by (intro lru_update_refines [OF rel ok cap]) auto
  then have m1: "lru_inv m1" "same_sizes m m1"
    "spec_step (lm_max_entries m) (lru_entries m) (LUpdate k v f) = Inr (lru_entries m1)"
    using upd by (auto simp: step_refines_def lru_step_def)
  define es where "es = (if map_of (lru_entries m) k = None \<and> length (lru_entries m) = lm_max_entries m
    then butlast (lru_entries m) else lru_entries m)"
  have "lru_entries m1 = spec_put (lm_max_entries m) k v (lru_entries m)"
    using m1(3) by (simp add: spec_step_def split: if_splits)
  then have es: "lru_entries m1 = spec_touch k v es" by (simp add: spec_put_def es_def)
  from m1(1) obtain ns1 where rel1: "lru_rel m1 ns1" by (auto simp: lru_inv_def)
  have "length (lru_entries m1) \<le> lm_max_entries m"
    using rel1 m1(2) by (simp add: lru_rel_entries [OF rel1] lru_rel_def same_sizes_def)
  moreover have "k \<in> fst ` set (lru_entries m1)" "before k (lru_entries m1) \<subseteq> {}"
    using keys_touch [of k v es] before_touch [of k k v es] by (auto simp: es)
  ultimately have "k \<in> fst ` set (run_steps (spec_step (lm_max_entries m)) (lru_entries m1) xs)"
    using run_keeps_recent [OF lru_entries_distinct [OF rel1], of "lm_max_entries m" k xs "{}"] cap nd few by simp
  moreover have run: "lru_inv (run_steps (lru_step place) m1 xs)"
    "lru_entries (run_steps (lru_step place) m1 xs) =
       run_steps (spec_step (lm_max_entries m)) (lru_entries m1) xs"
    using lru_run_refines [OF m1(1) ok, of xs] m1(2) cap sz by (auto simp: same_sizes_def)
  moreover from run(1) obtain ns2 where "lru_rel (run_steps (lru_step place) m1 xs) ns2"
    by (auto simp: lru_inv_def)
  ultimately show ?thesis using lru_rel_map_of by (metis map_of_eq_None_iff option.map_disc_iff)
qed

theorem lru_recent_key_survives_witness:
  "case lru_elem_update (\<lambda>ks k. ks @ [k]) (lru_map_new 1 1 2) [1] [5] 0 of
     Inl _ \<Rightarrow> False
   | Inr m1 \<Rightarrow> um_find (lm_impl (run_steps (lru_step (\<lambda>ks k. ks @ [k])) m1
       [LUpdate [2] [6] 0, LLookup [2], LDelete [2]])) [1] \<noteq> None"
proof (cases "lru_elem_update (\<lambda>ks k. ks @ [k]) (lru_map_new 1 1 2) [1] [5] 0")
  case (Inl e)
  moreover have "case lru_elem_update (\<lambda>ks k. ks @ [k]) (lru_map_new 1 1 2) [1] [5] 0 of
     Inl _ \<Rightarrow> False | Inr _ \<Rightarrow> True" by code_simp
  ultimately show ?thesis by simp
next
  case (Inr m1)
  have inv: "lru_inv (lru_map_new 1 1 2)" using lru_rel_new by (auto simp: lru_inv_def)
  have ok: "um_ok (\<lambda>ks k. ks @ [k])" by (simp add: um_ok_def)
  have "um_find (lm_impl (run_steps (lru_step (\<lambda>ks k. ks @ [k])) m1
      [LUpdate [2] [6] 0, LLookup [2], LDelete [2]])) [1] \<noteq> None"
    by (rule lru_recent_key_survives [OF inv ok _ _ Inr]) (simp_all add: lru_map_new_def op_key_def)
  with Inr show ?thesis by simp
qed

section \<open>The map interface\<close>

text \<open>What a lookup would read, without the move to the front that it also does.\<close>

definition lru_peek :: "lru_map \<Rightarrow> bytes \<Rightarrow> bytes option" where
  "lru_peek m k = map_option fst (um_find (lm_impl m) k)"

definition lru_shape :: "lru_map \<Rightarrow> bytes \<Rightarrow> bytes \<Rightarrow> bool" where
  "lru_shape m k v \<longleftrightarrow> length k = lm_key_size m \<and> length v = lm_value_size m"

lemma lru_peek_map_of: "lru_inv m \<Longrightarrow> lru_peek m k = map_of (lru_entries m) k"
  by (auto simp: lru_inv_def lru_peek_def lru_rel_map_of)

lemma map_of_touch: "map_of (spec_touch k v es) = (map_of es)(k \<mapsto> v)"
proof (rule ext)
  fix x
  have "map_of (filter (\<lambda>e. fst e \<noteq> k) es) x = (if x = k then None else map_of es x)"
    by (induction es) auto
  then show "map_of (spec_touch k v es) x = ((map_of es)(k \<mapsto> v)) x" by (simp add: spec_touch_def)
qed

lemma map_of_delete: "map_of (spec_delete k es) = (map_of es)(k := None)"
proof (rule ext)
  fix x
  show "map_of (spec_delete k es) x = ((map_of es)(k := None)) x"
    by (induction es) (auto simp: spec_delete_def)
qed

lemma map_of_butlast:
  assumes "distinct (map fst es)"
  shows "map_of (butlast es) x = map_of es x \<or> map_of (butlast es) x = None"
  using assms by (cases es rule: rev_cases) (auto simp: map_add_def split: option.split)

lemma lru_update_step:
  assumes "lru_inv m" "um_ok place" "0 < lm_max_entries m" "lru_shape m k v" "lru_elem_update place m k v f = Inr m'"
  shows "lru_inv m'" "same_sizes m m'" "lru_entries m' = spec_put (lm_max_entries m) k v (lru_entries m)"
proof -
  from assms(1) obtain ns where "lru_rel m ns" by (auto simp: lru_inv_def)
  from lru_update_refines [OF this assms(2,3), of k v f] assms(4,5)
  have "lru_inv m' \<and> same_sizes m m' \<and>
    Inr (lru_entries m') = spec_step (lm_max_entries m) (lru_entries m) (LUpdate k v f)"
    by (auto simp: step_refines_def lru_step_def lru_shape_def)
  then show "lru_inv m'" "same_sizes m m'" "lru_entries m' = spec_put (lm_max_entries m) k v (lru_entries m)"
    by (auto simp: spec_step_def split: if_splits)
qed

lemma lru_delete_step:
  assumes "lru_inv m" "length k = lm_key_size m" "lru_elem_delete m k = Inr m'"
  shows "lru_inv m'" "same_sizes m m'" "lru_entries m' = spec_delete k (lru_entries m)"
proof -
  from assms(1) obtain ns where "lru_rel m ns" by (auto simp: lru_inv_def)
  from lru_delete_refines [OF this assms(2)] assms(3)
  have "lru_inv m' \<and> same_sizes m m' \<and> Inr (lru_entries m') = spec_step 0 (lru_entries m) (LDelete k)"
    by (auto simp: step_refines_def lru_step_def)
  then show "lru_inv m'" "same_sizes m m'" "lru_entries m' = spec_delete k (lru_entries m)"
    by (auto simp: spec_step_def split: option.splits)
qed

interpretation lru: map_store lru_peek "lru_elem_update place" lru_elem_delete lm_max_entries lru_shape
  "\<lambda>m. um_ok place \<and> lru_inv m \<and> 0 < lm_max_entries m" for place
proof (unfold_locales, goal_cases)
  case (1 m k v f m')
  then show ?case using lru_update_step [of m place k v f m']
    by (auto simp: same_sizes_def lru_shape_def fun_eq_iff)
next
  case (2 m k v f m')
  then show ?case using lru_update_step [of m place k v f m']
    by (simp add: lru_peek_map_of spec_put_def map_of_touch)
next
  case (3 m k v f m' k')
  then obtain ns where "lru_rel m ns" by (auto simp: lru_inv_def)
  with 3 show ?case
    using lru_update_step [of m place k v f m'] map_of_butlast [OF lru_entries_distinct, of m ns k']
    by (auto simp: lru_peek_map_of spec_put_def map_of_touch)
next
  case (4 m k v m')
  then show ?case using lru_delete_step [of m k m']
    by (auto simp: same_sizes_def lru_shape_def fun_eq_iff)
next
  case (5 m k v m')
  then show ?case using lru_delete_step [of m k m']
    by (auto simp: lru_shape_def lru_peek_map_of map_of_delete fun_eq_iff)
next
  case (6 m)
  then obtain ns where rel: "lru_rel m ns" by (auto simp: lru_inv_def)
  have "dom (lru_peek m) = dom (um_find (lm_impl m))" by (auto simp: lru_peek_def dom_def)
  moreover have "um_inv (lm_impl m)" using rel by (simp add: lru_rel_def um_sized_def)
  moreover have "length ns \<le> lm_max_entries m" using rel by (simp add: lru_rel_def)
  ultimately show ?case using um_size_card [of "lm_impl m"] lru_rel_size [OF rel] by simp
qed

text \<open>LRU map, content: after any sequence of updates and deletes on a new map, a key holds only
  a value that some update stored under it, there are never more than \<^verbatim>\<open>max_entries\<close> keys, and
  the linked list and the container still agree.\<close>

theorem lru_run_sound:
  assumes "um_ok place" "0 < n" "\<forall>x \<in> set ops. op_shape (lru_shape (lru_map_new ks vs n)) x"
    and "m = run_ops (lru_elem_update place) lru_elem_delete ops (lru_map_new ks vs n)"
  shows "lru_inv m \<and> card (dom (lru_peek m)) \<le> n \<and>
    (\<forall>k v. lru_peek m k = Some v \<longrightarrow> (\<exists>f. Upd k v f \<in> set ops))"
proof -
  let ?m0 = "lru_map_new ks vs n"
  have ok: "um_ok place \<and> lru_inv ?m0 \<and> 0 < lm_max_entries ?m0"
    using assms(1,2) lru_rel_new by (auto simp: lru_inv_def lru_map_new_def)
  note inv = lru.run_ops_inv [OF ok assms(3)]
  have 0: "lru_peek ?m0 k = None" for k
    by (simp add: lru_peek_def lru_map_new_def um_find_def um_empty_def)
  have "\<exists>f. Upd k v f \<in> set ops" if "lru_peek m k = Some v" for k v
    using lru.run_ops_sound [OF ok assms(3), of k v] that 0 [of k] assms(4) by simp
  moreover have "card (dom (lru_peek m)) \<le> n"
    using lru.bounded [of place m] inv assms(4) by (simp add: lru_map_new_def)
  ultimately show ?thesis using inv assms(4) by blast
qed

theorem lru_run_sound_witness:
  "card (dom (lru_peek (run_ops (lru_elem_update (\<lambda>ks k. ks @ [k])) lru_elem_delete
     [Upd [1] [5] 0, Upd [2] [6] 0, Del [1], Upd [3] [7] 0] (lru_map_new 1 1 2)))) \<le> 2"
proof -
  let ?ops = "[Upd [1] [5] 0, Upd [2] [6] 0, Del [1], Upd [3] [7] 0] :: (bytes, bytes) map_op list"
  have ok: "um_ok (\<lambda>ks k. ks @ [k])" by (simp add: um_ok_def)
  have sh: "lru_shape (lru_map_new 1 1 2) k v \<longleftrightarrow> length k = 1 \<and> length v = 1" for k v
    by (simp add: lru_shape_def lru_map_new_def)
  have "\<forall>x \<in> set ?ops. op_shape (lru_shape (lru_map_new 1 1 2)) x"
    using sh by (auto intro!: exI [of _ "[0]"])
  from lru_run_sound [OF ok _ this refl] show ?thesis by simp
qed

text \<open>LRU map with no room: a map created with \<^verbatim>\<open>max_entries\<close> 0 counts as full while its list is
  empty, so the first insertion of any key follows the null tail pointer.\<close>

theorem lru_zero_capacity_faults:
  assumes "length k = ks" "is_good_update_flag f" "f \<noteq> BPF_EXIST"
  shows "lru_elem_update place (lru_map_new ks vs 0) k v f = Inl Fault"
  using assms
  by (simp add: lru_elem_update_def lru_map_new_def um_find_def um_empty_def um_size_def lru_evict_tail_def
      deref_def Let_def)

theorem lru_zero_capacity_faults_witness:
  "lru_elem_update (\<lambda>ks k. ks @ [k]) (lru_map_new 1 1 0) [1] [2] BPF_ANY = Inl Fault"
  by (rule lru_zero_capacity_faults) (simp_all add: is_good_update_flag_def flag_defs)

end
