(* ===== verification/Ringbuf.thy ===== *)
theory Ringbuf
  imports Array_Maps
begin

text \<open>
  \<^verbatim>\<open>ringbuf_map.cpp\<close>: the ring buffer through which programs send records to user space.
  Positions are \<^verbatim>\<open>unsigned long\<close> counters of bytes, here naturals with the 64-bit wrap of
  each addition written out; the data area follows the two position pages in the raw buffer
  and has twice \<^verbatim>\<open>max_ent\<close> bytes. A record is a header (length with the busy and discard
  bits, and a file descriptor) and the sample, padded to 8 bytes. The sequential operations
  refine a queue of records; the last section has two producers interleave.
\<close>

unbundle bit_operations_syntax

section \<open>State and operations\<close>

definition BPF_RINGBUF_BUSY_BIT :: u32 where "BPF_RINGBUF_BUSY_BIT = 2147483648"
definition BPF_RINGBUF_DISCARD_BIT :: u32 where "BPF_RINGBUF_DISCARD_BIT = 1073741824"

record ringbuf =
  rb_max_ent :: u32
  rb_cons :: nat
  rb_prod :: nat
  rb_data :: bytes

text \<open>The raw buffer has \<^verbatim>\<open>getpagesize() * 2 + max_ent * 2\<close> bytes in 32-bit arithmetic; \<open>page\<close> is
  the page size.\<close>

definition ringbuf_new :: "u32 \<Rightarrow> u32 \<Rightarrow> ringbuf res" where
  "ringbuf_new max_ent page =
     (let raw = unat (page * 2 + max_ent * 2) in
      if page < 8 then Inl Throw
      else if raw \<le> 2 * unat page then Inl Fault
      else Inr \<lparr>rb_max_ent = max_ent, rb_cons = 0, rb_prod = 0,
                rb_data = replicate (raw - 2 * unat page) 0\<rparr>)"

definition rb_mask :: "ringbuf \<Rightarrow> nat" where
  "rb_mask rb = unat (rb_max_ent rb - 1)"

definition roundup_len :: "u32 \<Rightarrow> int" where
  "roundup_len len = sint ((drop_bit 2 (push_bit 2 len) + 8 + 7) div 8 * 8)"

definition rb_len_at :: "ringbuf \<Rightarrow> nat \<Rightarrow> u32 res" where
  "rb_len_at rb pos = bindr (or_fault (rd (rb_data rb) (pos AND rb_mask rb) 4)) (\<lambda>b. or_fault (ld32 b))"

definition rb_has_data :: "ringbuf \<Rightarrow> bool res" where
  "rb_has_data rb =
     (if rb_cons rb < rb_prod rb then
        bindr (rb_len_at rb (rb_cons rb)) (\<lambda>len. Inr (len AND BPF_RINGBUF_BUSY_BIT = 0))
      else Inr False)"

definition rb_reserve :: "ringbuf \<Rightarrow> nat \<Rightarrow> u32 \<Rightarrow> (nat \<times> ringbuf) res" where
  "rb_reserve rb sz self_fd =
     (if sz AND unat (BPF_RINGBUF_BUSY_BIT OR BPF_RINGBUF_DISCARD_BIT) \<noteq> 0 then Inl (Errno E2BIG)
      else let max_ent = unat (rb_max_ent rb); prod_pos = rb_prod rb;
               used = (prod_pos + 2 ^ 64 - rb_cons rb) mod 2 ^ 64;
               avail_size = (max_ent + 2 ^ 64 - used) mod 2 ^ 64;
               total_size = (sz + 8 + 7) mod 2 ^ 64 div 8 * 8 in
        if max_ent < total_size then Inl (Errno E2BIG)
        else if avail_size < total_size then Inl (Errno ENOSPC)
        else bindr (or_fault (wr (rb_data rb) (prod_pos AND rb_mask rb)
                 (st32 (of_nat sz OR BPF_RINGBUF_BUSY_BIT) @ st32 self_fd))) (\<lambda>data.
          Inr ((prod_pos + 8) mod 2 ^ 64 AND rb_mask rb,
               rb\<lparr>rb_data := data, rb_prod := (prod_pos + total_size) mod 2 ^ 64\<rparr>)))"

definition rb_submit :: "ringbuf \<Rightarrow> nat \<Rightarrow> bool \<Rightarrow> ringbuf res" where
  "rb_submit rb sample discard =
     (let hdr_offset = (rb_mask rb + 1 + sample + 2 ^ 64 - 8) mod 2 ^ 64;
          hdr = hdr_offset AND rb_mask rb in
      bindr (or_fault (rd (rb_data rb) hdr 4)) (\<lambda>b.
      bindr (or_fault (ld32 b)) (\<lambda>len.
        let new_len = len AND NOT BPF_RINGBUF_BUSY_BIT;
            new_len = (if discard then new_len OR BPF_RINGBUF_DISCARD_BIT else new_len) in
        bindr (or_fault (wr (rb_data rb) hdr (st32 new_len))) (\<lambda>data. Inr (rb\<lparr>rb_data := data\<rparr>)))))"

text \<open>A program fills in the sample through the pointer it got.\<close>

definition rb_write :: "ringbuf \<Rightarrow> nat \<Rightarrow> bytes \<Rightarrow> ringbuf res" where
  "rb_write rb sample bs =
     bindr (or_fault (wr (rb_data rb) sample bs)) (\<lambda>data. Inr (rb\<lparr>rb_data := data\<rparr>))"

text \<open>\<^verbatim>\<open>fetch_data\<close>. The callback gets the sample bytes; what it was called with is collected
  in \<open>out\<close>. \<open>got\<close> is \<^verbatim>\<open>got_new_data\<close>: when a pass over the records ends and had some, the
  producer position is read again. Each turn of either loop takes one unit of fuel.\<close>

datatype fetch_result = Fetched int "bytes list" ringbuf | Crashed | Starved

fun fetch_from :: "nat \<Rightarrow> (bytes \<Rightarrow> int) \<Rightarrow> ringbuf \<Rightarrow> nat \<Rightarrow> nat \<Rightarrow> bool \<Rightarrow> int \<Rightarrow> bytes list \<Rightarrow> fetch_result" where
  "fetch_from 0 cb rb cons_pos prod_pos got cnt out = Starved"
| "fetch_from (Suc fuel) cb rb cons_pos prod_pos got cnt out =
     (if cons_pos < prod_pos then
        (case rb_len_at rb cons_pos of Inl _ \<Rightarrow> Crashed
         | Inr len \<Rightarrow>
             if len AND BPF_RINGBUF_BUSY_BIT \<noteq> 0 then Fetched cnt out rb
             else let next_pos = nat ((int cons_pos + roundup_len len) mod 2 ^ 64);
                      rb' = rb\<lparr>rb_cons := next_pos\<rparr> in
               if len AND BPF_RINGBUF_DISCARD_BIT = 0 then
                 (case rd (rb_data rb) ((cons_pos AND rb_mask rb) + 8) (unat len) of
                    None \<Rightarrow> Crashed
                  | Some sample \<Rightarrow>
                      let err = cb sample in
                      if err < 0 then Fetched err (out @ [sample]) rb'
                      else fetch_from fuel cb rb' next_pos prod_pos True (cnt + 1) (out @ [sample]))
               else fetch_from fuel cb rb' next_pos prod_pos True cnt out)
      else if got then fetch_from fuel cb rb cons_pos (rb_prod rb) False cnt out
      else Fetched cnt out rb)"

definition rb_fetch_data :: "nat \<Rightarrow> (bytes \<Rightarrow> int) \<Rightarrow> ringbuf \<Rightarrow> fetch_result" where
  "rb_fetch_data fuel cb rb = fetch_from fuel cb rb (rb_cons rb) (rb_prod rb) False 0 []"

text \<open>The map interface of a ring buffer rejects everything.\<close>

definition rb_elem_lookup :: "ringbuf \<Rightarrow> bytes \<Rightarrow> ptr res" where
  "rb_elem_lookup rb key = Inl (Errno ENOTSUP)"
definition rb_elem_update :: "ringbuf \<Rightarrow> bytes \<Rightarrow> bytes \<Rightarrow> u64 \<Rightarrow> ringbuf res" where
  "rb_elem_update rb key val flags = Inl (Errno ENOTSUP)"
definition rb_elem_delete :: "ringbuf \<Rightarrow> bytes \<Rightarrow> ringbuf res" where
  "rb_elem_delete rb key = Inl (Errno ENOTSUP)"
definition rb_get_next_key :: "ringbuf \<Rightarrow> bytes option \<Rightarrow> bytes res" where
  "rb_get_next_key rb key = Inl (Errno ENOTSUP)"

section \<open>Arithmetic\<close>

definition rb_ok :: "ringbuf \<Rightarrow> bool" where
  "rb_ok rb \<longleftrightarrow> (\<exists>k. 3 \<le> k \<and> k \<le> 30 \<and> unat (rb_max_ent rb) = 2 ^ k) \<and>
     length (rb_data rb) = 2 * unat (rb_max_ent rb)"

definition rb_max :: "ringbuf \<Rightarrow> nat" where
  "rb_max rb = unat (rb_max_ent rb)"

lemma rb_ok_mask:
  assumes "rb_ok rb"
  shows "n AND rb_mask rb = n mod rb_max rb" "rb_mask rb + 1 = rb_max rb"
    "8 dvd rb_max rb" "0 < rb_max rb" "rb_max rb \<le> 2 ^ 30"
proof -
  from assms obtain k where k: "3 \<le> k" "k \<le> 30" "unat (rb_max_ent rb) = 2 ^ k" by (auto simp: rb_ok_def)
  have pos: "0 < unat (rb_max_ent rb)" using k(3) by simp
  then have m: "rb_mask rb = 2 ^ k - 1" using k(3) by (simp add: rb_mask_def unat_sub_if' unat_eq_zero)
  show "n AND rb_mask rb = n mod rb_max rb" by (simp add: m and_exp_minus_1 rb_max_def k(3) del: One_nat_def)
  show "rb_mask rb + 1 = rb_max rb" by (simp add: m rb_max_def k(3))
  have "(2 :: nat) ^ 3 dvd 2 ^ k" using k(1) by (rule le_imp_power_dvd)
  then show "8 dvd rb_max rb" by (simp add: rb_max_def k(3))
  show "0 < rb_max rb" "rb_max rb \<le> 2 ^ 30"
    using pos k(2,3) power_increasing [of k 30 "2 :: nat"] by (simp_all add: rb_max_def)
qed

lemma rb_new_ok:
  assumes "3 \<le> k" "k \<le> 30" "unat max_ent = 2 ^ k" "8 \<le> page" "unat page < 2 ^ 20"
  shows "\<exists>rb. ringbuf_new max_ent page = Inr rb \<and> rb_ok rb \<and> rb_cons rb = 0 \<and> rb_prod rb = 0 \<and> rb_max_ent rb = max_ent"
proof -
  have "(2 :: nat) ^ k \<le> 2 ^ 30" using assms(2) by (rule power_increasing) simp
  then have "unat (page * 2 + max_ent * 2) = 2 * unat page + 2 * unat max_ent"
    using assms(3,5) by (simp add: unat_word_ariths)
  moreover have "\<not> page < 8" using assms(4) by simp
  ultimately show ?thesis using assms(1-3) by (auto simp: ringbuf_new_def Let_def rb_ok_def)
qed

section \<open>Headers\<close>

text \<open>A reserved record is busy until it is submitted or discarded.\<close>

datatype rb_state = Busy | Ready | Discarded

definition hdr_word :: "nat \<Rightarrow> rb_state \<Rightarrow> u32" where
  "hdr_word n st = (case st of Busy \<Rightarrow> of_nat n OR BPF_RINGBUF_BUSY_BIT
     | Ready \<Rightarrow> of_nat n | Discarded \<Rightarrow> of_nat n OR BPF_RINGBUF_DISCARD_BIT)"

definition rec_total :: "nat \<Rightarrow> nat" where
  "rec_total n = (n + 15) div 8 * 8"

lemma flag_bits:
  "bit BPF_RINGBUF_BUSY_BIT n \<longleftrightarrow> n = 31" "bit BPF_RINGBUF_DISCARD_BIT n \<longleftrightarrow> n = 30"
proof -
  have eq: "BPF_RINGBUF_BUSY_BIT = push_bit 31 1" "BPF_RINGBUF_DISCARD_BIT = push_bit 30 1"
    by (simp_all add: BPF_RINGBUF_BUSY_BIT_def BPF_RINGBUF_DISCARD_BIT_def push_bit_eq_mult)
  show "bit BPF_RINGBUF_BUSY_BIT n \<longleftrightarrow> n = 31" "bit BPF_RINGBUF_DISCARD_BIT n \<longleftrightarrow> n = 30"
    unfolding eq bit_push_bit_iff bit_1_iff by auto
qed

lemma small_bits: "n < 1073741824 \<Longrightarrow> bit (n :: nat) i \<Longrightarrow> i < 30"
proof -
  assume n: "n < 1073741824" and b: "bit n i"
  have "take_bit 30 n = n" using n by (simp add: take_bit_nat_eq_self)
  then show "i < 30" using b by (metis bit_take_bit_iff)
qed

lemma flags_disjoint:
  assumes "n < 1073741824"
  shows "of_nat n AND BPF_RINGBUF_BUSY_BIT = 0" "of_nat n AND BPF_RINGBUF_DISCARD_BIT = 0"
    "BPF_RINGBUF_DISCARD_BIT AND BPF_RINGBUF_BUSY_BIT = 0"
  by (rule bit_word_eqI, use assms in \<open>auto simp: bit_simps flag_bits dest: small_bits\<close>)+

lemma hdr_busy: "n < 1073741824 \<Longrightarrow> hdr_word n st AND BPF_RINGBUF_BUSY_BIT = 0 \<longleftrightarrow> st \<noteq> Busy"
  by (cases st) (simp_all add: hdr_word_def bit.conj_disj_distrib2 flags_disjoint, simp add: BPF_RINGBUF_BUSY_BIT_def)

lemma hdr_discard:
  "n < 1073741824 \<Longrightarrow> st \<noteq> Busy \<Longrightarrow> hdr_word n st AND BPF_RINGBUF_DISCARD_BIT = 0 \<longleftrightarrow> st = Ready"
  by (cases st) (simp_all add: hdr_word_def bit.conj_disj_distrib2 flags_disjoint, simp add: BPF_RINGBUF_DISCARD_BIT_def)

lemma hdr_submit: "n < 1073741824 \<Longrightarrow> hdr_word n Busy AND NOT BPF_RINGBUF_BUSY_BIT = of_nat n"
  by (rule bit_word_eqI) (auto simp: hdr_word_def bit_simps flag_bits dest: small_bits)

lemma strip_flags: "n < 1073741824 \<Longrightarrow> drop_bit 2 (push_bit 2 (hdr_word n st)) = of_nat n"
  by (rule bit_word_eqI, cases st)
    (auto simp: hdr_word_def bit_simps flag_bits dest: small_bits)

lemma roundup_hdr:
  assumes n: "n < 1073741824"
  shows "roundup_len (hdr_word n st) = int (rec_total n)"
proof -
  have e: "(of_nat n + 8 + 7 :: u32) = of_nat (n + 15)" by simp
  have "unat (of_nat n + 8 + 7 :: u32) = n + 15" unfolding e using n by (intro unat_of_nat_u32) simp
  then have u: "unat ((of_nat n + 8 + 7 :: u32) div 8 * 8) = rec_total n"
    using n by (simp add: unat_word_ariths unat_div rec_total_def)
  have "rec_total n < 2 ^ 31" using n by (simp add: rec_total_def)
  then have "sint ((of_nat n + 8 + 7 :: u32) div 8 * 8) = int (rec_total n)"
    by (simp only: sint_uint uint_nat u) (simp add: signed_take_bit_int_eq_self)
  then show ?thesis using n by (simp add: roundup_len_def strip_flags)
qed

lemma and_flags_zero:
  "n < 1073741824 \<Longrightarrow> n AND unat (BPF_RINGBUF_BUSY_BIT OR BPF_RINGBUF_DISCARD_BIT) = 0"
  by (rule bit_eqI) (auto simp: bit_simps flag_bits dest: small_bits)
lemma rec_total_bounds: "n + 8 \<le> rec_total n" "rec_total n \<le> n + 15" "8 dvd rec_total n"
  by (simp_all add: rec_total_def)

section \<open>Where records lie\<close>

text \<open>A record at position \<open>p\<close> has its header at \<open>p mod max\<close>; the consumer reads the sample in the
  bytes after it, running past \<open>max\<close> into the second half of the data area. The producer writes
  the sample from \<open>(p + 8) mod max\<close> on. Both differ only when the header is the last slot.\<close>

lemma slot_in_range:
  assumes "8 dvd (M :: nat)" "0 < M" "8 dvd p"
  shows "p mod M + 8 \<le> M"
proof -
  have "8 dvd p mod M" using assms by (simp add: dvd_mod)
  then obtain a b where "p mod M = 8 * a" "M = 8 * b" using assms(1) by (elim dvdE) auto
  moreover have "p mod M < M" using assms(2) by simp
  ultimately show ?thesis by simp
qed

text \<open>Header slot of \<open>q\<close> against the record at \<open>p\<close>, with \<open>q\<close> behind it in the window.\<close>

lemma header_apart:
  assumes "0 < M" "p + rec_total n \<le> q" "q + 8 \<le> p + (M :: nat)"
  shows "q mod M + 8 \<le> p mod M \<or> p mod M + 8 + n \<le> q mod M"
proof -
  define d where "d = q - p"
  have q: "q = p + d" and d: "rec_total n \<le> d" "d + 8 \<le> M" using assms by (auto simp: d_def)
  have "d < M" using d(2) by simp
  note qm = mod_step [OF assms(1) this, of p]
  show ?thesis using d rec_total_bounds(1) [of n] by (simp add: q qm) linarith
qed

text \<open>The sample as the producer writes it, \<open>[(q + 8) mod M, + n)\<close>, against what belongs to another
  record \<open>p\<close> of the window: its header and its sample as the consumer reads it.\<close>

definition apart :: "nat \<Rightarrow> nat \<Rightarrow> nat \<Rightarrow> nat \<Rightarrow> bool" where
  "apart a n b m \<longleftrightarrow> a + n \<le> b \<or> b + m \<le> a"

lemma sample_apart_next:
  assumes M: "8 dvd M" "0 < M" "8 dvd q" and w: "q + rec_total n \<le> p" "p + rec_total m \<le> q + (M :: nat)"
  shows "apart ((q + 8) mod M) n (p mod M) 8" "apart ((q + 8) mod M) n (p mod M + 8) m"
proof -
  define d where "d = p - q"
  have p: "p = q + d" and d: "rec_total n \<le> d" "d + rec_total m \<le> M" using w by (auto simp: d_def)
  have t: "n + 8 \<le> rec_total n" "m + 8 \<le> rec_total m" by (rule rec_total_bounds)+
  have qr: "q mod M + 8 \<le> M" using M by (rule slot_in_range)
  have "d < M" "8 < M" using d t by linarith+
  note pm = mod_step [OF M(2) this(1), of q] and q8 = mod_step [OF M(2) this(2), of q]
  show "apart ((q + 8) mod M) n (p mod M) 8" "apart ((q + 8) mod M) n (p mod M + 8) m"
    unfolding p pm q8 apart_def using d t qr by (auto split: if_splits)
qed

lemma sample_apart_prev:
  assumes M: "8 dvd M" "0 < M" "8 dvd q" and w: "p + rec_total m \<le> q" "q + rec_total n \<le> p + (M :: nat)"
  shows "apart ((q + 8) mod M) n (p mod M) 8" "apart ((q + 8) mod M) n (p mod M + 8) m"
proof -
  define d where "d = q - p"
  have q: "q = p + d" and d: "rec_total m \<le> d" "d + rec_total n \<le> M" using w by (auto simp: d_def)
  have t: "n + 8 \<le> rec_total n" "m + 8 \<le> rec_total m" by (rule rec_total_bounds)+
  have qr: "q mod M + 8 \<le> M" using M by (rule slot_in_range)
  have "d < M" "8 < M" using d t by linarith+
  note qm = mod_step [OF M(2) this(1), of p] and q8 = mod_step [OF M(2) this(2), of q]
  show "apart ((q + 8) mod M) n (p mod M) 8" "apart ((q + 8) mod M) n (p mod M + 8) m"
    unfolding q8 apart_def using d t qr qm by (auto simp: q split: if_splits)
qed

section \<open>The queue of records\<close>

record rb_rec =
  rr_size :: nat
  rr_state :: rb_state
  rr_sample :: bytes

abbreviation rr_total :: "rb_rec \<Rightarrow> nat" where
  "rr_total r \<equiv> rec_total (rr_size r)"

definition rec_at :: "ringbuf \<Rightarrow> nat \<Rightarrow> rb_rec \<Rightarrow> bool" where
  "rec_at rb p r \<longleftrightarrow>
     seg (p mod rb_max rb) 4 (rb_data rb) = st32 (hdr_word (rr_size r) (rr_state r)) \<and>
     seg (p mod rb_max rb + 8) (rr_size r) (rb_data rb) = rr_sample r"

definition rec_pos :: "ringbuf \<Rightarrow> rb_rec list \<Rightarrow> nat \<Rightarrow> nat" where
  "rec_pos rb rs i = rb_cons rb + sum_list (map rr_total (take i rs))"

text \<open>The records between the two positions, oldest first. The bound on \<open>rb_prod\<close> says that the
  64-bit counters have not come near to wrapping (\<open>2^63\<close> bytes of traffic).\<close>

definition rb_rel :: "ringbuf \<Rightarrow> rb_rec list \<Rightarrow> bool" where
  "rb_rel rb rs \<longleftrightarrow> rb_ok rb \<and> 8 dvd rb_cons rb \<and> rb_prod rb = rec_pos rb rs (length rs) \<and>
     rb_prod rb \<le> rb_cons rb + rb_max rb \<and> rb_prod rb < 2 ^ 63 \<and>
     (\<forall>i < length rs. rec_at rb (rec_pos rb rs i) (rs ! i))"

lemma rec_pos_Suc: "i < length rs \<Longrightarrow> rec_pos rb rs (Suc i) = rec_pos rb rs i + rr_total (rs ! i)"
  by (simp add: rec_pos_def take_Suc_conv_app_nth)

lemma rec_pos_append [simp]: "i \<le> length rs \<Longrightarrow> rec_pos rb (rs @ ys) i = rec_pos rb rs i"
  by (simp add: rec_pos_def)

lemma rec_pos_mono: "i \<le> j \<Longrightarrow> rec_pos rb rs i \<le> rec_pos rb rs j"
proof -
  assume "i \<le> j"
  then have "take j rs = take i rs @ take (j - i) (drop i rs)" by (metis le_add_diff_inverse take_add)
  then show ?thesis by (simp add: rec_pos_def)
qed

lemma rec_pos_dvd: "8 dvd rb_cons rb \<Longrightarrow> 8 dvd rec_pos rb rs i"
proof -
  assume c: "8 dvd rb_cons rb"
  have "8 dvd sum_list (map rr_total ys)" for ys :: "rb_rec list"
    by (induction ys) (auto simp: rec_total_bounds)
  with c show ?thesis by (simp add: rec_pos_def)
qed

lemma rb_rel_window:
  assumes "rb_rel rb rs" "i < length rs"
  shows "rec_pos rb rs i + rr_total (rs ! i) \<le> rb_prod rb" "rb_cons rb \<le> rec_pos rb rs i"
    "rb_prod rb \<le> rec_pos rb rs i + rb_max rb"
proof -
  show 1: "rec_pos rb rs i + rr_total (rs ! i) \<le> rb_prod rb"
    using rec_pos_mono [of "Suc i" "length rs" rb rs] rec_pos_Suc [OF assms(2), of rb] assms
    by (simp add: rb_rel_def)
  show "rb_cons rb \<le> rec_pos rb rs i" by (simp add: rec_pos_def)
  with assms(1) show "rb_prod rb \<le> rec_pos rb rs i + rb_max rb" by (simp add: rb_rel_def)
qed

lemma rb_rel_order:
  assumes "rb_rel rb rs" "i < j" "j < length rs"
  shows "rec_pos rb rs i + rr_total (rs ! i) \<le> rec_pos rb rs j"
    "rec_pos rb rs j + rr_total (rs ! j) \<le> rec_pos rb rs i + rb_max rb"
proof -
  show "rec_pos rb rs i + rr_total (rs ! i) \<le> rec_pos rb rs j"
    using rec_pos_mono [of "Suc i" j rb rs] rec_pos_Suc [of i rs rb] assms by simp
  show "rec_pos rb rs j + rr_total (rs ! j) \<le> rec_pos rb rs i + rb_max rb"
    using rb_rel_window [OF assms(1), of j] rb_rel_window [OF assms(1), of i] assms(2,3) by linarith
qed

lemma rb_rel_small:
  assumes "rb_rel rb rs" "i < length rs"
  shows "rr_size (rs ! i) < 1073741824" "rr_total (rs ! i) \<le> rb_max rb"
proof -
  show t: "rr_total (rs ! i) \<le> rb_max rb"
    using rb_rel_window [OF assms] assms(1) by (simp add: rb_rel_def)
  have "rb_max rb \<le> 2 ^ 30" using assms(1) rb_ok_mask(5) by (simp add: rb_rel_def)
  with t rec_total_bounds(1) [of "rr_size (rs ! i)"] show "rr_size (rs ! i) < 1073741824" by simp
qed

text \<open>A write outside of header and sample leaves a record alone.\<close>

lemma rec_at_put:
  assumes ok: "rb_ok rb" and p: "8 dvd p" and tot: "rr_total r \<le> rb_max rb"
    and h: "apart o' (length bs) (p mod rb_max rb) 4" and s: "apart o' (length bs) (p mod rb_max rb + 8) (rr_size r)"
    and b: "o' + length bs \<le> 2 * rb_max rb"
  shows "rec_at (rb\<lparr>rb_data := put o' bs (rb_data rb)\<rparr>) p r = rec_at rb p r"
proof -
  have len: "length (rb_data rb) = 2 * rb_max rb" using ok by (simp add: rb_ok_def rb_max_def)
  have "p mod rb_max rb + 8 \<le> rb_max rb" using rb_ok_mask(3,4) [OF ok] p by (rule slot_in_range)
  then have "p mod rb_max rb + 8 + rr_size r \<le> 2 * rb_max rb"
    using rec_total_bounds(1) [of "rr_size r"] tot by linarith
  then have "seg (p mod rb_max rb) 4 (put o' bs (rb_data rb)) = seg (p mod rb_max rb) 4 (rb_data rb)"
    "seg (p mod rb_max rb + 8) (rr_size r) (put o' bs (rb_data rb)) = seg (p mod rb_max rb + 8) (rr_size r) (rb_data rb)"
    using h s b len by (auto simp: apart_def intro!: seg_put_other)
  moreover have "rb_max (rb\<lparr>rb_data := put o' bs (rb_data rb)\<rparr>) = rb_max rb" by (simp add: rb_max_def)
  ultimately show ?thesis by (simp add: rec_at_def)
qed

lemma rb_ok_put:
  "rb_ok rb \<Longrightarrow> o' + length bs \<le> 2 * rb_max rb \<Longrightarrow> rb_ok (rb\<lparr>rb_data := put o' bs (rb_data rb), rb_prod := q\<rparr>)"
  "rb_ok rb \<Longrightarrow> o' + length bs \<le> 2 * rb_max rb \<Longrightarrow> rb_ok (rb\<lparr>rb_data := put o' bs (rb_data rb)\<rparr>)"
  by (auto simp: rb_ok_def rb_max_def length_put)

lemma rec_pos_upd [simp]:
  "rec_pos (rb\<lparr>rb_data := d\<rparr>) rs i = rec_pos rb rs i" "rec_pos (rb\<lparr>rb_prod := q\<rparr>) rs i = rec_pos rb rs i"
  "rb_max (rb\<lparr>rb_data := d\<rparr>) = rb_max rb" "rb_max (rb\<lparr>rb_prod := q\<rparr>) = rb_max rb"
  "rb_max (rb\<lparr>rb_cons := q\<rparr>) = rb_max rb"
  "rec_at (rb\<lparr>rb_prod := q\<rparr>) p r = rec_at rb p r" "rec_at (rb\<lparr>rb_cons := q\<rparr>) p r = rec_at rb p r"
  by (simp_all add: rec_pos_def rb_max_def rec_at_def)

section \<open>Reserve\<close>

lemma near_wrap_flag:
  assumes "n < 2 ^ 64" "2 ^ 64 \<le> n + 15"
  shows "n AND unat (BPF_RINGBUF_BUSY_BIT OR BPF_RINGBUF_DISCARD_BIT) \<noteq> 0"
proof -
  have "n div 2 ^ 31 = 8589934591" using assms by (intro div_nat_eqI) simp_all
  then have "bit n 31" by (simp add: bit_iff_odd)
  then have "bit (n AND unat (BPF_RINGBUF_BUSY_BIT OR BPF_RINGBUF_DISCARD_BIT)) 31"
    by (simp add: bit_simps flag_bits)
  moreover have "\<not> bit (0 :: nat) 31" by simp
  ultimately show ?thesis by metis
qed

lemma rb_reserve_eq:
  assumes rel: "rb_rel rb rs" and n: "n < 2 ^ 64"
  shows "rb_reserve rb n fd =
    (if rb_max rb < rec_total n then Inl (Errno E2BIG)
     else if rb_cons rb + rb_max rb < rb_prod rb + rec_total n then Inl (Errno ENOSPC)
     else Inr ((rb_prod rb + 8) mod rb_max rb,
        rb\<lparr>rb_data := put (rb_prod rb mod rb_max rb) (st32 (hdr_word n Busy) @ st32 fd) (rb_data rb),
           rb_prod := rb_prod rb + rec_total n\<rparr>))"
proof (cases "n AND unat (BPF_RINGBUF_BUSY_BIT OR BPF_RINGBUF_DISCARD_BIT) = 0")
  case False
  have "\<not> n < 1073741824" by (rule contrapos_nn [OF False and_flags_zero])
  moreover have "rb_max rb \<le> 2 ^ 30" using rel rb_ok_mask(5) by (simp add: rb_rel_def)
  ultimately have "rb_max rb < rec_total n" using rec_total_bounds(1) [of n] by simp
  with False show ?thesis by (simp add: rb_reserve_def)
next
  case True
  have ok: "rb_ok rb" using rel by (simp add: rb_rel_def)
  note msk = rb_ok_mask [OF ok]
  have "n + 15 < 2 ^ 64" using near_wrap_flag [OF n] True by linarith
  then have tot: "(n + 8 + 7) mod 2 ^ 64 div 8 * 8 = rec_total n" by (simp add: rec_total_def)
  have le: "rb_cons rb \<le> rb_prod rb" "rb_prod rb \<le> rb_cons rb + rb_max rb" "rb_prod rb < 2 ^ 63"
    using rel by (simp_all add: rb_rel_def rec_pos_def)
  have used: "(rb_prod rb + 2 ^ 64 - rb_cons rb) mod 2 ^ 64 = rb_prod rb - rb_cons rb"
  proof -
    have "rb_prod rb + 2 ^ 64 - rb_cons rb = rb_prod rb - rb_cons rb + 2 ^ 64" using le(1) by simp
    moreover have "rb_prod rb - rb_cons rb < 2 ^ 64" using le(3) by simp
    ultimately show ?thesis by (simp only: mod_add_self2 mod_less)
  qed
  have avail: "(rb_max rb + 2 ^ 64 - (rb_prod rb - rb_cons rb)) mod 2 ^ 64 = rb_cons rb + rb_max rb - rb_prod rb"
  proof -
    have "rb_max rb + 2 ^ 64 - (rb_prod rb - rb_cons rb) = rb_cons rb + rb_max rb - rb_prod rb + 2 ^ 64"
      using le(1,2) by simp
    moreover have "rb_cons rb + rb_max rb - rb_prod rb < 2 ^ 64" using le msk(5) by simp
    ultimately show ?thesis by (simp only: mod_add_self2 mod_less)
  qed
  have p8: "8 dvd rb_prod rb" using rel rec_pos_dvd by (simp add: rb_rel_def)
  have "rb_prod rb mod rb_max rb + 8 \<le> rb_max rb" using msk(3,4) p8 by (rule slot_in_range)
  then have wr: "rb_prod rb mod rb_max rb + 8 \<le> length (rb_data rb)" using ok by (simp add: rb_ok_def rb_max_def)
  have mods: "(rb_prod rb + 8) mod 2 ^ 64 = rb_prod rb + 8"
    "rec_total n \<le> rb_max rb \<Longrightarrow> (rb_prod rb + rec_total n) mod 2 ^ 64 = rb_prod rb + rec_total n"
    using le(3) msk(5) by simp_all
  have busy: "of_nat n OR BPF_RINGBUF_BUSY_BIT = hdr_word n Busy" by (simp add: hdr_word_def)
  show ?thesis
    unfolding rb_reserve_def Let_def rb_max_def [symmetric] used avail tot msk(1) mods(1) busy
    using True wr mods(2) le(2) by auto
qed

lemma ringbuf_reserve_rel:
  assumes rel: "rb_rel rb rs" and n: "n < 2 ^ 64" and far: "rb_prod rb + rb_max rb < 2 ^ 63"
    and tm: "rec_total n \<le> rb_max rb" and room: "rb_prod rb + rec_total n \<le> rb_cons rb + rb_max rb"
  shows "\<exists>rb'. rb_reserve rb n fd = Inr ((rb_prod rb + 8) mod rb_max rb, rb') \<and>
    rb_rel rb' (rs @ [\<lparr>rr_size = n, rr_state = Busy,
      rr_sample = seg (rb_prod rb mod rb_max rb + 8) n (rb_data rb)\<rparr>]) \<and>
    rb_max rb' = rb_max rb \<and> rb_cons rb' = rb_cons rb \<and>
    (rb_prod rb + 8) mod rb_max rb + n \<le> length (rb_data rb')"
proof -
  have ok: "rb_ok rb" using rel by (simp add: rb_rel_def)
  note msk = rb_ok_mask [OF ok]
  let ?p = "rb_prod rb" and ?M = "rb_max rb"
  let ?bs = "st32 (hdr_word n Busy) @ st32 fd"
  let ?rb1 = "rb\<lparr>rb_data := put (?p mod ?M) ?bs (rb_data rb)\<rparr>"
  let ?rb = "?rb1\<lparr>rb_prod := ?p + rec_total n\<rparr>"
  let ?r = "\<lparr>rr_size = n, rr_state = Busy, rr_sample = seg (?p mod ?M + 8) n (rb_data rb)\<rparr>"
  have p8: "8 dvd ?p" using rel rec_pos_dvd by (simp add: rb_rel_def)
  have pr: "?p mod ?M + 8 \<le> ?M" using msk(3,4) p8 by (rule slot_in_range)
  then have b: "?p mod ?M + length ?bs \<le> 2 * ?M" by simp
  have len: "length (rb_data rb) = 2 * ?M" using ok by (simp add: rb_ok_def rb_max_def)
  have old: "rec_at ?rb1 (rec_pos rb rs i) (rs ! i)" if i: "i < length rs" for i
  proof -
    note w = rb_rel_window [OF rel i]
    have "apart (?p mod ?M) 8 (rec_pos rb rs i mod ?M) 4"
      "apart (?p mod ?M) 8 (rec_pos rb rs i mod ?M + 8) (rr_size (rs ! i))"
      using header_apart [OF msk(4), of "rec_pos rb rs i" "rr_size (rs ! i)" ?p] w room
        rec_total_bounds(1) [of n] by (auto simp: apart_def)
    then have "rec_at ?rb1 (rec_pos rb rs i) (rs ! i) = rec_at rb (rec_pos rb rs i) (rs ! i)"
      using rel rb_rel_small(2) [OF rel i] b
      by (intro rec_at_put [OF ok]) (auto simp: rb_rel_def rec_pos_dvd)
    then show ?thesis using rel i by (simp add: rb_rel_def)
  qed
  have new: "rec_at ?rb1 ?p ?r"
  proof -
    have "seg (?p mod ?M) 4 (put (?p mod ?M) ?bs (rb_data rb)) =
        seg 0 4 (seg (?p mod ?M) 8 (put (?p mod ?M) ?bs (rb_data rb)))" by (simp add: seg_seg)
    also have "\<dots> = st32 (hdr_word n Busy)"
      using seg_put_same [of "?p mod ?M" ?bs "rb_data rb"] pr len by (simp add: seg_def)
    finally have "seg (?p mod ?M) 4 (put (?p mod ?M) ?bs (rb_data rb)) = st32 (hdr_word n Busy)" .
    moreover have "n + 8 \<le> ?M" using tm rec_total_bounds(1) [of n] by linarith
    then have "seg (?p mod ?M + 8) n (put (?p mod ?M) ?bs (rb_data rb)) = seg (?p mod ?M + 8) n (rb_data rb)"
      using pr len by (intro seg_put_other) simp_all
    ultimately show ?thesis by (simp add: rec_at_def)
  qed
  have pp: "rec_pos rb rs (length rs) = ?p" using rel by (simp add: rb_rel_def)
  have "rec_at ?rb (rec_pos ?rb (rs @ [?r]) i) ((rs @ [?r]) ! i)" if i: "i < Suc (length rs)" for i
  proof (cases "i = length rs")
    case True
    then show ?thesis using new by (simp add: pp nth_append)
  next
    case False
    then have "i < length rs" using i by simp
    then show ?thesis using old [of i] by (simp add: nth_append)
  qed
  moreover have "rb_ok ?rb" using rb_ok_put(1) [OF ok b] by simp
  moreover have "rec_pos ?rb (rs @ [?r]) (Suc (length rs)) = ?p + rec_total n"
    using rel by (simp add: rec_pos_def rb_rel_def)
  ultimately have "rb_rel ?rb (rs @ [?r])" using rel tm room far by (simp add: rb_rel_def)
  moreover have "(?p + 8) mod ?M + n \<le> length (rb_data ?rb)"
  proof -
    have "(?p + 8) mod ?M < ?M" using msk(4) by simp
    moreover have "n + 8 \<le> ?M" using tm rec_total_bounds(1) [of n] by simp
    moreover have "length (rb_data ?rb) = 2 * ?M" using len b by (simp add: length_put)
    ultimately show ?thesis by linarith
  qed
  moreover have "rb_max ?rb = ?M" "rb_cons ?rb = rb_cons rb" by (simp_all add: rb_max_def)
  moreover have "rb_reserve rb n fd = Inr ((?p + 8) mod ?M, ?rb)"
    using tm room by (simp add: rb_reserve_eq [OF rel n])
  ultimately show ?thesis by blast
qed

text \<open>Ring buffer, reserve: for every size it fails exactly when the record can never fit
  (\<^verbatim>\<open>E2BIG\<close>) or does not fit now (\<^verbatim>\<open>ENOSPC\<close>); otherwise a busy record is appended to the
  queue, all earlier records keep their headers and samples, and the sample the caller may
  write lies inside the data area.\<close>

theorem ringbuf_reserve_appends:
  assumes rel: "rb_rel rb rs" and n: "n < 2 ^ 64" and far: "rb_prod rb + rb_max rb < 2 ^ 63"
  shows "case rb_reserve rb n fd of
      Inl e \<Rightarrow> (e = Errno E2BIG \<and> rb_max rb < rec_total n) \<or>
        (e = Errno ENOSPC \<and> rb_cons rb + rb_max rb < rb_prod rb + rec_total n \<and> rec_total n \<le> rb_max rb)
    | Inr (ptr, rb') \<Rightarrow> \<exists>x. rb_rel rb' (rs @ [\<lparr>rr_size = n, rr_state = Busy, rr_sample = x\<rparr>]) \<and>
        ptr = (rb_prod rb + 8) mod rb_max rb \<and> ptr + n \<le> length (rb_data rb') \<and> rb_cons rb' = rb_cons rb"
proof (cases "rb_max rb < rec_total n \<or> rb_cons rb + rb_max rb < rb_prod rb + rec_total n")
  case True
  then show ?thesis by (auto simp: rb_reserve_eq [OF rel n])
next
  case False
  with ringbuf_reserve_rel [OF rel n far, of fd] show ?thesis by auto
qed

theorem ringbuf_reserve_appends_witness:
  "case rb_reserve \<lparr>rb_max_ent = 16, rb_cons = 0, rb_prod = 0, rb_data = replicate 32 0\<rparr> 4 9 of
      Inl e \<Rightarrow> False
    | Inr (ptr, rb') \<Rightarrow> \<exists>x. rb_rel rb' [\<lparr>rr_size = 4, rr_state = Busy, rr_sample = x\<rparr>] \<and> ptr = 8"
proof -
  let ?rb = "\<lparr>rb_max_ent = 16, rb_cons = 0, rb_prod = 0, rb_data = replicate 32 0\<rparr>"
  have "rb_ok ?rb" unfolding rb_ok_def by (auto intro!: exI [of _ 4])
  then have rel: "rb_rel ?rb []" by (simp add: rb_rel_def rec_pos_def)
  have "rb_max ?rb = 16" "rec_total 4 = 16" by (simp_all add: rb_max_def rec_total_def)
  then show ?thesis
    using ringbuf_reserve_appends [OF rel, of 4 9] by (auto split: sum.splits)
qed

section \<open>Submit and write\<close>

lemma rb_rel_update:
  assumes rel: "rb_rel rb rs" and i: "i < length rs" and sz: "rr_size r' = rr_size (rs ! i)"
    and b: "o' + length bs \<le> 2 * rb_max rb"
    and new: "rec_at (rb\<lparr>rb_data := put o' bs (rb_data rb)\<rparr>) (rec_pos rb rs i) r'"
    and other: "\<And>j. j < length rs \<Longrightarrow> j \<noteq> i \<Longrightarrow>
      apart o' (length bs) (rec_pos rb rs j mod rb_max rb) 8 \<and>
      apart o' (length bs) (rec_pos rb rs j mod rb_max rb + 8) (rr_size (rs ! j))"
  shows "rb_rel (rb\<lparr>rb_data := put o' bs (rb_data rb)\<rparr>) (rs[i := r'])"
proof -
  let ?rb = "rb\<lparr>rb_data := put o' bs (rb_data rb)\<rparr>"
  have ok: "rb_ok rb" using rel by (simp add: rb_rel_def)
  have "map rr_total (rs[i := r']) = map rr_total rs"
    using i sz by (intro nth_equalityI) (auto simp: nth_list_update)
  then have pos: "rec_pos rb (rs[i := r']) j = rec_pos rb rs j" for j
    by (simp only: rec_pos_def take_map [symmetric])
  have "rec_at ?rb (rec_pos rb rs j) (rs[i := r'] ! j)" if j: "j < length rs" for j
  proof (cases "j = i")
    case True
    then show ?thesis using new i by simp
  next
    case False
    have "rec_at ?rb (rec_pos rb rs j) (rs ! j) = rec_at rb (rec_pos rb rs j) (rs ! j)"
      using other [OF j False] rb_rel_small(2) [OF rel j] rel b
      by (intro rec_at_put [OF ok]) (auto simp: rb_rel_def rec_pos_dvd apart_def)
    then show ?thesis using rel j False by (simp add: rb_rel_def)
  qed
  then show ?thesis using rel rb_ok_put(2) [OF ok b] by (simp add: rb_rel_def pos)
qed

lemma header_apart_other:
  assumes rel: "rb_rel rb rs" and ij: "i < length rs" "j < length rs" "j \<noteq> i" and l: "l \<le> 8"
  shows "apart (rec_pos rb rs i mod rb_max rb) l (rec_pos rb rs j mod rb_max rb) 8"
    "apart (rec_pos rb rs i mod rb_max rb) l (rec_pos rb rs j mod rb_max rb + 8) (rr_size (rs ! j))"
proof -
  let ?M = "rb_max rb" and ?pi = "rec_pos rb rs i" and ?pj = "rec_pos rb rs j"
  have M: "0 < ?M" using rel rb_ok_mask(4) by (simp add: rb_rel_def)
  have ti: "8 \<le> rr_total (rs ! i)" using rec_total_bounds(1) [of "rr_size (rs ! i)"] by linarith
  have "?pi mod ?M + 8 \<le> ?pj mod ?M \<or> ?pj mod ?M + 8 + rr_size (rs ! j) \<le> ?pi mod ?M"
  proof (cases "j < i")
    case True
    note o = rb_rel_order [OF rel True ij(1)]
    show ?thesis using o ti by (intro header_apart [OF M]) linarith+
  next
    case False
    then have "i < j" using ij(3) by simp
    note o = rb_rel_order [OF rel this ij(2)]
    have "(?pi + ?M) mod ?M + 8 \<le> ?pj mod ?M \<or> ?pj mod ?M + 8 + rr_size (rs ! j) \<le> (?pi + ?M) mod ?M"
      using o ti by (intro header_apart [OF M]) linarith+
    then show ?thesis by simp
  qed
  then show "apart (?pi mod ?M) l (?pj mod ?M) 8" "apart (?pi mod ?M) l (?pj mod ?M + 8) (rr_size (rs ! j))"
    using l by (auto simp: apart_def)
qed

lemma submit_offset:
  assumes "rb_ok rb" "8 dvd p"
  shows "(rb_mask rb + 1 + (p + 8) mod rb_max rb + 2 ^ 64 - 8) mod 2 ^ 64 AND rb_mask rb = p mod rb_max rb"
proof -
  note m = rb_ok_mask [OF assms(1)]
  let ?M = "rb_max rb"
  have pr: "p mod ?M + 8 \<le> ?M" using m(3,4) assms(2) by (rule slot_in_range)
  have lt: "(p + 8) mod ?M < ?M" using m(4) by simp
  have M8: "8 \<le> ?M" using m(3,4) by (rule dvd_imp_le)
  have "?M + (p + 8) mod ?M + 2 ^ 64 - 8 = ?M + (p + 8) mod ?M - 8 + 2 ^ 64" using M8 by simp
  moreover have "?M + (p + 8) mod ?M - 8 < 2 ^ 64"
  proof -
    have "?M + (p + 8) mod ?M < 2 ^ 30 + 2 ^ 30" using lt m(5) by linarith
    then show ?thesis by simp
  qed
  ultimately have "(?M + (p + 8) mod ?M + 2 ^ 64 - 8) mod 2 ^ 64 = ?M + (p + 8) mod ?M - 8"
    by (simp only: mod_add_self2 mod_less)
  moreover have "(?M + (p + 8) mod ?M - 8) mod ?M = p mod ?M"
  proof (cases "p mod ?M + 8 = ?M")
    case True
    then have "(p + 8) mod ?M = 0" by (metis mod_add_left_eq mod_self)
    then have "?M + (p + 8) mod ?M - 8 = p mod ?M" using True by simp
    then show ?thesis by simp
  next
    case False
    then have "(p + 8) mod ?M = p mod ?M + 8" using pr by (metis le_neq_implies_less mod_add_left_eq mod_less)
    then have "?M + (p + 8) mod ?M - 8 = p mod ?M + ?M" by simp
    then show ?thesis by simp
  qed
  ultimately show ?thesis by (simp only: m(1,2))
qed

text \<open>Submitting or discarding the record behind a sample pointer changes its state only.\<close>

lemma rb_submit_rel:
  assumes rel: "rb_rel rb rs" and i: "i < length rs" and busy: "rr_state (rs ! i) = Busy"
  shows "\<exists>rb'. rb_submit rb ((rec_pos rb rs i + 8) mod rb_max rb) discard = Inr rb' \<and>
    rb_rel rb' (rs[i := (rs ! i)\<lparr>rr_state := (if discard then Discarded else Ready)\<rparr>]) \<and>
    rb_cons rb' = rb_cons rb \<and> rb_prod rb' = rb_prod rb"
proof -
  let ?M = "rb_max rb" and ?p = "rec_pos rb rs i" and ?r = "rs ! i"
  let ?st = "if discard then Discarded else Ready"
  have ok: "rb_ok rb" and p8: "8 dvd ?p" using rel by (auto simp: rb_rel_def rec_pos_dvd)
  note m = rb_ok_mask [OF ok] and n = rb_rel_small(1) [OF rel i]
  have pr: "?p mod ?M + 8 \<le> ?M" using m(3,4) p8 by (rule slot_in_range)
  have len: "length (rb_data rb) = 2 * ?M" using ok by (simp add: rb_ok_def rb_max_def)
  have at: "seg (?p mod ?M) 4 (rb_data rb) = st32 (hdr_word (rr_size ?r) Busy)"
    "seg (?p mod ?M + 8) (rr_size ?r) (rb_data rb) = rr_sample ?r"
    using rel i busy by (auto simp: rb_rel_def rec_at_def)
  let ?w = "st32 (hdr_word (rr_size ?r) ?st)"
  let ?rb = "rb\<lparr>rb_data := put (?p mod ?M) ?w (rb_data rb)\<rparr>"
  have hw: "(if discard then of_nat (rr_size ?r) OR BPF_RINGBUF_DISCARD_BIT else of_nat (rr_size ?r)) =
      hdr_word (rr_size ?r) ?st" by (simp add: hdr_word_def)
  have "rb_submit rb ((?p + 8) mod ?M) discard = Inr ?rb"
    unfolding rb_submit_def Let_def submit_offset [OF ok p8]
    using pr len by (simp add: at(1) hdr_submit [OF n] hw cong: if_cong)
  moreover have "rb_rel ?rb (rs[i := ?r\<lparr>rr_state := ?st\<rparr>])"
  proof (rule rb_rel_update [OF rel i])
    show "?p mod ?M + length ?w \<le> 2 * ?M" using pr by simp
    have "seg (?p mod ?M) 4 (put (?p mod ?M) ?w (rb_data rb)) = ?w"
      using seg_put_same [of "?p mod ?M" ?w "rb_data rb"] pr len by simp
    moreover have "rr_size ?r + 8 \<le> ?M"
      using rb_rel_small(2) [OF rel i] rec_total_bounds(1) [of "rr_size ?r"] by linarith
    then have "seg (?p mod ?M + 8) (rr_size ?r) (put (?p mod ?M) ?w (rb_data rb)) = rr_sample ?r"
      unfolding at(2) [symmetric] using pr len by (intro seg_put_other) simp_all
    ultimately show "rec_at ?rb ?p (?r\<lparr>rr_state := ?st\<rparr>)" by (simp add: rec_at_def)
  next
    fix j assume "j < length rs" "j \<noteq> i"
    then show "apart (?p mod ?M) (length ?w) (rec_pos rb rs j mod ?M) 8 \<and>
        apart (?p mod ?M) (length ?w) (rec_pos rb rs j mod ?M + 8) (rr_size (rs ! j))"
      using header_apart_other [OF rel i, of j 4] by simp
  qed simp
  ultimately show ?thesis by auto
qed

text \<open>Filling in the sample through the pointer. The consumer sees the bytes unless the header of
  the record is in the last slot: then the pointer wraps to the start of the data area, while the
  consumer reads on after the header.\<close>

definition last_slot :: "ringbuf \<Rightarrow> nat \<Rightarrow> bool" where
  "last_slot rb p \<longleftrightarrow> p mod rb_max rb + 8 = rb_max rb"

lemma sample_apart_other:
  assumes rel: "rb_rel rb rs" and ij: "i < length rs" "j < length rs" "j \<noteq> i"
  shows "apart ((rec_pos rb rs i + 8) mod rb_max rb) (rr_size (rs ! i)) (rec_pos rb rs j mod rb_max rb) 8"
    "apart ((rec_pos rb rs i + 8) mod rb_max rb) (rr_size (rs ! i)) (rec_pos rb rs j mod rb_max rb + 8) (rr_size (rs ! j))"
proof -
  have M: "8 dvd rb_max rb" "0 < rb_max rb" "8 dvd rec_pos rb rs i"
    using rel rb_ok_mask(3,4) by (auto simp: rb_rel_def rec_pos_dvd)
  show "apart ((rec_pos rb rs i + 8) mod rb_max rb) (rr_size (rs ! i)) (rec_pos rb rs j mod rb_max rb) 8"
    "apart ((rec_pos rb rs i + 8) mod rb_max rb) (rr_size (rs ! i)) (rec_pos rb rs j mod rb_max rb + 8) (rr_size (rs ! j))"
    using sample_apart_next [OF M, of "rr_size (rs ! i)" "rec_pos rb rs j" "rr_size (rs ! j)"]
      sample_apart_prev [OF M, of "rec_pos rb rs j" "rr_size (rs ! j)" "rr_size (rs ! i)"]
      rb_rel_order [OF rel, of i j] rb_rel_order [OF rel, of j i] ij
    by (cases "i < j"; simp)+
qed

lemma rb_write_rel:
  assumes rel: "rb_rel rb rs" and i: "i < length rs" and bs: "length bs = rr_size (rs ! i)"
  shows "\<exists>rb'. rb_write rb ((rec_pos rb rs i + 8) mod rb_max rb) bs = Inr rb' \<and>
    rb_rel rb' (if last_slot rb (rec_pos rb rs i) then rs else rs[i := (rs ! i)\<lparr>rr_sample := bs\<rparr>]) \<and>
    rb_cons rb' = rb_cons rb \<and> rb_prod rb' = rb_prod rb"
proof -
  let ?M = "rb_max rb" and ?p = "rec_pos rb rs i" and ?r = "rs ! i"
  let ?o = "(?p + 8) mod ?M"
  have ok: "rb_ok rb" and p8: "8 dvd ?p" using rel by (auto simp: rb_rel_def rec_pos_dvd)
  note m = rb_ok_mask [OF ok]
  have pr: "?p mod ?M + 8 \<le> ?M" using m(3,4) p8 by (rule slot_in_range)
  have sz: "rr_size ?r + 8 \<le> ?M"
    using rb_rel_small(2) [OF rel i] rec_total_bounds(1) [of "rr_size ?r"] by linarith
  have "?o < ?M" using m(4) by simp
  then have b: "?o + length bs \<le> 2 * ?M" using sz bs by linarith
  have len: "length (rb_data rb) = 2 * ?M" using ok by (simp add: rb_ok_def rb_max_def)
  let ?rb = "rb\<lparr>rb_data := put ?o bs (rb_data rb)\<rparr>"
  let ?r' = "if last_slot rb ?p then ?r else ?r\<lparr>rr_sample := bs\<rparr>"
  have at: "rec_at rb ?p ?r" using rel i by (simp add: rb_rel_def)
  have new: "rec_at ?rb ?p ?r'"
  proof (cases "last_slot rb ?p")
    case True
    then have "?o = 0" unfolding last_slot_def by (metis mod_add_left_eq mod_self)
    then have "rec_at ?rb ?p ?r = rec_at rb ?p ?r"
      using True sz bs b rb_rel_small(2) [OF rel i]
      by (intro rec_at_put [OF ok p8]) (auto simp: apart_def last_slot_def)
    with at True show ?thesis by simp
  next
    case False
    then have o: "?o = ?p mod ?M + 8"
      using pr unfolding last_slot_def by (metis le_neq_implies_less mod_add_left_eq mod_less)
    have "seg (?p mod ?M) 4 (put ?o bs (rb_data rb)) = seg (?p mod ?M) 4 (rb_data rb)"
      using o pr len b by (intro seg_put_other) simp_all
    moreover have "seg (?p mod ?M + 8) (rr_size ?r) (put ?o bs (rb_data rb)) = bs"
      using seg_put_same [of ?o bs "rb_data rb"] b len bs o by simp
    ultimately show ?thesis using False at by (simp add: rec_at_def)
  qed
  have "rb_rel ?rb (rs[i := ?r'])"
    using sample_apart_other [OF rel i] bs by (intro rb_rel_update [OF rel i _ b new]) auto
  moreover have "rs[i := ?r'] = (if last_slot rb ?p then rs else rs[i := ?r\<lparr>rr_sample := bs\<rparr>])" by simp
  ultimately have "rb_rel ?rb (if last_slot rb ?p then rs else rs[i := ?r\<lparr>rr_sample := bs\<rparr>])"
    by (simp only:)
  moreover have "rb_write rb ?o bs = Inr ?rb" using b len by (simp add: rb_write_def)
  ultimately show ?thesis by auto
qed

section \<open>Fetch\<close>

fun spec_fetch :: "(bytes \<Rightarrow> int) \<Rightarrow> rb_rec list \<Rightarrow> int \<Rightarrow> bytes list \<Rightarrow> int \<times> bytes list \<times> rb_rec list" where
  "spec_fetch cb [] cnt out = (cnt, out, [])"
| "spec_fetch cb (r # rs) cnt out =
     (case rr_state r of
        Busy \<Rightarrow> (cnt, out, r # rs)
      | Discarded \<Rightarrow> spec_fetch cb rs cnt out
      | Ready \<Rightarrow>
          if cb (rr_sample r) < 0 then (cb (rr_sample r), out @ [rr_sample r], rs)
          else spec_fetch cb rs (cnt + 1) (out @ [rr_sample r]))"

lemma rb_rel_head:
  assumes "rb_rel rb (r # rs)"
  shows "rb_cons rb < rb_prod rb" "rb_len_at rb (rb_cons rb) = Inr (hdr_word (rr_size r) (rr_state r))"
    "rd (rb_data rb) ((rb_cons rb AND rb_mask rb) + 8) (rr_size r) = Some (rr_sample r)"
    "nat ((int (rb_cons rb) + roundup_len (hdr_word (rr_size r) (rr_state r))) mod 2 ^ 64) = rb_cons rb + rr_total r"
    "rb_rel (rb\<lparr>rb_cons := rb_cons rb + rr_total r\<rparr>) rs" "rr_size r < 1073741824"
proof -
  let ?M = "rb_max rb" and ?p = "rb_cons rb"
  have ok: "rb_ok rb" and p8: "8 dvd ?p" using assms by (auto simp: rb_rel_def)
  note m = rb_ok_mask [OF ok]
  have p0: "rec_pos rb (r # rs) 0 = ?p" by (simp add: rec_pos_def)
  have at: "rec_at rb ?p r" using assms p0 by (auto simp: rb_rel_def)
  note w = rb_rel_window [OF assms, of 0] and sm = rb_rel_small [OF assms, of 0]
  have pr: "?p mod ?M + 8 \<le> ?M" using m(3,4) p8 by (rule slot_in_range)
  have len: "length (rb_data rb) = 2 * ?M" using ok by (simp add: rb_ok_def rb_max_def)
  have sz: "rr_size r + 8 \<le> rr_total r" by (rule rec_total_bounds)
  show "?p < rb_prod rb" using w(1) sz by (simp add: p0)
  show "rr_size r < 1073741824" using sm(1) by simp
  show "rb_len_at rb ?p = Inr (hdr_word (rr_size r) (rr_state r))"
    using at pr len by (simp add: rb_len_at_def m(1) rec_at_def)
  have "?p mod ?M + 8 + rr_size r \<le> 2 * ?M" using pr sz sm(2) by simp
  then show "rd (rb_data rb) ((?p AND rb_mask rb) + 8) (rr_size r) = Some (rr_sample r)"
    using at len by (simp add: m(1) rec_at_def)
  have "?p + rr_total r < 2 ^ 63" using w(1) assms by (simp add: p0 rb_rel_def)
  then have "(int ?p + int (rr_total r)) mod 2 ^ 64 = int (?p + rr_total r)" by simp
  then show "nat ((int ?p + roundup_len (hdr_word (rr_size r) (rr_state r))) mod 2 ^ 64) = ?p + rr_total r"
    using sm(1) by (simp add: roundup_hdr)
  let ?rb = "rb\<lparr>rb_cons := ?p + rr_total r\<rparr>"
  have pos: "rec_pos ?rb rs i = rec_pos rb (r # rs) (Suc i)" for i by (simp add: rec_pos_def)
  have "\<forall>i < length rs. rec_at ?rb (rec_pos ?rb rs i) (rs ! i)"
    using assms by (auto simp: rb_rel_def pos)
  moreover have "rb_ok ?rb" using ok by (simp add: rb_ok_def)
  moreover have "8 dvd ?p + rr_total r" using p8 rec_total_bounds(3) by simp
  ultimately show "rb_rel ?rb rs" using assms by (simp add: rb_rel_def pos)
qed

lemma fetch_from_spec:
  assumes "rb_rel rb rs" "length rs + 2 \<le> fuel" "spec_fetch cb rs cnt out = (c, out', rs')"
  shows "\<exists>rb'. fetch_from fuel cb rb (rb_cons rb) (rb_prod rb) got cnt out = Fetched c out' rb' \<and>
    rb_rel rb' rs' \<and> rb_prod rb' = rb_prod rb"
  using assms
proof (induction rs arbitrary: rb fuel got cnt out)
  case Nil
  then have eq: "rb_cons rb = rb_prod rb" by (simp add: rb_rel_def rec_pos_def)
  define f where "f = fuel - 2"
  have f: "fuel = Suc (Suc f)" using Nil.prems(2) by (simp add: f_def)
  show ?case using Nil f by (simp add: eq)
next
  case (Cons r rs)
  note h = rb_rel_head [OF Cons.prems(1)]
  from Cons.prems(2) obtain f where f: "fuel = Suc f" "length rs + 2 \<le> f" by (cases fuel) auto
  have n: "unat (hdr_word (rr_size r) Ready) = rr_size r"
    using h(6) by (simp add: hdr_word_def unat_of_nat_u32)
  let ?rb = "rb\<lparr>rb_cons := rb_cons rb + rr_total r\<rparr>"
  note IH = Cons.IH [OF h(5) f(2), of _ _ True, simplified]
  show ?case
  proof (cases "rr_state r")
    case Busy
    with Cons.prems h show ?thesis by (simp add: f(1) hdr_busy)
  next
    case Ready
    show ?thesis
    proof (cases "cb (rr_sample r) < 0")
      case True
      with Ready Cons.prems h n show ?thesis
        by (auto simp: f(1) hdr_busy hdr_discard Let_def)
    next
      case False
      with Ready Cons.prems(3) have "spec_fetch cb rs (cnt + 1) (out @ [rr_sample r]) = (c, out', rs')" by simp
      from IH [OF this] False Ready h n show ?thesis
        by (auto simp: f(1) hdr_busy hdr_discard Let_def)
    qed
  next
    case Discarded
    with Cons.prems(3) have "spec_fetch cb rs cnt out = (c, out', rs')" by simp
    from IH [OF this] Discarded h show ?thesis
      by (auto simp: f(1) hdr_busy hdr_discard Let_def)
  qed
qed

text \<open>C5. Ring buffer, fetch: with fuel for one turn per record and two more, \<^verbatim>\<open>fetch_data\<close> ends; it
  hands the committed samples to the callback oldest first, skips discarded ones, stops at the
  first record that is still busy or when the callback fails, and leaves exactly the remaining
  records in the queue.\<close>

theorem ringbuf_fetch_in_order:
  assumes "rb_rel rb rs" "length rs + 2 \<le> fuel"
  shows "case spec_fetch cb rs 0 [] of (c, out, rs') \<Rightarrow>
    \<exists>rb'. rb_fetch_data fuel cb rb = Fetched c out rb' \<and> rb_rel rb' rs' \<and> rb_prod rb' = rb_prod rb"
  using fetch_from_spec [OF assms, of cb 0 "[]"] by (auto simp: rb_fetch_data_def split: prod.split)

theorem ringbuf_fetch_in_order_witness:
  "\<exists>rb'. rb_fetch_data 3 (\<lambda>s. 0)
     \<lparr>rb_max_ent = 16, rb_cons = 0, rb_prod = 16,
      rb_data = st32 2 @ st32 0 @ [7, 8] @ replicate 22 0\<rparr> = Fetched 1 [[7, 8]] rb'"
proof -
  let ?rb = "\<lparr>rb_max_ent = 16, rb_cons = 0, rb_prod = 16,
      rb_data = st32 2 @ st32 0 @ [7, 8] @ replicate 22 0\<rparr>"
  let ?r = "\<lparr>rr_size = 2, rr_state = Ready, rr_sample = [7, 8]\<rparr>"
  have ok: "rb_ok ?rb" unfolding rb_ok_def by (auto intro!: exI [of _ 4])
  have "rec_at ?rb 0 ?r" unfolding rec_at_def rb_max_def by code_simp
  then have rel: "rb_rel ?rb [?r]"
    using ok by (simp add: rb_rel_def rec_pos_def rb_max_def rec_total_def)
  from ringbuf_fetch_in_order [OF rel, of 3 "\<lambda>s. 0"] show ?thesis by auto
qed

text \<open>Ring buffer, polling: \<^verbatim>\<open>has_data\<close> is true exactly when the oldest record is committed or
  discarded, that is, when a fetch would make progress.\<close>

theorem ringbuf_has_data_iff:
  assumes "rb_rel rb rs"
  shows "rb_has_data rb = Inr (rs \<noteq> [] \<and> rr_state (hd rs) \<noteq> Busy)"
proof (cases rs)
  case Nil
  then show ?thesis using assms by (simp add: rb_has_data_def rb_rel_def rec_pos_def)
next
  case (Cons r rs')
  with rb_rel_head [of rb r rs'] assms show ?thesis by (simp add: rb_has_data_def hdr_busy)
qed

theorem ringbuf_has_data_iff_witness:
  "rb_has_data \<lparr>rb_max_ent = 16, rb_cons = 8, rb_prod = 8, rb_data = replicate 32 0\<rparr> = Inr False"
proof -
  let ?rb = "\<lparr>rb_max_ent = 16, rb_cons = 8, rb_prod = 8, rb_data = replicate 32 0\<rparr>"
  have "rb_ok ?rb" unfolding rb_ok_def by (auto intro!: exI [of _ 4])
  then have "rb_rel ?rb []" by (simp add: rb_rel_def rec_pos_def)
  from ringbuf_has_data_iff [OF this] show ?thesis by simp
qed

section \<open>A whole output\<close>

text \<open>What a program does to send a record: reserve, fill in, submit.\<close>

definition rb_output :: "ringbuf \<Rightarrow> bytes \<Rightarrow> u32 \<Rightarrow> ringbuf res" where
  "rb_output rb bs self_fd =
     bindr (rb_reserve rb (length bs) self_fd) (\<lambda>(sample, rb).
     bindr (rb_write rb sample bs) (\<lambda>rb. rb_submit rb sample False))"

text \<open>The sample the consumer will see: what was written, or, for a header in the last slot, the
  old bytes after the first half of the data area.\<close>

definition seen_sample :: "ringbuf \<Rightarrow> bytes \<Rightarrow> bytes" where
  "seen_sample rb bs = (if last_slot rb (rb_prod rb) then seg (rb_max rb) (length bs) (rb_data rb) else bs)"

lemma rb_output_rel:
  assumes rel: "rb_rel rb rs" and far: "rb_prod rb + rb_max rb < 2 ^ 63"
    and room: "rb_prod rb + rec_total (length bs) \<le> rb_cons rb + rb_max rb"
  shows "\<exists>rb'. rb_output rb bs fd = Inr rb' \<and>
    rb_rel rb' (rs @ [\<lparr>rr_size = length bs, rr_state = Ready, rr_sample = seen_sample rb bs\<rparr>])"
proof -
  let ?n = "length bs" and ?M = "rb_max rb" and ?i = "length rs"
  let ?x1 = "seg (rb_prod rb mod ?M + 8) ?n (rb_data rb)"
  have le: "rb_cons rb \<le> rb_prod rb" using rel by (simp add: rb_rel_def rec_pos_def)
  then have tm: "rec_total ?n \<le> ?M" using room by linarith
  then have "?n < 2 ^ 63" using rec_total_bounds(1) [of ?n] far by linarith
  then have n: "?n < 2 ^ 64" by simp
  let ?rs1 = "rs @ [\<lparr>rr_size = ?n, rr_state = Busy, rr_sample = ?x1\<rparr>]"
  from ringbuf_reserve_rel [OF rel n far tm room, of fd] obtain rb1 where
    r1: "rb_reserve rb ?n fd = Inr ((rb_prod rb + 8) mod ?M, rb1)" and rel1: "rb_rel rb1 ?rs1"
    and same: "rb_max rb1 = ?M" "rb_cons rb1 = rb_cons rb" by blast
  have pos: "rec_pos rb1 ?rs1 ?i = rb_prod rb" using rel same by (simp add: rb_rel_def rec_pos_def)
  have x: "seen_sample rb bs = (if last_slot rb (rb_prod rb) then ?x1 else bs)"
    by (simp add: seen_sample_def last_slot_def)
  let ?rs2 = "rs @ [\<lparr>rr_size = ?n, rr_state = Busy, rr_sample = seen_sample rb bs\<rparr>]"
  from rb_write_rel [OF rel1, of ?i bs] obtain rb2 where
    r2: "rb_write rb1 ((rb_prod rb + 8) mod ?M) bs = Inr rb2" and rel2: "rb_rel rb2 ?rs2"
    and same2: "rb_cons rb2 = rb_cons rb1"
    by (auto simp: x pos same last_slot_def split: if_splits)
  have same3: "rb_max rb2 = ?M" using r2 same(1) by (auto simp: rb_write_def bindr_eq_Inr rb_max_def)
  have pos2: "rec_pos rb2 ?rs2 ?i = rb_prod rb" using rel same same2 by (simp add: rb_rel_def rec_pos_def)
  from rb_submit_rel [OF rel2, of ?i False] obtain rb3 where
    "rb_submit rb2 ((rb_prod rb + 8) mod ?M) False = Inr rb3"
    "rb_rel rb3 (rs @ [\<lparr>rr_size = ?n, rr_state = Ready, rr_sample = seen_sample rb bs\<rparr>])"
    by (auto simp: pos2 same3)
  with r1 r2 show ?thesis by (simp add: rb_output_def)
qed

lemma spec_fetch_all:
  "\<forall>r \<in> set rs. rr_state r \<noteq> Busy \<Longrightarrow> spec_fetch (\<lambda>_. 0) rs cnt out =
     (cnt + int (length (filter (\<lambda>r. rr_state r = Ready) rs)),
      out @ map rr_sample (filter (\<lambda>r. rr_state r = Ready) rs), [])"
  by (induction rs arbitrary: cnt out) (auto split: rb_state.split)

lemma rb_output_fetch:
  assumes rel: "rb_rel rb rs" and far: "rb_prod rb + rb_max rb < 2 ^ 63"
    and room: "rb_prod rb + rec_total (length bs) \<le> rb_cons rb + rb_max rb"
    and nb: "\<forall>r \<in> set rs. rr_state r \<noteq> Busy" and fuel: "length rs + 3 \<le> fuel"
  shows "\<exists>rb' rb'' c. rb_output rb bs fd = Inr rb' \<and> rb_fetch_data fuel (\<lambda>_. 0) rb' =
      Fetched c (map rr_sample (filter (\<lambda>r. rr_state r = Ready) rs) @ [seen_sample rb bs]) rb'' \<and> rb_rel rb'' []"
proof -
  let ?r = "\<lparr>rr_size = length bs, rr_state = Ready, rr_sample = seen_sample rb bs\<rparr>"
  from rb_output_rel [OF rel far room] obtain rb' where o: "rb_output rb bs fd = Inr rb'" "rb_rel rb' (rs @ [?r])"
    by blast
  have "\<forall>r \<in> set (rs @ [?r]). rr_state r \<noteq> Busy" using nb by simp
  note sp = spec_fetch_all [OF this, of 0 "[]"]
  have "length (rs @ [?r]) + 2 \<le> fuel" using fuel by simp
  from fetch_from_spec [OF o(2) this sp, of False] o(1) show ?thesis
    by (auto simp: rb_fetch_data_def)
qed

text \<open>C6. Ring buffer, round trip: a record that is sent while the queue holds no busy record, and
  whose header is not in the last slot of the data area, is delivered unchanged after all earlier
  committed records, and the queue is then empty.\<close>

theorem ringbuf_round_trip:
  assumes "rb_rel rb rs" "rb_prod rb + rb_max rb < 2 ^ 63"
    "rb_prod rb + rec_total (length bs) \<le> rb_cons rb + rb_max rb"
    "\<forall>r \<in> set rs. rr_state r \<noteq> Busy" "length rs + 3 \<le> fuel" "\<not> last_slot rb (rb_prod rb)"
  shows "\<exists>rb' rb'' c. rb_output rb bs fd = Inr rb' \<and> rb_fetch_data fuel (\<lambda>_. 0) rb' =
      Fetched c (map rr_sample (filter (\<lambda>r. rr_state r = Ready) rs) @ [bs]) rb'' \<and> rb_rel rb'' []"
  using rb_output_fetch [OF assms(1-5), of fd] assms(6) by (simp add: seen_sample_def)

theorem ringbuf_round_trip_witness:
  "\<exists>rb' rb'' c. rb_output \<lparr>rb_max_ent = 16, rb_cons = 0, rb_prod = 0, rb_data = replicate 32 0\<rparr> [5, 6] 3 = Inr rb' \<and>
     rb_fetch_data 3 (\<lambda>_. 0) rb' = Fetched c [[5, 6]] rb''"
proof -
  let ?rb = "\<lparr>rb_max_ent = 16, rb_cons = 0, rb_prod = 0, rb_data = replicate 32 0\<rparr>"
  have "rb_ok ?rb" unfolding rb_ok_def by (auto intro!: exI [of _ 4])
  then have "rb_rel ?rb []" by (simp add: rb_rel_def rec_pos_def)
  from ringbuf_round_trip [OF this, of "[5, 6]" 3 3] show ?thesis
    by (simp add: rb_max_def rec_total_def last_slot_def) blast
qed

text \<open>Ring buffer, last slot: when the header of a record falls into the last 8 bytes of the ring,
  the producer's sample pointer wraps to the start of the data area while the consumer reads on
  after the header. Whatever the program wrote, the consumer gets the old bytes behind the ring.\<close>

theorem ringbuf_last_slot_stale:
  assumes "rb_rel rb rs" "rb_prod rb + rb_max rb < 2 ^ 63"
    "rb_prod rb + rec_total (length bs) \<le> rb_cons rb + rb_max rb"
    "\<forall>r \<in> set rs. rr_state r \<noteq> Busy" "length rs + 3 \<le> fuel" "last_slot rb (rb_prod rb)"
  shows "\<exists>rb' rb'' c. rb_output rb bs fd = Inr rb' \<and> rb_fetch_data fuel (\<lambda>_. 0) rb' =
      Fetched c (map rr_sample (filter (\<lambda>r. rr_state r = Ready) rs) @
        [seg (rb_max rb) (length bs) (rb_data rb)]) rb'' \<and> rb_rel rb'' []"
  using rb_output_fetch [OF assms(1-5), of fd] assms(6) by (simp add: seen_sample_def)

theorem ringbuf_last_slot_stale_witness:
  "\<exists>rb' rb'' c. rb_output \<lparr>rb_max_ent = 16, rb_cons = 8, rb_prod = 8, rb_data = replicate 32 0\<rparr> [5, 6] 3 = Inr rb' \<and>
     rb_fetch_data 3 (\<lambda>_. 0) rb' = Fetched c [[0, 0]] rb''"
proof -
  let ?rb = "\<lparr>rb_max_ent = 16, rb_cons = 8, rb_prod = 8, rb_data = replicate 32 0\<rparr>"
  have "rb_ok ?rb" unfolding rb_ok_def by (auto intro!: exI [of _ 4])
  then have rel: "rb_rel ?rb []" by (simp add: rb_rel_def rec_pos_def)
  have M: "rb_max ?rb = 16" by (simp add: rb_max_def)
  have "seg 16 (Suc (Suc 0)) (replicate 32 (0 :: byte)) = [0, 0]" by (simp add: seg_def)
  with ringbuf_last_slot_stale [OF rel, of "[5, 6]" 3 3] show ?thesis
    by (simp add: M rec_total_def last_slot_def) blast
qed

section \<open>Two producers\<close>

text \<open>
  \<^verbatim>\<open>reserve\<close> guards itself with a \<^verbatim>\<open>sharable_lock\<close>, which any number of threads can hold at
  once. Its two accesses to the positions are therefore separate steps of a thread: it loads
  them, and later it writes its header and stores the new producer position.
\<close>

datatype res_pc = RIdle | RLoaded nat nat | RDone nat | RFailed

record race =
  ra_rb :: ringbuf
  ra_pc :: "nat \<Rightarrow> res_pc"

inductive race_step :: "(nat \<Rightarrow> nat) \<Rightarrow> u32 \<Rightarrow> race \<Rightarrow> race \<Rightarrow> bool" for size_of fd where
  load: "ra_pc s t = RIdle \<Longrightarrow>
    race_step size_of fd s (s\<lparr>ra_pc := (ra_pc s)(t := RLoaded (rb_cons (ra_rb s)) (rb_prod (ra_rb s)))\<rparr>)"
| store: "ra_pc s t = RLoaded c p \<Longrightarrow>
    rb_reserve ((ra_rb s)\<lparr>rb_cons := c, rb_prod := p\<rparr>) (size_of t) fd = Inr (ptr, rb') \<Longrightarrow>
    race_step size_of fd s (s\<lparr>ra_rb := rb'\<lparr>rb_cons := rb_cons (ra_rb s)\<rparr>, ra_pc := (ra_pc s)(t := RDone ptr)\<rparr>)"
| fail: "ra_pc s t = RLoaded c p \<Longrightarrow>
    rb_reserve ((ra_rb s)\<lparr>rb_cons := c, rb_prod := p\<rparr>) (size_of t) fd = Inl e \<Longrightarrow>
    race_step size_of fd s (s\<lparr>ra_pc := (ra_pc s)(t := RFailed)\<rparr>)"

inductive_cases race_stepE: "race_step size_of fd s s'"

lemma rb_rel_drop_last:
  assumes rel: "rb_rel rb (rs @ [r])" and p: "p = rec_pos rb rs (length rs)"
  shows "rb_rel (rb\<lparr>rb_prod := p\<rparr>) rs"
proof -
  have "rec_at rb (rec_pos rb rs i) (rs ! i)" if "i < length rs" for i
  proof -
    have "rec_at rb (rec_pos rb (rs @ [r]) i) ((rs @ [r]) ! i)" using rel that by (simp add: rb_rel_def)
    then show ?thesis using that by (simp add: nth_append)
  qed
  moreover have "p \<le> rb_prod rb" using rel p by (simp add: rb_rel_def rec_pos_def)
  moreover have "rb_ok (rb\<lparr>rb_prod := p\<rparr>)" using rel by (simp add: rb_rel_def rb_ok_def)
  ultimately show ?thesis using rel p by (simp add: rb_rel_def)
qed

text \<open>Ring buffer, concurrent reserve: from every state with room for each of two records, the two
  producers can interleave so that both succeed and get the same sample pointer. They then write
  the same bytes, and the producer position accounts for one record only.\<close>

theorem ringbuf_reserve_race:
  assumes rel: "rb_rel (ra_rb s) rs" and far: "rb_prod (ra_rb s) + rb_max (ra_rb s) < 2 ^ 63"
    and idle: "ra_pc s t = RIdle" "ra_pc s u = RIdle" "t \<noteq> u"
    and room: "\<forall>v \<in> {t, u}. rb_prod (ra_rb s) + rec_total (size_of v) \<le> rb_cons (ra_rb s) + rb_max (ra_rb s)"
  shows "\<exists>s' ptr. (race_step size_of fd)\<^sup>*\<^sup>* s s' \<and> ra_pc s' t = RDone ptr \<and> ra_pc s' u = RDone ptr \<and>
    rb_prod (ra_rb s') = rb_prod (ra_rb s) + rec_total (size_of u)"
proof -
  let ?rb = "ra_rb s" and ?M = "rb_max (ra_rb s)"
  let ?c = "rb_cons ?rb" and ?p = "rb_prod ?rb"
  let ?ptr = "(?p + 8) mod ?M"
  have le: "?c \<le> ?p" using rel by (simp add: rb_rel_def rec_pos_def)
  have fit: "rec_total (size_of v) \<le> ?M" "size_of v < 2 ^ 64" if "v \<in> {t, u}" for v
  proof -
    show 1: "rec_total (size_of v) \<le> ?M" using room that le by fastforce
    have "size_of v + 8 \<le> rec_total (size_of v)" by (rule rec_total_bounds)
    with 1 have "size_of v < 2 ^ 63" using far by linarith
    then show "size_of v < 2 ^ 64" by simp
  qed
  obtain rb1 x where r1: "rb_reserve ?rb (size_of t) fd = Inr (?ptr, rb1)"
    "rb_rel rb1 (rs @ [x])" "rb_max rb1 = ?M" "rb_cons rb1 = ?c"
    using ringbuf_reserve_rel [OF rel fit(2) far fit(1), of t fd] room by auto
  let ?rb1 = "rb1\<lparr>rb_cons := ?c, rb_prod := ?p\<rparr>"
  have c1: "rb1\<lparr>rb_cons := ?c\<rparr> = rb1" using r1(4) by simp
  have "?p = rec_pos rb1 rs (length rs)" using rel r1(4) by (simp add: rb_rel_def rec_pos_def)
  from rb_rel_drop_last [OF r1(2) this] have rel1: "rb_rel ?rb1 rs" by (simp add: c1)
  have same: "rb_max ?rb1 = ?M" "rb_cons ?rb1 = ?c" "rb_prod ?rb1 = ?p" using r1(3) by simp_all
  have "rb_reserve ?rb1 (size_of u) fd = Inr (?ptr,
     ?rb1\<lparr>rb_data := put (?p mod ?M) (st32 (hdr_word (size_of u) Busy) @ st32 fd) (rb_data ?rb1),
        rb_prod := ?p + rec_total (size_of u)\<rparr>)" (is "_ = Inr (_, ?rb2)")
    using rb_reserve_eq [OF rel1 fit(2), of u fd] fit(1) [of u] room unfolding same by auto
  note r2 = this
  let ?s1 = "s\<lparr>ra_pc := (ra_pc s)(t := RLoaded ?c ?p)\<rparr>"
  let ?s2 = "?s1\<lparr>ra_pc := (ra_pc ?s1)(u := RLoaded ?c ?p)\<rparr>"
  let ?s3 = "?s2\<lparr>ra_rb := rb1\<lparr>rb_cons := rb_cons (ra_rb ?s2)\<rparr>, ra_pc := (ra_pc ?s2)(t := RDone ?ptr)\<rparr>"
  let ?s4 = "?s3\<lparr>ra_rb := ?rb2\<lparr>rb_cons := rb_cons (ra_rb ?s3)\<rparr>, ra_pc := (ra_pc ?s3)(u := RDone ?ptr)\<rparr>"
  have "race_step size_of fd s ?s1" using race_step.load [of s t] idle(1) by simp
  moreover have "race_step size_of fd ?s1 ?s2" using race_step.load [of ?s1 u] idle by simp
  moreover have "race_step size_of fd ?s2 ?s3"
    by (rule race_step.store [where c = ?c and p = ?p]) (use idle(3) r1(1) in simp_all)
  moreover have "race_step size_of fd ?s3 ?s4"
    by (rule race_step.store [where c = ?c and p = ?p]) (use idle(3) r2 in simp_all)
  ultimately have "(race_step size_of fd)\<^sup>*\<^sup>* s ?s4"
    by (meson converse_rtranclp_into_rtranclp rtranclp.rtrancl_refl)
  moreover have "ra_pc ?s4 t = RDone ?ptr" "ra_pc ?s4 u = RDone ?ptr"
    "rb_prod (ra_rb ?s4) = ?p + rec_total (size_of u)" using idle(3) by simp_all
  ultimately show ?thesis by blast
qed

theorem ringbuf_reserve_race_witness:
  "\<exists>s' ptr. (race_step (\<lambda>_. 4) 7)\<^sup>*\<^sup>*
     \<lparr>ra_rb = \<lparr>rb_max_ent = 16, rb_cons = 0, rb_prod = 0, rb_data = replicate 32 0\<rparr>, ra_pc = \<lambda>_. RIdle\<rparr> s' \<and>
     ra_pc s' 0 = RDone ptr \<and> ra_pc s' 1 = RDone ptr"
proof -
  let ?rb = "\<lparr>rb_max_ent = 16, rb_cons = 0, rb_prod = 0, rb_data = replicate 32 0\<rparr>"
  let ?s = "\<lparr>ra_rb = ?rb, ra_pc = \<lambda>_. RIdle\<rparr>"
  have "rb_ok ?rb" unfolding rb_ok_def by (auto intro!: exI [of _ 4])
  then have rel: "rb_rel (ra_rb ?s) []" by (simp add: rb_rel_def rec_pos_def)
  from ringbuf_reserve_race [OF rel, of 0 1 "\<lambda>_. 4" 7] show ?thesis
    by (simp add: rb_max_def rec_total_def) blast
qed

text \<open>What the interleavings cannot do: producers never move the consumer position.\<close>

lemma race_cons_stable:
  assumes "(race_step size_of fd)\<^sup>*\<^sup>* s s'"
  shows "rb_cons (ra_rb s') = rb_cons (ra_rb s)"
  using assms by (induction rule: rtranclp_induct) (auto elim!: race_stepE)

end
