(* ===== verification/Perf_Event.thy ===== *)
theory Perf_Event
  imports Array_Maps
begin

text \<open>
  \<^verbatim>\<open>perf_event_handler.cpp\<close>: the handlers of perf events, and the ring buffer of software
  perf events. The mmap buffer is one page with the header (here the fields \<open>sp_head\<close>,
  \<open>sp_tail\<close> and \<open>sp_data_size\<close>) followed by the data area \<open>sp_data\<close>. A record is a 12-byte
  \<^verbatim>\<open>perf_sample_raw\<close>, whose 16-bit size field counts the whole record, and the sample. It is
  built in \<^verbatim>\<open>copy_buffer\<close> and copied to the data area in one or two pieces.
\<close>

unbundle bit_operations_syntax

section \<open>Software perf events\<close>

record software_perf =
  sp_cpu :: u32
  sp_config :: u64
  sp_sample_type :: u32
  sp_pagesize :: nat
  sp_head :: nat
  sp_tail :: nat
  sp_data_size :: nat
  sp_data :: bytes
  sp_copy :: bytes

definition software_perf_new :: "nat \<Rightarrow> u32 \<Rightarrow> u64 \<Rightarrow> u32 \<Rightarrow> software_perf" where
  "software_perf_new pagesize cpu config sample_type =
     \<lparr>sp_cpu = cpu, sp_config = config, sp_sample_type = sample_type, sp_pagesize = pagesize,
      sp_head = 0, sp_tail = 0, sp_data_size = 0, sp_data = [], sp_copy = replicate pagesize 0\<rparr>"

definition sp_has_data :: "software_perf \<Rightarrow> bool" where
  "sp_has_data sp \<longleftrightarrow> sp_tail sp \<noteq> sp_head sp"

definition sp_mmap_size :: "software_perf \<Rightarrow> nat" where
  "sp_mmap_size sp = length (sp_data sp)"

text \<open>\<^verbatim>\<open>head.header.size = sizeof(head) + size\<close>, a 16-bit field.\<close>

definition sample_hdr_size :: "nat \<Rightarrow> nat" where
  "sample_hdr_size n = (12 + n) mod 2 ^ 16"

definition PERF_RECORD_SAMPLE :: u32 where "PERF_RECORD_SAMPLE = 9"

definition sample_head :: "nat \<Rightarrow> bytes" where
  "sample_head n = st32 PERF_RECORD_SAMPLE @ bytes_of_nat 2 0 @ bytes_of_nat 2 (sample_hdr_size n) @ st32 (of_nat n)"

definition resize :: "nat \<Rightarrow> bytes \<Rightarrow> bytes" where
  "resize n xs = take n xs @ replicate (n - length xs) 0"

definition sp_output_data :: "software_perf \<Rightarrow> bytes \<Rightarrow> software_perf res" where
  "sp_output_data sp buf =
     (let n = length buf; M = sp_mmap_size sp; copy_size = sample_hdr_size n;
          available_size = signed_take_bit 63 (int M - (int (sp_head sp) - int (sp_tail sp)));
          available_size = (if available_size = 0 then int M else available_size) in
      if available_size \<le> int copy_size then Inr sp
      else
        bindr (or_fault (wr (resize copy_size (sp_copy sp)) 0 (sample_head n))) (\<lambda>copy.
        bindr (or_fault (wr copy 12 buf)) (\<lambda>copy.
          let start = sp_head sp AND (M + 2 ^ 64 - 1) mod 2 ^ 64;
              len_first = M - start in
          bindr (if copy_size + start \<le> M then or_fault (wr (sp_data sp) start copy)
                 else bindr (or_fault (wr (sp_data sp) start (take len_first copy))) (\<lambda>d.
                      or_fault (wr d 0 (drop len_first copy)))) (\<lambda>d.
          Inr (sp\<lparr>sp_data := d, sp_copy := copy, sp_head := (sp_head sp + copy_size) mod 2 ^ 64\<rparr>)))))"

function popcnt :: "nat \<Rightarrow> nat" where
  "popcnt x = (if x = 0 then 0 else (x AND 1) + popcnt (x div 2))"
  by auto
termination by (relation "measure id") auto

declare popcnt.simps [simp del]

text \<open>The buffer grows first; then a data size that is not a power of two gives a null pointer.\<close>

definition sp_ensure_mmap_buffer :: "software_perf \<Rightarrow> nat \<Rightarrow> bool \<times> software_perf" where
  "sp_ensure_mmap_buffer sp buffer_size =
     (if sp_pagesize sp + length (sp_data sp) < buffer_size then
        (let n = buffer_size - sp_pagesize sp;
             sp = sp\<lparr>sp_data := resize n (sp_data sp), sp_data_size := n\<rparr>
         in (popcnt n = 1, sp))
      else (True, sp))"

section \<open>Handlers\<close>

text \<open>\<^verbatim>\<open>perf_event_data_variant\<close>. The software alternative is a shared pointer: an address in the
  store of software perf events.\<close>

datatype perf_data =
    Uprobe u64 int nat string
  | Tracepoint int int
  | Software nat
  | Custom string
  | Kprobe string u64 nat

record perf_handler =
  pf_type :: int
  pf_enabled :: bool
  pf_data :: perf_data

definition PERF_TYPE_SOFTWARE :: int where "PERF_TYPE_SOFTWARE = 1"
definition PERF_TYPE_TRACEPOINT :: int where "PERF_TYPE_TRACEPOINT = 2"
definition BPF_TYPE_UPROBE :: int where "BPF_TYPE_UPROBE = 6"
definition BPF_TYPE_URETPROBE :: int where "BPF_TYPE_URETPROBE = 7"
definition BPF_TYPE_KPROBE :: int where "BPF_TYPE_KPROBE = 8"
definition BPF_TYPE_KRETPROBE :: int where "BPF_TYPE_KRETPROBE = 9"
definition BPF_TYPE_UPROBE_OVERRIDE :: int where "BPF_TYPE_UPROBE_OVERRIDE = 1008"
definition BPF_TYPE_UREPLACE :: int where "BPF_TYPE_UREPLACE = 1009"

definition custom_perf_new :: "int \<Rightarrow> string \<Rightarrow> perf_handler" where
  "custom_perf_new type attach_arg = \<lparr>pf_type = type, pf_enabled = False, pf_data = Custom attach_arg\<rparr>"

definition override_perf_new :: "int \<Rightarrow> u64 \<Rightarrow> int \<Rightarrow> string \<Rightarrow> bool \<Rightarrow> perf_handler" where
  "override_perf_new type offset pid module_name default_enabled =
     \<lparr>pf_type = type, pf_enabled = default_enabled, pf_data = Uprobe offset pid 0 module_name\<rparr>"

definition uprobe_perf_new :: "bool \<Rightarrow> u64 \<Rightarrow> int \<Rightarrow> string \<Rightarrow> nat \<Rightarrow> perf_handler" where
  "uprobe_perf_new is_retprobe offset pid module_name ref_ctr_off =
     \<lparr>pf_type = (if is_retprobe then BPF_TYPE_URETPROBE else BPF_TYPE_UPROBE), pf_enabled = False,
      pf_data = Uprobe offset pid ref_ctr_off module_name\<rparr>"

definition kprobe_perf_new :: "bool \<Rightarrow> u64 \<Rightarrow> string \<Rightarrow> nat \<Rightarrow> perf_handler" where
  "kprobe_perf_new is_retprobe addr func_name ref_ctr_off =
     \<lparr>pf_type = (if is_retprobe then BPF_TYPE_KRETPROBE else BPF_TYPE_KPROBE), pf_enabled = False,
      pf_data = Kprobe func_name addr ref_ctr_off\<rparr>"

definition tracepoint_perf_new :: "int \<Rightarrow> int \<Rightarrow> perf_handler" where
  "tracepoint_perf_new pid tracepoint_id =
     \<lparr>pf_type = PERF_TYPE_TRACEPOINT, pf_enabled = False, pf_data = Tracepoint pid tracepoint_id\<rparr>"

definition software_handler_new :: "nat \<Rightarrow> perf_handler" where
  "software_handler_new addr =
     \<lparr>pf_type = PERF_TYPE_SOFTWARE, pf_enabled = False, pf_data = Software addr\<rparr>"

definition pf_enable :: "perf_handler \<Rightarrow> perf_handler" where
  "pf_enable h = h\<lparr>pf_enabled := True\<rparr>"

definition pf_disable :: "perf_handler \<Rightarrow> perf_handler" where
  "pf_disable h = h\<lparr>pf_enabled := False\<rparr>"

definition try_get_software_ptr :: "perf_handler \<Rightarrow> nat option" where
  "try_get_software_ptr h = (case pf_data h of Software a \<Rightarrow> Some a | _ \<Rightarrow> None)"

section \<open>The power-of-two test\<close>

lemma popcnt_simps: "popcnt 0 = 0" "x \<noteq> 0 \<Longrightarrow> popcnt x = x mod 2 + popcnt (x div 2)"
  using popcnt.simps [of 0] popcnt.simps [of x] by (simp_all add: and_one_eq)

lemma popcnt_double: "popcnt (2 * x) = popcnt x"
  by (cases "x = 0") (simp_all add: popcnt_simps)

lemma popcnt_zero_iff: "popcnt x = 0 \<longleftrightarrow> x = 0"
proof (induction x rule: less_induct)
  case (less x)
  then show ?case by (cases "x = 0") (auto simp: popcnt_simps)
qed

lemma popcnt_pow2: "popcnt x = 1 \<longleftrightarrow> (\<exists>k. x = 2 ^ k)"
proof
  show "\<exists>k. x = 2 ^ k" if "popcnt x = 1"
    using that
  proof (induction x rule: less_induct)
    case (less x)
    then have x: "x \<noteq> 0" by (metis popcnt_simps(1) zero_neq_one)
    show ?case
    proof (cases "even x")
      case True
      then obtain y where y: "x = 2 * y" by blast
      with less.prems have "popcnt y = 1" by (simp add: popcnt_double)
      with less.IH [of y] x y obtain k where "y = 2 ^ k" by auto
      then have "x = 2 ^ Suc k" using y by simp
      then show ?thesis by blast
    next
      case False
      then have "x mod 2 = 1" by presburger
      with less.prems x have "x div 2 = 0" by (simp add: popcnt_simps popcnt_zero_iff)
      with x have "x = 2 ^ 0" by simp
      then show ?thesis by blast
    qed
  qed
next
  assume "\<exists>k. x = 2 ^ k"
  then obtain k where "x = 2 ^ k" by blast
  moreover have "popcnt (2 ^ k) = 1"
    by (induction k) (simp_all add: popcnt_double, simp add: popcnt_simps)
  ultimately show "popcnt x = 1" by simp
qed

section \<open>Writing around the end\<close>

definition ring_write :: "bytes \<Rightarrow> nat \<Rightarrow> bytes \<Rightarrow> bytes" where
  "ring_write d start bs =
     (let l = length d - start in
      if length bs + start \<le> length d then put start bs d
      else put 0 (drop l bs) (put start (take l bs) d))"

lemma length_ring_write:
  "start < length d \<Longrightarrow> length bs \<le> length d \<Longrightarrow> length (ring_write d start bs) = length d"
  by (simp add: ring_write_def Let_def length_put)

lemma ring_write_nth:
  assumes "start < length d" "length bs \<le> length d" "j < length d"
  shows "ring_write d start bs ! j =
    (if start \<le> j \<and> j < start + length bs then bs ! (j - start)
     else if j + length d < start + length bs then bs ! (j + length d - start) else d ! j)"
proof (cases "length bs + start \<le> length d")
  case True
  then show ?thesis using assms by (simp add: ring_write_def Let_def nth_put)
next
  case False
  let ?l = "length d - start"
  let ?d1 = "put start (take ?l bs) d"
  have l: "length (take ?l bs) = ?l" using False assms by simp
  have d1: "length ?d1 = length d" using assms l by (simp add: length_put)
  have n1: "?d1 ! j = (if start \<le> j then bs ! (j - start) else d ! j)"
    using assms l by (subst nth_put) (auto simp: nth_take)
  have n2: "put 0 (drop ?l bs) ?d1 ! j = (if j < length bs - ?l then bs ! (?l + j) else ?d1 ! j)"
    using assms False d1 by (subst nth_put) auto
  have "j + length d - start = ?l + j" using assms(1) by simp
  then show ?thesis using False assms n1 n2 by (auto simp: ring_write_def Let_def)
qed

text \<open>The bytes of a ring from one position to another.\<close>

definition ring_read :: "bytes \<Rightarrow> nat \<Rightarrow> nat \<Rightarrow> bytes" where
  "ring_read d pos n = map (\<lambda>i. d ! ((pos + i) mod length d)) [0..<n]"

lemma ring_read_write_same:
  assumes "0 < length d" "length bs \<le> length d"
  shows "ring_read (ring_write d (h mod length d) bs) h (length bs) = bs"
proof (rule nth_equalityI)
  let ?M = "length d" and ?w = "ring_write d (h mod length d) bs"
  have start: "h mod ?M < ?M" using assms(1) by simp
  have lw: "length ?w = ?M" using start assms(2) by (rule length_ring_write)
  fix i assume "i < length (ring_read ?w h (length bs))"
  then have i: "i < length bs" "i < ?M" using assms(2) by (auto simp: ring_read_def)
  have j: "(h + i) mod ?M < ?M" using assms(1) by simp
  note w = ring_write_nth [OF start assms(2) j] and m = mod_step [OF assms(1) i(2), of h]
  have "?w ! ((h + i) mod ?M) = bs ! i"
  proof (cases "h mod ?M + i < ?M")
    case True
    then show ?thesis using w m i by simp
  next
    case False
    then have "\<not> h mod ?M \<le> (h + i) mod ?M" "(h + i) mod ?M + ?M = h mod ?M + i" using m i by simp_all
    then show ?thesis using w i by simp
  qed
  then show "ring_read ?w h (length bs) ! i = bs ! i" using i lw by (simp add: ring_read_def)
qed (simp add: ring_read_def)

lemma ring_read_write_other:
  assumes "0 < length d" "t \<le> h" "h + length bs \<le> t + length d" "0 < length bs"
  shows "ring_read (ring_write d (h mod length d) bs) t (h - t) = ring_read d t (h - t)"
proof (rule nth_equalityI)
  let ?M = "length d" and ?w = "ring_write d (h mod length d) bs"
  have start: "h mod ?M < ?M" using assms(1) by simp
  have bs: "length bs \<le> ?M" using assms(2,3) by simp
  have lw: "length ?w = ?M" using start bs by (rule length_ring_write)
  fix i assume "i < length (ring_read ?w t (h - t))"
  then have i: "i < h - t" by (simp add: ring_read_def)
  define e where "e = h - (t + i)"
  have h: "h = (t + i) + e" and e: "0 < e" "e + length bs \<le> ?M" using i assms(2,3) by (auto simp: e_def)
  have "e < ?M" using e(2) assms(4) by linarith
  note hm = mod_step [OF assms(1) this, of "t + i"]
  have j: "(t + i) mod ?M < ?M" using assms(1) by simp
  have "?w ! ((t + i) mod ?M) = d ! ((t + i) mod ?M)"
    unfolding ring_write_nth [OF start bs j] using e hm h by auto
  then show "ring_read ?w t (h - t) ! i = ring_read d t (h - t) ! i" using i lw by (simp add: ring_read_def)
qed (simp add: ring_read_def)

lemma ring_read_append: "ring_read d p (m + n) = ring_read d p m @ ring_read d (p + m) n"
proof -
  have "[0..<m + n] = [0..<m] @ map (\<lambda>i. i + m) [0..<n]"
    using upt_add_eq_append [of 0 m n] map_add_upt [of m n] by (simp add: add.commute)
  then show ?thesis by (simp add: ring_read_def comp_def ac_simps)
qed

section \<open>Output\<close>

text \<open>The unread part of the buffer, and the record an output of \<open>buf\<close> adds to it.\<close>

definition sp_content :: "software_perf \<Rightarrow> bytes" where
  "sp_content sp = ring_read (sp_data sp) (sp_tail sp) (sp_head sp - sp_tail sp)"

definition perf_record :: "bytes \<Rightarrow> bytes" where
  "perf_record buf = sample_head (length buf) @ buf"

definition sp_inv :: "software_perf \<Rightarrow> bool" where
  "sp_inv sp \<longleftrightarrow> (\<exists>k. sp_mmap_size sp = 2 ^ k) \<and> sp_mmap_size sp < 2 ^ 62 \<and>
     sp_tail sp \<le> sp_head sp \<and> sp_head sp - sp_tail sp < sp_mmap_size sp \<and> sp_head sp < 2 ^ 62"

lemma length_sample_head [simp]: "length (sample_head n) = 12"
  by (simp add: sample_head_def)

lemma sample_hdr_small: "n < 65524 \<Longrightarrow> sample_hdr_size n = 12 + n"
  by (simp add: sample_hdr_size_def)

lemma copy_built:
  assumes "n = length buf" "c = 12 + n"
  shows "bindr (or_fault (wr (resize c xs) 0 (sample_head n))) (\<lambda>copy. or_fault (wr copy 12 buf)) =
    Inr (perf_record buf)"
proof -
  have len: "length (resize c xs) = 12 + n" by (simp add: resize_def assms)
  then have "wr (resize c xs) 0 (sample_head n) = Some (sample_head n @ drop 12 (resize c xs))"
    by (simp add: put_def)
  moreover have "wr (sample_head n @ drop 12 (resize c xs)) 12 buf = Some (sample_head n @ buf)"
    using len assms by (simp add: put_def)
  ultimately show ?thesis by (simp add: perf_record_def assms)
qed

lemma sp_output_eq:
  assumes inv: "sp_inv sp" and n: "length buf < 65524"
  shows "sp_output_data sp buf =
    (if sp_mmap_size sp \<le> sp_head sp - sp_tail sp + (12 + length buf) then Inr sp
     else Inr (sp\<lparr>sp_data := ring_write (sp_data sp) (sp_head sp mod sp_mmap_size sp) (perf_record buf),
       sp_copy := perf_record buf, sp_head := sp_head sp + (12 + length buf)\<rparr>))"
proof -
  let ?M = "sp_mmap_size sp" and ?h = "sp_head sp" and ?t = "sp_tail sp" and ?c = "12 + length buf"
  from inv obtain k where k: "?M = 2 ^ k" by (auto simp: sp_inv_def)
  have b: "?t \<le> ?h" "?h - ?t < ?M" "?h < 2 ^ 62" "?M < 2 ^ 62" using inv by (auto simp: sp_inv_def)
  have avail: "signed_take_bit 63 (int ?M - (int ?h - int ?t)) = int (?M - (?h - ?t))"
  proof -
    have "int ?M - (int ?h - int ?t) = int (?M - (?h - ?t))" using b(1,2) by simp
    moreover have "int (?M - (?h - ?t)) < 2 ^ 63" using b(4) by simp
    ultimately show ?thesis by (simp add: signed_take_bit_int_eq_self)
  qed
  have start: "?h AND (?M + 2 ^ 64 - 1) mod 2 ^ 64 = ?h mod ?M"
  proof -
    have "?M + 2 ^ 64 - 1 = ?M - 1 + 2 ^ 64" using k by simp
    moreover have "?M - 1 < 2 ^ 64" using b(4) by simp
    ultimately have "(?M + 2 ^ 64 - 1) mod 2 ^ 64 = ?M - 1" by (simp only: mod_add_self2 mod_less)
    then show ?thesis using and_exp_minus_1 [of ?h k] k by simp
  qed
  have c: "sample_hdr_size (length buf) = ?c" using n by (rule sample_hdr_small)
  have head: "?c < ?M - (?h - ?t) \<Longrightarrow> (?h + ?c) mod 2 ^ 64 = ?h + ?c" using b by simp
  have sl: "?h mod ?M < ?M" using k by simp
  have lr: "length (perf_record buf) = ?c" by (simp add: perf_record_def)
  have M: "length (sp_data sp) = ?M" by (simp add: sp_mmap_size_def)
  have copy: "bindr (or_fault (wr (resize ?c (sp_copy sp)) 0 (sample_head (length buf)))) (\<lambda>copy.
      bindr (or_fault (wr copy 12 buf)) f) = f (perf_record buf)" for f :: "bytes \<Rightarrow> software_perf res"
    using copy_built [OF refl refl, of buf "sp_copy sp"] by (auto simp: bindr_eq_Inr)
  have store: "(if ?c + ?h mod ?M \<le> ?M then or_fault (wr (sp_data sp) (?h mod ?M) (perf_record buf))
      else bindr (or_fault (wr (sp_data sp) (?h mod ?M) (take (?M - ?h mod ?M) (perf_record buf)))) (\<lambda>d.
        or_fault (wr d 0 (drop (?M - ?h mod ?M) (perf_record buf))))) =
      Inr (ring_write (sp_data sp) (?h mod ?M) (perf_record buf))" if "?c \<le> ?M"
  proof (cases "?c + ?h mod ?M \<le> ?M")
    case True
    then show ?thesis using lr M by (simp add: ring_write_def Let_def)
  next
    case False
    let ?l = "?M - ?h mod ?M"
    have l: "?h mod ?M + length (take ?l (perf_record buf)) \<le> length (sp_data sp)" using sl M by simp
    then have "length (put (?h mod ?M) (take ?l (perf_record buf)) (sp_data sp)) = ?M" using M by (simp add: length_put)
    moreover have "length (drop ?l (perf_record buf)) \<le> ?M"
      unfolding length_drop lr using that by linarith
    ultimately have "wr (put (?h mod ?M) (take ?l (perf_record buf)) (sp_data sp)) 0 (drop ?l (perf_record buf)) =
        Some (put 0 (drop ?l (perf_record buf)) (put (?h mod ?M) (take ?l (perf_record buf)) (sp_data sp)))"
      by (intro wr_in) (simp only: add_0)
    then show ?thesis using False l lr M by (simp add: ring_write_def Let_def)
  qed
  show ?thesis
  proof (cases "?M \<le> ?h - ?t + ?c")
    case True
    then show ?thesis using b(2) by (simp add: sp_output_data_def Let_def avail c)
  next
    case False
    then have "\<not> int (?M - (?h - ?t)) \<le> int ?c" "int (?M - (?h - ?t)) \<noteq> 0" "?c \<le> ?M" by auto
    then show ?thesis
      unfolding sp_output_data_def Let_def avail c start copy store [OF \<open>?c \<le> ?M\<close>]
      using False head by simp
  qed
qed

lemma sp_output_content:
  assumes inv: "sp_inv sp" and n: "length buf < 65524" and far: "sp_head sp + (12 + length buf) < 2 ^ 62"
    and room: "sp_head sp - sp_tail sp + (12 + length buf) < sp_mmap_size sp"
  shows "\<exists>sp'. sp_output_data sp buf = Inr sp' \<and> sp_inv sp' \<and> sp_content sp' = sp_content sp @ perf_record buf \<and>
    sp_head sp' = sp_head sp + (12 + length buf) \<and> sp_tail sp' = sp_tail sp \<and> sp_mmap_size sp' = sp_mmap_size sp"
proof -
  let ?M = "length (sp_data sp)" and ?h = "sp_head sp" and ?t = "sp_tail sp" and ?c = "12 + length buf"
  let ?r = "perf_record buf"
  let ?d = "ring_write (sp_data sp) (?h mod ?M) ?r"
  have lr: "length ?r = ?c" by (simp add: perf_record_def)
  have b: "?t \<le> ?h" "?h - ?t + ?c < ?M" "0 < ?M" using inv room by (auto simp: sp_inv_def sp_mmap_size_def)
  have fit: "length ?r \<le> ?M" "?h + length ?r \<le> ?t + ?M" "0 < length ?r" using b lr by auto
  have len: "length ?d = ?M" using b(3) fit(1) by (intro length_ring_write) simp_all
  have "ring_read ?d ?t (?h + ?c - ?t) = ring_read ?d ?t (?h - ?t + ?c)" using b(1) by simp
  also have "\<dots> = ring_read ?d ?t (?h - ?t) @ ring_read ?d ?h ?c"
    using ring_read_append [of ?d ?t "?h - ?t" ?c] b(1) by simp
  also have "\<dots> = ring_read (sp_data sp) ?t (?h - ?t) @ ?r"
    using ring_read_write_other [OF b(3,1) fit(2,3)] ring_read_write_same [OF b(3) fit(1), of ?h] lr by simp
  finally have "ring_read ?d ?t (?h + ?c - ?t) = sp_content sp @ ?r" by (simp add: sp_content_def)
  moreover have "sp_output_data sp buf = Inr (sp\<lparr>sp_data := ?d, sp_copy := ?r, sp_head := ?h + ?c\<rparr>)"
    using sp_output_eq [OF inv n] room by (simp add: sp_mmap_size_def)
  moreover have "sp_inv (sp\<lparr>sp_data := ?d, sp_copy := ?r, sp_head := ?h + ?c\<rparr>)"
    using inv far b len by (simp add: sp_inv_def sp_mmap_size_def)
  ultimately show ?thesis using len by (simp add: sp_content_def sp_mmap_size_def)
qed

text \<open>C12. Software perf event, output: a sample of less than 65524 bytes is either dropped, with the
  buffer unchanged, exactly when the free space is not larger than its record (a header of 12 bytes and
  the sample), or its record is appended to the unread bytes, with the position of the reader unchanged;
  unread records are never overwritten, also when the record wraps around the end of the buffer, and the
  invariant of the buffer is kept. Positions are below \<open>2 ^ 62\<close>.\<close>

theorem perf_output_appends:
  assumes "sp_inv sp" "length buf < 65524" "sp_head sp + (12 + length buf) < 2 ^ 62"
  shows "\<exists>sp'. sp_output_data sp buf = Inr sp' \<and> sp_inv sp' \<and> sp_tail sp' = sp_tail sp \<and>
    (if sp_head sp - sp_tail sp + (12 + length buf) < sp_mmap_size sp
     then sp_content sp' = sp_content sp @ perf_record buf else sp' = sp)"
proof (cases "sp_head sp - sp_tail sp + (12 + length buf) < sp_mmap_size sp")
  case True
  with sp_output_content [OF assms True] show ?thesis by auto
next
  case False
  with sp_output_eq [OF assms(1,2)] assms(1) show ?thesis by simp
qed

theorem perf_output_appends_witness:
  "(\<exists>sp'. sp_output_data ((software_perf_new 8 0 0 0)\<lparr>sp_data := replicate 16 0, sp_head := 8, sp_tail := 8\<rparr>) [7] = Inr sp' \<and>
    sp_content sp' = perf_record [7]) \<and>
   sp_output_data ((software_perf_new 8 0 0 0)\<lparr>sp_data := replicate 16 0, sp_head := 8, sp_tail := 8\<rparr>) [7, 7, 7, 7] =
     Inr ((software_perf_new 8 0 0 0)\<lparr>sp_data := replicate 16 0, sp_head := 8, sp_tail := 8\<rparr>)"
proof -
  let ?sp = "(software_perf_new 8 0 0 0)\<lparr>sp_data := replicate 16 0, sp_head := 8, sp_tail := 8\<rparr>"
  have "sp_inv ?sp" unfolding sp_inv_def by (auto simp: sp_mmap_size_def software_perf_new_def intro!: exI [of _ 4])
  from perf_output_appends [OF this, of "[7]"] perf_output_appends [OF this, of "[7, 7, 7, 7]"] show ?thesis
    by (auto simp: software_perf_new_def sp_mmap_size_def sp_content_def ring_read_def)
qed

text \<open>Software perf event, oversized sample: from 65524 bytes on the 16-bit size field wraps. The
  free space is compared with the wrapped size, the copy buffer is resized to it, and the sample
  is then copied past the end of the copy buffer.\<close>

theorem perf_output_size_wraps:
  assumes inv: "sp_inv sp" and n: "65524 \<le> length buf" "length buf < 131060" and room: "sp_head sp - sp_tail sp + 65536 \<le> sp_mmap_size sp"
  shows "sp_output_data sp buf = Inl Fault"
proof -
  let ?M = "sp_mmap_size sp" and ?h = "sp_head sp" and ?t = "sp_tail sp"
  have c: "sample_hdr_size (length buf) = length buf - 65524"
    using n mod_less [of "length buf - 65524" 65536] le_mod_geq [of 65536 "12 + length buf"]
    by (simp add: sample_hdr_size_def)
  have b: "?t \<le> ?h" "?h - ?t < ?M" "?M < 2 ^ 62" using inv by (auto simp: sp_inv_def)
  have "int ?M - (int ?h - int ?t) = int (?M - (?h - ?t))" "int (?M - (?h - ?t)) < 2 ^ 63" using b by simp_all
  then have avail: "signed_take_bit 63 (int ?M - (int ?h - int ?t)) = int (?M - (?h - ?t))"
    by (simp add: signed_take_bit_int_eq_self)
  have pass: "\<not> int (?M - (?h - ?t)) \<le> int (length buf - 65524)" "int (?M - (?h - ?t)) \<noteq> 0"
    using room n b(2) by auto
  let ?c = "resize (length buf - 65524) (sp_copy sp)"
  have len: "length ?c = length buf - 65524" by (simp add: resize_def)
  have "bindr (or_fault (wr ?c 0 (sample_head (length buf)))) (\<lambda>copy. bindr (or_fault (wr copy 12 buf)) f) = Inl Fault"
    for f :: "bytes \<Rightarrow> software_perf res"
  proof (cases "wr ?c 0 (sample_head (length buf))")
    case (Some copy)
    then have "length copy = length buf - 65524" using len by (auto simp: wr_def length_put split: if_splits)
    then have "wr copy 12 buf = None" by (simp add: wr_def)
    with Some show ?thesis by simp
  qed simp
  then show ?thesis unfolding sp_output_data_def Let_def avail c using pass by simp
qed

theorem perf_output_size_wraps_witness:
  "sp_output_data ((software_perf_new 8 0 0 0)\<lparr>sp_data := replicate 131072 0\<rparr>) (replicate 65536 0) = Inl Fault"
proof -
  let ?sp = "(software_perf_new 8 0 0 0)\<lparr>sp_data := replicate 131072 0\<rparr>"
  have "sp_inv ?sp" unfolding sp_inv_def by (auto simp: sp_mmap_size_def software_perf_new_def intro!: exI [of _ 17])
  from perf_output_size_wraps [OF this, of "replicate 65536 0"] show ?thesis
    by (simp add: software_perf_new_def sp_mmap_size_def)
qed

text \<open>Software perf event, mapping: the buffer is accepted exactly when the new data size is a
  power of two; but a refused request has grown the buffer already, so the same request repeated
  is accepted.\<close>

theorem perf_mmap_power_of_two:
  assumes "sp_pagesize sp + length (sp_data sp) < n" "sp_ensure_mmap_buffer sp n = (ok, sp')"
  shows "(ok \<longleftrightarrow> (\<exists>k. n - sp_pagesize sp = 2 ^ k)) \<and> sp_mmap_size sp' = n - sp_pagesize sp \<and>
    sp_ensure_mmap_buffer sp' n = (True, sp')"
proof -
  let ?n = "n - sp_pagesize sp"
  have sp': "sp' = sp\<lparr>sp_data := resize ?n (sp_data sp), sp_data_size := ?n\<rparr>" "ok \<longleftrightarrow> popcnt ?n = 1"
    using assms by (auto simp: sp_ensure_mmap_buffer_def Let_def)
  have "length (resize ?n (sp_data sp)) = ?n" using assms(1) by (simp add: resize_def)
  then show ?thesis using sp' assms(1) popcnt_pow2 [of ?n]
    by (simp add: sp_mmap_size_def sp_ensure_mmap_buffer_def)
qed

theorem perf_mmap_power_of_two_witness:
  "\<exists>sp'. sp_ensure_mmap_buffer (software_perf_new 8 0 0 0) 14 = (False, sp') \<and> sp_ensure_mmap_buffer sp' 14 = (True, sp')"
proof -
  obtain ok sp' where e: "sp_ensure_mmap_buffer (software_perf_new 8 0 0 0) 14 = (ok, sp')" by fastforce
  have "\<not> ok" using e by (auto simp: sp_ensure_mmap_buffer_def software_perf_new_def Let_def popcnt_simps)
  with perf_mmap_power_of_two [OF _ e] e show ?thesis by (simp add: software_perf_new_def)
qed

end
