(* ===== verification/Map_Handler.thy ===== *)
theory Map_Handler
  imports Array_Maps Percpu_Array Fd_Arrays Hash_Table Percpu_Hash Lru_Hash_Map Ringbuf Perf_Event
begin

text \<open>
  \<^verbatim>\<open>bpf_map_handler\<close> (src/handler/map_handler.cpp, .hpp): the object behind a map
  descriptor. It selects the implementation from the map type, creates it in the shared memory
  segment under a name, dispatches every operation to it, and destroys it.

  The segment is an explicit store: objects at addresses, and the index of named objects that
  \<^verbatim>\<open>managed_shared_memory::construct\<close> and \<open>destroy\<close> work on. Addresses are never reused, so an
  access through a pointer to a destroyed object is a \<open>Fault\<close>. What lies outside the runtime (the
  kernel behind the kernel-user maps, the operations registered for further map types, the
  behaviour of Boost on a name in use) is a field of the environment \<open>map_env\<close> and works on an
  arbitrary world \<open>'w\<close>. The spin lock around an operation makes it atomic, which is what a function
  on the segment says.
\<close>

section \<open>Map types and attributes\<close>

record bpf_map_attr =
  at_type :: int
  at_key_size :: u32
  at_value_size :: u32
  at_max_ents :: u32
  at_flags :: u64
  at_ifindex :: u32
  at_btf_vmlinux_value_type_id :: u32
  at_btf_id :: u32
  at_btf_key_type_id :: u32
  at_btf_value_type_id :: u32
  at_map_extra :: u64
  at_kernel_bpf_map_id :: u32

definition BPF_MAP_TYPE_HASH :: int where "BPF_MAP_TYPE_HASH = 1"
definition BPF_MAP_TYPE_ARRAY :: int where "BPF_MAP_TYPE_ARRAY = 2"
definition BPF_MAP_TYPE_PROG_ARRAY :: int where "BPF_MAP_TYPE_PROG_ARRAY = 3"
definition BPF_MAP_TYPE_PERF_EVENT_ARRAY :: int where "BPF_MAP_TYPE_PERF_EVENT_ARRAY = 4"
definition BPF_MAP_TYPE_PERCPU_HASH :: int where "BPF_MAP_TYPE_PERCPU_HASH = 5"
definition BPF_MAP_TYPE_PERCPU_ARRAY :: int where "BPF_MAP_TYPE_PERCPU_ARRAY = 6"
definition BPF_MAP_TYPE_LRU_HASH :: int where "BPF_MAP_TYPE_LRU_HASH = 9"
definition BPF_MAP_TYPE_ARRAY_OF_MAPS :: int where "BPF_MAP_TYPE_ARRAY_OF_MAPS = 12"
definition BPF_MAP_TYPE_RINGBUF :: int where "BPF_MAP_TYPE_RINGBUF = 27"
definition KERNEL_USER_MAP_OFFSET :: int where "KERNEL_USER_MAP_OFFSET = 1000"
definition BPF_MAP_TYPE_MAX :: int where "BPF_MAP_TYPE_MAX = 2048"

lemmas map_type_defs = BPF_MAP_TYPE_HASH_def BPF_MAP_TYPE_ARRAY_def BPF_MAP_TYPE_PROG_ARRAY_def
  BPF_MAP_TYPE_PERF_EVENT_ARRAY_def BPF_MAP_TYPE_PERCPU_HASH_def BPF_MAP_TYPE_PERCPU_ARRAY_def
  BPF_MAP_TYPE_LRU_HASH_def BPF_MAP_TYPE_ARRAY_OF_MAPS_def BPF_MAP_TYPE_RINGBUF_def
  KERNEL_USER_MAP_OFFSET_def BPF_MAP_TYPE_MAX_def

datatype ku_kind = KuArray | KuHash | KuPercpuArray | KuPerfEventArray

datatype map_kind =
    KHash | KArray | KRingbuf | KPerfArray | KPercpuArray | KPercpuHash
  | KKernelUser ku_kind | KProgArray | KArrayOfMaps | KLru | KDefault

text \<open>The case labels of the \<^verbatim>\<open>switch (type)\<close> the operations share; \<open>libbpf\<close> is the build option
  \<^verbatim>\<open>BPFTIME_BUILD_WITH_LIBBPF\<close>.\<close>

definition kind_of :: "bool \<Rightarrow> int \<Rightarrow> map_kind" where
  "kind_of libbpf t =
     (if t = BPF_MAP_TYPE_HASH then KHash
      else if t = BPF_MAP_TYPE_ARRAY then KArray
      else if t = BPF_MAP_TYPE_RINGBUF then KRingbuf
      else if t = BPF_MAP_TYPE_PERF_EVENT_ARRAY then KPerfArray
      else if t = BPF_MAP_TYPE_PERCPU_ARRAY then KPercpuArray
      else if t = BPF_MAP_TYPE_PERCPU_HASH then KPercpuHash
      else if libbpf \<and> t = KERNEL_USER_MAP_OFFSET + BPF_MAP_TYPE_ARRAY then KKernelUser KuArray
      else if libbpf \<and> t = KERNEL_USER_MAP_OFFSET + BPF_MAP_TYPE_HASH then KKernelUser KuHash
      else if libbpf \<and> t = KERNEL_USER_MAP_OFFSET + BPF_MAP_TYPE_PERCPU_ARRAY then KKernelUser KuPercpuArray
      else if libbpf \<and> t = KERNEL_USER_MAP_OFFSET + BPF_MAP_TYPE_PERF_EVENT_ARRAY then KKernelUser KuPerfEventArray
      else if libbpf \<and> t = BPF_MAP_TYPE_PROG_ARRAY then KProgArray
      else if t = BPF_MAP_TYPE_ARRAY_OF_MAPS then KArrayOfMaps
      else if t = BPF_MAP_TYPE_LRU_HASH then KLru
      else KDefault)"

text \<open>The labels of \<^verbatim>\<open>map_free\<close>: no case for arrays of maps, and the LRU case sits inside the
  \<^verbatim>\<open>#ifdef\<close>.\<close>

definition free_kind_of :: "bool \<Rightarrow> int \<Rightarrow> map_kind" where
  "free_kind_of libbpf t =
     (case kind_of libbpf t of
        KArrayOfMaps \<Rightarrow> KDefault
      | KLru \<Rightarrow> (if libbpf then KLru else KDefault)
      | k \<Rightarrow> k)"

section \<open>The segment\<close>

datatype map_impl =
    IHash fix_hash_map
  | IArray array_map
  | IRingbuf ringbuf
  | IPerfArray fd_vec
  | IPercpuArray percpu_array
  | IPercpuHash percpu_hash
  | IKernelUser ku_kind u32
  | IProgArray fd_vec
  | IArrayOfMaps array_map
  | ILru lru_map

fun impl_kind :: "map_impl \<Rightarrow> map_kind" where
  "impl_kind (IHash m) = KHash"
| "impl_kind (IArray m) = KArray"
| "impl_kind (IRingbuf m) = KRingbuf"
| "impl_kind (IPerfArray m) = KPerfArray"
| "impl_kind (IPercpuArray m) = KPercpuArray"
| "impl_kind (IPercpuHash m) = KPercpuHash"
| "impl_kind (IKernelUser k i) = KKernelUser k"
| "impl_kind (IProgArray m) = KProgArray"
| "impl_kind (IArrayOfMaps m) = KArrayOfMaps"
| "impl_kind (ILru m) = KLru"

record 'w segment =
  sg_objs :: "nat \<rightharpoonup> map_impl"
  sg_names :: "string \<rightharpoonup> nat"
  sg_perf :: "nat \<rightharpoonup> software_perf"
  sg_fresh :: nat
  sg_world :: 'w

definition segment_new :: "'w \<Rightarrow> 'w segment" where
  "segment_new w = \<lparr>sg_objs = Map.empty, sg_names = Map.empty, sg_perf = Map.empty, sg_fresh = 0, sg_world = w\<rparr>"

definition set_obj :: "nat \<Rightarrow> map_impl \<Rightarrow> 'w segment \<Rightarrow> 'w segment" where
  "set_obj a im sg = sg\<lparr>sg_objs := (sg_objs sg)(a \<mapsto> im)\<rparr>"

section \<open>The environment\<close>

text \<open>The operations of a map type the runtime does not have (\<^verbatim>\<open>bpftime_map_ops\<close>): a null function
  pointer is \<open>None\<close>.\<close>

record 'w map_ops =
  mo_alloc :: "(int \<Rightarrow> string \<Rightarrow> bpf_map_attr \<Rightarrow> 'w \<Rightarrow> int \<times> 'w) option"
  mo_free :: "(int \<Rightarrow> 'w \<Rightarrow> 'w) option"
  mo_lookup :: "(int \<Rightarrow> bytes option \<Rightarrow> bool \<Rightarrow> 'w \<Rightarrow> ptr res \<times> 'w) option"
  mo_update :: "(int \<Rightarrow> bytes option \<Rightarrow> bytes \<Rightarrow> u64 \<Rightarrow> bool \<Rightarrow> 'w \<Rightarrow> int res \<times> 'w) option"
  mo_delete :: "(int \<Rightarrow> bytes option \<Rightarrow> bool \<Rightarrow> 'w \<Rightarrow> int res \<times> 'w) option"
  mo_next :: "(int \<Rightarrow> bytes option \<Rightarrow> bool \<Rightarrow> 'w \<Rightarrow> bytes res \<times> 'w) option"

text \<open>The four classes over kernel maps, by kind and kernel map id.\<close>

record 'w ku_ops =
  ku_new :: "ku_kind \<Rightarrow> u32 \<Rightarrow> 'w \<Rightarrow> unit res \<times> 'w"
  ku_destroy :: "ku_kind \<Rightarrow> u32 \<Rightarrow> 'w \<Rightarrow> 'w"
  ku_lookup :: "ku_kind \<Rightarrow> u32 \<Rightarrow> bytes option \<Rightarrow> 'w \<Rightarrow> ptr res \<times> 'w"
  ku_update :: "ku_kind \<Rightarrow> u32 \<Rightarrow> bytes option \<Rightarrow> bytes \<Rightarrow> u64 \<Rightarrow> 'w \<Rightarrow> int res \<times> 'w"
  ku_delete :: "ku_kind \<Rightarrow> u32 \<Rightarrow> bytes option \<Rightarrow> 'w \<Rightarrow> int res \<times> 'w"
  ku_next :: "ku_kind \<Rightarrow> u32 \<Rightarrow> bytes option \<Rightarrow> 'w \<Rightarrow> bytes res \<times> 'w"

text \<open>\<open>me_dup_throws\<close>: whether constructing an object under a name in use throws or yields null;
  \<open>me_cpu\<close>: the CPU the caller runs on; \<open>me_tbl\<close>: \<^verbatim>\<open>global_map_ops_table\<close>.\<close>

record 'w map_env =
  me_libbpf :: bool
  me_dup_throws :: bool
  me_allow_non_builtin :: bool
  me_place :: placement
  me_ncpu :: u32
  me_cpu :: nat
  me_page :: u32
  me_prog_sys :: "u32 \<Rightarrow> nat \<Rightarrow> int"
  me_obj_info :: "u32 \<Rightarrow> int \<times> u32"
  me_ku :: "'w ku_ops"
  me_tbl :: "int \<Rightarrow> 'w map_ops"

text \<open>Indexing the table with a type outside it reads past the array.\<close>

definition ops_at :: "'w map_env \<Rightarrow> int \<Rightarrow> 'w map_ops res" where
  "ops_at env t = (if 0 \<le> t \<and> t < BPF_MAP_TYPE_MAX then Inr (me_tbl env t) else Inl Fault)"

definition bpftime_register_map_ops :: "int \<Rightarrow> 'w map_ops \<Rightarrow> 'w map_env \<Rightarrow> 'w map_env res" where
  "bpftime_register_map_ops t ops env =
     (if t < 0 \<or> BPF_MAP_TYPE_MAX \<le> t then Inl Silent
      else Inr (env\<lparr>me_tbl := (me_tbl env)(t := ops)\<rparr>))"

section \<open>The handler\<close>

record map_handler =
  mh_attr :: bpf_map_attr
  mh_type :: int
  mh_name :: string
  mh_id :: int
  mh_impl :: "nat option"
  mh_max_entries :: u32
  mh_flags :: u64
  mh_key_size :: u32
  mh_value_size :: u32

text \<open>The constructors. The argument \<open>id\<close> is not stored: the member keeps its initialiser 0.\<close>

definition map_handler_new :: "int \<Rightarrow> string \<Rightarrow> bpf_map_attr \<Rightarrow> map_handler" where
  "map_handler_new ident nm attr =
     \<lparr>mh_attr = attr, mh_type = at_type attr, mh_name = nm, mh_id = 0, mh_impl = None,
      mh_max_entries = at_max_ents attr, mh_flags = at_flags attr,
      mh_key_size = at_key_size attr, mh_value_size = at_value_size attr\<rparr>"

definition get_container_name :: "map_handler \<Rightarrow> string" where
  "get_container_name h = ''ebpf_map_fd_'' @ mh_name h"

definition get_value_size :: "'w map_env \<Rightarrow> map_handler \<Rightarrow> u32" where
  "get_value_size env h =
     (if mh_type h = BPF_MAP_TYPE_PERCPU_ARRAY \<or> mh_type h = BPF_MAP_TYPE_PERCPU_HASH
      then mh_value_size h * me_ncpu env else mh_value_size h)"

text \<open>\<^verbatim>\<open>static_cast<T *>(map_impl_ptr.get())\<close> and the use of the result: a null pointer, a pointer to a
  destroyed object or an object of another class is a \<open>Fault\<close>.\<close>

definition impl_at :: "'w map_env \<Rightarrow> map_handler \<Rightarrow> 'w segment \<Rightarrow> (nat \<times> map_impl) res" where
  "impl_at env h sg =
     (case mh_impl h of None \<Rightarrow> Inl Fault
      | Some a \<Rightarrow> (case sg_objs sg a of None \<Rightarrow> Inl Fault
          | Some im \<Rightarrow> if impl_kind im = kind_of (me_libbpf env) (mh_type h) then Inr (a, im) else Inl Fault))"

definition try_get_ringbuf_map_impl :: "map_handler \<Rightarrow> nat option option" where
  "try_get_ringbuf_map_impl h = (if mh_type h \<noteq> BPF_MAP_TYPE_RINGBUF then None else Some (mh_impl h))"

definition try_get_array_map_impl :: "map_handler \<Rightarrow> nat option option" where
  "try_get_array_map_impl h = (if mh_type h \<noteq> BPF_MAP_TYPE_ARRAY then None else Some (mh_impl h))"

text \<open>The results of the three kinds of call on an object: one that does not change it, one that
  returns the changed object, and one that runs outside.\<close>

definition pure_call :: "'a res \<Rightarrow> 'w segment \<Rightarrow> 'a res \<times> 'w segment" where
  "pure_call r sg = (r, sg)"

definition store_call :: "nat \<Rightarrow> ('m \<Rightarrow> map_impl) \<Rightarrow> 'm res \<Rightarrow> 'w segment \<Rightarrow> int res \<times> 'w segment" where
  "store_call a wrap r sg = (case r of Inl e \<Rightarrow> (Inl e, sg) | Inr m \<Rightarrow> (Inr 0, set_obj a (wrap m) sg))"

definition world_call :: "('w \<Rightarrow> 'a \<times> 'w) \<Rightarrow> 'w segment \<Rightarrow> 'a \<times> 'w segment" where
  "world_call f sg = (let (r, w) = f (sg_world sg) in (r, sg\<lparr>sg_world := w\<rparr>))"

section \<open>map_lookup_elem\<close>

definition impl_lookup ::
  "'w map_env \<Rightarrow> nat \<Rightarrow> map_impl \<Rightarrow> bytes option \<Rightarrow> bool \<Rightarrow> 'w segment \<Rightarrow> ptr res \<times> 'w segment" where
  "impl_lookup env a im key from_syscall sg =
     (case im of
        IHash m \<Rightarrow> pure_call (bindr (or_fault key) (fh_elem_lookup m)) sg
      | IArray m \<Rightarrow> pure_call (bindr (or_fault key) (am_elem_lookup m)) sg
      | IRingbuf m \<Rightarrow> pure_call (rb_elem_lookup m []) sg
      | IPerfArray m \<Rightarrow> pure_call (bindr (or_fault key) (pe_elem_lookup m)) sg
      | IPercpuArray m \<Rightarrow> pure_call (if from_syscall then pa_elem_lookup_userspace m key
            else pa_elem_lookup m (me_cpu env) key) sg
      | IPercpuHash m \<Rightarrow> pure_call (if from_syscall then ph_elem_lookup_userspace m key
            else ph_elem_lookup m (me_cpu env) key) sg
      | IKernelUser k i \<Rightarrow> world_call (ku_lookup (me_ku env) k i key) sg
      | IProgArray m \<Rightarrow> pure_call (bindr (or_fault key) (pr_elem_lookup (me_prog_sys env) m)) sg
      | IArrayOfMaps m \<Rightarrow> pure_call (bindr (or_fault key) (mm_elem_lookup m)) sg
      | ILru m \<Rightarrow> (case bindr (or_fault key) (lru_elem_lookup m) of
            Inl e \<Rightarrow> (Inl e, sg) | Inr (p, m') \<Rightarrow> (Inr p, set_obj a (ILru m') sg)))"

definition map_lookup_elem ::
  "'w map_env \<Rightarrow> map_handler \<Rightarrow> bytes option \<Rightarrow> bool \<Rightarrow> 'w segment \<Rightarrow> ptr res \<times> 'w segment" where
  "map_lookup_elem env h key from_syscall sg =
     (if kind_of (me_libbpf env) (mh_type h) = KDefault then
        (case ops_at env (mh_type h) of Inl e \<Rightarrow> (Inl e, sg)
         | Inr ops \<Rightarrow> (case mo_lookup ops of
             Some f \<Rightarrow> world_call (f (mh_id h) key from_syscall) sg
           | None \<Rightarrow> (Inl Silent, sg)))
      else (case impl_at env h sg of Inl e \<Rightarrow> (Inl e, sg)
        | Inr (a, im) \<Rightarrow> impl_lookup env a im key from_syscall sg))"

section \<open>map_update_elem\<close>

definition impl_update ::
  "'w map_env \<Rightarrow> nat \<Rightarrow> map_impl \<Rightarrow> bytes option \<Rightarrow> bytes \<Rightarrow> u64 \<Rightarrow> bool \<Rightarrow> 'w segment \<Rightarrow> int res \<times> 'w segment" where
  "impl_update env a im key val flags from_syscall sg =
     (case im of
        IHash m \<Rightarrow> store_call a IHash (bindr (or_fault key) (\<lambda>k. fh_elem_update m k val flags)) sg
      | IArray m \<Rightarrow> store_call a IArray (bindr (or_fault key) (\<lambda>k. am_elem_update m k val flags)) sg
      | IRingbuf m \<Rightarrow> store_call a IRingbuf (rb_elem_update m [] val flags) sg
      | IPerfArray m \<Rightarrow> store_call a IPerfArray (bindr (or_fault key) (\<lambda>k. pe_elem_update m k val flags)) sg
      | IPercpuArray m \<Rightarrow> store_call a IPercpuArray (if from_syscall
            then pa_elem_update_userspace m key val flags else pa_elem_update m (me_cpu env) key val flags) sg
      | IPercpuHash m \<Rightarrow> store_call a IPercpuHash (bindr (or_fault key) (\<lambda>k. if from_syscall
            then ph_elem_update_userspace (me_place env) m k val flags
            else ph_elem_update (me_place env) m (me_cpu env) k val flags)) sg
      | IKernelUser k i \<Rightarrow> world_call (ku_update (me_ku env) k i key val flags) sg
      | IProgArray m \<Rightarrow>
          store_call a IProgArray (bindr (or_fault key) (\<lambda>k. pr_elem_update (me_obj_info env) m k val flags)) sg
      | IArrayOfMaps m \<Rightarrow> store_call a IArrayOfMaps (bindr (or_fault key) (\<lambda>k. am_elem_update m k val flags)) sg
      | ILru m \<Rightarrow> store_call a ILru (bindr (or_fault key) (\<lambda>k. lru_elem_update (me_place env) m k val flags)) sg)"

definition map_update_elem ::
  "'w map_env \<Rightarrow> map_handler \<Rightarrow> bytes option \<Rightarrow> bytes \<Rightarrow> u64 \<Rightarrow> bool \<Rightarrow> 'w segment \<Rightarrow> int res \<times> 'w segment" where
  "map_update_elem env h key val flags from_syscall sg =
     (if kind_of (me_libbpf env) (mh_type h) = KDefault then
        (case ops_at env (mh_type h) of Inl e \<Rightarrow> (Inl e, sg)
         | Inr ops \<Rightarrow> (case mo_update ops of
             Some f \<Rightarrow> world_call (f (mh_id h) key val flags from_syscall) sg
           | None \<Rightarrow> (Inl Silent, sg)))
      else if kind_of (me_libbpf env) (mh_type h) = KArrayOfMaps \<and> \<not> from_syscall then (Inl (NegErrno EINVAL), sg)
      else (case impl_at env h sg of Inl e \<Rightarrow> (Inl e, sg)
        | Inr (a, im) \<Rightarrow> impl_update env a im key val flags from_syscall sg))"

section \<open>bpf_map_get_next_key\<close>

definition impl_next ::
  "'w map_env \<Rightarrow> map_impl \<Rightarrow> bytes option \<Rightarrow> 'w segment \<Rightarrow> bytes res \<times> 'w segment" where
  "impl_next env im key sg =
     (case im of
        IHash m \<Rightarrow> pure_call (fh_get_next_key m key False) sg
      | IArray m \<Rightarrow> pure_call (am_get_next_key m key) sg
      | IRingbuf m \<Rightarrow> pure_call (rb_get_next_key m key) sg
      | IPerfArray m \<Rightarrow> pure_call (pe_get_next_key m key) sg
      | IPercpuArray m \<Rightarrow> pure_call (pa_get_next_key m key) sg
      | IPercpuHash m \<Rightarrow> pure_call (ph_get_next_key m key) sg
      | IKernelUser k i \<Rightarrow> world_call (ku_next (me_ku env) k i key) sg
      | IProgArray m \<Rightarrow> pure_call (pr_get_next_key m key) sg
      | IArrayOfMaps m \<Rightarrow> pure_call (am_get_next_key m key) sg
      | ILru m \<Rightarrow> pure_call (lru_get_next_key m key) sg)"

definition bpf_map_get_next_key ::
  "'w map_env \<Rightarrow> map_handler \<Rightarrow> bytes option \<Rightarrow> bool \<Rightarrow> 'w segment \<Rightarrow> bytes res \<times> 'w segment" where
  "bpf_map_get_next_key env h key from_syscall sg =
     (if kind_of (me_libbpf env) (mh_type h) = KDefault then
        (case ops_at env (mh_type h) of Inl e \<Rightarrow> (Inl e, sg)
         | Inr ops \<Rightarrow> (case mo_next ops of
             Some f \<Rightarrow> world_call (f (mh_id h) key from_syscall) sg
           | None \<Rightarrow> (Inl Silent, sg)))
      else (case impl_at env h sg of Inl e \<Rightarrow> (Inl e, sg)
        | Inr (a, im) \<Rightarrow> impl_next env im key sg))"

section \<open>map_delete_elem\<close>

definition impl_delete ::
  "'w map_env \<Rightarrow> nat \<Rightarrow> map_impl \<Rightarrow> bytes option \<Rightarrow> bool \<Rightarrow> 'w segment \<Rightarrow> int res \<times> 'w segment" where
  "impl_delete env a im key from_syscall sg =
     (case im of
        IHash m \<Rightarrow> store_call a IHash (bindr (or_fault key) (fh_elem_delete m)) sg
      | IArray m \<Rightarrow> store_call a IArray (bindr (or_fault key) (am_elem_delete m)) sg
      | IRingbuf m \<Rightarrow> store_call a IRingbuf (rb_elem_delete m []) sg
      | IPerfArray m \<Rightarrow> store_call a IPerfArray (bindr (or_fault key) (pe_elem_delete m)) sg
      | IPercpuArray m \<Rightarrow> store_call a IPercpuArray (if from_syscall
            then pa_elem_delete_userspace m key else pa_elem_delete m key) sg
      | IPercpuHash m \<Rightarrow> store_call a IPercpuHash (bindr (or_fault key) (\<lambda>k. if from_syscall
            then ph_elem_delete_userspace m k else ph_elem_delete (me_place env) m (me_cpu env) k)) sg
      | IKernelUser k i \<Rightarrow> world_call (ku_delete (me_ku env) k i key) sg
      | IProgArray m \<Rightarrow> store_call a IProgArray (bindr (or_fault key) (pr_elem_delete m)) sg
      | IArrayOfMaps m \<Rightarrow> store_call a IArrayOfMaps (bindr (or_fault key) (am_elem_delete m)) sg
      | ILru m \<Rightarrow> store_call a ILru (bindr (or_fault key) (lru_elem_delete m)) sg)"

definition map_delete_elem ::
  "'w map_env \<Rightarrow> map_handler \<Rightarrow> bytes option \<Rightarrow> bool \<Rightarrow> 'w segment \<Rightarrow> int res \<times> 'w segment" where
  "map_delete_elem env h key from_syscall sg =
     (if kind_of (me_libbpf env) (mh_type h) = KDefault then
        (case ops_at env (mh_type h) of Inl e \<Rightarrow> (Inl e, sg)
         | Inr ops \<Rightarrow> (case mo_delete ops of
             Some f \<Rightarrow> world_call (f (mh_id h) key from_syscall) sg
           | None \<Rightarrow> (Inl Silent, sg)))
      else if kind_of (me_libbpf env) (mh_type h) = KArrayOfMaps \<and> \<not> from_syscall then (Inl (NegErrno EINVAL), sg)
      else (case impl_at env h sg of Inl e \<Rightarrow> (Inl e, sg)
        | Inr (a, im) \<Rightarrow> impl_delete env a im key from_syscall sg))"

section \<open>map_init\<close>

text \<open>\<^verbatim>\<open>memory.construct<T>(name)(args)\<close>: the name is entered first, and removed again when the
  constructor throws.\<close>

definition construct ::
  "'w map_env \<Rightarrow> string \<Rightarrow> ('w segment \<Rightarrow> map_impl res \<times> 'w segment) \<Rightarrow> 'w segment \<Rightarrow> nat option res \<times> 'w segment" where
  "construct env nm mk sg =
     (if sg_names sg nm \<noteq> None then (if me_dup_throws env then Inl Throw else Inr None, sg)
      else (case mk sg of (Inl e, sg) \<Rightarrow> (Inl e, sg)
        | (Inr im, sg) \<Rightarrow> (Inr (Some (sg_fresh sg)),
            sg\<lparr>sg_objs := (sg_objs sg)(sg_fresh sg \<mapsto> im), sg_names := (sg_names sg)(nm \<mapsto> sg_fresh sg),
               sg_fresh := sg_fresh sg + 1\<rparr>)))"

definition ku_construct :: "'w map_env \<Rightarrow> ku_kind \<Rightarrow> u32 \<Rightarrow> 'w segment \<Rightarrow> map_impl res \<times> 'w segment" where
  "ku_construct env k ident sg =
     (let (r, sg) = world_call (ku_new (me_ku env) k ident) sg in (bindr r (\<lambda>_. Inr (IKernelUser k ident)), sg))"

definition new_impl :: "'w map_env \<Rightarrow> map_handler \<Rightarrow> 'w segment \<Rightarrow> map_impl res \<times> 'w segment" where
  "new_impl env h sg =
     (case kind_of (me_libbpf env) (mh_type h) of
        KHash \<Rightarrow> pure_call (Inr (IHash (fix_hash_map_new (mh_max_entries h) (mh_key_size h) (mh_value_size h)))) sg
      | KArray \<Rightarrow> pure_call (Inr (IArray (array_map_new (mh_value_size h) (mh_max_entries h)))) sg
      | KRingbuf \<Rightarrow> pure_call (bindr (ringbuf_new (mh_max_entries h) (me_page env)) (\<lambda>m. Inr (IRingbuf m))) sg
      | KPerfArray \<Rightarrow> pure_call (bindr
          (perf_event_array_new (mh_key_size h) (mh_value_size h) (mh_max_entries h)) (\<lambda>m. Inr (IPerfArray m))) sg
      | KPercpuArray \<Rightarrow>
          pure_call (Inr (IPercpuArray (percpu_array_new (mh_value_size h) (mh_max_entries h) (me_ncpu env)))) sg
      | KPercpuHash \<Rightarrow> pure_call (Inr (IPercpuHash
          (percpu_hash_new (mh_key_size h) (mh_value_size h) (mh_max_entries h) (me_ncpu env)))) sg
      | KKernelUser k \<Rightarrow> ku_construct env k (at_kernel_bpf_map_id (mh_attr h)) sg
      | KProgArray \<Rightarrow> pure_call (bindr
          (prog_array_new (mh_key_size h) (mh_value_size h) (mh_max_entries h)) (\<lambda>m. Inr (IProgArray m))) sg
      | KArrayOfMaps \<Rightarrow> pure_call (Inr (IArrayOfMaps (array_of_maps_new (mh_max_entries h)))) sg
      | KLru \<Rightarrow> pure_call (Inr (ILru
          (lru_map_new (unat (mh_key_size h)) (unat (mh_value_size h)) (unat (mh_max_entries h))))) sg
      | KDefault \<Rightarrow> (Inl Fault, sg))"

text \<open>\<^verbatim>\<open>map_init\<close> returns its result, the handler with its pointer set, and the segment.\<close>

definition map_init :: "'w map_env \<Rightarrow> map_handler \<Rightarrow> 'w segment \<Rightarrow> int res \<times> map_handler \<times> 'w segment" where
  "map_init env h sg =
     (let k = kind_of (me_libbpf env) (mh_type h) in
      if k = KRingbuf \<and> popcnt (unat (mh_max_entries h)) \<noteq> 1 then (Inl Silent, h, sg)
      else if k = KDefault then
        (if me_allow_non_builtin env then
           let h = h\<lparr>mh_impl := None\<rparr> in
           (case ops_at env (mh_type h) of Inl e \<Rightarrow> (Inl e, h, sg)
            | Inr ops \<Rightarrow> (case mo_alloc ops of
                Some f \<Rightarrow> (let (r, sg) = world_call (f (mh_id h) (mh_name h) (mh_attr h)) sg in (Inr r, h, sg))
              | None \<Rightarrow> (Inr 0, h, sg)))
         else (Inl Silent, h, sg))
      else (case construct env (get_container_name h) (new_impl env h) sg of
          (Inl e, sg) \<Rightarrow> (Inl e, h, sg)
        | (Inr p, sg) \<Rightarrow> (Inr 0, h\<lparr>mh_impl := p\<rparr>, sg)))"

section \<open>map_free\<close>

text \<open>\<^verbatim>\<open>memory.destroy<T>(name)\<close> runs the destructor of \<^verbatim>\<open>T\<close> on whatever has that name, and does
  nothing for an unknown name. The kernel-user classes close their descriptors.\<close>

definition destroy_named :: "'w map_env \<Rightarrow> map_kind \<Rightarrow> string \<Rightarrow> 'w segment \<Rightarrow> unit res \<times> 'w segment" where
  "destroy_named env k nm sg =
     (case sg_names sg nm of None \<Rightarrow> (Inr (), sg)
      | Some a \<Rightarrow>
          (case sg_objs sg a of None \<Rightarrow> (Inl Fault, sg)
           | Some im \<Rightarrow>
               if impl_kind im \<noteq> k then (Inl Fault, sg)
               else (Inr (),
                 sg\<lparr>sg_objs := (sg_objs sg)(a := None), sg_names := (sg_names sg)(nm := None),
                    sg_world := (case im of IKernelUser ku i \<Rightarrow> ku_destroy (me_ku env) ku i (sg_world sg)
                      | _ \<Rightarrow> sg_world sg)\<rparr>)))"

definition map_free :: "'w map_env \<Rightarrow> map_handler \<Rightarrow> 'w segment \<Rightarrow> unit res \<times> map_handler \<times> 'w segment" where
  "map_free env h sg =
     (let k = free_kind_of (me_libbpf env) (mh_type h);
          (r, sg) =
            (if k = KDefault then
               (case ops_at env (mh_type h) of Inl e \<Rightarrow> (Inl e, sg)
                | Inr ops \<Rightarrow> (case mo_free ops of
                    Some f \<Rightarrow> (Inr (), sg\<lparr>sg_world := f (mh_id h) (sg_world sg)\<rparr>)
                  | None \<Rightarrow> (Inr (), sg)))
             else destroy_named env k (get_container_name h) sg)
      in (r, h\<lparr>mh_impl := None\<rparr>, sg))"

section \<open>A concrete environment\<close>

text \<open>No operations registered, kernel calls that fail, two CPUs and pages of 4096 bytes: an
  environment to evaluate the definitions in.\<close>

definition no_ops :: "'w map_ops" where
  "no_ops = \<lparr>mo_alloc = None, mo_free = None, mo_lookup = None, mo_update = None, mo_delete = None, mo_next = None\<rparr>"

definition no_kernel :: "'w ku_ops" where
  "no_kernel = \<lparr>ku_new = \<lambda>k i w. (Inr (), w), ku_destroy = \<lambda>k i w. w,
     ku_lookup = \<lambda>k i key w. (Inl (Errno ENOENT), w), ku_update = \<lambda>k i key val f w. (Inl (Errno ENOENT), w),
     ku_delete = \<lambda>k i key w. (Inl (Errno ENOENT), w), ku_next = \<lambda>k i key w. (Inl (Errno ENOENT), w)\<rparr>"

definition plain_env :: "unit map_env" where
  "plain_env = \<lparr>me_libbpf = True, me_dup_throws = False, me_allow_non_builtin = False,
     me_place = (\<lambda>ks k. k # ks), me_ncpu = 2, me_cpu = 1, me_page = 4096, me_prog_sys = (\<lambda>i n. - 1),
     me_obj_info = (\<lambda>i. (- 1, 0)), me_ku = no_kernel, me_tbl = (\<lambda>t. no_ops)\<rparr>"

definition plain_attr :: "int \<Rightarrow> u32 \<Rightarrow> u32 \<Rightarrow> u32 \<Rightarrow> bpf_map_attr" where
  "plain_attr t ks vs n =
     \<lparr>at_type = t, at_key_size = ks, at_value_size = vs, at_max_ents = n, at_flags = 0, at_ifindex = 0,
      at_btf_vmlinux_value_type_id = 0, at_btf_id = 0, at_btf_key_type_id = 0, at_btf_value_type_id = 0,
      at_map_extra = 0, at_kernel_bpf_map_id = 0\<rparr>"

lemmas plain_defs = no_ops_def no_kernel_def plain_env_def plain_attr_def segment_new_def

end
