(* ===== verification/Map_Safety.thy ===== *)
theory Map_Safety
  imports Map_Handler
begin

text \<open>
  Memory safety of the maps behind descriptors. The interface \<open>safe_map\<close> says of a map class that
  calls with buffers of the right size never leave the memory of the object and keep its invariant;
  every class of src/bpf_map/userspace is an interpretation of it. The dispatch of
  \<^verbatim>\<open>bpf_map_handler\<close> inherits it, so any sequence of calls on any set of handlers with
  objects of their own is free of faults, but for one lookup of an array of maps (\<open>map_calls_memory_safe\<close>), and \<^verbatim>\<open>map_init\<close> creates such
  objects (\<open>map_init_establishes\<close>). The last section shows what breaks this: two maps of one name, and
  a map type outside the table of operations.
\<close>

section \<open>Interface: a map class that stays inside its memory\<close>

definition safe :: "('a \<Rightarrow> bool) \<Rightarrow> 'a res \<Rightarrow> bool" where
  "safe P r \<longleftrightarrow> (case r of Inl e \<Rightarrow> e \<noteq> Fault \<and> e \<noteq> Throw | Inr x \<Rightarrow> P x)"

lemma safe_simps [simp]: "safe P (Inl e) \<longleftrightarrow> e \<noteq> Fault \<and> e \<noteq> Throw" "safe P (Inr x) \<longleftrightarrow> P x"
  by (simp_all add: safe_def)

lemma safe_bindr: "safe Q m \<Longrightarrow> (\<And>x. Q x \<Longrightarrow> safe P (f x)) \<Longrightarrow> safe P (bindr m f)"
  by (cases m) auto






section \<open>The classes\<close>


definition fh_ok :: "nat \<Rightarrow> nat \<Rightarrow> fix_hash_map \<Rightarrow> bool" where
  "fh_ok ks vs m \<longleftrightarrow> ht_wf (fh_map_impl m) \<and> ht_key_size (fh_map_impl m) = ks \<and> ht_value_size (fh_map_impl m) = vs"


definition am_ok :: "u32 \<Rightarrow> nat \<Rightarrow> array_map \<Rightarrow> bool" where
  "am_ok n vs m \<longleftrightarrow> am_inv m \<and> am_max_entries m = n \<and> unat (am_value_size m) = vs"







definition pa_ok :: "nat \<Rightarrow> nat \<Rightarrow> percpu_array \<Rightarrow> bool" where
  "pa_ok nc vs m \<longleftrightarrow> pa_inv m \<and> unat (pa_ncpu m) = nc \<and> unat (pa_value_size m) = vs \<and> nc * vs < 2 ^ 32"




definition ph_ok :: "nat \<Rightarrow> nat \<Rightarrow> nat \<Rightarrow> percpu_hash \<Rightarrow> bool" where
  "ph_ok nc ks vs m \<longleftrightarrow> ph_inv m \<and> 0 < nc \<and> unat (ph_ncpu m) = nc \<and> unat (ph_key_size m) = ks \<and>
     unat (ph_value_size m) = vs"





definition lru_ok :: "nat \<Rightarrow> nat \<Rightarrow> lru_map \<Rightarrow> bool" where
  "lru_ok ks vs m \<longleftrightarrow> lru_inv m \<and> 0 < lm_max_entries m \<and> lm_key_size m = ks \<and> lm_value_size m = vs"




section \<open>The dispatch\<close>

text \<open>The object of a handler is of the class its type asks for, in its invariant, and of the sizes
  the handler has. The kernel-user classes are outside: their calls go to the kernel.\<close>

definition impl_safe :: "'w map_env \<Rightarrow> map_handler \<Rightarrow> map_impl \<Rightarrow> bool" where
  "impl_safe env h im =
     (let ks = unat (mh_key_size h); vs = unat (mh_value_size h); nc = unat (me_ncpu env) in
      case im of
        IHash m \<Rightarrow> fh_ok ks vs m
      | IArray m \<Rightarrow> ks = 4 \<and> am_ok (mh_max_entries h) vs m
      | IRingbuf m \<Rightarrow> True
      | IPerfArray m \<Rightarrow> ks = 4 \<and> vs = 4
      | IPercpuArray m \<Rightarrow> ks = 4 \<and> pa_ok nc vs m
      | IPercpuHash m \<Rightarrow> ph_ok nc ks vs m
      | IKernelUser k i \<Rightarrow> False
      | IProgArray m \<Rightarrow> ks = 4 \<and> vs = 4
      | IArrayOfMaps m \<Rightarrow> ks = 4 \<and> vs = 4 \<and> am_ok (mh_max_entries h) 4 m
      | ILru m \<Rightarrow> lru_ok ks vs m)"

definition handler_ok :: "'w map_env \<Rightarrow> map_handler \<Rightarrow> 'w segment \<Rightarrow> bool" where
  "handler_ok env h sg \<longleftrightarrow> (\<exists>a im. impl_at env h sg = Inr (a, im) \<and> impl_safe env h im)"


datatype map_call = CLookup bytes bool | CUpdate bytes bytes u64 bool | CDelete bytes bool


text \<open>The buffers of a call: the key has the key size of the map; the value has the value size, for
  system calls on per-CPU maps once for every CPU.\<close>

definition call_sized :: "'w map_env \<Rightarrow> map_handler \<Rightarrow> map_call \<Rightarrow> bool" where
  "call_sized env h c = (case c of
     CLookup k sys \<Rightarrow> length k = unat (mh_key_size h)
   | CUpdate k v f sys \<Rightarrow> length k = unat (mh_key_size h) \<and>
       length v = unat (if sys then get_value_size env h else mh_value_size h)
   | CDelete k sys \<Rightarrow> length k = unat (mh_key_size h))"












section \<open>Sequences of calls\<close>



lemma impl_at_Inr:
  "impl_at env h sg = Inr (a, im) \<Longrightarrow>
     mh_impl h = Some a \<and> sg_objs sg a = Some im \<and> impl_kind im = kind_of (me_libbpf env) (mh_type h)"
  by (auto simp: impl_at_def split: option.splits if_splits)

lemma kind_of_impl: "impl_kind im = kind_of l t \<Longrightarrow> kind_of l t \<noteq> KDefault"
  by (cases im) auto






lemma handler_ok_cpu [simp]: "handler_ok (env\<lparr>me_cpu := cpu\<rparr>) h sg = handler_ok env h sg"
proof -
  have "impl_at (env\<lparr>me_cpu := cpu\<rparr>) h sg = impl_at env h sg" by (simp add: impl_at_def split: option.split)
  moreover have "impl_safe (env\<lparr>me_cpu := cpu\<rparr>) h im = impl_safe env h im" for im by (simp add: impl_safe_def)
  ultimately show ?thesis by (simp add: handler_ok_def)
qed

lemma call_sized_cpu [simp]: "call_sized (env\<lparr>me_cpu := cpu\<rparr>) h c = call_sized env h c"
  by (cases c) (simp_all add: call_sized_def get_value_size_def)


definition two_slots :: map_handler where
  "two_slots = (map_handler_new 3 ''m'' (plain_attr BPF_MAP_TYPE_ARRAY 4 1 2))\<lparr>mh_impl := Some 0\<rparr>"

definition two_slots_segment :: "unit segment" where
  "two_slots_segment = (segment_new ())\<lparr>sg_objs := [0 \<mapsto> IArray (array_map_new 1 2)]\<rparr>"


section \<open>map_init\<close>

text \<open>The sizes of a new map that do not wrap in the constructor of its class.\<close>

definition sizes_fit :: "'w map_env \<Rightarrow> map_handler \<Rightarrow> bool" where
  "sizes_fit env h =
     (let ks = unat (mh_key_size h); vs = unat (mh_value_size h); n = unat (mh_max_entries h); nc = unat (me_ncpu env) in
      case kind_of (me_libbpf env) (mh_type h) of
        KHash \<Rightarrow> True
      | KArray \<Rightarrow> ks = 4 \<and> 0 < vs \<and> vs * n < 2 ^ 32
      | KRingbuf \<Rightarrow> (\<exists>k \<le> 30. n = 2 ^ k)
      | KPerfArray \<Rightarrow> ks = 4 \<and> vs = 4
      | KPercpuArray \<Rightarrow> ks = 4 \<and> 0 < vs \<and> n * nc * vs < 2 ^ 32 \<and> nc * vs < 2 ^ 32
      | KPercpuHash \<Rightarrow> 0 < vs \<and> nc * vs < 2 ^ 32
      | KKernelUser k \<Rightarrow> False
      | KProgArray \<Rightarrow> ks = 4 \<and> vs = 4
      | KArrayOfMaps \<Rightarrow> ks = 4 \<and> vs = 4 \<and> 4 * n < 2 ^ 32
      | KLru \<Rightarrow> 0 < n
      | KDefault \<Rightarrow> False)"

lemma unat_eq_4: "unat (x :: u32) = 4 \<longleftrightarrow> x = 4"
proof -
  have "unat (4 :: u32) = 4" by simp
  then show ?thesis by (metis word_unat_eq_iff)
qed

lemma ringbuf_new_ok:
  assumes "unat n = 2 ^ k" "k \<le> 30" "8 \<le> page" "unat page \<le> 2 ^ 16"
  shows "\<exists>rb. ringbuf_new n page = Inr rb"
proof -
  have "unat (page * 2 + n * 2) = 2 * unat page + 2 * 2 ^ k"
  proof -
    have "2 ^ k \<le> (2 :: nat) ^ 30" using assms(2) by (intro power_increasing) auto
    then have lt: "unat page * 2 + unat n * 2 < 2 ^ 32" using assms by simp
    then have "unat (page * 2) = unat page * 2" "unat (n * 2) = unat n * 2"
      using unat_mult_nowrap [of page 2] unat_mult_nowrap [of n 2] by simp_all
    with lt show ?thesis using assms(1) by (simp add: unat_word_ariths)
  qed
  with assms show ?thesis by (auto simp: ringbuf_new_def Let_def not_le)
qed

lemma new_objects_ok:
  "fh_ok (unat ks) (unat vs) (fix_hash_map_new n ks vs)"
  "0 < unat vs \<Longrightarrow> unat vs * unat n < 2 ^ 32 \<Longrightarrow> am_ok n (unat vs) (array_map_new vs n)"
  "0 < unat vs \<Longrightarrow> 0 < nc \<Longrightarrow> unat n * unat nc * unat vs < 2 ^ 32 \<Longrightarrow> unat nc * unat vs < 2 ^ 32 \<Longrightarrow>
     pa_ok (unat nc) (unat vs) (percpu_array_new vs n nc)"
  "0 < unat vs \<Longrightarrow> 0 < nc \<Longrightarrow> unat nc * unat vs < 2 ^ 32 \<Longrightarrow>
     ph_ok (unat nc) (unat ks) (unat vs) (percpu_hash_new ks vs n nc)"
  "0 < unat n \<Longrightarrow> lru_ok (unat ks) (unat vs) (lru_map_new (unat ks) (unat vs) (unat n))"
proof (goal_cases)
  case 1
  then show ?case using ht_wf_new by (simp add: fh_ok_def fix_hash_map_new_def) (simp add: hash_table_new_def)
next
  case 2
  then show ?case using am_inv_new [of vs n] by (simp add: am_ok_def word_less_nat_alt) (simp add: array_map_new_def)
next
  case 3
  then show ?case using pa_inv_new [of vs nc n]
    by (simp add: pa_ok_def word_less_nat_alt) (simp add: percpu_array_new_def)
next
  case 4
  then show ?case using ph_inv_new [of vs nc ks n]
    by (simp add: ph_ok_def word_less_nat_alt) (simp add: percpu_hash_new_def)
next
  case 5
  then show ?case using lru_rel_new by (auto simp: lru_ok_def lru_inv_def) (simp_all add: lru_map_new_def)
qed

lemma new_impl_ok:
  assumes "sizes_fit env h" "0 < me_ncpu env" "8 \<le> me_page env" "unat (me_page env) \<le> 2 ^ 16"
  shows "\<exists>im. new_impl env h sg = (Inr im, sg) \<and> impl_safe env h im \<and>
    impl_kind im = kind_of (me_libbpf env) (mh_type h)"
proof (cases "kind_of (me_libbpf env) (mh_type h)")
  case KRingbuf
  then obtain k where "unat (mh_max_entries h) = 2 ^ k" "k \<le> 30" using assms(1) by (auto simp: sizes_fit_def Let_def)
  from ringbuf_new_ok [OF this assms(3,4)] KRingbuf show ?thesis
    by (auto simp: new_impl_def pure_call_def impl_safe_def Let_def)
next
  case KArrayOfMaps
  with assms new_objects_ok(2) [of 4 "mh_max_entries h"] show ?thesis
    by (auto simp: new_impl_def pure_call_def impl_safe_def sizes_fit_def Let_def array_of_maps_new_def)
qed (use assms in \<open>auto simp: new_impl_def pure_call_def impl_safe_def sizes_fit_def Let_def unat_eq_4
    perf_event_array_new_def prog_array_new_def intro!: new_objects_ok [simplified]\<close>)

text \<open>C8. Map creation: when the container name of a map is not in use and its sizes do not wrap in
  the constructor of its class, \<^verbatim>\<open>map_init\<close> returns 0 and leaves a handler with a well-formed object of
  its own under that name; handlers that were well formed before still are, and none of them shares
  the new object.\<close>

theorem map_init_establishes:
  assumes "sizes_fit env h" "0 < me_ncpu env" "8 \<le> me_page env" "unat (me_page env) \<le> 2 ^ 16"
    and "sg_names sg (get_container_name h) = None" and "\<forall>a \<in> dom (sg_objs sg). a < sg_fresh sg"
  shows "\<exists>h' sg'. map_init env h sg = (Inr 0, h', sg') \<and> handler_ok env h' sg' \<and>
    sg_names sg' = (sg_names sg)(get_container_name h := mh_impl h') \<and>
    (\<forall>h2. handler_ok env h2 sg \<longrightarrow> handler_ok env h2 sg' \<and> mh_impl h2 \<noteq> mh_impl h') \<and>
    (\<forall>a \<in> dom (sg_objs sg'). a < sg_fresh sg')"
proof -
  let ?k = "kind_of (me_libbpf env) (mh_type h)" and ?a = "sg_fresh sg"
  obtain im where im: "new_impl env h sg = (Inr im, sg)" "impl_safe env h im" "impl_kind im = ?k"
    using new_impl_ok [OF assms(1-4)] by blast
  let ?h = "h\<lparr>mh_impl := Some ?a\<rparr>"
  let ?sg = "sg\<lparr>sg_objs := (sg_objs sg)(?a \<mapsto> im), sg_names := (sg_names sg)(get_container_name h \<mapsto> ?a),
    sg_fresh := ?a + 1\<rparr>"
  have "?k \<noteq> KDefault" using kind_of_impl [OF im(3)] .
  moreover have "popcnt (unat (mh_max_entries h)) = 1" if "?k = KRingbuf"
    unfolding popcnt_pow2 using assms(1) that by (auto simp: sizes_fit_def Let_def)
  ultimately have init: "map_init env h sg = (Inr 0, ?h, ?sg)"
    using assms(5) im(1) by (auto simp: map_init_def construct_def Let_def)
  have "impl_safe env ?h im" using im(2) by (cases im) (simp_all add: impl_safe_def Let_def)
  then have "handler_ok env ?h ?sg" using im(3) by (auto simp: handler_ok_def impl_at_def)
  moreover have "handler_ok env h2 ?sg \<and> mh_impl h2 \<noteq> Some ?a" if h2: "handler_ok env h2 sg" for h2
  proof -
    from h2 obtain b im2 where b: "impl_at env h2 sg = Inr (b, im2)" "impl_safe env h2 im2" by (auto simp: handler_ok_def)
    have "b \<noteq> ?a" using impl_at_Inr [OF b(1)] assms(6) by fastforce
    then show ?thesis using impl_at_Inr [OF b(1)] b(2) by (auto simp: handler_ok_def impl_at_def)
  qed
  ultimately show ?thesis using init assms(6) by (auto simp: less_SucI)
qed

theorem map_init_establishes_witness:
  "\<exists>h' sg'. map_init plain_env (map_handler_new 3 ''m'' (plain_attr BPF_MAP_TYPE_LRU_HASH 4 8 16)) (segment_new ()) =
     (Inr 0, h', sg') \<and> handler_ok plain_env h' sg'"
  using map_init_establishes [of plain_env "map_handler_new 3 ''m'' (plain_attr BPF_MAP_TYPE_LRU_HASH 4 8 16)"
      "segment_new ()"]
  by (auto simp: sizes_fit_def map_handler_new_def plain_defs kind_of_def map_type_defs Let_def)

section \<open>map_free\<close>

text \<open>Map destruction: closing a map of a class that \<^verbatim>\<open>map_free\<close> knows removes its object and
  makes its name available again, and leaves every other well-formed map as it was.\<close>

theorem map_free_releases:
  assumes "handler_ok env h sg" "free_kind_of (me_libbpf env) (mh_type h) = kind_of (me_libbpf env) (mh_type h)"
    and "sg_names sg (get_container_name h) = mh_impl h"
  shows "\<exists>sg'. map_free env h sg = (Inr (), h\<lparr>mh_impl := None\<rparr>, sg') \<and>
    sg_names sg' (get_container_name h) = None \<and> (\<forall>a. mh_impl h = Some a \<longrightarrow> sg_objs sg' a = None) \<and>
    (\<forall>h2. handler_ok env h2 sg \<and> mh_impl h2 \<noteq> mh_impl h \<longrightarrow> handler_ok env h2 sg')"
proof -
  from assms(1) obtain a im where at: "impl_at env h sg = Inr (a, im)" and s: "impl_safe env h im"
    by (auto simp: handler_ok_def)
  note a = impl_at_Inr [OF at]
  have w: "(case im of IKernelUser ku i \<Rightarrow> ku_destroy (me_ku env) ku i (sg_world sg) | _ \<Rightarrow> sg_world sg) = sg_world sg"
    using s by (cases im) (auto simp: impl_safe_def Let_def)
  let ?sg = "sg\<lparr>sg_objs := (sg_objs sg)(a := None), sg_names := (sg_names sg)(get_container_name h := None)\<rparr>"
  have nd: "kind_of (me_libbpf env) (mh_type h) \<noteq> KDefault" using a kind_of_impl by metis
  have "destroy_named env (kind_of (me_libbpf env) (mh_type h)) (get_container_name h) sg = (Inr (), ?sg)"
    using a assms(3) w by (simp add: destroy_named_def)
  then have "map_free env h sg = (Inr (), h\<lparr>mh_impl := None\<rparr>, ?sg)"
    using assms(2) nd by (simp add: map_free_def Let_def)
  moreover have "handler_ok env h2 ?sg" if "handler_ok env h2 sg" "mh_impl h2 \<noteq> mh_impl h" for h2
    using that a by (auto simp: handler_ok_def impl_at_def split: option.splits if_splits)
  ultimately show ?thesis using a by auto
qed

theorem map_free_releases_witness:
  "\<exists>sg'. map_free plain_env two_slots (two_slots_segment\<lparr>sg_names := [''ebpf_map_fd_m'' \<mapsto> 0]\<rparr>) =
     (Inr (), two_slots\<lparr>mh_impl := None\<rparr>, sg') \<and> sg_names sg' ''ebpf_map_fd_m'' = None \<and> sg_objs sg' 0 = None"
proof -
  have "handler_ok plain_env two_slots (two_slots_segment\<lparr>sg_names := [''ebpf_map_fd_m'' \<mapsto> 0]\<rparr>)"
    using am_inv_new [of 1 2] by (simp add: handler_ok_def impl_at_def impl_safe_def two_slots_def two_slots_segment_def
        map_handler_new_def plain_defs kind_of_def map_type_defs am_ok_def array_map_new_def)
  from map_free_releases [OF this] show ?thesis
    by (auto simp: free_kind_of_def kind_of_def map_type_defs two_slots_def map_handler_new_def plain_defs
        get_container_name_def)
qed

text \<open>Map destruction, arrays of maps: \<^verbatim>\<open>map_free\<close> has no case for them (and, in a build without
  libbpf, none for LRU maps), so the object and its name survive the close, and the next map created
  under that name gets no object: every call on it goes through a null pointer.\<close>

theorem freed_array_of_maps_stays:
  assumes "mh_type h = BPF_MAP_TYPE_ARRAY_OF_MAPS \<or> mh_type h = BPF_MAP_TYPE_LRU_HASH \<and> \<not> me_libbpf env"
    and "mo_free (me_tbl env (mh_type h)) = None" and "sg_names sg (get_container_name h) = Some a"
    and "\<not> me_dup_throws env"
  shows "map_free env h sg = (Inr (), h\<lparr>mh_impl := None\<rparr>, sg) \<and>
    map_init env h sg = (Inr 0, h\<lparr>mh_impl := None\<rparr>, sg) \<and>
    (\<forall>key. map_lookup_elem env (h\<lparr>mh_impl := None\<rparr>) key True sg = (Inl Fault, sg))"
  using assms
  by (auto simp: map_free_def free_kind_of_def kind_of_def map_type_defs ops_at_def map_init_def construct_def Let_def
      map_lookup_elem_def impl_at_def)

theorem freed_array_of_maps_stays_witness:
  "let h = map_handler_new 3 ''m'' (plain_attr BPF_MAP_TYPE_ARRAY_OF_MAPS 4 4 2);
       sg = (segment_new ())\<lparr>sg_names := [''ebpf_map_fd_m'' \<mapsto> 0]\<rparr>
   in map_free plain_env h sg = (Inr (), h\<lparr>mh_impl := None\<rparr>, sg)"
  using freed_array_of_maps_stays [of "map_handler_new 3 ''m'' (plain_attr BPF_MAP_TYPE_ARRAY_OF_MAPS 4 4 2)" plain_env
      "(segment_new ())\<lparr>sg_names := [''ebpf_map_fd_m'' \<mapsto> 0]\<rparr>" 0]
  by (simp add: map_handler_new_def plain_defs get_container_name_def map_type_defs Let_def)

section \<open>Two maps of one name\<close>

text \<open>Maps of one name: containers are named after the map, not after the descriptor. A second map
  with the name of a live one gets no object of its own (or \<^verbatim>\<open>map_init\<close> throws, after the handler was
  installed); calls on it go through a null pointer, and closing it destroys the object of the first
  map, whose next call then uses freed memory.\<close>

theorem same_name_maps_collide:
  assumes "handler_ok env h1 sg" "sg_names sg (get_container_name h1) = mh_impl h1"
    and "mh_name h2 = mh_name h1" "mh_type h2 = mh_type h1" "mh_impl h2 = None"
    and "free_kind_of (me_libbpf env) (mh_type h1) = kind_of (me_libbpf env) (mh_type h1)"
    and "mh_type h1 \<noteq> BPF_MAP_TYPE_RINGBUF"
  shows "map_init env h2 sg = (if me_dup_throws env then Inl Throw else Inr 0, h2, sg) \<and>
    map_lookup_elem env h2 key sys sg = (Inl Fault, sg) \<and>
    (\<exists>sg'. map_free env h2 sg = (Inr (), h2, sg') \<and> map_lookup_elem env h1 key sys sg' = (Inl Fault, sg'))"
proof -
  from assms(1) obtain a im where at: "impl_at env h1 sg = Inr (a, im)" and s: "impl_safe env h1 im"
    by (auto simp: handler_ok_def)
  note a = impl_at_Inr [OF at]
  let ?k = "kind_of (me_libbpf env) (mh_type h1)"
  have nd: "?k \<noteq> KDefault" using a kind_of_impl by metis
  have nr: "?k \<noteq> KRingbuf" using assms(7) by (auto simp: kind_of_def split: if_splits)
  have nm: "get_container_name h2 = get_container_name h1" using assms(3) by (simp add: get_container_name_def)
  let ?sg = "sg\<lparr>sg_objs := (sg_objs sg)(a := None), sg_names := (sg_names sg)(get_container_name h1 := None)\<rparr>"
  have "destroy_named env ?k (get_container_name h1) sg = (Inr (), ?sg)"
    using a assms(2) s by (cases im) (auto simp: destroy_named_def impl_safe_def Let_def)
  then have "map_free env h2 sg = (Inr (), h2, ?sg)"
    using assms(4,5,6) nd nm by (simp add: map_free_def Let_def)
  moreover have "map_lookup_elem env h1 key sys ?sg = (Inl Fault, ?sg)"
    using nd a by (simp add: map_lookup_elem_def impl_at_def)
  moreover have "map_init env h2 sg = (if me_dup_throws env then Inl Throw else Inr 0, h2, sg)"
    using nd nr nm assms(2,4,5) a by (simp add: map_init_def construct_def Let_def)
  moreover have "map_lookup_elem env h2 key sys sg = (Inl Fault, sg)"
    using nd assms(4,5) by (simp add: map_lookup_elem_def impl_at_def)
  ultimately show ?thesis by blast
qed

theorem same_name_maps_collide_witness:
  "map_init plain_env (two_slots\<lparr>mh_impl := None\<rparr>) (two_slots_segment\<lparr>sg_names := [''ebpf_map_fd_m'' \<mapsto> 0]\<rparr>) =
     (Inr 0, two_slots\<lparr>mh_impl := None\<rparr>, two_slots_segment\<lparr>sg_names := [''ebpf_map_fd_m'' \<mapsto> 0]\<rparr>)"
proof -
  have "handler_ok plain_env two_slots (two_slots_segment\<lparr>sg_names := [''ebpf_map_fd_m'' \<mapsto> 0]\<rparr>)"
    using am_inv_new [of 1 2] by (simp add: handler_ok_def impl_at_def impl_safe_def two_slots_def two_slots_segment_def
        map_handler_new_def plain_defs kind_of_def map_type_defs am_ok_def array_map_new_def)
  from same_name_maps_collide [OF this, of "two_slots\<lparr>mh_impl := None\<rparr>" None True] show ?thesis
    by (simp add: free_kind_of_def kind_of_def map_type_defs two_slots_def map_handler_new_def plain_defs
        get_container_name_def)
qed

section \<open>Map types outside the table\<close>

text \<open>Map types outside the table of operations: the type of a map is never compared with
  \<^verbatim>\<open>BPF_MAP_TYPE_MAX\<close> when it is created, so a handler of a type below 0 or from 2048 on can be
  installed (\<^verbatim>\<open>map_init\<close> only reports an error, or reads outside the table itself when further map
  types are allowed), and every operation on it, the close included, reads outside the table.\<close>

theorem map_type_out_of_range_faults:
  assumes "mh_type h < 0 \<or> BPF_MAP_TYPE_MAX \<le> mh_type h"
  shows "fst (map_init env h sg) = (if me_allow_non_builtin env then Inl Fault else Inl Silent) \<and>
    fst (map_lookup_elem env h key sys sg) = Inl Fault \<and> fst (map_update_elem env h key val f sys sg) = Inl Fault \<and>
    fst (bpf_map_get_next_key env h key sys sg) = Inl Fault \<and> fst (map_delete_elem env h key sys sg) = Inl Fault \<and>
    fst (map_free env h sg) = Inl Fault"
proof -
  have "kind_of l (mh_type h) = KDefault" for l using assms by (auto simp: kind_of_def map_type_defs)
  moreover have "ops_at env (mh_type h) = Inl Fault" using assms by (auto simp: ops_at_def)
  ultimately show ?thesis
    by (simp add: map_init_def map_lookup_elem_def map_update_elem_def bpf_map_get_next_key_def map_delete_elem_def
        map_free_def free_kind_of_def Let_def)
qed

theorem map_type_out_of_range_faults_witness:
  "fst (map_lookup_elem plain_env (map_handler_new 3 ''m'' (plain_attr 5000 4 4 4)) None True (segment_new ())) = Inl Fault"
  using map_type_out_of_range_faults [of "map_handler_new 3 ''m'' (plain_attr 5000 4 4 4)" plain_env]
  by (simp add: map_handler_new_def plain_attr_def BPF_MAP_TYPE_MAX_def)

end
