(* ===== verification/Handler_Manager.thy ===== *)
theory Handler_Manager
  imports Map_Safety
begin

text \<open>
  \<^verbatim>\<open>handler_manager\<close> (src/handler/handler_manager.cpp, .hpp) and the handlers it keeps besides maps:
  links (link_handler.hpp), programs (prog_handler.cpp), perf events (theory Perf_Event) and epoll
  instances (epoll_handler.cpp). The manager is a vector of handlers indexed by descriptor; closing a
  program or a perf event also closes the links that refer to it. The theory shows what
  \<^verbatim>\<open>clear_id_at\<close>, \<^verbatim>\<open>set_handler\<close>, \<^verbatim>\<open>find_minimal_unused_idx\<close> and \<^verbatim>\<open>clear_all\<close> do to every slot.
\<close>

section \<open>Handlers\<close>

record link_args =
  la_prog_fd :: u32
  la_target_fd :: u32
  la_attach_type :: u32
  la_flags :: u32
  la_bpf_cookie :: u64

text \<open>The two constructors without \<^verbatim>\<open>args\<close> leave that member uninitialised (\<open>None\<close>).\<close>

record link_handler =
  lk_args :: "link_args option"
  lk_prog_id :: int
  lk_attach_target_id :: int
  lk_attach_cookie :: "u64 option"

definition link_handler_of_args :: "link_args \<Rightarrow> link_handler" where
  "link_handler_of_args args = \<lparr>lk_args = Some args, lk_prog_id = sint (la_prog_fd args),
     lk_attach_target_id = sint (la_target_fd args), lk_attach_cookie = None\<rparr>"

definition link_handler_new :: "int \<Rightarrow> int \<Rightarrow> u64 option \<Rightarrow> link_handler" where
  "link_handler_new prog_id attach_target_id cookie = \<lparr>lk_args = None, lk_prog_id = prog_id,
     lk_attach_target_id = attach_target_id, lk_attach_cookie = cookie\<rparr>"

text \<open>The constructor takes the program type and does not store it: \<open>pg_type\<close> is \<open>None\<close>, not set.\<close>

record prog_handler =
  pg_type :: "int option"
  pg_insns :: "u64 list"
  pg_aot_insns :: bytes
  pg_name :: string

definition prog_handler_new :: "u64 list \<Rightarrow> string \<Rightarrow> int \<Rightarrow> prog_handler" where
  "prog_handler_new insn prog_name prog_type =
     \<lparr>pg_type = None, pg_insns = insn, pg_aot_insns = [], pg_name = prog_name\<rparr>"

text \<open>The files of an epoll instance are weak pointers: to the data of a software perf event, or to
  the buffer of a ring buffer map, by address in the segment.\<close>

datatype file_ptr = WeakPerf nat | WeakRingbuf nat

record epoll_file =
  ef_file :: file_ptr
  ef_data :: u64

datatype handler =
    Unused
  | MapH map_handler
  | LinkH link_handler
  | ProgH prog_handler
  | PerfH perf_handler
  | EpollH "epoll_file list"

record 'w manager =
  mg_handlers :: "handler list"
  mg_segment :: "'w segment"

definition DEFAULT_MAX_FD :: nat where "DEFAULT_MAX_FD = 1024 * 6"

definition handler_manager_new :: "nat \<Rightarrow> 'w segment \<Rightarrow> 'w manager" where
  "handler_manager_new max_fd_count sg = \<lparr>mg_handlers = replicate max_fd_count Unused, mg_segment = sg\<rparr>"

section \<open>Operations\<close>

definition in_range :: "'w manager \<Rightarrow> int \<Rightarrow> bool" where
  "in_range mg fd \<longleftrightarrow> 0 \<le> fd \<and> fd < int (length (mg_handlers mg))"

text \<open>\<^verbatim>\<open>handlers[fd]\<close>: no range check.\<close>

definition get_handler :: "'w manager \<Rightarrow> int \<Rightarrow> handler res" where
  "get_handler mg fd = (if in_range mg fd then Inr (mg_handlers mg ! nat fd) else Inl Fault)"

definition is_allocated :: "'w manager \<Rightarrow> int \<Rightarrow> bool" where
  "is_allocated mg fd \<longleftrightarrow> \<not> (fd < 0 \<or> int (length (mg_handlers mg)) \<le> fd) \<and> mg_handlers mg ! nat fd \<noteq> Unused"

definition find_minimal_unused_idx :: "'w manager \<Rightarrow> int" where
  "find_minimal_unused_idx mg =
     (case find (\<lambda>i. \<not> is_allocated mg (int i)) [0..<length (mg_handlers mg)] of
        Some i \<Rightarrow> int i | None \<Rightarrow> - 1)"

text \<open>The destructor of a handler: a software perf event drops its shared data, the other handlers
  free nothing.\<close>

definition release :: "handler \<Rightarrow> 'w segment \<Rightarrow> 'w segment" where
  "release h sg = (case h of
     PerfH p \<Rightarrow> (case pf_data p of Software a \<Rightarrow> sg\<lparr>sg_perf := (sg_perf sg)(a := None)\<rparr> | _ \<Rightarrow> sg)
   | _ \<Rightarrow> sg)"

definition put_handler :: "nat \<Rightarrow> handler \<Rightarrow> 'w manager \<Rightarrow> 'w manager" where
  "put_handler i h mg = mg\<lparr>mg_handlers := (mg_handlers mg)[i := h]\<rparr>"

text \<open>\<^verbatim>\<open>set_handler\<close>. The handler is moved into its slot before \<^verbatim>\<open>map_init\<close> runs, and the result of
  \<^verbatim>\<open>map_init\<close> is dropped; an exception leaves it with the handler in place. A refused handler is
  destroyed by the caller.\<close>

definition set_handler :: "'w map_env \<Rightarrow> int \<Rightarrow> handler \<Rightarrow> 'w manager \<Rightarrow> int res \<times> 'w manager" where
  "set_handler env fd h mg =
     (if is_allocated mg fd then (Inl (NegErrno EEXIST), mg\<lparr>mg_segment := release h (mg_segment mg)\<rparr>)
      else if h = Unused then (Inl (NegErrno ENOTSUP), mg)
      else if \<not> in_range mg fd then (Inl Fault, mg)
      else (case h of
          MapH m \<Rightarrow>
            (let (r, m', sg) = map_init env m (mg_segment mg);
                 mg = put_handler (nat fd) (MapH m') (mg\<lparr>mg_segment := sg\<rparr>)
             in (case r of Inl Throw \<Rightarrow> Inl Throw | Inl Fault \<Rightarrow> Inl Fault | _ \<Rightarrow> Inr fd, mg))
        | _ \<Rightarrow> (Inr fd, put_handler (nat fd) h mg)))"

definition set_handler_at_empty_slot :: "'w map_env \<Rightarrow> handler \<Rightarrow> 'w manager \<Rightarrow> int res \<times> 'w manager" where
  "set_handler_at_empty_slot env h mg =
     (let ident = find_minimal_unused_idx mg in
      if ident < 0 then (Inl Silent, mg\<lparr>mg_segment := release h (mg_segment mg)\<rparr>)
      else set_handler env ident h mg)"

text \<open>\<^verbatim>\<open>clear_id_at\<close> calls itself on the links of a program or perf event. The first argument of
  \<open>clear_depth\<close> bounds the depth of these calls; a link has none, so two levels are all there is
  (lemma \<open>clear_depth_enough\<close>).\<close>

fun links_to :: "(link_handler \<Rightarrow> int) \<Rightarrow> int \<Rightarrow> handler \<Rightarrow> bool" where
  "links_to f fd (LinkH l) = (f l = fd)"
| "links_to f fd h = False"

definition drop_slot :: "nat \<Rightarrow> 'w manager \<Rightarrow> 'w manager" where
  "drop_slot i mg = put_handler i Unused (mg\<lparr>mg_segment := release (mg_handlers mg ! i) (mg_segment mg)\<rparr>)"

fun clear_depth :: "nat \<Rightarrow> 'w map_env \<Rightarrow> int \<Rightarrow> 'w manager \<Rightarrow> unit res \<times> 'w manager" where
  "clear_depth 0 env fd mg = (Inl Fault, mg)"
| "clear_depth (Suc d) env fd mg =
     (if fd < 0 \<or> int (length (mg_handlers mg)) \<le> fd then (Inr (), mg)
      else
        let (r, mg) = (case mg_handlers mg ! nat fd of
            MapH m \<Rightarrow>
              (let (r, m', sg) = map_free env m (mg_segment mg)
               in (r, put_handler (nat fd) (MapH m') (mg\<lparr>mg_segment := sg\<rparr>)))
          | PerfH p \<Rightarrow>
              for_each (\<lambda>i mg. if links_to lk_attach_target_id fd (mg_handlers mg ! i)
                  then clear_depth d env (int i) mg else (Inr (), mg)) [0..<length (mg_handlers mg)] mg
          | ProgH p \<Rightarrow>
              for_each (\<lambda>i mg. if links_to lk_prog_id fd (mg_handlers mg ! i)
                  then clear_depth d env (int i) mg else (Inr (), mg)) [0..<length (mg_handlers mg)] mg
          | _ \<Rightarrow> (Inr (), mg))
        in (case r of Inl e \<Rightarrow> (Inl e, mg) | Inr _ \<Rightarrow> (Inr (), drop_slot (nat fd) mg)))"

definition clear_id_at :: "'w map_env \<Rightarrow> int \<Rightarrow> 'w manager \<Rightarrow> unit res \<times> 'w manager" where
  "clear_id_at env fd mg = clear_depth 2 env fd mg"

definition clear_all :: "'w map_env \<Rightarrow> 'w manager \<Rightarrow> unit res \<times> 'w manager" where
  "clear_all env mg =
     for_each (\<lambda>i mg. if is_allocated mg (int i) then clear_id_at env (int i) mg else (Inr (), mg))
       [0..<length (mg_handlers mg)] mg"

section \<open>Allocation\<close>

text \<open>Free descriptors: \<^verbatim>\<open>find_minimal_unused_idx\<close> returns the least slot that is free, and -1
  exactly when every slot is taken.\<close>

theorem minimal_unused_least:
  "if \<forall>i < length (mg_handlers mg). mg_handlers mg ! i \<noteq> Unused then find_minimal_unused_idx mg = - 1
   else \<exists>i. find_minimal_unused_idx mg = int i \<and> i < length (mg_handlers mg) \<and> mg_handlers mg ! i = Unused \<and>
     (\<forall>j < i. mg_handlers mg ! j \<noteq> Unused)"
proof -
  let ?n = "length (mg_handlers mg)"
  have alloc: "is_allocated mg (int i) \<longleftrightarrow> mg_handlers mg ! i \<noteq> Unused" if "i < ?n" for i
    using that by (simp add: is_allocated_def)
  show ?thesis
  proof (cases "find (\<lambda>i. \<not> is_allocated mg (int i)) [0..<?n]")
    case None
    then have "\<forall>i < ?n. mg_handlers mg ! i \<noteq> Unused" by (auto simp: find_None_iff alloc)
    with None show ?thesis by (simp add: find_minimal_unused_idx_def)
  next
    case (Some i)
    then obtain j where j: "j < ?n" "\<not> is_allocated mg (int j)" "i = j" "\<forall>k < j. is_allocated mg (int k)"
      by (auto simp: find_Some_iff)
    then have "mg_handlers mg ! j = Unused" "\<forall>k < j. mg_handlers mg ! k \<noteq> Unused"
      using alloc by auto
    with Some j show ?thesis by (auto simp: find_minimal_unused_idx_def)
  qed
qed

theorem minimal_unused_least_witness:
  "find_minimal_unused_idx \<lparr>mg_handlers = [EpollH [], Unused, Unused], mg_segment = segment_new ()\<rparr> = 1"
proof -
  let ?mg = "\<lparr>mg_handlers = [EpollH [], Unused, Unused], mg_segment = segment_new ()\<rparr>"
  have ne: "\<not> (\<forall>i < length (mg_handlers ?mg). mg_handlers ?mg ! i \<noteq> Unused)" by (auto intro!: exI [of _ 1])
  from minimal_unused_least [of ?mg, unfolded if_not_P [OF ne]] obtain i where i: "find_minimal_unused_idx ?mg = int i" "i < 3"
    "[EpollH [], Unused, Unused] ! i = Unused" "\<forall>j < i. [EpollH [], Unused, Unused] ! j \<noteq> Unused"
    by auto
  have "i \<noteq> 0" using i(3) by (cases i) auto
  moreover have "\<not> 1 < i" using i(4) by (metis One_nat_def nth_Cons_0 nth_Cons_Suc)
  ultimately show ?thesis using i(1) by simp
qed

lemma length_set_handler: "length (mg_handlers (snd (set_handler env fd h mg))) = length (mg_handlers mg)"
  by (auto simp: set_handler_def put_handler_def Let_def split: handler.split prod.split)

section \<open>Closing a descriptor\<close>

text \<open>The links a close of \<open>fd\<close> takes with it.\<close>

fun refers :: "handler \<Rightarrow> int \<Rightarrow> handler \<Rightarrow> bool" where
  "refers (PerfH p) fd h = links_to lk_attach_target_id fd h"
| "refers (ProgH p) fd h = links_to lk_prog_id fd h"
| "refers _ fd h = False"

definition cleared :: "int \<Rightarrow> handler list \<Rightarrow> handler list" where
  "cleared fd hs = (map (\<lambda>h. if refers (hs ! nat fd) fd h then Unused else h) hs)[nat fd := Unused]"

lemma links_to_link: "links_to g fd h \<Longrightarrow> \<exists>l. h = LinkH l"
  by (cases h) auto

lemma clear_link:
  "i < length (mg_handlers mg) \<Longrightarrow> mg_handlers mg ! i = LinkH l \<Longrightarrow>
     clear_depth (Suc d) env (int i) mg = (Inr (), put_handler i Unused mg)"
  by (simp add: drop_slot_def release_def)

text \<open>The loop over the links, with any positive depth left.\<close>

lemma clear_links:
  assumes "set is \<subseteq> {..<length (mg_handlers mg)}"
  shows "for_each (\<lambda>i mg. if links_to g fd (mg_handlers mg ! i) then clear_depth (Suc d) env (int i) mg else (Inr (), mg))
      is mg =
    (Inr (), mg\<lparr>mg_handlers := map (\<lambda>j. if j \<in> set is \<and> links_to g fd (mg_handlers mg ! j) then Unused
        else mg_handlers mg ! j) [0..<length (mg_handlers mg)]\<rparr>)"
  using assms
proof (induction "is" arbitrary: mg)
  case Nil
  then show ?case by (simp add: map_nth)
next
  case (Cons i "is")
  show ?case
  proof (cases "links_to g fd (mg_handlers mg ! i)")
    case True
    then obtain l where l: "mg_handlers mg ! i = LinkH l" using links_to_link by blast
    have i: "i < length (mg_handlers mg)" using Cons.prems by simp
    let ?mg = "put_handler i Unused mg"
    have "map (\<lambda>j. if j \<in> set is \<and> links_to g fd (mg_handlers ?mg ! j) then Unused else mg_handlers ?mg ! j)
        [0..<length (mg_handlers ?mg)] =
      map (\<lambda>j. if j \<in> set (i # is) \<and> links_to g fd (mg_handlers mg ! j) then Unused else mg_handlers mg ! j)
        [0..<length (mg_handlers mg)]"
      using True i by (auto simp: put_handler_def nth_list_update)
    then show ?thesis using True clear_link [OF i l, of d env] Cons.IH [of ?mg] Cons.prems
      by (simp add: put_handler_def)
  next
    case False
    have "map (\<lambda>j. if j \<in> set is \<and> links_to g fd (mg_handlers mg ! j) then Unused else mg_handlers mg ! j)
        [0..<length (mg_handlers mg)] =
      map (\<lambda>j. if j \<in> set (i # is) \<and> links_to g fd (mg_handlers mg ! j) then Unused else mg_handlers mg ! j)
        [0..<length (mg_handlers mg)]"
      using False by auto
    with False Cons show ?thesis by simp
  qed
qed

lemma clear_links_all:
  "for_each (\<lambda>i mg. if links_to g fd (mg_handlers mg ! i) then clear_depth (Suc d) env (int i) mg else (Inr (), mg))
      [0..<length (mg_handlers mg)] mg =
    (Inr (), mg\<lparr>mg_handlers := map (\<lambda>h. if links_to g fd h then Unused else h) (mg_handlers mg)\<rparr>)"
proof -
  have "map (\<lambda>j. if j \<in> set [0..<length (mg_handlers mg)] \<and> links_to g fd (mg_handlers mg ! j) then Unused
        else mg_handlers mg ! j) [0..<length (mg_handlers mg)] =
    map (\<lambda>h. if links_to g fd h then Unused else h) (mg_handlers mg)"
    by (rule nth_equalityI) auto
  then show ?thesis by (subst clear_links) auto
qed

text \<open>Two levels of calls are enough: more depth never changes the result.\<close>

lemma clear_depth_enough: "clear_depth (Suc (Suc d)) env fd mg = clear_id_at env fd mg"
proof -
  have "clear_depth (Suc (Suc d)) env fd mg = clear_depth (Suc (Suc 0)) env fd mg"
    by (simp only: clear_depth.simps(2) [of "Suc d"] clear_depth.simps(2) [of "Suc 0"] clear_links_all)
  then show ?thesis by (simp add: clear_id_at_def numeral_2_eq_2)
qed

definition closes :: "'w map_env \<Rightarrow> int \<Rightarrow> 'w manager \<Rightarrow> bool" where
  "closes env fd mg \<longleftrightarrow> (\<forall>m. mg_handlers mg ! nat fd = MapH m \<longrightarrow> fst (map_free env m (mg_segment mg)) = Inr ())"

lemma clear_id_at_exact':
  assumes "in_range mg fd" "closes env fd mg"
  shows "\<exists>mg'. clear_id_at env fd mg = (Inr (), mg') \<and> mg_handlers mg' = cleared fd (mg_handlers mg)"
proof -
  have r: "0 \<le> fd" "nat fd < length (mg_handlers mg)" "fd < int (length (mg_handlers mg))"
    using assms(1) by (auto simp: in_range_def)
  have two: "clear_id_at env fd mg = clear_depth (Suc (Suc 0)) env fd mg" by (simp add: clear_id_at_def numeral_2_eq_2)
  show ?thesis
    unfolding two clear_depth.simps(2) [of "Suc 0"] clear_links_all using r assms(2)
    by (cases "mg_handlers mg ! nat fd")
      (auto simp: closes_def cleared_def drop_slot_def put_handler_def split: prod.splits)
qed

text \<open>C7. Closing a descriptor: unless the destruction of a map's object fails, \<^verbatim>\<open>clear_id_at\<close> returns
  and frees the slot, together with exactly the links that refer to it (by target for a perf event, by
  program for a program); every other slot keeps its handler, and a descriptor outside the table changes
  nothing. The calls of \<^verbatim>\<open>clear_id_at\<close> to itself end at depth two.\<close>

theorem clear_id_at_exact:
  "(in_range mg fd \<and> closes env fd mg \<longrightarrow> (\<exists>mg'. clear_id_at env fd mg = (Inr (), mg') \<and>
      mg_handlers mg' = cleared fd (mg_handlers mg))) \<and>
   (\<not> in_range mg fd \<longrightarrow> clear_id_at env fd mg = (Inr (), mg)) \<and>
   (\<forall>d \<ge> 2. clear_depth d env fd mg = clear_id_at env fd mg)"
proof (intro conjI impI allI)
  fix d :: nat assume "2 \<le> d"
  then obtain e where "d = Suc (Suc e)" by (metis Suc_le_D numeral_2_eq_2 Suc_le_mono)
  then show "clear_depth d env fd mg = clear_id_at env fd mg" by (simp only: clear_depth_enough)
next
  assume "\<not> in_range mg fd"
  then show "clear_id_at env fd mg = (Inr (), mg)"
    by (auto simp: in_range_def clear_id_at_def numeral_2_eq_2)
next
  assume "in_range mg fd \<and> closes env fd mg"
  then show "\<exists>mg'. clear_id_at env fd mg = (Inr (), mg') \<and> mg_handlers mg' = cleared fd (mg_handlers mg)"
    using clear_id_at_exact' by blast
qed

theorem clear_id_at_exact_witness:
  "mg_handlers (snd (clear_id_at plain_env 1 \<lparr>mg_handlers = [LinkH (link_handler_new 1 9 None),
     ProgH (prog_handler_new [] ''p'' 0), LinkH (link_handler_new 4 9 None)], mg_segment = segment_new ()\<rparr>)) =
   [Unused, Unused, LinkH (link_handler_new 4 9 None)]"
  using clear_id_at_exact [of "\<lparr>mg_handlers = [LinkH (link_handler_new 1 9 None),
     ProgH (prog_handler_new [] ''p'' 0), LinkH (link_handler_new 4 9 None)], mg_segment = segment_new ()\<rparr>" 1 plain_env]
  by (auto simp: in_range_def closes_def cleared_def link_handler_new_def)

text \<open>The same for the whole table.\<close>

lemma cleared_Unused: "hs ! j = Unused \<Longrightarrow> j < length hs \<Longrightarrow> cleared fd hs ! j = Unused"
  by (cases "j = nat fd") (auto simp: cleared_def)

lemma length_cleared [simp]: "length (cleared fd hs) = length hs"
  by (simp add: cleared_def)

lemma clear_id_at_Inr:
  assumes "clear_id_at env fd mg = (Inr x, mg')" "in_range mg fd"
  shows "mg_handlers mg' = cleared fd (mg_handlers mg)"
proof -
  have "closes env fd mg"
    using assms unfolding closes_def clear_id_at_def numeral_2_eq_2 in_range_def
    by (auto split: prod.splits sum.splits)
  from clear_id_at_exact' [OF assms(2) this] assms(1) show ?thesis by auto
qed

lemma clear_all_loop:
  assumes "for_each (\<lambda>i mg. if is_allocated mg (int i) then clear_id_at env (int i) mg else (Inr (), mg)) is mg = (Inr x, mg')"
    and "set is \<subseteq> {..<length (mg_handlers mg)}"
  shows "length (mg_handlers mg') = length (mg_handlers mg) \<and>
    (\<forall>j < length (mg_handlers mg). j \<in> set is \<or> mg_handlers mg ! j = Unused \<longrightarrow> mg_handlers mg' ! j = Unused)"
  using assms
proof (induction "is" arbitrary: mg)
  case (Cons i "is")
  define out where "out = (if is_allocated mg (int i) then clear_id_at env (int i) mg else (Inr (), mg))"
  obtain mg1 where mg1: "out = (Inr (), mg1)" using Cons.prems(1) by (auto simp: out_def split: prod.splits sum.splits)
  have i: "i < length (mg_handlers mg)" using Cons.prems(2) by simp
  have step: "length (mg_handlers mg1) = length (mg_handlers mg) \<and> mg_handlers mg1 ! i = Unused \<and>
    (\<forall>j < length (mg_handlers mg). mg_handlers mg ! j = Unused \<longrightarrow> mg_handlers mg1 ! j = Unused)"
  proof (cases "is_allocated mg (int i)")
    case True
    then have "mg_handlers mg1 = cleared (int i) (mg_handlers mg)"
      using mg1 i by (intro clear_id_at_Inr) (auto simp: out_def in_range_def)
    moreover have "cleared (int i) (mg_handlers mg) ! i = Unused" using i by (simp add: cleared_def)
    ultimately show ?thesis using cleared_Unused by simp
  next
    case False
    then show ?thesis using mg1 i by (auto simp: out_def is_allocated_def)
  qed
  have "for_each (\<lambda>i mg. if is_allocated mg (int i) then clear_id_at env (int i) mg else (Inr (), mg)) is mg1 = (Inr x, mg')"
    using Cons.prems(1) mg1 by (simp add: out_def split: if_splits)
  from Cons.IH [OF this] step Cons.prems(2) i show ?case by auto
qed simp

text \<open>Clearing the table: when \<^verbatim>\<open>clear_all\<close> returns, every slot is free.\<close>

theorem clear_all_frees_all:
  assumes "clear_all env mg = (Inr (), mg')"
  shows "mg_handlers mg' = replicate (length (mg_handlers mg)) Unused"
proof -
  have "set [0..<length (mg_handlers mg)] \<subseteq> {..<length (mg_handlers mg)}" by auto
  from clear_all_loop [OF assms [unfolded clear_all_def] this] show ?thesis by (intro nth_equalityI) auto
qed

theorem clear_all_frees_all_witness:
  "mg_handlers (snd (clear_all plain_env \<lparr>mg_handlers = [EpollH [], Unused], mg_segment = segment_new ()\<rparr>)) = [Unused, Unused]"
proof -
  have "clear_all plain_env \<lparr>mg_handlers = [EpollH [], Unused], mg_segment = segment_new ()\<rparr> =
    (Inr (), \<lparr>mg_handlers = [Unused, Unused], mg_segment = segment_new ()\<rparr>)"
    by (simp add: clear_all_def is_allocated_def clear_id_at_def numeral_2_eq_2 drop_slot_def put_handler_def release_def
        segment_new_def)
  from clear_all_frees_all [OF this] this show ?thesis by simp
qed

section \<open>Installing a handler\<close>

text \<open>A failed map creation is reported as success: for a ring buffer whose size is not a power of
  two \<^verbatim>\<open>map_init\<close> fails, \<^verbatim>\<open>set_handler\<close> drops the
  result and returns the descriptor, and the map it installed has no object: every lookup through it
  dereferences a null pointer.\<close>

theorem failed_map_init_reported_as_success:
  assumes "in_range mg fd" "\<not> is_allocated mg fd" "mh_type m = BPF_MAP_TYPE_RINGBUF" "mh_impl m = None"
    and "\<nexists>k. unat (mh_max_entries m) = 2 ^ k"
  shows "fst (map_init env m (mg_segment mg)) = Inl Silent \<and> set_handler env fd (MapH m) mg = (Inr fd, put_handler (nat fd) (MapH m) mg) \<and>
    map_lookup_elem env m key sys (mg_segment mg) = (Inl Fault, mg_segment mg)"
proof -
  have "popcnt (unat (mh_max_entries m)) \<noteq> 1" using assms(5) by (simp only: popcnt_pow2 not_False_eq_True)
  then have init: "map_init env m (mg_segment mg) = (Inl Silent, m, mg_segment mg)"
    using assms(3) by (simp add: map_init_def kind_of_def map_type_defs)
  then show ?thesis
    using assms by (simp add: set_handler_def map_lookup_elem_def impl_at_def kind_of_def map_type_defs)
qed

theorem failed_map_init_reported_as_success_witness:
  "fst (set_handler plain_env 0 (MapH (map_handler_new 0 ''r'' (plain_attr BPF_MAP_TYPE_RINGBUF 0 0 3)))
     \<lparr>mg_handlers = [Unused], mg_segment = segment_new ()\<rparr>) = Inr 0"
proof -
  have no: "(3 :: nat) \<noteq> 2 ^ k" for k by (cases k) (simp_all, presburger)
  show ?thesis
    using failed_map_init_reported_as_success [of "\<lparr>mg_handlers = [Unused], mg_segment = segment_new ()\<rparr>" 0
        "map_handler_new 0 ''r'' (plain_attr BPF_MAP_TYPE_RINGBUF 0 0 3)" plain_env] no
    by (simp add: in_range_def is_allocated_def map_handler_new_def plain_attr_def)
qed

end
