(* ===== verification/Bpftime_Config.thy ===== *)
theory Bpftime_Config
  imports Bpf_Prelude
begin

text \<open>
  The configuration of the runtime (src/bpftime_config.cpp, include/bpftime_config.hpp): the record
  \<^verbatim>\<open>agent_config\<close> and its construction from the environment variables of the process, given as a function
  from names to values. The theory shows which helper groups a value of \<^verbatim>\<open>BPFTIME_HELPER_GROUPS\<close> enables
  and what the other variables change.
\<close>

section \<open>The record\<close>

text \<open>The two strings are variants of a local and a shared string in the code; their contents are the
  same, and \<^verbatim>\<open>change_to_shm_object\<close> moves a local one into the segment.\<close>

datatype cfg_string = LocalString string | ShmString string

record agent_config =
  ac_debug :: bool
  ac_jit_enabled :: bool
  ac_kernel_group :: bool
  ac_ufunc_group :: bool
  ac_shm_maps_group :: bool
  ac_allow_non_buildin :: bool
  ac_shm_memory_size :: int
  ac_logger_output_path :: cfg_string
  ac_vm_name :: cfg_string

definition config_default :: "cfg_string \<Rightarrow> cfg_string \<Rightarrow> agent_config" where
  "config_default path vm = \<lparr>ac_debug = False, ac_jit_enabled = True, ac_kernel_group = True, ac_ufunc_group = False,
     ac_shm_maps_group = True, ac_allow_non_buildin = False, ac_shm_memory_size = 20,
     ac_logger_output_path = path, ac_vm_name = vm\<rparr>"

definition agent_config_in :: agent_config where
  "agent_config_in = config_default (ShmString ''~/.bpftime/runtime.log'') (ShmString ''llvm'')"

definition agent_config_new :: agent_config where
  "agent_config_new = config_default (LocalString ''~/.bpftime/runtime.log'') (LocalString ''llvm'')"

fun cfg_str :: "cfg_string \<Rightarrow> string" where
  "cfg_str (LocalString s) = s"
| "cfg_str (ShmString s) = s"

fun cfg_assign :: "string \<Rightarrow> cfg_string \<Rightarrow> cfg_string" where
  "cfg_assign s (LocalString _) = LocalString s"
| "cfg_assign s (ShmString _) = ShmString s"

definition get_logger_output_path :: "agent_config \<Rightarrow> string" where
  "get_logger_output_path c = cfg_str (ac_logger_output_path c)"

definition set_logger_output_path :: "string \<Rightarrow> agent_config \<Rightarrow> agent_config" where
  "set_logger_output_path p c = c\<lparr>ac_logger_output_path := cfg_assign p (ac_logger_output_path c)\<rparr>"

definition get_vm_name :: "agent_config \<Rightarrow> string" where
  "get_vm_name c = cfg_str (ac_vm_name c)"

definition set_vm_name :: "string \<Rightarrow> agent_config \<Rightarrow> agent_config" where
  "set_vm_name p c = c\<lparr>ac_vm_name := cfg_assign p (ac_vm_name c)\<rparr>"

definition change_to_shm_object :: "agent_config \<Rightarrow> agent_config" where
  "change_to_shm_object c = c\<lparr>ac_logger_output_path := ShmString (get_logger_output_path c),
     ac_vm_name := ShmString (get_vm_name c)\<rparr>"

section \<open>Reading the environment\<close>

definition process_token :: "string \<Rightarrow> agent_config \<Rightarrow> agent_config" where
  "process_token token c =
     (if token = ''ufunc'' then c\<lparr>ac_ufunc_group := True\<rparr>
      else if token = ''kernel'' then c\<lparr>ac_kernel_group := True\<rparr>
      else if token = ''shm_map'' then c\<lparr>ac_shm_maps_group := True\<rparr>
      else c)"

text \<open>\<^verbatim>\<open>string_view::find\<close>: the first position from \<open>start\<close> on, \<open>None\<close> for \<^verbatim>\<open>npos\<close>.\<close>

definition sv_find :: "string \<Rightarrow> char \<Rightarrow> nat \<Rightarrow> nat option" where
  "sv_find str c start = find (\<lambda>i. str ! i = c) [start..<length str]"

lemma sv_find_Some: "sv_find str c start = Some e \<Longrightarrow> start \<le> e \<and> e < length str \<and> str ! e = c \<and> (\<forall>i. start \<le> i \<and> i < e \<longrightarrow> str ! i \<noteq> c)"
proof -
  assume "sv_find str c start = Some e"
  then obtain k where k: "k < length str - start" "str ! ([start..<length str] ! k) = c" "e = [start..<length str] ! k"
    "\<forall>j < k. str ! ([start..<length str] ! j) \<noteq> c" by (auto simp: sv_find_def find_Some_iff)
  then have e: "e = start + k" by simp
  have "str ! i \<noteq> c" if "start \<le> i" "i < e" for i
    using k(4) [rule_format, of "i - start"] that k(1) e by (simp add: less_diff_conv2)
  then show ?thesis using k e by auto
qed

lemma sv_find_None: "sv_find str c start = None \<Longrightarrow> c \<notin> set (drop start str)"
proof
  assume none: "sv_find str c start = None" and "c \<in> set (drop start str)"
  then obtain i where "i < length str - start" "str ! (start + i) = c" by (auto simp: in_set_conv_nth)
  then show False using none by (auto simp: sv_find_def find_None_iff)
qed

function helper_loop :: "string \<Rightarrow> char \<Rightarrow> nat \<Rightarrow> agent_config \<Rightarrow> agent_config" where
  "helper_loop str delimiter start c =
     (case sv_find str delimiter start of
        Some e \<Rightarrow> helper_loop str delimiter (e + 1) (process_token (take (e - start) (drop start str)) c)
      | None \<Rightarrow> if start < length str then process_token (drop start str) c else c)"
  by pat_completeness auto

termination helper_loop
  by (relation "measure (\<lambda>(str, d, start, c). length str - start)") (auto dest: sv_find_Some)

declare helper_loop.simps [simp del]

definition process_helper_sv :: "string \<Rightarrow> char \<Rightarrow> agent_config \<Rightarrow> agent_config" where
  "process_helper_sv str delimiter c = helper_loop str delimiter 0 c"

text \<open>\<^verbatim>\<open>std::stoi\<close>: white space, a sign, then decimal digits up to the first other character; \<open>None\<close> is
  the exception for no digits or a value outside \<^verbatim>\<open>int\<close>.\<close>

definition is_space :: "char \<Rightarrow> bool" where
  "is_space c \<longleftrightarrow> c = CHR '' '' \<or> (9 \<le> (of_char c :: nat) \<and> of_char c \<le> (13 :: nat))"

definition is_digit :: "char \<Rightarrow> bool" where
  "is_digit c \<longleftrightarrow> 48 \<le> (of_char c :: nat) \<and> of_char c \<le> (57 :: nat)"

definition digits_value :: "string \<Rightarrow> int" where
  "digits_value ds = foldl (\<lambda>n d. 10 * n + (of_char d - 48)) 0 ds"

definition stoi :: "string \<Rightarrow> int option" where
  "stoi str =
     (let s = dropWhile is_space str;
          (neg, s) = (case s of c # r \<Rightarrow> if c = CHR ''-'' then (True, r) else if c = CHR ''+'' then (False, r) else (False, s)
            | [] \<Rightarrow> (False, []));
          ds = takeWhile is_digit s;
          n = (if neg then - digits_value ds else digits_value ds)
      in if ds = [] then None else if n < - 2147483648 \<or> 2147483647 < n then None else Some n)"

text \<open>\<^verbatim>\<open>std::to_string\<close> of a number that is not negative.\<close>

fun dec :: "nat \<Rightarrow> string" where
  "dec n = (if n < 10 then [char_of (48 + n)] else dec (n div 10) @ [char_of (48 + n mod 10)])"

declare dec.simps [simp del]

definition groups_from_env :: "(string \<Rightarrow> string option) \<Rightarrow> agent_config \<Rightarrow> agent_config" where
  "groups_from_env getenv c = (case getenv ''BPFTIME_HELPER_GROUPS'' of
     Some g \<Rightarrow> process_helper_sv g (CHR '','')
       (c\<lparr>ac_kernel_group := False, ac_ufunc_group := False, ac_shm_maps_group := False\<rparr>)
   | None \<Rightarrow> c\<lparr>ac_kernel_group := True, ac_shm_maps_group := True, ac_ufunc_group := True\<rparr>)"

definition settings_from_env :: "(string \<Rightarrow> string option) \<Rightarrow> agent_config \<Rightarrow> agent_config" where
  "settings_from_env getenv c =
     (let c = (if getenv ''BPFTIME_DISABLE_JIT'' \<noteq> None then c\<lparr>ac_jit_enabled := False\<rparr> else c);
          c = (if getenv ''BPFTIME_ALLOW_EXTERNAL_MAPS'' \<noteq> None then c\<lparr>ac_allow_non_buildin := True\<rparr> else c);
          c = (case getenv ''BPFTIME_SHM_MEMORY_MB'' of
              Some m \<Rightarrow> (case stoi m of Some n \<Rightarrow> c\<lparr>ac_shm_memory_size := n\<rparr> | None \<Rightarrow> c) | None \<Rightarrow> c);
          c = (case getenv ''BPFTIME_VM_NAME'' of Some v \<Rightarrow> set_vm_name v c | None \<Rightarrow> c)
      in (case getenv ''BPFTIME_LOG_OUTPUT'' of Some p \<Rightarrow> set_logger_output_path p c | None \<Rightarrow> c))"

definition construct_agent_config_from_env :: "(string \<Rightarrow> string option) \<Rightarrow> agent_config" where
  "construct_agent_config_from_env getenv = settings_from_env getenv (groups_from_env getenv agent_config_new)"

section \<open>Numbers as strings\<close>

lemma digits_value_snoc: "digits_value (ds @ [d]) = 10 * digits_value ds + (of_char d - 48)"
  by (simp add: digits_value_def)

lemma digit_char:
  assumes "(n :: nat) < 10"
  shows "is_digit (char_of (48 + n))" "of_char (char_of (48 + n)) = 48 + int n"
proof -
  have n: "of_char (char_of (48 + n)) = (48 + n :: nat)" using assms by simp
  then show "is_digit (char_of (48 + n))" using assms by (simp add: is_digit_def)
  show "of_char (char_of (48 + n)) = 48 + int n"
    using n of_nat_of_char [of "char_of (48 + n)", where ?'a = int] by simp
qed

lemma dec_digits: "(\<forall>c \<in> set (dec n). is_digit c) \<and> dec n \<noteq> [] \<and> digits_value (dec n) = int n"
proof (induction n rule: dec.induct)
  case (1 n)
  show ?case
  proof (cases "n < 10")
    case True
    then show ?thesis using digit_char [of n] by (simp add: dec.simps [of n] digits_value_def)
  next
    case False
    have "int n = 10 * int (n div 10) + int (n mod 10)" by presburger
    then show ?thesis
      using False 1 digit_char [of "n mod 10"] by (simp add: dec.simps [of n] digits_value_snoc)
  qed
qed

lemma stoi_dec: "n < 2 ^ 31 \<Longrightarrow> stoi (dec n) = Some (int n)"
proof -
  assume n: "n < 2 ^ 31"
  obtain c r where c: "dec n = c # r" using dec_digits [of n] by (cases "dec n") auto
  then have "is_digit c" using dec_digits [of n] by auto
  then have "\<not> is_space c" "c \<noteq> CHR ''-''" "c \<noteq> CHR ''+''" by (auto simp: is_digit_def is_space_def)
  moreover have "takeWhile is_digit (dec n) = dec n" using dec_digits [of n] by (simp add: takeWhile_eq_all_conv)
  moreover have "digits_value (dec n) = int n" using dec_digits [of n] by blast
  ultimately show ?thesis using c n by (simp add: stoi_def)
qed

lemma dec_inject [simp]: "dec m = dec n \<longleftrightarrow> m = n"
  using dec_digits by (metis of_nat_eq_iff)

text \<open>\<^verbatim>\<open>std::to_string\<close> of an \<^verbatim>\<open>int\<close>.\<close>

definition dec_int :: "int \<Rightarrow> string" where
  "dec_int n = (if n < 0 then CHR ''-'' # dec (nat (- n)) else dec (nat n))"

lemma stoi_dec_int:
  assumes "- 2147483648 \<le> n" "n \<le> 2147483647"
  shows "stoi (dec_int n) = Some n"
proof (cases "n < 0")
  case True
  have tw: "takeWhile is_digit (dec (nat (- n))) = dec (nat (- n))"
    using dec_digits [of "nat (- n)"] by (simp add: takeWhile_eq_all_conv)
  have v: "digits_value (dec (nat (- n))) = - n" "dec (nat (- n)) \<noteq> []"
    using dec_digits [of "nat (- n)"] True by auto
  have "\<not> is_space (CHR ''-'')" by (simp add: is_space_def)
  then show ?thesis using assms True by (simp add: dec_int_def stoi_def Let_def tw v)
next
  case False
  then show ?thesis using stoi_dec [of "nat n"] assms by (simp add: dec_int_def)
qed

section \<open>Helper groups\<close>

text \<open>The reference: the pieces between delimiters.\<close>

fun tokens :: "char \<Rightarrow> string \<Rightarrow> string list" where
  "tokens d [] = [[]]"
| "tokens d (x # xs) = (if x = d then [] # tokens d xs else (case tokens d xs of t # ts \<Rightarrow> (x # t) # ts | [] \<Rightarrow> [[x]]))"

lemma tokens_plain: "d \<notin> set u \<Longrightarrow> tokens d u = [u]"
  by (induction u) auto

lemma tokens_split: "d \<notin> set u \<Longrightarrow> tokens d (u @ d # v) = u # tokens d v"
  by (induction u) auto

lemma process_token_empty [simp]: "process_token [] c = c"
  by (simp add: process_token_def)

lemma helper_loop_tokens: "helper_loop str d start c = fold process_token (tokens d (drop start str)) c"
proof (induction str d start c rule: helper_loop.induct)
  case (1 str d start c)
  show ?case
  proof (cases "sv_find str d start")
    case None
    from sv_find_None [OF None] have "tokens d (drop start str) = [drop start str]" by (rule tokens_plain)
    with None show ?thesis by (simp add: helper_loop.simps [of str d start])
  next
    case (Some e)
    let ?u = "take (e - start) (drop start str)"
    have e: "start \<le> e" "e < length str" "str ! e = d" "\<forall>i. start \<le> i \<and> i < e \<longrightarrow> str ! i \<noteq> d"
      using sv_find_Some [OF Some] by auto
    have "d \<notin> set ?u"
    proof
      assume "d \<in> set ?u"
      then obtain i where "i < e - start" "str ! (start + i) = d" using e by (auto simp: in_set_conv_nth)
      then show False using e(4) by auto
    qed
    moreover have "drop start str = ?u @ d # drop (e + 1) str"
      using id_take_nth_drop [of "e - start" "drop start str"] e by (simp add: add.commute)
    ultimately have "tokens d (drop start str) = ?u # tokens d (drop (e + 1) str)" using tokens_split by metis
    with Some 1 [OF Some] show ?thesis by (simp add: helper_loop.simps [of str d start])
  qed
qed

lemma fold_tokens:
  "ac_ufunc_group (fold process_token ts c) \<longleftrightarrow> ac_ufunc_group c \<or> ''ufunc'' \<in> set ts"
  "ac_kernel_group (fold process_token ts c) \<longleftrightarrow> ac_kernel_group c \<or> ''kernel'' \<in> set ts"
  "ac_shm_maps_group (fold process_token ts c) \<longleftrightarrow> ac_shm_maps_group c \<or> ''shm_map'' \<in> set ts"
  by (induction ts arbitrary: c) (auto simp: process_token_def)

text \<open>The scan by positions is the fold over the comma-separated pieces.\<close>

lemma process_helper_sv_fold: "process_helper_sv str d c = fold process_token (tokens d str) c"
  by (simp add: process_helper_sv_def helper_loop_tokens)

lemma process_helper_frame:
  "ac_jit_enabled (process_helper_sv str d c) = ac_jit_enabled c"
  "ac_allow_non_buildin (process_helper_sv str d c) = ac_allow_non_buildin c"
  "ac_shm_memory_size (process_helper_sv str d c) = ac_shm_memory_size c"
  "ac_vm_name (process_helper_sv str d c) = ac_vm_name c"
  "ac_logger_output_path (process_helper_sv str d c) = ac_logger_output_path c"
proof -
  have "ac_jit_enabled (fold process_token ts c) = ac_jit_enabled c \<and>
    ac_allow_non_buildin (fold process_token ts c) = ac_allow_non_buildin c \<and>
    ac_shm_memory_size (fold process_token ts c) = ac_shm_memory_size c \<and> ac_vm_name (fold process_token ts c) = ac_vm_name c \<and>
    ac_logger_output_path (fold process_token ts c) = ac_logger_output_path c" for ts
    by (induction ts arbitrary: c) (auto simp: process_token_def)
  then show "ac_jit_enabled (process_helper_sv str d c) = ac_jit_enabled c"
    "ac_allow_non_buildin (process_helper_sv str d c) = ac_allow_non_buildin c"
    "ac_shm_memory_size (process_helper_sv str d c) = ac_shm_memory_size c"
    "ac_vm_name (process_helper_sv str d c) = ac_vm_name c"
    "ac_logger_output_path (process_helper_sv str d c) = ac_logger_output_path c"
    by (auto simp: process_helper_sv_fold)
qed

lemma settings_keep_groups:
  "ac_ufunc_group (settings_from_env getenv c) = ac_ufunc_group c"
  "ac_kernel_group (settings_from_env getenv c) = ac_kernel_group c"
  "ac_shm_maps_group (settings_from_env getenv c) = ac_shm_maps_group c"
  by (simp_all add: settings_from_env_def set_vm_name_def set_logger_output_path_def Let_def split: option.split)

lemma settings_values:
  "ac_jit_enabled (settings_from_env getenv c) = (getenv ''BPFTIME_DISABLE_JIT'' = None \<and> ac_jit_enabled c)"
  "ac_allow_non_buildin (settings_from_env getenv c) = (getenv ''BPFTIME_ALLOW_EXTERNAL_MAPS'' \<noteq> None \<or> ac_allow_non_buildin c)"
  "ac_shm_memory_size (settings_from_env getenv c) =
     (case Option.bind (getenv ''BPFTIME_SHM_MEMORY_MB'') stoi of Some n \<Rightarrow> n | None \<Rightarrow> ac_shm_memory_size c)"
  "ac_vm_name (settings_from_env getenv c) =
     (case getenv ''BPFTIME_VM_NAME'' of Some v \<Rightarrow> cfg_assign v (ac_vm_name c) | None \<Rightarrow> ac_vm_name c)"
  "ac_logger_output_path (settings_from_env getenv c) =
     (case getenv ''BPFTIME_LOG_OUTPUT'' of Some p \<Rightarrow> cfg_assign p (ac_logger_output_path c) | None \<Rightarrow> ac_logger_output_path c)"
  by (simp_all add: settings_from_env_def set_vm_name_def set_logger_output_path_def Let_def split: option.split)

lemma groups_keep:
  "ac_jit_enabled (groups_from_env getenv c) = ac_jit_enabled c"
  "ac_allow_non_buildin (groups_from_env getenv c) = ac_allow_non_buildin c"
  "ac_shm_memory_size (groups_from_env getenv c) = ac_shm_memory_size c"
  "ac_vm_name (groups_from_env getenv c) = ac_vm_name c"
  "ac_logger_output_path (groups_from_env getenv c) = ac_logger_output_path c"
  by (simp_all add: groups_from_env_def process_helper_frame split: option.split)

lemmas from_env = construct_agent_config_from_env_def settings_keep_groups settings_values groups_keep
  get_vm_name_def get_logger_output_path_def agent_config_new_def config_default_def

text \<open>The configuration from the environment: without \<^verbatim>\<open>BPFTIME_HELPER_GROUPS\<close> all three helper
  groups are on; with it a group is on exactly when its name is one of the pieces between the commas. The
  other settings follow their variables, and a memory size that is not a number keeps the default of 20.\<close>

theorem config_from_env:
  "let c = construct_agent_config_from_env getenv in
     (ac_ufunc_group c, ac_kernel_group c, ac_shm_maps_group c) = (case getenv ''BPFTIME_HELPER_GROUPS'' of
         None \<Rightarrow> (True, True, True)
       | Some g \<Rightarrow> (let ts = set (tokens (CHR '','') g) in (''ufunc'' \<in> ts, ''kernel'' \<in> ts, ''shm_map'' \<in> ts))) \<and>
     ac_jit_enabled c = (getenv ''BPFTIME_DISABLE_JIT'' = None) \<and>
     ac_allow_non_buildin c = (getenv ''BPFTIME_ALLOW_EXTERNAL_MAPS'' \<noteq> None) \<and>
     ac_shm_memory_size c = (case Option.bind (getenv ''BPFTIME_SHM_MEMORY_MB'') stoi of Some n \<Rightarrow> n | None \<Rightarrow> 20) \<and>
     get_vm_name c = (case getenv ''BPFTIME_VM_NAME'' of Some v \<Rightarrow> v | None \<Rightarrow> ''llvm'') \<and>
     get_logger_output_path c = (case getenv ''BPFTIME_LOG_OUTPUT'' of Some p \<Rightarrow> p | None \<Rightarrow> ''~/.bpftime/runtime.log'')"
proof -
  let ?c = "construct_agent_config_from_env getenv"
  have "(ac_ufunc_group ?c, ac_kernel_group ?c, ac_shm_maps_group ?c) = (case getenv ''BPFTIME_HELPER_GROUPS'' of
         None \<Rightarrow> (True, True, True)
       | Some g \<Rightarrow> (let ts = set (tokens (CHR '','') g) in (''ufunc'' \<in> ts, ''kernel'' \<in> ts, ''shm_map'' \<in> ts)))"
    by (simp add: construct_agent_config_from_env_def settings_keep_groups groups_from_env_def process_helper_sv_fold
        fold_tokens Let_def split: option.split)
  moreover have "get_vm_name ?c = (case getenv ''BPFTIME_VM_NAME'' of Some v \<Rightarrow> v | None \<Rightarrow> ''llvm'')"
    "get_logger_output_path ?c = (case getenv ''BPFTIME_LOG_OUTPUT'' of Some p \<Rightarrow> p | None \<Rightarrow> ''~/.bpftime/runtime.log'')"
    by (simp_all add: from_env split: option.split)
  moreover have "ac_jit_enabled ?c = (getenv ''BPFTIME_DISABLE_JIT'' = None)"
    "ac_allow_non_buildin ?c = (getenv ''BPFTIME_ALLOW_EXTERNAL_MAPS'' \<noteq> None)"
    "ac_shm_memory_size ?c = (case Option.bind (getenv ''BPFTIME_SHM_MEMORY_MB'') stoi of Some n \<Rightarrow> n | None \<Rightarrow> 20)"
    by (simp_all add: from_env split: option.split)
  ultimately show ?thesis unfolding Let_def by (intro conjI)
qed

text \<open>\<^verbatim>\<open>change_to_shm_object\<close> keeps what readers see, and doing it twice changes nothing.\<close>

lemma change_to_shm_object_same:
  "get_vm_name (change_to_shm_object c) = get_vm_name c"
  "get_logger_output_path (change_to_shm_object c) = get_logger_output_path c"
  "change_to_shm_object (change_to_shm_object c) = change_to_shm_object c"
  by (simp_all add: change_to_shm_object_def get_vm_name_def get_logger_output_path_def)

end
