(* ===== verification/Shm_Internal.thy ===== *)
theory Shm_Internal
  imports Handler_Manager Bpftime_Config
begin

text \<open>
  \<^verbatim>\<open>bpftime_shm\<close> (src/bpftime_shm_internal.cpp, .hpp): the object a process uses to reach the shared
  memory. It opens or creates the segment, tells the kind of a descriptor, forwards map calls to the
  handler of a descriptor, creates handlers (maps, programs, links, perf events, epoll instances), and
  closes descriptors. New descriptors come from the kernel (\<^verbatim>\<open>open("/dev/null")\<close> and \<^verbatim>\<open>dup\<close>): what
  these calls return is the argument \<open>kfd\<close> of the operations that use them.
  What the operations do over a whole run is in the theory Shm_Life.
\<close>

section \<open>State\<close>

datatype shm_open_type = SHM_REMOVE_AND_CREATE | SHM_OPEN_ONLY | SHM_NO_CREATE | SHM_CREATE_OR_OPEN

text \<open>The named objects of the segment that outlive a process; \<open>None\<close> is an absent object.\<close>

record 'w shm_object =
  so_manager :: "'w manager option"
  so_syscall_pids :: "int set option"
  so_alive_pids :: "int set option"
  so_agent_config :: "agent_config option"

record 'w shm =
  sh_open_type :: shm_open_type
  sh_manager :: "'w manager option"
  sh_syscall_pids :: "int set option"
  sh_alive_pids :: "int set option"
  sh_agent_config :: "agent_config option"
  sh_local_config :: "agent_config option"

text \<open>\<open>or_new\<close> is \<^verbatim>\<open>find_or_construct\<close>. Opening a segment that does not exist throws.\<close>

definition or_new :: "'a option \<Rightarrow> 'a \<Rightarrow> 'a option" where
  "or_new x d = (case x of None \<Rightarrow> Some d | Some y \<Rightarrow> Some y)"

definition fresh_manager :: "'w \<Rightarrow> 'w manager" where
  "fresh_manager w = handler_manager_new DEFAULT_MAX_FD (segment_new w)"

definition shm_view :: "shm_open_type \<Rightarrow> 'w shm_object \<Rightarrow> 'w shm" where
  "shm_view t ob = \<lparr>sh_open_type = t, sh_manager = so_manager ob, sh_syscall_pids = so_syscall_pids ob,
     sh_alive_pids = so_alive_pids ob, sh_agent_config = so_agent_config ob, sh_local_config = Some agent_config_in\<rparr>"

definition bpftime_shm_new ::
  "'w \<Rightarrow> shm_open_type \<Rightarrow> 'w shm_object option \<Rightarrow> 'w shm res \<times> 'w shm_object option" where
  "bpftime_shm_new w t stored = (case t of
     SHM_OPEN_ONLY \<Rightarrow> (case stored of None \<Rightarrow> (Inl Throw, None) | Some ob \<Rightarrow> (Inr (shm_view t ob), Some ob))
   | SHM_CREATE_OR_OPEN \<Rightarrow>
       (let ob0 = (case stored of None \<Rightarrow> \<lparr>so_manager = None, so_syscall_pids = None, so_alive_pids = None,
                so_agent_config = None\<rparr> | Some ob \<Rightarrow> ob);
            ob = \<lparr>so_manager = or_new (so_manager ob0) (fresh_manager w),
                  so_syscall_pids = or_new (so_syscall_pids ob0) {}, so_alive_pids = or_new (so_alive_pids ob0) {},
                  so_agent_config = or_new (so_agent_config ob0) agent_config_in\<rparr>
        in (Inr (shm_view t ob), Some ob))
   | SHM_REMOVE_AND_CREATE \<Rightarrow>
       (let ob = \<lparr>so_manager = Some (fresh_manager w), so_syscall_pids = Some {}, so_alive_pids = Some {},
                  so_agent_config = Some agent_config_in\<rparr>
        in (Inr (shm_view t ob), Some ob))
   | SHM_NO_CREATE \<Rightarrow>
       (Inr \<lparr>sh_open_type = t, sh_manager = None, sh_syscall_pids = None, sh_alive_pids = None,
          sh_agent_config = None, sh_local_config = None\<rparr>, stored))"

text \<open>Without a shared configuration the process uses its own; in a segment that was not opened
  there is neither, and \<^verbatim>\<open>*local_agent_config\<close> reads an empty optional.\<close>

definition set_agent_config :: "agent_config \<Rightarrow> 'w shm \<Rightarrow> 'w shm" where
  "set_agent_config c s = (case sh_agent_config s of
     None \<Rightarrow> s\<lparr>sh_local_config := Some c\<rparr>
   | Some _ \<Rightarrow> s\<lparr>sh_agent_config := Some (change_to_shm_object c)\<rparr>)"

definition get_agent_config :: "'w shm \<Rightarrow> agent_config res" where
  "get_agent_config s = (case sh_agent_config s of None \<Rightarrow> or_fault (sh_local_config s) | Some c \<Rightarrow> Inr c)"

section \<open>Process sets\<close>

definition check_syscall_trace_setup :: "'w shm \<Rightarrow> int \<Rightarrow> bool res" where
  "check_syscall_trace_setup s pid = bindr (or_fault (sh_syscall_pids s)) (\<lambda>ps. Inr (pid \<in> ps))"

definition set_syscall_trace_setup :: "int \<Rightarrow> bool \<Rightarrow> 'w shm \<Rightarrow> 'w shm res" where
  "set_syscall_trace_setup pid whether s =
     bindr (or_fault (sh_syscall_pids s)) (\<lambda>ps.
       Inr (s\<lparr>sh_syscall_pids := Some (if whether then insert pid ps else ps - {pid})\<rparr>))"

definition add_pid_into_alive_agent_set :: "int \<Rightarrow> 'w shm \<Rightarrow> 'w shm res" where
  "add_pid_into_alive_agent_set pid s =
     bindr (or_fault (sh_alive_pids s)) (\<lambda>ps. Inr (s\<lparr>sh_alive_pids := Some (insert pid ps)\<rparr>))"

definition remove_pid_from_alive_agent_set :: "int \<Rightarrow> 'w shm \<Rightarrow> 'w shm res" where
  "remove_pid_from_alive_agent_set pid s =
     bindr (or_fault (sh_alive_pids s)) (\<lambda>ps. Inr (s\<lparr>sh_alive_pids := Some (ps - {pid})\<rparr>))"

text \<open>The callback sees the pids in ascending order, the order of \<^verbatim>\<open>std::less<int>\<close>.\<close>

definition iterate_all_pids_in_alive_agent_set :: "'w shm \<Rightarrow> int list res" where
  "iterate_all_pids_in_alive_agent_set s =
     bindr (or_fault (sh_alive_pids s)) (\<lambda>ps. Inr (sorted_list_of_set ps))"

section \<open>Kinds of descriptors\<close>

definition shm_handler :: "'w shm \<Rightarrow> int \<Rightarrow> handler option" where
  "shm_handler s fd = (case sh_manager s of None \<Rightarrow> None
     | Some mg \<Rightarrow> if fd < 0 \<or> int (length (mg_handlers mg)) \<le> fd then None else Some (mg_handlers mg ! nat fd))"

definition is_epoll_fd :: "'w shm \<Rightarrow> int \<Rightarrow> bool" where
  "is_epoll_fd s fd = (case shm_handler s fd of Some (EpollH f) \<Rightarrow> True | _ \<Rightarrow> False)"

definition is_map_fd :: "'w shm \<Rightarrow> int \<Rightarrow> bool" where
  "is_map_fd s fd = (case shm_handler s fd of Some (MapH m) \<Rightarrow> True | _ \<Rightarrow> False)"

definition is_prog_fd :: "'w shm \<Rightarrow> int \<Rightarrow> bool" where
  "is_prog_fd s fd = (case shm_handler s fd of Some (ProgH p) \<Rightarrow> True | _ \<Rightarrow> False)"

definition is_perf_fd :: "'w shm \<Rightarrow> int \<Rightarrow> bool" where
  "is_perf_fd s fd = (case shm_handler s fd of Some (PerfH p) \<Rightarrow> True | _ \<Rightarrow> False)"

definition is_perf_event_handler_fd :: "'w shm \<Rightarrow> int \<Rightarrow> bool" where
  "is_perf_event_handler_fd s fd = (case shm_handler s fd of Some (PerfH p) \<Rightarrow> True | _ \<Rightarrow> False)"

definition is_software_perf_event_handler_fd :: "'w shm \<Rightarrow> int \<Rightarrow> bool" where
  "is_software_perf_event_handler_fd s fd =
     (case shm_handler s fd of Some (PerfH p) \<Rightarrow> pf_type p = PERF_TYPE_SOFTWARE | _ \<Rightarrow> False)"

definition map_fd_of_type :: "'w shm \<Rightarrow> int \<Rightarrow> int \<Rightarrow> bool" where
  "map_fd_of_type s t fd = (case shm_handler s fd of Some (MapH m) \<Rightarrow> mh_type m = t | _ \<Rightarrow> False)"

definition is_ringbuf_map_fd :: "'w shm \<Rightarrow> int \<Rightarrow> bool" where
  "is_ringbuf_map_fd s fd = map_fd_of_type s BPF_MAP_TYPE_RINGBUF fd"

definition is_shared_perf_event_array_map_fd :: "'w shm \<Rightarrow> int \<Rightarrow> bool" where
  "is_shared_perf_event_array_map_fd s fd =
     map_fd_of_type s (KERNEL_USER_MAP_OFFSET + BPF_MAP_TYPE_PERF_EVENT_ARRAY) fd"

definition is_array_map_fd :: "'w shm \<Rightarrow> int \<Rightarrow> bool" where
  "is_array_map_fd s fd = map_fd_of_type s BPF_MAP_TYPE_ARRAY fd"

definition is_prog_array_map_fd :: "'w shm \<Rightarrow> int \<Rightarrow> bool" where
  "is_prog_array_map_fd s fd = map_fd_of_type s BPF_MAP_TYPE_PROG_ARRAY fd"

definition is_exist_fake_fd :: "'w shm \<Rightarrow> int \<Rightarrow> bool" where
  "is_exist_fake_fd s fd = (case sh_manager s of None \<Rightarrow> False
     | Some mg \<Rightarrow> \<not> (fd < 0 \<or> int (length (mg_handlers mg)) \<le> fd) \<and> is_allocated mg fd)"

definition find_minimal_unused_fd :: "'w shm \<Rightarrow> int" where
  "find_minimal_unused_fd s = (case sh_manager s of None \<Rightarrow> - 1 | Some mg \<Rightarrow> find_minimal_unused_idx mg)"

text \<open>The outer option is the \<^verbatim>\<open>std::optional\<close>, the inner one the pointer in it.\<close>

definition shm_try_get_ringbuf_map_impl :: "'w shm \<Rightarrow> int \<Rightarrow> nat option option" where
  "shm_try_get_ringbuf_map_impl s fd = (case shm_handler s fd of
     Some (MapH m) \<Rightarrow> if mh_type m = BPF_MAP_TYPE_RINGBUF then try_get_ringbuf_map_impl m else None | _ \<Rightarrow> None)"

definition shm_try_get_array_map_impl :: "'w shm \<Rightarrow> int \<Rightarrow> nat option option" where
  "shm_try_get_array_map_impl s fd = (case shm_handler s fd of
     Some (MapH m) \<Rightarrow> if mh_type m = BPF_MAP_TYPE_ARRAY then try_get_array_map_impl m else None | _ \<Rightarrow> None)"

section \<open>Map calls by descriptor\<close>

text \<open>A call on the segment of the manager; there is one, since the descriptor was found in it.\<close>

definition on_segment :: "('w segment \<Rightarrow> 'a res \<times> 'w segment) \<Rightarrow> 'w shm \<Rightarrow> 'a res \<times> 'w shm" where
  "on_segment f s = (case sh_manager s of None \<Rightarrow> (Inl Fault, s)
     | Some mg \<Rightarrow> (let (r, sg) = f (mg_segment mg) in (r, s\<lparr>sh_manager := Some (mg\<lparr>mg_segment := sg\<rparr>)\<rparr>)))"

definition shm_map_value_size :: "'w map_env \<Rightarrow> 'w shm \<Rightarrow> int \<Rightarrow> u32 res" where
  "shm_map_value_size env s fd = (case shm_handler s fd of
     Some (MapH m) \<Rightarrow> Inr (get_value_size env m) | _ \<Rightarrow> Inl (Errno ENOENT))"

definition shm_map_lookup_elem ::
  "'w map_env \<Rightarrow> int \<Rightarrow> bytes option \<Rightarrow> bool \<Rightarrow> 'w shm \<Rightarrow> ptr res \<times> 'w shm" where
  "shm_map_lookup_elem env fd key from_syscall s = (case shm_handler s fd of
     Some (MapH m) \<Rightarrow> on_segment (map_lookup_elem env m key from_syscall) s | _ \<Rightarrow> (Inl (Errno ENOENT), s))"

definition shm_map_update_elem ::
  "'w map_env \<Rightarrow> int \<Rightarrow> bytes option \<Rightarrow> bytes \<Rightarrow> u64 \<Rightarrow> bool \<Rightarrow> 'w shm \<Rightarrow> int res \<times> 'w shm" where
  "shm_map_update_elem env fd key val flags from_syscall s = (case shm_handler s fd of
     Some (MapH m) \<Rightarrow> on_segment (map_update_elem env m key val flags from_syscall) s | _ \<Rightarrow> (Inl (Errno ENOENT), s))"

definition shm_delete_elem :: "'w map_env \<Rightarrow> int \<Rightarrow> bytes option \<Rightarrow> bool \<Rightarrow> 'w shm \<Rightarrow> int res \<times> 'w shm" where
  "shm_delete_elem env fd key from_syscall s = (case shm_handler s fd of
     Some (MapH m) \<Rightarrow> on_segment (map_delete_elem env m key from_syscall) s | _ \<Rightarrow> (Inl (Errno ENOENT), s))"

definition shm_map_get_next_key ::
  "'w map_env \<Rightarrow> int \<Rightarrow> bytes option \<Rightarrow> bool \<Rightarrow> 'w shm \<Rightarrow> bytes res \<times> 'w shm" where
  "shm_map_get_next_key env fd key from_syscall s = (case shm_handler s fd of
     Some (MapH m) \<Rightarrow> on_segment (bpf_map_get_next_key env m key from_syscall) s | _ \<Rightarrow> (Inl (Errno ENOENT), s))"

section \<open>New descriptors\<close>

text \<open>\<^verbatim>\<open>open_fake_fd\<close>: \<open>kfd 0\<close> is what \<^verbatim>\<open>open\<close> returns and \<open>kfd (i + 1)\<close> the result of the \<open>i\<close>-th
  \<^verbatim>\<open>dup\<close>. \<open>cnt\<close> counts down from 5 before each \<^verbatim>\<open>dup\<close>.\<close>

fun fake_fd_loop :: "(nat \<Rightarrow> int) \<Rightarrow> nat \<Rightarrow> nat \<Rightarrow> int" where
  "fake_fd_loop kfd i 0 = kfd i"
| "fake_fd_loop kfd i (Suc cnt) = (if kfd i \<le> 2 \<and> 0 \<le> kfd i \<and> 0 < cnt then fake_fd_loop kfd (Suc i) cnt else kfd i)"

definition open_fake_fd :: "(nat \<Rightarrow> int) \<Rightarrow> int" where
  "open_fake_fd kfd = fake_fd_loop kfd 0 5"

definition with_manager :: "('w manager \<Rightarrow> 'a res \<times> 'w manager) \<Rightarrow> 'w shm \<Rightarrow> 'a res \<times> 'w shm" where
  "with_manager f s = (case sh_manager s of None \<Rightarrow> (Inl Fault, s)
     | Some mg \<Rightarrow> (let (r, mg) = f mg in (r, s\<lparr>sh_manager := Some mg\<rparr>)))"

abbreviation shm_set :: "'w map_env \<Rightarrow> int \<Rightarrow> handler \<Rightarrow> 'w shm \<Rightarrow> int res \<times> 'w shm" where
  "shm_set env fd h \<equiv> with_manager (set_handler env fd h)"

definition fd_or_fake :: "(nat \<Rightarrow> int) \<Rightarrow> int \<Rightarrow> int" where
  "fd_or_fake kfd fd = (if fd < 0 then open_fake_fd kfd else fd)"

section \<open>Adding handlers\<close>

definition add_kprobe ::
  "'w map_env \<Rightarrow> (nat \<Rightarrow> int) \<Rightarrow> int option \<Rightarrow> string \<Rightarrow> u64 \<Rightarrow> bool \<Rightarrow> nat \<Rightarrow> 'w shm \<Rightarrow> int res \<times> 'w shm" where
  "add_kprobe env kfd fd func_name addr retprobe ref_ctr_off =
     shm_set env (case fd of Some f \<Rightarrow> f | None \<Rightarrow> open_fake_fd kfd)
       (PerfH (kprobe_perf_new retprobe addr func_name ref_ctr_off))"

definition add_uprobe ::
  "'w map_env \<Rightarrow> (nat \<Rightarrow> int) \<Rightarrow> int \<Rightarrow> int \<Rightarrow> string \<Rightarrow> u64 \<Rightarrow> bool \<Rightarrow> nat \<Rightarrow> 'w shm \<Rightarrow> int res \<times> 'w shm" where
  "add_uprobe env kfd fd pid nm offset retprobe ref_ctr_off =
     shm_set env (fd_or_fake kfd fd) (PerfH (uprobe_perf_new retprobe offset pid nm ref_ctr_off))"

definition add_uprobe_override ::
  "'w map_env \<Rightarrow> (nat \<Rightarrow> int) \<Rightarrow> int \<Rightarrow> int \<Rightarrow> string \<Rightarrow> u64 \<Rightarrow> bool \<Rightarrow> 'w shm \<Rightarrow> int res \<times> 'w shm" where
  "add_uprobe_override env kfd fd pid nm offset is_replace =
     (if is_replace
      then shm_set env (fd_or_fake kfd fd) (PerfH (override_perf_new BPF_TYPE_UREPLACE offset pid nm True))
      else shm_set env (fd_or_fake kfd fd) (PerfH (override_perf_new BPF_TYPE_UPROBE_OVERRIDE offset pid nm True)))"

definition add_tracepoint ::
  "'w map_env \<Rightarrow> (nat \<Rightarrow> int) \<Rightarrow> int \<Rightarrow> int \<Rightarrow> int \<Rightarrow> 'w shm \<Rightarrow> int res \<times> 'w shm" where
  "add_tracepoint env kfd fd pid tracepoint_id =
     shm_set env (fd_or_fake kfd fd) (PerfH (tracepoint_perf_new pid tracepoint_id))"

text \<open>A software perf event: its data is an anonymous object of the segment, held by the handler.\<close>

definition perf_construct :: "software_perf \<Rightarrow> 'w segment \<Rightarrow> nat \<times> 'w segment" where
  "perf_construct sp sg = (sg_fresh sg, sg\<lparr>sg_perf := (sg_perf sg)(sg_fresh sg \<mapsto> sp), sg_fresh := sg_fresh sg + 1\<rparr>)"

definition add_software_perf_event_fd ::
  "'w map_env \<Rightarrow> int \<Rightarrow> u32 \<Rightarrow> u32 \<Rightarrow> u64 \<Rightarrow> 'w shm \<Rightarrow> int res \<times> 'w shm" where
  "add_software_perf_event_fd env fd cpu sample_type config =
     with_manager (\<lambda>mg.
       let (a, sg) = perf_construct (software_perf_new (unat (me_page env)) cpu config sample_type) (mg_segment mg)
       in set_handler env fd (PerfH (software_handler_new a)) (mg\<lparr>mg_segment := sg\<rparr>))"

definition add_software_perf_event ::
  "'w map_env \<Rightarrow> (nat \<Rightarrow> int) \<Rightarrow> u32 \<Rightarrow> u32 \<Rightarrow> u64 \<Rightarrow> 'w shm \<Rightarrow> int res \<times> 'w shm" where
  "add_software_perf_event env kfd cpu sample_type config =
     add_software_perf_event_fd env (open_fake_fd kfd) cpu sample_type config"

definition add_custom_perf_event ::
  "'w map_env \<Rightarrow> (nat \<Rightarrow> int) \<Rightarrow> int \<Rightarrow> string \<Rightarrow> 'w shm \<Rightarrow> int res \<times> 'w shm" where
  "add_custom_perf_event env kfd t attach_argument s =
     (let fd = open_fake_fd kfd in
      if fd < 0 then (Inr fd, s)
      else case shm_set env fd (PerfH (custom_perf_new t attach_argument)) s of
          (Inl Fault, s) \<Rightarrow> (Inl Fault, s)
        | (_, s) \<Rightarrow> (Inr fd, s))"

text \<open>Attaching a program to a perf event: the link gets a descriptor of its own. What
  \<^verbatim>\<open>set_handler\<close> returns is dropped.\<close>

definition add_bpf_prog_attach_target ::
  "'w map_env \<Rightarrow> (nat \<Rightarrow> int) \<Rightarrow> int \<Rightarrow> int \<Rightarrow> u64 option \<Rightarrow> 'w shm \<Rightarrow> int res \<times> 'w shm" where
  "add_bpf_prog_attach_target env kfd perf_fd bpf_fd cookie s =
     (if \<not> is_prog_fd s bpf_fd then (Inl (Errno ENOENT), s)
      else let next_id = open_fake_fd kfd in
        if next_id < 0 then (Inl (NegErrno ENOSPC), s)
        else case shm_set env next_id (LinkH (link_handler_new bpf_fd perf_fd cookie)) s of
            (Inl Fault, s) \<Rightarrow> (Inl Fault, s)
          | (_, s) \<Rightarrow> (Inr next_id, s))"

definition attach_perf_to_bpf ::
  "'w map_env \<Rightarrow> (nat \<Rightarrow> int) \<Rightarrow> int \<Rightarrow> int \<Rightarrow> u64 option \<Rightarrow> 'w shm \<Rightarrow> int res \<times> 'w shm" where
  "attach_perf_to_bpf env kfd perf_fd bpf_fd cookie s =
     (if \<not> is_perf_fd s perf_fd then (Inl (Errno ENOENT), s)
      else add_bpf_prog_attach_target env kfd perf_fd bpf_fd cookie s)"

definition add_bpf_prog ::
  "'w map_env \<Rightarrow> (nat \<Rightarrow> int) \<Rightarrow> int \<Rightarrow> u64 list \<Rightarrow> string \<Rightarrow> int \<Rightarrow> 'w shm \<Rightarrow> int res \<times> 'w shm" where
  "add_bpf_prog env kfd fd insn prog_name prog_type =
     shm_set env (fd_or_fake kfd fd) (ProgH (prog_handler_new insn prog_name prog_type))"

text \<open>\<^verbatim>\<open>if (!is_prog_fd(args->prog_fd) || !args)\<close>: the pointer is used before it is tested.\<close>

definition add_bpf_link ::
  "'w map_env \<Rightarrow> (nat \<Rightarrow> int) \<Rightarrow> int \<Rightarrow> link_args option \<Rightarrow> 'w shm \<Rightarrow> int res \<times> 'w shm" where
  "add_bpf_link env kfd fd args s =
     (case args of None \<Rightarrow> (Inl Fault, s)
      | Some a \<Rightarrow> if \<not> is_prog_fd s (sint (la_prog_fd a)) then (Inl (Errno EBADF), s)
          else shm_set env (fd_or_fake kfd fd) (LinkH (link_handler_of_args a)) s)"

definition add_bpf_map ::
  "'w map_env \<Rightarrow> (nat \<Rightarrow> int) \<Rightarrow> int \<Rightarrow> string \<Rightarrow> bpf_map_attr \<Rightarrow> 'w shm \<Rightarrow> int res \<times> 'w shm" where
  "add_bpf_map env kfd fd nm attr s =
     (let fd = fd_or_fake kfd fd in
      if sh_manager s = None then (Inl Silent, s) else shm_set env fd (MapH (map_handler_new fd nm attr)) s)"

definition dup_bpf_map ::
  "'w map_env \<Rightarrow> (nat \<Rightarrow> int) \<Rightarrow> int \<Rightarrow> int \<Rightarrow> 'w shm \<Rightarrow> int res \<times> 'w shm" where
  "dup_bpf_map env kfd oldfd newfd s =
     (case shm_handler s oldfd of
        Some (MapH m) \<Rightarrow>
          (let newfd = fd_or_fake kfd newfd in
           shm_set env newfd (MapH (map_handler_new newfd (''dup_'' @ mh_name m) (mh_attr m))) s)
      | _ \<Rightarrow> (Inl (Errno EBADF), s))"

definition epoll_create :: "'w map_env \<Rightarrow> (nat \<Rightarrow> int) \<Rightarrow> 'w shm \<Rightarrow> int res \<times> 'w shm" where
  "epoll_create env kfd =
     (let fd = open_fake_fd kfd in
      with_manager (\<lambda>mg. if is_allocated mg fd then (Inl Silent, mg) else set_handler env fd (EpollH []) mg))"

section \<open>Changing and closing handlers\<close>

definition set_perf :: "int \<Rightarrow> (perf_handler \<Rightarrow> perf_handler) \<Rightarrow> 'w shm \<Rightarrow> unit res \<times> 'w shm" where
  "set_perf fd f s = (case shm_handler s fd of
     Some (PerfH p) \<Rightarrow> with_manager (\<lambda>mg. (Inr (), put_handler (nat fd) (PerfH (f p)) mg)) s
   | _ \<Rightarrow> (Inl (Errno ENOENT), s))"

definition perf_event_enable :: "int \<Rightarrow> 'w shm \<Rightarrow> unit res \<times> 'w shm" where
  "perf_event_enable fd = set_perf fd pf_enable"

definition perf_event_disable :: "int \<Rightarrow> 'w shm \<Rightarrow> unit res \<times> 'w shm" where
  "perf_event_disable fd = set_perf fd pf_disable"

definition epoll_append :: "int \<Rightarrow> epoll_file list \<Rightarrow> file_ptr \<Rightarrow> u64 \<Rightarrow> 'w shm \<Rightarrow> unit res \<times> 'w shm" where
  "epoll_append fd files f d =
     with_manager (\<lambda>mg. (Inr (), put_handler (nat fd) (EpollH (files @ [\<lparr>ef_file = f, ef_data = d\<rparr>])) mg))"

definition add_software_perf_event_to_epoll :: "int \<Rightarrow> int \<Rightarrow> u64 \<Rightarrow> 'w shm \<Rightarrow> unit res \<times> 'w shm" where
  "add_software_perf_event_to_epoll swpe_fd epoll_fd extra_data s =
     (case shm_handler s epoll_fd of
        Some (EpollH files) \<Rightarrow>
          (case shm_handler s swpe_fd of
             Some (PerfH p) \<Rightarrow>
               if pf_type p \<noteq> PERF_TYPE_SOFTWARE then (Inl (Errno EINVAL), s)
               else (case try_get_software_ptr p of
                   Some a \<Rightarrow> epoll_append epoll_fd files (WeakPerf a) extra_data s
                 | None \<Rightarrow> (Inl (Errno EINVAL), s))
           | _ \<Rightarrow> (Inl (Errno EINVAL), s))
      | _ \<Rightarrow> (Inl (Errno EINVAL), s))"

text \<open>\<^verbatim>\<open>if (ringbuf_map_impl.has_value(); auto val = ringbuf_map_impl.value())\<close>: the test is an
  initialiser whose value is dropped, so \<^verbatim>\<open>value()\<close> runs on an empty optional too and throws.\<close>

definition add_ringbuf_to_epoll :: "int \<Rightarrow> int \<Rightarrow> u64 \<Rightarrow> 'w shm \<Rightarrow> unit res \<times> 'w shm" where
  "add_ringbuf_to_epoll ringbuf_fd epoll_fd extra_data s =
     (case shm_handler s epoll_fd of
        Some (EpollH files) \<Rightarrow>
          (case shm_handler s ringbuf_fd of
             Some (MapH m) \<Rightarrow>
               (case try_get_ringbuf_map_impl m of
                  None \<Rightarrow> (Inl Throw, s)
                | Some None \<Rightarrow> (Inl (Errno EINVAL), s)
                | Some (Some a) \<Rightarrow>
                    (case sh_manager s of None \<Rightarrow> (Inl Fault, s)
                     | Some mg \<Rightarrow> if sg_objs (mg_segment mg) a = None then (Inl Fault, s)
                         else epoll_append epoll_fd files (WeakRingbuf a) extra_data s))
           | _ \<Rightarrow> (Inl (Errno EINVAL), s))
      | _ \<Rightarrow> (Inl (Errno EINVAL), s))"

definition close_fd :: "'w map_env \<Rightarrow> int \<Rightarrow> 'w shm \<Rightarrow> unit res \<times> 'w shm" where
  "close_fd env fd s = (case sh_manager s of None \<Rightarrow> (Inr (), s) | Some mg \<Rightarrow> with_manager (clear_id_at env fd) s)"

text \<open>A pointer to the buffer, or null: for another descriptor and for a refused size (which has
  already changed the buffer).\<close>

definition get_software_perf_event_raw_buffer :: "int \<Rightarrow> nat \<Rightarrow> 'w shm \<Rightarrow> nat option res \<times> 'w shm" where
  "get_software_perf_event_raw_buffer fd buffer_sz s =
     (if \<not> is_software_perf_event_handler_fd s fd then (Inl (Errno EINVAL), s)
      else (case shm_handler s fd of
          Some (PerfH p) \<Rightarrow>
            (case try_get_software_ptr p of
               None \<Rightarrow> (Inr None, s)
             | Some a \<Rightarrow> on_segment (\<lambda>sg. case sg_perf sg a of None \<Rightarrow> (Inl Fault, sg)
                 | Some sp \<Rightarrow> (let (ok, sp) = sp_ensure_mmap_buffer sp buffer_sz
                     in (Inr (if ok then Some a else None), sg\<lparr>sg_perf := (sg_perf sg)(a \<mapsto> sp)\<rparr>))) s)
        | _ \<Rightarrow> (Inl Fault, s)))"

end
