(* ===== verification/Shm_Api.thy ===== *)
theory Shm_Api
  imports Shm_Internal
begin

text \<open>
  The C interface of the runtime (src/bpftime_shm.cpp): what the syscall server, the agent and the
  helpers call. Most functions pass their arguments on to \<^verbatim>\<open>bpftime_shm\<close>; this theory has the ones with
  behaviour of their own: map calls that turn exceptions into -1, ring buffer and perf event access by
  descriptor, the encoding of map descriptors as pointers, and \<^verbatim>\<open>bpftime_epoll_wait\<close>, a polling loop
  over the files of an epoll instance.
\<close>

section \<open>Map calls\<close>

text \<open>\<^verbatim>\<open>catch (std::exception &)\<close>: -1 or null, \<^verbatim>\<open>errno\<close> as it was.\<close>

definition catching :: "'a res \<times> 's \<Rightarrow> 'a res \<times> 's" where
  "catching out = (case out of (Inl Throw, s) \<Rightarrow> (Inl Silent, s) | _ \<Rightarrow> out)"

definition bpftime_helper_map_get_next_key :: "'w map_env \<Rightarrow> int \<Rightarrow> bytes option \<Rightarrow> 'w shm \<Rightarrow> bytes res \<times> 'w shm" where
  "bpftime_helper_map_get_next_key env fd key s = catching (shm_map_get_next_key env fd key False s)"

definition bpftime_map_lookup_elem :: "'w map_env \<Rightarrow> int \<Rightarrow> bytes option \<Rightarrow> 'w shm \<Rightarrow> ptr res \<times> 'w shm" where
  "bpftime_map_lookup_elem env fd key s = catching (shm_map_lookup_elem env fd key True s)"

definition bpftime_map_update_elem ::
  "'w map_env \<Rightarrow> int \<Rightarrow> bytes option \<Rightarrow> bytes \<Rightarrow> u64 \<Rightarrow> 'w shm \<Rightarrow> int res \<times> 'w shm" where
  "bpftime_map_update_elem env fd key val flags s = catching (shm_map_update_elem env fd key val flags True s)"

definition bpftime_map_delete_elem :: "'w map_env \<Rightarrow> int \<Rightarrow> bytes option \<Rightarrow> 'w shm \<Rightarrow> int res \<times> 'w shm" where
  "bpftime_map_delete_elem env fd key s = catching (shm_delete_elem env fd key True s)"

definition bpftime_map_get_next_key :: "'w map_env \<Rightarrow> int \<Rightarrow> bytes option \<Rightarrow> 'w shm \<Rightarrow> bytes res \<times> 'w shm" where
  "bpftime_map_get_next_key env fd key s = catching (shm_map_get_next_key env fd key True s)"

definition bpftime_kprobe_create ::
  "'w map_env \<Rightarrow> (nat \<Rightarrow> int) \<Rightarrow> int \<Rightarrow> string \<Rightarrow> u64 \<Rightarrow> bool \<Rightarrow> nat \<Rightarrow> 'w shm \<Rightarrow> int res \<times> 'w shm" where
  "bpftime_kprobe_create env kfd fd func_name addr retprobe ref_ctr_off =
     add_kprobe env kfd (if fd = - 1 then None else Some fd) func_name addr retprobe ref_ctr_off"

definition bpftime_map_get_info :: "'w shm \<Rightarrow> int \<Rightarrow> (bpf_map_attr \<times> string \<times> int) res" where
  "bpftime_map_get_info s fd = (case shm_handler s fd of
     Some (MapH m) \<Rightarrow> Inr (mh_attr m, mh_name m, mh_type m) | _ \<Rightarrow> Inl (Errno ENOENT))"

section \<open>Forwarded calls\<close>

text \<open>The functions that only choose arguments.\<close>

definition bpftime_link_create :: "'w map_env \<Rightarrow> (nat \<Rightarrow> int) \<Rightarrow> int \<Rightarrow> link_args option \<Rightarrow> 'w shm \<Rightarrow> int res \<times> 'w shm" where
  "bpftime_link_create env kfd fd args = add_bpf_link env kfd fd args"

definition bpftime_progs_create ::
  "'w map_env \<Rightarrow> (nat \<Rightarrow> int) \<Rightarrow> int \<Rightarrow> u64 list \<Rightarrow> string \<Rightarrow> int \<Rightarrow> 'w shm \<Rightarrow> int res \<times> 'w shm" where
  "bpftime_progs_create env kfd fd insn prog_name prog_type = add_bpf_prog env kfd fd insn prog_name prog_type"

definition bpftime_maps_create ::
  "'w map_env \<Rightarrow> (nat \<Rightarrow> int) \<Rightarrow> int \<Rightarrow> string \<Rightarrow> bpf_map_attr \<Rightarrow> 'w shm \<Rightarrow> int res \<times> 'w shm" where
  "bpftime_maps_create env kfd fd nm attr = add_bpf_map env kfd fd nm attr"

definition bpftime_maps_dup :: "'w map_env \<Rightarrow> (nat \<Rightarrow> int) \<Rightarrow> int \<Rightarrow> int \<Rightarrow> 'w shm \<Rightarrow> int res \<times> 'w shm" where
  "bpftime_maps_dup env kfd oldfd newfd = dup_bpf_map env kfd oldfd newfd"

definition bpftime_uprobe_create ::
  "'w map_env \<Rightarrow> (nat \<Rightarrow> int) \<Rightarrow> int \<Rightarrow> int \<Rightarrow> string \<Rightarrow> u64 \<Rightarrow> bool \<Rightarrow> nat \<Rightarrow> 'w shm \<Rightarrow> int res \<times> 'w shm" where
  "bpftime_uprobe_create env kfd fd pid nm offset retprobe ref_ctr_off =
     add_uprobe env kfd fd pid nm offset retprobe ref_ctr_off"

definition bpftime_attach_perf_to_bpf :: "'w map_env \<Rightarrow> (nat \<Rightarrow> int) \<Rightarrow> int \<Rightarrow> int \<Rightarrow> 'w shm \<Rightarrow> int res \<times> 'w shm" where
  "bpftime_attach_perf_to_bpf env kfd perf_fd bpf_fd = attach_perf_to_bpf env kfd perf_fd bpf_fd None"

definition bpftime_attach_perf_to_bpf_with_cookie ::
  "'w map_env \<Rightarrow> (nat \<Rightarrow> int) \<Rightarrow> int \<Rightarrow> int \<Rightarrow> u64 \<Rightarrow> 'w shm \<Rightarrow> int res \<times> 'w shm" where
  "bpftime_attach_perf_to_bpf_with_cookie env kfd perf_fd bpf_fd cookie =
     attach_perf_to_bpf env kfd perf_fd bpf_fd (Some cookie)"

definition bpftime_add_ureplace_or_override ::
  "'w map_env \<Rightarrow> (nat \<Rightarrow> int) \<Rightarrow> int \<Rightarrow> int \<Rightarrow> string \<Rightarrow> u64 \<Rightarrow> bool \<Rightarrow> 'w shm \<Rightarrow> int res \<times> 'w shm" where
  "bpftime_add_ureplace_or_override env kfd fd pid nm offset is_replace =
     add_uprobe_override env kfd fd pid nm offset is_replace"

definition bpftime_close :: "'w map_env \<Rightarrow> int \<Rightarrow> 'w shm \<Rightarrow> unit res \<times> 'w shm" where
  "bpftime_close env fd = close_fd env fd"

section \<open>Ring buffers and arrays by descriptor\<close>

text \<open>A call on the object at a pointer; null and dangling pointers fault.\<close>

definition on_ringbuf :: "nat option \<Rightarrow> (ringbuf \<Rightarrow> 'a res \<times> ringbuf) \<Rightarrow> 'w shm \<Rightarrow> 'a res \<times> 'w shm" where
  "on_ringbuf p f = on_segment (\<lambda>sg. case p of None \<Rightarrow> (Inl Fault, sg)
     | Some a \<Rightarrow> (case sg_objs sg a of
         Some (IRingbuf rb) \<Rightarrow> (let (r, rb) = f rb in (r, set_obj a (IRingbuf rb) sg))
       | _ \<Rightarrow> (Inl Fault, sg)))"

definition bpftime_get_array_map_raw_data :: "'w shm \<Rightarrow> int \<Rightarrow> ptr res" where
  "bpftime_get_array_map_raw_data s fd = (case shm_try_get_array_map_impl s fd of
     None \<Rightarrow> Inl (Errno EINVAL)
   | Some p \<Rightarrow> (case (sh_manager s, p) of
         (Some mg, Some a) \<Rightarrow> (case sg_objs (mg_segment mg) a of Some (IArray m) \<Rightarrow> Inr (PData 0) | _ \<Rightarrow> Inl Fault)
       | _ \<Rightarrow> Inl Fault))"

text \<open>The two pages hold the positions; what a caller reads there.\<close>

definition bpftime_get_ringbuf_consumer_page :: "int \<Rightarrow> 'w shm \<Rightarrow> nat res \<times> 'w shm" where
  "bpftime_get_ringbuf_consumer_page fd s = (case shm_try_get_ringbuf_map_impl s fd of
     None \<Rightarrow> (Inl (Errno EINVAL), s) | Some p \<Rightarrow> on_ringbuf p (\<lambda>rb. (Inr (rb_cons rb), rb)) s)"

definition bpftime_get_ringbuf_producer_page :: "int \<Rightarrow> 'w shm \<Rightarrow> nat res \<times> 'w shm" where
  "bpftime_get_ringbuf_producer_page fd s = (case shm_try_get_ringbuf_map_impl s fd of
     None \<Rightarrow> (Inl (Errno EINVAL), s) | Some p \<Rightarrow> on_ringbuf p (\<lambda>rb. (Inr (rb_prod rb), rb)) s)"

definition bpftime_ringbuf_reserve :: "int \<Rightarrow> nat \<Rightarrow> 'w shm \<Rightarrow> nat res \<times> 'w shm" where
  "bpftime_ringbuf_reserve fd sz s = (case shm_try_get_ringbuf_map_impl s fd of
     None \<Rightarrow> (Inl (Errno EINVAL), s)
   | Some p \<Rightarrow> on_ringbuf p (\<lambda>rb. case rb_reserve rb sz (word_of_int fd) of
         Inl e \<Rightarrow> (Inl e, rb) | Inr (sample, rb) \<Rightarrow> (Inr sample, rb)) s)"

definition bpftime_ringbuf_submit :: "int \<Rightarrow> nat \<Rightarrow> bool \<Rightarrow> 'w shm \<Rightarrow> unit res \<times> 'w shm" where
  "bpftime_ringbuf_submit fd sample discard s = (case shm_try_get_ringbuf_map_impl s fd of
     None \<Rightarrow> (Inl (Errno EINVAL), s)
   | Some p \<Rightarrow> on_ringbuf p (\<lambda>rb. case rb_submit rb sample discard of
         Inl e \<Rightarrow> (Inl e, rb) | Inr rb \<Rightarrow> (Inr (), rb)) s)"

text \<open>The samples the callback was called with are part of the result; \<open>fuel\<close> bounds the turns of
  \<^verbatim>\<open>fetch_data\<close>, and \<open>None\<close> says that it was not enough.\<close>

definition bpftime_poll_from_ringbuf ::
  "nat \<Rightarrow> int \<Rightarrow> (bytes \<Rightarrow> int) \<Rightarrow> 'w shm \<Rightarrow> (int \<times> bytes list) option res \<times> 'w shm" where
  "bpftime_poll_from_ringbuf fuel rb_fd cb s = (case shm_try_get_ringbuf_map_impl s rb_fd of
     None \<Rightarrow> (Inl (NegErrno EINVAL), s)
   | Some p \<Rightarrow> on_ringbuf p (\<lambda>rb. case rb_fetch_data fuel cb rb of
         Fetched n out rb \<Rightarrow> (Inr (Some (n, out)), rb)
       | Crashed \<Rightarrow> (Inl Fault, rb)
       | Starved \<Rightarrow> (Inr None, rb)) s)"

section \<open>Perf events\<close>

definition bpftime_perf_event_output :: "int \<Rightarrow> bytes \<Rightarrow> 'w shm \<Rightarrow> int res \<times> 'w shm" where
  "bpftime_perf_event_output fd buf s = (case shm_handler s fd of
     Some (PerfH p) \<Rightarrow> (case pf_data p of
         Software a \<Rightarrow> on_segment (\<lambda>sg. case sg_perf sg a of
             None \<Rightarrow> (Inl Fault, sg)
           | Some sp \<Rightarrow> (case sp_output_data sp buf of Inl e \<Rightarrow> (Inl e, sg)
               | Inr sp \<Rightarrow> (Inr 0, sg\<lparr>sg_perf := (sg_perf sg)(a \<mapsto> sp)\<rparr>))) s
       | _ \<Rightarrow> (Inl (Errno ENOTSUP), s))
   | _ \<Rightarrow> (Inl (Errno EINVAL), s))"

definition bpftime_get_software_perf_event_raw_buffer :: "int \<Rightarrow> nat \<Rightarrow> 'w shm \<Rightarrow> nat option res \<times> 'w shm" where
  "bpftime_get_software_perf_event_raw_buffer fd expected_size s = get_software_perf_event_raw_buffer fd expected_size s"

text \<open>Output through a kernel-user perf event array: \<open>out\<close> stands for
  \<^verbatim>\<open>output_data_into_kernel\<close>, which returns -1 (a sample that is too large), 0, or the \<^verbatim>\<open>errno\<close> of a
  failed reservation, a positive number that the caller takes for success. Its -1 becomes
  \<^verbatim>\<open>errno = -err\<close>, that is \<^verbatim>\<open>EPERM\<close>.\<close>

definition bpftime_shared_perf_event_output ::
  "(nat option \<Rightarrow> bytes \<Rightarrow> 'w \<Rightarrow> int \<times> 'w) \<Rightarrow> int \<Rightarrow> bytes \<Rightarrow> 'w shm \<Rightarrow> int res \<times> 'w shm" where
  "bpftime_shared_perf_event_output out map_fd buf s = (case shm_handler s map_fd of
     Some (MapH m) \<Rightarrow>
       if mh_type m \<noteq> KERNEL_USER_MAP_OFFSET + BPF_MAP_TYPE_PERF_EVENT_ARRAY then (Inl (Errno EINVAL), s)
       else on_segment (\<lambda>sg. let (e, w) = out (mh_impl m) buf (sg_world sg) in
         (if e < 0 then Inl (Errno EPERM) else Inr 0, sg\<lparr>sg_world := w\<rparr>)) s
   | _ \<Rightarrow> (Inl (Errno EINVAL), s))"

section \<open>Map pointers\<close>

definition INVALID_MAP_PTR :: u64 where "INVALID_MAP_PTR = - 1"

definition map_ptr_by_fd :: "'w shm \<Rightarrow> u32 \<Rightarrow> u64" where
  "map_ptr_by_fd s fd =
     (if \<not> is_map_fd s (sint fd) then INVALID_MAP_PTR else push_bit 32 (ucast fd) OR 4294967295)"

text \<open>The first value of the map, as a program sees it.\<close>

definition map_val :: "'w map_env \<Rightarrow> u64 \<Rightarrow> 'w shm \<Rightarrow> ptr res \<times> 'w shm" where
  "map_val env map_ptr s =
     (let fd = sint (ucast (drop_bit 32 map_ptr) :: u32) in
      case shm_handler s fd of
        Some (MapH m) \<Rightarrow> on_segment (\<lambda>sg.
          case bpf_map_get_next_key env m None False sg of
            (Inl Fault, sg) \<Rightarrow> (Inl Fault, sg)
          | (Inl Throw, sg) \<Rightarrow> (Inl Throw, sg)
          | (Inl e, sg) \<Rightarrow> (Inl (Errno ENOENT), sg)
          | (Inr key, sg) \<Rightarrow> map_lookup_elem env m (Some key) False sg) s
      | _ \<Rightarrow> (Inl (Errno ENOENT), s))"

section \<open>epoll_wait\<close>

text \<open>Locking a weak pointer gives null once the object is gone.\<close>

definition file_ready :: "'w segment \<Rightarrow> file_ptr \<Rightarrow> bool res" where
  "file_ready sg f = (case f of
     WeakPerf a \<Rightarrow> (case sg_perf sg a of None \<Rightarrow> Inr False | Some sp \<Rightarrow> Inr (sp_has_data sp))
   | WeakRingbuf a \<Rightarrow> (case sg_objs sg a of Some (IRingbuf rb) \<Rightarrow> rb_has_data rb | _ \<Rightarrow> Inr False))"

text \<open>One pass over the files: \<open>evs\<close> are the entries of \<^verbatim>\<open>out_evts\<close> filled so far.\<close>

fun epoll_scan :: "'w segment \<Rightarrow> nat \<Rightarrow> epoll_file list \<Rightarrow> u64 list \<Rightarrow> u64 list res" where
  "epoll_scan sg max_evt [] evs = Inr evs"
| "epoll_scan sg max_evt (f # fs) evs =
     bindr (file_ready sg (ef_file f)) (\<lambda>ready.
       epoll_scan sg max_evt fs (if ready \<and> length evs < max_evt then evs @ [ef_data f] else evs))"

text \<open>The loop. Turn \<open>t\<close> sees the clock \<open>el t\<close> (milliseconds since the call), the segment \<open>segs t\<close> (other
  processes work on it meanwhile), and a signal if \<open>sig t\<close>; signals are let in only while nothing was
  found. \<open>files t\<close> are the files of the instance at that turn: the ones it had when the call began, and
  \<open>added t\<close>, added since (no operation removes one).\<close>

datatype epoll_result = Events "u64 list" | Interrupted | EpollFault err | StillWaiting

fun epoll_loop ::
  "nat \<Rightarrow> (nat \<Rightarrow> int) \<Rightarrow> (nat \<Rightarrow> epoll_file list) \<Rightarrow> (nat \<Rightarrow> 'w segment) \<Rightarrow> (nat \<Rightarrow> bool) \<Rightarrow> int \<Rightarrow> nat \<Rightarrow> nat \<Rightarrow> u64 list \<Rightarrow> epoll_result" where
  "epoll_loop 0 el files segs sig timeout max_evt t evs = StillWaiting"
| "epoll_loop (Suc fuel) el files segs sig timeout max_evt t evs =
     (if \<not> length evs < max_evt then Events evs
      else if timeout \<noteq> 0 \<and> timeout < el t then Events evs
      else case epoll_scan (segs t) max_evt (files t) evs of
          Inl e \<Rightarrow> EpollFault e
        | Inr evs \<Rightarrow>
            if 0 < length evs then epoll_loop fuel el files segs sig timeout max_evt (Suc t) evs
            else if sig t then Interrupted
            else epoll_loop fuel el files segs sig timeout max_evt (Suc t) evs)"

definition bpftime_epoll_wait ::
  "nat \<Rightarrow> (nat \<Rightarrow> int) \<Rightarrow> (nat \<Rightarrow> epoll_file list) \<Rightarrow> (nat \<Rightarrow> 'w segment) \<Rightarrow> (nat \<Rightarrow> bool) \<Rightarrow> int \<Rightarrow> nat \<Rightarrow> int \<Rightarrow> 'w shm \<Rightarrow>
     epoll_result res" where
  "bpftime_epoll_wait fuel el added segs sig fd max_evt timeout s =
     (case shm_handler s fd of
        Some (EpollH files) \<Rightarrow> Inr (epoll_loop fuel el (\<lambda>t. files @ added t) segs sig timeout max_evt 0 [])
      | _ \<Rightarrow> Inl (Errno EINVAL))"

section \<open>What epoll_wait reports\<close>

text \<open>A shared memory with one epoll instance, and a segment with a perf event that has data.\<close>

definition one_epoll :: "epoll_file list \<Rightarrow> unit shm" where
  "one_epoll files = \<lparr>sh_open_type = SHM_OPEN_ONLY,
     sh_manager = Some \<lparr>mg_handlers = [EpollH files], mg_segment = segment_new ()\<rparr>,
     sh_syscall_pids = None, sh_alive_pids = None, sh_agent_config = None, sh_local_config = None\<rparr>"

definition busy_segment :: "unit segment" where
  "busy_segment = (segment_new ())\<lparr>sg_perf := [0 \<mapsto> (software_perf_new 4096 0 0 0)\<lparr>sp_head := 8\<rparr>]\<rparr>"

lemma one_epoll_handler: "shm_handler (one_epoll files) 0 = Some (EpollH files)"
  by (simp add: shm_handler_def one_epoll_def)

lemma busy_segment_ready: "file_ready busy_segment (WeakPerf 0) = Inr True"
  by (simp add: file_ready_def busy_segment_def sp_has_data_def software_perf_new_def)

definition was_ready :: "(nat \<Rightarrow> 'w segment) \<Rightarrow> (nat \<Rightarrow> epoll_file list) \<Rightarrow> u64 \<Rightarrow> bool" where
  "was_ready segs files d \<longleftrightarrow> (\<exists>t. \<exists>f \<in> set (files t). ef_data f = d \<and> file_ready (segs t) (ef_file f) = Inr True)"

lemma epoll_scan_ready:
  assumes "epoll_scan (segs t) max_evt fs evs = Inr evs'" "set fs \<subseteq> set (files t)" "length evs \<le> max_evt"
  shows "\<exists>new. evs' = evs @ new \<and> length evs' \<le> max_evt \<and> (\<forall>d \<in> set new. was_ready segs files d)"
  using assms
proof (induction fs arbitrary: evs)
  case (Cons f fs)
  then obtain ready where r: "file_ready (segs t) (ef_file f) = Inr ready"
    and rest: "epoll_scan (segs t) max_evt fs (if ready \<and> length evs < max_evt then evs @ [ef_data f] else evs) = Inr evs'"
    by (auto simp: bindr_eq_Inr)
  show ?case
  proof (cases "ready \<and> length evs < max_evt")
    case True
    then have "epoll_scan (segs t) max_evt fs (evs @ [ef_data f]) = Inr evs'" "length (evs @ [ef_data f]) \<le> max_evt"
      using rest by auto
    with Cons.IH [of "evs @ [ef_data f]"] Cons.prems(2) obtain new where
      "evs' = (evs @ [ef_data f]) @ new" "length evs' \<le> max_evt" "\<forall>d \<in> set new. was_ready segs files d"
      by auto
    moreover have "was_ready segs files (ef_data f)"
      using r True Cons.prems(2) by (auto simp: was_ready_def)
    ultimately show ?thesis by auto
  next
    case False
    with Cons.IH [of evs] rest Cons.prems show ?thesis by auto
  qed
qed simp

lemma epoll_loop_ready:
  assumes "epoll_loop fuel el files segs sig timeout max_evt t evs = Events out" "length evs \<le> max_evt"
    and "\<forall>d \<in> set evs. was_ready segs files d"
  shows "length out \<le> max_evt \<and> (\<forall>d \<in> set out. was_ready segs files d)"
  using assms
proof (induction fuel arbitrary: t evs)
  case (Suc fuel)
  show ?case
  proof (cases "\<not> length evs < max_evt \<or> timeout \<noteq> 0 \<and> timeout < el t")
    case True
    with Suc.prems show ?thesis by (auto split: if_splits)
  next
    case False
    with Suc.prems(1) obtain evs' where sc: "epoll_scan (segs t) max_evt (files t) evs = Inr evs'"
      and lp: "epoll_loop fuel el files segs sig timeout max_evt (Suc t) evs' = Events out"
      by (auto split: sum.splits if_splits)
    from epoll_scan_ready [of segs t max_evt "files t" evs evs' files] sc Suc.prems(2) obtain new where
      "evs' = evs @ new" "length evs' \<le> max_evt" "\<forall>d \<in> set new. was_ready segs files d" by auto
    with Suc.IH [OF lp] Suc.prems(3) show ?thesis by auto
  qed
qed simp

text \<open>epoll_wait, results: it never fills more entries than the caller asked for, and every event
  it reports belongs to a file of the instance that had data at some turn of the call.\<close>

theorem epoll_wait_reports_ready:
  assumes "shm_handler s fd = Some (EpollH files)"
    and "bpftime_epoll_wait fuel el added segs sig fd max_evt timeout s = Inr (Events out)"
  shows "length out \<le> max_evt \<and> (\<forall>d \<in> set out. was_ready segs (\<lambda>t. files @ added t) d)"
  using assms epoll_loop_ready [of fuel el "\<lambda>t. files @ added t" segs sig timeout max_evt 0 "[]" out]
  by (simp add: bpftime_epoll_wait_def)

theorem epoll_wait_reports_ready_witness:
  "was_ready (\<lambda>t. busy_segment) (\<lambda>t. [\<lparr>ef_file = WeakPerf 0, ef_data = 7\<rparr>]) 7"
proof -
  have "bpftime_epoll_wait 2 int (\<lambda>t. []) (\<lambda>t. busy_segment) (\<lambda>t. False) 0 1 5 (one_epoll [\<lparr>ef_file = WeakPerf 0, ef_data = 7\<rparr>]) =
    Inr (Events [7])"
    by (simp add: bpftime_epoll_wait_def one_epoll_handler busy_segment_ready numeral_2_eq_2)
  from epoll_wait_reports_ready [OF one_epoll_handler this] show ?thesis by simp
qed

lemma epoll_loop_ends:
  assumes "timeout \<noteq> 0" "timeout < el n" "t \<le> n" "n - t < fuel"
  shows "epoll_loop fuel el files segs sig timeout max_evt t evs \<noteq> StillWaiting"
  using assms(3,4)
proof (induction fuel arbitrary: t evs)
  case (Suc fuel)
  show ?case
  proof (cases "t = n")
    case True
    with assms show ?thesis by simp
  next
    case False
    with Suc.prems have "Suc t \<le> n" "n - Suc t < fuel" by auto
    with Suc.IH show ?thesis by (auto split: sum.split)
  qed
qed simp

text \<open>C40. epoll_wait, time limit: with a time limit that is not 0 the call returns by the first turn at
  which the clock is past the limit, whatever the files do.\<close>

theorem epoll_wait_returns:
  assumes "shm_handler s fd = Some (EpollH files)" "timeout \<noteq> 0" "timeout < el n"
  shows "\<exists>r. bpftime_epoll_wait (Suc n) el added segs sig fd max_evt timeout s = Inr r \<and> r \<noteq> StillWaiting"
  using assms(1) epoll_loop_ends [of timeout el n 0 "Suc n" "\<lambda>t. files @ added t" segs sig max_evt "[]"] assms(2,3)
  by (auto simp: bpftime_epoll_wait_def simp del: epoll_loop.simps)

theorem epoll_wait_returns_witness:
  "\<exists>r. bpftime_epoll_wait 3 int (\<lambda>t. []) (\<lambda>t. segment_new ()) (\<lambda>t. False) 0 4 1 (one_epoll [\<lparr>ef_file = WeakPerf 0, ef_data = 7\<rparr>]) =
     Inr r \<and> r \<noteq> StillWaiting"
  using epoll_wait_returns [of "one_epoll [\<lparr>ef_file = WeakPerf 0, ef_data = 7\<rparr>]" 0 _ 1 int 2]
  by (simp add: one_epoll_handler numeral_eq_Suc)

lemma epoll_scan_idle:
  "\<forall>f \<in> set fs. file_ready sg (ef_file f) = Inr False \<Longrightarrow> epoll_scan sg max_evt fs evs = Inr evs"
  by (induction fs) auto

lemma epoll_loop_idle:
  assumes "\<forall>t. \<forall>f \<in> set (files t). file_ready (segs t) (ef_file f) = Inr False" "\<forall>t. \<not> sig t" "0 < max_evt"
  shows "epoll_loop fuel el files segs sig 0 max_evt t [] = StillWaiting"
proof (induction fuel arbitrary: t)
  case (Suc fuel)
  then show ?case using assms epoll_scan_idle [of "files t" "segs t" max_evt "[]"] by simp
qed simp

text \<open>epoll_wait, the special time limits are swapped: with -1, which means to wait without limit, the
  call returns no event at once, even if files are ready; with 0, which means not to wait, it never
  returns while nothing is ready and no signal comes.\<close>

theorem epoll_wait_special_timeouts:
  assumes "shm_handler s fd = Some (EpollH files)" "0 < max_evt" "0 \<le> el 0"
  shows "bpftime_epoll_wait (Suc fuel) el added segs sig fd max_evt (- 1) s = Inr (Events []) \<and>
    ((\<forall>t. \<forall>f \<in> set (files @ added t). file_ready (segs t) (ef_file f) = Inr False) \<and> (\<forall>t. \<not> sig t) \<longrightarrow>
      bpftime_epoll_wait fuel el added segs sig fd max_evt 0 s = Inr StillWaiting)"
  using assms epoll_loop_idle [of "\<lambda>t. files @ added t" segs sig max_evt] by (auto simp: bpftime_epoll_wait_def)

theorem epoll_wait_special_timeouts_witness:
  "bpftime_epoll_wait 1 int (\<lambda>t. []) (\<lambda>t. busy_segment) (\<lambda>t. False) 0 1 (- 1) (one_epoll [\<lparr>ef_file = WeakPerf 0, ef_data = 7\<rparr>]) =
     Inr (Events [])"
  using epoll_wait_special_timeouts [of "one_epoll [\<lparr>ef_file = WeakPerf 0, ef_data = 7\<rparr>]" 0
      "[\<lparr>ef_file = WeakPerf 0, ef_data = 7\<rparr>]" 1 int 0 "\<lambda>t. []" "\<lambda>t. busy_segment" "\<lambda>t. False"]
  by (simp add: one_epoll_handler)

lemma epoll_loop_repeats:
  assumes "\<forall>t. file_ready (segs t) (ef_file f) = Inr True" "\<forall>t. el t \<le> timeout" "k \<le> n" "n - k < fuel" "0 < n"
  shows "epoll_loop fuel el (\<lambda>t. [f]) segs sig timeout n t (replicate k (ef_data f)) = Events (replicate n (ef_data f))"
  using assms(3,4)
proof (induction fuel arbitrary: k t)
  case (Suc fuel)
  show ?case
  proof (cases "k = n")
    case False
    then have k: "k < n" using Suc.prems by simp
    have "replicate k (ef_data f) @ [ef_data f] = replicate (Suc k) (ef_data f)"
      by (simp add: replicate_append_same)
    with Suc.IH [of "Suc k" "Suc t"] Suc.prems k assms(1,2) show ?thesis
      by (simp add: not_less [symmetric])
  qed simp
qed simp

text \<open>epoll_wait, repeated events: the loop goes on after a pass that found events until the caller's
  array is full or the time is up, so one file that stays ready fills the whole array.\<close>

theorem epoll_wait_repeats_events:
  assumes "shm_handler s fd = Some (EpollH [f])" "0 < n"
    and "\<forall>t. file_ready (segs t) (ef_file f) = Inr True" "\<forall>t. el t \<le> timeout"
  shows "bpftime_epoll_wait (Suc n) el (\<lambda>t. []) segs sig fd n timeout s = Inr (Events (replicate n (ef_data f)))"
  using assms epoll_loop_repeats [of segs f el timeout 0 n "Suc n" sig 0] by (simp add: bpftime_epoll_wait_def)

theorem epoll_wait_repeats_events_witness:
  "bpftime_epoll_wait 4 (\<lambda>t. 0) (\<lambda>t. []) (\<lambda>t. busy_segment) (\<lambda>t. False) 0 3 5 (one_epoll [\<lparr>ef_file = WeakPerf 0, ef_data = 7\<rparr>]) =
     Inr (Events [7, 7, 7])"
  using epoll_wait_repeats_events [OF one_epoll_handler, of 3 "\<lambda>t. busy_segment" "\<lparr>ef_file = WeakPerf 0, ef_data = 7\<rparr>"
      "\<lambda>t. 0" 5 "\<lambda>t. False"] busy_segment_ready
  by (simp add: numeral_eq_Suc del: epoll_loop.simps)

section \<open>Map pointers name their descriptor\<close>

lemma map_ptr_fd: "ucast (drop_bit 32 (push_bit 32 (ucast fd) OR 4294967295 :: u64)) = (fd :: u32)"
proof -
  have m: "(4294967295 :: u64) = mask 32" by (simp add: mask_eq_exp_minus_1)
  show ?thesis unfolding m by (rule bit_word_eqI) (auto simp: bit_simps)
qed

text \<open>Map pointers: the pointer a program gets for a map descriptor names that map. Reading the map
  through it gives the first value of an array map, and the pointer made for a descriptor that is not a
  map is never taken for one.\<close>

theorem map_ptr_round_trip:
  assumes "shm_handler s (sint fd) = Some (MapH m)" "sh_manager s = Some mg" "handler_ok env m (mg_segment mg)"
    and "mh_type m = BPF_MAP_TYPE_ARRAY" "0 < mh_max_entries m"
  shows "map_val env (map_ptr_by_fd s fd) s = (Inr (PData 0), s) \<and>
    (\<forall>fd'. \<not> is_map_fd s (sint fd') \<longrightarrow> map_val env (map_ptr_by_fd s fd') s = (Inl (Errno ENOENT), s))"
proof -
  from assms(3) obtain a im where at: "impl_at env m (mg_segment mg) = Inr (a, im)" and sf: "impl_safe env m im"
    by (auto simp: handler_ok_def)
  have k: "impl_kind im = KArray" using impl_at_Inr [OF at] assms(4) by (simp add: kind_of_def map_type_defs)
  then obtain ar where ar: "im = IArray ar" by (cases im) auto
  with sf have inv: "am_inv ar" "am_max_entries ar = mh_max_entries m" by (auto simp: impl_safe_def am_ok_def Let_def)
  have "am_elem_at ar 0 = Inr 0" using am_elem_at_inv [OF inv(1), of 0] inv(2) assms(5) by simp
  then have "am_elem_lookup ar (st32 0) = Inr (PData 0)" using inv(2) assms(5) by (simp add: am_elem_lookup_def)
  then have val: "map_val env (push_bit 32 (ucast fd) OR 4294967295) s = (Inr (PData 0), s)"
    unfolding map_val_def Let_def map_ptr_fd using assms(1,2,4) at ar
    by (simp add: on_segment_def bpf_map_get_next_key_def map_lookup_elem_def impl_next_def
        impl_lookup_def pure_call_def am_get_next_key_def kind_of_def map_type_defs)
  have inval: "shm_handler s (- 1) = None" using assms(2) by (simp add: shm_handler_def)
  have "(ucast (drop_bit 32 INVALID_MAP_PTR) :: u32) = - 1"
    by (rule bit_word_eqI) (auto simp: INVALID_MAP_PTR_def bit_simps)
  then have "sint (ucast (drop_bit 32 INVALID_MAP_PTR) :: u32) = - 1" by simp
  then have "map_val env INVALID_MAP_PTR s = (Inl (Errno ENOENT), s)" using inval by (simp add: map_val_def)
  with val assms(1) show ?thesis by (simp add: map_ptr_by_fd_def is_map_fd_def)
qed

theorem map_ptr_round_trip_witness:
  "let s = \<lparr>sh_open_type = SHM_OPEN_ONLY, sh_manager = Some \<lparr>mg_handlers = [MapH two_slots], mg_segment = two_slots_segment\<rparr>,
     sh_syscall_pids = None, sh_alive_pids = None, sh_agent_config = None, sh_local_config = None\<rparr>
   in map_val plain_env (map_ptr_by_fd s 0) s = (Inr (PData 0), s)"
proof -
  let ?mg = "\<lparr>mg_handlers = [MapH two_slots], mg_segment = two_slots_segment\<rparr>"
  let ?s = "\<lparr>sh_open_type = SHM_OPEN_ONLY, sh_manager = Some ?mg, sh_syscall_pids = None, sh_alive_pids = None, sh_agent_config = None, sh_local_config = None\<rparr>"
  have "handler_ok plain_env two_slots (mg_segment ?mg)"
    using am_inv_new [of 1 2] by (simp add: handler_ok_def impl_at_def impl_safe_def two_slots_def two_slots_segment_def
        map_handler_new_def plain_defs kind_of_def map_type_defs am_ok_def array_map_new_def)
  then have "map_val plain_env (map_ptr_by_fd ?s 0) ?s = (Inr (PData 0), ?s)"
    using map_ptr_round_trip [of ?s 0 two_slots ?mg plain_env]
    by (simp add: shm_handler_def two_slots_def map_handler_new_def plain_attr_def)
  then show ?thesis by (simp add: Let_def)
qed

end
