(* ===== verification/Shm_Life.thy ===== *)
theory Shm_Life
  imports Shm_Api
begin

text \<open>
  The life of the shared memory: the operations of \<^verbatim>\<open>bpftime_shm\<close> and of the C interface as the steps
  of a state machine, and what holds in every state they can reach from a newly created segment.
  \<open>reachable_consistent\<close>: every link names a live program, and every software perf event has data of its
  own that is alive. The theory also has the properties of single operations of the table that other
  processes rely on: fresh descriptors, attaching, duplicating a map, opening the segment.
\<close>

section \<open>Steps\<close>

datatype shm_op =
    OpKprobe int string u64 bool nat
  | OpUprobe int int string u64 bool nat
  | OpOverride int int string u64 bool
  | OpTracepoint int int int
  | OpSoftware u32 u32 u64
  | OpSoftwareFd int u32 u32 u64
  | OpCustom int string
  | OpAttach int int "u64 option"
  | OpAttachTarget int int "u64 option"
  | OpProg int "u64 list" string int
  | OpLink int "link_args option"
  | OpMap int string bpf_map_attr
  | OpDup int int
  | OpEpollCreate
  | OpEnable int
  | OpDisable int
  | OpEpollPerf int int u64
  | OpEpollRingbuf int int u64
  | OpClose int
  | OpRawBuffer int nat
  | OpPerfOutput int bytes
  | OpLookup int "bytes option" bool
  | OpUpdate int "bytes option" bytes u64 bool
  | OpDelete int "bytes option" bool
  | OpNext int "bytes option" bool
  | OpReserve int nat
  | OpSubmit int nat bool
  | OpPoll nat int "bytes \<Rightarrow> int"
  | OpMapVal u64

fun shm_run :: "'w map_env \<Rightarrow> (nat \<Rightarrow> int) \<Rightarrow> shm_op \<Rightarrow> 'w shm \<Rightarrow> 'w shm" where
  "shm_run env kfd (OpKprobe fd f a r c) s = snd (bpftime_kprobe_create env kfd fd f a r c s)"
| "shm_run env kfd (OpUprobe fd pid nm off r c) s = snd (add_uprobe env kfd fd pid nm off r c s)"
| "shm_run env kfd (OpOverride fd pid nm off r) s = snd (add_uprobe_override env kfd fd pid nm off r s)"
| "shm_run env kfd (OpTracepoint fd pid i) s = snd (add_tracepoint env kfd fd pid i s)"
| "shm_run env kfd (OpSoftware cpu st c) s = snd (add_software_perf_event env kfd cpu st c s)"
| "shm_run env kfd (OpSoftwareFd fd cpu st c) s = snd (add_software_perf_event_fd env fd cpu st c s)"
| "shm_run env kfd (OpCustom t a) s = snd (add_custom_perf_event env kfd t a s)"
| "shm_run env kfd (OpAttach p b c) s = snd (attach_perf_to_bpf env kfd p b c s)"
| "shm_run env kfd (OpAttachTarget p b c) s = snd (add_bpf_prog_attach_target env kfd p b c s)"
| "shm_run env kfd (OpProg fd i nm t) s = snd (add_bpf_prog env kfd fd i nm t s)"
| "shm_run env kfd (OpLink fd args) s = snd (add_bpf_link env kfd fd args s)"
| "shm_run env kfd (OpMap fd nm attr) s = snd (add_bpf_map env kfd fd nm attr s)"
| "shm_run env kfd (OpDup old new) s = snd (dup_bpf_map env kfd old new s)"
| "shm_run env kfd OpEpollCreate s = snd (epoll_create env kfd s)"
| "shm_run env kfd (OpEnable fd) s = snd (perf_event_enable fd s)"
| "shm_run env kfd (OpDisable fd) s = snd (perf_event_disable fd s)"
| "shm_run env kfd (OpEpollPerf p e d) s = snd (add_software_perf_event_to_epoll p e d s)"
| "shm_run env kfd (OpEpollRingbuf r e d) s = snd (add_ringbuf_to_epoll r e d s)"
| "shm_run env kfd (OpClose fd) s = snd (close_fd env fd s)"
| "shm_run env kfd (OpRawBuffer fd n) s = snd (get_software_perf_event_raw_buffer fd n s)"
| "shm_run env kfd (OpPerfOutput fd buf) s = snd (bpftime_perf_event_output fd buf s)"
| "shm_run env kfd (OpLookup fd key sys) s = snd (shm_map_lookup_elem env fd key sys s)"
| "shm_run env kfd (OpUpdate fd key val f sys) s = snd (shm_map_update_elem env fd key val f sys s)"
| "shm_run env kfd (OpDelete fd key sys) s = snd (shm_delete_elem env fd key sys s)"
| "shm_run env kfd (OpNext fd key sys) s = snd (shm_map_get_next_key env fd key sys s)"
| "shm_run env kfd (OpReserve fd n) s = snd (bpftime_ringbuf_reserve fd n s)"
| "shm_run env kfd (OpSubmit fd p d) s = snd (bpftime_ringbuf_submit fd p d s)"
| "shm_run env kfd (OpPoll fuel fd cb) s = snd (bpftime_poll_from_ringbuf fuel fd cb s)"
| "shm_run env kfd (OpMapVal p) s = snd (map_val env p s)"

text \<open>One step: some process runs one operation in its own environment (its CPU, its table of
  operations), with whatever descriptors the kernel gives it.\<close>

inductive shm_step :: "'w shm \<Rightarrow> 'w shm \<Rightarrow> bool" where
  run: "shm_step s (shm_run env kfd x s)"

inductive reachable :: "'w shm \<Rightarrow> bool" where
  created: "fst (bpftime_shm_new w SHM_REMOVE_AND_CREATE stored) = Inr s \<Longrightarrow> reachable s"
| stepped: "reachable s \<Longrightarrow> shm_step s s' \<Longrightarrow> reachable s'"

inductive_cases shm_stepE: "shm_step s s'"

section \<open>The invariant\<close>

definition live_prog :: "handler list \<Rightarrow> int \<Rightarrow> bool" where
  "live_prog hs fd \<longleftrightarrow> 0 \<le> fd \<and> nat fd < length hs \<and> (\<exists>p. hs ! nat fd = ProgH p)"

definition links_ok :: "handler list \<Rightarrow> bool" where
  "links_ok hs \<longleftrightarrow> (\<forall>i < length hs. \<forall>l. hs ! i = LinkH l \<longrightarrow> live_prog hs (lk_prog_id l))"

fun perf_addr :: "handler \<Rightarrow> nat option" where
  "perf_addr (PerfH p) = try_get_software_ptr p"
| "perf_addr h = None"

definition perf_ok :: "handler list \<Rightarrow> (nat \<rightharpoonup> software_perf) \<Rightarrow> nat \<Rightarrow> bool" where
  "perf_ok hs pm fresh \<longleftrightarrow> (\<forall>i < length hs. \<forall>a. perf_addr (hs ! i) = Some a \<longrightarrow> a \<in> dom pm) \<and>
     (\<forall>i < length hs. \<forall>j < length hs. \<forall>a. perf_addr (hs ! i) = Some a \<and> perf_addr (hs ! j) = Some a \<longrightarrow> i = j) \<and>
     (\<forall>a \<in> dom pm. a < fresh)"

definition mg_inv :: "'w manager \<Rightarrow> bool" where
  "mg_inv mg \<longleftrightarrow> links_ok (mg_handlers mg) \<and>
     perf_ok (mg_handlers mg) (sg_perf (mg_segment mg)) (sg_fresh (mg_segment mg))"

definition consistent :: "'w shm \<Rightarrow> bool" where
  "consistent s \<longleftrightarrow> (\<forall>mg. sh_manager s = Some mg \<longrightarrow> mg_inv mg)"

section \<open>What map calls leave alone\<close>

definition perf_frame :: "'w segment \<Rightarrow> 'w segment \<Rightarrow> bool" where
  "perf_frame sg sg' \<longleftrightarrow> dom (sg_perf sg') = dom (sg_perf sg) \<and> sg_fresh sg \<le> sg_fresh sg'"

lemma perf_frame_refl [simp]: "perf_frame sg sg"
  by (simp add: perf_frame_def)

lemma perf_frame_simps [simp]:
  "perf_frame sg (set_obj a im sg)" "perf_frame sg (sg\<lparr>sg_world := w\<rparr>)"
  "perf_frame sg (snd (pure_call r sg))" "perf_frame sg (snd (store_call a wrap r' sg))"
  "perf_frame sg (snd (world_call f sg))"
  by (auto simp: perf_frame_def set_obj_def pure_call_def store_call_def world_call_def Let_def split: sum.split prod.split)

lemma frame_lookup: "perf_frame sg (snd (map_lookup_elem env m key sys sg))"
  by (auto simp: map_lookup_elem_def impl_lookup_def split: sum.split option.split map_impl.split prod.split)

lemma frame_update: "perf_frame sg (snd (map_update_elem env m key val f sys sg))"
  by (auto simp: map_update_elem_def impl_update_def split: sum.split option.split map_impl.split prod.split)

lemma frame_delete: "perf_frame sg (snd (map_delete_elem env m key sys sg))"
  by (auto simp: map_delete_elem_def impl_delete_def split: sum.split option.split map_impl.split prod.split)

lemma frame_next: "perf_frame sg (snd (bpf_map_get_next_key env m key sys sg))"
  by (auto simp: bpf_map_get_next_key_def impl_next_def split: sum.split option.split map_impl.split prod.split)

lemma frame_new_impl: "new_impl env h sg = (r, sg') \<Longrightarrow> sg_perf sg' = sg_perf sg \<and> sg_fresh sg' = sg_fresh sg"
  by (auto simp: new_impl_def pure_call_def ku_construct_def world_call_def Let_def split: map_kind.splits prod.splits)

lemma frame_construct:
  assumes "construct env nm (new_impl env h) sg = (r, sg')"
  shows "sg_perf sg' = sg_perf sg \<and> sg_fresh sg \<le> sg_fresh sg'"
proof (cases "sg_names sg nm = None")
  case True
  obtain q sg1 where q: "new_impl env h sg = (q, sg1)" by fastforce
  with True assms frame_new_impl [OF q] show ?thesis by (cases q) (auto simp: construct_def)
qed (use assms in \<open>auto simp: construct_def\<close>)

lemma frame_init:
  assumes "map_init env m sg = (r, m', sg')"
  shows "sg_perf sg' = sg_perf sg \<and> sg_fresh sg \<le> sg_fresh sg'"
proof (cases "kind_of (me_libbpf env) (mh_type m) = KDefault")
  case True
  then show ?thesis using assms
    by (auto simp: map_init_def world_call_def Let_def split: if_splits sum.splits prod.splits option.splits)
next
  case False
  obtain q sg1 where q: "construct env (get_container_name m) (new_impl env m) sg = (q, sg1)" by fastforce
  with False assms frame_construct [OF q] show ?thesis
    by (cases q) (auto simp: map_init_def Let_def split: if_splits)
qed

lemma frame_destroy: "destroy_named env k nm sg = (r, sg') \<Longrightarrow> sg_perf sg' = sg_perf sg \<and> sg_fresh sg' = sg_fresh sg"
  by (auto simp: destroy_named_def split: if_splits option.splits)

lemma frame_free:
  assumes "map_free env m sg = (r, m', sg')"
  shows "sg_perf sg' = sg_perf sg \<and> sg_fresh sg' = sg_fresh sg"
proof (cases "free_kind_of (me_libbpf env) (mh_type m) = KDefault")
  case True
  then show ?thesis using assms
    by (auto simp: map_free_def Let_def split: sum.splits option.splits)
next
  case False
  with assms show ?thesis
    by (auto simp: map_free_def Let_def split: prod.splits dest: frame_destroy)
qed

lemma perf_ok_frame:
  assumes "perf_ok hs pm n" "dom pm' = dom pm" "n \<le> n'"
  shows "perf_ok hs pm' n'"
proof -
  have "\<forall>a \<in> dom pm. a < n" using assms(1) unfolding perf_ok_def by (elim conjE)
  then have "\<forall>a \<in> dom pm'. a < n'" using assms(2,3) by (metis less_le_trans)
  with assms(1) show ?thesis unfolding perf_ok_def assms(2) by (elim conjE) (intro conjI)
qed

section \<open>Preservation by the handler manager\<close>

lemma mg_inv_segment: "mg_inv mg \<Longrightarrow> perf_frame (mg_segment mg) sg \<Longrightarrow> mg_inv (mg\<lparr>mg_segment := sg\<rparr>)"
  using perf_ok_frame by (auto simp: mg_inv_def perf_frame_def)

lemma live_prog_update:
  "live_prog hs q \<Longrightarrow> \<nexists>p. hs ! i = ProgH p \<Longrightarrow> live_prog (hs[i := h]) q"
  by (cases "i = nat q") (auto simp: live_prog_def)

lemma links_ok_update:
  assumes "links_ok hs" "\<nexists>p. hs ! i = ProgH p" "\<And>l. h = LinkH l \<Longrightarrow> live_prog hs (lk_prog_id l)"
  shows "links_ok (hs[i := h])"
  unfolding links_ok_def
proof (intro allI impI)
  fix j l assume j: "j < length (hs[i := h])" "hs[i := h] ! j = LinkH l"
  then have "live_prog hs (lk_prog_id l)" using assms(1,3) by (cases "i = j") (auto simp: links_ok_def)
  then show "live_prog (hs[i := h]) (lk_prog_id l)" using assms(2) by (rule live_prog_update)
qed

lemma perf_addr_update:
  "i < length hs \<Longrightarrow> perf_addr h = None \<or> perf_addr h = perf_addr (hs ! i) \<Longrightarrow> j < length hs \<Longrightarrow>
     perf_addr (hs[i := h] ! j) = Some a \<Longrightarrow> perf_addr (hs ! j) = Some a"
  by (cases "i = j") auto

lemma perf_ok_update:
  assumes ok: "perf_ok hs pm n" and i: "i < length hs" and h: "perf_addr h = None \<or> perf_addr h = perf_addr (hs ! i)"
  shows "perf_ok (hs[i := h]) pm n"
  using perf_addr_update [OF i h] ok unfolding perf_ok_def length_list_update by blast

lemma mg_inv_put:
  assumes "mg_inv mg" "i < length (mg_handlers mg)" "\<nexists>p. mg_handlers mg ! i = ProgH p"
    and "\<And>l. h = LinkH l \<Longrightarrow> live_prog (mg_handlers mg) (lk_prog_id l)"
    and "perf_addr h = None \<or> perf_addr h = perf_addr (mg_handlers mg ! i)"
  shows "mg_inv (put_handler i h mg)"
  using assms links_ok_update perf_ok_update by (auto simp: mg_inv_def put_handler_def)

lemma mg_inv_set_handler:
  assumes inv: "mg_inv mg" and link: "\<And>l. h = LinkH l \<Longrightarrow> live_prog (mg_handlers mg) (lk_prog_id l)"
    and addr: "perf_addr h = None"
  shows "mg_inv (snd (set_handler env fd h mg))"
proof -
  have rel: "release h sg = sg" for sg :: "'a segment"
    using addr by (cases h) (auto simp: release_def try_get_software_ptr_def split: perf_data.splits)
  show ?thesis
  proof (cases "is_allocated mg fd \<or> h = Unused \<or> \<not> in_range mg fd")
    case True
    then show ?thesis using inv rel by (auto simp: set_handler_def)
  next
    case False
    then have slot: "nat fd < length (mg_handlers mg)" "mg_handlers mg ! nat fd = Unused"
      by (auto simp: is_allocated_def in_range_def)
    show ?thesis
    proof (cases "\<exists>m. h = MapH m")
      case True
      then obtain m where m: "h = MapH m" by blast
      obtain r m' sg' where i: "map_init env m (mg_segment mg) = (r, m', sg')" by (metis prod_cases3)
      have "mg_inv (mg\<lparr>mg_segment := sg'\<rparr>)"
        using frame_init [OF i] by (intro mg_inv_segment inv) (simp add: perf_frame_def)
      then have "mg_inv (put_handler (nat fd) (MapH m') (mg\<lparr>mg_segment := sg'\<rparr>))"
        using slot by (intro mg_inv_put) auto
      then show ?thesis using False m i by (simp add: set_handler_def)
    next
      case no_map: False
      then have "set_handler env fd h mg = (Inr fd, put_handler (nat fd) h mg)"
        using False by (cases h) (auto simp: set_handler_def)
      then show ?thesis using slot link addr by (auto intro: mg_inv_put [OF inv])
    qed
  qed
qed

lemma perf_ok_fresh:
  assumes "perf_ok hs pm n"
  shows "perf_ok hs (pm(n := None)) (n + 1)" "perf_ok hs (pm(n \<mapsto> sp)) (n + 1)"
    "i < length hs \<Longrightarrow> perf_addr (hs ! i) = None \<Longrightarrow> perf_addr h = Some n \<Longrightarrow> perf_ok (hs[i := h]) (pm(n \<mapsto> sp)) (n + 1)"
proof -
  have old: "a < n" if "j < length hs" "perf_addr (hs ! j) = Some a" for j a
    using that assms unfolding perf_ok_def by blast
  have "\<forall>a \<in> dom pm. a < n" using assms unfolding perf_ok_def by (elim conjE)
  then have dom: "\<forall>a \<in> dom pm. a < n + 1" by (metis less_SucI Suc_eq_plus1)
  have live: "a \<in> dom pm \<and> a \<noteq> n" if "j < length hs" "perf_addr (hs ! j) = Some a" for j a
    using that assms old [OF that] unfolding perf_ok_def by blast
  have uniq: "j = k" if "j < length hs" "k < length hs" "perf_addr (hs ! j) = Some a" "perf_addr (hs ! k) = Some a" for j k a
    using that assms unfolding perf_ok_def by blast
  show "perf_ok hs (pm(n := None)) (n + 1)" "perf_ok hs (pm(n \<mapsto> sp)) (n + 1)"
    unfolding perf_ok_def by (intro conjI allI impI ballI; use live uniq dom in auto)+
  assume i: "i < length hs" "perf_addr (hs ! i) = None" "perf_addr h = Some n"
  have a: "perf_addr (hs[i := h] ! j) = (if j = i then Some n else perf_addr (hs ! j))" if "j < length hs" for j
    using that i by auto
  show "perf_ok (hs[i := h]) (pm(n \<mapsto> sp)) (n + 1)"
    unfolding perf_ok_def length_list_update
  proof (intro conjI allI impI)
    fix j k b assume jk: "j < length hs" "k < length hs" "perf_addr (hs[i := h] ! j) = Some b \<and> perf_addr (hs[i := h] ! k) = Some b"
    then show "j = k" using a [of j] a [of k] live [of j b] live [of k b] uniq [of j k b] by (auto split: if_splits)
  next
    fix j b assume "j < length hs" "perf_addr (hs[i := h] ! j) = Some b"
    then show "b \<in> dom (pm(n \<mapsto> sp))" using a [of j] live [of j b] by (auto split: if_splits)
  qed (use dom in auto)
qed

lemma mg_inv_software:
  assumes inv: "mg_inv mg" and a: "perf_construct sp (mg_segment mg) = (a, sg)"
  shows "mg_inv (snd (set_handler env fd (PerfH (software_handler_new a)) (mg\<lparr>mg_segment := sg\<rparr>)))"
proof -
  let ?sg = "mg_segment mg"
  have sg: "a = sg_fresh ?sg" "sg_fresh sg = sg_fresh ?sg + 1" "sg_perf sg = (sg_perf ?sg)(a \<mapsto> sp)"
    using a by (auto simp: perf_construct_def)
  have ok: "links_ok (mg_handlers mg)" "perf_ok (mg_handlers mg) (sg_perf ?sg) (sg_fresh ?sg)"
    using inv by (auto simp: mg_inv_def)
  consider "is_allocated mg fd" | "\<not> is_allocated mg fd" "\<not> in_range mg fd" | "\<not> is_allocated mg fd" "in_range mg fd" by blast
  then show ?thesis
  proof cases
    case 1
    then show ?thesis using ok perf_ok_fresh(1) [OF ok(2)] sg
      by (simp add: set_handler_def mg_inv_def is_allocated_def release_def software_handler_new_def)
  next
    case 2
    then show ?thesis using ok perf_ok_fresh(2) [OF ok(2)] sg
      by (auto simp: set_handler_def mg_inv_def is_allocated_def in_range_def)
  next
    case 3
    then have slot: "nat fd < length (mg_handlers mg)" "mg_handlers mg ! nat fd = Unused"
      by (auto simp: is_allocated_def in_range_def)
    have "perf_ok ((mg_handlers mg)[nat fd := PerfH (software_handler_new a)]) (sg_perf sg) (sg_fresh sg)"
      using perf_ok_fresh(3) [OF ok(2) slot(1)] slot(2) sg
      by (simp add: software_handler_new_def try_get_software_ptr_def)
    moreover have "links_ok ((mg_handlers mg)[nat fd := PerfH (software_handler_new a)])"
      using slot by (intro links_ok_update ok) auto
    ultimately show ?thesis using 3
      by (simp add: set_handler_def is_allocated_def in_range_def put_handler_def mg_inv_def)
  qed
qed

text \<open>Closing: the slot and its links go, together with the data of the slot itself.\<close>

lemma cleared_nth:
  "j < length hs \<Longrightarrow> cleared fd hs ! j = (if j = nat fd \<or> refers (hs ! nat fd) fd (hs ! j) then Unused else hs ! j)"
  by (cases "j = nat fd") (auto simp: cleared_def)

lemma refers_link: "refers h fd h' \<Longrightarrow> \<exists>l. h' = LinkH l"
  by (cases h) (auto dest: links_to_link)

lemma links_ok_cleared:
  assumes ok: "links_ok hs" and fd: "0 \<le> fd"
  shows "links_ok (cleared fd hs)"
  unfolding links_ok_def
proof (intro allI impI)
  fix j l assume j: "j < length (cleared fd hs)" "cleared fd hs ! j = LinkH l"
  then have l: "hs ! j = LinkH l" "\<not> refers (hs ! nat fd) fd (hs ! j)" by (auto simp: cleared_nth split: if_splits)
  let ?q = "lk_prog_id l"
  obtain p where q: "0 \<le> ?q" "nat ?q < length hs" "hs ! nat ?q = ProgH p"
    using ok l j by (auto simp: links_ok_def live_prog_def)
  have "nat ?q \<noteq> nat fd" using q l fd by (auto simp: eq_nat_nat_iff)
  moreover have "\<not> refers (hs ! nat fd) fd (hs ! nat ?q)" using q refers_link by fastforce
  ultimately show "live_prog (cleared fd hs) ?q" using q by (auto simp: live_prog_def cleared_nth)
qed

lemma perf_ok_cleared:
  assumes ok: "perf_ok hs (sg_perf sg) n" and fd: "nat fd < length hs"
  shows "perf_ok (cleared fd hs) (sg_perf (release (hs ! nat fd) sg)) n"
proof -
  have addr: "perf_addr (hs ! j) = Some a \<and> j \<noteq> nat fd" if "j < length hs" "perf_addr (cleared fd hs ! j) = Some a" for j a
    using that by (auto simp: cleared_nth split: if_splits)
  have rel: "sg_perf (release h sg) = (case perf_addr h of None \<Rightarrow> sg_perf sg | Some a \<Rightarrow> (sg_perf sg)(a := None))" for h
    by (auto simp: release_def try_get_software_ptr_def split: handler.split perf_data.split)
  have live: "a \<in> dom (sg_perf sg)" if "j < length hs" "perf_addr (hs ! j) = Some a" for j a
    using that ok unfolding perf_ok_def by blast
  have uniq: "j = k" if "j < length hs" "k < length hs" "perf_addr (hs ! j) = Some a" "perf_addr (hs ! k) = Some a" for j k a
    using that ok unfolding perf_ok_def by blast
  have dom: "dom (sg_perf (release (hs ! nat fd) sg)) \<subseteq> dom (sg_perf sg)" by (auto simp: rel split: option.splits if_splits)
  show ?thesis
    unfolding perf_ok_def length_cleared
  proof (intro conjI allI impI ballI)
    fix j a assume "j < length hs" "perf_addr (cleared fd hs ! j) = Some a"
    then have a: "perf_addr (hs ! j) = Some a" "j \<noteq> nat fd" "j < length hs" using addr by auto
    then have "perf_addr (hs ! nat fd) \<noteq> Some a" using uniq fd by blast
    then show "a \<in> dom (sg_perf (release (hs ! nat fd) sg))"
      using live [OF a(3,1)] by (auto simp: rel split: option.split)
  next
    fix a assume "a \<in> dom (sg_perf (release (hs ! nat fd) sg))"
    then show "a < n" using dom ok unfolding perf_ok_def by blast
  qed (use addr uniq in blast)
qed

lemma clear_id_at_not_map:
  assumes "in_range mg fd" "\<nexists>m. mg_handlers mg ! nat fd = MapH m"
  shows "clear_id_at env fd mg = (Inr (), \<lparr>mg_handlers = cleared fd (mg_handlers mg),
    mg_segment = release (mg_handlers mg ! nat fd) (mg_segment mg)\<rparr>)"
proof -
  have r: "0 \<le> fd" "nat fd < length (mg_handlers mg)" "fd < int (length (mg_handlers mg))"
    using assms(1) by (auto simp: in_range_def)
  have two: "clear_id_at env fd mg = clear_depth (Suc (Suc 0)) env fd mg" by (simp add: clear_id_at_def numeral_2_eq_2)
  show ?thesis
    unfolding two clear_depth.simps(2) [of "Suc 0"] clear_links_all using r assms(2)
    by (cases "mg_handlers mg ! nat fd") (auto simp: cleared_def drop_slot_def put_handler_def)
qed

lemma mg_inv_clear:
  assumes inv: "mg_inv mg"
  shows "mg_inv (snd (clear_id_at env fd mg))"
proof (cases "in_range mg fd")
  case False
  then have "clear_id_at env fd mg = (Inr (), mg)" by (auto simp: in_range_def clear_id_at_def numeral_2_eq_2)
  with inv show ?thesis by simp
next
  case True
  then have fd: "0 \<le> fd" "nat fd < length (mg_handlers mg)" "fd < int (length (mg_handlers mg))" by (auto simp: in_range_def)
  show ?thesis
  proof (cases "\<exists>m. mg_handlers mg ! nat fd = MapH m")
    case False
    with True have "clear_id_at env fd mg = (Inr (), \<lparr>mg_handlers = cleared fd (mg_handlers mg),
      mg_segment = release (mg_handlers mg ! nat fd) (mg_segment mg)\<rparr>)" by (rule clear_id_at_not_map)
    moreover have "sg_fresh (release h sg) = sg_fresh sg" for h and sg :: "'a segment"
      by (auto simp: release_def split: handler.split perf_data.split)
    ultimately show ?thesis using inv fd links_ok_cleared perf_ok_cleared by (auto simp: mg_inv_def)
  next
    case map: True
    then obtain m where m: "mg_handlers mg ! nat fd = MapH m" by blast
    obtain r m' sg' where f: "map_free env m (mg_segment mg) = (r, m', sg')" by (metis prod_cases3)
    have s: "mg_inv (mg\<lparr>mg_segment := sg'\<rparr>)"
      using frame_free [OF f] by (intro mg_inv_segment inv) (simp add: perf_frame_def)
    then have "mg_inv (put_handler (nat fd) h (mg\<lparr>mg_segment := sg'\<rparr>))" if "h = Unused \<or> h = MapH m'" for h
      using that fd m by (intro mg_inv_put) auto
    then have "mg_inv (put_handler (nat fd) (MapH m') (mg\<lparr>mg_segment := sg'\<rparr>))"
      "mg_inv (put_handler (nat fd) Unused (mg\<lparr>mg_segment := sg'\<rparr>))" by auto
    then show ?thesis using f m fd
      by (auto simp: clear_id_at_def numeral_2_eq_2 drop_slot_def put_handler_def release_def split: sum.split)
  qed
qed

section \<open>Preservation by every operation\<close>

lemma consistent_with:
  assumes "consistent s" "\<And>mg. sh_manager s = Some mg \<Longrightarrow> mg_inv mg \<Longrightarrow> mg_inv (snd (f mg))"
  shows "consistent (snd (with_manager f s))"
  using assms by (auto simp: consistent_def with_manager_def split: option.split prod.splits)

lemma consistent_segment:
  assumes "consistent s" "\<And>sg. perf_frame sg (snd (f sg))"
  shows "consistent (snd (on_segment f s))"
proof (cases "sh_manager s")
  case (Some mg)
  obtain r sg where f: "f (mg_segment mg) = (r, sg)" by fastforce
  have "mg_inv (mg\<lparr>mg_segment := sg\<rparr>)"
    using assms(1) Some assms(2) [of "mg_segment mg"] f by (auto simp: consistent_def intro: mg_inv_segment)
  then show ?thesis using Some f by (simp add: consistent_def on_segment_def)
qed (use assms in \<open>simp add: on_segment_def\<close>)

lemma consistent_set:
  assumes "consistent s" "perf_addr h = None"
    and "\<And>l mg. h = LinkH l \<Longrightarrow> sh_manager s = Some mg \<Longrightarrow> live_prog (mg_handlers mg) (lk_prog_id l)"
  shows "consistent (snd (shm_set env fd h s))"
  using assms by (intro consistent_with mg_inv_set_handler) auto

lemma shm_handler_at:
  "shm_handler s fd = Some h \<Longrightarrow> sh_manager s = Some mg \<Longrightarrow>
     0 \<le> fd \<and> nat fd < length (mg_handlers mg) \<and> mg_handlers mg ! nat fd = h"
  by (auto simp: shm_handler_def split: if_splits)

lemma is_prog_live: "is_prog_fd s fd \<Longrightarrow> sh_manager s = Some mg \<Longrightarrow> live_prog (mg_handlers mg) fd"
  using shm_handler_at by (fastforce simp: is_prog_fd_def live_prog_def split: option.splits handler.splits)

lemma consistent_replace:
  assumes "consistent s" "shm_handler s fd = Some h0" "\<nexists>p. h0 = ProgH p" "\<nexists>l. h = LinkH l"
    and "perf_addr h = None \<or> perf_addr h = perf_addr h0"
  shows "consistent (snd (with_manager (\<lambda>mg. (r, put_handler (nat fd) h mg)) s))"
  using assms shm_handler_at [OF assms(2)] by (intro consistent_with) (auto intro: mg_inv_put)

lemma plain_software_ptr [simp]:
  "try_get_software_ptr (kprobe_perf_new r a f c) = None" "try_get_software_ptr (uprobe_perf_new r off pid nm c) = None"
  "try_get_software_ptr (override_perf_new t off pid nm e) = None" "try_get_software_ptr (tracepoint_perf_new pid i) = None"
  "try_get_software_ptr (custom_perf_new t arg) = None"
  "try_get_software_ptr (pf_enable p) = try_get_software_ptr p" "try_get_software_ptr (pf_disable p) = try_get_software_ptr p"
  by (simp_all add: try_get_software_ptr_def kprobe_perf_new_def uprobe_perf_new_def override_perf_new_def
      tracepoint_perf_new_def custom_perf_new_def pf_enable_def pf_disable_def)

lemma snd_dropped_result [simp]:
  "snd (case out of (Inl Fault, s) \<Rightarrow> (Inl Fault, s) | (_, s) \<Rightarrow> (Inr fd, s)) = snd out"
  by (auto split: prod.split sum.split err.split)

lemma consistent_probes:
  assumes "consistent s"
  shows "consistent (snd (bpftime_kprobe_create env kfd fd f a r c s))"
    "consistent (snd (add_uprobe env kfd fd pid nm off r c s))"
    "consistent (snd (add_uprobe_override env kfd fd pid nm off r s))"
    "consistent (snd (add_tracepoint env kfd fd pid i s))"
    "consistent (snd (add_custom_perf_event env kfd t attach s))"
    "consistent (snd (add_bpf_prog env kfd fd insns nm t s))"
  using assms by (auto simp: bpftime_kprobe_create_def add_kprobe_def add_uprobe_def add_uprobe_override_def
      add_tracepoint_def add_custom_perf_event_def add_bpf_prog_def Let_def intro!: consistent_set)

lemma consistent_maps:
  assumes "consistent s"
  shows "consistent (snd (add_bpf_map env kfd fd nm attr s))"
    "consistent (snd (dup_bpf_map env kfd old new s))"
    "consistent (snd (epoll_create env kfd s))"
proof -
  show "consistent (snd (add_bpf_map env kfd fd nm attr s))"
    using assms by (auto simp: add_bpf_map_def Let_def intro: consistent_set)
  show "consistent (snd (dup_bpf_map env kfd old new s))"
    using assms by (auto simp: dup_bpf_map_def Let_def intro: consistent_set split: option.split handler.split)
  show "consistent (snd (epoll_create env kfd s))"
    using assms by (auto simp: epoll_create_def Let_def intro!: consistent_with mg_inv_set_handler)
qed

lemma consistent_links:
  assumes "consistent s"
  shows "consistent (snd (add_bpf_prog_attach_target env kfd p b c s))"
    "consistent (snd (attach_perf_to_bpf env kfd p b c s))"
    "consistent (snd (add_bpf_link env kfd fd args s))"
proof -
  show attach: "consistent (snd (add_bpf_prog_attach_target env kfd p b c s))"
    using assms is_prog_live
    by (auto simp: add_bpf_prog_attach_target_def Let_def link_handler_new_def intro!: consistent_set)
  show "consistent (snd (attach_perf_to_bpf env kfd p b c s))"
    using assms attach by (simp add: attach_perf_to_bpf_def)
  show "consistent (snd (add_bpf_link env kfd fd args s))"
    using assms is_prog_live
    by (auto simp: add_bpf_link_def link_handler_of_args_def intro!: consistent_set split: option.split)
qed

lemma consistent_software:
  assumes "consistent s"
  shows "consistent (snd (add_software_perf_event_fd env fd cpu st c s))"
    "consistent (snd (add_software_perf_event env kfd cpu st c s))"
  using assms by (auto simp: add_software_perf_event_def add_software_perf_event_fd_def
      intro!: consistent_with mg_inv_software split: prod.split)

lemma consistent_changes:
  assumes "consistent s"
  shows "consistent (snd (perf_event_enable fd s))" "consistent (snd (perf_event_disable fd s))"
    "consistent (snd (add_software_perf_event_to_epoll p e d s))"
    "consistent (snd (add_ringbuf_to_epoll r e d s))"
    "consistent (snd (close_fd env fd s))"
proof -
  show "consistent (snd (perf_event_enable fd s))" "consistent (snd (perf_event_disable fd s))"
    using assms by (auto simp: perf_event_enable_def perf_event_disable_def set_perf_def
        intro!: consistent_replace split: option.split handler.split)
  show "consistent (snd (add_software_perf_event_to_epoll p e d s))" "consistent (snd (add_ringbuf_to_epoll r e d s))"
    using assms by (auto simp: add_software_perf_event_to_epoll_def add_ringbuf_to_epoll_def epoll_append_def
        intro!: consistent_replace split: option.split handler.split)
  show "consistent (snd (close_fd env fd s))"
    using assms by (auto simp: close_fd_def intro!: consistent_with mg_inv_clear split: option.split)
qed

lemma frame_ringbuf:
  "consistent s \<Longrightarrow> consistent (snd (on_ringbuf p f s))"
  unfolding on_ringbuf_def
  by (rule consistent_segment) (auto split: option.split map_impl.split prod.split)

lemma frame_perf_data: "sg_perf sg a = Some sp0 \<Longrightarrow> perf_frame sg (sg\<lparr>sg_perf := (sg_perf sg)(a \<mapsto> sp)\<rparr>)"
  by (auto simp: perf_frame_def)

lemma consistent_calls:
  assumes "consistent s"
  shows "consistent (snd (shm_map_lookup_elem env fd key sys s))"
    "consistent (snd (shm_map_update_elem env fd key val f sys s))"
    "consistent (snd (shm_delete_elem env fd key sys s))"
    "consistent (snd (shm_map_get_next_key env fd key sys s))"
  using assms frame_lookup frame_update frame_delete frame_next
  by (auto simp: shm_map_lookup_elem_def shm_map_update_elem_def shm_delete_elem_def shm_map_get_next_key_def
      intro!: consistent_segment split: option.split handler.split)

lemma consistent_buffers:
  assumes "consistent s"
  shows "consistent (snd (bpftime_ringbuf_reserve fd n s))" "consistent (snd (bpftime_ringbuf_submit fd p d s))"
    "consistent (snd (bpftime_poll_from_ringbuf fuel fd cb s))"
  using assms by (auto simp: bpftime_ringbuf_reserve_def bpftime_ringbuf_submit_def bpftime_poll_from_ringbuf_def
      intro!: frame_ringbuf split: option.split)

lemma perf_frame_trans: "perf_frame sg sg1 \<Longrightarrow> perf_frame sg1 sg2 \<Longrightarrow> perf_frame sg sg2"
  by (auto simp: perf_frame_def)

lemma consistent_perf_data:
  assumes "consistent s"
  shows "consistent (snd (get_software_perf_event_raw_buffer fd n s))"
    "consistent (snd (bpftime_perf_event_output fd buf s))"
    "consistent (snd (map_val env ptr s))"
proof -
  show "consistent (snd (get_software_perf_event_raw_buffer fd n s))"
    using assms by (auto simp: get_software_perf_event_raw_buffer_def intro!: consistent_segment intro: frame_perf_data
        split: option.split handler.split prod.split)
  show "consistent (snd (bpftime_perf_event_output fd buf s))"
    using assms by (auto simp: bpftime_perf_event_output_def intro!: consistent_segment intro: frame_perf_data
        split: option.split handler.split perf_data.split sum.split)
  have "perf_frame sg (snd (case bpf_map_get_next_key env m None False sg of
            (Inl Fault, sg) \<Rightarrow> (Inl Fault, sg)
          | (Inl Throw, sg) \<Rightarrow> (Inl Throw, sg)
          | (Inl e, sg) \<Rightarrow> (Inl (Errno ENOENT), sg)
          | (Inr key, sg) \<Rightarrow> map_lookup_elem env m (Some key) False sg))" for m sg
    using frame_next [of sg env m None False]
    by (auto intro: perf_frame_trans frame_lookup split: prod.split sum.split err.split)
  then show "consistent (snd (map_val env ptr s))"
    using assms by (auto simp: map_val_def Let_def intro!: consistent_segment split: option.split handler.split)
qed

lemmas consistent_operations = consistent_probes consistent_maps consistent_links consistent_software
  consistent_changes consistent_calls consistent_buffers consistent_perf_data

lemma consistent_run: "consistent s \<Longrightarrow> consistent (shm_run env kfd x s)"
  by (cases x) (simp_all add: consistent_operations)

lemma consistent_created: "fst (bpftime_shm_new w SHM_REMOVE_AND_CREATE stored) = Inr s \<Longrightarrow> consistent s"
  by (auto simp: bpftime_shm_new_def shm_view_def consistent_def mg_inv_def links_ok_def perf_ok_def fresh_manager_def
      handler_manager_new_def segment_new_def)

lemma reachable_inv: "reachable s \<Longrightarrow> consistent s"
  by (induction rule: reachable.induct) (auto elim: shm_stepE simp: consistent_created consistent_run)

section \<open>Every reachable table is consistent\<close>

text \<open>A created segment in which software event 5 was opened and closed again.\<close>

definition opened_and_closed :: "unit shm" where
  "opened_and_closed = shm_run plain_env (\<lambda>i. 7) (OpClose 5) (shm_run plain_env (\<lambda>i. 7) (OpSoftwareFd 5 0 0 0)
     (shm_view SHM_REMOVE_AND_CREATE \<lparr>so_manager = Some (fresh_manager ()), so_syscall_pids = Some {}, so_alive_pids = Some {},
     so_agent_config = Some agent_config_in\<rparr>))"

lemma reachable_created:
  "reachable (shm_view SHM_REMOVE_AND_CREATE \<lparr>so_manager = Some (fresh_manager w), so_syscall_pids = Some {}, so_alive_pids = Some {},
     so_agent_config = Some agent_config_in\<rparr>)"
  by (rule reachable.created [of w None]) (simp add: bpftime_shm_new_def Let_def)

lemma reachable_run: "reachable s \<Longrightarrow> reachable (shm_run env kfd x s)"
  by (rule reachable.stepped) (auto intro: shm_step.run)

lemma reachable_opened_and_closed: "reachable opened_and_closed"
  unfolding opened_and_closed_def by (intro reachable_run reachable_created)

text \<open>C2. The table stays consistent: in every state that any sequence of operations of any processes
  reaches from a newly created segment, every link names a program that is still there, the data of every
  software perf event is alive, no two events share data, and no live data lies where the next object
  will be allocated.\<close>

theorem reachable_consistent:
  assumes "reachable s" "sh_manager s = Some mg"
  shows "links_ok (mg_handlers mg) \<and> perf_ok (mg_handlers mg) (sg_perf (mg_segment mg)) (sg_fresh (mg_segment mg))"
  using reachable_inv [OF assms(1)] assms(2) by (simp add: consistent_def mg_inv_def)

theorem reachable_consistent_witness:
  "\<exists>mg. sh_manager opened_and_closed = Some mg \<and> links_ok (mg_handlers mg)"
proof -
  have "sh_manager opened_and_closed \<noteq> None"
    by (simp add: opened_and_closed_def shm_view_def with_manager_def close_fd_def add_software_perf_event_fd_def
        split: prod.split)
  then obtain mg where "sh_manager opened_and_closed = Some mg" by blast
  with reachable_consistent [OF reachable_opened_and_closed] show ?thesis by blast
qed

text \<open>C9. No use of freed perf data: asking a descriptor for its software perf buffer in a reachable
  state never reaches through a dangling or null pointer, whatever was opened, attached and closed
  before.\<close>

theorem raw_buffer_never_dangling:
  assumes "reachable s"
  shows "fst (get_software_perf_event_raw_buffer fd n s) \<noteq> Inl Fault"
proof (cases "is_software_perf_event_handler_fd s fd")
  case True
  then obtain p where p: "shm_handler s fd = Some (PerfH p)"
    by (auto simp: is_software_perf_event_handler_fd_def split: option.splits handler.splits)
  then obtain mg where mg: "sh_manager s = Some mg" by (auto simp: shm_handler_def split: option.splits)
  show ?thesis
  proof (cases "try_get_software_ptr p")
    case (Some a)
    have "perf_ok (mg_handlers mg) (sg_perf (mg_segment mg)) (sg_fresh (mg_segment mg))"
      using reachable_inv [OF assms] mg by (simp add: consistent_def mg_inv_def)
    moreover have "perf_addr (mg_handlers mg ! nat fd) = Some a" "nat fd < length (mg_handlers mg)"
      using shm_handler_at [OF p mg] Some by auto
    ultimately have "a \<in> dom (sg_perf (mg_segment mg))" unfolding perf_ok_def by blast
    then show ?thesis using True p mg Some
      by (auto simp: get_software_perf_event_raw_buffer_def on_segment_def split: prod.splits)
  qed (use True p in \<open>simp add: get_software_perf_event_raw_buffer_def\<close>)
qed (simp add: get_software_perf_event_raw_buffer_def)

theorem raw_buffer_never_dangling_witness:
  "fst (get_software_perf_event_raw_buffer 5 8 opened_and_closed) \<noteq> Inl Fault"
  by (rule raw_buffer_never_dangling [OF reachable_opened_and_closed])

section \<open>Descriptors\<close>

text \<open>Fresh descriptors avoid the standard streams: the kernel gives distinct nonnegative
  descriptors as long as none is closed, so the at most four calls of \<^verbatim>\<open>dup\<close> after \<^verbatim>\<open>open\<close> always get
  past 0, 1 and 2.\<close>

theorem fake_fd_above_stdio:
  assumes nonneg: "\<And>i. i < 4 \<Longrightarrow> 0 \<le> kfd i" and distinct: "\<And>i j. i < 4 \<Longrightarrow> j < 4 \<Longrightarrow> kfd i = kfd j \<Longrightarrow> i = j"
  shows "2 < open_fake_fd kfd"
proof (rule ccontr)
  assume "\<not> 2 < open_fake_fd kfd"
  then have "kfd 0 \<le> 2" "kfd 1 \<le> 2" "kfd 2 \<le> 2" "kfd 3 \<le> 2"
    using nonneg [of 0] nonneg [of 1] nonneg [of 2] nonneg [of 3]
    by (auto simp: open_fake_fd_def eval_nat_numeral split: if_splits)
  then have "kfd ` {..<4} \<subseteq> {0..2}" using nonneg by (auto simp: eval_nat_numeral less_Suc_eq)
  moreover have "inj_on kfd {..<4}" using distinct by (auto simp: inj_on_def)
  ultimately have "card {..<4 :: nat} \<le> card {0..2 :: int}" by (metis card_inj_on_le finite_atLeastAtMost_int)
  then show False by simp
qed

theorem fake_fd_above_stdio_witness: "2 < open_fake_fd int"
  by (rule fake_fd_above_stdio) auto

text \<open>Attaching and closing: an attach whose new descriptor is free in the table puts the link there and
  returns that descriptor; closing the program afterwards succeeds, frees its slot and leaves no link to it.\<close>

theorem attach_then_close:
  assumes "sh_manager s = Some mg" "is_perf_fd s perf_fd" "is_prog_fd s bpf_fd"
    and "in_range mg (open_fake_fd kfd)" "\<not> is_allocated mg (open_fake_fd kfd)"
  shows "\<exists>s1 s2. attach_perf_to_bpf env kfd perf_fd bpf_fd cookie s = (Inr (open_fake_fd kfd), s1) \<and>
    shm_handler s1 (open_fake_fd kfd) = Some (LinkH (link_handler_new bpf_fd perf_fd cookie)) \<and>
    close_fd env bpf_fd s1 = (Inr (), s2) \<and>
    (\<forall>fd h. shm_handler s2 fd = Some h \<longrightarrow> \<not> links_to lk_prog_id bpf_fd h) \<and> shm_handler s2 bpf_fd = Some Unused"
proof -
  let ?fd = "open_fake_fd kfd"
  let ?l = "LinkH (link_handler_new bpf_fd perf_fd cookie)"
  define mg1 where "mg1 = put_handler (nat ?fd) ?l mg"
  define s1 where "s1 = s\<lparr>sh_manager := Some mg1\<rparr>"
  have range: "0 \<le> ?fd" "nat ?fd < length (mg_handlers mg)" "mg_handlers mg ! nat ?fd = Unused"
    using assms(4,5) by (auto simp: in_range_def is_allocated_def)
  obtain p where p: "0 \<le> bpf_fd" "nat bpf_fd < length (mg_handlers mg)" "mg_handlers mg ! nat bpf_fd = ProgH p"
    using is_prog_live [OF assms(3,1)] by (auto simp: live_prog_def)
  have ne: "nat bpf_fd \<noteq> nat ?fd" using p range by auto
  have attach: "attach_perf_to_bpf env kfd perf_fd bpf_fd cookie s = (Inr ?fd, s1)"
    using assms range by (simp add: attach_perf_to_bpf_def add_bpf_prog_attach_target_def with_manager_def
        set_handler_def s1_def mg1_def Let_def)
  have link: "shm_handler s1 ?fd = Some ?l"
    using range by (auto simp: shm_handler_def s1_def mg1_def put_handler_def)
  have prog: "mg_handlers mg1 ! nat bpf_fd = ProgH p" "in_range mg1 bpf_fd"
    using p ne by (auto simp: mg1_def put_handler_def in_range_def)
  define mg2 where "mg2 = \<lparr>mg_handlers = cleared bpf_fd (mg_handlers mg1), mg_segment = release (ProgH p) (mg_segment mg1)\<rparr>"
  define s2 where "s2 = s1\<lparr>sh_manager := Some mg2\<rparr>"
  have close: "close_fd env bpf_fd s1 = (Inr (), s2)"
    using clear_id_at_not_map [OF prog(2)] prog(1) by (simp add: close_fd_def with_manager_def s1_def s2_def mg2_def)
  have gone: "\<not> links_to lk_prog_id bpf_fd h" if "shm_handler s2 fd = Some h" for fd h
    using shm_handler_at [OF that] prog(1) by (auto simp: s2_def mg2_def cleared_nth split: if_splits)
  have "shm_handler s2 bpf_fd = Some Unused"
    using p by (auto simp: shm_handler_def s2_def mg2_def cleared_nth mg1_def put_handler_def)
  with attach link close gone show ?thesis by blast
qed

text \<open>A table with a perf event, a program and two free slots.\<close>

definition small_shm :: "unit shm" where
  "small_shm = \<lparr>sh_open_type = SHM_OPEN_ONLY,
     sh_manager = Some \<lparr>mg_handlers = [PerfH (tracepoint_perf_new 1 1), ProgH (prog_handler_new [] ''p'' 0), Unused, Unused],
       mg_segment = segment_new ()\<rparr>, sh_syscall_pids = None, sh_alive_pids = None, sh_agent_config = None, sh_local_config = None\<rparr>"

lemma small_shm_kinds: "is_perf_fd small_shm 0" "is_prog_fd small_shm 1"
  by (simp_all add: small_shm_def is_perf_fd_def is_prog_fd_def shm_handler_def)

lemma open_fake_fd_const: "2 < n \<Longrightarrow> open_fake_fd (\<lambda>i. n) = n"
  by (simp add: open_fake_fd_def eval_nat_numeral)

theorem attach_then_close_witness:
  "\<exists>s1. attach_perf_to_bpf plain_env (\<lambda>i. 3) 0 1 None small_shm = (Inr 3, s1) \<and>
     shm_handler s1 3 = Some (LinkH (link_handler_new 1 0 None))"
proof -
  let ?mg = "\<lparr>mg_handlers = [PerfH (tracepoint_perf_new 1 1), ProgH (prog_handler_new [] ''p'' 0), Unused, Unused],
    mg_segment = segment_new ()\<rparr>"
  have "sh_manager small_shm = Some ?mg" by (simp add: small_shm_def)
  moreover have "in_range ?mg (open_fake_fd (\<lambda>i. 3))" "\<not> is_allocated ?mg (open_fake_fd (\<lambda>i. 3))"
    by (simp_all add: open_fake_fd_const in_range_def is_allocated_def)
  ultimately show ?thesis
    using attach_then_close [OF _ small_shm_kinds, of ?mg "\<lambda>i. 3" plain_env None] by (auto simp: open_fake_fd_const)
qed

text \<open>An attach that did nothing reports success: the new descriptor comes from the kernel table of
  the calling process, while the handler table is shared. When another process already uses that number,
  \<^verbatim>\<open>set_handler\<close> refuses the link with \<^verbatim>\<open>-EEXIST\<close>, the result is dropped, and the caller gets the
  descriptor of somebody else's handler; no slot has changed. A custom perf event behaves the same way.\<close>

theorem attach_on_taken_descriptor:
  assumes "sh_manager s = Some mg" "is_perf_fd s perf_fd" "is_prog_fd s bpf_fd" "is_allocated mg (open_fake_fd kfd)"
  shows "fst (attach_perf_to_bpf env kfd perf_fd bpf_fd cookie s) = Inr (open_fake_fd kfd) \<and>
    shm_handler (snd (attach_perf_to_bpf env kfd perf_fd bpf_fd cookie s)) fd = shm_handler s fd \<and>
    fst (add_custom_perf_event env kfd t arg s) = Inr (open_fake_fd kfd) \<and>
    shm_handler (snd (add_custom_perf_event env kfd t arg s)) fd = shm_handler s fd"
proof -
  have "\<not> open_fake_fd kfd < 0" using assms(4) by (simp add: is_allocated_def)
  then show ?thesis using assms
    by (simp add: attach_perf_to_bpf_def add_bpf_prog_attach_target_def add_custom_perf_event_def with_manager_def
        set_handler_def shm_handler_def Let_def)
qed

theorem attach_on_taken_descriptor_witness:
  "fst (attach_perf_to_bpf plain_env (\<lambda>i. 3) 0 1 None
     (small_shm\<lparr>sh_manager := Some \<lparr>mg_handlers = [PerfH (tracepoint_perf_new 1 1), ProgH (prog_handler_new [] ''p'' 0),
        Unused, EpollH []], mg_segment = segment_new ()\<rparr>\<rparr>)) = Inr 3"
proof -
  let ?mg = "\<lparr>mg_handlers = [PerfH (tracepoint_perf_new 1 1), ProgH (prog_handler_new [] ''p'' 0), Unused, EpollH []],
    mg_segment = segment_new ()\<rparr>"
  let ?s = "small_shm\<lparr>sh_manager := Some ?mg\<rparr>"
  have "is_perf_fd ?s 0" "is_prog_fd ?s 1" by (simp_all add: is_perf_fd_def is_prog_fd_def shm_handler_def)
  moreover have "is_allocated ?mg (open_fake_fd (\<lambda>i. 3))" by (simp add: open_fake_fd_const is_allocated_def)
  ultimately show ?thesis
    using attach_on_taken_descriptor [of ?s ?mg 0 1 "\<lambda>i. 3"] by (simp add: open_fake_fd_const)
qed

text \<open>Duplicating an array map does not share it: \<^verbatim>\<open>dup_bpf_map\<close> installs a second map with an
  object of its own, a new array of zeroes under the name \<^verbatim>\<open>dup_\<close>-prefixed name; the first map keeps its
  object, and what was written through the old descriptor is not seen through the new one.\<close>

theorem dup_array_map_is_separate:
  assumes s: "sh_manager s = Some mg" "shm_handler s old = Some (MapH m)" 
    and new: "in_range mg newfd" "\<not> is_allocated mg newfd"
    and nm: "sg_names (mg_segment mg) (get_container_name (map_handler_new newfd (''dup_'' @ mh_name m) (mh_attr m))) = None"
    and at: "at_type (mh_attr m) = BPF_MAP_TYPE_ARRAY"
  shows "\<exists>s' mg' m' a. dup_bpf_map env kfd old newfd s = (Inr newfd, s') \<and> sh_manager s' = Some mg' \<and>
    shm_handler s' old = Some (MapH m) \<and> shm_handler s' newfd = Some (MapH m') \<and> mh_impl m' = Some a \<and>
    sg_objs (mg_segment mg') a = Some (IArray (array_map_new (at_value_size (mh_attr m)) (at_max_ents (mh_attr m)))) \<and>
    a = sg_fresh (mg_segment mg)"
proof -
  let ?m = "map_handler_new newfd (''dup_'' @ mh_name m) (mh_attr m)"
  let ?sg = "mg_segment mg"
  have slot: "0 \<le> newfd" "nat newfd < length (mg_handlers mg)" "mg_handlers mg ! nat newfd = Unused"
    using new by (auto simp: in_range_def is_allocated_def)
  have old: "0 \<le> old" "nat old < length (mg_handlers mg)" "mg_handlers mg ! nat old = MapH m"
    using shm_handler_at [OF s(2,1)] by auto
  then have ne: "nat old \<noteq> nat newfd" using slot by auto
  have "kind_of (me_libbpf env) (mh_type ?m) = KArray" using at by (simp add: kind_of_def map_type_defs map_handler_new_def)
  then have init: "map_init env ?m ?sg = (Inr 0, ?m\<lparr>mh_impl := Some (sg_fresh ?sg)\<rparr>,
      ?sg\<lparr>sg_objs := (sg_objs ?sg)(sg_fresh ?sg \<mapsto> IArray (array_map_new (at_value_size (mh_attr m)) (at_max_ents (mh_attr m)))),
         sg_names := (sg_names ?sg)(get_container_name ?m \<mapsto> sg_fresh ?sg), sg_fresh := sg_fresh ?sg + 1\<rparr>)"
    using nm by (simp add: map_init_def construct_def new_impl_def pure_call_def map_handler_new_def)
  show ?thesis using s slot old ne new init
    by (auto simp: dup_bpf_map_def fd_or_fake_def Let_def with_manager_def set_handler_def shm_handler_def put_handler_def)
qed

theorem dup_array_map_is_separate_witness:
  "\<exists>s' m'. dup_bpf_map plain_env int 0 1 (small_shm\<lparr>sh_manager := Some \<lparr>mg_handlers =
      [MapH (map_handler_new 0 ''a'' (plain_attr BPF_MAP_TYPE_ARRAY 4 8 2)), Unused], mg_segment = segment_new ()\<rparr>\<rparr>) =
     (Inr 1, s') \<and> shm_handler s' 1 = Some (MapH m') \<and> mh_impl m' = Some 0"
proof -
  let ?m = "map_handler_new 0 ''a'' (plain_attr BPF_MAP_TYPE_ARRAY 4 8 2)"
  let ?mg = "\<lparr>mg_handlers = [MapH ?m, Unused], mg_segment = segment_new ()\<rparr>"
  let ?s = "small_shm\<lparr>sh_manager := Some ?mg\<rparr>"
  have "sh_manager ?s = Some ?mg" "shm_handler ?s 0 = Some (MapH ?m)" by (simp_all add: shm_handler_def)
  moreover have "in_range ?mg 1" "\<not> is_allocated ?mg 1" by (simp_all add: in_range_def is_allocated_def)
  ultimately show ?thesis
    using dup_array_map_is_separate [of ?s ?mg 0 ?m 1 plain_env int]
    by (auto simp: segment_new_def map_handler_new_def plain_attr_def)
qed

section \<open>Opening the segment\<close>

lemma shm_create: "bpftime_shm_new w SHM_REMOVE_AND_CREATE stored =
    (let ob = \<lparr>so_manager = Some (fresh_manager w), so_syscall_pids = Some {}, so_alive_pids = Some {},
       so_agent_config = Some agent_config_in\<rparr> in (Inr (shm_view SHM_REMOVE_AND_CREATE ob), Some ob))"
  by (simp add: bpftime_shm_new_def)

lemma shm_open: "bpftime_shm_new w SHM_OPEN_ONLY (Some ob) = (Inr (shm_view SHM_OPEN_ONLY ob), Some ob)"
  by (simp add: bpftime_shm_new_def)

lemma shm_view_type: "(shm_view t ob)\<lparr>sh_open_type := t'\<rparr> = shm_view t' ob"
  by (simp add: shm_view_def)

lemma shm_find_or_create:
  "\<exists>ob. bpftime_shm_new w SHM_CREATE_OR_OPEN stored = (Inr (shm_view SHM_CREATE_OR_OPEN ob), Some ob) \<and>
     bpftime_shm_new w' SHM_CREATE_OR_OPEN (Some ob) = (Inr (shm_view SHM_CREATE_OR_OPEN ob), Some ob)"
  by (auto simp: bpftime_shm_new_def or_new_def Let_def split: option.split)

text \<open>Opening modes: a process that creates the segment starts with a table of free slots, no
  agents and the default configuration, and a process that opens it then sees the same table. A segment
  that is created or found can be opened by others with the same contents, and creating or finding it
  again changes nothing. Opening an absent segment throws, and \<^verbatim>\<open>SHM_NO_CREATE\<close> leaves the stored segment
  alone and has no handlers.\<close>

theorem open_modes:
  "(\<exists>s st mg. bpftime_shm_new w SHM_REMOVE_AND_CREATE stored = (Inr s, st) \<and> sh_manager s = Some mg \<and>
      mg_handlers mg = replicate DEFAULT_MAX_FD Unused \<and> sh_alive_pids s = Some {} \<and> get_agent_config s = Inr agent_config_in \<and>
      fst (bpftime_shm_new w' SHM_OPEN_ONLY st) = Inr (s\<lparr>sh_open_type := SHM_OPEN_ONLY\<rparr>)) \<and>
   (\<exists>s st. bpftime_shm_new w SHM_CREATE_OR_OPEN stored = (Inr s, st) \<and>
      bpftime_shm_new w' SHM_CREATE_OR_OPEN st = (Inr s, st) \<and>
      fst (bpftime_shm_new w' SHM_OPEN_ONLY st) = Inr (s\<lparr>sh_open_type := SHM_OPEN_ONLY\<rparr>)) \<and>
   bpftime_shm_new w SHM_OPEN_ONLY None = (Inl Throw, None) \<and>
   (\<exists>s. bpftime_shm_new w SHM_NO_CREATE stored = (Inr s, stored) \<and> (\<forall>fd. shm_handler s fd = None))"
proof (intro conjI)
  show "\<exists>s st mg. bpftime_shm_new w SHM_REMOVE_AND_CREATE stored = (Inr s, st) \<and> sh_manager s = Some mg \<and>
      mg_handlers mg = replicate DEFAULT_MAX_FD Unused \<and> sh_alive_pids s = Some {} \<and> get_agent_config s = Inr agent_config_in \<and>
      fst (bpftime_shm_new w' SHM_OPEN_ONLY st) = Inr (s\<lparr>sh_open_type := SHM_OPEN_ONLY\<rparr>)"
    unfolding shm_create Let_def
    by (intro exI conjI, rule refl)
      (simp_all add: shm_open shm_view_type, simp_all add: shm_view_def fresh_manager_def handler_manager_new_def get_agent_config_def, simp)
  show "\<exists>s st. bpftime_shm_new w SHM_CREATE_OR_OPEN stored = (Inr s, st) \<and>
      bpftime_shm_new w' SHM_CREATE_OR_OPEN st = (Inr s, st) \<and>
      fst (bpftime_shm_new w' SHM_OPEN_ONLY st) = Inr (s\<lparr>sh_open_type := SHM_OPEN_ONLY\<rparr>)"
    using shm_find_or_create [of w stored w'] by (auto simp: shm_open shm_view_type)
  show "bpftime_shm_new w SHM_OPEN_ONLY None = (Inl Throw, None)" by (simp add: bpftime_shm_new_def)
  show "\<exists>s. bpftime_shm_new w SHM_NO_CREATE stored = (Inr s, stored) \<and> (\<forall>fd. shm_handler s fd = None)"
    by (simp add: bpftime_shm_new_def shm_handler_def)
qed

end
