(* ===== verification/Attach_Interface.thy ===== *)
theory Attach_Interface
  imports Bpf_Prelude
begin

text \<open>
  What the attach context relies on in an attach implementation (\<^verbatim>\<open>base_attach_impl\<close> in
  attach/base_attach_impl/base_attach_impl.hpp): creating an attach gives a number that no live entry
  has, a refused creation leaves the entries alone, and a live number can be detached. The context keeps
  lists of such numbers and detaches them one after the other; what that does to the implementation is
  shown here once for every implementation (\<open>attach_entries\<close>). An implementation may also refuse to detach a
  number twice (\<open>attach_impl\<close>) and keep the callbacks it was given (\<open>attach_callbacks\<close>); two implementations that
  do are together one that does (\<open>attach_pair\<close>).
\<close>

text \<open>A sequence of creations: the numbers of the ones that succeed, in order.\<close>

fun create_all :: "('q \<Rightarrow> 's \<Rightarrow> int res \<times> 's) \<Rightarrow> 'q list \<Rightarrow> 's \<Rightarrow> int list \<times> 's" where
  "create_all f [] s = ([], s)"
| "create_all f (q # qs) s = (case f q s of
     (Inl e, s') \<Rightarrow> create_all f qs s'
   | (Inr i, s') \<Rightarrow> (let (is, s'') = create_all f qs s' in (i # is, s'')))"

locale attach_entries =
  fixes inv :: "'s \<Rightarrow> bool"
    and live :: "'s \<Rightarrow> int set"
    and create :: "'q \<Rightarrow> 's \<Rightarrow> int res \<times> 's"
    and detach :: "int \<Rightarrow> 's \<Rightarrow> unit res \<times> 's"
  assumes create_Inr: "inv s \<Longrightarrow> create q s = (Inr i, s') \<Longrightarrow>
      inv s' \<and> 0 \<le> i \<and> i \<notin> live s \<and> live s' = insert i (live s)"
    and create_Inl: "inv s \<Longrightarrow> create q s = (Inl e, s') \<Longrightarrow> inv s' \<and> live s' = live s"
    and detach_live: "inv s \<Longrightarrow> i \<in> live s \<Longrightarrow> \<exists>s'. detach i s = (Inr (), s') \<and> inv s' \<and> live s' = live s - {i}"
begin

lemma detach_all:
  "inv s \<Longrightarrow> distinct is \<Longrightarrow> set is \<subseteq> live s \<Longrightarrow>
     \<exists>s'. for_each detach is s = (Inr (), s') \<and> inv s' \<and> live s' = live s - set is"
proof (induction "is" arbitrary: s)
  case (Cons i "is")
  from detach_live [OF Cons.prems(1), of i] Cons.prems(3) obtain s1 where
    s1: "detach i s = (Inr (), s1)" "inv s1" "live s1 = live s - {i}" by auto
  from Cons.IH [OF s1(2)] Cons.prems s1(3) obtain s2 where
    "for_each detach is s1 = (Inr (), s2)" "inv s2" "live s2 = live s1 - set is" by auto
  with s1 show ?case by auto
qed simp

lemma create_all_live:
  "inv s \<Longrightarrow> create_all create qs s = (is, s') \<Longrightarrow>
     inv s' \<and> distinct is \<and> set is \<inter> live s = {} \<and> live s' = live s \<union> set is"
proof (induction qs arbitrary: s "is")
  case (Cons q qs)
  obtain r s1 where r: "create q s = (r, s1)" by fastforce
  show ?case
  proof (cases r)
    case (Inl e)
    with create_Inl [OF Cons.prems(1)] r have s1: "inv s1" "live s1 = live s" by auto
    have "create_all create qs s1 = (is, s')" using Cons.prems(2) r Inl by simp
    from Cons.IH [OF s1(1) this] s1(2) show ?thesis by simp
  next
    case (Inr i)
    with create_Inr [OF Cons.prems(1)] r have s1: "inv s1" "i \<notin> live s" "live s1 = insert i (live s)" by auto
    obtain js where js: "create_all create qs s1 = (js, s')" "is = i # js"
      using Cons.prems(2) r Inr by (auto split: prod.splits)
    from Cons.IH [OF s1(1) js(1)] s1 js(2) show ?thesis by auto
  qed
qed simp

text \<open>Attaching and then detaching everything that was attached leaves the entries as they were.\<close>

lemma detach_created:
  assumes "inv s" "create_all create qs s = (is, s')"
  shows "\<exists>s''. for_each detach is s' = (Inr (), s'') \<and> inv s'' \<and> live s'' = live s"
proof -
  from create_all_live [OF assms] have c: "inv s'" "distinct is" "set is \<inter> live s = {}" "live s' = live s \<union> set is"
    by auto
  then have "live s' - set is = live s" by auto
  with detach_all [OF c(1,2)] c(4) show ?thesis by auto
qed

end

text \<open>An implementation that reports a number that is not live.\<close>

locale attach_impl = attach_entries +
  assumes detach_dead: "inv s \<Longrightarrow> i \<notin> live s \<Longrightarrow> detach i s = (Inl (NegErrno ENOENT), s)"
begin

lemma detach_twice:
  assumes "inv s" "i \<in> live s" "detach i s = (Inr (), s')"
  shows "detach i s' = (Inl (NegErrno ENOENT), s')"
  using detach_live [OF assms(1,2)] detach_dead [of s' i] assms(3) by auto

end

text \<open>An implementation that keeps the callback of a request until its number is detached.\<close>

locale attach_callbacks = attach_entries +
  fixes attached :: "'s \<Rightarrow> int \<rightharpoonup> 'c"
    and callback :: "'q \<Rightarrow> 'c"
  assumes live_attached: "live s = dom (attached s)"
    and create_attached: "inv s \<Longrightarrow> create q s = (Inr i, s') \<Longrightarrow> attached s' = (attached s)(i \<mapsto> callback q)"
    and create_refused: "inv s \<Longrightarrow> create q s = (Inl e, s') \<Longrightarrow> attached s' = attached s"
    and detach_attached: "inv s \<Longrightarrow> detach i s = (Inr (), s') \<Longrightarrow> attached s' = (attached s)(i := None)"

text \<open>Two implementations behind one pointer type, as the owners of \<^verbatim>\<open>base_attach_impl\<close> see them: each object is
  of one of the two classes and answers with its own functions.\<close>

fun either_create :: "('q \<Rightarrow> 's \<Rightarrow> int res \<times> 's) \<Rightarrow> ('q \<Rightarrow> 't \<Rightarrow> int res \<times> 't) \<Rightarrow> 'q \<Rightarrow> 's + 't \<Rightarrow> int res \<times> ('s + 't)" where
  "either_create f g q (Inl s) = (case f q s of (r, s) \<Rightarrow> (r, Inl s))"
| "either_create f g q (Inr t) = (case g q t of (r, t) \<Rightarrow> (r, Inr t))"

fun either_detach :: "(int \<Rightarrow> 's \<Rightarrow> unit res \<times> 's) \<Rightarrow> (int \<Rightarrow> 't \<Rightarrow> unit res \<times> 't) \<Rightarrow> int \<Rightarrow> 's + 't \<Rightarrow> unit res \<times> ('s + 't)" where
  "either_detach f g i (Inl s) = (case f i s of (r, s) \<Rightarrow> (r, Inl s))"
| "either_detach f g i (Inr t) = (case g i t of (r, t) \<Rightarrow> (r, Inr t))"

lemma either_create_cases:
  assumes "either_create f g q x = (r, x')"
  obtains s s' where "x = Inl s" "x' = Inl s'" "f q s = (r, s')" | t t' where "x = Inr t" "x' = Inr t'" "g q t = (r, t')"
  using assms by (cases x) (auto split: prod.splits)

lemma either_detach_cases:
  assumes "either_detach f g i x = (r, x')"
  obtains s s' where "x = Inl s" "x' = Inl s'" "f i s = (r, s')" | t t' where "x = Inr t" "x' = Inr t'" "g i t = (r, t')"
  using assms by (cases x) (auto split: prod.splits)

locale attach_pair =
  a: attach_callbacks inv live create detach attached callback +
  b: attach_callbacks inv' live' create' detach' attached' callback
  for inv :: "'s \<Rightarrow> bool" and live create detach and attached :: "'s \<Rightarrow> int \<rightharpoonup> 'c"
    and inv' :: "'t \<Rightarrow> bool" and live' create' detach' and attached' :: "'t \<Rightarrow> int \<rightharpoonup> 'c"
    and callback :: "'q \<Rightarrow> 'c"

sublocale attach_pair \<subseteq> both: attach_callbacks "case_sum inv inv'" "case_sum live live'" "either_create create create'"
  "either_detach detach detach'" "case_sum attached attached'" callback
proof (unfold_locales, goal_cases)
  case (1 s q i s')
  from 1(2) show ?case
  proof (rule either_create_cases)
    show ?case if "s = Inl u" "s' = Inl u'" "create q u = (Inr i, u')" for u u' using a.create_Inr [of u] that 1(1) by simp
    show ?case if "s = Inr u" "s' = Inr u'" "create' q u = (Inr i, u')" for u u' using b.create_Inr [of u] that 1(1) by simp
  qed
next
  case (2 s q e s')
  from 2(2) show ?case
  proof (rule either_create_cases)
    show ?case if "s = Inl u" "s' = Inl u'" "create q u = (Inl e, u')" for u u' using a.create_Inl [of u] that 2(1) by simp
    show ?case if "s = Inr u" "s' = Inr u'" "create' q u = (Inl e, u')" for u u' using b.create_Inl [of u] that 2(1) by simp
  qed
next
  case (3 s i)
  show ?case
  proof (cases s)
    case (Inl u)
    with 3 obtain u' where "detach i u = (Inr (), u')" "inv u'" "live u' = live u - {i}" using a.detach_live [of u i] by auto
    with Inl show ?thesis by simp
  next
    case (Inr u)
    with 3 obtain u' where "detach' i u = (Inr (), u')" "inv' u'" "live' u' = live' u - {i}" using b.detach_live [of u i] by auto
    with Inr show ?thesis by simp
  qed
next
  case (4 s)
  then show ?case by (cases s) (simp_all add: a.live_attached b.live_attached)
next
  case (5 s q i s')
  from 5(2) show ?case
  proof (rule either_create_cases)
    show ?case if "s = Inl u" "s' = Inl u'" "create q u = (Inr i, u')" for u u' using a.create_attached [of u] that 5(1) by simp
    show ?case if "s = Inr u" "s' = Inr u'" "create' q u = (Inr i, u')" for u u' using b.create_attached [of u] that 5(1) by simp
  qed
next
  case (6 s q e s')
  from 6(2) show ?case
  proof (rule either_create_cases)
    show ?case if "s = Inl u" "s' = Inl u'" "create q u = (Inl e, u')" for u u' using a.create_refused [of u] that 6(1) by simp
    show ?case if "s = Inr u" "s' = Inr u'" "create' q u = (Inl e, u')" for u u' using b.create_refused [of u] that 6(1) by simp
  qed
next
  case (7 s i s')
  from 7(2) show ?case
  proof (rule either_detach_cases)
    show ?case if "s = Inl u" "s' = Inl u'" "detach i u = (Inr (), u')" for u u' using a.detach_attached [of u] that 7(1) by simp
    show ?case if "s = Inr u" "s' = Inr u'" "detach' i u = (Inr (), u')" for u u' using b.detach_attached [of u] that 7(1) by simp
  qed
qed

end
