(* ===== verification/Syscall_Trace.thy ===== *)
theory Syscall_Trace
  imports Attach_Interface Bpftime_Config
begin

text \<open>
  Tracing of system calls (attach/syscall_trace_attach_impl): the text segment transformer sends every
  system call of the process to \<^verbatim>\<open>dispatch_syscall\<close>, which runs the programs attached to its entry, the
  call itself unless a program has overridden the result, and the programs attached to its exit. The
  theory shows that the sets of callbacks and the table of entries stay in step, that this is an attach
  implementation in the sense of the theory Attach_Interface, and what a traced call returns.
\<close>

section \<open>State\<close>

record 'cb sys_entry =
  se_cb :: 'cb
  se_nr :: int
  se_enter :: bool

text \<open>Sets of pointers to entries; the number of an entry stands for its address, which also orders
  the sets: \<open>place xs i\<close> is \<open>xs\<close> with \<open>i\<close> put where the allocator's address for it belongs.\<close>

record 'cb sys_impl =
  si_next :: int
  si_entries :: "int \<rightharpoonup> 'cb sys_entry"
  si_global_enter :: "int list"
  si_global_exit :: "int list"
  si_enter :: "int list list"
  si_exit :: "int list list"

definition SYS_TABLE :: nat where "SYS_TABLE = 512"

definition ATTACH_SYSCALL_TRACE :: int where "ATTACH_SYSCALL_TRACE = 2"

definition sys_impl_new :: "'cb sys_impl" where
  "sys_impl_new = \<lparr>si_next = 1, si_entries = Map.empty, si_global_enter = [], si_global_exit = [],
     si_enter = replicate SYS_TABLE [], si_exit = replicate SYS_TABLE []\<rparr>"

text \<open>The private data an attach gets; another class makes the cast throw.\<close>

datatype private_data = SysData int bool | OtherData

section \<open>Private data from a tracepoint number\<close>

definition GLOBAL_SYS_ENTER_NAME :: string where "GLOBAL_SYS_ENTER_NAME = ''*SYS_ENTER''"
definition GLOBAL_SYS_EXIT_NAME :: string where "GLOBAL_SYS_EXIT_NAME = ''*SYS_EXIT''"

text \<open>\<open>tps\<close> is the table of tracepoint names by number, \<open>nrs\<close> the table of system call numbers by name.
  A name with neither prefix leaves the local flag unset (\<open>junk\<close>) and looks up the empty name.\<close>

definition starts_with :: "string \<Rightarrow> string \<Rightarrow> bool" where
  "starts_with s p \<longleftrightarrow> take (length p) s = p"

definition initialize_from_string ::
  "bool \<Rightarrow> (int \<rightharpoonup> string) \<Rightarrow> (string \<rightharpoonup> int) \<Rightarrow> string \<Rightarrow> private_data res" where
  "initialize_from_string junk tps nrs sv = (case stoi sv of None \<Rightarrow> Inl Throw
     | Some tp_id \<Rightarrow> (case tps tp_id of None \<Rightarrow> Inl (NegErrno EEXIST)
         | Some nm \<Rightarrow>
             if nm = GLOBAL_SYS_ENTER_NAME then Inr (SysData (- 1) True)
             else if nm = GLOBAL_SYS_EXIT_NAME then Inr (SysData (- 1) False)
             else
               (let (syscall_name, is_enter) =
                  (if starts_with nm ''sys_enter_'' then (drop 10 nm, True)
                   else if starts_with nm ''sys_exit_'' then (drop 9 nm, False) else ([], junk))
                in case nrs syscall_name of Some nr \<Rightarrow> Inr (SysData nr is_enter) | None \<Rightarrow> Inl (NegErrno EEXIST))))"

section \<open>Attaching and detaching\<close>

definition allocate_id :: "'cb sys_impl \<Rightarrow> int \<times> 'cb sys_impl" where
  "allocate_id s = (si_next s, s\<lparr>si_next := si_next s + 1\<rparr>)"

definition sys_create ::
  "(int list \<Rightarrow> int \<Rightarrow> int list) \<Rightarrow> 'cb \<times> private_data \<times> int \<Rightarrow> 'cb sys_impl \<Rightarrow> int res \<times> 'cb sys_impl" where
  "sys_create place q s = (case q of (cb, priv, attach_type) \<Rightarrow>
     if attach_type \<noteq> ATTACH_SYSCALL_TRACE then (Inl (NegErrno ENOTSUP), s)
     else (case priv of OtherData \<Rightarrow> (Inl (NegErrno EINVAL), s)
       | SysData nr enter \<Rightarrow>
           if int SYS_TABLE \<le> nr \<or> nr < - 1 then (Inl (NegErrno EINVAL), s)
           else
             let (i, s) = allocate_id s;
                 s = s\<lparr>si_entries := (si_entries s)(i \<mapsto> \<lparr>se_cb = cb, se_nr = nr, se_enter = enter\<rparr>)\<rparr>
             in (Inr i,
                 if enter then
                   (if nr = - 1 then s\<lparr>si_global_enter := place (si_global_enter s) i\<rparr>
                    else s\<lparr>si_enter := (si_enter s)[nat nr := place (si_enter s ! nat nr) i]\<rparr>)
                 else
                   (if nr = - 1 then s\<lparr>si_global_exit := place (si_global_exit s) i\<rparr>
                    else s\<lparr>si_exit := (si_exit s)[nat nr := place (si_exit s ! nat nr) i]\<rparr>))))"

definition sys_detach :: "int \<Rightarrow> 'cb sys_impl \<Rightarrow> unit res \<times> 'cb sys_impl" where
  "sys_detach i s = (case si_entries s i of None \<Rightarrow> (Inl (NegErrno ENOENT), s)
     | Some ent \<Rightarrow>
         let s' = (if se_enter ent \<and> se_nr ent = - 1 then s\<lparr>si_global_enter := remove1 i (si_global_enter s)\<rparr>
            else if \<not> se_enter ent \<and> se_nr ent = - 1 then s\<lparr>si_global_exit := remove1 i (si_global_exit s)\<rparr>
            else if se_enter ent then s\<lparr>si_enter := (si_enter s)[nat (se_nr ent) := remove1 i (si_enter s ! nat (se_nr ent))]\<rparr>
            else s\<lparr>si_exit := (si_exit s)[nat (se_nr ent) := remove1 i (si_exit s ! nat (se_nr ent))]\<rparr>)
         in (Inr (), s'\<lparr>si_entries := (si_entries s')(i := None)\<rparr>))"

section \<open>Dispatching\<close>

text \<open>What a program sees: the event structure, cleared apart from these members.\<close>

datatype sys_event = SysEnter int "int list" | SysExit int int

text \<open>\<open>run cb ev w\<close>: the results a program sets with \<^verbatim>\<open>bpf_override_return\<close> or \<^verbatim>\<open>bpf_set_retval\<close>, in order,
  and the state after it; \<open>ov\<close> is the last result set so far.\<close>

fun run_callbacks ::
  "('cb \<Rightarrow> sys_event \<Rightarrow> 'w \<Rightarrow> u64 list \<times> 'w) \<Rightarrow> 'cb sys_impl \<Rightarrow> sys_event \<Rightarrow> int list \<Rightarrow> u64 option \<Rightarrow> 'w \<Rightarrow>
     (u64 option \<times> 'w) res" where
  "run_callbacks run s ev [] ov w = Inr (ov, w)"
| "run_callbacks run s ev (i # is) ov w = (case si_entries s i of None \<Rightarrow> Inl Fault
     | Some ent \<Rightarrow> (let (vs, w) = run (se_cb ent) ev w
         in run_callbacks run s ev is (if vs = [] then ov else Some (last vs)) w))"

definition run_phase ::
  "('cb \<Rightarrow> sys_event \<Rightarrow> 'w \<Rightarrow> u64 list \<times> 'w) \<Rightarrow> 'cb sys_impl \<Rightarrow> sys_event \<Rightarrow> int list \<Rightarrow> int list \<Rightarrow> 'w \<Rightarrow>
     (u64 option \<times> 'w) res" where
  "run_phase run s ev mine globals w =
     (if mine \<noteq> [] \<or> globals \<noteq> []
      then bindr (run_callbacks run s ev mine None w) (\<lambda>(ov, w). run_callbacks run s ev globals ov w)
      else Inr (None, w))"

definition NR_exit :: int where "NR_exit = 60"
definition NR_exit_group :: int where "NR_exit_group = 231"

text \<open>\<open>orig nr args w\<close> is the original system call. The arrays are indexed with the number of the call as
  it comes: no range check.\<close>

definition dispatch_syscall ::
  "('cb \<Rightarrow> sys_event \<Rightarrow> 'w \<Rightarrow> u64 list \<times> 'w) \<Rightarrow> (int \<Rightarrow> int list \<Rightarrow> 'w \<Rightarrow> int \<times> 'w) \<Rightarrow> 'cb sys_impl \<Rightarrow> int \<Rightarrow> int list \<Rightarrow> 'w \<Rightarrow>
     (int \<times> 'w) res" where
  "dispatch_syscall run orig s nr args w =
     (if nr = NR_exit_group \<or> nr = NR_exit then Inr (orig nr args w)
      else if nr < 0 \<or> int (length (si_enter s)) \<le> nr then Inl Fault
      else bindr (run_phase run s (SysEnter nr args) (si_enter s ! nat nr) (si_global_enter s) w) (\<lambda>(ov, w).
        case ov of Some v \<Rightarrow> Inr (sint v, w)
        | None \<Rightarrow> (let (ret, w) = orig nr args w in
            bindr (run_phase run s (SysExit nr ret) (si_exit s ! nat nr) (si_global_exit s) w) (\<lambda>(ov, w).
              case ov of Some v \<Rightarrow> Inr (sint v, w) | None \<Rightarrow> Inr (ret, w)))))"

section \<open>The sets and the table agree\<close>

text \<open>The set an entry belongs in.\<close>

definition sys_list :: "'cb sys_impl \<Rightarrow> bool \<Rightarrow> int \<Rightarrow> int list" where
  "sys_list s enter nr = (if nr = - 1 then (if enter then si_global_enter s else si_global_exit s)
     else if enter then si_enter s ! nat nr else si_exit s ! nat nr)"

definition nr_ok :: "int \<Rightarrow> bool" where
  "nr_ok nr \<longleftrightarrow> - 1 \<le> nr \<and> nr < int SYS_TABLE"

definition sys_inv :: "'cb sys_impl \<Rightarrow> bool" where
  "sys_inv s \<longleftrightarrow> 1 \<le> si_next s \<and> length (si_enter s) = SYS_TABLE \<and> length (si_exit s) = SYS_TABLE \<and>
     (\<forall>i ent. si_entries s i = Some ent \<longrightarrow> 1 \<le> i \<and> i < si_next s \<and> nr_ok (se_nr ent)) \<and>
     (\<forall>enter nr. nr_ok nr \<longrightarrow> distinct (sys_list s enter nr) \<and>
        set (sys_list s enter nr) = {i. \<exists>ent. si_entries s i = Some ent \<and> se_enter ent = enter \<and> se_nr ent = nr})"

definition place_ok :: "(int list \<Rightarrow> int \<Rightarrow> int list) \<Rightarrow> bool" where
  "place_ok place \<longleftrightarrow> (\<forall>xs x. distinct xs \<longrightarrow> x \<notin> set xs \<longrightarrow> distinct (place xs x) \<and> set (place xs x) = insert x (set xs))"

lemma place_front_ok: "place_ok (\<lambda>xs x. x # xs)"
  by (simp add: place_ok_def)

definition set_sys_list :: "bool \<Rightarrow> int \<Rightarrow> int list \<Rightarrow> 'cb sys_impl \<Rightarrow> 'cb sys_impl" where
  "set_sys_list enter nr xs s =
     (if enter then (if nr = - 1 then s\<lparr>si_global_enter := xs\<rparr> else s\<lparr>si_enter := (si_enter s)[nat nr := xs]\<rparr>)
      else (if nr = - 1 then s\<lparr>si_global_exit := xs\<rparr> else s\<lparr>si_exit := (si_exit s)[nat nr := xs]\<rparr>))"

lemma set_sys_list_frame [simp]:
  "si_next (set_sys_list e n xs s) = si_next s" "si_entries (set_sys_list e n xs s) = si_entries s"
  "length (si_enter (set_sys_list e n xs s)) = length (si_enter s)" "length (si_exit (set_sys_list e n xs s)) = length (si_exit s)"
  "sys_list (set_sys_list e n xs s\<lparr>si_entries := m\<rparr>) = sys_list (set_sys_list e n xs s)"
  by (auto simp: set_sys_list_def sys_list_def fun_eq_iff)

lemma sys_list_set:
  assumes "nr_ok n" "nr_ok n'" "length (si_enter s) = SYS_TABLE" "length (si_exit s) = SYS_TABLE"
  shows "sys_list (set_sys_list e n xs s) e' n' = (if e' = e \<and> n' = n then xs else sys_list s e' n')"
proof -
  have "n \<noteq> - 1 \<Longrightarrow> nat n < SYS_TABLE" "n' \<noteq> - 1 \<Longrightarrow> nat n' < SYS_TABLE" using assms(1,2) by (auto simp: nr_ok_def)
  moreover have "n \<noteq> - 1 \<Longrightarrow> n' \<noteq> - 1 \<Longrightarrow> (nat n = nat n') = (n = n')" using assms(1,2) by (auto simp: nr_ok_def)
  ultimately show ?thesis using assms(3,4)
    by (cases "n = - 1"; cases "n' = - 1") (auto simp: sys_list_def set_sys_list_def nth_list_update)
qed

lemma sys_invD:
  assumes "sys_inv s"
  shows "1 \<le> si_next s" "length (si_enter s) = SYS_TABLE" "length (si_exit s) = SYS_TABLE"
    "si_entries s i = Some ent \<Longrightarrow> 1 \<le> i \<and> i < si_next s \<and> nr_ok (se_nr ent)"
    "nr_ok nr \<Longrightarrow> distinct (sys_list s enter nr)"
    "nr_ok nr \<Longrightarrow> i \<in> set (sys_list s enter nr) \<longleftrightarrow> (\<exists>ent. si_entries s i = Some ent \<and> se_enter ent = enter \<and> se_nr ent = nr)"
  using assms unfolding sys_inv_def by blast+

lemma sys_create_ok:
  assumes "nr_ok nr"
  shows "sys_create place (cb, SysData nr enter, ATTACH_SYSCALL_TRACE) s =
    (let i = si_next s; s1 = s\<lparr>si_next := i + 1, si_entries := (si_entries s)(i \<mapsto> \<lparr>se_cb = cb, se_nr = nr, se_enter = enter\<rparr>)\<rparr>
     in (Inr i, set_sys_list enter nr (place (sys_list s enter nr) i) s1))"
  using assms by (auto simp: sys_create_def allocate_id_def set_sys_list_def sys_list_def nr_ok_def Let_def)

lemma sys_create_err:
  "sys_create place q s = (Inl e, s') \<Longrightarrow> s' = s"
  by (auto simp: sys_create_def allocate_id_def Let_def split: prod.splits private_data.splits if_splits)

lemma sys_create_cases:
  assumes "sys_create place q s = (Inr i, s')"
  obtains cb nr enter where "q = (cb, SysData nr enter, ATTACH_SYSCALL_TRACE)" "nr_ok nr" "i = si_next s"
    "s' = set_sys_list enter nr (place (sys_list s enter nr) i) (s\<lparr>si_next := i + 1,
       si_entries := (si_entries s)(i \<mapsto> \<lparr>se_cb = cb, se_nr = nr, se_enter = enter\<rparr>)\<rparr>)"
proof -
  obtain cb priv t where q: "q = (cb, priv, t)" by (metis prod_cases3)
  from assms q have t: "t = ATTACH_SYSCALL_TRACE" by (auto simp: sys_create_def split: if_splits)
  from assms q t obtain nr enter where priv: "priv = SysData nr enter"
    by (auto simp: sys_create_def split: private_data.splits)
  from assms q t priv have ok: "nr_ok nr" by (auto simp: sys_create_def nr_ok_def split: if_splits)
  have "sys_create place q s = (let i = si_next s; s1 = s\<lparr>si_next := i + 1,
      si_entries := (si_entries s)(i \<mapsto> \<lparr>se_cb = cb, se_nr = nr, se_enter = enter\<rparr>)\<rparr>
     in (Inr i, set_sys_list enter nr (place (sys_list s enter nr) i) s1))"
    unfolding q t priv by (rule sys_create_ok [OF ok])
  then show thesis using that [of cb nr enter] assms q t priv ok by (auto simp: Let_def)
qed

lemma sys_inv_create:
  assumes inv: "sys_inv s" and place: "place_ok place" and c: "sys_create place q s = (Inr i, s')"
  shows "sys_inv s' \<and> si_entries s i = None \<and> dom (si_entries s') = insert i (dom (si_entries s)) \<and> 1 \<le> i"
proof -
  from c obtain cb nr enter where q: "nr_ok nr" "i = si_next s" and
    s': "s' = set_sys_list enter nr (place (sys_list s enter nr) i) (s\<lparr>si_next := i + 1,
       si_entries := (si_entries s)(i \<mapsto> \<lparr>se_cb = cb, se_nr = nr, se_enter = enter\<rparr>)\<rparr>)" (is "_ = set_sys_list _ _ _ ?s1")
    by (rule sys_create_cases)
  note D = sys_invD [OF inv]
  have new: "si_entries s i = None" using D(4) [of i] q(2) by (cases "si_entries s i") auto
  have same: "sys_list ?s1 e n = sys_list s e n" for e n by (simp add: sys_list_def)
  have lists: "sys_list s' e n = (if e = enter \<and> n = nr then place (sys_list s enter nr) i else sys_list s e n)"
    if "nr_ok n" for e n
    unfolding s' using sys_list_set [OF q(1) that, of ?s1] D(2,3) same by simp
  have placed: "distinct (place (sys_list s enter nr) i)" "set (place (sys_list s enter nr) i) = insert i (set (sys_list s enter nr))"
    using place D(5) [OF q(1)] D(6) [OF q(1), of i enter] new unfolding place_ok_def by auto
  have "sys_inv s'" unfolding sys_inv_def
  proof (intro conjI allI impI)
    fix j ent assume "si_entries s' j = Some ent"
    then show "1 \<le> j" "j < si_next s'" "nr_ok (se_nr ent)"
      using D(1) D(4) [of j] q by (auto simp: s' split: if_splits)
  next
    fix e n assume n: "nr_ok n"
    show "distinct (sys_list s' e n)" using lists [OF n] placed D(5) [OF n] by simp
    have "j \<in> set (sys_list s' e n) \<longleftrightarrow> (\<exists>ent. si_entries s' j = Some ent \<and> se_enter ent = e \<and> se_nr ent = n)" for j
      using lists [OF n, of e] placed D(6) [OF n, of j e] new by (auto simp: s')
    then show "set (sys_list s' e n) = {j. \<exists>ent. si_entries s' j = Some ent \<and> se_enter ent = e \<and> se_nr ent = n}" by auto
  qed (use D q in \<open>auto simp: s'\<close>)
  with new D(1) q(2) show ?thesis by (auto simp: s')
qed

lemma sys_detach_Some:
  assumes "si_entries s i = Some ent" "nr_ok (se_nr ent)"
  shows "sys_detach i s = (Inr (), (set_sys_list (se_enter ent) (se_nr ent) (remove1 i (sys_list s (se_enter ent) (se_nr ent))) s)
    \<lparr>si_entries := (si_entries s)(i := None)\<rparr>)"
  using assms by (auto simp: sys_detach_def set_sys_list_def sys_list_def nr_ok_def Let_def)

lemma sys_inv_detach:
  assumes inv: "sys_inv s" and i: "si_entries s i = Some ent"
  shows "\<exists>s'. sys_detach i s = (Inr (), s') \<and> sys_inv s' \<and> si_entries s' = (si_entries s)(i := None)"
proof -
  note D = sys_invD [OF inv]
  have nr: "nr_ok (se_nr ent)" using D(4) [OF i] by simp
  let ?l = "sys_list s (se_enter ent) (se_nr ent)"
  let ?s = "set_sys_list (se_enter ent) (se_nr ent) (remove1 i ?l) s"
  define s' where "s' = ?s\<lparr>si_entries := (si_entries s)(i := None)\<rparr>"
  have lists: "sys_list s' e n = (if e = se_enter ent \<and> n = se_nr ent then remove1 i ?l else sys_list s e n)" if "nr_ok n" for e n
    using sys_list_set [OF nr that D(2,3)] by (simp add: s'_def)
  have "sys_inv s'" unfolding sys_inv_def
  proof (intro conjI allI impI)
    fix j en assume "si_entries s' j = Some en"
    then show "1 \<le> j" "j < si_next s'" "nr_ok (se_nr en)" using D(4) [of j] by (auto simp: s'_def split: if_splits)
  next
    fix e n assume n: "nr_ok n"
    show "distinct (sys_list s' e n)" using lists [OF n] D(5) [OF n] D(5) [OF nr] by simp
    have "j \<in> set (sys_list s' e n) \<longleftrightarrow> (\<exists>en. si_entries s' j = Some en \<and> se_enter en = e \<and> se_nr en = n)" for j
      using lists [OF n, of e] D(5) [OF nr, of "se_enter ent"] D(6) [OF n, of j e] i by (auto simp: s'_def set_remove1_eq)
    then show "set (sys_list s' e n) = {j. \<exists>en. si_entries s' j = Some en \<and> se_enter en = e \<and> se_nr en = n}" by auto
  qed (use D in \<open>auto simp: s'_def\<close>)
  then show ?thesis using sys_detach_Some [OF i nr] by (simp add: s'_def)
qed

interpretation sys: attach_impl sys_inv "\<lambda>s. dom (si_entries s)" "sys_create (\<lambda>xs x. x # xs)" sys_detach
proof
  fix s :: "'a sys_impl" and q i s'
  assume "sys_inv s" "sys_create (\<lambda>xs x. x # xs) q s = (Inr i, s')"
  from sys_inv_create [OF this(1) place_front_ok this(2)]
  show "sys_inv s' \<and> 0 \<le> i \<and> i \<notin> dom (si_entries s) \<and> dom (si_entries s') = insert i (dom (si_entries s))" by auto
next
  fix s :: "'a sys_impl" and q e s'
  assume "sys_inv s" "sys_create (\<lambda>xs x. x # xs) q s = (Inl e, s')"
  then show "sys_inv s' \<and> dom (si_entries s') = dom (si_entries s)" using sys_create_err by blast
next
  fix s :: "'a sys_impl" and i
  assume "sys_inv s" "i \<in> dom (si_entries s)"
  then show "\<exists>s'. sys_detach i s = (Inr (), s') \<and> sys_inv s' \<and> dom (si_entries s') = dom (si_entries s) - {i}"
    using sys_inv_detach by fastforce
next
  fix s :: "'a sys_impl" and i
  assume "i \<notin> dom (si_entries s)"
  then show "sys_detach i s = (Inl (NegErrno ENOENT), s)" by (simp add: sys_detach_def domIff)
qed

definition sys_attached :: "'cb sys_impl \<Rightarrow> int \<rightharpoonup> 'cb" where
  "sys_attached s i = map_option se_cb (si_entries s i)"

interpretation sys_cb: attach_callbacks sys_inv "\<lambda>s. dom (si_entries s)" "sys_create (\<lambda>xs x. x # xs)" sys_detach sys_attached fst
proof
  fix s :: "'a sys_impl" and q i s'
  assume "sys_create (\<lambda>xs x. x # xs) q s = (Inr i, s')"
  then show "sys_attached s' = (sys_attached s)(i \<mapsto> fst q)"
    by (rule sys_create_cases) (simp add: sys_attached_def fun_eq_iff)
next
  fix s :: "'a sys_impl" and q e s'
  assume "sys_create (\<lambda>xs x. x # xs) q s = (Inl e, s')"
  then show "sys_attached s' = sys_attached s" using sys_create_err by blast
next
  fix s s' :: "'a sys_impl" and i
  assume s: "sys_inv s" "sys_detach i s = (Inr (), s')"
  then obtain ent where "si_entries s i = Some ent" by (auto simp: sys_detach_def split: option.splits)
  from sys_inv_detach [OF s(1) this] s(2) show "sys_attached s' = (sys_attached s)(i := None)"
    by (auto simp: sys_attached_def fun_eq_iff)
qed (auto simp: sys_attached_def dom_def)

text \<open>Attaching and detaching are inverse: after any sequence of attaches, refused ones included,
  detaching the numbers they returned succeeds, leaves the entries as they were, and the sets of callbacks
  hold exactly the live entries.\<close>

theorem syscall_attach_detach:
  assumes "sys_inv s" "create_all (sys_create (\<lambda>xs x. x # xs)) qs s = (is, s')"
  shows "\<exists>s''. for_each sys_detach is s' = (Inr (), s'') \<and> sys_inv s'' \<and> dom (si_entries s'') = dom (si_entries s)"
  using sys.detach_created [OF assms] .

lemma sys_inv_new: "sys_inv (sys_impl_new :: 'cb sys_impl)"
proof -
  let ?s = "sys_impl_new :: 'cb sys_impl"
  have "sys_list ?s e n = []" if "nr_ok n" for e n
  proof (cases "n = - 1")
    case False
    then have "nat n < SYS_TABLE" using that by (auto simp: nr_ok_def)
    then show ?thesis by (simp add: sys_list_def sys_impl_new_def)
  qed (simp add: sys_list_def sys_impl_new_def)
  moreover have "si_next ?s = 1" "si_entries ?s = Map.empty"
    "length (si_enter ?s) = SYS_TABLE" "length (si_exit ?s) = SYS_TABLE" by (simp_all add: sys_impl_new_def)
  ultimately show ?thesis by (simp add: sys_inv_def)
qed

theorem syscall_attach_detach_witness:
  "\<exists>is s' s''. create_all (sys_create (\<lambda>xs x. x # xs)) [(True, SysData 3 True, 2), (False, OtherData, 2), (False, SysData (- 1) False, 2)]
      sys_impl_new = (is, s') \<and> for_each sys_detach is s' = (Inr (), s'') \<and> dom (si_entries s'') = {}"
proof -
  let ?qs = "[(True, SysData 3 True, 2), (False, OtherData, 2), (False, SysData (- 1) False, 2)]"
  obtain "is" s' where c: "create_all (sys_create (\<lambda>xs x. x # xs)) ?qs sys_impl_new = (is, s')" by fastforce
  from syscall_attach_detach [OF sys_inv_new c] c show ?thesis by (auto simp: sys_impl_new_def)
qed

section \<open>What a traced call does\<close>

text \<open>The reference: the attached programs in the order of their sets, without pointers.\<close>

fun run_list :: "('cb \<Rightarrow> sys_event \<Rightarrow> 'w \<Rightarrow> u64 list \<times> 'w) \<Rightarrow> sys_event \<Rightarrow> 'cb list \<Rightarrow> u64 option \<Rightarrow> 'w \<Rightarrow> u64 option \<times> 'w" where
  "run_list run ev [] ov w = (ov, w)"
| "run_list run ev (cb # cbs) ov w = (let (vs, w) = run cb ev w in run_list run ev cbs (if vs = [] then ov else Some (last vs)) w)"

definition traced :: "'cb sys_impl \<Rightarrow> bool \<Rightarrow> int \<Rightarrow> 'cb list" where
  "traced s enter nr = map (\<lambda>i. se_cb (the (si_entries s i))) (sys_list s enter nr @ sys_list s enter (- 1))"

lemma run_list_append:
  "run_list run ev (xs @ ys) ov w = (let (ov, w) = run_list run ev xs ov w in run_list run ev ys ov w)"
  by (induction xs arbitrary: ov w) (auto split: prod.splits)

lemma run_callbacks_list:
  "set is \<subseteq> dom (si_entries s) \<Longrightarrow>
     run_callbacks run s ev is ov w = Inr (run_list run ev (map (\<lambda>i. se_cb (the (si_entries s i))) is) ov w)"
  by (induction "is" arbitrary: ov w) (auto split: prod.splits)

lemma sys_list_live: "sys_inv s \<Longrightarrow> nr_ok nr \<Longrightarrow> set (sys_list s e nr) \<subseteq> dom (si_entries s)"
  using sys_invD(6) by (metis domI subsetI)

lemma run_phase_list:
  assumes "sys_inv s" "nr_ok nr"
  shows "run_phase run s ev (sys_list s e nr) (sys_list s e (- 1)) w = Inr (run_list run ev (traced s e nr) None w)"
proof -
  have "nr_ok (- 1)" by (simp add: nr_ok_def SYS_TABLE_def)
  then show ?thesis
    using sys_list_live [OF assms] sys_list_live [OF assms(1)]
    by (auto simp: run_phase_def traced_def run_callbacks_list run_list_append split: prod.splits)
qed

text \<open>C26. A traced system call: with a well-formed table and a number inside it, the dispatcher follows no
  dangling entry. It runs the programs attached to the entry of this call and of all calls; if one set a
  result, the last one set is returned and the system call is not made; otherwise the call is made, the
  programs of its exit run, and its result or the last one they set is returned. The two exit calls go
  straight to the system.\<close>

theorem dispatch_traced:
  assumes "sys_inv s" "0 \<le> nr" "nr < 512"
  shows "dispatch_syscall run orig s nr args w = Inr (
     if nr = NR_exit_group \<or> nr = NR_exit then orig nr args w
     else case run_list run (SysEnter nr args) (traced s True nr) None w of
         (Some v, w1) \<Rightarrow> (sint v, w1)
       | (None, w1) \<Rightarrow> (case orig nr args w1 of (ret, w2) \<Rightarrow>
           (case run_list run (SysExit nr ret) (traced s False nr) None w2 of
              (Some v, w3) \<Rightarrow> (sint v, w3) | (None, w3) \<Rightarrow> (ret, w3))))"
proof -
  have nr: "nr_ok nr" "nr \<noteq> - 1" using assms(2,3) by (auto simp: nr_ok_def SYS_TABLE_def)
  have lists: "si_enter s ! nat nr = sys_list s True nr" "si_global_enter s = sys_list s True (- 1)"
    "si_exit s ! nat nr = sys_list s False nr" "si_global_exit s = sys_list s False (- 1)"
    using nr(2) by (simp_all add: sys_list_def)
  have "\<not> (nr < 0 \<or> int (length (si_enter s)) \<le> nr)" using assms sys_invD(2) [OF assms(1)] by (simp add: SYS_TABLE_def)
  then show ?thesis
    unfolding dispatch_syscall_def lists
    by (auto simp: run_phase_list [OF assms(1) nr(1)] split: prod.splits option.splits)
qed

theorem dispatch_traced_witness:
  "dispatch_syscall (\<lambda>v ev w. ([v], w)) (\<lambda>nr args w. (- 1, Suc w))
     (snd (sys_create (\<lambda>xs x. x # xs) (7, SysData 3 True, 2) sys_impl_new)) 3 [] 0 = Inr (7, 0)"
proof -
  obtain i s where c: "sys_create (\<lambda>xs x. x # xs) (7 :: u64, SysData 3 True, 2) sys_impl_new = (Inr i, s)"
    by (simp add: sys_create_def ATTACH_SYSCALL_TRACE_def SYS_TABLE_def allocate_id_def)
  have s: "s = set_sys_list True 3 [1] (sys_impl_new\<lparr>si_next := 2, si_entries := [1 \<mapsto> \<lparr>se_cb = 7, se_nr = 3, se_enter = True\<rparr>]\<rparr>)"
    using c sys_create_ok [of 3 "\<lambda>xs x. x # xs" "7 :: u64" True sys_impl_new]
    by (simp add: ATTACH_SYSCALL_TRACE_def nr_ok_def SYS_TABLE_def sys_impl_new_def sys_list_def Let_def)
  have inv: "sys_inv s" using sys_inv_create [OF sys_inv_new place_front_ok c] by simp
  have "traced s True 3 = [7]"
    by (simp add: traced_def s sys_list_def set_sys_list_def sys_impl_new_def SYS_TABLE_def)
  with dispatch_traced [OF inv, of 3 "\<lambda>v ev w. ([v], w)" "\<lambda>nr args w. (- 1, Suc w)" "[]" 0] c
  show ?thesis by (simp add: NR_exit_def NR_exit_group_def)
qed

text \<open>System calls beyond the table: the dispatcher indexes its two arrays of 512 sets with the number
  of the call without a check, so any number outside the table reads outside the arrays, even with nothing
  attached.\<close>

theorem dispatch_out_of_range:
  assumes "sys_inv s" "nr < 0 \<or> 512 \<le> nr"
  shows "dispatch_syscall run orig s nr args w = Inl Fault"
  using assms(2) sys_invD(2) [OF assms(1)] by (auto simp: dispatch_syscall_def SYS_TABLE_def NR_exit_def NR_exit_group_def)

theorem dispatch_out_of_range_witness:
  "dispatch_syscall (\<lambda>(v :: nat) ev w. ([], w)) (\<lambda>nr args w. (- 1, w)) sys_impl_new 600 [] () = Inl Fault"
  by (rule dispatch_out_of_range [OF sys_inv_new]) simp

end
