(* ===== verification/Gpu_Channel.thy ===== *)
theory Gpu_Channel
  imports Shm_Api
begin

text \<open>
  Helper calls from the GPU (src/attach/bpf_attach_ctx_cuda.cpp and the device side in
  attach/nv_attach_impl/examples/default_trampoline/default_trampoline.cu). A device thread that calls a
  helper writes its request into a block of memory shared with the host, takes a lock, raises one flag
  and spins on another; a thread of the host polls the first flag, runs the map operation and raises the
  second. Host and device threads interleave: the theory has the protocol as a step relation with one
  step per access to the shared words, an invariant of every reachable state, what a device thread gets
  back, that every fair execution answers all calls or crashes the host, and a schedule in which a thread gets the answer to another thread's key.
  The shared words are sequentially consistent, filling in a request is one step, and device threads are scheduled one by one: threads of a warp that
  run in lock step are not modelled. The step \<open>other\<close> stands for whatever the rest of the system does to the maps between two steps.
\<close>

section \<open>The shared block\<close>

definition MAP_LOOKUP :: int where "MAP_LOOKUP = 1"
definition MAP_UPDATE :: int where "MAP_UPDATE = 2"
definition MAP_DELETE :: int where "MAP_DELETE = 3"
definition TRACE_PRINTK :: int where "TRACE_PRINTK = 6"
definition GET_CURRENT_PID_TGID :: int where "GET_CURRENT_PID_TGID = 14"
definition PUTS :: int where "PUTS = 501"

lemmas request_defs = MAP_LOOKUP_def MAP_UPDATE_def MAP_DELETE_def TRACE_PRINTK_def GET_CURRENT_PID_TGID_def PUTS_def

text \<open>The request is a union. A component of the record is what the bytes of the union say when they are read
  through that member (the keys of the three map calls are the same bytes); the arrays of the code are
  larger than any key or value.\<close>

record gpu_request =
  gq_key :: bytes
  gq_value :: bytes
  gq_flags :: u64
  gq_fmt :: bytes
  gq_fmt_size :: int
  gq_arg1 :: u64
  gq_arg2 :: u64
  gq_arg3 :: u64

definition key_request :: "bytes \<Rightarrow> gpu_request" where
  "key_request k = \<lparr>gq_key = k, gq_value = [], gq_flags = 0, gq_fmt = [], gq_fmt_size = 0, gq_arg1 = 0, gq_arg2 = 0, gq_arg3 = 0\<rparr>"

lemma key_request_inject [simp]: "key_request k = key_request l \<longleftrightarrow> k = l"
  by (simp add: key_request_def)

datatype gpu_response = RValue "ptr option" | RResult int | RPid u64

record comm =
  cm_flag1 :: bool
  cm_flag2 :: bool
  cm_occupy :: bool
  cm_request_id :: int
  cm_map_id :: int
  cm_req :: gpu_request
  cm_resp :: gpu_response

definition comm_new :: comm where
  "comm_new = \<lparr>cm_flag1 = False, cm_flag2 = False, cm_occupy = False, cm_request_id = 0, cm_map_id = 0,
     cm_req = key_request [], cm_resp = RResult 0\<rparr>"

section \<open>The host\<close>

text \<open>The C results of the map calls: null or a pointer, and 0, -1 or a negative error number.\<close>

fun neg_errno :: "errno \<Rightarrow> int" where
  "neg_errno EPERM = - 1" | "neg_errno ENOENT = - 2" | "neg_errno EINTR = - 4" | "neg_errno E2BIG = - 7"
| "neg_errno EBADF = - 9" | "neg_errno EEXIST = - 17" | "neg_errno EINVAL = - 22" | "neg_errno ENOSPC = - 28"
| "neg_errno ENOTSUP = - 95"

fun c_result :: "int res \<Rightarrow> int option" where
  "c_result (Inr n) = Some n"
| "c_result (Inl (NegErrno e)) = Some (neg_errno e)"
| "c_result (Inl (Errno e)) = Some (- 1)"
| "c_result (Inl Silent) = Some (- 1)"
| "c_result (Inl Throw) = None"
| "c_result (Inl Fault) = None"

fun c_pointer :: "ptr res \<Rightarrow> ptr option option" where
  "c_pointer (Inr p) = Some (Some p)"
| "c_pointer (Inl Throw) = None"
| "c_pointer (Inl Fault) = None"
| "c_pointer (Inl _) = Some None"

type_synonym printk_fun = "bytes \<Rightarrow> int \<Rightarrow> u64 \<Rightarrow> u64 \<Rightarrow> u64 \<Rightarrow> int"

text \<open>One request. \<open>printk\<close> and \<open>pid_tgid\<close> are what the print helper and the system return; \<open>None\<close> is a
  request that takes the process down. An unknown request leaves the response as it is.\<close>

definition handle_request ::
  "'w map_env \<Rightarrow> printk_fun \<Rightarrow> u64 \<Rightarrow> int \<Rightarrow> int \<Rightarrow> gpu_request \<Rightarrow> gpu_response \<Rightarrow> 'w shm \<Rightarrow> (gpu_response \<times> 'w shm) option" where
  "handle_request env printk pid_tgid req_id map_id req resp s =
     (let fd = signed_take_bit 31 map_id in
      if req_id = MAP_LOOKUP then
        (let (r, s) = bpftime_map_lookup_elem env fd (Some (gq_key req)) s
         in (case c_pointer r of None \<Rightarrow> None | Some p \<Rightarrow> Some (RValue p, s)))
      else if req_id = MAP_UPDATE then
        (let (r, s) = bpftime_map_update_elem env fd (Some (gq_key req)) (gq_value req) (gq_flags req) s
         in (case c_result r of None \<Rightarrow> None | Some n \<Rightarrow> Some (RResult n, s)))
      else if req_id = MAP_DELETE then
        (let (r, s) = bpftime_map_delete_elem env fd (Some (gq_key req)) s
         in (case c_result r of None \<Rightarrow> None | Some n \<Rightarrow> Some (RResult n, s)))
      else if req_id = TRACE_PRINTK then Some (RResult (printk (gq_fmt req) (gq_fmt_size req) (gq_arg1 req) (gq_arg2 req) (gq_arg3 req)), s)
      else if req_id = GET_CURRENT_PID_TGID then Some (RPid pid_tgid, s)
      else if req_id = PUTS then Some (RResult 0, s)
      else Some (resp, s))"

section \<open>The protocol\<close>

text \<open>The watcher thread: polling, running a request it has seen, and announcing the answer. A device
  thread runs \<^verbatim>\<open>_bpf_helper_ext_\<close> and \<^verbatim>\<open>make_helper_call\<close>: it fills in the request, takes the lock, writes
  the two numbers, raises \<^verbatim>\<open>flag1\<close>, spins on \<^verbatim>\<open>flag2\<close>, clears it, reads the answer and gives the lock back.\<close>

datatype host_pc = Polling | Handling | Answered | Crashed_host

datatype dev_pc = Filling | Locking | Numbering | Raising | Spinning | Clearing | Reading | Unlocking | Done

text \<open>\<open>gp_calls t\<close> is the call of thread \<open>t\<close> (helper, map, arguments). \<open>gp_served\<close> records, for the proofs, the
  requests the host ran and their answers, the last one first.\<close>

record 'w gpu =
  gp_comm :: comm
  gp_shm :: "'w shm"
  gp_host :: host_pc
  gp_pc :: "nat \<Rightarrow> dev_pc"
  gp_result :: "nat \<Rightarrow> gpu_response option"
  gp_served :: "(int \<times> int \<times> gpu_request \<times> gpu_response) list"

definition gpu_new :: "'w shm \<Rightarrow> 'w gpu" where
  "gpu_new s = \<lparr>gp_comm = comm_new, gp_shm = s, gp_host = Polling, gp_pc = (\<lambda>t. Filling),
     gp_result = (\<lambda>t. None), gp_served = []\<rparr>"

definition at_pc :: "nat \<Rightarrow> dev_pc \<Rightarrow> 'w gpu \<Rightarrow> 'w gpu" where
  "at_pc t pc g = g\<lparr>gp_pc := (gp_pc g)(t := pc)\<rparr>"

definition on_comm :: "(comm \<Rightarrow> comm) \<Rightarrow> 'w gpu \<Rightarrow> 'w gpu" where
  "on_comm f g = g\<lparr>gp_comm := f (gp_comm g)\<rparr>"

text \<open>One step of a device thread; the spins stay where they are. The helper for the process id has nothing
  to fill in.\<close>

definition dev_step :: "(nat \<Rightarrow> int \<times> int \<times> gpu_request) \<Rightarrow> nat \<Rightarrow> 'w gpu \<Rightarrow> 'w gpu" where
  "dev_step calls t g = (case calls t of (req_id, map_id, req) \<Rightarrow> (case gp_pc g t of
     Filling \<Rightarrow> at_pc t Locking (on_comm (\<lambda>c. if req_id = GET_CURRENT_PID_TGID then c else c\<lparr>cm_req := req\<rparr>) g)
   | Locking \<Rightarrow> if cm_occupy (gp_comm g) then g else at_pc t Numbering (on_comm (\<lambda>c. c\<lparr>cm_occupy := True\<rparr>) g)
   | Numbering \<Rightarrow> at_pc t Raising (on_comm (\<lambda>c. c\<lparr>cm_request_id := req_id, cm_map_id := map_id\<rparr>) g)
   | Raising \<Rightarrow> at_pc t Spinning (on_comm (\<lambda>c. c\<lparr>cm_flag1 := True\<rparr>) g)
   | Spinning \<Rightarrow> if cm_flag2 (gp_comm g) then at_pc t Clearing g else g
   | Clearing \<Rightarrow> at_pc t Reading (on_comm (\<lambda>c. c\<lparr>cm_flag2 := False\<rparr>) g)
   | Reading \<Rightarrow> at_pc t Unlocking (g\<lparr>gp_result := (gp_result g)(t \<mapsto> cm_resp (gp_comm g))\<rparr>)
   | Unlocking \<Rightarrow> at_pc t Done (on_comm (\<lambda>c. c\<lparr>cm_occupy := False\<rparr>) g)
   | Done \<Rightarrow> g))"

definition host_step :: "'w map_env \<Rightarrow> printk_fun \<Rightarrow> u64 \<Rightarrow> 'w gpu \<Rightarrow> 'w gpu" where
  "host_step env printk pid_tgid g = (case gp_host g of
     Polling \<Rightarrow> if cm_flag1 (gp_comm g) then (on_comm (\<lambda>c. c\<lparr>cm_flag1 := False\<rparr>) g)\<lparr>gp_host := Handling\<rparr> else g
   | Handling \<Rightarrow>
       (let c = gp_comm g in
        case handle_request env printk pid_tgid (cm_request_id c) (cm_map_id c) (cm_req c) (cm_resp c) (gp_shm g) of
          None \<Rightarrow> g\<lparr>gp_host := Crashed_host\<rparr>
        | Some (resp, s) \<Rightarrow> (on_comm (\<lambda>c. c\<lparr>cm_resp := resp\<rparr>) g)\<lparr>gp_shm := s, gp_host := Answered,
            gp_served := (cm_request_id c, cm_map_id c, cm_req c, resp) # gp_served g\<rparr>)
   | Answered \<Rightarrow> (on_comm (\<lambda>c. c\<lparr>cm_flag2 := True\<rparr>) g)\<lparr>gp_host := Polling\<rparr>
   | Crashed_host \<Rightarrow> g)"

text \<open>\<open>T\<close> is the set of device threads the kernel was launched with. Between their steps and those of the
  host the rest of the system works on the shared memory.\<close>

inductive gpu_step :: "nat set \<Rightarrow> (nat \<Rightarrow> int \<times> int \<times> gpu_request) \<Rightarrow> 'w gpu \<Rightarrow> 'w gpu \<Rightarrow> bool" for T calls where
  device: "t \<in> T \<Longrightarrow> gpu_step T calls g (dev_step calls t g)"
| host: "gpu_step T calls g (host_step env printk pid_tgid g)"
| other: "gpu_step T calls g (g\<lparr>gp_shm := s\<rparr>)"

inductive gpu_reach :: "nat set \<Rightarrow> (nat \<Rightarrow> int \<times> int \<times> gpu_request) \<Rightarrow> 'w gpu \<Rightarrow> bool" for T calls where
  start: "gpu_reach T calls (gpu_new s)"
| further: "gpu_reach T calls g \<Longrightarrow> gpu_step T calls g g' \<Longrightarrow> gpu_reach T calls g'"

inductive_cases gpu_stepE: "gpu_step T calls g g'"

section \<open>The invariant of the protocol\<close>

fun holding :: "dev_pc \<Rightarrow> bool" where
  "holding Filling = False" | "holding Locking = False" | "holding Done = False" | "holding _ = True"

text \<open>Where host and flags stand for each place of the thread that holds the lock.\<close>

fun phase_ok :: "dev_pc \<Rightarrow> host_pc \<Rightarrow> bool \<Rightarrow> bool \<Rightarrow> bool" where
  "phase_ok Spinning Polling f1 f2 = (f1 \<noteq> f2)"
| "phase_ok Spinning h f1 f2 = (\<not> f1 \<and> \<not> f2)"
| "phase_ok Clearing h f1 f2 = (h = Polling \<and> \<not> f1 \<and> f2)"
| "phase_ok pc h f1 f2 = (h = Polling \<and> \<not> f1 \<and> \<not> f2)"

text \<open>The answer in the block is the one to the call \<open>(i, m)\<close>.\<close>

definition answered :: "int \<Rightarrow> int \<Rightarrow> 'w gpu \<Rightarrow> bool" where
  "answered i m g \<longleftrightarrow> (\<exists>q. (i, m, q, cm_resp (gp_comm g)) \<in> set (gp_served g))"

definition holder_ok :: "(nat \<Rightarrow> int \<times> int \<times> gpu_request) \<Rightarrow> 'w gpu \<Rightarrow> nat \<Rightarrow> bool" where
  "holder_ok calls g t \<longleftrightarrow> (case calls t of (i, m, q) \<Rightarrow>
     (gp_pc g t \<in> {Raising, Spinning} \<longrightarrow> cm_request_id (gp_comm g) = i \<and> cm_map_id (gp_comm g) = m) \<and>
     (gp_pc g t \<in> {Clearing, Reading} \<or> gp_pc g t = Spinning \<and> (gp_host g = Answered \<or> cm_flag2 (gp_comm g)) \<longrightarrow> answered i m g))"

definition result_ok :: "(nat \<Rightarrow> int \<times> int \<times> gpu_request) \<Rightarrow> 'w gpu \<Rightarrow> nat \<Rightarrow> bool" where
  "result_ok calls g t \<longleftrightarrow> (case calls t of (i, m, q) \<Rightarrow>
     gp_pc g t \<in> {Unlocking, Done} \<longrightarrow> (\<exists>q' r. gp_result g t = Some r \<and> (i, m, q', r) \<in> set (gp_served g)))"

definition gpu_inv :: "(nat \<Rightarrow> int \<times> int \<times> gpu_request) \<Rightarrow> 'w gpu \<Rightarrow> bool" where
  "gpu_inv calls g \<longleftrightarrow>
     (\<forall>t u. holding (gp_pc g t) \<and> holding (gp_pc g u) \<longrightarrow> t = u) \<and>
     (cm_occupy (gp_comm g) \<longleftrightarrow> (\<exists>t. holding (gp_pc g t))) \<and>
     (\<not> cm_occupy (gp_comm g) \<longrightarrow> gp_host g = Polling \<and> \<not> cm_flag1 (gp_comm g) \<and> \<not> cm_flag2 (gp_comm g)) \<and>
     (\<forall>t. holding (gp_pc g t) \<longrightarrow>
        phase_ok (gp_pc g t) (gp_host g) (cm_flag1 (gp_comm g)) (cm_flag2 (gp_comm g)) \<and> holder_ok calls g t) \<and>
     (\<forall>t. result_ok calls g t)"

lemma gpu_inv_new: "gpu_inv calls (gpu_new s)"
  by (auto simp: gpu_inv_def gpu_new_def comm_new_def result_ok_def split: prod.split)

lemma gpu_invD:
  assumes "gpu_inv calls g"
  shows "holding (gp_pc g t) \<Longrightarrow> holding (gp_pc g u) \<Longrightarrow> t = u"
    "cm_occupy (gp_comm g) \<longleftrightarrow> (\<exists>t. holding (gp_pc g t))"
    "\<not> cm_occupy (gp_comm g) \<Longrightarrow> gp_host g = Polling \<and> \<not> cm_flag1 (gp_comm g) \<and> \<not> cm_flag2 (gp_comm g)"
    "holding (gp_pc g t) \<Longrightarrow> phase_ok (gp_pc g t) (gp_host g) (cm_flag1 (gp_comm g)) (cm_flag2 (gp_comm g))"
    "holding (gp_pc g t) \<Longrightarrow> holder_ok calls g t"
    "result_ok calls g t"
  using assms unfolding gpu_inv_def by blast+

text \<open>A step of the thread that holds the lock, or takes it: the other threads hold nothing.\<close>

lemma gpu_inv_holder:
  assumes only: "\<And>u. u \<noteq> t \<Longrightarrow> \<not> holding (gp_pc g u)" and t: "holding (gp_pc g t)" "cm_occupy (gp_comm g)"
    and ok: "phase_ok (gp_pc g t) (gp_host g) (cm_flag1 (gp_comm g)) (cm_flag2 (gp_comm g))" "holder_ok calls g t"
    and res: "\<And>u. result_ok calls g u"
  shows "gpu_inv calls g"
proof -
  have u: "u = t" if "holding (gp_pc g u)" for u using only that by blast
  show ?thesis unfolding gpu_inv_def
  proof (intro conjI allI impI)
    fix u v assume "holding (gp_pc g u) \<and> holding (gp_pc g v)"
    then show "u = v" using u by metis
  next
    fix u assume "holding (gp_pc g u)"
    from u [OF this] ok show "phase_ok (gp_pc g u) (gp_host g) (cm_flag1 (gp_comm g)) (cm_flag2 (gp_comm g))"
      "holder_ok calls g u" by simp_all
  qed (use t res in auto)
qed

text \<open>A step that leaves the lock, the holder's place and everything the host works on alone.\<close>

lemma gpu_inv_same:
  assumes inv: "gpu_inv calls g" and pc: "\<And>u. holding (gp_pc g' u) = holding (gp_pc g u)"
    "\<And>u. holding (gp_pc g u) \<Longrightarrow> gp_pc g' u = gp_pc g u"
    and rest: "gp_host g' = gp_host g" "cm_flag1 (gp_comm g') = cm_flag1 (gp_comm g)" "cm_flag2 (gp_comm g') = cm_flag2 (gp_comm g)"
      "cm_occupy (gp_comm g') = cm_occupy (gp_comm g)" "cm_request_id (gp_comm g') = cm_request_id (gp_comm g)"
      "cm_map_id (gp_comm g') = cm_map_id (gp_comm g)" "cm_resp (gp_comm g') = cm_resp (gp_comm g)" "gp_served g' = gp_served g"
    and res: "\<And>u. result_ok calls g' u"
  shows "gpu_inv calls g'"
proof -
  have "holder_ok calls g' u = holder_ok calls g u" if "holding (gp_pc g u)" for u
    using pc(2) [OF that] rest by (simp add: holder_ok_def answered_def)
  moreover have "\<forall>u. result_ok calls g' u" using res by blast
  ultimately show ?thesis using inv rest pc unfolding gpu_inv_def by simp
qed

lemma result_ok_frame:
  assumes "result_ok calls g u" "gp_pc g' u \<in> {Unlocking, Done} \<Longrightarrow> gp_pc g u \<in> {Unlocking, Done}"
    "gp_result g' u = gp_result g u" "set (gp_served g) \<subseteq> set (gp_served g')"
  shows "result_ok calls g' u"
  using assms unfolding result_ok_def by (auto split: prod.splits)

lemmas gpu_defs = at_pc_def on_comm_def holder_ok_def answered_def

lemma gpu_inv_device:
  assumes inv: "gpu_inv calls g"
  shows "gpu_inv calls (dev_step calls t g)"
proof -
  obtain i m q where c: "calls t = (i, m, q)" by (metis prod_cases3)
  note D = gpu_invD [OF inv]
  note step = dev_step_def [of calls t g]
  have frame: "result_ok calls g' u" if "gp_pc g' u \<in> {Unlocking, Done} \<Longrightarrow> gp_pc g u \<in> {Unlocking, Done}"
    "gp_result g' u = gp_result g u" "gp_served g' = gp_served g" for u g'
    using that by (intro result_ok_frame [OF D(6) [of u]]) auto
  have others: "\<not> holding (gp_pc g u)" if "holding (gp_pc g t)" "u \<noteq> t" for u using D(1) that by blast
  have occ: "cm_occupy (gp_comm g)" if "holding (gp_pc g t)" using D(2) that by blast
  show ?thesis
  proof (cases "gp_pc g t")
    case Filling
    then show ?thesis using c step by (intro gpu_inv_same [OF inv]) (auto simp: gpu_defs split: if_splits intro!: frame)
  next
    case Locking
    show ?thesis
    proof (cases "cm_occupy (gp_comm g)")
      case True
      then show ?thesis using Locking c step inv by simp
    next
      case False
      with D(2) have none: "\<not> holding (gp_pc g u)" for u by blast
      from D(3) [OF False] show ?thesis using Locking c step False none
        by (intro gpu_inv_holder [of t]) (auto simp: gpu_defs split: if_splits intro!: frame)
    qed
  next
    case Numbering
    with others occ D(4) [of t] c step show ?thesis
      by (intro gpu_inv_holder [of t]) (auto simp: gpu_defs split: if_splits intro!: frame)
  next
    case Raising
    with others occ D(4) [of t] D(5) [of t] c step show ?thesis
      by (intro gpu_inv_holder [of t]) (auto simp: gpu_defs split: if_splits intro!: frame)
  next
    case Spinning
    show ?thesis
    proof (cases "cm_flag2 (gp_comm g)")
      case True
      have "gp_host g = Polling \<and> \<not> cm_flag1 (gp_comm g)" using D(4) [of t] Spinning True by (cases "gp_host g") auto
      with True Spinning others occ D(5) [of t] c step show ?thesis
        by (intro gpu_inv_holder [of t]) (auto simp: gpu_defs split: if_splits intro!: frame)
    next
      case False
      with Spinning c step inv show ?thesis by simp
    qed
  next
    case Clearing
    with others occ D(4) [of t] D(5) [of t] c step show ?thesis
      by (intro gpu_inv_holder [of t]) (auto simp: gpu_defs split: if_splits intro!: frame)
  next
    case Reading
    have "result_ok calls (dev_step calls t g) u" for u
    proof (cases "u = t")
      case True
      then show ?thesis using Reading D(5) [of t] c step by (auto simp: gpu_defs result_ok_def)
    qed (use Reading c step in \<open>auto simp: gpu_defs split: if_splits intro!: frame\<close>)
    with Reading others occ D(4) [of t] c step show ?thesis
      by (intro gpu_inv_holder [of t]) (auto simp: gpu_defs)
  next
    case Unlocking
    have ph: "gp_host g = Polling" "\<not> cm_flag1 (gp_comm g)" "\<not> cm_flag2 (gp_comm g)" using D(4) [of t] Unlocking by auto
    have none: "\<not> holding (gp_pc (dev_step calls t g) u)" for u using Unlocking others c step by (auto simp: gpu_defs)
    have res: "result_ok calls (dev_step calls t g) u" for u
      using Unlocking c step by (intro frame) (auto simp: gpu_defs split: if_splits)
    show ?thesis using none res ph Unlocking c step unfolding gpu_inv_def by (auto simp: gpu_defs)
  next
    case Done
    with c step inv show ?thesis by simp
  qed
qed

lemma gpu_inv_host:
  assumes inv: "gpu_inv calls g"
  shows "gpu_inv calls (host_step env printk pid_tgid g)"
proof (cases "gp_host g = Crashed_host \<or> gp_host g = Polling \<and> \<not> cm_flag1 (gp_comm g)")
  case True
  then show ?thesis using inv by (auto simp: host_step_def)
next
  case False
  note D = gpu_invD [OF inv]
  have "cm_occupy (gp_comm g)" using D(3) False by (cases "gp_host g") auto
  then obtain t where t: "holding (gp_pc g t)" and occ: "cm_occupy (gp_comm g)" using D(2) by blast
  have others: "\<not> holding (gp_pc g u)" if "u \<noteq> t" for u using D(1) t that by blast
  have pc: "gp_pc g t = Spinning" and f2: "\<not> cm_flag2 (gp_comm g)" and f1: "gp_host g = Polling \<or> \<not> cm_flag1 (gp_comm g)"
    using D(4) [OF t] t False by (cases "gp_pc g t"; cases "gp_host g"; auto)+
  obtain i m q where c: "calls t = (i, m, q)" by (metis prod_cases3)
  have ids: "cm_request_id (gp_comm g) = i" "cm_map_id (gp_comm g) = m"
    using D(5) [OF t] pc c by (auto simp: holder_ok_def)
  have frame: "result_ok calls g' u" if "gp_pc g' u = gp_pc g u" "gp_result g' u = gp_result g u"
    "set (gp_served g) \<subseteq> set (gp_served g')" for u g'
    using that by (intro result_ok_frame [OF D(6) [of u]]) auto
  show ?thesis
  proof (cases "gp_host g")
    case Polling
    then show ?thesis using False pc f2 ids c others occ
      by (intro gpu_inv_holder [of t]) (auto simp: host_step_def gpu_defs Let_def intro!: frame)
  next
    case Handling
    show ?thesis
    proof (cases "handle_request env printk pid_tgid i m (cm_req (gp_comm g)) (cm_resp (gp_comm g)) (gp_shm g)")
      case None
      then show ?thesis using Handling pc f1 f2 ids c others occ
        by (intro gpu_inv_holder [of t]) (auto simp: host_step_def gpu_defs Let_def intro!: frame)
    next
      case (Some out)
      obtain resp s where out: "out = (resp, s)" by fastforce
      have res: "result_ok calls (host_step env printk pid_tgid g) u" for u
        using Handling Some out ids by (intro frame) (auto simp: host_step_def gpu_defs Let_def)
      then show ?thesis using Handling Some out pc f1 f2 ids c others occ
        by (intro gpu_inv_holder [of t]) (auto simp: host_step_def gpu_defs Let_def)
    qed
  next
    case Answered
    then show ?thesis using pc f1 f2 ids c others occ D(5) [OF t]
      by (intro gpu_inv_holder [of t]) (auto simp: host_step_def gpu_defs Let_def intro!: frame)
  next
    case Crashed_host
    with False show ?thesis by simp
  qed
qed

lemma gpu_inv_other:
  assumes "gpu_inv calls g"
  shows "gpu_inv calls (g\<lparr>gp_shm := s\<rparr>)"
proof -
  have "result_ok calls (g\<lparr>gp_shm := s\<rparr>) u" for u
    by (rule result_ok_frame [OF gpu_invD(6) [OF assms]]) auto
  then show ?thesis by (intro gpu_inv_same [OF assms]) auto
qed

lemma gpu_inv_step: "gpu_inv calls g \<Longrightarrow> gpu_step T calls g g' \<Longrightarrow> gpu_inv calls g'"
  by (auto elim!: gpu_stepE intro: gpu_inv_device gpu_inv_host gpu_inv_other)

lemma gpu_reach_inv: "gpu_reach T calls g \<Longrightarrow> gpu_inv calls g"
  by (induction rule: gpu_reach.induct) (auto intro: gpu_inv_new gpu_inv_step)

text \<open>Everything in the log is the answer the host computed for it.\<close>

definition is_answer :: "'w itself \<Rightarrow> int \<times> int \<times> gpu_request \<times> gpu_response \<Rightarrow> bool" where
  "is_answer w e \<longleftrightarrow> (case e of (i, m, q, r) \<Rightarrow> \<exists>env printk pid_tgid r0 (s :: 'w shm) s'.
     handle_request env printk pid_tgid i m q r0 s = Some (r, s'))"

lemma served_dev [simp]: "gp_served (dev_step calls t g) = gp_served g"
  by (auto simp: dev_step_def at_pc_def on_comm_def split: prod.split dev_pc.split)

lemma gpu_reach_log:
  "gpu_reach T calls (g :: 'w gpu) \<Longrightarrow> e \<in> set (gp_served g) \<Longrightarrow> is_answer TYPE('w) e"
proof (induction rule: gpu_reach.induct)
  case (further g g')
  from further.hyps(2) show ?case
  proof (cases rule: gpu_step.cases)
    case (host env printk pid_tgid)
    then show ?thesis using further.IH further.prems
      by (fastforce simp: host_step_def on_comm_def is_answer_def Let_def split: host_pc.splits if_splits option.splits prod.splits)
  qed (use further in auto)
qed (simp add: gpu_new_def)

section \<open>What a helper call returns\<close>

text \<open>A lookup of one byte by thread 0 and of another by thread 1, on a shared memory without maps.\<close>

definition lookup_calls :: "nat \<Rightarrow> int \<times> int \<times> gpu_request" where
  "lookup_calls t = (MAP_LOOKUP, 0, key_request [of_nat t])"

definition no_print :: printk_fun where
  "no_print fmt fmt_size arg1 arg2 arg3 = 0"

text \<open>A schedule: \<open>None\<close> is a step of the host, \<open>Some t\<close> a step of thread \<open>t\<close>.\<close>

fun gpu_run :: "'w map_env \<Rightarrow> (nat \<Rightarrow> int \<times> int \<times> gpu_request) \<Rightarrow> nat option list \<Rightarrow> 'w gpu \<Rightarrow> 'w gpu" where
  "gpu_run env calls [] g = g"
| "gpu_run env calls (None # xs) g = gpu_run env calls xs (host_step env no_print 0 g)"
| "gpu_run env calls (Some t # xs) g = gpu_run env calls xs (dev_step calls t g)"

lemma gpu_reach_run:
  "gpu_reach T calls g \<Longrightarrow> (\<forall>t. Some t \<in> set xs \<longrightarrow> t \<in> T) \<Longrightarrow> gpu_reach T calls (gpu_run env calls xs g)"
proof (induction xs arbitrary: g)
  case (Cons x xs)
  show ?case
  proof (cases x)
    case None
    have "gpu_reach T calls (host_step env no_print 0 g)"
      by (rule gpu_reach.further [OF Cons.prems(1)]) (rule gpu_step.host)
    with None Cons show ?thesis by simp
  next
    case (Some t)
    then have "gpu_reach T calls (dev_step calls t g)"
      using Cons.prems by (auto intro: gpu_reach.further gpu_step.device)
    with Some Cons show ?thesis by simp
  qed
qed simp

text \<open>One call from start to end, while nobody else is in a call.\<close>

definition whole_call :: "nat \<Rightarrow> nat option list" where
  "whole_call t = [Some t, Some t, Some t, None, None, None, Some t, Some t, Some t, Some t]"

lemma run_whole_call:
  assumes "gp_pc g t = Locking" "\<not> cm_occupy (gp_comm g)" "gp_host g = Polling" "calls t = (i, m, q)"
    and "handle_request env no_print 0 i m (cm_req (gp_comm g)) (cm_resp (gp_comm g)) (gp_shm g) = Some (r, s')"
  shows "gp_pc (gpu_run env calls (whole_call t) g) t = Done \<and> gp_result (gpu_run env calls (whole_call t) g) t = Some r"
  using assms by (simp add: whole_call_def dev_step_def host_step_def at_pc_def on_comm_def Let_def)

text \<open>C24. The GPU channel: with any number of device threads and any interleaving with the host, at most
  one thread is inside a call; a call that has returned got an answer the host computed for this helper
  and this map, never the one to another thread's helper or map; and no thread is left holding the lock
  without it being taken.\<close>

theorem gpu_call_answered:
  assumes "gpu_reach T calls (g :: 'w gpu)" "calls t = (i, m, q)"
  shows "(\<forall>u v. holding (gp_pc g u) \<and> holding (gp_pc g v) \<longrightarrow> u = v) \<and>
    (cm_occupy (gp_comm g) \<longleftrightarrow> (\<exists>u. holding (gp_pc g u))) \<and>
    (gp_pc g t = Done \<longrightarrow> (\<exists>q' r env printk pid_tgid r0 (s :: 'w shm) s'. gp_result g t = Some r \<and>
       (i, m, q', r) \<in> set (gp_served g) \<and> handle_request env printk pid_tgid i m q' r0 s = Some (r, s')))"
proof -
  note D = gpu_invD [OF gpu_reach_inv [OF assms(1)]]
  have "\<exists>q' r env printk pid_tgid r0 (s :: 'w shm) s'. gp_result g t = Some r \<and>
       (i, m, q', r) \<in> set (gp_served g) \<and> handle_request env printk pid_tgid i m q' r0 s = Some (r, s')" if "gp_pc g t = Done"
  proof -
    from D(6) [of t] that assms(2) obtain q' r where r: "gp_result g t = Some r" "(i, m, q', r) \<in> set (gp_served g)"
      by (auto simp: result_ok_def)
    have "is_answer TYPE('w) (i, m, q', r)" by (rule gpu_reach_log [OF assms(1) r(2)])
    then show ?thesis using r unfolding is_answer_def prod.case by blast
  qed
  with D(1,2) show ?thesis by blast
qed

lemma no_maps: "bpftime_map_lookup_elem plain_env fd k (one_epoll []) = (Inl (Errno ENOENT), one_epoll [])"
  "bpftime_map_update_elem plain_env fd k v f (one_epoll []) = (Inl (Errno ENOENT), one_epoll [])"
  "bpftime_map_delete_elem plain_env fd k (one_epoll []) = (Inl (Errno ENOENT), one_epoll [])"
proof -
  have "shm_handler (one_epoll []) fd \<noteq> Some (MapH mh)" for mh
    by (auto simp: shm_handler_def one_epoll_def nth_Cons split: nat.splits)
  then have "shm_map_lookup_elem plain_env fd k True (one_epoll []) = (Inl (Errno ENOENT), one_epoll [])"
    "shm_map_update_elem plain_env fd k v f True (one_epoll []) = (Inl (Errno ENOENT), one_epoll [])"
    "shm_delete_elem plain_env fd k True (one_epoll []) = (Inl (Errno ENOENT), one_epoll [])"
    by (auto simp: shm_map_lookup_elem_def shm_map_update_elem_def shm_delete_elem_def split: option.split handler.split)
  then show "bpftime_map_lookup_elem plain_env fd k (one_epoll []) = (Inl (Errno ENOENT), one_epoll [])"
    "bpftime_map_update_elem plain_env fd k v f (one_epoll []) = (Inl (Errno ENOENT), one_epoll [])"
    "bpftime_map_delete_elem plain_env fd k (one_epoll []) = (Inl (Errno ENOENT), one_epoll [])"
    by (simp_all add: bpftime_map_lookup_elem_def bpftime_map_update_elem_def bpftime_map_delete_elem_def catching_def)
qed

definition lookup_done :: "unit gpu" where
  "lookup_done = gpu_run plain_env lookup_calls (Some 0 # whole_call 0) (gpu_new (one_epoll []))"

lemma lookup_done_reach: "gpu_reach {0} lookup_calls lookup_done"
  unfolding lookup_done_def by (rule gpu_reach_run [OF gpu_reach.start]) (auto simp: whole_call_def)

lemma lookup_done_Done: "gp_pc lookup_done 0 = Done"
proof -
  let ?g = "dev_step lookup_calls 0 (gpu_new (one_epoll []))"
  have g: "gp_pc ?g 0 = Locking" "\<not> cm_occupy (gp_comm ?g)" "gp_host ?g = Polling" "gp_shm ?g = one_epoll []"
    by (simp_all add: dev_step_def at_pc_def on_comm_def gpu_new_def comm_new_def lookup_calls_def)
  then have h: "handle_request plain_env no_print 0 MAP_LOOKUP 0 (cm_req (gp_comm ?g)) (cm_resp (gp_comm ?g)) (gp_shm ?g) =
    Some (RValue None, one_epoll [])"
    by (simp add: handle_request_def request_defs no_maps)
  from run_whole_call [of ?g 0 lookup_calls, OF g(1-3) lookup_calls_def h] show ?thesis by (simp add: lookup_done_def)
qed

theorem gpu_call_answered_witness:
  "gp_pc lookup_done 0 = Done \<and> (\<exists>r. gp_result lookup_done 0 = Some r)"
  using gpu_call_answered [OF lookup_done_reach lookup_calls_def] lookup_done_Done by blast

text \<open>Requests of concurrent threads mix: the arguments are written into the shared block before the
  lock is taken, so when thread 1 fills in its request while thread 0 is about to take the lock, thread 0
  gets the host's answer to thread 1's arguments.\<close>

theorem gpu_request_race:
  fixes s :: "'w shm"
  assumes "calls 0 = (i, m, q0)" "calls 1 = (j, n, q1)" "j \<noteq> GET_CURRENT_PID_TGID"
    and "handle_request env no_print 0 i m q1 (RResult 0) s = Some (r, s')"
  shows "\<exists>g :: 'w gpu. gpu_reach {0, 1} calls g \<and> gp_pc g 0 = Done \<and> gp_result g 0 = Some r"
proof -
  let ?g = "gpu_run env calls [Some 0, Some 1] (gpu_new s)"
  have "gp_pc ?g 0 = Locking" "\<not> cm_occupy (gp_comm ?g)" "gp_host ?g = Polling" "gp_shm ?g = s"
    "cm_req (gp_comm ?g) = q1" "cm_resp (gp_comm ?g) = RResult 0"
    using assms(1-3) by (simp_all add: dev_step_def at_pc_def on_comm_def gpu_new_def comm_new_def)
  then have "gp_pc (gpu_run env calls (whole_call 0) ?g) 0 = Done \<and> gp_result (gpu_run env calls (whole_call 0) ?g) 0 = Some r"
    using assms(1,4) run_whole_call [of ?g 0 calls i m q0 env r s'] by simp
  moreover have "gpu_reach {0, 1} calls (gpu_run env calls (whole_call 0) ?g)"
    by (intro gpu_reach_run gpu_reach.start) (auto simp: whole_call_def)
  ultimately show ?thesis by blast
qed

theorem gpu_request_race_witness:
  "\<exists>g. gpu_reach {0, 1} lookup_calls (g :: unit gpu) \<and> gp_pc g 0 = Done \<and> gp_result g 0 = Some (RValue None)"
proof -
  have "handle_request plain_env no_print 0 MAP_LOOKUP 0 (key_request [1]) (RResult 0) (one_epoll []) =
    Some (RValue None, one_epoll [])"
    by (simp add: handle_request_def request_defs no_maps)
  moreover have "lookup_calls 1 = (MAP_LOOKUP, 0, key_request [1])" by (simp add: lookup_calls_def)
  ultimately show ?thesis
    using gpu_request_race [of lookup_calls, OF lookup_calls_def] by (fastforce simp: request_defs)
qed

text \<open>With one device thread nobody can overwrite the arguments.\<close>

definition solo_inv :: "(nat \<Rightarrow> int \<times> int \<times> gpu_request) \<Rightarrow> nat \<Rightarrow> 'w gpu \<Rightarrow> bool" where
  "solo_inv calls t g \<longleftrightarrow> (\<forall>u. u \<noteq> t \<longrightarrow> gp_pc g u = Filling) \<and>
     (fst (calls t) \<noteq> GET_CURRENT_PID_TGID \<longrightarrow>
        (gp_pc g t \<noteq> Filling \<longrightarrow> cm_req (gp_comm g) = snd (snd (calls t))) \<and>
        (\<forall>e \<in> set (gp_served g). fst (snd (snd e)) = snd (snd (calls t))))"

lemma solo_inv_device: "solo_inv calls t g \<Longrightarrow> solo_inv calls t (dev_step calls t g)"
  by (cases "gp_pc g t") (auto simp: solo_inv_def dev_step_def at_pc_def on_comm_def split: prod.split)

lemma solo_inv_host:
  assumes "solo_inv calls t g" "gpu_inv calls g"
  shows "solo_inv calls t (host_step env printk pid_tgid g)"
proof (cases "gp_host g = Handling")
  case True
  then have "cm_occupy (gp_comm g)" using gpu_invD(3) [OF assms(2)] by auto
  then obtain u where "holding (gp_pc g u)" using gpu_invD(2) [OF assms(2)] by blast
  then have "gp_pc g t \<noteq> Filling" using assms(1) by (cases "u = t") (auto simp: solo_inv_def)
  then show ?thesis using True assms(1)
    by (auto simp: solo_inv_def host_step_def on_comm_def Let_def split: option.split)
qed (use assms in \<open>auto simp: solo_inv_def host_step_def on_comm_def split: host_pc.split\<close>)

lemma solo_reach: "gpu_reach {t} calls g \<Longrightarrow> solo_inv calls t g"
proof (induction rule: gpu_reach.induct)
  case (further g g')
  from gpu_reach_inv [OF further.hyps(1)] have inv: "gpu_inv calls g" .
  have other: "solo_inv calls t (g\<lparr>gp_shm := s\<rparr>)" for s using further.IH by (simp add: solo_inv_def)
  from further.hyps(2) show ?case
    by (cases rule: gpu_step.cases)
      (use further.IH inv other in \<open>auto intro: solo_inv_device solo_inv_host\<close>)
qed (simp add: solo_inv_def gpu_new_def)

text \<open>A single device thread gets the answer to its own request: helper, map and arguments.\<close>

theorem gpu_single_thread:
  assumes "gpu_reach {t} calls (g :: 'w gpu)" "calls t = (i, m, q)" "gp_pc g t = Done"
  shows "\<exists>q' r env printk pid_tgid r0 (s :: 'w shm) s'. gp_result g t = Some r \<and>
    (i, m, q', r) \<in> set (gp_served g) \<and> (i \<noteq> GET_CURRENT_PID_TGID \<longrightarrow> q' = q) \<and>
    handle_request env printk pid_tgid i m q r0 s = Some (r, s')"
proof -
  from gpu_invD(6) [OF gpu_reach_inv [OF assms(1)], of t] assms(2,3) obtain q' r where
    r: "gp_result g t = Some r" "(i, m, q', r) \<in> set (gp_served g)" by (auto simp: result_ok_def)
  have q: "i \<noteq> GET_CURRENT_PID_TGID \<longrightarrow> q' = q" using solo_reach [OF assms(1)] r(2) assms(2) by (auto simp: solo_inv_def)
  have "is_answer TYPE('w) (i, m, q, r)"
  proof (cases "i = GET_CURRENT_PID_TGID")
    case True
    then show ?thesis using gpu_reach_log [OF assms(1) r(2)] by (simp add: is_answer_def handle_request_def request_defs)
  qed (use gpu_reach_log [OF assms(1) r(2)] q in simp)
  then show ?thesis using r q unfolding is_answer_def prod.case by blast
qed

theorem gpu_single_thread_witness:
  "\<exists>r. gp_result lookup_done 0 = Some r \<and>
     (MAP_LOOKUP, 0, key_request [0], r) \<in> set (gp_served lookup_done)"
  using gpu_single_thread [OF lookup_done_reach lookup_calls_def lookup_done_Done] by (auto simp: request_defs)

section \<open>Calls complete\<close>

text \<open>Infinite executions: at every moment a device thread, the host or the rest of the system takes its next step. An
  execution is fair when the host and every thread of the kernel are scheduled again and again.\<close>

datatype actor = Dev nat | Host | Rest

fun takes :: "nat set \<Rightarrow> (nat \<Rightarrow> int \<times> int \<times> gpu_request) \<Rightarrow> actor \<Rightarrow> 'w gpu \<Rightarrow> 'w gpu \<Rightarrow> bool" where
  "takes T calls (Dev t) g g' \<longleftrightarrow> t \<in> T \<and> g' = dev_step calls t g"
| "takes T calls Host g g' \<longleftrightarrow> (\<exists>env printk pid_tgid. g' = host_step env printk pid_tgid g)"
| "takes T calls Rest g g' \<longleftrightarrow> (\<exists>s. g' = g\<lparr>gp_shm := s\<rparr>)"

definition gpu_execution :: "nat set \<Rightarrow> (nat \<Rightarrow> int \<times> int \<times> gpu_request) \<Rightarrow> (nat \<Rightarrow> actor) \<Rightarrow> (nat \<Rightarrow> 'w gpu) \<Rightarrow> bool" where
  "gpu_execution T calls act g \<longleftrightarrow> (\<exists>s. g 0 = gpu_new s) \<and> (\<forall>n. takes T calls (act n) (g n) (g (Suc n)))"

definition gpu_fair :: "nat set \<Rightarrow> (nat \<Rightarrow> actor) \<Rightarrow> bool" where
  "gpu_fair T act \<longleftrightarrow> (\<forall>n. \<forall>a \<in> insert Host (Dev ` T). \<exists>m \<ge> n. act m = a)"

lemma takes_step: "takes T calls a g g' \<Longrightarrow> gpu_step T calls g g'"
  by (cases a) (auto intro: gpu_step.intros)

lemma execution_reach: "gpu_execution T calls act g \<Longrightarrow> gpu_reach T calls (g n)"
proof (induction n)
  case 0
  then show ?case by (auto simp: gpu_execution_def intro: gpu_reach.start)
next
  case (Suc n)
  then show ?case by (metis gpu_execution_def gpu_reach.further takes_step)
qed

lemma reach_launched: "gpu_reach T calls g \<Longrightarrow> gp_pc g u \<noteq> Filling \<Longrightarrow> u \<in> T"
proof (induction rule: gpu_reach.induct)
  case (further g g')
  from further.hyps(2) show ?case
  proof (cases rule: gpu_step.cases)
    case (device t)
    then show ?thesis using further.IH further.prems
      by (cases "u = t") (auto simp: dev_step_def at_pc_def on_comm_def split: prod.splits dev_pc.splits if_splits)
  next
    case (host env printk pid_tgid)
    then show ?thesis using further.IH further.prems
      by (auto simp: host_step_def on_comm_def Let_def split: host_pc.splits option.splits prod.splits if_splits)
  qed (use further in auto)
qed (simp add: gpu_new_def)

text \<open>How far a thread is from its end.\<close>

fun rank :: "dev_pc \<Rightarrow> host_pc \<Rightarrow> bool \<Rightarrow> nat" where
  "rank Filling h f2 = 11" | "rank Locking h f2 = 10" | "rank Numbering h f2 = 9" | "rank Raising h f2 = 8"
| "rank Spinning Polling f2 = (if f2 then 4 else 7)" | "rank Spinning Handling f2 = 6" | "rank Spinning Answered f2 = 5"
| "rank Spinning Crashed_host f2 = 0"
| "rank Clearing h f2 = 3" | "rank Reading h f2 = 2" | "rank Unlocking h f2 = 1" | "rank Done h f2 = 0"

definition thread_rank :: "'w gpu \<Rightarrow> nat \<Rightarrow> nat" where
  "thread_rank g t = rank (gp_pc g t) (gp_host g) (cm_flag2 (gp_comm g))"

definition total_rank :: "nat set \<Rightarrow> 'w gpu \<Rightarrow> nat" where
  "total_rank T g = (\<Sum>t \<in> T. thread_rank g t)"

lemma rank_idle: "\<not> holding pc \<Longrightarrow> rank pc h f2 = rank pc h' f2'"
  by (cases pc) auto

text \<open>A step of the thread that holds the lock, or of the host for it, changes the rank of that thread only.\<close>

lemma total_rank_less:
  assumes "finite T" "u \<in> T" "\<And>v. v \<in> T \<Longrightarrow> v \<noteq> u \<Longrightarrow> thread_rank g' v = thread_rank g v" "thread_rank g' u < thread_rank g u"
  shows "total_rank T g' < total_rank T g"
  unfolding total_rank_def
  by (rule sum_strict_mono_ex1 [OF assms(1)]) (use assms in \<open>auto simp: le_less\<close>)

text \<open>Every step brings a thread closer to its end or changes nothing but the memory of the maps.\<close>

lemma dev_step_frame:
  "gp_host (dev_step calls t g) = gp_host g" "v \<noteq> t \<Longrightarrow> gp_pc (dev_step calls t g) v = gp_pc g v"
  "gp_pc g t \<noteq> Clearing \<Longrightarrow> cm_flag2 (gp_comm (dev_step calls t g)) = cm_flag2 (gp_comm g)"
  by (cases "gp_pc g t"; simp add: dev_step_def at_pc_def on_comm_def split: prod.split)+

lemma dev_step_rank:
  assumes "holding (gp_pc g t) \<Longrightarrow> phase_ok (gp_pc g t) (gp_host g) (cm_flag1 (gp_comm g)) (cm_flag2 (gp_comm g))" "gp_host g \<noteq> Crashed_host"
  shows "dev_step calls t g = g \<or> thread_rank (dev_step calls t g) t < thread_rank g t"
proof (cases "gp_pc g t")
  case Raising
  then have "gp_host g = Polling" "\<not> cm_flag2 (gp_comm g)" using assms(1) by simp_all
  with Raising show ?thesis by (simp add: thread_rank_def dev_step_def at_pc_def on_comm_def split: prod.split)
next
  case Spinning
  then show ?thesis using assms by (cases "gp_host g") (simp_all add: thread_rank_def dev_step_def at_pc_def on_comm_def split: prod.split)
qed (simp_all add: thread_rank_def dev_step_def at_pc_def on_comm_def split: prod.split)

lemma dev_progress:
  assumes inv: "gpu_inv calls g" and up: "gp_host g \<noteq> Crashed_host"
  shows "dev_step calls t g = g \<or> (thread_rank (dev_step calls t g) t < thread_rank g t \<and>
    (\<forall>v. v \<noteq> t \<longrightarrow> thread_rank (dev_step calls t g) v = thread_rank g v))"
proof -
  have "thread_rank (dev_step calls t g) v = thread_rank g v" if v: "v \<noteq> t" for v
  proof (cases "gp_pc g t = Clearing")
    case True
    then have "\<not> holding (gp_pc g v)" using gpu_invD(1) [OF inv, of t v] v by auto
    then show ?thesis unfolding thread_rank_def dev_step_frame(2) [OF v] by (rule rank_idle)
  qed (simp add: thread_rank_def dev_step_frame v)
  moreover have "dev_step calls t g = g \<or> thread_rank (dev_step calls t g) t < thread_rank g t"
    by (rule dev_step_rank [OF gpu_invD(4) [OF inv] up])
  ultimately show ?thesis by blast
qed

lemma host_progress:
  assumes inv: "gpu_inv calls g" and up: "gp_host g \<noteq> Crashed_host" and g'_def: "g' = host_step env printk pid_tgid g"
  shows "g' = g \<or> (\<exists>u. holding (gp_pc g u) \<and> thread_rank g' u < thread_rank g u \<and> (\<forall>v. v \<noteq> u \<longrightarrow> thread_rank g' v = thread_rank g v))"
proof (cases "cm_occupy (gp_comm g)")
  case False
  then show ?thesis using gpu_invD(3) [OF inv] by (simp add: g'_def host_step_def)
next
  case True
  then obtain u where u: "holding (gp_pc g u)" using gpu_invD(2) [OF inv] by blast
  have ph: "phase_ok (gp_pc g u) (gp_host g) (cm_flag1 (gp_comm g)) (cm_flag2 (gp_comm g))" by (rule gpu_invD(4) [OF inv u])
  have pc: "gp_pc g' = gp_pc g" by (simp add: g'_def host_step_def on_comm_def Let_def split: host_pc.split option.split prod.split)
  have "\<not> holding (gp_pc g v)" if "v \<noteq> u" for v using gpu_invD(1) [OF inv u] that by blast
  then have "thread_rank g' v = thread_rank g v" if "v \<noteq> u" for v unfolding thread_rank_def pc using rank_idle that by blast
  moreover have "g' = g \<or> thread_rank g' u < thread_rank g u"
  proof (cases "gp_pc g u = Spinning")
    case True
    then show ?thesis using ph up
      by (cases "gp_host g") (auto simp: g'_def thread_rank_def host_step_def on_comm_def Let_def split: option.split)
  next
    case False
    then have "gp_host g = Polling \<and> \<not> cm_flag1 (gp_comm g)" using ph u by (cases "gp_pc g u") auto
    then show ?thesis by (simp add: g'_def host_step_def)
  qed
  ultimately show ?thesis using u by blast
qed

lemma step_progress:
  assumes "gpu_inv calls g" "gp_host g \<noteq> Crashed_host" "finite T" "\<And>u. gp_pc g u \<noteq> Filling \<Longrightarrow> u \<in> T" "takes T calls a g g'"
  shows "(\<exists>s. g' = g\<lparr>gp_shm := s\<rparr>) \<or> total_rank T g' < total_rank T g"
proof (cases a)
  case (Dev t)
  with assms dev_progress [OF assms(1,2), of t] total_rank_less [OF assms(3), of t g' g] show ?thesis
    by (auto intro: exI [of _ "gp_shm g"])
next
  case Host
  then obtain env printk pid_tgid where g': "g' = host_step env printk pid_tgid g" using assms(5) by auto
  from host_progress [OF assms(1,2) g'] show ?thesis
  proof
    assume "\<exists>u. holding (gp_pc g u) \<and> thread_rank g' u < thread_rank g u \<and> (\<forall>v. v \<noteq> u \<longrightarrow> thread_rank g' v = thread_rank g v)"
    then obtain u where u: "holding (gp_pc g u)" "thread_rank g' u < thread_rank g u"
      "\<forall>v. v \<noteq> u \<longrightarrow> thread_rank g' v = thread_rank g v" by blast
    then have "u \<in> T" using assms(4) [of u] by fastforce
    with u total_rank_less [OF assms(3), of u g' g] show ?thesis by blast
  qed (auto intro: exI [of _ "gp_shm g"])
qed (use assms(5) in auto)

text \<open>As long as a thread has not returned there is somebody whose next step makes progress: the host when the thread that
  holds the lock waits for it, that thread otherwise, and any thread that has not called yet when the lock is free.\<close>

definition helps :: "nat set \<Rightarrow> (nat \<Rightarrow> int \<times> int \<times> gpu_request) \<Rightarrow> 'w gpu \<Rightarrow> actor \<Rightarrow> bool" where
  "helps T calls g a \<longleftrightarrow> (\<forall>s g'. takes T calls a (g\<lparr>gp_shm := s\<rparr>) g' \<longrightarrow> total_rank T g' < total_rank T g)"

lemma total_rank_shm [simp]: "total_rank T (g\<lparr>gp_shm := s\<rparr>) = total_rank T g"
  by (simp add: total_rank_def thread_rank_def)

lemma somebody_helps:
  assumes inv: "gpu_inv calls g" and up: "gp_host g \<noteq> Crashed_host" and T: "finite T" "\<And>u. gp_pc g u \<noteq> Filling \<Longrightarrow> u \<in> T"
    and t: "t \<in> T" "gp_pc g t \<noteq> Done"
  shows "\<exists>a \<in> insert Host (Dev ` T). helps T calls g a"
proof -
  have moved: "helps T calls g a" if "\<And>s g'. takes T calls a (g\<lparr>gp_shm := s\<rparr>) g' \<Longrightarrow> gp_pc g' \<noteq> gp_pc g \<or> gp_host g' \<noteq> gp_host g" for a
    unfolding helps_def
  proof (intro allI impI)
    fix s g' assume st: "takes T calls a (g\<lparr>gp_shm := s\<rparr>) g'"
    have "(\<exists>s'. g' = g\<lparr>gp_shm := s\<rparr>\<lparr>gp_shm := s'\<rparr>) \<or> total_rank T g' < total_rank T (g\<lparr>gp_shm := s\<rparr>)"
      by (rule step_progress [OF gpu_inv_other [OF inv] _ T(1) _ st]) (use up T(2) in auto)
    with that [OF st] show "total_rank T g' < total_rank T g" by auto
  qed
  show ?thesis
  proof (cases "cm_occupy (gp_comm g)")
    case True
    then obtain u where u: "holding (gp_pc g u)" using gpu_invD(2) [OF inv] by blast
    have ph: "phase_ok (gp_pc g u) (gp_host g) (cm_flag1 (gp_comm g)) (cm_flag2 (gp_comm g))" by (rule gpu_invD(4) [OF inv u])
    have uT: "u \<in> T" using T(2) [of u] u by fastforce
    show ?thesis
    proof (cases "gp_pc g u = Spinning \<and> \<not> cm_flag2 (gp_comm g)")
      case True
      then have "helps T calls g Host" using ph up
        by (intro moved, cases "gp_host g") (auto simp: host_step_def on_comm_def Let_def split: option.splits prod.splits)
      then show ?thesis by blast
    next
      case False
      have "gp_pc (dev_step calls u (g\<lparr>gp_shm := s\<rparr>)) u \<noteq> gp_pc g u" for s
        using False u by (cases "gp_pc g u") (auto simp: dev_step_def at_pc_def on_comm_def split: prod.split)
      then have "helps T calls g (Dev u)" by (intro moved) (auto simp: fun_eq_iff)
      then show ?thesis using uT by blast
    qed
  next
    case False
    then have "\<not> holding (gp_pc g t)" using gpu_invD(2) [OF inv] by blast
    then have "gp_pc (dev_step calls t (g\<lparr>gp_shm := s\<rparr>)) t \<noteq> gp_pc g t" for s
      using False t(2) by (cases "gp_pc g t") (auto simp: dev_step_def at_pc_def on_comm_def split: prod.split)
    then have "helps T calls g (Dev t)" by (intro moved) (auto simp: fun_eq_iff)
    then show ?thesis using t(1) by blast
  qed
qed

text \<open>So the ranks fall at some later moment.\<close>

lemma rank_falls:
  assumes ex: "gpu_execution T calls act g" and fair: "gpu_fair T act" and up: "\<And>n. gp_host (g n) \<noteq> Crashed_host" and T: "finite T"
    and t: "t \<in> T" "gp_pc (g n) t \<noteq> Done"
  shows "\<exists>m > n. total_rank T (g m) < total_rank T (g n)"
proof (rule ccontr)
  assume no: "\<not> ?thesis"
  note reach = execution_reach [OF ex]
  have st: "takes T calls (act k) (g k) (g (Suc k))" for k using ex by (simp add: gpu_execution_def)
  have same: "\<exists>s. g (n + k) = (g n)\<lparr>gp_shm := s\<rparr>" for k
  proof (induction k)
    case 0
    show ?case by (intro exI [of _ "gp_shm (g n)"]) simp
  next
    case (Suc k)
    then obtain s where s: "g (n + k) = (g n)\<lparr>gp_shm := s\<rparr>" by blast
    have "(\<exists>s'. g (Suc (n + k)) = (g (n + k))\<lparr>gp_shm := s'\<rparr>) \<or> total_rank T (g (Suc (n + k))) < total_rank T (g (n + k))"
      by (rule step_progress [OF gpu_reach_inv [OF reach] up T _ st]) (use reach_launched [OF reach] in blast)
    moreover have "\<not> total_rank T (g (Suc (n + k))) < total_rank T (g n)" using no by auto
    ultimately show ?case using s by auto
  qed
  obtain a where a: "a \<in> insert Host (Dev ` T)" "helps T calls (g n) a"
    using somebody_helps [OF gpu_reach_inv [OF reach] up T _ t] reach_launched [OF reach] by blast
  then obtain m where m: "n \<le> m" "act m = a" using fair unfolding gpu_fair_def by blast
  obtain s where "g m = (g n)\<lparr>gp_shm := s\<rparr>" using same [of "m - n"] m(1) by auto
  with a(2) m(2) st [of m] have "total_rank T (g (Suc m)) < total_rank T (g n)" unfolding helps_def by metis
  with no m(1) show False by auto
qed

text \<open>C25. Helper calls of the GPU complete: in every fair execution of a kernel of finitely many threads, whatever the interleaving and
  whatever the rest of the system does to the maps, either the host goes down while it runs a request, or there is a moment at which
  all threads of the kernel have returned, each with an answer. Nobody waits for ever, for the host or for the lock.\<close>

theorem gpu_call_completes:
  assumes "gpu_execution T calls act g" "gpu_fair T act" "finite T"
  shows "(\<exists>n. gp_host (g n) = Crashed_host) \<or> (\<exists>n. \<forall>t \<in> T. gp_pc (g n) t = Done \<and> (\<exists>r. gp_result (g n) t = Some r))"
proof (cases "\<exists>n. gp_host (g n) = Crashed_host")
  case False
  then have up: "gp_host (g n) \<noteq> Crashed_host" for n by blast
  have "\<exists>m. \<forall>t \<in> T. gp_pc (g m) t = Done"
  proof -
    have "\<exists>m \<ge> n. \<forall>t \<in> T. gp_pc (g m) t = Done" for n
    proof (induction "total_rank T (g n)" arbitrary: n rule: less_induct)
      case less
      show ?case
      proof (cases "\<forall>t \<in> T. gp_pc (g n) t = Done")
        case False
        then obtain t where "t \<in> T" "gp_pc (g n) t \<noteq> Done" by blast
        from rank_falls [OF assms(1,2) up assms(3) this] less show ?thesis by (meson le_trans less_imp_le_nat)
      qed blast
    qed
    then show ?thesis by blast
  qed
  then obtain m where m: "\<forall>t \<in> T. gp_pc (g m) t = Done" by blast
  have "\<exists>r. gp_result (g m) t = Some r" if "t \<in> T" for t
    using gpu_invD(6) [OF gpu_reach_inv [OF execution_reach [OF assms(1)]], of m t] m that
    by (auto simp: result_ok_def split: prod.splits)
  with m show ?thesis by blast
qed blast

text \<open>An execution: the one thread of a kernel and the host take turns.\<close>

fun turns :: "nat \<Rightarrow> unit gpu" where
  "turns 0 = gpu_new (one_epoll [])"
| "turns (Suc n) = (if even n then dev_step lookup_calls 0 (turns n) else host_step plain_env no_print 0 (turns n))"

lemma turns_up: "gp_host (turns n) \<noteq> Crashed_host \<and> gp_shm (turns n) = one_epoll []"
proof (induction n)
  case (Suc n)
  have "\<exists>r'. handle_request plain_env no_print 0 i m q r (one_epoll []) = Some (r', one_epoll [])" for i m q r
    by (simp add: handle_request_def Let_def no_maps)
  with Suc show ?case
    by (auto simp: dev_step_def host_step_def at_pc_def on_comm_def Let_def split: prod.split dev_pc.split host_pc.split option.split)
      (metis option.distinct(1) option.inject prod.inject)+
qed (simp add: gpu_new_def)

theorem gpu_call_completes_witness:
  "\<exists>n. gp_pc (turns n) 0 = Done"
proof -
  let ?act = "\<lambda>n. if even n then Dev 0 else Host"
  have "takes {0} lookup_calls (?act n) (turns n) (turns (Suc n))" for n by auto
  then have "gpu_execution {0} lookup_calls ?act turns" by (auto simp: gpu_execution_def)
  moreover have "\<exists>m \<ge> n. ?act m = Host" "\<exists>m \<ge> n. ?act m = Dev 0" for n :: nat
    by (rule exI [of _ "2 * n + 1"], simp) (rule exI [of _ "2 * n"], simp)
  then have "gpu_fair {0} ?act" by (auto simp: gpu_fair_def)
  ultimately show ?thesis using gpu_call_completes [of "{0}" lookup_calls ?act turns] turns_up by auto
qed

end
