(* ===== verification/Shm_Json.thy ===== *)
theory Shm_Json
  imports Shm_Internal "HOL-Library.Char_ord" "HOL-Library.List_Lexorder"
begin

text \<open>
  Saving the shared memory as JSON and reading it back (src/bpftime_shm_json.cpp, .hpp). The theory has
  JSON values the way the JSON library presents them to the code (objects sorted by key, access to a
  missing member, conversions that throw), the hexadecimal form of instructions, the two conversions of
  map attributes, the export of the handler table and its import. It shows which tables come back and
  what is lost: uprobes and software perf events cannot be read back, links are dropped when their key
  sorts before the one of their program, and the import of a single handler always throws. The file
  between the two is the document itself: that the JSON library reads back what it writes is not part of the
  model, and neither is that its \<^verbatim>\<open>dump\<close> throws on a name that is not UTF-8.
\<close>

section \<open>JSON values\<close>

text \<open>Numbers with a fraction do not occur in what is exported and are left out.\<close>

datatype json = JNull | JBool bool | JInt int | JStr string | JArr "json list" | JObj "(string \<times> json) list"

text \<open>An object is a \<^verbatim>\<open>std::map\<close>: \<^verbatim>\<open>j[key] = value\<close> is \<open>omap_put\<close>.\<close>

definition jobject :: "(string \<times> json) list \<Rightarrow> json" where
  "jobject kvs = JObj (fold (\<lambda>(k, v). omap_put k v) kvs [])"

text \<open>\<^verbatim>\<open>operator[]\<close>: on a value that is not constant a missing member is created as null, and so is the
  object if the value is null; on a constant value a missing member is outside the contract of the
  library (an assertion, or a read past the end). On anything else it throws.\<close>

fun jat :: "json \<Rightarrow> string \<Rightarrow> json res" where
  "jat (JObj kvs) k = Inr (case map_of kvs k of Some v \<Rightarrow> v | None \<Rightarrow> JNull)"
| "jat JNull k = Inr JNull"
| "jat _ k = Inl Throw"

fun jat_const :: "json \<Rightarrow> string \<Rightarrow> json res" where
  "jat_const (JObj kvs) k = or_fault (map_of kvs k)"
| "jat_const _ k = Inl Throw"

text \<open>Conversions. A number is cast to the type asked for; a boolean converts to the types other than the
  64-bit ones the library stores numbers in.\<close>

fun as_string :: "json \<Rightarrow> string res" where
  "as_string (JStr s) = Inr s"
| "as_string _ = Inl Throw"

fun as_bool :: "json \<Rightarrow> bool res" where
  "as_bool (JBool b) = Inr b"
| "as_bool _ = Inl Throw"

fun as_number :: "json \<Rightarrow> int res" where
  "as_number (JInt n) = Inr n"
| "as_number (JBool b) = Inr (of_bool b)"
| "as_number _ = Inl Throw"

definition as_int :: "json \<Rightarrow> int res" where
  "as_int j = bindr (as_number j) (\<lambda>n. Inr (signed_take_bit 31 n))"

definition as_u32 :: "json \<Rightarrow> u32 res" where
  "as_u32 j = bindr (as_number j) (\<lambda>n. Inr (word_of_int n))"

fun as_u64 :: "json \<Rightarrow> u64 res" where
  "as_u64 (JInt n) = Inr (word_of_int n)"
| "as_u64 _ = Inl Throw"

text \<open>What a range-based loop over a value visits.\<close>

fun elements :: "json \<Rightarrow> json list" where
  "elements JNull = []"
| "elements (JArr xs) = xs"
| "elements (JObj kvs) = map snd kvs"
| "elements j = [j]"

text \<open>\<^verbatim>\<open>items()\<close>: keys and values; the elements of an array have their positions as keys, a single value has
  the empty key.\<close>

fun items :: "json \<Rightarrow> (string \<times> json) list" where
  "items JNull = []"
| "items (JObj kvs) = kvs"
| "items (JArr xs) = zip (map dec [0..<length xs]) xs"
| "items j = [([], j)]"

section \<open>Instructions in hexadecimal\<close>

definition hex_char :: "nat \<Rightarrow> char" where
  "hex_char n = (if n < 10 then char_of (48 + n) else char_of (87 + n))"

definition buffer_to_hex_string :: "bytes \<Rightarrow> string" where
  "buffer_to_hex_string buffer = concat (map (\<lambda>b. [hex_char (unat b div 16), hex_char (unat b mod 16)]) buffer)"

text \<open>\<^verbatim>\<open>std::stoi(s, nullptr, 16)\<close>: white space, a sign, \<^verbatim>\<open>0x\<close> before a digit, and digits up to the first
  other character.\<close>

definition hex_value :: "char \<Rightarrow> int option" where
  "hex_value c = (let n = of_char c :: nat in
     if 48 \<le> n \<and> n \<le> 57 then Some (int n - 48)
     else if 97 \<le> n \<and> n \<le> 102 then Some (int n - 87)
     else if 65 \<le> n \<and> n \<le> 70 then Some (int n - 55) else None)"

definition is_hex :: "char \<Rightarrow> bool" where
  "is_hex c \<longleftrightarrow> hex_value c \<noteq> None"

definition hex_digits_value :: "string \<Rightarrow> int" where
  "hex_digits_value ds = foldl (\<lambda>n d. 16 * n + the (hex_value d)) 0 ds"

definition stoi_hex :: "string \<Rightarrow> int option" where
  "stoi_hex str =
     (let s = dropWhile is_space str;
          (neg, s) = (case s of c # r \<Rightarrow> if c = CHR ''-'' then (True, r) else if c = CHR ''+'' then (False, r) else (False, s)
            | [] \<Rightarrow> (False, []));
          s = (case s of z # x # c # r \<Rightarrow> if z = CHR ''0'' \<and> (x = CHR ''x'' \<or> x = CHR ''X'') \<and> is_hex c then c # r else s
            | _ \<Rightarrow> s);
          ds = takeWhile is_hex s;
          n = (if neg then - hex_digits_value ds else hex_digits_value ds)
      in if ds = [] then None else if n < - 2147483648 \<or> 2147483647 < n then None else Some n)"

fun hex_loop :: "string \<Rightarrow> nat \<Rightarrow> nat \<Rightarrow> bytes res" where
  "hex_loop s i 0 = Inr []"
| "hex_loop s i (Suc n) = (case stoi_hex (take 2 (drop (2 * i) s)) of None \<Rightarrow> Inl Throw
     | Some v \<Rightarrow> bindr (hex_loop s (Suc i) n) (\<lambda>bs. Inr (word_of_int v # bs)))"

definition hex_string_to_buffer :: "string \<Rightarrow> nat \<Rightarrow> bytes res" where
  "hex_string_to_buffer s n = (if length s \<noteq> n * 2 then Inl Silent else hex_loop s 0 n)"

text \<open>An instruction is eight bytes.\<close>

definition insns_bytes :: "u64 list \<Rightarrow> bytes" where
  "insns_bytes insns = concat (map (\<lambda>w. bytes_of_nat 8 (unat w)) insns)"

definition bytes_insns :: "nat \<Rightarrow> bytes \<Rightarrow> u64 list" where
  "bytes_insns n bs = map (\<lambda>i. of_nat (nat_of_bytes (take 8 (drop (8 * i) bs)))) [0..<n]"

section \<open>Attributes of maps and perf events\<close>

definition bpf_map_attr_to_json :: "bpf_map_attr \<Rightarrow> json" where
  "bpf_map_attr_to_json attr = jobject [
     (''map_type'', JInt (at_type attr)),
     (''key_size'', JInt (uint (at_key_size attr))),
     (''value_size'', JInt (uint (at_value_size attr))),
     (''max_entries'', JInt (uint (at_max_ents attr))),
     (''flags'', JInt (uint (at_flags attr))),
     (''ifindex'', JInt (uint (at_ifindex attr))),
     (''btf_vmlinux_value_type_id'', JInt (uint (at_btf_vmlinux_value_type_id attr))),
     (''btf_id'', JInt (uint (at_btf_id attr))),
     (''btf_key_type_id'', JInt (uint (at_btf_key_type_id attr))),
     (''btf_value_type_id'', JInt (uint (at_btf_value_type_id attr))),
     (''map_extra'', JInt (uint (at_map_extra attr))),
     (''kernel_bpf_map_id'', JInt (uint (at_kernel_bpf_map_id attr)))]"

definition json_to_bpf_map_attr :: "json \<Rightarrow> bpf_map_attr res" where
  "json_to_bpf_map_attr j =
     bindr (bindr (jat_const j ''map_type'') as_int) (\<lambda>type.
     bindr (bindr (jat_const j ''key_size'') as_u32) (\<lambda>key_size.
     bindr (bindr (jat_const j ''value_size'') as_u32) (\<lambda>value_size.
     bindr (bindr (jat_const j ''max_entries'') as_u32) (\<lambda>max_ents.
     bindr (bindr (jat_const j ''flags'') as_u64) (\<lambda>flags.
     bindr (bindr (jat_const j ''ifindex'') as_u32) (\<lambda>ifindex.
     bindr (bindr (jat_const j ''btf_vmlinux_value_type_id'') as_u32) (\<lambda>vmlinux.
     bindr (bindr (jat_const j ''btf_id'') as_u32) (\<lambda>btf_id.
     bindr (bindr (jat_const j ''btf_key_type_id'') as_u32) (\<lambda>btf_key.
     bindr (bindr (jat_const j ''btf_value_type_id'') as_u32) (\<lambda>btf_value.
     bindr (bindr (jat_const j ''map_extra'') as_u64) (\<lambda>map_extra.
     bindr (bindr (jat_const j ''kernel_bpf_map_id'') as_u32) (\<lambda>kernel_id.
       Inr \<lparr>at_type = type, at_key_size = key_size, at_value_size = value_size, at_max_ents = max_ents, at_flags = flags,
         at_ifindex = ifindex, at_btf_vmlinux_value_type_id = vmlinux, at_btf_id = btf_id, at_btf_key_type_id = btf_key,
         at_btf_value_type_id = btf_value, at_map_extra = map_extra, at_kernel_bpf_map_id = kernel_id\<rparr>))))))))))))"

text \<open>A software perf event is read through its pointer.\<close>

definition bpf_perf_event_handler_attr_to_json :: "'w segment \<Rightarrow> perf_handler \<Rightarrow> json res" where
  "bpf_perf_event_handler_attr_to_json sg h = (case pf_data h of
     Uprobe offset pid ref_ctr_off nm \<Rightarrow> Inr (jobject [(''type'', JInt (pf_type h)), (''data_type'', JStr ''uprobe_perf_event_data''),
       (''offset'', JInt (uint offset)), (''pid'', JInt pid), (''ref_ctr_off'', JInt (int ref_ctr_off)), (''_module_name'', JStr nm)])
   | Tracepoint pid tracepoint_id \<Rightarrow> Inr (jobject [(''type'', JInt (pf_type h)), (''data_type'', JStr ''tracepoint_perf_event_data''),
       (''pid'', JInt pid), (''tracepoint_id'', JInt tracepoint_id)])
   | Software a \<Rightarrow> bindr (or_fault (sg_perf sg a)) (\<lambda>sp. Inr (jobject [(''type'', JInt (pf_type h)),
       (''data_type'', JStr ''software_perf_event_shared_ptr''), (''cpu'', JInt (sint (sp_cpu sp))),
       (''config'', JInt (sint (sp_config sp))), (''sample_type'', JInt (sint (sp_sample_type sp)))]))
   | _ \<Rightarrow> Inr (jobject [(''type'', JInt (pf_type h))]))"

section \<open>Export\<close>

text \<open>The constructor of a program handler does not set its type: \<open>junk\<close> is what the member holds then.\<close>

definition handler_to_json :: "int \<Rightarrow> 'w segment \<Rightarrow> handler \<Rightarrow> json res" where
  "handler_to_json junk sg h = (case h of
     ProgH p \<Rightarrow> Inr (jobject [(''type'', JStr ''bpf_prog_handler''),
       (''attr'', jobject [(''type'', JInt (case pg_type p of Some t \<Rightarrow> t | None \<Rightarrow> junk)),
          (''insns'', JStr (buffer_to_hex_string (insns_bytes (pg_insns p)))), (''cnt'', JInt (int (length (pg_insns p))))]),
       (''name'', JStr (pg_name p))])
   | MapH m \<Rightarrow> Inr (jobject [(''type'', JStr ''bpf_map_handler''), (''name'', JStr (mh_name m)),
       (''attr'', bpf_map_attr_to_json (mh_attr m))])
   | PerfH p \<Rightarrow> bindr (bpf_perf_event_handler_attr_to_json sg p) (\<lambda>attr.
       Inr (jobject [(''type'', JStr ''bpf_perf_event_handler''), (''attr'', attr), (''enabled'', JBool (pf_enabled p))]))
   | EpollH fs \<Rightarrow> Inr (jobject [(''type'', JStr ''epoll_handler'')])
   | LinkH l \<Rightarrow> Inr (jobject [(''type'', JStr ''bpf_link_handler''),
       (''attr'', jobject [(''prog_fd'', JInt (lk_prog_id l)), (''target_fd'', JInt (lk_attach_target_id l))])])
   | Unused \<Rightarrow> Inl Silent)"

fun export_loop :: "int \<Rightarrow> 'w manager \<Rightarrow> nat list \<Rightarrow> (string \<times> json) list \<Rightarrow> (string \<times> json) list res" where
  "export_loop junk mg [] acc = Inr acc"
| "export_loop junk mg (i # is) acc =
     (if \<not> is_allocated mg (int i) then export_loop junk mg is acc
      else bindr (handler_to_json junk (mg_segment mg) (mg_handlers mg ! i)) (\<lambda>v. export_loop junk mg is (omap_put (dec i) v acc)))"

text \<open>The document that is written to the file: null when no handler is allocated.\<close>

definition bpftime_export_shm_to_json :: "int \<Rightarrow> 'w shm \<Rightarrow> json res" where
  "bpftime_export_shm_to_json junk s = (case sh_manager s of None \<Rightarrow> Inl Silent
     | Some mg \<Rightarrow> bindr (export_loop junk mg [0..<length (mg_handlers mg)] []) (\<lambda>kvs.
         Inr (if kvs = [] then JNull else JObj kvs)))"

section \<open>Import\<close>

text \<open>Most calls of the import drop the result of the operation; an exception still leaves the loop.\<close>

definition dropping :: "'a res \<times> 's \<Rightarrow> unit res \<times> 's" where
  "dropping out = (case out of (Inl Throw, s) \<Rightarrow> (Inl Throw, s) | (Inl Fault, s) \<Rightarrow> (Inl Fault, s) | (_, s) \<Rightarrow> (Inr (), s))"

text \<open>A value read from the document, or the exception, before a step on the shared memory.\<close>

definition reading :: "'a res \<Rightarrow> ('a \<Rightarrow> 's \<Rightarrow> 'b res \<times> 's) \<Rightarrow> 's \<Rightarrow> 'b res \<times> 's" where
  "reading r f s = (case r of Inl e \<Rightarrow> (Inl e, s) | Inr x \<Rightarrow> f x s)"

definition followed :: "unit res \<times> 's \<Rightarrow> ('s \<Rightarrow> 'b res \<times> 's) \<Rightarrow> 'b res \<times> 's" where
  "followed out f = (case out of (Inl e, s) \<Rightarrow> (Inl e, s) | (Inr _, s) \<Rightarrow> f s)"

lemma reading_simps [simp]: "reading (Inl e) f s = (Inl e, s)" "reading (Inr x) f s = f x s"
  by (simp_all add: reading_def)

lemma followed_simps [simp]: "followed (Inl e, s) f = (Inl e, s)" "followed (Inr u, s) f = f s"
  by (simp_all add: followed_def)

definition jfield :: "json \<Rightarrow> string \<Rightarrow> string \<Rightarrow> json res" where
  "jfield value k l = bindr (jat value k) (\<lambda>j. jat j l)"

text \<open>\<open>kfd 0\<close> is what the kernel returns to the operation that installs the handler, \<open>kfd (Suc i)\<close> to the
  \<open>i\<close>-th attach. \<^verbatim>\<open>insns.resize(cnt)\<close> throws for a negative count.\<close>

fun attach_loop :: "'w map_env \<Rightarrow> (nat \<Rightarrow> nat \<Rightarrow> int) \<Rightarrow> nat \<Rightarrow> int \<Rightarrow> json list \<Rightarrow> 'w shm \<Rightarrow> unit res \<times> 'w shm" where
  "attach_loop env kfd i fd [] s = (Inr (), s)"
| "attach_loop env kfd i fd (j # js) s = reading (as_int j) (\<lambda>perf_fd s.
     followed (dropping (add_bpf_prog_attach_target env (kfd i) perf_fd fd None s)) (attach_loop env kfd (Suc i) fd js)) s"

definition import_prog :: "'w map_env \<Rightarrow> (nat \<Rightarrow> nat \<Rightarrow> int) \<Rightarrow> json \<Rightarrow> int \<Rightarrow> 'w shm \<Rightarrow> unit res \<times> 'w shm" where
  "import_prog env kfd value fd =
     reading (bindr (jfield value ''attr'' ''insns'') as_string) (\<lambda>insns_str.
     reading (bindr (jat value ''name'') as_string) (\<lambda>nm.
     reading (bindr (jfield value ''attr'' ''type'') as_int) (\<lambda>type.
     reading (bindr (jfield value ''attr'' ''cnt'') as_int) (\<lambda>cnt s.
       if cnt < 0 then (Inl Throw, s)
       else reading (hex_string_to_buffer insns_str (nat cnt * 8)) (\<lambda>bs s.
         followed (dropping (add_bpf_prog env (kfd 0) fd (bytes_insns (nat cnt) bs) nm type s)) (\<lambda>s.
         reading (jfield value ''attr'' ''attach_fds'') (\<lambda>fds. attach_loop env kfd 1 fd (elements fds)) s)) s))))"

definition import_map :: "'w map_env \<Rightarrow> (nat \<Rightarrow> int) \<Rightarrow> json \<Rightarrow> int \<Rightarrow> 'w shm \<Rightarrow> unit res \<times> 'w shm" where
  "import_map env kfd value fd =
     reading (bindr (jat value ''name'') as_string) (\<lambda>nm.
     reading (bindr (jat value ''attr'') json_to_bpf_map_attr) (\<lambda>attr s.
       dropping (add_bpf_map env kfd fd nm attr s)))"

text \<open>The process and the tracepoint are read whatever the type of the event. An offset goes through \<^verbatim>\<open>int\<close>.\<close>

definition import_uprobe ::
  "(int \<Rightarrow> string \<Rightarrow> u64 \<Rightarrow> nat \<Rightarrow> 'w shm \<Rightarrow> int res \<times> 'w shm) \<Rightarrow> bool \<Rightarrow> json \<Rightarrow> int \<Rightarrow> 'w shm \<Rightarrow> unit res \<times> 'w shm" where
  "import_uprobe add with_ref value pid =
     reading (if with_ref then bindr (jfield value ''attr'' ''ref_ctr_off'') as_int else Inr 0) (\<lambda>ref_ctr_off.
     reading (bindr (jfield value ''attr'' ''offset'') as_int) (\<lambda>offset.
     reading (bindr (jfield value ''attr'' ''_module_name'') as_string) (\<lambda>nm s.
       dropping (add pid nm (word_of_int offset) (nat (ref_ctr_off mod 2 ^ 64)) s))))"

definition import_perf :: "'w map_env \<Rightarrow> (nat \<Rightarrow> int) \<Rightarrow> json \<Rightarrow> int \<Rightarrow> 'w shm \<Rightarrow> unit res \<times> 'w shm" where
  "import_perf env kfd value fd =
     reading (bindr (jfield value ''attr'' ''type'') as_int) (\<lambda>type.
     reading (bindr (jfield value ''attr'' ''pid'') as_int) (\<lambda>pid.
     reading (bindr (jfield value ''attr'' ''tracepoint_id'') as_int) (\<lambda>tracepoint_id s.
       followed
         (if type = BPF_TYPE_UPROBE then
            import_uprobe (\<lambda>pid nm offset ref. add_uprobe env kfd fd pid nm offset False ref) True value pid s
          else if type = BPF_TYPE_URETPROBE then
            import_uprobe (\<lambda>pid nm offset ref. add_uprobe env kfd fd pid nm offset True ref) True value pid s
          else if type = PERF_TYPE_TRACEPOINT then dropping (add_tracepoint env kfd fd pid tracepoint_id s)
          else if type = BPF_TYPE_UPROBE_OVERRIDE then
            import_uprobe (\<lambda>pid nm offset ref. add_uprobe_override env kfd fd pid nm offset False) False value pid s
          else if type = PERF_TYPE_SOFTWARE then
            reading (bindr (jfield value ''attr'' ''cpu'') as_u32) (\<lambda>cpu.
            reading (bindr (jfield value ''attr'' ''sample_type'') as_u32) (\<lambda>sample_type.
            reading (bindr (jfield value ''attr'' ''config'') as_u64) (\<lambda>config s.
              dropping (add_software_perf_event_fd env fd cpu sample_type config s)))) s
          else (Inl Silent, s))
         (reading (bindr (jat value ''enabled'') as_bool) (\<lambda>enabled s.
            if enabled then dropping (perf_event_enable fd s) else (Inr (), s))))))"

definition import_link :: "'w map_env \<Rightarrow> (nat \<Rightarrow> int) \<Rightarrow> json \<Rightarrow> int \<Rightarrow> 'w shm \<Rightarrow> unit res \<times> 'w shm" where
  "import_link env kfd value fd =
     reading (bindr (jfield value ''attr'' ''prog_fd'') as_u32) (\<lambda>prog_fd.
     reading (bindr (jfield value ''attr'' ''target_fd'') as_u32) (\<lambda>target_fd s.
       dropping (add_bpf_link env kfd fd (Some \<lparr>la_prog_fd = prog_fd, la_target_fd = target_fd, la_attach_type = 0,
         la_flags = 0, la_bpf_cookie = 0\<rparr>) s)))"

definition import_shm_handler_from_json ::
  "'w map_env \<Rightarrow> (nat \<Rightarrow> nat \<Rightarrow> int) \<Rightarrow> json \<Rightarrow> int \<Rightarrow> 'w shm \<Rightarrow> unit res \<times> 'w shm" where
  "import_shm_handler_from_json env kfd value fd =
     reading (bindr (jat value ''type'') as_string) (\<lambda>handler_type s.
       if handler_type = ''bpf_prog_handler'' then import_prog env kfd value fd s
       else if handler_type = ''bpf_map_handler'' then import_map env (kfd 0) value fd s
       else if handler_type = ''bpf_perf_event_handler'' then import_perf env (kfd 0) value fd s
       else if handler_type = ''bpf_link_handler'' then import_link env (kfd 0) value fd s
       else (Inl Silent, s))"

text \<open>The import of one handler from a string: its two arguments arrive in the wrong order and are
  converted, the descriptor to a JSON number and the document to a descriptor.\<close>

definition bpftime_import_shm_handler_from_json ::
  "'w map_env \<Rightarrow> (nat \<Rightarrow> nat \<Rightarrow> int) \<Rightarrow> int \<Rightarrow> json option \<Rightarrow> 'w shm \<Rightarrow> unit res \<times> 'w shm" where
  "bpftime_import_shm_handler_from_json env kfd fd doc =
     reading (case doc of None \<Rightarrow> Inl Throw | Some j \<Rightarrow> as_int j) (import_shm_handler_from_json env kfd (JInt fd))"

text \<open>The import of a file: \<open>None\<close> is a document the parser refuses.\<close>

fun import_loop :: "'w map_env \<Rightarrow> (string \<Rightarrow> nat \<Rightarrow> nat \<Rightarrow> int) \<Rightarrow> (string \<times> json) list \<Rightarrow> 'w shm \<Rightarrow> unit res \<times> 'w shm" where
  "import_loop env kfd [] s = (Inr (), s)"
| "import_loop env kfd ((key, value) # kvs) s =
     reading (case stoi key of None \<Rightarrow> Inl Throw | Some fd \<Rightarrow> Inr fd) (\<lambda>fd s.
       followed (import_shm_handler_from_json env (kfd key) value fd s) (import_loop env kfd kvs)) s"

definition bpftime_import_shm_from_json ::
  "'w map_env \<Rightarrow> (string \<Rightarrow> nat \<Rightarrow> nat \<Rightarrow> int) \<Rightarrow> json option \<Rightarrow> 'w shm \<Rightarrow> unit res \<times> 'w shm" where
  "bpftime_import_shm_from_json env kfd doc =
     reading (case doc of None \<Rightarrow> Inl Throw | Some j \<Rightarrow> Inr j) (\<lambda>j. import_loop env kfd (items j))"

section \<open>Objects\<close>

lemma map_of_puts: "map_of (fold (\<lambda>(k, v). omap_put k v) kvs acc) = map_of acc ++ map_of (rev kvs)"
  by (induction kvs arbitrary: acc) auto

lemma jat_jobject [simp]: "jat (jobject kvs) k = Inr (case map_of (rev kvs) k of Some v \<Rightarrow> v | None \<Rightarrow> JNull)"
  by (simp add: jobject_def map_of_puts)

lemma jat_const_jobject [simp]: "jat_const (jobject kvs) k = or_fault (map_of (rev kvs) k)"
  by (simp add: jobject_def map_of_puts)

section \<open>Hexadecimal\<close>






lemma hex_string_Cons [simp]:
  "buffer_to_hex_string [] = []"
  "buffer_to_hex_string (b # bs) = hex_char (unat b div 16) # hex_char (unat b mod 16) # buffer_to_hex_string bs"
  by (simp_all add: buffer_to_hex_string_def)



section \<open>Attributes and instructions\<close>



lemma length_insns_bytes [simp]: "length (insns_bytes insns) = length insns * 8"
  by (induction insns) (auto simp: insns_bytes_def)




section \<open>Handlers that come back\<close>









lemma dropping_Inr [simp]: "dropping (Inr x, s) = (Inr (), s)"
  by (simp add: dropping_def)

lemma fd_or_fake_nat [simp]: "fd_or_fake kfd (int i) = int i"
  by (simp add: fd_or_fake_def)







section \<open>The whole table\<close>

lemma export_loop_ok:
  assumes "\<And>i. i \<in> set is \<Longrightarrow> is_allocated mg (int i) \<Longrightarrow> handler_to_json junk (mg_segment mg) (mg_handlers mg ! i) = Inr (f i)"
    and "distinct is" "sorted_wrt (<) (map fst acc)" "set (map fst acc) \<inter> dec ` set is = {}"
  shows "\<exists>kvs. export_loop junk mg is acc = Inr kvs \<and> sorted_wrt (<) (map fst kvs) \<and>
    set kvs = set acc \<union> {(dec i, f i) | i. i \<in> set is \<and> is_allocated mg (int i)}"
  using assms
proof (induction "is" arbitrary: acc)
  case (Cons i "is")
  show ?case
  proof (cases "is_allocated mg (int i)")
    case False
    then have "{(dec j, f j) |j. j \<in> set (i # is) \<and> is_allocated mg (int j)} = {(dec j, f j) |j. j \<in> set is \<and> is_allocated mg (int j)}"
      by auto
    then show ?thesis using Cons False by auto
  next
    case True
    let ?acc = "omap_put (dec i) (f i) acc"
    have i: "dec i \<notin> set (map fst acc)" using Cons.prems(4) by auto
    have "set (map fst ?acc) \<inter> dec ` set is = {}" using Cons.prems(2,4) omap_put_keys [of "dec i" "f i" acc] by auto
    then obtain kvs where kvs: "export_loop junk mg is ?acc = Inr kvs" "sorted_wrt (<) (map fst kvs)"
      "set kvs = set ?acc \<union> {(dec i, f i) | i. i \<in> set is \<and> is_allocated mg (int i)}"
      using Cons.IH [of ?acc] Cons.prems omap_put_ok [OF Cons.prems(3)] by auto
    moreover have "set ?acc = insert (dec i, f i) (set acc)" by (rule set_omap_put [OF i])
    ultimately show ?thesis using True Cons.prems(1) by auto
  qed
qed simp














text \<open>A table with a program, a tracepoint, an array map and a link that comes back.\<close>

definition shm_of :: "handler list \<Rightarrow> unit shm" where
  "shm_of hs = shm_view SHM_OPEN_ONLY \<lparr>so_manager = Some \<lparr>mg_handlers = hs, mg_segment = segment_new ()\<rparr>,
     so_syscall_pids = None, so_alive_pids = None, so_agent_config = None\<rparr>"

lemma shm_of_manager [simp]: "sh_manager (shm_of hs) = Some \<lparr>mg_handlers = hs, mg_segment = segment_new ()\<rparr>"
  by (simp add: shm_of_def shm_view_def)






section \<open>What does not come back\<close>

lemma export_loop_entries:
  "export_loop junk mg is acc = Inr kvs \<Longrightarrow> i \<in> set is \<Longrightarrow> is_allocated mg (int i) \<Longrightarrow>
     \<exists>v. handler_to_json junk (mg_segment mg) (mg_handlers mg ! i) = Inr v"
  by (induction junk mg "is" acc rule: export_loop.induct) (auto simp: bindr_eq_Inr split: if_splits)

lemma import_loop_stops:
  "(k, v) \<in> set kvs \<Longrightarrow> (\<And>fd s. fst (import_shm_handler_from_json env (kfd k) v fd s) \<noteq> Inr ()) \<Longrightarrow>
     fst (import_loop env kfd kvs s) \<noteq> Inr ()"
proof (induction env kfd kvs s rule: import_loop.induct)
  case (2 env kfd key val kvs s)
  show ?case
  proof (cases "stoi key")
    case (Some fd)
    obtain r s' where r: "import_shm_handler_from_json env (kfd key) val fd s = (r, s')" by fastforce
    show ?thesis
    proof (cases r)
      case (Inr u)
      then have "(k, v) \<in> set kvs" using 2(2) 2(3) [of fd s] r by auto
      moreover have "r = Inr ()" using Inr by simp
      ultimately show ?thesis using 2 Some r by (auto simp: reading_def followed_def)
    qed (use Some r in \<open>simp add: followed_def\<close>)
  qed simp
qed simp

lemma import_perf_throws:
  assumes "handler_to_json junk sg (PerfH p) = Inr v" "\<And>pid t. pf_data p \<noteq> Tracepoint pid t"
  shows "import_shm_handler_from_json env kfd v fd s = (Inl Throw, s)"
  using assms by (cases "pf_data p")
    (auto simp: handler_to_json_def bpf_perf_event_handler_attr_to_json_def bindr_eq_Inr
      import_shm_handler_from_json_def import_perf_def jfield_def as_int_def)

text \<open>Uprobes are not restored: the import reads the process and the tracepoint of every perf event, and the
  export writes the tracepoint of tracepoints only. So a table with any other perf event (a uprobe, a
  kprobe, a software or a custom event) can be exported, but the import of the document never succeeds,
  whatever the table it is imported into.\<close>

theorem json_uprobe_not_restored:
  assumes "bpftime_export_shm_to_json junk s = Inr doc" "sh_manager s = Some mg"
    and "i < length (mg_handlers mg)" "mg_handlers mg ! i = PerfH p" "\<And>pid t. pf_data p \<noteq> Tracepoint pid t"
  shows "fst (bpftime_import_shm_from_json env kfd (Some doc) s0) \<noteq> Inr ()"
proof -
  let ?sg = "mg_segment mg"
  define f where "f i = projr (handler_to_json junk ?sg (mg_handlers mg ! i))" for i
  from assms(1,2) obtain kvs where kvs: "export_loop junk mg [0..<length (mg_handlers mg)] [] = Inr kvs"
    "doc = (if kvs = [] then JNull else JObj kvs)" by (auto simp: bpftime_export_shm_to_json_def bindr_eq_Inr)
  have f: "handler_to_json junk ?sg (mg_handlers mg ! j) = Inr (f j)"
    if "j \<in> set [0..<length (mg_handlers mg)]" "is_allocated mg (int j)" for j
    using export_loop_entries [OF kvs(1) that] by (auto simp: f_def)
  have i: "i \<in> set [0..<length (mg_handlers mg)]" "is_allocated mg (int i)" using assms(3,4) by (auto simp: is_allocated_def)
  have "set kvs = {(dec i, f i) | i. i \<in> set [0..<length (mg_handlers mg)] \<and> is_allocated mg (int i)}"
    using export_loop_ok [of "[0..<length (mg_handlers mg)]" mg junk f "[]", OF f] kvs(1) by auto
  then have e: "(dec i, f i) \<in> set kvs" using i by blast
  have "handler_to_json junk ?sg (PerfH p) = Inr (f i)" using f [OF i] assms(4) by simp
  then have "fst (import_loop env kfd kvs s0) \<noteq> Inr ()"
    by (intro import_loop_stops [OF e]) (simp add: import_perf_throws [OF _ assms(5)])
  moreover have "items doc = kvs" using kvs(2) by simp
  ultimately show ?thesis by (simp add: bpftime_import_shm_from_json_def)
qed

theorem json_uprobe_not_restored_witness:
  "\<exists>doc. bpftime_export_shm_to_json 0 (shm_of [PerfH (uprobe_perf_new False 64 1 ''libc'' 0)]) = Inr doc \<and>
     fst (bpftime_import_shm_from_json plain_env (\<lambda>k i n. - 1) (Some doc) (shm_of [Unused])) \<noteq> Inr ()"
proof -
  let ?s = "shm_of [PerfH (uprobe_perf_new False 64 1 ''libc'' 0)]"
  obtain doc where doc: "bpftime_export_shm_to_json 0 ?s = Inr doc"
    by (auto simp: bpftime_export_shm_to_json_def is_allocated_def handler_to_json_def bpf_perf_event_handler_attr_to_json_def
        uprobe_perf_new_def)
  from json_uprobe_not_restored [OF doc shm_of_manager, of 0 "uprobe_perf_new False 64 1 ''libc'' 0"] doc show ?thesis
    by (auto simp: uprobe_perf_new_def)
qed

text \<open>The import of one handler never works: its descriptor and its document are passed in the wrong
  order, so that every call throws and changes nothing.\<close>

theorem json_import_handler_throws: "bpftime_import_shm_handler_from_json env kfd fd doc s = (Inl Throw, s)"
proof -
  have "as_int j = Inl Throw \<or> (\<exists>n. as_int j = Inr n)" for j by (cases j) (auto simp: as_int_def)
  then have "(case doc of None \<Rightarrow> Inl Throw | Some j \<Rightarrow> as_int j) = Inl Throw \<or>
    (\<exists>n. (case doc of None \<Rightarrow> Inl Throw | Some j \<Rightarrow> as_int j) = Inr n)" by (cases doc) auto
  then show ?thesis
    by (auto simp: bpftime_import_shm_handler_from_json_def import_shm_handler_from_json_def)
qed

end
