(* ===== verification/Ubpf_Vm.thy ===== *)
theory Ubpf_Vm
  imports Bpf_Prelude
begin

text \<open>
  The uBPF back end of the virtual machine (vm/compat/ubpf-vm/compat_ubpf.cpp), the choice of a back end
  by name (vm/compat/include/bpftime_vm_compat.hpp) and the C interface over it (vm/vm-core/src/ebpf-vm.cpp).
  The library uBPF itself is a parameter. The back end renumbers the helpers, since the library has room
  for 64 of them, and replaces the references in a program before the library sees it: helper numbers in
  calls, and maps, variables and code addresses in 64-bit loads. The theory shows that the replaced
  program means the same as the original one.
\<close>

unbundle bit_operations_syntax

section \<open>Instructions\<close>

record insn =
  in_code :: "8 word"
  in_dst :: "4 word"
  in_src :: "4 word"
  in_off :: "16 word"
  in_imm :: u32

definition EBPF_OP_CALL :: "8 word" where "EBPF_OP_CALL = 133"
definition EBPF_OP_LDDW :: "8 word" where "EBPF_OP_LDDW = 24"
definition EBPF_OP_EXIT :: "8 word" where "EBPF_OP_EXIT = 149"

lemmas opcode_defs = EBPF_OP_CALL_def EBPF_OP_LDDW_def EBPF_OP_EXIT_def

text \<open>The eight bytes of an instruction, as one word of memory.\<close>

definition insn_of_word :: "u64 \<Rightarrow> insn" where
  "insn_of_word w = \<lparr>in_code = ucast w, in_dst = ucast (drop_bit 8 w), in_src = ucast (drop_bit 12 w),
     in_off = ucast (drop_bit 16 w), in_imm = ucast (drop_bit 32 w)\<rparr>"

section \<open>The library\<close>

text \<open>What the back end calls of uBPF, over the state \<open>'l\<close> the library keeps. Functions are addresses.\<close>

record ('l, 'w) ubpf_lib =
  ul_create :: "'l option"
  ul_register :: "nat \<Rightarrow> string \<Rightarrow> nat \<Rightarrow> 'l \<Rightarrow> int \<times> 'l"
  ul_load :: "insn list \<Rightarrow> 'l \<Rightarrow> int \<times> 'l"
  ul_unload :: "'l \<Rightarrow> 'l"
  ul_exec :: "'l \<Rightarrow> bytes \<Rightarrow> 'w \<Rightarrow> (int \<times> u64) \<times> 'w"
  ul_compile :: "'l \<Rightarrow> nat option \<times> 'l"

section \<open>The back end\<close>

text \<open>The messages of \<^verbatim>\<open>error_string\<close>, with the numbers in them.\<close>

datatype load_error =
    NoError
  | BadLength
  | InvalidCall nat
  | NoFunction int nat
  | LastLddw nat
  | NotDefined nat
  | UnsupportedSrc nat "4 word"
  | LibraryError

record 'l ubpf_vm =
  uv_lib :: 'l
  uv_error :: load_error
  uv_map_by_fd :: "(u32 \<Rightarrow> u64) option"
  uv_map_by_idx :: "(u32 \<Rightarrow> u64) option"
  uv_map_val :: "(u64 \<Rightarrow> u64) option"
  uv_var_addr :: "(u32 \<Rightarrow> u64) option"
  uv_code_addr :: "(u32 \<Rightarrow> u64) option"
  uv_helper_ids :: "nat \<rightharpoonup> nat"
  uv_next_id :: nat

definition ubpf_vm_new :: "('l, 'w) ubpf_lib \<Rightarrow> 'l ubpf_vm res" where
  "ubpf_vm_new lib = (case ul_create lib of None \<Rightarrow> Inl Throw
     | Some l \<Rightarrow> Inr \<lparr>uv_lib = l, uv_error = NoError, uv_map_by_fd = None, uv_map_by_idx = None, uv_map_val = None,
         uv_var_addr = None, uv_code_addr = None, uv_helper_ids = Map.empty, uv_next_id = 1\<rparr>)"

definition register_external_function ::
  "('l, 'w) ubpf_lib \<Rightarrow> nat \<Rightarrow> string \<Rightarrow> nat \<Rightarrow> 'l ubpf_vm \<Rightarrow> int \<times> 'l ubpf_vm" where
  "register_external_function lib index nm fn vm =
     (let next_id = uv_next_id vm;
          (r, l) = ul_register lib next_id nm fn (uv_lib vm)
      in (r, vm\<lparr>uv_next_id := next_id + 1, uv_helper_ids := (uv_helper_ids vm)(index \<mapsto> next_id), uv_lib := l\<rparr>))"

definition set_lddw_helpers ::
  "(u32 \<Rightarrow> u64) option \<Rightarrow> (u32 \<Rightarrow> u64) option \<Rightarrow> (u64 \<Rightarrow> u64) option \<Rightarrow> (u32 \<Rightarrow> u64) option \<Rightarrow> (u32 \<Rightarrow> u64) option \<Rightarrow>
     'l ubpf_vm \<Rightarrow> 'l ubpf_vm" where
  "set_lddw_helpers map_by_fd map_by_idx map_val var_addr code_addr vm =
     vm\<lparr>uv_map_by_fd := map_by_fd, uv_map_by_idx := map_by_idx, uv_map_val := map_val, uv_var_addr := var_addr,
        uv_code_addr := code_addr\<rparr>"

text \<open>The value a 64-bit load stands for; \<open>pc\<close> is its position. An offset into a map is signed.\<close>

definition lddw_value :: "'l ubpf_vm \<Rightarrow> nat \<Rightarrow> insn \<Rightarrow> insn \<Rightarrow> load_error + u64" where
  "lddw_value vm pc cur nxt =
     (if in_src cur = 0 then Inr (ucast (in_imm cur) OR push_bit 32 (ucast (in_imm nxt)))
      else if in_src cur = 1 then
        (case uv_map_by_fd vm of Some f \<Rightarrow> Inr (f (in_imm cur)) | None \<Rightarrow> Inl (NotDefined pc))
      else if in_src cur = 2 then
        (case (uv_map_by_fd vm, uv_map_val vm) of
           (Some f, Some g) \<Rightarrow> Inr (g (f (in_imm cur)) + scast (in_imm nxt)) | _ \<Rightarrow> Inl (NotDefined pc))
      else if in_src cur = 3 then
        (case uv_var_addr vm of Some f \<Rightarrow> Inr (f (in_imm cur)) | None \<Rightarrow> Inl (NotDefined pc))
      else if in_src cur = 4 then
        (case uv_code_addr vm of Some f \<Rightarrow> Inr (f (in_imm cur)) | None \<Rightarrow> Inl (NotDefined pc))
      else if in_src cur = 5 then
        (case uv_map_by_idx vm of Some f \<Rightarrow> Inr (f (in_imm cur)) | None \<Rightarrow> Inl (NotDefined pc))
      else if in_src cur = 6 then
        (case (uv_map_by_idx vm, uv_map_val vm) of
           (Some f, Some g) \<Rightarrow> Inr (g (f (in_imm cur)) + scast (in_imm nxt)) | _ \<Rightarrow> Inl (NotDefined pc))
      else Inl (UnsupportedSrc pc (in_src cur)))"

text \<open>The key of the helper map: the immediate is a signed 32-bit number and the key an unsigned one of 64.\<close>

definition helper_key :: "u32 \<Rightarrow> nat" where
  "helper_key imm = unat (scast imm :: u64)"

text \<open>The loop over the instructions from position \<open>pc\<close> on. Both words of a 64-bit load are handled in one
  turn.\<close>

fun patch_loop :: "'l ubpf_vm \<Rightarrow> nat \<Rightarrow> insn list \<Rightarrow> load_error + insn list" where
  "patch_loop vm pc [] = Inr []"
| "patch_loop vm pc (cur # rest) =
     (if in_code cur = EBPF_OP_CALL then
        (case uv_helper_ids vm (helper_key (in_imm cur)) of
           Some new_id \<Rightarrow> (case patch_loop vm (pc + 1) rest of Inl e \<Rightarrow> Inl e
             | Inr is \<Rightarrow> Inr (cur\<lparr>in_imm := of_nat new_id\<rparr> # is))
         | None \<Rightarrow> if 64 \<le> sint (in_imm cur) then Inl (InvalidCall pc) else Inl (NoFunction (sint (in_imm cur)) pc))
      else if in_code cur = EBPF_OP_LDDW then
        (case rest of [] \<Rightarrow> Inl (LastLddw pc)
         | nxt # rest' \<Rightarrow> (case lddw_value vm pc cur nxt of Inl e \<Rightarrow> Inl e
             | Inr imm \<Rightarrow> (case patch_loop vm (pc + 2) rest' of Inl e \<Rightarrow> Inl e
                 | Inr is \<Rightarrow> Inr (cur\<lparr>in_imm := ucast imm, in_src := 0\<rparr> # nxt\<lparr>in_imm := ucast (drop_bit 32 imm)\<rparr> # is))))
      else (case patch_loop vm (pc + 1) rest of Inl e \<Rightarrow> Inl e | Inr is \<Rightarrow> Inr (cur # is)))"

definition load_code :: "('l, 'w) ubpf_lib \<Rightarrow> insn list \<Rightarrow> nat \<Rightarrow> 'l ubpf_vm \<Rightarrow> int \<times> 'l ubpf_vm" where
  "load_code lib code code_len vm =
     (if code_len mod 8 \<noteq> 0 then (- 1, vm\<lparr>uv_error := BadLength\<rparr>)
      else (case patch_loop vm 0 (take (code_len div 8) code) of
          Inl e \<Rightarrow> (- 22, vm\<lparr>uv_error := e\<rparr>)
        | Inr insns \<Rightarrow> (let (err, l) = ul_load lib insns (uv_lib vm);
              vm = vm\<lparr>uv_lib := l\<rparr>
            in (err, if err < 0 then vm\<lparr>uv_error := LibraryError\<rparr> else vm))))"

section \<open>Back ends by name\<close>

text \<open>The virtual functions of a back end with state \<open>'v\<close> that the runtime calls.\<close>

record ('v, 'w) vm_impl =
  vi_register :: "nat \<Rightarrow> string \<Rightarrow> nat \<Rightarrow> 'v \<Rightarrow> int \<times> 'v"
  vi_load :: "insn list \<Rightarrow> nat \<Rightarrow> 'v \<Rightarrow> int \<times> 'v"
  vi_unload :: "'v \<Rightarrow> 'v"
  vi_exec :: "'v \<Rightarrow> bytes \<Rightarrow> 'w \<Rightarrow> (int \<times> u64) \<times> 'w"
  vi_compile :: "'v \<Rightarrow> nat option \<times> 'v"
  vi_load_aot :: "bytes \<Rightarrow> 'v \<Rightarrow> nat option \<times> 'v"
  vi_set_lddw :: "(u32 \<Rightarrow> u64) option \<Rightarrow> (u32 \<Rightarrow> u64) option \<Rightarrow> (u64 \<Rightarrow> u64) option \<Rightarrow> (u32 \<Rightarrow> u64) option \<Rightarrow>
     (u32 \<Rightarrow> u64) option \<Rightarrow> 'v \<Rightarrow> 'v"

text \<open>uBPF does not override \<^verbatim>\<open>load_aot_object\<close>: the base class returns nothing.\<close>

definition ubpf_impl :: "('l, 'w) ubpf_lib \<Rightarrow> ('l ubpf_vm, 'w) vm_impl" where
  "ubpf_impl lib = \<lparr>vi_register = register_external_function lib, vi_load = load_code lib,
     vi_unload = (\<lambda>vm. vm\<lparr>uv_lib := ul_unload lib (uv_lib vm)\<rparr>), vi_exec = (\<lambda>vm. ul_exec lib (uv_lib vm)),
     vi_compile = (\<lambda>vm. let (f, l) = ul_compile lib (uv_lib vm);
         vm = vm\<lparr>uv_lib := l\<rparr>
       in (f, if f = None then vm\<lparr>uv_error := LibraryError\<rparr> else vm)),
     vi_load_aot = (\<lambda>buf vm. (None, vm)), vi_set_lddw = set_lddw_helpers\<rparr>"

definition register_vm_factory :: "string \<Rightarrow> 'v res \<Rightarrow> (string \<rightharpoonup> 'v res) \<Rightarrow> (string \<rightharpoonup> 'v res)" where
  "register_vm_factory vm_name factory_func factories = factories(vm_name \<mapsto> factory_func)"

definition create_vm_instance :: "(string \<rightharpoonup> 'v res) \<Rightarrow> string \<Rightarrow> 'v res" where
  "create_vm_instance factories vm_name =
     (if vm_name = [] then Inl Throw else (case factories vm_name of None \<Rightarrow> Inl Throw | Some f \<Rightarrow> f))"

section \<open>What a program means\<close>

text \<open>Two readings of a program. In the source a call names a helper of the runtime and a 64-bit load may name
  a map, a variable or a code address; in what the library gets a call names an entry of its table and a
  load carries its value. Everything else is the same instruction.\<close>

datatype meaning = CallTo insn nat | Load64 insn insn u64 | Same insn

fun source_meaning :: "(nat \<rightharpoonup> nat) \<Rightarrow> 'l ubpf_vm \<Rightarrow> insn list \<Rightarrow> meaning list option" where
  "source_meaning helpers vm [] = Some []"
| "source_meaning helpers vm (cur # rest) =
     (if in_code cur = EBPF_OP_CALL then
        (case (helpers (helper_key (in_imm cur)), source_meaning helpers vm rest) of
           (Some fn, Some ms) \<Rightarrow> Some (CallTo (cur\<lparr>in_imm := 0\<rparr>) fn # ms) | _ \<Rightarrow> None)
      else if in_code cur = EBPF_OP_LDDW then
        (case rest of [] \<Rightarrow> None
         | nxt # rest' \<Rightarrow> (case (lddw_value vm 0 cur nxt, source_meaning helpers vm rest') of
             (Inr v, Some ms) \<Rightarrow> Some (Load64 (cur\<lparr>in_imm := 0, in_src := 0\<rparr>) (nxt\<lparr>in_imm := 0\<rparr>) v # ms) | _ \<Rightarrow> None))
      else map_option ((#) (Same cur)) (source_meaning helpers vm rest))"

fun library_meaning :: "(nat \<rightharpoonup> nat) \<Rightarrow> insn list \<Rightarrow> meaning list option" where
  "library_meaning table [] = Some []"
| "library_meaning table (cur # rest) =
     (if in_code cur = EBPF_OP_CALL then
        (case (table (unat (in_imm cur)), library_meaning table rest) of
           (Some fn, Some ms) \<Rightarrow> Some (CallTo (cur\<lparr>in_imm := 0\<rparr>) fn # ms) | _ \<Rightarrow> None)
      else if in_code cur = EBPF_OP_LDDW then
        (case rest of [] \<Rightarrow> None
         | nxt # rest' \<Rightarrow> if in_src cur \<noteq> 0 then None else
             map_option ((#) (Load64 (cur\<lparr>in_imm := 0\<rparr>) (nxt\<lparr>in_imm := 0\<rparr>) (ucast (in_imm cur) OR push_bit 32 (ucast (in_imm nxt)))))
               (library_meaning table rest'))
      else map_option ((#) (Same cur)) (library_meaning table rest))"

lemma word_halves: "ucast (ucast v :: u32) OR push_bit 32 (ucast (ucast (drop_bit 32 v) :: u32)) = (v :: u64)"
  by (rule bit_word_eqI) (auto simp: bit_simps)

text \<open>The error of a load does not depend on its position, only the message does.\<close>

lemma lddw_value_pc:
  "(\<exists>e. lddw_value vm pc cur nxt = Inl e) \<longleftrightarrow> (\<exists>e. lddw_value vm 0 cur nxt = Inl e)"
  "lddw_value vm pc cur nxt = Inr v \<longleftrightarrow> lddw_value vm 0 cur nxt = Inr v"
  by (auto simp: lddw_value_def split: option.splits)

definition agrees :: "(nat \<rightharpoonup> nat) \<Rightarrow> (nat \<rightharpoonup> nat) \<Rightarrow> (nat \<rightharpoonup> nat) \<Rightarrow> bool" where
  "agrees ids table helpers \<longleftrightarrow> (\<forall>k. case ids k of None \<Rightarrow> helpers k = None
     | Some i \<Rightarrow> i < 2 ^ 32 \<and> helpers k \<noteq> None \<and> table i = helpers k)"

lemma patch_loop_meaning:
  assumes "agrees (uv_helper_ids vm) table helpers"
  shows "case patch_loop vm pc is of
      Inl e \<Rightarrow> source_meaning helpers vm is = None
    | Inr is' \<Rightarrow> (\<exists>ms. source_meaning helpers vm is = Some ms \<and> library_meaning table is' = Some ms)"
proof (induction "length is" arbitrary: pc "is" rule: less_induct)
  case less
  show ?case
  proof (cases "is")
    case (Cons cur rest)
    consider (call) "in_code cur = EBPF_OP_CALL" | (load) "in_code cur = EBPF_OP_LDDW" "in_code cur \<noteq> EBPF_OP_CALL"
      | (other) "in_code cur \<noteq> EBPF_OP_CALL" "in_code cur \<noteq> EBPF_OP_LDDW" by blast
    then show ?thesis
    proof cases
      case call
      let ?k = "helper_key (in_imm cur)"
      have IH: "case patch_loop vm (pc + 1) rest of Inl e \<Rightarrow> source_meaning helpers vm rest = None
        | Inr is' \<Rightarrow> (\<exists>ms. source_meaning helpers vm rest = Some ms \<and> library_meaning table is' = Some ms)"
        using less Cons by simp
      show ?thesis
      proof (cases "uv_helper_ids vm ?k")
        case None
        with assms have "helpers ?k = None" by (auto simp: agrees_def dest: spec [of _ ?k])
        with None call Cons show ?thesis by simp
      next
        case (Some i)
        with assms obtain fn where "helpers ?k = Some fn" "table i = Some fn" "unat (of_nat i :: u32) = i"
          by (auto simp: agrees_def unat_of_nat_u32 dest!: spec [of _ ?k])
        with Some call Cons IH show ?thesis by (auto split: sum.splits)
      qed
    next
      case load
      show ?thesis
      proof (cases rest)
        case (Cons nxt rest')
        have IH: "case patch_loop vm (pc + 2) rest' of Inl e \<Rightarrow> source_meaning helpers vm rest' = None
          | Inr is' \<Rightarrow> (\<exists>ms. source_meaning helpers vm rest' = Some ms \<and> library_meaning table is' = Some ms)"
          using less \<open>is = cur # rest\<close> Cons by simp
        show ?thesis
        proof (cases "lddw_value vm pc cur nxt")
          case (Inl e)
          then obtain e' where "lddw_value vm 0 cur nxt = Inl e'" using lddw_value_pc(1) by blast
          with Inl load Cons \<open>is = cur # rest\<close> show ?thesis by simp
        next
          case (Inr v)
          then have "lddw_value vm 0 cur nxt = Inr v" using lddw_value_pc(2) by blast
          with Inr load Cons \<open>is = cur # rest\<close> IH show ?thesis by (auto simp: word_halves split: sum.splits)
        qed
      qed (use load Cons in simp)
    next
      case other
      have "case patch_loop vm (pc + 1) rest of Inl e \<Rightarrow> source_meaning helpers vm rest = None
        | Inr is' \<Rightarrow> (\<exists>ms. source_meaning helpers vm rest = Some ms \<and> library_meaning table is' = Some ms)"
        using less Cons by simp
      with other Cons show ?thesis by (auto split: sum.splits)
    qed
  qed simp
qed

section \<open>Registering helpers\<close>

fun register_all :: "('l, 'w) ubpf_lib \<Rightarrow> (nat \<times> string \<times> nat) list \<Rightarrow> 'l ubpf_vm \<Rightarrow> 'l ubpf_vm" where
  "register_all lib [] vm = vm"
| "register_all lib ((k, nm, fn) # rs) vm = register_all lib rs (snd (register_external_function lib k nm fn vm))"

text \<open>What uBPF documents of \<^verbatim>\<open>ubpf_register\<close>: it enters the function in its table of 64 entries. \<open>table\<close> reads
  that table.\<close>

definition library_registers :: "('l, 'w) ubpf_lib \<Rightarrow> ('l \<Rightarrow> nat \<rightharpoonup> nat) \<Rightarrow> bool" where
  "library_registers lib table \<longleftrightarrow>
     (\<forall>i nm fn l. i < 64 \<longrightarrow> fst (ul_register lib i nm fn l) = 0 \<and> table (snd (ul_register lib i nm fn l)) = (table l)(i \<mapsto> fn))"

definition helpers_of :: "(nat \<times> string \<times> nat) list \<Rightarrow> nat \<rightharpoonup> nat" where
  "helpers_of rs = map_of (rev (map (\<lambda>(k, nm, fn). (k, fn)) rs))"

lemma helpers_of_snoc: "helpers_of (rs @ [(k, nm, fn)]) = (helpers_of rs)(k \<mapsto> fn)"
  by (simp add: helpers_of_def)

lemma register_all_snoc:
  "register_all lib (rs @ [(k, nm, fn)]) vm = snd (register_external_function lib k nm fn (register_all lib rs vm))"
  by (induction lib rs vm rule: register_all.induct) auto

text \<open>The numbers in use are below the next one, so that a new entry never replaces another.\<close>

definition ids_inv :: "('l \<Rightarrow> nat \<rightharpoonup> nat) \<Rightarrow> (nat \<times> string \<times> nat) list \<Rightarrow> 'l ubpf_vm \<Rightarrow> bool" where
  "ids_inv table rs vm \<longleftrightarrow> uv_next_id vm = Suc (length rs) \<and>
     (\<forall>k i. uv_helper_ids vm k = Some i \<longrightarrow> i < uv_next_id vm \<and> table (uv_lib vm) i = helpers_of rs k) \<and>
     dom (uv_helper_ids vm) = dom (helpers_of rs)"

lemma register_all_inv:
  assumes "library_registers lib table" "uv_helper_ids vm = Map.empty" "uv_next_id vm = 1"
  shows "length rs < 64 \<Longrightarrow> ids_inv table rs (register_all lib rs vm)"
proof (induction rs rule: rev_induct)
  case Nil
  then show ?case using assms(2,3) by (simp add: ids_inv_def helpers_of_def)
next
  case (snoc r rs)
  obtain k nm fn where r: "r = (k, nm, fn)" by (cases r)
  let ?vm = "register_all lib rs vm"
  have inv: "ids_inv table rs ?vm" using snoc by simp
  then have "uv_next_id ?vm < 64" using snoc.prems by (simp add: ids_inv_def)
  then have "table (snd (ul_register lib (uv_next_id ?vm) nm fn (uv_lib ?vm))) = (table (uv_lib ?vm))(uv_next_id ?vm \<mapsto> fn)"
    using assms(1) by (simp add: library_registers_def)
  moreover have "i < Suc (length rs) \<and> table (uv_lib ?vm) i = helpers_of rs k'" if "uv_helper_ids ?vm k' = Some i" for k' i
    using inv that by (auto simp: ids_inv_def)
  moreover have "uv_next_id ?vm = Suc (length rs)" "dom (uv_helper_ids ?vm) = dom (helpers_of rs)"
    using inv by (auto simp: ids_inv_def)
  ultimately show ?case
    by (fastforce simp: r register_all_snoc helpers_of_snoc ids_inv_def register_external_function_def Let_def split_def)
qed

lemma ids_inv_agrees: "ids_inv table rs vm \<Longrightarrow> length rs < 64 \<Longrightarrow> agrees (uv_helper_ids vm) (table (uv_lib vm)) (helpers_of rs)"
  unfolding agrees_def ids_inv_def by (force split: option.split)

lemma new_machine_agrees:
  assumes "library_registers lib table" "ubpf_vm_new lib = Inr vm0" "length rs < 64"
    and "vm = register_all lib rs (set_lddw_helpers map_by_fd map_by_idx map_val var_addr code_addr vm0)"
  shows "agrees (uv_helper_ids vm) (table (uv_lib vm)) (helpers_of rs)"
proof -
  have "uv_helper_ids (set_lddw_helpers map_by_fd map_by_idx map_val var_addr code_addr vm0) = Map.empty"
    "uv_next_id (set_lddw_helpers map_by_fd map_by_idx map_val var_addr code_addr vm0) = 1"
    using assms(2) by (auto simp: ubpf_vm_new_def set_lddw_helpers_def split: option.splits)
  from ids_inv_agrees [OF register_all_inv [OF assms(1) this assms(3)] assms(3)] show ?thesis by (simp add: assms(4))
qed

lemma load_code_meaning:
  assumes "agrees (uv_helper_ids vm) table helpers"
  shows "case source_meaning helpers vm code of
      None \<Rightarrow> fst (load_code lib code (8 * length code) vm) = - 22 \<and> uv_lib (snd (load_code lib code (8 * length code) vm)) = uv_lib vm
    | Some ms \<Rightarrow> (\<exists>code'. library_meaning table code' = Some ms \<and>
        fst (load_code lib code (8 * length code) vm) = fst (ul_load lib code' (uv_lib vm)) \<and>
        uv_lib (snd (load_code lib code (8 * length code) vm)) = snd (ul_load lib code' (uv_lib vm)))"
  using patch_loop_meaning [OF assms, of code 0]
  by (cases "patch_loop vm 0 code") (auto simp: load_code_def split_def Let_def)

text \<open>Loads do not depend on the helpers.\<close>

lemma source_meaning_lddw:
  assumes "uv_map_by_fd vm' = uv_map_by_fd vm" "uv_map_by_idx vm' = uv_map_by_idx vm" "uv_map_val vm' = uv_map_val vm"
    "uv_var_addr vm' = uv_var_addr vm" "uv_code_addr vm' = uv_code_addr vm"
  shows "source_meaning helpers vm' code = source_meaning helpers vm code"
proof -
  have "lddw_value vm' pc cur nxt = lddw_value vm pc cur nxt" for pc cur nxt using assms by (simp add: lddw_value_def)
  then show ?thesis by (induction helpers vm code rule: source_meaning.induct) (auto split: list.split option.split sum.split)
qed

lemma register_all_lddw:
  "uv_map_by_fd (register_all lib rs vm) = uv_map_by_fd vm \<and> uv_map_by_idx (register_all lib rs vm) = uv_map_by_idx vm \<and>
   uv_map_val (register_all lib rs vm) = uv_map_val vm \<and> uv_var_addr (register_all lib rs vm) = uv_var_addr vm \<and>
   uv_code_addr (register_all lib rs vm) = uv_code_addr vm"
  by (induction lib rs vm rule: register_all.induct) (simp_all add: register_external_function_def split_def Let_def)

lemma source_meaning_register [simp]: "source_meaning helpers (register_all lib rs vm) code = source_meaning helpers vm code"
  using register_all_lddw [of lib rs vm] by (intro source_meaning_lddw) auto

text \<open>C28. The replaced program means the same: after registering up to 63 helpers on a new machine, a program
  in which every call names a registered helper and every 64-bit load can be resolved is handed to the
  library as one that calls, at every call, the function last registered under that number, loads the same
  64-bit values and has the same instructions otherwise; any other program is refused with \<^verbatim>\<open>EINVAL\<close> and the
  library does not see it.\<close>

theorem ubpf_load_refines:
  assumes "library_registers lib table" "ubpf_vm_new lib = Inr vm0" "length rs < 64"
    and "vm = register_all lib rs (set_lddw_helpers map_by_fd map_by_idx map_val var_addr code_addr vm0)"
  shows "case source_meaning (helpers_of rs) vm code of
      None \<Rightarrow> fst (load_code lib code (8 * length code) vm) = - 22 \<and> uv_lib (snd (load_code lib code (8 * length code) vm)) = uv_lib vm
    | Some ms \<Rightarrow> (\<exists>code'. library_meaning (table (uv_lib vm)) code' = Some ms \<and>
        fst (load_code lib code (8 * length code) vm) = fst (ul_load lib code' (uv_lib vm)) \<and>
        uv_lib (snd (load_code lib code (8 * length code) vm)) = snd (ul_load lib code' (uv_lib vm)))"
  using load_code_meaning [OF new_machine_agrees [OF assms]] .

text \<open>A library that keeps its table and the last program.\<close>

definition table_lib :: "((nat \<rightharpoonup> nat) \<times> insn list, unit) ubpf_lib" where
  "table_lib = \<lparr>ul_create = Some (Map.empty, []),
     ul_register = (\<lambda>i nm fn l. if i < 64 then (0, ((fst l)(i \<mapsto> fn), snd l)) else (- 1, l)),
     ul_load = (\<lambda>is l. (0, (fst l, is))), ul_unload = (\<lambda>l. (fst l, [])), ul_exec = (\<lambda>l mem w. ((0, 0), w)),
     ul_compile = (\<lambda>l. (None, l))\<rparr>"

lemma table_lib_registers: "library_registers table_lib fst"
  by (simp add: library_registers_def table_lib_def)

definition insn_call :: "u32 \<Rightarrow> insn" where
  "insn_call i = \<lparr>in_code = EBPF_OP_CALL, in_dst = 0, in_src = 0, in_off = 0, in_imm = i\<rparr>"

theorem ubpf_load_refines_witness:
  "\<exists>vm0 code'. ubpf_vm_new table_lib = Inr vm0 \<and>
     library_meaning (fst (uv_lib (register_all table_lib [(14, ''a'', 7), (501, ''b'', 9)] vm0))) code' =
       Some [CallTo (insn_call 0) 9] \<and>
     fst (load_code table_lib [insn_call 501] 8 (register_all table_lib [(14, ''a'', 7), (501, ''b'', 9)] vm0)) = 0"
proof -
  let ?rs = "[(14, ''a'', 7), (501, ''b'', 9)] :: (nat \<times> string \<times> nat) list"
  obtain vm0 where vm0: "ubpf_vm_new table_lib = Inr vm0" by (simp add: ubpf_vm_new_def table_lib_def)
  have same: "set_lddw_helpers None None None None None vm0 = vm0"
    using vm0 by (auto simp: ubpf_vm_new_def set_lddw_helpers_def table_lib_def)
  have "length ?rs < 64" by simp
  note r = ubpf_load_refines [OF table_lib_registers vm0 this refl, where code = "[insn_call 501]"
      and map_by_fd = None and map_by_idx = None and map_val = None and var_addr = None and code_addr = None, unfolded same]
  have "helper_key 501 = 501" by (simp add: helper_key_def)
  then have "source_meaning (helpers_of ?rs) (register_all table_lib ?rs vm0) [insn_call 501] = Some [CallTo (insn_call 0) 9]"
    by (simp add: insn_call_def helpers_of_def)
  with r vm0 show ?thesis by (auto simp: table_lib_def)
qed

end
