(* ===== verification/Bpftime_Prog.thy ===== *)
theory Bpftime_Prog
  imports Shm_Internal Ubpf_Vm
begin

text \<open>
  Programs of an agent (src/bpftime_prog.cpp, include/bpftime_prog.hpp) and the groups of helper functions
  they may call (\<^verbatim>\<open>bpftime_helper_group\<close>, include/bpftime_helper_group.hpp and src/bpf_helper.cpp). A program
  owns a virtual machine: helpers are registered with it, the instructions are loaded and, unless the
  machine interprets them, compiled. The theory shows that a loaded program can be run, and, for the uBPF
  back end, that its calls reach the functions of the enabled groups.
\<close>

section \<open>Helper groups\<close>

record helper_info =
  hi_index :: nat
  hi_name :: string
  hi_fn :: nat

type_synonym helper_group = "(nat \<times> helper_info) list"

definition register_helper :: "helper_info \<Rightarrow> helper_group \<Rightarrow> int \<times> helper_group" where
  "register_helper info g =
     (if 999 < hi_index info then (- 1, g)
      else (case map_of g (hi_index info) of
          None \<Rightarrow> (0, omap_put (hi_index info) info g)
        | Some old \<Rightarrow> if hi_fn old \<noteq> hi_fn info then (- 1, g) else (0, g)))"

definition helper_group_append :: "helper_group \<Rightarrow> helper_group \<Rightarrow> int \<times> helper_group" where
  "helper_group_append another g =
     (if \<exists>e \<in> set another. map_of g (fst e) \<noteq> None then (- 1, g)
      else (0, fold (\<lambda>(k, info) g. omap_put k info g) another g))"

definition get_helper_ids :: "helper_group \<Rightarrow> nat list" where
  "get_helper_ids g = map fst g"

text \<open>A group from an initialiser list of index, name and function; \<open>addr\<close> gives the addresses of the
  functions.\<close>

definition helper_group_of :: "(string \<Rightarrow> nat) \<Rightarrow> (nat \<times> string \<times> string) list \<Rightarrow> helper_group" where
  "helper_group_of addr es = fold (\<lambda>(i, nm, fn) g. if map_of g i = None
     then omap_put i \<lparr>hi_index = i, hi_name = nm, hi_fn = addr fn\<rparr> g else g) es []"

definition kernel_utils_helpers :: "(nat \<times> string \<times> string) list" where
  "kernel_utils_helpers = [
     (4, ''bpf_probe_read'', ''bpftime_probe_read''), (8, ''bpf_get_smp_processor_id'', ''bpftime_get_smp_processor_id''),
     (28, ''bpf_csum_diff'', ''bpftime_csum_diff''), (44, ''bpf_xdp_adjust_head'', ''bpftime_xdp_adjust_head''),
     (65, ''bpf_xdp_adjust_tail'', ''bpftime_xdp_adjust_tail''), (113, ''bpf_probe_read_kernel'', ''bpftime_probe_read''),
     (112, ''bpf_probe_read_user'', ''bpftime_probe_read''), (5, ''bpf_ktime_get_ns'', ''bpftime_ktime_get_ns''),
     (6, ''bpf_trace_printk'', ''bpftime_trace_printk''), (7, ''bpf_get_prandom_u32'', ''bpftime_get_prandom_u32''),
     (14, ''bpf_get_current_pid_tgid'', ''bpftime_get_current_pid_tgid''), (15, ''bpf_get_current_uid_gid'', ''bpf_get_current_uid_gid''),
     (16, ''bpf_get_current_comm'', ''bpftime_get_current_comm''), (58, ''bpf_override_return'', ''bpftime_override_return''),
     (182, ''bpf_strncmp'', ''bpftime_strncmp''), (36, ''bpf_probe_write_user'', ''bpftime_probe_write_user''),
     (187, ''bpf_set_retval'', ''bpftime_set_retval''), (114, ''bpf_probe_read_str'', ''bpf_probe_read_str''),
     (45, ''bpf_probe_str'', ''bpf_probe_read_str''), (67, ''bpf_get_stack'', ''bpf_get_stack''),
     (160, ''bpf_ktime_get_coarse_ns'', ''bpf_ktime_get_coarse_ns''), (131, ''bpf_ringbuf_reserve'', ''bpf_ringbuf_reserve''),
     (132, ''bpf_ringbuf_submit'', ''bpf_ringbuf_submit''), (133, ''bpf_ringbuf_discard'', ''bpf_ringbuf_discard''),
     (25, ''bpf_perf_event_output'', ''bpf_perf_event_output''), (130, ''bpf_ringbuf_output'', ''bpf_ringbuf_output''),
     (12, ''bpf_tail_call'', ''bpftime_tail_call''), (174, ''bpf_get_attach_cookie'', ''bpftime_get_attach_cookie'')]"

definition shm_maps_helpers :: "(nat \<times> string \<times> string) list" where
  "shm_maps_helpers = [
     (1, ''bpf_map_lookup_elem'', ''bpftime_map_lookup_elem_helper''), (2, ''bpf_map_update_elem'', ''bpftime_map_update_elem_helper''),
     (3, ''bpf_map_delete_elem'', ''bpftime_map_delete_elem_helper'')]"

section \<open>Programs\<close>

text \<open>The constructor leaves \<^verbatim>\<open>jitted\<close> and \<^verbatim>\<open>fn\<close> unset: \<open>None\<close>.\<close>

record 'v prog =
  pr_name :: string
  pr_insns :: "insn list"
  pr_vm :: 'v
  pr_jitted :: "bool option"
  pr_fn :: "nat option"

definition is_cuda :: "'v prog \<Rightarrow> bool" where
  "is_cuda p \<longleftrightarrow> 6 \<le> length (pr_name p) \<and> drop (length (pr_name p) - 6) (pr_name p) = ''__cuda''"

text \<open>\<open>map_by_fd\<close> and \<open>map_val\<close> are the two functions of the runtime a 64-bit load may use.\<close>

definition bpftime_prog_new ::
  "('v, 'w) vm_impl \<Rightarrow> (string \<rightharpoonup> 'v res) \<Rightarrow> string \<Rightarrow> (u32 \<Rightarrow> u64) \<Rightarrow> (u64 \<Rightarrow> u64) \<Rightarrow> insn list \<Rightarrow> string \<Rightarrow> 'v prog res" where
  "bpftime_prog_new vi factories vm_name map_by_fd map_val insn nm =
     bindr (create_vm_instance factories vm_name) (\<lambda>vm.
       Inr \<lparr>pr_name = nm, pr_insns = insn, pr_vm = vi_set_lddw vi (Some map_by_fd) None (Some map_val) None None vm,
         pr_jitted = None, pr_fn = None\<rparr>)"

text \<open>The other constructor stores a configuration first and takes the name of the machine from it.\<close>

definition bpftime_prog_new_config ::
  "('v, 'w) vm_impl \<Rightarrow> (string \<rightharpoonup> 'v res) \<Rightarrow> agent_config \<Rightarrow> (u32 \<Rightarrow> u64) \<Rightarrow> (u64 \<Rightarrow> u64) \<Rightarrow> insn list \<Rightarrow> string \<Rightarrow>
     's shm \<Rightarrow> 'v prog res \<times> 's shm" where
  "bpftime_prog_new_config vi factories config map_by_fd map_val insn nm s =
     (let s = set_agent_config config s in
      (bindr (get_agent_config s) (\<lambda>c. bpftime_prog_new vi factories (get_vm_name c) map_by_fd map_val insn nm), s))"

text \<open>\<^verbatim>\<open>ebpf_load\<close> takes the length as a 32-bit number.\<close>

definition bpftime_prog_load :: "('v, 'w) vm_impl \<Rightarrow> bool \<Rightarrow> 'v prog \<Rightarrow> int \<times> 'v prog" where
  "bpftime_prog_load vi jit p =
     (let (res, vm) = vi_load vi (pr_insns p) (length (pr_insns p) * 8 mod 2 ^ 32) (pr_vm p);
          p = p\<lparr>pr_vm := vm\<rparr>
      in if res < 0 then (res, p)
         else if is_cuda p then (0, p)
         else if jit then
           (let p = p\<lparr>pr_jitted := Some True\<rparr>;
                (f, vm) = vi_compile vi (pr_vm p);
                p = p\<lparr>pr_vm := vm\<rparr>
            in case f of None \<Rightarrow> (- 1, p) | Some fn \<Rightarrow> (0, p\<lparr>pr_fn := Some fn\<rparr>))
         else (0, p\<lparr>pr_jitted := Some False\<rparr>))"

definition bpftime_prog_unload :: "('v, 'w) vm_impl \<Rightarrow> 'v prog \<Rightarrow> 'v prog res" where
  "bpftime_prog_unload vi p = bindr (or_fault (pr_jitted p)) (\<lambda>jitted.
     Inr (if jitted then p else p\<lparr>pr_vm := vi_unload vi (pr_vm p)\<rparr>))"

text \<open>\<open>call fn\<close> runs compiled code. The result is what \<^verbatim>\<open>bpftime_prog_exec\<close> returns, the value it stores, and the
  world after it.\<close>

definition bpftime_prog_exec ::
  "('v, 'w) vm_impl \<Rightarrow> (nat \<Rightarrow> bytes \<Rightarrow> 'w \<Rightarrow> u64 \<times> 'w) \<Rightarrow> 'v prog \<Rightarrow> bytes \<Rightarrow> 'w \<Rightarrow> (int \<times> u64 \<times> 'w) res" where
  "bpftime_prog_exec vi call p mem w =
     (if is_cuda p then Inl Throw
      else bindr (or_fault (pr_jitted p)) (\<lambda>jitted.
        if jitted then bindr (or_fault (pr_fn p)) (\<lambda>fn. let (val, w) = call fn mem w in Inr (0, val, w))
        else (let ((res, val), w) = vi_exec vi (pr_vm p) mem w in Inr (res, val, w))))"

definition bpftime_prog_register_raw_helper :: "('v, 'w) vm_impl \<Rightarrow> helper_info \<Rightarrow> 'v prog \<Rightarrow> int \<times> 'v prog" where
  "bpftime_prog_register_raw_helper vi info p =
     (let (r, vm) = vi_register vi (hi_index info) (hi_name info) (hi_fn info) (pr_vm p) in (r, p\<lparr>pr_vm := vm\<rparr>))"

definition load_aot_object :: "('v, 'w) vm_impl \<Rightarrow> bytes \<Rightarrow> 'v prog \<Rightarrow> int \<times> 'v prog" where
  "load_aot_object vi buf p =
     (let (f, vm) = vi_load_aot vi buf (pr_vm p);
          p = p\<lparr>pr_vm := vm\<rparr>
      in case f of None \<Rightarrow> (- 1, p) | Some fn \<Rightarrow> (0, p\<lparr>pr_fn := Some fn, pr_jitted := Some True\<rparr>))"

definition add_helper_group_to_prog :: "('v, 'w) vm_impl \<Rightarrow> helper_group \<Rightarrow> 'v prog \<Rightarrow> 'v prog" where
  "add_helper_group_to_prog vi g p = fold (\<lambda>e p. snd (bpftime_prog_register_raw_helper vi (snd e) p)) g p"

text \<open>\<^verbatim>\<open>load_prog_and_helpers\<close> of src/attach/bpf_attach_ctx.cpp; \<open>ufunc\<close> is the group of the extension library.\<close>

record helper_groups =
  hg_kernel :: helper_group
  hg_ufunc :: helper_group
  hg_shm_maps :: helper_group

definition load_prog_and_helpers ::
  "('v, 'w) vm_impl \<Rightarrow> helper_groups \<Rightarrow> agent_config \<Rightarrow> 'v prog \<Rightarrow> int \<times> 'v prog" where
  "load_prog_and_helpers vi gs config p =
     (let p = (if ac_kernel_group config then add_helper_group_to_prog vi (hg_kernel gs) p else p);
          p = (if ac_ufunc_group config then add_helper_group_to_prog vi (hg_ufunc gs) p else p);
          p = (if ac_shm_maps_group config then add_helper_group_to_prog vi (hg_shm_maps gs) p else p)
      in bpftime_prog_load vi (ac_jit_enabled config) p)"

section \<open>Running a loaded program\<close>

text \<open>A program as the constructor makes it, for a machine that accepts every program and returns 42.\<close>

definition echo_impl :: "(unit, unit) vm_impl" where
  "echo_impl = \<lparr>vi_register = (\<lambda>i nm fn v. (0, v)), vi_load = (\<lambda>is n v. (0, v)), vi_unload = id,
     vi_exec = (\<lambda>v mem w. ((0, 42), w)), vi_compile = (\<lambda>v. (None, v)), vi_load_aot = (\<lambda>b v. (None, v)),
     vi_set_lddw = (\<lambda>a b c d e v. v)\<rparr>"

definition echo_prog :: "unit prog" where
  "echo_prog = \<lparr>pr_name = ''p'', pr_insns = [], pr_vm = (), pr_jitted = None, pr_fn = None\<rparr>"

lemma load_prog_name: "pr_name (snd (bpftime_prog_load vi jit p)) = pr_name p"
  by (auto simp: bpftime_prog_load_def split_def Let_def split: option.split)

text \<open>A loaded program runs: when loading succeeds, running the program never reads a member the constructor
  left unset and reports exactly what the compiled function or the interpreter returns, depending on the
  mode it was loaded in. A program for the GPU is refused with an exception instead. After a failed load a new
  program must not be run: its mode or its function is not set.\<close>

theorem loaded_prog_runs:
  assumes "bpftime_prog_load vi jit p = (r, p')"
  shows "if is_cuda p then bpftime_prog_exec vi call p' mem w = Inl Throw
    else if 0 \<le> r then bpftime_prog_exec vi call p' mem w = Inr (
        if jit then (case call (the (pr_fn p')) mem w of (val, w') \<Rightarrow> (0, val, w'))
        else (case vi_exec vi (pr_vm p') mem w of ((res, val), w') \<Rightarrow> (res, val, w')))
    else pr_jitted p = None \<and> pr_fn p = None \<longrightarrow> bpftime_prog_exec vi call p' mem w = Inl Fault"
proof -
  have "is_cuda p' = is_cuda p" using load_prog_name [of vi jit p] assms by (simp add: is_cuda_def)
  then show ?thesis using assms
    by (auto simp: bpftime_prog_load_def bpftime_prog_exec_def is_cuda_def split_def Let_def split: if_splits option.splits)
qed

theorem loaded_prog_runs_witness:
  "\<exists>p'. bpftime_prog_load echo_impl False echo_prog = (0, p') \<and> bpftime_prog_exec echo_impl (\<lambda>fn mem w. (0, w)) p' [] () = Inr (0, 42, ())"
proof -
  obtain p' where p': "bpftime_prog_load echo_impl False echo_prog = (0, p')"
    by (simp add: bpftime_prog_load_def echo_impl_def echo_prog_def is_cuda_def)
  from loaded_prog_runs [OF this, of "\<lambda>fn mem w. (0, w)" "[]" "()"] p' show ?thesis
    by (simp add: is_cuda_def echo_prog_def echo_impl_def)
qed

section \<open>Groups as tables\<close>

lemma omap_put_length: "length (omap_put k v m) \<le> Suc (length m)"
  by (induction m) auto

text \<open>The entries of a group have the index they are stored under.\<close>

definition group_ok :: "helper_group \<Rightarrow> bool" where
  "group_ok g \<longleftrightarrow> omap_ok g \<and> (\<forall>(k, info) \<in> set g. hi_index info = k)"

definition helper_fn :: "(string \<Rightarrow> nat) \<Rightarrow> (nat \<times> string \<times> string) list \<Rightarrow> nat \<rightharpoonup> nat" where
  "helper_fn addr es k = map_option (\<lambda>(nm, fn). addr fn) (map_of es k)"

lemma omap_put_group_ok: "group_ok g \<Longrightarrow> hi_index info = k \<Longrightarrow> group_ok (omap_put k info g)"
proof -
  assume g: "group_ok g" "hi_index info = k"
  have "set (omap_put k info g) \<subseteq> insert (k, info) (set g)" by (induction g) (auto split: if_splits)
  with g show ?thesis by (auto simp: group_ok_def omap_put_ok)
qed

lemma group_fold:
  defines "step addr \<equiv> \<lambda>(i, nm, fn) g. if map_of g i = None then omap_put i \<lparr>hi_index = i, hi_name = nm, hi_fn = addr fn\<rparr> g else g"
  assumes "group_ok g"
  shows "group_ok (fold (step addr) es g) \<and> length (fold (step addr) es g) \<le> length g + length es \<and>
    map_option hi_fn \<circ> map_of (fold (step addr) es g) = helper_fn addr es ++ (map_option hi_fn \<circ> map_of g)"
  using assms(2)
proof (induction es arbitrary: g)
  case (Cons e es)
  obtain i nm fn where e: "e = (i, nm, fn)" by (cases e)
  have g': "group_ok (step addr e g)" using Cons.prems by (auto simp: e step_def omap_put_group_ok)
  have len: "length (step addr e g) \<le> Suc (length g)" using omap_put_length by (auto simp: e step_def)
  have "map_option hi_fn \<circ> map_of (step addr e g) = [i \<mapsto> addr fn] ++ (map_option hi_fn \<circ> map_of g)"
    by (auto simp: e step_def fun_eq_iff map_add_def split: option.split)
  then have "helper_fn addr es ++ (map_option hi_fn \<circ> map_of (step addr e g)) =
      helper_fn addr (e # es) ++ (map_option hi_fn \<circ> map_of g)"
    by (auto simp: e helper_fn_def fun_eq_iff map_add_def split: option.split)
  with Cons.IH [OF g'] len show ?case by (simp add: comp_def)
qed (auto simp: helper_fn_def fun_eq_iff map_add_def split: option.split)

lemma helper_group_of_ok: "group_ok (helper_group_of addr es)"
  and helper_group_of_length: "length (helper_group_of addr es) \<le> length es"
  and helper_group_of_fn: "map_option hi_fn \<circ> map_of (helper_group_of addr es) = helper_fn addr es"
  using group_fold [of "[]" addr es] by (simp_all add: group_ok_def helper_group_of_def fun_eq_iff map_add_def)

text \<open>Groups: registering a helper keeps the table and adds at most that entry, refuses numbers above 999
  and a second function under the same number; appending a group either adds all of it or, when a number is
  taken, nothing.\<close>

theorem helper_group_spec:
  "(case register_helper info g of (r, g') \<Rightarrow>
     r = (if hi_index info \<le> 999 \<and> map_option hi_fn (map_of g (hi_index info)) \<in> {None, Some (hi_fn info)} then 0 else - 1) \<and>
     map_of g' = (if r = 0 \<and> map_of g (hi_index info) = None then (map_of g)(hi_index info \<mapsto> info) else map_of g)) \<and>
   (case helper_group_append g2 g of (r, g') \<Rightarrow>
     r = (if dom (map_of g) \<inter> set (map fst g2) = {} then 0 else - 1) \<and>
     map_of g' = (if r = 0 then map_of g ++ map_of (rev g2) else map_of g))"
proof (rule conjI)
  show "case register_helper info g of (r, g') \<Rightarrow>
     r = (if hi_index info \<le> 999 \<and> map_option hi_fn (map_of g (hi_index info)) \<in> {None, Some (hi_fn info)} then 0 else - 1) \<and>
     map_of g' = (if r = 0 \<and> map_of g (hi_index info) = None then (map_of g)(hi_index info \<mapsto> info) else map_of g)"
    by (auto simp: register_helper_def split: option.split)
  have fold: "map_of (fold (\<lambda>(k, info) g. omap_put k info g) es m) = map_of m ++ map_of (rev es)"
    for es m :: "(nat \<times> helper_info) list"
    by (induction es arbitrary: m) auto
  have "(\<exists>e \<in> set g2. map_of g (fst e) \<noteq> None) \<longleftrightarrow> dom (map_of g) \<inter> set (map fst g2) \<noteq> {}"
    by (auto simp: dom_def)
  then show "case helper_group_append g2 g of (r, g') \<Rightarrow>
     r = (if dom (map_of g) \<inter> set (map fst g2) = {} then 0 else - 1) \<and>
     map_of g' = (if r = 0 then map_of g ++ map_of (rev g2) else map_of g)"
    by (simp add: helper_group_append_def fold)
qed

section \<open>Helpers under uBPF\<close>

definition raw_helpers :: "helper_group \<Rightarrow> (nat \<times> string \<times> nat) list" where
  "raw_helpers g = map (\<lambda>e. (hi_index (snd e), hi_name (snd e), hi_fn (snd e))) g"

lemma add_helper_group_ubpf:
  "add_helper_group_to_prog (ubpf_impl lib) g p = p\<lparr>pr_vm := register_all lib (raw_helpers g) (pr_vm p)\<rparr>"
proof (induction g arbitrary: p)
  case (Cons e g)
  then show ?case
    by (simp add: add_helper_group_to_prog_def raw_helpers_def bpftime_prog_register_raw_helper_def ubpf_impl_def split_def Let_def)
qed (simp add: add_helper_group_to_prog_def raw_helpers_def)

lemma register_all_append: "register_all lib (xs @ ys) vm = register_all lib ys (register_all lib xs vm)"
  by (induction lib xs vm rule: register_all.induct) auto

lemma helpers_of_append: "helpers_of (xs @ ys) = helpers_of xs ++ helpers_of ys"
  by (simp add: helpers_of_def)

lemma map_of_rev_distinct: "distinct (map fst xs) \<Longrightarrow> map_of (rev xs) = map_of xs"
  by (rule map_of_inject_set [THEN iffD2]) (simp_all add: rev_map [symmetric])

lemma helpers_of_group:
  assumes "group_ok g"
  shows "helpers_of (raw_helpers g) = map_option hi_fn \<circ> map_of g"
proof -
  let ?es = "map (\<lambda>(k, info). (k, hi_fn info)) g"
  have "map (\<lambda>(k, nm, fn). (k, fn)) (raw_helpers g) = ?es"
    using assms by (auto simp: raw_helpers_def group_ok_def)
  moreover have "map fst ?es = map fst g" by auto
  then have "distinct (map fst ?es)" using assms by (simp only: group_ok_def omap_distinct)
  ultimately have "helpers_of (raw_helpers g) = map_of ?es" by (simp add: helpers_of_def map_of_rev_distinct)
  then show ?thesis by (simp add: map_of_map fun_eq_iff)
qed

lemma helpers_of_helper_group: "helpers_of (raw_helpers (helper_group_of addr es)) = helper_fn addr es"
  using helpers_of_group [OF helper_group_of_ok] helper_group_of_fn by metis

text \<open>The helpers of the groups a configuration enables, in the order in which they are registered, and the functions they stand for.\<close>

definition enabled_helpers :: "helper_groups \<Rightarrow> agent_config \<Rightarrow> (nat \<times> string \<times> nat) list" where
  "enabled_helpers gs config = (if ac_kernel_group config then raw_helpers (hg_kernel gs) else []) @
     (if ac_ufunc_group config then raw_helpers (hg_ufunc gs) else []) @ (if ac_shm_maps_group config then raw_helpers (hg_shm_maps gs) else [])"

definition enabled_fn :: "(string \<Rightarrow> nat) \<Rightarrow> helper_group \<Rightarrow> agent_config \<Rightarrow> nat \<rightharpoonup> nat" where
  "enabled_fn addr ufunc config = (if ac_kernel_group config then helper_fn addr kernel_utils_helpers else Map.empty) ++
     (if ac_ufunc_group config then map_option hi_fn \<circ> map_of ufunc else Map.empty) ++
     (if ac_shm_maps_group config then helper_fn addr shm_maps_helpers else Map.empty)"

definition runtime_groups :: "(string \<Rightarrow> nat) \<Rightarrow> helper_group \<Rightarrow> helper_groups" where
  "runtime_groups addr ufunc = \<lparr>hg_kernel = helper_group_of addr kernel_utils_helpers, hg_ufunc = ufunc,
     hg_shm_maps = helper_group_of addr shm_maps_helpers\<rparr>"

lemma helpers_of_Nil: "helpers_of [] = Map.empty"
  by (simp add: helpers_of_def)

lemma helpers_of_enabled:
  assumes "group_ok ufunc"
  shows "helpers_of (enabled_helpers (runtime_groups addr ufunc) config) = enabled_fn addr ufunc config"
  using helpers_of_group [OF assms]
  by (simp add: enabled_helpers_def enabled_fn_def runtime_groups_def helpers_of_append helpers_of_helper_group helpers_of_Nil)

lemma enabled_helpers_length:
  assumes "length ufunc \<le> 32"
  shows "length (enabled_helpers (runtime_groups addr ufunc) config) < 64"
proof -
  have "length (kernel_utils_helpers) = 28" "length shm_maps_helpers = 3"
    by (simp_all add: kernel_utils_helpers_def shm_maps_helpers_def)
  with helper_group_of_length [of addr kernel_utils_helpers] helper_group_of_length [of addr shm_maps_helpers] assms
  show ?thesis by (simp add: enabled_helpers_def runtime_groups_def raw_helpers_def)
qed

lemma load_prog_and_helpers_ubpf:
  "load_prog_and_helpers (ubpf_impl lib) gs config p =
    bpftime_prog_load (ubpf_impl lib) (ac_jit_enabled config) (p\<lparr>pr_vm := register_all lib (enabled_helpers gs config) (pr_vm p)\<rparr>)"
  by (simp add: load_prog_and_helpers_def enabled_helpers_def add_helper_group_ubpf register_all_append)

text \<open>What loading leaves of the library, once it has seen the program: nothing more after an error, for the GPU and in the interpreter; otherwise the
  program is compiled at once.\<close>

definition after_library :: "('l, 'w) ubpf_lib \<Rightarrow> bool \<Rightarrow> int \<times> 'l \<Rightarrow> int \<times> 'l" where
  "after_library lib compiles = (\<lambda>(err, l). if err < 0 then (err, l) else if compiles
     then (case ul_compile lib l of (f, l) \<Rightarrow> (if f = None then - 1 else 0, l)) else (0, l))"

lemma prog_load_ubpf:
  assumes "bpftime_prog_load (ubpf_impl lib) jit p = (r, p')" "length (pr_insns p) * 8 < 2 ^ 32"
  shows "(r, uv_lib (pr_vm p')) = after_library lib (jit \<and> \<not> is_cuda p)
    (fst (load_code lib (pr_insns p) (8 * length (pr_insns p)) (pr_vm p)), uv_lib (snd (load_code lib (pr_insns p) (8 * length (pr_insns p)) (pr_vm p))))"
  using assms by (auto simp: bpftime_prog_load_def ubpf_impl_def after_library_def is_cuda_def split_def Let_def mult.commute
    split: if_splits option.splits)

text \<open>C29. Helpers reach their functions, with the uBPF back end: a program is created and loaded with the groups the configuration enables, of the kernel's
  helpers, of the user functions (any table of at most 32) and of the maps. When every call names a helper of these groups and every 64-bit load can be
  resolved, the library, with exactly these helpers registered and nothing else done to it, is given a program that calls the functions of the groups
  and is otherwise the same; the outcome is then the library's own: its error code when it refuses this program, -1 when it is asked to compile it and
  cannot, and 0 otherwise. Any other program is refused with -22 and the library does not see it.\<close>

theorem runtime_helpers_resolve:
  assumes "library_registers lib table"
    and "bpftime_prog_new (ubpf_impl lib) (register_vm_factory ''ubpf'' (ubpf_vm_new lib) factories) ''ubpf'' map_by_fd map_val insns nm = Inr p"
    and "length insns * 8 < 2 ^ 32" "group_ok ufunc" "length ufunc \<le> 32"
    and "load_prog_and_helpers (ubpf_impl lib) (runtime_groups addr ufunc) config p = (r, p')"
    and "l = uv_lib (register_all lib (enabled_helpers (runtime_groups addr ufunc) config) (pr_vm p))"
  shows "case source_meaning (enabled_fn addr ufunc config) (pr_vm p) insns of
      None \<Rightarrow> r = - 22 \<and> uv_lib (pr_vm p') = l
    | Some ms \<Rightarrow> (\<exists>code'. library_meaning (table l) code' = Some ms \<and>
        (r, uv_lib (pr_vm p')) = after_library lib (ac_jit_enabled config \<and> \<not> is_cuda p) (ul_load lib code' l))"
proof -
  let ?rs = "enabled_helpers (runtime_groups addr ufunc) config"
  let ?vm = "register_all lib ?rs (pr_vm p)"
  obtain vm0 where vm0: "ubpf_vm_new lib = Inr vm0" and p: "p = \<lparr>pr_name = nm, pr_insns = insns,
      pr_vm = set_lddw_helpers (Some map_by_fd) None (Some map_val) None None vm0, pr_jitted = None, pr_fn = None\<rparr>"
    using assms(2) by (auto simp: bpftime_prog_new_def create_vm_instance_def register_vm_factory_def ubpf_impl_def bindr_eq_Inr)
  have agr: "agrees (uv_helper_ids ?vm) (table (uv_lib ?vm)) (enabled_fn addr ufunc config)"
    using new_machine_agrees [OF assms(1) vm0 enabled_helpers_length [OF assms(5), of addr config] refl]
      p helpers_of_enabled [OF assms(4), of addr config] by auto
  have ld: "(r, uv_lib (pr_vm p')) = after_library lib (ac_jit_enabled config \<and> \<not> is_cuda p)
    (fst (load_code lib insns (8 * length insns) ?vm), uv_lib (snd (load_code lib insns (8 * length insns) ?vm)))"
    using prog_load_ubpf [OF assms(6) [unfolded load_prog_and_helpers_ubpf]] assms(3) p by (simp add: is_cuda_def)
  show ?thesis
  proof (cases "source_meaning (enabled_fn addr ufunc config) (pr_vm p) insns")
    case None
    with load_code_meaning [OF agr, of lib insns] ld assms(7) show ?thesis by (simp add: after_library_def)
  next
    case (Some ms)
    with load_code_meaning [OF agr, of lib insns] obtain code' where "library_meaning (table (uv_lib ?vm)) code' = Some ms"
      "(fst (load_code lib insns (8 * length insns) ?vm), uv_lib (snd (load_code lib insns (8 * length insns) ?vm))) = ul_load lib code' (uv_lib ?vm)"
      by (auto simp: prod_eq_iff)
    with Some ld assms(7) show ?thesis by auto
  qed
qed

text \<open>A call of the helper 1 under the default configuration without the compiler, and of a helper that no group has.\<close>

definition demo_loaded :: "insn list \<Rightarrow> int \<times> insn list" where
  "demo_loaded insns = (case bpftime_prog_new (ubpf_impl table_lib) (register_vm_factory ''ubpf'' (ubpf_vm_new table_lib) Map.empty) ''ubpf''
       (\<lambda>fd. ucast fd) id insns ''p'' of
     Inr p \<Rightarrow> (case load_prog_and_helpers (ubpf_impl table_lib) (runtime_groups length []) (agent_config_new\<lparr>ac_jit_enabled := False\<rparr>) p of
         (r, p') \<Rightarrow> (r, snd (uv_lib (pr_vm p'))))
   | Inl e \<Rightarrow> (- 1000, []))"

theorem runtime_helpers_resolve_witness:
  "(\<exists>(p :: ((nat \<rightharpoonup> nat) \<times> insn list) ubpf_vm prog) l code'. library_meaning (fst l) code' = Some [CallTo (insn_call 0) (length ''bpftime_map_lookup_elem_helper'')] \<and>
     l = uv_lib (register_all table_lib (enabled_helpers (runtime_groups length []) (agent_config_new\<lparr>ac_jit_enabled := False\<rparr>)) (pr_vm p)) \<and>
     demo_loaded [insn_call 1] = (0, code')) \<and> fst (demo_loaded [insn_call 900]) = - 22"
proof (rule conjI)
  let ?c = "agent_config_new\<lparr>ac_jit_enabled := False\<rparr>"
  let ?ms = "[CallTo (insn_call 0) (length ''bpftime_map_lookup_elem_helper'')]"
  have g: "group_ok []" by (simp add: group_ok_def)
  have c: "ac_kernel_group ?c" "\<not> ac_jit_enabled ?c" "ac_shm_maps_group ?c"
    by (simp_all add: agent_config_new_def config_default_def)
  have run: "\<exists>p r p'. bpftime_prog_new (ubpf_impl table_lib) (register_vm_factory ''ubpf'' (ubpf_vm_new table_lib) Map.empty) ''ubpf''
      (\<lambda>fd. ucast fd) id insns ''p'' = Inr p \<and> load_prog_and_helpers (ubpf_impl table_lib) (runtime_groups length []) ?c p = (r, p') \<and>
      demo_loaded insns = (r, snd (uv_lib (pr_vm p')))" for insns
    by (auto simp: demo_loaded_def bpftime_prog_new_def create_vm_instance_def register_vm_factory_def ubpf_vm_new_def table_lib_def split: prod.split)
  show "\<exists>(p :: ((nat \<rightharpoonup> nat) \<times> insn list) ubpf_vm prog) l code'. library_meaning (fst l) code' = Some ?ms \<and>
     l = uv_lib (register_all table_lib (enabled_helpers (runtime_groups length []) ?c) (pr_vm p)) \<and> demo_loaded [insn_call 1] = (0, code')"
  proof -
    obtain p r p' where p: "bpftime_prog_new (ubpf_impl table_lib) (register_vm_factory ''ubpf'' (ubpf_vm_new table_lib) Map.empty) ''ubpf''
        (\<lambda>fd. ucast fd) id [insn_call 1] ''p'' = Inr p" "load_prog_and_helpers (ubpf_impl table_lib) (runtime_groups length []) ?c p = (r, p')"
      "demo_loaded [insn_call 1] = (r, snd (uv_lib (pr_vm p')))" using run by blast
    have m: "source_meaning (enabled_fn length [] ?c) (pr_vm p) [insn_call 1] = Some ?ms"
      using c by (simp add: enabled_fn_def insn_call_def helper_key_def helper_fn_def kernel_utils_helpers_def shm_maps_helpers_def map_add_def opcode_defs)
    from runtime_helpers_resolve [OF table_lib_registers p(1) _ g _ p(2) refl] m c obtain code' where
      "library_meaning (fst (uv_lib (register_all table_lib (enabled_helpers (runtime_groups length []) ?c) (pr_vm p)))) code' = Some ?ms"
      "r = 0" "snd (uv_lib (pr_vm p')) = code'" by (auto simp: table_lib_def after_library_def)
    with p(3) show ?thesis by blast
  qed
  obtain p r p' where p: "bpftime_prog_new (ubpf_impl table_lib) (register_vm_factory ''ubpf'' (ubpf_vm_new table_lib) Map.empty) ''ubpf''
      (\<lambda>fd. ucast fd) id [insn_call 900] ''p'' = Inr p" "load_prog_and_helpers (ubpf_impl table_lib) (runtime_groups length []) ?c p = (r, p')"
    "demo_loaded [insn_call 900] = (r, snd (uv_lib (pr_vm p')))" using run by blast
  have m: "source_meaning (enabled_fn length [] ?c) (pr_vm p) [insn_call 900] = None"
    by (simp add: enabled_fn_def insn_call_def helper_key_def helper_fn_def kernel_utils_helpers_def shm_maps_helpers_def map_add_def opcode_defs)
  from runtime_helpers_resolve [OF table_lib_registers p(1) _ g _ p(2) refl] m p(3) show "fst (demo_loaded [insn_call 900]) = - 22" by simp
qed

end
