(* ===== verification/Attach_Ctx.thy ===== *)
theory Attach_Ctx
  imports Bpftime_Prog Syscall_Trace Gpu_Channel Shm_Life
begin

text \<open>
  The attach context of an agent process (src/attach/bpf_attach_ctx.cpp, include/bpf_attach_ctx.hpp): it
  walks the table of handlers in shared memory, creates and loads a program for every program handler,
  parses the attach points of perf events, and hands a callback that runs the program to the attach
  implementation for every link. Programs are owned by the context and callbacks hold plain pointers to
  them, so programs live in an explicit heap here. The theory shows, for every attach implementation that
  keeps the contract of the theory Attach_Interface, that links and attach entries stay in one-to-one
  correspondence and that no callback ever runs a program that was destroyed or not loaded; and what the
  walk over the table attaches.
\<close>

section \<open>State\<close>

text \<open>What is handed to an attach implementation: a callback that stores the cookie of the link and runs a
  program, or the empty callback of a program that runs on the GPU.\<close>

datatype attach_callback = RunProg nat "u64 option" | NvStub

text \<open>The members of the context. Programs are addresses in the heap, attach implementations are indices
  into the list of their owners, and a pointer of a link may be null.\<close>

record ('v, 'p, 's) attach_ctx =
  cx_helpers :: "(int \<times> helper_info) list"
  cx_heap :: "nat \<rightharpoonup> 'v prog"
  cx_next :: nat
  cx_progs :: "(int \<times> nat) list"
  cx_links :: "(int \<times> (int \<times> nat option)) list"
  cx_perfs :: "(int \<times> ('p option \<times> int)) list"
  cx_impls :: "(int \<times> (nat \<times> (string \<Rightarrow> 'p res))) list"
  cx_holders :: "'s list"
  cx_done :: "int set"

definition attach_ctx_new :: "('v, 'p, 's) attach_ctx" where
  "attach_ctx_new = \<lparr>cx_helpers = [], cx_heap = Map.empty, cx_next = 0, cx_progs = [], cx_links = [], cx_perfs = [],
     cx_impls = [], cx_holders = [], cx_done = {}\<rparr>"

record map_basic_info =
  mb_enabled :: bool
  mb_key_size :: int
  mb_value_size :: int
  mb_max_entries :: int

text \<open>What the context calls: the virtual machine and its factories, the two map functions, the helper groups,
  the attach implementations (one type of state for all of them), whether private data is of the class of the
  GPU implementation, and the assignment of the members the context sets in it.\<close>

record ('v, 'w, 'p, 's) attach_env =
  ae_vm :: "('v, 'w) vm_impl"
  ae_factories :: "string \<rightharpoonup> 'v res"
  ae_vm_name :: string
  ae_map_by_fd :: "u32 \<Rightarrow> u64"
  ae_map_val :: "u64 \<Rightarrow> u64"
  ae_groups :: helper_groups
  ae_create :: "attach_callback \<times> 'p \<times> int \<Rightarrow> 's \<Rightarrow> int res \<times> 's"
  ae_detach :: "int \<Rightarrow> 's \<Rightarrow> unit res \<times> 's"
  ae_is_nv :: "'p \<Rightarrow> bool"
  ae_set_nv :: "insn list \<Rightarrow> map_basic_info list \<Rightarrow> 'p \<Rightarrow> 'p"

section \<open>Operations\<close>

text \<open>The table of maps for the device. An entry is referenced before its index is checked.\<close>

fun map_info_loop :: "'w map_env \<Rightarrow> nat \<Rightarrow> handler list \<Rightarrow> map_basic_info list \<Rightarrow> map_basic_info list res" where
  "map_info_loop me i [] infos = Inr infos"
| "map_info_loop me i (MapH m # hs) infos =
     (if length infos \<le> i then Inl Fault
      else map_info_loop me (Suc i) hs (infos[i := \<lparr>mb_enabled = True, mb_key_size = sint (mh_key_size m),
        mb_value_size = sint (get_value_size me m), mb_max_entries = sint (mh_max_entries m)\<rparr>]))"
| "map_info_loop me i (h # hs) infos = map_info_loop me (Suc i) hs infos"

definition create_map_basic_info :: "'w map_env \<Rightarrow> 'w manager \<Rightarrow> nat \<Rightarrow> map_basic_info list res" where
  "create_map_basic_info me mg filled_size = map_info_loop me 0 (mg_handlers mg)
     (replicate filled_size \<lparr>mb_enabled = False, mb_key_size = 0, mb_value_size = 0, mb_max_entries = 0\<rparr>)"

definition register_attach_impl ::
  "int list \<Rightarrow> 's \<Rightarrow> helper_info list \<Rightarrow> (string \<Rightarrow> 'p res) \<Rightarrow> ('v, 'p, 's) attach_ctx \<Rightarrow> ('v, 'p, 's) attach_ctx" where
  "register_attach_impl attach_types impl custom_helpers private_data_creator cx =
     (let cx = cx\<lparr>cx_helpers := fold (\<lambda>info hs. omap_put (sint (of_nat (hi_index info) :: u32)) info hs) custom_helpers (cx_helpers cx)\<rparr>;
          impl_ptr = length (cx_holders cx);
          cx = cx\<lparr>cx_holders := cx_holders cx @ [impl]\<rparr>
      in cx\<lparr>cx_impls := fold (\<lambda>ty ps. omap_put ty (impl_ptr, private_data_creator) ps) attach_types (cx_impls cx)\<rparr>)"

text \<open>Results are the numbers the functions return; \<open>Inl\<close> is left for exceptions and undefined behaviour.\<close>

definition returned :: "int res \<Rightarrow> int res" where
  "returned r = (case c_result r of Some n \<Rightarrow> Inr n | None \<Rightarrow> (case r of Inl e \<Rightarrow> Inl e | Inr n \<Rightarrow> Inr n))"

text \<open>Storing a new program destroys the one that was stored under the number before.\<close>

definition store_prog :: "int \<Rightarrow> 'v prog \<Rightarrow> ('v, 'p, 's) attach_ctx \<Rightarrow> nat \<times> ('v, 'p, 's) attach_ctx" where
  "store_prog hid p cx =
     (let a = cx_next cx;
          h = (case map_of (cx_progs cx) hid of None \<Rightarrow> cx_heap cx | Some old \<Rightarrow> (cx_heap cx)(old := None))
      in (a, cx\<lparr>cx_heap := h(a \<mapsto> p), cx_next := Suc a, cx_progs := omap_put hid a (cx_progs cx)\<rparr>))"

definition instantiate_prog_handler_at ::
  "('v, 'w, 'p, 's) attach_env \<Rightarrow> int \<Rightarrow> prog_handler \<Rightarrow> agent_config \<Rightarrow> ('v, 'p, 's) attach_ctx \<Rightarrow>
     int res \<times> ('v, 'p, 's) attach_ctx" where
  "instantiate_prog_handler_at env hid h config cx =
     (case bpftime_prog_new (ae_vm env) (ae_factories env) (ae_vm_name env) (ae_map_by_fd env) (ae_map_val env)
             (map insn_of_word (pg_insns h)) (pg_name h) of
        Inl e \<Rightarrow> (Inl e, cx)
      | Inr p \<Rightarrow>
          let (a, cx) = store_prog hid p cx;
              (err, p) = load_prog_and_helpers (ae_vm env) (ae_groups env) config p;
              cx = cx\<lparr>cx_heap := (cx_heap cx)(a \<mapsto> p)\<rparr>
          in if err < 0 then (Inr err, cx)
             else let p = fold (\<lambda>e p. snd (bpftime_prog_register_raw_helper (ae_vm env) (snd e) p)) (cx_helpers cx) p
               in (Inr 0, cx\<lparr>cx_heap := (cx_heap cx)(a \<mapsto> p), cx_done := insert hid (cx_done cx)\<rparr>))"

text \<open>\<^verbatim>\<open>create_attach_with_ebpf_callback\<close> of the implementation \<open>k\<close>, and what a link does with the result.\<close>

definition create_attach ::
  "('v, 'w, 'p, 's) attach_env \<Rightarrow> int \<Rightarrow> nat \<Rightarrow> attach_callback \<Rightarrow> 'p option \<Rightarrow> int \<Rightarrow> ('v, 'p, 's) attach_ctx \<Rightarrow>
     int res \<times> ('v, 'p, 's) attach_ctx" where
  "create_attach env hid k cb priv attach_type cx = (case priv of None \<Rightarrow> (Inl Fault, cx) | Some d \<Rightarrow>
     if length (cx_holders cx) \<le> k then (Inl Fault, cx)
     else let (r, s) = ae_create env (cb, d, attach_type) (cx_holders cx ! k);
              cx = cx\<lparr>cx_holders := (cx_holders cx)[k := s]\<rparr>
       in case returned r of Inl e \<Rightarrow> (Inl e, cx)
          | Inr attach_id \<Rightarrow>
              if attach_id < 0 then (Inr attach_id, cx)
              else (Inr 0, cx\<lparr>cx_links := omap_put hid (attach_id, Some k) (cx_links cx), cx_done := insert hid (cx_done cx)\<rparr>))"

text \<open>\<open>infos\<close> is the table of maps made from the global shared memory. \<^verbatim>\<open>operator[]\<close> adds an empty entry for a
  target that has none.\<close>

definition instantiate_bpf_link_handler_at ::
  "('v, 'w, 'p, 's) attach_env \<Rightarrow> map_basic_info list res \<Rightarrow> int \<Rightarrow> link_handler \<Rightarrow> bool \<Rightarrow> ('v, 'p, 's) attach_ctx \<Rightarrow>
     int res \<times> ('v, 'p, 's) attach_ctx" where
  "instantiate_bpf_link_handler_at env infos hid h handle_nv cx =
     (let t = lk_attach_target_id h;
          (priv, attach_type) = (case map_of (cx_perfs cx) t of None \<Rightarrow> (None, 0) | Some e \<Rightarrow> e);
          cx = cx\<lparr>cx_perfs := omap_put t (priv, attach_type) (cx_perfs cx)\<rparr>
      in case map_of (cx_impls cx) attach_type of None \<Rightarrow> (Inr (neg_errno ENOTSUP), cx)
       | Some (k, _) \<Rightarrow> (case map_of (cx_progs cx) (lk_prog_id h) of None \<Rightarrow> (Inl Throw, cx)
         | Some a \<Rightarrow> (case cx_heap cx a of None \<Rightarrow> (Inl Fault, cx)
           | Some p \<Rightarrow>
               if is_cuda p then
                 (if handle_nv then
                    (case priv of None \<Rightarrow> (Inl Fault, cx) | Some d \<Rightarrow>
                      if \<not> ae_is_nv env d then (Inl Throw, cx)
                      else (case infos of Inl e \<Rightarrow> (Inl e, cx) | Inr l \<Rightarrow>
                        let d = ae_set_nv env (pr_insns p) l d
                        in create_attach env hid k NvStub (Some d) attach_type
                             (cx\<lparr>cx_perfs := omap_put t (Some d, attach_type) (cx_perfs cx)\<rparr>)))
                  else (Inr 0, cx))
               else create_attach env hid k (RunProg a (lk_attach_cookie h)) priv attach_type cx)))"

text \<open>The argument of an attach point as text, from the data of a perf event; data of another kind than the type
  of the event throws.\<close>

definition attach_argument :: "perf_handler \<Rightarrow> string res" where
  "attach_argument h =
     (if pf_type h = BPF_TYPE_UPROBE_OVERRIDE \<or> pf_type h = BPF_TYPE_UPROBE \<or> pf_type h = BPF_TYPE_URETPROBE \<or>
         pf_type h = BPF_TYPE_UREPLACE
      then (case pf_data h of Uprobe off pid ref nm \<Rightarrow> Inr (nm @ [CHR '':''] @ dec (unat off)) | _ \<Rightarrow> Inl Throw)
      else if pf_type h = PERF_TYPE_TRACEPOINT
      then (case pf_data h of Tracepoint pid tp \<Rightarrow> Inr (dec_int tp) | _ \<Rightarrow> Inl Throw)
      else if pf_type h = BPF_TYPE_KPROBE \<or> pf_type h = BPF_TYPE_KRETPROBE
      then (case pf_data h of Kprobe nm addr ref \<Rightarrow> Inr nm | _ \<Rightarrow> Inl Throw)
      else (case pf_data h of Custom arg \<Rightarrow> Inr arg | _ \<Rightarrow> Inl Throw))"

definition instantiate_perf_event_handler_at ::
  "int \<Rightarrow> perf_handler \<Rightarrow> ('v, 'p, 's) attach_ctx \<Rightarrow> int res \<times> ('v, 'p, 's) attach_ctx" where
  "instantiate_perf_event_handler_at hid h cx =
     (if pf_type h = PERF_TYPE_SOFTWARE then (Inr 0, cx)
      else (case map_of (cx_impls cx) (pf_type h) of None \<Rightarrow> (Inr (neg_errno ENOENT), cx)
        | Some (k, private_data_gen) \<Rightarrow>
            (case bindr (attach_argument h) private_data_gen of
               Inl e \<Rightarrow> (returned (Inl e), cx)
             | Inr d \<Rightarrow> (Inr 0, cx\<lparr>cx_done := insert hid (cx_done cx),
                 cx_perfs := omap_put hid (Some d, pf_type h) (cx_perfs cx)\<rparr>))))"

text \<open>\<open>if (int err = first; err < 0) return err; rest\<close>.\<close>

definition ok_then :: "int res \<times> 's \<Rightarrow> ('s \<Rightarrow> int res \<times> 's) \<Rightarrow> int res \<times> 's" where
  "ok_then rs f = (case rs of (Inl e, s) \<Rightarrow> (Inl e, s) | (Inr n, s) \<Rightarrow> if n < 0 then (Inr n, s) else f s)"

lemma ok_then_cong [fundef_cong]:
  "rs = rs' \<Longrightarrow> (\<And>n s. rs' = (Inr n, s) \<Longrightarrow> 0 \<le> n \<Longrightarrow> f s = g s) \<Longrightarrow> ok_then rs f = ok_then rs' g"
  by (auto simp: ok_then_def split: prod.split sum.split)

text \<open>\<open>stk\<close> is the set of handlers the walk is in; it is restored on success, and after a failure every caller
  returns too. The walk goes deeper only at a link, which is inside the table.\<close>

function instantiate_handler_at ::
  "('v, 'w, 'p, 's) attach_env \<Rightarrow> map_basic_info list res \<Rightarrow> 'm manager \<Rightarrow> agent_config \<Rightarrow> bool \<Rightarrow> int set \<Rightarrow> int \<Rightarrow>
     ('v, 'p, 's) attach_ctx \<Rightarrow> int res \<times> ('v, 'p, 's) attach_ctx" where
  "instantiate_handler_at env infos mg config nv stk hid cx =
     (if hid \<in> cx_done cx then (Inr 0, cx)
      else if hid \<in> stk then (Inr (- 1), cx)
      else (case get_handler mg hid of
          Inl e \<Rightarrow> (Inl e, cx)
        | Inr (ProgH h) \<Rightarrow> ok_then (instantiate_prog_handler_at env hid h config cx) (\<lambda>cx. (Inr 0, cx))
        | Inr (PerfH h) \<Rightarrow> ok_then (instantiate_perf_event_handler_at hid h cx) (\<lambda>cx. (Inr 0, cx))
        | Inr (LinkH h) \<Rightarrow>
            ok_then (instantiate_handler_at env infos mg config nv (insert hid stk) (lk_prog_id h) cx) (\<lambda>cx.
            ok_then (instantiate_handler_at env infos mg config nv (insert hid stk) (lk_attach_target_id h) cx) (\<lambda>cx.
            ok_then (instantiate_bpf_link_handler_at env infos hid h nv cx) (\<lambda>cx. (Inr 0, cx))))
        | Inr _ \<Rightarrow> (Inr 0, cx)))"
  by pat_completeness auto

text \<open>The handlers of the table that are not in the walk.\<close>

definition unvisited :: "'m manager \<Rightarrow> int set \<Rightarrow> int set" where
  "unvisited mg stk = {hid. in_range mg hid} - stk"

lemma unvisited_decreases:
  assumes "get_handler mg hid = Inr h" "hid \<notin> stk"
  shows "card (unvisited mg (insert hid stk)) < card (unvisited mg stk)"
proof (rule psubset_card_mono)
  have "{hid. in_range mg hid} \<subseteq> {0..<int (length (mg_handlers mg))}" by (auto simp: in_range_def)
  then show "finite (unvisited mg stk)" unfolding unvisited_def using finite_subset by blast
  show "unvisited mg (insert hid stk) \<subset> unvisited mg stk"
    using assms by (auto simp: unvisited_def get_handler_def split: if_splits)
qed

termination instantiate_handler_at
  by (relation "measure (\<lambda>(env, infos, mg, config, nv, stk, hid, cx). card (unvisited mg stk))")
    (auto simp: unvisited_decreases)

declare instantiate_handler_at.simps [simp del]

text \<open>A pass over the table; a handler that fails is skipped, an exception ends the pass.\<close>

fun init_pass ::
  "('v, 'w, 'p, 's) attach_env \<Rightarrow> map_basic_info list res \<Rightarrow> 'm manager \<Rightarrow> agent_config \<Rightarrow> bool \<Rightarrow> nat list \<Rightarrow>
     ('v, 'p, 's) attach_ctx \<Rightarrow> unit res \<times> ('v, 'p, 's) attach_ctx" where
  "init_pass env infos mg config nv [] cx = (Inr (), cx)"
| "init_pass env infos mg config nv (i # is) cx =
     (if is_allocated mg (int i) then
        (case instantiate_handler_at env infos mg config nv {} (int i) cx of
           (Inl e, cx) \<Rightarrow> (Inl e, cx)
         | (Inr _, cx) \<Rightarrow> init_pass env infos mg config nv is cx)
      else init_pass env infos mg config nv is cx)"

definition init_attach_ctx_from_handlers ::
  "('v, 'w, 'p, 's) attach_env \<Rightarrow> map_basic_info list res \<Rightarrow> 'm manager \<Rightarrow> agent_config \<Rightarrow>
     ('v, 'p, 's) attach_ctx \<Rightarrow> int res \<times> ('v, 'p, 's) attach_ctx" where
  "init_attach_ctx_from_handlers env infos mg config cx =
     (case init_pass env infos mg config False [0..<length (mg_handlers mg)] cx of
        (Inl e, cx) \<Rightarrow> (Inl e, cx)
      | (Inr _, cx) \<Rightarrow> (case init_pass env infos mg config True [0..<length (mg_handlers mg)] cx of
          (Inl e, cx) \<Rightarrow> (Inl e, cx)
        | (Inr _, cx) \<Rightarrow> (Inr 0, cx)))"

text \<open>The variant without a manager takes the one of the global shared memory.\<close>

definition init_attach_ctx_from_shm ::
  "('v, 'w, 'p, 's) attach_env \<Rightarrow> 'm map_env \<Rightarrow> 'm shm \<Rightarrow> agent_config \<Rightarrow> ('v, 'p, 's) attach_ctx \<Rightarrow>
     int res \<times> ('v, 'p, 's) attach_ctx" where
  "init_attach_ctx_from_shm env me s config cx = (case sh_manager s of None \<Rightarrow> (Inr (- 1), cx)
     | Some mg \<Rightarrow> init_attach_ctx_from_handlers env (create_map_basic_info me mg 256) mg config cx)"

definition destroy_instantiated_attach_link ::
  "('v, 'w, 'p, 's) attach_env \<Rightarrow> int \<Rightarrow> ('v, 'p, 's) attach_ctx \<Rightarrow> int res \<times> ('v, 'p, 's) attach_ctx" where
  "destroy_instantiated_attach_link env link_id cx = (case map_of (cx_links cx) link_id of
       None \<Rightarrow> (Inr (neg_errno ENOENT), cx)
     | Some (attach_id, None) \<Rightarrow> (Inr 0, cx)
     | Some (attach_id, Some k) \<Rightarrow>
         if length (cx_holders cx) \<le> k then (Inl Fault, cx)
         else let (r, s) = ae_detach env attach_id (cx_holders cx ! k);
                  cx = cx\<lparr>cx_holders := (cx_holders cx)[k := s]\<rparr>
           in ok_then (returned (map_sum id (\<lambda>_. 0) r), cx) (\<lambda>cx. (Inr 0, cx\<lparr>cx_links := omap_del link_id (cx_links cx)\<rparr>)))"

fun destroy_loop ::
  "('v, 'w, 'p, 's) attach_env \<Rightarrow> int list \<Rightarrow> ('v, 'p, 's) attach_ctx \<Rightarrow> int res \<times> ('v, 'p, 's) attach_ctx" where
  "destroy_loop env [] cx = (Inr 0, cx)"
| "destroy_loop env (k # to_detach) cx = ok_then (destroy_instantiated_attach_link env k cx) (destroy_loop env to_detach)"

definition destroy_all_attach_links ::
  "('v, 'w, 'p, 's) attach_env \<Rightarrow> ('v, 'p, 's) attach_ctx \<Rightarrow> int res \<times> ('v, 'p, 's) attach_ctx" where
  "destroy_all_attach_links env cx = destroy_loop env (map fst (cx_links cx)) cx"

text \<open>A callback as an attach implementation runs it: the cookie of the thread is set, then the program runs.\<close>

definition run_attach_callback ::
  "('v, 'w, 'p, 's) attach_env \<Rightarrow> (nat \<Rightarrow> bytes \<Rightarrow> 'w \<Rightarrow> u64 \<times> 'w) \<Rightarrow> (u64 option \<Rightarrow> 'w \<Rightarrow> 'w) \<Rightarrow> ('v, 'p, 's) attach_ctx \<Rightarrow>
     attach_callback \<Rightarrow> bytes \<Rightarrow> u64 \<times> 'w \<Rightarrow> (int \<times> u64 \<times> 'w) res" where
  "run_attach_callback env call set_cookie cx cb mem st = (case (cb, st) of
       (NvStub, (ret, w)) \<Rightarrow> Inr (0, ret, w)
     | (RunProg a cookie, (ret, w)) \<Rightarrow> bindr (or_fault (cx_heap cx a)) (\<lambda>p.
         bpftime_prog_exec (ae_vm env) call p mem (set_cookie cookie w)))"

section \<open>Invariant\<close>

text \<open>A program that can be run: its mode is set, and its function when it was compiled.\<close>

definition runnable :: "'v prog \<Rightarrow> bool" where
  "runnable p \<longleftrightarrow> \<not> is_cuda p \<and> (pr_jitted p = Some False \<or> pr_jitted p = Some True \<and> pr_fn p \<noteq> None)"

definition one_to_one :: "('k \<rightharpoonup> 'x) \<Rightarrow> bool" where
  "one_to_one m \<longleftrightarrow> (\<forall>i j a. m i = Some a \<longrightarrow> m j = Some a \<longrightarrow> i = j)"

lemma one_to_oneD: "one_to_one m \<Longrightarrow> m i = Some a \<Longrightarrow> m j = Some a \<Longrightarrow> i = j"
  by (auto simp: one_to_one_def)

lemma one_to_one_put: "one_to_one m \<Longrightarrow> a \<notin> ran m \<Longrightarrow> one_to_one (m(i \<mapsto> a))"
  by (auto simp: one_to_one_def ran_def)

lemma one_to_one_drop: "one_to_one m \<Longrightarrow> one_to_one (m(i := None))"
  by (auto simp: one_to_one_def)

lemma one_to_one_ran_drop: "one_to_one m \<Longrightarrow> m i = Some a \<Longrightarrow> ran (m(i := None)) = ran m - {a}"
  unfolding one_to_one_def ran_def by (rule set_eqI) (auto, metis option.inject)

text \<open>A program as the context makes it from a handler: created, loaded, and given the helpers of attach
  implementations.\<close>

definition built :: "('v, 'w, 'p, 's) attach_env \<Rightarrow> prog_handler \<Rightarrow> 'v prog \<Rightarrow> bool" where
  "built env h p \<longleftrightarrow> (\<exists>(config :: agent_config) (hs :: (int \<times> helper_info) list) p0 r p1.
     bpftime_prog_new (ae_vm env) (ae_factories env) (ae_vm_name env) (ae_map_by_fd env) (ae_map_val env)
       (map insn_of_word (pg_insns h)) (pg_name h) = Inr p0 \<and>
     load_prog_and_helpers (ae_vm env) (ae_groups env) config p0 = (r, p1) \<and> 0 \<le> r \<and>
     p = fold (\<lambda>e p. snd (bpftime_prog_register_raw_helper (ae_vm env) (snd e) p)) hs p1)"

text \<open>Every number of a program is the one of a program handler and has a program of its own in the heap, which
  was made from that handler when it is marked as instantiated.\<close>

definition progs_ok :: "('v, 'w, 'p, 's) attach_env \<Rightarrow> 'm manager \<Rightarrow> ('v, 'p, 's) attach_ctx \<Rightarrow> bool" where
  "progs_ok env mg cx \<longleftrightarrow> one_to_one (map_of (cx_progs cx)) \<and>
     (\<forall>hid a. map_of (cx_progs cx) hid = Some a \<longrightarrow> a < cx_next cx \<and>
        (\<exists>p h. cx_heap cx a = Some p \<and> get_handler mg hid = Inr (ProgH h) \<and> (hid \<in> cx_done cx \<longrightarrow> built env h p)))"

lemma progs_okD:
  assumes "progs_ok env mg cx" "map_of (cx_progs cx) hid = Some a"
  obtains p h where "cx_heap cx a = Some p" "hid \<in> cx_done cx \<Longrightarrow> built env h p" "a < cx_next cx"
    "get_handler mg hid = Inr (ProgH h)"
  using assms unfolding progs_ok_def by meson

text \<open>Links and attach entries correspond one to one.\<close>

definition entries :: "('s \<Rightarrow> int \<rightharpoonup> attach_callback) \<Rightarrow> 's list \<Rightarrow> (int \<times> nat option) set" where
  "entries attached hs = {(i, Some k) |i k. k < length hs \<and> i \<in> dom (attached (hs ! k))}"

definition links_match :: "('s \<Rightarrow> int \<rightharpoonup> attach_callback) \<Rightarrow> ('v, 'p, 's) attach_ctx \<Rightarrow> bool" where
  "links_match attached cx \<longleftrightarrow> omap_ok (cx_links cx) \<and> dom (map_of (cx_links cx)) \<subseteq> cx_done cx \<and>
     one_to_one (map_of (cx_links cx)) \<and> ran (map_of (cx_links cx)) = entries attached (cx_holders cx)"

lemma entries_append [simp]: "attached s = Map.empty \<Longrightarrow> entries attached (hs @ [s]) = entries attached hs"
  by (auto simp: entries_def nth_append less_Suc_eq)

lemma entries_update_same: "attached s = attached (hs ! k) \<Longrightarrow> k < length hs \<Longrightarrow> entries attached (hs[k := s]) = entries attached hs"
  by (auto simp: entries_def nth_list_update)

lemma entries_update_new:
  "attached s = (attached (hs ! k))(i \<mapsto> cb) \<Longrightarrow> k < length hs \<Longrightarrow> entries attached (hs[k := s]) = insert (i, Some k) (entries attached hs)"
  by (auto simp: entries_def nth_list_update split: if_splits)

lemma entries_update_gone:
  "attached s = (attached (hs ! k))(i := None) \<Longrightarrow> k < length hs \<Longrightarrow> entries attached (hs[k := s]) = entries attached hs - {(i, Some k)}"
  by (auto simp: entries_def nth_list_update split: if_splits)

text \<open>The entry of a link runs the program of the link with the cookie of the link, or nothing when the program
  is one for the GPU.\<close>

definition links_right :: "('s \<Rightarrow> int \<rightharpoonup> attach_callback) \<Rightarrow> 'm manager \<Rightarrow> ('v, 'p, 's) attach_ctx \<Rightarrow> bool" where
  "links_right attached mg cx \<longleftrightarrow> (\<forall>hid i k. map_of (cx_links cx) hid = Some (i, Some k) \<longrightarrow>
     (\<exists>h a p. get_handler mg hid = Inr (LinkH h) \<and> lk_prog_id h \<in> cx_done cx \<and> map_of (cx_progs cx) (lk_prog_id h) = Some a \<and>
        cx_heap cx a = Some p \<and> attached (cx_holders cx ! k) i = Some (if is_cuda p then NvStub else RunProg a (lk_attach_cookie h))))"

lemma links_rightD:
  assumes "links_right attached mg cx" "map_of (cx_links cx) hid = Some (i, Some k)"
  obtains h a p where "get_handler mg hid = Inr (LinkH h)" "lk_prog_id h \<in> cx_done cx" "map_of (cx_progs cx) (lk_prog_id h) = Some a"
    "cx_heap cx a = Some p" "attached (cx_holders cx ! k) i = Some (if is_cuda p then NvStub else RunProg a (lk_attach_cookie h))"
  using assms unfolding links_right_def by meson

text \<open>What was true of a link stays true when the programs and entries it uses stay.\<close>

lemma links_right_keep:
  assumes "links_right attached mg cx" "cx_done cx \<subseteq> cx_done cx'"
    "\<And>i a. i \<in> cx_done cx \<Longrightarrow> map_of (cx_progs cx) i = Some a \<Longrightarrow> map_of (cx_progs cx') i = Some a \<and> cx_heap cx' a = cx_heap cx a"
    "\<And>hid i k. map_of (cx_links cx') hid = Some (i, Some k) \<Longrightarrow>
       map_of (cx_links cx) hid = Some (i, Some k) \<and> attached (cx_holders cx' ! k) i = attached (cx_holders cx ! k) i \<or>
       (\<exists>h a p. get_handler mg hid = Inr (LinkH h) \<and> lk_prog_id h \<in> cx_done cx \<and> map_of (cx_progs cx) (lk_prog_id h) = Some a \<and>
          cx_heap cx a = Some p \<and> attached (cx_holders cx' ! k) i = Some (if is_cuda p then NvStub else RunProg a (lk_attach_cookie h)))"
  shows "links_right attached mg cx'"
  unfolding links_right_def
proof (intro allI impI)
  fix hid i k
  assume "map_of (cx_links cx') hid = Some (i, Some k)"
  from assms(4) [OF this] obtain h a p where h: "get_handler mg hid = Inr (LinkH h)" "lk_prog_id h \<in> cx_done cx"
    "map_of (cx_progs cx) (lk_prog_id h) = Some a" "cx_heap cx a = Some p"
    "attached (cx_holders cx' ! k) i = Some (if is_cuda p then NvStub else RunProg a (lk_attach_cookie h))"
    by (metis links_rightD [OF assms(1)])
  from assms(3) [OF h(2,3)] assms(2) h
  show "\<exists>h a p. get_handler mg hid = Inr (LinkH h) \<and> lk_prog_id h \<in> cx_done cx' \<and> map_of (cx_progs cx') (lk_prog_id h) = Some a \<and>
      cx_heap cx' a = Some p \<and> attached (cx_holders cx' ! k) i = Some (if is_cuda p then NvStub else RunProg a (lk_attach_cookie h))"
    by (intro exI [of _ h] exI [of _ a] exI [of _ p]) auto
qed

definition ctx_inv ::
  "('s \<Rightarrow> bool) \<Rightarrow> ('s \<Rightarrow> int \<rightharpoonup> attach_callback) \<Rightarrow> ('v, 'w, 'p, 's) attach_env \<Rightarrow> 'm manager \<Rightarrow> ('v, 'p, 's) attach_ctx \<Rightarrow> bool" where
  "ctx_inv impl_inv attached env mg cx \<longleftrightarrow> (\<forall>s \<in> set (cx_holders cx). impl_inv s) \<and>
     (\<forall>(k, g) \<in> ran (map_of (cx_impls cx)). k < length (cx_holders cx)) \<and>
     progs_ok env mg cx \<and> links_match attached cx \<and> links_right attached mg cx"

text \<open>What every step of the walk keeps: handlers in \<open>stk\<close> are not instantiated, and what was there before stays,
  programs that were loaded included.\<close>

definition grows :: "int set \<Rightarrow> ('v, 'p, 's) attach_ctx \<Rightarrow> ('v, 'p, 's) attach_ctx \<Rightarrow> bool" where
  "grows stk cx cx' \<longleftrightarrow> cx_done cx \<subseteq> cx_done cx' \<and> stk \<inter> cx_done cx' \<subseteq> cx_done cx \<and>
     map_of (cx_links cx) \<subseteq>\<^sub>m map_of (cx_links cx') \<and> cx_impls cx' = cx_impls cx \<and> cx_helpers cx' = cx_helpers cx \<and>
     length (cx_holders cx') = length (cx_holders cx) \<and>
     (\<forall>hid \<in> cx_done cx. map_of (cx_links cx') hid = map_of (cx_links cx) hid \<and>
        map_of (cx_progs cx') hid = map_of (cx_progs cx) hid \<and> (\<forall>a. map_of (cx_progs cx) hid = Some a \<longrightarrow> cx_heap cx' a = cx_heap cx a))"

lemma grows_refl [simp]: "grows stk cx cx"
  by (simp add: grows_def)

lemma grows_trans: "grows stk cx cx1 \<Longrightarrow> grows stk cx1 cx2 \<Longrightarrow> grows stk cx cx2"
  unfolding grows_def by (auto intro: map_le_trans)

lemma grows_weaken: "grows (insert hid stk) cx cx' \<Longrightarrow> grows stk cx cx'"
  by (auto simp: grows_def)

lemma map_le_put: "f k = None \<Longrightarrow> f \<subseteq>\<^sub>m f(k \<mapsto> v)"
  by (auto simp: map_le_def)

text \<open>The machine does not change what kind of program it has.\<close>

lemma register_raw_helper_keeps [simp]:
  "pr_name (snd (bpftime_prog_register_raw_helper vi info p)) = pr_name p"
  "pr_jitted (snd (bpftime_prog_register_raw_helper vi info p)) = pr_jitted p"
  "pr_fn (snd (bpftime_prog_register_raw_helper vi info p)) = pr_fn p"
  "pr_insns (snd (bpftime_prog_register_raw_helper vi info p)) = pr_insns p"
  by (simp_all add: bpftime_prog_register_raw_helper_def split_def Let_def)

lemma register_fold_keeps [simp]:
  "pr_name (fold (\<lambda>e p. snd (bpftime_prog_register_raw_helper vi (snd e) p)) hs p) = pr_name p"
  "pr_jitted (fold (\<lambda>e p. snd (bpftime_prog_register_raw_helper vi (snd e) p)) hs p) = pr_jitted p"
  "pr_fn (fold (\<lambda>e p. snd (bpftime_prog_register_raw_helper vi (snd e) p)) hs p) = pr_fn p"
  "pr_insns (fold (\<lambda>e p. snd (bpftime_prog_register_raw_helper vi (snd e) p)) hs p) = pr_insns p"
  by (induction hs arbitrary: p) simp_all

lemma runnable_register_fold [simp]:
  "is_cuda (fold (\<lambda>e p. snd (bpftime_prog_register_raw_helper vi (snd e) p)) hs p) = is_cuda p"
  "runnable (fold (\<lambda>e p. snd (bpftime_prog_register_raw_helper vi (snd e) p)) hs p) = runnable p"
  by (simp_all add: runnable_def is_cuda_def)

lemma load_runnable:
  assumes "load_prog_and_helpers vi gs config p = (r, p')" "0 \<le> r"
  shows "is_cuda p' \<or> runnable p'"
  using assms by (auto simp: load_prog_and_helpers_def bpftime_prog_load_def runnable_def is_cuda_def split_def Let_def
      split: if_splits option.splits)

lemma built_runnable: "built env h p \<Longrightarrow> is_cuda p \<or> runnable p"
  unfolding built_def using load_runnable by fastforce

lemma is_cuda_name: "6 \<le> length nm \<Longrightarrow> drop (length nm - 6) nm = ''__cuda'' \<Longrightarrow> \<exists>u. nm = u @ ''__cuda''"
  by (metis append_take_drop_id)

lemma load_prog_fold_name [simp]: "pr_name (add_helper_group_to_prog vi g p) = pr_name p"
  by (simp add: add_helper_group_to_prog_def)

lemma built_name: "built env h p \<Longrightarrow> pr_name p = pg_name h"
proof -
  have "pr_name p1 = pr_name p0" if "load_prog_and_helpers vi gs config p0 = (r, p1)" for vi gs config r and p0 p1 :: "'a prog"
    using that load_prog_name [of vi "ac_jit_enabled config"] by (auto simp: load_prog_and_helpers_def Let_def split: if_splits) (metis snd_conv load_prog_fold_name)+
  moreover have "pr_name p0 = nm" if "bpftime_prog_new vi fs vn mf mv is nm = Inr p0" for vi fs vn mf mv "is" nm and p0 :: "'a prog"
    using that by (auto simp: bpftime_prog_new_def bindr_eq_Inr)
  ultimately show "built env h p \<Longrightarrow> pr_name p = pg_name h" unfolding built_def by fastforce
qed

lemma runnable_exec:
  assumes "runnable p"
  shows "\<exists>x. bpftime_prog_exec vi call p mem w = Inr x"
  using assms by (auto simp: runnable_def bpftime_prog_exec_def split_def Let_def)

section \<open>The operations keep the invariant\<close>

lemma returned_cases:
  obtains n where "returned r = Inr n" "r = Inr n" | n e where "returned r = Inr n" "r = Inl e" "n < 0"
  | e where "returned r = Inl e" "r = Inl e"
proof (cases r)
  case (Inl e)
  have "neg_errno x < 0" for x by (cases x) auto
  with Inl that show ?thesis by (cases e) (auto simp: returned_def)
qed (auto simp: returned_def intro: that)

lemma ok_then_cases:
  assumes "ok_then rs f = (r, s')"
  obtains e where "rs = (Inl e, s')" "r = Inl e" | n where "rs = (Inr n, s')" "r = Inr n" "n < 0"
  | n s where "rs = (Inr n, s)" "0 \<le> n" "f s = (r, s')"
  using assms by (cases rs) (auto simp: ok_then_def split: sum.splits if_splits)

lemma store_prog_heap:
  assumes "progs_ok env mg cx" "store_prog hid p cx = (a, cx1)" "map_of (cx_progs cx) i = Some b" "i \<noteq> hid"
  shows "cx_heap cx1 b = cx_heap cx b" "b < a"
proof -
  show b: "b < a" using assms(1-3) by (auto simp: progs_ok_def store_prog_def Let_def)
  have "map_of (cx_progs cx) hid \<noteq> Some b" using assms(1,3,4) by (auto simp: progs_ok_def dest: one_to_oneD)
  with b assms(2) show "cx_heap cx1 b = cx_heap cx b" by (auto simp: store_prog_def Let_def split: option.splits)
qed

lemma store_prog_state:
  assumes "store_prog hid p cx = (a, cx1)"
  shows "a = cx_next cx" "cx_next cx1 = Suc a" "map_of (cx_progs cx1) = (map_of (cx_progs cx))(hid \<mapsto> a)"
    "cx_done cx1 = cx_done cx" "cx_links cx1 = cx_links cx" "cx_impls cx1 = cx_impls cx" "cx_helpers cx1 = cx_helpers cx"
    "cx_holders cx1 = cx_holders cx" "cx_perfs cx1 = cx_perfs cx"
  using assms by (auto simp: store_prog_def Let_def)

lemma store_prog_ok:
  assumes "progs_ok env mg cx" "hid \<notin> cx_done cx" "store_prog hid p cx = (a, cx1)"
    "built env h p' \<or> hid \<notin> D" "D \<subseteq> insert hid (cx_done cx)" "get_handler mg hid = Inr (ProgH h)"
  shows "progs_ok env mg (cx1\<lparr>cx_heap := (cx_heap cx1)(a \<mapsto> p'), cx_done := D\<rparr>)"
proof -
  note st = store_prog_state [OF assms(3)]
  have "a \<notin> ran (map_of (cx_progs cx))" using assms(1) st(1) by (auto simp: progs_ok_def ran_def)
  with assms(1) st have "one_to_one (map_of (cx_progs cx1))" by (simp add: progs_ok_def one_to_one_put)
  moreover have "b < Suc a \<and> (\<exists>q h. ((cx_heap cx1)(a \<mapsto> p')) b = Some q \<and> get_handler mg i = Inr (ProgH h) \<and> (i \<in> D \<longrightarrow> built env h q))"
    if "map_of (cx_progs cx1) i = Some b" for i b
  proof (cases "i = hid")
    case True
    with that st assms(4,6) show ?thesis by auto
  next
    case False
    with that st have i: "map_of (cx_progs cx) i = Some b" by simp
    from progs_okD [OF assms(1) i] obtain q h where "cx_heap cx b = Some q" "get_handler mg i = Inr (ProgH h)" "i \<in> cx_done cx \<longrightarrow> built env h q"
      by metis
    with store_prog_heap [OF assms(1,3) i False] assms(5) False show ?thesis by auto
  qed
  ultimately show ?thesis using st by (simp add: progs_ok_def)
qed

text \<open>A new program under a number that was not instantiated leaves every link its program.\<close>

lemma links_right_grows:
  assumes "links_right att mg cx" "grows stk cx cx'" "cx_links cx' = cx_links cx" "cx_holders cx' = cx_holders cx"
  shows "links_right att mg cx'"
  by (rule links_right_keep [OF assms(1)]) (use assms(2-4) in \<open>auto simp: grows_def\<close>)

lemma store_prog_grows:
  assumes "progs_ok env mg cx" "hid \<notin> cx_done cx" "store_prog hid p cx = (a, cx1)" "cx_done cx \<subseteq> D" "D \<subseteq> insert hid (cx_done cx)"
    "hid \<notin> stk"
  shows "grows stk cx (cx1\<lparr>cx_heap := (cx_heap cx1)(a \<mapsto> p'), cx_done := D\<rparr>)"
proof -
  note st = store_prog_state [OF assms(3)]
  have "map_of (cx_progs cx1) i = map_of (cx_progs cx) i \<and>
      (\<forall>b. map_of (cx_progs cx) i = Some b \<longrightarrow> ((cx_heap cx1)(a \<mapsto> p')) b = cx_heap cx b)" if "i \<in> cx_done cx" for i
  proof -
    from that assms(2) have "i \<noteq> hid" by auto
    with store_prog_heap [OF assms(1,3)] st show ?thesis by auto
  qed
  with st assms(4-6) show ?thesis by (auto simp: grows_def)
qed

lemma instantiate_prog_inv:
  assumes "ctx_inv I att env mg cx" "get_handler mg hid = Inr (ProgH h)" "hid \<notin> cx_done cx" "hid \<notin> stk"
    "instantiate_prog_handler_at env hid h config cx = (r, cx')"
  shows "ctx_inv I att env mg cx' \<and> grows stk cx cx' \<and> (\<forall>n. r = Inr n \<longrightarrow> 0 \<le> n \<longrightarrow> hid \<in> cx_done cx')"
proof (cases "bpftime_prog_new (ae_vm env) (ae_factories env) (ae_vm_name env) (ae_map_by_fd env) (ae_map_val env)
             (map insn_of_word (pg_insns h)) (pg_name h)")
  case (Inr p)
  obtain a cx1 where st: "store_prog hid p cx = (a, cx1)" by fastforce
  obtain err p1 where ld: "load_prog_and_helpers (ae_vm env) (ae_groups env) config p = (err, p1)" by fastforce
  have ok: "progs_ok env mg cx" "links_match att cx" "links_right att mg cx" using assms(1) by (auto simp: ctx_inv_def)
  define D p2 where "D = (if err < 0 then cx_done cx else insert hid (cx_done cx))"
    and "p2 = (if err < 0 then p1 else fold (\<lambda>e p. snd (bpftime_prog_register_raw_helper (ae_vm env) (snd e) p)) (cx_helpers cx) p1)"
  have D: "cx_done cx \<subseteq> D" "D \<subseteq> insert hid (cx_done cx)" by (auto simp: D_def)
  have good: "built env h p2 \<or> hid \<notin> D"
  proof (cases "err < 0")
    case False
    then have "built env h p2" unfolding built_def using Inr ld
      by (intro exI [of _ config] exI [of _ "cx_helpers cx"] exI [of _ p] exI [of _ err] exI [of _ p1]) (simp add: p2_def)
    then show ?thesis ..
  qed (use assms(3) in \<open>simp add: D_def\<close>)
  note s = store_prog_state [OF st]
  have cx': "cx' = cx1\<lparr>cx_heap := (cx_heap cx1)(a \<mapsto> p2), cx_done := D\<rparr>" "r = Inr (if err < 0 then err else 0)"
    using assms(5) Inr st ld s by (auto simp: instantiate_prog_handler_at_def D_def p2_def Let_def)
  have g: "grows stk cx cx'" unfolding cx' by (rule store_prog_grows [OF ok(1) assms(3) st D assms(4)])
  have "links_match att cx'" using ok(2) s D by (auto simp: cx' links_match_def)
  moreover have "links_right att mg cx'" by (rule links_right_grows [OF ok(3) g]) (simp_all add: cx' s)
  moreover have "progs_ok env mg cx'" unfolding cx' by (rule store_prog_ok [OF ok(1) assms(3) st good D(2) assms(2)])
  ultimately have "ctx_inv I att env mg cx'" using assms(1) s by (simp add: ctx_inv_def cx')
  moreover note g
  ultimately show ?thesis by (auto simp: cx' D_def)
qed (use assms in \<open>auto simp: instantiate_prog_handler_at_def\<close>)

text \<open>Marking a handler that is no program as instantiated.\<close>

lemma ctx_inv_done:
  assumes "ctx_inv I att env mg cx" "\<nexists>h. get_handler mg hid = Inr (ProgH h)" "hid \<notin> stk"
  shows "ctx_inv I att env mg (cx\<lparr>cx_done := insert hid (cx_done cx)\<rparr>) \<and> grows stk cx (cx\<lparr>cx_done := insert hid (cx_done cx)\<rparr>)"
proof -
  let ?cx = "cx\<lparr>cx_done := insert hid (cx_done cx)\<rparr>"
  have "i \<noteq> hid" if "map_of (cx_progs cx) i = Some a" for i a
    using that assms(1,2) progs_okD [of env mg cx i a] by (auto simp: ctx_inv_def)
  then have "progs_ok env mg ?cx" using assms(1) unfolding ctx_inv_def progs_ok_def by simp
  moreover have g: "grows stk cx ?cx" using assms(3) by (auto simp: grows_def)
  moreover have "links_right att mg ?cx" by (rule links_right_grows [OF _ g]) (use assms(1) in \<open>simp_all add: ctx_inv_def\<close>)
  ultimately show ?thesis using assms(1) by (auto simp: ctx_inv_def links_match_def)
qed

lemma ctx_inv_perfs: "ctx_inv I att env mg (cx\<lparr>cx_perfs := ps\<rparr>) = ctx_inv I att env mg cx"
  by (simp add: ctx_inv_def progs_ok_def links_match_def links_right_def)

lemma grows_perfs: "grows stk cx (cx'\<lparr>cx_perfs := ps\<rparr>) = grows stk cx cx'"
  "grows stk (cx\<lparr>cx_perfs := ps\<rparr>) cx' = grows stk cx cx'"
  by (simp_all add: grows_def)

lemma instantiate_perf_inv:
  assumes "ctx_inv I att env mg cx" "get_handler mg hid = Inr (PerfH h)" "hid \<notin> stk"
    "instantiate_perf_event_handler_at hid h cx = (r, cx')"
  shows "ctx_inv I att env mg cx' \<and> grows stk cx cx'"
  using assms(4) ctx_inv_done [OF assms(1) _ assms(3)] assms(1,2)
  by (auto simp: instantiate_perf_event_handler_at_def ctx_inv_perfs grows_perfs
      split: if_splits option.splits sum.splits prod.splits)

lemma inv_update: "\<forall>s \<in> set hs. I s \<Longrightarrow> I s' \<Longrightarrow> \<forall>s \<in> set (hs[k := s']). I s"
  using set_update_subset_insert [of hs k s'] by blast

text \<open>A link either changes nothing but the table of perf events, or asks its implementation for an attach.\<close>

lemma instantiate_link_cases:
  assumes "instantiate_bpf_link_handler_at env infos hid h nv cx = (r, cx')"
  shows "(\<exists>ps. cx' = cx\<lparr>cx_perfs := ps\<rparr>) \<or>
    (\<exists>k pd ty ps a p. map_of (cx_progs cx) (lk_prog_id h) = Some a \<and> cx_heap cx a = Some p \<and>
      create_attach env hid k (if is_cuda p then NvStub else RunProg a (lk_attach_cookie h)) pd ty (cx\<lparr>cx_perfs := ps\<rparr>) = (r, cx'))"
proof -
  obtain priv ty where e: "(case map_of (cx_perfs cx) (lk_attach_target_id h) of None \<Rightarrow> (None, 0) | Some e \<Rightarrow> e) = (priv, ty)"
    by fastforce
  show ?thesis
  proof (cases "map_of (cx_impls cx) ty = None \<or> map_of (cx_progs cx) (lk_prog_id h) = None")
    case True
    then show ?thesis using assms e by (intro disjI1) (auto simp: instantiate_bpf_link_handler_at_def Let_def split: option.splits)
  next
    case False
    then obtain k g a where k: "map_of (cx_impls cx) ty = Some (k, g)" "map_of (cx_progs cx) (lk_prog_id h) = Some a" by auto
    show ?thesis
    proof (cases "cx_heap cx a")
      case None
      then show ?thesis using assms e k by (intro disjI1) (auto simp: instantiate_bpf_link_handler_at_def Let_def)
    next
      case (Some p)
      let ?cb = "if is_cuda p then NvStub else RunProg a (lk_attach_cookie h)"
      have "(\<exists>ps. cx' = cx\<lparr>cx_perfs := ps\<rparr>) \<or> (\<exists>pd ps. create_attach env hid k ?cb pd ty (cx\<lparr>cx_perfs := ps\<rparr>) = (r, cx'))"
        using assms e k Some
        by (cases "is_cuda p") (auto simp: instantiate_bpf_link_handler_at_def Let_def split: option.splits if_splits sum.splits)
      with k(2) Some show ?thesis by blast
    qed
  qed
qed

lemma links_ok_handler:
  assumes "links_ok (mg_handlers mg)" "get_handler mg hid = Inr (LinkH l)"
  shows "\<exists>p. get_handler mg (lk_prog_id l) = Inr (ProgH p)"
proof -
  have "nat hid < length (mg_handlers mg)" "mg_handlers mg ! nat hid = LinkH l"
    using assms(2) by (auto simp: get_handler_def in_range_def nat_less_iff split: if_splits)
  then have "live_prog (mg_handlers mg) (lk_prog_id l)" using assms(1) by (simp add: links_ok_def)
  then show ?thesis by (auto simp: live_prog_def get_handler_def in_range_def)
qed

lemma ran_omap_put_fold: "ran (map_of (fold (\<lambda>ty ps. omap_put ty v ps) tys ps)) \<subseteq> insert v (ran (map_of ps))"
proof (induction tys arbitrary: ps)
  case (Cons ty tys)
  have "ran (map_of (omap_put ty v ps)) \<subseteq> insert v (ran (map_of ps))" by (auto simp: ran_def)
  with Cons.IH [of "omap_put ty v ps"] show ?case unfolding fold_simps by blast
qed auto

lemma register_impl_inv:
  assumes "ctx_inv I att env mg cx" "I s" "att s = Map.empty"
  shows "ctx_inv I att env mg (register_attach_impl tys s hs g cx)"
proof -
  let ?cx = "register_attach_impl tys s hs g cx"
  have st: "cx_holders ?cx = cx_holders cx @ [s]" "cx_done ?cx = cx_done cx" "cx_progs ?cx = cx_progs cx" "cx_heap ?cx = cx_heap cx"
    "cx_next ?cx = cx_next cx" "cx_links ?cx = cx_links cx" by (simp_all add: register_attach_impl_def Let_def)
  have "cx_impls ?cx = fold (\<lambda>ty ps. omap_put ty (length (cx_holders cx), g) ps) tys (cx_impls cx)"
    by (simp add: register_attach_impl_def Let_def)
  then have "ran (map_of (cx_impls ?cx)) \<subseteq> insert (length (cx_holders cx), g) (ran (map_of (cx_impls cx)))"
    using ran_omap_put_fold by metis
  moreover have "\<forall>(k, g) \<in> ran (map_of (cx_impls cx)). k < length (cx_holders cx)" using assms(1) by (simp add: ctx_inv_def)
  ultimately have impls: "\<forall>(k, g) \<in> ran (map_of (cx_impls ?cx)). k < length (cx_holders ?cx)" using st(1) by fastforce
  have lm: "links_match att cx" "links_right att mg cx" using assms(1) by (auto simp: ctx_inv_def)
  have "(cx_holders cx @ [s]) ! k = cx_holders cx ! k" if "map_of (cx_links cx) hid = Some (i, Some k)" for hid i k
  proof -
    from that lm(1) have "(i, Some k) \<in> entries att (cx_holders cx)" by (auto simp: links_match_def ran_def)
    then show ?thesis by (auto simp: entries_def nth_append)
  qed
  then have "links_right att mg ?cx" by (intro links_right_keep [OF lm(2)]) (simp_all add: st)
  moreover have "progs_ok env mg ?cx" "links_match att ?cx" "\<forall>s \<in> set (cx_holders ?cx). I s"
    using assms unfolding ctx_inv_def progs_ok_def links_match_def st by auto
  moreover note impls
  ultimately show ?thesis by (simp add: ctx_inv_def)
qed

lemma new_ctx_inv: "ctx_inv I att env mg attach_ctx_new"
  by (simp add: ctx_inv_def attach_ctx_new_def progs_ok_def links_match_def links_right_def one_to_one_def entries_def)

text \<open>What the three kinds of handlers keep, the walk keeps.\<close>

lemma walk_preserves:
  assumes prog: "\<And>hid h cx r cx'. P cx \<Longrightarrow> get_handler mg hid = Inr (ProgH h) \<Longrightarrow> instantiate_prog_handler_at env hid h config cx = (r, cx') \<Longrightarrow> P cx'"
    and perf: "\<And>hid h cx r cx'. P cx \<Longrightarrow> get_handler mg hid = Inr (PerfH h) \<Longrightarrow> instantiate_perf_event_handler_at hid h cx = (r, cx') \<Longrightarrow> P cx'"
    and link: "\<And>hid h cx r cx'. P cx \<Longrightarrow> get_handler mg hid = Inr (LinkH h) \<Longrightarrow> instantiate_bpf_link_handler_at env infos hid h nv cx = (r, cx') \<Longrightarrow> P cx'"
  shows "P cx \<Longrightarrow> instantiate_handler_at env infos mg config nv stk hid cx = (r, cx') \<Longrightarrow> P cx'"
proof (induction "card (unvisited mg stk)" arbitrary: stk hid cx r cx' rule: less_induct)
  case less
  note inst = less.prems(2) [unfolded instantiate_handler_at.simps [of env infos mg config nv stk hid cx]]
  show ?case
  proof (cases "hid \<in> cx_done cx \<or> hid \<in> stk \<or> (\<exists>e. get_handler mg hid = Inl e)")
    case True
    with inst less.prems(1) show ?thesis by (auto split: if_splits)
  next
    case False
    then obtain h where h: "get_handler mg hid = Inr h" and new: "hid \<notin> cx_done cx" "hid \<notin> stk"
      by (cases "get_handler mg hid") auto
    note IH = less.hyps [OF unvisited_decreases [OF h new(2)]]
    have last: "P t'" if "ok_then (f t) (\<lambda>cx. (Inr 0, cx)) = (q, t')" "\<And>q t'. f t = (q, t') \<Longrightarrow> P t'" for f t q t'
      using that by (cases rule: ok_then_cases [OF that(1)]) auto
    show ?thesis
    proof (cases h)
      case (ProgH x)
      show ?thesis by (rule last [of "instantiate_prog_handler_at env hid x config" cx r])
        (use inst new h ProgH prog less.prems(1) in auto)
    next
      case (PerfH x)
      show ?thesis by (rule last [of "instantiate_perf_event_handler_at hid x" cx r])
        (use inst new h PerfH perf less.prems(1) in auto)
    next
      case (LinkH l)
      let ?go = "instantiate_handler_at env infos mg config nv (insert hid stk)"
      have "ok_then (?go (lk_prog_id l) cx) (\<lambda>cx. ok_then (?go (lk_attach_target_id l) cx) (\<lambda>cx.
          ok_then (instantiate_bpf_link_handler_at env infos hid l nv cx) (\<lambda>cx. (Inr 0, cx)))) = (r, cx')"
        using inst new h LinkH by simp
      then show ?thesis
      proof (cases rule: ok_then_cases)
        case (3 n cx1)
        have P1: "P cx1" by (rule IH [OF less.prems(1) 3(1)])
        from 3(3) show ?thesis
        proof (cases rule: ok_then_cases)
          case (3 n cx2)
          have "P cx2" by (rule IH [OF P1 3(1)])
          then show ?thesis using last [of "instantiate_bpf_link_handler_at env infos hid l nv" cx2 r cx'] 3(3) link h LinkH by metis
        qed (use IH [OF P1] in blast)+
      qed (use IH [OF less.prems(1)] in blast)+
    qed (use inst new h less.prems(1) in auto)
  qed
qed

lemma init_pass_preserves:
  assumes "\<And>i cx r cx'. P cx \<Longrightarrow> instantiate_handler_at env infos mg config nv {} i cx = (r, cx') \<Longrightarrow> P cx'"
    "P cx" "init_pass env infos mg config nv is cx = (r, cx')"
  shows "P cx'"
  using assms(2,3)
proof (induction "is" arbitrary: cx)
  case (Cons i "is")
  obtain q cx1 where q: "instantiate_handler_at env infos mg config nv {} (int i) cx = (q, cx1)" by fastforce
  with assms(1) Cons.prems(1) have "P cx1" by blast
  with Cons q show ?case by (auto split: if_splits sum.splits)
qed auto

text \<open>During the first pass the data of a perf event that was instantiated is what its implementation parsed, and
  every link and program that was instantiated is there.\<close>

definition first_pass_ok :: "'m manager \<Rightarrow> ('v, 'p, 's) attach_ctx \<Rightarrow> bool" where
  "first_pass_ok mg cx \<longleftrightarrow>
     (\<forall>hid th. hid \<in> cx_done cx \<longrightarrow> get_handler mg hid = Inr (PerfH th) \<longrightarrow>
        (\<exists>k g d. map_of (cx_impls cx) (pf_type th) = Some (k, g) \<and> bindr (attach_argument th) g = Inr d \<and>
          map_of (cx_perfs cx) hid = Some (Some d, pf_type th))) \<and>
     (\<forall>hid h. hid \<in> cx_done cx \<longrightarrow> get_handler mg hid = Inr (LinkH h) \<longrightarrow> map_of (cx_links cx) hid \<noteq> None) \<and>
     (\<forall>hid h. hid \<in> cx_done cx \<longrightarrow> get_handler mg hid = Inr (ProgH h) \<longrightarrow> map_of (cx_progs cx) hid \<noteq> None)"

lemma first_pass_prog:
  assumes "first_pass_ok mg cx" "get_handler mg hid = Inr (ProgH h)" "instantiate_prog_handler_at env hid h config cx = (r, cx')"
  shows "first_pass_ok mg cx'"
proof -
  have st: "cx_links cx' = cx_links cx" "cx_perfs cx' = cx_perfs cx" "cx_impls cx' = cx_impls cx"
    "cx_done cx' \<subseteq> insert hid (cx_done cx)" "cx_progs cx' = cx_progs cx \<and> cx_done cx' = cx_done cx \<or> (\<exists>a. cx_progs cx' = omap_put hid a (cx_progs cx))"
    using assms(3) by (auto simp: instantiate_prog_handler_at_def store_prog_def Let_def split: sum.splits if_splits prod.splits)
  have "i \<in> cx_done cx" if "i \<in> cx_done cx'" "get_handler mg i = Inr (PerfH th) \<or> get_handler mg i = Inr (LinkH l)" for i th l
    using st(4) that assms(2) by auto
  moreover have "map_of (cx_progs cx') i \<noteq> None" if "i \<in> cx_done cx'" "get_handler mg i = Inr (ProgH x)" for i x
    using st(4,5) that assms(1) by (auto simp: first_pass_ok_def)
  ultimately show ?thesis using assms(1) unfolding first_pass_ok_def st(1-3) by simp
qed

lemma first_pass_perf:
  assumes "first_pass_ok mg cx" "get_handler mg hid = Inr (PerfH h)" "instantiate_perf_event_handler_at hid h cx = (r, cx')"
  shows "first_pass_ok mg cx'"
  using assms by (auto simp: instantiate_perf_event_handler_at_def first_pass_ok_def split: if_splits option.splits sum.splits)

lemma first_pass_create:
  assumes "first_pass_ok mg cx" "get_handler mg hid = Inr (LinkH h)" "create_attach env hid k cb pd ty cx = (r, cx')"
  shows "first_pass_ok mg cx'"
  using assms by (auto simp: create_attach_def first_pass_ok_def Let_def split: if_splits option.splits sum.splits prod.splits)

lemma first_pass_link:
  assumes "first_pass_ok mg cx" "get_handler mg hid = Inr (LinkH h)" "instantiate_bpf_link_handler_at env infos hid h False cx = (r, cx')"
  shows "first_pass_ok mg cx'"
proof -
  obtain priv ty where e: "(case map_of (cx_perfs cx) (lk_attach_target_id h) of None \<Rightarrow> (None, 0) | Some e \<Rightarrow> e) = (priv, ty)"
    by fastforce
  let ?cx = "cx\<lparr>cx_perfs := omap_put (lk_attach_target_id h) (priv, ty) (cx_perfs cx)\<rparr>"
  have "first_pass_ok mg ?cx" using assms(1) e by (fastforce simp: first_pass_ok_def)
  moreover have "cx' = ?cx \<or> (\<exists>k cb. create_attach env hid k cb priv ty ?cx = (r, cx'))"
    using assms(3) e by (auto simp: instantiate_bpf_link_handler_at_def Let_def split: option.splits if_splits)
  ultimately show ?thesis using first_pass_create [OF _ assms(2)] by blast
qed

lemma first_pass_walk:
  assumes "first_pass_ok mg cx" "instantiate_handler_at env infos mg config False stk hid cx = (r, cx')"
  shows "first_pass_ok mg cx'"
  by (rule walk_preserves [where P = "first_pass_ok mg", OF _ _ _ assms])
    (auto intro: first_pass_prog first_pass_perf first_pass_link)

text \<open>A context over attach implementations that keep their callbacks.\<close>

locale attach_context = attach_callbacks inv live "ae_create env" "ae_detach env" attached fst
  for inv live and env :: "('v, 'w, 'p, 's) attach_env" and attached :: "'s \<Rightarrow> int \<rightharpoonup> attach_callback"
begin

lemma create_attach_inv:
  assumes "ctx_inv inv attached env mg cx" "get_handler mg hid = Inr (LinkH h)" "hid \<notin> cx_done cx" "hid \<notin> stk"
    "lk_prog_id h \<in> cx_done cx" "map_of (cx_progs cx) (lk_prog_id h) = Some a" "cx_heap cx a = Some p"
    "create_attach env hid k (if is_cuda p then NvStub else RunProg a (lk_attach_cookie h)) priv ty cx = (r, cx')"
  shows "ctx_inv inv attached env mg cx' \<and> grows stk cx cx'"
proof (cases "priv = None \<or> length (cx_holders cx) \<le> k")
  case False
  let ?cb = "if is_cuda p then NvStub else RunProg a (lk_attach_cookie h)"
  from False obtain d where d: "priv = Some d" and k: "k < length (cx_holders cx)" by auto
  obtain q s' where q: "ae_create env (?cb, d, ty) (cx_holders cx ! k) = (q, s')" by fastforce
  let ?cx = "cx\<lparr>cx_holders := (cx_holders cx)[k := s']\<rparr>"
  have I: "inv (cx_holders cx ! k)" using assms(1) k by (simp add: ctx_inv_def)
  have ok: "progs_ok env mg cx" "links_match attached cx" "links_right attached mg cx" using assms(1) by (auto simp: ctx_inv_def)
  show ?thesis
  proof (cases q)
    case (Inl e)
    have s': "inv s'" "attached s' = attached (cx_holders cx ! k)" using create_Inl [OF I] create_refused [OF I] q Inl by auto
    have "cx' = ?cx" using assms(8) d k q Inl
      by (cases rule: returned_cases [of q]) (auto simp: create_attach_def split: if_splits)
    moreover have "links_right attached mg ?cx"
      by (rule links_right_keep [OF ok(3)]) (use k s'(2) in \<open>auto simp: nth_list_update\<close>)
    moreover have "links_match attached ?cx" "progs_ok env mg ?cx" using ok entries_update_same [OF s'(2) k]
      by (auto simp: links_match_def progs_ok_def)
    ultimately show ?thesis using assms(1) inv_update [of "cx_holders cx" inv s' k] s'(1) by (auto simp: ctx_inv_def grows_def)
  next
    case (Inr i)
    have s': "inv s'" "0 \<le> i" "attached s' = (attached (cx_holders cx ! k))(i \<mapsto> ?cb)" "i \<notin> dom (attached (cx_holders cx ! k))"
      using create_Inr [OF I] create_attached [OF I] q Inr live_attached by auto
    have cx': "cx' = (?cx\<lparr>cx_links := omap_put hid (i, Some k) (cx_links cx)\<rparr>)\<lparr>cx_done := insert hid (cx_done cx)\<rparr>"
      using assms(8) d k q Inr s'(2)
      by (cases rule: returned_cases [of q]) (auto simp: create_attach_def split: if_splits)
    have new: "(i, Some k) \<notin> entries attached (cx_holders cx)" using s'(4) by (auto simp: entries_def)
    have none: "map_of (cx_links cx) hid = None" using ok(2) assms(3) by (auto simp: links_match_def)
    have "j \<noteq> hid" if "map_of (cx_progs cx) j = Some b" for j b
      by (rule progs_okD [OF ok(1) that]) (use assms(2) in auto)
    then have "progs_ok env mg cx'" using ok(1) unfolding progs_ok_def cx' by simp
    moreover have "links_match attached cx'" using ok(2) entries_update_new [OF s'(3) k] new none
      by (auto simp: cx' links_match_def omap_put_ok one_to_one_put)
    moreover have "links_right attached mg cx'"
    proof (rule links_right_keep [OF ok(3)])
      fix id' j m
      assume l: "map_of (cx_links cx') id' = Some (j, Some m)"
      show "map_of (cx_links cx) id' = Some (j, Some m) \<and> attached (cx_holders cx' ! m) j = attached (cx_holders cx ! m) j \<or>
        (\<exists>h a p. get_handler mg id' = Inr (LinkH h) \<and> lk_prog_id h \<in> cx_done cx \<and> map_of (cx_progs cx) (lk_prog_id h) = Some a \<and>
          cx_heap cx a = Some p \<and> attached (cx_holders cx' ! m) j = Some (if is_cuda p then NvStub else RunProg a (lk_attach_cookie h)))"
      proof (cases "id' = hid")
        case True
        with l assms(2,5-7) s'(3) k show ?thesis by (auto simp: cx')
      next
        case False
        with l have l: "map_of (cx_links cx) id' = Some (j, Some m)" by (simp add: cx')
        then have "(j, Some m) \<in> entries attached (cx_holders cx)" using ok(2) by (auto simp: links_match_def ran_def)
        with new have "(j, m) \<noteq> (i, k)" by auto
        with s'(3) k l show ?thesis by (auto simp: cx' nth_list_update)
      qed
    qed (auto simp: cx')
    ultimately show ?thesis using assms(1,3,4) inv_update [of "cx_holders cx" inv s' k] s'(1) none
      by (auto simp: ctx_inv_def cx' grows_def map_le_put)
  qed
qed (use assms(1,8) in \<open>auto simp: create_attach_def split: option.splits\<close>)

lemma instantiate_link_inv:
  assumes "ctx_inv inv attached env mg cx" "get_handler mg hid = Inr (LinkH h)" "hid \<notin> cx_done cx" "hid \<notin> stk" "lk_prog_id h \<in> cx_done cx"
    "instantiate_bpf_link_handler_at env infos hid h nv cx = (r, cx')"
  shows "ctx_inv inv attached env mg cx' \<and> grows stk cx cx'"
  using instantiate_link_cases [OF assms(6)]
proof (elim disjE exE conjE)
  fix ps
  assume "cx' = cx\<lparr>cx_perfs := ps\<rparr>"
  with assms(1) show ?thesis by (simp add: ctx_inv_perfs grows_perfs)
next
  fix k pd ty ps a p
  assume "map_of (cx_progs cx) (lk_prog_id h) = Some a" "cx_heap cx a = Some p"
    "create_attach env hid k (if is_cuda p then NvStub else RunProg a (lk_attach_cookie h)) pd ty (cx\<lparr>cx_perfs := ps\<rparr>) = (r, cx')"
  with create_attach_inv [of mg "cx\<lparr>cx_perfs := ps\<rparr>" hid h stk a p k pd ty r cx'] assms(1-5) show ?thesis
    by (simp add: ctx_inv_perfs grows_perfs)
qed

lemma walk_link_inv:
  assumes IH: "\<And>i cx r cx'. ctx_inv inv attached env mg cx \<Longrightarrow> go i cx = (r, cx') \<Longrightarrow>
      ctx_inv inv attached env mg cx' \<and> grows (insert hid stk) cx cx' \<and>
      (\<forall>n p. r = Inr n \<longrightarrow> 0 \<le> n \<longrightarrow> get_handler mg i = Inr (ProgH p) \<longrightarrow> i \<in> cx_done cx')"
    and "ctx_inv inv attached env mg cx" "get_handler mg hid = Inr (LinkH h)" "get_handler mg (lk_prog_id h) = Inr (ProgH p)"
      "hid \<notin> cx_done cx" "hid \<notin> stk"
    and run: "ok_then (go (lk_prog_id h) cx) (\<lambda>cx. ok_then (go (lk_attach_target_id h) cx) (\<lambda>cx.
        ok_then (instantiate_bpf_link_handler_at env infos hid h nv cx) (\<lambda>cx. (Inr 0, cx)))) = (r, cx')"
  shows "ctx_inv inv attached env mg cx' \<and> grows stk cx cx'"
  using run
proof (cases rule: ok_then_cases)
  case (3 n cx1)
  with IH [OF assms(2)] assms(4) have cx1: "ctx_inv inv attached env mg cx1" "grows (insert hid stk) cx cx1" "lk_prog_id h \<in> cx_done cx1"
    by auto
  from 3(3) show ?thesis
  proof (cases rule: ok_then_cases)
    case (3 n cx2)
    with IH [OF cx1(1)] have cx2: "ctx_inv inv attached env mg cx2" "grows (insert hid stk) cx1 cx2" by auto
    then have "grows (insert hid stk) cx cx2" using cx1(2) grows_trans by blast
    then have g: "grows stk cx cx2" "hid \<notin> cx_done cx2" using assms(5) by (auto simp: grows_def)
    have "lk_prog_id h \<in> cx_done cx2" using cx1(3) cx2(2) by (auto simp: grows_def)
    note link = instantiate_link_inv [OF cx2(1) assms(3) g(2) assms(6) this]
    from 3(3) have "\<exists>r1. instantiate_bpf_link_handler_at env infos hid h nv cx2 = (r1, cx')"
      by (cases rule: ok_then_cases) auto
    with link g(1) grows_trans show ?thesis by blast
  qed (use IH [OF cx1(1)] cx1(2) grows_trans grows_weaken in blast)+
qed (use IH [OF assms(2)] grows_weaken in blast)+

lemma walk_inv:
  assumes "ctx_inv inv attached env mg cx" "links_ok (mg_handlers mg)" "instantiate_handler_at env infos mg config nv stk hid cx = (r, cx')"
  shows "ctx_inv inv attached env mg cx' \<and> grows stk cx cx' \<and>
    (\<forall>n h. r = Inr n \<longrightarrow> 0 \<le> n \<longrightarrow> get_handler mg hid = Inr (ProgH h) \<longrightarrow> hid \<in> cx_done cx')"
  using assms(1,3)
proof (induction "card (unvisited mg stk)" arbitrary: stk hid cx r cx' rule: less_induct)
  case less
  note inst = less.prems(2) [unfolded instantiate_handler_at.simps [of env infos mg config nv stk hid cx]]
  show ?case
  proof (cases "hid \<in> cx_done cx \<or> hid \<in> stk")
    case True
    with inst less.prems(1) show ?thesis by (auto split: if_splits)
  next
    case False
    then have new: "hid \<notin> cx_done cx" "hid \<notin> stk" by auto
    show ?thesis
    proof (cases "get_handler mg hid")
      case (Inl e)
      with inst new less.prems(1) show ?thesis by auto
    next
      case (Inr h)
      note inst = inst [unfolded Inr]
      show ?thesis
      proof (cases h)
        case (ProgH p)
        with inst new have "ok_then (instantiate_prog_handler_at env hid p config cx) (\<lambda>cx. (Inr 0, cx)) = (r, cx')" by simp
        then show ?thesis
          by (cases rule: ok_then_cases) (use instantiate_prog_inv [OF less.prems(1) Inr [unfolded ProgH] new] in fastforce)+
      next
        case (PerfH p)
        with inst new have "ok_then (instantiate_perf_event_handler_at hid p cx) (\<lambda>cx. (Inr 0, cx)) = (r, cx')" by simp
        then show ?thesis
          by (cases rule: ok_then_cases)
            (use instantiate_perf_inv [OF less.prems(1) Inr [unfolded PerfH] new(2)] Inr PerfH in fastforce)+
      next
        case (LinkH l)
        obtain p where p: "get_handler mg (lk_prog_id l) = Inr (ProgH p)"
          using links_ok_handler [OF assms(2) Inr [unfolded LinkH]] by blast
        have "ctx_inv inv attached env mg cx' \<and> grows stk cx cx'"
        proof (rule walk_link_inv [OF _ less.prems(1) Inr [unfolded LinkH] p new])
          show "ok_then (instantiate_handler_at env infos mg config nv (insert hid stk) (lk_prog_id l) cx) (\<lambda>cx.
              ok_then (instantiate_handler_at env infos mg config nv (insert hid stk) (lk_attach_target_id l) cx) (\<lambda>cx.
              ok_then (instantiate_bpf_link_handler_at env infos hid l nv cx) (\<lambda>cx. (Inr 0, cx)))) = (r, cx')"
            using inst new LinkH by simp
        qed (rule less.hyps [OF unvisited_decreases [OF Inr new(2)]])
        then show ?thesis using Inr LinkH by simp
      qed (use inst new less.prems(1) Inr in auto)
    qed
  qed
qed

lemma init_pass_inv:
  assumes "ctx_inv inv attached env mg cx" "links_ok (mg_handlers mg)" "init_pass env infos mg config nv is cx = (r, cx')"
  shows "ctx_inv inv attached env mg cx' \<and> grows {} cx cx'"
  using assms(1,3)
proof (induction "is" arbitrary: cx)
  case (Cons i "is")
  obtain q cx1 where q: "instantiate_handler_at env infos mg config nv {} (int i) cx = (q, cx1)" by fastforce
  from walk_inv [OF Cons.prems(1) assms(2) q] have cx1: "ctx_inv inv attached env mg cx1" "grows {} cx cx1" by auto
  show ?case
  proof (cases "is_allocated mg (int i) \<and> (\<exists>n. q = Inr n)")
    case True
    with Cons.prems(2) q have "init_pass env infos mg config nv is cx1 = (r, cx')" by auto
    from Cons.IH [OF cx1(1) this] cx1(2) grows_trans show ?thesis by blast
  next
    case False
    then show ?thesis using Cons.IH [OF Cons.prems(1)] Cons.prems(2) q cx1 by (cases q) (auto split: if_splits)
  qed
qed auto

lemma init_inv:
  assumes "ctx_inv inv attached env mg cx" "links_ok (mg_handlers mg)" "init_attach_ctx_from_handlers env infos mg config cx = (r, cx')"
  shows "ctx_inv inv attached env mg cx' \<and> grows {} cx cx'"
proof -
  obtain r1 cx1 where p1: "init_pass env infos mg config False [0..<length (mg_handlers mg)] cx = (r1, cx1)" by fastforce
  obtain r2 cx2 where p2: "init_pass env infos mg config True [0..<length (mg_handlers mg)] cx1 = (r2, cx2)" by fastforce
  from init_pass_inv [OF assms(1,2) p1] have cx1: "ctx_inv inv attached env mg cx1" "grows {} cx cx1" by auto
  from init_pass_inv [OF cx1(1) assms(2) p2] cx1(2) grows_trans have "ctx_inv inv attached env mg cx2" "grows {} cx cx2" by blast+
  with cx1 p1 p2 assms(3) show ?thesis by (cases r1; cases r2) (auto simp: init_attach_ctx_from_handlers_def)
qed

text \<open>Destroying a link that is there always succeeds and removes its entry.\<close>

lemma destroy_link:
  assumes "ctx_inv inv attached env mg cx" "map_of (cx_links cx) hid \<noteq> None"
  shows "\<exists>cx'. destroy_instantiated_attach_link env hid cx = (Inr 0, cx') \<and> ctx_inv inv attached env mg cx' \<and>
    cx_links cx' = omap_del hid (cx_links cx) \<and> cx_done cx' = cx_done cx"
proof -
  have lm: "links_match attached cx" using assms(1) by (simp add: ctx_inv_def)
  obtain i kp where e: "map_of (cx_links cx) hid = Some (i, kp)" using assms(2) by auto
  then have "(i, kp) \<in> entries attached (cx_holders cx)" using lm by (auto simp: links_match_def ran_def)
  then obtain k where k: "kp = Some k" "k < length (cx_holders cx)" "i \<in> dom (attached (cx_holders cx ! k))"
    by (auto simp: entries_def)
  have I: "inv (cx_holders cx ! k)" using assms(1) k(2) by (simp add: ctx_inv_def)
  from detach_live [OF I] k(3) live_attached obtain s' where d: "ae_detach env i (cx_holders cx ! k) = (Inr (), s')" "inv s'"
    by metis
  have a: "attached s' = (attached (cx_holders cx ! k))(i := None)" by (rule detach_attached [OF I d(1)])
  let ?cx = "cx\<lparr>cx_holders := (cx_holders cx)[k := s'], cx_links := omap_del hid (cx_links cx)\<rparr>"
  have run: "destroy_instantiated_attach_link env hid cx = (Inr 0, ?cx)" using e k d
    by (simp add: destroy_instantiated_attach_link_def ok_then_def returned_def)
  have "ran ((map_of (cx_links cx))(hid := None)) = ran (map_of (cx_links cx)) - {(i, Some k)}"
    using lm e k(1) by (simp add: links_match_def one_to_one_ran_drop)
  then have "links_match attached ?cx" using lm entries_update_gone [of attached s' "cx_holders cx" k i, OF a k(2)]
    by (auto simp: links_match_def omap_del_ok one_to_one_drop)
  moreover have "links_right attached mg ?cx"
  proof (rule links_right_keep [of attached mg cx])
    fix id' j m
    assume "map_of (cx_links ?cx) id' = Some (j, Some m)"
    then have l: "map_of (cx_links cx) id' = Some (j, Some m)" "id' \<noteq> hid" by (auto split: if_splits)
    then have "(j, m) \<noteq> (i, k)" using lm e k(1) by (auto simp: links_match_def dest: one_to_oneD)
    with a k(2) l show "map_of (cx_links cx) id' = Some (j, Some m) \<and>
        attached (cx_holders ?cx ! m) j = attached (cx_holders cx ! m) j \<or>
      (\<exists>h a p. get_handler mg id' = Inr (LinkH h) \<and> lk_prog_id h \<in> cx_done cx \<and> map_of (cx_progs cx) (lk_prog_id h) = Some a \<and>
        cx_heap cx a = Some p \<and> attached (cx_holders ?cx ! m) j = Some (if is_cuda p then NvStub else RunProg a (lk_attach_cookie h)))"
      by (auto simp: nth_list_update)
  qed (use assms(1) in \<open>auto simp: ctx_inv_def\<close>)
  moreover have "\<forall>s \<in> set ((cx_holders cx)[k := s']). inv s" by (rule inv_update) (use assms(1) d(2) in \<open>auto simp: ctx_inv_def\<close>)
  ultimately have "ctx_inv inv attached env mg ?cx" using assms(1) by (auto simp: ctx_inv_def progs_ok_def)
  with run show ?thesis by auto
qed

lemma destroy_missing: "map_of (cx_links cx) hid = None \<Longrightarrow> destroy_instantiated_attach_link env hid cx = (Inr (- 2), cx)"
  by (simp add: destroy_instantiated_attach_link_def)

lemma destroy_loop_all:
  assumes "ctx_inv inv attached env mg cx" "distinct ids" "set ids \<subseteq> dom (map_of (cx_links cx))"
  shows "\<exists>cx'. destroy_loop env ids cx = (Inr 0, cx') \<and> ctx_inv inv attached env mg cx' \<and>
    dom (map_of (cx_links cx')) = dom (map_of (cx_links cx)) - set ids \<and> cx_done cx' = cx_done cx"
  using assms
proof (induction ids arbitrary: cx)
  case (Cons hid ids)
  from destroy_link [OF Cons.prems(1), of hid] Cons.prems(3) obtain cx1 where
    cx1: "destroy_instantiated_attach_link env hid cx = (Inr 0, cx1)" "ctx_inv inv attached env mg cx1"
      "cx_links cx1 = omap_del hid (cx_links cx)" "cx_done cx1 = cx_done cx" by auto
  have dom: "dom (map_of (cx_links cx1)) = dom (map_of (cx_links cx)) - {hid}" using cx1(3) by simp
  then have "set ids \<subseteq> dom (map_of (cx_links cx1))" using Cons.prems by auto
  from Cons.IH [OF cx1(2) _ this] Cons.prems(2) obtain cx2 where
    "destroy_loop env ids cx1 = (Inr 0, cx2)" "ctx_inv inv attached env mg cx2"
    "dom (map_of (cx_links cx2)) = dom (map_of (cx_links cx1)) - set ids" "cx_done cx2 = cx_done cx1" by auto
  with cx1 dom have "destroy_loop env (hid # ids) cx = (Inr 0, cx2) \<and> ctx_inv inv attached env mg cx2 \<and>
    dom (map_of (cx_links cx2)) = dom (map_of (cx_links cx)) - set (hid # ids) \<and> cx_done cx2 = cx_done cx"
    by (auto simp: ok_then_def)
  then show ?case by blast
qed auto

lemma destroy_all:
  assumes "ctx_inv inv attached env mg cx"
  shows "\<exists>cx'. destroy_all_attach_links env cx = (Inr 0, cx') \<and> ctx_inv inv attached env mg cx' \<and> cx_links cx' = [] \<and>
    (\<forall>s \<in> set (cx_holders cx'). live s = {}) \<and> cx_done cx' = cx_done cx"
proof -
  have "distinct (map fst (cx_links cx))" using assms by (auto simp: ctx_inv_def links_match_def dest: omap_distinct)
  from destroy_loop_all [OF assms this] obtain cx' where
    cx': "destroy_all_attach_links env cx = (Inr 0, cx')" "ctx_inv inv attached env mg cx'" "dom (map_of (cx_links cx')) = {}"
      "cx_done cx' = cx_done cx" by (auto simp: destroy_all_attach_links_def dom_map_of_conv_image_fst)
  have "cx_links cx' = []" using cx'(3) by (cases "cx_links cx'") (auto simp: dom_map_of_conv_image_fst)
  then have "entries attached (cx_holders cx') = {}" using cx'(2) by (simp add: ctx_inv_def links_match_def)
  then have "\<forall>s \<in> set (cx_holders cx'). live s = {}" by (fastforce simp: entries_def live_attached in_set_conv_nth)
  with cx' \<open>cx_links cx' = []\<close> show ?thesis by blast
qed

text \<open>Every entry of an implementation is the one of a link.\<close>

lemma entry_link:
  assumes "ctx_inv inv attached env mg cx" "s \<in> set (cx_holders cx)" "attached s i = Some cb"
  shows "\<exists>hid h ph a p. get_handler mg hid = Inr (LinkH h) \<and> get_handler mg (lk_prog_id h) = Inr (ProgH ph) \<and> cx_heap cx a = Some p \<and>
    built env ph p \<and> cb = (if is_cuda p then NvStub else RunProg a (lk_attach_cookie h))"
proof -
  have ok: "progs_ok env mg cx" "links_match attached cx" "links_right attached mg cx" using assms(1) by (auto simp: ctx_inv_def)
  obtain k where k: "k < length (cx_holders cx)" "cx_holders cx ! k = s" using assms(2) by (auto simp: in_set_conv_nth)
  then have "(i, Some k) \<in> entries attached (cx_holders cx)" using assms(3) by (auto simp: entries_def)
  then have "(i, Some k) \<in> ran (map_of (cx_links cx))" using ok(2) by (simp add: links_match_def)
  then obtain hid where l: "map_of (cx_links cx) hid = Some (i, Some k)" by (auto simp: ran_def)
  from links_rightD [OF ok(3) l] obtain h a p where h: "get_handler mg hid = Inr (LinkH h)" "lk_prog_id h \<in> cx_done cx"
    "map_of (cx_progs cx) (lk_prog_id h) = Some a" "cx_heap cx a = Some p"
    "attached (cx_holders cx ! k) i = Some (if is_cuda p then NvStub else RunProg a (lk_attach_cookie h))" by metis
  from progs_okD [OF ok(1) h(3)] h(2,4) obtain ph where "built env ph p" "get_handler mg (lk_prog_id h) = Inr (ProgH ph)"
    by (metis option.inject)
  with h k assms(3) show ?thesis by (intro exI [of _ hid] exI [of _ h] exI [of _ ph] exI [of _ a] exI [of _ p]) auto
qed

lemma callback_runs:
  assumes "ctx_inv inv attached env mg cx" "s \<in> set (cx_holders cx)" "attached s i = Some cb"
  shows "\<exists>x. run_attach_callback env call set_cookie cx cb mem st = Inr x"
proof -
  from entry_link [OF assms] obtain ph a p c where p: "cx_heap cx a = Some p" "built env ph p" "cb = (if is_cuda p then NvStub else RunProg a c)"
    by blast
  obtain ret w where st: "st = (ret, w)" by fastforce
  show ?thesis
  proof (cases "is_cuda p")
    case False
    with built_runnable [OF p(2)] have "runnable p" by simp
    from runnable_exec [OF this] p(1,3) False st show ?thesis by (simp add: run_attach_callback_def)
  qed (use p st in \<open>simp add: run_attach_callback_def\<close>)
qed

text \<open>In the first pass a link is attached when its program loads, its attach point is understood and the
  implementation accepts it.\<close>

lemma walk_attaches:
  assumes inv: "ctx_inv inv attached env mg cx" "first_pass_ok mg cx" "links_ok (mg_handlers mg)"
    and handlers: "get_handler mg hid = Inr (LinkH h)" "get_handler mg (lk_prog_id h) = Inr (ProgH ph)"
      "get_handler mg (lk_attach_target_id h) = Inr (PerfH th)"
    and loads: "bpftime_prog_new (ae_vm env) (ae_factories env) (ae_vm_name env) (ae_map_by_fd env) (ae_map_val env)
        (map insn_of_word (pg_insns ph)) (pg_name ph) = Inr p0" "0 \<le> fst (load_prog_and_helpers (ae_vm env) (ae_groups env) config p0)"
      "\<nexists>u. pg_name ph = u @ ''__cuda''"
    and target: "pf_type th \<noteq> PERF_TYPE_SOFTWARE" "map_of (cx_impls cx) (pf_type th) = Some (k, g)" "bindr (attach_argument th) g = Inr d"
    and accepts: "\<And>cb s. inv s \<Longrightarrow> \<exists>i s'. ae_create env (cb, d, pf_type th) s = (Inr i, s')"
    and run: "instantiate_handler_at env infos mg config False {} hid cx = (r, cx')"
  shows "map_of (cx_links cx') hid \<noteq> None"
proof (cases "hid \<in> cx_done cx")
  case True
  then have "map_of (cx_links cx) hid \<noteq> None" "cx' = cx" using inv(2) handlers(1) run
    by (auto simp: first_pass_ok_def instantiate_handler_at.simps [of env infos mg config False])
  then show ?thesis by simp
next
  case False
  let ?go = "instantiate_handler_at env infos mg config False {hid}"
  have ne: "lk_prog_id h \<noteq> hid" "lk_attach_target_id h \<noteq> hid" using handlers by auto
  obtain r1 cx1 where go1: "?go (lk_prog_id h) cx = (r1, cx1)" by fastforce
  have r1: "r1 = Inr 0" using go1 handlers(2) ne(1) loads
    by (auto simp: instantiate_handler_at.simps [of _ _ _ _ _ _ "lk_prog_id h"] instantiate_prog_handler_at_def ok_then_def
        store_prog_def split_def Let_def split: if_splits)
  from walk_inv [OF inv(1,3) go1] have cx1: "ctx_inv inv attached env mg cx1" "grows {hid} cx cx1" "lk_prog_id h \<in> cx_done cx1"
    using r1 handlers(2) by auto
  have f1: "first_pass_ok mg cx1" by (rule first_pass_walk [OF inv(2) go1])
  obtain r2 cx2 where go2: "?go (lk_attach_target_id h) cx1 = (r2, cx2)" by fastforce
  have impl1: "map_of (cx_impls cx1) (pf_type th) = Some (k, g)" using cx1(2) target(2) by (simp add: grows_def)
  have r2: "r2 = Inr 0 \<and> lk_attach_target_id h \<in> cx_done cx2"
    using go2 handlers(3) ne(2) target(1,3) impl1
    by (auto simp: instantiate_handler_at.simps [of _ _ _ _ _ _ "lk_attach_target_id h"] instantiate_perf_event_handler_at_def ok_then_def
        split: if_splits)
  from walk_inv [OF cx1(1) inv(3) go2] have cx2: "ctx_inv inv attached env mg cx2" "grows {hid} cx1 cx2" by auto
  have f2: "first_pass_ok mg cx2" by (rule first_pass_walk [OF f1 go2])
  have g2: "grows {hid} cx cx2" by (rule grows_trans [OF cx1(2) cx2(2)])
  then have fresh: "hid \<notin> cx_done cx2" and impl2: "map_of (cx_impls cx2) (pf_type th) = Some (k, g)"
    using False target(2) by (auto simp: grows_def)
  have done2: "lk_prog_id h \<in> cx_done cx2" using cx1(3) cx2(2) by (auto simp: grows_def)
  have perf2: "map_of (cx_perfs cx2) (lk_attach_target_id h) = Some (Some d, pf_type th)"
    using f2 r2 handlers(3) impl2 target(3) unfolding first_pass_ok_def by fastforce
  have ok2: "progs_ok env mg cx2" using cx2(1) by (simp add: ctx_inv_def)
  obtain a where a: "map_of (cx_progs cx2) (lk_prog_id h) = Some a" using f2 done2 handlers(2) by (auto simp: first_pass_ok_def)
  obtain p where p: "cx_heap cx2 a = Some p" "built env ph p"
    by (rule progs_okD [OF ok2 a]) (use done2 handlers(2) in auto)
  have cpu: "\<not> is_cuda p" using built_name [OF p(2)] loads(3) by (auto simp: is_cuda_def dest: is_cuda_name)
  have k: "k < length (cx_holders cx2)" using cx2(1) impl2 by (auto simp: ctx_inv_def ran_def)
  have "inv (cx_holders cx2 ! k)" using cx2(1) k by (simp add: ctx_inv_def)
  from accepts [OF this] obtain i s' where i: "ae_create env (RunProg a (lk_attach_cookie h), d, pf_type th) (cx_holders cx2 ! k) = (Inr i, s')"
    by blast
  with create_Inr \<open>inv (cx_holders cx2 ! k)\<close> have "0 \<le> i" by blast
  then have link: "\<exists>cx3. instantiate_bpf_link_handler_at env infos hid h False cx2 = (Inr 0, cx3) \<and> map_of (cx_links cx3) hid \<noteq> None"
    using impl2 perf2 a p(1) cpu k i
    by (simp add: instantiate_bpf_link_handler_at_def create_attach_def returned_def)
  have "ok_then (?go (lk_prog_id h) cx) (\<lambda>cx. ok_then (?go (lk_attach_target_id h) cx) (\<lambda>cx.
      ok_then (instantiate_bpf_link_handler_at env infos hid h False cx) (\<lambda>cx. (Inr 0, cx)))) = (r, cx')"
    using run False handlers(1) by (simp add: instantiate_handler_at.simps [of env infos mg config False "{}"])
  with go1 r1 go2 r2 link show ?thesis by (auto simp: ok_then_def)
qed

lemma first_pass_attaches:
  assumes handlers: "get_handler mg (int i) = Inr (LinkH h)" "get_handler mg (lk_prog_id h) = Inr (ProgH ph)"
      "get_handler mg (lk_attach_target_id h) = Inr (PerfH th)" "links_ok (mg_handlers mg)"
    and loads: "bpftime_prog_new (ae_vm env) (ae_factories env) (ae_vm_name env) (ae_map_by_fd env) (ae_map_val env)
        (map insn_of_word (pg_insns ph)) (pg_name ph) = Inr p0" "0 \<le> fst (load_prog_and_helpers (ae_vm env) (ae_groups env) config p0)"
      "\<nexists>u. pg_name ph = u @ ''__cuda''"
    and target: "pf_type th \<noteq> PERF_TYPE_SOFTWARE" "bindr (attach_argument th) g = Inr d"
    and accepts: "\<And>cb s. inv s \<Longrightarrow> \<exists>i s'. ae_create env (cb, d, pf_type th) s = (Inr i, s')"
  shows "ctx_inv inv attached env mg cx \<Longrightarrow> first_pass_ok mg cx \<Longrightarrow> map_of (cx_impls cx) (pf_type th) = Some (k, g) \<Longrightarrow>
    init_pass env infos mg config False is cx = (Inr (), cx') \<Longrightarrow> i \<in> set is \<Longrightarrow> map_of (cx_links cx') (int i) \<noteq> None"
proof (induction "is" arbitrary: cx)
  case (Cons j "is")
  have al: "is_allocated mg (int i)" using handlers(1) by (auto simp: is_allocated_def get_handler_def in_range_def split: if_splits)
  obtain q cx1 where q: "instantiate_handler_at env infos mg config False {} (int j) cx = (q, cx1)" by fastforce
  from walk_inv [OF Cons.prems(1) handlers(4) q] have cx1: "ctx_inv inv attached env mg cx1" "grows {} cx cx1" by auto
  have f1: "first_pass_ok mg cx1" by (rule first_pass_walk [OF Cons.prems(2) q])
  have impl1: "map_of (cx_impls cx1) (pf_type th) = Some (k, g)" using cx1(2) Cons.prems(3) by (simp add: grows_def)
  show ?case
  proof (cases "is_allocated mg (int j)")
    case True
    then have rest: "init_pass env infos mg config False is cx1 = (Inr (), cx')" using Cons.prems(4) q by (cases q) auto
    show ?thesis
    proof (cases "j = i")
      case True
      have "map_of (cx_links cx1) (int i) \<noteq> None"
        by (rule walk_attaches [OF Cons.prems(1,2) handlers(4,1-3) loads target(1) Cons.prems(3) target(2) accepts q [unfolded True]])
      moreover have "grows {} cx1 cx'" using init_pass_inv [OF cx1(1) handlers(4) rest] by simp
      ultimately show ?thesis by (auto simp: grows_def map_le_def dom_def)
    qed (use Cons.IH [OF cx1(1) f1 impl1 rest] Cons.prems(5) in auto)
  next
    case False
    with al have "j \<noteq> i" by auto
    with Cons.IH [OF Cons.prems(1-3)] Cons.prems(4,5) False show ?thesis by auto
  qed
qed simp

lemma init_attaches:
  assumes handlers: "get_handler mg (int i) = Inr (LinkH h)" "get_handler mg (lk_prog_id h) = Inr (ProgH ph)"
      "get_handler mg (lk_attach_target_id h) = Inr (PerfH th)" "links_ok (mg_handlers mg)"
    and loads: "bpftime_prog_new (ae_vm env) (ae_factories env) (ae_vm_name env) (ae_map_by_fd env) (ae_map_val env)
        (map insn_of_word (pg_insns ph)) (pg_name ph) = Inr p0" "0 \<le> fst (load_prog_and_helpers (ae_vm env) (ae_groups env) config p0)"
      "\<nexists>u. pg_name ph = u @ ''__cuda''"
    and target: "pf_type th \<noteq> PERF_TYPE_SOFTWARE" "bindr (attach_argument th) g = Inr d"
    and accepts: "\<And>cb s. inv s \<Longrightarrow> \<exists>i s'. ae_create env (cb, d, pf_type th) s = (Inr i, s')"
    and cx: "ctx_inv inv attached env mg cx" "cx_done cx = {}" "map_of (cx_impls cx) (pf_type th) = Some (k, g)"
      "init_attach_ctx_from_handlers env infos mg config cx = (Inr 0, cx')"
  shows "map_of (cx_links cx') (int i) \<noteq> None"
proof -
  let ?all = "[0..<length (mg_handlers mg)]"
  obtain cx1 where p1: "init_pass env infos mg config False ?all cx = (Inr (), cx1)"
    and p2: "init_pass env infos mg config True ?all cx1 = (Inr (), cx')"
    using cx(4) by (auto simp: init_attach_ctx_from_handlers_def split: prod.splits sum.splits)
  have "i \<in> set ?all" using handlers(1) by (auto simp: get_handler_def in_range_def split: if_splits)
  from first_pass_attaches [OF handlers loads target accepts cx(1) _ cx(3) p1 this] cx(2)
  have "map_of (cx_links cx1) (int i) \<noteq> None" by (simp add: first_pass_ok_def)
  moreover have "ctx_inv inv attached env mg cx1" using init_pass_inv [OF cx(1) handlers(4) p1] by simp
  then have "grows {} cx1 cx'" using init_pass_inv [OF _ handlers(4) p2] by simp
  ultimately show ?thesis by (auto simp: grows_def map_le_def dom_def)
qed

end

section \<open>Agents\<close>

text \<open>The contexts of an agent over a table of handlers: attach implementations, new ones from \<open>fresh\<close>, are registered, the
  table is walked, links are destroyed, in any order and any number of times, whatever the calls return.\<close>

inductive agent_ctx :: "('v, 'w, 'p, 's) attach_env \<Rightarrow> 's set \<Rightarrow> 'm manager \<Rightarrow> ('v, 'p, 's) attach_ctx \<Rightarrow> bool" for env fresh mg where
  new: "agent_ctx env fresh mg attach_ctx_new"
| register: "agent_ctx env fresh mg cx \<Longrightarrow> s \<in> fresh \<Longrightarrow> agent_ctx env fresh mg (register_attach_impl tys s hs g cx)"
| init: "agent_ctx env fresh mg cx \<Longrightarrow> init_attach_ctx_from_handlers env infos mg config cx = (r, cx') \<Longrightarrow> agent_ctx env fresh mg cx'"
| destroy: "agent_ctx env fresh mg cx \<Longrightarrow> destroy_instantiated_attach_link env link_id cx = (r, cx') \<Longrightarrow> agent_ctx env fresh mg cx'"
| destroy_all: "agent_ctx env fresh mg cx \<Longrightarrow> destroy_all_attach_links env cx = (r, cx') \<Longrightarrow> agent_ctx env fresh mg cx'"

context attach_context
begin

lemma agent_inv:
  assumes "agent_ctx env fresh mg cx" "links_ok (mg_handlers mg)" "\<And>s. s \<in> fresh \<Longrightarrow> inv s \<and> attached s = Map.empty"
  shows "ctx_inv inv attached env mg cx"
  using assms(1)
proof (induction rule: agent_ctx.induct)
  case new
  show ?case by (rule new_ctx_inv)
next
  case (register cx s tys hs g)
  with assms(3) [OF register.hyps(2)] show ?case by (intro register_impl_inv) auto
next
  case (init cx infos config r cx')
  then show ?case using init_inv assms(2) by blast
next
  case (destroy cx link_id r cx')
  show ?case
  proof (cases "map_of (cx_links cx) link_id")
    case None
    with destroy.hyps(2) destroy.IH show ?thesis by (simp add: destroy_instantiated_attach_link_def)
  next
    case (Some e)
    with destroy_link [OF destroy.IH, of link_id] destroy.hyps(2) show ?thesis by auto
  qed
next
  case all: (destroy_all cx r cx')
  with destroy_all [OF all.IH] show ?case by auto
qed

lemma links_bij:
  assumes "ctx_inv inv attached env mg cx"
  shows "bij_betw (\<lambda>hid. the (map_of (cx_links cx) hid)) (dom (map_of (cx_links cx))) (entries attached (cx_holders cx))"
proof -
  from assms have m: "one_to_one (map_of (cx_links cx))" "ran (map_of (cx_links cx)) = entries attached (cx_holders cx)"
    by (auto simp: ctx_inv_def links_match_def)
  have "(\<lambda>hid. the (map_of (cx_links cx) hid)) ` dom (map_of (cx_links cx)) = ran (map_of (cx_links cx))"
    by (force simp: ran_def image_def)
  with m show ?thesis by (auto simp: bij_betw_def inj_on_def dest: one_to_oneD)
qed

end

section \<open>Contexts with system call tracing\<close>

definition sys_env ::
  "('v, 'w) vm_impl \<Rightarrow> (string \<rightharpoonup> 'v res) \<Rightarrow> string \<Rightarrow> (u32 \<Rightarrow> u64) \<Rightarrow> (u64 \<Rightarrow> u64) \<Rightarrow> helper_groups \<Rightarrow>
     ('v, 'w, private_data, attach_callback sys_impl) attach_env" where
  "sys_env vi fs vn mf mv gs = \<lparr>ae_vm = vi, ae_factories = fs, ae_vm_name = vn, ae_map_by_fd = mf, ae_map_val = mv, ae_groups = gs,
     ae_create = sys_create (\<lambda>xs x. x # xs), ae_detach = sys_detach, ae_is_nv = (\<lambda>d. False), ae_set_nv = (\<lambda>is l d. d)\<rparr>"

lemma sys_env_simps [simp]:
  "ae_create (sys_env vi fs vn mf mv gs) = sys_create (\<lambda>xs x. x # xs)" "ae_detach (sys_env vi fs vn mf mv gs) = sys_detach"
  "ae_vm (sys_env vi fs vn mf mv gs) = vi" "ae_factories (sys_env vi fs vn mf mv gs) = fs" "ae_vm_name (sys_env vi fs vn mf mv gs) = vn"
  "ae_map_by_fd (sys_env vi fs vn mf mv gs) = mf" "ae_map_val (sys_env vi fs vn mf mv gs) = mv" "ae_groups (sys_env vi fs vn mf mv gs) = gs"
  by (simp_all add: sys_env_def)

interpretation sys_ctx: attach_context sys_inv "\<lambda>s. dom (si_entries s)" "sys_env vi fs vn mf mv gs" sys_attached for vi fs vn mf mv gs
  by (simp add: attach_context_def sys_cb.attach_callbacks_axioms)

lemma sys_attached_new: "sys_attached sys_impl_new = Map.empty"
  by (simp add: sys_attached_def sys_impl_new_def fun_eq_iff)

lemma agent_ctx_inv:
  assumes "agent_ctx (sys_env vi fs vn mf mv gs) {sys_impl_new} mg cx" "links_ok (mg_handlers mg)"
  shows "ctx_inv sys_inv sys_attached (sys_env vi fs vn mf mv gs) mg cx"
  by (rule sys_ctx.agent_inv [OF assms]) (simp add: sys_inv_new sys_attached_new)

section \<open>Properties\<close>

text \<open>The table of every reachable shared memory satisfies what the properties assume of it.\<close>

lemma reachable_links_ok: "reachable s \<Longrightarrow> sh_manager s = Some mg \<Longrightarrow> links_ok (mg_handlers mg)"
  using reachable_inv by (auto simp: consistent_def mg_inv_def)

text \<open>No callback dangles: whatever an agent registered, walked and destroyed before, every entry of every attach
  implementation belongs to a link of the table, carries the program made from the program handler of that link
  and its cookie (or nothing, when that program is for the GPU), and running it neither reaches through a
  dangling pointer nor runs a program that was not loaded.\<close>

theorem attach_callbacks_safe:
  assumes "agent_ctx (sys_env vi fs vn mf mv gs) {sys_impl_new} mg cx" "links_ok (mg_handlers mg)" "t \<in> set (cx_holders cx)" "sys_attached t i = Some cb"
  shows "(\<exists>hid h ph a p. get_handler mg hid = Inr (LinkH h) \<and> get_handler mg (lk_prog_id h) = Inr (ProgH ph) \<and> cx_heap cx a = Some p \<and>
      built (sys_env vi fs vn mf mv gs) ph p \<and> cb = (if is_cuda p then NvStub else RunProg a (lk_attach_cookie h))) \<and>
    (\<exists>x. run_attach_callback (sys_env vi fs vn mf mv gs) call set_cookie cx cb mem st = Inr x)"
  using sys_ctx.entry_link [OF agent_ctx_inv [OF assms(1,2)] assms(3,4)] sys_ctx.callback_runs [OF agent_ctx_inv [OF assms(1,2)] assms(3,4)]
  by blast

text \<open>Links own their entries: the links an agent holds correspond one to one to the live entries of its attach
  implementations, so that no entry leaks and none is detached twice.\<close>

theorem attach_links_exact:
  assumes "agent_ctx (sys_env vi fs vn mf mv gs) {sys_impl_new} mg cx" "links_ok (mg_handlers mg)"
  shows "bij_betw (\<lambda>hid. the (map_of (cx_links cx) hid)) (dom (map_of (cx_links cx))) (entries sys_attached (cx_holders cx))"
  by (rule sys_ctx.links_bij [OF agent_ctx_inv [OF assms]])

text \<open>Destroying all links succeeds and leaves no entry in any attach implementation.\<close>

theorem destroy_all_detaches:
  assumes "agent_ctx (sys_env vi fs vn mf mv gs) {sys_impl_new} mg cx" "links_ok (mg_handlers mg)"
  shows "\<exists>cx'. destroy_all_attach_links (sys_env vi fs vn mf mv gs) cx = (Inr 0, cx') \<and> cx_links cx' = [] \<and>
    (\<forall>t \<in> set (cx_holders cx'). si_entries t = Map.empty)"
  using sys_ctx.destroy_all [OF agent_ctx_inv [OF assms]] by fastforce

text \<open>A link that was destroyed is not attached again by walking the table once more: its handler stays marked
  as instantiated.\<close>

theorem destroyed_link_stays_detached:
  assumes "agent_ctx (sys_env vi fs vn mf mv gs) {sys_impl_new} mg cx" "links_ok (mg_handlers mg)"
    "destroy_instantiated_attach_link (sys_env vi fs vn mf mv gs) link_id cx = (Inr 0, cx1)"
    "init_attach_ctx_from_handlers (sys_env vi fs vn mf mv gs) infos mg config cx1 = (r, cx2)"
  shows "map_of (cx_links cx1) link_id = None \<and> map_of (cx_links cx2) link_id = None"
proof -
  note inv = agent_ctx_inv [OF assms(1,2)]
  have l: "map_of (cx_links cx) link_id \<noteq> None" using assms(3) by (cases "map_of (cx_links cx) link_id") (simp_all add: destroy_instantiated_attach_link_def)
  from sys_ctx.destroy_link [OF inv l] assms(3) have cx1: "ctx_inv sys_inv sys_attached (sys_env vi fs vn mf mv gs) mg cx1"
    "cx_links cx1 = omap_del link_id (cx_links cx)" "cx_done cx1 = cx_done cx" by auto
  have "link_id \<in> cx_done cx1" using l inv cx1(3) by (auto simp: ctx_inv_def links_match_def)
  with sys_ctx.init_inv [OF cx1(1) assms(2,4)] cx1(2) show ?thesis by (simp add: grows_def)
qed

text \<open>C23. What the walk attaches: in a new context with the tracer of system calls, a link from a program that loads
  and is not for the GPU to a tracepoint the tracer knows is attached when the walk over the table ends: its
  entry runs the program made from the handler of its program, with its cookie.\<close>

theorem init_attaches_links:
  fixes vi :: "('v, 'w) vm_impl"
  assumes "links_ok (mg_handlers mg)" "get_handler mg (int i) = Inr (LinkH h)" "get_handler mg (lk_prog_id h) = Inr (ProgH ph)"
    "get_handler mg (lk_attach_target_id h) = Inr (PerfH (tracepoint_perf_new pid tp))"
    "initialize_from_string junk tps nrs (dec_int tp) = Inr (SysData nr enter)" "- 1 \<le> nr" "nr < int SYS_TABLE"
    "bpftime_prog_new vi fs vn mf mv (map insn_of_word (pg_insns ph)) (pg_name ph) = Inr p0"
    "0 \<le> fst (load_prog_and_helpers vi gs config p0)" "\<nexists>u. pg_name ph = u @ ''__cuda''"
    "init_attach_ctx_from_handlers (sys_env vi fs vn mf mv gs) infos mg config
       (register_attach_impl [ATTACH_SYSCALL_TRACE] sys_impl_new [] (initialize_from_string junk tps nrs) attach_ctx_new) = (Inr 0, cx')"
  shows "\<exists>aid t a p. map_of (cx_links cx') (int i) = Some (aid, Some 0) \<and> cx_holders cx' = [t] \<and>
    sys_attached t aid = Some (RunProg a (lk_attach_cookie h)) \<and> cx_heap cx' a = Some p \<and> built (sys_env vi fs vn mf mv gs) ph p"
proof -
  let ?env = "sys_env vi fs vn mf mv gs"
  let ?cx = "register_attach_impl [ATTACH_SYSCALL_TRACE] sys_impl_new [] (initialize_from_string junk tps nrs)
      (attach_ctx_new :: ('v, private_data, attach_callback sys_impl) attach_ctx)"
  have cx: "agent_ctx ?env {sys_impl_new} mg ?cx" by (intro agent_ctx.intros) simp
  note inv = agent_ctx_inv [OF cx assms(1)]
  have new: "cx_done ?cx = {}" "cx_holders ?cx = [sys_impl_new]"
    "map_of (cx_impls ?cx) (pf_type (tracepoint_perf_new pid tp)) = Some (0, initialize_from_string junk tps nrs)"
    by (simp_all add: register_attach_impl_def attach_ctx_new_def tracepoint_perf_new_def ATTACH_SYSCALL_TRACE_def PERF_TYPE_TRACEPOINT_def)
  have d: "bindr (attach_argument (tracepoint_perf_new pid tp)) (initialize_from_string junk tps nrs) = Inr (SysData nr enter)"
    using assms(5) by (simp add: attach_argument_def tracepoint_perf_new_def PERF_TYPE_TRACEPOINT_def BPF_TYPE_UPROBE_def BPF_TYPE_URETPROBE_def
        BPF_TYPE_UPROBE_OVERRIDE_def BPF_TYPE_UREPLACE_def)
  have acc: "\<exists>i s'. ae_create ?env (cb, SysData nr enter, pf_type (tracepoint_perf_new pid tp)) s = (Inr i, s')" for cb s
    using assms(6,7) by (auto simp: sys_create_def tracepoint_perf_new_def ATTACH_SYSCALL_TRACE_def PERF_TYPE_TRACEPOINT_def allocate_id_def Let_def)
  have "pf_type (tracepoint_perf_new pid tp) \<noteq> PERF_TYPE_SOFTWARE"
    by (simp add: tracepoint_perf_new_def PERF_TYPE_TRACEPOINT_def PERF_TYPE_SOFTWARE_def)
  from sys_ctx.init_attaches [OF assms(2-4,1) _ _ assms(10) this d acc inv new(1,3) assms(11)] assms(8,9)
  obtain aid kp where l: "map_of (cx_links cx') (int i) = Some (aid, kp)" by auto
  from sys_ctx.init_inv [OF inv assms(1,11)] have inv': "ctx_inv sys_inv sys_attached ?env mg cx'" "grows {} ?cx cx'" by auto
  from inv'(2) new(2) have "length (cx_holders cx') = 1" by (simp add: grows_def)
  then obtain t where t: "cx_holders cx' = [t]" by (auto simp: length_Suc_conv)
  have ok: "progs_ok ?env mg cx'" "links_match sys_attached cx'" "links_right sys_attached mg cx'" using inv'(1) by (auto simp: ctx_inv_def)
  have "(aid, kp) \<in> entries sys_attached (cx_holders cx')" using ok(2) l by (auto simp: links_match_def ran_def)
  then have kp: "kp = Some 0" using t by (auto simp: entries_def)
  obtain a p where a: "lk_prog_id h \<in> cx_done cx'"
    "map_of (cx_progs cx') (lk_prog_id h) = Some a" "cx_heap cx' a = Some p"
    "sys_attached t aid = Some (if is_cuda p then NvStub else RunProg a (lk_attach_cookie h))"
    by (rule links_rightD [OF ok(3) l [unfolded kp]]) (use assms(2) t in auto)
  have b: "built ?env ph p" by (rule progs_okD [OF ok(1) a(2)]) (use a assms(3) in auto)
  have "\<not> is_cuda p" using built_name [OF b] assms(10) by (auto simp: is_cuda_def dest: is_cuda_name)
  with l kp t a b show ?thesis by auto
qed

section \<open>The table of maps for the device\<close>

definition map_info :: "'w map_env \<Rightarrow> handler \<Rightarrow> map_basic_info option" where
  "map_info me h = (case h of MapH m \<Rightarrow> Some \<lparr>mb_enabled = True, mb_key_size = sint (mh_key_size m),
     mb_value_size = sint (get_value_size me m), mb_max_entries = sint (mh_max_entries m)\<rparr> | _ \<Rightarrow> None)"

definition map_info_at :: "'w map_env \<Rightarrow> handler list \<Rightarrow> nat \<Rightarrow> map_basic_info option" where
  "map_info_at me hs j = (if j < length hs then map_info me (hs ! j) else None)"

lemma map_info_loop_simp: "map_info_loop me i (h # hs) infos = (case map_info me h of None \<Rightarrow> map_info_loop me (Suc i) hs infos
    | Some x \<Rightarrow> if length infos \<le> i then Inl Fault else map_info_loop me (Suc i) hs (infos[i := x]))"
  by (cases h) (simp_all add: map_info_def)

lemma map_info_at_Cons: "map_info_at me (h # hs) j = (case j of 0 \<Rightarrow> map_info me h | Suc j \<Rightarrow> map_info_at me hs j)"
  by (cases j) (simp_all add: map_info_at_def)

lemma dom_map_info_Cons:
  "dom (map_info_at me (h # hs)) = (if map_info me h = None then {} else {0}) \<union> Suc ` dom (map_info_at me hs)"
  by (auto simp: map_info_at_Cons image_def split: nat.splits)

lemma map_info_loop_spec: "map_info_loop me i hs infos =
   (if dom (map_info_at me hs) \<subseteq> {j. i + j < length infos}
    then Inr (map (\<lambda>j. if i \<le> j then (case map_info_at me hs (j - i) of None \<Rightarrow> infos ! j | Some x \<Rightarrow> x) else infos ! j) [0..<length infos])
    else Inl Fault)"
proof (induction hs arbitrary: i infos)
  case Nil
  have "dom (map_info_at me []) = {}" by (auto simp: map_info_at_def)
  then show ?case by (auto simp: map_info_at_def intro!: nth_equalityI [symmetric])
next
  case (Cons h hs)
  have at: "map_info_at me (h # hs) (j - i) = (if j = i then map_info me h else map_info_at me hs (j - Suc i))" if "i \<le> j" for j
  proof (cases "j = i")
    case False
    with that have "j - i = Suc (j - Suc i)" by simp
    then show ?thesis using False by (simp add: map_info_at_Cons)
  qed (simp add: map_info_at_Cons)
  have shift: "Suc ` D \<subseteq> {j. i + j < n} \<longleftrightarrow> D \<subseteq> {j. Suc i + j < n}" for D :: "nat set" and n by auto
  show ?case
  proof (cases "map_info me h")
    case None
    then show ?thesis unfolding map_info_loop_simp Cons.IH dom_map_info_Cons
      by (auto simp: shift at Suc_le_eq split: option.splits)
  next
    case (Some x)
    show ?thesis unfolding map_info_loop_simp Cons.IH dom_map_info_Cons
      by (auto simp: Some shift at Suc_le_eq nth_list_update split: option.splits)
  qed
qed

text \<open>The table of maps handed to a device: when every map has a descriptor below the size of the table, entry \<open>j\<close>
  describes the map with descriptor \<open>j\<close> and every other entry is disabled; a map with a larger descriptor makes the
  function reach behind the table, before its own check of the bound.\<close>

theorem map_basic_info_bounds:
  "create_map_basic_info me mg n =
     (if dom (map_info_at me (mg_handlers mg)) \<subseteq> {..<n}
      then Inr (map (\<lambda>j. case map_info_at me (mg_handlers mg) j of Some x \<Rightarrow> x
        | None \<Rightarrow> \<lparr>mb_enabled = False, mb_key_size = 0, mb_value_size = 0, mb_max_entries = 0\<rparr>) [0..<n])
      else Inl Fault)"
  unfolding create_map_basic_info_def map_info_loop_spec by (auto simp: lessThan_def split: option.splits)

section \<open>An example\<close>

text \<open>A program, a tracepoint for the entry of \<^verbatim>\<open>read\<close>, and a link between them.\<close>

definition demo_handlers :: "handler list" where
  "demo_handlers = [ProgH (prog_handler_new [] ''p'' 0), PerfH (tracepoint_perf_new 0 7), LinkH (link_handler_new 0 1 (Some 5))]"

definition demo_mg :: "unit manager" where
  "demo_mg = \<lparr>mg_handlers = demo_handlers, mg_segment = segment_new ()\<rparr>"

definition demo_env :: "(unit, unit, private_data, attach_callback sys_impl) attach_env" where
  "demo_env = sys_env echo_impl [''echo'' \<mapsto> Inr ()] ''echo'' (\<lambda>fd. ucast fd) id \<lparr>hg_kernel = [], hg_ufunc = [], hg_shm_maps = []\<rparr>"

definition demo_parse :: "string \<Rightarrow> private_data res" where
  "demo_parse = initialize_from_string False [7 \<mapsto> ''sys_enter_read''] [''read'' \<mapsto> 0]"

definition demo_ctx :: "(unit, private_data, attach_callback sys_impl) attach_ctx" where
  "demo_ctx = register_attach_impl [ATTACH_SYSCALL_TRACE] sys_impl_new [] demo_parse attach_ctx_new"

lemma demo_handler:
  "get_handler demo_mg 0 = Inr (ProgH (prog_handler_new [] ''p'' 0))" "get_handler demo_mg 1 = Inr (PerfH (tracepoint_perf_new 0 7))"
  "get_handler demo_mg 2 = Inr (LinkH (link_handler_new 0 1 (Some 5)))" "length (mg_handlers demo_mg) = 3"
  by (simp_all add: demo_mg_def demo_handlers_def get_handler_def in_range_def)

lemma demo_alloc: "is_allocated demo_mg 0" "is_allocated demo_mg 1" "is_allocated demo_mg 2"
  by (simp_all add: demo_mg_def demo_handlers_def is_allocated_def)

abbreviation "demo_config \<equiv> agent_config_new\<lparr>ac_jit_enabled := False\<rparr>"

lemma demo_prog:
  obtains p where "bpftime_prog_new echo_impl [''echo'' \<mapsto> Inr ()] ''echo'' (\<lambda>fd. ucast fd) id [] ''p'' = Inr p"
    "load_prog_and_helpers echo_impl \<lparr>hg_kernel = [], hg_ufunc = [], hg_shm_maps = []\<rparr> demo_config p = (0, p\<lparr>pr_jitted := Some False\<rparr>)"
    "pr_name p = ''p''"
  by (simp add: bpftime_prog_new_def create_vm_instance_def load_prog_and_helpers_def agent_config_new_def config_default_def
      add_helper_group_to_prog_def bpftime_prog_load_def echo_impl_def is_cuda_def)

lemma demo_parsed: "demo_parse (dec_int 7) = Inr (SysData 0 True)"
  using stoi_dec_int [of 7]
  by (simp add: demo_parse_def initialize_from_string_def GLOBAL_SYS_ENTER_NAME_def GLOBAL_SYS_EXIT_NAME_def starts_with_def)

lemma demo_walk:
  "\<exists>cx' t. init_attach_ctx_from_handlers demo_env infos demo_mg demo_config demo_ctx = (Inr 0, cx') \<and>
    cx_links cx' = [(2, (1, Some 0))] \<and> cx_holders cx' = [t] \<and> sys_attached t 1 = Some (RunProg 0 (Some 5))"
proof -
  obtain p where p: "bpftime_prog_new echo_impl [''echo'' \<mapsto> Inr ()] ''echo'' (\<lambda>fd. ucast fd) id [] ''p'' = Inr p"
    "load_prog_and_helpers echo_impl \<lparr>hg_kernel = [], hg_ufunc = [], hg_shm_maps = []\<rparr> demo_config p = (0, p\<lparr>pr_jitted := Some False\<rparr>)"
    "pr_name p = ''p''" by (rule demo_prog)
  let ?go = "\<lambda>nv. instantiate_handler_at demo_env infos demo_mg demo_config nv {}"
  let ?cx1 = "demo_ctx\<lparr>cx_heap := [0 \<mapsto> p\<lparr>pr_jitted := Some False\<rparr>], cx_next := 1, cx_progs := [(0, 0)], cx_done := {0}\<rparr>"
  have 0: "?go False 0 demo_ctx = (Inr 0, ?cx1)"
    using p by (simp add: instantiate_handler_at.simps demo_handler instantiate_prog_handler_at_def demo_env_def demo_ctx_def
        register_attach_impl_def attach_ctx_new_def prog_handler_new_def store_prog_def ok_then_def)
  let ?cx2 = "?cx1\<lparr>cx_perfs := [(1, (Some (SysData 0 True), 2))], cx_done := {1, 0}\<rparr>"
  have 1: "?go False 1 ?cx1 = (Inr 0, ?cx2)"
    using demo_parsed by (simp add: instantiate_handler_at.simps demo_handler instantiate_perf_event_handler_at_def demo_ctx_def
        register_attach_impl_def attach_ctx_new_def tracepoint_perf_new_def ok_then_def attach_argument_def
        PERF_TYPE_TRACEPOINT_def PERF_TYPE_SOFTWARE_def ATTACH_SYSCALL_TRACE_def BPF_TYPE_UPROBE_def BPF_TYPE_URETPROBE_def
        BPF_TYPE_UPROBE_OVERRIDE_def BPF_TYPE_UREPLACE_def)
  obtain t where t: "sys_create (\<lambda>xs x. x # xs) (RunProg 0 (Some 5), SysData 0 True, 2) sys_impl_new = (Inr 1, t)"
    "sys_attached t 1 = Some (RunProg 0 (Some 5))"
    by (simp add: sys_create_def ATTACH_SYSCALL_TRACE_def SYS_TABLE_def allocate_id_def sys_impl_new_def sys_attached_def)
  let ?cx3 = "?cx2\<lparr>cx_links := [(2, (1, Some 0))], cx_holders := [t], cx_done := {2, 1, 0}\<rparr>"
  have 2: "?go False 2 ?cx2 = (Inr 0, ?cx3)"
    using p(3) t(1) by (simp add: instantiate_handler_at.simps demo_handler instantiate_bpf_link_handler_at_def create_attach_def demo_ctx_def
        demo_env_def register_attach_impl_def attach_ctx_new_def link_handler_new_def ok_then_def is_cuda_def ATTACH_SYSCALL_TRACE_def returned_def)
  have again: "?go True i ?cx3 = (Inr 0, ?cx3)" if "i \<in> {0, 1, 2}" for i using that by (auto simp: instantiate_handler_at.simps)
  have "init_attach_ctx_from_handlers demo_env infos demo_mg demo_config demo_ctx = (Inr 0, ?cx3)"
    using 0 1 2 again [of 0] again [of 1] again [of 2] demo_alloc
    by (simp add: init_attach_ctx_from_handlers_def demo_handler upt_rec)
  with t(2) show ?thesis by (intro exI [of _ ?cx3] exI [of _ t]) simp
qed

lemma demo_links_ok: "links_ok (mg_handlers demo_mg)"
  by (auto simp: links_ok_def demo_mg_def demo_handlers_def live_prog_def link_handler_new_def less_Suc_eq nth_Cons split: nat.splits)

lemma demo_agent:
  obtains cx t where "init_attach_ctx_from_handlers demo_env (Inr []) demo_mg demo_config demo_ctx = (Inr 0, cx)"
    "cx_links cx = [(2, (1, Some 0))]" "cx_holders cx = [t]" "sys_attached t 1 = Some (RunProg 0 (Some 5))" "agent_ctx demo_env {sys_impl_new} demo_mg cx"
proof -
  from demo_walk [of "Inr []"] obtain cx t where w: "init_attach_ctx_from_handlers demo_env (Inr []) demo_mg demo_config demo_ctx = (Inr 0, cx)"
    "cx_links cx = [(2, (1, Some 0))]" "cx_holders cx = [t]" "sys_attached t 1 = Some (RunProg 0 (Some 5))" by blast
  have "agent_ctx demo_env {sys_impl_new} demo_mg demo_ctx" unfolding demo_ctx_def by (intro agent_ctx.intros) simp
  with w that show thesis by (blast intro: agent_ctx.init)
qed

theorem attach_callbacks_safe_witness:
  "\<exists>cx t x. init_attach_ctx_from_handlers demo_env (Inr []) demo_mg demo_config demo_ctx = (Inr 0, cx) \<and> cx_holders cx = [t] \<and>
     sys_attached t 1 = Some (RunProg 0 (Some 5)) \<and> run_attach_callback demo_env (\<lambda>fn mem w. (0, w)) (\<lambda>c w. w) cx (RunProg 0 (Some 5)) [] (0, ()) = Inr x"
proof -
  obtain cx t where w: "init_attach_ctx_from_handlers demo_env (Inr []) demo_mg demo_config demo_ctx = (Inr 0, cx)"
    "cx_holders cx = [t]" "sys_attached t 1 = Some (RunProg 0 (Some 5))" "agent_ctx demo_env {sys_impl_new} demo_mg cx" by (rule demo_agent)
  have "t \<in> set (cx_holders cx)" using w(2) by simp
  from attach_callbacks_safe [OF w(4) [unfolded demo_env_def] demo_links_ok this w(3), of "\<lambda>fn mem w. (0, w)" "\<lambda>c w. w" "[]" "(0, ())"] w
  show ?thesis unfolding demo_env_def by blast
qed

theorem attach_links_exact_witness:
  "\<exists>cx. agent_ctx demo_env {sys_impl_new} demo_mg cx \<and> dom (map_of (cx_links cx)) = {2} \<and>
     bij_betw (\<lambda>hid. the (map_of (cx_links cx) hid)) {2} (entries sys_attached (cx_holders cx))"
proof -
  obtain cx where w: "cx_links cx = [(2, (1, Some 0))]" "agent_ctx demo_env {sys_impl_new} demo_mg cx" by (rule demo_agent)
  have "dom (map_of (cx_links cx)) = {2}" using w(1) by auto
  with w(2) attach_links_exact [OF w(2) [unfolded demo_env_def] demo_links_ok] show ?thesis by auto
qed

theorem destroy_all_detaches_witness:
  "\<exists>cx cx'. map_of (cx_links cx) 2 = Some (1, Some 0) \<and> destroy_all_attach_links demo_env cx = (Inr 0, cx') \<and> cx_links cx' = [] \<and>
     (\<forall>t \<in> set (cx_holders cx'). si_entries t = Map.empty)"
proof -
  obtain cx where w: "cx_links cx = [(2, (1, Some 0))]" "agent_ctx demo_env {sys_impl_new} demo_mg cx" by (rule demo_agent)
  have "map_of (cx_links cx) 2 = Some (1, Some 0)" using w(1) by simp
  with destroy_all_detaches [OF w(2) [unfolded demo_env_def] demo_links_ok] show ?thesis unfolding demo_env_def by blast
qed

theorem destroyed_link_stays_detached_witness:
  "\<exists>cx cx1 r cx2. map_of (cx_links cx) 2 = Some (1, Some 0) \<and> destroy_instantiated_attach_link demo_env 2 cx = (Inr 0, cx1) \<and>
     init_attach_ctx_from_handlers demo_env (Inr []) demo_mg demo_config cx1 = (r, cx2) \<and> map_of (cx_links cx2) 2 = None"
proof -
  obtain cx where w: "cx_links cx = [(2, (1, Some 0))]" "agent_ctx demo_env {sys_impl_new} demo_mg cx" by (rule demo_agent)
  have l: "map_of (cx_links cx) 2 = Some (1, Some 0)" using w(1) by simp
  then have "map_of (cx_links cx) 2 \<noteq> None" by simp
  from sys_ctx.destroy_link [OF agent_ctx_inv [OF w(2) [unfolded demo_env_def] demo_links_ok] this]
  obtain cx1 where d: "destroy_instantiated_attach_link demo_env 2 cx = (Inr 0, cx1)" unfolding demo_env_def by blast
  obtain r cx2 where i: "init_attach_ctx_from_handlers demo_env (Inr []) demo_mg demo_config cx1 = (r, cx2)" by fastforce
  from destroyed_link_stays_detached [OF w(2) [unfolded demo_env_def] demo_links_ok d [unfolded demo_env_def] i [unfolded demo_env_def]] l d i
  show ?thesis by blast
qed

theorem init_attaches_links_witness:
  "\<exists>cx aid t a. init_attach_ctx_from_handlers demo_env (Inr []) demo_mg demo_config demo_ctx = (Inr 0, cx) \<and>
     map_of (cx_links cx) 2 = Some (aid, Some 0) \<and> cx_holders cx = [t] \<and> sys_attached t aid = Some (RunProg a (Some 5))"
proof -
  obtain cx where w: "init_attach_ctx_from_handlers demo_env (Inr []) demo_mg demo_config demo_ctx = (Inr 0, cx)" by (rule demo_agent)
  obtain p where p: "bpftime_prog_new echo_impl [''echo'' \<mapsto> Inr ()] ''echo'' (\<lambda>fd. ucast fd) id [] ''p'' = Inr p"
    "load_prog_and_helpers echo_impl \<lparr>hg_kernel = [], hg_ufunc = [], hg_shm_maps = []\<rparr> demo_config p = (0, p\<lparr>pr_jitted := Some False\<rparr>)"
    by (rule demo_prog)
  have "\<exists>aid t a q. map_of (cx_links cx) (int 2) = Some (aid, Some 0) \<and> cx_holders cx = [t] \<and>
      sys_attached t aid = Some (RunProg a (lk_attach_cookie (link_handler_new 0 1 (Some 5)))) \<and> cx_heap cx a = Some q \<and>
      built (sys_env echo_impl [''echo'' \<mapsto> Inr ()] ''echo'' (\<lambda>fd. ucast fd) id \<lparr>hg_kernel = [], hg_ufunc = [], hg_shm_maps = []\<rparr>)
        (prog_handler_new [] ''p'' 0) q"
  proof (rule init_attaches_links [OF demo_links_ok])
    show "initialize_from_string False [7 \<mapsto> ''sys_enter_read''] [''read'' \<mapsto> 0] (dec_int 7) = Inr (SysData 0 True)"
      using demo_parsed by (simp add: demo_parse_def)
    show "\<nexists>u. pg_name (prog_handler_new [] ''p'' 0) = u @ ''__cuda''"
      by (auto simp: prog_handler_new_def Cons_eq_append_conv)
    show "init_attach_ctx_from_handlers (sys_env echo_impl [''echo'' \<mapsto> Inr ()] ''echo'' (\<lambda>fd. ucast fd) id
        \<lparr>hg_kernel = [], hg_ufunc = [], hg_shm_maps = []\<rparr>) (Inr []) demo_mg demo_config (register_attach_impl [ATTACH_SYSCALL_TRACE]
        sys_impl_new [] (initialize_from_string False [7 \<mapsto> ''sys_enter_read''] [''read'' \<mapsto> 0]) attach_ctx_new) = (Inr 0, cx)"
      using w by (simp add: demo_env_def demo_ctx_def demo_parse_def)
    show "0 \<le> fst (load_prog_and_helpers echo_impl \<lparr>hg_kernel = [], hg_ufunc = [], hg_shm_maps = []\<rparr> demo_config p)"
      unfolding p(2) by simp
  qed (use p(1) in \<open>simp_all add: demo_handler link_handler_new_def SYS_TABLE_def prog_handler_new_def\<close>)
  with w show ?thesis by (auto simp: link_handler_new_def)
qed

end
