(* ===== verification/Mem_Helpers.thy ===== *)
theory Mem_Helpers
  imports Bpf_Prelude
begin

text \<open>
  Helper functions of src/bpf_helper.cpp that work on the memory of the process: guarded copies
  (\<^verbatim>\<open>bpftime_probe_read\<close>, \<^verbatim>\<open>bpftime_probe_write_user\<close>), strings, the checksum difference and the packet
  functions of user-space XDP (extension/userspace_xdp.h). Memory is a partial function from addresses to bytes;
  an access to an address that is not mapped raises a segmentation fault, which the guarded copies catch. The memory has no
  permissions: a mapped address is one that can be read and written, so that the theorems say nothing of copies into pages that are mapped
  for reading only (there the copy faults as it does on an address that is not mapped).
\<close>

unbundle bit_operations_syntax

section \<open>Memory\<close>

type_synonym umem = "u64 \<rightharpoonup> byte"

definition EFAULT :: int where "EFAULT = 14"

text \<open>\<open>mapped mem a n\<close>: the addresses \<open>a\<close>, \<open>a + 1\<close>, \<open>...\<close> (\<open>n\<close> of them, modulo \<open>2 ^ 64\<close>) can be accessed.\<close>

definition mapped :: "umem \<Rightarrow> u64 \<Rightarrow> nat \<Rightarrow> bool" where
  "mapped mem a n \<longleftrightarrow> (\<forall>i < n. mem (a + of_nat i) \<noteq> None)"

text \<open>A byte-wise copy from the lower addresses up; the flag is \<open>False\<close> when it ends at a segmentation fault.\<close>

fun copy_loop :: "nat \<Rightarrow> u64 \<Rightarrow> u64 \<Rightarrow> umem \<Rightarrow> bool \<times> umem" where
  "copy_loop 0 dst src mem = (True, mem)"
| "copy_loop (Suc n) dst src mem = (case mem src of None \<Rightarrow> (False, mem)
     | Some b \<Rightarrow> if mem dst = None then (False, mem) else copy_loop n (dst + 1) (src + 1) (mem(dst \<mapsto> b)))"

section \<open>Guarded copies\<close>

text \<open>The state of one of the two guards in a thread, and the handler of \<^verbatim>\<open>SIGSEGV\<close> of the process. Handlers are
  addresses, 0 is the null pointer.\<close>

datatype probe_status = NOT_RUNNING | RUNNING_NO_ERROR | RUNNING_ERROR
datatype origin_flag = NOT_CHECKED | NOT_EXIST | EXIST

record probe_guard =
  pg_status :: probe_status
  pg_exist :: origin_flag
  pg_origin :: nat

text \<open>What the calls of \<^verbatim>\<open>sigaction\<close> and \<^verbatim>\<open>sigemptyset\<close> return, and what the local variable \<^verbatim>\<open>original_sa\<close> holds when it
  is not assigned.\<close>

record sig_env =
  se_get :: bool
  se_empty :: bool
  se_set :: bool
  se_junk :: nat

text \<open>The handler of a guard whose address is \<open>self\<close>. \<open>Jump\<close> carries the guard after which the copy is left at its jump
  point; in the last case the handler returns and the access faults again.\<close>

datatype segv_outcome = Jump probe_guard | Origin nat | Uncaught | Retry

definition segv_handler :: "probe_guard \<Rightarrow> segv_outcome" where
  "segv_handler g = (case pg_status g of
     NOT_RUNNING \<Rightarrow> if pg_origin g \<noteq> 0 then Origin (pg_origin g) else Uncaught
   | RUNNING_NO_ERROR \<Rightarrow> Jump (g\<lparr>pg_status := RUNNING_ERROR\<rparr>)
   | RUNNING_ERROR \<Rightarrow> Retry)"

text \<open>Setting up the handler: \<open>Inl\<close> is an early return.\<close>

definition setup_guard :: "sig_env \<Rightarrow> nat \<Rightarrow> probe_guard \<Rightarrow> nat \<Rightarrow> (int + unit) \<times> probe_guard \<times> nat" where
  "setup_guard e self g segv =
     (let g = g\<lparr>pg_status := RUNNING_NO_ERROR\<rparr> in
      if pg_exist g = NOT_CHECKED \<and> \<not> se_get e then (Inl (- EFAULT), g, segv)
      else
        let (g, original_sa) =
              (if pg_exist g = NOT_CHECKED
               then (if segv = 0 then g\<lparr>pg_exist := NOT_EXIST\<rparr> else g\<lparr>pg_exist := EXIST, pg_origin := segv\<rparr>, segv)
               else (g, se_junk e))
        in if original_sa \<noteq> self
           then (if \<not> se_empty e \<or> \<not> se_set e then (Inl (- EFAULT), g, segv) else (Inr (), g, self))
           else (Inr (), g, segv))"

text \<open>The two helpers with the check compiled in. A fault in the copy reaches the handler that is installed.\<close>

definition guarded_copy ::
  "sig_env \<Rightarrow> nat \<Rightarrow> u64 \<Rightarrow> u64 \<Rightarrow> int \<Rightarrow> probe_guard \<times> nat \<times> umem \<Rightarrow> int res \<times> probe_guard \<times> nat \<times> umem" where
  "guarded_copy e self dst src n st = (case st of (g, segv, mem) \<Rightarrow>
     if n < 0 then (Inr (- EFAULT), g, segv, mem)
     else (case setup_guard e self g segv of
         (Inl r, g, segv) \<Rightarrow> (Inr r, g, segv, mem)
       | (Inr _, g, segv) \<Rightarrow>
           let (ok, mem) = copy_loop (nat n) dst src mem in
           if ok then (Inr 0, g\<lparr>pg_status := NOT_RUNNING\<rparr>, segv, mem)
           else if segv \<noteq> self then (Inl Fault, g, segv, mem)
           else (case segv_handler g of
               Jump g \<Rightarrow> (Inr (if pg_status g = RUNNING_ERROR then - EFAULT else 0), g\<lparr>pg_status := NOT_RUNNING\<rparr>, segv, mem)
             | _ \<Rightarrow> (Inl Fault, g, segv, mem))))"

definition bpftime_probe_read ::
  "sig_env \<Rightarrow> nat \<Rightarrow> u64 \<Rightarrow> int \<Rightarrow> u64 \<Rightarrow> probe_guard \<times> nat \<times> umem \<Rightarrow> int res \<times> probe_guard \<times> nat \<times> umem" where
  "bpftime_probe_read e self dst sz ptr = guarded_copy e self dst ptr sz"

definition bpftime_probe_write_user ::
  "sig_env \<Rightarrow> nat \<Rightarrow> u64 \<Rightarrow> u64 \<Rightarrow> int \<Rightarrow> probe_guard \<times> nat \<times> umem \<Rightarrow> int res \<times> probe_guard \<times> nat \<times> umem" where
  "bpftime_probe_write_user e self dst src len = guarded_copy e self dst src len"

section \<open>Strings and blocks\<close>

text \<open>\<^verbatim>\<open>strncpy\<close>: at most \<open>n\<close> bytes, zeros after the end of the string, no terminator when it is longer.\<close>

fun mem_fill :: "nat \<Rightarrow> u64 \<Rightarrow> byte \<Rightarrow> umem \<Rightarrow> umem res" where
  "mem_fill 0 dst b mem = Inr mem"
| "mem_fill (Suc n) dst b mem = (if mem dst = None then Inl Fault else mem_fill n (dst + 1) b (mem(dst \<mapsto> b)))"

fun strncpy :: "nat \<Rightarrow> u64 \<Rightarrow> u64 \<Rightarrow> umem \<Rightarrow> umem res" where
  "strncpy 0 dst src mem = Inr mem"
| "strncpy (Suc n) dst src mem = (case mem src of None \<Rightarrow> Inl Fault
     | Some b \<Rightarrow> if mem dst = None then Inl Fault
         else if b = 0 then mem_fill n (dst + 1) 0 (mem(dst \<mapsto> 0)) else strncpy n (dst + 1) (src + 1) (mem(dst \<mapsto> b)))"

definition bpf_probe_read_str :: "u64 \<Rightarrow> u64 \<Rightarrow> u64 \<Rightarrow> umem \<Rightarrow> (u64 \<times> umem) res" where
  "bpf_probe_read_str buf bufsz ptr mem = bindr (strncpy (unat bufsz) buf ptr mem) (\<lambda>mem. Inr (0, mem))"

definition bpf_get_stack :: "u64 \<Rightarrow> u64 \<Rightarrow> umem \<Rightarrow> (u64 \<times> umem) res" where
  "bpf_get_stack buf sz mem = bindr (mem_fill (unat sz) buf 0 mem) (\<lambda>mem. Inr (sz, mem))"

section \<open>Checksum difference\<close>

text \<open>The buffers as 16-bit numbers. The sum is a 32-bit \<^verbatim>\<open>int\<close>, read back as a signed number at the end.\<close>

definition halves_sum :: "u16 list \<Rightarrow> u32 \<Rightarrow> u32" where
  "halves_sum hs acc = fold (\<lambda>h acc. acc + ucast h) hs acc"

definition bpftime_csum_diff :: "u16 list option \<Rightarrow> int \<Rightarrow> u16 list option \<Rightarrow> int \<Rightarrow> u32 \<Rightarrow> int res" where
  "bpftime_csum_diff from from_size to to_size seed =
     (if from_size mod 4 \<noteq> 0 \<or> to_size mod 4 \<noteq> 0 then Inr (- 22)
      else
        bindr (case to of None \<Rightarrow> Inr seed
          | Some ws \<Rightarrow> if length ws < nat (to_size div 2) then Inl Fault else Inr (halves_sum (take (nat (to_size div 2)) ws) seed)) (\<lambda>c.
        bindr (case from of None \<Rightarrow> Inr c
          | Some ws \<Rightarrow> if length ws < nat (from_size div 2) then Inl Fault
              else Inr (halves_sum (map (\<lambda>h. NOT h) (take (nat (from_size div 2)) ws)) c)) (\<lambda>c.
        Inr (if sint c < 0 then - 22 else sint c))))"

section \<open>Packets\<close>

record xdp_md =
  xd_data :: u64
  xd_data_end :: u64
  xd_buffer_start :: u64
  xd_buffer_end :: u64

definition ETH_HLEN :: u64 where "ETH_HLEN = 14"

text \<open>\<^verbatim>\<open>memmove\<close>: all bytes are read before the first is written.\<close>

definition mem_read :: "umem \<Rightarrow> u64 \<Rightarrow> nat \<Rightarrow> bytes res" where
  "mem_read mem a n = (if mapped mem a n then Inr (map (\<lambda>i. the (mem (a + of_nat i))) [0..<n]) else Inl Fault)"

fun mem_write :: "umem \<Rightarrow> u64 \<Rightarrow> bytes \<Rightarrow> umem res" where
  "mem_write mem a [] = Inr mem"
| "mem_write mem a (b # bs) = (if mem a = None then Inl Fault else mem_write (mem(a \<mapsto> b)) (a + 1) bs)"

definition memmove :: "umem \<Rightarrow> u64 \<Rightarrow> u64 \<Rightarrow> nat \<Rightarrow> umem res" where
  "memmove mem dst src n = bindr (mem_read mem src n) (mem_write mem dst)"

definition bpftime_xdp_adjust_head :: "xdp_md \<Rightarrow> 32 word \<Rightarrow> umem \<Rightarrow> (int \<times> xdp_md \<times> umem) res" where
  "bpftime_xdp_adjust_head xdp offset mem =
     (let data = xd_data xdp + scast offset in
      if data > xd_data_end xdp - ETH_HLEN \<or> data > xd_buffer_end xdp then Inr (- 22, xdp, mem)
      else if data < xd_buffer_start xdp then
        bindr (memmove mem (xd_buffer_start xdp + (xd_buffer_start xdp - data)) (xd_data xdp) (unat (xd_data_end xdp - xd_data xdp)))
          (\<lambda>mem. Inr (0, xdp\<lparr>xd_data := xd_buffer_start xdp\<rparr>, mem))
      else Inr (0, xdp\<lparr>xd_data := data\<rparr>, mem))"

definition bpftime_xdp_adjust_tail :: "xdp_md \<Rightarrow> 32 word \<Rightarrow> int \<times> xdp_md" where
  "bpftime_xdp_adjust_tail xdp delta =
     (let data = xd_data_end xdp + scast delta in
      if data < xd_data xdp \<or> data < xd_buffer_start xdp \<or> data > xd_buffer_end xdp then (- 22, xdp)
      else (0, xdp\<lparr>xd_data_end := data\<rparr>))"

definition bpftime_xdp_load_bytes :: "xdp_md \<Rightarrow> u32 \<Rightarrow> u64 \<Rightarrow> u32 \<Rightarrow> umem \<Rightarrow> (int \<times> umem) res" where
  "bpftime_xdp_load_bytes xdp offset buf len mem =
     (let data = xd_data xdp + ucast offset in
      if data + ucast len > xd_data_end xdp then Inr (- 22, mem)
      else bindr (memmove mem buf data (unat len)) (\<lambda>mem. Inr (0, mem)))"

section \<open>What the copies do\<close>

lemma mapped_Suc: "mapped mem a (Suc n) \<longleftrightarrow> mem a \<noteq> None \<and> mapped mem (a + 1) n"
proof -
  have "(\<forall>i < Suc n. P i) \<longleftrightarrow> P 0 \<and> (\<forall>i < n. P (Suc i))" for P by (auto simp: less_Suc_eq_0_disj)
  then show ?thesis by (simp add: mapped_def ac_simps)
qed

lemma mapped_0: "mapped mem a 0"
  by (simp add: mapped_def)

lemma mapped_2: "mapped mem a 2 \<longleftrightarrow> mem a \<noteq> None \<and> mem (a + 1) \<noteq> None"
  by (simp add: numeral_2_eq_2 mapped_Suc mapped_0)

lemma mapped_upd: "mem d \<noteq> None \<Longrightarrow> mapped (mem(d \<mapsto> b)) a n = mapped mem a n"
  by (auto simp: mapped_def)

lemma copy_loop_dom: "dom (snd (copy_loop n dst src mem)) = dom mem"
proof (induction n arbitrary: dst src mem)
  case (Suc n)
  show ?case
  proof (cases "mem src = None \<or> mem dst = None")
    case False
    then obtain b c where "mem src = Some b" "mem dst = Some c" by auto
    then show ?thesis by (simp add: Suc.IH insert_absorb domI del: fun_upd_apply)
  qed (auto split: option.split)
qed simp

lemma copy_loop_ok: "fst (copy_loop n dst src mem) \<longleftrightarrow> mapped mem src n \<and> mapped mem dst n"
proof (induction n arbitrary: dst src mem)
  case (Suc n)
  show ?case
  proof (cases "mem src = None \<or> mem dst = None")
    case False
    then obtain b c where "mem src = Some b" "mem dst = Some c" by auto
    then show ?thesis by (simp add: Suc.IH mapped_Suc mapped_upd del: fun_upd_apply)
  qed (auto simp: mapped_Suc split: option.split)
qed (simp add: mapped_def)

definition range_of :: "u64 \<Rightarrow> nat \<Rightarrow> u64 set" where
  "range_of a n = (\<lambda>i. a + of_nat i) ` {..<n}"

lemma range_of_Suc: "range_of a (Suc n) = insert a (range_of (a + 1) n)"
  by (auto simp: range_of_def lessThan_Suc_eq_insert_0 image_image ac_simps)

lemma range_of_2: "range_of a 2 = {a, a + 1}"
  by (simp add: numeral_2_eq_2 range_of_Suc range_of_def [of _ 0])

lemma mem_range_of: "i < n \<Longrightarrow> a + of_nat i \<in> range_of a n"
  by (simp add: range_of_def)

lemma not_range_of:
  assumes "n < 2 ^ 64"
  shows "a \<notin> range_of (a + 1) n"
proof
  assume "a \<in> range_of (a + 1) n"
  then obtain i where i: "i < n" "(of_nat (Suc i) :: u64) = 0" by (auto simp: range_of_def ac_simps)
  then have "unat (of_nat (Suc i) :: u64) = 0" by simp
  then have "Suc i mod 2 ^ 64 = 0" unfolding unat_of_nat by simp
  with i(1) assms show False by simp
qed

lemma copy_loop_frame: "a \<notin> range_of dst n \<Longrightarrow> snd (copy_loop n dst src mem) a = mem a"
proof (induction n arbitrary: dst src mem)
  case (Suc n)
  then have a: "a \<noteq> dst" "a \<notin> range_of (dst + 1) n" by (auto simp: range_of_Suc)
  show ?case
  proof (cases "mem src = None \<or> mem dst = None")
    case False
    then obtain b c where "mem src = Some b" "mem dst = Some c" by auto
    then show ?thesis using a by (simp add: Suc.IH)
  qed (auto split: option.split)
qed simp

lemma copy_loop_bytes:
  assumes "fst (copy_loop n dst src mem)" "n \<le> 2 ^ 64" "range_of src n \<inter> range_of dst n = {}" "i < n"
  shows "snd (copy_loop n dst src mem) (dst + of_nat i) = mem (src + of_nat i)"
  using assms
proof (induction n dst src mem arbitrary: i rule: copy_loop.induct)
  case (2 n dst src mem)
  from "2.prems"(1) obtain b where b: "mem src = Some b" "mem dst \<noteq> None" by (auto split: option.splits if_splits)
  with "2.prems"(1) have ok: "fst (copy_loop n (dst + 1) (src + 1) (mem(dst \<mapsto> b)))" by simp
  show ?case
  proof (cases i)
    case 0
    have "dst \<notin> range_of (dst + 1) n" by (rule not_range_of) (use "2.prems"(2) in simp)
    from copy_loop_frame [OF this] b 0 show ?thesis by simp
  next
    case (Suc j)
    have "range_of (src + 1) n \<inter> range_of (dst + 1) n = {}" using "2.prems"(3) by (auto simp: range_of_Suc)
    with "2.IH" [OF b(1) b(2) ok _ this, of j] "2.prems"(2,4) Suc
    have "snd (copy_loop n (dst + 1) (src + 1) (mem(dst \<mapsto> b))) (dst + 1 + of_nat j) = (mem(dst \<mapsto> b)) (src + 1 + of_nat j)"
      by (simp del: fun_upd_apply)
    moreover have "src + 1 + of_nat j \<noteq> dst" using "2.prems"(3,4) Suc mem_range_of [of "Suc j" "Suc n" src]
      by (auto simp: range_of_Suc ac_simps)
    ultimately show ?thesis using b Suc by (auto simp: ac_simps)
  qed
qed simp

text \<open>C37. Guarded copies always come back: with the check compiled in and the signal calls working, reading (or writing)
  \<open>n\<close> bytes of user memory returns 0 exactly when both ranges are mapped and \<^verbatim>\<open>-EFAULT\<close> otherwise, never dies of the
  segmentation fault, changes nothing outside the destination, copies the bytes when the ranges do not overlap,
  and leaves the guard ready for the next call. On later calls an uninitialised variable decides whether the handler
  is installed again, so that it must not happen to hold the address of the handler while another is installed.\<close>

theorem probe_read_guarded:
  assumes "se_get e" "se_empty e" "se_set e" "0 \<le> n" "n < 2 ^ 63" "pg_exist g = NOT_CHECKED \<or> se_junk e \<noteq> self \<or> segv = self"
  shows "\<exists>r g' mem'. bpftime_probe_read e self dst n ptr (g, segv, mem) = (Inr r, g', self, mem') \<and> pg_status g' = NOT_RUNNING \<and>
    r = (if mapped mem ptr (nat n) \<and> mapped mem dst (nat n) then 0 else - EFAULT) \<and> dom mem' = dom mem \<and>
    (\<forall>a. a \<notin> range_of dst (nat n) \<longrightarrow> mem' a = mem a) \<and>
    (r = 0 \<and> range_of ptr (nat n) \<inter> range_of dst (nat n) = {} \<longrightarrow> (\<forall>i < nat n. mem' (dst + of_nat i) = mem (ptr + of_nat i)))"
proof -
  obtain g1 where g1: "setup_guard e self g segv = (Inr (), g1, self)" "pg_status g1 = RUNNING_NO_ERROR"
    using assms(1-3,6) by (cases "pg_exist g = NOT_CHECKED"; cases "segv = self"; cases "segv = 0"; cases "se_junk e = self") (simp_all add: setup_guard_def Let_def)
  obtain ok mem' where c: "copy_loop (nat n) dst ptr mem = (ok, mem')" by fastforce
  have "bpftime_probe_read e self dst n ptr (g, segv, mem) =
      (Inr (if ok then 0 else - EFAULT), (if ok then g1 else g1\<lparr>pg_status := RUNNING_ERROR\<rparr>)\<lparr>pg_status := NOT_RUNNING\<rparr>, self, mem')"
    using assms(4) g1 c by (simp add: bpftime_probe_read_def guarded_copy_def segv_handler_def)
  moreover have "ok = (mapped mem ptr (nat n) \<and> mapped mem dst (nat n))" using copy_loop_ok [of "nat n" dst ptr mem] c by simp
  moreover have "\<forall>a. a \<notin> range_of dst (nat n) \<longrightarrow> mem' a = mem a" using copy_loop_frame c by (metis snd_conv)
  moreover have "dom mem' = dom mem" using copy_loop_dom [of "nat n" dst ptr mem] c by simp
  moreover have "nat n \<le> 2 ^ 64" using assms(4,5) by simp
  then have "ok \<Longrightarrow> range_of ptr (nat n) \<inter> range_of dst (nat n) = {} \<Longrightarrow> \<forall>i < nat n. mem' (dst + of_nat i) = mem (ptr + of_nat i)"
    using copy_loop_bytes [of "nat n" dst ptr mem] c by auto
  ultimately show ?thesis by (auto simp: EFAULT_def)
qed

text \<open>A buffer of eight bytes: two are copied, and a copy that runs out of it is caught.\<close>

definition demo_mem :: umem where
  "demo_mem = (\<lambda>a. if a < 8 then Some (ucast a) else None)"

theorem probe_read_guarded_witness:
  "\<exists>g' mem'. bpftime_probe_read \<lparr>se_get = True, se_empty = True, se_set = True, se_junk = 0\<rparr> 99 0 2 4
       (\<lparr>pg_status = NOT_RUNNING, pg_exist = NOT_CHECKED, pg_origin = 0\<rparr>, 0, demo_mem) = (Inr 0, g', 99, mem') \<and>
     mem' 0 = Some 4 \<and> mem' 1 = Some 5 \<and> mem' 2 = Some 2"
proof -
  let ?e = "\<lparr>se_get = True, se_empty = True, se_set = True, se_junk = 0\<rparr>"
  let ?g = "\<lparr>pg_status = NOT_RUNNING, pg_exist = NOT_CHECKED, pg_origin = 0\<rparr>"
  have r: "range_of 0 2 = {0, 1}" "range_of 4 2 = {4, 5}" by (simp_all add: range_of_2)
  have m: "mapped demo_mem 4 2" "mapped demo_mem 0 2" by (simp_all add: mapped_2 demo_mem_def)
  from probe_read_guarded [of ?e 2 ?g 99 0 0 4 demo_mem] m obtain g' mem' where
    w: "bpftime_probe_read ?e 99 0 2 4 (?g, 0, demo_mem) = (Inr 0, g', 99, mem')" "\<forall>a. a \<notin> range_of 0 2 \<longrightarrow> mem' a = demo_mem a"
      "\<forall>i < 2. mem' (0 + of_nat i) = demo_mem (4 + of_nat i)" by (auto simp: r)
  have "mem' 0 = demo_mem 4" "mem' 1 = demo_mem 5" using w(3) [rule_format, of 0] w(3) [rule_format, of 1] by simp_all
  moreover have "mem' 2 = demo_mem 2" using w(2) r(1) by simp
  ultimately show ?thesis using w(1) by (simp add: demo_mem_def)
qed

section \<open>Checksums\<close>

lemma halves_sum_uint:
  assumes "uint acc + sum_list (map uint hs) < 2 ^ 32"
  shows "uint (halves_sum hs acc) = uint acc + sum_list (map uint hs)"
  using assms
proof (induction hs arbitrary: acc)
  case (Cons h hs)
  have nn: "0 \<le> sum_list (map uint hs)" by (rule sum_list_nonneg) auto
  have u: "uint (ucast h :: u32) = uint h" by (simp add: uint_up_ucast is_up)
  have "uint (acc + ucast h) = uint acc + uint h" using Cons.prems nn by (simp add: uint_word_ariths u)
  with Cons show ?case by (simp add: halves_sum_def ac_simps)
qed (simp add: halves_sum_def)

lemma uint_not: "uint (NOT h :: u16) = 65535 - uint h"
proof -
  have m: "uint (- 1 :: u16) = 65535" by (simp add: unsigned_minus_1_eq_mask mask_eq_exp_minus_1)
  have "uint h < 2 ^ LENGTH(16)" by (rule uint_lt2p)
  then have "uint h \<le> uint (- 1 :: u16)" using m by simp
  then have "uint (- 1 - h) = uint (- 1 :: u16) - uint h" using uint_sub_lem by blast
  moreover have "NOT h = - 1 - h" by (simp add: not_eq_complement)
  ultimately show ?thesis using m by simp
qed

text \<open>C39. The checksum difference: for buffers of whole 32-bit words whose sum stays below \<open>2 ^ 31\<close>, the result is the seed plus the
  16-bit words of the new buffer plus the complements of those of the old one; modulo 65535, the arithmetic of
  internet checksums, it is the seed plus the difference of the two sums.\<close>

theorem csum_diff_spec:
  assumes "even (length fs)" "even (length ts)" "sint seed = uint seed"
    "uint seed + sum_list (map uint ts) + (65535 * int (length fs) - sum_list (map uint fs)) < 2 ^ 31"
  shows "\<exists>r. bpftime_csum_diff (Some fs) (2 * int (length fs)) (Some ts) (2 * int (length ts)) seed = Inr r \<and>
    r = uint seed + sum_list (map uint ts) + (65535 * int (length fs) - sum_list (map uint fs)) \<and>
    r mod 65535 = (uint seed + sum_list (map uint ts) - sum_list (map uint fs)) mod 65535"
proof -
  have not: "sum_list (map uint (map (\<lambda>h. NOT h) fs)) = 65535 * int (length fs) - sum_list (map uint fs)" for fs :: "u16 list"
    by (induction fs) (simp_all add: uint_not algebra_simps)
  have nn: "0 \<le> sum_list (map uint ts)" "0 \<le> sum_list (map uint (map (\<lambda>h. NOT h) fs))" by (rule sum_list_nonneg, auto)+
  let ?c1 = "halves_sum ts seed"
  have c1: "uint ?c1 = uint seed + sum_list (map uint ts)" by (rule halves_sum_uint) (use assms(4) nn not in simp)
  let ?c = "halves_sum (map (\<lambda>h. NOT h) fs) ?c1"
  have c: "uint ?c = uint seed + sum_list (map uint ts) + (65535 * int (length fs) - sum_list (map uint fs))"
    using halves_sum_uint [of ?c1 "map (\<lambda>h. NOT h) fs"] c1 not assms(4) by simp
  then have "uint ?c < 2 ^ 31" using assms(4) by simp
  moreover have nonneg: "- (2 ^ 31) \<le> uint ?c" by (rule order_trans [of _ 0]) auto
  ultimately have s: "sint ?c = uint ?c" by (simp add: sint_uint signed_take_bit_int_eq_self_iff)
  have "0 \<le> uint ?c" by simp
  with s have "\<not> sint ?c < 0" by simp
  then have "bpftime_csum_diff (Some fs) (2 * int (length fs)) (Some ts) (2 * int (length ts)) seed = Inr (uint ?c)"
    using assms(1,2) s by (auto simp: bpftime_csum_diff_def elim!: evenE)
  moreover have "uint ?c mod 65535 = (uint seed + sum_list (map uint ts) - sum_list (map uint fs)) mod 65535"
  proof -
    have "uint ?c = (uint seed + sum_list (map uint ts) - sum_list (map uint fs)) + 65535 * int (length fs)" using c by linarith
    then show ?thesis by (simp only: mod_mult_self2)
  qed
  ultimately show ?thesis using c by blast
qed

theorem csum_diff_spec_witness:
  "bpftime_csum_diff (Some [1, 2]) 4 (Some [3, 4]) 4 10 = Inr 131084 \<and> 131084 mod 65535 = (10 + 7 - 3) mod (65535 :: int)"
  using csum_diff_spec [of "[1, 2]" "[3, 4]" 10] by simp

section \<open>Strings\<close>

lemma mem_fill_spec:
  assumes "mapped mem dst n" "n \<le> 2 ^ 64"
  shows "\<exists>mem'. mem_fill n dst b mem = Inr mem' \<and> (\<forall>i < n. mem' (dst + of_nat i) = Some b) \<and> (\<forall>a. a \<notin> range_of dst n \<longrightarrow> mem' a = mem a)"
  using assms
proof (induction n arbitrary: dst mem)
  case (Suc n)
  have d: "mem dst \<noteq> None" "mapped mem (dst + 1) n" using Suc.prems(1) by (auto simp: mapped_Suc)
  with Suc.IH [of "mem(dst \<mapsto> b)" "dst + 1"] Suc.prems(2) obtain mem' where
    m: "mem_fill n (dst + 1) b (mem(dst \<mapsto> b)) = Inr mem'" "\<forall>i < n. mem' (dst + 1 + of_nat i) = Some b"
      "\<forall>a. a \<notin> range_of (dst + 1) n \<longrightarrow> mem' a = (mem(dst \<mapsto> b)) a" by (auto simp: mapped_upd simp del: fun_upd_apply)
  have "dst \<notin> range_of (dst + 1) n" by (rule not_range_of) (use Suc.prems(2) in simp)
  with m(3) have "mem' dst = Some b" by simp
  then have "\<forall>i < Suc n. mem' (dst + of_nat i) = Some b" using m(2) by (auto simp: less_Suc_eq_0_disj ac_simps)
  moreover have "\<forall>a. a \<notin> range_of dst (Suc n) \<longrightarrow> mem' a = mem a" using m(3) by (auto simp: range_of_Suc)
  ultimately show ?case using m(1) d(1) by (auto simp: mapped_0)
qed simp

text \<open>A string with its terminator at an address.\<close>

definition stored :: "umem \<Rightarrow> u64 \<Rightarrow> bytes \<Rightarrow> bool" where
  "stored mem a bs \<longleftrightarrow> (\<forall>i < length bs. mem (a + of_nat i) = Some (bs ! i))"

lemma stored_Cons: "stored mem a (b # bs) \<longleftrightarrow> mem a = Some b \<and> stored mem (a + 1) bs"
proof -
  have "(\<forall>i < Suc n. P i) \<longleftrightarrow> P 0 \<and> (\<forall>i < n. P (Suc i))" for P n by (auto simp: less_Suc_eq_0_disj)
  then show ?thesis by (simp add: stored_def ac_simps)
qed

lemma stored_frame: "stored mem a bs \<Longrightarrow> d \<notin> range_of a (length bs) \<Longrightarrow> stored (mem(d \<mapsto> b)) a bs"
  by (auto simp: stored_def range_of_def)

lemma strncpy_spec:
  assumes "mapped mem dst n" "n \<le> 2 ^ 64" "stored mem src (cs @ [0])" "0 \<notin> set cs" "range_of src (Suc (length cs)) \<inter> range_of dst n = {}"
  shows "\<exists>mem'. strncpy n dst src mem = Inr mem' \<and> (\<forall>i < n. mem' (dst + of_nat i) = Some (if i < length cs then cs ! i else 0)) \<and>
    (\<forall>a. a \<notin> range_of dst n \<longrightarrow> mem' a = mem a)"
  using assms
proof (induction n arbitrary: dst src mem cs)
  case (Suc n)
  have d: "mem dst \<noteq> None" "mapped mem (dst + 1) n" using Suc.prems(1) by (auto simp: mapped_Suc)
  have new: "dst \<notin> range_of (dst + 1) n" by (rule not_range_of) (use Suc.prems(2) in simp)
  show ?case
  proof (cases cs)
    case Nil
    then have "mem src = Some 0" using Suc.prems(3) by (simp add: stored_Cons)
    moreover from mem_fill_spec [of "mem(dst \<mapsto> 0)" "dst + 1" n 0] d Suc.prems(2) obtain mem' where
      m: "mem_fill n (dst + 1) 0 (mem(dst \<mapsto> 0)) = Inr mem'" "\<forall>i < n. mem' (dst + 1 + of_nat i) = Some 0"
        "\<forall>a. a \<notin> range_of (dst + 1) n \<longrightarrow> mem' a = (mem(dst \<mapsto> 0)) a" by (auto simp: mapped_upd simp del: fun_upd_apply)
    moreover have "mem' dst = Some 0" using m(3) new by simp
    ultimately show ?thesis using d(1) Nil by (auto simp: less_Suc_eq_0_disj range_of_Suc ac_simps)
  next
    case (Cons c cs')
    then have c: "mem src = Some c" "c \<noteq> 0" "stored mem (src + 1) (cs' @ [0])" "0 \<notin> set cs'"
      using Suc.prems(3,4) by (auto simp: stored_Cons)
    have disj: "dst \<notin> range_of (src + 1) (length (cs' @ [0]))" "range_of (src + 1) (Suc (length cs')) \<inter> range_of (dst + 1) n = {}"
      using Suc.prems(5) Cons by (auto simp: range_of_Suc)
    have "n \<le> 2 ^ 64" using Suc.prems(2) by simp
    from Suc.IH [OF _ this stored_frame [OF c(3) disj(1), of c] c(4) disj(2)] d obtain mem' where
      m: "strncpy n (dst + 1) (src + 1) (mem(dst \<mapsto> c)) = Inr mem'"
        "\<forall>i < n. mem' (dst + 1 + of_nat i) = Some (if i < length cs' then cs' ! i else 0)"
        "\<forall>a. a \<notin> range_of (dst + 1) n \<longrightarrow> mem' a = (mem(dst \<mapsto> c)) a" by (auto simp: mapped_upd simp del: fun_upd_apply)
    moreover have "mem' dst = Some c" using m(3) new by simp
    ultimately show ?thesis using d(1) c(1,2) Cons by (auto simp: less_Suc_eq_0_disj range_of_Suc ac_simps)
  qed
qed simp

text \<open>Reading a string: the helper fills the buffer with the string and zeros after it, changes nothing else, and returns 0. So the
  length is not reported, and a string that is as long as the buffer or longer is not terminated, unlike what the
  kernel's helper of that name promises.\<close>

theorem probe_read_str_spec:
  assumes "mapped mem buf (unat bufsz)" "stored mem ptr (cs @ [0])" "0 \<notin> set cs"
    "range_of ptr (Suc (length cs)) \<inter> range_of buf (unat bufsz) = {}"
  shows "\<exists>mem'. bpf_probe_read_str buf bufsz ptr mem = Inr (0, mem') \<and>
    (\<forall>i < unat bufsz. mem' (buf + of_nat i) = Some (if i < length cs then cs ! i else 0)) \<and>
    (\<forall>a. a \<notin> range_of buf (unat bufsz) \<longrightarrow> mem' a = mem a)"
proof -
  have "unat bufsz < 2 ^ LENGTH(64)" by (rule unsigned_less)
  then have "unat bufsz \<le> 2 ^ 64" by simp
  from strncpy_spec [OF assms(1) this assms(2-4)] show ?thesis by (auto simp: bpf_probe_read_str_def)
qed

theorem probe_read_str_spec_witness:
  "\<exists>mem'. bpf_probe_read_str 4 2 1 [1 \<mapsto> 7, 2 \<mapsto> 8, 3 \<mapsto> 0, 4 \<mapsto> 9, 5 \<mapsto> 9] = Inr (0, mem') \<and> mem' 4 = Some 7 \<and> mem' 5 = Some 8"
proof -
  let ?m = "[1 \<mapsto> 7, 2 \<mapsto> 8, 3 \<mapsto> 0, 4 \<mapsto> 9, 5 \<mapsto> 9] :: umem"
  have "mapped ?m 4 (unat (2 :: u64))" by (simp add: mapped_2)
  moreover have "stored ?m 1 ([7, 8] @ [0])" by (simp add: stored_Cons stored_def [of _ _ "[]"])
  moreover have "range_of 1 (Suc (length [7 :: byte, 8])) \<inter> range_of 4 (unat (2 :: u64)) = {}"
    by (simp add: range_of_Suc range_of_2 range_of_def [of _ 0])
  ultimately obtain mem' where m: "bpf_probe_read_str 4 2 1 ?m = Inr (0, mem')"
    "\<forall>i < unat (2 :: u64). mem' (4 + of_nat i) = Some (if i < length [7 :: byte, 8] then [7, 8] ! i else 0)"
    using probe_read_str_spec [of ?m 4 2 1 "[7, 8]"] by auto
  have "mem' 4 = Some 7" "mem' 5 = Some 8" using m(2) [rule_format, of 0] m(2) [rule_format, of 1] by simp_all
  with m(1) show ?thesis by blast
qed

section \<open>Packets stay in their buffer\<close>

text \<open>A packet in its buffer; the buffer is neither at the very start nor at the very end of the address space.\<close>

definition xdp_ok :: "xdp_md \<Rightarrow> bool" where
  "xdp_ok x \<longleftrightarrow> 2 ^ 31 \<le> uint (xd_buffer_start x) \<and> uint (xd_buffer_start x) \<le> uint (xd_data x) \<and>
     uint (xd_data x) \<le> uint (xd_data_end x) \<and> uint (xd_data_end x) \<le> uint (xd_buffer_end x) \<and> uint (xd_buffer_end x) + 2 ^ 33 \<le> 2 ^ 64"

lemma uint_add_int:
  fixes a :: u64
  assumes "0 \<le> uint a + k" "uint a + k < 2 ^ 64"
  shows "uint (a + word_of_int k) = uint a + k"
proof -
  have "uint (a + word_of_int k) = (uint a + k mod 2 ^ 64) mod 2 ^ 64" by (simp add: uint_word_ariths uint_word_of_int)
  also have "\<dots> = (uint a + k) mod 2 ^ 64" by (rule mod_add_right_eq)
  finally show ?thesis using assms by simp
qed

lemmas uint_add_scast = uint_add_int [of _ "sint d" for d :: "32 word", folded scast_eq]
  and uint_add_ucast = uint_add_int [of _ "uint d" for d :: u32, folded ucast_eq]

lemma sint32: "- (2 ^ 31) \<le> sint (d :: 32 word)" "sint (d :: 32 word) < 2 ^ 31"
  using sint_ge [of d] sint_lt [of d] by simp_all

lemma uint32: "0 \<le> uint (d :: u32)" "uint (d :: u32) < 2 ^ 32"
  using uint_lt2p [of d] by simp_all

lemma xdp_head_addr:
  fixes d :: "32 word"
  assumes "xdp_ok x"
  shows "uint (xd_data x + scast d) = uint (xd_data x) + sint d"
  by (rule uint_add_scast) (use assms sint32 [of d] in \<open>auto simp: xdp_ok_def\<close>)

lemma xdp_tail_addr:
  fixes d :: "32 word"
  assumes "xdp_ok x"
  shows "uint (xd_data_end x + scast d) = uint (xd_data_end x) + sint d"
  by (rule uint_add_scast) (use assms sint32 [of d] in \<open>auto simp: xdp_ok_def\<close>)

lemma xdp_eth:
  assumes "xdp_ok x"
  shows "uint (xd_data_end x - ETH_HLEN) = uint (xd_data_end x) - 14"
proof -
  have "uint ETH_HLEN \<le> uint (xd_data_end x)" using assms by (auto simp: xdp_ok_def ETH_HLEN_def)
  then show ?thesis using uint_sub_lem [of ETH_HLEN "xd_data_end x"] by (simp add: ETH_HLEN_def)
qed

lemma xdp_tail_spec:
  assumes "xdp_ok x"
  shows "bpftime_xdp_adjust_tail x d =
    (if uint (xd_data x) \<le> uint (xd_data_end x) + sint d \<and> uint (xd_data_end x) + sint d \<le> uint (xd_buffer_end x)
     then (0, x\<lparr>xd_data_end := xd_data_end x + scast d\<rparr>) else (- 22, x))"
  using assms xdp_tail_addr [OF assms, of d] by (auto simp: bpftime_xdp_adjust_tail_def Let_def word_less_def xdp_ok_def)

lemma xdp_head_spec:
  assumes "xdp_ok x" "uint (xd_buffer_start x) \<le> uint (xd_data x) + sint d"
  shows "bpftime_xdp_adjust_head x d mem =
    Inr (if uint (xd_data x) + sint d \<le> uint (xd_data_end x) - 14
     then (0, x\<lparr>xd_data := xd_data x + scast d\<rparr>, mem) else (- 22, x, mem))"
  using assms xdp_head_addr [OF assms(1), of d] xdp_eth [OF assms(1)]
  by (auto simp: bpftime_xdp_adjust_head_def Let_def word_less_def xdp_ok_def)

text \<open>Writing a block.\<close>

lemma mem_write_total: "mem_write mem a bs = Inl Fault \<and> \<not> mapped mem a (length bs) \<or> (\<exists>mem'. mem_write mem a bs = Inr mem') \<and> mapped mem a (length bs)"
proof (induction bs arbitrary: mem a)
  case (Cons b bs)
  show ?case
  proof (cases "mem a = None")
    case False
    then obtain y where "mem a = Some y" by blast
    then show ?thesis using Cons.IH [of "mem(a \<mapsto> b)" "a + 1"] by (simp add: mapped_Suc mapped_upd del: fun_upd_apply)
  qed (simp add: mapped_Suc)
qed (simp add: mapped_0)

lemma memmove_total:
  "memmove mem dst src n = Inl Fault \<and> \<not> (mapped mem src n \<and> mapped mem dst n) \<or>
   (\<exists>mem'. memmove mem dst src n = Inr mem') \<and> mapped mem src n \<and> mapped mem dst n"
proof (cases "mapped mem src n")
  case True
  then show ?thesis using mem_write_total [of mem dst "map (\<lambda>i. the (mem (src + of_nat i))) [0..<n]"]
    by (auto simp: memmove_def mem_read_def)
qed (simp add: memmove_def mem_read_def)

lemma mem_write_frame:
  assumes "mem_write mem a bs = Inr mem'" "\<forall>i < length bs. c \<noteq> a + of_nat i"
  shows "mem' c = mem c"
  using assms
proof (induction bs arbitrary: mem a)
  case (Cons b bs)
  have "mem' c = (mem(a \<mapsto> b)) c"
  proof (rule Cons.IH)
    show "mem_write (mem(a \<mapsto> b)) (a + 1) bs = Inr mem'" using Cons.prems(1) by (simp split: if_splits)
    show "\<forall>i < length bs. c \<noteq> a + 1 + of_nat i"
    proof (intro allI impI)
      fix i assume "i < length bs"
      with Cons.prems(2) [rule_format, of "Suc i"] show "c \<noteq> a + 1 + of_nat i" by (simp add: ac_simps)
    qed
  qed
  with Cons.prems(2) [rule_format, of 0] show ?case by simp
qed simp

lemma mem_write_at:
  assumes "mem_write mem a bs = Inr mem'" "length bs < 2 ^ 64" "i < length bs"
  shows "mem' (a + of_nat i) = Some (bs ! i)"
  using assms
proof (induction bs arbitrary: mem a i)
  case (Cons b bs)
  from Cons.prems(1) have w: "mem_write (mem(a \<mapsto> b)) (a + 1) bs = Inr mem'" by (simp split: if_splits)
  show ?case
  proof (cases i)
    case 0
    have "a \<noteq> a + 1 + of_nat k" if "k < length bs" for k
    proof -
      have "unat (of_nat (Suc k) :: u64) = Suc k" using that Cons.prems(2) by (simp add: unat_of_nat del: of_nat_Suc)
      then have "(of_nat (Suc k) :: u64) \<noteq> 0" by (metis unat_0 nat.distinct(1))
      then show ?thesis by (simp add: add.assoc)
    qed
    with mem_write_frame [OF w, of a] 0 show ?thesis by simp
  next
    case (Suc k)
    with Cons.IH [OF w, of k] Cons.prems show ?thesis by (simp add: ac_simps)
  qed
qed simp

lemma memmove_spec:
  assumes "n < 2 ^ 64" "mapped mem src n" "mapped mem dst n"
  shows "\<exists>mem'. memmove mem dst src n = Inr mem' \<and> (\<forall>i < n. mem' (dst + of_nat i) = mem (src + of_nat i)) \<and>
    (\<forall>c. (\<forall>i < n. c \<noteq> dst + of_nat i) \<longrightarrow> mem' c = mem c)"
proof -
  let ?bs = "map (\<lambda>i. the (mem (src + of_nat i))) [0..<n]"
  from memmove_total [of mem dst src n] assms(2,3) obtain mem' where m: "memmove mem dst src n = Inr mem'" by blast
  then have w: "mem_write mem dst ?bs = Inr mem'" using assms(2) by (simp add: memmove_def mem_read_def)
  have "mem' (dst + of_nat i) = mem (src + of_nat i)" if "i < n" for i
    using mem_write_at [OF w, of i] that assms(1,2) by (auto simp: mapped_def)
  with m mem_write_frame [OF w] show ?thesis by auto
qed

lemma xdp_load_spec:
  assumes "xdp_ok x"
  shows "bpftime_xdp_load_bytes x offset buf len mem =
    (if uint (xd_data x) + uint offset + uint len \<le> uint (xd_data_end x)
     then bindr (memmove mem buf (xd_data x + ucast offset) (unat len)) (\<lambda>mem. Inr (0, mem)) else Inr (- 22, mem))"
proof -
  have 1: "uint (xd_data x + ucast offset) = uint (xd_data x) + uint offset"
    by (rule uint_add_ucast) (use assms(1) uint32 [of offset] in \<open>auto simp: xdp_ok_def\<close>)
  have "uint (xd_data x + ucast offset + ucast len) = uint (xd_data x + ucast offset) + uint len"
    by (rule uint_add_ucast) (use assms(1) uint32 [of offset] uint32 [of len] 1 in \<open>auto simp: xdp_ok_def\<close>)
  with 1 show ?thesis by (auto simp: bpftime_xdp_load_bytes_def Let_def word_less_def)
qed

text \<open>Loading bytes that lie in the packet, into a buffer that can be written or not.\<close>

definition loads_packet :: "xdp_md \<Rightarrow> u32 \<Rightarrow> u64 \<Rightarrow> u32 \<Rightarrow> umem \<Rightarrow> (int \<times> umem) res \<Rightarrow> bool" where
  "loads_packet x offset buf len mem out \<longleftrightarrow>
     (if mapped mem (xd_data x + ucast offset) (unat len) \<and> mapped mem buf (unat len)
      then \<exists>mem'. out = Inr (0, mem') \<and> (\<forall>i < unat len. mem' (buf + of_nat i) = mem (xd_data x + ucast offset + of_nat i)) \<and>
        (\<forall>c. (\<forall>i < unat len. c \<noteq> buf + of_nat i) \<longrightarrow> mem' c = mem c)
      else out = Inl Fault)"

lemma xdp_load_packet:
  assumes "xdp_ok x" "uint (xd_data x) + uint offset + uint len \<le> uint (xd_data_end x)"
  shows "loads_packet x offset buf len mem (bpftime_xdp_load_bytes x offset buf len mem)"
proof (cases "mapped mem (xd_data x + ucast offset) (unat len) \<and> mapped mem buf (unat len)")
  case True
  have "unat len < 2 ^ 64" using unat_u32_less [of len] by simp
  from memmove_spec [OF this, of mem "xd_data x + ucast offset" buf] True obtain mem' where m: "memmove mem buf (xd_data x + ucast offset) (unat len) = Inr mem'"
    "\<forall>i < unat len. mem' (buf + of_nat i) = mem (xd_data x + ucast offset + of_nat i)" "\<forall>c. (\<forall>i < unat len. c \<noteq> buf + of_nat i) \<longrightarrow> mem' c = mem c"
    by blast
  have "bpftime_xdp_load_bytes x offset buf len mem = Inr (0, mem')" using xdp_load_spec [OF assms(1), of offset buf len mem] assms(2) m(1) by simp
  with True m(2,3) show ?thesis unfolding loads_packet_def by auto
next
  case False
  then have "memmove mem buf (xd_data x + ucast offset) (unat len) = Inl Fault" using memmove_total by blast
  with False show ?thesis using xdp_load_spec [OF assms(1), of offset buf len mem] assms(2) by (simp add: loads_packet_def)
qed

text \<open>C38. Packets stay in their buffer: for a packet inside its buffer, moving the end, or moving the start within the headroom,
  succeeds exactly when the new packet fits (and keeps an Ethernet header), fails with \<^verbatim>\<open>-EINVAL\<close> and no change
  otherwise, and leaves a packet inside its buffer. Loading a range of bytes fails with \<^verbatim>\<open>-EINVAL\<close> and no change exactly when the range
  ends behind the packet; otherwise the destination gets exactly these bytes of the packet and nothing else changes, or the copy faults because one
  of the two ranges cannot be accessed. A start moved below the buffer is not covered: the code moves the packet then, possibly out of the buffer.\<close>

theorem xdp_packet_bounds:
  assumes "xdp_ok x"
  shows "(case bpftime_xdp_adjust_tail x d of (r, x') \<Rightarrow> xdp_ok x' \<and> (r = 0 \<or> r = - 22 \<and> x' = x) \<and>
      (r = 0 \<longleftrightarrow> uint (xd_data_end x) + sint d \<in> {uint (xd_data x)..uint (xd_buffer_end x)})) \<and>
    (uint (xd_buffer_start x) \<le> uint (xd_data x) + sint d \<longrightarrow> (\<exists>r x'. bpftime_xdp_adjust_head x d mem = Inr (r, x', mem) \<and> xdp_ok x' \<and>
      (r = 0 \<or> r = - 22 \<and> x' = x) \<and> (r = 0 \<longleftrightarrow> uint (xd_data x) + sint d + 14 \<le> uint (xd_data_end x)))) \<and>
    (if uint (xd_data x) + uint offset + uint len \<le> uint (xd_data_end x)
     then loads_packet x offset buf len mem (bpftime_xdp_load_bytes x offset buf len mem)
     else bpftime_xdp_load_bytes x offset buf len mem = Inr (- 22, mem))"
proof (intro conjI impI)
  show "case bpftime_xdp_adjust_tail x d of (r, x') \<Rightarrow> xdp_ok x' \<and> (r = 0 \<or> r = - 22 \<and> x' = x) \<and>
      (r = 0 \<longleftrightarrow> uint (xd_data_end x) + sint d \<in> {uint (xd_data x)..uint (xd_buffer_end x)})"
    using xdp_tail_spec [OF assms, of d] xdp_tail_addr [OF assms, of d] assms by (auto simp: xdp_ok_def)
  show "\<exists>r x'. bpftime_xdp_adjust_head x d mem = Inr (r, x', mem) \<and> xdp_ok x' \<and>
      (r = 0 \<or> r = - 22 \<and> x' = x) \<and> (r = 0 \<longleftrightarrow> uint (xd_data x) + sint d + 14 \<le> uint (xd_data_end x))"
    if "uint (xd_buffer_start x) \<le> uint (xd_data x) + sint d"
    using xdp_head_spec [OF assms that, of mem] xdp_head_addr [OF assms, of d] assms that by (auto simp: xdp_ok_def)
  show "if uint (xd_data x) + uint offset + uint len \<le> uint (xd_data_end x)
     then loads_packet x offset buf len mem (bpftime_xdp_load_bytes x offset buf len mem)
     else bpftime_xdp_load_bytes x offset buf len mem = Inr (- 22, mem)"
    using xdp_load_packet [OF assms] xdp_load_spec [OF assms] by simp
qed

text \<open>A packet of 20 bytes with 16 bytes of headroom.\<close>

definition demo_xdp :: xdp_md where
  "demo_xdp = \<lparr>xd_data = 2147483664, xd_data_end = 2147483684, xd_buffer_start = 2147483648, xd_buffer_end = 2147483684\<rparr>"

lemma demo_xdp_ok: "xdp_ok demo_xdp"
  by (simp add: xdp_ok_def demo_xdp_def)

definition packet_mem :: umem where
  "packet_mem = (\<lambda>a. if 2147483648 \<le> a \<and> a < 2147483684 then Some 7 else if a = 100 then Some 0 else None)"

theorem xdp_packet_bounds_witness:
  "(\<exists>x'. bpftime_xdp_adjust_head demo_xdp (- 8) packet_mem = Inr (0, x', packet_mem) \<and> xdp_ok x') \<and>
   xdp_ok (snd (bpftime_xdp_adjust_tail demo_xdp (- 8))) \<and>
   (\<exists>mem'. bpftime_xdp_load_bytes demo_xdp 19 100 1 packet_mem = Inr (0, mem') \<and> mem' 100 = Some 7) \<and>
   bpftime_xdp_load_bytes demo_xdp 20 100 1 packet_mem = Inr (- 22, packet_mem)"
proof -
  have s: "sint (- 8 :: 32 word) = - 8" by simp
  have m: "mapped packet_mem (xd_data demo_xdp + ucast (19 :: u32)) (unat (1 :: u32))" "mapped packet_mem 100 (unat (1 :: u32))"
    by (simp_all add: mapped_def packet_mem_def demo_xdp_def)
  from xdp_packet_bounds [OF demo_xdp_ok, of "- 8" packet_mem 19 1 100] m obtain mem' where
    "bpftime_xdp_load_bytes demo_xdp 19 100 1 packet_mem = Inr (0, mem')" "mem' 100 = packet_mem (xd_data demo_xdp + ucast (19 :: u32))"
    by (auto simp: demo_xdp_def loads_packet_def)
  moreover have "packet_mem (xd_data demo_xdp + ucast (19 :: u32)) = Some 7" by (simp add: packet_mem_def demo_xdp_def)
  ultimately show ?thesis
    using xdp_packet_bounds [OF demo_xdp_ok, of "- 8" packet_mem 20 1 100] s by (auto simp: demo_xdp_def)
qed

text \<open>A start that is moved below the buffer: the packet is moved up by the missing bytes, and out of the buffer when it
  does not fit there; and its end is not moved with it.\<close>

theorem xdp_adjust_head_leaves_buffer:
  assumes "xdp_ok x" "uint (xd_data x) + sint d < uint (xd_buffer_start x)" "uint (xd_data x) + sint d + 14 \<le> uint (xd_data_end x)"
    "\<forall>a. mem a \<noteq> None \<longrightarrow> uint (xd_buffer_start x) \<le> uint a \<and> uint a < uint (xd_buffer_end x)" "uint (xd_data x) < uint (xd_data_end x)"
    "uint (xd_buffer_end x) < 2 * uint (xd_buffer_start x) - (uint (xd_data x) + sint d) + (uint (xd_data_end x) - uint (xd_data x))"
    "uint (xd_buffer_end x) < 2 ^ 62"
  shows "bpftime_xdp_adjust_head x d mem = Inl Fault"
proof -
  let ?new = "xd_data x + scast d" and ?n = "uint (xd_data_end x) - uint (xd_data x)"
  let ?dst = "xd_buffer_start x + (xd_buffer_start x - ?new)"
  note new = xdp_head_addr [OF assms(1), of d]
  have gap: "uint (xd_buffer_start x - ?new) = uint (xd_buffer_start x) - uint ?new"
    using uint_sub_lem [of ?new "xd_buffer_start x"] assms(2) new by simp
  have n: "uint (xd_data_end x - xd_data x) = ?n" using uint_sub_lem [of "xd_data x" "xd_data_end x"] assms(5) by simp
  have dst: "uint ?dst = 2 * uint (xd_buffer_start x) - uint ?new"
    using uint_add_int [of "xd_buffer_start x" "uint (xd_buffer_start x - ?new)"] gap assms(1,2,7) new sint32 [of d] by (auto simp: xdp_ok_def)
  have last: "uint (?dst + of_nat (nat (?n - 1))) = uint ?dst + (?n - 1)"
    using uint_add_int [of ?dst "?n - 1"] dst assms(1,2,5,7) new sint32 [of d] by (auto simp: xdp_ok_def)
  have "mem (?dst + of_nat (nat (?n - 1))) = None" using assms(4,6) last dst new by force
  moreover have "nat (?n - 1) < nat ?n" using assms(5) by simp
  ultimately have "\<not> mapped mem ?dst (nat ?n)" unfolding mapped_def by blast
  then have "memmove mem ?dst (xd_data x) (nat ?n) = Inl Fault" using memmove_total by blast
  moreover have "unat (xd_data_end x - xd_data x) = nat ?n" using n by (simp add: unat_eq_nat_uint)
  moreover have "\<not> (?new > xd_data_end x - ETH_HLEN \<or> ?new > xd_buffer_end x)" "?new < xd_buffer_start x"
    using assms(1-3) new xdp_eth [OF assms(1)] by (auto simp: word_less_def xdp_ok_def)
  ultimately show ?thesis by (simp add: bpftime_xdp_adjust_head_def Let_def)
qed

end
