(* ===== verification/Map_Helpers.thy ===== *)
theory Map_Helpers
  imports Shm_Api
begin

text \<open>
  The helper functions through which programs use maps (src/bpf_helper.cpp): element access, ring buffers, perf
  event output and tail calls, on the shared memory object of \<open>Shm_Internal\<close> and the C interface of \<open>Shm_Api\<close>.
  A program names a map by a 64-bit value with the descriptor in its upper half. A pointer to a ring buffer sample
  is the address of the ring buffer and an offset into its data area; the descriptor a sample is submitted to is read
  from the four bytes before it.
\<close>

unbundle bit_operations_syntax

section \<open>Elements\<close>

text \<open>\<^verbatim>\<open>map >> 32\<close>, converted to \<^verbatim>\<open>int\<close>.\<close>

definition fd_of_map :: "u64 \<Rightarrow> int" where
  "fd_of_map m = sint (ucast (drop_bit 32 m) :: u32)"

definition bpftime_map_lookup_elem_helper :: "'w map_env \<Rightarrow> u64 \<Rightarrow> bytes option \<Rightarrow> 'w shm \<Rightarrow> ptr res \<times> 'w shm" where
  "bpftime_map_lookup_elem_helper env m key s = shm_map_lookup_elem env (fd_of_map m) key False s"

definition bpftime_map_update_elem_helper ::
  "'w map_env \<Rightarrow> u64 \<Rightarrow> bytes option \<Rightarrow> bytes \<Rightarrow> u64 \<Rightarrow> 'w shm \<Rightarrow> int res \<times> 'w shm" where
  "bpftime_map_update_elem_helper env m key val flags s = shm_map_update_elem env (fd_of_map m) key val flags False s"

definition bpftime_map_delete_elem_helper :: "'w map_env \<Rightarrow> u64 \<Rightarrow> bytes option \<Rightarrow> 'w shm \<Rightarrow> int res \<times> 'w shm" where
  "bpftime_map_delete_elem_helper env m key s = shm_delete_elem env (fd_of_map m) key False s"

section \<open>Ring buffers\<close>

definition ring_ptr :: "'w shm \<Rightarrow> int \<Rightarrow> nat option" where
  "ring_ptr s fd = (case shm_try_get_ringbuf_map_impl s fd of Some p \<Rightarrow> p | None \<Rightarrow> None)"

text \<open>Storing bytes through a sample pointer.\<close>

definition sample_write :: "nat \<times> nat \<Rightarrow> bytes \<Rightarrow> 'w shm \<Rightarrow> unit res \<times> 'w shm" where
  "sample_write q bs = on_ringbuf (Some (fst q)) (\<lambda>rb. case rb_write rb (snd q) bs of
     Inl e \<Rightarrow> (Inl e, rb) | Inr rb \<Rightarrow> (Inr (), rb))"

definition bpf_ringbuf_reserve :: "u64 \<Rightarrow> nat \<Rightarrow> u64 \<Rightarrow> 'w shm \<Rightarrow> (nat \<times> nat) res \<times> 'w shm" where
  "bpf_ringbuf_reserve m sz flags s = (case bpftime_ringbuf_reserve (fd_of_map m) sz s of
     (Inl e, s') \<Rightarrow> (Inl e, s')
   | (Inr sample, s') \<Rightarrow> (case ring_ptr s (fd_of_map m) of Some a \<Rightarrow> (Inr (a, sample), s') | None \<Rightarrow> (Inl Fault, s')))"

text \<open>\<^verbatim>\<open>ptr[-1]\<close>. The data area follows the page of the producer position, whose bytes after the position are zero:
  what lies before the first sample reads as 0.\<close>

definition header_fd :: "nat \<times> nat \<Rightarrow> 'w shm \<Rightarrow> int res \<times> 'w shm" where
  "header_fd q = on_ringbuf (Some (fst q)) (\<lambda>rb.
     (bindr (or_fault (rd (replicate 4 0 @ rb_data rb) (snd q) 4)) (\<lambda>b. bindr (or_fault (ld32 b)) (\<lambda>w. Inr (sint w))), rb))"

text \<open>\<open>place a\<close> is the address of the data area of the ring buffer \<open>a\<close>: a pointer that is handed to another ring
  buffer is an offset there, in 64-bit arithmetic.\<close>

definition submit_sample ::
  "(nat \<Rightarrow> nat) \<Rightarrow> int \<Rightarrow> nat \<times> nat \<Rightarrow> bool \<Rightarrow> 'w shm \<Rightarrow> unit res \<times> 'w shm" where
  "submit_sample place fd q discard s =
     bpftime_ringbuf_submit fd (case ring_ptr s fd of
         Some a \<Rightarrow> (if a = fst q then snd q else (place (fst q) + snd q + 2 ^ 64 - place a) mod 2 ^ 64)
       | None \<Rightarrow> snd q) discard s"

text \<open>A failed submission is not reported.\<close>

definition ignoring :: "'a res \<times> 's \<Rightarrow> int res \<times> 's" where
  "ignoring out = (case out of (Inl Fault, s) \<Rightarrow> (Inl Fault, s) | (Inl Throw, s) \<Rightarrow> (Inl Throw, s) | (_, s) \<Rightarrow> (Inr 0, s))"

definition bpf_ringbuf_submit :: "(nat \<Rightarrow> nat) \<Rightarrow> nat \<times> nat \<Rightarrow> u64 \<Rightarrow> 'w shm \<Rightarrow> int res \<times> 'w shm" where
  "bpf_ringbuf_submit place q flags s = (case header_fd q s of
     (Inl e, s) \<Rightarrow> (Inl e, s) | (Inr fd, s) \<Rightarrow> ignoring (submit_sample place fd q False s))"

definition bpf_ringbuf_discard :: "(nat \<Rightarrow> nat) \<Rightarrow> nat \<times> nat \<Rightarrow> u64 \<Rightarrow> 'w shm \<Rightarrow> int res \<times> 'w shm" where
  "bpf_ringbuf_discard place q flags s = (case header_fd q s of
     (Inl e, s) \<Rightarrow> (Inl e, s) | (Inr fd, s) \<Rightarrow> ignoring (submit_sample place fd q True s))"

definition bpf_ringbuf_output :: "(nat \<Rightarrow> nat) \<Rightarrow> u64 \<Rightarrow> bytes \<Rightarrow> u64 \<Rightarrow> 'w shm \<Rightarrow> int res \<times> 'w shm" where
  "bpf_ringbuf_output place m data flags s = (case bpf_ringbuf_reserve m (length data) 0 s of
     (Inl e, s) \<Rightarrow> (Inl e, s)
   | (Inr q, s) \<Rightarrow> (case sample_write q data s of
         (Inl e, s) \<Rightarrow> (Inl e, s)
       | (Inr _, s) \<Rightarrow> ignoring (submit_sample place (fd_of_map m) q False s)))"

section \<open>Perf event output\<close>

text \<open>\<open>cpu\<close> is the answer of \<^verbatim>\<open>sched_getcpu\<close> (-1 when it fails), \<open>accepts\<close> tells which masks the kernel lets the
  thread bind to, and \<open>aff\<close> is the mask of the thread.\<close>

definition cpu_mask :: "int \<Rightarrow> int set" where
  "cpu_mask cpu = (if 0 \<le> cpu \<and> cpu < 1024 then {cpu} else {})"

definition setaffinity :: "(int set \<Rightarrow> bool) \<Rightarrow> int set \<Rightarrow> int set \<Rightarrow> bool \<times> int set" where
  "setaffinity accepts cpus aff = (if accepts cpus then (True, cpus) else (False, aff))"

definition perf_slot :: "'w shm \<Rightarrow> int \<Rightarrow> ptr \<Rightarrow> int res" where
  "perf_slot s fd p = (case (shm_handler s fd, sh_manager s, p) of
     (Some (MapH h), Some mg, PSlot k) \<Rightarrow> (case mh_impl h of
         Some a \<Rightarrow> (case sg_objs (mg_segment mg) a of
             Some (IPerfArray d) \<Rightarrow> if k < length d then Inr (sint (d ! k)) else Inl Fault
           | _ \<Rightarrow> Inl Fault)
       | None \<Rightarrow> Inl Fault)
   | _ \<Rightarrow> Inl Fault)"

definition perf_array_output :: "'w map_env \<Rightarrow> int \<Rightarrow> int \<Rightarrow> bytes \<Rightarrow> 'w shm \<Rightarrow> (bool \<times> int res) \<times> 'w shm" where
  "perf_array_output env cpu fd data s =
     (case shm_map_lookup_elem env fd (Some (st32 (word_of_int cpu))) False s of
        (Inl Fault, s) \<Rightarrow> ((False, Inl Fault), s)
      | (Inl Throw, s) \<Rightarrow> ((False, Inl Throw), s)
      | (Inl e, s) \<Rightarrow> ((False, Inl (Errno EINVAL)), s)
      | (Inr p, s) \<Rightarrow> (case perf_slot s fd p of
            Inl e \<Rightarrow> ((False, Inl e), s)
          | Inr pfd \<Rightarrow> (let (r, s) = bpftime_perf_event_output pfd data s in ((r \<noteq> Inl Fault \<and> r \<noteq> Inl Throw, r), s))))"

text \<open>The flag says whether the end of the function, which restores the mask, is reached.\<close>

definition perf_output_at ::
  "'w map_env \<Rightarrow> (nat option \<Rightarrow> bytes \<Rightarrow> 'w \<Rightarrow> int \<times> 'w) \<Rightarrow> int \<Rightarrow> int \<Rightarrow> bytes \<Rightarrow> 'w shm \<Rightarrow> (bool \<times> int res) \<times> 'w shm" where
  "perf_output_at env out cpu fd data s = (case bpftime_map_get_info s fd of
     Inl e \<Rightarrow> ((False, Inl e), s)
   | Inr (attr, nm, ty) \<Rightarrow>
       if ty = BPF_MAP_TYPE_PERF_EVENT_ARRAY then perf_array_output env cpu fd data s
       else if me_libbpf env \<and> ty = KERNEL_USER_MAP_OFFSET + BPF_MAP_TYPE_PERF_EVENT_ARRAY then
         (let (r, s) = bpftime_shared_perf_event_output out fd data s in ((r \<noteq> Inl Fault, r), s))
       else ((True, Inl Silent), s))"

definition bpf_perf_event_output ::
  "'w map_env \<Rightarrow> (nat option \<Rightarrow> bytes \<Rightarrow> 'w \<Rightarrow> int \<times> 'w) \<Rightarrow> int \<Rightarrow> (int set \<Rightarrow> bool) \<Rightarrow> u64 \<Rightarrow> bytes \<Rightarrow> int set \<times> 'w shm \<Rightarrow>
     int res \<times> int set \<times> 'w shm" where
  "bpf_perf_event_output env out cpu accepts m data st = (let (aff, s) = st in
     if cpu = - 1 then (Inl Silent, aff, s)
     else case setaffinity accepts (cpu_mask cpu) aff of
         (False, aff) \<Rightarrow> (Inl (Errno EINVAL), aff, s)
       | (True, bound) \<Rightarrow> (let ((done, r), s) = perf_output_at env out cpu (fd_of_map m) data s in
           (r, if done then snd (setaffinity accepts aff bound) else bound, s)))"

section \<open>Tail calls\<close>

text \<open>The kernel calls a tail call makes. \<open>run fd ctx\<close> is the answer of \<^verbatim>\<open>BPF_PROG_TEST_RUN\<close>: an error code
  and the return value of the program.\<close>

datatype kcall = TestRun int bytes | Close int

definition bpftime_tail_call ::
  "'w map_env \<Rightarrow> (int \<Rightarrow> bytes \<Rightarrow> int \<times> u32) \<Rightarrow> bytes option \<Rightarrow> u64 \<Rightarrow> u64 \<Rightarrow> 'w shm \<Rightarrow> (u64 res \<times> kcall list) \<times> 'w shm" where
  "bpftime_tail_call env run ctx prog_array index s =
     (let fd = fd_of_map prog_array in
      if \<not> me_libbpf env then ((Inl (NegErrno ENOTSUP), []), s)
      else if \<not> is_prog_array_map_fd s fd then ((Inl Silent, []), s)
      else case bpftime_map_lookup_elem env fd (Some (st32 (ucast index))) s of
          (Inl Fault, s) \<Rightarrow> ((Inl Fault, []), s)
        | (Inl e, s) \<Rightarrow> ((Inl Silent, []), s)
        | (Inr (PTls w), s) \<Rightarrow>
            (let context = (case ctx of None \<Rightarrow> Some (replicate 64 0) | Some b \<Rightarrow> rd b 0 64) in
             case context of None \<Rightarrow> ((Inl Fault, []), s)
             | Some c \<Rightarrow> (let (e, retval) = run (sint w) c in
                 ((if e < 0 then Inl Silent else Inr (ucast retval), [TestRun (sint w) c, Close (sint w)]), s)))
        | (Inr _, s) \<Rightarrow> ((Inl Fault, []), s))"

section \<open>The current process, thread and processor\<close>

definition bpftime_get_current_pid_tgid :: "32 word \<Rightarrow> 32 word \<Rightarrow> u64" where
  "bpftime_get_current_pid_tgid tgid tid = push_bit 32 (scast tgid) OR scast tid"

definition bpf_get_current_uid_gid :: "32 word \<Rightarrow> u64" where
  "bpf_get_current_uid_gid gid = push_bit 32 (scast gid) OR scast gid"

definition bpftime_get_attach_cookie :: "u64 option \<Rightarrow> u64" where
  "bpftime_get_attach_cookie cookie = (case cookie of Some c \<Rightarrow> c | None \<Rightarrow> 0)"

definition bpftime_get_smp_processor_id :: "32 word \<Rightarrow> u64" where
  "bpftime_get_smp_processor_id cpu = (if cpu = - 1 then 0 else scast cpu)"

definition bpftime_ktime_get_coarse_ns :: "u64 \<Rightarrow> u64 \<Rightarrow> u64" where
  "bpftime_ktime_get_coarse_ns sec nsec = sec * 1000000000 + nsec"

section \<open>One ring buffer\<close>

text \<open>The descriptor \<open>fd\<close> is a ring buffer map whose object is \<open>rb\<close> at the address \<open>a\<close>.\<close>

definition ring_at :: "'w shm \<Rightarrow> int \<Rightarrow> nat \<Rightarrow> ringbuf \<Rightarrow> bool" where
  "ring_at s fd a rb \<longleftrightarrow> (\<exists>h mg. shm_handler s fd = Some (MapH h) \<and> mh_type h = BPF_MAP_TYPE_RINGBUF \<and> mh_impl h = Some a \<and>
     sh_manager s = Some mg \<and> sg_objs (mg_segment mg) a = Some (IRingbuf rb))"

definition set_ring :: "nat \<Rightarrow> ringbuf \<Rightarrow> 'w shm \<Rightarrow> 'w shm" where
  "set_ring a rb s = (case sh_manager s of None \<Rightarrow> s
     | Some mg \<Rightarrow> s\<lparr>sh_manager := Some (mg\<lparr>mg_segment := set_obj a (IRingbuf rb) (mg_segment mg)\<rparr>)\<rparr>)"

lemma ring_at_set [simp]: "ring_at s fd a rb \<Longrightarrow> ring_at (set_ring a rb' s) fd a rb'"
  by (auto simp: ring_at_def set_ring_def shm_handler_def set_obj_def)

lemma set_ring_twice [simp]: "set_ring a rb (set_ring a rb' s) = set_ring a rb s"
  by (simp add: set_ring_def set_obj_def split: option.split)

lemma set_ring_same: "ring_at s fd a rb \<Longrightarrow> set_ring a rb s = s"
  by (auto simp: ring_at_def set_ring_def set_obj_def fun_upd_idem)

lemma ring_at_impl: "ring_at s fd a rb \<Longrightarrow> shm_try_get_ringbuf_map_impl s fd = Some (Some a)"
  by (auto simp: ring_at_def shm_try_get_ringbuf_map_impl_def try_get_ringbuf_map_impl_def)

lemma ring_at_ptr: "ring_at s fd a rb \<Longrightarrow> ring_ptr s fd = Some a"
  by (simp add: ring_ptr_def ring_at_impl)

lemma on_ringbuf_at: "ring_at s fd a rb \<Longrightarrow> on_ringbuf (Some a) f s = (let (r, rb') = f rb in (r, set_ring a rb' s))"
  by (auto simp: ring_at_def on_ringbuf_def on_segment_def set_ring_def split: prod.split)

lemmas ring_at_simps = ring_at_impl ring_at_ptr on_ringbuf_at

lemma reserve_at:
  assumes "ring_at s (fd_of_map m) a rb" "rb_reserve rb sz (word_of_int (fd_of_map m)) = Inr (sample, rb')"
  shows "bpf_ringbuf_reserve m sz flags s = (Inr (a, sample), set_ring a rb' s)"
  using assms(2) by (simp add: bpf_ringbuf_reserve_def bpftime_ringbuf_reserve_def ring_at_simps [OF assms(1)])

lemma write_at:
  assumes "ring_at s fd a rb" "rb_write rb sample bs = Inr rb'"
  shows "sample_write (a, sample) bs s = (Inr (), set_ring a rb' s)"
  using assms(2) by (simp add: sample_write_def on_ringbuf_at [OF assms(1)])

lemma submit_at:
  assumes "ring_at s fd a rb" "rb_submit rb sample discard = Inr rb'"
  shows "submit_sample place fd (a, sample) discard s = (Inr (), set_ring a rb' s)"
  using assms(2) by (simp add: submit_sample_def bpftime_ringbuf_submit_def ring_at_simps [OF assms(1)])

lemma rb_output_parts:
  assumes "rb_output rb bs fd = Inr rb'"
  obtains sample rb1 rb2 where "rb_reserve rb (length bs) fd = Inr (sample, rb1)" "rb_write rb1 sample bs = Inr rb2"
    "rb_submit rb2 sample False = Inr rb'"
  using assms by (auto simp: rb_output_def bindr_eq_Inr split: prod.splits)

lemma ringbuf_output_at:
  assumes at: "ring_at s (fd_of_map m) a rb" and o: "rb_output rb bs (word_of_int (fd_of_map m)) = Inr rb'"
  shows "bpf_ringbuf_output place m bs flags s = (Inr 0, set_ring a rb' s)"
proof -
  from rb_output_parts [OF o] obtain sample rb1 rb2 where p:
    "rb_reserve rb (length bs) (word_of_int (fd_of_map m)) = Inr (sample, rb1)" "rb_write rb1 sample bs = Inr rb2"
    "rb_submit rb2 sample False = Inr rb'" by metis
  from at have at1: "ring_at (set_ring a rb1 s) (fd_of_map m) a rb1" and at2: "ring_at (set_ring a rb2 s) (fd_of_map m) a rb2"
    by simp_all
  show ?thesis
    using submit_at [OF at2 p(3), of place]
    by (simp add: bpf_ringbuf_output_def reserve_at [OF at p(1)] write_at [OF at1 p(2)] ignoring_def)
qed

lemma poll_at:
  assumes "ring_at s fd a rb" "rb_fetch_data fuel cb rb = Fetched n out rb'"
  shows "bpftime_poll_from_ringbuf fuel fd cb s = (Inr (Some (n, out)), set_ring a rb' s)"
  using assms(2) by (simp add: bpftime_poll_from_ringbuf_def ring_at_simps [OF assms(1)])

text \<open>The map pointer of a descriptor.\<close>

lemma fd_of_map_ptr: "is_map_fd s (sint fd) \<Longrightarrow> fd_of_map (map_ptr_by_fd s fd) = sint fd"
  by (simp only: fd_of_map_def map_ptr_by_fd_def map_ptr_fd if_False not_True_eq_False)

lemma ring_at_is_map: "ring_at s fd a rb \<Longrightarrow> is_map_fd s fd"
  by (auto simp: ring_at_def is_map_fd_def)

text \<open>C30. Sending a record: \<^verbatim>\<open>bpf_ringbuf_output\<close> on the pointer a program has for a ring buffer map, followed by a poll
  of its descriptor, delivers the earlier committed records and then the data, in order, and leaves the ring empty; whatever else
  is in the shared memory is as before. This is for a record that fits, in a ring with no busy record, and whose header does not fall into the last slot of
  the data area: there the data is delivered with stale bytes (\<open>ringbuf_last_slot_stale\<close>).\<close>

theorem ringbuf_helper_round_trip:
  assumes at: "ring_at s (sint fd) a rb" and "rb_rel rb rs" "rb_prod rb + rb_max rb < 2 ^ 63"
    "rb_prod rb + rec_total (length bs) \<le> rb_cons rb + rb_max rb"
    "\<forall>r \<in> set rs. rr_state r \<noteq> Busy" "length rs + 3 \<le> fuel" "\<not> last_slot rb (rb_prod rb)"
  shows "\<exists>s' rb' c. bpf_ringbuf_output place (map_ptr_by_fd s fd) bs flags s = (Inr 0, s') \<and>
    bpftime_poll_from_ringbuf fuel (sint fd) (\<lambda>_. 0) s' =
      (Inr (Some (c, map rr_sample (filter (\<lambda>r. rr_state r = Ready) rs) @ [bs])), set_ring a rb' s) \<and> rb_rel rb' []"
proof -
  have fd: "fd_of_map (map_ptr_by_fd s fd) = sint fd" by (rule fd_of_map_ptr [OF ring_at_is_map [OF at]])
  from rb_output_fetch [OF assms(2-6), of "word_of_int (sint fd)"] assms(7) obtain rb1 rb2 c where
    o: "rb_output rb bs (word_of_int (sint fd)) = Inr rb1"
    and f: "rb_fetch_data fuel (\<lambda>_. 0) rb1 = Fetched c (map rr_sample (filter (\<lambda>r. rr_state r = Ready) rs) @ [bs]) rb2" "rb_rel rb2 []"
    by (auto simp: seen_sample_def)
  have "bpf_ringbuf_output place (map_ptr_by_fd s fd) bs flags s = (Inr 0, set_ring a rb1 s)"
    by (rule ringbuf_output_at) (use at o fd in simp_all)
  moreover have "ring_at (set_ring a rb1 s) (sint fd) a rb1" using at by simp
  from poll_at [OF this f(1)] have "bpftime_poll_from_ringbuf fuel (sint fd) (\<lambda>_. 0) (set_ring a rb1 s) =
      (Inr (Some (c, map rr_sample (filter (\<lambda>r. rr_state r = Ready) rs) @ [bs])), set_ring a rb2 s)" by simp
  ultimately show ?thesis using f(2) by blast
qed

text \<open>A shared memory with a ring buffer of 16 bytes at the descriptor 3.\<close>

definition ring_handler :: map_handler where
  "ring_handler = (map_handler_new 3 ''r'' (plain_attr BPF_MAP_TYPE_RINGBUF 0 0 16))\<lparr>mh_impl := Some 0\<rparr>"

definition small_ring :: "nat \<Rightarrow> ringbuf" where
  "small_ring p = \<lparr>rb_max_ent = 16, rb_cons = p, rb_prod = p, rb_data = replicate 32 0\<rparr>"

definition one_ring :: "nat \<Rightarrow> unit shm" where
  "one_ring p = \<lparr>sh_open_type = SHM_OPEN_ONLY,
     sh_manager = Some \<lparr>mg_handlers = [Unused, Unused, Unused, MapH ring_handler],
       mg_segment = (segment_new ())\<lparr>sg_objs := [0 \<mapsto> IRingbuf (small_ring p)]\<rparr>\<rparr>,
     sh_syscall_pids = None, sh_alive_pids = None, sh_agent_config = None, sh_local_config = None\<rparr>"

lemma one_ring_at: "ring_at (one_ring p) 3 0 (small_ring p)"
  by (simp add: ring_at_def one_ring_def ring_handler_def shm_handler_def map_handler_new_def plain_attr_def)

lemma small_ring_rel: "8 dvd p \<Longrightarrow> p < 1000 \<Longrightarrow> rb_rel (small_ring p) []"
  by (auto simp: rb_rel_def rb_ok_def small_ring_def rec_pos_def intro!: exI [of _ 4])

lemma small_ring_max [simp]: "rb_max (small_ring p) = 16" "rb_prod (small_ring p) = p" "rb_cons (small_ring p) = p"
  by (simp_all add: small_ring_def rb_max_def)

theorem ringbuf_helper_round_trip_witness:
  "\<exists>s' rb' c. bpf_ringbuf_output (\<lambda>_. 0) (map_ptr_by_fd (one_ring 0) 3) [5, 6] 0 (one_ring 0) = (Inr 0, s') \<and>
    bpftime_poll_from_ringbuf 3 3 (\<lambda>_. 0) s' = (Inr (Some (c, [[5, 6]])), set_ring 0 rb' (one_ring 0)) \<and> rb_rel rb' []"
proof -
  have "ring_at (one_ring 0) (sint (3 :: u32)) 0 (small_ring 0)" using one_ring_at [of 0] by simp
  from ringbuf_helper_round_trip [OF this small_ring_rel, of "[5, 6]" 3 "\<lambda>_. 0" 0] show ?thesis
    by (simp add: rec_total_def last_slot_def)
qed

section \<open>Submitting through the header\<close>

lemma rb_reserve_header:
  assumes rel: "rb_rel rb rs" and n: "sz < 2 ^ 64" and r: "rb_reserve rb sz w = Inr (sample, rb1)"
  shows "sample = (rb_prod rb + 8) mod rb_max rb \<and> rb_max rb1 = rb_max rb \<and> rec_total sz \<le> rb_max rb \<and>
    length (rb_data rb1) = 2 * rb_max rb \<and> seg (rb_prod rb mod rb_max rb + 4) 4 (rb_data rb1) = st32 w \<and>
    rb_prod rb mod rb_max rb + 8 \<le> rb_max rb"
proof -
  let ?h = "st32 (hdr_word sz Busy)" and ?p = "rb_prod rb mod rb_max rb"
  have ok: "rb_ok rb" and p8: "8 dvd rb_prod rb" using rel by (auto simp: rb_rel_def rec_pos_dvd)
  note m = rb_ok_mask [OF ok]
  have pr: "?p + 8 \<le> rb_max rb" using m(3,4) p8 by (rule slot_in_range)
  have len: "length (rb_data rb) = 2 * rb_max rb" using ok by (simp add: rb_ok_def rb_max_def)
  have eq: "rb1 = rb\<lparr>rb_data := put ?p (?h @ st32 w) (rb_data rb), rb_prod := rb_prod rb + rec_total sz\<rparr>"
    "sample = (rb_prod rb + 8) mod rb_max rb" "rec_total sz \<le> rb_max rb"
    using r unfolding rb_reserve_eq [OF rel n] by (auto split: if_splits)
  have "seg (?p + 4) 4 (put ?p (?h @ st32 w) (rb_data rb)) = st32 w"
    using pr len by (simp add: seg_def put_def)
  then show ?thesis using eq pr len by (simp add: rb_max_def length_put)
qed

text \<open>Outside of the last slot the descriptor is found in front of the sample, and the sample does not touch it.\<close>

lemma header_fd_at:
  assumes at: "ring_at s fd a rb" and o: "4 \<le> o'" "seg (o' - 4) 4 (rb_data rb) = st32 w" "o' \<le> length (rb_data rb)"
  shows "header_fd (a, o') s = (Inr (sint w), s)"
proof -
  have "seg o' 4 (replicate 4 0 @ rb_data rb) = st32 w" using o(1,2) by (simp add: seg_def)
  then show ?thesis using o(3) by (simp add: header_fd_def on_ringbuf_at [OF at] set_ring_same [OF at])
qed

lemma sint_word_fd [simp]: "sint (word_of_int (fd_of_map m) :: u32) = fd_of_map m"
  by (simp add: fd_of_map_def)

text \<open>C31. Reserving, filling in and submitting: the three calls a program makes with the sample pointer do what one
  \<^verbatim>\<open>bpf_ringbuf_output\<close> does, when the header of the record is not in the last slot of the data area. The descriptor that
  \<^verbatim>\<open>bpf_ringbuf_submit\<close> finds in front of the sample is the one of the map. In the last slot it finds 0, and the record stays busy.\<close>

theorem ringbuf_reserve_submit_is_output:
  assumes at: "ring_at s (fd_of_map m) a rb" and rel: "rb_rel rb rs" and n: "length bs < 2 ^ 64" and nl: "\<not> last_slot rb (rb_prod rb)"
    and r: "bpf_ringbuf_reserve m (length bs) 0 s = (Inr q, s1)" and w: "sample_write q bs s1 = (Inr (), s2)"
  shows "bpf_ringbuf_submit place q 0 s2 = bpf_ringbuf_output place m bs 0 s"
proof -
  let ?w = "word_of_int (fd_of_map m) :: u32"
  from r at obtain sample rb1 where r1: "rb_reserve rb (length bs) ?w = Inr (sample, rb1)" "q = (a, sample)" "s1 = set_ring a rb1 s"
    by (auto simp: bpf_ringbuf_reserve_def bpftime_ringbuf_reserve_def ring_at_simps [OF at] split: sum.splits)
  have at1: "ring_at s1 (fd_of_map m) a rb1" using at r1(3) by simp
  from w obtain rb2 where r2: "rb_write rb1 sample bs = Inr rb2" "s2 = set_ring a rb2 s"
    by (auto simp: sample_write_def r1(2,3) on_ringbuf_at [OF at1, unfolded r1(3)] split: sum.splits)
  have at2: "ring_at s2 (fd_of_map m) a rb2" using at r2(2) by simp
  note h = rb_reserve_header [OF rel n r1(1)]
  have sample: "sample = rb_prod rb mod rb_max rb + 8"
    using h nl unfolding last_slot_def by (metis le_neq_implies_less mod_add_left_eq mod_less)
  have data: "rb_data rb2 = put sample bs (rb_data rb1)" "sample + length bs \<le> length (rb_data rb1)"
    using r2(1) by (auto simp: rb_write_def bindr_eq_Inr mem_eqs split: option.splits)
  have "sample - 4 = rb_prod rb mod rb_max rb + 4" "4 \<le> sample" using sample by simp_all
  then have "seg (sample - 4) 4 (rb_data rb1) = st32 ?w" "sample - 4 + 4 \<le> sample" "4 \<le> sample" using h by simp_all
  then have "seg (sample - 4) 4 (rb_data rb2) = st32 ?w"
    using data seg_put_other [OF data(2), of "sample - 4" 4] by simp
  then have "header_fd (a, sample) s2 = (Inr (fd_of_map m), s2)"
    using header_fd_at [OF at2, of sample ?w] sample data by (simp add: length_put)
  then show ?thesis by (simp add: bpf_ringbuf_submit_def bpf_ringbuf_output_def r r1(2) w [unfolded r1(2)])
qed

lemma small_ring_reserve:
  "rb_reserve (small_ring p) 2 3 = Inr ((p + 8) mod 16,
     (small_ring p)\<lparr>rb_data := put (p mod 16) (st32 (hdr_word 2 Busy) @ st32 3) (replicate 32 0), rb_prod := p + 16\<rparr>)"
  if "8 dvd p" "p < 1000"
  using rb_reserve_eq [OF small_ring_rel [OF that], of 2 3] by (simp add: rec_total_def) (simp add: small_ring_def)

lemma st32_0: "st32 0 = replicate 4 0"
  by code_simp

lemma fd_of_map_3 [simp]: "fd_of_map 12884901888 = 3"
  by (simp add: fd_of_map_def drop_bit_eq_div)

lemma one_ring_calls:
  assumes "8 dvd p" "p < 1000"
  shows "\<exists>s1 s2. bpf_ringbuf_reserve 12884901888 2 0 (one_ring p) = (Inr (0, (p + 8) mod 16), s1) \<and>
    sample_write (0, (p + 8) mod 16) [5, 6] s1 = (Inr (), s2)"
proof -
  let ?rb1 = "(small_ring p)\<lparr>rb_data := put (p mod 16) (st32 (hdr_word 2 Busy) @ st32 3) (replicate 32 0), rb_prod := p + 16\<rparr>"
  have at: "ring_at (one_ring p) (fd_of_map 12884901888) 0 (small_ring p)" using one_ring_at [of p] by simp
  have "bpf_ringbuf_reserve 12884901888 2 0 (one_ring p) = (Inr (0, (p + 8) mod 16), set_ring 0 ?rb1 (one_ring p))"
    by (rule reserve_at [OF at]) (simp add: small_ring_reserve [OF assms])
  moreover have at1: "ring_at (set_ring 0 ?rb1 (one_ring p)) 3 0 ?rb1" by (rule ring_at_set [OF one_ring_at])
  have len: "length (rb_data ?rb1) = 32" by (simp add: length_put)
  then have "rb_write ?rb1 ((p + 8) mod 16) [5, 6] = Inr (?rb1\<lparr>rb_data := put ((p + 8) mod 16) [5, 6] (rb_data ?rb1)\<rparr>)"
    by (simp add: rb_write_def del: ringbuf.select_convs)
  from write_at [OF at1 this] have "\<exists>s2. sample_write (0, (p + 8) mod 16) [5, 6] (set_ring 0 ?rb1 (one_ring p)) = (Inr (), s2)" by blast
  ultimately show ?thesis by blast
qed

theorem ringbuf_reserve_submit_is_output_witness:
  "\<exists>s1 s2. bpf_ringbuf_reserve 12884901888 2 0 (one_ring 0) = (Inr (0, 8), s1) \<and> sample_write (0, 8) [5, 6] s1 = (Inr (), s2) \<and>
     bpf_ringbuf_submit (\<lambda>_. 0) (0, 8) 0 s2 = bpf_ringbuf_output (\<lambda>_. 0) 12884901888 [5, 6] 0 (one_ring 0)"
proof -
  from one_ring_calls [of 0] obtain s1 s2 where
    c: "bpf_ringbuf_reserve 12884901888 2 0 (one_ring 0) = (Inr (0, 8), s1)" "sample_write (0, 8) [5, 6] s1 = (Inr (), s2)" by auto
  have at: "ring_at (one_ring 0) (fd_of_map 12884901888) 0 (small_ring 0)" using one_ring_at [of 0] by simp
  have rel: "rb_rel (small_ring 0) []" by (rule small_ring_rel) simp_all
  have "bpf_ringbuf_reserve 12884901888 (length [5 :: byte, 6]) 0 (one_ring 0) = (Inr (0, 8), s1)"
    using c(1) by (simp add: numeral_2_eq_2)
  from ringbuf_reserve_submit_is_output [OF at rel _ _ this c(2)] c show ?thesis by (simp add: last_slot_def)
qed

text \<open>A record in the last slot is lost: its sample starts the data area, in front of which \<^verbatim>\<open>bpf_ringbuf_submit\<close> reads the
  descriptor 0. When that is not a ring buffer the call reports success and changes nothing: the record stays busy, and as the first of
  the ring it hides itself and every later record from the consumer.\<close>

theorem ringbuf_last_slot_submit_lost:
  assumes at: "ring_at s (fd_of_map m) a rb" and rel: "rb_rel rb rs" and n: "sz < 2 ^ 64" and l: "last_slot rb (rb_prod rb)"
    and r: "bpf_ringbuf_reserve m sz 0 s = (Inr q, s1)" and no: "\<not> is_ringbuf_map_fd s1 0"
  shows "bpf_ringbuf_submit place q 0 s1 = (Inr 0, s1) \<and> bpf_ringbuf_discard place q 0 s1 = (Inr 0, s1) \<and>
    (rs = [] \<longrightarrow> bpftime_poll_from_ringbuf (Suc fuel) (fd_of_map m) cb s1 = (Inr (Some (0, [])), s1))"
proof -
  let ?w = "word_of_int (fd_of_map m) :: u32"
  from r at obtain sample rb1 where r1: "rb_reserve rb sz ?w = Inr (sample, rb1)" "q = (a, sample)" "s1 = set_ring a rb1 s"
    by (auto simp: bpf_ringbuf_reserve_def bpftime_ringbuf_reserve_def ring_at_simps [OF at] split: sum.splits)
  have at1: "ring_at s1 (fd_of_map m) a rb1" using at r1(3) by simp
  note h = rb_reserve_header [OF rel n r1(1)]
  have "sample = 0" using h l unfolding last_slot_def by (metis mod_add_left_eq mod_self)
  moreover have "seg 0 4 (replicate 4 0 @ rb_data rb1) = st32 0" by (simp add: seg_def st32_0)
  ultimately have hd: "header_fd q s1 = (Inr 0, s1)"
    using h by (simp add: header_fd_def r1(2) on_ringbuf_at [OF at1] set_ring_same [OF at1])
  have "shm_try_get_ringbuf_map_impl s1 0 = None"
    using no by (auto simp: shm_try_get_ringbuf_map_impl_def is_ringbuf_map_fd_def map_fd_of_type_def split: option.splits handler.splits)
  then have sub: "submit_sample place 0 q d s1 = (Inl (Errno EINVAL), s1)" for d
    by (simp add: submit_sample_def bpftime_ringbuf_submit_def)
  have "rb_fetch_data (Suc fuel) cb rb1 = Fetched 0 [] rb1" if e: "rs = []"
  proof -
    from r1(1) have room: "rec_total sz \<le> rb_max rb" "rb_prod rb + rec_total sz \<le> rb_cons rb + rb_max rb"
      unfolding rb_reserve_eq [OF rel n] by (auto split: if_splits)
    from r1(1) rel have pos: "rb_cons rb1 = rb_prod rb" "rb_prod rb1 = rb_prod rb + rec_total sz" "rb_mask rb1 = rb_mask rb"
      "rb_data rb1 = put (rb_prod rb mod rb_max rb) (st32 (hdr_word sz Busy) @ st32 ?w) (rb_data rb)"
      unfolding rb_reserve_eq [OF rel n] by (auto simp: e rb_rel_def rec_pos_def rb_mask_def split: if_splits)
    have ok: "rb_ok rb" using rel by (simp add: rb_rel_def)
    then have len: "length (rb_data rb) = 2 * rb_max rb" by (simp add: rb_ok_def rb_max_def)
    have "seg (rb_prod rb mod rb_max rb) 4 (rb_data rb1) = st32 (hdr_word sz Busy)"
      using h len by (simp add: pos(4) seg_def put_def)
    then have "rb_len_at rb1 (rb_prod rb) = Inr (hdr_word sz Busy)"
      using h by (simp add: rb_len_at_def pos(3) rb_ok_mask(1) [OF ok])
    moreover have "sz < 1073741824" using room(1) rec_total_bounds(1) [of sz] rb_ok_mask(5) [OF ok] by simp
    then have "hdr_word sz Busy AND BPF_RINGBUF_BUSY_BIT \<noteq> 0" by (simp add: hdr_busy)
    moreover have "rb_prod rb < rb_prod rb + rec_total sz" using rec_total_bounds(1) [of sz] by simp
    ultimately show ?thesis by (simp add: rb_fetch_data_def pos(1,2))
  qed
  then show ?thesis using hd sub poll_at [OF at1, of "Suc fuel" cb 0 "[]" rb1] set_ring_same [OF at1]
    by (simp add: bpf_ringbuf_submit_def bpf_ringbuf_discard_def ignoring_def)
qed

theorem ringbuf_last_slot_submit_lost_witness:
  "\<exists>s1. bpf_ringbuf_reserve 12884901888 2 0 (one_ring 8) = (Inr (0, 0), s1) \<and> bpf_ringbuf_submit (\<lambda>_. 0) (0, 0) 0 s1 = (Inr 0, s1) \<and>
     bpftime_poll_from_ringbuf 1 3 (\<lambda>_. 0) s1 = (Inr (Some (0, [])), s1)"
proof -
  from one_ring_calls [of 8] obtain s1 where c: "bpf_ringbuf_reserve 12884901888 2 0 (one_ring 8) = (Inr (0, 0), s1)" by auto
  have at: "ring_at (one_ring 8) (fd_of_map 12884901888) 0 (small_ring 8)" using one_ring_at [of 8] by simp
  have rel: "rb_rel (small_ring 8) []" by (rule small_ring_rel) simp_all
  have "s1 = set_ring 0 (snd (case rb_reserve (small_ring 8) 2 3 of Inr x \<Rightarrow> x)) (one_ring 8)"
    using c reserve_at [OF at, of 2 0] by (simp add: small_ring_reserve)
  then have "\<not> is_ringbuf_map_fd s1 0"
    by (simp add: is_ringbuf_map_fd_def map_fd_of_type_def shm_handler_def set_ring_def one_ring_def)
  with ringbuf_last_slot_submit_lost [OF at rel, of 2 "(0, 0)" s1 "\<lambda>_. 0" 0] c show ?thesis by (auto simp: last_slot_def)
qed

section \<open>What perf event output does\<close>

definition set_perf :: "nat \<Rightarrow> software_perf \<Rightarrow> 'w shm \<Rightarrow> 'w shm" where
  "set_perf b sp s = (case sh_manager s of None \<Rightarrow> s
     | Some mg \<Rightarrow> s\<lparr>sh_manager := Some (mg\<lparr>mg_segment := (mg_segment mg)\<lparr>sg_perf := (sg_perf (mg_segment mg))(b \<mapsto> sp)\<rparr>\<rparr>)\<rparr>)"

text \<open>The descriptor \<open>fd\<close> is a perf event array with the vector \<open>d\<close>.\<close>

definition perf_array_at :: "'w shm \<Rightarrow> int \<Rightarrow> fd_vec \<Rightarrow> bool" where
  "perf_array_at s fd d \<longleftrightarrow> (\<exists>h mg a. shm_handler s fd = Some (MapH h) \<and> mh_type h = BPF_MAP_TYPE_PERF_EVENT_ARRAY \<and>
     mh_impl h = Some a \<and> sh_manager s = Some mg \<and> sg_objs (mg_segment mg) a = Some (IPerfArray d))"

text \<open>The descriptor \<open>fd\<close> is a software perf event whose buffer is \<open>sp\<close> at \<open>b\<close>.\<close>

definition software_at :: "'w shm \<Rightarrow> int \<Rightarrow> nat \<Rightarrow> software_perf \<Rightarrow> bool" where
  "software_at s fd b sp \<longleftrightarrow> (\<exists>p mg. shm_handler s fd = Some (PerfH p) \<and> pf_data p = Software b \<and> sh_manager s = Some mg \<and>
     sg_perf (mg_segment mg) b = Some sp)"

lemma perf_output_sw:
  assumes "software_at s fd b sp" "sp_output_data sp buf = Inr sp'"
  shows "bpftime_perf_event_output fd buf s = (Inr 0, set_perf b sp' s)"
  using assms by (auto simp: software_at_def bpftime_perf_event_output_def on_segment_def set_perf_def)

lemma perf_array_lookup:
  assumes "perf_array_at s fd d" "0 \<le> cpu" "cpu < 2 ^ 31"
  shows "shm_map_lookup_elem env fd (Some (st32 (word_of_int cpu))) False s =
    (if cpu < int (length d) then Inr (PSlot (nat cpu)) else Inl (Errno EINVAL), s)"
proof -
  have "sint (word_of_int cpu :: u32) = cpu" using assms(2,3) 
    by (simp add: signed_of_int signed_take_bit_int_eq_self)
  then show ?thesis using assms
    by (auto simp: perf_array_at_def shm_map_lookup_elem_def on_segment_def map_lookup_elem_def kind_of_def map_type_defs impl_at_def
        impl_lookup_def pure_call_def pe_elem_lookup_def fd_slot_def)
qed

lemma perf_array_slot: "perf_array_at s fd d \<Longrightarrow> k < length d \<Longrightarrow> perf_slot s fd (PSlot k) = Inr (sint (d ! k))"
  by (auto simp: perf_array_at_def perf_slot_def)

lemma perf_array_info: "perf_array_at s fd d \<Longrightarrow> \<exists>attr nm. bpftime_map_get_info s fd = Inr (attr, nm, BPF_MAP_TYPE_PERF_EVENT_ARRAY)"
  by (auto simp: perf_array_at_def bpftime_map_get_info_def)

lemma perf_array_outcome:
  assumes "perf_array_at s fd d" "0 \<le> cpu" "cpu < int (length d)" "cpu < 1024"
    and "software_at s (sint (d ! nat cpu)) b sp" "sp_output_data sp buf = Inr sp'"
  shows "perf_output_at env out cpu fd buf s = ((True, Inr 0), set_perf b sp' s)"
proof -
  from perf_array_info [OF assms(1)] obtain attr nm where "bpftime_map_get_info s fd = Inr (attr, nm, BPF_MAP_TYPE_PERF_EVENT_ARRAY)"
    by blast
  then show ?thesis
    using perf_array_lookup [OF assms(1,2), of env] perf_array_slot [OF assms(1), of "nat cpu"] perf_output_sw [OF assms(5,6)] assms(2-4)
    by (simp add: perf_output_at_def perf_array_output_def)
qed

text \<open>Perf event output: for an array with an entry for the current processor that names a software perf event, the helper returns
  0, appends a record with the sample to the buffer of that event when it has room for it and drops the sample otherwise, changes
  nothing else, and gives the thread back its processor mask.\<close>

theorem perf_helper_output:
  assumes "perf_array_at s (fd_of_map m) d" "0 \<le> cpu" "cpu < int (length d)" "cpu < 1024"
    and "software_at s (sint (d ! nat cpu)) b sp" "accepts {cpu}" "accepts aff"
    and "sp_inv sp" "length buf < 65524" "sp_head sp + (12 + length buf) < 2 ^ 62"
  shows "\<exists>sp'. bpf_perf_event_output env out cpu accepts m buf (aff, s) = (Inr 0, aff, set_perf b sp' s) \<and> sp_inv sp' \<and>
    (if sp_head sp - sp_tail sp + (12 + length buf) < sp_mmap_size sp then sp_content sp' = sp_content sp @ perf_record buf else sp' = sp)"
proof -
  obtain sp' where sp': "sp_output_data sp buf = Inr sp'" "sp_inv sp'"
    "if sp_head sp - sp_tail sp + (12 + length buf) < sp_mmap_size sp then sp_content sp' = sp_content sp @ perf_record buf else sp' = sp"
    using sp_output_content [OF assms(8-10)] sp_output_eq [OF assms(8,9)] assms(8)
    by (cases "sp_head sp - sp_tail sp + (12 + length buf) < sp_mmap_size sp") auto
  have "bpf_perf_event_output env out cpu accepts m buf (aff, s) = (Inr 0, aff, set_perf b sp' s)"
    using perf_array_outcome [OF assms(1-5) sp'(1), of env out] assms(2,4,6,7)
    by (simp add: bpf_perf_event_output_def setaffinity_def cpu_mask_def)
  with sp' show ?thesis by blast
qed

text \<open>The early returns of perf event output: when the descriptor is not a map, or the array has no entry for the processor,
  the helper fails and leaves the thread bound to the processor it was running on.\<close>

theorem perf_helper_leaves_bound:
  assumes "0 \<le> cpu" "cpu < 1024" "accepts {cpu}"
    and "\<not> is_map_fd s (fd_of_map m) \<or> (\<exists>d. perf_array_at s (fd_of_map m) d \<and> int (length d) \<le> cpu)"
  shows "\<exists>e. bpf_perf_event_output env out cpu accepts m buf (aff, s) = (Inl e, {cpu}, s)"
proof -
  have "\<exists>e. perf_output_at env out cpu (fd_of_map m) buf s = ((False, Inl e), s)"
  proof (cases "is_map_fd s (fd_of_map m)")
    case False
    then show ?thesis by (auto simp: perf_output_at_def bpftime_map_get_info_def is_map_fd_def split: option.splits handler.splits)
  next
    case True
    with assms(4) obtain d where d: "perf_array_at s (fd_of_map m) d" "int (length d) \<le> cpu" by blast
    from perf_array_info [OF d(1)] obtain attr nm where
      "bpftime_map_get_info s (fd_of_map m) = Inr (attr, nm, BPF_MAP_TYPE_PERF_EVENT_ARRAY)" by blast
    then show ?thesis using perf_array_lookup [OF d(1) assms(1), of env] d(2) assms(2)
      by (simp add: perf_output_at_def perf_array_output_def)
  qed
  then show ?thesis using assms(1-3) by (auto simp: bpf_perf_event_output_def setaffinity_def cpu_mask_def)
qed

text \<open>A perf event array at the descriptor 3 whose first entry is the software perf event 4.\<close>

definition small_perf :: software_perf where
  "small_perf = (software_perf_new 8 0 0 0)\<lparr>sp_data := replicate 16 0, sp_head := 8, sp_tail := 8\<rparr>"

definition one_perf_array :: "unit shm" where
  "one_perf_array = \<lparr>sh_open_type = SHM_OPEN_ONLY,
     sh_manager = Some \<lparr>mg_handlers = [Unused, Unused, Unused,
       MapH ((map_handler_new 3 ''p'' (plain_attr BPF_MAP_TYPE_PERF_EVENT_ARRAY 4 4 1))\<lparr>mh_impl := Some 0\<rparr>), PerfH (software_handler_new 1)],
       mg_segment = (segment_new ())\<lparr>sg_objs := [0 \<mapsto> IPerfArray [4]], sg_perf := [1 \<mapsto> small_perf]\<rparr>\<rparr>,
     sh_syscall_pids = None, sh_alive_pids = None, sh_agent_config = None, sh_local_config = None\<rparr>"

lemma one_perf_array_at: "perf_array_at one_perf_array 3 [4]"
  by (simp add: perf_array_at_def one_perf_array_def shm_handler_def map_handler_new_def plain_attr_def)

lemma one_software_at: "software_at one_perf_array 4 1 small_perf"
  by (simp add: software_at_def one_perf_array_def shm_handler_def software_handler_new_def numeral_eq_Suc)

lemma small_perf_inv: "sp_inv small_perf"
  unfolding sp_inv_def by (auto simp: sp_mmap_size_def small_perf_def software_perf_new_def intro!: exI [of _ 4])

theorem perf_helper_output_witness:
  "\<exists>sp'. bpf_perf_event_output plain_env (\<lambda>_ _ w. (0, w)) 0 (\<lambda>_. True) 12884901888 [7] ({0, 1}, one_perf_array) =
     (Inr 0, {0, 1}, set_perf 1 sp' one_perf_array) \<and> sp_content sp' = perf_record [7]"
proof -
  have at: "perf_array_at one_perf_array (fd_of_map 12884901888) [4]" "software_at one_perf_array (sint ([4 :: u32] ! nat 0)) 1 small_perf"
    using one_perf_array_at one_software_at by simp_all
  have "sp_content small_perf = []" by (simp add: small_perf_def sp_content_def ring_read_def)
  with perf_helper_output [OF at(1) _ _ _ at(2) _ _ small_perf_inv, of "\<lambda>_. True" "{0, 1}" "[7]" plain_env "\<lambda>_ _ w. (0, w)"] show ?thesis
    by (auto simp: small_perf_def software_perf_new_def sp_mmap_size_def)
qed

theorem perf_helper_leaves_bound_witness:
  "\<exists>e. bpf_perf_event_output plain_env (\<lambda>_ _ w. (0, w)) 1 (\<lambda>_. True) 12884901888 [7] ({0, 1}, one_perf_array) = (Inl e, {1}, one_perf_array)"
proof -
  have "\<exists>d. perf_array_at one_perf_array (fd_of_map 12884901888) d \<and> int (length d) \<le> 1"
    by (rule exI [of _ "[4]"]) (simp add: one_perf_array_at)
  with perf_helper_leaves_bound [of 1 "\<lambda>_. True" one_perf_array 12884901888 plain_env "\<lambda>_ _ w. (0, w)" "[7]" "{0, 1}"] show ?thesis
    by simp
qed

section \<open>What tail calls do\<close>

text \<open>Tail calls: a lookup in a program array opens a descriptor for the program. The tail call runs the program on that
  descriptor with a context of 64 bytes, then closes the descriptor whether the run succeeded or not, and makes no other kernel call;
  an index outside of the array makes no call at all. Nothing in the shared memory changes.\<close>

theorem tail_call_closes:
  assumes "me_libbpf env" "shm_handler s (fd_of_map m) = Some (MapH h)" "mh_type h = BPF_MAP_TYPE_PROG_ARRAY" "mh_impl h = Some a"
    and "sh_manager s = Some mg" "sg_objs (mg_segment mg) a = Some (IProgArray d)" "length ctx = 64"
  shows "bpftime_tail_call env run (Some ctx) m index s =
    (let k = sint (ucast index :: u32) in
     if 0 \<le> k \<and> k < int (length d) then
       let fd = sint (word_of_int (my_bpf_prog_get_fd_by_id (me_prog_sys env) (d ! nat k)) :: u32) in
       ((if fst (run fd ctx) < 0 then Inl Silent else Inr (ucast (snd (run fd ctx))), [TestRun fd ctx, Close fd]), s)
     else ((Inl Silent, []), s))"
proof -
  let ?k = "sint (ucast index :: u32)"
  have "mg\<lparr>mg_segment := mg_segment mg\<rparr> = mg" "s\<lparr>sh_manager := Some mg\<rparr> = s" using assms(5) by simp_all
  then have "bpftime_map_lookup_elem env (fd_of_map m) (Some (st32 (ucast index))) s =
    (if 0 \<le> ?k \<and> ?k < int (length d) then Inr (PTls (word_of_int (my_bpf_prog_get_fd_by_id (me_prog_sys env) (d ! nat ?k)))) else Inl (Errno EINVAL), s)"
    using assms(1-6) by (simp add: bpftime_map_lookup_elem_def shm_map_lookup_elem_def on_segment_def map_lookup_elem_def kind_of_def
      map_type_defs impl_at_def impl_lookup_def pure_call_def pr_elem_lookup_def fd_slot_def catching_def Let_def)
  then show ?thesis using assms(1-3,7)
    by (simp add: bpftime_tail_call_def is_prog_array_map_fd_def map_fd_of_type_def Let_def split: prod.split)
qed

text \<open>A program array at the descriptor 3 with one program, for which the kernel answers with the descriptor 9.\<close>

definition one_prog_array :: "unit shm" where
  "one_prog_array = \<lparr>sh_open_type = SHM_OPEN_ONLY,
     sh_manager = Some \<lparr>mg_handlers = [Unused, Unused, Unused,
       MapH ((map_handler_new 3 ''t'' (plain_attr BPF_MAP_TYPE_PROG_ARRAY 4 4 1))\<lparr>mh_impl := Some 0\<rparr>)],
       mg_segment = (segment_new ())\<lparr>sg_objs := [0 \<mapsto> IProgArray [11]]\<rparr>\<rparr>,
     sh_syscall_pids = None, sh_alive_pids = None, sh_agent_config = None, sh_local_config = None\<rparr>"

theorem tail_call_closes_witness:
  "bpftime_tail_call (plain_env\<lparr>me_libbpf := True, me_prog_sys := \<lambda>_ _. 9\<rparr>) (\<lambda>fd c. (0, 42)) (Some (replicate 64 1)) 12884901888 0 one_prog_array =
     ((Inr 42, [TestRun 9 (replicate 64 1), Close 9]), one_prog_array)"
proof -
  let ?h = "(map_handler_new 3 ''t'' (plain_attr BPF_MAP_TYPE_PROG_ARRAY 4 4 1))\<lparr>mh_impl := Some 0\<rparr>"
  have h: "shm_handler one_prog_array (fd_of_map 12884901888) = Some (MapH ?h)" "mh_type ?h = BPF_MAP_TYPE_PROG_ARRAY" "mh_impl ?h = Some 0"
    by (simp_all add: shm_handler_def one_prog_array_def map_handler_new_def plain_attr_def)
  have "\<exists>mg. sh_manager one_prog_array = Some mg \<and> sg_objs (mg_segment mg) 0 = Some (IProgArray [11])"
    by (simp add: one_prog_array_def)
  then obtain mg where mg: "sh_manager one_prog_array = Some mg" "sg_objs (mg_segment mg) 0 = Some (IProgArray [11])" by blast
  have "my_bpf_prog_get_fd_by_id (\<lambda>_ _. 9) 11 = 9"
    by (simp add: my_bpf_prog_get_fd_by_id_def syscall_fd_no_retry)
  with tail_call_closes [OF _ h mg, of "plain_env\<lparr>me_libbpf := True, me_prog_sys := \<lambda>_ _. 9\<rparr>" "replicate 64 1" "\<lambda>fd c. (0, 42)" 0] show ?thesis
    by (simp add: Let_def)
qed

section \<open>Ids\<close>

text \<open>The process and thread id are the two halves of one value; for the user and group id both halves are the group.\<close>

lemma halves_or: "0 \<le> sint t \<Longrightarrow> (ucast (drop_bit 32 (push_bit 32 (scast g) OR scast t :: u64)) :: u32) = g \<and>
    (ucast (push_bit 32 (scast g) OR scast t :: u64) :: u32) = t" for g t :: u32
proof (intro conjI bit_word_eqI)
  assume t: "0 \<le> sint t"
  then have top: "\<not> bit t 31" using bit_last_iff [of t] by simp
  fix n assume n: "n < LENGTH(32)"
  show "bit (ucast (drop_bit 32 (push_bit 32 (scast g) OR scast t :: u64)) :: u32) n = bit g n"
    using n top by (cases "n = 31") (auto simp: bit_simps min_def)
  show "bit (ucast (push_bit 32 (scast g) OR scast t :: u64) :: u32) n = bit t n"
    using n by (cases "n = 31") (auto simp: bit_simps min_def)
qed

theorem pid_tgid_halves:
  assumes "0 \<le> sint tid" "0 \<le> sint gid"
  shows "ucast (drop_bit 32 (bpftime_get_current_pid_tgid tgid tid)) = tgid \<and> ucast (bpftime_get_current_pid_tgid tgid tid) = tid \<and>
    ucast (drop_bit 32 (bpf_get_current_uid_gid gid)) = gid \<and> ucast (bpf_get_current_uid_gid gid) = gid"
  using halves_or [OF assms(1), of tgid] halves_or [OF assms(2), of gid]
  by (simp add: bpftime_get_current_pid_tgid_def bpf_get_current_uid_gid_def)

end
