(* ===== verification/Ufunc.thy ===== *)
theory Ufunc
  imports Bpf_Prelude
begin

text \<open>
  User functions (src/ufunc.cpp): a table of functions of the process that programs call through a dispatcher, by an id
  they find by name. The table has \<^verbatim>\<open>MAX_UFUNC_FUNCS\<close> entries; an array access outside of it is a fault. Arguments
  and results are 64-bit values whose union with the other types keeps their bits. The functions themselves are a parameter:
  \<open>call f args\<close> runs the function at the address \<open>f\<close>.
\<close>

section \<open>Data\<close>

definition MAX_ARGS_COUNT :: nat where "MAX_ARGS_COUNT = 6"
definition MAX_UFUNC_FUNCS :: nat where "MAX_UFUNC_FUNCS = 8192 * 4"

datatype ufunc_types = UFUNC_TYPE_UNKNOWN | UFUNC_TYPE_VOID | UFUNC_TYPE_INT8 | UFUNC_TYPE_UINT8 | UFUNC_TYPE_INT16
  | UFUNC_TYPE_UINT16 | UFUNC_TYPE_INT32 | UFUNC_TYPE_UINT32 | UFUNC_TYPE_INT64 | UFUNC_TYPE_UINT64
  | UFUNC_TYPE_FLOAT | UFUNC_TYPE_DOUBLE | UFUNC_TYPE_POINTER | UFUNC_TYPE_STRUCT

text \<open>A null function is \<open>None\<close>; the name is the string up to its terminating zero.\<close>

record func_info =
  fi_name :: string
  fi_func :: "nat option"
  fi_ret_type :: ufunc_types
  fi_arg_types :: "ufunc_types list"
  fi_num_args :: int
  fi_id :: int
  fi_is_attached :: bool

record ufunc_ctx =
  uc_funcs :: "func_info list"
  uc_func_cnt :: nat

text \<open>The global table starts zeroed.\<close>

definition no_func :: func_info where
  "no_func = \<lparr>fi_name = [], fi_func = None, fi_ret_type = UFUNC_TYPE_UNKNOWN, fi_arg_types = replicate MAX_ARGS_COUNT UFUNC_TYPE_UNKNOWN,
     fi_num_args = 0, fi_id = 0, fi_is_attached = False\<rparr>"

definition global_ufunc_ctx :: ufunc_ctx where
  "global_ufunc_ctx = \<lparr>uc_funcs = replicate MAX_UFUNC_FUNCS no_func, uc_func_cnt = 0\<rparr>"

section \<open>Operations\<close>

text \<open>\<^verbatim>\<open>ebpf_resovle_ufunc_func\<close>: a pointer into the table is its index.\<close>

definition ebpf_resovle_ufunc_func :: "ufunc_ctx \<Rightarrow> nat \<Rightarrow> nat option" where
  "ebpf_resovle_ufunc_func cx func_id = (if func_id < length (uc_funcs cx) then Some func_id else None)"

fun find_loop :: "ufunc_ctx \<Rightarrow> string \<Rightarrow> nat \<Rightarrow> nat \<Rightarrow> int res" where
  "find_loop cx nm i 0 = Inr (- 1)"
| "find_loop cx nm i (Suc n) =
     (if length (uc_funcs cx) \<le> i then Inl Fault
      else if fi_name (uc_funcs cx ! i) = nm then Inr (int i) else find_loop cx nm (Suc i) n)"

definition ebpf_call_find_ufunc_id :: "string option \<Rightarrow> ufunc_ctx \<Rightarrow> int res" where
  "ebpf_call_find_ufunc_id func_name cx = (case func_name of None \<Rightarrow> Inr (- 1)
     | Some nm \<Rightarrow> find_loop cx nm 0 (uc_func_cnt cx))"

definition store_func :: "nat \<Rightarrow> func_info \<Rightarrow> ufunc_ctx \<Rightarrow> ufunc_ctx res" where
  "store_func i f cx = (if i < length (uc_funcs cx) then Inr (cx\<lparr>uc_funcs := (uc_funcs cx)[i := f]\<rparr>) else Inl Fault)"

definition bpftime_ufunc_register_ufunc :: "nat \<Rightarrow> func_info \<Rightarrow> ufunc_ctx \<Rightarrow> ufunc_ctx res" where
  "bpftime_ufunc_register_ufunc ident func_info cx = store_func ident func_info cx"

definition bpftime_ufunc_resolve_from_info :: "func_info \<Rightarrow> (string \<Rightarrow> nat option) \<Rightarrow> ufunc_ctx \<Rightarrow> (int \<times> ufunc_ctx) res" where
  "bpftime_ufunc_resolve_from_info func_info function_resolver cx =
     (case function_resolver (fi_name func_info) of
        None \<Rightarrow> Inr (- 1, cx)
      | Some func_addr \<Rightarrow>
          if uc_func_cnt cx = MAX_UFUNC_FUNCS - 1 then Inr (- 1, cx)
          else bindr (store_func (uc_func_cnt cx) (func_info\<lparr>fi_func := Some func_addr\<rparr>) cx) (\<lambda>cx.
            Inr (0, cx\<lparr>uc_func_cnt := uc_func_cnt cx + 1\<rparr>)))"

definition to_arg_val :: "ufunc_types \<Rightarrow> u64 \<Rightarrow> u64" where
  "to_arg_val ty val = (case ty of
     UFUNC_TYPE_INT8 \<Rightarrow> val | UFUNC_TYPE_INT16 \<Rightarrow> val | UFUNC_TYPE_INT32 \<Rightarrow> val | UFUNC_TYPE_INT64 \<Rightarrow> val
   | UFUNC_TYPE_UINT64 \<Rightarrow> val | UFUNC_TYPE_UINT8 \<Rightarrow> val | UFUNC_TYPE_UINT16 \<Rightarrow> val | UFUNC_TYPE_UINT32 \<Rightarrow> val
   | UFUNC_TYPE_DOUBLE \<Rightarrow> val | UFUNC_TYPE_POINTER \<Rightarrow> val | _ \<Rightarrow> 0)"

definition from_arg_val :: "ufunc_types \<Rightarrow> u64 \<Rightarrow> u64" where
  "from_arg_val ty val = (case ty of
     UFUNC_TYPE_INT8 \<Rightarrow> val | UFUNC_TYPE_INT16 \<Rightarrow> val | UFUNC_TYPE_INT32 \<Rightarrow> val | UFUNC_TYPE_INT64 \<Rightarrow> val
   | UFUNC_TYPE_UINT8 \<Rightarrow> val | UFUNC_TYPE_UINT16 \<Rightarrow> val | UFUNC_TYPE_UINT32 \<Rightarrow> val | UFUNC_TYPE_UINT64 \<Rightarrow> val
   | UFUNC_TYPE_DOUBLE \<Rightarrow> val | UFUNC_TYPE_POINTER \<Rightarrow> val | _ \<Rightarrow> 0)"

text \<open>The loop that converts the arguments; \<open>raw\<close> are the values the program stored.\<close>

fun args_loop :: "func_info \<Rightarrow> u64 list \<Rightarrow> nat \<Rightarrow> nat \<Rightarrow> u64 list \<Rightarrow> u64 list res" where
  "args_loop f raw i 0 args = Inr args"
| "args_loop f raw i (Suc n) args =
     (if length raw \<le> i \<or> length (fi_arg_types f) \<le> i \<or> length args \<le> i then Inl Fault
      else args_loop f raw (Suc i) n (args[i := to_arg_val (fi_arg_types f ! i) (raw ! i)]))"

definition ebpf_call_ufunc_dispatcher ::
  "(nat \<Rightarrow> u64 list \<Rightarrow> 'w \<Rightarrow> u64 \<times> 'w) \<Rightarrow> ufunc_ctx \<Rightarrow> nat \<Rightarrow> u64 list \<Rightarrow> 'w \<Rightarrow> (u64 \<times> 'w) res" where
  "ebpf_call_ufunc_dispatcher call cx ident raw w =
     (if MAX_UFUNC_FUNCS \<le> ident then Inr (- 1, w)
      else case ebpf_resovle_ufunc_func cx ident of
          None \<Rightarrow> Inr (0, w)
        | Some i \<Rightarrow> (let f = uc_funcs cx ! i in case fi_func f of
            None \<Rightarrow> Inr (0, w)
          | Some a \<Rightarrow>
              if fi_is_attached f then Inr (0, w)
              else if fi_num_args f < 0 \<or> int MAX_ARGS_COUNT < fi_num_args f then Inr (- 1, w)
              else bindr (args_loop f raw 0 (nat (fi_num_args f)) (replicate MAX_ARGS_COUNT 0)) (\<lambda>args.
                let (ret, w) = call a (take 5 args) w in Inr (from_arg_val (fi_ret_type f) ret, w))))"

section \<open>The table\<close>

text \<open>Function infos as C has them: six argument types.\<close>

definition ufunc_ok :: "ufunc_ctx \<Rightarrow> bool" where
  "ufunc_ok cx \<longleftrightarrow> length (uc_funcs cx) = MAX_UFUNC_FUNCS \<and> uc_func_cnt cx < MAX_UFUNC_FUNCS \<and>
     (\<forall>f \<in> set (uc_funcs cx). length (fi_arg_types f) = MAX_ARGS_COUNT)"

lemma global_ok: "ufunc_ok global_ufunc_ctx"
  by (simp add: ufunc_ok_def global_ufunc_ctx_def no_func_def MAX_UFUNC_FUNCS_def)

lemma ufunc_ok_store:
  "ufunc_ok cx \<Longrightarrow> length (fi_arg_types f) = MAX_ARGS_COUNT \<Longrightarrow> ufunc_ok (cx\<lparr>uc_funcs := (uc_funcs cx)[i := f]\<rparr>)"
  using set_update_subset_insert [of "uc_funcs cx" i f] by (auto simp: ufunc_ok_def)

lemma find_loop_miss:
  "i + n \<le> length (uc_funcs cx) \<Longrightarrow> (\<And>j. i \<le> j \<Longrightarrow> j < i + n \<Longrightarrow> fi_name (uc_funcs cx ! j) \<noteq> nm) \<Longrightarrow> find_loop cx nm i n = Inr (- 1)"
  by (induction cx nm i n rule: find_loop.induct) auto

lemma find_loop_hit:
  "i \<le> j \<Longrightarrow> j < i + n \<Longrightarrow> i + n \<le> length (uc_funcs cx) \<Longrightarrow> fi_name (uc_funcs cx ! j) = nm \<Longrightarrow>
    (\<And>k. i \<le> k \<Longrightarrow> k < j \<Longrightarrow> fi_name (uc_funcs cx ! k) \<noteq> nm) \<Longrightarrow> find_loop cx nm i n = Inr (int j)"
proof (induction cx nm i n rule: find_loop.induct)
  case (2 cx nm i n)
  then show ?case by (cases "i = j") auto
qed simp

text \<open>The converted arguments.\<close>

lemma args_loop_spec:
  assumes "i + n \<le> length raw" "i + n \<le> length (fi_arg_types f)" "i + n \<le> length args"
  shows "\<exists>out. args_loop f raw i n args = Inr out \<and> length out = length args \<and>
    (\<forall>j < length args. out ! j = (if i \<le> j \<and> j < i + n then to_arg_val (fi_arg_types f ! j) (raw ! j) else args ! j))"
  using assms
proof (induction f raw i n args rule: args_loop.induct)
  case (2 f raw i n args)
  let ?args = "args[i := to_arg_val (fi_arg_types f ! i) (raw ! i)]"
  have "\<not> (length raw \<le> i \<or> length (fi_arg_types f) \<le> i \<or> length args \<le> i)" using 2(2-4) by simp
  with 2 obtain out where "args_loop f raw i (Suc n) args = Inr out" "length out = length args"
    "\<forall>j < length args. out ! j = (if Suc i \<le> j \<and> j < Suc i + n then to_arg_val (fi_arg_types f ! j) (raw ! j) else ?args ! j)"
    by auto
  with 2(2-4) show ?case by (auto simp: nth_list_update less_Suc_eq_le le_less Suc_le_eq)
qed auto

section \<open>The dispatcher\<close>

text \<open>The five values a function is called with.\<close>

definition converted :: "func_info \<Rightarrow> u64 list \<Rightarrow> u64 list" where
  "converted f raw = map (\<lambda>i. if int i < fi_num_args f then to_arg_val (fi_arg_types f ! i) (raw ! i) else 0) [0..<5]"

lemma args_loop_converted:
  assumes "length (fi_arg_types f) = MAX_ARGS_COUNT" "length raw = MAX_ARGS_COUNT" "0 \<le> fi_num_args f" "fi_num_args f \<le> int MAX_ARGS_COUNT"
  shows "\<exists>args. args_loop f raw 0 (nat (fi_num_args f)) (replicate MAX_ARGS_COUNT 0) = Inr args \<and> take 5 args = converted f raw"
proof -
  have "nat (fi_num_args f) \<le> MAX_ARGS_COUNT" using assms(4) by simp
  with args_loop_spec [of 0 "nat (fi_num_args f)" raw f "replicate MAX_ARGS_COUNT 0"] assms(1,2) obtain args where
    a: "args_loop f raw 0 (nat (fi_num_args f)) (replicate MAX_ARGS_COUNT 0) = Inr args" "length args = MAX_ARGS_COUNT"
      "\<forall>j < MAX_ARGS_COUNT. args ! j = (if j < nat (fi_num_args f) then to_arg_val (fi_arg_types f ! j) (raw ! j) else 0)"
    by auto
  have "take 5 args = converted f raw"
    by (rule nth_equalityI) (use a(2,3) assms(3) in \<open>auto simp: converted_def MAX_ARGS_COUNT_def zless_nat_eq_int_zless\<close>)
  with a(1) show ?thesis by blast
qed

lemma dispatcher_eq:
  assumes "ufunc_ok cx" "length raw = MAX_ARGS_COUNT"
  shows "ebpf_call_ufunc_dispatcher call cx ident raw w =
    (if MAX_UFUNC_FUNCS \<le> ident then Inr (- 1, w)
     else let f = uc_funcs cx ! ident in
       if fi_func f = None \<or> fi_is_attached f then Inr (0, w)
       else if fi_num_args f < 0 \<or> 6 < fi_num_args f then Inr (- 1, w)
       else let out = call (the (fi_func f)) (converted f raw) w in Inr (from_arg_val (fi_ret_type f) (fst out), snd out))"
proof (cases "MAX_UFUNC_FUNCS \<le> ident")
  case False
  let ?f = "uc_funcs cx ! ident"
  have f: "length (fi_arg_types ?f) = MAX_ARGS_COUNT" "ident < length (uc_funcs cx)" using assms(1) False by (auto simp: ufunc_ok_def)
  show ?thesis
    using False f args_loop_converted [OF f(1) assms(2)]
    by (auto simp: ebpf_call_ufunc_dispatcher_def ebpf_resovle_ufunc_func_def Let_def MAX_ARGS_COUNT_def split: option.split prod.split)
qed (simp add: ebpf_call_ufunc_dispatcher_def)

text \<open>Calls of user functions: on a table of the runtime the dispatcher never reads outside of the table or of the arguments.
  An id that is too large gives -1, an id without a function and a function that is attached give 0, a number of arguments that is
  negative or above six gives -1, all without a call; otherwise the function is called once, with the converted arguments and zeros
  after them, and its result is converted back.\<close>

theorem ufunc_dispatcher_total:
  assumes "ufunc_ok cx" "length raw = MAX_ARGS_COUNT"
  shows "\<exists>r w'. ebpf_call_ufunc_dispatcher call cx ident raw w = Inr (r, w') \<and>
    (MAX_UFUNC_FUNCS \<le> ident \<longrightarrow> r = - 1 \<and> w' = w) \<and>
    (ident < MAX_UFUNC_FUNCS \<longrightarrow> (let f = uc_funcs cx ! ident in
       (fi_func f = None \<or> fi_is_attached f \<longrightarrow> r = 0 \<and> w' = w) \<and>
       (fi_func f \<noteq> None \<and> \<not> fi_is_attached f \<and> (fi_num_args f < 0 \<or> 6 < fi_num_args f) \<longrightarrow> r = - 1 \<and> w' = w) \<and>
       (\<forall>a. fi_func f = Some a \<and> \<not> fi_is_attached f \<and> 0 \<le> fi_num_args f \<and> fi_num_args f \<le> 6 \<longrightarrow>
          r = from_arg_val (fi_ret_type f) (fst (call a (converted f raw) w)) \<and> w' = snd (call a (converted f raw) w))))"
  unfolding dispatcher_eq [OF assms] by (auto simp: Let_def)

text \<open>A function that is called with its two arguments and adds them.\<close>

definition add_call :: "nat \<Rightarrow> u64 list \<Rightarrow> unit \<Rightarrow> u64 \<times> unit" where
  "add_call a args w = (args ! 0 + args ! 1, w)"

definition add_info :: func_info where
  "add_info = \<lparr>fi_name = ''add'', fi_func = None, fi_ret_type = UFUNC_TYPE_INT64,
     fi_arg_types = [UFUNC_TYPE_INT64, UFUNC_TYPE_UINT64, UFUNC_TYPE_VOID, UFUNC_TYPE_VOID, UFUNC_TYPE_VOID, UFUNC_TYPE_VOID],
     fi_num_args = 2, fi_id = 0, fi_is_attached = False\<rparr>"

theorem ufunc_dispatcher_total_witness:
  "ebpf_call_ufunc_dispatcher add_call global_ufunc_ctx 40000 [1, 2, 3, 4, 5, 6] () = Inr (- 1, ()) \<and>
   ebpf_call_ufunc_dispatcher add_call global_ufunc_ctx 7 [1, 2, 3, 4, 5, 6] () = Inr (0, ())"
  using ufunc_dispatcher_total [OF global_ok, of "[1, 2, 3, 4, 5, 6]" add_call 40000 "()"]
    ufunc_dispatcher_total [OF global_ok, of "[1, 2, 3, 4, 5, 6]" add_call 7 "()"]
  by (simp add: MAX_ARGS_COUNT_def MAX_UFUNC_FUNCS_def global_ufunc_ctx_def no_func_def Let_def)

section \<open>Registration\<close>

lemma resolve_eq:
  assumes "ufunc_ok cx" "function_resolver (fi_name f) = Some a" "uc_func_cnt cx < MAX_UFUNC_FUNCS - 1"
  shows "bpftime_ufunc_resolve_from_info f function_resolver cx =
    Inr (0, cx\<lparr>uc_funcs := (uc_funcs cx)[uc_func_cnt cx := f\<lparr>fi_func := Some a\<rparr>], uc_func_cnt := uc_func_cnt cx + 1\<rparr>)"
  using assms by (simp add: bpftime_ufunc_resolve_from_info_def store_func_def ufunc_ok_def)

text \<open>Adding a function at the end of the table does not change what is found for other names.\<close>

lemma find_stable:
  assumes ok: "ufunc_ok cx" and c: "uc_func_cnt cx < MAX_UFUNC_FUNCS - 1" and nm: "fi_name f \<noteq> nm"
  shows "ebpf_call_find_ufunc_id (Some nm) (cx\<lparr>uc_funcs := (uc_funcs cx)[uc_func_cnt cx := f], uc_func_cnt := uc_func_cnt cx + 1\<rparr>) =
    ebpf_call_find_ufunc_id (Some nm) cx"
proof -
  let ?n = "uc_func_cnt cx" and ?P = "\<lambda>j. j < uc_func_cnt cx \<and> fi_name (uc_funcs cx ! j) = nm"
  have len: "?n + 1 \<le> length (uc_funcs cx)" using ok c by (simp add: ufunc_ok_def)
  show ?thesis
  proof (cases "\<exists>j. ?P j")
    case True
    then obtain j where "?P j" "\<forall>k < j. \<not> ?P k" using exists_least_iff [of ?P] by blast
    then show ?thesis unfolding ebpf_call_find_ufunc_id_def option.case
      by (subst (1 2) find_loop_hit [of 0 j]) (use len nm in \<open>auto simp: nth_list_update\<close>)
  next
    case False
    then show ?thesis unfolding ebpf_call_find_ufunc_id_def option.case
      by (subst (1 2) find_loop_miss) (use len nm in \<open>auto simp: nth_list_update less_Suc_eq\<close>)
  qed
qed

text \<open>Registering, finding and calling: a function that the resolver finds and whose name is new gets the next id. Its name leads to
  that id, a call with that id runs the resolved function with the converted arguments, and every other name and every earlier
  id means what it meant before.\<close>

theorem ufunc_register_call:
  assumes ok: "ufunc_ok cx" and c: "uc_func_cnt cx < MAX_UFUNC_FUNCS - 1" and a: "function_resolver (fi_name f) = Some a"
    and f: "length (fi_arg_types f) = MAX_ARGS_COUNT" "0 \<le> fi_num_args f" "fi_num_args f \<le> 6" "\<not> fi_is_attached f"
    and new: "\<forall>i < uc_func_cnt cx. fi_name (uc_funcs cx ! i) \<noteq> fi_name f" and raw: "length raw = MAX_ARGS_COUNT"
  shows "\<exists>cx'. bpftime_ufunc_resolve_from_info f function_resolver cx = Inr (0, cx') \<and> ufunc_ok cx' \<and>
    ebpf_call_find_ufunc_id (Some (fi_name f)) cx' = Inr (int (uc_func_cnt cx)) \<and>
    ebpf_call_ufunc_dispatcher call cx' (uc_func_cnt cx) raw w =
      (let (v, w') = call a (converted f raw) w in Inr (from_arg_val (fi_ret_type f) v, w')) \<and>
    (\<forall>nm. nm \<noteq> fi_name f \<longrightarrow> ebpf_call_find_ufunc_id (Some nm) cx' = ebpf_call_find_ufunc_id (Some nm) cx) \<and>
    (\<forall>i < uc_func_cnt cx. ebpf_call_ufunc_dispatcher call cx' i raw w = ebpf_call_ufunc_dispatcher call cx i raw w)"
proof -
  let ?f = "f\<lparr>fi_func := Some a\<rparr>" and ?n = "uc_func_cnt cx"
  let ?cx = "cx\<lparr>uc_funcs := (uc_funcs cx)[?n := ?f], uc_func_cnt := ?n + 1\<rparr>"
  have len: "?n + 1 < MAX_UFUNC_FUNCS" "length (uc_funcs cx) = MAX_UFUNC_FUNCS" using ok c by (auto simp: ufunc_ok_def)
  have ok': "ufunc_ok ?cx" using ufunc_ok_store [OF ok, of ?f ?n] f(1) len by (simp add: ufunc_ok_def)
  have "find_loop ?cx (fi_name f) 0 (?n + 1) = Inr (int ?n)"
    by (rule find_loop_hit) (use len new in \<open>auto simp: nth_list_update\<close>)
  then have find: "ebpf_call_find_ufunc_id (Some (fi_name f)) ?cx = Inr (int ?n)" by (simp add: ebpf_call_find_ufunc_id_def)
  have "converted ?f raw = converted f raw" by (simp add: converted_def)
  then have "ebpf_call_ufunc_dispatcher call ?cx ?n raw w =
      (let (v, w') = call a (converted f raw) w in Inr (from_arg_val (fi_ret_type f) v, w'))"
    unfolding dispatcher_eq [OF ok' raw] using len f by (simp add: Let_def split: prod.split)
  moreover have "ebpf_call_ufunc_dispatcher call ?cx i raw w = ebpf_call_ufunc_dispatcher call cx i raw w" if "i < ?n" for i
    unfolding dispatcher_eq [OF ok' raw] dispatcher_eq [OF ok raw] using that by simp
  moreover have "ebpf_call_find_ufunc_id (Some nm) ?cx = ebpf_call_find_ufunc_id (Some nm) cx" if "nm \<noteq> fi_name f" for nm
    by (rule find_stable [OF ok c]) (use that in simp)
  ultimately show ?thesis using resolve_eq [of cx function_resolver f a] ok a c ok' find by auto
qed

theorem ufunc_register_call_witness:
  "\<exists>cx'. bpftime_ufunc_resolve_from_info add_info (\<lambda>_. Some 99) global_ufunc_ctx = Inr (0, cx') \<and>
     ebpf_call_find_ufunc_id (Some ''add'') cx' = Inr 0 \<and>
     ebpf_call_ufunc_dispatcher add_call cx' 0 [20, 22, 3, 4, 5, 6] () = Inr (42, ())"
proof -
  have "uc_func_cnt global_ufunc_ctx = 0" by (simp add: global_ufunc_ctx_def)
  with ufunc_register_call [OF global_ok, of "\<lambda>_. Some 99" add_info 99 "[20, 22, 3, 4, 5, 6]" add_call "()"] show ?thesis
    by (auto simp: add_info_def MAX_UFUNC_FUNCS_def MAX_ARGS_COUNT_def converted_def add_call_def to_arg_val_def from_arg_val_def)
qed

text \<open>The sixth argument a function may declare is converted and then dropped.\<close>

theorem ufunc_sixth_argument_dropped:
  assumes "ufunc_ok cx" "length raw = MAX_ARGS_COUNT"
  shows "ebpf_call_ufunc_dispatcher call cx ident (raw[5 := x]) w = ebpf_call_ufunc_dispatcher call cx ident raw w"
proof -
  have "converted f (raw[5 := x]) = converted f raw" for f by (simp add: converted_def)
  moreover have "length (raw[5 := x]) = MAX_ARGS_COUNT" using assms(2) by simp
  ultimately show ?thesis using dispatcher_eq [OF assms(1)] assms(2) by metis
qed

text \<open>Registration under an id of one's own does not take part in the numbering: the function is not found by its name, the next
  resolved function overwrites it, and an id outside of the table is a write outside of it.\<close>

theorem ufunc_register_by_id:
  assumes "ufunc_ok cx" "uc_func_cnt cx < MAX_UFUNC_FUNCS - 1" "function_resolver (fi_name g) = Some a"
    and "\<forall>i < uc_func_cnt cx. fi_name (uc_funcs cx ! i) \<noteq> fi_name f"
  shows "\<exists>cx1 cx2. bpftime_ufunc_register_ufunc (uc_func_cnt cx) f cx = Inr cx1 \<and> ebpf_call_find_ufunc_id (Some (fi_name f)) cx1 = Inr (- 1) \<and>
      bpftime_ufunc_resolve_from_info g function_resolver cx1 = Inr (0, cx2) \<and> uc_funcs cx2 ! uc_func_cnt cx = g\<lparr>fi_func := Some a\<rparr> \<and>
      (\<forall>i \<ge> MAX_UFUNC_FUNCS. bpftime_ufunc_register_ufunc i f cx = Inl Fault)"
proof -
  let ?cx = "cx\<lparr>uc_funcs := (uc_funcs cx)[uc_func_cnt cx := f]\<rparr>"
  have len: "uc_func_cnt cx < MAX_UFUNC_FUNCS - 1" "length (uc_funcs cx) = MAX_UFUNC_FUNCS" "uc_func_cnt cx < MAX_UFUNC_FUNCS"
    using assms(1,2) by (auto simp: ufunc_ok_def)
  have "find_loop ?cx (fi_name f) 0 (uc_func_cnt cx) = Inr (- 1)"
    by (rule find_loop_miss) (use len assms(4) in auto)
  then show ?thesis using len assms(3)
    by (auto simp: bpftime_ufunc_register_ufunc_def store_func_def ebpf_call_find_ufunc_id_def bpftime_ufunc_resolve_from_info_def)
qed

end
