(* ===== verification/Transporter.thy ===== *)
theory Transporter
  imports Ubpf_Vm
begin

text \<open>
  The kernel program that carries samples of a shared perf event array from user space to the kernel
  (src/bpf_map/shared/perf_event_array_kernel_user.cpp). The runtime builds it as an array of eBPF instructions; a timer
  runs it. Each run drains one record \<open>[8 bytes of length][data]\<close> from the user ring buffer into a buffer on its
  stack and outputs the data to the kernel's perf event array. The array of instructions is a definition here, and so is
  the part of the eBPF instruction set it uses, over values that keep pointers apart from numbers: using an undefined register,
  leaving the stack or mixing up pointers is \<open>Bad\<close>. The three kernel functions it calls are a parameter; a drain that
  the kernel refuses is like a drain without a record, since the program treats a negative result and 0 alike.
\<close>

unbundle bit_operations_syntax

section \<open>The machine\<close>

text \<open>Register values: numbers, addresses relative to the top of the stack, the context of the event, maps, functions of the
  program, and the dynamic pointer of a record.\<close>

datatype bval = Undef | Num u64 | Stk int | CtxP | MapP int | FunP nat | DynP bytes

definition st64 :: "u64 \<Rightarrow> bytes" where
  "st64 x = bytes_of_nat 8 (unat x)"

definition ld64 :: "bytes \<Rightarrow> u64" where
  "ld64 bs = of_nat (nat_of_bytes (take 8 bs))"

definition STACK_SIZE :: nat where "STACK_SIZE = 512"

text \<open>\<open>n\<close> bytes at the address \<open>o'\<close> of the stack.\<close>

definition in_stack :: "int \<Rightarrow> nat \<Rightarrow> bool" where
  "in_stack o' n \<longleftrightarrow> - int STACK_SIZE \<le> o' \<and> o' + int n \<le> 0"

definition stk_idx :: "int \<Rightarrow> nat" where
  "stk_idx o' = nat (int STACK_SIZE + o')"

text \<open>One instruction other than a call or an exit: the new program counter, registers and stack.\<close>

definition jump :: "bool \<Rightarrow> insn \<Rightarrow> nat \<Rightarrow> nat" where
  "jump taken i pc = (if taken then nat (int pc + 1 + sint (in_off i)) else pc + 1)"

definition step :: "insn list \<Rightarrow> nat \<Rightarrow> bval list \<Rightarrow> bytes \<Rightarrow> (nat \<times> bval list \<times> bytes) option" where
  "step prog pc regs st =
     (let i = prog ! pc; d = unat (in_dst i); s = unat (in_src i); simm = scast (in_imm i) :: u64 in
      if in_code i = 0xbf then (if regs ! s = Undef then None else Some (pc + 1, regs[d := regs ! s], st))
      else if in_code i = 0xb7 then Some (pc + 1, regs[d := Num simm], st)
      else if in_code i = 0x07 then (case regs ! d of
          Num x \<Rightarrow> Some (pc + 1, regs[d := Num (x + simm)], st)
        | Stk o' \<Rightarrow> Some (pc + 1, regs[d := Stk (o' + sint (in_imm i))], st)
        | _ \<Rightarrow> None)
      else if in_code i = 0x67 then (case regs ! d of
          Num x \<Rightarrow> Some (pc + 1, regs[d := Num (push_bit (unat (in_imm i) mod 64) x)], st) | _ \<Rightarrow> None)
      else if in_code i = 0xc7 then (case regs ! d of
          Num x \<Rightarrow> Some (pc + 1, regs[d := Num (signed_drop_bit (unat (in_imm i) mod 64) x)], st) | _ \<Rightarrow> None)
      else if in_code i = 0x7b then (case (regs ! d, regs ! s) of
          (Stk o', Num x) \<Rightarrow> (let a = o' + sint (in_off i) in
             if in_stack a 8 then Some (pc + 1, regs, put (stk_idx a) (st64 x) st) else None)
        | _ \<Rightarrow> None)
      else if in_code i = 0x79 then (case regs ! s of
          Stk o' \<Rightarrow> (let a = o' + sint (in_off i) in
             if in_stack a 8 then Some (pc + 1, regs[d := Num (ld64 (seg (stk_idx a) 8 st))], st) else None)
        | _ \<Rightarrow> None)
      else if in_code i = EBPF_OP_LDDW then
        (if in_src i = 0 then Some (pc + 2, regs[d := Num (ucast (in_imm i) OR push_bit 32 (ucast (in_imm (prog ! (pc + 1)))))], st)
         else if in_src i = 1 then Some (pc + 2, regs[d := MapP (sint (in_imm i))], st)
         else if in_src i = 4 then Some (pc + 2, regs[d := FunP (nat (int pc + 1 + sint (in_imm i)))], st)
         else None)
      else if in_code i = 0x6d then (case (regs ! d, regs ! s) of
          (Num x, Num y) \<Rightarrow> Some (jump (sint y < sint x) i pc, regs, st) | _ \<Rightarrow> None)
      else if in_code i = 0x2d then (case (regs ! d, regs ! s) of
          (Num x, Num y) \<Rightarrow> Some (jump (y < x) i pc, regs, st) | _ \<Rightarrow> None)
      else if in_code i = 0x25 then (case regs ! d of
          Num x \<Rightarrow> Some (jump (simm < x) i pc, regs, st) | _ \<Rightarrow> None)
      else None)"

text \<open>The kernel: taking the oldest record of a user ring buffer, reading from a record, and writing to a perf event array.\<close>

record 's kernel =
  kn_pop :: "int \<Rightarrow> 's \<Rightarrow> (bytes \<times> 's) option"
  kn_read :: "bytes \<Rightarrow> u64 \<Rightarrow> u64 \<Rightarrow> u64 \<Rightarrow> u64 \<times> bytes option"
  kn_output :: "int \<Rightarrow> u64 \<Rightarrow> bytes \<Rightarrow> 's \<Rightarrow> u64 \<times> 's"

datatype 's run = Done u64 bytes 's | Bad | OutOfFuel

text \<open>After a call the result is in register 0 and the argument registers are undefined; a function starts with its arguments.\<close>

definition after_call :: "u64 \<Rightarrow> bval list \<Rightarrow> bval list" where
  "after_call r regs = [Num r, Undef, Undef, Undef, Undef, Undef] @ drop 6 regs"

definition callback_regs :: "bytes \<Rightarrow> bval \<Rightarrow> bval list" where
  "callback_regs rec ctx = [Undef, DynP rec, ctx, Undef, Undef, Undef, Undef, Undef, Undef, Undef, Undef]"

definition start_regs :: "bval list" where
  "start_regs = [Undef, CtxP, Undef, Undef, Undef, Undef, Undef, Undef, Undef, Undef, Stk 0]"

definition dynptr_read_call :: "'s kernel \<Rightarrow> bval list \<Rightarrow> bytes \<Rightarrow> (u64 \<times> bytes) option" where
  "dynptr_read_call kn regs st = (case (regs ! 1, regs ! 2, regs ! 3, regs ! 4, regs ! 5) of
     (Stk o', Num len, DynP rec, Num off, Num fl) \<Rightarrow>
       if \<not> in_stack o' (unat len) then None
       else (case kn_read kn rec len off fl of
           (r, None) \<Rightarrow> Some (r, st)
         | (r, Some bs) \<Rightarrow> if length bs = unat len then Some (r, put (stk_idx o') bs st) else None)
   | _ \<Rightarrow> None)"

definition perf_output_call :: "'s kernel \<Rightarrow> bval list \<Rightarrow> bytes \<Rightarrow> 's \<Rightarrow> (u64 \<times> 's) option" where
  "perf_output_call kn regs st w = (case (regs ! 1, regs ! 2, regs ! 3, regs ! 4, regs ! 5) of
     (CtxP, MapP m, Num fl, Stk o', Num sz) \<Rightarrow>
       if in_stack o' (unat sz) then Some (kn_output kn m fl (seg (stk_idx o') (unat sz) st) w) else None
   | _ \<Rightarrow> None)"

text \<open>A run. Draining calls the callback on one record after the other until it returns something other than 0, and gives the
  number of records taken.\<close>

fun exec :: "'s kernel \<Rightarrow> insn list \<Rightarrow> nat \<Rightarrow> nat \<Rightarrow> bval list \<Rightarrow> bytes \<Rightarrow> 's \<Rightarrow> 's run"
  and drain :: "'s kernel \<Rightarrow> insn list \<Rightarrow> nat \<Rightarrow> nat \<Rightarrow> bval \<Rightarrow> int \<Rightarrow> u64 \<Rightarrow> bytes \<Rightarrow> 's \<Rightarrow> 's run" where
  "exec kn prog 0 pc regs st w = OutOfFuel"
| "exec kn prog (Suc n) pc regs st w =
     (if length prog \<le> pc then Bad
      else let i = prog ! pc in
        if in_code i = EBPF_OP_EXIT then (case regs ! 0 of Num r \<Rightarrow> Done r st w | _ \<Rightarrow> Bad)
        else if in_code i = EBPF_OP_CALL then
          (if in_imm i = 0xd1 then (case (regs ! 1, regs ! 2, regs ! 4) of
               (MapP m, FunP f, Num fl) \<Rightarrow> (case drain kn prog n f (regs ! 3) m 0 st w of
                   Done r st w \<Rightarrow> exec kn prog n (pc + 1) (after_call r regs) st w | out \<Rightarrow> out)
             | _ \<Rightarrow> Bad)
           else if in_imm i = 0xc9 then (case dynptr_read_call kn regs st of
               Some (r, st) \<Rightarrow> exec kn prog n (pc + 1) (after_call r regs) st w | None \<Rightarrow> Bad)
           else if in_imm i = 0x19 then (case perf_output_call kn regs st w of
               Some (r, w) \<Rightarrow> exec kn prog n (pc + 1) (after_call r regs) st w | None \<Rightarrow> Bad)
           else Bad)
        else (case step prog pc regs st of
            Some (pc, regs, st) \<Rightarrow> exec kn prog n pc regs st w | None \<Rightarrow> Bad))"
| "drain kn prog 0 f ctx m cnt st w = OutOfFuel"
| "drain kn prog (Suc n) f ctx m cnt st w = (case kn_pop kn m w of
     None \<Rightarrow> Done cnt st w
   | Some (rec, w) \<Rightarrow> (case exec kn prog n f (callback_regs rec ctx) st w of
         Done r st w \<Rightarrow> if r = 0 then drain kn prog n f ctx m (cnt + 1) st w else Done (cnt + 1) st w
       | out \<Rightarrow> out))"

section \<open>The program\<close>

definition ins :: "8 word \<Rightarrow> 4 word \<Rightarrow> 4 word \<Rightarrow> 16 word \<Rightarrow> u32 \<Rightarrow> insn" where
  "ins code dst src off imm = \<lparr>in_code = code, in_dst = dst, in_src = src, in_off = off, in_imm = imm\<rparr>"

definition BPF_MOV64_REG :: "4 word \<Rightarrow> 4 word \<Rightarrow> insn" where "BPF_MOV64_REG d s = ins 0xbf d s 0 0"
definition BPF_MOV64_IMM :: "4 word \<Rightarrow> u32 \<Rightarrow> insn" where "BPF_MOV64_IMM d v = ins 0xb7 d 0 0 v"
definition BPF_ADD64_IMM :: "4 word \<Rightarrow> u32 \<Rightarrow> insn" where "BPF_ADD64_IMM d v = ins 0x07 d 0 0 v"
definition BPF_STX_DW :: "4 word \<Rightarrow> 4 word \<Rightarrow> 16 word \<Rightarrow> insn" where "BPF_STX_DW d s off = ins 0x7b d s off 0"
definition BPF_LDX_DW :: "4 word \<Rightarrow> 4 word \<Rightarrow> 16 word \<Rightarrow> insn" where "BPF_LDX_DW d s off = ins 0x79 d s off 0"
definition BPF_LD_IMM64 :: "4 word \<Rightarrow> 4 word \<Rightarrow> u32 \<Rightarrow> insn list" where
  "BPF_LD_IMM64 d s v = [ins EBPF_OP_LDDW d s 0 v, ins 0 0 0 0 0]"
definition BPF_EMIT_CALL :: "u32 \<Rightarrow> insn" where "BPF_EMIT_CALL f = ins EBPF_OP_CALL 0 0 0 f"
definition BPF_EXIT_INSN :: insn where "BPF_EXIT_INSN = ins EBPF_OP_EXIT 0 0 0 0"

lemmas insn_defs = ins_def BPF_MOV64_REG_def BPF_MOV64_IMM_def BPF_ADD64_IMM_def BPF_STX_DW_def BPF_LDX_DW_def
  BPF_EMIT_CALL_def BPF_EXIT_INSN_def

text \<open>The stores that clear the buffer, at the offsets \<open>-0x8\<close> to \<open>-0x1c8\<close>.\<close>

definition zero_insns :: "insn list" where
  "zero_insns = map (\<lambda>k. BPF_STX_DW 10 1 (- of_nat (8 * (k + 1)))) [0..<57]"

definition send_insns :: "u32 \<Rightarrow> u32 \<Rightarrow> insn list" where
  "send_insns user_ringbuf_fd perf_event_array_fd =
     [BPF_MOV64_REG 3 10, BPF_ADD64_IMM 3 (- 0x1c8)] @ BPF_LD_IMM64 1 1 user_ringbuf_fd @ BPF_LD_IMM64 2 4 22 @
     [BPF_MOV64_IMM 4 0, BPF_EMIT_CALL 0xd1, ins 0x67 0 0 0 0x20, ins 0xc7 0 0 0 0x20, BPF_MOV64_IMM 1 1, ins 0x6d 1 0 0xd 0,
      BPF_MOV64_REG 4 10, BPF_ADD64_IMM 4 (- 0x1c0), BPF_LDX_DW 5 10 (- 0x1c8), BPF_MOV64_IMM 1 0x1c1, ins 0x2d 1 5 2 0,
      BPF_MOV64_IMM 5 0x1c0, BPF_STX_DW 10 5 (- 0x1c8), BPF_MOV64_REG 1 6] @
     BPF_LD_IMM64 2 1 perf_event_array_fd @ BPF_LD_IMM64 3 0 0xffffffff @
     [BPF_EMIT_CALL 0x19, BPF_MOV64_IMM 0 0, BPF_EXIT_INSN]"

definition callback_insns :: "insn list" where
  "callback_insns =
     [BPF_MOV64_REG 7 2, BPF_MOV64_REG 6 1, BPF_MOV64_IMM 8 0, BPF_MOV64_REG 1 7, BPF_MOV64_IMM 2 8, BPF_MOV64_REG 3 6,
      BPF_MOV64_IMM 4 0, BPF_MOV64_IMM 5 0, BPF_EMIT_CALL 0xc9, ins 0x6d 8 0 8 0, BPF_LDX_DW 2 7 0, ins 0x25 2 0 6 0x1c0,
      BPF_ADD64_IMM 7 8, BPF_MOV64_REG 1 7, BPF_MOV64_REG 3 6, BPF_MOV64_IMM 4 8, BPF_MOV64_IMM 5 0, BPF_EMIT_CALL 0xc9,
      BPF_MOV64_IMM 0 1, BPF_EXIT_INSN]"

definition create_transporting_kernel_ebpf_program :: "u32 \<Rightarrow> u32 \<Rightarrow> insn list" where
  "create_transporting_kernel_ebpf_program user_ringbuf_fd perf_event_array_fd =
     [BPF_MOV64_REG 6 1, BPF_MOV64_IMM 1 0] @ zero_insns @ send_insns user_ringbuf_fd perf_event_array_fd @ callback_insns"

section \<open>Fetching instructions\<close>

abbreviation transporter :: "u32 \<Rightarrow> u32 \<Rightarrow> insn list" where
  "transporter \<equiv> create_transporting_kernel_ebpf_program"

lemma length_segments [simp]: "length zero_insns = 57" "length (send_insns rb pf) = 27" "length callback_insns = 20"
  by (simp_all add: zero_insns_def send_insns_def callback_insns_def BPF_LD_IMM64_def)

lemma length_transporter [simp]: "length (transporter rb pf) = 106"
  by (simp add: create_transporting_kernel_ebpf_program_def)

lemma fetch_start: "transporter rb pf ! 0 = BPF_MOV64_REG 6 1" "transporter rb pf ! Suc 0 = BPF_MOV64_IMM 1 0"
  by (simp_all add: create_transporting_kernel_ebpf_program_def)

lemma fetch_zero: "k < 57 \<Longrightarrow> transporter rb pf ! Suc (Suc k) = BPF_STX_DW 10 1 (- of_nat (8 * (k + 1)))"
  by (simp add: create_transporting_kernel_ebpf_program_def nth_append zero_insns_def)

lemma fetch_send: "59 \<le> m \<Longrightarrow> m < 86 \<Longrightarrow> transporter rb pf ! m = send_insns rb pf ! (m - 59)"
  by (simp add: create_transporting_kernel_ebpf_program_def nth_append nth_Cons')

lemma fetch_callback: "86 \<le> m \<Longrightarrow> m < 106 \<Longrightarrow> transporter rb pf ! m = callback_insns ! (m - 86)"
  by (simp add: create_transporting_kernel_ebpf_program_def nth_append nth_Cons')

text \<open>One instruction, with the fuel as a number.\<close>

definition call_at :: "'s kernel \<Rightarrow> insn list \<Rightarrow> nat \<Rightarrow> nat \<Rightarrow> bval list \<Rightarrow> bytes \<Rightarrow> 's \<Rightarrow> 's run" where
  "call_at kn prog n pc regs st w = (let i = prog ! pc in
     if in_imm i = 0xd1 then (case (regs ! 1, regs ! 2, regs ! 4) of
         (MapP m, FunP f, Num fl) \<Rightarrow> (case drain kn prog (n - 1) f (regs ! 3) m 0 st w of
             Done r st w \<Rightarrow> exec kn prog (n - 1) (pc + 1) (after_call r regs) st w | out \<Rightarrow> out)
       | _ \<Rightarrow> Bad)
     else if in_imm i = 0xc9 then (case dynptr_read_call kn regs st of
         Some (r, st) \<Rightarrow> exec kn prog (n - 1) (pc + 1) (after_call r regs) st w | None \<Rightarrow> Bad)
     else if in_imm i = 0x19 then (case perf_output_call kn regs st w of
         Some (r, w) \<Rightarrow> exec kn prog (n - 1) (pc + 1) (after_call r regs) st w | None \<Rightarrow> Bad)
     else Bad)"

lemma exec_at: "0 < n \<Longrightarrow> exec kn prog n pc regs st w =
     (if length prog \<le> pc then Bad
      else let i = prog ! pc in
        if in_code i = EBPF_OP_EXIT then (case regs ! 0 of Num r \<Rightarrow> Done r st w | _ \<Rightarrow> Bad)
        else if in_code i = EBPF_OP_CALL then call_at kn prog n pc regs st w
        else (case step prog pc regs st of
            Some (pc, regs, st) \<Rightarrow> exec kn prog (n - 1) pc regs st w | None \<Rightarrow> Bad))"
proof (cases n)
  case (Suc m)
  show ?thesis unfolding Suc diff_Suc_1 call_at_def Let_def by (simp only: exec.simps Let_def)
qed simp

lemma exec_step:
  assumes "pc < length prog" "in_code (prog ! pc) \<noteq> EBPF_OP_EXIT" "in_code (prog ! pc) \<noteq> EBPF_OP_CALL"
    and "step prog pc regs st = Some (pc', regs', st')"
  shows "exec kn prog (Suc n) pc regs st w = exec kn prog n pc' regs' st' w"
  using assms by (simp add: Let_def)

section \<open>Clearing the buffer\<close>

lemma sint16: "- 32768 \<le> x \<Longrightarrow> x < 32768 \<Longrightarrow> sint (word_of_int x :: 16 word) = x"
  by (simp add: signed_of_int signed_take_bit_int_eq_self)

lemma zero_step:
  assumes "k < 57" "regs ! 10 = Stk 0" "regs ! 1 = Num 0" "length st = STACK_SIZE"
  shows "step (transporter rb pf) (Suc (Suc k)) regs st = Some (Suc (Suc (Suc k)), regs, put (504 - 8 * k) (st64 0) st)"
proof -
  let ?off = "- of_nat (8 * (k + 1)) :: 16 word"
  have "?off = word_of_int (- int (8 * (k + 1)))" by simp
  moreover have "sint (word_of_int (- int (8 * (k + 1))) :: 16 word) = - int (8 * (k + 1))"
    by (rule sint16) (use assms(1) in simp_all)
  ultimately have "sint ?off = - int (8 * (k + 1))" by (simp only:)
  moreover have "in_stack (- int (8 * (k + 1))) 8" using assms(1) by (simp add: in_stack_def STACK_SIZE_def)
  moreover have "stk_idx (- int (8 * (k + 1))) = 504 - 8 * k"
    using assms(1) by (simp add: stk_idx_def STACK_SIZE_def nat_diff_distrib)
  ultimately show ?thesis using assms
    by (simp add: step_def fetch_zero insn_defs Let_def del: of_nat_add of_nat_mult)
qed

text \<open>The end of the stack that is cleared.\<close>

definition cleared :: "nat \<Rightarrow> bytes \<Rightarrow> bool" where
  "cleared n st \<longleftrightarrow> length st = 512 \<and> drop (512 - n) st = replicate n 0"

lemma st64_0: "st64 0 = replicate 8 0"
  by code_simp

lemma cleared_step:
  assumes "k < 57" "cleared (8 * k) st"
  shows "cleared (8 * Suc k) (put (504 - 8 * k) (st64 0) st)"
proof -
  have "length (put (504 - 8 * k) (st64 0) st) = 512"
    using assms by (subst length_put) (simp_all add: cleared_def st64_0)
  moreover have "drop (504 - 8 * k) (put (504 - 8 * k) (st64 0) st) = st64 0 @ drop (512 - 8 * k) st"
    using assms by (simp add: put_def cleared_def st64_0 Suc_diff_le)
  moreover have "replicate (8 * Suc k) (0::8 word) = replicate 8 0 @ replicate (8 * k) 0"
    by (simp only: replicate_add [symmetric]) simp
  ultimately show ?thesis using assms(2) by (simp add: cleared_def st64_0)
qed

lemma cleared_seg: "cleared n st \<Longrightarrow> 512 - n \<le> i \<Longrightarrow> i + l \<le> 512 \<Longrightarrow> seg i l st = replicate l 0"
proof -
  assume a: "cleared n st" "512 - n \<le> i" "i + l \<le> 512"
  then have "drop i st = drop (i - (512 - n)) (drop (512 - n) st)" by simp
  also have "\<dots> = replicate (n - (i - (512 - n))) 0" using a(1) by (simp add: cleared_def)
  finally show ?thesis using a by (simp add: seg_def min_def)
qed

lemma zero_phase:
  assumes "k \<le> 57" "regs ! 10 = Stk 0" "regs ! 1 = Num 0" "cleared (8 * k) st"
  shows "\<exists>st'. exec kn (transporter rb pf) (n + (57 - k)) (Suc (Suc k)) regs st w = exec kn (transporter rb pf) n 59 regs st' w \<and> cleared 456 st'"
  using assms(1,4)
proof (induction "57 - k" arbitrary: k st)
  case 0
  then have "k = 57" by simp
  with 0 show ?case by auto
next
  case (Suc m)
  then have k: "k < 57" "57 - k = Suc (57 - Suc k)" "m = 57 - Suc k" by simp_all
  let ?st = "put (504 - 8 * k) (st64 0) st"
  have s: "step (transporter rb pf) (Suc (Suc k)) regs st = Some (Suc (Suc (Suc k)), regs, ?st)"
    using Suc.prems(2) by (intro zero_step k(1) assms(2,3)) (simp add: cleared_def STACK_SIZE_def)
  have "exec kn (transporter rb pf) (n + (57 - k)) (Suc (Suc k)) regs st w = exec kn (transporter rb pf) (n + (57 - Suc k)) (Suc (Suc (Suc k))) regs ?st w"
    unfolding k(2) add_Suc_right by (rule exec_step [OF _ _ _ s]) (use k(1) in \<open>simp_all add: fetch_zero insn_defs opcode_defs\<close>)
  moreover have "\<exists>st'. exec kn (transporter rb pf) (n + (57 - Suc k)) (Suc (Suc (Suc k))) regs ?st w = exec kn (transporter rb pf) n 59 regs st' w \<and> cleared 456 st'"
    by (rule Suc.hyps(1)) (use k cleared_step [OF k(1) Suc.prems(2)] in simp_all)
  ultimately show ?case by simp
qed

section \<open>The callback\<close>

lemma list_update_numeral: "(x # xs)[numeral v := y] = x # xs[pred_numeral v := y]"
  by (simp add: numeral_eq_Suc)

lemma length_st64 [simp]: "length (st64 x) = 8"
  by (simp add: st64_def)

lemma ld64_st64 [simp]: "ld64 (st64 x) = x"
proof -
  have "unat x < 256 ^ 8" using unat_u64_less [of x] by simp
  then show ?thesis by (simp add: ld64_def st64_def nat_of_bytes_of_nat)
qed

text \<open>The kernel reads what a record holds.\<close>

definition reads_records :: "'s kernel \<Rightarrow> bool" where
  "reads_records kn \<longleftrightarrow> (\<forall>rec len off. unat off + unat len \<le> length rec \<longrightarrow>
     kn_read kn rec len off 0 = (0, Some (seg (unat off) (unat len) rec)))"

definition perf_sample :: "bytes \<Rightarrow> bytes" where
  "perf_sample buf = st64 (of_nat (length buf)) @ buf"

text \<open>The callback on any record. The size is read first; when this fails, or the size is above 448, the data is not read. A second read
  that fails is not noticed. The callback returns 1 in all cases. The two reads give a negative number and no bytes, or 0 and the bytes asked for.\<close>

definition read_result :: "u64 \<Rightarrow> u64 \<times> bytes option \<Rightarrow> bool" where
  "read_result len res \<longleftrightarrow> (case snd res of None \<Rightarrow> sint (fst res) < 0 | Some bs \<Rightarrow> fst res = 0 \<and> length bs = unat len)"

definition callback_reads :: "'s kernel \<Rightarrow> bytes \<Rightarrow> bool" where
  "callback_reads kn rec \<longleftrightarrow> read_result 8 (kn_read kn rec 8 0 0) \<and>
     (\<forall>bs. snd (kn_read kn rec 8 0 0) = Some bs \<and> ld64 bs \<le> 448 \<longrightarrow> read_result (ld64 bs) (kn_read kn rec (ld64 bs) 8 0))"

definition callback_stack :: "'s kernel \<Rightarrow> bytes \<Rightarrow> bytes \<Rightarrow> bytes" where
  "callback_stack kn rec st = (case snd (kn_read kn rec 8 0 0) of
     None \<Rightarrow> st
   | Some bs \<Rightarrow> (let st1 = put 56 bs st in
       if 448 < ld64 bs then st1
       else (case snd (kn_read kn rec (ld64 bs) 8 0) of None \<Rightarrow> st1 | Some d \<Rightarrow> put 64 d st1)))"

lemmas callback_simps = exec_at call_at_def fetch_callback step_def insn_defs opcode_defs Let_def callback_insns_def callback_regs_def
  list_update_numeral dynptr_read_call_def stk_idx_def STACK_SIZE_def in_stack_def jump_def after_call_def

text \<open>The four ways through the callback.\<close>

lemma callback_cases:
  assumes "callback_reads kn rec" "length st = 512"
  obtains (no_size) r where "kn_read kn rec 8 0 0 = (r, None)" "sint r < 0" "callback_stack kn rec st = st"
  | (too_big) bs where "kn_read kn rec 8 0 0 = (0, Some bs)" "length bs = 8" "448 < ld64 bs" "callback_stack kn rec st = put 56 bs st"
  | (no_data) bs r where "kn_read kn rec 8 0 0 = (0, Some bs)" "length bs = 8" "\<not> 448 < ld64 bs" "kn_read kn rec (ld64 bs) 8 0 = (r, None)"
      "callback_stack kn rec st = put 56 bs st"
  | (data) bs d where "kn_read kn rec 8 0 0 = (0, Some bs)" "length bs = 8" "\<not> 448 < ld64 bs" "kn_read kn rec (ld64 bs) 8 0 = (0, Some d)"
      "length d = unat (ld64 bs)" "callback_stack kn rec st = put 64 d (put 56 bs st)"
proof -
  obtain r b where r: "kn_read kn rec 8 0 0 = (r, b)" by fastforce
  show thesis
  proof (cases b)
    case None
    with r assms no_size show thesis by (simp add: callback_reads_def read_result_def callback_stack_def)
  next
    case (Some bs)
    with r assms have bs: "r = 0" "length bs = 8" by (simp_all add: callback_reads_def read_result_def)
    obtain r2 b2 where r2: "kn_read kn rec (ld64 bs) 8 0 = (r2, b2)" by fastforce
    have rd: "\<not> 448 < ld64 bs \<Longrightarrow> read_result (ld64 bs) (r2, b2)" using assms(1) r r2 Some by (simp add: callback_reads_def not_less)
    show thesis
    proof (cases "448 < ld64 bs")
      case True
      with r bs Some too_big show thesis by (simp add: callback_stack_def Let_def)
    next
      case False
      with r r2 bs Some rd no_data data show thesis by (cases b2) (simp_all add: callback_stack_def Let_def read_result_def)
    qed
  qed
qed

lemma callback_run:
  assumes kn: "callback_reads kn rec" and st: "length st = 512" and n: "20 \<le> n"
  shows "exec kn (transporter rb pf) n 86 (callback_regs rec (Stk (- 456))) st w = Done 1 (callback_stack kn rec st) w"
proof -
  from n obtain m where m: "n = m + 20" using le_Suc_ex add.commute by metis
  have sg: "seg 56 8 (put 56 bs st) = bs" if "length bs = 8" for bs using seg_put_same [of 56 bs st] st that by simp
  have in': "int (unat (ld64 bs)) \<le> 448" if "\<not> 448 < ld64 bs" for bs using that by (simp add: word_less_nat_alt del: of_nat_unat)
  from kn st show ?thesis
  proof (cases rule: callback_cases)
    case no_size
    then show ?thesis unfolding m by (simp add: callback_simps)
  next
    case too_big
    then show ?thesis unfolding m by (simp add: callback_simps sg)
  next
    case no_data
    with in' show ?thesis unfolding m by (simp add: callback_simps sg)
  next
    case data
    with in' show ?thesis unfolding m by (simp add: callback_simps sg)
  qed
qed

text \<open>What the main function finds at the two places of its buffer, and what it sends.\<close>

definition transported :: "'s kernel \<Rightarrow> bytes \<Rightarrow> bytes" where
  "transported kn rec = (case snd (kn_read kn rec 8 0 0) of
     None \<Rightarrow> []
   | Some bs \<Rightarrow> if 448 < ld64 bs then replicate 448 0
       else (case snd (kn_read kn rec (ld64 bs) 8 0) of None \<Rightarrow> replicate (unat (ld64 bs)) 0 | Some d \<Rightarrow> d))"

lemma ld64_0: "ld64 (replicate 8 0) = 0"
  using ld64_st64 [of 0] by (simp add: st64_0)

lemma callback_buffer:
  assumes "callback_reads kn rec" "cleared 456 st"
  shows "length (callback_stack kn rec st) = 512"
    and "seg 64 (min 448 (unat (ld64 (seg 56 8 (callback_stack kn rec st))))) (callback_stack kn rec st) = transported kn rec"
proof -
  have st: "length st = 512" using assms(2) by (simp add: cleared_def)
  have sg: "seg 56 8 (put 56 bs st) = bs" "length (put 56 bs st) = 512" if "length bs = 8" for bs
    using seg_put_same [of 56 bs st] st that by (simp_all add: length_put)
  have z: "seg 64 l (put 56 bs st) = replicate l 0" if "length bs = 8" "l \<le> 448" for bs l
    using that st cleared_seg [OF assms(2), of 64 l] seg_put_other [of 56 bs st 64 l] by simp
  have u: "unat (ld64 bs) \<le> 448" if "\<not> 448 < ld64 bs" for bs using that by (simp add: word_less_nat_alt)
  from assms(1) st have "length (callback_stack kn rec st) = 512 \<and>
    seg 64 (min 448 (unat (ld64 (seg 56 8 (callback_stack kn rec st))))) (callback_stack kn rec st) = transported kn rec"
  proof (cases rule: callback_cases)
    case no_size
    with st cleared_seg [OF assms(2), of 56 8] show ?thesis by (simp add: transported_def ld64_0 seg_def)
  next
    case (too_big bs)
    then have "min 448 (unat (ld64 bs)) = 448" by (simp add: word_less_nat_alt)
    with too_big show ?thesis by (simp add: transported_def sg z)
  next
    case (no_data bs r)
    with u [OF no_data(3)] show ?thesis by (simp add: transported_def sg z min_def)
  next
    case (data bs d)
    then have "seg 56 8 (put 64 d (put 56 bs st)) = bs" "seg 64 (length d) (put 64 d (put 56 bs st)) = d" "length (put 64 d (put 56 bs st)) = 512"
      using u [OF data(3)] seg_put_other [of 64 d "put 56 bs st" 56 8] seg_put_same [of 64 d "put 56 bs st"] by (simp_all add: sg length_put)
    with data u [OF data(3)] show ?thesis by (simp add: transported_def min_def)
  qed
  then show "length (callback_stack kn rec st) = 512"
    "seg 64 (min 448 (unat (ld64 (seg 56 8 (callback_stack kn rec st))))) (callback_stack kn rec st) = transported kn rec" by simp_all
qed

text \<open>A well-formed record.\<close>

lemma perf_sample_reads:
  assumes "reads_records kn" "length buf \<le> 448"
  shows "callback_reads kn (perf_sample buf)" "transported kn (perf_sample buf) = buf"
proof -
  let ?L = "of_nat (length buf) :: u64"
  have L: "unat ?L = length buf" using assms(2) by (simp add: unat_of_nat)
  have le: "\<not> 448 < ?L" using assms(2) L by (simp add: word_less_nat_alt)
  have "kn_read kn (perf_sample buf) 8 0 0 = (0, Some (st64 ?L))" "kn_read kn (perf_sample buf) ?L 8 0 = (0, Some buf)"
    using assms(1) L by (simp_all add: reads_records_def perf_sample_def seg_def)
  with le L show "callback_reads kn (perf_sample buf)" "transported kn (perf_sample buf) = buf"
    by (simp_all add: callback_reads_def read_result_def transported_def)
qed

section \<open>One run\<close>

lemma drain_at: "0 < n \<Longrightarrow> drain kn prog n f ctx m cnt st w = (case kn_pop kn m w of
     None \<Rightarrow> Done cnt st w
   | Some (rec, w) \<Rightarrow> (case exec kn prog (n - 1) f (callback_regs rec ctx) st w of
         Done r st w \<Rightarrow> if r = 0 then drain kn prog (n - 1) f ctx m (cnt + 1) st w else Done (cnt + 1) st w
       | out \<Rightarrow> out))"
proof (cases n)
  case (Suc k)
  show ?thesis unfolding Suc diff_Suc_1 by (rule drain.simps)
qed simp

text \<open>Instructions of the main function only, so that a call of the callback is left to its lemma.\<close>

lemma exec_main: "pc < 86 \<and> 0 < n \<Longrightarrow> exec kn prog n pc regs st w =
     (if length prog \<le> pc then Bad
      else let i = prog ! pc in
        if in_code i = EBPF_OP_EXIT then (case regs ! 0 of Num r \<Rightarrow> Done r st w | _ \<Rightarrow> Bad)
        else if in_code i = EBPF_OP_CALL then call_at kn prog n pc regs st w
        else (case step prog pc regs st of
            Some (pc, regs, st) \<Rightarrow> exec kn prog (n - 1) pc regs st w | None \<Rightarrow> Bad))"
  by (rule exec_at) simp

definition send_regs :: "bval list" where
  "send_regs = [Undef, Num 0, Undef, Undef, Undef, Undef, CtxP, Undef, Undef, Undef, Stk 0]"

lemmas machine_simps = exec_main call_at_def fetch_send step_def insn_defs opcode_defs Let_def BPF_LD_IMM64_def send_insns_def
  list_update_numeral dynptr_read_call_def perf_output_call_def stk_idx_def STACK_SIZE_def in_stack_def jump_def after_call_def send_regs_def

lemma send_nothing:
  assumes "kn_pop kn (sint rb) w = None"
  shows "exec kn (transporter rb pf) (n + 60) 59 send_regs st w = Done 0 st w"
  by (simp add: machine_simps drain_at assms)

lemma send_record:
  assumes kn: "callback_reads kn rec" and st: "cleared 456 st"
    and pop: "kn_pop kn (sint rb) w = Some (rec, w1)" and out: "kn_output kn (sint pf) 0xffffffff (transported kn rec) w1 = (r, w2)"
  shows "\<exists>st'. exec kn (transporter rb pf) (n + 60) 59 send_regs st w = Done 0 st' w2"
proof -
  let ?st = "callback_stack kn rec st"
  let ?L = "ld64 (seg 56 8 ?st)"
  note b = callback_buffer [OF kn st]
  have l: "length st = 512" using st by (simp add: cleared_def)
  have s: "seg 64 448 (put 56 bs ?st) = seg 64 448 ?st" if "length bs = 8" for bs
    using that b(1) by (intro seg_put_other) simp_all
  show ?thesis
  proof (cases "?L < 449")
    case True
    then have "unat ?L \<le> 448" "int (unat ?L) \<le> 448" by (simp_all add: word_less_nat_alt del: of_nat_unat)
    moreover from this(1) b(2) have "seg 64 (unat ?L) ?st = transported kn rec" by (simp add: min.absorb2)
    ultimately show ?thesis using True by (simp add: machine_simps drain_at pop callback_run [OF kn l] out)
  next
    case False
    then have "seg 64 448 ?st = transported kn rec" using b(2) by (simp add: word_less_nat_alt min_def split: if_splits)
    with False show ?thesis by (simp add: machine_simps drain_at pop callback_run [OF kn l] out s)
  qed
qed

lemma run_prologue:
  assumes "length st = 512"
  shows "\<exists>st'. exec kn (transporter rb pf) (n + 119) 0 start_regs st w = exec kn (transporter rb pf) (n + 60) 59 send_regs st' w \<and> cleared 456 st'"
proof -
  have "exec kn (transporter rb pf) (n + 119) 0 start_regs st w = exec kn (transporter rb pf) (n + 60 + (57 - 0)) (Suc (Suc 0)) send_regs st w"
    by (simp add: exec_at [where pc = 0] exec_at [where pc = "Suc 0"] fetch_start step_def insn_defs opcode_defs Let_def start_regs_def send_regs_def list_update_numeral)
  moreover have "\<exists>st'. exec kn (transporter rb pf) (n + 60 + (57 - 0)) (Suc (Suc 0)) send_regs st w = exec kn (transporter rb pf) (n + 60) 59 send_regs st' w \<and> cleared 456 st'"
    by (rule zero_phase) (simp_all add: send_regs_def assms cleared_def)
  ultimately show ?thesis by simp
qed

text \<open>What the runtime puts into the user ring buffer for a sample is \<open>perf_sample\<close>. The kernel calls of a run, in terms of the
  records in the user ring buffer: when there is none, nothing happens.\<close>

definition tick_ok :: "'s kernel \<Rightarrow> u32 \<Rightarrow> u32 \<Rightarrow> 's \<Rightarrow> 's \<Rightarrow> bool" where
  "tick_ok kn rb pf w w' \<longleftrightarrow> (\<forall>n st. length st = 512 \<longrightarrow> (\<exists>st'. exec kn (transporter rb pf) (n + 119) 0 start_regs st w = Done 0 st' w'))"

lemma tick_nothing: "kn_pop kn (sint rb) w = None \<Longrightarrow> tick_ok kn rb pf w w"
  unfolding tick_ok_def using run_prologue send_nothing by metis

lemma tick_any:
  assumes "callback_reads kn rec" "kn_pop kn (sint rb) w = Some (rec, w1)"
  shows "tick_ok kn rb pf w (snd (kn_output kn (sint pf) 0xffffffff (transported kn rec) w1))"
  unfolding tick_ok_def using run_prologue send_record [OF assms(1) _ assms(2) prod.collapse [symmetric]] by metis

lemma tick_record:
  assumes "reads_records kn" "length buf \<le> 448" "kn_pop kn (sint rb) w = Some (perf_sample buf, w1)"
  shows "tick_ok kn rb pf w (snd (kn_output kn (sint pf) 0xffffffff buf w1))"
  using tick_any [OF perf_sample_reads(1) [OF assms(1,2)] assms(3), of pf] perf_sample_reads(2) [OF assms(1,2)] by simp

section \<open>Many runs\<close>

text \<open>The kernel as the runtime relies on it: the user ring buffer \<open>rb\<close> is a queue of records, reading a record gives its bytes, and output to
  a perf event array adds a sample to it. The kernel may also refuse an output (a full perf buffer); the program does not look at the result, so that such a
  sample is lost. \<open>queue_kernel\<close> is a kernel that accepts every output.\<close>

record kworld =
  kw_pending :: "bytes list"
  kw_samples :: "(int \<times> u64 \<times> bytes) list"

definition queue_kernel :: "kworld kernel \<Rightarrow> int \<Rightarrow> bool" where
  "queue_kernel kn rb \<longleftrightarrow> reads_records kn \<and>
     (\<forall>w. kn_pop kn rb w = (case kw_pending w of [] \<Rightarrow> None | r # rs \<Rightarrow> Some (r, w\<lparr>kw_pending := rs\<rparr>))) \<and>
     (\<forall>m fl bs w. kn_output kn m fl bs w = (0, w\<lparr>kw_samples := kw_samples w @ [(m, fl, bs)]\<rparr>))"

fun ticks :: "kworld kernel \<Rightarrow> u32 \<Rightarrow> u32 \<Rightarrow> bytes list \<Rightarrow> kworld \<Rightarrow> kworld run" where
  "ticks kn rb pf [] w = Done 0 [] w"
| "ticks kn rb pf (st # sts) w = (case exec kn (transporter rb pf) 119 0 start_regs st w of
     Done r _ w \<Rightarrow> ticks kn rb pf sts w | out \<Rightarrow> out)"

lemma ticks_deliver:
  assumes "queue_kernel kn (sint rb)" "\<forall>b \<in> set bufs. length b \<le> 448" "\<forall>st \<in> set sts. length st = 512"
    "kw_pending w = map perf_sample bufs"
  shows "\<exists>r. ticks kn rb pf sts w = Done 0 r (w\<lparr>kw_pending := map perf_sample (drop (length sts) bufs),
     kw_samples := kw_samples w @ map (\<lambda>b. (sint pf, 0xffffffff, b)) (take (length sts) bufs)\<rparr>)"
  using assms(2-4)
proof (induction sts arbitrary: bufs w)
  case (Cons st sts)
  note kn = assms(1) [unfolded queue_kernel_def]
  show ?case
  proof (cases bufs)
    case Nil
    have "tick_ok kn rb pf w w" by (rule tick_nothing) (use kn Cons.prems(3) Nil in simp)
    with Cons.prems(2) obtain st' where "exec kn (transporter rb pf) (0 + 119) 0 start_regs st w = Done 0 st' w"
      unfolding tick_ok_def by (meson list.set_intros(1))
    with Cons.IH [of "[]" w] Cons.prems Nil show ?thesis by simp
  next
    case (Cons b bs)
    let ?w = "w\<lparr>kw_pending := map perf_sample bs, kw_samples := kw_samples w @ [(sint pf, 0xffffffff, b)]\<rparr>"
    have "kn_pop kn (sint rb) w = Some (perf_sample b, w\<lparr>kw_pending := map perf_sample bs\<rparr>)"
      using kn Cons.prems(3) Cons by simp
    from tick_record [OF _ _ this, of pf] have "tick_ok kn rb pf w ?w" using kn Cons.prems(1) Cons by simp
    with Cons.prems(2) obtain st' where "exec kn (transporter rb pf) (0 + 119) 0 start_regs st w = Done 0 st' ?w"
      unfolding tick_ok_def by (meson list.set_intros(1))
    with Cons.IH [of bs ?w] Cons.prems Cons show ?thesis by simp
  qed
qed simp

text \<open>A kernel of that kind, and two samples in three runs.\<close>

definition list_kernel :: "kworld kernel" where
  "list_kernel = \<lparr>kn_pop = \<lambda>m w. (case kw_pending w of [] \<Rightarrow> None | r # rs \<Rightarrow> Some (r, w\<lparr>kw_pending := rs\<rparr>)),
     kn_read = \<lambda>rec len off fl. if unat off + unat len \<le> length rec then (0, Some (seg (unat off) (unat len) rec)) else (- 7, None),
     kn_output = \<lambda>m fl bs w. (0, w\<lparr>kw_samples := kw_samples w @ [(m, fl, bs)]\<rparr>)\<rparr>"

lemma list_kernel_queue: "queue_kernel list_kernel rb"
  by (simp add: queue_kernel_def list_kernel_def reads_records_def)

text \<open>The kernel's reads, as its documentation has them: a range inside the record is copied, any other is refused with a negative number and
  nothing copied.\<close>

definition reads_exactly :: "'s kernel \<Rightarrow> bool" where
  "reads_exactly kn \<longleftrightarrow> reads_records kn \<and> (\<forall>rec len off. length rec < unat off + unat len \<longrightarrow>
     (\<exists>r. sint r < 0 \<and> kn_read kn rec len off 0 = (r, None)))"

lemma reads_exactlyD:
  assumes "reads_exactly kn"
  shows "unat off + unat len \<le> length rec \<Longrightarrow> kn_read kn rec len off 0 = (0, Some (seg (unat off) (unat len) rec))"
    and "length rec < unat off + unat len \<Longrightarrow> \<exists>r. sint r < 0 \<and> kn_read kn rec len off 0 = (r, None)"
  using assms by (simp_all add: reads_exactly_def reads_records_def)

lemma reads_exactly_result:
  assumes "reads_exactly kn"
  shows "read_result len (kn_read kn rec len off 0)"
proof (cases "unat off + unat len \<le> length rec")
  case True
  then show ?thesis using reads_exactlyD(1) [OF assms True] by (simp add: read_result_def seg_def)
next
  case False
  then show ?thesis using reads_exactlyD(2) [OF assms, of rec off len] by (auto simp: read_result_def)
qed

text \<open>What a run sends for a record: nothing when the record has no whole size field; 448 zero bytes when the field is above 448; as many zero bytes
  as the field says when the record is shorter than that; and the data otherwise.\<close>

definition sample_of :: "bytes \<Rightarrow> bytes" where
  "sample_of rec = (let L = unat (ld64 rec) in
     if length rec < 8 then [] else if 448 < L then replicate 448 0 else if length rec < 8 + L then replicate L 0 else seg 8 L rec)"

lemma transported_sample: "reads_exactly kn \<Longrightarrow> transported kn rec = sample_of rec"
proof -
  assume kn: "reads_exactly kn"
  have rd: "snd (kn_read kn rec len off 0) = (if unat off + unat len \<le> length rec then Some (seg (unat off) (unat len) rec) else None)" for len off
    using reads_exactlyD [OF kn, where rec = rec and off = off and len = len] by (cases "unat off + unat len \<le> length rec") auto
  have "ld64 (seg 0 8 rec) = ld64 rec" by (simp add: ld64_def seg_def)
  then show ?thesis by (simp add: transported_def sample_of_def Let_def rd word_less_nat_alt not_le)
qed

lemma list_kernel_reads: "reads_exactly list_kernel"
  by (simp add: reads_exactly_def reads_records_def list_kernel_def)

text \<open>C33. The transporter program, on a user ring buffer with any records in it, well formed or not: every run, from any contents of its stack,
  stays inside the stack, uses no undefined register and no pointer as a number, and returns 0. Without a record it has no effect. With records it
  takes exactly the oldest one and makes exactly one output to the perf event array, for the current processor: of the data of the record when it is
  \<open>[length][data]\<close> with at most 448 bytes of data; of 448 zero bytes when the length is larger; of \<open>length\<close> zero bytes when the record
  holds fewer bytes of data than it says; and of no bytes when it has no whole length field. The result of the output is not looked at, so a sample the
  perf event array refuses is lost.\<close>

theorem transporter_run:
  assumes "reads_exactly kn" "length st = 512"
  shows "\<exists>st'. exec kn (create_transporting_kernel_ebpf_program rb pf) (n + 119) 0 start_regs st w =
    Done 0 st' (case kn_pop kn (sint rb) w of None \<Rightarrow> w | Some (rec, w1) \<Rightarrow> snd (kn_output kn (sint pf) 0xffffffff (sample_of rec) w1))"
proof (cases "kn_pop kn (sint rb) w")
  case None
  then show ?thesis using tick_nothing [of kn rb w pf] assms(2) unfolding tick_ok_def by simp
next
  case (Some x)
  then obtain rec w1 where x: "kn_pop kn (sint rb) w = Some (rec, w1)" by (cases x) simp
  have "callback_reads kn rec" using reads_exactly_result [OF assms(1)] by (simp add: callback_reads_def)
  from tick_any [OF this x, of pf] x show ?thesis using assms(2) transported_sample [OF assms(1)] unfolding tick_ok_def by simp
qed

text \<open>A well-formed record, and one whose length field is too large, each followed by another.\<close>

theorem transporter_run_witness:
  "(\<exists>st'. exec list_kernel (create_transporting_kernel_ebpf_program 5 6) 119 0 start_regs (replicate 512 9)
       \<lparr>kw_pending = [perf_sample [1, 2, 3], []], kw_samples = []\<rparr> = Done 0 st' \<lparr>kw_pending = [[]], kw_samples = [(6, 0xffffffff, [1, 2, 3])]\<rparr>) \<and>
   (\<exists>st'. exec list_kernel (create_transporting_kernel_ebpf_program 5 6) 119 0 start_regs (replicate 512 9)
       \<lparr>kw_pending = [st64 500 @ [1, 2, 3], []], kw_samples = []\<rparr> =
     Done 0 st' \<lparr>kw_pending = [[]], kw_samples = [(6, 0xffffffff, replicate 448 0)]\<rparr>)"
proof -
  have a: "sample_of (perf_sample [1, 2, 3]) = [1, 2, 3]" by code_simp
  have b: "sample_of (st64 500 @ [1, 2, 3]) = replicate 448 0" by code_simp
  show ?thesis
    using transporter_run [OF list_kernel_reads, of "replicate 512 9" 5 6 0 "\<lparr>kw_pending = [perf_sample [1, 2, 3], []], kw_samples = []\<rparr>"]
      transporter_run [OF list_kernel_reads, of "replicate 512 9" 5 6 0 "\<lparr>kw_pending = [st64 500 @ [1, 2, 3], []], kw_samples = []\<rparr>"]
    unfolding list_kernel_def by (simp add: a b del: exec.simps)
qed

end
