(* ===== verification/Kernel_User_Maps.thy ===== *)
theory Kernel_User_Maps
  imports Array_Maps Bpftime_Config Transporter
begin

text \<open>
  The map classes whose storage is in the kernel (src/bpf_map/shared): arrays accessed through a memory mapping, hash maps and per-CPU
  arrays accessed through system calls, and perf event arrays that are fed through a user ring buffer. The system calls are parameters, as functions on
  a kernel state \<open>'w\<close>; the objects live in shared memory, and the members their constructors leave uninitialised are arguments of the constructors.
\<close>

unbundle bit_operations_syntax

section \<open>System calls\<close>

record kmap_info =
  ki_key_size :: u32
  ki_value_size :: u32
  ki_max_entries :: u32
  ki_rdonly_prog :: bool

text \<open>\<open>ks_info\<close> is \<open>None\<close> when the call fails. \<open>ks_mmap_anon\<close> and \<open>ks_mmap\<close> tell whether mapping memory, and mapping a map over it, succeed.
  \<open>ks_mem fd\<close> is the memory of a mapped array.\<close>

record 'w ksys =
  ks_fd_by_id :: "int \<Rightarrow> 'w \<Rightarrow> int \<times> 'w"
  ks_info :: "int \<Rightarrow> 'w \<Rightarrow> kmap_info option"
  ks_close :: "int \<Rightarrow> 'w \<Rightarrow> 'w"
  ks_lookup :: "int \<Rightarrow> bytes option \<Rightarrow> 'w \<Rightarrow> bytes res \<times> 'w"
  ks_update :: "int \<Rightarrow> bytes option \<Rightarrow> bytes \<Rightarrow> u64 \<Rightarrow> 'w \<Rightarrow> int res \<times> 'w"
  ks_delete :: "int \<Rightarrow> bytes option \<Rightarrow> 'w \<Rightarrow> int res \<times> 'w"
  ks_next :: "int \<Rightarrow> bytes option \<Rightarrow> 'w \<Rightarrow> bytes res \<times> 'w"
  ks_page :: nat
  ks_mmap_anon :: "nat \<Rightarrow> 'w \<Rightarrow> bool"
  ks_mmap :: "int \<Rightarrow> nat \<Rightarrow> bool \<Rightarrow> 'w \<Rightarrow> bool"
  ks_mem :: "int \<Rightarrow> 'w \<Rightarrow> bytes"
  ks_set_mem :: "int \<Rightarrow> bytes \<Rightarrow> 'w \<Rightarrow> 'w"

section \<open>array_map_kernel_user_impl\<close>

text \<open>The pointer \<^verbatim>\<open>mmap_ptr\<close>: null, the value of a failed mapping, some other value that points nowhere, memory of the process, or the
  memory of the kernel's array.\<close>

datatype mapping = NullMap | FailedMap | WildMap | AnonMap bytes | SharedMap int

record karray =
  ka_value_data :: bytes
  ka_value_size :: u32
  ka_max_entries :: u32
  ka_map_fd :: int
  ka_kernel_map_id :: int
  ka_mmap_ptr :: mapping

definition karray_new :: "u32 \<Rightarrow> u32 \<Rightarrow> mapping \<Rightarrow> int \<Rightarrow> karray" where
  "karray_new junk_value_size junk_max_entries junk_ptr km_id =
     \<lparr>ka_value_data = [0], ka_value_size = junk_value_size, ka_max_entries = junk_max_entries, ka_map_fd = - 1,
      ka_kernel_map_id = km_id, ka_mmap_ptr = junk_ptr\<rparr>"

definition round_to :: "nat \<Rightarrow> nat \<Rightarrow> nat" where
  "round_to x y = (x + (y - 1)) div y * y"

text \<open>\<^verbatim>\<open>roundup(value_sz, 8)\<close> is computed in 32 bits.\<close>

definition bpf_map_mmap_sz :: "nat \<Rightarrow> u32 \<Rightarrow> u32 \<Rightarrow> nat" where
  "bpf_map_mmap_sz page value_sz max_entries = round_to (unat ((value_sz + 7) div 8 * 8) * unat max_entries) page"

definition resize :: "nat \<Rightarrow> bytes \<Rightarrow> bytes" where
  "resize n bs = take n bs @ replicate (n - length bs) 0"

definition ka_init_map_fd :: "'w ksys \<Rightarrow> karray \<Rightarrow> 'w \<Rightarrow> karray \<times> 'w" where
  "ka_init_map_fd k m w =
     (let (fd, w) = ks_fd_by_id k (ka_kernel_map_id m) w; m = m\<lparr>ka_map_fd := fd\<rparr> in
      if fd < 0 then (m, w)
      else let info = (case ks_info k fd w of Some i \<Rightarrow> i | None \<Rightarrow> \<lparr>ki_key_size = 0, ki_value_size = 0, ki_max_entries = 0, ki_rdonly_prog = False\<rparr>);
               m = m\<lparr>ka_value_size := ki_value_size info, ka_max_entries := ki_max_entries info,
                     ka_value_data := resize (unat (ki_value_size info)) (ka_value_data m)\<rparr>;
               sz = bpf_map_mmap_sz (ks_page k) (ki_value_size info) (ki_max_entries info) in
        if \<not> ks_mmap_anon k sz w then (m\<lparr>ka_mmap_ptr := FailedMap\<rparr>, w)
        else if \<not> ks_mmap k fd sz (ki_rdonly_prog info) w then (m\<lparr>ka_mmap_ptr := AnonMap (replicate sz 0)\<rparr>, w)
        else (m\<lparr>ka_mmap_ptr := SharedMap fd\<rparr>, w))"

definition ka_ensure :: "'w ksys \<Rightarrow> karray \<Rightarrow> 'w \<Rightarrow> karray \<times> 'w" where
  "ka_ensure k m w = (if ka_map_fd m < 0 then ka_init_map_fd k m w else (m, w))"

text \<open>The offset of an element, from a key below the number of entries; the product has 32 bits.\<close>

definition ka_offset :: "karray \<Rightarrow> bytes option \<Rightarrow> nat res" where
  "ka_offset m key = bindr (or_fault key) (\<lambda>key. bindr (or_fault (ld32 key)) (\<lambda>key_val.
     if ka_max_entries m \<le> key_val then Inl (Errno ENOENT) else Inr (unat (key_val * ka_value_size m))))"

definition ka_elem_lookup :: "'w ksys \<Rightarrow> karray \<Rightarrow> bytes option \<Rightarrow> 'w \<Rightarrow> ptr res \<times> karray \<times> 'w" where
  "ka_elem_lookup k m key w = (let (m, w) = ka_ensure k m w in
     if ka_mmap_ptr m \<noteq> NullMap then (bindr (ka_offset m key) (\<lambda>o'. Inr (PData o')), m, w)
     else case ks_lookup k (ka_map_fd m) key w of
         (Inl e, w) \<Rightarrow> (Inl e, m, w)
       | (Inr v, w) \<Rightarrow> (Inr (PMem v), m\<lparr>ka_value_data := v\<rparr>, w))"

text \<open>Storing bytes at an offset of the mapping.\<close>

definition ka_store :: "'w ksys \<Rightarrow> karray \<Rightarrow> nat \<Rightarrow> bytes \<Rightarrow> 'w \<Rightarrow> int res \<times> karray \<times> 'w" where
  "ka_store k m o' bs w = (case ka_mmap_ptr m of
     AnonMap mem \<Rightarrow> (case wr mem o' bs of
         Some mem \<Rightarrow> (Inr 0, m\<lparr>ka_mmap_ptr := AnonMap mem\<rparr>, w) | None \<Rightarrow> (Inl Fault, m, w))
   | SharedMap fd \<Rightarrow> (case wr (ks_mem k fd w) o' bs of
         Some mem \<Rightarrow> (Inr 0, m, ks_set_mem k fd mem w) | None \<Rightarrow> (Inl Fault, m, w))
   | _ \<Rightarrow> (Inl Fault, m, w))"

definition ka_elem_update :: "'w ksys \<Rightarrow> karray \<Rightarrow> bytes option \<Rightarrow> bytes \<Rightarrow> u64 \<Rightarrow> 'w \<Rightarrow> int res \<times> karray \<times> 'w" where
  "ka_elem_update k m key val flags w = (let (m, w) = ka_ensure k m w in
     if ka_mmap_ptr m \<noteq> NullMap then
       (case bindr (ka_offset m key) (\<lambda>o'. bindr (or_fault (rd val 0 (unat (ka_value_size m)))) (\<lambda>v. Inr (o', v))) of
          Inl e \<Rightarrow> (Inl e, m, w) | Inr (o', v) \<Rightarrow> ka_store k m o' v w)
     else let (r, w) = ks_update k (ka_map_fd m) key val flags w in (r, m, w))"

definition ka_elem_delete :: "'w ksys \<Rightarrow> karray \<Rightarrow> bytes option \<Rightarrow> 'w \<Rightarrow> int res \<times> karray \<times> 'w" where
  "ka_elem_delete k m key w = (let (m, w) = ka_ensure k m w in
     if ka_mmap_ptr m \<noteq> NullMap then
       (case ka_offset m key of
          Inl e \<Rightarrow> (Inl e, m, w) | Inr o' \<Rightarrow> ka_store k m o' (replicate (unat (ka_value_size m)) 0) w)
     else let (r, w) = ks_delete k (ka_map_fd m) key w in (r, m, w))"

text \<open>The next key does not look at the kernel's map first.\<close>

definition ka_get_next_key :: "karray \<Rightarrow> bytes option \<Rightarrow> bytes res" where
  "ka_get_next_key m key = (case key of None \<Rightarrow> Inr (st32 0)
     | Some key \<Rightarrow> bindr (or_fault (ld32 key)) (\<lambda>key_val.
         if ka_max_entries m \<le> key_val then Inr (st32 0)
         else if key_val = ka_max_entries m - 1 then Inl (Errno ENOENT) else Inr (st32 (key_val + 1))))"

definition ka_destroy :: "'w ksys \<Rightarrow> karray \<Rightarrow> 'w \<Rightarrow> 'w" where
  "ka_destroy k m w = (if 0 \<le> ka_map_fd m then ks_close k (ka_map_fd m) w else w)"

section \<open>hash_map_kernel_user_impl\<close>

record khash =
  kh_key_size :: u32
  kh_value_size :: u32
  kh_key_vec :: bytes
  kh_value_vec :: bytes
  kh_map_fd :: int
  kh_kernel_map_id :: int

definition khash_new :: "u32 \<Rightarrow> u32 \<Rightarrow> int \<Rightarrow> khash" where
  "khash_new junk_key_size junk_value_size km_id =
     \<lparr>kh_key_size = junk_key_size, kh_value_size = junk_value_size, kh_key_vec = [0], kh_value_vec = [0], kh_map_fd = - 1,
      kh_kernel_map_id = km_id\<rparr>"

definition kh_init_map_fd :: "'w ksys \<Rightarrow> khash \<Rightarrow> 'w \<Rightarrow> khash \<times> 'w" where
  "kh_init_map_fd k m w =
     (let (fd, w) = ks_fd_by_id k (kh_kernel_map_id m) w; m = m\<lparr>kh_map_fd := fd\<rparr> in
      if fd < 0 then (m, w)
      else let (ks, vs) = (case ks_info k fd w of Some i \<Rightarrow> (ki_key_size i, ki_value_size i) | None \<Rightarrow> (0, 0)) in
        (m\<lparr>kh_key_size := ks, kh_value_size := vs, kh_key_vec := resize (unat ks) (kh_key_vec m),
           kh_value_vec := resize (unat vs) (kh_value_vec m)\<rparr>, w))"

definition kh_ensure :: "'w ksys \<Rightarrow> khash \<Rightarrow> 'w \<Rightarrow> khash \<times> 'w" where
  "kh_ensure k m w = (if kh_map_fd m < 0 then kh_init_map_fd k m w else (m, w))"

text \<open>The kernel writes the value into \<^verbatim>\<open>value_vec\<close>, which must be as large as the value.\<close>

definition kh_elem_lookup :: "'w ksys \<Rightarrow> khash \<Rightarrow> bytes option \<Rightarrow> 'w \<Rightarrow> ptr res \<times> khash \<times> 'w" where
  "kh_elem_lookup k m key w = (let (m, w) = kh_ensure k m w in
     case ks_lookup k (kh_map_fd m) key w of
       (Inl e, w) \<Rightarrow> (Inl e, m, w)
     | (Inr v, w) \<Rightarrow> if length v \<le> length (kh_value_vec m) then (Inr (PMem v), m\<lparr>kh_value_vec := put 0 v (kh_value_vec m)\<rparr>, w)
         else (Inl Fault, m, w))"

definition kh_elem_update :: "'w ksys \<Rightarrow> khash \<Rightarrow> bytes option \<Rightarrow> bytes \<Rightarrow> u64 \<Rightarrow> 'w \<Rightarrow> int res \<times> khash \<times> 'w" where
  "kh_elem_update k m key val flags w = (let (m, w) = kh_ensure k m w; (r, w) = ks_update k (kh_map_fd m) key val flags w in (r, m, w))"

definition kh_elem_delete :: "'w ksys \<Rightarrow> khash \<Rightarrow> bytes option \<Rightarrow> 'w \<Rightarrow> int res \<times> khash \<times> 'w" where
  "kh_elem_delete k m key w = (let (m, w) = kh_ensure k m w; (r, w) = ks_delete k (kh_map_fd m) key w in (r, m, w))"

definition kh_get_next_key :: "'w ksys \<Rightarrow> khash \<Rightarrow> bytes option \<Rightarrow> 'w \<Rightarrow> bytes res \<times> khash \<times> 'w" where
  "kh_get_next_key k m key w = (let (m, w) = kh_ensure k m w; (r, w) = ks_next k (kh_map_fd m) key w in (r, m, w))"

definition kh_destroy :: "'w ksys \<Rightarrow> khash \<Rightarrow> 'w \<Rightarrow> 'w" where
  "kh_destroy k m w = (if 0 \<le> kh_map_fd m then ks_close k (kh_map_fd m) w else w)"

section \<open>percpu_array_map_kernel_user_impl\<close>

record kpercpu =
  kc_value_size :: u32
  kc_max_entries :: u32
  kc_kernel_map_fd :: int
  kc_kernel_map_id :: int
  kc_ncpu :: u32
  kc_value_data :: bytes

definition kpercpu_new :: "u32 \<Rightarrow> u32 \<Rightarrow> u32 \<Rightarrow> int \<Rightarrow> kpercpu" where
  "kpercpu_new junk_value_size junk_max_entries ncpu kernel_map_id =
     \<lparr>kc_value_size = junk_value_size, kc_max_entries = junk_max_entries, kc_kernel_map_fd = - 1,
      kc_kernel_map_id = kernel_map_id, kc_ncpu = ncpu, kc_value_data = [0]\<rparr>"

definition kc_init_map_fd :: "'w ksys \<Rightarrow> kpercpu \<Rightarrow> 'w \<Rightarrow> kpercpu \<times> 'w" where
  "kc_init_map_fd k m w =
     (let (fd, w) = ks_fd_by_id k (kc_kernel_map_id m) w; m = m\<lparr>kc_kernel_map_fd := fd\<rparr> in
      if fd < 0 then (m, w)
      else case ks_info k fd w of None \<Rightarrow> (m, w)
        | Some i \<Rightarrow> (m\<lparr>kc_value_size := ki_value_size i, kc_max_entries := ki_max_entries i,
            kc_value_data := resize (unat (ki_value_size i * kc_ncpu m)) (kc_value_data m)\<rparr>, w))"

definition kc_elem_lookup :: "'w ksys \<Rightarrow> kpercpu \<Rightarrow> bytes option \<Rightarrow> 'w \<Rightarrow> ptr res \<times> kpercpu \<times> 'w" where
  "kc_elem_lookup k m key w = (case ks_lookup k (kc_kernel_map_fd m) key w of
       (Inl e, w) \<Rightarrow> (Inl e, m, w)
     | (Inr v, w) \<Rightarrow> if length v \<le> length (kc_value_data m) then (Inr (PMem v), m\<lparr>kc_value_data := put 0 v (kc_value_data m)\<rparr>, w)
         else (Inl Fault, m, w))"

definition kc_elem_update :: "'w ksys \<Rightarrow> kpercpu \<Rightarrow> bytes option \<Rightarrow> bytes \<Rightarrow> u64 \<Rightarrow> 'w \<Rightarrow> int res \<times> 'w" where
  "kc_elem_update k m key val flags w = ks_update k (kc_kernel_map_fd m) key val flags w"

definition kc_elem_delete :: "'w ksys \<Rightarrow> kpercpu \<Rightarrow> bytes option \<Rightarrow> 'w \<Rightarrow> int res \<times> 'w" where
  "kc_elem_delete k m key w = ks_delete k (kc_kernel_map_fd m) key w"

definition kc_get_next_key :: "'w ksys \<Rightarrow> kpercpu \<Rightarrow> bytes option \<Rightarrow> 'w \<Rightarrow> bytes res \<times> 'w" where
  "kc_get_next_key k m key w = ks_next k (kc_kernel_map_fd m) key w"

section \<open>perf_event_array_kernel_user_impl\<close>

text \<open>The system calls and the libbpf functions over the user ring buffer: a reservation gives 0 or the error it sets \<^verbatim>\<open>errno\<close> to.\<close>

record 'w psys =
  ps_map_create :: "string \<Rightarrow> nat \<Rightarrow> 'w \<Rightarrow> int \<times> 'w"
  ps_map_id :: "int \<Rightarrow> 'w \<Rightarrow> int option"
  ps_event_open :: "u64 \<Rightarrow> 'w \<Rightarrow> int \<times> 'w"
  ps_fd_by_id :: "int \<Rightarrow> 'w \<Rightarrow> int \<times> 'w"
  ps_btf_load :: "'w \<Rightarrow> int \<times> 'w"
  ps_prog_load :: "insn list \<Rightarrow> int list \<Rightarrow> 'w \<Rightarrow> int \<times> 'w"
  ps_set_bpf :: "int \<Rightarrow> int \<Rightarrow> 'w \<Rightarrow> int \<times> 'w"
  ps_enable :: "int \<Rightarrow> 'w \<Rightarrow> int \<times> 'w"
  ps_disable :: "int \<Rightarrow> 'w \<Rightarrow> 'w"
  ps_close :: "int \<Rightarrow> 'w \<Rightarrow> 'w"
  ps_rb_new :: "int \<Rightarrow> 'w \<Rightarrow> bool \<times> 'w"
  ps_rb_reserve :: "int \<Rightarrow> nat \<Rightarrow> 'w \<Rightarrow> int \<times> 'w"
  ps_rb_submit :: "int \<Rightarrow> bytes \<Rightarrow> 'w \<Rightarrow> 'w"

record kperf =
  kp_max_ent :: u32
  kp_kernel_perf_id :: int
  kp_user_rb_id :: int
  kp_pfd :: int
  kp_transporter_prog_fd :: int

definition create_intervally_triggered_perf_event :: "'w psys \<Rightarrow> nat \<Rightarrow> 'w \<Rightarrow> int \<times> 'w" where
  "create_intervally_triggered_perf_event k duration_ms w = ps_event_open k (of_nat duration_ms * 1000) w"

definition create_transporter_prog :: "'w psys \<Rightarrow> int \<Rightarrow> int \<Rightarrow> 'w \<Rightarrow> int \<times> 'w" where
  "create_transporter_prog k user_ringbuf_fd kernel_perf_fd w =
     (let (btf_fd, w) = ps_btf_load k w in
      if btf_fd < 0 then (- 1, w)
      else ps_prog_load k (create_transporting_kernel_ebpf_program (word_of_int user_ringbuf_fd) (word_of_int kernel_perf_fd))
             [user_ringbuf_fd, kernel_perf_fd] w)"

definition kperf_new :: "'w psys \<Rightarrow> u32 \<Rightarrow> u32 \<Rightarrow> u32 \<Rightarrow> int \<Rightarrow> int \<Rightarrow> 'w \<Rightarrow> kperf res \<times> 'w" where
  "kperf_new k key_size value_size max_entries kernel_perf_id junk_rb_id w =
     (let m = \<lparr>kp_max_ent = max_entries, kp_kernel_perf_id = kernel_perf_id, kp_user_rb_id = junk_rb_id, kp_pfd = - 1, kp_transporter_prog_fd = - 1\<rparr> in
      if key_size \<noteq> 4 \<or> value_size \<noteq> 4 then (Inl Throw, w)
      else let (user_rb_fd, w) = ps_map_create k (''ku_perf_id_'' @ dec_int kernel_perf_id) (1024 * 1024) w in
        if user_rb_fd < 0 then (Inr m, w)
        else case ps_map_id k user_rb_fd w of
            None \<Rightarrow> (Inr m, w)
          | Some ident \<Rightarrow>
              let m = m\<lparr>kp_user_rb_id := ident\<rparr>;
                  (pfd, w) = create_intervally_triggered_perf_event k 10 w;
                  (kernel_perf_fd, w) = ps_fd_by_id k kernel_perf_id w;
                  (bpf_fd, w) = create_transporter_prog k user_rb_fd kernel_perf_fd w;
                  m = m\<lparr>kp_pfd := pfd, kp_transporter_prog_fd := bpf_fd\<rparr> in
              if bpf_fd < 0 then (Inl Throw, w)
              else let (e, w) = ps_set_bpf k pfd bpf_fd w in
                if e < 0 then (Inl Throw, w)
                else let (e, w) = ps_enable k pfd w in if e < 0 then (Inl Throw, w) else (Inr m, w))"

definition kp_destroy :: "'w psys \<Rightarrow> kperf \<Rightarrow> 'w \<Rightarrow> 'w" where
  "kp_destroy k m w = ps_close k (kp_transporter_prog_fd m) (ps_close k (kp_pfd m) (ps_disable k (kp_pfd m) w))"

definition kp_in_range :: "kperf \<Rightarrow> bytes \<Rightarrow> unit res" where
  "kp_in_range m key = bindr (or_fault (ld32 key)) (\<lambda>x.
     if sint x < 0 \<or> int (unat (kp_max_ent m)) \<le> sint x then Inl (Errno EINVAL) else Inr ())"

definition kp_elem_lookup :: "kperf \<Rightarrow> bytes \<Rightarrow> ptr res" where
  "kp_elem_lookup m key = bindr (kp_in_range m key) (\<lambda>_. Inr (PMem (st32 0xffffffff)))"

definition kp_elem_update :: "kperf \<Rightarrow> bytes \<Rightarrow> bytes \<Rightarrow> u64 \<Rightarrow> int res" where
  "kp_elem_update m key val flags = bindr (kp_in_range m key) (\<lambda>_. bindr (or_fault (ld32 val)) (\<lambda>v. Inr 0))"

definition kp_elem_delete :: "kperf \<Rightarrow> bytes \<Rightarrow> int res" where
  "kp_elem_delete m key = bindr (kp_in_range m key) (\<lambda>_. Inr 0)"

definition kp_get_next_key :: "kperf \<Rightarrow> bytes option \<Rightarrow> bytes res" where
  "kp_get_next_key m key = (case key of None \<Rightarrow> Inr (st32 0)
     | Some kb \<Rightarrow> bindr (or_fault (ld32 kb)) (\<lambda>x. let k = sint x in
         if k = 2 ^ 31 - 1 then Inl Fault
         else if (k + 1) mod 2 ^ 64 = int (unat (kp_max_ent m)) then Inl (Errno ENOENT)
         else if k < 0 \<or> int (unat (kp_max_ent m)) \<le> k then Inl (Errno EINVAL)
         else Inr (st32 (word_of_int (k + 1)))))"

text \<open>The ring buffers a process has opened, by the id of the kernel's perf event array. Each keeps the descriptor it was opened with.\<close>

record rb_wrapper =
  rw_user_rb_id :: int
  rw_user_rb_fd :: int

type_synonym rb_map = "int \<rightharpoonup> rb_wrapper"

definition user_ringbuffer_wrapper_new :: "'w psys \<Rightarrow> int \<Rightarrow> 'w \<Rightarrow> rb_wrapper res \<times> 'w" where
  "user_ringbuffer_wrapper_new k user_rb_id w =
     (let (fd, w) = ps_fd_by_id k user_rb_id w in
      if fd < 0 then (Inl Throw, w)
      else let (ok, w) = ps_rb_new k fd w in
        if \<not> ok then (Inl Throw, w) else (Inr \<lparr>rw_user_rb_id = user_rb_id, rw_user_rb_fd = fd\<rparr>, w))"

definition ensure_current_map_user_ringbuf :: "'w psys \<Rightarrow> kperf \<Rightarrow> rb_map \<Rightarrow> 'w \<Rightarrow> rb_wrapper res \<times> rb_map \<times> 'w" where
  "ensure_current_map_user_ringbuf k m rbs w = (case rbs (kp_kernel_perf_id m) of
     Some rw \<Rightarrow> (Inr rw, rbs, w)
   | None \<Rightarrow> (case user_ringbuffer_wrapper_new k (kp_user_rb_id m) w of
       (Inl e, w) \<Rightarrow> (Inl e, rbs, w)
     | (Inr rw, w) \<Rightarrow> (Inr rw, rbs(kp_kernel_perf_id m \<mapsto> rw), w)))"

definition get_user_ringbuf_fd :: "'w psys \<Rightarrow> kperf \<Rightarrow> rb_map \<Rightarrow> 'w \<Rightarrow> int res \<times> rb_map \<times> 'w" where
  "get_user_ringbuf_fd k m rbs w = (let (r, rbs, w) = ensure_current_map_user_ringbuf k m rbs w in
     (bindr r (\<lambda>rw. Inr (rw_user_rb_fd rw)), rbs, w))"

text \<open>A failed reservation returns the value of \<^verbatim>\<open>errno\<close>.\<close>

definition output_data_into_kernel :: "'w psys \<Rightarrow> kperf \<Rightarrow> bytes \<Rightarrow> rb_map \<Rightarrow> 'w \<Rightarrow> int res \<times> rb_map \<times> 'w" where
  "output_data_into_kernel k m buf rbs w =
     (if 480 - 32 < length buf then (Inl (Errno E2BIG), rbs, w)
      else case ensure_current_map_user_ringbuf k m rbs w of
          (Inl e, rbs, w) \<Rightarrow> (Inl e, rbs, w)
        | (Inr rw, rbs, w) \<Rightarrow> (let (e, w) = ps_rb_reserve k (rw_user_rb_fd rw) (length buf + 8) w in
            if e \<noteq> 0 then (Inr e, rbs, w)
            else (Inr 0, rbs, ps_rb_submit k (rw_user_rb_fd rw) (st64 (of_nat (length buf)) @ buf) w)))"

section \<open>Hash maps pass through\<close>

text \<open>The kernel gives a map the same descriptor each time and leaves the rest as it is when it is asked for it; the values of a map have the size it tells.\<close>

definition serves_map :: "'w ksys \<Rightarrow> int \<Rightarrow> int \<Rightarrow> kmap_info \<Rightarrow> bool" where
  "serves_map k ident fd i \<longleftrightarrow> 0 \<le> fd \<and> (\<forall>w. ks_fd_by_id k ident w = (fd, w) \<and> ks_info k fd w = Some i) \<and>
     (\<forall>key w v w'. ks_lookup k fd key w = (Inr v, w') \<longrightarrow> length v = unat (ki_value_size i))"

definition khash_ok :: "int \<Rightarrow> kmap_info \<Rightarrow> khash \<Rightarrow> bool" where
  "khash_ok fd i m \<longleftrightarrow> kh_map_fd m < 0 \<or> kh_map_fd m = fd \<and> length (kh_value_vec m) = unat (ki_value_size i)"

lemma kh_ensure_ok:
  assumes "serves_map k (kh_kernel_map_id m) fd i" "khash_ok fd i m"
  shows "\<exists>m'. kh_ensure k m w = (m', w) \<and> kh_map_fd m' = fd \<and> kh_kernel_map_id m' = kh_kernel_map_id m \<and>
    length (kh_value_vec m') = unat (ki_value_size i)"
  using assms by (auto simp: kh_ensure_def kh_init_map_fd_def serves_map_def khash_ok_def resize_def Let_def)

text \<open>Kernel-user hash maps: whether the map was opened before or not, each operation gives the answer of the kernel's map for its id and has exactly
  the effect of that one system call, no buffer overflows, and the object stays open on that map.\<close>

theorem kernel_hash_passes_through:
  assumes "serves_map k (kh_kernel_map_id m) fd i" "khash_ok fd i m"
  shows "(\<exists>m'. kh_elem_lookup k m key w = (let (r, w') = ks_lookup k fd key w in (bindr r (\<lambda>v. Inr (PMem v)), m', w')) \<and> khash_ok fd i m') \<and>
    (\<exists>m'. kh_elem_update k m key val flags w = (let (r, w') = ks_update k fd key val flags w in (r, m', w')) \<and> khash_ok fd i m') \<and>
    (\<exists>m'. kh_elem_delete k m key w = (let (r, w') = ks_delete k fd key w in (r, m', w')) \<and> khash_ok fd i m') \<and>
    (\<exists>m'. kh_get_next_key k m key w = (let (r, w') = ks_next k fd key w in (r, m', w')) \<and> khash_ok fd i m')"
proof -
  from kh_ensure_ok [OF assms, of w] obtain m' where m': "kh_ensure k m w = (m', w)" "kh_map_fd m' = fd"
    "length (kh_value_vec m') = unat (ki_value_size i)" by blast
  then have ok: "khash_ok fd i m'" by (simp add: khash_ok_def)
  have "\<exists>m''. kh_elem_lookup k m key w = (let (r, w') = ks_lookup k fd key w in (bindr r (\<lambda>v. Inr (PMem v)), m'', w')) \<and> khash_ok fd i m''"
  proof (cases "ks_lookup k fd key w")
    case (Pair r w')
    show ?thesis
    proof (cases r)
      case (Inl e)
      with Pair m' ok show ?thesis by (auto simp: kh_elem_lookup_def)
    next
      case (Inr v)
      with Pair assms(1) have "length v = unat (ki_value_size i)" unfolding serves_map_def by blast
      with Inr Pair m' show ?thesis by (auto simp: kh_elem_lookup_def khash_ok_def length_put)
    qed
  qed
  moreover have "\<exists>m''. kh_elem_update k m key val flags w = (let (r, w') = ks_update k fd key val flags w in (r, m'', w')) \<and> khash_ok fd i m''"
    using m' ok by (auto simp: kh_elem_update_def)
  moreover have "\<exists>m''. kh_elem_delete k m key w = (let (r, w') = ks_delete k fd key w in (r, m'', w')) \<and> khash_ok fd i m''"
    using m' ok by (auto simp: kh_elem_delete_def)
  moreover have "\<exists>m''. kh_get_next_key k m key w = (let (r, w') = ks_next k fd key w in (r, m'', w')) \<and> khash_ok fd i m''"
    using m' ok by (auto simp: kh_get_next_key_def)
  ultimately show ?thesis by blast
qed

text \<open>A kernel with one map, whose id is 3 and whose descriptor is 7.\<close>

definition demo_info :: kmap_info where
  "demo_info = \<lparr>ki_key_size = 4, ki_value_size = 8, ki_max_entries = 2, ki_rdonly_prog = False\<rparr>"

definition demo_sys :: "(bytes option \<Rightarrow> bytes res) ksys" where
  "demo_sys = \<lparr>ks_fd_by_id = \<lambda>_ w. (7, w), ks_info = \<lambda>_ _. Some demo_info, ks_close = \<lambda>_ w. w,
     ks_lookup = \<lambda>_ key w. (bindr (w key) (\<lambda>v. if length v = 8 then Inr v else Inl (Errno ENOENT)), w),
     ks_update = \<lambda>_ key v _ w. (Inr 0, w(key := Inr v)), ks_delete = \<lambda>_ key w. (Inr 0, w(key := Inl (Errno ENOENT))),
     ks_next = \<lambda>_ key w. (Inl (Errno ENOENT), w), ks_page = 4096, ks_mmap_anon = \<lambda>_ _. True, ks_mmap = \<lambda>_ _ _ _. True,
     ks_mem = \<lambda>_ w. (case w None of Inr b \<Rightarrow> resize 4096 b | Inl _ \<Rightarrow> replicate 4096 0), ks_set_mem = \<lambda>_ b w. w(None := Inr b)\<rparr>"

lemma demo_serves: "serves_map demo_sys ident 7 demo_info"
  by (auto simp: serves_map_def demo_sys_def demo_info_def bindr_eq_Inr split: if_splits)

theorem kernel_hash_passes_through_witness:
  "\<exists>m'. kh_elem_lookup demo_sys (khash_new 0 0 3) (Some [1, 0, 0, 0]) (\<lambda>_. Inr [1, 2, 3, 4, 5, 6, 7, 8]) =
     (Inr (PMem [1, 2, 3, 4, 5, 6, 7, 8]), m', \<lambda>_. Inr [1, 2, 3, 4, 5, 6, 7, 8]) \<and> khash_ok 7 demo_info m'"
proof -
  have "khash_ok 7 demo_info (khash_new 0 0 3)" by (simp add: khash_ok_def khash_new_def)
  from kernel_hash_passes_through [OF demo_serves this, of "Some [1, 0, 0, 0]" "\<lambda>_. Inr [1, 2, 3, 4, 5, 6, 7, 8]" "[]" 0] show ?thesis
    by (simp add: demo_sys_def)
qed

text \<open>Per-CPU arrays are never opened: no operation calls \<^verbatim>\<open>init_map_fd\<close>, so that each system call goes to the descriptor -1, and a kernel that
  knows no such descriptor fails every one of them.\<close>

theorem kernel_percpu_never_opened:
  "let m = kpercpu_new v e n ident in
   (fst (ks_lookup k (- 1) key w) = Inl err \<longrightarrow> kc_elem_lookup k m key w = (Inl err, m, snd (ks_lookup k (- 1) key w))) \<and>
   kc_elem_update k m key val flags w = ks_update k (- 1) key val flags w \<and>
   kc_elem_delete k m key w = ks_delete k (- 1) key w \<and>
   kc_get_next_key k m key w = ks_next k (- 1) key w"
  by (cases "ks_lookup k (- 1) key w")
    (simp add: kc_elem_lookup_def kc_elem_update_def kc_elem_delete_def kc_get_next_key_def kpercpu_new_def)

section \<open>Arrays through the mapping\<close>

text \<open>The kernel keeps the elements of an array at multiples of the value size rounded up to 8.\<close>

definition kernel_elem :: "kmap_info \<Rightarrow> bytes \<Rightarrow> nat \<Rightarrow> bytes" where
  "kernel_elem i mem j = seg (j * round_to (unat (ki_value_size i)) 8) (unat (ki_value_size i)) mem"

text \<open>A kernel that lets the array be mapped: its memory has the size of the mapping, and what is stored is read back.\<close>

definition maps_array :: "'w ksys \<Rightarrow> int \<Rightarrow> kmap_info \<Rightarrow> bool" where
  "maps_array k fd i \<longleftrightarrow> 0 < ks_page k \<and> (\<forall>n w. ks_mmap_anon k n w) \<and> (\<forall>n r w. ks_mmap k fd n r w) \<and>
     (\<forall>w. length (ks_mem k fd w) = bpf_map_mmap_sz (ks_page k) (ki_value_size i) (ki_max_entries i)) \<and>
     (\<forall>mem w. length mem = bpf_map_mmap_sz (ks_page k) (ki_value_size i) (ki_max_entries i) \<longrightarrow> ks_mem k fd (ks_set_mem k fd mem w) = mem)"

definition karray_ok :: "int \<Rightarrow> kmap_info \<Rightarrow> karray \<Rightarrow> bool" where
  "karray_ok fd i m \<longleftrightarrow> ka_map_fd m < 0 \<or>
     ka_map_fd m = fd \<and> ka_value_size m = ki_value_size i \<and> ka_max_entries m = ki_max_entries i \<and> ka_mmap_ptr m = SharedMap fd"

lemma ka_ensure_ok:
  assumes "serves_map k (ka_kernel_map_id m) fd i" "maps_array k fd i" "karray_ok fd i m"
  shows "\<exists>m'. ka_ensure k m w = (m', w) \<and> ka_map_fd m' = fd \<and> ka_value_size m' = ki_value_size i \<and> ka_max_entries m' = ki_max_entries i \<and>
    ka_mmap_ptr m' = SharedMap fd \<and> karray_ok fd i m'"
  using assms by (auto simp: ka_ensure_def ka_init_map_fd_def serves_map_def maps_array_def karray_ok_def Let_def)

text \<open>The sizes fit: a value size that is a multiple of 8, and an array below 4 GB.\<close>

definition aligned_array :: "kmap_info \<Rightarrow> bool" where
  "aligned_array i \<longleftrightarrow> 8 dvd unat (ki_value_size i) \<and> unat (ki_value_size i) * unat (ki_max_entries i) < 2 ^ 32"

lemma round_to_dvd: "0 < y \<Longrightarrow> y dvd x \<Longrightarrow> round_to x y = x"
proof -
  assume y: "0 < y" "y dvd x"
  then obtain k where k: "x = k * y" by (metis dvd_div_mult_self)
  have "(y - 1 + k * y) div y = k + (y - 1) div y" by (rule div_mult_self1) (use y(1) in simp)
  moreover have "(y - 1) div y = 0" using y(1) by simp
  ultimately have "(y - 1 + k * y) div y = k" by linarith
  then show ?thesis by (simp add: round_to_def k add.commute)
qed

lemma round_to_le: "0 < y \<Longrightarrow> x \<le> round_to x y"
proof -
  assume y: "0 < y"
  have "x + (y - 1) < (x + (y - 1)) div y * y + y" using y mod_less_divisor [OF y, of "x + (y - 1)"] div_mult_mod_eq [of "x + (y - 1)" y] by linarith
  then show ?thesis using y by (simp add: round_to_def)
qed

lemma aligned_offset:
  assumes "aligned_array i" "j < unat (ki_max_entries i)" "0 < page"
  shows "unat (of_nat j * ki_value_size i) = j * unat (ki_value_size i)"
    "j * unat (ki_value_size i) + unat (ki_value_size i) \<le> bpf_map_mmap_sz page (ki_value_size i) (ki_max_entries i)"
proof -
  let ?v = "unat (ki_value_size i)" and ?n = "unat (ki_max_entries i)"
  have j1: "(j + 1) * ?v \<le> ?n * ?v" using assms(2) by (intro mult_right_mono) simp_all
  have fits: "?v * ?n < 2 ^ 32" using assms(1) by (simp add: aligned_array_def)
  have "unat (of_nat j :: u32) = j" using assms(2) unat_u32_less [of "ki_max_entries i"] by (intro unat_of_nat_u32) simp
  moreover have "j * ?v < 2 ^ 32" using j1 fits by (simp add: mult.commute)
  ultimately show "unat (of_nat j * ki_value_size i) = j * ?v" by (simp add: unat_mult_lem [THEN iffD1])
  have "(ki_value_size i + 7) div 8 * 8 = ki_value_size i"
  proof -
    have v: "?v < 2 ^ 32 - 7" using assms(1) unat_u32_less [of "ki_value_size i"] by (auto simp: aligned_array_def elim!: dvdE)
    then have p: "unat (ki_value_size i + 7) = ?v + 7" by (simp add: unat_plus_if')
    have "(?v + 7) div 8 * 8 = ?v" using assms(1) by (auto simp: aligned_array_def elim!: dvdE)
    then have "unat ((ki_value_size i + 7) div 8 * 8) = ?v" using p unat_u32_less [of "ki_value_size i"]
      by (simp add: unat_mult_lem [THEN iffD1] unat_div)
    then show ?thesis by (simp add: word_unat_eq_iff)
  qed
  then show "j * ?v + ?v \<le> bpf_map_mmap_sz page (ki_value_size i) (ki_max_entries i)"
    using j1 round_to_le [OF assms(3), of "?v * ?n"] by (simp add: bpf_map_mmap_sz_def mult.commute add.commute)
qed

text \<open>Kernel-user arrays: for an array that can be mapped and whose value size is a multiple of 8, a lookup of an index below the number of entries
  points to the kernel's element, an update makes the kernel's element the new value and changes no other element, and an index outside of the array
  fails without an effect; this holds for the first operation on the object as for every later one.\<close>

theorem kernel_array_shared:
  assumes s: "serves_map k (ka_kernel_map_id m) fd i" and mp: "maps_array k fd i" and ok: "karray_ok fd i m" and al: "aligned_array i"
    and j: "j < unat (ki_max_entries i)" and out: "ki_max_entries i \<le> x" and val: "length val = unat (ki_value_size i)"
  shows "(\<exists>m' o'. ka_elem_lookup k m (Some (st32 (of_nat j))) w = (Inr (PData o'), m', w) \<and> karray_ok fd i m' \<and>
      seg o' (unat (ki_value_size i)) (ks_mem k fd w) = kernel_elem i (ks_mem k fd w) j) \<and>
    (\<exists>m' w'. ka_elem_update k m (Some (st32 (of_nat j))) val flags w = (Inr 0, m', w') \<and> karray_ok fd i m' \<and>
      kernel_elem i (ks_mem k fd w') j = val \<and>
      (\<forall>l < unat (ki_max_entries i). l \<noteq> j \<longrightarrow> kernel_elem i (ks_mem k fd w') l = kernel_elem i (ks_mem k fd w) l)) \<and>
    (\<exists>m'. ka_elem_lookup k m (Some (st32 x)) w = (Inl (Errno ENOENT), m', w)) \<and>
    (\<exists>m'. ka_elem_update k m (Some (st32 x)) val flags w = (Inl (Errno ENOENT), m', w))"
proof -
  let ?v = "unat (ki_value_size i)" and ?mem = "ks_mem k fd w"
  from ka_ensure_ok [OF s mp ok, of w] obtain m' where m': "ka_ensure k m w = (m', w)" "ka_map_fd m' = fd" "ka_value_size m' = ki_value_size i"
    "ka_max_entries m' = ki_max_entries i" "ka_mmap_ptr m' = SharedMap fd" "karray_ok fd i m'" by blast
  have page: "0 < ks_page k" and sz: "length ?mem = bpf_map_mmap_sz (ks_page k) (ki_value_size i) (ki_max_entries i)"
    and stores: "length mem = bpf_map_mmap_sz (ks_page k) (ki_value_size i) (ki_max_entries i) \<Longrightarrow> ks_mem k fd (ks_set_mem k fd mem w) = mem" for mem
    using mp by (auto simp: maps_array_def)
  have bound: "l * ?v + ?v \<le> length ?mem" if "l < unat (ki_max_entries i)" for l
    using aligned_offset(2) [OF al that page] sz by simp
  have r: "round_to ?v 8 = ?v" using al by (intro round_to_dvd) (simp_all add: aligned_array_def)
  have "unat (of_nat j :: u32) = j" using j unat_u32_less [of "ki_max_entries i"] by (intro unat_of_nat_u32) simp
  then have "\<not> ki_max_entries i \<le> of_nat j" using j by (simp add: word_le_nat_alt)
  then have off: "ka_offset m' (Some (st32 (of_nat j))) = Inr (j * ?v)" "ka_offset m' (Some (st32 x)) = Inl (Errno ENOENT)"
    using m' out aligned_offset(1) [OF al j page] by (simp_all add: ka_offset_def)
  let ?mem' = "put (j * ?v) val ?mem"
  have upd: "ka_elem_update k m (Some (st32 (of_nat j))) val flags w = (Inr 0, m', ks_set_mem k fd ?mem' w)"
    using m' off val bound [OF j] by (simp add: ka_elem_update_def ka_store_def)
  have mem': "ks_mem k fd (ks_set_mem k fd ?mem' w) = ?mem'" using stores [of ?mem'] bound [OF j] val sz by (simp add: length_put)
  have same: "kernel_elem i ?mem' j = val" using seg_put_same [of "j * ?v" val ?mem] bound [OF j] val by (simp add: kernel_elem_def r)
  have other: "kernel_elem i ?mem' l = kernel_elem i ?mem l" if "l < unat (ki_max_entries i)" "l \<noteq> j" for l
    unfolding kernel_elem_def r using slot_mult_disjoint [OF that(2), of ?v] bound [OF j] bound [OF that(1)] val
    by (intro seg_put_other) auto
  have "ka_elem_lookup k m (Some (st32 (of_nat j))) w = (Inr (PData (j * ?v)), m', w)" "seg (j * ?v) ?v ?mem = kernel_elem i ?mem j"
    using m' off by (simp_all add: ka_elem_lookup_def kernel_elem_def r)
  moreover have "ka_elem_lookup k m (Some (st32 x)) w = (Inl (Errno ENOENT), m', w)"
    "ka_elem_update k m (Some (st32 x)) val flags w = (Inl (Errno ENOENT), m', w)"
    using m' off by (simp_all add: ka_elem_lookup_def ka_elem_update_def)
  ultimately show ?thesis using m'(6) upd mem' same other by auto
qed

text \<open>Other value sizes are accessed at the wrong place: the second element is taken to start inside or right after the first one, before its place in the kernel's array.\<close>

theorem kernel_array_wrong_stride:
  assumes "serves_map k (ka_kernel_map_id m) fd i" "maps_array k fd i" "karray_ok fd i m" "\<not> 8 dvd unat (ki_value_size i)" "1 < ki_max_entries i"
  shows "\<exists>m' o'. ka_elem_lookup k m (Some (st32 1)) w = (Inr (PData o'), m', w) \<and> o' < 1 * round_to (unat (ki_value_size i)) 8"
proof -
  from ka_ensure_ok [OF assms(1-3), of w] obtain m' where m': "ka_ensure k m w = (m', w)" "ka_value_size m' = ki_value_size i"
    "ka_max_entries m' = ki_max_entries i" "ka_mmap_ptr m' = SharedMap fd" by blast
  have "8 dvd round_to (unat (ki_value_size i)) 8" by (simp add: round_to_def)
  then have "unat (ki_value_size i) \<noteq> round_to (unat (ki_value_size i)) 8" using assms(4) by metis
  then have "unat (ki_value_size i) < round_to (unat (ki_value_size i)) 8" using round_to_le [of 8 "unat (ki_value_size i)"] by simp
  then show ?thesis using m' assms(5) by (simp add: ka_elem_lookup_def ka_offset_def)
qed

text \<open>An array that cannot be mapped is replaced by memory of the process: updates succeed and never reach the kernel.\<close>

theorem kernel_array_private:
  assumes "serves_map k (ka_kernel_map_id m) fd i" "ka_map_fd m < 0" "\<forall>n w. ks_mmap_anon k n w" "\<forall>n r w. \<not> ks_mmap k fd n r w" "0 < ks_page k"
    and "aligned_array i" "j < unat (ki_max_entries i)" "length val = unat (ki_value_size i)"
  shows "\<exists>m'. ka_elem_update k m (Some (st32 (of_nat j))) val flags w = (Inr 0, m', w)"
proof -
  let ?sz = "bpf_map_mmap_sz (ks_page k) (ki_value_size i) (ki_max_entries i)"
  obtain m' where m': "ka_ensure k m w = (m', w)" "ka_value_size m' = ki_value_size i" "ka_max_entries m' = ki_max_entries i"
    "ka_mmap_ptr m' = AnonMap (replicate ?sz 0)"
    using assms(1-4) by (auto simp: ka_ensure_def ka_init_map_fd_def serves_map_def Let_def)
  have "unat (of_nat j :: u32) = j" using assms(7) unat_u32_less [of "ki_max_entries i"] by (intro unat_of_nat_u32) simp
  then have "\<not> ki_max_entries i \<le> of_nat j" using assms(7) by (simp add: word_le_nat_alt)
  then show ?thesis using m' assms(8) aligned_offset [OF assms(6,7,5)]
    by (simp add: ka_elem_update_def ka_offset_def ka_store_def)
qed

lemma length_resize [simp]: "length (resize n bs) = n"
  by (simp add: resize_def)

lemma resize_same: "length bs = n \<Longrightarrow> resize n bs = bs"
  by (simp add: resize_def)

lemma demo_maps: "maps_array demo_sys 7 demo_info" "aligned_array demo_info"
  by (simp_all add: maps_array_def aligned_array_def demo_sys_def demo_info_def bpf_map_mmap_sz_def round_to_def resize_same split: sum.split)

theorem kernel_array_shared_witness:
  "\<exists>m' w'. ka_elem_update demo_sys (karray_new 0 0 WildMap 3) (Some (st32 (of_nat 1))) [1, 2, 3, 4, 5, 6, 7, 8] 0 (\<lambda>_. Inr []) = (Inr 0, m', w') \<and>
     kernel_elem demo_info (ks_mem demo_sys 7 w') 1 = [1, 2, 3, 4, 5, 6, 7, 8]"
proof -
  have ok: "karray_ok 7 demo_info (karray_new 0 0 WildMap 3)" by (simp add: karray_ok_def karray_new_def)
  have "1 < unat (ki_max_entries demo_info)" "ki_max_entries demo_info \<le> 2" "length [1, 2, 3, 4, 5, 6, 7, 8 :: byte] = unat (ki_value_size demo_info)"
    by (simp_all add: demo_info_def)
  from kernel_array_shared [OF demo_serves demo_maps(1) ok demo_maps(2) this, of "\<lambda>_. Inr []" 0] show ?thesis by blast
qed

section \<open>Samples reach the kernel\<close>

text \<open>A process that outputs one sample after the other.\<close>

fun output_all :: "'w psys \<Rightarrow> kperf \<Rightarrow> bytes list \<Rightarrow> rb_map \<Rightarrow> 'w \<Rightarrow> int res \<times> rb_map \<times> 'w" where
  "output_all k m [] rbs w = (Inr 0, rbs, w)"
| "output_all k m (b # bs) rbs w = (case output_data_into_kernel k m b rbs w of
     (Inr r, rbs, w) \<Rightarrow> if r = 0 then output_all k m bs rbs w else (Inr r, rbs, w)
   | out \<Rightarrow> out)"

text \<open>The user ring buffer as the runtime relies on it: opening the id gives a descriptor of the ring buffer, which need not be the number the
  transporter program was built with, and submitting adds the record at its end. A reservation may fail.\<close>

definition ring_queue :: "kworld psys \<Rightarrow> int \<Rightarrow> int \<Rightarrow> bool" where
  "ring_queue k ident fd \<longleftrightarrow> 0 \<le> fd \<and> (\<forall>w. ps_fd_by_id k ident w = (fd, w)) \<and> (\<forall>w. ps_rb_new k fd w = (True, w)) \<and>
     (\<forall>n w. snd (ps_rb_reserve k fd n w) = w) \<and>
     (\<forall>bs w. ps_rb_submit k fd bs w = w\<lparr>kw_pending := kw_pending w @ [bs]\<rparr>)"

definition rbs_ok :: "int \<Rightarrow> kperf \<Rightarrow> rb_map \<Rightarrow> bool" where
  "rbs_ok fd m rbs \<longleftrightarrow> (\<forall>rw. rbs (kp_kernel_perf_id m) = Some rw \<longrightarrow> rw_user_rb_fd rw = fd)"

lemma ensure_ok:
  assumes "ring_queue k (kp_user_rb_id m) fd" "rbs_ok fd m rbs"
  shows "\<exists>rw rbs'. ensure_current_map_user_ringbuf k m rbs w = (Inr rw, rbs', w) \<and> rw_user_rb_fd rw = fd \<and> rbs_ok fd m rbs'"
  using assms by (cases "rbs (kp_kernel_perf_id m)")
    (auto simp: ensure_current_map_user_ringbuf_def user_ringbuffer_wrapper_new_def ring_queue_def rbs_ok_def)

lemma output_one:
  assumes "ring_queue k (kp_user_rb_id m) fd" "rbs_ok fd m rbs" "output_data_into_kernel k m b rbs w = (Inr 0, rbs', w')"
  shows "length b \<le> 448 \<and> w' = w\<lparr>kw_pending := kw_pending w @ [perf_sample b]\<rparr> \<and> rbs_ok fd m rbs'"
proof -
  from ensure_ok [OF assms(1,2), of w] obtain rw rbs1 where e: "ensure_current_map_user_ringbuf k m rbs w = (Inr rw, rbs1, w)" "rw_user_rb_fd rw = fd"
    "rbs_ok fd m rbs1" by blast
  obtain er w1 where r: "ps_rb_reserve k fd (length b + 8) w = (er, w1)" by fastforce
  with assms(1) have "w1 = w" unfolding ring_queue_def by (metis snd_conv)
  with assms(1,3) e r show ?thesis by (auto simp: output_data_into_kernel_def ring_queue_def perf_sample_def split: if_splits)
qed

lemma output_all_pending:
  assumes "ring_queue k (kp_user_rb_id m) fd" "rbs_ok fd m rbs" "output_all k m bufs rbs w = (Inr 0, rbs', w')"
  shows "(\<forall>b \<in> set bufs. length b \<le> 448) \<and> w' = w\<lparr>kw_pending := kw_pending w @ map perf_sample bufs\<rparr>"
  using assms(2,3)
proof (induction bufs arbitrary: rbs w)
  case (Cons b bufs)
  from Cons.prems(2) obtain rbs1 w1 where o: "output_data_into_kernel k m b rbs w = (Inr 0, rbs1, w1)"
    "output_all k m bufs rbs1 w1 = (Inr 0, rbs', w')" by (auto split: prod.splits sum.splits if_splits)
  from output_one [OF assms(1) Cons.prems(1) o(1)] Cons.IH [OF _ o(2)] show ?case by simp
qed simp

text \<open>C32. Samples of a shared perf event array: what a process outputs without an error is given to the kernel's perf event array by the transporter
  program, unchanged and in order, one sample for each run of it; samples of more than 448 bytes are refused. The process writes through its own descriptor
  \<open>fd\<close> of the ring buffer, the program reads through the descriptor \<open>rb\<close> it was built with; the kernel accepts every output of the program.\<close>

theorem shared_perf_delivers:
  assumes "ring_queue k (kp_user_rb_id m) fd" "rbs_ok fd m rbs" "queue_kernel kn (sint rb)"
    and "kw_pending w = []" "output_all k m bufs rbs w = (Inr 0, rbs', w')" "length sts = length bufs" "\<forall>st \<in> set sts. length st = 512"
  shows "(\<exists>r. ticks kn rb pf sts w' = Done 0 r (w\<lparr>kw_samples := kw_samples w @ map (\<lambda>b. (sint pf, 0xffffffff, b)) bufs\<rparr>)) \<and>
    (\<forall>buf. 448 < length buf \<longrightarrow> output_data_into_kernel k m buf rbs w = (Inl (Errno E2BIG), rbs, w))"
proof -
  from output_all_pending [OF assms(1,2,5)] assms(4) have o: "\<forall>b \<in> set bufs. length b \<le> 448" "w' = w\<lparr>kw_pending := map perf_sample bufs\<rparr>"
    by simp_all
  from ticks_deliver [OF assms(3) o(1) assms(7), of w' pf] obtain r where
    "ticks kn rb pf sts w' = Done 0 r (w'\<lparr>kw_pending := map perf_sample (drop (length sts) bufs),
      kw_samples := kw_samples w' @ map (\<lambda>b. (sint pf, 0xffffffff, b)) (take (length sts) bufs)\<rparr>)" using o(2) by auto
  moreover have "w\<lparr>kw_pending := []\<rparr> = w" using assms(4) by simp
  ultimately show ?thesis using o(2) assms(6) by (simp add: output_data_into_kernel_def)
qed

text \<open>A process that outputs two samples, and the runs that carry them over.\<close>

definition demo_rb :: "kworld psys" where
  "demo_rb = \<lparr>ps_map_create = \<lambda>_ _ w. (5, w), ps_map_id = \<lambda>_ _. Some 9, ps_event_open = \<lambda>_ w. (10, w), ps_fd_by_id = \<lambda>_ w. (7, w),
     ps_btf_load = \<lambda>w. (11, w), ps_prog_load = \<lambda>_ _ w. (12, w), ps_set_bpf = \<lambda>_ _ w. (0, w), ps_enable = \<lambda>_ w. (0, w),
     ps_disable = \<lambda>_ w. w, ps_close = \<lambda>_ w. w, ps_rb_new = \<lambda>_ w. (True, w), ps_rb_reserve = \<lambda>_ _ w. (0, w),
     ps_rb_submit = \<lambda>_ bs w. w\<lparr>kw_pending := kw_pending w @ [bs]\<rparr>\<rparr>"

definition demo_kperf :: kperf where
  "demo_kperf = \<lparr>kp_max_ent = 2, kp_kernel_perf_id = 6, kp_user_rb_id = 9, kp_pfd = 10, kp_transporter_prog_fd = 12\<rparr>"

theorem shared_perf_delivers_witness:
  "\<exists>rbs' w' r w''. output_all demo_rb demo_kperf [[1, 2, 3], [4]] Map.empty \<lparr>kw_pending = [], kw_samples = []\<rparr> = (Inr 0, rbs', w') \<and>
     ticks list_kernel 5 6 [replicate 512 0, replicate 512 9] w' = Done 0 r w'' \<and>
     kw_samples w'' = [(6, 0xffffffff, [1, 2, 3]), (6, 0xffffffff, [4])]"
proof -
  let ?w = "\<lparr>kw_pending = [], kw_samples = []\<rparr>"
  have q: "ring_queue demo_rb (kp_user_rb_id demo_kperf) 7" by (simp add: ring_queue_def demo_rb_def)
  have r: "rbs_ok 7 demo_kperf Map.empty" by (simp add: rbs_ok_def)
  obtain rbs' w' where o: "output_all demo_rb demo_kperf [[1, 2, 3], [4]] Map.empty ?w = (Inr 0, rbs', w')"
    by (simp add: output_data_into_kernel_def ensure_current_map_user_ringbuf_def user_ringbuffer_wrapper_new_def demo_rb_def demo_kperf_def)
  from shared_perf_delivers [OF q r list_kernel_queue _ o, of "[replicate 512 0, replicate 512 9]" 5 6] o show ?thesis by auto
qed

end
