(* ===== verification/Syscall_Server.thy ===== *)
theory Syscall_Server
  imports Shm_Life Ubpf_Vm
begin

text \<open>
  The syscall server (syscall-server/syscall_context.cpp, .hpp, syscall_server_utils.cpp,
  syscall_server_main.cpp): a library that is loaded before libc into the process of an eBPF loader and
  answers its bpf, perf and epoll calls from the shared memory, so that the loader believes in a kernel.
  The state is the record \<open>server\<close>: the shared memory, the switches of \<^verbatim>\<open>syscall_context\<close>, the mocked files and
  the mocked mappings, and the state \<open>'k\<close> of the kernel and libc behind it. The functions of libc that
  \<^verbatim>\<open>dlsym\<close> finds are one argument, \<open>se_call\<close>, on that state: what it returns, -1 included, is the value a
  handler passes on. So a theorem can say which calls reach the kernel. The descriptors that the runtime
  asks for (\<^verbatim>\<open>open_fake_fd\<close>) come from arguments \<open>kfd\<close>, as in the theory Shm_Internal. The verifier is a
  build option and is off. Of the constructor only the settings and the start of the POS daemon are
  modelled; \<^verbatim>\<open>setenv\<close> and logging are not.
\<close>

unbundle bit_operations_syntax

section \<open>Requests\<close>

text \<open>The members of \<^verbatim>\<open>union bpf_attr\<close> that each command uses. A pointer is what it points to; \<open>None\<close> is null.\<close>

record map_create_attr =
  mc_map_type :: u32
  mc_key_size :: u32
  mc_value_size :: u32
  mc_max_entries :: u32
  mc_map_flags :: u32
  mc_map_name :: string
  mc_map_ifindex :: u32
  mc_btf_fd :: u32
  mc_btf_key_type_id :: u32
  mc_btf_value_type_id :: u32
  mc_btf_vmlinux_value_type_id :: u32
  mc_map_extra :: u64

record prog_load_attr =
  pl_prog_type :: u32
  pl_insns :: "u64 list"
  pl_prog_name :: string
  pl_func_info_rec_size :: u32
  pl_func_info :: u64
  pl_func_info_cnt :: u32
  pl_line_info_rec_size :: u32
  pl_line_info :: u64
  pl_line_info_cnt :: u32

datatype bpf_req =
    MapCreate map_create_attr
  | MapLookup int "bytes option"
  | MapUpdate int "bytes option" bytes u64
  | MapDelete int "bytes option"
  | MapNextKey int "bytes option"
  | ProgLoad prog_load_attr
  | LinkCreate link_args
  | MapFreeze int
  | ObjGetInfo int
  | ProgAttach int int
  | OtherCmd int

text \<open>\<^verbatim>\<open>struct bpf_map_info\<close>, which the kernel and the server fill.\<close>

record map_info =
  mi_type :: u32
  mi_id :: u32
  mi_key_size :: u32
  mi_value_size :: u32
  mi_max_entries :: u32
  mi_map_flags :: u32
  mi_name :: string
  mi_ifindex :: u32
  mi_btf_vmlinux_value_type_id :: u32
  mi_btf_id :: u32
  mi_btf_key_type_id :: u32
  mi_btf_value_type_id :: u32
  mi_map_extra :: u64

text \<open>What a bpf call gives back: a number, or 0 and the memory it wrote.\<close>

datatype bpf_out = Ret int | ValueOut bytes | KeyOut bytes | MapInfoOut map_info | ProgInfoOut int

text \<open>\<^verbatim>\<open>perf_event_attr\<close>; \<open>pe_config1\<close> is the string at the pointer in \<^verbatim>\<open>config1\<close>.\<close>

record perf_attr =
  pe_type :: u32
  pe_config :: u64
  pe_config1 :: string
  pe_config2 :: u64
  pe_sample_type :: u64

text \<open>Addresses of the loader: inside an object of the segment, by the number of the object, or elsewhere.\<close>

datatype maddr = ConsumerPage nat | ProducerPage nat | ArrayData nat | PerfBuffer nat | Addr u64

section \<open>The world outside\<close>

datatype orig_call =
    OrigClose int
  | OrigOpenat int string int u16
  | OrigOpen string int u16
  | OrigRead int nat
  | OrigFopen string string
  | OrigBpf bpf_req
  | OrigPerf perf_attr int int int u64
  | OrigMmap maddr nat int int int int
  | OrigMunmap maddr nat
  | OrigIoctl int u64 int
  | OrigEpollCreate1 int
  | OrigEpollCtl int int int "u64 option"
  | OrigEpollWait int int int
  | OrigDup3 int int int
  | OrigSyscall int "int list"
  | Mkstemp
  | WriteTo int string
  | Fclose int
  | ExecAsync string

text \<open>\<open>se_call\<close>: the original functions. \<open>se_tmp_name\<close> is the name the last \<^verbatim>\<open>mkstemp\<close> made, \<open>se_stream\<close> what is left to
  read in a stream, \<open>se_fd_dir\<close> the directory a descriptor refers to (\<^verbatim>\<open>read_symlink\<close> and \<^verbatim>\<open>is_directory\<close>),
  \<open>se_info\<close> libbpf's \<^verbatim>\<open>bpf_obj_get_info_by_fd\<close> (\<open>None\<close> when it fails), \<open>se_match\<close> \<^verbatim>\<open>std::regex_match\<close>.\<close>

record ('w, 'k) server_env =
  se_env :: "'w map_env"
  se_world :: 'w
  se_getenv :: "string \<Rightarrow> string option"
  se_call :: "orig_call \<Rightarrow> 'k \<Rightarrow> int \<times> 'k"
  se_errno :: "'k \<Rightarrow> int"
  se_exists :: "string \<Rightarrow> 'k \<Rightarrow> bool"
  se_fd_dir :: "int \<Rightarrow> 'k \<Rightarrow> string option"
  se_tmp_name :: "'k \<Rightarrow> string"
  se_stream :: "int \<Rightarrow> 'k \<Rightarrow> string"
  se_info :: "int \<Rightarrow> 'k \<Rightarrow> map_info option \<times> 'k"
  se_match :: "string \<Rightarrow> string \<Rightarrow> bool"

section \<open>State\<close>

record mocked_file =
  mf_cursor :: nat
  mf_buf :: string
  mf_replacement :: int

record ('w, 'k) server =
  sv_shm :: "'w shm"
  sv_enable_mock :: bool
  sv_run_with_kernel :: bool
  sv_pattern :: string
  sv_already_setup :: bool
  sv_files :: "int \<rightharpoonup> mocked_file"
  sv_mmaps :: "maddr set"
  sv_kernel :: 'k

text \<open>The global shared memory object before its constructor has run: static storage, all zero.\<close>

definition zero_shm :: "'w shm" where
  "zero_shm = \<lparr>sh_open_type = SHM_REMOVE_AND_CREATE, sh_manager = None, sh_syscall_pids = None,
     sh_alive_pids = None, sh_agent_config = None, sh_local_config = None\<rparr>"

definition load_config_from_env :: "(string \<Rightarrow> string option) \<Rightarrow> ('w, 'k) server \<Rightarrow> ('w, 'k) server" where
  "load_config_from_env getenv v =
     v\<lparr>sv_run_with_kernel := getenv ''BPFTIME_RUN_WITH_KERNEL'' \<noteq> None,
       sv_pattern := (case getenv ''BPFTIME_NOT_LOAD_PATTERN'' of Some p \<Rightarrow> p | None \<Rightarrow> [])\<rparr>"

text \<open>The constructor; \<open>None\<close> is \<^verbatim>\<open>exit(1)\<close>.\<close>

definition syscall_context_new :: "('w, 'k) server_env \<Rightarrow> 'k \<Rightarrow> ('w, 'k) server option" where
  "syscall_context_new se k =
     (let v = load_config_from_env (se_getenv se)
            \<lparr>sv_shm = zero_shm, sv_enable_mock = True, sv_run_with_kernel = False, sv_pattern = [],
             sv_already_setup = False, sv_files = Map.empty, sv_mmaps = {}, sv_kernel = k\<rparr>;
          (retval, k) = se_call se (ExecAsync ''pos_cli --start --target daemon'') k
      in if retval \<noteq> 0 then None else Some (v\<lparr>sv_kernel := k\<rparr>))"

definition orig :: "('w, 'k) server_env \<Rightarrow> orig_call \<Rightarrow> ('w, 'k) server \<Rightarrow> int \<times> ('w, 'k) server" where
  "orig se c v = (let (r, k) = se_call se c (sv_kernel v) in (r, v\<lparr>sv_kernel := k\<rparr>))"

definition orig_res :: "('w, 'k) server_env \<Rightarrow> orig_call \<Rightarrow> ('w, 'k) server \<Rightarrow> int res \<times> ('w, 'k) server" where
  "orig_res se c v = (let (r, v) = orig se c v in (Inr r, v))"

definition on_shm :: "('w shm \<Rightarrow> 'a res \<times> 'w shm) \<Rightarrow> ('w, 'k) server \<Rightarrow> 'a res \<times> ('w, 'k) server" where
  "on_shm f v = (let (r, s) = f (sv_shm v) in (r, v\<lparr>sv_shm := s\<rparr>))"

text \<open>A call of the runtime whose result is dropped, and one after whose failure the server goes on with
  something else: exceptions and faults leave the handler in both cases.\<close>

definition stops :: "err \<Rightarrow> bool" where
  "stops e \<longleftrightarrow> e = Throw \<or> e = Fault"

definition ignoring :: "'a res \<times> 's \<Rightarrow> ('s \<Rightarrow> 'b res \<times> 's) \<Rightarrow> 'b res \<times> 's" where
  "ignoring out f = (case out of (Inl e, v) \<Rightarrow> if stops e then (Inl e, v) else f v | (Inr _, v) \<Rightarrow> f v)"

definition or_else :: "int res \<times> 's \<Rightarrow> ('s \<Rightarrow> int res \<times> 's) \<Rightarrow> int res \<times> 's" where
  "or_else out f = (case out of
     (Inl e, v) \<Rightarrow> if stops e then (Inl e, v) else f v
   | (Inr x, v) \<Rightarrow> if x < 0 then f v else (Inr x, v))"

definition mapped :: "('a \<Rightarrow> 'b) \<Rightarrow> 'a res \<times> 's \<Rightarrow> 'b res \<times> 's" where
  "mapped f out = (let (r, s) = out in (bindr r (\<lambda>x. Inr (f x)), s))"

section \<open>Start\<close>

text \<open>\<^verbatim>\<open>already_setup\<close> is set first; then the segment is made anew and the configuration stored in it.\<close>

definition start_up :: "('w, 'k) server_env \<Rightarrow> ('w, 'k) server \<Rightarrow> ('w, 'k) server" where
  "start_up se v =
     (if sv_already_setup v then v
      else let v = v\<lparr>sv_already_setup := True\<rparr>;
               cfg = construct_agent_config_from_env (se_getenv se) in
        case fst (bpftime_shm_new (se_world se) SHM_REMOVE_AND_CREATE None) of
          Inr s \<Rightarrow> v\<lparr>sv_shm := set_agent_config cfg s\<rparr>
        | Inl e \<Rightarrow> v)"

definition try_startup :: "('w, 'k) server_env \<Rightarrow> ('w, 'k) server \<Rightarrow> ('w, 'k) server" where
  "try_startup se v = (start_up se (v\<lparr>sv_enable_mock := False\<rparr>))\<lparr>sv_enable_mock := True\<rparr>"

section \<open>Mocked files\<close>

definition UPROBE_TYPE_FILE_NAME :: string where
  "UPROBE_TYPE_FILE_NAME = ''/sys/bus/event_source/devices/uprobe/type''"

definition URETPROBE_BIT_FILE_NAME :: string where
  "URETPROBE_BIT_FILE_NAME = ''/sys/bus/event_source/devices/uprobe/format/retprobe''"

definition KPROBE_TYPE_FILE_NAME :: string where
  "KPROBE_TYPE_FILE_NAME = ''/sys/bus/event_source/devices/kprobe/type''"

definition KRETPROBE_BIT_FILE_NAME :: string where
  "KRETPROBE_BIT_FILE_NAME = ''/sys/bus/event_source/devices/kprobe/format/retprobe''"

definition MOCKED_UPROBE_TYPE_VALUE :: int where "MOCKED_UPROBE_TYPE_VALUE = 9"
definition MOCKED_URETPROBE_BIT :: int where "MOCKED_URETPROBE_BIT = 0"
definition MOCKED_KPROBE_TYPE_VALUE :: int where "MOCKED_KPROBE_TYPE_VALUE = 8"
definition MOCKED_KRETPROBE_BIT :: int where "MOCKED_KRETPROBE_BIT = 0"

text \<open>\<^verbatim>\<open>std::filesystem::path\<close>: two paths are equal when they have the same elements (a root, names, and an
  empty name after a last separator); \<^verbatim>\<open>dir / file\<close> is \<^verbatim>\<open>file\<close> when that is absolute.\<close>

definition path_elements :: "string \<Rightarrow> bool \<times> string list \<times> bool" where
  "path_elements p =
     (let names = filter (\<lambda>t. t \<noteq> []) (tokens (CHR ''/'') p)
      in (p \<noteq> [] \<and> hd p = CHR ''/'', names, names \<noteq> [] \<and> last p = CHR ''/''))"

definition path_eq :: "string \<Rightarrow> string \<Rightarrow> bool" where
  "path_eq p q \<longleftrightarrow> path_elements p = path_elements q"

definition path_append :: "string \<Rightarrow> string \<Rightarrow> string" where
  "path_append dir file =
     (if file \<noteq> [] \<and> hd file = CHR ''/'' then file
      else if dir \<noteq> [] \<and> last dir \<noteq> CHR ''/'' then dir @ ''/'' @ file else dir @ file)"

definition mocked_file_provider :: "string \<Rightarrow> mocked_file" where
  "mocked_file_provider buf = \<lparr>mf_cursor = 0, mf_buf = buf, mf_replacement = 0\<rparr>"

definition create_mocked_file_based_on_full_path :: "string \<Rightarrow> mocked_file option" where
  "create_mocked_file_based_on_full_path path =
     (if path_eq path UPROBE_TYPE_FILE_NAME then Some (mocked_file_provider (dec_int MOCKED_UPROBE_TYPE_VALUE))
      else if path_eq path URETPROBE_BIT_FILE_NAME
        then Some (mocked_file_provider (''config:'' @ dec_int MOCKED_URETPROBE_BIT))
      else None)"

definition resolve_filename_and_fd_to_full_path ::
  "('w, 'k) server_env \<Rightarrow> int \<Rightarrow> string \<Rightarrow> 'k \<Rightarrow> string option" where
  "resolve_filename_and_fd_to_full_path se fd file k = map_option (\<lambda>dir. path_append dir file) (se_fd_dir se fd k)"

text \<open>\<^verbatim>\<open>unordered_map::emplace\<close> keeps an entry that is there.\<close>

definition emplace :: "int \<Rightarrow> mocked_file \<Rightarrow> (int \<rightharpoonup> mocked_file) \<Rightarrow> (int \<rightharpoonup> mocked_file)" where
  "emplace fd f m = (case m fd of Some _ \<Rightarrow> m | None \<Rightarrow> m(fd \<mapsto> f))"

definition mock_descriptor ::
  "('w, 'k) server_env \<Rightarrow> mocked_file \<Rightarrow> orig_call \<Rightarrow> ('w, 'k) server \<Rightarrow> int \<times> ('w, 'k) server" where
  "mock_descriptor se mocker fallback v =
     (let (fake_fd, v) = orig se Mkstemp v in
      if fake_fd < 0 then orig se fallback v
      else (fake_fd, v\<lparr>sv_files := emplace fake_fd mocker (sv_files v)\<rparr>))"

definition handle_openat ::
  "('w, 'k) server_env \<Rightarrow> int \<Rightarrow> string \<Rightarrow> int \<Rightarrow> u16 \<Rightarrow> ('w, 'k) server \<Rightarrow> int \<times> ('w, 'k) server" where
  "handle_openat se fd file oflag mode v =
     (if \<not> sv_enable_mock v then orig se (OrigOpenat fd file oflag mode) v
      else let v = try_startup se v in
        case resolve_filename_and_fd_to_full_path se fd file (sv_kernel v) of
          None \<Rightarrow> orig se (OrigOpenat fd file oflag mode) v
        | Some path \<Rightarrow>
            (case create_mocked_file_based_on_full_path path of
               Some mocker \<Rightarrow> mock_descriptor se mocker (OrigOpen file oflag mode) v
             | None \<Rightarrow> orig se (OrigOpenat fd file oflag mode) v))"

definition handle_open ::
  "('w, 'k) server_env \<Rightarrow> string \<Rightarrow> int \<Rightarrow> u16 \<Rightarrow> ('w, 'k) server \<Rightarrow> int \<times> ('w, 'k) server" where
  "handle_open se file oflag mode v =
     (if \<not> sv_enable_mock v then orig se (OrigOpen file oflag mode) v
      else let v = try_startup se v in
        case create_mocked_file_based_on_full_path file of
          Some mocker \<Rightarrow> mock_descriptor se mocker (OrigOpen file oflag mode) v
        | None \<Rightarrow> orig se (OrigOpen file oflag mode) v)"

text \<open>A read gives the bytes of a mocked file, or what the original function returns.\<close>

datatype read_out = MockRead string | OrigOut int

definition mock_read :: "mocked_file \<Rightarrow> nat \<Rightarrow> string \<times> mocked_file" where
  "mock_read f cnt =
     (let can_read_bytes = min cnt (length (mf_buf f) - mf_cursor f) in
      if can_read_bytes = 0 then ([], f)
      else (take can_read_bytes (drop (mf_cursor f) (mf_buf f)), f\<lparr>mf_cursor := mf_cursor f + can_read_bytes\<rparr>))"

definition handle_read :: "('w, 'k) server_env \<Rightarrow> int \<Rightarrow> nat \<Rightarrow> ('w, 'k) server \<Rightarrow> read_out \<times> ('w, 'k) server" where
  "handle_read se fd cnt v =
     (if \<not> sv_enable_mock v then apfst OrigOut (orig se (OrigRead fd cnt) v)
      else let v = try_startup se v in
        case sv_files v fd of
          Some f \<Rightarrow> (let (out, f') = mock_read f cnt in (MockRead out, v\<lparr>sv_files := (sv_files v)(fd \<mapsto> f')\<rparr>))
        | None \<Rightarrow> apfst OrigOut (orig se (OrigRead fd cnt) v))"

text \<open>Closing a mocked file drops its entry and leaves the temporary descriptor open.\<close>

definition handle_close :: "('w, 'k) server_env \<Rightarrow> int \<Rightarrow> ('w, 'k) server \<Rightarrow> int res \<times> ('w, 'k) server" where
  "handle_close se fd v =
     (if \<not> sv_enable_mock v then orig_res se (OrigClose fd) v
      else let v = try_startup se v in
        case sv_files v fd of
          Some f \<Rightarrow> (Inr 0, v\<lparr>sv_files := (sv_files v)(fd := None)\<rparr>)
        | None \<Rightarrow> ignoring (on_shm (bpftime_close (se_env se) fd) v) (orig_res se (OrigClose fd)))"

text \<open>\<^verbatim>\<open>fopen(filename_buf, "r")\<close> is the interposed function, which passes a name under \<^verbatim>\<open>/tmp\<close> on. A stream
  is an address; 0 is null.\<close>

definition handle_fopen ::
  "('w, 'k) server_env \<Rightarrow> string \<Rightarrow> string \<Rightarrow> ('w, 'k) server \<Rightarrow> int \<times> ('w, 'k) server" where
  "handle_fopen se pathname flags v =
     (if \<not> sv_enable_mock v then orig se (OrigFopen pathname flags) v
      else let v = try_startup se v in
        case create_mocked_file_based_on_full_path pathname of
          None \<Rightarrow> orig se (OrigFopen pathname flags) v
        | Some mocker \<Rightarrow>
            (let (fake_fd, v) = orig se Mkstemp v in
             if fake_fd < 0 then orig se (OrigFopen pathname flags) v
             else let files = emplace fake_fd mocker (sv_files v);
                      f = (case files fake_fd of Some f \<Rightarrow> f | None \<Rightarrow> mocker);
                      (fp, v) = orig se (OrigFopen (se_tmp_name se (sv_kernel v)) ''r'') v;
                      v = v\<lparr>sv_files := files(fake_fd \<mapsto> f\<lparr>mf_replacement := fp\<rparr>)\<rparr>;
                      (size_written, v) = orig se (WriteTo fake_fd (mf_buf f)) v
                  in (fp, v)))"

section \<open>Perf types\<close>

text \<open>\<^verbatim>\<open>fscanf\<close> with a format of literal characters and one \<^verbatim>\<open>%d\<close>: the end of the input before the conversion, a
  character that does not match, or the number.\<close>

datatype scanned = Scanned int | Eof | Mismatch

fun scan_format :: "string \<Rightarrow> string \<Rightarrow> scanned" where
  "scan_format [] s =
     (if dropWhile is_space s = [] then Eof else (case stoi s of Some n \<Rightarrow> Scanned n | None \<Rightarrow> Mismatch))"
| "scan_format (c # f) [] = Eof"
| "scan_format (c # f) (x # s) = (if c = x then scan_format f s else Mismatch)"

definition EIO_num :: int where "EIO_num = 5"

text \<open>\<^verbatim>\<open>fopen\<close> here is the function of the same library, so it opens the mocked files.\<close>

definition parse_uint_from_file ::
  "('w, 'k) server_env \<Rightarrow> string \<Rightarrow> string \<Rightarrow> ('w, 'k) server \<Rightarrow> int \<times> ('w, 'k) server" where
  "parse_uint_from_file se file fmt v =
     (let (f, v) = handle_fopen se file ''re'' v in
      if f = 0 then (- se_errno se (sv_kernel v), v)
      else let r = (case scan_format fmt (se_stream se f (sv_kernel v)) of
                 Scanned n \<Rightarrow> n | Eof \<Rightarrow> - EIO_num | Mismatch \<Rightarrow> - se_errno se (sv_kernel v));
               (c, v) = orig se (Fclose f) v
           in (r, v))"

definition determine ::
  "('w, 'k) server_env \<Rightarrow> string \<Rightarrow> string \<Rightarrow> int \<Rightarrow> ('w, 'k) server \<Rightarrow> int \<times> ('w, 'k) server" where
  "determine se file fmt mocked v =
     (if \<not> se_exists se file (sv_kernel v) then (mocked, v) else parse_uint_from_file se file fmt v)"

definition determine_uprobe_perf_type :: "('w, 'k) server_env \<Rightarrow> ('w, 'k) server \<Rightarrow> int \<times> ('w, 'k) server" where
  "determine_uprobe_perf_type se = determine se UPROBE_TYPE_FILE_NAME [] MOCKED_UPROBE_TYPE_VALUE"

definition determine_uprobe_retprobe_bit :: "('w, 'k) server_env \<Rightarrow> ('w, 'k) server \<Rightarrow> int \<times> ('w, 'k) server" where
  "determine_uprobe_retprobe_bit se = determine se URETPROBE_BIT_FILE_NAME ''config:'' MOCKED_URETPROBE_BIT"

definition determine_kprobe_perf_type :: "('w, 'k) server_env \<Rightarrow> ('w, 'k) server \<Rightarrow> int \<times> ('w, 'k) server" where
  "determine_kprobe_perf_type se = determine se KPROBE_TYPE_FILE_NAME [] MOCKED_KPROBE_TYPE_VALUE"

definition determine_kprobe_retprobe_bit :: "('w, 'k) server_env \<Rightarrow> ('w, 'k) server \<Rightarrow> int \<times> ('w, 'k) server" where
  "determine_kprobe_retprobe_bit se = determine se KRETPROBE_BIT_FILE_NAME ''config:'' MOCKED_KRETPROBE_BIT"

section \<open>Maps and programs of the kernel\<close>

text \<open>\<^verbatim>\<open>attr.type = info.type + KERNEL_USER_MAP_OFFSET\<close>, an addition of 32 bits.\<close>

definition kernel_map_attr :: "map_info \<Rightarrow> bpf_map_attr" where
  "kernel_map_attr i = \<lparr>at_type = sint (mi_type i + word_of_int KERNEL_USER_MAP_OFFSET), at_key_size = mi_key_size i,
     at_value_size = mi_value_size i, at_max_ents = mi_max_entries i, at_flags = ucast (mi_map_flags i),
     at_ifindex = mi_ifindex i, at_btf_vmlinux_value_type_id = mi_btf_vmlinux_value_type_id i,
     at_btf_id = mi_btf_id i, at_btf_key_type_id = mi_btf_key_type_id i, at_btf_value_type_id = mi_btf_value_type_id i,
     at_map_extra = 0, at_kernel_bpf_map_id = mi_id i\<rparr>"

definition kernel_info :: "('w, 'k) server_env \<Rightarrow> int \<Rightarrow> ('w, 'k) server \<Rightarrow> map_info option \<times> ('w, 'k) server" where
  "kernel_info se fd v = (let (i, k) = se_info se fd (sv_kernel v) in (i, v\<lparr>sv_kernel := k\<rparr>))"

definition create_kernel_bpf_map ::
  "('w, 'k) server_env \<Rightarrow> (nat \<Rightarrow> int) \<Rightarrow> int \<Rightarrow> ('w, 'k) server \<Rightarrow> int res \<times> ('w, 'k) server" where
  "create_kernel_bpf_map se kfd map_fd v = (case kernel_info se map_fd v of
     (None, v) \<Rightarrow> (Inl Silent, v)
   | (Some info, v) \<Rightarrow>
       if is_map_fd (sv_shm v) (sint (mi_id info)) then (Inr 0, v)
       else (case on_shm (bpftime_maps_create (se_env se) kfd (sint (mi_id info)) (mi_name info) (kernel_map_attr info)) v of
           (Inl e, v) \<Rightarrow> (Inl (if stops e then e else Silent), v)
         | (Inr r, v) \<Rightarrow> if r < 0 then (Inl Silent, v) else (Inr map_fd, v)))"

text \<open>\<^verbatim>\<open>BPF_MOV64_IMM(BPF_REG_0, 0)\<close> and \<^verbatim>\<open>BPF_EXIT_INSN()\<close> as words of memory.\<close>

definition trival_prog_insns :: "u64 list" where
  "trival_prog_insns = [0xb7, 0x95]"

definition without_checks :: "prog_load_attr \<Rightarrow> prog_load_attr" where
  "without_checks a = a\<lparr>pl_insns := trival_prog_insns, pl_func_info_rec_size := 0, pl_func_info_cnt := 0,
     pl_func_info := 0, pl_line_info_rec_size := 0, pl_line_info_cnt := 0, pl_line_info := 0\<rparr>"

definition set_imm :: "u32 \<Rightarrow> u64 \<Rightarrow> u64" where
  "set_imm x w = (w AND mask 32) OR push_bit 32 (ucast x)"

text \<open>The loop over the instructions: a 64-bit load that names a map by descriptor (source register 1 or 2)
  is changed to name it by the kernel's number; \<open>None\<close> is the early return.\<close>

definition loads_map :: "u64 \<Rightarrow> bool" where
  "loads_map w \<longleftrightarrow> in_code (insn_of_word w) = EBPF_OP_LDDW \<and>
     (in_src (insn_of_word w) = 1 \<or> in_src (insn_of_word w) = 2)"

fun relocate :: "('w, 'k) server_env \<Rightarrow> u64 list \<Rightarrow> ('w, 'k) server \<Rightarrow> u64 list option \<times> ('w, 'k) server" where
  "relocate se [] v = (Some [], v)"
| "relocate se (w # ws) v =
     (if loads_map w then
        (case kernel_info se (sint (in_imm (insn_of_word w))) v of
           (None, v) \<Rightarrow> (None, v)
         | (Some info, v) \<Rightarrow> apfst (map_option ((#) (set_imm (mi_id info) w))) (relocate se ws v))
      else apfst (map_option ((#) w)) (relocate se ws v))"

definition create_kernel_bpf_prog_in_userspace ::
  "('w, 'k) server_env \<Rightarrow> (nat \<Rightarrow> int) \<Rightarrow> prog_load_attr \<Rightarrow> ('w, 'k) server \<Rightarrow> int res \<times> ('w, 'k) server" where
  "create_kernel_bpf_prog_in_userspace se kfd attr v =
     (let (res, v) =
        (if sv_pattern v \<noteq> [] \<and> se_match se (pl_prog_name attr) (sv_pattern v)
         then orig se (OrigBpf (ProgLoad (without_checks attr))) v
         else orig se (OrigBpf (ProgLoad attr)) v)
      in if res < 0 then (Inr res, v)
         else (case relocate se (pl_insns attr) v of
             (None, v) \<Rightarrow> (Inl Silent, v)
           | (Some insns, v) \<Rightarrow> on_shm (bpftime_progs_create (se_env se) kfd res insns (pl_prog_name attr)
               (sint (pl_prog_type attr))) v))"

section \<open>The bpf system call\<close>

text \<open>The initialiser in \<^verbatim>\<open>BPF_MAP_CREATE\<close>. \<^verbatim>\<open>attr->btf_id\<close> is a member of another command's struct: it lies at
  the start of the union, where \<^verbatim>\<open>map_type\<close> is.\<close>

definition user_map_attr :: "map_create_attr \<Rightarrow> bpf_map_attr" where
  "user_map_attr a = \<lparr>at_type = sint (mc_map_type a), at_key_size = mc_key_size a, at_value_size = mc_value_size a,
     at_max_ents = mc_max_entries a, at_flags = ucast (mc_map_flags a), at_ifindex = mc_map_ifindex a,
     at_btf_vmlinux_value_type_id = mc_btf_vmlinux_value_type_id a, at_btf_id = mc_map_type a,
     at_btf_key_type_id = mc_btf_key_type_id a, at_btf_value_type_id = mc_btf_value_type_id a,
     at_map_extra = mc_map_extra a, at_kernel_bpf_map_id = 0\<rparr>"

text \<open>\<^verbatim>\<open>memcpy\<close> from the pointer a lookup returned.\<close>

definition obj_bytes :: "map_impl \<Rightarrow> ptr \<Rightarrow> nat \<Rightarrow> bytes option" where
  "obj_bytes im p n = (case p of
     PData o' \<Rightarrow> (case im of
         IHash m \<Rightarrow> rd (ht_data_buffer (fh_map_impl m)) o' n
       | IArray m \<Rightarrow> rd (am_data m) o' n
       | IPercpuArray m \<Rightarrow> rd (pa_data m) o' n
       | _ \<Rightarrow> None)
   | PVal k o' \<Rightarrow> (case im of
         IPercpuHash m \<Rightarrow> Option.bind (um_find (ph_impl m) k) (\<lambda>b. rd b o' n)
       | ILru m \<Rightarrow> Option.bind (um_find (lm_impl m) k) (\<lambda>(b, e). rd b o' n)
       | _ \<Rightarrow> None)
   | PSlot i \<Rightarrow> (case im of IPerfArray d \<Rightarrow> rd (concat (map st32 d)) (4 * i) n | _ \<Rightarrow> None)
   | _ \<Rightarrow> None)"

definition ptr_bytes :: "'w map_env \<Rightarrow> 'w shm \<Rightarrow> int \<Rightarrow> ptr \<Rightarrow> nat \<Rightarrow> bytes res" where
  "ptr_bytes env s fd p n = (case p of
     PMem b \<Rightarrow> or_fault (rd b 0 n)
   | PTls x \<Rightarrow> or_fault (rd (st32 x) 0 n)
   | _ \<Rightarrow> (case (shm_handler s fd, sh_manager s) of
       (Some (MapH m), Some mg) \<Rightarrow>
         bindr (impl_at env m (mg_segment mg)) (\<lambda>(a, im). or_fault (obj_bytes im p n))
     | _ \<Rightarrow> Inl Fault))"

definition sysbpf_map_lookup ::
  "('w, 'k) server_env \<Rightarrow> int \<Rightarrow> bytes option \<Rightarrow> ('w, 'k) server \<Rightarrow> bpf_out res \<times> ('w, 'k) server" where
  "sysbpf_map_lookup se fd key v = (case on_shm (bpftime_map_lookup_elem (se_env se) fd key) v of
     (Inl e, v) \<Rightarrow> (Inl (if e = Fault then Fault else Errno ENOENT), v)
   | (Inr p, v) \<Rightarrow>
       (bindr (shm_map_value_size (se_env se) (sv_shm v) fd) (\<lambda>n.
          bindr (ptr_bytes (se_env se) (sv_shm v) fd p (unat n)) (\<lambda>b. Inr (ValueOut b))), v))"

definition BPF_PERF_EVENT :: u32 where "BPF_PERF_EVENT = 41"

text \<open>Two descriptors may be needed: \<open>kfd\<close> for the first, \<open>kfd'\<close> for the second.\<close>

definition sysbpf_link_create ::
  "('w, 'k) server_env \<Rightarrow> (nat \<Rightarrow> int) \<Rightarrow> (nat \<Rightarrow> int) \<Rightarrow> link_args \<Rightarrow> ('w, 'k) server \<Rightarrow> int res \<times> ('w, 'k) server" where
  "sysbpf_link_create se kfd kfd' a v =
     (let (r, v) = on_shm (bpftime_link_create (se_env se) kfd (- 1) (Some a)) v;
          prog_fd = sint (la_prog_fd a);
          target_fd = sint (la_target_fd a)
      in if (case r of Inl e \<Rightarrow> stops e | Inr n \<Rightarrow> False) then (r, v)
         else if is_prog_fd (sv_shm v) prog_fd \<and> is_perf_event_handler_fd (sv_shm v) target_fd \<and> la_attach_type a = BPF_PERF_EVENT
         then ignoring (on_shm (bpftime_attach_perf_to_bpf_with_cookie (se_env se) kfd' target_fd prog_fd (la_bpf_cookie a)) v)
           (\<lambda>v. (r, v))
         else (r, v))"

text \<open>\<^verbatim>\<open>BPF_OBJ_GET_INFO_BY_FD\<close>: \<^verbatim>\<open>strncpy\<close> copies at most 15 characters of the name. A descriptor that is
  neither a map nor a program gives 0 and writes nothing.\<close>

definition info_of_map :: "int \<Rightarrow> bpf_map_attr \<times> string \<times> int \<Rightarrow> map_info" where
  "info_of_map fd mi = (let (a, nm, t) = mi in
     \<lparr>mi_type = word_of_int t, mi_id = word_of_int fd, mi_key_size = at_key_size a, mi_value_size = at_value_size a,
      mi_max_entries = at_max_ents a, mi_map_flags = ucast (at_flags a), mi_name = take 15 nm, mi_ifindex = at_ifindex a,
      mi_btf_vmlinux_value_type_id = at_btf_vmlinux_value_type_id a, mi_btf_id = at_btf_id a,
      mi_btf_key_type_id = at_btf_key_type_id a, mi_btf_value_type_id = at_btf_value_type_id a,
      mi_map_extra = at_map_extra a\<rparr>)"

definition sysbpf_obj_info :: "'w shm \<Rightarrow> int \<Rightarrow> bpf_out res" where
  "sysbpf_obj_info s fd =
     (if is_map_fd s fd then (case bpftime_map_get_info s fd of
          Inr mi \<Rightarrow> Inr (MapInfoOut (info_of_map fd mi)) | Inl e \<Rightarrow> Inl Silent)
      else if is_prog_fd s fd then Inr (ProgInfoOut fd)
      else Inr (Ret 0))"

definition sysbpf_user ::
  "('w, 'k) server_env \<Rightarrow> (nat \<Rightarrow> int) \<Rightarrow> (nat \<Rightarrow> int) \<Rightarrow> bpf_req \<Rightarrow> ('w, 'k) server \<Rightarrow> bpf_out res \<times> ('w, 'k) server" where
  "sysbpf_user se kfd kfd' req v = (case req of
     MapCreate a \<Rightarrow> mapped Ret (on_shm (bpftime_maps_create (se_env se) kfd (- 1) (mc_map_name a) (user_map_attr a)) v)
   | MapLookup fd key \<Rightarrow> sysbpf_map_lookup se fd key v
   | MapUpdate fd key val flags \<Rightarrow> mapped Ret (on_shm (bpftime_map_update_elem (se_env se) fd key val flags) v)
   | MapDelete fd key \<Rightarrow> mapped Ret (on_shm (bpftime_map_delete_elem (se_env se) fd key) v)
   | MapNextKey fd key \<Rightarrow> mapped KeyOut (on_shm (bpftime_map_get_next_key (se_env se) fd key) v)
   | ProgLoad a \<Rightarrow> mapped Ret (on_shm (bpftime_progs_create (se_env se) kfd (- 1) (pl_insns a) (pl_prog_name a)
       (sint (pl_prog_type a))) v)
   | LinkCreate a \<Rightarrow> mapped Ret (sysbpf_link_create se kfd kfd' a v)
   | MapFreeze fd \<Rightarrow> (Inr (Ret 0), v)
   | ObjGetInfo fd \<Rightarrow> (sysbpf_obj_info (sv_shm v) fd, v)
   | ProgAttach prog_fd target_fd \<Rightarrow> mapped Ret (on_shm (bpftime_attach_perf_to_bpf (se_env se) kfd target_fd prog_fd) v)
   | OtherCmd c \<Rightarrow> mapped Ret (orig_res se (OrigBpf req) v))"

definition handle_sysbpf ::
  "('w, 'k) server_env \<Rightarrow> (nat \<Rightarrow> int) \<Rightarrow> (nat \<Rightarrow> int) \<Rightarrow> bpf_req \<Rightarrow> ('w, 'k) server \<Rightarrow> bpf_out res \<times> ('w, 'k) server" where
  "handle_sysbpf se kfd kfd' req v =
     (if \<not> sv_enable_mock v then mapped Ret (orig_res se (OrigBpf req) v)
      else let v = try_startup se v in
        if \<not> sv_run_with_kernel v then sysbpf_user se kfd kfd' req v
        else (case req of
            MapCreate a \<Rightarrow> (let (fd, v) = orig se (OrigBpf req) v in mapped Ret (create_kernel_bpf_map se kfd fd v))
          | ProgLoad a \<Rightarrow> mapped Ret (create_kernel_bpf_prog_in_userspace se kfd a v)
          | LinkCreate a \<Rightarrow> if is_perf_event_handler_fd (sv_shm v) (sint (la_target_fd a))
              then sysbpf_user se kfd kfd' req v else mapped Ret (orig_res se (OrigBpf req) v)
          | ProgAttach prog_fd target_fd \<Rightarrow> if is_perf_event_handler_fd (sv_shm v) target_fd
              then sysbpf_user se kfd kfd' req v else mapped Ret (orig_res se (OrigBpf req) v)
          | _ \<Rightarrow> mapped Ret (orig_res se (OrigBpf req) v)))"

section \<open>Perf events\<close>

definition PERF_UPROBE_REF_CTR_OFFSET_SHIFT :: nat where "PERF_UPROBE_REF_CTR_OFFSET_SHIFT = 32"

text \<open>\<^verbatim>\<open>attr->config & (1 << bit)\<close>: the shift is one of \<^verbatim>\<open>int\<close>, and undefined for a count outside its width.\<close>

definition config_bit :: "u64 \<Rightarrow> int \<Rightarrow> bool res" where
  "config_bit config b =
     (if b < 0 \<or> 32 \<le> b then Inl Fault else Inr (config AND scast (push_bit (nat b) 1 :: u32) \<noteq> 0))"

definition ref_ctr_off_of :: "u64 \<Rightarrow> nat" where
  "ref_ctr_off_of config = unat (drop_bit PERF_UPROBE_REF_CTR_OFFSET_SHIFT config)"

definition open_uprobe ::
  "('w, 'k) server_env \<Rightarrow> (nat \<Rightarrow> int) \<Rightarrow> perf_attr \<Rightarrow> int \<Rightarrow> ('w, 'k) server \<Rightarrow> int res \<times> ('w, 'k) server" where
  "open_uprobe se kfd attr pid v =
     (let (b, v) = determine_uprobe_retprobe_bit se v in
      case config_bit (pe_config attr) b of Inl e \<Rightarrow> (Inl e, v)
      | Inr retprobe \<Rightarrow> on_shm (bpftime_uprobe_create (se_env se) kfd (- 1) pid (pe_config1 attr) (pe_config2 attr)
          retprobe (ref_ctr_off_of (pe_config attr))) v)"

definition open_kprobe ::
  "('w, 'k) server_env \<Rightarrow> (nat \<Rightarrow> int) \<Rightarrow> perf_attr \<Rightarrow> ('w, 'k) server \<Rightarrow> int res \<times> ('w, 'k) server" where
  "open_kprobe se kfd attr v =
     (let (b, v) = determine_kprobe_retprobe_bit se v in
      case config_bit (pe_config attr) b of Inl e \<Rightarrow> (Inl e, v)
      | Inr is_ret_probe \<Rightarrow> on_shm (bpftime_kprobe_create (se_env se) kfd (- 1) (pe_config1 attr) (pe_config2 attr)
          is_ret_probe (ref_ctr_off_of (pe_config attr))) v)"

text \<open>The types that do not depend on the machine. \<^verbatim>\<open>sample_type\<close> is cut to 32 bits.\<close>

definition open_fixed_type ::
  "('w, 'k) server_env \<Rightarrow> (nat \<Rightarrow> int) \<Rightarrow> perf_attr \<Rightarrow> int \<Rightarrow> int \<Rightarrow> int \<Rightarrow> u64 \<Rightarrow> ('w, 'k) server \<Rightarrow> int res \<times> ('w, 'k) server" where
  "open_fixed_type se kfd attr pid cpu group_fd flags v =
     (let t = sint (pe_type attr); env = se_env se in
      if t = PERF_TYPE_TRACEPOINT then on_shm (add_tracepoint env kfd (- 1) pid (sint (ucast (pe_config attr) :: u32))) v
      else if t = PERF_TYPE_SOFTWARE
        then on_shm (add_software_perf_event env kfd (word_of_int cpu) (ucast (pe_sample_type attr)) (pe_config attr)) v
      else if t = BPF_TYPE_UREPLACE
        then on_shm (bpftime_add_ureplace_or_override env kfd (- 1) pid (pe_config1 attr) (pe_config2 attr) True) v
      else if t = BPF_TYPE_UPROBE_OVERRIDE
        then on_shm (bpftime_add_ureplace_or_override env kfd (- 1) pid (pe_config1 attr) (pe_config2 attr) False) v
      else orig_res se (OrigPerf attr pid cpu group_fd flags) v)"

definition handle_perfevent ::
  "('w, 'k) server_env \<Rightarrow> (nat \<Rightarrow> int) \<Rightarrow> perf_attr \<Rightarrow> int \<Rightarrow> int \<Rightarrow> int \<Rightarrow> u64 \<Rightarrow> ('w, 'k) server \<Rightarrow> int res \<times> ('w, 'k) server" where
  "handle_perfevent se kfd attr pid cpu group_fd flags v =
     (if \<not> sv_enable_mock v then orig_res se (OrigPerf attr pid cpu group_fd flags) v
      else let v = try_startup se v;
               (ut, v) = determine_uprobe_perf_type se v
           in if sint (pe_type attr) = ut then open_uprobe se kfd attr pid v
              else let (kt, v) = determine_kprobe_perf_type se v
                   in if sint (pe_type attr) = kt then open_kprobe se kfd attr v
                      else open_fixed_type se kfd attr pid cpu group_fd flags v)"

section \<open>Mappings\<close>

definition PROT_READ :: int where "PROT_READ = 1"
definition PROT_WRITE :: int where "PROT_WRITE = 2"
definition MAP_ANONYMOUS :: int where "MAP_ANONYMOUS = 32"

text \<open>The address the runtime has for a descriptor, if any: \<open>None\<close> is a null pointer. A vector without
  elements has no storage.\<close>

definition mock_address :: "int \<Rightarrow> nat \<Rightarrow> int \<Rightarrow> 'w shm \<Rightarrow> maddr option res \<times> 'w shm" where
  "mock_address prot len fd s =
     (if fd \<noteq> - 1 \<and> is_ringbuf_map_fd s fd then
        (if prot = PROT_WRITE OR PROT_READ \<or> prot = PROT_READ then
           (case shm_try_get_ringbuf_map_impl s fd of
              None \<Rightarrow> (Inr None, s)
            | Some p \<Rightarrow> on_ringbuf p (\<lambda>rb. (Inr (map_option
                (if prot = PROT_WRITE OR PROT_READ then ConsumerPage else ProducerPage) p), rb)) s)
         else (Inr None, s))
      else if fd \<noteq> - 1 \<and> is_array_map_fd s fd then
        (case bpftime_get_array_map_raw_data s fd of
           Inl e \<Rightarrow> (if stops e then Inl e else Inr None, s)
         | Inr p \<Rightarrow> (case (shm_try_get_array_map_impl s fd, sh_manager s) of
               (Some (Some a), Some mg) \<Rightarrow>
                 (Inr (case sg_objs (mg_segment mg) a of
                    Some (IArray m) \<Rightarrow> if am_data m = [] then None else Some (ArrayData a) | _ \<Rightarrow> None), s)
             | _ \<Rightarrow> (Inr None, s)))
      else if fd \<noteq> - 1 \<and> is_software_perf_event_handler_fd s fd then
        (case bpftime_get_software_perf_event_raw_buffer fd len s of
           (Inl e, s) \<Rightarrow> (if stops e then Inl e else Inr None, s)
         | (Inr p, s) \<Rightarrow> (Inr (map_option PerfBuffer p), s))
      else (Inr None, s))"

text \<open>The original function is called twice when the descriptor is not one of the runtime: the first
  mapping, anonymous, is never used.\<close>

definition handle_mmap64 ::
  "('w, 'k) server_env \<Rightarrow> maddr \<Rightarrow> nat \<Rightarrow> int \<Rightarrow> int \<Rightarrow> int \<Rightarrow> int \<Rightarrow> ('w, 'k) server \<Rightarrow> maddr res \<times> ('w, 'k) server" where
  "handle_mmap64 se addr len prot flags fd offset v =
     (if \<not> sv_enable_mock v \<or> sv_run_with_kernel v
      then mapped (\<lambda>r. Addr (word_of_int r)) (orig_res se (OrigMmap addr len prot flags fd offset) v)
      else let v = try_startup se v in
        (case on_shm (mock_address prot len fd) v of
           (Inl e, v) \<Rightarrow> (Inl e, v)
         | (Inr (Some p), v) \<Rightarrow> (Inr p, v\<lparr>sv_mmaps := insert p (sv_mmaps v)\<rparr>)
         | (Inr None, v) \<Rightarrow>
             (let (p, v) = orig se (OrigMmap addr len (prot OR PROT_WRITE) (flags OR MAP_ANONYMOUS) (- 1) 0) v
              in mapped (\<lambda>r. Addr (word_of_int r)) (orig_res se (OrigMmap addr len prot flags fd offset) v))))"

definition handle_mmap ::
  "('w, 'k) server_env \<Rightarrow> maddr \<Rightarrow> nat \<Rightarrow> int \<Rightarrow> int \<Rightarrow> int \<Rightarrow> int \<Rightarrow> ('w, 'k) server \<Rightarrow> maddr res \<times> ('w, 'k) server" where
  "handle_mmap se addr len prot flags fd offset v =
     (if \<not> sv_enable_mock v \<or> sv_run_with_kernel v
      then mapped (\<lambda>r. Addr (word_of_int r)) (orig_res se (OrigMmap addr len prot flags fd offset) v)
      else handle_mmap64 se addr len prot flags fd offset (try_startup se v))"

text \<open>The first branch has no \<^verbatim>\<open>return\<close>.\<close>

definition handle_munmap :: "('w, 'k) server_env \<Rightarrow> maddr \<Rightarrow> nat \<Rightarrow> ('w, 'k) server \<Rightarrow> int \<times> ('w, 'k) server" where
  "handle_munmap se addr len v =
     (let v = (if \<not> sv_enable_mock v \<or> sv_run_with_kernel v then snd (orig se (OrigMunmap addr len) v) else v);
          v = try_startup se v
      in if addr \<in> sv_mmaps v then (0, v\<lparr>sv_mmaps := sv_mmaps v - {addr}\<rparr>)
         else orig se (OrigMunmap addr len) v)"

section \<open>ioctl, epoll and dup3\<close>

definition PERF_EVENT_IOC_ENABLE :: u64 where "PERF_EVENT_IOC_ENABLE = 0x2400"
definition PERF_EVENT_IOC_DISABLE :: u64 where "PERF_EVENT_IOC_DISABLE = 0x2401"
definition PERF_EVENT_IOC_SET_BPF :: u64 where "PERF_EVENT_IOC_SET_BPF = 0x40042408"

definition handle_ioctl ::
  "('w, 'k) server_env \<Rightarrow> (nat \<Rightarrow> int) \<Rightarrow> int \<Rightarrow> u64 \<Rightarrow> int \<Rightarrow> ('w, 'k) server \<Rightarrow> int res \<times> ('w, 'k) server" where
  "handle_ioctl se kfd fd req data v =
     (let call_orig = orig_res se (OrigIoctl fd req data) in
      if \<not> sv_enable_mock v then call_orig v
      else let v = try_startup se v;
               pass = sv_run_with_kernel v \<and> \<not> is_perf_event_handler_fd (sv_shm v) fd
           in if req = PERF_EVENT_IOC_ENABLE then
                (if pass then call_orig v else or_else (mapped (\<lambda>u. 0) (on_shm (perf_event_enable fd) v)) call_orig)
              else if req = PERF_EVENT_IOC_DISABLE then
                (if pass then call_orig v else or_else (mapped (\<lambda>u. 0) (on_shm (perf_event_disable fd) v)) call_orig)
              else if req = PERF_EVENT_IOC_SET_BPF then
                (if pass then call_orig v else or_else (on_shm (bpftime_attach_perf_to_bpf (se_env se) kfd fd data) v) call_orig)
              else call_orig v)"

definition handle_epoll_create1 ::
  "('w, 'k) server_env \<Rightarrow> (nat \<Rightarrow> int) \<Rightarrow> int \<Rightarrow> ('w, 'k) server \<Rightarrow> int res \<times> ('w, 'k) server" where
  "handle_epoll_create1 se kfd flags v =
     (if \<not> sv_enable_mock v \<or> sv_run_with_kernel v then orig_res se (OrigEpollCreate1 flags) v
      else on_shm (epoll_create (se_env se) kfd) (try_startup se v))"

definition EPOLL_CTL_ADD :: int where "EPOLL_CTL_ADD = 1"

text \<open>\<open>evt\<close> is \<^verbatim>\<open>evt->data\<close>, \<open>None\<close> for a null pointer.\<close>

definition handle_epoll_ctl ::
  "('w, 'k) server_env \<Rightarrow> int \<Rightarrow> int \<Rightarrow> int \<Rightarrow> u64 option \<Rightarrow> ('w, 'k) server \<Rightarrow> int res \<times> ('w, 'k) server" where
  "handle_epoll_ctl se epfd op fd evt v =
     (let call_orig = orig_res se (OrigEpollCtl epfd op fd evt) in
      if \<not> sv_enable_mock v \<or> sv_run_with_kernel v then call_orig v
      else let v = try_startup se v in
        if op = EPOLL_CTL_ADD \<and> is_ringbuf_map_fd (sv_shm v) fd then
          (case evt of None \<Rightarrow> (Inl Fault, v)
           | Some d \<Rightarrow> or_else (mapped (\<lambda>u. 0) (on_shm (add_ringbuf_to_epoll fd epfd d) v)) call_orig)
        else if op = EPOLL_CTL_ADD \<and> is_software_perf_event_handler_fd (sv_shm v) fd then
          (case evt of None \<Rightarrow> (Inl Fault, v)
           | Some d \<Rightarrow> or_else (mapped (\<lambda>u. 0) (on_shm (add_software_perf_event_to_epoll fd epfd d) v)) call_orig)
        else call_orig v)"

text \<open>The first branch has no \<^verbatim>\<open>return\<close> here either. \<open>wait\<close> is \<^verbatim>\<open>bpftime_epoll_wait\<close> with the clock, signals and
  segments it will see.\<close>

datatype wait_out = MockWait epoll_result | OrigWait int

definition handle_epoll_wait ::
  "('w, 'k) server_env \<Rightarrow> (int \<Rightarrow> nat \<Rightarrow> int \<Rightarrow> 'w shm \<Rightarrow> epoll_result res) \<Rightarrow> int \<Rightarrow> int \<Rightarrow> int \<Rightarrow> ('w, 'k) server \<Rightarrow>
     wait_out res \<times> ('w, 'k) server" where
  "handle_epoll_wait se wait epfd maxevents timeout v =
     (let v = (if \<not> sv_enable_mock v \<or> sv_run_with_kernel v then snd (orig se (OrigEpollWait epfd maxevents timeout) v) else v);
          v = try_startup se v
      in if is_epoll_fd (sv_shm v) epfd
         then (bindr (wait epfd (nat maxevents) timeout (sv_shm v)) (\<lambda>r. Inr (MockWait r)), v)
         else mapped OrigWait (orig_res se (OrigEpollWait epfd maxevents timeout) v))"

definition handle_dup3 ::
  "('w, 'k) server_env \<Rightarrow> (nat \<Rightarrow> int) \<Rightarrow> int \<Rightarrow> int \<Rightarrow> int \<Rightarrow> ('w, 'k) server \<Rightarrow> int res \<times> ('w, 'k) server" where
  "handle_dup3 se kfd oldfd newfd flags v =
     (if \<not> sv_enable_mock v \<or> sv_run_with_kernel v then orig_res se (OrigDup3 oldfd newfd flags) v
      else let v = try_startup se v in
        if is_map_fd (sv_shm v) oldfd then on_shm (bpftime_maps_dup (se_env se) kfd oldfd newfd) v
        else orig_res se (OrigDup3 oldfd newfd flags) v)"

section \<open>Entry points\<close>

text \<open>\<^verbatim>\<open>handle_exceptions\<close>: an exception ends the process, by \<^verbatim>\<open>exit(1)\<close> or because the function is \<^verbatim>\<open>noexcept\<close>;
  \<open>None\<close> is the end of the process.\<close>

definition handle_exceptions :: "'a res \<times> 's \<Rightarrow> ('a res \<times> 's) option" where
  "handle_exceptions out = (if fst out = Inl Throw then None else Some out)"

datatype sys_req =
    SysBpf bpf_req
  | SysPerfEventOpen perf_attr int int int u64
  | SysDup3 int int int
  | SysOther int "int list"

definition syscall_entry ::
  "('w, 'k) server_env \<Rightarrow> (nat \<Rightarrow> int) \<Rightarrow> (nat \<Rightarrow> int) \<Rightarrow> sys_req \<Rightarrow> ('w, 'k) server \<Rightarrow>
     (bpf_out res \<times> ('w, 'k) server) option" where
  "syscall_entry se kfd kfd' req v = (case req of
     SysBpf r \<Rightarrow> handle_exceptions (handle_sysbpf se kfd kfd' r v)
   | SysPerfEventOpen attr pid cpu group_fd flags \<Rightarrow>
       handle_exceptions (mapped Ret (handle_perfevent se kfd attr pid cpu group_fd flags v))
   | SysDup3 oldfd newfd flags \<Rightarrow> handle_exceptions (mapped Ret (handle_dup3 se kfd oldfd newfd flags v))
   | SysOther nr args \<Rightarrow> Some (mapped Ret (orig_res se (OrigSyscall nr args) v)))"

section \<open>Starting once\<close>

lemma try_startup_simps [simp]:
  "sv_enable_mock (try_startup se v)" "sv_already_setup (try_startup se v)"
  "sv_run_with_kernel (try_startup se v) = sv_run_with_kernel v" "sv_pattern (try_startup se v) = sv_pattern v"
  "sv_files (try_startup se v) = sv_files v" "sv_mmaps (try_startup se v) = sv_mmaps v"
  "sv_kernel (try_startup se v) = sv_kernel v"
  by (simp_all add: try_startup_def start_up_def Let_def split: sum.split)

definition running :: "('w, 'k) server \<Rightarrow> bool" where
  "running v \<longleftrightarrow> sv_enable_mock v \<and> sv_already_setup v"

lemma running_startup [simp]: "running (try_startup se v)"
  by (simp add: running_def)

lemma startup_running [simp]: "running v \<Longrightarrow> try_startup se v = v"
  by (simp add: running_def try_startup_def start_up_def)

lemma running_updates [simp]:
  "running (v\<lparr>sv_shm := s\<rparr>) = running v" "running (v\<lparr>sv_files := f\<rparr>) = running v"
  "running (v\<lparr>sv_mmaps := m\<rparr>) = running v" "running (v\<lparr>sv_kernel := k\<rparr>) = running v"
  by (simp_all add: running_def)

lemma startup_again: "sv_already_setup v \<Longrightarrow> try_startup se v = v\<lparr>sv_enable_mock := True\<rparr>"
  by (simp add: try_startup_def start_up_def)

lemma running_mock: "running v \<Longrightarrow> sv_enable_mock v"
  by (simp add: running_def)

lemma startup_first:
  "\<not> sv_already_setup v \<Longrightarrow> sh_manager (sv_shm (try_startup se v)) = Some (fresh_manager (se_world se))"
  by (simp add: try_startup_def start_up_def bpftime_shm_new_def set_agent_config_def shm_view_def Let_def)

lemma sysbpf_startup:
  assumes "sv_enable_mock v" "\<not> sv_run_with_kernel v"
  shows "handle_sysbpf se kfd kfd' req v = sysbpf_user se kfd kfd' req (try_startup se v)"
  using assms by (simp add: handle_sysbpf_def)

section \<open>A session on an array map\<close>

definition array_at :: "('w, 'k) server \<Rightarrow> int \<Rightarrow> array_map \<Rightarrow> bool" where
  "array_at v fd am \<longleftrightarrow> running v \<and> \<not> sv_run_with_kernel v \<and> am_inv am \<and>
     (\<exists>mg m a. sh_manager (sv_shm v) = Some mg \<and> shm_handler (sv_shm v) fd = Some (MapH m) \<and>
        mh_type m = BPF_MAP_TYPE_ARRAY \<and> mh_value_size m = am_value_size am \<and> mh_impl m = Some a \<and>
        sg_objs (mg_segment mg) a = Some (IArray am))"

lemma array_kind: "kind_of l BPF_MAP_TYPE_ARRAY = KArray"
  by (simp add: kind_of_def map_type_defs)

lemma array_size: "mh_type m = BPF_MAP_TYPE_ARRAY \<Longrightarrow> get_value_size env m = mh_value_size m"
  by (simp add: get_value_size_def map_type_defs)

lemma am_lookup_value:
  assumes "am_inv am"
  shows "am_elem_lookup am (st32 i) =
    (if i < am_max_entries am then Inr (PData (unat i * unat (am_value_size am))) else Inl (Errno ENOENT))"
  using am_elem_at_inv [OF assms, of i] by (auto simp: am_elem_lookup_def)

lemma array_atE:
  assumes "array_at v fd am"
  obtains mg m a where "sh_manager (sv_shm v) = Some mg" "shm_handler (sv_shm v) fd = Some (MapH m)"
    "mh_type m = BPF_MAP_TYPE_ARRAY" "mh_value_size m = am_value_size am" "mh_impl m = Some a"
    "sg_objs (mg_segment mg) a = Some (IArray am)" "impl_at env m (mg_segment mg) = Inr (a, IArray am)"
    "running v" "\<not> sv_run_with_kernel v" "am_inv am"
  using assms by (auto simp: array_at_def impl_at_def array_kind)

lemma same_manager: "sh_manager s = Some mg \<Longrightarrow> s\<lparr>sh_manager := Some mg\<rparr> = s"
  by (metis shm.surjective shm.update_convs(2) shm.select_convs(2))

lemma array_session_lookup:
  assumes "array_at v fd am"
  shows "handle_sysbpf se kfd kfd' (MapLookup fd (Some (st32 i))) v =
    (case am_value am i of Some b \<Rightarrow> Inr (ValueOut b) | None \<Rightarrow> Inl (Errno ENOENT), v)"
proof -
  obtain mg m a where o: "sh_manager (sv_shm v) = Some mg" "shm_handler (sv_shm v) fd = Some (MapH m)"
    "mh_type m = BPF_MAP_TYPE_ARRAY" "mh_value_size m = am_value_size am" "mh_impl m = Some a"
    "sg_objs (mg_segment mg) a = Some (IArray am)" and at: "impl_at (se_env se) m (mg_segment mg) = Inr (a, IArray am)"
    and r: "running v" "\<not> sv_run_with_kernel v" "am_inv am"
    using array_atE [OF assms, of "se_env se"] by blast
  have lk: "on_shm (bpftime_map_lookup_elem (se_env se) fd (Some (st32 i))) v = (am_elem_lookup am (st32 i), v)"
    using o at same_manager [OF o(1)] am_lookup_value [OF r(3), of i]
    by (simp add: on_shm_def bpftime_map_lookup_elem_def catching_def shm_map_lookup_elem_def on_segment_def
        map_lookup_elem_def array_kind impl_lookup_def pure_call_def)
  show ?thesis
  proof (cases "i < am_max_entries am")
    case True
    from am_value_inv [OF r(3) True] am_lookup_value [OF r(3), of i] True
    have "rd (am_data am) (unat i * unat (am_value_size am)) (unat (am_value_size am)) =
        Some (seg (unat i * unat (am_value_size am)) (unat (am_value_size am)) (am_data am))"
      by (simp add: am_value_def am_load_def)
    then show ?thesis using lk r o at True am_value_inv [OF r(3) True] am_lookup_value [OF r(3), of i]
      by (simp add: handle_sysbpf_def running_mock sysbpf_user_def sysbpf_map_lookup_def shm_map_value_size_def
          array_size ptr_bytes_def obj_bytes_def)
  next
    case False
    then show ?thesis using lk r am_lookup_value [OF r(3), of i]
      by (simp add: handle_sysbpf_def running_mock sysbpf_user_def sysbpf_map_lookup_def am_value_def)
  qed
qed

lemma am_update_out:
  "am_max_entries am \<le> i \<Longrightarrow> am_elem_update am (st32 i) val BPF_ANY = Inl (Errno E2BIG)"
  by (simp add: am_elem_update_def check_update_flags_def flag_defs)

lemma array_session_update:
  assumes "array_at v fd am" "length val = unat (am_value_size am)"
  shows "\<exists>v' am'. handle_sysbpf se kfd kfd' (MapUpdate fd (Some (st32 i)) val BPF_ANY) v =
      (if i < am_max_entries am then Inr (Ret 0) else Inl (Errno E2BIG), v') \<and>
    array_at v' fd am' \<and> am_value_size am' = am_value_size am \<and> am_max_entries am' = am_max_entries am \<and>
    am_value am' = (if i < am_max_entries am then (am_value am)(i \<mapsto> val) else am_value am)"
proof -
  obtain mg m a where o: "sh_manager (sv_shm v) = Some mg" "shm_handler (sv_shm v) fd = Some (MapH m)"
    "mh_type m = BPF_MAP_TYPE_ARRAY" "mh_value_size m = am_value_size am" "mh_impl m = Some a"
    "sg_objs (mg_segment mg) a = Some (IArray am)" and at: "impl_at (se_env se) m (mg_segment mg) = Inr (a, IArray am)"
    and r: "running v" "\<not> sv_run_with_kernel v" "am_inv am"
    using array_atE [OF assms(1), of "se_env se"] by blast
  have upd: "handle_sysbpf se kfd kfd' (MapUpdate fd (Some (st32 i)) val BPF_ANY) v =
      mapped Ret (on_shm (on_segment (\<lambda>sg. store_call a IArray (am_elem_update am (st32 i) val BPF_ANY) sg)) v)"
    if "am_elem_update am (st32 i) val BPF_ANY \<noteq> Inl Throw"
    using that o at r
    by (auto simp: handle_sysbpf_def running_mock sysbpf_user_def bpftime_map_update_elem_def catching_def
        shm_map_update_elem_def on_shm_def on_segment_def map_update_elem_def array_kind impl_update_def store_call_def
        split: prod.splits sum.splits err.splits)
  show ?thesis
  proof (cases "i < am_max_entries am")
    case True
    from am_update_value [OF r(3) _ True assms(2), of BPF_ANY] obtain am' where
      u: "am_elem_update am (st32 i) val BPF_ANY = Inr am'" "am_inv am'" "am_value am' = (am_value am)(i \<mapsto> val)"
      by auto
    have sz: "am_value_size am' = am_value_size am" "am_max_entries am' = am_max_entries am"
      using am_update_inv [OF r(3) _ True assms(2), of BPF_ANY] u(1) by auto
    let ?mg = "mg\<lparr>mg_segment := set_obj a (IArray am') (mg_segment mg)\<rparr>"
    let ?v = "v\<lparr>sv_shm := (sv_shm v)\<lparr>sh_manager := Some ?mg\<rparr>\<rparr>"
    have "array_at ?v fd am'" using o r u(2) sz by (auto simp: array_at_def shm_handler_def set_obj_def)
    moreover have "handle_sysbpf se kfd kfd' (MapUpdate fd (Some (st32 i)) val BPF_ANY) v = (Inr (Ret 0), ?v)"
      using upd u(1) o by (simp add: mapped_def on_shm_def on_segment_def store_call_def)
    ultimately show ?thesis using True u(3) sz by auto
  next
    case False
    then have "am_elem_update am (st32 i) val BPF_ANY = Inl (Errno E2BIG)" by (simp add: am_update_out)
    then have "handle_sysbpf se kfd kfd' (MapUpdate fd (Some (st32 i)) val BPF_ANY) v = (Inl (Errno E2BIG), v)"
      using upd o same_manager [OF o(1)] by (simp add: mapped_def on_shm_def on_segment_def store_call_def)
    with False assms(1) show ?thesis by auto
  qed
qed

lemma array_created:
  assumes "sh_manager s = Some mg" "in_range mg fd" "\<not> is_allocated mg fd" "at_type attr = BPF_MAP_TYPE_ARRAY"
    and "sg_names (mg_segment mg) (get_container_name (map_handler_new fd nm attr)) = None" "open_fake_fd kfd = fd"
  shows "\<exists>mg' m a. bpftime_maps_create env kfd (- 1) nm attr s = (Inr fd, s\<lparr>sh_manager := Some mg'\<rparr>) \<and>
    shm_handler (s\<lparr>sh_manager := Some mg'\<rparr>) fd = Some (MapH m) \<and> mh_type m = BPF_MAP_TYPE_ARRAY \<and>
    mh_value_size m = at_value_size attr \<and> mh_impl m = Some a \<and>
    sg_objs (mg_segment mg') a = Some (IArray (array_map_new (at_value_size attr) (at_max_ents attr)))"
proof -
  let ?m = "map_handler_new fd nm attr" and ?sg = "mg_segment mg"
  let ?sg' = "?sg\<lparr>sg_objs := (sg_objs ?sg)(sg_fresh ?sg \<mapsto> IArray (array_map_new (at_value_size attr) (at_max_ents attr))),
     sg_names := (sg_names ?sg)(get_container_name ?m \<mapsto> sg_fresh ?sg), sg_fresh := sg_fresh ?sg + 1\<rparr>"
  have slot: "0 \<le> fd" "nat fd < length (mg_handlers mg)" using assms by (auto simp: in_range_def)
  have "kind_of (me_libbpf env) (mh_type ?m) = KArray" using assms by (simp add: array_kind map_handler_new_def)
  then have init: "map_init env ?m ?sg = (Inr 0, ?m\<lparr>mh_impl := Some (sg_fresh ?sg)\<rparr>, ?sg')"
    using assms(5) by (simp add: map_init_def construct_def new_impl_def pure_call_def map_handler_new_def)
  let ?mg = "put_handler (nat fd) (MapH (?m\<lparr>mh_impl := Some (sg_fresh ?sg)\<rparr>)) (mg\<lparr>mg_segment := ?sg'\<rparr>)"
  have "set_handler env fd (MapH ?m) mg = (Inr fd, ?mg)" using assms(2,3) init by (simp add: set_handler_def)
  then have "bpftime_maps_create env kfd (- 1) nm attr s = (Inr fd, s\<lparr>sh_manager := Some ?mg\<rparr>)"
    using assms(1,6) by (simp add: bpftime_maps_create_def add_bpf_map_def fd_or_fake_def with_manager_def)
  moreover have "shm_handler (s\<lparr>sh_manager := Some ?mg\<rparr>) fd = Some (MapH (?m\<lparr>mh_impl := Some (sg_fresh ?sg)\<rparr>))"
    using slot by (simp add: shm_handler_def put_handler_def)
  moreover have "mh_type ?m = BPF_MAP_TYPE_ARRAY" "mh_value_size ?m = at_value_size attr"
    using assms(4) by (simp_all add: map_handler_new_def)
  moreover have "sg_objs (mg_segment ?mg) (sg_fresh ?sg) = Some (IArray (array_map_new (at_value_size attr) (at_max_ents attr)))"
    by (simp add: put_handler_def)
  ultimately show ?thesis by (intro exI [of _ ?mg] exI [of _ "?m\<lparr>mh_impl := Some (sg_fresh ?sg)\<rparr>"] exI [of _ "sg_fresh ?sg"]) simp
qed

lemma array_new_value:
  assumes "0 < vs" "unat vs * unat n < 2 ^ 32" "i < n"
  shows "am_value (array_map_new vs n) i = Some (replicate (unat vs) 0)"
proof -
  have "unat i < unat n" using assms(3) by (simp add: word_less_nat_alt)
  from slot_mult_bound [OF this, of "unat vs"] have "unat i * unat vs + unat vs \<le> unat vs * unat n" by (simp add: mult.commute)
  moreover have "unat (vs * n) = unat vs * unat n" using assms(2) by (rule unat_mult_nowrap)
  moreover have "am_inv (array_map_new vs n)" using assms(1,2) by (rule am_inv_new)
  ultimately show ?thesis using am_value_inv [of "array_map_new vs n" i] assms(3)
    by (simp add: array_map_new_def seg_def take_replicate drop_replicate)
qed

fun update_all ::
  "('w, 'k) server_env \<Rightarrow> (nat \<Rightarrow> int) \<Rightarrow> int \<Rightarrow> (u32 \<times> bytes) list \<Rightarrow> ('w, 'k) server \<Rightarrow> bpf_out res list \<times> ('w, 'k) server" where
  "update_all se kfd fd [] v = ([], v)"
| "update_all se kfd fd (u # us) v =
     (let (r, v) = handle_sysbpf se kfd kfd (MapUpdate fd (Some (st32 (fst u))) (snd u) BPF_ANY) v;
          (rs, v) = update_all se kfd fd us v
      in (r # rs, v))"

lemma array_session_updates:
  assumes "array_at v fd am" "\<forall>u \<in> set us. length (snd u) = unat (am_value_size am)"
  shows "\<exists>v' am'. update_all se kfd fd us v =
      (map (\<lambda>u. if fst u < am_max_entries am then Inr (Ret 0) else Inl (Errno E2BIG)) us, v') \<and>
    array_at v' fd am' \<and> am_max_entries am' = am_max_entries am \<and>
    (\<forall>i. am_value am' i = (if i < am_max_entries am then (case map_of (rev us) i of Some b \<Rightarrow> Some b | None \<Rightarrow> am_value am i)
       else None))"
  using assms
proof (induction us arbitrary: v am)
  case Nil
  then show ?case using am_value_out by (auto simp: not_less)
next
  case (Cons u us)
  from array_session_update [OF Cons.prems(1), of "snd u" se kfd kfd "fst u"] Cons.prems(2) obtain v1 am1 where
    u: "handle_sysbpf se kfd kfd (MapUpdate fd (Some (st32 (fst u))) (snd u) BPF_ANY) v =
      (if fst u < am_max_entries am then Inr (Ret 0) else Inl (Errno E2BIG), v1)"
    and a1: "array_at v1 fd am1" "am_value_size am1 = am_value_size am" "am_max_entries am1 = am_max_entries am"
      "am_value am1 = (if fst u < am_max_entries am then (am_value am)(fst u \<mapsto> snd u) else am_value am)"
    by auto
  from Cons.IH [OF a1(1)] Cons.prems(2) a1(2,3) obtain v2 am2 where
    us: "update_all se kfd fd us v1 = (map (\<lambda>u. if fst u < am_max_entries am then Inr (Ret 0) else Inl (Errno E2BIG)) us, v2)"
    and a2: "array_at v2 fd am2" "am_max_entries am2 = am_max_entries am"
      "\<forall>i. am_value am2 i = (if i < am_max_entries am then (case map_of (rev us) i of Some b \<Rightarrow> Some b | None \<Rightarrow> am_value am1 i)
         else None)"
    by auto
  have last: "map_of (rev (u # us)) i =
      (case map_of (rev us) i of Some b \<Rightarrow> Some b | None \<Rightarrow> if i = fst u then Some (snd u) else None)" for i
    by (cases u) (auto simp: map_add_def split: option.split)
  have "am_value am2 i = (if i < am_max_entries am
      then (case map_of (rev (u # us)) i of Some b \<Rightarrow> Some b | None \<Rightarrow> am_value am i) else None)" for i
    unfolding last using a2(3) a1(4) by (simp split: option.split)
  then show ?case using u us a2(1,2) by (intro exI [of _ v2] exI [of _ am2]) simp
qed

text \<open>C34. A loader's session on an array map, from the first call: creating the map starts the server and
  gives the descriptor the kernel handed out; after any sequence of updates, each of which succeeds for an
  index below the size and fails with \<^verbatim>\<open>E2BIG\<close> otherwise, a lookup copies out the value of the last update of
  its index, zeroes if there was none, and fails with \<^verbatim>\<open>ENOENT\<close> outside the map.\<close>

theorem array_session:
  assumes mode: "sv_enable_mock v" "\<not> sv_run_with_kernel v" "sh_manager (sv_shm (try_startup se v)) = Some mg"
    and fd: "open_fake_fd kfd = fd" "in_range mg fd" "\<not> is_allocated mg fd"
    and nm: "sg_names (mg_segment mg) (get_container_name (map_handler_new fd (mc_map_name a) (user_map_attr a))) = None"
    and attr: "sint (mc_map_type a) = BPF_MAP_TYPE_ARRAY" "0 < mc_value_size a"
      "unat (mc_value_size a) * unat (mc_max_entries a) < 2 ^ 32"
    and us: "\<forall>u \<in> set us. length (snd u) = unat (mc_value_size a)"
  shows "\<exists>v1 v2. handle_sysbpf se kfd kfd' (MapCreate a) v = (Inr (Ret fd), v1) \<and>
    update_all se kfd fd us v1 = (map (\<lambda>u. if fst u < mc_max_entries a then Inr (Ret 0) else Inl (Errno E2BIG)) us, v2) \<and>
    (\<forall>i. fst (handle_sysbpf se kfd kfd' (MapLookup fd (Some (st32 i))) v2) =
      (if i < mc_max_entries a
       then Inr (ValueOut (case map_of (rev us) i of Some b \<Rightarrow> b | None \<Rightarrow> replicate (unat (mc_value_size a)) 0))
       else Inl (Errno ENOENT)))"
proof -
  let ?am = "array_map_new (mc_value_size a) (mc_max_entries a)"
  have ty: "at_type (user_map_attr a) = BPF_MAP_TYPE_ARRAY" using attr(1) by (simp add: user_map_attr_def)
  from array_created [OF mode(3) fd(2,3) ty nm fd(1), of "se_env se"] obtain mg' m ad where
    c: "bpftime_maps_create (se_env se) kfd (- 1) (mc_map_name a) (user_map_attr a) (sv_shm (try_startup se v)) =
        (Inr fd, sv_shm (try_startup se v)\<lparr>sh_manager := Some mg'\<rparr>)"
    and o: "shm_handler (sv_shm (try_startup se v)\<lparr>sh_manager := Some mg'\<rparr>) fd = Some (MapH m)" "mh_type m = BPF_MAP_TYPE_ARRAY"
      "mh_value_size m = mc_value_size a" "mh_impl m = Some ad" "sg_objs (mg_segment mg') ad = Some (IArray ?am)"
    by (auto simp: user_map_attr_def)
  let ?v1 = "(try_startup se v)\<lparr>sv_shm := sv_shm (try_startup se v)\<lparr>sh_manager := Some mg'\<rparr>\<rparr>"
  have create: "handle_sysbpf se kfd kfd' (MapCreate a) v = (Inr (Ret fd), ?v1)"
    using c by (simp add: sysbpf_startup [OF mode(1,2)] sysbpf_user_def mapped_def on_shm_def)
  have inv: "am_inv ?am" using attr(2,3) by (rule am_inv_new)
  have at: "array_at ?v1 fd ?am" using o mode(2) inv by (auto simp: array_at_def array_map_new_def)
  have "\<forall>u \<in> set us. length (snd u) = unat (am_value_size ?am)" using us by (simp add: array_map_new_def)
  from array_session_updates [OF at this, of se kfd] obtain v2 am' where
    u: "update_all se kfd fd us ?v1 = (map (\<lambda>u. if fst u < mc_max_entries a then Inr (Ret 0) else Inl (Errno E2BIG)) us, v2)"
    and at2: "array_at v2 fd am'"
    and val: "\<forall>i. am_value am' i = (if i < mc_max_entries a then (case map_of (rev us) i of Some b \<Rightarrow> Some b | None \<Rightarrow> am_value ?am i)
         else None)"
    by (auto simp: array_map_new_def)
  have zero: "am_value ?am i = Some (replicate (unat (mc_value_size a)) 0)" if "i < mc_max_entries a" for i
    using array_new_value [OF attr(2,3) that] .
  show ?thesis using create u val zero array_session_lookup [OF at2, of se kfd kfd']
    by (intro exI [of _ ?v1] exI [of _ v2]) (auto split: option.splits)
qed

section \<open>A small kernel\<close>

text \<open>A kernel to evaluate the definitions in: its state is the last descriptor and the contents of files. The
  stream on the last temporary file is its descriptor plus 1000; every other call returns 7.\<close>

type_synonym tiny = "nat \<times> (int \<Rightarrow> string)"

fun tiny_call :: "orig_call \<Rightarrow> tiny \<Rightarrow> int \<times> tiny" where
  "tiny_call Mkstemp (n, c) = (int n + 1, Suc n, c(int n + 1 := []))"
| "tiny_call (OrigFopen path mode) (n, c) = (if path = ''/tmp/bpftime-mock'' then int n + 1000 else 0, n, c)"
| "tiny_call (WriteTo fd s) (n, c) = (int (length s), n, c(fd := c fd @ s))"
| "tiny_call x k = (7, k)"

definition tiny_env :: "(unit, tiny) server_env" where
  "tiny_env = \<lparr>se_env = plain_env, se_world = (), se_getenv = \<lambda>x. None, se_call = tiny_call, se_errno = \<lambda>k. 0,
     se_exists = \<lambda>p k. True, se_fd_dir = \<lambda>fd k. None, se_tmp_name = \<lambda>k. ''/tmp/bpftime-mock'',
     se_stream = \<lambda>f k. snd k (f - 1000), se_info = \<lambda>fd k. (None, k), se_match = (=)\<rparr>"

definition tiny_server :: "(unit, tiny) server" where
  "tiny_server = \<lparr>sv_shm = zero_shm, sv_enable_mock = True, sv_run_with_kernel = False, sv_pattern = [],
     sv_already_setup = False, sv_files = Map.empty, sv_mmaps = {}, sv_kernel = (2, \<lambda>fd. [])\<rparr>"

lemma tiny_manager: "sh_manager (sv_shm (try_startup tiny_env tiny_server)) = Some (fresh_manager ())"
  by (simp add: startup_first tiny_server_def tiny_env_def)

lemma fresh_free: "0 \<le> fd \<Longrightarrow> fd < 6144 \<Longrightarrow> in_range (fresh_manager w) fd \<and> \<not> is_allocated (fresh_manager w) fd"
  by (simp add: fresh_manager_def handler_manager_new_def in_range_def is_allocated_def DEFAULT_MAX_FD_def)

definition tiny_array :: map_create_attr where
  "tiny_array = \<lparr>mc_map_type = 2, mc_key_size = 4, mc_value_size = 2, mc_max_entries = 3, mc_map_flags = 0,
     mc_map_name = ''a'', mc_map_ifindex = 0, mc_btf_fd = 0, mc_btf_key_type_id = 0, mc_btf_value_type_id = 0,
     mc_btf_vmlinux_value_type_id = 0, mc_map_extra = 0\<rparr>"

theorem array_session_witness:
  "\<exists>v1 v2. handle_sysbpf tiny_env (\<lambda>i. 5) (\<lambda>i. 6) (MapCreate tiny_array) tiny_server = (Inr (Ret 5), v1) \<and>
    update_all tiny_env (\<lambda>i. 5) 5 [(1, [8, 9]), (7, [1, 1])] v1 = ([Inr (Ret 0), Inl (Errno E2BIG)], v2) \<and>
    fst (handle_sysbpf tiny_env (\<lambda>i. 5) (\<lambda>i. 6) (MapLookup 5 (Some (st32 1))) v2) = Inr (ValueOut [8, 9]) \<and>
    fst (handle_sysbpf tiny_env (\<lambda>i. 5) (\<lambda>i. 6) (MapLookup 5 (Some (st32 2))) v2) = Inr (ValueOut [0, 0])"
proof -
  have "sv_enable_mock tiny_server" "\<not> sv_run_with_kernel tiny_server" by (simp_all add: tiny_server_def)
  moreover have "sint (mc_map_type tiny_array) = BPF_MAP_TYPE_ARRAY" "0 < mc_value_size tiny_array"
    "unat (mc_value_size tiny_array) * unat (mc_max_entries tiny_array) < 2 ^ 32"
    by (simp_all add: tiny_array_def map_type_defs)
  moreover have "\<forall>u \<in> set [(1, [8, 9]), (7, [1, 1])]. length (snd u) = unat (mc_value_size tiny_array)"
    by (simp add: tiny_array_def)
  moreover have "sg_names (mg_segment (fresh_manager ())) nm = None" for nm
    by (simp add: fresh_manager_def handler_manager_new_def segment_new_def)
  ultimately obtain v1 v2 where
    w: "handle_sysbpf tiny_env (\<lambda>i. 5) (\<lambda>i. 6) (MapCreate tiny_array) tiny_server = (Inr (Ret 5), v1)"
    "update_all tiny_env (\<lambda>i. 5) 5 [(1, [8, 9]), (7, [1, 1])] v1 =
      (map (\<lambda>u. if fst u < mc_max_entries tiny_array then Inr (Ret 0) else Inl (Errno E2BIG)) [(1, [8, 9]), (7, [1, 1])], v2)"
    and l: "\<And>i. fst (handle_sysbpf tiny_env (\<lambda>i. 5) (\<lambda>i. 6) (MapLookup 5 (Some (st32 i))) v2) =
      (if i < mc_max_entries tiny_array
       then Inr (ValueOut (case map_of (rev [(1, [8, 9]), (7, [1, 1])]) i of Some b \<Rightarrow> b
         | None \<Rightarrow> replicate (unat (mc_value_size tiny_array)) 0))
       else Inl (Errno ENOENT))"
    using array_session [of tiny_server tiny_env "fresh_manager ()" "\<lambda>i. 5" 5 tiny_array "[(1, [8, 9]), (7, [1, 1])]" "\<lambda>i. 6"]
      tiny_manager open_fake_fd_const [of 5] fresh_free [of 5 "()"] by auto
  have n: "mc_max_entries tiny_array = 3" "unat (mc_value_size tiny_array) = 2" by (simp_all add: tiny_array_def)
  have z: "replicate 2 (0 :: byte) = [0, 0]" by (simp add: numeral_2_eq_2)
  show ?thesis using w l [of 1] l [of 2] unfolding n z
    by (intro exI [of _ v1] exI [of _ v2]) (simp del: update_all.simps)
qed

section \<open>Reading mocked files\<close>

fun read_all ::
  "('w, 'k) server_env \<Rightarrow> int \<Rightarrow> nat list \<Rightarrow> ('w, 'k) server \<Rightarrow> read_out list \<times> ('w, 'k) server" where
  "read_all se fd [] v = ([], v)"
| "read_all se fd (n # ns) v =
     (let (r, v) = handle_read se fd n v; (rs, v) = read_all se fd ns v in (r # rs, v))"

lemma mock_read_step:
  assumes "mf_cursor f \<le> length (mf_buf f)"
  shows "\<exists>f'. mock_read f n = (take n (drop (mf_cursor f) (mf_buf f)), f') \<and> mf_buf f' = mf_buf f \<and>
    mf_cursor f' = min (mf_cursor f + n) (length (mf_buf f))"
  using assms by (auto simp: mock_read_def Let_def min_def)

lemma read_all_mocked:
  assumes "running v" "sv_files v fd = Some f" "mf_cursor f \<le> length (mf_buf f)"
  shows "\<exists>outs v'. read_all se fd ns v = (map MockRead outs, v') \<and> running v' \<and> sv_files v' fd \<noteq> None \<and>
    sv_kernel v' = sv_kernel v \<and> concat outs = take (sum_list ns) (drop (mf_cursor f) (mf_buf f))"
  using assms
proof (induction ns arbitrary: v f)
  case (Cons n ns)
  from mock_read_step [OF Cons.prems(3), of n] obtain f1 where
    f1: "mock_read f n = (take n (drop (mf_cursor f) (mf_buf f)), f1)" "mf_buf f1 = mf_buf f"
      "mf_cursor f1 = min (mf_cursor f + n) (length (mf_buf f))" by auto
  let ?v = "v\<lparr>sv_files := (sv_files v)(fd \<mapsto> f1)\<rparr>"
  have rd: "handle_read se fd n v = (MockRead (take n (drop (mf_cursor f) (mf_buf f))), ?v)"
    using Cons.prems f1(1) by (simp add: handle_read_def running_mock)
  have "running ?v" "sv_files ?v fd = Some f1" "mf_cursor f1 \<le> length (mf_buf f1)" using Cons.prems(1) f1(2,3) by simp_all
  from Cons.IH [OF this] obtain outs v' where
    r: "read_all se fd ns ?v = (map MockRead outs, v')" "running v'" "sv_files v' fd \<noteq> None" "sv_kernel v' = sv_kernel v"
    "concat outs = take (sum_list ns) (drop (mf_cursor f1) (mf_buf f1))" by auto
  have "take n (drop (mf_cursor f) (mf_buf f)) @ take (sum_list ns) (drop (mf_cursor f1) (mf_buf f1)) =
      take (sum_list (n # ns)) (drop (mf_cursor f) (mf_buf f))"
    using f1(2,3) Cons.prems(3) by (auto simp: min_def take_add add.commute)
  with rd r show ?case
    by (intro exI [of _ "take n (drop (mf_cursor f) (mf_buf f)) # outs"] exI [of _ v']) simp
qed auto

text \<open>Mocked files: opening the file with the type of uprobes or the bit of return probes gives a fresh
  descriptor, however the path is written; reads of any sizes through it return consecutive pieces of the
  mocked contents and nothing else of the system is called for them; after the contents they return nothing.
  Closing it returns 0 and makes no call either: the temporary descriptor stays open.\<close>

theorem mocked_file_reads:
  assumes "sv_enable_mock v" "create_mocked_file_based_on_full_path path = Some f"
    and "se_call se Mkstemp (sv_kernel v) = (fd, k)" "0 \<le> fd" "sv_files v fd = None"
  shows "\<exists>v1 v2 outs. handle_open se path oflag mode v = (fd, v1) \<and> sv_kernel v1 = k \<and>
    read_all se fd ns v1 = (map MockRead outs, v2) \<and> concat outs = take (sum_list ns) (mf_buf f) \<and> sv_kernel v2 = k \<and>
    handle_close se fd v2 = (Inr 0, v2\<lparr>sv_files := (sv_files v2)(fd := None)\<rparr>)"
proof -
  let ?v1 = "(try_startup se v)\<lparr>sv_kernel := k, sv_files := (sv_files v)(fd \<mapsto> f)\<rparr>"
  have opened: "handle_open se path oflag mode v = (fd, ?v1)"
    using assms by (simp add: handle_open_def mock_descriptor_def orig_def emplace_def)
  have zero: "mf_cursor f = 0" using assms(2)
    by (auto simp: create_mocked_file_based_on_full_path_def mocked_file_provider_def split: if_splits)
  have run: "running ?v1" by simp
  from read_all_mocked [OF run, of fd f se ns] zero obtain outs v2 where
    r: "read_all se fd ns ?v1 = (map MockRead outs, v2)" "running v2" "sv_files v2 fd \<noteq> None" "sv_kernel v2 = k"
    "concat outs = take (sum_list ns) (mf_buf f)" by auto
  then have "handle_close se fd v2 = (Inr 0, v2\<lparr>sv_files := (sv_files v2)(fd := None)\<rparr>)"
    by (auto simp: handle_close_def running_mock)
  with opened r show ?thesis by (intro exI [of _ ?v1] exI [of _ v2] exI [of _ outs]) simp
qed

lemma mocked_paths:
  "create_mocked_file_based_on_full_path UPROBE_TYPE_FILE_NAME = Some (mocked_file_provider ''9'')"
  "create_mocked_file_based_on_full_path URETPROBE_BIT_FILE_NAME = Some (mocked_file_provider ''config:0'')"
  "create_mocked_file_based_on_full_path KPROBE_TYPE_FILE_NAME = None"
  "create_mocked_file_based_on_full_path KRETPROBE_BIT_FILE_NAME = None"
  "create_mocked_file_based_on_full_path ''/sys//bus/event_source/devices/uprobe/type'' = Some (mocked_file_provider ''9'')"
  by code_simp+

theorem mocked_file_reads_witness:
  "\<exists>v1 v2 outs. handle_open tiny_env ''/sys//bus/event_source/devices/uprobe/type'' 0 0 tiny_server = (3, v1) \<and>
    read_all tiny_env 3 [1, 4] v1 = (map MockRead outs, v2) \<and> concat outs = ''9'' \<and>
    handle_close tiny_env 3 v2 = (Inr 0, v2\<lparr>sv_files := (sv_files v2)(3 := None)\<rparr>)"
  using mocked_file_reads [OF _ mocked_paths(5), of tiny_server tiny_env 3 "(3, (\<lambda>fd. [])(3 := []))" 0 0 "[1, 4]"]
  by (auto simp: tiny_server_def tiny_env_def mocked_file_provider_def)

section \<open>Opening a uprobe\<close>

text \<open>What the server relies on of temporary files: \<^verbatim>\<open>mkstemp\<close> gives a descriptor that is not in use, the name it
  makes can be opened, and the stream then has what is written through the descriptor. \<open>used\<close> are the descriptors
  in use; none of the calls closes one of the process.\<close>

definition tmp_files_work :: "('w, 'k) server_env \<Rightarrow> ('k \<Rightarrow> int set) \<Rightarrow> bool" where
  "tmp_files_work se used \<longleftrightarrow> (\<forall>k.
     let (fd, k1) = se_call se Mkstemp k; (f, k2) = se_call se (OrigFopen (se_tmp_name se k1) ''r'') k1
     in 0 \<le> fd \<and> fd \<notin> used k \<and> insert fd (used k) \<subseteq> used k2 \<and> f \<noteq> 0 \<and>
        (\<forall>s. let (n, k3) = se_call se (WriteTo fd s) k2
             in se_stream se f k3 = s \<and> used k2 \<subseteq> used (snd (se_call se (Fclose f) k3))))"

definition knows_files :: "('k \<Rightarrow> int set) \<Rightarrow> ('w, 'k) server \<Rightarrow> bool" where
  "knows_files used v \<longleftrightarrow> running v \<and> dom (sv_files v) \<subseteq> used (sv_kernel v)"

lemma mocked_stream:
  assumes "tmp_files_work se used" "knows_files used v"
    and "create_mocked_file_based_on_full_path path = Some (mocked_file_provider buf)"
  shows "\<exists>f v'. handle_fopen se path flags v = (f, v') \<and> f \<noteq> 0 \<and> se_stream se f (sv_kernel v') = buf \<and>
    knows_files used (v'\<lparr>sv_kernel := snd (se_call se (Fclose f) (sv_kernel v'))\<rparr>) \<and> sv_shm v' = sv_shm v"
proof -
  obtain fd k1 where mk: "se_call se Mkstemp (sv_kernel v) = (fd, k1)" by fastforce
  obtain f k2 where fo: "se_call se (OrigFopen (se_tmp_name se k1) ''r'') k1 = (f, k2)" by fastforce
  obtain n k3 where wr: "se_call se (WriteTo fd buf) k2 = (n, k3)" by fastforce
  have law: "0 \<le> fd" "fd \<notin> used (sv_kernel v)" "insert fd (used (sv_kernel v)) \<subseteq> used k2" "f \<noteq> 0"
    "se_stream se f k3 = buf" "used k2 \<subseteq> used (snd (se_call se (Fclose f) k3))"
    using assms(1) mk fo wr unfolding tmp_files_work_def by (auto simp: Let_def split: prod.splits)
  have free: "sv_files v fd = None" using law(2) assms(2) by (auto simp: knows_files_def dom_def)
  have run: "running v" using assms(2) by (simp add: knows_files_def)
  let ?v = "v\<lparr>sv_files := (sv_files v)(fd \<mapsto> mocked_file_provider buf\<lparr>mf_replacement := f\<rparr>), sv_kernel := k3\<rparr>"
  have "handle_fopen se path flags v = (f, ?v)"
    using mk fo wr law(1) free run assms(3)
    by (simp add: handle_fopen_def running_mock orig_def emplace_def mocked_file_provider_def)
  moreover have "knows_files used (?v\<lparr>sv_kernel := snd (se_call se (Fclose f) k3)\<rparr>)"
    using law(3,6) assms(2) by (auto simp: knows_files_def)
  ultimately show ?thesis using law(4,5) by (intro exI [of _ f] exI [of _ ?v]) simp
qed

lemma mocked_determine:
  assumes "tmp_files_work se used" "knows_files used v"
    and "create_mocked_file_based_on_full_path path = Some (mocked_file_provider buf)" "scan_format fmt buf = Scanned n"
  shows "\<exists>v'. determine se path fmt n v = (n, v') \<and> knows_files used v' \<and> sv_shm v' = sv_shm v"
proof (cases "se_exists se path (sv_kernel v)")
  case True
  from mocked_stream [OF assms(1-3), of "''re''"] obtain f v' where
    "handle_fopen se path ''re'' v = (f, v')" "f \<noteq> 0" "se_stream se f (sv_kernel v') = buf"
    "knows_files used (v'\<lparr>sv_kernel := snd (se_call se (Fclose f) (sv_kernel v'))\<rparr>)" "sv_shm v' = sv_shm v" by auto
  then show ?thesis using True assms(4)
    by (auto simp: determine_def parse_uint_from_file_def orig_def split: prod.splits)
qed (use assms(2) in \<open>auto simp: determine_def\<close>)

lemma mocked_scans: "scan_format [] ''9'' = Scanned 9" "scan_format ''config:'' ''config:0'' = Scanned 0"
  by code_simp+

lemma config_bit_0: "config_bit c 0 = Inr (bit c 0)"
  by (simp add: config_bit_def and_one_eq bit_0 odd_iff_mod_2_eq_one flip: odd_iff_mod_2_eq_one)

text \<open>C35. Opening a uprobe: whatever type numbers the machine has for uprobes, and whether or not it has any,
  the server answers 9 to the loader and takes 9 for a uprobe itself. Such a call gives the descriptor the
  kernel handed out, and the table has there a uprobe with the module, the offset and the process the loader
  named, a return probe exactly if bit 0 of the configuration is set, and the reference counter of its
  upper half.\<close>

theorem uprobe_open_decodes:
  assumes "tmp_files_work se used" "sv_enable_mock v" "dom (sv_files v) \<subseteq> used (sv_kernel v)" "pe_type attr = 9"
    and "sh_manager (sv_shm (try_startup se v)) = Some mg" "open_fake_fd kfd = fd" "in_range mg fd" "\<not> is_allocated mg fd"
  shows "\<exists>v' p. handle_perfevent se kfd attr pid cpu group_fd flags v = (Inr fd, v') \<and>
    shm_handler (sv_shm v') fd = Some (PerfH p) \<and> \<not> pf_enabled p \<and>
    pf_type p = (if bit (pe_config attr) 0 then BPF_TYPE_URETPROBE else BPF_TYPE_UPROBE) \<and>
    pf_data p = Uprobe (pe_config2 attr) pid (unat (drop_bit 32 (pe_config attr))) (pe_config1 attr)"
proof -
  have "knows_files used (try_startup se v)" using assms(3) by (simp add: knows_files_def)
  from mocked_determine [OF assms(1) this mocked_paths(1) mocked_scans(1)] obtain v1 where
    v1: "determine_uprobe_perf_type se (try_startup se v) = (9, v1)" "knows_files used v1" "sv_shm v1 = sv_shm (try_startup se v)"
    by (auto simp: determine_uprobe_perf_type_def MOCKED_UPROBE_TYPE_VALUE_def)
  from mocked_determine [OF assms(1) v1(2) mocked_paths(2) mocked_scans(2)] obtain v2 where
    v2: "determine_uprobe_retprobe_bit se v1 = (0, v2)" "sv_shm v2 = sv_shm (try_startup se v)"
    using v1(3) by (auto simp: determine_uprobe_retprobe_bit_def MOCKED_URETPROBE_BIT_def)
  have "sint (pe_type attr) = 9" using assms(4) by simp
  then have h: "handle_perfevent se kfd attr pid cpu group_fd flags v =
      on_shm (bpftime_uprobe_create (se_env se) kfd (- 1) pid (pe_config1 attr) (pe_config2 attr) (bit (pe_config attr) 0)
        (unat (drop_bit 32 (pe_config attr)))) v2"
    using assms(2) v1(1) v2(1)
    by (simp add: handle_perfevent_def open_uprobe_def config_bit_0 ref_ctr_off_of_def PERF_UPROBE_REF_CTR_OFFSET_SHIFT_def)
  have slot: "0 \<le> fd" "nat fd < length (mg_handlers mg)" using assms(7) by (auto simp: in_range_def)
  show ?thesis unfolding h using assms(5-8) v2(2) slot
    by (auto simp: on_shm_def bpftime_uprobe_create_def add_uprobe_def fd_or_fake_def with_manager_def set_handler_def
        shm_handler_def put_handler_def uprobe_perf_new_def)
qed

definition tiny_used :: "tiny \<Rightarrow> int set" where
  "tiny_used k = {..int (fst k)}"

lemma tiny_files_work: "tmp_files_work tiny_env tiny_used"
  by (auto simp: tmp_files_work_def tiny_env_def tiny_used_def)

theorem uprobe_open_decodes_witness:
  "\<exists>v' p. handle_perfevent tiny_env (\<lambda>i. 5) \<lparr>pe_type = 9, pe_config = 0x700000001, pe_config1 = ''/bin/sh'', pe_config2 = 16,
      pe_sample_type = 0\<rparr> 42 0 (- 1) 0 tiny_server = (Inr 5, v') \<and> shm_handler (sv_shm v') 5 = Some (PerfH p) \<and>
    pf_type p = BPF_TYPE_URETPROBE \<and> pf_data p = Uprobe 16 42 7 ''/bin/sh''"
proof -
  have "sv_enable_mock tiny_server" "dom (sv_files tiny_server) \<subseteq> tiny_used (sv_kernel tiny_server)"
    by (simp_all add: tiny_server_def)
  then show ?thesis
    using uprobe_open_decodes [OF tiny_files_work, of tiny_server "\<lparr>pe_type = 9, pe_config = 0x700000001, pe_config1 = ''/bin/sh'',
        pe_config2 = 16, pe_sample_type = 0\<rparr>" "fresh_manager ()" "\<lambda>i. 5" 5 42 0 "- 1" 0]
      tiny_manager open_fake_fd_const [of 5] fresh_free [of 5 "()"] by (auto simp: bit_0)
qed

section \<open>Mappings of arrays\<close>

lemma array_address:
  assumes "array_at v fd am" "0 < am_max_entries am" "fd \<noteq> - 1"
  shows "\<exists>a mg. sh_manager (sv_shm v) = Some mg \<and> sg_objs (mg_segment mg) a = Some (IArray am) \<and>
    mock_address prot len fd (sv_shm v) = (Inr (Some (ArrayData a)), sv_shm v)"
proof -
  obtain mg m a where o: "sh_manager (sv_shm v) = Some mg" "shm_handler (sv_shm v) fd = Some (MapH m)"
    "mh_type m = BPF_MAP_TYPE_ARRAY" "mh_impl m = Some a" "sg_objs (mg_segment mg) a = Some (IArray am)" "am_inv am"
    using array_atE [OF assms(1)] by metis
  have "0 < unat (am_value_size am)" "0 < unat (am_max_entries am)"
    using o(6) assms(2) by (simp_all add: am_inv_def word_less_nat_alt)
  then have "am_data am \<noteq> []" using o(6) by (auto simp: am_inv_def)
  with o assms(3) have "mock_address prot len fd (sv_shm v) = (Inr (Some (ArrayData a)), sv_shm v)"
    by (simp add: mock_address_def is_ringbuf_map_fd_def is_array_map_fd_def map_fd_of_type_def map_type_defs
        bpftime_get_array_map_raw_data_def shm_try_get_array_map_impl_def try_get_array_map_impl_def)
  with o show ?thesis by blast
qed

lemma array_at_mmaps [simp]: "array_at (v\<lparr>sv_mmaps := x\<rparr>) fd am = array_at v fd am"
  by (simp add: array_at_def)

lemma array_mmap:
  assumes "array_at v fd am" "0 < am_max_entries am" "fd \<noteq> - 1"
  shows "\<exists>a mg. sh_manager (sv_shm v) = Some mg \<and> sg_objs (mg_segment mg) a = Some (IArray am) \<and>
    (\<forall>x. handle_mmap64 se addr len prot flags fd offset (v\<lparr>sv_mmaps := x\<rparr>) =
       (Inr (ArrayData a), v\<lparr>sv_mmaps := insert (ArrayData a) x\<rparr>))"
proof -
  from array_address [OF assms, of prot len] obtain a mg where
    a: "sh_manager (sv_shm v) = Some mg" "sg_objs (mg_segment mg) a = Some (IArray am)"
      "mock_address prot len fd (sv_shm v) = (Inr (Some (ArrayData a)), sv_shm v)" by blast
  moreover have "running v" "\<not> sv_run_with_kernel v" using assms(1) by (auto simp: array_at_def)
  ultimately show ?thesis
    by (intro exI [of _ a] exI [of _ mg]) (simp add: handle_mmap64_def running_mock on_shm_def)
qed

lemma munmap_mocked:
  assumes "running v" "\<not> sv_run_with_kernel v"
  shows "handle_munmap se p len (v\<lparr>sv_mmaps := x\<rparr>) =
    (if p \<in> x then (0, v\<lparr>sv_mmaps := x - {p}\<rparr>) else orig se (OrigMunmap p len) (v\<lparr>sv_mmaps := x\<rparr>))"
  using assms by (simp add: handle_munmap_def running_mock)

text \<open>Mapping an array: the address a loader gets is the data of the very object that lookups and programs
  read, no call reaches the kernel, and unmapping it once gives back the state before. But the server keeps a
  set of addresses, not a count: when the same array is mapped twice, the second unmapping goes to the kernel
  with an address inside the shared memory.\<close>

theorem array_mapping_pairs:
  assumes "array_at v fd am" "0 < am_max_entries am" "fd \<noteq> - 1" "\<forall>a. ArrayData a \<notin> sv_mmaps v"
  shows "\<exists>a mg v1. sh_manager (sv_shm v) = Some mg \<and> sg_objs (mg_segment mg) a = Some (IArray am) \<and>
    handle_mmap64 se addr len prot flags fd offset v = (Inr (ArrayData a), v1) \<and> array_at v1 fd am \<and>
    handle_munmap se (ArrayData a) len v1 = (0, v) \<and>
    handle_mmap64 se addr len prot flags fd offset v1 = (Inr (ArrayData a), v1) \<and>
    handle_munmap se (ArrayData a) len (snd (handle_munmap se (ArrayData a) len v1)) = orig se (OrigMunmap (ArrayData a) len) v"
proof -
  from array_mmap [OF assms(1-3), of se addr len prot flags offset] obtain a mg where
    a: "sh_manager (sv_shm v) = Some mg" "sg_objs (mg_segment mg) a = Some (IArray am)"
    and mm: "\<And>x. handle_mmap64 se addr len prot flags fd offset (v\<lparr>sv_mmaps := x\<rparr>) =
       (Inr (ArrayData a), v\<lparr>sv_mmaps := insert (ArrayData a) x\<rparr>)" by blast
  let ?p = "ArrayData a" and ?v1 = "v\<lparr>sv_mmaps := insert (ArrayData a) (sv_mmaps v)\<rparr>"
  have run: "running v" "\<not> sv_run_with_kernel v" using assms(1) by (auto simp: array_at_def)
  have same: "v\<lparr>sv_mmaps := sv_mmaps v\<rparr> = v" by simp
  have "handle_mmap64 se addr len prot flags fd offset v = (Inr ?p, ?v1)" using mm [of "sv_mmaps v"] by simp
  moreover have "handle_mmap64 se addr len prot flags fd offset ?v1 = (Inr ?p, ?v1)"
    using mm [of "insert ?p (sv_mmaps v)"] by simp
  moreover have un: "handle_munmap se ?p len ?v1 = (0, v)"
    using munmap_mocked [OF run, of se ?p len "insert ?p (sv_mmaps v)"] assms(4) by simp
  moreover have "handle_munmap se ?p len v = orig se (OrigMunmap ?p len) v"
    using munmap_mocked [OF run, of se ?p len "sv_mmaps v"] assms(4) by simp
  ultimately show ?thesis using a assms(1) by (intro exI [of _ a] exI [of _ mg] exI [of _ ?v1]) simp
qed

definition mapped_server :: "(unit, tiny) server" where
  "mapped_server = tiny_server\<lparr>sv_already_setup := True, sv_shm := zero_shm\<lparr>sh_manager := Some
     \<lparr>mg_handlers = [MapH two_slots], mg_segment = two_slots_segment\<rparr>\<rparr>\<rparr>"

theorem array_mapping_pairs_witness:
  "\<exists>a v1. handle_mmap64 tiny_env (Addr 0) 4096 3 1 0 0 mapped_server = (Inr (ArrayData a), v1) \<and>
    handle_munmap tiny_env (ArrayData a) 4096 v1 = (0, mapped_server)"
proof -
  have "array_at mapped_server 0 (array_map_new 1 2)"
    using am_inv_new [of 1 2]
    by (simp add: array_at_def mapped_server_def tiny_server_def running_def zero_shm_def shm_handler_def two_slots_def
        two_slots_segment_def map_handler_new_def plain_attr_def array_map_new_def)
  moreover have "\<forall>a. ArrayData a \<notin> sv_mmaps mapped_server" by (simp add: mapped_server_def tiny_server_def)
  ultimately show ?thesis
    using array_mapping_pairs [of mapped_server 0 "array_map_new 1 2" tiny_env "Addr 0" 4096 3 1 0]
    by (auto simp: array_map_new_def)
qed

text \<open>The missing \<^verbatim>\<open>return\<close> in \<^verbatim>\<open>handle_munmap\<close>: in kernel mode every unmapping is done twice, so an address that
  another thread gets in between is unmapped from under it. A call made while the mock is off, as the start
  of the server makes them, turns the mock on before the shared memory exists.\<close>

theorem munmap_without_return:
  assumes "sv_mmaps v = {}"
  shows "(running v \<and> sv_run_with_kernel v \<longrightarrow>
      handle_munmap se p len v = orig se (OrigMunmap p len) (snd (orig se (OrigMunmap p len) v))) \<and>
    (sv_already_setup v \<and> \<not> sv_enable_mock v \<longrightarrow>
      sv_enable_mock (snd (handle_munmap se p len v)) \<and> sv_shm (snd (handle_munmap se p len v)) = sv_shm v)"
proof -
  have "handle_munmap se p len v = orig se (OrigMunmap p len) (snd (orig se (OrigMunmap p len) v))"
    if "running v" "sv_run_with_kernel v"
    using that assms by (simp add: handle_munmap_def orig_def Let_def split: prod.splits)
  moreover have "sv_enable_mock (snd (handle_munmap se p len v)) \<and> sv_shm (snd (handle_munmap se p len v)) = sv_shm v"
    if "sv_already_setup v" "\<not> sv_enable_mock v"
    using that assms by (simp add: handle_munmap_def orig_def Let_def startup_again split: prod.splits)
  ultimately show ?thesis by blast
qed

theorem munmap_without_return_witness:
  "sv_enable_mock (snd (handle_munmap tiny_env (Addr 64) 8 (tiny_server\<lparr>sv_already_setup := True, sv_enable_mock := False\<rparr>)))"
  using munmap_without_return [of "tiny_server\<lparr>sv_already_setup := True, sv_enable_mock := False\<rparr>" tiny_env "Addr 64" 8]
  by (simp add: tiny_server_def)

section \<open>Links\<close>

lemma set_handler_put:
  "in_range mg fd \<Longrightarrow> \<not> is_allocated mg fd \<Longrightarrow> h \<noteq> Unused \<Longrightarrow> (\<nexists>m. h = MapH m) \<Longrightarrow>
     set_handler env fd h mg = (Inr fd, put_handler (nat fd) h mg)"
  by (auto simp: set_handler_def split: handler.split)

lemma shm_handler_put:
  "in_range mg fd \<Longrightarrow> shm_handler (s\<lparr>sh_manager := Some (put_handler (nat fd) h mg)\<rparr>) x =
     (if x = fd then Some h else shm_handler (s\<lparr>sh_manager := Some mg\<rparr>) x)"
  by (auto simp: shm_handler_def put_handler_def in_range_def)

lemma put_handler_range [simp]: "in_range (put_handler i h mg) fd = in_range mg fd"
  by (simp add: in_range_def put_handler_def)

lemma put_handler_other [simp]: "0 \<le> fd \<Longrightarrow> 0 \<le> x \<Longrightarrow> fd \<noteq> x \<Longrightarrow> is_allocated (put_handler (nat fd) h mg) x = is_allocated mg x"
  by (simp add: is_allocated_def put_handler_def in_range_def)

lemma in_range_pos: "in_range mg fd \<Longrightarrow> 0 \<le> fd"
  by (simp add: in_range_def)

text \<open>\<^verbatim>\<open>BPF_LINK_CREATE\<close> for a perf event makes two links: one from the arguments, whose descriptor it returns, and one
  with the cookie, whose descriptor is lost. Closing the returned link leaves the other: the program stays
  attached.\<close>

theorem link_create_leaks_second_link:
  assumes v: "running v" "\<not> sv_run_with_kernel v" "sh_manager (sv_shm v) = Some mg" "\<forall>fd. sv_files v fd = None"
    and h: "shm_handler (sv_shm v) (sint (la_prog_fd a)) = Some (ProgH p)"
      "shm_handler (sv_shm v) (sint (la_target_fd a)) = Some (PerfH e)" "la_attach_type a = BPF_PERF_EVENT"
    and n: "open_fake_fd kfd = n" "open_fake_fd kfd' = n'" "n \<noteq> n'" "in_range mg n" "in_range mg n'"
      "\<not> is_allocated mg n" "\<not> is_allocated mg n'"
  shows "\<exists>v1. handle_sysbpf se kfd kfd' (LinkCreate a) v = (Inr (Ret n), v1) \<and>
    shm_handler (sv_shm v1) n = Some (LinkH (link_handler_of_args a)) \<and>
    shm_handler (sv_shm (snd (handle_close se n v1))) n' =
      Some (LinkH (link_handler_new (sint (la_prog_fd a)) (sint (la_target_fd a)) (Some (la_bpf_cookie a))))"
proof -
  let ?pf = "sint (la_prog_fd a)" and ?tf = "sint (la_target_fd a)"
  let ?l = "LinkH (link_handler_of_args a)" and ?l' = "LinkH (link_handler_new ?pf ?tf (Some (la_bpf_cookie a)))"
  let ?mg = "put_handler (nat n) ?l mg"
  let ?mg' = "put_handler (nat n') ?l' ?mg"
  let ?s = "sv_shm v\<lparr>sh_manager := Some ?mg\<rparr>" and ?s' = "sv_shm v\<lparr>sh_manager := Some ?mg'\<rparr>"
  have pos: "0 \<le> n" "0 \<le> n'" using n(4,5) by (auto dest: in_range_pos)
  have same: "sv_shm v\<lparr>sh_manager := Some mg\<rparr> = sv_shm v" using v(3) by (rule same_manager)
  have ne: "?pf \<noteq> n" "?tf \<noteq> n" using n(6) h(1,2) v(3) pos by (auto simp: shm_handler_def is_allocated_def in_range_def split: if_splits)
  have at: "shm_handler ?s ?pf = Some (ProgH p)" "shm_handler ?s ?tf = Some (PerfH e)"
    using shm_handler_put [OF n(4)] ne h(1,2) same by simp_all
  have one: "bpftime_link_create (se_env se) kfd (- 1) (Some a) (sv_shm v) = (Inr n, ?s)"
    using h(1) n(1) v(3) set_handler_put [OF n(4,6), of ?l "se_env se"]
    by (simp add: bpftime_link_create_def add_bpf_link_def is_prog_fd_def fd_or_fake_def with_manager_def)
  have two: "bpftime_attach_perf_to_bpf_with_cookie (se_env se) kfd' ?tf ?pf (la_bpf_cookie a) ?s = (Inr n', ?s')"
    using at n(2,3,5,7) pos set_handler_put [of ?mg n' ?l' "se_env se"]
    by (simp add: bpftime_attach_perf_to_bpf_with_cookie_def attach_perf_to_bpf_def is_perf_fd_def add_bpf_prog_attach_target_def
        is_prog_fd_def with_manager_def)
  let ?v1 = "v\<lparr>sv_shm := ?s'\<rparr>"
  have created: "handle_sysbpf se kfd kfd' (LinkCreate a) v = (Inr (Ret n), ?v1)"
    using v(1,2) one two at h(3)
    by (simp add: handle_sysbpf_def running_mock sysbpf_user_def sysbpf_link_create_def on_shm_def is_prog_fd_def
        is_perf_event_handler_fd_def ignoring_def mapped_def)
  have l: "shm_handler ?s' n = Some ?l" "shm_handler ?s' n' = Some ?l'"
    using shm_handler_put [of ?mg n'] shm_handler_put [OF n(4)] n(3,5) by simp_all
  have i: "nat n < length (mg_handlers ?mg')" "mg_handlers ?mg' ! nat n = ?l" "int (nat n) = n" "nat n \<noteq> nat n'"
    using n(3,4) pos by (auto simp: put_handler_def in_range_def)
  then have "clear_id_at (se_env se) n ?mg' = (Inr (), put_handler (nat n) Unused ?mg')"
    using clear_link [OF i(1,2), of 1 "se_env se"] by (simp add: clear_id_at_def numeral_2_eq_2)
  then have closed: "bpftime_close (se_env se) n ?s' = (Inr (), ?s'\<lparr>sh_manager := Some (put_handler (nat n) Unused ?mg')\<rparr>)"
    by (simp add: bpftime_close_def close_fd_def with_manager_def)
  have "sv_shm (snd (handle_close se n ?v1)) = ?s'\<lparr>sh_manager := Some (put_handler (nat n) Unused ?mg')\<rparr>"
    using v(1,4) closed by (simp add: handle_close_def running_mock on_shm_def ignoring_def orig_res_def orig_def split: prod.splits)
  then have "shm_handler (sv_shm (snd (handle_close se n ?v1))) n' = Some ?l'"
    using l(2) shm_handler_put [of ?mg' n] n(3,4) by simp
  with created l(1) show ?thesis by (intro exI [of _ ?v1]) simp
qed

definition linked_server :: "(unit, tiny) server" where
  "linked_server = tiny_server\<lparr>sv_already_setup := True, sv_shm := zero_shm\<lparr>sh_manager := Some
     \<lparr>mg_handlers = [ProgH (prog_handler_new [] ''p'' 0), PerfH (tracepoint_perf_new 1 2), Unused, Unused, Unused, Unused],
      mg_segment = segment_new ()\<rparr>\<rparr>\<rparr>"

theorem link_create_leaks_second_link_witness:
  "\<exists>v1. handle_sysbpf tiny_env (\<lambda>i. 4) (\<lambda>i. 5) (LinkCreate \<lparr>la_prog_fd = 0, la_target_fd = 1, la_attach_type = 41, la_flags = 0,
      la_bpf_cookie = 9\<rparr>) linked_server = (Inr (Ret 4), v1) \<and>
    shm_handler (sv_shm (snd (handle_close tiny_env 4 v1))) 5 = Some (LinkH (link_handler_new 0 1 (Some 9)))"
proof -
  let ?mg = "\<lparr>mg_handlers = [ProgH (prog_handler_new [] ''p'' 0), PerfH (tracepoint_perf_new 1 2), Unused, Unused, Unused, Unused],
    mg_segment = segment_new ()\<rparr>"
  have "running linked_server" "\<not> sv_run_with_kernel linked_server" "sh_manager (sv_shm linked_server) = Some ?mg"
    "\<forall>fd. sv_files linked_server fd = None" "shm_handler (sv_shm linked_server) 0 = Some (ProgH (prog_handler_new [] ''p'' 0))"
    "shm_handler (sv_shm linked_server) 1 = Some (PerfH (tracepoint_perf_new 1 2))"
    by (simp_all add: linked_server_def tiny_server_def running_def zero_shm_def shm_handler_def)
  moreover have "in_range ?mg 4" "in_range ?mg 5" "\<not> is_allocated ?mg 4" "\<not> is_allocated ?mg 5"
    by (simp_all add: in_range_def is_allocated_def)
  ultimately show ?thesis
    using link_create_leaks_second_link [of linked_server ?mg "\<lparr>la_prog_fd = 0, la_target_fd = 1, la_attach_type = 41, la_flags = 0,
        la_bpf_cookie = 9\<rparr>" "prog_handler_new [] ''p'' 0" "tracepoint_perf_new 1 2" "\<lambda>i. 4" 4 "\<lambda>i. 5" 5 tiny_env]
      open_fake_fd_const [of 4] open_fake_fd_const [of 5] by (auto simp: BPF_PERF_EVENT_def)
qed

section \<open>Programs and maps of the kernel\<close>

lemma set_imm_insn: "insn_of_word (set_imm x w) = insn_of_word w\<lparr>in_imm := x\<rparr>"
proof -
  have "(ucast (set_imm x w) :: 8 word) = ucast w" "(ucast (drop_bit 8 (set_imm x w)) :: 4 word) = ucast (drop_bit 8 w)"
    "(ucast (drop_bit 12 (set_imm x w)) :: 4 word) = ucast (drop_bit 12 w)"
    "(ucast (drop_bit 16 (set_imm x w)) :: 16 word) = ucast (drop_bit 16 w)" "ucast (drop_bit 32 (set_imm x w)) = x"
    by (rule bit_word_eqI; auto simp: set_imm_def bit_simps)+
  then show ?thesis by (simp add: insn_of_word_def)
qed

text \<open>The first word of a load that names a map by descriptor, in the encoding of eBPF: operation 0x18, and source register 1 (the map) or 2 (a value in
  it); and what the loop makes of an instruction when the kernel's answers are \<open>answers\<close>.\<close>

definition names_map :: "u64 \<Rightarrow> bool" where
  "names_map w \<longleftrightarrow> w AND 0xff = 0x18 \<and> drop_bit 12 w AND 0xf \<in> {1, 2}"

lemma low_8: "ucast (w :: u64) = (v :: 8 word) \<longleftrightarrow> w AND 0xff = ucast v"
proof -
  have m: "(0xff :: u64) = mask 8" by (simp add: mask_eq_exp_minus_1)
  have "w AND 0xff = ucast (ucast w :: 8 word)" unfolding m by (rule bit_word_eqI) (auto simp: bit_simps)
  moreover have "ucast (ucast x :: u64) = x" for x :: "8 word" by (rule bit_word_eqI) (auto simp: bit_simps)
  ultimately show ?thesis by metis
qed

lemma low_4: "ucast (w :: u64) = (v :: 4 word) \<longleftrightarrow> w AND 0xf = ucast v"
proof -
  have m: "(0xf :: u64) = mask 4" by (simp add: mask_eq_exp_minus_1)
  have "w AND 0xf = ucast (ucast w :: 4 word)" unfolding m by (rule bit_word_eqI) (auto simp: bit_simps)
  moreover have "ucast (ucast x :: u64) = x" for x :: "4 word" by (rule bit_word_eqI) (auto simp: bit_simps)
  ultimately show ?thesis by metis
qed

lemma loads_map_names: "loads_map w \<longleftrightarrow> names_map w"
  by (simp add: loads_map_def names_map_def insn_of_word_def EBPF_OP_LDDW_def low_8 low_4)

definition relocated :: "(int \<Rightarrow> map_info option) \<Rightarrow> u64 \<Rightarrow> u64" where
  "relocated answers w = (case answers (sint (in_imm (insn_of_word w))) of
     Some info \<Rightarrow> if names_map w then set_imm (mi_id info) w else w | None \<Rightarrow> w)"

lemma relocate_all:
  assumes "\<And>fd k. se_info se fd k = (answers fd, k)"
  shows "relocate se ws v =
    (if \<forall>w \<in> set ws. loads_map w \<longrightarrow> answers (sint (in_imm (insn_of_word w))) \<noteq> None then Some (map (relocated answers) ws) else None, v)"
  by (induction ws) (auto simp: kernel_info_def assms relocated_def loads_map_names split: option.splits)

lemma add_map_success:
  assumes "bpftime_maps_create env kfd n nm attr s = (Inr r, s')" "0 \<le> n"
  shows "is_map_fd s' n"
  using assms
  by (auto simp: bpftime_maps_create_def add_bpf_map_def fd_or_fake_def with_manager_def set_handler_def put_handler_def
      is_map_fd_def shm_handler_def in_range_def Let_def split: option.splits if_splits prod.splits sum.splits err.splits)

lemma add_prog_success:
  assumes "bpftime_progs_create env kfd n insns nm t s = (Inr r, s')" "0 \<le> n"
  shows "r = n \<and> shm_handler s' n = Some (ProgH (prog_handler_new insns nm t)) \<and> (\<forall>x. is_map_fd s x \<longrightarrow> is_map_fd s' x)"
proof -
  obtain mg where mg: "sh_manager s = Some mg" using assms by (auto simp: bpftime_progs_create_def add_bpf_prog_def with_manager_def split: option.splits)
  let ?h = "ProgH (prog_handler_new insns nm t)"
  have ok: "\<not> is_allocated mg n" "in_range mg n"
    using assms mg by (auto simp: bpftime_progs_create_def add_bpf_prog_def fd_or_fake_def with_manager_def set_handler_def
        split: if_splits)
  then have s': "r = n" "s' = s\<lparr>sh_manager := Some (put_handler (nat n) ?h mg)\<rparr>"
    using assms mg set_handler_put [OF ok(2,1), of ?h env]
    by (auto simp: bpftime_progs_create_def add_bpf_prog_def fd_or_fake_def with_manager_def)
  have "shm_handler s n = Some Unused" using ok mg by (simp add: shm_handler_def is_allocated_def in_range_def)
  then have "is_map_fd s' x" if "is_map_fd s x" for x
    using that same_manager [OF mg] by (auto simp: is_map_fd_def s'(2) shm_handler_put [OF ok(2)])
  with s' shm_handler_put [OF ok(2)] show ?thesis by simp
qed

text \<open>C36. Running beside the kernel: the kernel makes the map and the server registers it under the number the
  kernel gave it. A program loaded afterwards is kept in the table under the descriptor the kernel returned, the
  same instruction for instruction, except that a load that names the map by the loader's descriptor names it by
  that number: it is the map in the table. This holds for programs that bypass the kernel's verifier too: the
  kernel gets a program that returns 0, and the table the real one.\<close>

theorem kernel_program_finds_map:
  assumes answers: "\<And>fd k. se_info se fd k = (answers fd, k)" and mode: "sv_enable_mock v" "sv_run_with_kernel v"
    and map: "handle_sysbpf se kfd kfd' (MapCreate c) v = (Inr (Ret fd), v1)" "0 < fd" "answers fd = Some info" "0 \<le> sint (mi_id info)"
    and prog: "handle_sysbpf se kfd1 kfd1' (ProgLoad a) v1 = (Inr (Ret n), v2)" "0 \<le> n"
  shows "\<exists>p. shm_handler (sv_shm v2) n = Some (ProgH p) \<and> pg_insns p = map (relocated answers) (pl_insns a) \<and>
    is_map_fd (sv_shm v2) (sint (mi_id info)) \<and>
    (\<forall>w. names_map w \<and> in_imm (insn_of_word w) = word_of_int fd \<and> fd < 2 ^ 31 \<longrightarrow>
       insn_of_word (relocated answers w) = insn_of_word w\<lparr>in_imm := mi_id info\<rparr>)"
proof -
  let ?v = "try_startup se v"
  obtain r k where o: "se_call se (OrigBpf (MapCreate c)) (sv_kernel v) = (r, k)" by fastforce
  let ?w = "?v\<lparr>sv_kernel := k\<rparr>"
  have cr: "mapped Ret (create_kernel_bpf_map se kfd r ?w) = (Inr (Ret fd), v1)"
    using map(1) mode o by (simp add: handle_sysbpf_def orig_def)
  then obtain i s1 where i: "answers r = Some i" "\<not> is_map_fd (sv_shm ?v) (sint (mi_id i))" "r = fd" "v1 = ?w\<lparr>sv_shm := s1\<rparr>"
    and mk: "\<exists>x. bpftime_maps_create (se_env se) kfd (sint (mi_id i)) (mi_name i) (kernel_map_attr i) (sv_shm ?v) = (Inr x, s1)"
    using map(2) by (auto simp: create_kernel_bpf_map_def kernel_info_def answers mapped_def on_shm_def bindr_def
        split: option.splits if_splits prod.splits sum.splits)
  have reg: "is_map_fd (sv_shm v1) (sint (mi_id info))"
    using mk i add_map_success map(3,4) by fastforce
  have run: "running v1" "sv_run_with_kernel v1" using i(4) mode by (simp_all add: running_def)
  from prog(1) have pr: "mapped Ret (create_kernel_bpf_prog_in_userspace se kfd1 a v1) = (Inr (Ret n), v2)"
    using run by (simp add: handle_sysbpf_def running_mock)
  then have "\<exists>m. 0 \<le> m \<and> bpftime_progs_create (se_env se) kfd1 m (map (relocated answers) (pl_insns a)) (pl_prog_name a)
      (sint (pl_prog_type a)) (sv_shm v1) = (Inr n, sv_shm v2)"
    using prog(2) unfolding create_kernel_bpf_prog_in_userspace_def relocate_all [of se answers, OF answers]
    by (auto simp: orig_def mapped_def on_shm_def bindr_def Let_def not_less split: if_splits prod.splits sum.splits)
  then obtain m where m: "0 \<le> m" "bpftime_progs_create (se_env se) kfd1 m (map (relocated answers) (pl_insns a)) (pl_prog_name a)
      (sint (pl_prog_type a)) (sv_shm v1) = (Inr n, sv_shm v2)" by blast
  from add_prog_success [OF m(2,1)] reg have
    p: "shm_handler (sv_shm v2) n = Some (ProgH (prog_handler_new (map (relocated answers) (pl_insns a)) (pl_prog_name a) (sint (pl_prog_type a))))"
    "is_map_fd (sv_shm v2) (sint (mi_id info))" by auto
  have "insn_of_word (relocated answers w) = insn_of_word w\<lparr>in_imm := mi_id info\<rparr>"
    if "names_map w" "in_imm (insn_of_word w) = word_of_int fd" "fd < 2 ^ 31" for w
  proof -
    have "sint (word_of_int fd :: u32) = fd" using that(3) map(2) by (simp add: signed_of_int signed_take_bit_int_eq_self)
    then show ?thesis using that map(3) by (simp add: relocated_def set_imm_insn)
  qed
  with p show ?thesis by (auto simp: prog_handler_new_def)
qed

text \<open>A kernel that has the array map 5 behind every descriptor and returns 7 for every call.\<close>

definition tiny_info :: map_info where
  "tiny_info = \<lparr>mi_type = 2, mi_id = 5, mi_key_size = 4, mi_value_size = 8, mi_max_entries = 2, mi_map_flags = 0, mi_name = ''m'',
     mi_ifindex = 0, mi_btf_vmlinux_value_type_id = 0, mi_btf_id = 0, mi_btf_key_type_id = 0, mi_btf_value_type_id = 0,
     mi_map_extra = 0\<rparr>"

definition beside_kernel :: "(unit, tiny) server" where
  "beside_kernel = tiny_server\<lparr>sv_already_setup := True, sv_run_with_kernel := True, sv_shm := zero_shm\<lparr>sh_manager := Some
     \<lparr>mg_handlers = replicate 8 Unused, mg_segment = segment_new ()\<rparr>\<rparr>\<rparr>"

definition tiny_prog :: prog_load_attr where
  "tiny_prog = \<lparr>pl_prog_type = 2, pl_insns = [0x700001118, 0, 0x95], pl_prog_name = ''p'', pl_func_info_rec_size = 0,
     pl_func_info = 0, pl_func_info_cnt = 0, pl_line_info_rec_size = 0, pl_line_info = 0, pl_line_info_cnt = 0\<rparr>"

theorem kernel_program_finds_map_witness:
  "let se = tiny_env\<lparr>se_info := \<lambda>fd k. (Some tiny_info, k)\<rparr>;
       v1 = snd (handle_sysbpf se int int (MapCreate tiny_array) beside_kernel);
       v2 = snd (handle_sysbpf se int int (ProgLoad tiny_prog) v1)
   in \<exists>p. shm_handler (sv_shm v2) 7 = Some (ProgH p) \<and> pg_insns p = [0x500001118, 0, 0x95] \<and> is_map_fd (sv_shm v2) 5"
proof -
  let ?se = "tiny_env\<lparr>se_info := \<lambda>fd k. (Some tiny_info, k)\<rparr>"
  let ?c = "handle_sysbpf ?se int int (MapCreate tiny_array) beside_kernel"
  let ?p = "handle_sysbpf ?se int int (ProgLoad tiny_prog) (snd ?c)"
  have c: "fst ?c = Inr (Ret 7)" by code_simp
  have p: "fst ?p = Inr (Ret 7)" by code_simp
  have r: "map (relocated (\<lambda>fd. Some tiny_info)) (pl_insns tiny_prog) = [0x500001118, 0, 0x95]" by code_simp
  have m: "sv_enable_mock beside_kernel" "sv_run_with_kernel beside_kernel" "sint (mi_id tiny_info) = 5"
    by (simp_all add: beside_kernel_def tiny_server_def tiny_info_def)
  have "?c = (Inr (Ret 7), snd ?c)" "?p = (Inr (Ret 7), snd ?p)" using c p by (metis prod.collapse)+
  with kernel_program_finds_map [of ?se "\<lambda>fd. Some tiny_info" beside_kernel int int tiny_array 7 "snd ?c" tiny_info int int tiny_prog 7 "snd ?p"]
    m r show ?thesis by (auto simp: Let_def)
qed

end
