(* ===== verification/Frida_Uprobe.thy ===== *)
theory Frida_Uprobe
  imports Attach_Ctx
begin

text \<open>
  Probes on functions of the process (attach/frida_uprobe_attach_impl, attach/base_attach_impl): programs are
  attached to the entry of a function, to its return, or in place of it, over the hooks of Frida's interceptor. An
  object of the implementation keeps an entry per attach and an internal entry per function; the interceptor and the
  entries hold plain pointers to internal entries, which therefore live in an explicit heap. The theory shows that
  the tables, the heap and the hooks stay in step, what a call of a hooked function does, that this is an attach
  implementation in the sense of the theory Attach_Interface, and that the attach point of a perf event is read
  back as it was written.
\<close>

section \<open>Registers\<close>

text \<open>The build for x86-64. \<open>gum_cpu\<close> is the interceptor's structure.\<close>

record pt_regs =
  pt_r15 :: u64
  pt_r14 :: u64
  pt_r13 :: u64
  pt_r12 :: u64
  pt_bp :: u64
  pt_bx :: u64
  pt_r11 :: u64
  pt_r10 :: u64
  pt_r9 :: u64
  pt_r8 :: u64
  pt_ax :: u64
  pt_cx :: u64
  pt_dx :: u64
  pt_si :: u64
  pt_di :: u64
  pt_orig_ax :: u64
  pt_ip :: u64
  pt_cs :: u64
  pt_flags :: u64
  pt_sp :: u64
  pt_ss :: u64

record gum_cpu =
  gc_rip :: u64
  gc_r15 :: u64
  gc_r14 :: u64
  gc_r13 :: u64
  gc_r12 :: u64
  gc_r11 :: u64
  gc_r10 :: u64
  gc_r9 :: u64
  gc_r8 :: u64
  gc_rdi :: u64
  gc_rsi :: u64
  gc_rbp :: u64
  gc_rsp :: u64
  gc_rbx :: u64
  gc_rdx :: u64
  gc_rcx :: u64
  gc_rax :: u64

definition convert_gum_cpu_context_to_pt_regs :: "gum_cpu \<Rightarrow> pt_regs \<Rightarrow> pt_regs" where
  "convert_gum_cpu_context_to_pt_regs c r = r\<lparr>pt_ip := gc_rip c, pt_r15 := gc_r15 c, pt_r14 := gc_r14 c, pt_r13 := gc_r13 c,
     pt_r12 := gc_r12 c, pt_r11 := gc_r11 c, pt_r10 := gc_r10 c, pt_r9 := gc_r9 c, pt_r8 := gc_r8 c, pt_di := gc_rdi c, pt_si := gc_rsi c,
     pt_bp := gc_rbp c, pt_sp := gc_rsp c, pt_bx := gc_rbx c, pt_dx := gc_rdx c, pt_cx := gc_rcx c, pt_ax := gc_rax c\<rparr>"

definition convert_pt_regs_to_gum_cpu_context :: "pt_regs \<Rightarrow> gum_cpu \<Rightarrow> gum_cpu" where
  "convert_pt_regs_to_gum_cpu_context r c = c\<lparr>gc_rip := pt_ip r, gc_r15 := pt_r15 r, gc_r14 := pt_r14 r, gc_r13 := pt_r13 r,
     gc_r12 := pt_r12 r, gc_r11 := pt_r11 r, gc_r10 := pt_r10 r, gc_r9 := pt_r9 r, gc_r8 := pt_r8 r, gc_rdi := pt_di r, gc_rsi := pt_si r,
     gc_rbp := pt_bp r, gc_rsp := pt_sp r, gc_rbx := pt_bx r, gc_rdx := pt_dx r, gc_rcx := pt_cx r, gc_rax := pt_ax r\<rparr>"

section \<open>State\<close>

definition ATTACH_UPROBE :: int where "ATTACH_UPROBE = 6"
definition ATTACH_URETPROBE :: int where "ATTACH_URETPROBE = 7"
definition ATTACH_UPROBE_OVERRIDE :: int where "ATTACH_UPROBE_OVERRIDE = 1008"
definition ATTACH_UREPLACE :: int where "ATTACH_UREPLACE = 1009"

definition ATTACH_UPROBE_INDEX :: nat where "ATTACH_UPROBE_INDEX = 0"
definition ATTACH_URETPROBE_INDEX :: nat where "ATTACH_URETPROBE_INDEX = 1"
definition ATTACH_UPROBE_OVERRIDE_INDEX :: nat where "ATTACH_UPROBE_OVERRIDE_INDEX = 2"

lemmas attach_types = ATTACH_UPROBE_def ATTACH_URETPROBE_def ATTACH_UPROBE_OVERRIDE_def ATTACH_UREPLACE_def
lemmas attach_indices = ATTACH_UPROBE_INDEX_def ATTACH_URETPROBE_INDEX_def ATTACH_UPROBE_OVERRIDE_INDEX_def

definition from_cb_idx_to_attach_type :: "nat \<Rightarrow> int" where
  "from_cb_idx_to_attach_type idx =
     (if idx = ATTACH_UPROBE_INDEX then ATTACH_UPROBE else if idx = ATTACH_UPROBE_OVERRIDE_INDEX then ATTACH_UPROBE_OVERRIDE
      else if idx = ATTACH_URETPROBE_INDEX then ATTACH_URETPROBE else - 1)"

text \<open>A callback: a function over registers in one of the three alternatives of the variant, or the entry of a
  program with the type of its attach, which is either the function the context gave or the one that wraps it to
  replace a function.\<close>

datatype 'cb ebpf_cb = Prog 'cb | Ureplace 'cb

datatype 'cb frida_callback = Direct nat 'cb | Ebpf "'cb ebpf_cb" int

fun cb_type :: "'cb frida_callback \<Rightarrow> int" where
  "cb_type (Direct idx cb) = from_cb_idx_to_attach_type idx"
| "cb_type (Ebpf cb ty) = ty"

text \<open>The number of an entry stands for its address.\<close>

record 'cb frida_entry =
  fe_callback :: "'cb frida_callback"
  fe_function :: u64
  fe_internal :: nat

definition get_type :: "'cb frida_entry \<Rightarrow> int" where
  "get_type e = cb_type (fe_callback e)"

record frida_internal =
  fa_function :: u64
  fa_users :: "int list"
  fa_listener :: bool
  fa_override_cb :: bool
  fa_overrided :: bool
  fa_user_ret :: u64
  fa_user_ret_ctx :: u64

text \<open>What the interceptor has installed at a function: a listener or a replacement, with the pointer it was given.\<close>

datatype gum_hook = Listener nat | Replacement nat

record 'cb frida_impl =
  fr_next :: int
  fr_attaches :: "int \<rightharpoonup> 'cb frida_entry"
  fr_internals :: "u64 \<rightharpoonup> nat"
  fr_heap :: "nat \<rightharpoonup> frida_internal"
  fr_alloc :: nat
  fr_hooks :: "u64 \<rightharpoonup> gum_hook"

definition frida_attach_impl_new :: "'cb frida_impl" where
  "frida_attach_impl_new = \<lparr>fr_next = 1, fr_attaches = Map.empty, fr_internals = Map.empty, fr_heap = Map.empty, fr_alloc = 0,
     fr_hooks = Map.empty\<rparr>"

text \<open>The results of the interceptor, and what the code asks of the file system, of the loaded modules and of the
  memory map of the process (as its lines).\<close>

record frida_env =
  fv_attach :: "u64 \<Rightarrow> int"
  fv_replace :: "u64 \<Rightarrow> int"
  fv_exists :: "string \<Rightarrow> bool res"
  fv_equivalent :: "string \<Rightarrow> string \<Rightarrow> bool res"
  fv_exe :: string
  fv_module_base :: "string \<Rightarrow> u64"
  fv_maps :: "string list"

section \<open>Internal entries\<close>

definition frida_internal_attach_entry_new :: "frida_env \<Rightarrow> u64 \<Rightarrow> int \<Rightarrow> 'cb frida_impl \<Rightarrow> nat res \<times> 'cb frida_impl" where
  "frida_internal_attach_entry_new env function basic_attach_type s =
     (let p = fr_alloc s;
          obj = \<lparr>fa_function = function, fa_users = [], fa_listener = False, fa_override_cb = False, fa_overrided = False,
                 fa_user_ret = 0, fa_user_ret_ctx = 0\<rparr>
      in if basic_attach_type = ATTACH_UPROBE \<or> basic_attach_type = ATTACH_URETPROBE then
           (if fv_attach env function < 0 then (Inl Throw, s)
            else (Inr p, s\<lparr>fr_heap := (fr_heap s)(p \<mapsto> obj\<lparr>fa_listener := True\<rparr>), fr_alloc := Suc p,
                    fr_hooks := (fr_hooks s)(function \<mapsto> Listener p)\<rparr>))
         else if basic_attach_type = ATTACH_UPROBE_OVERRIDE then
           (if fv_replace env function < 0 then (Inl Throw, s)
            else (Inr p, s\<lparr>fr_heap := (fr_heap s)(p \<mapsto> obj\<lparr>fa_override_cb := True\<rparr>), fr_alloc := Suc p,
                    fr_hooks := (fr_hooks s)(function \<mapsto> Replacement p)\<rparr>))
         else (Inr p, s\<lparr>fr_heap := (fr_heap s)(p \<mapsto> obj), fr_alloc := Suc p\<rparr>))"

text \<open>Erasing the internal entry of a function destroys it, and its destructor takes the hook back.\<close>

definition erase_internal :: "u64 \<Rightarrow> 'cb frida_impl \<Rightarrow> 'cb frida_impl" where
  "erase_internal f s = (case fr_internals s f of None \<Rightarrow> s
     | Some p \<Rightarrow> s\<lparr>fr_internals := (fr_internals s)(f := None), fr_heap := (fr_heap s)(p := None), fr_hooks := (fr_hooks s)(f := None)\<rparr>)"

fun any_of_type :: "'cb frida_impl \<Rightarrow> int list \<Rightarrow> int list \<Rightarrow> bool res" where
  "any_of_type s tys [] = Inr False"
| "any_of_type s tys (i # is) = (case fr_attaches s i of None \<Rightarrow> Inl Fault
     | Some e \<Rightarrow> if get_type e \<in> set tys then Inr True else any_of_type s tys is)"

definition has_override :: "'cb frida_impl \<Rightarrow> frida_internal \<Rightarrow> bool res" where
  "has_override s ia = any_of_type s [ATTACH_UPROBE_OVERRIDE] (fa_users ia)"

definition has_uprobe_or_uretprobe :: "'cb frida_impl \<Rightarrow> frida_internal \<Rightarrow> bool res" where
  "has_uprobe_or_uretprobe s ia = any_of_type s [ATTACH_UPROBE, ATTACH_URETPROBE] (fa_users ia)"

section \<open>Attaching and detaching\<close>

definition frida_allocate_id :: "'cb frida_impl \<Rightarrow> int \<times> 'cb frida_impl" where
  "frida_allocate_id s = (fr_next s, s\<lparr>fr_next := fr_next s + 1\<rparr>)"

definition add_entry :: "u64 \<Rightarrow> 'cb frida_callback \<Rightarrow> nat \<Rightarrow> frida_internal \<Rightarrow> 'cb frida_impl \<Rightarrow> int res \<times> 'cb frida_impl" where
  "add_entry func_addr cb p ia s =
     (let (i, s) = frida_allocate_id s
      in (Inr i, s\<lparr>fr_attaches := (fr_attaches s)(i \<mapsto> \<lparr>fe_callback = cb, fe_function = func_addr, fe_internal = p\<rparr>),
           fr_heap := (fr_heap s)(p \<mapsto> ia\<lparr>fa_users := fa_users ia @ [i]\<rparr>)\<rparr>))"

definition attach_at :: "frida_env \<Rightarrow> u64 \<Rightarrow> 'cb frida_callback \<Rightarrow> 'cb frida_impl \<Rightarrow> int res \<times> 'cb frida_impl" where
  "attach_at env func_addr cb s =
     (if func_addr = 0 then (Inl (NegErrno EINVAL), s)
      else (case fr_internals s func_addr of
        None \<Rightarrow> (case frida_internal_attach_entry_new env func_addr (cb_type cb) s of
            (Inl e, s') \<Rightarrow> (Inl e, s')
          | (Inr p, s') \<Rightarrow> (case fr_heap s' p of None \<Rightarrow> (Inl Fault, s')
              | Some ia \<Rightarrow> add_entry func_addr cb p ia (s'\<lparr>fr_internals := (fr_internals s')(func_addr \<mapsto> p)\<rparr>)))
      | Some p \<Rightarrow> (case fr_heap s p of None \<Rightarrow> (Inl Fault, s)
          | Some ia \<Rightarrow> (case has_override s ia of Inl e \<Rightarrow> (Inl e, s)
              | Inr True \<Rightarrow> (Inl (NegErrno EEXIST), s)
              | Inr False \<Rightarrow> add_entry func_addr cb p ia s))))"

definition attach_at_with_ebpf_callback :: "frida_env \<Rightarrow> u64 \<Rightarrow> 'cb ebpf_cb \<times> int \<Rightarrow> 'cb frida_impl \<Rightarrow> int res \<times> 'cb frida_impl" where
  "attach_at_with_ebpf_callback env func_addr cb s = attach_at env func_addr (Ebpf (fst cb) (snd cb)) s"

definition create_uprobe_at :: "frida_env \<Rightarrow> u64 \<Rightarrow> 'cb \<Rightarrow> 'cb frida_impl \<Rightarrow> int res \<times> 'cb frida_impl" where
  "create_uprobe_at env func_addr cb s = attach_at env func_addr (Direct ATTACH_UPROBE_INDEX cb) s"

definition create_uretprobe_at :: "frida_env \<Rightarrow> u64 \<Rightarrow> 'cb \<Rightarrow> 'cb frida_impl \<Rightarrow> int res \<times> 'cb frida_impl" where
  "create_uretprobe_at env func_addr cb s = attach_at env func_addr (Direct ATTACH_URETPROBE_INDEX cb) s"

definition create_uprobe_override_at :: "frida_env \<Rightarrow> u64 \<Rightarrow> 'cb \<Rightarrow> 'cb frida_impl \<Rightarrow> int res \<times> 'cb frida_impl" where
  "create_uprobe_override_at env func_addr cb s = attach_at env func_addr (Direct ATTACH_UPROBE_OVERRIDE_INDEX cb) s"

text \<open>A number that is not live is logged, and zero is returned all the same.\<close>

definition frida_detach :: "int \<Rightarrow> 'cb frida_impl \<Rightarrow> unit res \<times> 'cb frida_impl" where
  "frida_detach i s = (case fr_attaches s i of None \<Rightarrow> (Inr (), s)
     | Some e \<Rightarrow> (case fr_heap s (fe_internal e) of None \<Rightarrow> (Inl Fault, s)
       | Some p \<Rightarrow>
           let users = filter (\<lambda>v. v \<noteq> i) (fa_users p);
               s = s\<lparr>fr_heap := (fr_heap s)(fe_internal e \<mapsto> p\<lparr>fa_users := users\<rparr>), fr_attaches := (fr_attaches s)(i := None)\<rparr>
           in (Inr (), if users = [] \<and> fa_function p \<noteq> 0 then erase_internal (fa_function p) s else s)))"

definition erase_attach :: "int \<Rightarrow> 'cb frida_impl \<Rightarrow> unit res \<times> 'cb frida_impl" where
  "erase_attach i s = (case fr_attaches s i of None \<Rightarrow> (Inl Fault, s)
     | Some e \<Rightarrow> (Inr (), s\<lparr>fr_attaches := (fr_attaches s)(i := None)\<rparr>))"

definition detach_by_func_addr :: "u64 \<Rightarrow> 'cb frida_impl \<Rightarrow> unit res \<times> 'cb frida_impl" where
  "detach_by_func_addr func s = (case fr_internals s func of None \<Rightarrow> (Inl (NegErrno ENOENT), s)
     | Some p \<Rightarrow> (case fr_heap s p of None \<Rightarrow> (Inl Fault, s)
       | Some ia \<Rightarrow> (case for_each erase_attach (fa_users ia) s of
           (Inl e, s') \<Rightarrow> (Inl e, s') | (Inr _, s') \<Rightarrow> (Inr (), erase_internal func s'))))"

text \<open>\<open>order\<close>: the numbers of the entries in the order of the hash table.\<close>

definition iterate_attaches :: "int list \<Rightarrow> (int \<Rightarrow> u64 \<Rightarrow> int \<Rightarrow> 'w \<Rightarrow> 'w) \<Rightarrow> 'cb frida_impl \<Rightarrow> 'w \<Rightarrow> 'w" where
  "iterate_attaches order cb s w =
     fold (\<lambda>k w. case fr_attaches s k of None \<Rightarrow> w | Some v \<Rightarrow> cb k (fe_function v) (get_type v) w) order w"

section \<open>Private data\<close>

datatype frida_private = FridaData u64 string | NotFrida

text \<open>\<^verbatim>\<open>std::stoul\<close>: as \<open>stoi\<close>, with a sign that negates modulo \<open>2 ^ 64\<close>.\<close>

definition stoul :: "string \<Rightarrow> u64 option" where
  "stoul str =
     (let s = dropWhile is_space str;
          (neg, s) = (case s of c # r \<Rightarrow> if c = CHR ''-'' then (True, r) else if c = CHR ''+'' then (False, r) else (False, s)
            | [] \<Rightarrow> (False, []));
          ds = takeWhile is_digit s;
          n = digits_value ds
      in if ds = [] \<or> 2 ^ 64 \<le> n then None else Some (if neg then - word_of_int n else word_of_int n))"

text \<open>The module of the executable itself is looked up under the empty name.\<close>

definition resolve_function_addr_by_module_offset :: "frida_env \<Rightarrow> string \<Rightarrow> u64 \<Rightarrow> u64 res" where
  "resolve_function_addr_by_module_offset env module_name func_offset =
     bindr (fv_equivalent env module_name (fv_exe env)) (\<lambda>same.
       let base = fv_module_base env (if same then [] else module_name)
       in Inr (if base = 0 then 0 else base + func_offset))"

definition or_throw :: "'a option \<Rightarrow> 'a res" where
  "or_throw x = (case x of None \<Rightarrow> Inl Throw | Some y \<Rightarrow> Inr y)"

definition frida_initialize_from_string :: "frida_env \<Rightarrow> string \<Rightarrow> frida_private res" where
  "frida_initialize_from_string env sv =
     (if CHR '':'' \<notin> set sv then bindr (or_throw (stoul sv)) (\<lambda>addr. Inr (FridaData addr []))
      else
        let offset_part = rev (takeWhile (\<lambda>c. c \<noteq> CHR '':'') (rev sv));
            module_part = take (length sv - length offset_part - 1) sv
        in if offset_part = [] then Inl (NegErrno EINVAL)
           else bindr (or_throw (stoul offset_part)) (\<lambda>off.
             bindr (resolve_function_addr_by_module_offset env module_part off) (\<lambda>addr. Inr (FridaData addr module_part))))"

text \<open>The fields of a line, as \<^verbatim>\<open>%s\<close> of \<^verbatim>\<open>sscanf\<close> reads them; the sixth of a line of the memory map is the path.\<close>

function line_fields :: "string \<Rightarrow> string list" where
  "line_fields line = (case dropWhile is_space line of [] \<Rightarrow> []
     | c # r \<Rightarrow> (c # takeWhile (\<lambda>x. \<not> is_space x) r) # line_fields (dropWhile (\<lambda>x. \<not> is_space x) r))"
  by pat_completeness auto

termination line_fields
proof (relation "measure length")
  fix line r :: string and c
  assume "dropWhile is_space line = c # r"
  then have "length (c # r) \<le> length line" by (metis length_dropWhile_le)
  then show "(dropWhile (\<lambda>x. \<not> is_space x) r, line) \<in> measure length"
    using length_dropWhile_le [of "\<lambda>x. \<not> is_space x" r] by simp
qed simp

declare line_fields.simps [simp del]

fun module_mapped :: "frida_env \<Rightarrow> string \<Rightarrow> string list \<Rightarrow> bool res" where
  "module_mapped env module_name [] = Inr False"
| "module_mapped env module_name (line # lines) =
     (if length (line_fields line) \<le> 5 then module_mapped env module_name lines
      else let curr_module = line_fields line ! 5
        in bindr (fv_exists env curr_module) (\<lambda>ex.
             if ex then bindr (fv_equivalent env module_name curr_module) (\<lambda>matched.
               if matched then Inr True else module_mapped env module_name lines)
             else module_mapped env module_name lines))"

definition frida_create ::
  "frida_env \<Rightarrow> 'cb \<times> frida_private \<times> int \<Rightarrow> 'cb frida_impl \<Rightarrow> int res \<times> 'cb frida_impl" where
  "frida_create env q s = (case q of (cb, priv, attach_type) \<Rightarrow> (case priv of
       NotFrida \<Rightarrow> (Inl (NegErrno EINVAL), s)
     | FridaData addr module_name \<Rightarrow>
         (case (if module_name \<noteq> [] then module_mapped env module_name (fv_maps env) else Inr True) of
            Inl e \<Rightarrow> (Inl e, s)
          | Inr False \<Rightarrow> (Inl (NegErrno EINVAL), s)
          | Inr True \<Rightarrow>
              if attach_type = ATTACH_UPROBE \<or> attach_type = ATTACH_URETPROBE \<or> attach_type = ATTACH_UPROBE_OVERRIDE
              then attach_at_with_ebpf_callback env addr (Prog cb, attach_type) s
              else if attach_type = ATTACH_UREPLACE
              then attach_at_with_ebpf_callback env addr (Ureplace cb, ATTACH_UPROBE_OVERRIDE) s
              else (Inl (NegErrno ENOTSUP), s))))"

section \<open>Calls of hooked functions\<close>

text \<open>A run of a callback: the registers it leaves, the results it sets with \<^verbatim>\<open>bpf_override_return\<close> or
  \<^verbatim>\<open>bpf_set_retval\<close> (context and value), what it returns, and the state of the rest of the program.\<close>

record 'w cb_run =
  cr_regs :: pt_regs
  cr_sets :: "(u64 \<times> u64) list"
  cr_err :: int
  cr_ret :: u64
  cr_world :: 'w

type_synonym ('cb, 'w) runner = "'cb \<Rightarrow> pt_regs \<Rightarrow> 'w \<Rightarrow> 'w cb_run"

fun run_ebpf :: "('cb, 'w) runner \<Rightarrow> 'cb ebpf_cb \<Rightarrow> pt_regs \<Rightarrow> 'w \<Rightarrow> 'w cb_run" where
  "run_ebpf run (Prog cb) regs w = run cb regs w"
| "run_ebpf run (Ureplace cb) regs w =
     (let r = run cb regs w in if cr_err r < 0 then r else r\<lparr>cr_sets := cr_sets r @ [(0, cr_ret r)]\<rparr>)"

text \<open>A function over registers gets them as a constant; a program gets their memory. The wrong alternative of the
  variant throws.\<close>

fun run_callback :: "('cb, 'w) runner \<Rightarrow> nat \<Rightarrow> 'cb frida_callback \<Rightarrow> pt_regs \<Rightarrow> 'w \<Rightarrow> 'w cb_run res" where
  "run_callback run idx (Direct k cb) regs w = (if k = idx then Inr ((run cb regs w)\<lparr>cr_regs := regs\<rparr>) else Inl Throw)"
| "run_callback run idx (Ebpf cb ty) regs w = Inr (run_ebpf run cb regs w)"

text \<open>\<open>th\<close> is the thread's callback for override results: none, or the one of an internal entry, which it reaches
  by its address.\<close>

fun override_returns :: "nat option \<Rightarrow> (u64 \<times> u64) list \<Rightarrow> 'cb frida_impl \<Rightarrow> 'cb frida_impl res" where
  "override_returns th [] s = Inr s"
| "override_returns th ((ctx, v) # vs) s = (case th of None \<Rightarrow> Inl Throw
     | Some p \<Rightarrow> (case fr_heap s p of None \<Rightarrow> Inl Fault
       | Some ia \<Rightarrow> if \<not> fa_override_cb ia then Inl Throw
           else override_returns th vs (s\<lparr>fr_heap := (fr_heap s)(p \<mapsto>
             ia\<lparr>fa_overrided := True, fa_user_ret := v, fa_user_ret_ctx := ctx\<rparr>)\<rparr>)))"

fun iterate_callbacks :: "('cb, 'w) runner \<Rightarrow> nat \<Rightarrow> int \<Rightarrow> nat option \<Rightarrow> int list \<Rightarrow> pt_regs \<Rightarrow> 'cb frida_impl \<Rightarrow> 'w \<Rightarrow>
    ('cb frida_impl \<times> 'w) res" where
  "iterate_callbacks run idx ty th [] regs s w = Inr (s, w)"
| "iterate_callbacks run idx ty th (i # is) regs s w = (case fr_attaches s i of None \<Rightarrow> Inl Fault
     | Some e \<Rightarrow>
         if get_type e = ty then bindr (run_callback run idx (fe_callback e) regs w) (\<lambda>r.
           bindr (override_returns th (cr_sets r) s) (\<lambda>s. iterate_callbacks run idx ty th is (cr_regs r) s (cr_world r)))
         else iterate_callbacks run idx ty th is regs s w)"

definition iterate_uprobe_callbacks :: "('cb, 'w) runner \<Rightarrow> nat option \<Rightarrow> frida_internal \<Rightarrow> pt_regs \<Rightarrow> 'cb frida_impl \<Rightarrow> 'w \<Rightarrow>
    ('cb frida_impl \<times> 'w) res" where
  "iterate_uprobe_callbacks run th ia regs s w = iterate_callbacks run ATTACH_UPROBE_INDEX ATTACH_UPROBE th (fa_users ia) regs s w"

definition iterate_uretprobe_callbacks :: "('cb, 'w) runner \<Rightarrow> nat option \<Rightarrow> frida_internal \<Rightarrow> pt_regs \<Rightarrow> 'cb frida_impl \<Rightarrow> 'w \<Rightarrow>
    ('cb frida_impl \<times> 'w) res" where
  "iterate_uretprobe_callbacks run th ia regs s w =
     iterate_callbacks run ATTACH_URETPROBE_INDEX ATTACH_URETPROBE th (fa_users ia) regs s w"

text \<open>The first override of the list; without one it throws.\<close>

fun run_filter_callback :: "('cb, 'w) runner \<Rightarrow> nat option \<Rightarrow> int list \<Rightarrow> pt_regs \<Rightarrow> 'cb frida_impl \<Rightarrow> 'w \<Rightarrow> ('cb frida_impl \<times> 'w) res" where
  "run_filter_callback run th [] regs s w = Inl Throw"
| "run_filter_callback run th (i # is) regs s w = (case fr_attaches s i of None \<Rightarrow> Inl Fault
     | Some e \<Rightarrow>
         if get_type e = ATTACH_UPROBE_OVERRIDE then
           bindr (run_callback run ATTACH_UPROBE_OVERRIDE_INDEX (fe_callback e) regs w) (\<lambda>r.
             bindr (override_returns th (cr_sets r) s) (\<lambda>s. Inr (s, cr_world r)))
         else run_filter_callback run th is regs s w)"

text \<open>A call: its arguments by the calling convention, what the handler leaves in the places of those it does not
  pass on, the registers at the entry and, with a result, at the exit, the content of the structures before they
  are filled, and the original function.\<close>

record 'w fcall =
  fc_args :: "nat \<Rightarrow> u64"
  fc_rest :: "nat \<Rightarrow> u64"
  fc_cpu :: gum_cpu
  fc_exit :: "u64 \<Rightarrow> gum_cpu"
  fc_junk :: pt_regs
  fc_orig :: "(nat \<Rightarrow> u64) \<Rightarrow> 'w \<Rightarrow> u64 \<times> 'w"

definition uprobe_listener_on_enter :: "('cb, 'w) runner \<Rightarrow> 'w fcall \<Rightarrow> nat option \<Rightarrow> nat \<Rightarrow> 'cb frida_impl \<Rightarrow> 'w \<Rightarrow>
    ('cb frida_impl \<times> 'w) res" where
  "uprobe_listener_on_enter run c th p s w = bindr (or_fault (fr_heap s p)) (\<lambda>ia.
     iterate_uprobe_callbacks run th ia (convert_gum_cpu_context_to_pt_regs (fc_cpu c) (fc_junk c)) s w)"

definition uprobe_listener_on_leave :: "('cb, 'w) runner \<Rightarrow> 'w fcall \<Rightarrow> u64 \<Rightarrow> nat option \<Rightarrow> nat \<Rightarrow> 'cb frida_impl \<Rightarrow> 'w \<Rightarrow>
    ('cb frida_impl \<times> 'w) res" where
  "uprobe_listener_on_leave run c ret th p s w = bindr (or_fault (fr_heap s p)) (\<lambda>ia.
     iterate_uretprobe_callbacks run th ia (convert_gum_cpu_context_to_pt_regs (fc_exit c ret) (fc_junk c)) s w)"

text \<open>The replacement of a function. It returns its result and the thread's callback, which stays set.\<close>

definition override_handler :: "('cb, 'w) runner \<Rightarrow> 'w fcall \<Rightarrow> nat \<Rightarrow> 'cb frida_impl \<Rightarrow> 'w \<Rightarrow>
    (u64 \<times> nat option \<times> 'cb frida_impl \<times> 'w) res" where
  "override_handler run c p s w = bindr (or_fault (fr_heap s p)) (\<lambda>ia.
     let regs = convert_gum_cpu_context_to_pt_regs (fc_cpu c) (fc_junk c);
         s = s\<lparr>fr_heap := (fr_heap s)(p \<mapsto> ia\<lparr>fa_overrided := False\<rparr>)\<rparr>;
         th = Some p
     in bindr (run_filter_callback run th (fa_users ia) regs s w) (\<lambda>(s, w).
       bindr (or_fault (fr_heap s p)) (\<lambda>ia.
         if fa_overrided ia then Inr (fa_user_ret ia, th, s, w)
         else let (ret, w) = fc_orig c (\<lambda>n. if n < 5 then fc_args c n else fc_rest c n) w in Inr (ret, th, s, w))))"

text \<open>A call of the function at an address, with what the interceptor has installed there.\<close>

definition call_function :: "('cb, 'w) runner \<Rightarrow> 'w fcall \<Rightarrow> u64 \<Rightarrow> nat option \<Rightarrow> 'cb frida_impl \<Rightarrow> 'w \<Rightarrow>
    (u64 \<times> nat option \<times> 'cb frida_impl \<times> 'w) res" where
  "call_function run c f th s w = (case fr_hooks s f of
       None \<Rightarrow> (let (ret, w) = fc_orig c (fc_args c) w in Inr (ret, th, s, w))
     | Some (Listener p) \<Rightarrow> bindr (uprobe_listener_on_enter run c th p s w) (\<lambda>(s, w).
         let (ret, w) = fc_orig c (fc_args c) w
         in bindr (uprobe_listener_on_leave run c ret th p s w) (\<lambda>(s, w). Inr (ret, th, s, w)))
     | Some (Replacement p) \<Rightarrow> override_handler run c p s w)"

section \<open>Helpers of probes\<close>

text \<open>\<open>cur\<close> is the invocation the thread is in, with its arguments and its result. The value is what is written through
  the pointer of the program.\<close>

definition bpftime_get_func_ret :: "((nat \<Rightarrow> u64) \<times> u64) option \<Rightarrow> u64 \<times> u64 option" where
  "bpftime_get_func_ret cur = (case cur of None \<Rightarrow> (word_of_int (neg_errno ENOTSUP), None) | Some (args, ret) \<Rightarrow> (0, Some ret))"

definition bpftime_get_func_arg :: "((nat \<Rightarrow> u64) \<times> u64) option \<Rightarrow> u32 \<Rightarrow> u64 \<times> u64 option" where
  "bpftime_get_func_arg cur n = (case cur of None \<Rightarrow> (word_of_int (neg_errno EINVAL), None)
     | Some (args, ret) \<Rightarrow> (0, Some (args (unat n))))"

definition bpftime_get_retval :: "((nat \<Rightarrow> u64) \<times> u64) option \<Rightarrow> u64" where
  "bpftime_get_retval cur = (case cur of None \<Rightarrow> word_of_int (neg_errno ENOTSUP) | Some (args, ret) \<Rightarrow> ret)"

text \<open>The helpers the implementation registers, given the addresses of the three functions.\<close>

definition frida_custom_helpers :: "nat \<Rightarrow> nat \<Rightarrow> nat \<Rightarrow> helper_info list" where
  "frida_custom_helpers func_arg func_ret retval =
     [\<lparr>hi_index = 183, hi_name = ''bpf_get_func_arg'', hi_fn = func_arg\<rparr>,
      \<lparr>hi_index = 184, hi_name = ''bpf_get_func_ret_id'', hi_fn = func_ret\<rparr>,
      \<lparr>hi_index = 186, hi_name = ''bpf_get_retval'', hi_fn = retval\<rparr>]"

section \<open>The tables, the heap and the hooks agree\<close>

text \<open>The entries on a function, and the entries that override.\<close>

definition on_function :: "'cb frida_impl \<Rightarrow> u64 \<Rightarrow> int set" where
  "on_function s f = {i. \<exists>e. fr_attaches s i = Some e \<and> fe_function e = f}"

definition of_type :: "'cb frida_impl \<Rightarrow> int \<Rightarrow> int set" where
  "of_type s ty = {i. \<exists>e. fr_attaches s i = Some e \<and> get_type e = ty}"

text \<open>The object at \<open>p\<close> for the function \<open>f\<close>: it lists the entries on the function in the order of their numbers, only
  the last of them overrides, and the hook is the one its members say; a function that is replaced has its
  override and nothing else. While an object is being filled or emptied (\<open>open_at\<close>) the list may be empty.\<close>

definition internal_ok :: "bool \<Rightarrow> 'cb frida_impl \<Rightarrow> u64 \<Rightarrow> nat \<Rightarrow> frida_internal \<Rightarrow> bool" where
  "internal_ok may_be_empty s f p ia \<longleftrightarrow> fa_function ia = f \<and> sorted_wrt (<) (fa_users ia) \<and> set (fa_users ia) = on_function s f \<and>
     (fa_users ia \<noteq> [] \<or> may_be_empty) \<and> set (butlast (fa_users ia)) \<inter> of_type s ATTACH_UPROBE_OVERRIDE = {} \<and>
     (if fa_listener ia then \<not> fa_override_cb ia \<and> fr_hooks s f = Some (Listener p)
      else if fa_override_cb ia then fr_hooks s f = Some (Replacement p) \<and> length (fa_users ia) \<le> 1 \<and>
        set (fa_users ia) \<subseteq> of_type s ATTACH_UPROBE_OVERRIDE
      else fr_hooks s f = None)"

definition frida_inv_at :: "u64 set \<Rightarrow> 'cb frida_impl \<Rightarrow> bool" where
  "frida_inv_at open_at s \<longleftrightarrow> 1 \<le> fr_next s \<and>
     (\<forall>i e. fr_attaches s i = Some e \<longrightarrow> 1 \<le> i \<and> i < fr_next s \<and> fr_internals s (fe_function e) = Some (fe_internal e)) \<and>
     (\<forall>f p. fr_internals s f = Some p \<longrightarrow> f \<noteq> 0 \<and> p < fr_alloc s \<and> (\<exists>ia. fr_heap s p = Some ia \<and> internal_ok (f \<in> open_at) s f p ia)) \<and>
     (\<forall>p ia. fr_heap s p = Some ia \<longrightarrow> fr_internals s (fa_function ia) = Some p) \<and>
     (\<forall>f. fr_internals s f = None \<longrightarrow> fr_hooks s f = None)"

abbreviation frida_inv :: "'cb frida_impl \<Rightarrow> bool" where
  "frida_inv \<equiv> frida_inv_at {}"

lemma frida_invD:
  assumes "frida_inv_at X s"
  shows "1 \<le> fr_next s"
    "fr_attaches s i = Some e \<Longrightarrow> 1 \<le> i \<and> i < fr_next s \<and> fr_internals s (fe_function e) = Some (fe_internal e)"
    "fr_internals s f = Some p \<Longrightarrow> f \<noteq> 0 \<and> p < fr_alloc s \<and> (\<exists>ia. fr_heap s p = Some ia \<and> internal_ok (f \<in> X) s f p ia)"
    "fr_heap s p = Some ia \<Longrightarrow> fr_internals s (fa_function ia) = Some p"
    "fr_internals s f = None \<Longrightarrow> fr_hooks s f = None"
  using assms unfolding frida_inv_at_def by blast+

lemma frida_inv_object:
  assumes "frida_inv_at X s" "fr_internals s f = Some p"
  obtains ia where "fr_heap s p = Some ia" "internal_ok (f \<in> X) s f p ia"
  using frida_invD(3) [OF assms] by blast

lemma frida_inv_internals_inj:
  assumes "frida_inv_at X s" "fr_internals s f = Some p" "fr_internals s g = Some p"
  shows "f = g"
  using frida_invD(3) [OF assms(1,2)] frida_invD(3) [OF assms(1,3)] by (auto simp: internal_ok_def)

lemma frida_inv_new: "frida_inv frida_attach_impl_new"
  by (simp add: frida_inv_at_def frida_attach_impl_new_def)

text \<open>The objects of other functions do not change with an operation on one function.\<close>

lemma internal_ok_cong:
  assumes "internal_ok b s f p ia" "on_function s' f = on_function s f" "fr_hooks s' f = fr_hooks s f"
    "of_type s' ATTACH_UPROBE_OVERRIDE \<inter> on_function s f = of_type s ATTACH_UPROBE_OVERRIDE \<inter> on_function s f"
  shows "internal_ok b s' f p ia"
proof -
  have "set (butlast (fa_users ia)) \<subseteq> on_function s f" using assms(1) by (auto simp: internal_ok_def dest: in_set_butlastD)
  with assms show ?thesis unfolding internal_ok_def by (simp split: if_splits) blast+
qed

lemma on_function_upd:
  "on_function (s\<lparr>fr_attaches := (fr_attaches s)(i \<mapsto> e)\<rparr>) f = (if fe_function e = f then insert i (on_function s f) else on_function s f - {i})"
  "on_function (s\<lparr>fr_attaches := (fr_attaches s)(i := None)\<rparr>) f = on_function s f - {i}"
  by (auto simp: on_function_def)

lemma of_type_upd:
  "of_type (s\<lparr>fr_attaches := (fr_attaches s)(i \<mapsto> e)\<rparr>) ty = (if get_type e = ty then insert i (of_type s ty) else of_type s ty - {i})"
  "of_type (s\<lparr>fr_attaches := (fr_attaches s)(i := None)\<rparr>) ty = of_type s ty - {i}"
  by (auto simp: of_type_def)

lemma entry_sets_frame [simp]:
  "on_function (s\<lparr>fr_heap := h\<rparr>) = on_function s" "of_type (s\<lparr>fr_heap := h\<rparr>) = of_type s"
  "on_function (s\<lparr>fr_next := n\<rparr>) = on_function s" "of_type (s\<lparr>fr_next := n\<rparr>) = of_type s"
  "on_function (s\<lparr>fr_internals := m\<rparr>) = on_function s" "of_type (s\<lparr>fr_internals := m\<rparr>) = of_type s"
  "on_function (s\<lparr>fr_alloc := a\<rparr>) = on_function s" "of_type (s\<lparr>fr_alloc := a\<rparr>) = of_type s"
  "on_function (s\<lparr>fr_hooks := k\<rparr>) = on_function s" "of_type (s\<lparr>fr_hooks := k\<rparr>) = of_type s"
  by (auto simp: on_function_def of_type_def fun_eq_iff)

lemma on_function_bound: "frida_inv_at X s \<Longrightarrow> i \<in> on_function s f \<Longrightarrow> i < fr_next s"
  using frida_invD(2) by (fastforce simp: on_function_def)

lemma on_function_none:
  assumes "frida_inv_at X s" "fr_internals s f = None"
  shows "on_function s f = {}"
  using frida_invD(2) [OF assms(1)] assms(2) by (force simp: on_function_def)

lemma any_of_type_spec:
  assumes "set is \<subseteq> dom (fr_attaches s)"
  shows "any_of_type s tys is = Inr (\<exists>i \<in> set is. \<exists>ty \<in> set tys. i \<in> of_type s ty)"
  using assms by (induction "is") (auto simp: of_type_def)

lemma on_function_live: "on_function s f \<subseteq> dom (fr_attaches s)"
  by (auto simp: on_function_def)

lemma has_override_spec:
  assumes "internal_ok b s f p ia"
  shows "has_override s ia = Inr (set (fa_users ia) \<inter> of_type s ATTACH_UPROBE_OVERRIDE \<noteq> {})"
proof -
  have "set (fa_users ia) \<subseteq> dom (fr_attaches s)" using assms on_function_live by (auto simp: internal_ok_def)
  then show ?thesis by (auto simp: has_override_def any_of_type_spec)
qed

lemma fresh_pointer:
  assumes "frida_inv_at X s" "fr_alloc s \<le> p"
  shows "fr_heap s p = None"
proof (cases "fr_heap s p")
  case (Some ia)
  with frida_invD(4) [OF assms(1) Some] frida_invD(3) [OF assms(1)] assms(2) show ?thesis by fastforce
qed

lemma open_internal_inv:
  assumes inv: "frida_inv s" and f: "fr_internals s f = None" "f \<noteq> 0"
    and ia: "fa_function ia = f" "fa_users ia = []"
      "if fa_listener ia then \<not> fa_override_cb ia \<and> k = Some (Listener (fr_alloc s))
       else if fa_override_cb ia then k = Some (Replacement (fr_alloc s)) else k = None"
  shows "frida_inv_at {f} (s\<lparr>fr_heap := (fr_heap s)(fr_alloc s \<mapsto> ia), fr_alloc := Suc (fr_alloc s), fr_hooks := (fr_hooks s)(f := k),
    fr_internals := (fr_internals s)(f \<mapsto> fr_alloc s)\<rparr>)" (is "frida_inv_at _ ?s")
  unfolding frida_inv_at_def
proof (intro conjI allI impI)
  note D = frida_invD [OF inv]
  have on_f: "on_function s f = {}" by (rule on_function_none [OF inv f(1)])
  show "1 \<le> fr_next ?s" using D(1) by simp
  show "1 \<le> i" "i < fr_next ?s" "fr_internals ?s (fe_function e) = Some (fe_internal e)" if "fr_attaches ?s i = Some e" for i e
    using D(2) [of i e] that f(1) by auto
  show "fr_internals ?s (fa_function ja) = Some p" if "fr_heap ?s p = Some ja" for p ja
    using D(4) [of p ja] that f(1) ia(1) by (auto split: if_splits)
  show "fr_hooks ?s g = None" if "fr_internals ?s g = None" for g using D(5) that by (auto split: if_splits)
  fix g q assume q: "fr_internals ?s g = Some q"
  show "g \<noteq> 0" "q < fr_alloc ?s" using q D(3) [of g q] f(2) by (auto split: if_splits)
  show "\<exists>ja. fr_heap ?s q = Some ja \<and> internal_ok (g \<in> {f}) ?s g q ja"
  proof (cases "g = f")
    case True
    then show ?thesis using q ia on_f by (auto simp: internal_ok_def)
  next
    case False
    then have g: "fr_internals s g = Some q" using q by simp
    obtain ja where ja: "fr_heap s q = Some ja" "internal_ok (g \<in> {}) s g q ja" using inv g by (rule frida_inv_object)
    have "internal_ok (g \<in> {f}) ?s g q ja" by (rule internal_ok_cong [where s = s]) (use ja(2) False in auto)
    moreover have "q \<noteq> fr_alloc s" using D(3) [OF g] by auto
    ultimately show ?thesis using ja(1) by auto
  qed
qed

lemma new_internal_cases:
  assumes "frida_internal_attach_entry_new env f ty s = (Inr p, s1)"
  obtains ia k where "p = fr_alloc s" "s1 = s\<lparr>fr_heap := (fr_heap s)(p \<mapsto> ia), fr_alloc := Suc p, fr_hooks := k\<rparr>"
    "k = fr_hooks s \<and> \<not> fa_listener ia \<and> \<not> fa_override_cb ia \<and> ty \<notin> {ATTACH_UPROBE, ATTACH_URETPROBE, ATTACH_UPROBE_OVERRIDE} \<or>
     k = (fr_hooks s)(f \<mapsto> Listener p) \<and> fa_listener ia \<and> \<not> fa_override_cb ia \<and> ty \<in> {ATTACH_UPROBE, ATTACH_URETPROBE} \<or>
     k = (fr_hooks s)(f \<mapsto> Replacement p) \<and> \<not> fa_listener ia \<and> fa_override_cb ia \<and> ty = ATTACH_UPROBE_OVERRIDE"
    "fa_function ia = f" "fa_users ia = []"
proof -
  let ?o = "\<lparr>fa_function = f, fa_users = [], fa_listener = False, fa_override_cb = False, fa_overrided = False,
    fa_user_ret = 0, fa_user_ret_ctx = 0\<rparr>"
  consider "ty \<in> {ATTACH_UPROBE, ATTACH_URETPROBE}" | "ty = ATTACH_UPROBE_OVERRIDE" | "ty \<notin> {ATTACH_UPROBE, ATTACH_URETPROBE, ATTACH_UPROBE_OVERRIDE}" by auto
  then show thesis
  proof cases
    case 1
    with assms that [where ia = "?o\<lparr>fa_listener := True\<rparr>" and k = "(fr_hooks s)(f \<mapsto> Listener p)"] show thesis
      by (auto simp: frida_internal_attach_entry_new_def Let_def split: if_splits)
  next
    case 2
    with assms that [where ia = "?o\<lparr>fa_override_cb := True\<rparr>" and k = "(fr_hooks s)(f \<mapsto> Replacement p)"] show thesis
      by (auto simp: frida_internal_attach_entry_new_def Let_def attach_types split: if_splits)
  next
    case 3
    with assms that [where ia = ?o and k = "fr_hooks s"] show thesis by (auto simp: frida_internal_attach_entry_new_def Let_def)
  qed
qed

lemma add_entry_inv:
  assumes inv: "frida_inv_at {f} s" and p: "fr_internals s f = Some p" "fr_heap s p = Some ia"
    and no: "set (fa_users ia) \<inter> of_type s ATTACH_UPROBE_OVERRIDE = {}"
    and repl: "fa_override_cb ia \<longrightarrow> fa_users ia = [] \<and> cb_type cb = ATTACH_UPROBE_OVERRIDE"
  shows "frida_inv (snd (add_entry f cb p ia s))"
proof -
  let ?i = "fr_next s" and ?e = "\<lparr>fe_callback = cb, fe_function = f, fe_internal = p\<rparr>"
  let ?s = "snd (add_entry f cb p ia s)"
  have s': "?s = s\<lparr>fr_next := ?i + 1, fr_attaches := (fr_attaches s)(?i \<mapsto> ?e), fr_heap := (fr_heap s)(p \<mapsto> ia\<lparr>fa_users := fa_users ia @ [?i]\<rparr>)\<rparr>"
    by (simp add: add_entry_def frida_allocate_id_def)
  note D = frida_invD [OF inv]
  have ok: "internal_ok True s f p ia" using D(3) [OF p(1)] p(2) by simp
  then have users: "set (fa_users ia) = on_function s f" "fa_function ia = f" by (auto simp: internal_ok_def)
  have new: "fr_attaches s ?i = None" using D(2) [of ?i] by (cases "fr_attaches s ?i") auto
  have on: "on_function ?s g = (if g = f then insert ?i (on_function s f) else on_function s g)" for g
    using new by (auto simp: s' on_function_def)
  have ty: "of_type ?s t = (if cb_type cb = t then insert ?i (of_type s t) else of_type s t)" for t
    using new by (auto simp: s' of_type_def get_type_def)
  have fields: "fr_internals ?s = fr_internals s" "fr_hooks ?s = fr_hooks s" "fr_next ?s = ?i + 1" "fr_alloc ?s = fr_alloc s" by (simp_all add: s')
  have below: "\<forall>j \<in> set (fa_users ia). j < ?i" using users(1) on_function_bound [OF inv] by auto
  show ?thesis unfolding frida_inv_at_def
  proof (intro conjI allI impI)
    show "1 \<le> fr_next ?s" using D(1) fields by simp
    show "1 \<le> j" "j < fr_next ?s" "fr_internals ?s (fe_function e) = Some (fe_internal e)" if "fr_attaches ?s j = Some e" for j e
      using D(1) D(2) [of j e] that p(1) by (auto simp: s' split: if_splits)
    show "fr_internals ?s (fa_function ja) = Some q" if "fr_heap ?s q = Some ja" for q ja
      using D(4) [of q ja] that p(1) users(2) by (auto simp: s' split: if_splits)
    show "fr_hooks ?s g = None" if "fr_internals ?s g = None" for g using D(5) that fields by simp
    fix g q assume q: "fr_internals ?s g = Some q"
    then have g: "fr_internals s g = Some q" by (simp add: fields)
    show "g \<noteq> 0" "q < fr_alloc ?s" using D(3) [OF g] fields by auto
    show "\<exists>ja. fr_heap ?s q = Some ja \<and> internal_ok (g \<in> {}) ?s g q ja"
    proof (cases "g = f")
      case True
      then have "q = p" using g p(1) by simp
      moreover have "internal_ok False ?s f p (ia\<lparr>fa_users := fa_users ia @ [?i]\<rparr>)"
        using ok below no repl new users(1) by (auto simp: internal_ok_def on ty fields sorted_wrt_append)
      ultimately show ?thesis using True by (simp add: s')
    next
      case False
      obtain ja where ja: "fr_heap s q = Some ja" "internal_ok (g \<in> {f}) s g q ja" using inv g by (rule frida_inv_object)
      have i: "?i \<notin> on_function s g" using on_function_bound [OF inv] by blast
      have "internal_ok (g \<in> {f}) ?s g q ja"
      proof (rule internal_ok_cong [OF ja(2)])
        show "on_function ?s g = on_function s g" "fr_hooks ?s g = fr_hooks s g" using False by (simp_all add: on fields)
        show "of_type ?s ATTACH_UPROBE_OVERRIDE \<inter> on_function s g = of_type s ATTACH_UPROBE_OVERRIDE \<inter> on_function s g"
          using i by (simp add: ty)
      qed
      then have "internal_ok (g \<in> {}) ?s g q ja" using False by simp
      moreover have "q \<noteq> p" using False frida_inv_internals_inj [OF inv g] p(1) by auto
      ultimately show ?thesis using ja(1) by (auto simp: s')
    qed
  qed
qed

lemma internal_ok_mono: "internal_ok b s f p ia \<Longrightarrow> (b \<longrightarrow> c) \<Longrightarrow> internal_ok c s f p ia"
  by (auto simp: internal_ok_def)

lemma frida_inv_weaken:
  assumes inv: "frida_inv_at X s" and XY: "\<And>f. fr_internals s f \<noteq> None \<Longrightarrow> f \<in> X \<Longrightarrow> f \<in> Y"
  shows "frida_inv_at Y s"
  unfolding frida_inv_at_def
proof (intro conjI)
  note D = frida_invD [OF inv]
  show "\<forall>f p. fr_internals s f = Some p \<longrightarrow> f \<noteq> 0 \<and> p < fr_alloc s \<and> (\<exists>ia. fr_heap s p = Some ia \<and> internal_ok (f \<in> Y) s f p ia)"
  proof (intro allI impI)
    fix f p assume p: "fr_internals s f = Some p"
    from D(3) [OF p] obtain ia where ia: "fr_heap s p = Some ia" "internal_ok (f \<in> X) s f p ia" by blast
    have "internal_ok (f \<in> Y) s f p ia" by (rule internal_ok_mono [OF ia(2)]) (use XY p in simp)
    with ia D(3) [OF p] show "f \<noteq> 0 \<and> p < fr_alloc s \<and> (\<exists>ia. fr_heap s p = Some ia \<and> internal_ok (f \<in> Y) s f p ia)" by blast
  qed
qed (use inv in \<open>simp_all add: frida_inv_at_def\<close>)

lemma frida_inv_mono: "frida_inv s \<Longrightarrow> frida_inv_at X s"
  using frida_inv_weaken [of "{}" s X] by simp

lemma attach_at_inv:
  assumes inv: "frida_inv s" and a: "attach_at env f cb s = (r, s')"
  shows "(\<exists>e. r = Inl e \<and> e \<noteq> Fault \<and> s' = s) \<or>
    (\<exists>p. r = Inr (fr_next s) \<and> frida_inv s' \<and> fr_next s' = fr_next s + 1 \<and>
      fr_attaches s' = (fr_attaches s)(fr_next s \<mapsto> \<lparr>fe_callback = cb, fe_function = f, fe_internal = p\<rparr>))"
proof (cases "f = 0")
  case True
  then show ?thesis using a by (auto simp: attach_at_def)
next
  case f: False
  have add: "fst (add_entry f cb p ia t) = Inr (fr_next t)" "fr_next (snd (add_entry f cb p ia t)) = fr_next t + 1"
    "fr_attaches (snd (add_entry f cb p ia t)) = (fr_attaches t)(fr_next t \<mapsto> \<lparr>fe_callback = cb, fe_function = f, fe_internal = p\<rparr>)" for p ia t
    by (simp_all add: add_entry_def frida_allocate_id_def)
  show ?thesis
  proof (cases "fr_internals s f")
    case (Some p)
    obtain ia where ia: "fr_heap s p = Some ia" "internal_ok (f \<in> {}) s f p ia" using inv Some by (rule frida_inv_object)
    show ?thesis
    proof (cases "set (fa_users ia) \<inter> of_type s ATTACH_UPROBE_OVERRIDE = {}")
      case False
      then show ?thesis using a f Some ia has_override_spec [OF ia(2)] by (auto simp: attach_at_def)
    next
      case True
      have r: "(r, s') = add_entry f cb p ia s" using a f Some ia(1) True has_override_spec [OF ia(2)] by (simp add: attach_at_def)
      have "\<not> fa_override_cb ia" using True ia(2) by (cases "fa_users ia") (auto simp: internal_ok_def split: if_splits)
      then have "frida_inv s'" using add_entry_inv [OF frida_inv_mono [OF inv] Some ia(1) True] r by (metis snd_conv)
      then show ?thesis using add [of p ia s] r by (metis fst_conv snd_conv)
    qed
  next
    case None
    obtain q s1 where q: "frida_internal_attach_entry_new env f (cb_type cb) s = (q, s1)" by fastforce
    show ?thesis
    proof (cases q)
      case (Inl e)
      then show ?thesis using q a f None
        by (auto simp: attach_at_def frida_internal_attach_entry_new_def Let_def split: if_splits)
    next
      case (Inr p)
      obtain ia k where ia: "p = fr_alloc s" "s1 = s\<lparr>fr_heap := (fr_heap s)(p \<mapsto> ia), fr_alloc := Suc p, fr_hooks := k\<rparr>"
        "k = fr_hooks s \<and> \<not> fa_listener ia \<and> \<not> fa_override_cb ia \<and> cb_type cb \<notin> {ATTACH_UPROBE, ATTACH_URETPROBE, ATTACH_UPROBE_OVERRIDE} \<or>
         k = (fr_hooks s)(f \<mapsto> Listener p) \<and> fa_listener ia \<and> \<not> fa_override_cb ia \<and> cb_type cb \<in> {ATTACH_UPROBE, ATTACH_URETPROBE} \<or>
         k = (fr_hooks s)(f \<mapsto> Replacement p) \<and> \<not> fa_listener ia \<and> fa_override_cb ia \<and> cb_type cb = ATTACH_UPROBE_OVERRIDE"
        "fa_function ia = f" "fa_users ia = []"
        by (rule new_internal_cases [OF q [unfolded Inr]])
      have hooks: "k = (fr_hooks s)(f := k f)" "fr_hooks s f = None" using ia(3) frida_invD(5) [OF inv None] by auto
      let ?t = "s1\<lparr>fr_internals := (fr_internals s1)(f \<mapsto> p)\<rparr>"
      have t: "?t = s\<lparr>fr_heap := (fr_heap s)(fr_alloc s \<mapsto> ia), fr_alloc := Suc (fr_alloc s), fr_hooks := (fr_hooks s)(f := k f),
        fr_internals := (fr_internals s)(f \<mapsto> fr_alloc s)\<rparr>" using ia(1,2) hooks(1) by simp
      have "frida_inv_at {f} ?t" unfolding t by (rule open_internal_inv [OF inv None f ia(4,5)]) (use ia(1,3) hooks(2) in auto)
      then have "frida_inv (snd (add_entry f cb p ia ?t))"
        by (rule add_entry_inv) (use ia in auto)
      moreover have "(r, s') = add_entry f cb p ia ?t" using a f None q Inr ia(2) by (simp add: attach_at_def)
      moreover have "fr_next ?t = fr_next s" "fr_attaches ?t = fr_attaches s" using ia(2) by simp_all
      ultimately show ?thesis using add [of p ia ?t] by (metis fst_conv snd_conv)
    qed
  qed
qed

text \<open>Erasing a function together with the entries on it.\<close>

definition without :: "u64 \<Rightarrow> 'cb frida_impl \<Rightarrow> 'cb frida_impl" where
  "without f s = s\<lparr>fr_attaches := (\<lambda>i. if i \<in> on_function s f then None else fr_attaches s i)\<rparr>"

lemma without_frame [simp]:
  "fr_next (without f s) = fr_next s" "fr_internals (without f s) = fr_internals s" "fr_heap (without f s) = fr_heap s"
  "fr_alloc (without f s) = fr_alloc s" "fr_hooks (without f s) = fr_hooks s"
  "fr_attaches (without f s) = (\<lambda>i. if i \<in> on_function s f then None else fr_attaches s i)"
  by (simp_all add: without_def)

lemma without_none: "on_function s f = {} \<Longrightarrow> without f s = s"
  by (simp add: without_def)

lemma without_other:
  "on_function (without f s) g = (if g = f then {} else on_function s g)" "g \<noteq> f \<Longrightarrow> of_type (without f s) t \<inter> on_function s g = of_type s t \<inter> on_function s g"
  by (auto simp: without_def on_function_def of_type_def)

lemma erase_internal_inv:
  assumes inv: "frida_inv_at {f} s"
  shows "frida_inv (erase_internal f (without f s))"
proof (cases "fr_internals s f")
  case None
  have "frida_inv s" by (rule frida_inv_weaken [OF inv]) (use None in auto)
  then show ?thesis using None without_none [OF on_function_none [OF inv None]] by (simp add: erase_internal_def)
next
  case (Some p)
  let ?s = "erase_internal f (without f s)"
  have s': "?s = (without f s)\<lparr>fr_internals := (fr_internals s)(f := None), fr_heap := (fr_heap s)(p := None), fr_hooks := (fr_hooks s)(f := None)\<rparr>"
    using Some by (simp add: erase_internal_def without_def)
  note D = frida_invD [OF inv]
  show ?thesis unfolding frida_inv_at_def
  proof (intro conjI allI impI)
    show "1 \<le> fr_next ?s" using D(1) by (simp add: s')
    show "1 \<le> j" "j < fr_next ?s" "fr_internals ?s (fe_function e) = Some (fe_internal e)" if "fr_attaches ?s j = Some e" for j e
      using D(2) [of j e] that by (auto simp: s' on_function_def split: if_splits)
    show "fr_internals ?s (fa_function ja) = Some q" if "fr_heap ?s q = Some ja" for q ja
      using D(4) [of q ja] that Some by (auto simp: s' split: if_splits)
    show "fr_hooks ?s g = None" if "fr_internals ?s g = None" for g using D(5) that by (auto simp: s')
    fix g q assume q: "fr_internals ?s g = Some q"
    then have g: "fr_internals s g = Some q" "g \<noteq> f" by (auto simp: s' split: if_splits)
    show "g \<noteq> 0" "q < fr_alloc ?s" using D(3) [OF g(1)] by (auto simp: s')
    obtain ja where ja: "fr_heap s q = Some ja" "internal_ok (g \<in> {f}) s g q ja" using inv g(1) by (rule frida_inv_object)
    have "q \<noteq> p" using g(2) frida_inv_internals_inj [OF inv g(1), of f] Some by auto
    moreover have "internal_ok (g \<in> {f}) ?s g q ja"
      by (rule internal_ok_cong [OF ja(2)]) (use g(2) in \<open>simp_all add: s' without_other\<close>)
    ultimately show "\<exists>ja. fr_heap ?s q = Some ja \<and> internal_ok (g \<in> {}) ?s g q ja" using ja(1) g(2) by (simp add: s')
  qed
qed

text \<open>Taking an entry out of its function.\<close>

lemma set_butlast_filter: "set (butlast (filter P xs)) \<subseteq> set (butlast xs)"
  by (induction xs) auto

lemma remove_entry_inv:
  assumes inv: "frida_inv s" and i: "fr_attaches s i = Some e" and p: "fr_heap s (fe_internal e) = Some ia"
  shows "frida_inv_at {fe_function e} (s\<lparr>fr_heap := (fr_heap s)(fe_internal e \<mapsto> ia\<lparr>fa_users := filter (\<lambda>v. v \<noteq> i) (fa_users ia)\<rparr>),
    fr_attaches := (fr_attaches s)(i := None)\<rparr>)" (is "frida_inv_at {?f} ?s")
proof -
  note D = frida_invD [OF inv]
  have f: "fr_internals s ?f = Some (fe_internal e)" using D(2) [OF i] by simp
  have ok: "internal_ok False s ?f (fe_internal e) ia" using D(3) [OF f] p by simp
  have on: "on_function ?s g = on_function s g - {i}" for g by (auto simp: on_function_def)
  have ty: "of_type ?s t = of_type s t - {i}" for t by (auto simp: of_type_def)
  have fields: "fr_internals ?s = fr_internals s" "fr_hooks ?s = fr_hooks s" "fr_next ?s = fr_next s" "fr_alloc ?s = fr_alloc s" by simp_all
  show ?thesis unfolding frida_inv_at_def
  proof (intro conjI allI impI)
    show "1 \<le> fr_next ?s" using D(1) by simp
    show "1 \<le> j" "j < fr_next ?s" "fr_internals ?s (fe_function a) = Some (fe_internal a)" if "fr_attaches ?s j = Some a" for j a
      using D(2) [of j a] that by (auto split: if_splits)
    show "fr_internals ?s (fa_function ja) = Some q" if "fr_heap ?s q = Some ja" for q ja
      using D(4) [of q] D(4) [OF p] that by (auto split: if_splits)
    show "fr_hooks ?s g = None" if "fr_internals ?s g = None" for g using D(5) that by simp
    fix g q assume q: "fr_internals ?s g = Some q"
    then have g: "fr_internals s g = Some q" by simp
    show "g \<noteq> 0" "q < fr_alloc ?s" using D(3) [OF g] by auto
    show "\<exists>ja. fr_heap ?s q = Some ja \<and> internal_ok (g \<in> {?f}) ?s g q ja"
    proof (cases "g = ?f")
      case True
      have "internal_ok True ?s ?f (fe_internal e) (ia\<lparr>fa_users := filter (\<lambda>v. v \<noteq> i) (fa_users ia)\<rparr>)"
        using ok set_butlast_filter [of "\<lambda>v. v \<noteq> i" "fa_users ia"]
        by (auto simp: internal_ok_def on ty sorted_wrt_filter intro: order.trans [OF length_filter_le])
      with True f g show ?thesis by simp
    next
      case False
      obtain ja where ja: "fr_heap s q = Some ja" "internal_ok (g \<in> {}) s g q ja" using inv g by (rule frida_inv_object)
      have "i \<notin> on_function s g" using False i by (auto simp: on_function_def)
      then have "internal_ok (g \<in> {}) ?s g q ja" by (intro internal_ok_cong [OF ja(2)]) (auto simp: on ty)
      moreover have "q \<noteq> fe_internal e" using False frida_inv_internals_inj [OF inv g, of ?f] f by auto
      ultimately show ?thesis using ja(1) False by auto
    qed
  qed
qed

lemma internal_ok_close: "internal_ok b s f p ia \<Longrightarrow> fa_users ia \<noteq> [] \<Longrightarrow> internal_ok c s f p ia"
  by (auto simp: internal_ok_def)

lemma frida_inv_close:
  assumes inv: "frida_inv_at {f} s" and p: "fr_internals s f = Some p" "fr_heap s p = Some ia" "fa_users ia \<noteq> []"
  shows "frida_inv s"
  unfolding frida_inv_at_def
proof (intro conjI)
  show "\<forall>g q. fr_internals s g = Some q \<longrightarrow> g \<noteq> 0 \<and> q < fr_alloc s \<and> (\<exists>ja. fr_heap s q = Some ja \<and> internal_ok (g \<in> {}) s g q ja)"
  proof (intro allI impI)
    fix g q assume g: "fr_internals s g = Some q"
    from frida_invD(3) [OF inv g] obtain ja where ja: "g \<noteq> 0" "q < fr_alloc s" "fr_heap s q = Some ja" "internal_ok (g \<in> {f}) s g q ja" by blast
    have "internal_ok (g \<in> {}) s g q ja"
    proof (cases "g = f")
      case True
      with ja(3) g p have "fa_users ja \<noteq> []" by simp
      then show ?thesis by (rule internal_ok_close [OF ja(4)])
    qed (use ja(4) in simp)
    with ja show "g \<noteq> 0 \<and> q < fr_alloc s \<and> (\<exists>ja. fr_heap s q = Some ja \<and> internal_ok (g \<in> {}) s g q ja)" by blast
  qed
qed (use inv in \<open>simp_all add: frida_inv_at_def\<close>)

lemma frida_detach_inv:
  assumes inv: "frida_inv s" and i: "fr_attaches s i = Some e"
  shows "\<exists>s'. frida_detach i s = (Inr (), s') \<and> frida_inv s' \<and> fr_attaches s' = (fr_attaches s)(i := None)"
proof -
  note D = frida_invD [OF inv]
  have f: "fr_internals s (fe_function e) = Some (fe_internal e)" using D(2) [OF i] by simp
  obtain ia where ia: "fr_heap s (fe_internal e) = Some ia" "internal_ok (fe_function e \<in> {}) s (fe_function e) (fe_internal e) ia"
    using inv f by (rule frida_inv_object)
  let ?us = "filter (\<lambda>v. v \<noteq> i) (fa_users ia)"
  let ?s = "s\<lparr>fr_heap := (fr_heap s)(fe_internal e \<mapsto> ia\<lparr>fa_users := ?us\<rparr>), fr_attaches := (fr_attaches s)(i := None)\<rparr>"
  have mid: "frida_inv_at {fe_function e} ?s" by (rule remove_entry_inv [OF inv i ia(1)])
  have f0: "fa_function ia = fe_function e" "fe_function e \<noteq> 0" using ia(2) D(3) [OF f] by (auto simp: internal_ok_def)
  have on: "set ?us = on_function ?s (fe_function e)" using ia(2) by (auto simp: internal_ok_def on_function_def)
  show ?thesis
  proof (cases "?us = []")
    case True
    have "frida_inv (erase_internal (fe_function e) ?s)"
      using erase_internal_inv [OF mid] True on without_none [of ?s "fe_function e"] by simp
    then show ?thesis using i ia(1) f0 True by (auto simp: frida_detach_def Let_def erase_internal_def split: option.splits)
  next
    case False
    have "frida_inv ?s" by (rule frida_inv_close [OF mid]) (use f False in auto)
    then show ?thesis using i ia(1) False by (simp add: frida_detach_def Let_def)
  qed
qed

lemma erase_attaches:
  "distinct is \<Longrightarrow> set is \<subseteq> dom (fr_attaches s) \<Longrightarrow>
     for_each erase_attach is s = (Inr (), s\<lparr>fr_attaches := (\<lambda>i. if i \<in> set is then None else fr_attaches s i)\<rparr>)"
proof (induction "is" arbitrary: s)
  case (Cons i "is")
  let ?t = "s\<lparr>fr_attaches := (fr_attaches s)(i := None)\<rparr>"
  have "erase_attach i s = (Inr (), ?t)" using Cons.prems by (auto simp: erase_attach_def)
  moreover have "set is \<subseteq> dom (fr_attaches ?t)" using Cons.prems by auto
  moreover have "(\<lambda>j. if j \<in> set is then None else fr_attaches ?t j) = (\<lambda>j. if j \<in> set (i # is) then None else fr_attaches s j)" by auto
  ultimately show ?case using Cons.IH [of ?t] Cons.prems(1) by (simp del: fun_upd_apply)
qed simp

lemma detach_by_func_addr_inv:
  assumes inv: "frida_inv s" and f: "fr_internals s f = Some p"
  shows "\<exists>s'. detach_by_func_addr f s = (Inr (), s') \<and> frida_inv s' \<and> fr_hooks s' f = None \<and> fr_heap s' p = None \<and>
    fr_attaches s' = (\<lambda>i. if i \<in> on_function s f then None else fr_attaches s i)"
proof -
  obtain ia where ia: "fr_heap s p = Some ia" "internal_ok (f \<in> {}) s f p ia" using inv f by (rule frida_inv_object)
  then have us: "distinct (fa_users ia)" "set (fa_users ia) = on_function s f" by (auto simp: internal_ok_def strict_sorted_iff)
  have "for_each erase_attach (fa_users ia) s = (Inr (), without f s)"
    using erase_attaches [OF us(1)] us(2) on_function_live [of s f] by (simp add: without_def)
  then have "detach_by_func_addr f s = (Inr (), erase_internal f (without f s))" using f ia(1) by (simp add: detach_by_func_addr_def)
  moreover have "frida_inv (erase_internal f (without f s))" by (rule erase_internal_inv [OF frida_inv_mono [OF inv]])
  moreover have "fr_hooks (erase_internal f (without f s)) f = None" "fr_heap (erase_internal f (without f s)) p = None" "fr_attaches (erase_internal f (without f s)) = fr_attaches (without f s)"
    using f by (simp_all add: erase_internal_def)
  ultimately show ?thesis by auto
qed

section \<open>An attach implementation\<close>

text \<open>The callback a program was attached with.\<close>

fun given :: "'cb frida_callback \<Rightarrow> 'cb" where
  "given (Direct idx cb) = cb"
| "given (Ebpf (Prog cb) ty) = cb"
| "given (Ebpf (Ureplace cb) ty) = cb"

definition frida_attached :: "'cb frida_impl \<Rightarrow> int \<rightharpoonup> 'cb" where
  "frida_attached s i = map_option (\<lambda>e. given (fe_callback e)) (fr_attaches s i)"

text \<open>The callback a request becomes.\<close>

definition stored :: "'cb \<Rightarrow> int \<Rightarrow> 'cb frida_callback" where
  "stored cb ty = (if ty = ATTACH_UREPLACE then Ebpf (Ureplace cb) ATTACH_UPROBE_OVERRIDE else Ebpf (Prog cb) ty)"

lemma given_stored [simp]: "given (stored cb ty) = cb"
  by (simp add: stored_def)

lemma module_mapped_error: "module_mapped env m ls = Inl e \<Longrightarrow> (\<exists>x. fv_exists env x = Inl e) \<or> (\<exists>x. fv_equivalent env m x = Inl e)"
  by (induction ls) (auto simp: bindr_eq_Inl Let_def split: if_splits)

lemma frida_create_cases:
  assumes inv: "frida_inv s" and c: "frida_create env (cb, priv, ty) s = (r, s')"
  obtains e where "r = Inl e" "s' = s"
  | f m p where "priv = FridaData f m" "r = Inr (fr_next s)" "frida_inv s'" "fr_next s' = fr_next s + 1"
      "fr_attaches s' = (fr_attaches s)(fr_next s \<mapsto> \<lparr>fe_callback = stored cb ty, fe_function = f, fe_internal = p\<rparr>)"
proof (cases "\<exists>e. r = Inl e \<and> s' = s")
  case False
  then obtain f m where priv: "priv = FridaData f m" using c by (cases priv) (auto simp: frida_create_def)
  have "attach_at env f (stored cb ty) s = (r, s')"
    using c False priv
    by (auto simp: frida_create_def attach_at_with_ebpf_callback_def stored_def attach_types split: sum.splits bool.splits if_splits)
  from attach_at_inv [OF inv this] False that(2) [OF priv] show thesis by blast
qed (use that(1) in blast)

interpretation frida: attach_entries frida_inv "\<lambda>s. dom (fr_attaches s)" "frida_create env" frida_detach for env
proof (unfold_locales, goal_cases)
  case (1 s q i s')
  obtain cb priv ty where q: "q = (cb, priv, ty)" by (metis prod_cases3)
  have "fr_attaches s (fr_next s) = None" using frida_invD(2) [OF 1(1), of "fr_next s"] by (cases "fr_attaches s (fr_next s)") auto
  then show ?case using frida_invD(1) [OF 1(1)] 1(2) unfolding q
    by (elim frida_create_cases [OF 1(1)]) (auto simp: domIff)
next
  case (2 s q e s')
  obtain cb priv ty where q: "q = (cb, priv, ty)" by (metis prod_cases3)
  show ?case by (rule frida_create_cases [OF 2(1) 2(2) [unfolded q]]) (use 2(1) in auto)
next
  case (3 s i)
  then obtain e where "fr_attaches s i = Some e" by auto
  from frida_detach_inv [OF 3(1) this] show ?case by auto
qed

interpretation frida_cb: attach_callbacks frida_inv "\<lambda>s. dom (fr_attaches s)" "frida_create env" frida_detach frida_attached fst for env
proof (unfold_locales, goal_cases)
  case (1 s)
  then show ?case by (auto simp: frida_attached_def)
next
  case (2 s q i s')
  obtain cb priv ty where q: "q = (cb, priv, ty)" by (metis prod_cases3)
  show ?case by (rule frida_create_cases [OF 2(1) 2(2) [unfolded q]]) (auto simp: frida_attached_def fun_eq_iff q)
next
  case (3 s q e s')
  obtain cb priv ty where q: "q = (cb, priv, ty)" by (metis prod_cases3)
  show ?case by (rule frida_create_cases [OF 3(1) 3(2) [unfolded q]]) auto
next
  case (4 s i s')
  then show ?case
  proof (cases "fr_attaches s i")
    case None
    with 4(2) show ?thesis by (auto simp: frida_detach_def frida_attached_def fun_eq_iff)
  next
    case (Some e)
    from frida_detach_inv [OF 4(1) Some] 4(2) show ?thesis by (auto simp: frida_attached_def fun_eq_iff)
  qed
qed

section \<open>The implementation as a list of attaches\<close>

text \<open>What an implementation object stands for: the attaches that live, oldest first, each with its number, its
  function and its callback. The tables, the objects, the pointers and the hooks are how the code keeps it.\<close>

definition attach_log :: "'cb frida_impl \<Rightarrow> (int \<times> u64 \<times> 'cb frida_callback) list" where
  "attach_log s = map (\<lambda>i. let e = the (fr_attaches s i) in (i, fe_function e, fe_callback e)) (sorted_list_of_set (dom (fr_attaches s)))"

definition probes :: "(int \<times> u64 \<times> 'cb frida_callback) list \<Rightarrow> u64 \<Rightarrow> int \<Rightarrow> 'cb frida_callback list" where
  "probes l f ty = map (\<lambda>e. snd (snd e)) (filter (\<lambda>e. fst (snd e) = f \<and> cb_type (snd (snd e)) = ty) l)"

lemma attaches_finite: "frida_inv_at X s \<Longrightarrow> finite (dom (fr_attaches s))"
proof (rule finite_subset)
  assume "frida_inv_at X s"
  then show "dom (fr_attaches s) \<subseteq> {1..<fr_next s}" using frida_invD(2) by fastforce
qed simp

lemma sorted_list_of_set_snoc:
  fixes n :: "'a :: linorder"
  assumes "finite A" "\<forall>a \<in> A. a < n"
  shows "sorted_list_of_set (insert n A) = sorted_list_of_set A @ [n]"
proof -
  have "sorted (sorted_list_of_set A @ [n])" "distinct (sorted_list_of_set A @ [n])"
    using assms by (auto simp: sorted_append less_imp_le)
  from sorted_list_of_set.idem_if_sorted_distinct [OF this] show ?thesis using assms(1) by simp
qed

lemma sorted_list_of_set_filter:
  assumes "finite A"
  shows "filter P (sorted_list_of_set A) = sorted_list_of_set {a \<in> A. P a}"
proof -
  have "sorted (filter P (sorted_list_of_set A))" "distinct (filter P (sorted_list_of_set A))" by (simp_all add: sorted_wrt_filter)
  from sorted_list_of_set.idem_if_sorted_distinct [OF this] show ?thesis using assms by simp
qed

lemma attach_log_restrict:
  assumes "finite (dom (fr_attaches s))" "fr_attaches s' = (\<lambda>i. if i \<in> D then None else fr_attaches s i)"
  shows "attach_log s' = filter (\<lambda>e. fst e \<notin> D) (attach_log s)"
proof -
  have d: "dom (fr_attaches s') = {i \<in> dom (fr_attaches s). i \<notin> D}" using assms(2) by (auto split: if_splits)
  have "attach_log s' = map (\<lambda>i. let e = the (fr_attaches s i) in (i, fe_function e, fe_callback e)) (sorted_list_of_set (dom (fr_attaches s')))"
    unfolding attach_log_def using assms(1) d by (intro map_cong) (auto simp: assms(2))
  then show ?thesis unfolding d attach_log_def sorted_list_of_set_filter [OF assms(1), symmetric]
    by (simp add: filter_map o_def Let_def)
qed

lemma attach_log_add:
  assumes "frida_inv_at X s" "fr_attaches s' = (fr_attaches s)(fr_next s \<mapsto> \<lparr>fe_callback = cb, fe_function = f, fe_internal = p\<rparr>)"
  shows "attach_log s' = attach_log s @ [(fr_next s, f, cb)]"
proof -
  note fin = attaches_finite [OF assms(1)]
  have "\<forall>i \<in> dom (fr_attaches s). i < fr_next s" using frida_invD(2) [OF assms(1)] by fastforce
  from sorted_list_of_set_snoc [OF fin this] have "sorted_list_of_set (dom (fr_attaches s')) = sorted_list_of_set (dom (fr_attaches s)) @ [fr_next s]"
    by (simp add: assms(2))
  moreover have "\<forall>i \<in> dom (fr_attaches s). i \<noteq> fr_next s" using frida_invD(2) [OF assms(1)] by fastforce
  ultimately show ?thesis using fin by (auto simp: attach_log_def assms(2) Let_def)
qed

text \<open>The attaches on one function, from the list its object keeps.\<close>

lemma log_users:
  assumes inv: "frida_inv_at X s" and users: "sorted_wrt (<) us" "set us = on_function s f"
  shows "filter (\<lambda>e. fst (snd e) = f) (attach_log s) = map (\<lambda>i. (i, f, fe_callback (the (fr_attaches s i)))) us"
proof -
  note fin = attaches_finite [OF inv]
  have "us = sorted_list_of_set (on_function s f)"
    using users sorted_list_of_set.idem_if_sorted_distinct [of us] by (simp add: strict_sorted_iff)
  also have "on_function s f = {i \<in> dom (fr_attaches s). fe_function (the (fr_attaches s i)) = f}" by (auto simp: on_function_def)
  also have "sorted_list_of_set \<dots> = filter (\<lambda>i. fe_function (the (fr_attaches s i)) = f) (sorted_list_of_set (dom (fr_attaches s)))"
    by (rule sorted_list_of_set_filter [OF fin, symmetric])
  finally show ?thesis by (simp add: attach_log_def filter_map o_def Let_def)
qed

lemma probes_users:
  assumes inv: "frida_inv_at X s" and users: "sorted_wrt (<) us" "set us = on_function s f"
  shows "probes (attach_log s) f ty = map (\<lambda>i. fe_callback (the (fr_attaches s i))) (filter (\<lambda>i. i \<in> of_type s ty) us)"
proof -
  have "probes (attach_log s) f ty = map (\<lambda>e. snd (snd e)) (filter (\<lambda>e. cb_type (snd (snd e)) = ty) (filter (\<lambda>e. fst (snd e) = f) (attach_log s)))"
    by (simp add: probes_def conj_commute)
  also have "\<dots> = map (\<lambda>i. fe_callback (the (fr_attaches s i))) (filter (\<lambda>i. get_type (the (fr_attaches s i)) = ty) us)"
    by (simp add: log_users [OF assms] filter_map o_def get_type_def)
  also have "filter (\<lambda>i. get_type (the (fr_attaches s i)) = ty) us = filter (\<lambda>i. i \<in> of_type s ty) us"
    using users(2) by (intro filter_cong) (auto simp: on_function_def of_type_def)
  finally show ?thesis .
qed

lemma attach_log_on: "finite (dom (fr_attaches s)) \<Longrightarrow> (\<exists>e \<in> set (attach_log s). fst (snd e) = f) \<longleftrightarrow> on_function s f \<noteq> {}"
  by (force simp: attach_log_def on_function_def Let_def)

lemma internals_on:
  assumes "frida_inv s"
  shows "fr_internals s f \<noteq> None \<longleftrightarrow> on_function s f \<noteq> {}"
proof (cases "fr_internals s f")
  case None
  then show ?thesis using on_function_none [OF assms None] by simp
next
  case (Some p)
  then obtain ia where "internal_ok (f \<in> {}) s f p ia" using frida_inv_object [OF assms Some] by blast
  with Some show ?thesis by (auto simp: internal_ok_def)
qed

text \<open>C15. The uprobe implementation is a list of attaches: an attach either fails and changes nothing or appends its
  function and callback under a number no attach in the list has; detaching a number takes it out of the list, and
  detaching a function takes out the attaches on it; the order of the others does not change.\<close>

theorem frida_refines_log:
  assumes "frida_inv s"
  shows "(case attach_at env f cb s of
      (Inl e, s') \<Rightarrow> s' = s
    | (Inr i, s') \<Rightarrow> frida_inv s' \<and> i \<notin> fst ` set (attach_log s) \<and> attach_log s' = attach_log s @ [(i, f, cb)]) \<and>
    (case frida_detach i s of (r, s') \<Rightarrow> r = Inr () \<and> frida_inv s' \<and> attach_log s' = filter (\<lambda>e. fst e \<noteq> i) (attach_log s)) \<and>
    (case detach_by_func_addr f s of (r, s') \<Rightarrow> frida_inv s' \<and> attach_log s' = filter (\<lambda>e. fst (snd e) \<noteq> f) (attach_log s))"
proof (intro conjI)
  note fin = attaches_finite [OF assms]
  have log: "fst ` set (attach_log s) = dom (fr_attaches s)" using fin by (force simp: attach_log_def Let_def)
  obtain r s' where a: "attach_at env f cb s = (r, s')" by fastforce
  have "fr_next s \<notin> dom (fr_attaches s)" using frida_invD(2) [OF assms, of "fr_next s"] by auto
  with attach_at_inv [OF assms a] a log attach_log_add [OF assms] show "case attach_at env f cb s of
      (Inl e, s') \<Rightarrow> s' = s
    | (Inr i, s') \<Rightarrow> frida_inv s' \<and> i \<notin> fst ` set (attach_log s) \<and> attach_log s' = attach_log s @ [(i, f, cb)]" by auto
  show "case frida_detach i s of (r, s') \<Rightarrow> r = Inr () \<and> frida_inv s' \<and> attach_log s' = filter (\<lambda>e. fst e \<noteq> i) (attach_log s)"
  proof (cases "fr_attaches s i")
    case None
    then have "\<forall>e \<in> set (attach_log s). fst e \<noteq> i" using log by force
    with None assms show ?thesis by (auto simp: frida_detach_def intro: filter_True [symmetric])
  next
    case (Some e)
    from frida_detach_inv [OF assms Some] obtain t where t: "frida_detach i s = (Inr (), t)" "frida_inv t" "fr_attaches t = (fr_attaches s)(i := None)" by blast
    have "fr_attaches t = (\<lambda>j. if j \<in> {i} then None else fr_attaches s j)" using t(3) by auto
    from attach_log_restrict [OF fin this] t show ?thesis by simp
  qed
  have in_log: "fst e \<in> on_function s f \<longleftrightarrow> fst (snd e) = f" if "e \<in> set (attach_log s)" for e
    using that fin by (auto simp: attach_log_def on_function_def Let_def)
  show "case detach_by_func_addr f s of (r, s') \<Rightarrow> frida_inv s' \<and> attach_log s' = filter (\<lambda>e. fst (snd e) \<noteq> f) (attach_log s)"
  proof (cases "fr_internals s f")
    case None
    then have "\<forall>e \<in> set (attach_log s). fst (snd e) \<noteq> f" using in_log on_function_none [OF assms None] by auto
    with None assms show ?thesis by (auto simp: detach_by_func_addr_def intro: filter_True [symmetric])
  next
    case (Some p)
    from detach_by_func_addr_inv [OF assms Some] obtain t where t: "detach_by_func_addr f s = (Inr (), t)" "frida_inv t"
      "fr_attaches t = (\<lambda>i. if i \<in> on_function s f then None else fr_attaches s i)" by blast
    from attach_log_restrict [OF fin t(3)] t in_log show ?thesis by (auto cong: filter_cong)
  qed
qed

text \<open>When an attach succeeds: the interceptor is asked only for the first attach on a function.\<close>

definition gum_refuses :: "frida_env \<Rightarrow> u64 \<Rightarrow> int \<Rightarrow> bool" where
  "gum_refuses env f ty \<longleftrightarrow> (ty = ATTACH_UPROBE \<or> ty = ATTACH_URETPROBE) \<and> fv_attach env f < 0 \<or>
     ty = ATTACH_UPROBE_OVERRIDE \<and> fv_replace env f < 0"

lemma probes_empty:
  assumes "frida_inv s"
  shows "probes (attach_log s) f ty = [] \<longleftrightarrow> on_function s f \<inter> of_type s ty = {}"
  using attaches_finite [OF assms]
  by (force simp: probes_def attach_log_def filter_empty_conv Let_def on_function_def of_type_def get_type_def)

theorem attach_at_result:
  assumes "frida_inv s"
  shows "fst (attach_at env f cb s) =
    (if f = 0 then Inl (NegErrno EINVAL)
     else if probes (attach_log s) f ATTACH_UPROBE_OVERRIDE \<noteq> [] then Inl (NegErrno EEXIST)
     else if (\<forall>e \<in> set (attach_log s). fst (snd e) \<noteq> f) \<and> gum_refuses env f (cb_type cb) then Inl Throw
     else Inr (fr_next s))"
proof (cases "fr_internals s f")
  case None
  have on: "on_function s f = {}" by (rule on_function_none [OF assms None])
  then have "\<forall>e \<in> set (attach_log s). fst (snd e) \<noteq> f" "probes (attach_log s) f ATTACH_UPROBE_OVERRIDE = []"
    using attach_log_on [OF attaches_finite [OF assms]] probes_empty [OF assms] by auto
  with None show ?thesis
    by (auto simp: attach_at_def frida_internal_attach_entry_new_def gum_refuses_def add_entry_def frida_allocate_id_def Let_def attach_types)
next
  case (Some p)
  obtain ia where ia: "fr_heap s p = Some ia" "internal_ok (f \<in> {}) s f p ia" using assms Some by (rule frida_inv_object)
  have "on_function s f \<noteq> {}" using internals_on [OF assms, of f] Some by simp
  then have "\<not> (\<forall>e \<in> set (attach_log s). fst (snd e) \<noteq> f)" using attach_log_on [OF attaches_finite [OF assms]] by auto
  moreover have "f \<noteq> 0" using frida_invD(3) [OF assms Some] by simp
  moreover have "set (fa_users ia) = on_function s f" using ia(2) by (simp add: internal_ok_def)
  ultimately show ?thesis using Some ia(1) has_override_spec [OF ia(2)] probes_empty [OF assms, of f]
    by (auto simp: attach_at_def add_entry_def frida_allocate_id_def)
qed

section \<open>What a call does\<close>

text \<open>The reference: callbacks run one after the other, without entries or pointers to them.\<close>

fun run_entry :: "('cb, 'w) runner \<Rightarrow> 'cb frida_callback \<Rightarrow> pt_regs \<Rightarrow> 'w \<Rightarrow> 'w cb_run" where
  "run_entry run (Direct k cb) regs w = (run cb regs w)\<lparr>cr_regs := regs\<rparr>"
| "run_entry run (Ebpf cb ty) regs w = run_ebpf run cb regs w"

fun run_probes :: "('cb, 'w) runner \<Rightarrow> nat option \<Rightarrow> 'cb frida_callback list \<Rightarrow> pt_regs \<Rightarrow> 'cb frida_impl \<Rightarrow> 'w \<Rightarrow>
    ('cb frida_impl \<times> 'w) res" where
  "run_probes run th [] regs s w = Inr (s, w)"
| "run_probes run th (cb # cbs) regs s w =
     (let r = run_entry run cb regs w
      in bindr (override_returns th (cr_sets r) s) (\<lambda>s. run_probes run th cbs (cr_regs r) s (cr_world r)))"

lemma run_callback_entry:
  assumes "from_cb_idx_to_attach_type idx = cb_type cb" "idx \<le> 2"
  shows "run_callback run idx cb regs w = Inr (run_entry run cb regs w)"
proof (cases cb)
  case (Direct k c)
  with assms have "k = idx"
    by (auto simp: from_cb_idx_to_attach_type_def attach_indices attach_types split: if_splits)
  with Direct show ?thesis by simp
qed simp

text \<open>Override results change the flags of one object only.\<close>

definition same_users :: "(nat \<rightharpoonup> frida_internal) \<Rightarrow> (nat \<rightharpoonup> frida_internal) \<Rightarrow> bool" where
  "same_users h h' \<longleftrightarrow> (\<forall>p. map_option (\<lambda>ia. (fa_function ia, fa_users ia, fa_listener ia, fa_override_cb ia)) (h' p) =
     map_option (\<lambda>ia. (fa_function ia, fa_users ia, fa_listener ia, fa_override_cb ia)) (h p))"

lemma override_returns_frame:
  assumes "override_returns th vs s = Inr s'"
  shows "\<exists>h. s' = s\<lparr>fr_heap := h\<rparr> \<and> same_users (fr_heap s) h"
  using assms
proof (induction vs arbitrary: s)
  case Nil
  then show ?case by (intro exI [of _ "fr_heap s"]) (simp add: same_users_def)
next
  case (Cons v vs)
  obtain ctx x where v: "v = (ctx, x)" by fastforce
  from Cons.prems obtain p ia where p: "th = Some p" "fr_heap s p = Some ia"
    and rest: "override_returns th vs (s\<lparr>fr_heap := (fr_heap s)(p \<mapsto> ia\<lparr>fa_overrided := True, fa_user_ret := x, fa_user_ret_ctx := ctx\<rparr>)\<rparr>) = Inr s'"
    by (auto simp: v split: option.splits if_splits)
  from Cons.IH [OF rest] obtain h where "s' = s\<lparr>fr_heap := h\<rparr>"
    "same_users ((fr_heap s)(p \<mapsto> ia\<lparr>fa_overrided := True, fa_user_ret := x, fa_user_ret_ctx := ctx\<rparr>)) h" by (auto simp del: fun_upd_apply)
  then show ?case using p(2) by (intro exI [of _ h]) (auto simp: same_users_def)
qed

lemma same_users_refl [simp]: "same_users h h"
  by (simp add: same_users_def)

lemma same_users_trans: "same_users a b \<Longrightarrow> same_users b c \<Longrightarrow> same_users a c"
  by (simp add: same_users_def)

lemma same_usersD:
  assumes "same_users h h'" "h p = Some ia"
  obtains ja where "h' p = Some ja" "fa_function ja = fa_function ia" "fa_users ja = fa_users ia"
    "fa_listener ja = fa_listener ia" "fa_override_cb ja = fa_override_cb ia"
  using assms by (auto simp: same_users_def dest!: spec [of _ p])

lemma same_users_sym: "same_users h h' \<Longrightarrow> same_users h' h"
  by (simp add: same_users_def)

lemma same_users_inv:
  assumes inv: "frida_inv s" and h: "same_users (fr_heap s) h"
  shows "frida_inv (s\<lparr>fr_heap := h\<rparr>)"
  unfolding frida_inv_at_def
proof (intro conjI allI impI)
  note D = frida_invD [OF inv]
  let ?s = "s\<lparr>fr_heap := h\<rparr>"
  show "1 \<le> fr_next ?s" using D(1) by simp
  show "1 \<le> i" "i < fr_next ?s" "fr_internals ?s (fe_function e) = Some (fe_internal e)" if "fr_attaches ?s i = Some e" for i e
    using D(2) [of i e] that by auto
  show "fr_internals ?s (fa_function ja) = Some q" if "fr_heap ?s q = Some ja" for q ja
  proof -
    have q: "h q = Some ja" using that by simp
    obtain ka where "fr_heap s q = Some ka" "fa_function ka = fa_function ja" using same_users_sym [OF h] q by (rule same_usersD)
    then show ?thesis using D(4) [of q ka] by simp
  qed
  show "fr_hooks ?s g = None" if "fr_internals ?s g = None" for g using D(5) that by simp
  fix f p assume "fr_internals ?s f = Some p"
  then have f: "fr_internals s f = Some p" by simp
  show "f \<noteq> 0" "p < fr_alloc ?s" using D(3) [OF f] by auto
  obtain ia where ia: "fr_heap s p = Some ia" "internal_ok (f \<in> {}) s f p ia" using inv f by (rule frida_inv_object)
  obtain ja where "h p = Some ja" "fa_function ja = fa_function ia" "fa_users ja = fa_users ia"
    "fa_listener ja = fa_listener ia" "fa_override_cb ja = fa_override_cb ia" using h ia(1) by (rule same_usersD)
  with ia(2) show "\<exists>ja. fr_heap ?s p = Some ja \<and> internal_ok (f \<in> {}) ?s f p ja" by (auto simp: internal_ok_def)
qed

lemma iterate_callbacks_probes:
  assumes "set us \<subseteq> dom (fr_attaches s)" "from_cb_idx_to_attach_type idx = ty" "idx \<le> 2"
  shows "iterate_callbacks run idx ty th us regs s w =
    run_probes run th (map (\<lambda>i. fe_callback (the (fr_attaches s i))) (filter (\<lambda>i. i \<in> of_type s ty) us)) regs s w"
  using assms(1)
proof (induction us arbitrary: regs s w)
  case (Cons i us)
  then obtain e where e: "fr_attaches s i = Some e" by auto
  show ?case
  proof (cases "get_type e = ty")
    case True
    then have in_ty: "i \<in> of_type s ty" using e by (simp add: of_type_def)
    let ?r = "run_entry run (fe_callback e) regs w"
    have r: "run_callback run idx (fe_callback e) regs w = Inr ?r"
      by (rule run_callback_entry) (use True assms(2,3) in \<open>simp_all add: get_type_def\<close>)
    show ?thesis
    proof (cases "override_returns th (cr_sets ?r) s")
      case (Inl x)
      then show ?thesis using e True in_ty r by (simp add: Let_def)
    next
      case (Inr t)
      then obtain h where "t = s\<lparr>fr_heap := h\<rparr>" using override_returns_frame by blast
      then have "fr_attaches t = fr_attaches s" "of_type t ty = of_type s ty" by simp_all
      with Cons Inr e True in_ty r show ?thesis by (simp add: Let_def)
    qed
  next
    case False
    then have "i \<notin> of_type s ty" using e by (simp add: of_type_def)
    with Cons False e show ?thesis by simp
  qed
qed simp

lemma run_probes_frame:
  assumes "run_probes run th cbs regs s w = Inr (s', w')"
  shows "\<exists>h. s' = s\<lparr>fr_heap := h\<rparr> \<and> same_users (fr_heap s) h"
  using assms
proof (induction cbs arbitrary: regs s w)
  case Nil
  then show ?case by (intro exI [of _ "fr_heap s"]) simp
next
  case (Cons cb cbs)
  from Cons.prems obtain t where t: "override_returns th (cr_sets (run_entry run cb regs w)) s = Inr t"
    "run_probes run th cbs (cr_regs (run_entry run cb regs w)) t (cr_world (run_entry run cb regs w)) = Inr (s', w')"
    by (auto simp: bindr_eq_Inr Let_def)
  from override_returns_frame [OF t(1)] obtain h where h: "t = s\<lparr>fr_heap := h\<rparr>" "same_users (fr_heap s) h" by blast
  from Cons.IH [OF t(2)] obtain h' where "s' = t\<lparr>fr_heap := h'\<rparr>" "same_users (fr_heap t) h'" by blast
  with h show ?case by (intro exI [of _ h']) (auto intro: same_users_trans)
qed

lemma hook_object:
  assumes inv: "frida_inv s" and k: "fr_hooks s f = Some k"
  obtains p ia where "fr_internals s f = Some p" "fr_heap s p = Some ia" "internal_ok False s f p ia"
    "k = (if fa_listener ia then Listener p else Replacement p)" "fa_listener ia \<noteq> fa_override_cb ia"
proof (cases "fr_internals s f")
  case None
  with frida_invD(5) [OF inv] k show thesis by simp
next
  case (Some p)
  obtain ia where ia: "fr_heap s p = Some ia" "internal_ok (f \<in> {}) s f p ia" using inv Some by (rule frida_inv_object)
  have ok: "internal_ok False s f p ia" using ia(2) by simp
  have "k = (if fa_listener ia then Listener p else Replacement p)" "fa_listener ia \<noteq> fa_override_cb ia"
    using ok k by (auto simp: internal_ok_def split: if_splits)
  with that [OF Some ia(1) ok] show thesis by blast
qed

lemma listener_probes:
  assumes inv: "frida_inv s" and p: "fr_heap s p = Some ia" "internal_ok False s f p ia"
    and idx: "from_cb_idx_to_attach_type idx = ty" "idx \<le> 2"
  shows "iterate_callbacks run idx ty th (fa_users ia) regs s w = run_probes run th (probes (attach_log s) f ty) regs s w"
proof -
  have us: "sorted_wrt (<) (fa_users ia)" "set (fa_users ia) = on_function s f" using p(2) by (auto simp: internal_ok_def)
  then have "set (fa_users ia) \<subseteq> dom (fr_attaches s)" using on_function_live [of s f] by simp
  from iterate_callbacks_probes [OF this idx] probes_users [OF inv us] show ?thesis by simp
qed

lemma attach_log_heap [simp]: "attach_log (s\<lparr>fr_heap := h\<rparr>) = attach_log s"
  by (simp add: attach_log_def)

abbreviation entry_regs :: "'w fcall \<Rightarrow> pt_regs" where
  "entry_regs c \<equiv> convert_gum_cpu_context_to_pt_regs (fc_cpu c) (fc_junk c)"

abbreviation exit_regs :: "'w fcall \<Rightarrow> u64 \<Rightarrow> pt_regs" where
  "exit_regs c ret \<equiv> convert_gum_cpu_context_to_pt_regs (fc_exit c ret) (fc_junk c)"

lemma listener_call:
  assumes "frida_inv s" "fr_hooks s f = Some (Listener p)"
  shows "call_function run c f th s w =
    bindr (run_probes run th (probes (attach_log s) f ATTACH_UPROBE) (entry_regs c) s w) (\<lambda>(s1, w1).
      let (ret, w2) = fc_orig c (fc_args c) w1
      in bindr (run_probes run th (probes (attach_log s) f ATTACH_URETPROBE) (exit_regs c ret) s1 w2) (\<lambda>(s2, w3).
           Inr (ret, th, s2, w3)))"
proof -
  obtain q ia where q: "fr_internals s f = Some q" "fr_heap s q = Some ia" "internal_ok False s f q ia"
    "Listener p = (if fa_listener ia then Listener q else Replacement q)" "fa_listener ia \<noteq> fa_override_cb ia"
    by (rule hook_object [OF assms])
  then have qp: "q = p" by (simp split: if_splits)
  have idx: "from_cb_idx_to_attach_type ATTACH_UPROBE_INDEX = ATTACH_UPROBE" "ATTACH_UPROBE_INDEX \<le> 2"
    "from_cb_idx_to_attach_type ATTACH_URETPROBE_INDEX = ATTACH_URETPROBE" "ATTACH_URETPROBE_INDEX \<le> 2"
    by (simp_all add: from_cb_idx_to_attach_type_def attach_indices)
  have enter: "uprobe_listener_on_enter run c th p s w = run_probes run th (probes (attach_log s) f ATTACH_UPROBE) (entry_regs c) s w"
    using q qp listener_probes [OF assms(1) q(2,3) idx(1,2)] by (simp add: uprobe_listener_on_enter_def iterate_uprobe_callbacks_def)
  have leave: "uprobe_listener_on_leave run c ret th p s1 w2 = run_probes run th (probes (attach_log s) f ATTACH_URETPROBE) (exit_regs c ret) s1 w2"
    if run: "run_probes run th (probes (attach_log s) f ATTACH_UPROBE) (entry_regs c) s w = Inr (s1, w1)" for s1 w1 ret w2
  proof -
    from run_probes_frame [OF run] obtain h where h: "s1 = s\<lparr>fr_heap := h\<rparr>" "same_users (fr_heap s) h" by blast
    have inv: "frida_inv s1" using same_users_inv [OF assms(1) h(2)] h(1) by simp
    obtain r ja where r: "fr_internals s1 f = Some r" "fr_heap s1 r = Some ja" "internal_ok False s1 f r ja"
      by (rule hook_object [OF inv]) (use assms(2) h(1) in auto)
    then have "r = p" using q(1) qp h(1) by simp
    with r h(1) listener_probes [OF inv r(2,3) idx(3,4)] show ?thesis
      by (simp add: uprobe_listener_on_leave_def iterate_uretprobe_callbacks_def)
  qed
  show ?thesis
  proof (cases "run_probes run th (probes (attach_log s) f ATTACH_UPROBE) (entry_regs c) s w")
    case (Inl e)
    then show ?thesis using assms(2) enter by (simp add: call_function_def)
  next
    case (Inr x)
    obtain s1 w1 where x: "x = (s1, w1)" by fastforce
    show ?thesis using assms(2) enter leave Inr x by (simp add: call_function_def)
  qed
qed

text \<open>Where running probes can touch a destroyed object: only through the callback the thread keeps for results.\<close>

lemma override_returns_fault: "override_returns th vs s = Inl Fault \<Longrightarrow> \<exists>p. th = Some p \<and> fr_heap s p = None"
  by (induction th vs s rule: override_returns.induct) (auto split: option.splits if_splits)

lemma same_users_None:
  assumes "same_users h h'" "h' p = None"
  shows "h p = None"
  using assms(1) [unfolded same_users_def, THEN spec, of p] assms(2) by (cases "h p") simp_all

lemma run_probes_fault:
  assumes "run_probes run th cbs regs s w = Inl Fault"
  shows "\<exists>p. th = Some p \<and> fr_heap s p = None"
  using assms
proof (induction cbs arbitrary: regs s w)
  case (Cons cb cbs)
  let ?r = "run_entry run cb regs w"
  show ?case
  proof (cases "override_returns th (cr_sets ?r) s")
    case (Inl e)
    with Cons.prems show ?thesis using override_returns_fault [of th "cr_sets ?r" s] by (auto simp: Let_def)
  next
    case (Inr t)
    with Cons.prems have "run_probes run th cbs (cr_regs ?r) t (cr_world ?r) = Inl Fault" by (simp add: Let_def)
    from Cons.IH [OF this] override_returns_frame [OF Inr] same_users_None show ?thesis by fastforce
  qed
qed simp

lemma listener_call_fault:
  assumes "frida_inv s" "fr_hooks s f = Some (Listener p)" "call_function run c f th s w = Inl Fault"
  shows "\<exists>q. th = Some q \<and> fr_heap s q = None"
proof (cases "run_probes run th (probes (attach_log s) f ATTACH_UPROBE) (entry_regs c) s w")
  case (Inl e)
  with assms(3) show ?thesis by (simp add: listener_call [OF assms(1,2)] run_probes_fault)
next
  case (Inr x)
  obtain s1 w1 where x: "x = (s1, w1)" by fastforce
  obtain ret w2 where o: "fc_orig c (fc_args c) w1 = (ret, w2)" by fastforce
  have "run_probes run th (probes (attach_log s) f ATTACH_URETPROBE) (exit_regs c ret) s1 w2 = Inl Fault"
    using assms(3) Inr by (auto simp: listener_call [OF assms(1,2)] x o bindr_eq_Inl)
  from run_probes_fault [OF this] obtain q where q: "th = Some q" "fr_heap s1 q = None" by blast
  from run_probes_frame [OF Inr [unfolded x]] obtain h where "s1 = s\<lparr>fr_heap := h\<rparr>" "same_users (fr_heap s) h" by blast
  with q same_users_None show ?thesis by fastforce
qed

text \<open>C16. A call of a probed function: the callbacks attached to its entry run on the registers of the entry, oldest
  first, then the function with all its arguments, then the callbacks attached to its return on the registers of
  the exit; those of other functions and other types do not run, and the caller gets the result of the function. A callback
  that sets a result ends the call as \<open>run_probes\<close> says: through the pointer the thread keeps from the last replaced function it
  called, or with an exception when it has none. No pointer the interceptor or the objects hold is dangling: the call
  touches destroyed memory only through that pointer of the thread, when its function was detached since.\<close>

theorem probed_call:
  assumes "frida_inv s" "fr_hooks s f = Some (Listener p)"
  shows "call_function run c f th s w =
    bindr (run_probes run th (probes (attach_log s) f ATTACH_UPROBE) (entry_regs c) s w) (\<lambda>(s1, w1).
      let (ret, w2) = fc_orig c (fc_args c) w1
      in bindr (run_probes run th (probes (attach_log s) f ATTACH_URETPROBE) (exit_regs c ret) s1 w2) (\<lambda>(s2, w3).
           Inr (ret, th, s2, w3))) \<and>
    (call_function run c f th s w = Inl Fault \<longrightarrow> (\<exists>q. th = Some q \<and> fr_heap s q = None))"
proof (intro conjI impI)
  show "\<exists>q. th = Some q \<and> fr_heap s q = None" if "call_function run c f th s w = Inl Fault"
    by (rule listener_call_fault [OF assms that])
qed (rule listener_call [OF assms])

lemma override_returns_self:
  assumes "fr_heap s p = Some ia" "fa_override_cb ia"
  shows "override_returns (Some p) vs s = Inr (s\<lparr>fr_heap := (fr_heap s)(p \<mapsto>
    if vs = [] then ia else ia\<lparr>fa_overrided := True, fa_user_ret := snd (last vs), fa_user_ret_ctx := fst (last vs)\<rparr>)\<rparr>)"
  using assms
proof (induction vs arbitrary: s ia)
  case Nil
  then show ?case by (simp add: fun_upd_idem)
next
  case (Cons v vs)
  obtain ctx x where v: "v = (ctx, x)" by fastforce
  let ?ia = "ia\<lparr>fa_overrided := True, fa_user_ret := x, fa_user_ret_ctx := ctx\<rparr>"
  from Cons.IH [of "s\<lparr>fr_heap := (fr_heap s)(p \<mapsto> ?ia)\<rparr>" ?ia] Cons.prems show ?case
    by (cases "vs = []") (simp_all add: v fun_upd_same del: fun_upd_apply)
qed

lemma override_call:
  assumes "frida_inv s" "fr_hooks s f = Some (Replacement p)"
  shows "\<exists>i cb s'. filter (\<lambda>e. fst (snd e) = f) (attach_log s) = [(i, f, cb)] \<and> cb_type cb = ATTACH_UPROBE_OVERRIDE \<and>
    frida_inv s' \<and> attach_log s' = attach_log s \<and>
    call_function run c f th s w =
      (let r = run_entry run cb (entry_regs c) w;
           (ret, w') = (if cr_sets r = [] then fc_orig c (\<lambda>n. if n < 5 then fc_args c n else fc_rest c n) (cr_world r)
             else (snd (last (cr_sets r)), cr_world r))
       in Inr (ret, Some p, s', w'))"
proof -
  obtain q ia where q: "fr_internals s f = Some q" "fr_heap s q = Some ia" "internal_ok False s f q ia"
    "Replacement p = (if fa_listener ia then Listener q else Replacement q)" "fa_listener ia \<noteq> fa_override_cb ia"
    by (rule hook_object [OF assms])
  then have qp: "q = p" "fa_override_cb ia" by (simp_all split: if_splits)
  have us: "sorted_wrt (<) (fa_users ia)" "set (fa_users ia) = on_function s f" using q(3) by (auto simp: internal_ok_def)
  obtain i where i: "fa_users ia = [i]" "i \<in> of_type s ATTACH_UPROBE_OVERRIDE"
    using q(3,5) qp(2) by (cases "fa_users ia") (auto simp: internal_ok_def)
  obtain e where e: "fr_attaches s i = Some e" "get_type e = ATTACH_UPROBE_OVERRIDE" using i(2) by (auto simp: of_type_def)
  have one: "filter (\<lambda>e. fst (snd e) = f) (attach_log s) = [(i, f, fe_callback e)]"
    using log_users [OF assms(1) us] i(1) e(1) by simp
  let ?r = "run_entry run (fe_callback e) (entry_regs c) w" and ?ia = "ia\<lparr>fa_overrided := False\<rparr>"
  let ?ja = "if cr_sets ?r = [] then ?ia
    else ?ia\<lparr>fa_overrided := True, fa_user_ret := snd (last (cr_sets ?r)), fa_user_ret_ctx := fst (last (cr_sets ?r))\<rparr>"
  let ?s = "s\<lparr>fr_heap := (fr_heap s)(p \<mapsto> ?ja)\<rparr>"
  have "from_cb_idx_to_attach_type ATTACH_UPROBE_OVERRIDE_INDEX = ATTACH_UPROBE_OVERRIDE" "ATTACH_UPROBE_OVERRIDE_INDEX \<le> 2"
    by (simp_all add: from_cb_idx_to_attach_type_def attach_indices)
  then have run: "run_callback run ATTACH_UPROBE_OVERRIDE_INDEX (fe_callback e) (entry_regs c) w = Inr ?r"
    using e(2) by (intro run_callback_entry) (simp_all add: get_type_def)
  have sets: "override_returns (Some p) (cr_sets ?r) (s\<lparr>fr_heap := (fr_heap s)(p \<mapsto> ?ia)\<rparr>) = Inr ?s"
    using override_returns_self [of "s\<lparr>fr_heap := (fr_heap s)(p \<mapsto> ?ia)\<rparr>" p ?ia "cr_sets ?r"] qp by simp
  have "same_users (fr_heap s) ((fr_heap s)(p \<mapsto> ?ja))" using q(2) qp(1) by (simp add: same_users_def)
  from same_users_inv [OF assms(1) this] have inv: "frida_inv ?s" .
  have "call_function run c f th s w =
      (let (ret, w') = (if cr_sets ?r = [] then fc_orig c (\<lambda>n. if n < 5 then fc_args c n else fc_rest c n) (cr_world ?r)
             else (snd (last (cr_sets ?r)), cr_world ?r))
       in Inr (ret, Some p, ?s, w'))"
    using assms(2) q(2) qp i(1) e run sets by (simp add: call_function_def override_handler_def Let_def split: prod.splits)
  with one e(2) inv show ?thesis
    by (intro exI [of _ i] exI [of _ "fe_callback e"] exI [of _ ?s]) (simp add: get_type_def Let_def)
qed

text \<open>C17. A call of a function with an override attached first: the function has this one attach, whose callback is
  run; if it set a result, the last one set is what the caller gets and the function is not called; otherwise the
  function is called with the first five arguments and its result is passed on. The handler never finds its
  callback missing and follows no dangling pointer.\<close>

theorem replaced_call:
  assumes "frida_inv s" "fr_hooks s f = Some (Replacement p)"
  shows "\<exists>i cb s'. filter (\<lambda>e. fst (snd e) = f) (attach_log s) = [(i, f, cb)] \<and> cb_type cb = ATTACH_UPROBE_OVERRIDE \<and>
    frida_inv s' \<and> attach_log s' = attach_log s \<and>
    call_function run c f th s w =
      (let r = run_entry run cb (entry_regs c) w;
           (ret, w') = (if cr_sets r = [] then fc_orig c (\<lambda>n. if n < 5 then fc_args c n else fc_rest c n) (cr_world r)
             else (snd (last (cr_sets r)), cr_world r))
       in Inr (ret, Some p, s', w'))"
  by (rule override_call [OF assms])

text \<open>A function replaced by a program: the caller gets what the program returned.\<close>

theorem ureplace_call:
  assumes "frida_inv s" "fr_hooks s f = Some (Replacement p)"
    "filter (\<lambda>e. fst (snd e) = f) (attach_log s) = [(i, f, Ebpf (Ureplace cb) ty)]" "0 \<le> cr_err (run cb (entry_regs c) w)"
  shows "\<exists>s'. call_function run c f th s w = Inr (cr_ret (run cb (entry_regs c) w), Some p, s', cr_world (run cb (entry_regs c) w))"
  using override_call [OF assms(1,2), of run c th w] assms(3,4) by (auto simp: Let_def)

text \<open>An override attached to a function that already has a probe is accepted, but it is never run: the hook stays the
  listener, which skips it, and from then on the function takes no further attach.\<close>

theorem override_after_probe_ignored:
  assumes "frida_inv s" "fr_hooks s f = Some (Listener p)" "cb_type cb = ATTACH_UPROBE_OVERRIDE" "attach_at env f cb s = (Inr i, s')"
  shows "frida_inv s' \<and> fr_hooks s' f = Some (Listener p) \<and>
    (\<forall>ty. ty \<noteq> ATTACH_UPROBE_OVERRIDE \<longrightarrow> probes (attach_log s') f ty = probes (attach_log s) f ty) \<and>
    (\<forall>cb'. attach_at env f cb' s' = (Inl (NegErrno EEXIST), s'))"
proof (intro conjI)
  from attach_at_inv [OF assms(1,4)] obtain q where s': "frida_inv s'" "i = fr_next s"
    "fr_attaches s' = (fr_attaches s)(fr_next s \<mapsto> \<lparr>fe_callback = cb, fe_function = f, fe_internal = q\<rparr>)" by auto
  then show "frida_inv s'" by simp
  have log: "attach_log s' = attach_log s @ [(i, f, cb)]" using attach_log_add [OF assms(1) s'(3)] s'(2) by simp
  show "\<forall>ty. ty \<noteq> ATTACH_UPROBE_OVERRIDE \<longrightarrow> probes (attach_log s') f ty = probes (attach_log s) f ty"
    using log assms(3) by (simp add: probes_def)
  obtain r ia where r: "fr_internals s f = Some r" "fr_heap s r = Some ia" using hook_object [OF assms(1,2)] by blast
  show "fr_hooks s' f = Some (Listener p)"
    using assms(2,4) r by (auto simp: attach_at_def add_entry_def frida_allocate_id_def split: sum.splits bool.splits if_splits)
  show "\<forall>cb'. attach_at env f cb' s' = (Inl (NegErrno EEXIST), s')"
  proof
    fix cb'
    obtain x t where x: "attach_at env f cb' s' = (x, t)" by fastforce
    have "f \<noteq> 0" using frida_invD(3) [OF assms(1) r(1)] by simp
    moreover have "probes (attach_log s') f ATTACH_UPROBE_OVERRIDE \<noteq> []" using log assms(3) by (simp add: probes_def)
    ultimately have "x = Inl (NegErrno EEXIST)" using attach_at_result [OF s'(1), of env f cb'] x by simp
    with attach_at_inv [OF s'(1) x] x show "attach_at env f cb' s' = (Inl (NegErrno EEXIST), s')" by auto
  qed
qed

text \<open>A call changes nothing of the implementation but the flags of overrides, and leaves the thread with the callback
  of a replaced function.\<close>

lemma frame_trans:
  assumes "\<exists>h. t = s\<lparr>fr_heap := h\<rparr> \<and> same_users (fr_heap s) h" "\<exists>h. u = t\<lparr>fr_heap := h\<rparr> \<and> same_users (fr_heap t) h"
  shows "\<exists>h. u = s\<lparr>fr_heap := h\<rparr> \<and> same_users (fr_heap s) h"
proof -
  from assms(1) obtain h where h: "t = s\<lparr>fr_heap := h\<rparr>" "same_users (fr_heap s) h" by blast
  from assms(2) obtain h' where "u = t\<lparr>fr_heap := h'\<rparr>" "same_users (fr_heap t) h'" by blast
  with h show ?thesis by (intro exI [of _ h']) (auto intro: same_users_trans)
qed

lemma iterate_callbacks_frame:
  fixes w :: 'w
  assumes "iterate_callbacks run idx ty th us regs s w = Inr (s', w')"
  shows "\<exists>h. s' = s\<lparr>fr_heap := h\<rparr> \<and> same_users (fr_heap s) h"
  using assms
proof (induction us arbitrary: regs s w)
  case Nil
  then show ?case by (intro exI [of _ "fr_heap s"]) simp
next
  case (Cons i us)
  from Cons.prems obtain e where e: "fr_attaches s i = Some e" by (auto split: option.splits)
  show ?case
  proof (cases "get_type e = ty")
    case True
    from Cons.prems e True obtain r :: "'w cb_run" and t where "override_returns th (cr_sets r) s = Inr t"
      "iterate_callbacks run idx ty th us (cr_regs r) t (cr_world r) = Inr (s', w')" by (auto simp: bindr_eq_Inr)
    from frame_trans [OF override_returns_frame [OF this(1)] Cons.IH [OF this(2)]] show ?thesis .
  qed (use Cons e in auto)
qed

lemma run_filter_callback_frame:
  fixes w :: 'w
  assumes "run_filter_callback run th us regs s w = Inr (s', w')"
  shows "\<exists>h. s' = s\<lparr>fr_heap := h\<rparr> \<and> same_users (fr_heap s) h"
  using assms
proof (induction us)
  case (Cons i us)
  from Cons.prems obtain e where e: "fr_attaches s i = Some e" by (auto split: option.splits)
  show ?case
  proof (cases "get_type e = ATTACH_UPROBE_OVERRIDE")
    case True
    with Cons.prems e obtain r :: "'w cb_run" where "override_returns th (cr_sets r) s = Inr s'" by (auto simp: bindr_eq_Inr)
    from override_returns_frame [OF this] show ?thesis .
  qed (use Cons e in auto)
qed simp

lemma listener_frame:
  "uprobe_listener_on_enter run c th p s w = Inr (s', w') \<Longrightarrow> \<exists>h. s' = s\<lparr>fr_heap := h\<rparr> \<and> same_users (fr_heap s) h"
  "uprobe_listener_on_leave run c ret th p s w = Inr (s', w') \<Longrightarrow> \<exists>h. s' = s\<lparr>fr_heap := h\<rparr> \<and> same_users (fr_heap s) h"
  by (auto simp: uprobe_listener_on_enter_def uprobe_listener_on_leave_def iterate_uprobe_callbacks_def iterate_uretprobe_callbacks_def
      bindr_eq_Inr intro: iterate_callbacks_frame)

lemma override_handler_frame:
  assumes "override_handler run c p s w = Inr (ret, th1, s1, w1)"
  shows "th1 = Some p \<and> (\<exists>h. s1 = s\<lparr>fr_heap := h\<rparr> \<and> same_users (fr_heap s) h)"
proof -
  from assms obtain ia where ia: "fr_heap s p = Some ia" by (auto simp: override_handler_def bindr_eq_Inr)
  let ?h = "(fr_heap s)(p \<mapsto> ia\<lparr>fa_overrided := False\<rparr>)"
  from assms ia obtain w' where f: "run_filter_callback run (Some p) (fa_users ia) (entry_regs c) (s\<lparr>fr_heap := ?h\<rparr>) w = Inr (s1, w')" and th: "th1 = Some p"
    by (auto simp: override_handler_def bindr_eq_Inr Let_def case_prod_unfold split: if_splits)
  have "same_users (fr_heap s) ?h" using ia by (simp add: same_users_def)
  then have "\<exists>h. s\<lparr>fr_heap := ?h\<rparr> = s\<lparr>fr_heap := h\<rparr> \<and> same_users (fr_heap s) h" by blast
  from frame_trans [OF this run_filter_callback_frame [OF f]] th show ?thesis by simp
qed

lemma call_function_frame:
  assumes "call_function run c f th s w = Inr (ret, th1, s1, w1)"
  shows "th1 = (case fr_hooks s f of Some (Replacement p) \<Rightarrow> Some p | _ \<Rightarrow> th) \<and> (\<exists>h. s1 = s\<lparr>fr_heap := h\<rparr> \<and> same_users (fr_heap s) h)"
proof (cases "fr_hooks s f")
  case None
  with assms show ?thesis by (auto simp: call_function_def split: prod.splits intro: exI [of _ "fr_heap s"])
next
  case (Some k)
  show ?thesis
  proof (cases k)
    case (Listener p)
    with Some assms obtain t w2 w3 where "uprobe_listener_on_enter run c th p s w = Inr (t, w2)"
      "uprobe_listener_on_leave run c ret th p t w3 = Inr (s1, w1)" "th1 = th"
      by (auto simp: call_function_def bindr_eq_Inr case_prod_unfold Let_def)
    with frame_trans [OF listener_frame(1) listener_frame(2)] Some Listener show ?thesis by auto
  next
    case (Replacement p)
    with Some assms override_handler_frame show ?thesis by (fastforce simp: call_function_def)
  qed
qed

lemma call_function_inv: "frida_inv s \<Longrightarrow> call_function run c f th s w = Inr (ret, th1, s1, w1) \<Longrightarrow> frida_inv s1 \<and> attach_log s1 = attach_log s"
  using call_function_frame same_users_inv by fastforce

text \<open>The thread keeps the callback for override results of the last replaced function it called, also after that
  function was detached: a probe that sets a result then writes to a destroyed object.\<close>

theorem override_callback_dangles:
  assumes "frida_inv s" "fr_hooks s f = Some (Replacement p)" "call_function run c f th s w = Inr (ret, th1, s1, w1)"
    "detach_by_func_addr f s1 = (Inr (), s2)" "fr_hooks s2 g = Some (Listener q)" "probes (attach_log s2) g ATTACH_UPROBE = cb # cbs"
    "cr_sets (run_entry run cb (entry_regs c') w1) \<noteq> []"
  shows "call_function run c' g th1 s2 w1 = Inl Fault"
proof -
  from call_function_frame [OF assms(3)] assms(2) obtain h where th1: "th1 = Some p" and h: "s1 = s\<lparr>fr_heap := h\<rparr>" "same_users (fr_heap s) h" by auto
  have inv1: "frida_inv s1" using same_users_inv [OF assms(1) h(2)] h(1) by simp
  obtain r and ia :: frida_internal where "fr_internals s f = Some r" "Replacement p = (if fa_listener ia then Listener r else Replacement r)"
    by (rule hook_object [OF assms(1,2)])
  then have f: "fr_internals s1 f = Some p" using h(1) by (auto split: if_splits)
  from detach_by_func_addr_inv [OF inv1 f] assms(4) have inv2: "frida_inv s2" "fr_heap s2 p = None" by auto
  moreover obtain v vs where "cr_sets (run_entry run cb (entry_regs c') w1) = v # vs" using assms(7) by (meson neq_Nil_conv)
  ultimately have "run_probes run th1 (probes (attach_log s2) g ATTACH_UPROBE) (entry_regs c') s2 w1 = Inl Fault"
    using th1 assms(6) by (cases v) (simp add: Let_def)
  then show ?thesis by (simp add: listener_call [OF inv2(1) assms(5)])
qed

section \<open>Attach points and registers\<close>

lemma stoul_dec: "n < 2 ^ 64 \<Longrightarrow> stoul (dec n) = Some (of_nat n)"
proof -
  assume n: "n < 2 ^ 64"
  obtain c r where c: "dec n = c # r" using dec_digits [of n] by (cases "dec n") auto
  then have "is_digit c" using dec_digits [of n] by auto
  then have "\<not> is_space c" "c \<noteq> CHR ''-''" "c \<noteq> CHR ''+''" by (auto simp: is_digit_def is_space_def)
  moreover have "takeWhile is_digit (dec n) = dec n" using dec_digits [of n] by (simp add: takeWhile_eq_all_conv)
  moreover have "digits_value (dec n) = int n" using dec_digits [of n] by blast
  ultimately show ?thesis using c n by (simp add: stoul_def)
qed

lemma dec_no_colon: "CHR '':'' \<notin> set (dec n)"
proof
  assume "CHR '':'' \<in> set (dec n)"
  then have "is_digit (CHR '':'')" using dec_digits [of n] by blast
  then show False by (simp add: is_digit_def)
qed

lemma last_colon:
  assumes "CHR '':'' \<notin> set v"
  shows "rev (takeWhile (\<lambda>c. c \<noteq> CHR '':'') (rev (u @ CHR '':'' # v))) = v"
proof -
  have "takeWhile (\<lambda>c. c \<noteq> CHR '':'') (rev v @ CHR '':'' # rev u) = rev v"
    using assms by (subst takeWhile_append2) auto
  then show ?thesis by simp
qed

lemma module_offset_parsed:
  assumes "fv_equivalent env nm (fv_exe env) = Inr same"
  shows "frida_initialize_from_string env (nm @ CHR '':'' # dec (unat off)) =
    (let base = fv_module_base env (if same then [] else nm) in Inr (FridaData (if base = 0 then 0 else base + off) nm))"
proof -
  have n: "unat off < 2 ^ 64" using unsigned_less [of off, where ?'a = nat] by simp
  have "dec (unat off) \<noteq> []" using dec_digits by blast
  then show ?thesis
    using assms last_colon [OF dec_no_colon, of nm "unat off"] stoul_dec [OF n]
    by (simp add: frida_initialize_from_string_def or_throw_def resolve_function_addr_by_module_offset_def Let_def)
qed

text \<open>C18. The attach point of a uprobe survives the way through text: what the context writes for a perf event of any of
  the four types is read back as the same module, and its offset in that module, whatever characters the name of
  the module has; the module of the executable itself is found under the empty name, and a module that is not
  loaded gives the address zero.\<close>

theorem uprobe_attach_point:
  assumes "fv_equivalent env nm (fv_exe env) = Inr same"
    "pf_type h \<in> {BPF_TYPE_UPROBE, BPF_TYPE_URETPROBE, BPF_TYPE_UPROBE_OVERRIDE, BPF_TYPE_UREPLACE}" "pf_data h = Uprobe off pid ref nm"
  shows "bindr (attach_argument h) (frida_initialize_from_string env) =
    (let base = fv_module_base env (if same then [] else nm) in Inr (FridaData (if base = 0 then 0 else base + off) nm))"
  using assms module_offset_parsed [OF assms(1)] by (auto simp: attach_argument_def)

text \<open>A module counts as loaded when a line of the memory map names a file that exists and is the same.\<close>

lemma module_mapped_spec:
  assumes "\<forall>x. \<exists>b. fv_exists env x = Inr b" "\<forall>x. \<exists>b. fv_equivalent env m x = Inr b"
  shows "module_mapped env m ls = Inr (\<exists>l \<in> set ls. 5 < length (line_fields l) \<and>
    fv_exists env (line_fields l ! 5) = Inr True \<and> fv_equivalent env m (line_fields l ! 5) = Inr True)"
proof (induction ls)
  case (Cons l ls)
  obtain a b where "fv_exists env (line_fields l ! 5) = Inr a" "fv_equivalent env m (line_fields l ! 5) = Inr b" using assms by metis
  with Cons show ?case by (auto simp: Let_def)
qed simp

text \<open>The registers of the interceptor survive the conversion; the members it does not have keep what the structure
  held before.\<close>

theorem registers_roundtrip:
  "convert_pt_regs_to_gum_cpu_context (convert_gum_cpu_context_to_pt_regs c r) c' = c \<and>
   pt_orig_ax (convert_gum_cpu_context_to_pt_regs c r) = pt_orig_ax r \<and> pt_cs (convert_gum_cpu_context_to_pt_regs c r) = pt_cs r \<and>
   pt_flags (convert_gum_cpu_context_to_pt_regs c r) = pt_flags r \<and> pt_ss (convert_gum_cpu_context_to_pt_regs c r) = pt_ss r"
  by (simp add: convert_gum_cpu_context_to_pt_regs_def convert_pt_regs_to_gum_cpu_context_def)

text \<open>Attaching and detaching uprobes are inverse: after any sequence of requests, refused ones included, detaching the
  numbers they returned leaves the attaches there were before, with the hooks of exactly the functions that have one.\<close>

theorem frida_attach_detach:
  assumes "frida_inv s" "create_all (frida_create env) qs s = (is, s')"
  shows "\<exists>s''. for_each frida_detach is s' = (Inr (), s'') \<and> dom (fr_attaches s'') = dom (fr_attaches s) \<and>
    (\<forall>f. fr_hooks s'' f \<noteq> None \<longrightarrow> on_function s'' f \<noteq> {})"
proof -
  from frida.detach_created [OF assms] obtain t where t: "for_each frida_detach is s' = (Inr (), t)" "frida_inv t"
    "dom (fr_attaches t) = dom (fr_attaches s)" by blast
  have "on_function t f \<noteq> {}" if "fr_hooks t f \<noteq> None" for f
    using that frida_invD(5) [OF t(2), of f] internals_on [OF t(2), of f] by auto
  with t show ?thesis by blast
qed

section \<open>Concrete calls\<close>

text \<open>An environment in which every hook is granted, a callback that logs its name and sets the results it is told to, and
  a function that returns its first argument plus one.\<close>

definition probe_env :: frida_env where
  "probe_env = \<lparr>fv_attach = (\<lambda>f. 0), fv_replace = (\<lambda>f. 0), fv_exists = (\<lambda>x. Inr True), fv_equivalent = (\<lambda>a b. Inr (a = b)),
     fv_exe = ''/bin/app'', fv_module_base = (\<lambda>m. if m = [] then 4096 else 0), fv_maps = []\<rparr>"

definition zero_regs :: pt_regs where
  "zero_regs = \<lparr>pt_r15 = 0, pt_r14 = 0, pt_r13 = 0, pt_r12 = 0, pt_bp = 0, pt_bx = 0, pt_r11 = 0, pt_r10 = 0, pt_r9 = 0, pt_r8 = 0,
     pt_ax = 0, pt_cx = 0, pt_dx = 0, pt_si = 0, pt_di = 0, pt_orig_ax = 0, pt_ip = 0, pt_cs = 0, pt_flags = 0, pt_sp = 0, pt_ss = 0\<rparr>"

definition zero_cpu :: gum_cpu where
  "zero_cpu = \<lparr>gc_rip = 0, gc_r15 = 0, gc_r14 = 0, gc_r13 = 0, gc_r12 = 0, gc_r11 = 0, gc_r10 = 0, gc_r9 = 0, gc_r8 = 0, gc_rdi = 0,
     gc_rsi = 0, gc_rbp = 0, gc_rsp = 0, gc_rbx = 0, gc_rdx = 0, gc_rcx = 0, gc_rax = 0\<rparr>"

definition probe_run :: "(nat \<times> (u64 \<times> u64) list, nat list) runner" where
  "probe_run cb regs w = \<lparr>cr_regs = regs, cr_sets = snd cb, cr_err = 0, cr_ret = 0, cr_world = w @ [fst cb]\<rparr>"

definition probe_call :: "nat list fcall" where
  "probe_call = \<lparr>fc_args = (\<lambda>n. of_nat (10 + n)), fc_rest = (\<lambda>n. 0), fc_cpu = zero_cpu, fc_exit = (\<lambda>r. zero_cpu\<lparr>gc_rax := r\<rparr>),
     fc_junk = zero_regs, fc_orig = (\<lambda>a w. (a 0 + a 5, w))\<rparr>"

definition attach_seq :: "(u64 \<times> 'cb frida_callback) list \<Rightarrow> 'cb frida_impl" where
  "attach_seq l = fold (\<lambda>(f, cb) s. snd (attach_at probe_env f cb s)) l frida_attach_impl_new"

lemma attach_seq_inv: "frida_inv (attach_seq l)"
proof -
  have "frida_inv (snd (attach_at probe_env f cb s))" if "frida_inv s" for f and cb :: "'a frida_callback" and s
    using attach_at_inv [OF that, of probe_env f cb] that by (cases "attach_at probe_env f cb s") auto
  then have "frida_inv s \<Longrightarrow> frida_inv (fold (\<lambda>(f, cb) s. snd (attach_at probe_env f cb s)) l s)" for s
    by (induction l arbitrary: s) auto
  then show ?thesis using frida_inv_new by (simp add: attach_seq_def)
qed

lemmas attach_seq_eval = attach_seq_def attach_at_def frida_internal_attach_entry_new_def add_entry_def frida_allocate_id_def has_override_def
  frida_attach_impl_new_def probe_env_def get_type_def from_cb_idx_to_attach_type_def attach_types attach_indices

lemmas call_eval = probe_run_def probe_call_def

definition two_probes :: "(nat \<times> (u64 \<times> u64) list) frida_impl" where
  "two_probes = attach_seq [(64, Direct 0 (5, [])), (64, Direct 1 (9, []))]"

definition one_override :: "(nat \<times> (u64 \<times> u64) list) frida_impl" where
  "one_override = attach_seq [(64, Ebpf (Prog (5, [(0, 1), (0, 2)])) 1008)]"

lemma two_probes_inv: "frida_inv two_probes"
  by (simp add: two_probes_def attach_seq_inv)

lemma one_override_inv: "frida_inv one_override"
  by (simp add: one_override_def attach_seq_inv)

lemma probed_two:
  "fr_hooks two_probes 64 = Some (Listener 0)"
  "attach_log two_probes = [(1, 64, Direct 0 (5, [])), (2, 64, Direct 1 (9, []))]"
  by (simp_all add: two_probes_def one_override_def attach_seq_eval attach_log_def)

theorem probed_call_witness:
  "call_function probe_run probe_call 64 None two_probes [] =
     Inr (25, None, two_probes, [5, 9])"
  unfolding probed_call [OF two_probes_inv probed_two(1), THEN conjunct1] probed_two(2)
  by (simp add: probes_def from_cb_idx_to_attach_type_def attach_types attach_indices call_eval)

lemma replaced_one:
  "fr_hooks one_override 64 = Some (Replacement 0)"
  "attach_log one_override = [(1, 64, Ebpf (Prog (5, [(0, 1), (0, 2)])) 1008)]"
  by (simp_all add: two_probes_def one_override_def attach_seq_eval attach_log_def)

theorem replaced_call_witness:
  "\<exists>s'. call_function probe_run probe_call 64 None one_override [] = Inr (2, Some 0, s', [5])"
  using replaced_call [OF one_override_inv replaced_one(1), of probe_run probe_call None "[]"] replaced_one(2)
  by (auto simp: call_eval Let_def)

theorem frida_refines_log_witness:
  "(fst (attach_at probe_env 64 (Direct 0 (7, [])) two_probes) = Inr 3 \<and>
     attach_log (snd (frida_detach 1 two_probes)) = [(2, 64, Direct 1 (9, []))])"
proof -
  have "fst (attach_at probe_env 64 (Direct 0 (7, [])) two_probes) = Inr 3" by (simp add: two_probes_def attach_seq_eval)
  moreover obtain r t where d: "frida_detach 1 two_probes = (r, t)" by fastforce
  moreover from frida_refines_log [OF two_probes_inv, where env = probe_env and f = 64 and cb = "Direct 0 (7, [])" and i = 1] d
  have "attach_log t = filter (\<lambda>e. fst e \<noteq> 1) (attach_log two_probes)" by simp
  ultimately show ?thesis by (simp add: probed_two(2))
qed

theorem uprobe_attach_point_witness:
  "bindr (attach_argument (uprobe_perf_new False 64 (- 1) ''/bin/app'' 0)) (frida_initialize_from_string probe_env) =
     Inr (FridaData 4160 ''/bin/app'')"
proof -
  let ?h = "uprobe_perf_new False 64 (- 1) ''/bin/app'' 0"
  have "fv_equivalent probe_env ''/bin/app'' (fv_exe probe_env) = Inr True" "pf_type ?h = BPF_TYPE_UPROBE" "pf_data ?h = Uprobe 64 (- 1) 0 ''/bin/app''"
    by (simp_all add: probe_env_def uprobe_perf_new_def)
  from uprobe_attach_point [OF this(1) _ this(3)] this(2) show ?thesis by (simp add: probe_env_def)
qed

theorem frida_attach_detach_witness:
  "\<exists>is s' s''. create_all (frida_create probe_env) [(True, FridaData 64 [], 6), (False, NotFrida, 6), (False, FridaData 64 [], 1009), (True, FridaData 0 [], 7)]
      frida_attach_impl_new = (is, s') \<and> for_each frida_detach is s' = (Inr (), s'') \<and> dom (fr_attaches s'') = {}"
proof -
  let ?qs = "[(True, FridaData 64 [], 6), (False, NotFrida, 6), (False, FridaData 64 [], 1009), (True, FridaData 0 [], 7)]"
  obtain "is" s' where c: "create_all (frida_create probe_env) ?qs frida_attach_impl_new = (is, s')" by fastforce
  from frida_attach_detach [OF frida_inv_new c] c show ?thesis by (auto simp: frida_attach_impl_new_def)
qed

theorem override_after_probe_ignored_witness:
  "(let (r, s) = attach_at probe_env 64 (Ebpf (Prog (3, [])) 1008) two_probes in
     r = Inr 3 \<and> fst (attach_at probe_env 64 (Direct 0 (7, [])) s) = Inl (NegErrno EEXIST) \<and> fr_hooks s 64 = Some (Listener 0))"
proof -
  obtain r s where a: "attach_at probe_env 64 (Ebpf (Prog (3, [])) 1008) two_probes = (r, s)" by fastforce
  then have "r = Inr 3" by (auto simp: two_probes_def attach_seq_eval)
  with a override_after_probe_ignored [OF two_probes_inv probed_two(1), of "Ebpf (Prog (3, [])) 1008" probe_env 3 s]
  show ?thesis by (simp add: attach_types)
qed

definition override_and_probe :: "(nat \<times> (u64 \<times> u64) list) frida_impl" where
  "override_and_probe = attach_seq [(64, Ebpf (Prog (5, [])) 1008), (128, Direct 0 (9, [(0, 1)]))]"

theorem override_callback_dangles_witness:
  "\<exists>ret s1 w1 s2. call_function probe_run probe_call 64 None override_and_probe [] = Inr (ret, Some 0, s1, w1) \<and>
     detach_by_func_addr 64 s1 = (Inr (), s2) \<and> call_function probe_run probe_call 128 (Some 0) s2 w1 = Inl Fault"
proof -
  have inv: "frida_inv override_and_probe" by (simp add: override_and_probe_def attach_seq_inv)
  have hook: "fr_hooks override_and_probe 64 = Some (Replacement 0)"
    by (simp add: override_and_probe_def attach_seq_eval)
  define s1 where "s1 = override_and_probe\<lparr>fr_heap := (fr_heap override_and_probe)(0 \<mapsto> \<lparr>fa_function = 64, fa_users = [1], fa_listener = False,
     fa_override_cb = True, fa_overrided = False, fa_user_ret = 0, fa_user_ret_ctx = 0\<rparr>)\<rparr>"
  have call: "call_function probe_run probe_call 64 None override_and_probe [] = Inr (10, Some 0, s1, [5])"
    by (simp add: s1_def override_and_probe_def attach_seq_eval call_function_def override_handler_def call_eval Let_def)
  obtain r s2 where d: "detach_by_func_addr 64 s1 = (r, s2)" by fastforce
  have r: "r = Inr ()" and hook2: "fr_hooks s2 128 = Some (Listener 1)" and log: "attach_log s2 = [(2, 128, Direct 0 (9, [(0, 1)]))]"
    using d by (auto simp: s1_def override_and_probe_def attach_seq_eval detach_by_func_addr_def erase_attach_def erase_internal_def attach_log_def)
  have p: "probes (attach_log s2) 128 ATTACH_UPROBE = [Direct 0 (9, [(0, 1)])]"
    by (simp add: log probes_def from_cb_idx_to_attach_type_def attach_types attach_indices)
  have "call_function probe_run probe_call 128 (Some 0) s2 [5] = Inl Fault"
    by (rule override_callback_dangles [OF inv hook call d [unfolded r] hook2 p]) (simp add: call_eval)
  with call d r show ?thesis by blast
qed

end
