(* ===== verification/Agent_Probes.thy ===== *)
theory Agent_Probes
  imports Frida_Uprobe
begin

text \<open>
  The attach context of an agent with both implementations that run programs in the process (agent/agent.cpp): the
  tracer of system calls and the probes on functions. An implementation object is of one of the two classes, and
  private data of one class is refused by the other. The theory obtains the contract of the context for the pair
  from the two contracts, and with it the safety of all callbacks. It also models the tables of the GPU
  implementation (attach/nv_attach_impl), which does not keep the contract.
\<close>

section \<open>Two implementations\<close>

text \<open>The classes of private data, and what a \<^verbatim>\<open>dynamic_cast\<close> in each implementation makes of them.\<close>

datatype agent_private = SysPriv private_data | FridaPriv frida_private

fun sys_cast :: "agent_private \<Rightarrow> private_data" where
  "sys_cast (SysPriv d) = d"
| "sys_cast (FridaPriv d) = OtherData"

fun frida_cast :: "agent_private \<Rightarrow> frida_private" where
  "frida_cast (SysPriv d) = NotFrida"
| "frida_cast (FridaPriv d) = d"

type_synonym agent_impl = "attach_callback sys_impl + attach_callback frida_impl"

definition agent_env ::
  "('v, 'w) vm_impl \<Rightarrow> (string \<rightharpoonup> 'v res) \<Rightarrow> string \<Rightarrow> (u32 \<Rightarrow> u64) \<Rightarrow> (u64 \<Rightarrow> u64) \<Rightarrow> helper_groups \<Rightarrow> frida_env \<Rightarrow>
     ('v, 'w, agent_private, agent_impl) attach_env" where
  "agent_env vi fs vn mf mv gs fe = \<lparr>ae_vm = vi, ae_factories = fs, ae_vm_name = vn, ae_map_by_fd = mf, ae_map_val = mv, ae_groups = gs,
     ae_create = either_create (\<lambda>q. sys_create (\<lambda>xs x. x # xs) (apsnd (apfst sys_cast) q)) (\<lambda>q. frida_create fe (apsnd (apfst frida_cast) q)),
     ae_detach = either_detach sys_detach frida_detach, ae_is_nv = (\<lambda>d. False), ae_set_nv = (\<lambda>is l d. d)\<rparr>"

text \<open>The two registrations of the agent, with the functions that make private data from text; \<open>hs\<close> are the helpers of the
  probes.\<close>

definition register_process_impls ::
  "bool \<Rightarrow> (int \<rightharpoonup> string) \<Rightarrow> (string \<rightharpoonup> int) \<Rightarrow> frida_env \<Rightarrow> helper_info list \<Rightarrow> ('v, agent_private, agent_impl) attach_ctx \<Rightarrow>
     ('v, agent_private, agent_impl) attach_ctx" where
  "register_process_impls junk tps nrs fe hs cx =
     (let cx = register_attach_impl [ATTACH_SYSCALL_TRACE] (Inl sys_impl_new) []
            (\<lambda>sv. bindr (initialize_from_string junk tps nrs sv) (\<lambda>d. Inr (SysPriv d))) cx
      in register_attach_impl [ATTACH_UPROBE, ATTACH_URETPROBE, ATTACH_UPROBE_OVERRIDE, ATTACH_UREPLACE] (Inr frida_attach_impl_new) hs
           (\<lambda>sv. bindr (frida_initialize_from_string fe sv) (\<lambda>d. Inr (FridaPriv d))) cx)"

section \<open>The contract for the pair\<close>

context attach_callbacks
begin

text \<open>A view of the requests.\<close>

lemma requests: "attach_callbacks inv live (\<lambda>q. create (m q)) detach attached (\<lambda>q. callback (m q))"
  by unfold_locales
    (erule (1) create_Inr, erule (1) create_Inl, erule (1) detach_live, rule live_attached, erule (1) create_attached,
     erule (1) create_refused, erule (1) detach_attached)

end

lemma fst_cast: "(\<lambda>q. fst (apsnd (apfst m) q)) = fst"
  by (simp add: fun_eq_iff)

interpretation procs: attach_pair sys_inv "\<lambda>s. dom (si_entries s)" "\<lambda>q. sys_create (\<lambda>xs x. x # xs) (apsnd (apfst sys_cast) q)" sys_detach sys_attached
  frida_inv "\<lambda>s. dom (fr_attaches s)" "\<lambda>q. frida_create fe (apsnd (apfst frida_cast) q)" frida_detach frida_attached fst for fe
  unfolding attach_pair_def
  using sys_cb.requests [of "apsnd (apfst sys_cast)"] frida_cb.requests [of fe "apsnd (apfst frida_cast)"] by (simp add: fst_cast)

abbreviation "agent_inv_impl \<equiv> case_sum sys_inv frida_inv"
abbreviation "agent_attached \<equiv> case_sum sys_attached frida_attached"
abbreviation "agent_live \<equiv> case_sum (\<lambda>s. dom (si_entries s)) (\<lambda>s. dom (fr_attaches s))"

interpretation agent: attach_context agent_inv_impl agent_live "agent_env vi fs vn mf mv gs fe" agent_attached for vi fs vn mf mv gs fe
  unfolding attach_context_def agent_env_def using procs.both.attach_callbacks_axioms [of fe] by simp

definition fresh_impls :: "agent_impl set" where
  "fresh_impls = {Inl sys_impl_new, Inr frida_attach_impl_new}"

lemma agent_probes_inv:
  assumes "agent_ctx (agent_env vi fs vn mf mv gs fe) fresh_impls mg cx" "links_ok (mg_handlers mg)"
  shows "ctx_inv agent_inv_impl agent_attached (agent_env vi fs vn mf mv gs fe) mg cx"
proof (rule agent.agent_inv [OF assms])
  have "frida_attached frida_attach_impl_new = (Map.empty :: int \<rightharpoonup> attach_callback)"
    by (simp add: frida_attached_def frida_attach_impl_new_def fun_eq_iff)
  then show "agent_inv_impl s \<and> agent_attached s = Map.empty" if "s \<in> fresh_impls" for s
    using that by (auto simp: fresh_impls_def sys_inv_new sys_attached_new frida_inv_new)
qed

lemma registered_agent:
  "agent_ctx env fresh_impls mg cx \<Longrightarrow> agent_ctx env fresh_impls mg (register_process_impls junk tps nrs fe hs cx)"
  by (auto simp: register_process_impls_def fresh_impls_def intro!: agent_ctx.register)

text \<open>C13. No callback of a probe dangles: whatever an agent with both implementations registered, walked and destroyed
  before, its probes are well formed, and every attach of theirs belongs to a link of the table and carries the
  program made from the program handler of that link with its cookie (or nothing, when that program is for the
  GPU), so that what a call of a probed function runs is a program that is loaded and not destroyed.\<close>

theorem agent_probes_safe:
  assumes "agent_ctx (agent_env vi fs vn mf mv gs fe) fresh_impls mg cx" "links_ok (mg_handlers mg)" "Inr t \<in> set (cx_holders cx)"
    "(i, f, cb) \<in> set (attach_log t)"
  shows "frida_inv t \<and>
    (\<exists>hid h ph a p. get_handler mg hid = Inr (LinkH h) \<and> get_handler mg (lk_prog_id h) = Inr (ProgH ph) \<and> cx_heap cx a = Some p \<and>
      built (agent_env vi fs vn mf mv gs fe) ph p \<and> given cb = (if is_cuda p then NvStub else RunProg a (lk_attach_cookie h))) \<and>
    (\<exists>x. run_attach_callback (agent_env vi fs vn mf mv gs fe) call set_cookie cx (given cb) mem st = Inr x)"
proof -
  note inv = agent_probes_inv [OF assms(1,2)]
  from inv assms(3) have t: "frida_inv t" by (auto simp: ctx_inv_def)
  have "fr_attaches t i \<noteq> None" "given cb = given (fe_callback (the (fr_attaches t i)))"
    using assms(4) attaches_finite [OF t] by (auto simp: attach_log_def Let_def)
  then have "agent_attached (Inr t) i = Some (given cb)" by (auto simp: frida_attached_def)
  from agent.entry_link [OF inv assms(3) this] agent.callback_runs [OF inv assms(3) this] t show ?thesis by blast
qed

text \<open>C14. The links of an agent with both implementations correspond one to one to the live entries of its implementations,
  and destroying them all succeeds and leaves no entry and no hook.\<close>

theorem agent_detaches:
  assumes "agent_ctx (agent_env vi fs vn mf mv gs fe) fresh_impls mg cx" "links_ok (mg_handlers mg)"
  shows "bij_betw (\<lambda>hid. the (map_of (cx_links cx) hid)) (dom (map_of (cx_links cx))) (entries agent_attached (cx_holders cx)) \<and>
    (\<exists>cx'. destroy_all_attach_links (agent_env vi fs vn mf mv gs fe) cx = (Inr 0, cx') \<and> cx_links cx' = [] \<and>
      (\<forall>t. Inl t \<in> set (cx_holders cx') \<longrightarrow> si_entries t = Map.empty) \<and>
      (\<forall>t. Inr t \<in> set (cx_holders cx') \<longrightarrow> attach_log t = [] \<and> fr_hooks t = Map.empty))"
proof
  note inv = agent_probes_inv [OF assms]
  show "bij_betw (\<lambda>hid. the (map_of (cx_links cx) hid)) (dom (map_of (cx_links cx))) (entries agent_attached (cx_holders cx))"
    by (rule agent.links_bij [OF inv])
  from agent.destroy_all [OF inv] obtain cx' where cx': "destroy_all_attach_links (agent_env vi fs vn mf mv gs fe) cx = (Inr 0, cx')"
    "ctx_inv agent_inv_impl agent_attached (agent_env vi fs vn mf mv gs fe) mg cx'" "cx_links cx' = []"
    "\<forall>s \<in> set (cx_holders cx'). agent_live s = {}" by blast
  have "attach_log t = [] \<and> fr_hooks t = Map.empty" if t: "Inr t \<in> set (cx_holders cx')" for t
  proof -
    have e: "fr_attaches t = Map.empty" and i: "frida_inv t" using cx'(2,4) t by (auto simp: ctx_inv_def)
    have "fr_hooks t f = None" for f
      using internals_on [OF i, of f] frida_invD(5) [OF i, of f] e by (auto simp: on_function_def)
    with e show ?thesis by (auto simp: attach_log_def)
  qed
  moreover have "si_entries t = Map.empty" if "Inl t \<in> set (cx_holders cx')" for t using cx'(4) that by auto
  ultimately show "\<exists>cx'. destroy_all_attach_links (agent_env vi fs vn mf mv gs fe) cx = (Inr 0, cx') \<and> cx_links cx' = [] \<and>
      (\<forall>t. Inl t \<in> set (cx_holders cx') \<longrightarrow> si_entries t = Map.empty) \<and>
      (\<forall>t. Inr t \<in> set (cx_holders cx') \<longrightarrow> attach_log t = [] \<and> fr_hooks t = Map.empty)"
    using cx'(1,3) by blast
qed

section \<open>An example\<close>

text \<open>A program, a probe on the entry of the function at offset 64 of the executable, and a link between them.\<close>

definition uprobe_mg :: "unit manager" where
  "uprobe_mg = \<lparr>mg_handlers = [ProgH (prog_handler_new [] ''p'' 0), PerfH (uprobe_perf_new False 64 (- 1) ''/bin/app'' 0),
     LinkH (link_handler_new 0 1 (Some 5))], mg_segment = segment_new ()\<rparr>"

definition mapped_env :: frida_env where
  "mapped_env = probe_env\<lparr>fv_maps := [''0-1 r-xp 0 8:1 7 /bin/app'']\<rparr>"

definition uprobe_env :: "(unit, unit, agent_private, agent_impl) attach_env" where
  "uprobe_env = agent_env echo_impl [''echo'' \<mapsto> Inr ()] ''echo'' (\<lambda>fd. ucast fd) id \<lparr>hg_kernel = [], hg_ufunc = [], hg_shm_maps = []\<rparr> mapped_env"

definition uprobe_ctx :: "(unit, agent_private, agent_impl) attach_ctx" where
  "uprobe_ctx = register_process_impls False Map.empty Map.empty mapped_env [] attach_ctx_new"

lemma uprobe_handler:
  "get_handler uprobe_mg 0 = Inr (ProgH (prog_handler_new [] ''p'' 0))"
  "get_handler uprobe_mg 1 = Inr (PerfH (uprobe_perf_new False 64 (- 1) ''/bin/app'' 0))"
  "get_handler uprobe_mg 2 = Inr (LinkH (link_handler_new 0 1 (Some 5)))" "length (mg_handlers uprobe_mg) = 3"
  "is_allocated uprobe_mg 0" "is_allocated uprobe_mg 1" "is_allocated uprobe_mg 2"
  by (simp_all add: uprobe_mg_def get_handler_def in_range_def is_allocated_def)

lemma uprobe_links_ok: "links_ok (mg_handlers uprobe_mg)"
  by (auto simp: links_ok_def uprobe_mg_def live_prog_def link_handler_new_def less_Suc_eq nth_Cons split: nat.splits)

lemma uprobe_parsed:
  "bindr (attach_argument (uprobe_perf_new False 64 (- 1) ''/bin/app'' 0))
     (\<lambda>sv. bindr (frida_initialize_from_string mapped_env sv) (\<lambda>d. Inr (FridaPriv d))) = Inr (FridaPriv (FridaData 4160 ''/bin/app''))"
  using module_offset_parsed [of mapped_env "''/bin/app''" True 64]
  by (simp add: mapped_env_def probe_env_def attach_argument_def uprobe_perf_new_def)

lemma uprobe_created:
  obtains t where "frida_create mapped_env (RunProg 0 (Some 5), FridaData 4160 ''/bin/app'', 6) frida_attach_impl_new = (Inr 1, t)"
    "attach_log t = [(1, 4160, Ebpf (Prog (RunProg 0 (Some 5))) 6)]" "fr_hooks t 4160 = Some (Listener 0)"
proof -
  have "line_fields ''0-1 r-xp 0 8:1 7 /bin/app'' ! 5 = ''/bin/app''" "5 < length (line_fields ''0-1 r-xp 0 8:1 7 /bin/app'')"
    by (simp_all add: line_fields.simps is_space_def)
  then have "module_mapped mapped_env ''/bin/app'' (fv_maps mapped_env) = Inr True" by (simp add: mapped_env_def probe_env_def)
  then show thesis
    using that by (simp add: frida_create_def attach_at_with_ebpf_callback_def attach_seq_eval mapped_env_def attach_log_def)
qed

lemma uprobe_walk:
  "\<exists>cx t. init_attach_ctx_from_handlers uprobe_env infos uprobe_mg demo_config uprobe_ctx = (Inr 0, cx) \<and>
    cx_links cx = [(2, (1, Some 1))] \<and> cx_holders cx = [Inl sys_impl_new, Inr t] \<and>
    attach_log t = [(1, 4160, Ebpf (Prog (RunProg 0 (Some 5))) 6)] \<and> fr_hooks t 4160 = Some (Listener 0)"
proof -
  obtain p where p: "bpftime_prog_new echo_impl [''echo'' \<mapsto> Inr ()] ''echo'' (\<lambda>fd. ucast fd) id [] ''p'' = Inr p"
    "load_prog_and_helpers echo_impl \<lparr>hg_kernel = [], hg_ufunc = [], hg_shm_maps = []\<rparr> demo_config p = (0, p\<lparr>pr_jitted := Some False\<rparr>)"
    "pr_name p = ''p''" by (rule demo_prog)
  obtain t where t: "frida_create mapped_env (RunProg 0 (Some 5), FridaData 4160 ''/bin/app'', 6) frida_attach_impl_new = (Inr 1, t)"
    "attach_log t = [(1, 4160, Ebpf (Prog (RunProg 0 (Some 5))) 6)]" "fr_hooks t 4160 = Some (Listener 0)" by (rule uprobe_created)
  note ctx = uprobe_ctx_def register_process_impls_def register_attach_impl_def attach_ctx_new_def attach_types ATTACH_SYSCALL_TRACE_def
  let ?go = "\<lambda>nv. instantiate_handler_at uprobe_env infos uprobe_mg demo_config nv {}"
  let ?cx1 = "uprobe_ctx\<lparr>cx_heap := [0 \<mapsto> p\<lparr>pr_jitted := Some False\<rparr>], cx_next := 1, cx_progs := [(0, 0)], cx_done := {0}\<rparr>"
  have 0: "?go False 0 uprobe_ctx = (Inr 0, ?cx1)"
    using p by (simp add: instantiate_handler_at.simps uprobe_handler instantiate_prog_handler_at_def uprobe_env_def agent_env_def ctx
        prog_handler_new_def store_prog_def ok_then_def)
  let ?cx2 = "?cx1\<lparr>cx_perfs := [(1, (Some (FridaPriv (FridaData 4160 ''/bin/app'')), 6))], cx_done := {1, 0}\<rparr>"
  have impl: "map_of (cx_impls uprobe_ctx) 6 = Some (1, \<lambda>sv. bindr (frida_initialize_from_string mapped_env sv) (\<lambda>d. Inr (FridaPriv d)))"
    by (simp add: ctx Let_def)
  have ty: "pf_type (uprobe_perf_new False 64 (- 1) ''/bin/app'' 0) = 6" by (simp add: uprobe_perf_new_def BPF_TYPE_UPROBE_def)
  have 1: "?go False 1 ?cx1 = (Inr 0, ?cx2)"
    using uprobe_parsed impl ty by (simp add: instantiate_handler_at.simps uprobe_handler instantiate_perf_event_handler_at_def ok_then_def
        PERF_TYPE_SOFTWARE_def) (simp add: ctx Let_def)
  have h: "cx_holders uprobe_ctx = [Inl sys_impl_new, Inr frida_attach_impl_new]" by (simp add: ctx Let_def)
  let ?cx3 = "?cx2\<lparr>cx_links := [(2, (1, Some 1))], cx_holders := [Inl sys_impl_new, Inr t], cx_done := {2, 1, 0}\<rparr>"
  have l: "cx_links uprobe_ctx = []" by (simp add: ctx Let_def)
  have 2: "?go False 2 ?cx2 = (Inr 0, ?cx3)"
    using p(3) t(1) impl h l by (simp add: instantiate_handler_at.simps uprobe_handler instantiate_bpf_link_handler_at_def create_attach_def
        uprobe_env_def agent_env_def link_handler_new_def ok_then_def is_cuda_def returned_def)
  have again: "?go True i ?cx3 = (Inr 0, ?cx3)" if "i \<in> {0, 1, 2}" for i using that by (auto simp: instantiate_handler_at.simps)
  have "init_attach_ctx_from_handlers uprobe_env infos uprobe_mg demo_config uprobe_ctx = (Inr 0, ?cx3)"
    using 0 1 2 again [of 0] again [of 1] again [of 2] uprobe_handler
    by (simp add: init_attach_ctx_from_handlers_def upt_rec)
  with t(2,3) show ?thesis by (intro exI [of _ ?cx3] exI [of _ t]) simp
qed

lemma uprobe_agent:
  obtains cx t where "init_attach_ctx_from_handlers uprobe_env (Inr []) uprobe_mg demo_config uprobe_ctx = (Inr 0, cx)"
    "cx_links cx = [(2, (1, Some 1))]" "cx_holders cx = [Inl sys_impl_new, Inr t]" "attach_log t = [(1, 4160, Ebpf (Prog (RunProg 0 (Some 5))) 6)]"
    "fr_hooks t 4160 = Some (Listener 0)" "agent_ctx uprobe_env fresh_impls uprobe_mg cx"
proof -
  from uprobe_walk [of "Inr []"] obtain cx t where w: "init_attach_ctx_from_handlers uprobe_env (Inr []) uprobe_mg demo_config uprobe_ctx = (Inr 0, cx)"
    "cx_links cx = [(2, (1, Some 1))]" "cx_holders cx = [Inl sys_impl_new, Inr t]" "attach_log t = [(1, 4160, Ebpf (Prog (RunProg 0 (Some 5))) 6)]"
    "fr_hooks t 4160 = Some (Listener 0)" by blast
  have "agent_ctx uprobe_env fresh_impls uprobe_mg uprobe_ctx" unfolding uprobe_ctx_def by (intro registered_agent agent_ctx.new)
  with w that show thesis by (blast intro: agent_ctx.init)
qed

theorem agent_probes_safe_witness:
  "\<exists>cx t x. init_attach_ctx_from_handlers uprobe_env (Inr []) uprobe_mg demo_config uprobe_ctx = (Inr 0, cx) \<and> cx_holders cx = [Inl sys_impl_new, Inr t] \<and>
     attach_log t = [(1, 4160, Ebpf (Prog (RunProg 0 (Some 5))) 6)] \<and> fr_hooks t 4160 = Some (Listener 0) \<and>
     run_attach_callback uprobe_env (\<lambda>fn mem w. (0, w)) (\<lambda>c w. w) cx (RunProg 0 (Some 5)) [] (0, ()) = Inr x"
proof -
  obtain cx t where w: "init_attach_ctx_from_handlers uprobe_env (Inr []) uprobe_mg demo_config uprobe_ctx = (Inr 0, cx)"
    "cx_holders cx = [Inl sys_impl_new, Inr t]" "attach_log t = [(1, 4160, Ebpf (Prog (RunProg 0 (Some 5))) 6)]" "fr_hooks t 4160 = Some (Listener 0)"
    "agent_ctx uprobe_env fresh_impls uprobe_mg cx" by (rule uprobe_agent)
  have "Inr t \<in> set (cx_holders cx)" "(1, 4160, Ebpf (Prog (RunProg 0 (Some 5))) 6) \<in> set (attach_log t)" using w(2,3) by simp_all
  from agent_probes_safe [OF w(5) [unfolded uprobe_env_def] uprobe_links_ok this, of "\<lambda>fn mem w. (0, w)" "\<lambda>c w. w" "[]" "(0, ())"] w
  show ?thesis unfolding uprobe_env_def by (simp only: given.simps) blast
qed

theorem agent_detaches_witness:
  "\<exists>cx cx'. map_of (cx_links cx) 2 = Some (1, Some 1) \<and> destroy_all_attach_links uprobe_env cx = (Inr 0, cx') \<and> cx_links cx' = []"
proof -
  obtain cx where w: "cx_links cx = [(2, (1, Some 1))]" "agent_ctx uprobe_env fresh_impls uprobe_mg cx" by (rule uprobe_agent)
  have "map_of (cx_links cx) 2 = Some (1, Some 1)" using w(1) by simp
  with agent_detaches [OF w(2) [unfolded uprobe_env_def] uprobe_links_ok] show ?thesis unfolding uprobe_env_def by blast
qed

end
