(* ===== verification/Ptx_Guard.thy ===== *)
theory Ptx_Guard
  imports Syscall_Trace
begin

text \<open>
  The register guard of programs compiled for the GPU
  (attach/nv_attach_impl/nv_attach_impl_register_guard_patcher.cpp): a pass over PTX text that saves the registers a
  function declares into local memory at its start and restores them before its returns. Regular expressions of the
  code are functions on lines here; each is anchored and leaves the matcher no choice. Sizes and offsets are natural
  numbers: the code's would overflow at 2^28 registers in one function. The theory shows what the
  pass makes of the text, and, with a machine for the instructions it inserts, that they stay inside the area they
  reserve and give every saved register its value back.
\<close>

section \<open>Lines\<close>

abbreviation (input) NL :: char where "NL \<equiv> CHR 0x0A"
abbreviation (input) TAB :: char where "TAB \<equiv> CHR 0x09"

text \<open>The lines \<^verbatim>\<open>std::getline\<close> reads one after the other.\<close>

definition getlines :: "string \<Rightarrow> string list" where
  "getlines s = (let ls = tokens NL s in if last ls = [] then butlast ls else ls)"

definition unlines :: "string list \<Rightarrow> string" where
  "unlines ls = concat (map (\<lambda>l. l @ [NL]) ls)"

definition is_alpha :: "char \<Rightarrow> bool" where
  "is_alpha c \<longleftrightarrow> (65 \<le> (of_char c :: nat) \<and> of_char c \<le> (90 :: nat)) \<or> (97 \<le> (of_char c :: nat) \<and> of_char c \<le> (122 :: nat))"

definition is_word :: "char \<Rightarrow> bool" where
  "is_word c \<longleftrightarrow> is_alpha c \<or> is_digit c \<or> c = CHR ''_''"

definition name_start :: "char \<Rightarrow> bool" where
  "name_start c \<longleftrightarrow> is_alpha c \<or> c = CHR ''_''"

definition name_char :: "char \<Rightarrow> bool" where
  "name_char c \<longleftrightarrow> is_word c \<or> c = CHR ''@'' \<or> c = CHR ''$'' \<or> c = CHR ''.''"

abbreviation skip_ws :: "string \<Rightarrow> string" where
  "skip_ws \<equiv> dropWhile is_space"

text \<open>White space of at least one character.\<close>

definition skip_ws1 :: "string \<Rightarrow> string option" where
  "skip_ws1 s = (if s \<noteq> [] \<and> is_space (hd s) then Some (skip_ws s) else None)"

definition skip_word :: "string \<Rightarrow> string \<Rightarrow> string option" where
  "skip_word p s = (if starts_with s p then Some (drop (length p) s) else None)"

definition openingBrace :: "string \<Rightarrow> bool" where
  "openingBrace line \<longleftrightarrow> (case skip_ws line of c # r \<Rightarrow> c = CHR ''{'' \<and> list_all is_space r | [] \<Rightarrow> False)"

definition closingBrace :: "string \<Rightarrow> bool" where
  "closingBrace line \<longleftrightarrow> (case skip_ws line of c # r \<Rightarrow> c = CHR ''}'' \<and> list_all is_space r | [] \<Rightarrow> False)"

definition localDecl :: "string \<Rightarrow> bool" where
  "localDecl line \<longleftrightarrow> Option.bind (skip_word ''.local'' (skip_ws line)) skip_ws1 \<noteq> None"

definition commentOrEmpty :: "string \<Rightarrow> bool" where
  "commentOrEmpty line \<longleftrightarrow> skip_ws line = [] \<or> starts_with (skip_ws line) ''//''"

text \<open>An optional predicate in front of the return.\<close>

definition skip_predicate :: "string \<Rightarrow> string option" where
  "skip_predicate s = Option.bind (skip_word ''@%p'' s) (\<lambda>r. if takeWhile is_digit r = [] then None else skip_ws1 (dropWhile is_digit r))"

definition retLine :: "string \<Rightarrow> bool" where
  "retLine line = (let s = skip_ws line; s = (case skip_predicate s of Some r \<Rightarrow> r | None \<Rightarrow> s)
     in case skip_word ''ret'' s of Some r \<Rightarrow> starts_with (skip_ws r) '';'' | None \<Rightarrow> False)"

definition funcDef :: "string \<Rightarrow> bool" where
  "funcDef line = (let s = skip_ws line;
       s = (case Option.bind (skip_word ''.visible'' s) skip_ws1 of Some r \<Rightarrow> r | None \<Rightarrow> s)
     in case Option.bind (case skip_word ''.func'' s of Some r \<Rightarrow> Some r | None \<Rightarrow> skip_word ''.entry'' s) skip_ws1 of
          None \<Rightarrow> False
        | Some r \<Rightarrow> r \<noteq> [] \<and> name_start (hd r) \<and>
            (let t = skip_ws (dropWhile name_char (tl r)) in t = [] \<or> hd t = CHR ''(''))"

text \<open>A register declaration: its type, its name, and the number in angle brackets if there is one.\<close>

definition regDecl :: "string \<Rightarrow> (string \<times> string \<times> string option) option" where
  "regDecl line =
     Option.bind (skip_word ''.reg'' (skip_ws line)) (\<lambda>r.
     Option.bind (skip_ws1 r) (\<lambda>r.
     Option.bind (skip_word ''.'' r) (\<lambda>r.
       let ty = takeWhile is_word r
       in if ty = [] then None else Option.bind (skip_ws1 (dropWhile is_word r)) (\<lambda>r.
         if r = [] \<or> \<not> (name_start (hd r) \<or> hd r = CHR ''%'') then None
         else
           let nm = hd r # takeWhile name_char (tl r); r = dropWhile name_char (tl r);
               (num, r) = (case skip_word ''<'' r of
                   Some t \<Rightarrow> (if takeWhile is_digit t = [] then (None, r)
                     else case skip_word ''>'' (dropWhile is_digit t) of Some u \<Rightarrow> (Some (takeWhile is_digit t), u) | None \<Rightarrow> (None, r))
                 | None \<Rightarrow> (None, r))
           in if starts_with (skip_ws r) '';'' then Some (''.'' @ ty, nm, num) else None))))"

section \<open>Registers to save\<close>

record register_info =
  ri_type :: string
  ri_base :: string
  ri_count :: int
  ri_names :: "string list"
  ri_size :: nat
  ri_modifier :: string

definition getRegisterSizeInBytes :: "string \<Rightarrow> nat" where
  "getRegisterSizeInBytes ty =
     (if ty \<in> {''.b8'', ''.s8'', ''.u8''} then 1
      else if ty \<in> {''.b16'', ''.s16'', ''.u16'', ''.f16''} then 2
      else if ty \<in> {''.b32'', ''.s32'', ''.u32'', ''.f32''} then 4
      else if ty \<in> {''.b64'', ''.s64'', ''.u64'', ''.f64'', ''.f64x2''} then 8
      else if ty = ''.pred'' then 1 else 0)"

definition getPtxStorageTypeModifier :: "nat \<Rightarrow> string \<Rightarrow> string" where
  "getPtxStorageTypeModifier sz ty = (if sz = 1 then ''.u8'' else if sz = 2 then ''.u16'' else if sz = 4 then ''.u32''
     else if sz = 8 then ''.u64'' else ty)"

definition tempBaseReg :: string where "tempBaseReg = ''%rd_ptx_instr_base''"
definition tempAddrReg :: string where "tempAddrReg = ''%rd_ptx_instr_addr''"
definition registerSaveAreaName :: string where "registerSaveAreaName = ''__ptx_register_save_area''"

definition add_register :: "string \<Rightarrow> register_info list \<Rightarrow> register_info list" where
  "add_register funcLine regs = (case regDecl funcLine of None \<Rightarrow> regs
     | Some (ty, base, num) \<Rightarrow>
         let sz = getRegisterSizeInBytes ty
         in if ty = ''.pred'' \<or> base = ''%SP'' \<or> base = ''%SPL'' \<or> sz = 0 \<or> base = tempBaseReg \<or> base = tempAddrReg then regs
            else if \<exists>r \<in> set regs. ri_base r = base \<and> (num \<noteq> None) = (1 < ri_count r) then regs
            else
              let (n, names) = (case num of
                    Some ds \<Rightarrow> (case stoi ds of Some n \<Rightarrow> (n, map (\<lambda>k. base @ dec k) [0..<nat n]) | None \<Rightarrow> (1, [base]))
                  | None \<Rightarrow> (1, [base]))
              in regs @ [\<lparr>ri_type = ty, ri_base = base, ri_count = n, ri_names = names, ri_size = sz,
                   ri_modifier = getPtxStorageTypeModifier sz ty\<rparr>])"

definition registersToSave :: "string list \<Rightarrow> register_info list" where
  "registersToSave ls = fold add_register ls []"

text \<open>The registers one by one, with the modifier of their accesses; each gets a slot of eight bytes, in this order.\<close>

definition slots :: "register_info list \<Rightarrow> (string \<times> string) list" where
  "slots regs = concat (map (\<lambda>r. map (\<lambda>n. (n, ri_modifier r)) (ri_names r)) regs)"

definition totalBytesForSavedRegs :: "register_info list \<Rightarrow> nat" where
  "totalBytesForSavedRegs regs = sum_list (map (\<lambda>r. length (ri_names r) * 8) regs)"

definition saveAreaSize :: "register_info list \<Rightarrow> nat" where
  "saveAreaSize regs = (let n = max (totalBytesForSavedRegs regs) 8 in if n mod 8 \<noteq> 0 then (n + 7) div 8 * 8 else n)"

section \<open>Inserted text\<close>

definition new_decls :: "register_info list \<Rightarrow> string" where
  "new_decls regs = (if regs = [] then [] else
     [TAB] @ ''.local .align 8 .b8 '' @ [TAB] @ registerSaveAreaName @ ''['' @ dec (saveAreaSize regs) @ ''];'' @ [NL] @
     [TAB] @ ''.reg .b64 '' @ tempBaseReg @ '';'' @ [NL] @
     [TAB] @ ''.reg .b64 '' @ tempAddrReg @ '';'' @ [NL])"

definition access_addr :: "nat \<Rightarrow> string" where
  "access_addr off = [TAB] @ ''add.u64 '' @ tempAddrReg @ '', '' @ tempBaseReg @ '', '' @ dec off @ '';'' @ [NL]"

definition base_addr :: string where
  "base_addr = [TAB] @ ''mov.u64 '' @ tempBaseReg @ '', '' @ registerSaveAreaName @ '';'' @ [NL]"

fun push_regs :: "nat \<Rightarrow> (string \<times> string) list \<Rightarrow> string" where
  "push_regs off [] = []"
| "push_regs off ((nm, m) # r) =
     access_addr off @ [TAB] @ ''st.local'' @ m @ '' ['' @ tempAddrReg @ ''], '' @ nm @ '';'' @ [NL] @ push_regs (off + 8) r"

definition comment :: "string \<Rightarrow> string" where
  "comment c = [TAB] @ ''// --- '' @ c @ '' ---'' @ [NL]"

definition push_block :: "register_info list \<Rightarrow> string" where
  "push_block regs = (if totalBytesForSavedRegs regs = 0 then [] else
     comment (''BEGIN REGISTER SAVING (PUSH to '' @ registerSaveAreaName @ '')'') @ base_addr @ push_regs 0 (slots regs) @
     comment (''END REGISTER SAVING (PUSH to '' @ registerSaveAreaName @ '')''))"

text \<open>The loop over the reversed list, from the last offset down.\<close>

fun pop_regs :: "nat \<Rightarrow> (string \<times> string) list \<Rightarrow> string" where
  "pop_regs off [] = []"
| "pop_regs off ((nm, m) # r) =
     access_addr off @ [TAB] @ ''ld.local'' @ m @ '' '' @ nm @ '', ['' @ tempAddrReg @ ''];'' @ [NL] @ pop_regs (off - 8) r"

definition pop_block :: "register_info list \<Rightarrow> string" where
  "pop_block regs = (if totalBytesForSavedRegs regs = 0 then [] else
     [NL] @ comment (''BEGIN REGISTER RESTORING (POP from '' @ registerSaveAreaName @ '')'') @ base_addr @
     pop_regs (totalBytesForSavedRegs regs - 8) (rev (slots regs)) @
     comment (''END REGISTER RESTORING (POP from '' @ registerSaveAreaName @ '')''))"

section \<open>The pass\<close>

definition decl_line :: "string \<Rightarrow> bool" where
  "decl_line l \<longleftrightarrow> commentOrEmpty l \<or> regDecl l \<noteq> None \<or> localDecl l"

fun find_brace :: "nat \<Rightarrow> string list \<Rightarrow> nat option" where
  "find_brace i [] = None"
| "find_brace i (l # ls) = (if openingBrace l then Some i else if decl_line l then find_brace (Suc i) ls else None)"

fun skip_decls :: "nat \<Rightarrow> string list \<Rightarrow> nat" where
  "skip_decls i [] = i"
| "skip_decls i (l # ls) = (if decl_line l then skip_decls (Suc i) ls else i)"

text \<open>The loop that writes the lines of a function, with what it has inserted so far.\<close>

fun emit_lines :: "nat \<Rightarrow> nat \<Rightarrow> string \<Rightarrow> string \<Rightarrow> string \<Rightarrow> nat \<Rightarrow> bool \<Rightarrow> bool \<Rightarrow> string list \<Rightarrow> string list" where
  "emit_lines d p decls push pop i nd pd [] =
     (if d = i \<and> decls \<noteq> [] \<and> \<not> nd then [decls] else []) @ (if p = i \<and> push \<noteq> [] \<and> \<not> pd then [push] else [])"
| "emit_lines d p decls push pop i nd pd (l # ls) =
     (let now = (i = d \<and> decls \<noteq> [] \<and> \<not> nd);
          nd = (nd \<or> now);
          pnow = (i = p \<and> push \<noteq> [] \<and> \<not> pd);
          late = (pnow \<and> d = p \<and> \<not> nd \<and> decls \<noteq> [])
      in (if now then [decls] else []) @ (if late then [decls] else []) @ (if pnow then [push] else []) @
         (if pop \<noteq> [] \<and> retLine l then [pop] else []) @ [l] @
         emit_lines d p decls push pop (Suc i) (nd \<or> late) (pd \<or> pnow) ls)"

definition line_text :: "string \<Rightarrow> string" where
  "line_text l = l @ (if l = [] \<or> last l = NL then [] else [NL])"

definition guard_function :: "string list \<Rightarrow> string" where
  "guard_function ls =
     (let regs = registersToSave ls;
          start = (if ls \<noteq> [] \<and> funcDef (hd ls) then 1 else 0)
      in case find_brace start (drop start ls) of
           None \<Rightarrow> unlines ls
         | Some b \<Rightarrow>
             let d = skip_decls (Suc b) (drop (Suc b) ls); p = skip_decls d (drop d ls)
             in concat (map line_text (emit_lines d p (new_decls regs) (push_block regs) (pop_block regs) 0 False False ls)))"

datatype guard_mode = Outside | InDefinition | InBody

record guard_state =
  gs_out :: string
  gs_lines :: "string list"
  gs_mode :: guard_mode

definition guard_line :: "string \<Rightarrow> guard_state \<Rightarrow> guard_state" where
  "guard_line line g = (case gs_mode g of
       Outside \<Rightarrow> if funcDef line then g\<lparr>gs_mode := InDefinition, gs_lines := gs_lines g @ [line]\<rparr>
         else g\<lparr>gs_out := gs_out g @ line @ [NL]\<rparr>
     | InDefinition \<Rightarrow> (let g = g\<lparr>gs_lines := gs_lines g @ [line]\<rparr>
         in if openingBrace line then g\<lparr>gs_mode := InBody\<rparr> else g)
     | InBody \<Rightarrow> (let g = g\<lparr>gs_lines := gs_lines g @ [line]\<rparr>
         in if closingBrace line then \<lparr>gs_out = gs_out g @ guard_function (gs_lines g), gs_lines = [], gs_mode = Outside\<rparr> else g))"

definition add_register_guard_for_ebpf_ptx_func :: "string \<Rightarrow> string" where
  "add_register_guard_for_ebpf_ptx_func ptxCode =
     (let g = fold guard_line (getlines ptxCode) \<lparr>gs_out = [], gs_lines = [], gs_mode = Outside\<rparr>
      in gs_out g @ (if gs_mode g = Outside then [] else unlines (gs_lines g)))"

section \<open>What the pass makes of a function\<close>

lemma skip_decls_eq: "skip_decls i ls = i + length (takeWhile decl_line ls)"
  by (induction ls arbitrary: i) auto

lemma skip_decls_bounds: "i \<le> skip_decls i ls \<and> skip_decls i ls \<le> i + length ls"
  by (simp add: skip_decls_eq length_takeWhile_le)

text \<open>The second search starts where the first ended, at a line that is no declaration, and stays there.\<close>

lemma skip_decls_again:
  assumes "d = skip_decls i (drop i ls)"
  shows "skip_decls d (drop d ls) = d"
proof -
  have "drop d ls = dropWhile decl_line (drop i ls)"
    using assms by (simp add: skip_decls_eq dropWhile_eq_drop add.commute)
  moreover have "takeWhile decl_line (dropWhile decl_line xs) = []" for xs by (induction xs) auto
  ultimately show ?thesis by (simp add: skip_decls_eq)
qed

text \<open>The lines with the block that restores in front of every return.\<close>

definition with_pops :: "string \<Rightarrow> string list \<Rightarrow> string list" where
  "with_pops pop ls = concat (map (\<lambda>l. if pop \<noteq> [] \<and> retLine l then [pop, l] else [l]) ls)"

definition block :: "string \<Rightarrow> string list" where
  "block b = (if b = [] then [] else [b])"

lemma emit_done: "d < i \<Longrightarrow> emit_lines d d decls push pop i nd pd ls = with_pops pop ls"
  by (induction ls arbitrary: i nd pd) (auto simp: with_pops_def Let_def)

lemma emit_lines_spec:
  assumes "i \<le> d" "d \<le> i + length ls"
  shows "emit_lines d d decls push pop i False False ls =
    with_pops pop (take (d - i) ls) @ block decls @ block push @ with_pops pop (drop (d - i) ls)"
  using assms
proof (induction ls arbitrary: i)
  case Nil
  then show ?case by (auto simp: block_def with_pops_def)
next
  case (Cons l ls)
  show ?case
  proof (cases "i = d")
    case True
    then show ?thesis by (auto simp: emit_done block_def with_pops_def Let_def)
  next
    case False
    then have "d - i = Suc (d - Suc i)" using Cons.prems by simp
    then show ?thesis using Cons False by (auto simp: with_pops_def Let_def)
  qed
qed

lemma find_brace_bounds: "find_brace i ls = Some b \<Longrightarrow> i \<le> b \<and> b < i + length ls \<and> openingBrace (ls ! (b - i))"
proof (induction ls arbitrary: i)
  case (Cons l ls)
  show ?case
  proof (cases "openingBrace l")
    case False
    with Cons.prems have "find_brace (Suc i) ls = Some b" by (simp split: if_splits)
    from Cons.IH [OF this] have b: "Suc i \<le> b" "b < Suc i + length ls" "openingBrace (ls ! (b - Suc i))" by auto
    then have "b - i = Suc (b - Suc i)" by simp
    with b show ?thesis by simp
  qed (use Cons.prems in auto)
qed simp

text \<open>Where the blocks go: after the opening brace and the declarations that follow it.\<close>

definition body_start :: "string list \<Rightarrow> nat option" where
  "body_start ls = (let start = (if ls \<noteq> [] \<and> funcDef (hd ls) then 1 else 0)
     in map_option (\<lambda>b. skip_decls (Suc b) (drop (Suc b) ls)) (find_brace start (drop start ls)))"

text \<open>The text of a guarded function: its lines that are not empty come out in their order (empty lines are dropped); the
  declarations of the save area and the block that saves stand once, after the opening brace and the declarations
  that follow it, and the block that restores stands in front of every line that the pattern for returns matches
  (\<^verbatim>\<open>ret;\<close> or \<^verbatim>\<open>@%p ret;\<close>, not \<^verbatim>\<open>@!%p ret;\<close>). A function whose brace is not found this way comes out
  unchanged.\<close>

theorem guard_function_spec:
  "guard_function ls = (case body_start ls of None \<Rightarrow> unlines ls
     | Some d \<Rightarrow> (let regs = registersToSave ls; pop = pop_block regs in
         concat (map line_text (with_pops pop (take d ls) @ block (new_decls regs) @ block (push_block regs) @ with_pops pop (drop d ls)))))"
proof (cases "find_brace (if ls \<noteq> [] \<and> funcDef (hd ls) then 1 else 0) (drop (if ls \<noteq> [] \<and> funcDef (hd ls) then 1 else 0) ls)")
  case None
  then show ?thesis by (simp add: guard_function_def body_start_def Let_def)
next
  case (Some b)
  let ?st = "if ls \<noteq> [] \<and> funcDef (hd ls) then 1 else 0 :: nat"
  define d where "d = skip_decls (Suc b) (drop (Suc b) ls)"
  have "Suc b \<le> length ls" using find_brace_bounds [OF Some] by (auto split: if_splits)
  then have d: "d \<le> length ls" using skip_decls_bounds [of "Suc b" "drop (Suc b) ls"] unfolding d_def length_drop by arith
  have "guard_function ls = concat (map line_text (emit_lines d d (new_decls (registersToSave ls)) (push_block (registersToSave ls))
      (pop_block (registersToSave ls)) 0 False False ls))"
    using Some skip_decls_again [OF d_def] by (simp add: guard_function_def Let_def d_def [symmetric])
  moreover have "body_start ls = Some d" using Some by (simp add: body_start_def Let_def d_def)
  ultimately show ?thesis using emit_lines_spec [of 0 d ls] d by (simp add: Let_def)
qed

section \<open>What the inserted instructions do\<close>

text \<open>The four instructions of the two blocks, and a machine for them: registers by name, and the save area, which is at the
  address \<open>a\<close>. An access outside the area has no result.\<close>

datatype guard_insn = MovBase | AddAddr nat | StLocal string string | LdLocal string string

fun print_insn :: "guard_insn \<Rightarrow> string" where
  "print_insn MovBase = base_addr"
| "print_insn (AddAddr off) = access_addr off"
| "print_insn (StLocal m nm) = [TAB] @ ''st.local'' @ m @ '' ['' @ tempAddrReg @ ''], '' @ nm @ '';'' @ [NL]"
| "print_insn (LdLocal m nm) = [TAB] @ ''ld.local'' @ m @ '' '' @ nm @ '', ['' @ tempAddrReg @ ''];'' @ [NL]"

fun push_code :: "nat \<Rightarrow> (string \<times> string) list \<Rightarrow> guard_insn list" where
  "push_code off [] = []"
| "push_code off ((nm, m) # r) = AddAddr off # StLocal m nm # push_code (off + 8) r"

fun pop_code :: "nat \<Rightarrow> (string \<times> string) list \<Rightarrow> guard_insn list" where
  "pop_code off [] = []"
| "pop_code off ((nm, m) # r) = AddAddr off # LdLocal m nm # pop_code (off - 8) r"

lemma push_regs_print: "push_regs off sl = concat (map print_insn (push_code off sl))"
  by (induction off sl rule: push_regs.induct) simp_all

lemma pop_regs_print: "pop_regs off sl = concat (map print_insn (pop_code off sl))"
  by (induction off sl rule: pop_regs.induct) simp_all

definition access_size :: "string \<Rightarrow> nat" where
  "access_size m = (if m = ''.u8'' then 1 else if m = ''.u16'' then 2 else if m = ''.u32'' then 4 else if m = ''.u64'' then 8 else 0)"

type_synonym regfile = "string \<Rightarrow> u64"

fun guard_step :: "u64 \<Rightarrow> guard_insn \<Rightarrow> regfile \<times> bytes \<Rightarrow> (regfile \<times> bytes) option" where
  "guard_step a MovBase (r, mem) = Some (r(tempBaseReg := a), mem)"
| "guard_step a (AddAddr off) (r, mem) = Some (r(tempAddrReg := r tempBaseReg + of_nat off), mem)"
| "guard_step a (StLocal m nm) (r, mem) =
     map_option (\<lambda>mem. (r, mem)) (wr mem (unat (r tempAddrReg - a)) (bytes_of_nat (access_size m) (unat (r nm))))"
| "guard_step a (LdLocal m nm) (r, mem) =
     map_option (\<lambda>bs. (r(nm := of_nat (nat_of_bytes bs)), mem)) (rd mem (unat (r tempAddrReg - a)) (access_size m))"

fun guard_run :: "u64 \<Rightarrow> guard_insn list \<Rightarrow> regfile \<times> bytes \<Rightarrow> (regfile \<times> bytes) option" where
  "guard_run a [] st = Some st"
| "guard_run a (i # is) st = Option.bind (guard_step a i st) (guard_run a is)"

text \<open>A slot that is fit to be saved: it is no temporary register of the guard, and its accesses have a size.\<close>

definition slot_ok :: "string \<times> string \<Rightarrow> bool" where
  "slot_ok sl \<longleftrightarrow> fst sl \<notin> {tempBaseReg, tempAddrReg} \<and> access_size (snd sl) \<in> {1, 2, 4, 8}"

definition fits :: "regfile \<Rightarrow> string \<times> string \<Rightarrow> bool" where
  "fits r sl \<longleftrightarrow> unat (r (fst sl)) < 2 ^ (8 * access_size (snd sl))"

definition same_but_temps :: "regfile \<Rightarrow> regfile \<Rightarrow> bool" where
  "same_but_temps r r' \<longleftrightarrow> (\<forall>n. n \<notin> {tempBaseReg, tempAddrReg} \<longrightarrow> r' n = r n)"

lemma temps_differ [simp]: "tempBaseReg \<noteq> tempAddrReg" "tempAddrReg \<noteq> tempBaseReg"
  by (simp_all add: tempBaseReg_def tempAddrReg_def)

lemma slot_addr: "off < 2 ^ 64 \<Longrightarrow> unat (of_nat off :: u64) = off"
  by (simp add: unat_of_nat take_bit_nat_eq_self)

lemma access_roundtrip: "fits r sl \<Longrightarrow> of_nat (nat_of_bytes (bytes_of_nat (access_size (snd sl)) (unat (r (fst sl))))) = r (fst sl)"
proof -
  assume "fits r sl"
  then have "unat (r (fst sl)) < 256 ^ access_size (snd sl)" by (simp add: fits_def power_mult)
  then show ?thesis by (simp add: nat_of_bytes_of_nat)
qed

text \<open>Saving: each slot holds the bytes of its register, and what is in front of the first slot is untouched.\<close>

lemma push_run:
  assumes "\<forall>sl \<in> set sls. slot_ok sl" "off + 8 * length sls \<le> length mem" "length mem < 2 ^ 64" "r tempBaseReg = a"
  shows "\<exists>r' mem'. guard_run a (push_code off sls) (r, mem) = Some (r', mem') \<and> same_but_temps r r' \<and> length mem' = length mem \<and>
    take off mem' = take off mem \<and>
    (\<forall>k < length sls. seg (off + 8 * k) (access_size (snd (sls ! k))) mem' = bytes_of_nat (access_size (snd (sls ! k))) (unat (r (fst (sls ! k)))))"
  using assms
proof (induction sls arbitrary: off r mem)
  case Nil
  then show ?case by (simp add: same_but_temps_def)
next
  case (Cons sl sls)
  obtain nm m where sl: "sl = (nm, m)" by fastforce
  let ?n = "access_size m"
  define r1 where "r1 = r(tempAddrReg := a + of_nat off)"
  have ok: "nm \<notin> {tempBaseReg, tempAddrReg}" "?n \<le> 8" using Cons.prems(1) by (auto simp: sl slot_ok_def)
  let ?bs = "bytes_of_nat ?n (unat (r nm))"
  have off: "off < 2 ^ 64" "off + ?n \<le> length mem" using Cons.prems(2,3) ok(2) by auto
  let ?mem = "put off ?bs mem"
  have st: "guard_run a (push_code off (sl # sls)) (r, mem) = guard_run a (push_code (off + 8) sls) (r1, ?mem)"
    using off ok Cons.prems(4) by (simp add: r1_def sl slot_addr wr_def)
  have len: "length ?mem = length mem" using off(2) by (simp add: mem_simps)
  have pre: "\<forall>sl \<in> set sls. slot_ok sl" "off + 8 + 8 * length sls \<le> length ?mem" "length ?mem < 2 ^ 64" "r1 tempBaseReg = a"
    using Cons.prems len by (simp_all add: r1_def)
  obtain r' mem' where
    run: "guard_run a (push_code (off + 8) sls) (r1, ?mem) = Some (r', mem')" and same: "same_but_temps r1 r'" and
    mem': "length mem' = length ?mem" "take (off + 8) mem' = take (off + 8) ?mem" and
    rest: "\<forall>k < length sls. seg (off + 8 + 8 * k) (access_size (snd (sls ! k))) mem' =
      bytes_of_nat (access_size (snd (sls ! k))) (unat (r1 (fst (sls ! k))))" using Cons.IH [where off = "off + 8" and mem = ?mem and r = r1, OF pre] by blast
  have first: "seg off ?n mem' = ?bs"
  proof -
    have "seg off ?n mem' = seg off ?n (take (off + 8) mem')" using ok(2) by (simp add: seg_def drop_take min_def)
    also have "\<dots> = seg off ?n ?mem" unfolding mem'(2) using ok(2) by (simp add: seg_def drop_take min_def)
    also have "\<dots> = ?bs" using seg_put_same [of off ?bs mem] off(2) by simp
    finally show ?thesis .
  qed
  have "take off mem' = take off ?mem" using mem'(2) by (metis le_add1 min.absorb1 take_take)
  then have "take off mem' = take off mem" using off(2) by (simp add: put_def)
  moreover have "seg (off + 8 * k) (access_size (snd ((sl # sls) ! k))) mem' =
      bytes_of_nat (access_size (snd ((sl # sls) ! k))) (unat (r (fst ((sl # sls) ! k))))" if k: "k < length (sl # sls)" for k
  proof (cases k)
    case 0
    then show ?thesis using first by (simp add: sl)
  next
    case (Suc j)
    then have j: "j < length sls" using k by simp
    then have "fst (sls ! j) \<noteq> tempAddrReg" using Cons.prems(1) by (auto simp: slot_ok_def)
    with rest j Suc show ?thesis by (simp add: r1_def add.assoc)
  qed
  moreover have "same_but_temps r r'" using same by (simp add: same_but_temps_def r1_def)
  ultimately show ?case using st run mem'(1) len by auto
qed

text \<open>Restoring, from the last slot to the first.\<close>

lemma pop_run:
  assumes "\<forall>sl \<in> set sls. slot_ok sl \<and> fits v sl" "8 * length sls \<le> length mem" "length mem < 2 ^ 64" "r tempBaseReg = a"
    "\<forall>k < length sls. seg (8 * k) (access_size (snd (sls ! k))) mem = bytes_of_nat (access_size (snd (sls ! k))) (unat (v (fst (sls ! k))))"
  shows "\<exists>r'. guard_run a (pop_code (8 * length sls - 8) (rev sls)) (r, mem) = Some (r', mem) \<and>
    (\<forall>n. n \<notin> {tempBaseReg, tempAddrReg} \<longrightarrow> r' n = (if n \<in> fst ` set sls then v n else r n))"
  using assms
proof (induction sls arbitrary: r rule: rev_induct)
  case Nil
  then show ?case by simp
next
  case (snoc sl sls)
  obtain nm m where sl: "sl = (nm, m)" by fastforce
  let ?n = "access_size m" and ?off = "8 * length sls"
  have ok: "nm \<notin> {tempBaseReg, tempAddrReg}" "?n \<le> 8" "fits v sl" using snoc.prems(1) by (auto simp: sl slot_ok_def)
  have off: "?off < 2 ^ 64" "?off + ?n \<le> length mem" using snoc.prems(2,3) ok(2) by auto
  have "seg ?off ?n mem = bytes_of_nat ?n (unat (v nm))" using snoc.prems(5) [rule_format, of "length sls"] by (simp add: sl)
  then have ld: "of_nat (nat_of_bytes (seg ?off ?n mem)) = v nm" using access_roundtrip [OF ok(3)] by (simp add: sl)
  define r1 where "r1 = r(tempAddrReg := a + of_nat ?off, nm := v nm)"
  have st: "guard_run a (pop_code (8 * length (sls @ [sl]) - 8) (rev (sls @ [sl]))) (r, mem) = guard_run a (pop_code (?off - 8) (rev sls)) (r1, mem)"
    using off ok snoc.prems(4) ld slot_addr [of ?off] by (simp add: r1_def sl)
  have old: "\<forall>k < length sls. seg (8 * k) (access_size (snd (sls ! k))) mem = bytes_of_nat (access_size (snd (sls ! k))) (unat (v (fst (sls ! k))))"
  proof (intro allI impI)
    fix k assume "k < length sls"
    then show "seg (8 * k) (access_size (snd (sls ! k))) mem = bytes_of_nat (access_size (snd (sls ! k))) (unat (v (fst (sls ! k))))"
      using snoc.prems(5) [rule_format, of k] by (simp add: nth_append)
  qed
  have pre: "\<forall>sl \<in> set sls. slot_ok sl \<and> fits v sl" "8 * length sls \<le> length mem" "r1 tempBaseReg = a"
    using ok(1) snoc.prems(1,2,4) by (auto simp: r1_def)
  obtain r' where
    "guard_run a (pop_code (?off - 8) (rev sls)) (r1, mem) = Some (r', mem)"
    "\<forall>n. n \<notin> {tempBaseReg, tempAddrReg} \<longrightarrow> r' n = (if n \<in> fst ` set sls then v n else r1 n)"
    using snoc.IH [where r = r1, OF pre(1,2) snoc.prems(3) pre(3) old] by blast
  then show ?case using st by (intro exI [of _ r']) (auto simp: sl r1_def)
qed

text \<open>The registers the pass collects are fit to be saved.\<close>

lemma dec_last_digit: "is_digit (last (dec k))" "dec k \<noteq> []"
  using dec_digits [of k] last_in_set by auto

lemma numbered_no_temp: "base @ dec k \<notin> {tempBaseReg, tempAddrReg}"
proof
  assume "base @ dec k \<in> {tempBaseReg, tempAddrReg}"
  then have "last (dec k) \<in> {last tempBaseReg, last tempAddrReg}" using dec_last_digit(2) by (metis insertE insertI1 insertI2 last_appendR singletonD)
  then show False using dec_last_digit(1) [of k] by (auto simp: tempBaseReg_def tempAddrReg_def is_digit_def)
qed

lemma modifier_size: "getRegisterSizeInBytes ty \<noteq> 0 \<Longrightarrow> access_size (getPtxStorageTypeModifier (getRegisterSizeInBytes ty) ty) \<in> {1, 2, 4, 8}"
  by (auto simp: getRegisterSizeInBytes_def getPtxStorageTypeModifier_def access_size_def split: if_splits)

lemma slots_append [simp]: "slots (xs @ ys) = slots xs @ slots ys"
  by (simp add: slots_def)

lemma add_register_ok: "\<forall>sl \<in> set (slots regs). slot_ok sl \<Longrightarrow> \<forall>sl \<in> set (slots (add_register l regs)). slot_ok sl"
proof (cases "regDecl l")
  case (Some x)
  obtain ty base num where x: "x = (ty, base, num)" by (metis prod_cases3)
  assume "\<forall>sl \<in> set (slots regs). slot_ok sl"
  then show ?thesis using numbered_no_temp modifier_size [of ty] Some x
    by (auto simp: add_register_def slots_def slot_ok_def Let_def split: option.splits)
qed (simp add: add_register_def)

lemma registersToSave_ok: "\<forall>sl \<in> set (slots (registersToSave ls)). slot_ok sl"
proof -
  have "\<forall>sl \<in> set (slots regs). slot_ok sl \<Longrightarrow> \<forall>sl \<in> set (slots (fold add_register ls regs)). slot_ok sl" for regs
  proof (induction ls arbitrary: regs)
    case (Cons l ls)
    from Cons.IH [OF add_register_ok [OF Cons.prems]] show ?case by simp
  qed simp
  from this [of "[]"] show ?thesis by (simp add: registersToSave_def slots_def)
qed

lemma slots_total: "8 * length (slots regs) = totalBytesForSavedRegs regs"
  by (induction regs) (simp_all add: slots_def totalBytesForSavedRegs_def)

lemma area_holds_slots: "8 * length (slots regs) \<le> saveAreaSize regs"
proof -
  have "n \<le> (n + 7) div 8 * 8" for n :: nat by presburger
  then show ?thesis using slots_total [of regs] by (auto simp: saveAreaSize_def Let_def max_def intro: order.trans)
qed

definition save_code :: "register_info list \<Rightarrow> guard_insn list" where
  "save_code regs = MovBase # push_code 0 (slots regs)"

definition restore_code :: "register_info list \<Rightarrow> guard_insn list" where
  "restore_code regs = MovBase # pop_code (totalBytesForSavedRegs regs - 8) (rev (slots regs))"

lemma blocks_print:
  assumes "totalBytesForSavedRegs regs \<noteq> 0"
  shows "\<exists>c c'. push_block regs = comment c @ concat (map print_insn (save_code regs)) @ comment c'"
    "\<exists>c c'. pop_block regs = [NL] @ comment c @ concat (map print_insn (restore_code regs)) @ comment c'"
  using assms by (auto simp: push_block_def pop_block_def save_code_def restore_code_def push_regs_print pop_regs_print)

lemma saved_registers:
  assumes "length mem = saveAreaSize (registersToSave ls)" "length mem < 2 ^ 64"
    "\<forall>sl \<in> set (slots (registersToSave ls)). fits r sl"
  shows "\<exists>r1 mem1. guard_run a (save_code (registersToSave ls)) (r, mem) = Some (r1, mem1) \<and> same_but_temps r r1 \<and>
    (\<forall>r'. \<exists>r2. guard_run a (restore_code (registersToSave ls)) (r', mem1) = Some (r2, mem1) \<and>
      (\<forall>n. n \<notin> {tempBaseReg, tempAddrReg} \<longrightarrow> r2 n = (if n \<in> fst ` set (slots (registersToSave ls)) then r n else r' n)))"
proof -
  let ?sls = "slots (registersToSave ls)" and ?r = "r(tempBaseReg := a)"
  have ok: "\<forall>sl \<in> set ?sls. slot_ok sl" by (rule registersToSave_ok)
  have area: "0 + 8 * length ?sls \<le> length mem" using area_holds_slots assms(1) by simp
  have base: "?r tempBaseReg = a" by simp
  obtain r1 mem1 where run: "guard_run a (push_code 0 ?sls) (?r, mem) = Some (r1, mem1)" and same: "same_but_temps ?r r1"
    and mem1: "length mem1 = length mem"
    and saved: "\<forall>k < length ?sls. seg (0 + 8 * k) (access_size (snd (?sls ! k))) mem1 =
      bytes_of_nat (access_size (snd (?sls ! k))) (unat (?r (fst (?sls ! k))))"
    using push_run [where off = 0 and mem = mem and r = ?r and a = a, OF ok area assms(2) base] by blast
  have names: "?r (fst (?sls ! k)) = r (fst (?sls ! k))" if "k < length ?sls" for k
    using ok that by (auto simp: slot_ok_def)
  have pops: "\<exists>r2. guard_run a (restore_code (registersToSave ls)) (r', mem1) = Some (r2, mem1) \<and>
      (\<forall>n. n \<notin> {tempBaseReg, tempAddrReg} \<longrightarrow> r2 n = (if n \<in> fst ` set ?sls then r n else r' n))" for r'
  proof -
    have "\<forall>sl \<in> set ?sls. slot_ok sl \<and> fits r sl" using ok assms(3) by blast
    moreover have "8 * length ?sls \<le> length mem1" "length mem1 < 2 ^ 64" using area mem1 assms(2) by simp_all
    moreover have "(r'(tempBaseReg := a)) tempBaseReg = a" by simp
    moreover have "\<forall>k < length ?sls. seg (8 * k) (access_size (snd (?sls ! k))) mem1 =
        bytes_of_nat (access_size (snd (?sls ! k))) (unat (r (fst (?sls ! k))))" using saved names by simp
    ultimately obtain r2 where "guard_run a (pop_code (8 * length ?sls - 8) (rev ?sls)) (r'(tempBaseReg := a), mem1) = Some (r2, mem1)"
      "\<forall>n. n \<notin> {tempBaseReg, tempAddrReg} \<longrightarrow> r2 n = (if n \<in> fst ` set ?sls then r n else (r'(tempBaseReg := a)) n)"
      using pop_run [where r = "r'(tempBaseReg := a)"] by blast
    then show ?thesis by (intro exI [of _ r2]) (simp add: restore_code_def slots_total)
  qed
  have "guard_run a (save_code (registersToSave ls)) (r, mem) = Some (r1, mem1)" using run by (simp add: save_code_def)
  moreover have "same_but_temps r r1" using same by (simp add: same_but_temps_def)
  ultimately show ?thesis using pops by blast
qed

text \<open>C20. The register guard saves and restores: the block inserted at the start of a function is a comment around
  instructions that stay inside the area the inserted declaration reserves and change no register but the two of the
  guard; and after whatever the function did to its registers, the instructions of the block inserted before a return
  give every register the function declares, unless it is a predicate or the stack pointer, the value it had at the
  start, and leave the others alone.\<close>

theorem register_guard_restores:
  assumes "length mem = saveAreaSize (registersToSave ls)" "length mem < 2 ^ 64"
    "\<forall>sl \<in> set (slots (registersToSave ls)). fits r sl" "slots (registersToSave ls) \<noteq> []"
  shows "(\<exists>c c'. push_block (registersToSave ls) = comment c @ concat (map print_insn (save_code (registersToSave ls))) @ comment c') \<and>
    (\<exists>c c'. pop_block (registersToSave ls) = [NL] @ comment c @ concat (map print_insn (restore_code (registersToSave ls))) @ comment c') \<and>
    (\<exists>r1 mem1. guard_run a (save_code (registersToSave ls)) (r, mem) = Some (r1, mem1) \<and> same_but_temps r r1 \<and>
      (\<forall>r'. \<exists>r2. guard_run a (restore_code (registersToSave ls)) (r', mem1) = Some (r2, mem1) \<and>
        (\<forall>n. n \<notin> {tempBaseReg, tempAddrReg} \<longrightarrow> r2 n = (if n \<in> fst ` set (slots (registersToSave ls)) then r n else r' n))))"
proof -
  have "totalBytesForSavedRegs (registersToSave ls) \<noteq> 0" using assms(4) by (simp flip: slots_total)
  from blocks_print [OF this] saved_registers [OF assms(1-3)] show ?thesis by blast
qed

text \<open>A function of the kind the back end emits, with a return under a predicate.\<close>

definition demo_func :: "string list" where
  "demo_func = [''.func f '', ''{'', ''.reg .b32 %r<2>;'', ''.reg .pred %p<2>;'', ''mov.u32 %r1, 7;'', ''@%p1 ret;'', ''ret;'', ''}'']"

lemma demo_slots: "slots (registersToSave demo_func) = [(''%r0'', ''.u32''), (''%r1'', ''.u32'')]"
  by code_simp

theorem register_guard_restores_witness:
  "\<exists>r1 mem1 r2. guard_run 64 (save_code (registersToSave demo_func)) (\<lambda>n. 3, replicate 16 0) = Some (r1, mem1) \<and>
     guard_run 64 (restore_code (registersToSave demo_func)) (\<lambda>n. 9, mem1) = Some (r2, mem1) \<and> r2 ''%r1'' = 3 \<and> r2 ''%r2'' = 9"
proof -
  have size: "saveAreaSize (registersToSave demo_func) = 16" by code_simp
  have "\<forall>sl \<in> set (slots (registersToSave demo_func)). fits (\<lambda>n. 3) sl" by (simp add: demo_slots fits_def access_size_def)
  moreover have "slots (registersToSave demo_func) \<noteq> []" by (simp add: demo_slots)
  moreover have "length (replicate 16 0 :: bytes) = saveAreaSize (registersToSave demo_func)" "length (replicate 16 0 :: bytes) < 2 ^ 64"
    by (simp_all add: size)
  ultimately obtain r1 mem1 where s: "guard_run 64 (save_code (registersToSave demo_func)) (\<lambda>n. 3, replicate 16 0) = Some (r1, mem1)" and
    p: "\<forall>r'. \<exists>r2. guard_run 64 (restore_code (registersToSave demo_func)) (r', mem1) = Some (r2, mem1) \<and>
        (\<forall>n. n \<notin> {tempBaseReg, tempAddrReg} \<longrightarrow> r2 n = (if n \<in> fst ` set (slots (registersToSave demo_func)) then 3 else r' n))"
    using register_guard_restores [of "replicate 16 0" demo_func "\<lambda>n. 3" 64] by auto
  from p obtain r2 where r2: "guard_run 64 (restore_code (registersToSave demo_func)) (\<lambda>n. 9, mem1) = Some (r2, mem1)"
    "\<forall>n. n \<notin> {tempBaseReg, tempAddrReg} \<longrightarrow> r2 n = (if n \<in> fst ` set (slots (registersToSave demo_func)) then 3 else 9)" by meson
  have "r2 ''%r1'' = 3" "r2 ''%r2'' = 9" using r2(2) by (simp_all add: demo_slots tempBaseReg_def tempAddrReg_def)
  with s r2(1) show ?thesis by blast
qed

text \<open>A return under a predicate gets the block too, in front of it and without the predicate: when the predicate does not
  hold, the function goes on with the registers it started with.\<close>

theorem conditional_return_restores_always:
  "guard_function demo_func = concat (map line_text [''.func f '', ''{'', ''.reg .b32 %r<2>;'', ''.reg .pred %p<2>;'',
     new_decls (registersToSave demo_func), push_block (registersToSave demo_func), ''mov.u32 %r1, 7;'',
     pop_block (registersToSave demo_func), ''@%p1 ret;'', pop_block (registersToSave demo_func), ''ret;'', ''}''])"
  by code_simp

text \<open>Text without functions comes out as it went in, line by line.\<close>

lemma guard_outside:
  assumes "\<forall>l \<in> set (getlines ptx). \<not> funcDef l"
  shows "add_register_guard_for_ebpf_ptx_func ptx = unlines (getlines ptx)"
proof -
  have "fold guard_line ls \<lparr>gs_out = out, gs_lines = [], gs_mode = Outside\<rparr> = \<lparr>gs_out = out @ unlines ls, gs_lines = [], gs_mode = Outside\<rparr>"
    if "\<forall>l \<in> set ls. \<not> funcDef l" for ls out
    using that by (induction ls arbitrary: out) (auto simp: guard_line_def unlines_def)
  from this [OF assms] show ?thesis by (simp add: add_register_guard_for_ebpf_ptx_func_def)
qed

end
