(* ===== verification/Ptx_Patch.thy ===== *)
theory Ptx_Patch
  imports Ptx_Guard Transporter "HOL-Library.Sublist"
begin

text \<open>
  The passes over PTX text that put programs into kernels (attach/nv_attach_impl/nv_attach_impl_patcher.cpp, the text
  functions of nv_attach_impl.cpp and nv_attach_utils.cpp). The compiler from eBPF to PTX is a library and an argument
  here. \<open>None\<close> is undefined behaviour: a search for a brace that runs past the end of the text, or removing a
  character of an empty string. The regular expressions of this file are functions that match at a position; the two
  passes that search for them go from left to right and on after a match.
\<close>

unbundle bit_operations_syntax

section \<open>Searching and replacing\<close>

fun find_sub :: "string \<Rightarrow> string \<Rightarrow> nat option" where
  "find_sub p [] = (if p = [] then Some 0 else None)"
| "find_sub p (c # s) = (if starts_with (c # s) p then Some 0 else map_option Suc (find_sub p s))"

definition replace_first :: "string \<Rightarrow> string \<Rightarrow> string \<Rightarrow> string" where
  "replace_first p r s = (case find_sub p s of Some i \<Rightarrow> take i s @ r @ drop (i + length p) s | None \<Rightarrow> s)"

text \<open>\<^verbatim>\<open>std::regex_replace\<close>, for an expression that matches no empty text: \<open>m\<close> gives what stands for a match and its
  length.\<close>

fun replace_all :: "(string \<Rightarrow> (string \<times> nat) option) \<Rightarrow> string \<Rightarrow> string" where
  "replace_all m [] = []"
| "replace_all m (c # s) = (case m (c # s) of Some (r, n) \<Rightarrow> r @ replace_all m (drop (n - 1) s) | None \<Rightarrow> c # replace_all m s)"

text \<open>Sequences of literals, white space, digits and names, where no part has to give back a character.\<close>

datatype atom = Lit string | Ws0 | Ws1 | Digits4 | Digits1

fun match_atom :: "atom \<Rightarrow> string \<Rightarrow> string option" where
  "match_atom (Lit p) s = skip_word p s"
| "match_atom Ws0 s = Some (skip_ws s)"
| "match_atom Ws1 s = skip_ws1 s"
| "match_atom Digits4 s = (if 4 \<le> length s \<and> list_all is_digit (take 4 s) then Some (drop 4 s) else None)"
| "match_atom Digits1 s = (if takeWhile is_digit s = [] then None else Some (dropWhile is_digit s))"

fun match_atoms :: "atom list \<Rightarrow> string \<Rightarrow> string option" where
  "match_atoms [] s = Some s"
| "match_atoms (a # as) s = Option.bind (match_atom a s) (match_atoms as)"

lemma match_atom_length: "match_atom a s = Some r \<Longrightarrow> length r \<le> length s"
  by (cases a) (auto simp: skip_word_def skip_ws1_def length_dropWhile_le split: if_splits)

lemma match_atoms_length: "match_atoms as s = Some r \<Longrightarrow> length r \<le> length s"
proof (induction as arbitrary: s)
  case (Cons a as)
  then obtain t where "match_atom a s = Some t" "match_atoms as t = Some r" by (auto simp: bind_eq_Some_conv)
  with Cons.IH match_atom_length show ?case by (meson le_trans)
qed simp

lemma match_lit_length: "match_atoms (Lit p # as) s = Some r \<Longrightarrow> p \<noteq> [] \<Longrightarrow> length r < length s"
  by (cases s) (auto simp: bind_eq_Some_conv skip_word_def starts_with_def split: if_splits dest!: match_atoms_length
    intro: le_less_trans diff_less)

section \<open>Cleaning\<close>

definition unprintable :: "char \<Rightarrow> bool" where
  "unprintable c \<longleftrightarrow> (let n = of_char c :: nat in n < 9 \<or> 11 \<le> n \<and> n < 32 \<or> n = 127)"

definition filter_unprintable_chars :: "string \<Rightarrow> string option" where
  "filter_unprintable_chars input =
     (let result = filter (\<lambda>c. \<not> unprintable c \<and> of_char c \<le> (127 :: nat)) input
      in if CHR ''}'' \<in> set result then Some (rev (dropWhile (\<lambda>c. c \<noteq> CHR ''}'') (rev result))) else None)"

definition HEADER_PREFIXES :: "string list" where
  "HEADER_PREFIXES = [''.version'', ''.target'', ''.address_size'']"

definition FILTERED_OUT_PREFIXES :: "string list" where
  "FILTERED_OUT_PREFIXES = HEADER_PREFIXES @ [''//'']"

text \<open>The first line of each kind stays.\<close>

fun header_loop :: "string list \<Rightarrow> string list \<Rightarrow> string list" where
  "header_loop found [] = []"
| "header_loop found (line # ls) = (case find (starts_with line) FILTERED_OUT_PREFIXES of
       None \<Rightarrow> line # header_loop found ls
     | Some s \<Rightarrow> if s \<in> set found then header_loop found ls else line # header_loop (s # found) ls)"

definition filter_out_version_headers :: "string \<Rightarrow> string" where
  "filter_out_version_headers input = unlines (header_loop [] (getlines input))"

text \<open>The declaration of a helper, with one or more parameters.\<close>

definition helper_param :: "atom list" where
  "helper_param = [Lit ''.param'', Ws1, Lit ''.b64'', Ws1, Lit ''_bpf_helper_ext_'', Digits4, Lit ''_param_'', Digits1, Ws0]"

function helper_params :: "string \<Rightarrow> string option" where
  "helper_params s = Option.bind (match_atoms helper_param s) (\<lambda>r.
     case match_atoms [Lit '','', Ws0] r of Some t \<Rightarrow> helper_params t | None \<Rightarrow> match_atoms [Lit '')'', Ws0, Lit '';''] r)"
  by auto
termination
proof (relation "measure length")
  fix s r t assume "match_atoms helper_param s = Some r" "match_atoms [Lit '','', Ws0] r = Some t"
  then show "(t, s) \<in> measure length"
    using match_atoms_length [of helper_param s r] match_lit_length [of "'',''" "[Ws0]" r t] by simp
qed simp

definition helper_decl :: "string \<Rightarrow> (string \<times> nat) option" where
  "helper_decl s =
     map_option (\<lambda>r. ([], length s - length r))
       (Option.bind (match_atoms [Lit ''.extern'', Ws1, Lit ''.func'', Ws1, Lit ''('', Ws0, Lit ''.param'', Ws1, Lit ''.b64'', Ws1,
          Lit ''func_retval0'', Ws0, Lit '')'', Ws1, Lit ''_bpf_helper_ext_'', Digits4, Ws0, Lit ''('', Ws0] s) helper_params)"

definition FILTERED_OUT_SECTION :: "string list" where
  "FILTERED_OUT_SECTION =
     [''.visible .func bpf_main('' @ [NL, TAB] @ ''.param .b64 bpf_main_param_0,'' @ [NL, TAB] @ ''.param .b64 bpf_main_param_1'' @ [NL] @ '')'',
      ''.visible .func bpf_main()'']"

definition filter_compiled_ptx_for_ebpf_program :: "string \<Rightarrow> string \<Rightarrow> string" where
  "filter_compiled_ptx_for_ebpf_program input new_func_name =
     (let result = unlines (filter (\<lambda>line. \<not> list_ex (starts_with line) FILTERED_OUT_PREFIXES) (getlines input));
          result = fold (\<lambda>sec r. replace_first sec [] r) FILTERED_OUT_SECTION result;
          result = replace_all helper_decl result
      in ''.func '' @ new_func_name @ '' '' @ result)"

text \<open>\<open>compile\<close> is the back end of LLVM with the helpers registered.\<close>

definition generate_ptx_for_ebpf :: "(insn list \<Rightarrow> string) \<Rightarrow> insn list \<Rightarrow> string \<Rightarrow> string" where
  "generate_ptx_for_ebpf compile inst func_name =
     add_register_guard_for_ebpf_ptx_func (filter_compiled_ptx_for_ebpf_program (compile inst) func_name)"

section \<open>Capturing memory accesses\<close>

definition access_types :: "string list" where
  "access_types = concat (map (\<lambda>c. map (\<lambda>n. c # n) [''8'', ''16'', ''32'', ''64'']) [CHR ''s'', CHR ''u'', CHR ''b'']) @ [''.b128''] @
     map (\<lambda>n. ''.f'' @ n) [''16'', ''16x2'', ''32'', ''64'']"

text \<open>\<open>s\<close> is what follows the type: blanks, an operand, a comma, blanks, an operand, a semicolon, white space.\<close>

definition two_operands :: "string \<Rightarrow> bool" where
  "two_operands s = (let t = dropWhile is_space (rev s) in
     t \<noteq> [] \<and> hd t = CHR '';'' \<and>
     (let b = rev (tl t) in b \<noteq> [] \<and> hd b = CHR '' '' \<and> list_all (\<lambda>c. c \<noteq> NL \<and> c \<noteq> CHR 0x0D) b \<and>
        list_ex (\<lambda>k. b ! k = CHR '','') [2..<length b - 1]))"

definition access_line :: "string \<Rightarrow> bool" where
  "access_line line = (let s = skip_ws line in
     case (case skip_word ''ld.'' s of Some r \<Rightarrow> Some r | None \<Rightarrow> skip_word ''st.'' s) of
       None \<Rightarrow> False
     | Some r \<Rightarrow>
         let r = (case find (starts_with r) [''const'', ''global'', ''local'', ''param''] of Some sp \<Rightarrow> drop (length sp) r | None \<Rightarrow> r)
         in case skip_word ''.'' r of
              None \<Rightarrow> False
            | Some r \<Rightarrow> list_ex (\<lambda>ty. starts_with r ty \<and> two_operands (drop (length ty) r)) access_types)"

text \<open>A character as an integer of 64 bits: the type \<^verbatim>\<open>char\<close> is signed.\<close>

definition char_word :: "char \<Rightarrow> u64" where
  "char_word c = scast (of_char c :: 8 word)"

definition curr_word :: "string \<Rightarrow> u64" where
  "curr_word cs = fold (\<lambda>j w. w OR push_bit (j * 8) (char_word (cs ! j))) [0..<min 8 (length cs)] 0"

definition store_word :: "nat \<Rightarrow> u64 \<Rightarrow> insn list" where
  "store_word i w = [ins EBPF_OP_LDDW 2 0 0 (ucast w), ins 0 0 0 0 (ucast (drop_bit 32 w)), ins 0x7b 1 2 (of_nat i) 0]"

function store_line :: "nat \<Rightarrow> string \<Rightarrow> insn list" where
  "store_line i cs = (if cs = [] then [] else store_word i (curr_word (take 8 cs)) @ store_line (i + 8) (drop 8 cs))"
  by auto
termination by (relation "measure (length \<circ> snd)") auto

declare helper_params.simps [simp del] store_line.simps [simp del]

definition total_length :: "string \<Rightarrow> nat" where
  "total_length line = (let N = length line + 1 in N div 8 * 8 + (if N mod 8 \<noteq> 0 then 8 else 0))"

definition line_entry :: "string \<Rightarrow> insn list" where
  "line_entry line = [ins 0x7a 10 0 (- 8) 0, ins 0x17 10 0 0 (of_nat (total_length line)), ins 0xbf 1 10 0 0] @ store_line 0 line"

definition memcapture_func_name :: "nat \<Rightarrow> string" where
  "memcapture_func_name idx = ''__memcapture__'' @ dec idx"

text \<open>The loop over the lines: the functions so far, the text so far, and the number of accesses.\<close>

definition memcapture_line :: "(insn list \<Rightarrow> string) \<Rightarrow> insn list \<Rightarrow> string \<Rightarrow> string \<times> string \<times> nat \<Rightarrow> string \<times> string \<times> nat" where
  "memcapture_line compile insts line = (\<lambda>(function_def, oss, cnt).
     let oss = (if list_ex (starts_with line) HEADER_PREFIXES then oss else oss @ line @ [NL])
     in if access_line line then
          let cnt = cnt + 1; probe_func_name = memcapture_func_name cnt
          in (function_def @ generate_ptx_for_ebpf compile (line_entry line @ insts) probe_func_name @ [NL],
              oss @ ''call '' @ probe_func_name @ '';'' @ [NL], cnt)
        else (function_def, oss, cnt))"

definition patch_with_memcapture :: "(insn list \<Rightarrow> string) \<Rightarrow> insn list \<Rightarrow> string \<Rightarrow> string" where
  "patch_with_memcapture compile insts input =
     (let (function_def, oss, cnt) = fold (memcapture_line compile insts) (getlines input) ([], [], 0)
      in function_def @ [NL] @ oss)"

section \<open>Probes on kernels\<close>

text \<open>The head of a kernel at a position: its name and its length.\<close>

definition kernel_entry :: "string \<Rightarrow> (string \<times> nat) option" where
  "kernel_entry s = Option.bind (match_atoms [Lit ''.visible'', Ws1, Lit ''.entry'', Ws1] s) (\<lambda>r.
     let nm = takeWhile is_word r
     in if nm = [] then None
        else Option.bind (match_atoms [Ws0, Lit ''(''] (dropWhile is_word r)) (\<lambda>r.
          map_option (\<lambda>r. (nm, length s - length r)) (skip_word '')'' (dropWhile (\<lambda>c. c \<noteq> CHR '')'') r))))"

fun find_kernels :: "nat \<Rightarrow> string \<Rightarrow> (string \<times> nat) list" where
  "find_kernels pos [] = []"
| "find_kernels pos (c # s) = (case kernel_entry (c # s) of
     Some (nm, n) \<Rightarrow> (nm, pos) # find_kernels (pos + n) (drop (n - 1) s)
   | None \<Rightarrow> find_kernels (pos + 1) s)"

text \<open>The length of the text up to the brace that closes the first one; \<open>d\<close> braces are open.\<close>

fun section_end :: "nat \<Rightarrow> string \<Rightarrow> nat option" where
  "section_end d [] = None"
| "section_end d (c # s) =
     (if c = CHR ''{'' then map_option Suc (section_end (d + 1) s)
      else if c = CHR ''}'' then (if d = 0 then None else if d = 1 then Some 1 else map_option Suc (section_end (d - 1) s))
      else map_option Suc (section_end d s))"

definition ret_pattern :: "string \<Rightarrow> string \<Rightarrow> (string \<times> nat) option" where
  "ret_pattern f s = (let ws = takeWhile is_space s in
     if ws \<noteq> [] \<and> starts_with (skip_ws s) ''ret;'' then Some (ws @ ''call '' @ f @ '';'' @ [NL] @ ws @ ''ret;'', length ws + 4) else None)"

definition begin_pattern :: "string \<Rightarrow> string \<Rightarrow> (string \<times> nat) option" where
  "begin_pattern f s = (case s of
     c # r \<Rightarrow>
       if c = CHR ''{'' then
         let ws = takeWhile is_space r; t = skip_ws r;
             found = (\<lambda>g. Some (''{'' @ [NL] @ ''    call '' @ f @ '';'' @ [NL] @ ws @ g, 1 + length ws + length g))
         in if starts_with t ''.reg'' then found ''.reg''
            else if starts_with t ''.shared'' then found ''.shared''
            else if t = [] then found [] else None
       else None
   | [] \<Rightarrow> None)"

definition probe_func_name :: "bool \<Rightarrow> string \<Rightarrow> string" where
  "probe_func_name is_retprobe target = (if is_retprobe then ''__retprobe_func__'' else ''__probe_func__'') @ target"

definition patch_section :: "bool \<Rightarrow> string \<Rightarrow> string \<Rightarrow> string" where
  "patch_section is_retprobe f sub_str = replace_all (if is_retprobe then ret_pattern f else begin_pattern f) sub_str"

text \<open>The loop over the kernels, up to the one with the name of the target.\<close>

fun patch_kernels :: "(insn list \<Rightarrow> string) \<Rightarrow> insn list \<Rightarrow> bool \<Rightarrow> string \<Rightarrow> (string \<times> nat) list \<Rightarrow> string \<Rightarrow> string option" where
  "patch_kernels compile insts is_retprobe target [] ptx = Some ptx"
| "patch_kernels compile insts is_retprobe target ((nm, b) # ks) ptx = Option.bind (section_end 0 (drop b ptx)) (\<lambda>n.
     if nm = target then
       let f = probe_func_name is_retprobe target
       in Some (generate_ptx_for_ebpf compile insts f @ [NL] @ take b ptx @ patch_section is_retprobe f (take n (drop b ptx)) @ drop (b + n) ptx)
     else patch_kernels compile insts is_retprobe target ks ptx)"

definition patch_target :: "(insn list \<Rightarrow> string) \<Rightarrow> insn list \<Rightarrow> bool \<Rightarrow> string \<Rightarrow> string \<Rightarrow> string option" where
  "patch_target compile insts is_retprobe target ptx = patch_kernels compile insts is_retprobe target (find_kernels 0 ptx) ptx"

fun patch_targets :: "(insn list \<Rightarrow> string) \<Rightarrow> insn list \<Rightarrow> bool \<Rightarrow> string list \<Rightarrow> string \<Rightarrow> string option" where
  "patch_targets compile insts is_retprobe [] ptx = Some ptx"
| "patch_targets compile insts is_retprobe (t # ts) ptx =
     Option.bind (patch_target compile insts is_retprobe t ptx) (patch_targets compile insts is_retprobe ts)"

definition patch_with_probe_and_retprobe ::
  "(insn list \<Rightarrow> string) \<Rightarrow> insn list \<Rightarrow> string list \<Rightarrow> string \<Rightarrow> bool \<Rightarrow> string \<Rightarrow> string option" where
  "patch_with_probe_and_retprobe compile insts kernels func is_retprobe ptx =
     map_option filter_out_version_headers
       (patch_targets compile insts is_retprobe (if kernels = [] then [func] else kernels) ptx)"

section \<open>What a captured line hands to the program\<close>

text \<open>Two more instructions, and runs of a number of steps.\<close>

definition pstep :: "insn list \<Rightarrow> nat \<Rightarrow> bval list \<Rightarrow> bytes \<Rightarrow> (nat \<times> bval list \<times> bytes) option" where
  "pstep prog pc regs st =
     (let i = prog ! pc; d = unat (in_dst i) in
      if in_code i = 0x7a then (case regs ! d of
          Stk o' \<Rightarrow> (let a = o' + sint (in_off i) in
            if in_stack a 8 then Some (pc + 1, regs, put (stk_idx a) (st64 (scast (in_imm i))) st) else None)
        | _ \<Rightarrow> None)
      else if in_code i = 0x17 then (case regs ! d of
          Num x \<Rightarrow> Some (pc + 1, regs[d := Num (x - scast (in_imm i))], st)
        | Stk o' \<Rightarrow> Some (pc + 1, regs[d := Stk (o' - sint (in_imm i))], st)
        | _ \<Rightarrow> None)
      else step prog pc regs st)"

fun prun :: "insn list \<Rightarrow> nat \<Rightarrow> nat \<times> bval list \<times> bytes \<Rightarrow> (nat \<times> bval list \<times> bytes) option" where
  "prun prog 0 c = Some c"
| "prun prog (Suc n) (pc, regs, st) = Option.bind (pstep prog pc regs st) (prun prog n)"

lemma prun_add: "prun prog (m + n) c = Option.bind (prun prog m c) (prun prog n)"
proof (induction m arbitrary: c)
  case (Suc m)
  obtain pc regs st where c: "c = (pc, regs, st)" using prod_cases3 by blast
  show ?case by (cases "pstep prog pc regs st") (simp_all add: c Suc.IH)
qed simp

definition line_bytes :: "string \<Rightarrow> bytes" where
  "line_bytes cs = map of_char cs"

text \<open>The bytes of a line filled up with zeros to whole words.\<close>

definition padded :: "string \<Rightarrow> bytes" where
  "padded cs = line_bytes cs @ replicate ((8 - length cs mod 8) mod 8) 0"

lemma bit_fold_or:
  "bit (fold (\<lambda>j w. w OR push_bit (j * 8) (char_word (cs ! j))) [0..<m] 0) n \<longleftrightarrow>
     n < 64 \<and> (\<exists>j < m. 8 * j \<le> n \<and> bit (char_word (cs ! j)) (n - 8 * j))"
  by (induction m) (auto simp: bit_or_iff bit_push_bit_iff less_Suc_eq mult.commute)

lemma char_word_bit:
  assumes "of_char c < (128 :: nat)"
  shows "bit (char_word c) n \<longleftrightarrow> n < 8 \<and> bit (of_char c :: 8 word) n"
proof -
  obtain b0 b1 b2 b3 b4 b5 b6 b7 where c: "c = Char b0 b1 b2 b3 b4 b5 b6 b7" by (cases c)
  have "\<not> b7" using assms by (auto simp: c)
  moreover have "bit (of_char c :: 8 word) 7 \<longleftrightarrow> b7" by (simp only: c of_char_Char bit_horner_sum_bit_iff) simp
  ultimately have top: "\<not> bit (of_char c :: 8 word) 7" by simp
  then have "\<not> bit (of_char c :: 8 word) n" if "7 \<le> n" "n < 8" using that by (cases "n = 7") auto
  with top show ?thesis by (auto simp: char_word_def bit_signed_iff bit_simps min_def dest: bit_imp_le_length split: if_splits)
qed

lemma curr_word_bit:
  assumes "\<forall>c \<in> set cs. of_char c < (128 :: nat)" "length cs \<le> 8"
  shows "bit (curr_word cs) n \<longleftrightarrow> n div 8 < length cs \<and> bit (of_char (cs ! (n div 8)) :: 8 word) (n mod 8)"
proof -
  have "bit (curr_word cs) n \<longleftrightarrow> n < 64 \<and> (\<exists>j < length cs. 8 * j \<le> n \<and> n - 8 * j < 8 \<and> bit (of_char (cs ! j) :: 8 word) (n - 8 * j))"
    using assms by (auto simp: curr_word_def bit_fold_or min_def char_word_bit)
  moreover have "8 * j \<le> n \<and> n - 8 * j < 8 \<longleftrightarrow> j = n div 8" for j by auto
  moreover have "n - 8 * (n div 8) = n mod 8" by (simp add: minus_mult_div_eq_mod)
  ultimately have "bit (curr_word cs) n \<longleftrightarrow> n < 64 \<and> n div 8 < length cs \<and> bit (of_char (cs ! (n div 8)) :: 8 word) (n mod 8)"
    by (metis (no_types, lifting))
  then show ?thesis using assms(2) by auto
qed

lemma bytes_of_nat_nth: "k < n \<Longrightarrow> bytes_of_nat n x ! k = of_nat (x div 256 ^ k)"
proof (induction n arbitrary: x k)
  case (Suc n)
  then show ?case by (cases k) (simp_all add: div_mult2_eq)
qed simp

lemma st64_byte: "k < 8 \<Longrightarrow> st64 w ! k = ucast (drop_bit (8 * k) w)"
proof -
  assume k: "k < 8"
  have "unat (drop_bit (8 * k) w) = drop_bit (8 * k) (unat w)" by (rule unat_drop_bit_eq)
  also have "\<dots> = unat w div 256 ^ k" by (simp add: drop_bit_nat_def power_mult)
  finally show ?thesis using k by (metis bytes_of_nat_nth of_nat_unat st64_def)
qed

lemma st64_curr_word:
  assumes "\<forall>c \<in> set cs. of_char c < (128 :: nat)" "length cs \<le> 8"
  shows "st64 (curr_word cs) = line_bytes cs @ replicate (8 - length cs) 0"
proof (rule nth_equalityI)
  show "length (st64 (curr_word cs)) = length (line_bytes cs @ replicate (8 - length cs) 0)" using assms(2) by (simp add: st64_def line_bytes_def)
  fix k assume "k < length (st64 (curr_word cs))"
  then have k: "k < 8" by (simp add: st64_def)
  have "(ucast (drop_bit (8 * k) (curr_word cs)) :: byte) = (if k < length cs then of_char (cs ! k) else 0)"
    by (rule bit_word_eqI) (auto simp: bit_simps curr_word_bit [OF assms])
  then show "st64 (curr_word cs) ! k = (line_bytes cs @ replicate (8 - length cs) 0) ! k"
    using k assms(2) by (auto simp: st64_byte nth_append line_bytes_def)
qed

lemma st64_zero: "st64 0 = replicate 8 0"
  using st64_curr_word [of "[]"] by (simp add: curr_word_def line_bytes_def)

lemma padded_words:
  assumes "\<forall>c \<in> set cs. of_char c < (128 :: nat)" "cs \<noteq> []"
  shows "st64 (curr_word (take 8 cs)) @ padded (drop 8 cs) = padded cs"
proof (cases "8 \<le> length cs")
  case True
  then have "st64 (curr_word (take 8 cs)) = line_bytes (take 8 cs)" using assms(1) st64_curr_word [of "take 8 cs"] by (auto dest: in_set_takeD)
  moreover have "line_bytes cs = line_bytes (take 8 cs) @ line_bytes (drop 8 cs)" by (simp add: line_bytes_def flip: map_append)
  moreover have "(length cs - 8) mod 8 = length cs mod 8" using True by (simp add: le_mod_geq)
  ultimately show ?thesis by (simp add: padded_def)
next
  case False
  then show ?thesis using assms st64_curr_word [of cs] by (simp add: padded_def line_bytes_def)
qed

lemma round_up:
  fixes n :: nat
  shows "n + (8 - n mod 8) mod 8 = 8 * ((n + 7) div 8)" (is ?pad)
    and "n div 8 * 8 + (if n mod 8 \<noteq> 0 then 8 else 0) = 8 * ((n + 7) div 8)" (is ?total)
proof -
  obtain q r where n: "n = 8 * q + r" "r < 8" by (metis mod_less_divisor mult_div_mod_eq zero_less_numeral)
  then have m: "n mod 8 = r" "n div 8 = q" by simp_all
  have "(n + 7) div 8 = q + (r + 7) div 8" using n(1) by (metis add.assoc add.commute div_mult_self2 zero_neq_numeral)
  moreover have "r + (8 - r) mod 8 = 8 * ((r + 7) div 8)" "(if r \<noteq> 0 then 8 else 0) = 8 * ((r + 7) div 8)"
    using n(2) by (cases "r = 0"; auto simp: div_if mod_if)+
  ultimately show ?pad ?total using n(1) m by simp_all
qed

lemma length_padded: "length (padded cs) = 8 * ((length cs + 7) div 8)"
  by (simp add: padded_def line_bytes_def round_up)

lemma put_put: "put (off + length xs) ys (put off xs mem) = put off (xs @ ys) mem" if "off + length xs \<le> length mem"
  using that by (simp add: put_def add_ac)

lemma halves: "(ucast (ucast w :: u32) OR push_bit 32 (ucast (ucast (drop_bit 32 w) :: u32))) = (w :: u64)"
  by (rule bit_word_eqI) (auto simp: bit_simps)

lemma store_word_run:
  assumes "prog = pre @ store_word i w @ post" "regs ! 1 = Stk b" "length regs = 11" "in_stack (b + int i) 8" "i < 32768"
  shows "prun prog 2 (length pre, regs, st) = Some (length pre + 3, regs[2 := Num w], put (stk_idx (b + int i)) (st64 w) st)"
proof -
  have at: "prog ! length pre = ins EBPF_OP_LDDW 2 0 0 (ucast w)" "prog ! Suc (length pre) = ins 0 0 0 0 (ucast (drop_bit 32 w))"
    "prog ! Suc (Suc (length pre)) = ins 0x7b 1 2 (of_nat i) 0" using assms(1) by (simp_all add: store_word_def nth_append)
  have off: "sint (of_nat i :: 16 word) = int i" using assms(5) by (simp add: sint_uint uint_nat unat_of_nat signed_take_bit_int_eq_self)
  have "pstep prog (length pre) regs st = Some (length pre + 2, regs[2 := Num w], st)"
    using at(1,2) by (simp add: pstep_def step_def ins_def EBPF_OP_LDDW_def halves)
  moreover have "pstep prog (length pre + 2) (regs[2 := Num w]) st = Some (length pre + 3, regs[2 := Num w], put (stk_idx (b + int i)) (st64 w) st)"
    using at(3) assms(2-4) off by (simp add: pstep_def step_def ins_def)
  ultimately show ?thesis by (simp add: numeral_2_eq_2)
qed

lemma length_store_word [simp]: "length (store_word i w) = 3"
  by (simp add: store_word_def)

lemma store_line_Nil [simp]: "store_line i [] = []"
  by (simp add: store_line.simps)

lemma store_line_run:
  assumes "\<forall>c \<in> set cs. of_char c < (128 :: nat)" "prog = pre @ store_line i cs @ post" "regs ! 1 = Stk b" "length regs = 11"
    "- 512 \<le> b + int i" "b + int i + int (length (padded cs)) \<le> 0" "i + length (padded cs) \<le> 32768" "length st = 512"
  shows "\<exists>n regs'. prun prog n (length pre, regs, st) =
      Some (length pre + length (store_line i cs), regs', put (stk_idx (b + int i)) (padded cs) st) \<and>
    length regs' = 11 \<and> (\<forall>r. r \<noteq> 2 \<longrightarrow> regs' ! r = regs ! r)"
  using assms
proof (induction cs arbitrary: i pre regs st rule: length_induct)
  case (1 cs)
  show ?case
  proof (cases "cs = []")
    case True
    then show ?thesis using "1.prems"(4) by (intro exI [of _ 0] exI [of _ regs]) (simp add: padded_def line_bytes_def put_def)
  next
    case False
    let ?w = "curr_word (take 8 cs)" and ?rest = "drop 8 cs" and ?x = "stk_idx (b + int i)"
    have words: "st64 ?w @ padded ?rest = padded cs" using padded_words "1.prems"(1) False by blast
    have len: "length (padded cs) = 8 + length (padded ?rest)" using arg_cong [OF words, of length] by (simp add: st64_def)
    have code: "store_line i cs = store_word i ?w @ store_line (i + 8) ?rest" using False by (subst store_line.simps) simp
    have stack: "in_stack (b + int i) 8" using "1.prems"(5,6) len by (simp add: in_stack_def STACK_SIZE_def)
    have small: "i < 32768" using "1.prems"(7) len by simp
    have one: "prun prog 2 (length pre, regs, st) = Some (length pre + 3, regs[2 := Num ?w], put ?x (st64 ?w) st)"
      by (rule store_word_run [OF _ "1.prems"(3,4) stack small]) (simp add: "1.prems"(2) code)
    have x: "?x + 8 \<le> 512" "stk_idx (b + int (i + 8)) = ?x + 8" using stack by (auto simp: in_stack_def stk_idx_def STACK_SIZE_def)
    obtain n regs' where rest: "prun prog n (length (pre @ store_word i ?w), regs[2 := Num ?w], put ?x (st64 ?w) st) =
        Some (length (pre @ store_word i ?w) + length (store_line (i + 8) ?rest), regs', put (?x + 8) (padded ?rest) (put ?x (st64 ?w) st))"
      "length regs' = 11" "\<forall>r. r \<noteq> 2 \<longrightarrow> regs' ! r = regs[2 := Num ?w] ! r"
    proof -
      have "length ?rest < length cs" using False by simp
      moreover have "\<forall>c \<in> set ?rest. of_char c < (128 :: nat)" using "1.prems"(1) by (auto dest: in_set_dropD)
      moreover have "prog = (pre @ store_word i ?w) @ store_line (i + 8) ?rest @ post" by (simp add: "1.prems"(2) code)
      moreover have "regs[2 := Num ?w] ! 1 = Stk b" "length (regs[2 := Num ?w]) = 11" using "1.prems"(3,4) by simp_all
      moreover have "- 512 \<le> b + int (i + 8)" "b + int (i + 8) + int (length (padded ?rest)) \<le> 0" using "1.prems"(5,6) len by simp_all
      moreover have "i + 8 + length (padded ?rest) \<le> 32768" using "1.prems"(7) len by auto
      moreover have "length (put ?x (st64 ?w) st) = 512" using x(1) "1.prems"(8) by (simp add: put_def st64_def)
      moreover note "1.IH" [rule_format, of ?rest "pre @ store_word i ?w" "i + 8" "regs[2 := Num ?w]" "put ?x (st64 ?w) st"]
      ultimately show ?thesis using that x(2) by auto
    qed
    have "put (?x + 8) (padded ?rest) (put ?x (st64 ?w) st) = put ?x (padded cs) st"
      using put_put [of ?x "st64 ?w" st "padded ?rest"] x(1) "1.prems"(8) words by (simp add: st64_def)
    then have "prun prog (2 + n) (length pre, regs, st) = Some (length pre + length (store_line i cs), regs', put ?x (padded cs) st)"
      using one rest(1) by (simp only: prun_add) (simp add: code)
    then show ?thesis using rest(2,3) by (intro exI [of _ "2 + n"] exI [of _ regs']) simp
  qed
qed

lemma total_length_eq: "total_length line = 8 * ((length line + 8) div 8)"
  using round_up(2) [of "length line + 1"] by (simp add: total_length_def Let_def)

lemma room:
  assumes "length line < 512"
  shows "total_length line \<le> 512" "length line < total_length line" "length (padded line) \<le> total_length line"
    "length line \<le> length (padded line)" "length (padded line) = length line \<Longrightarrow> total_length line = length line + 8"
proof -
  show "length (padded line) \<le> total_length line" by (simp add: total_length_eq length_padded div_le_mono)
  show "length line \<le> length (padded line)" by (simp add: padded_def line_bytes_def)
  show "total_length line = length line + 8" if "length (padded line) = length line"
  proof -
    from that have "length line = 8 * ((length line + 7) div 8)" by (simp add: length_padded)
    then obtain q where "length line = 8 * q" by blast
    then show ?thesis by (simp add: total_length_eq)
  qed
  have "(length line + 8) div 8 \<le> 519 div 8" using assms by (intro div_le_mono) simp
  then show "total_length line \<le> 512" by (simp add: total_length_eq)
  show "length line < total_length line" unfolding total_length_eq by (simp add: less_mult_imp_div_less mult.commute)
qed

text \<open>The stack after the entry: the first store clears the word at the top, the others write the line.\<close>

lemma line_on_stack:
  assumes "length line < 512" "length st = 512"
  shows "seg (512 - total_length line) (length line + 1) (put (512 - total_length line) (padded line) (put 504 (replicate 8 0) st)) =
    line_bytes line @ [0]" (is "seg ?x _ (put _ _ ?st) = _")
proof (rule nth_equalityI)
  note t = room [OF assms(1)]
  have len: "length ?st = 512" using assms(2) by (simp add: put_def)
  show "length (seg ?x (length line + 1) (put ?x (padded line) ?st)) = length (line_bytes line @ [0])"
    using t len by (simp add: seg_def put_def line_bytes_def)
  fix j assume "j < length (seg ?x (length line + 1) (put ?x (padded line) ?st))"
  then have j: "j \<le> length line" by (simp add: seg_def)
  have "seg ?x (length line + 1) (put ?x (padded line) ?st) ! j = put ?x (padded line) ?st ! (?x + j)"
    using j t len by (simp add: seg_def length_put)
  also have "\<dots> = (if j < length (padded line) then padded line ! j else ?st ! (?x + j))"
    using j t len by (subst nth_put) auto
  also have "\<dots> = (line_bytes line @ [0]) ! j"
  proof (cases "j < length (padded line)")
    case True
    then show ?thesis using j by (auto simp: padded_def nth_append line_bytes_def)
  next
    case False
    then have "j = length line" "length (padded line) = length line" using j t(4) by simp_all
    moreover from this have "?x + j = 504" using t(1,5) by simp
    ultimately show ?thesis using False assms(2) by (simp add: nth_put nth_append line_bytes_def)
  qed
  finally show "seg ?x (length line + 1) (put ?x (padded line) ?st) ! j = (line_bytes line @ [0]) ! j" .
qed

lemma line_entry_start:
  assumes "length line < 512" "regs ! 10 = Stk 0" "length regs = 11"
  shows "prun (line_entry line @ insts) 3 (0, regs, st) =
    Some (3, regs[10 := Stk (- int (total_length line)), 1 := Stk (- int (total_length line))], put 504 (replicate 8 0) st)"
proof -
  let ?t = "total_length line" and ?prog = "line_entry line @ insts" and ?st = "put 504 (replicate 8 0) st"
  have imm: "sint (of_nat ?t :: u32) = int ?t"
    using room(1) [OF assms(1)] by (simp add: sint_uint uint_nat unat_of_nat signed_take_bit_int_eq_self)
  have at: "?prog ! 0 = ins 0x7a 10 0 (- 8) 0" "?prog ! 1 = ins 0x17 10 0 0 (of_nat ?t)" "?prog ! 2 = ins 0xbf 1 10 0 0"
    by (simp_all add: line_entry_def)
  have "pstep ?prog 0 regs st = Some (1, regs, ?st)"
    using assms at(1) by (simp add: pstep_def ins_def st64_zero in_stack_def stk_idx_def STACK_SIZE_def)
  moreover have "pstep ?prog 1 regs ?st = Some (2, regs[10 := Stk (- int ?t)], ?st)"
    using assms at(2) by (simp add: pstep_def ins_def imm)
  moreover have "pstep ?prog 2 (regs[10 := Stk (- int ?t)]) ?st = Some (3, regs[10 := Stk (- int ?t), 1 := Stk (- int ?t)], ?st)"
    using assms at(3) by (simp add: pstep_def step_def ins_def)
  ultimately show ?thesis by (simp add: numeral_3_eq_3 numeral_2_eq_2)
qed

text \<open>C21. A program that captures an access gets the text of the instruction: when it starts, register 1 points to the line with a zero at its
  end, on the stack above the frame the program goes on with, and every other register but 2 and the frame pointer is as
  it was. The entry stays on the stack of 512 bytes, for lines of fewer than 512 characters of ASCII.\<close>

theorem memcapture_hands_line:
  assumes "\<forall>c \<in> set line. of_char c < (128 :: nat)" "length line < 512" "regs ! 10 = Stk 0" "length regs = 11" "length st = 512"
  shows "\<exists>n regs' st'. prun (line_entry line @ insts) n (0, regs, st) = Some (length (line_entry line), regs', st') \<and>
    regs' ! 1 = Stk (- int (total_length line)) \<and> regs' ! 10 = Stk (- int (total_length line)) \<and>
    (\<forall>r. r \<notin> {1, 2, 10} \<longrightarrow> regs' ! r = regs ! r) \<and>
    seg (512 - total_length line) (length line + 1) st' = line_bytes line @ [0]"
proof -
  let ?t = "total_length line" and ?prog = "line_entry line @ insts" and ?pre = "take 3 (line_entry line)"
  let ?regs = "regs[10 := Stk (- int ?t), 1 := Stk (- int ?t)]" and ?st = "put 504 (replicate 8 0) st"
  note t = room [OF assms(2)]
  have pre: "length ?pre = 3" "?prog = ?pre @ store_line 0 line @ insts" "length (line_entry line) = 3 + length (store_line 0 line)"
    by (simp_all add: line_entry_def eval_nat_numeral)
  have x: "stk_idx (- int ?t + int 0) = 512 - ?t" using t(1) by (simp add: stk_idx_def STACK_SIZE_def nat_diff_distrib)
  have "length ?st = 512" using assms(5) by (simp add: put_def)
  then obtain n regs' where rest: "prun ?prog n (3, ?regs, ?st) = Some (length (line_entry line), regs', put (512 - ?t) (padded line) ?st)"
    "length regs' = 11" "\<forall>r. r \<noteq> 2 \<longrightarrow> regs' ! r = ?regs ! r"
    using store_line_run [where pre = ?pre and i = 0 and b = "- int ?t" and regs = ?regs and st = ?st, OF assms(1) pre(2)]
      assms(4) t pre(1,3) x by auto
  then have "prun ?prog (3 + n) (0, regs, st) = Some (length (line_entry line), regs', put (512 - ?t) (padded line) ?st)"
    using line_entry_start [OF assms(2-4)] by (simp only: prun_add) simp
  with rest(2,3) assms(4) line_on_stack [OF assms(2,5)] show ?thesis
    by (intro exI [of _ "3 + n"] exI [of _ regs'] exI [of _ "put (512 - ?t) (padded line) ?st"]) simp
qed

definition demo_line :: string where
  "demo_line = ''ld.global.u32 %r1, [%rd1];''"

theorem memcapture_hands_line_witness:
  "access_line demo_line \<and> (\<exists>n regs' st'. prun (line_entry demo_line) n (0, start_regs, replicate 512 1) = Some (length (line_entry demo_line), regs', st') \<and>
     regs' ! 1 = Stk (- 32) \<and> seg 480 27 st' = line_bytes demo_line @ [0])"
proof -
  have "total_length demo_line = 32" "length demo_line = 26" by (simp_all add: demo_line_def total_length_def)
  moreover have "\<forall>c \<in> set demo_line. of_char c < (128 :: nat)" by (simp add: demo_line_def)
  moreover have "start_regs ! 10 = Stk 0" "length start_regs = 11" by (simp_all add: start_regs_def)
  moreover have "access_line demo_line" by code_simp
  ultimately show ?thesis using memcapture_hands_line [of demo_line start_regs "replicate 512 1" "[]"] by auto
qed

text \<open>An access without a state space, or of a floating point type, is no access for the pattern: after the first dot and an
  optional space it wants a second dot, and for those types a third.\<close>

theorem accesses_missed:
  "\<not> access_line ''ld.u32 %r1, [%rd1];'' \<and> \<not> access_line ''ld.global.f32 %f1, [%rd1];'' \<and> \<not> access_line ''st.shared.u32 [%r1], %r2;''"
  by code_simp

section \<open>What the text passes keep\<close>

definition header_kind :: "string \<Rightarrow> string option" where
  "header_kind line = find (starts_with line) FILTERED_OUT_PREFIXES"

lemma header_loop_others: "filter (\<lambda>l. header_kind l = None) (header_loop found ls) = filter (\<lambda>l. header_kind l = None) ls"
  by (induction ls arbitrary: found) (auto simp: header_kind_def split: option.splits)

lemma header_loop_kind:
  "filter (\<lambda>l. header_kind l = Some p) (header_loop found ls) =
     (if p \<in> set found then [] else take 1 (filter (\<lambda>l. header_kind l = Some p) ls))"
  by (induction ls arbitrary: found) (auto simp: header_kind_def split: option.splits)

lemma header_loop_again: "set found' \<subseteq> set found \<Longrightarrow> header_loop found' (header_loop found ls) = header_loop found ls"
proof (induction ls arbitrary: found found')
  case (Cons l ls)
  show ?case
  proof (cases "find (starts_with l) FILTERED_OUT_PREFIXES")
    case (Some x)
    with Cons.prems Cons.IH [of "x # found'" "x # found"] Cons.IH [of found' found] show ?thesis by auto
  qed (use Cons in auto)
qed simp

lemma header_loop_lines: "set (header_loop found ls) \<subseteq> set ls"
  by (induction ls arbitrary: found) (auto split: option.splits)

lemma tokens_parts: "t \<in> set (tokens d s) \<Longrightarrow> d \<notin> set t"
  by (induction s arbitrary: t) (auto split: list.splits if_splits)

lemma tokens_not_Nil [simp]: "tokens d s \<noteq> []"
  by (cases s) (auto split: list.splits)

lemma getlines_lines: "l \<in> set (getlines s) \<Longrightarrow> NL \<notin> set l"
  using tokens_parts [of l NL s] by (auto simp: getlines_def Let_def dest: in_set_butlastD split: if_splits)

lemma tokens_unlines: "\<forall>l \<in> set ls. NL \<notin> set l \<Longrightarrow> tokens NL (unlines ls) = ls @ [[]]"
  by (induction ls) (auto simp: unlines_def tokens_split)

lemma getlines_unlines [simp]: "\<forall>l \<in> set ls. NL \<notin> set l \<Longrightarrow> getlines (unlines ls) = ls"
  by (simp add: getlines_def tokens_unlines)

text \<open>Filtering version headers leaves the first line of each kind of header and every line that is none, in order, and filtering
  again changes nothing.\<close>

theorem version_headers_once:
  "filter (\<lambda>l. header_kind l = None) (getlines (filter_out_version_headers s)) = filter (\<lambda>l. header_kind l = None) (getlines s) \<and>
   filter (\<lambda>l. header_kind l = Some p) (getlines (filter_out_version_headers s)) = take 1 (filter (\<lambda>l. header_kind l = Some p) (getlines s)) \<and>
   filter_out_version_headers (filter_out_version_headers s) = filter_out_version_headers s"
proof -
  have "\<forall>l \<in> set (header_loop [] (getlines s)). NL \<notin> set l" using header_loop_lines getlines_lines by blast
  then show ?thesis by (simp add: filter_out_version_headers_def header_loop_others header_loop_kind header_loop_again)
qed

text \<open>Replacing adds to a text when what stands for a match contains the match.\<close>

lemma replace_all_adds:
  assumes "\<And>s r n. m s = Some (r, n) \<Longrightarrow> 0 < n \<and> subseq (take n s) r"
  shows "subseq s (replace_all m s)"
  using assms
proof (induction m s rule: replace_all.induct)
  case (2 m c s)
  show ?case
  proof (cases "m (c # s)")
    case (Some p)
    obtain r n where p: "m (c # s) = Some (r, n)" using Some by (cases p) auto
    then have n: "0 < n" "subseq (take n (c # s)) r" using "2.prems" by blast+
    have "c # s = take n (c # s) @ drop (n - 1) s" using n(1) by (cases n) simp_all
    moreover have "subseq (drop (n - 1) s) (replace_all m (drop (n - 1) s))" using "2.IH"(2) [OF p refl "2.prems"] .
    ultimately show ?thesis using list_emb_append_mono [OF n(2)] p by (metis (no_types, lifting) option.simps(5) prod.case replace_all.simps(2))
  qed (use 2 in simp)
qed simp

lemma take_ws: "starts_with (skip_ws s) g \<Longrightarrow> take (length (takeWhile is_space s) + length g) s = takeWhile is_space s @ g"
  by (metis append_take_drop_id append_eq_conv_conj dropWhile_eq_drop starts_with_def take_add takeWhile_eq_take)

lemma ret_pattern_adds:
  assumes "ret_pattern f s = Some (r, n)"
  shows "0 < n \<and> subseq (take n s) r"
proof -
  let ?ws = "takeWhile is_space s"
  from assms have m: "starts_with (skip_ws s) ''ret;''" "r = ?ws @ (''call '' @ f @ '';'' @ [NL] @ ?ws) @ ''ret;''" "n = length ?ws + length ''ret;''"
    by (auto simp: ret_pattern_def Let_def split: if_splits)
  have "take n s = ?ws @ ''ret;''" using take_ws [OF m(1)] m(3) by simp
  moreover have "subseq (?ws @ ''ret;'') (?ws @ (''call '' @ f @ '';'' @ [NL] @ ?ws) @ ''ret;'')"
    by (intro list_emb_append_mono subseq_order.refl list_emb_append2)
  ultimately show ?thesis using m by simp
qed

lemma begin_pattern_adds:
  assumes "begin_pattern f s = Some (r, n)"
  shows "0 < n \<and> subseq (take n s) r"
proof -
  obtain t where s: "s = CHR ''{'' # t" using assms by (auto simp: begin_pattern_def split: list.splits if_splits)
  let ?ws = "takeWhile is_space t"
  have empty: "starts_with u []" for u by (simp add: starts_with_def)
  obtain g where g: "starts_with (skip_ws t) g" "r = ''{'' @ ([NL] @ ''    call '' @ f @ '';'' @ [NL]) @ ?ws @ g" "n = 1 + (length ?ws + length g)"
  proof (cases "starts_with (skip_ws t) ''.reg'' \<or> starts_with (skip_ws t) ''.shared''")
    case True
    then show ?thesis using assms by (intro that [of "if starts_with (skip_ws t) ''.reg'' then ''.reg'' else ''.shared''"])
      (auto simp: begin_pattern_def s Let_def)
  next
    case False
    then show ?thesis using assms empty by (intro that [of "[]"]) (auto simp: begin_pattern_def s Let_def split: if_splits)
  qed
  have "take n s = ''{'' @ ?ws @ g" using take_ws [OF g(1)] g(3) by (simp add: s)
  moreover have "subseq (''{'' @ ?ws @ g) (''{'' @ ([NL] @ ''    call '' @ f @ '';'' @ [NL]) @ ?ws @ g)"
    by (intro list_emb_append_mono subseq_order.refl list_emb_append2)
  ultimately show ?thesis using g by simp
qed

lemma patch_section_adds: "subseq sec (patch_section rp f sec)"
  unfolding patch_section_def by (rule replace_all_adds) (auto dest: ret_pattern_adds begin_pattern_adds split: if_splits)

text \<open>Braces of the first \<open>k\<close> characters.\<close>

definition opened :: "string \<Rightarrow> nat \<Rightarrow> nat" where
  "opened s k = count_list (take k s) (CHR ''{'')"

definition closed :: "string \<Rightarrow> nat \<Rightarrow> nat" where
  "closed s k = count_list (take k s) (CHR ''}'')"

text \<open>The section ends at the first place where the braces balance again.\<close>

definition balanced_at :: "nat \<Rightarrow> string \<Rightarrow> nat \<Rightarrow> bool" where
  "balanced_at d s n \<longleftrightarrow> n \<le> length s \<and> 0 < closed s n \<and> closed s n = d + opened s n \<and>
     (\<forall>k < n. closed s k < d + opened s k \<or> closed s k = 0)"

lemma braces_Cons:
  "opened (c # s) (Suc k) = (if c = CHR ''{'' then 1 else 0) + opened s k"
  "closed (c # s) (Suc k) = (if c = CHR ''}'' then 1 else 0) + closed s k"
  "opened s 0 = 0" "closed s 0 = 0"
  by (simp_all add: opened_def closed_def)

lemma balanced_at_Cons:
  "balanced_at d (c # s) (Suc m) \<longleftrightarrow>
     (if c = CHR ''{'' then balanced_at (d + 1) s m
      else if c = CHR ''}'' then d \<noteq> 0 \<and> (if d = 1 then m = 0 else balanced_at (d - 1) s m)
      else balanced_at d s m)"
proof -
  consider "c = CHR ''{''" | "c = CHR ''}''" "d = 0" | "c = CHR ''}''" "d = 1" | "c = CHR ''}''" "2 \<le> d" | "c \<noteq> CHR ''{''" "c \<noteq> CHR ''}''"
    by linarith
  then show ?thesis
  proof cases
    case 2
    then show ?thesis by (cases m) (auto simp: balanced_at_def braces_Cons All_less_Suc2)
  next
    case 3
    then show ?thesis by (cases m) (auto simp: balanced_at_def braces_Cons All_less_Suc2)
  next
    case 4
    then show ?thesis by (fastforce simp: balanced_at_def braces_Cons All_less_Suc2)
  qed (auto simp: balanced_at_def braces_Cons All_less_Suc2)
qed

lemma section_end_iff: "section_end d s = Some n \<longleftrightarrow> balanced_at d s n"
proof (induction s arbitrary: d n)
  case Nil
  then show ?case by (simp add: balanced_at_def closed_def)
next
  case (Cons c s)
  show ?case
  proof (cases n)
    case 0
    then show ?thesis by (simp add: balanced_at_def closed_def)
  next
    case (Suc m)
    then show ?thesis by (auto simp: balanced_at_Cons Cons.IH)
  qed
qed

lemma kernel_entry_length:
  assumes "kernel_entry s = Some (nm, n)"
  shows "0 < n \<and> n \<le> length s"
proof -
  from assms obtain r t u where r: "match_atoms [Lit ''.visible'', Ws1, Lit ''.entry'', Ws1] s = Some r"
    "match_atoms [Ws0, Lit ''(''] (dropWhile is_word r) = Some t" "skip_word '')'' (dropWhile (\<lambda>c. c \<noteq> CHR '')'') t) = Some u"
    "n = length s - length u"
    unfolding kernel_entry_def Let_def by (auto simp: bind_eq_Some_conv simp del: match_atoms.simps split: if_splits)
  have "length r < length s" using match_lit_length [OF r(1)] by simp
  moreover have "length t \<le> length r" using match_atoms_length [OF r(2)] length_dropWhile_le [of is_word r] by simp
  moreover have "length u \<le> length t" using r(3) length_dropWhile_le [of "\<lambda>c. c \<noteq> CHR '')''" t] by (auto simp: skip_word_def split: if_splits)
  ultimately show ?thesis using r(4) by simp
qed

lemma find_kernels_at:
  "(nm, b) \<in> set (find_kernels pos s) \<Longrightarrow> pos \<le> b \<and> b - pos \<le> length s \<and> (\<exists>n. kernel_entry (drop (b - pos) s) = Some (nm, n))"
proof (induction pos s rule: find_kernels.induct)
  case (2 pos c s)
  show ?case
  proof (cases "kernel_entry (c # s)")
    case None
    then have "(nm, b) \<in> set (find_kernels (pos + 1) s)" using "2.prems" by simp
    from "2.IH"(1) [OF None this] have "pos + 1 \<le> b" "b - (pos + 1) \<le> length s" "\<exists>n. kernel_entry (drop (b - (pos + 1)) s) = Some (nm, n)" by auto
    moreover from this have "b - pos = Suc (b - (pos + 1))" by simp
    ultimately show ?thesis by simp
  next
    case (Some p)
    obtain nm' n where p: "kernel_entry (c # s) = Some (nm', n)" using Some by (cases p) auto
    have n: "0 < n" "n \<le> Suc (length s)" using kernel_entry_length [OF p] by simp_all
    from "2.prems" p consider (here) "nm = nm'" "b = pos" | (later) "(nm, b) \<in> set (find_kernels (pos + n) (drop (n - 1) s))" by auto
    then show ?thesis
    proof cases
      case later
      from "2.IH"(2) [OF p refl later] have b: "pos + n \<le> b" "b - (pos + n) \<le> length s - (n - 1)"
        "\<exists>m. kernel_entry (drop (b - (pos + n)) (drop (n - 1) s)) = Some (nm, m)" by auto
      define k where "k = b - (pos + n)"
      have k: "b - pos = Suc (k + (n - 1))" using b(1) n by (simp add: k_def)
      have "k + (n - 1) \<le> length s" using b(2) n by (simp add: k_def)
      moreover have "drop (b - pos) (c # s) = drop k (drop (n - 1) s)" by (simp add: k)
      moreover have "pos \<le> b" using b(1) by simp
      ultimately show ?thesis using b(3) k by (simp add: k_def [symmetric] del: drop_drop)
    qed (use p in auto)
  qed
qed simp

lemma patch_kernels_spec:
  assumes "\<forall>(nm, b) \<in> set ks. \<exists>n. balanced_at 0 (drop b ptx) n"
  shows "if target \<in> fst ` set ks
    then \<exists>b n. (target, b) \<in> set ks \<and> balanced_at 0 (drop b ptx) n \<and> patch_kernels compile insts rp target ks ptx =
      Some (generate_ptx_for_ebpf compile insts (probe_func_name rp target) @ [NL] @ take b ptx @
        patch_section rp (probe_func_name rp target) (take n (drop b ptx)) @ drop (b + n) ptx)
    else patch_kernels compile insts rp target ks ptx = Some ptx"
  using assms
proof (induction ks)
  case (Cons k ks)
  obtain nm b where k: "k = (nm, b)" by fastforce
  with Cons.prems obtain n where n: "balanced_at 0 (drop b ptx) n" by auto
  then have se: "section_end 0 (drop b ptx) = Some n" by (simp add: section_end_iff)
  show ?case
  proof (cases "nm = target")
    case True
    then show ?thesis using n se k by (auto simp: Let_def)
  next
    case False
    then show ?thesis using Cons se k by (auto split: if_splits)
  qed
qed simp

text \<open>C22. A probe on a kernel: when the braces of the kernels of a text balance, patching it returns. It leaves a text that has no kernel
  of the name as it is; otherwise the compiled program goes to the front, and of the rest only the section of one kernel of that name
  changes, from its head to the brace that closes its body, and nothing of it is lost.\<close>

theorem probe_patch_local:
  assumes "\<forall>(nm, b) \<in> set (find_kernels 0 ptx). \<exists>n. balanced_at 0 (drop b ptx) n"
  shows "if target \<in> fst ` set (find_kernels 0 ptx)
    then \<exists>before sec rest. ptx = before @ sec @ rest \<and> (\<exists>n. kernel_entry (sec @ rest) = Some (target, n)) \<and>
      balanced_at 0 (sec @ rest) (length sec) \<and> subseq sec (patch_section rp (probe_func_name rp target) sec) \<and>
      patch_target compile insts rp target ptx = Some (generate_ptx_for_ebpf compile insts (probe_func_name rp target) @ [NL] @
        before @ patch_section rp (probe_func_name rp target) sec @ rest)
    else patch_target compile insts rp target ptx = Some ptx"
proof (cases "target \<in> fst ` set (find_kernels 0 ptx)")
  case True
  with patch_kernels_spec [OF assms, of target compile insts rp] obtain b n where b: "(target, b) \<in> set (find_kernels 0 ptx)"
    "balanced_at 0 (drop b ptx) n" "patch_target compile insts rp target ptx =
      Some (generate_ptx_for_ebpf compile insts (probe_func_name rp target) @ [NL] @ take b ptx @
        patch_section rp (probe_func_name rp target) (take n (drop b ptx)) @ drop (b + n) ptx)"
    by (auto simp: patch_target_def)
  let ?sec = "take n (drop b ptx)" and ?rest = "drop (b + n) ptx"
  have "?sec @ ?rest = drop b ptx" by (metis add.commute append_take_drop_id drop_drop)
  moreover from this have "ptx = take b ptx @ ?sec @ ?rest" by simp
  moreover have "length ?sec = n" using b(2) by (simp add: balanced_at_def)
  moreover obtain m where "kernel_entry (drop b ptx) = Some (target, m)" using find_kernels_at [OF b(1)] by auto
  ultimately have "\<exists>before sec rest. ptx = before @ sec @ rest \<and> (\<exists>n. kernel_entry (sec @ rest) = Some (target, n)) \<and>
      balanced_at 0 (sec @ rest) (length sec) \<and> subseq sec (patch_section rp (probe_func_name rp target) sec) \<and>
      patch_target compile insts rp target ptx = Some (generate_ptx_for_ebpf compile insts (probe_func_name rp target) @ [NL] @
        before @ patch_section rp (probe_func_name rp target) sec @ rest)"
    using b(2,3) patch_section_adds by (intro exI [of _ "take b ptx"] exI [of _ ?sec] exI [of _ ?rest]) simp
  with True show ?thesis by (simp only: if_True)
next
  case False
  then show ?thesis using patch_kernels_spec [OF assms, of target compile insts rp] by (simp add: patch_target_def)
qed

definition demo_kernel :: string where
  "demo_kernel = ''.visible .entry k()'' @ [NL] @ ''{'' @ [NL] @ ''.reg .b32 %r<2>;'' @ [NL] @ ''ret;'' @ [NL] @ ''}''"

lemma demo_kernels: "find_kernels 0 demo_kernel = [(''k'', 0)]" "section_end 0 demo_kernel = Some (length demo_kernel)"
  by code_simp+

theorem probe_patch_local_witness:
  "find_kernels 0 demo_kernel = [(''k'', 0)] \<and>
   (\<exists>before sec rest. demo_kernel = before @ sec @ rest \<and> balanced_at 0 (sec @ rest) (length sec) \<and>
     patch_target (\<lambda>_. []) [] False ''k'' demo_kernel =
       Some (generate_ptx_for_ebpf (\<lambda>_. []) [] ''__probe_func__k'' @ [NL] @ before @ patch_section False ''__probe_func__k'' sec @ rest))"
proof -
  have "\<forall>(nm, b) \<in> set (find_kernels 0 demo_kernel). \<exists>n. balanced_at 0 (drop b demo_kernel) n"
    by (auto simp: demo_kernels(1) simp flip: section_end_iff intro: demo_kernels(2))
  from probe_patch_local [OF this, of "''k''" False "\<lambda>_. []" "[]"] show ?thesis
    by (simp add: demo_kernels(1) probe_func_name_def) metis
qed

text \<open>A return under a predicate: the call of the probe takes the predicate, and the return loses it, so that the kernel always
  ends there.\<close>

theorem retprobe_takes_predicate:
  "patch_section True ''f'' ''{ @%p1 ret; bar; ret; }'' = ''{ @%p1 call f;'' @ [NL] @ '' ret; bar; call f;'' @ [NL] @ '' ret; }''"
  by code_simp

text \<open>Where the call of a probe goes: to every brace that opens in front of a declaration of registers, so to nested blocks too,
  and not to a body that starts with anything else.\<close>

theorem probe_in_every_block:
  "patch_section False ''f'' ''{.reg a; {.reg b; } }'' =
     ''{'' @ [NL] @ ''    call f;'' @ [NL] @ ''.reg a; {'' @ [NL] @ ''    call f;'' @ [NL] @ ''.reg b; } }'' \<and>
   patch_section False ''f'' ''{ret;}'' = ''{ret;}''"
  by code_simp

text \<open>Cleaning keeps printable text with a brace at its end.\<close>

lemma filter_unprintable_clean:
  assumes "filter_unprintable_chars s = Some r"
  shows "r \<noteq> [] \<and> last r = CHR ''}'' \<and> (\<forall>c \<in> set r. \<not> unprintable c \<and> of_char c < (128 :: nat)) \<and> subseq r s"
proof -
  let ?f = "filter (\<lambda>c. \<not> unprintable c \<and> of_char c \<le> (127 :: nat)) s"
  let ?d = "dropWhile (\<lambda>c. c \<noteq> CHR ''}'') (rev ?f)"
  from assms have r: "r = rev ?d" "CHR ''}'' \<in> set ?f" by (auto simp: filter_unprintable_chars_def Let_def split: if_splits)
  then have d: "?d \<noteq> []" by (auto simp: dropWhile_eq_Nil_conv)
  have "hd ?d = CHR ''}''" using hd_dropWhile [OF d] by simp
  moreover have "set r \<subseteq> set ?f" using r(1) set_dropWhileD by fastforce
  moreover have "subseq r s"
  proof -
    have "prefix r ?f" using suffix_dropWhile [of "\<lambda>c. c \<noteq> CHR ''}''" "rev ?f"] by (simp add: r(1) suffix_to_prefix)
    then show ?thesis using prefix_imp_subseq subseq_filter_left subseq_order.trans by metis
  qed
  ultimately show ?thesis using d r(1) by (auto simp: last_rev)
qed

end
