(* ===== verification/Nv_Attach.thy ===== *)
theory Nv_Attach
  imports Ptx_Patch Attach_Ctx
begin

text \<open>
  The attach implementation of the GPU (attach/nv_attach_impl/nv_attach_impl.cpp): its private data, the entries it
  records, the patching of a binary that the CUDA runtime registers, and the memory of the trampoline, as the hooks of
  nv_attach_impl_frida_setup.cpp call them. Reading a binary, the compilers and the calls of the CUDA runtime are
  arguments. The implementation does not keep the contract of Attach_Interface: a detached probe stays.
\<close>

section \<open>State\<close>

datatype code_addr_or_func_name = CodeAddr u64 | FuncName string

record nv_private =
  np_target :: code_addr_or_func_name
  np_names :: "string list"
  np_shared :: u64
  np_maps :: "map_basic_info list"
  np_insns :: "insn list"

definition nv_private_new :: nv_private where
  "nv_private_new = \<lparr>np_target = CodeAddr 0, np_names = [], np_shared = 0, np_maps = [], np_insns = []\<rparr>"

definition nv_initialize_from_string :: "string \<Rightarrow> nv_private \<Rightarrow> nv_private" where
  "nv_initialize_from_string sv d =
     (let names = np_names d @ filter (\<lambda>item. item \<noteq> []) (tokens (CHR '','') sv)
      in d\<lparr>np_names := names, np_target := FuncName (if names \<noteq> [] then hd names else sv)\<rparr>)"

datatype nv_attach_type = Memcapture | FunctionProbe string bool

record nv_entry =
  ne_type :: nv_attach_type
  ne_insns :: "insn list"
  ne_kernels :: "string list"

datatype trampoline_stage = NotSet | Registered | Copied

text \<open>The address of the shared memory is not initialised before the first attach (\<open>None\<close>).\<close>

record nv_impl =
  nv_next :: int
  nv_entries :: "(int \<times> nv_entry) list"
  nv_shared :: "u64 option"
  nv_maps :: "map_basic_info list option"
  nv_stage :: trampoline_stage

definition nv_attach_impl_new :: nv_impl where
  "nv_attach_impl_new = \<lparr>nv_next = 1, nv_entries = [], nv_shared = None, nv_maps = None, nv_stage = NotSet\<rparr>"

section \<open>Entries\<close>

definition ATTACH_CUDA_PROBE :: int where "ATTACH_CUDA_PROBE = 8"
definition ATTACH_CUDA_RETPROBE :: int where "ATTACH_CUDA_RETPROBE = 9"

definition record_entry :: "nv_attach_type \<Rightarrow> nv_private \<Rightarrow> nv_impl \<Rightarrow> int res \<times> nv_impl" where
  "record_entry ty d s =
     (Inr (nv_next s), s\<lparr>nv_next := nv_next s + 1,
        nv_entries := omap_put (nv_next s) \<lparr>ne_type = ty, ne_insns = np_insns d, ne_kernels = np_names d\<rparr> (nv_entries s),
        nv_maps := Some (np_maps d), nv_shared := Some (np_shared d)\<rparr>)"

text \<open>Private data without a name throws.\<close>

definition nv_create :: "nv_private \<Rightarrow> int \<Rightarrow> nv_impl \<Rightarrow> int res \<times> nv_impl" where
  "nv_create d attach_type s =
     (if attach_type = ATTACH_CUDA_PROBE then (case np_target d of
          CodeAddr _ \<Rightarrow> (Inl Throw, s)
        | FuncName f \<Rightarrow> if f = ''__memcapture'' then record_entry Memcapture d s else record_entry (FunctionProbe f False) d s)
      else if attach_type = ATTACH_CUDA_RETPROBE then (case np_target d of
          CodeAddr _ \<Rightarrow> (Inl Throw, s)
        | FuncName f \<Rightarrow> record_entry (FunctionProbe f True) d s)
      else (Inr (- 1), s))"

definition nv_detach :: "int \<Rightarrow> nv_impl \<Rightarrow> unit res \<times> nv_impl" where
  "nv_detach i s = (Inr (), s)"

section \<open>Patching a binary\<close>

definition contains :: "string \<Rightarrow> string \<Rightarrow> bool" where
  "contains s p \<longleftrightarrow> find_sub p s \<noteq> None"

definition needs_self_modifying :: "(int \<times> nv_entry) list \<Rightarrow> bool" where
  "needs_self_modifying es \<longleftrightarrow>
     list_ex (\<lambda>(_, e). list_ex (\<lambda>k. contains k ''__jit'' \<or> contains k ''__checkpoint'') (ne_kernels e)) es"

definition patch_entry :: "(insn list \<Rightarrow> string) \<Rightarrow> nv_entry \<Rightarrow> string \<Rightarrow> string option" where
  "patch_entry compile e ptx = (case ne_type e of
     Memcapture \<Rightarrow> Some (patch_with_memcapture compile (ne_insns e) ptx)
   | FunctionProbe f rp \<Rightarrow> patch_with_probe_and_retprobe compile (ne_insns e) (ne_kernels e) f rp ptx)"

fun patch_entries :: "(insn list \<Rightarrow> string) \<Rightarrow> (int \<times> nv_entry) list \<Rightarrow> string \<Rightarrow> string option" where
  "patch_entries compile [] ptx = Some ptx"
| "patch_entries compile ((_, e) # es) ptx = Option.bind (patch_entry compile e ptx) (patch_entries compile es)"

definition checkpoint_functions :: string where
  "checkpoint_functions = unlines [
     [],
     ''// GPU checkpoint/restore support functions'',
     ''.extern .func (.param .b32 retval) gpu_create_checkpoint('',
     [TAB] @ ''.param .b64 kernel_name,'',
     [TAB] @ ''.param .b32 iteration'',
     '');'',
     [],
     ''.extern .func (.param .b32 retval) gpu_restore_checkpoint('',
     [TAB] @ ''.param .b64 checkpoint_id'',
     '');'',
     [],
     ''.extern .func (.param .b32 retval) gpu_schedule_code_replacement('',
     [TAB] @ ''.param .b64 kernel_name,'',
     [TAB] @ ''.param .b64 new_ptx_code,'',
     [TAB] @ ''.param .b32 trigger_iteration'',
     '');'',
     []]"

definition wrap_ptx_with_trampoline :: "string \<Rightarrow> string \<Rightarrow> string" where
  "wrap_ptx_with_trampoline trampoline input = trampoline @ input"

definition drop_comment_lines :: "string \<Rightarrow> string" where
  "drop_comment_lines ptx = unlines (filter (\<lambda>line. \<not> starts_with line ''/'') (getlines ptx))"

text \<open>The text that goes to the compiler of the device; \<open>None\<close> is undefined behaviour of a pass.\<close>

definition patched_ptx :: "(insn list \<Rightarrow> string) \<Rightarrow> string \<Rightarrow> (int \<times> nv_entry) list \<Rightarrow> string \<Rightarrow> string option" where
  "patched_ptx compile trampoline es ptx =
     Option.bind (filter_unprintable_chars ptx) (\<lambda>ptx.
     map_option (\<lambda>ptx.
         let ptx = filter_out_version_headers (wrap_ptx_with_trampoline trampoline ptx);
             ptx = (if needs_self_modifying es then checkpoint_functions @ ptx else ptx)
         in drop_comment_lines ptx)
       (patch_entries compile es ptx))"

text \<open>\<open>obtain_functions\<close> gives the PTX sections of a binary, \<open>nvcc\<close> a binary of a text; \<open>None\<close> is their failure.\<close>

definition hack_fatbin ::
  "(bytes \<Rightarrow> string list option) \<Rightarrow> (string \<Rightarrow> bytes option) \<Rightarrow> (insn list \<Rightarrow> string) \<Rightarrow> string \<Rightarrow> nv_impl \<Rightarrow> bytes \<Rightarrow> bytes option res" where
  "hack_fatbin obtain_functions nvcc compile trampoline s data = (case obtain_functions data of
     None \<Rightarrow> Inr None
   | Some ptx_out \<Rightarrow>
       if length ptx_out \<noteq> 1 then Inr None
       else bindr (or_fault (patched_ptx compile trampoline (nv_entries s) (hd ptx_out))) (\<lambda>ptx. Inr (nvcc ptx)))"

section \<open>Memory of the trampoline\<close>

text \<open>The size of the device variable for the table of maps, and of one of its entries.\<close>

definition MAP_INFO_SIZE :: nat where "MAP_INFO_SIZE = 4096"
definition MAP_BASIC_INFO_SIZE :: nat where "MAP_BASIC_INFO_SIZE = 16"

definition register_trampoline_memory :: "nv_impl \<Rightarrow> int \<times> nv_impl" where
  "register_trampoline_memory s = (if nv_stage s \<noteq> NotSet then (- 1, s) else (0, s\<lparr>nv_stage := Registered\<rparr>))"

text \<open>\<open>ok1\<close> and \<open>ok2\<close> are what the two copies to the device return. The second reads \<open>MAP_INFO_SIZE\<close> bytes from the vector.\<close>

definition copy_data_to_trampoline_memory :: "bool \<Rightarrow> bool \<Rightarrow> nv_impl \<Rightarrow> int res \<times> nv_impl" where
  "copy_data_to_trampoline_memory ok1 ok2 s =
     (if \<not> ok1 then (Inr (- 1), s)
      else case nv_maps s of None \<Rightarrow> (Inl Fault, s)
       | Some infos \<Rightarrow>
           if length infos * MAP_BASIC_INFO_SIZE < MAP_INFO_SIZE then (Inl Fault, s)
           else if \<not> ok2 then (Inr (- 1), s)
           else (Inr 0, s\<lparr>nv_stage := Copied\<rparr>))"

text \<open>The hook around the end of a registration; a failed assertion ends the process, which is \<open>Throw\<close> here.\<close>

definition register_fatbin_end :: "bool \<Rightarrow> bool \<Rightarrow> nv_impl \<Rightarrow> unit res \<times> nv_impl" where
  "register_fatbin_end ok1 ok2 s =
     (let (e, s) = (if nv_stage s = NotSet then register_trampoline_memory s else (0, s))
      in if e \<noteq> 0 then (Inl Throw, s)
         else case copy_data_to_trampoline_memory ok1 ok2 s of
           (Inl err, s) \<Rightarrow> (Inl err, s)
         | (Inr e, s) \<Rightarrow> (if e \<noteq> 0 then Inl Throw else Inr (), s))"

section \<open>Properties\<close>

definition nv_inv :: "nv_impl \<Rightarrow> bool" where
  "nv_inv s \<longleftrightarrow> omap_ok (nv_entries s) \<and> 0 < nv_next s \<and> (\<forall>i \<in> set (map fst (nv_entries s)). 0 < i \<and> i < nv_next s)"

lemma nv_inv_new: "nv_inv nv_attach_impl_new"
  by (simp add: nv_inv_def nv_attach_impl_new_def)

lemma record_entry_inv: "nv_inv s \<Longrightarrow> nv_inv (snd (record_entry ty d s))"
  using omap_put_keys [of "nv_next s" _ "nv_entries s"] by (auto simp: nv_inv_def record_entry_def omap_put_ok simp del: set_map)

lemma nv_create_inv: "nv_inv s \<Longrightarrow> nv_inv (snd (nv_create d ty s))"
  by (auto simp: nv_create_def record_entry_inv split: code_addr_or_func_name.split)

text \<open>The type an attach point is recorded under.\<close>

definition entry_type :: "string \<Rightarrow> int \<Rightarrow> nv_attach_type" where
  "entry_type f ty = (if ty = ATTACH_CUDA_RETPROBE then FunctionProbe f True
     else if f = ''__memcapture'' then Memcapture else FunctionProbe f False)"

lemma nv_create_spec:
  assumes "np_target d = FuncName f" "ty \<in> {ATTACH_CUDA_PROBE, ATTACH_CUDA_RETPROBE}"
  shows "nv_create d ty s = record_entry (entry_type f ty) d s"
  using assms by (auto simp: nv_create_def entry_type_def ATTACH_CUDA_PROBE_def ATTACH_CUDA_RETPROBE_def)

text \<open>Attaching through a name or a list of names: the number is fresh, the entry is recorded for the names that are not
  empty, and the other entries stay.\<close>

theorem nv_attach_by_name:
  assumes "nv_inv s" "ty \<in> {ATTACH_CUDA_PROBE, ATTACH_CUDA_RETPROBE}"
    "d = nv_initialize_from_string sv nv_private_new\<lparr>np_insns := insts, np_maps := infos, np_shared := a\<rparr>"
    "names = filter (\<lambda>n. n \<noteq> []) (tokens (CHR '','') sv)"
  shows "\<exists>s'. nv_create d ty s = (Inr (nv_next s), s') \<and> map_of (nv_entries s) (nv_next s) = None \<and> nv_inv s' \<and>
    map_of (nv_entries s') = (map_of (nv_entries s))(nv_next s \<mapsto>
      \<lparr>ne_type = entry_type (if names = [] then sv else hd names) ty, ne_insns = insts, ne_kernels = names\<rparr>)"
proof -
  have d: "np_target d = FuncName (if names = [] then sv else hd names)" "np_names d = names" "np_insns d = insts"
    by (simp_all add: assms(3,4) nv_initialize_from_string_def nv_private_new_def Let_def)
  have fresh: "map_of (nv_entries s) (nv_next s) = None" using assms(1) by (force simp: nv_inv_def map_of_eq_None_iff)
  have "nv_create d ty s = record_entry (entry_type (if names = [] then sv else hd names) ty) d s"
    by (rule nv_create_spec [OF d(1) assms(2)])
  moreover have "nv_inv (snd (nv_create d ty s))" by (rule nv_create_inv [OF assms(1)])
  ultimately show ?thesis using fresh d by (simp add: record_entry_def)
qed

text \<open>Detaching answers success and changes nothing: the probe is put into the next binary as before.\<close>

theorem nv_detach_keeps_probe:
  assumes "np_target d = FuncName f" "ty \<in> {ATTACH_CUDA_PROBE, ATTACH_CUDA_RETPROBE}" "nv_create d ty s = (Inr i, s1)" "nv_detach i s1 = (r, s2)"
  shows "r = Inr () \<and> map_of (nv_entries s2) i = Some \<lparr>ne_type = entry_type f ty, ne_insns = np_insns d, ne_kernels = np_names d\<rparr> \<and>
    hack_fatbin ob nvcc compile tr s2 data = hack_fatbin ob nvcc compile tr s1 data"
  using assms nv_create_spec [OF assms(1,2), of s] by (auto simp: record_entry_def nv_detach_def)

text \<open>The table of maps a context makes is exactly as long as the device variable it is copied to.\<close>

lemma map_info_loop_length: "map_info_loop me i hs infos = Inr infos' \<Longrightarrow> length infos' = length infos"
  by (induction me i hs infos rule: map_info_loop.induct) (auto split: if_splits)

theorem map_table_copied:
  assumes "create_map_basic_info me mg 256 = Inr infos" "np_target d = FuncName f" "ty \<in> {ATTACH_CUDA_PROBE, ATTACH_CUDA_RETPROBE}"
    "np_maps d = infos" "nv_create d ty s = (Inr i, s')"
  shows "register_fatbin_end True True s' = (Inr (), s'\<lparr>nv_stage := Copied\<rparr>) \<and> length infos * MAP_BASIC_INFO_SIZE = MAP_INFO_SIZE"
proof -
  have len: "length infos = 256" using assms(1) map_info_loop_length by (fastforce simp: create_map_basic_info_def)
  have "nv_maps s' = Some infos" using assms(4,5) nv_create_spec [OF assms(2,3), of s] by (auto simp: record_entry_def)
  with len show ?thesis by (simp add: register_fatbin_end_def register_trampoline_memory_def copy_data_to_trampoline_memory_def
      MAP_INFO_SIZE_def MAP_BASIC_INFO_SIZE_def)
qed

text \<open>A process without a probe on the GPU: the end of its first registration reads a table that is not there.\<close>

theorem no_attach_faults: "fst (register_fatbin_end True ok2 nv_attach_impl_new) = Inl Fault"
  by (simp add: register_fatbin_end_def register_trampoline_memory_def copy_data_to_trampoline_memory_def nv_attach_impl_new_def)

lemma getlines_after: "\<forall>l \<in> set ls. NL \<notin> set l \<Longrightarrow> getlines (unlines ls @ s) = ls @ getlines s"
proof -
  assume ls: "\<forall>l \<in> set ls. NL \<notin> set l"
  then have "tokens NL (unlines ls @ s) = ls @ tokens NL s" by (induction ls) (auto simp: unlines_def tokens_split)
  then show ?thesis by (simp add: getlines_def Let_def butlast_append)
qed

lemma drop_comment_lines_lines: "getlines (drop_comment_lines ptx) = filter (\<lambda>l. \<not> starts_with l ''/'') (getlines ptx)"
  unfolding drop_comment_lines_def by (rule getlines_unlines) (auto dest: getlines_lines)

lemma checkpoint_function_lines:
  "\<exists>ls. checkpoint_functions = unlines ls \<and> (\<forall>l \<in> set ls. NL \<notin> set l \<and> (header_kind l = None \<or> starts_with l ''/''))"
  unfolding checkpoint_functions_def by (intro exI conjI, rule refl)
    (simp add: header_kind_def FILTERED_OUT_PREFIXES_def HEADER_PREFIXES_def starts_with_def)

text \<open>The text for the compiler of the device has no comment lines and at most one line of each kind of header, whatever the
  trampoline, the programs and the kernels bring along.\<close>

theorem patched_headers_once:
  assumes "patched_ptx compile tr es ptx = Some out"
  shows "length (filter (\<lambda>l. header_kind l = Some p) (getlines out)) \<le> 1 \<and> (\<forall>l \<in> set (getlines out). \<not> starts_with l ''/'')"
proof -
  from assms obtain q where out: "out = drop_comment_lines ((if needs_self_modifying es then checkpoint_functions else []) @ filter_out_version_headers q)"
    by (cases "needs_self_modifying es") (auto simp: patched_ptx_def Let_def bind_eq_Some_conv)
  obtain ls where ls: "(if needs_self_modifying es then checkpoint_functions else []) = unlines ls"
    "\<forall>l \<in> set ls. NL \<notin> set l \<and> (header_kind l = None \<or> starts_with l ''/'')"
  proof (cases "needs_self_modifying es")
    case False
    then show ?thesis using that [of "[]"] by (simp add: unlines_def)
  qed (use checkpoint_function_lines that in auto)
  have lines: "getlines out = filter (\<lambda>l. \<not> starts_with l ''/'') ls @ filter (\<lambda>l. \<not> starts_with l ''/'') (getlines (filter_out_version_headers q))"
    using out ls by (simp add: drop_comment_lines_lines getlines_after)
  have "filter (\<lambda>l. header_kind l = Some p) (filter (\<lambda>l. \<not> starts_with l ''/'') ls) = []" using ls(2) by (auto simp: filter_empty_conv)
  moreover have "length (filter (\<lambda>l. header_kind l = Some p) (filter P (getlines (filter_out_version_headers q)))) \<le> 1" for P
  proof -
    have "length (filter (\<lambda>l. header_kind l = Some p) (filter P (getlines (filter_out_version_headers q)))) \<le>
        length (filter (\<lambda>l. header_kind l = Some p) (getlines (filter_out_version_headers q)))"
      by (metis (no_types, lifting) filter_filter length_filter_le filter_cong conj_commute)
    also have "\<dots> \<le> 1" using version_headers_once [of q p] by simp
    finally show ?thesis .
  qed
  ultimately show ?thesis by (auto simp: lines)
qed

end
