(* ===== verification/Spec2Isabelle.thy ===== *)
theory Spec2Isabelle
  imports Array_Maps Percpu_Array Fd_Arrays Hash_Table Var_Hash_Map Percpu_Hash Lru_Hash_Map Ringbuf
    Perf_Event Map_Handler Map_Safety Handler_Manager Bpftime_Config Shm_Internal Shm_Api Shm_Life
    Attach_Interface Syscall_Trace Gpu_Channel Shm_Json Ubpf_Vm Bpftime_Prog Attach_Ctx
    Mem_Helpers Map_Helpers Ufunc Transporter Kernel_User_Maps Syscall_Server Frida_Uprobe
    Agent_Probes Ptx_Guard Ptx_Patch Nv_Attach
begin

text \<open>
  A verification development for the \<^verbatim>\<open>bpftime\<close> runtime of the eGPU artifact
  (src/papers/egpu/artifact): user-space eBPF maps, the table of handlers in shared memory that several
  processes work on, the C interface over it, and the agent side that loads programs and attaches them.
  File names below are relative to src/papers/egpu/artifact/runtime unless they start with attach/ or vm/.

  \<^bold>\<open>The program.\<close> A syscall server intercepts the bpf system calls of a loader and records maps, programs,
  perf events and links as handlers in a shared memory segment (\<^verbatim>\<open>bpftime_shm\<close>, \<^verbatim>\<open>handler_manager\<close>). An agent
  in the traced process walks that table (\<^verbatim>\<open>bpf_attach_ctx\<close>), loads the programs into a virtual machine
  (\<^verbatim>\<open>bpftime_prog\<close>, the uBPF back end) with groups of helper functions, and hands callbacks to attach
  implementations (tracing of system calls, probes on functions). Programs and processes share maps through the handlers;
  device code of a GPU reaches them through a block of shared memory a host thread serves.

  \<^bold>\<open>Conventions.\<close> Machine integers are words at their width; sizes and offsets that the code keeps in 64 bits
  and that cannot wrap in memory are natural numbers. Every operation is a function on an explicit state and
  returns a value of \<open>'a res = err + 'a\<close> (theory Bpf_Prelude): \<open>Errno\<close>, \<open>NegErrno\<close> and \<open>Silent\<close> are the three ways the
  code reports an error, \<open>Throw\<close> is a C++ exception, \<open>Fault\<close> is undefined behaviour (an access outside an object, a
  null or dangling pointer). So a theorem that excludes \<open>Fault\<close> is a memory-safety theorem. Kernel calls,
  clocks, the CPU a call runs on, allocator addresses, iteration orders of hash containers, the uBPF library
  and registered user functions are arguments. Interfaces between components are locales: \<open>slot_layout\<close>,
  \<open>key_cursor\<close>, \<open>key_iteration\<close>, \<open>map_store\<close>, \<open>exact_map_store\<close> and \<open>safe_map\<close> for map classes, \<open>attach_entries\<close>, \<open>attach_impl\<close>,
  \<open>attach_callbacks\<close>, \<open>attach_pair\<close> and \<open>attach_context\<close> for attach implementations and their client; each is interpreted on the definitions of the
  components that provide it.

  \<^bold>\<open>Theories.\<close>
  \<^item> Bpf_Prelude: results, byte ranges, little-endian encoding, ordered maps, loops, the map interfaces.
  \<^item> Array_Maps, Percpu_Array, Fd_Arrays: \<^verbatim>\<open>array_map_impl\<close>, \<^verbatim>\<open>per_cpu_array_map_impl\<close>, \<^verbatim>\<open>perf_event_array\<close>,
    \<^verbatim>\<open>prog_array\<close> and \<^verbatim>\<open>array_map_of_maps\<close> (src/bpf_map/userspace). Updates are read back and local to their slot
    and CPU; errors; iteration over keys; where 32-bit products wrap.
  \<^item> Prime_Buckets, Hash_Table: \<^verbatim>\<open>bpftime_hash_map.hpp\<close> and \<^verbatim>\<open>fix_hash_map\<close>. The table in one byte buffer reads like a
    bounded partial function under updates; probing ends within as many steps as there are buckets, which is
    the fuel of \<open>probe\<close>; deletes are sound but may hide keys.
  \<^item> Unordered_Map, Var_Hash_Map, Percpu_Hash, Lru_Hash_Map: the node-based hash maps. Refinement to bounded
    partial maps and, for the LRU map, of the heap of linked entries to a most-recently-used-first sequence.
  \<^item> Ringbuf, Perf_Event: the ring buffer (reserve, submit, fetch; the fuel of \<open>fetch_from\<close> is the number of records that
    fit) and the sample buffer of software perf events. Order, round trip, wrap-around, races of producers.
  \<^item> Map_Handler, Map_Safety: \<^verbatim>\<open>bpf_map_handler\<close>, the dispatch over map types, creation and destruction of the
    objects in the named segment. Sequences of calls on any processors, each complete before the next, are memory safe on well-formed
    objects, with one exception (a lookup behind the end of an array of maps).
  \<^item> Handler_Manager: the table. Closing a descriptor takes exactly the links to it along (\<open>clear_depth\<close> 2 is enough:
    a link has no links).
  \<^item> Bpftime_Config: agent configuration from environment variables, numbers as strings.
  \<^item> Shm_Internal, Shm_Api, Shm_Life: \<^verbatim>\<open>bpftime_shm_internal.cpp\<close>, \<^verbatim>\<open>bpftime_shm.cpp\<close>, and the life of a segment as a
    step relation over the operations of all processes, with its invariant. The fuel of \<open>epoll_loop\<close> is the number of turns of
    the loop: \<open>epoll_wait_returns\<close> shows how many are enough.
  \<^item> Shm_Json: export and import of the table (\<^verbatim>\<open>bpftime_shm_json.cpp\<close>), with what comes back.
  \<^item> Ubpf_Vm, Bpftime_Prog: vm/compat (helper slots, patching of calls and 64-bit loads) and \<^verbatim>\<open>bpftime_prog\<close> with
    the helper groups of \<^verbatim>\<open>bpf_helper.cpp\<close>. What the machine runs means what the program means.
  \<^item> Attach_Interface, Syscall_Trace: the contract of an attach implementation and
    attach/syscall_trace_attach_impl, which satisfies it.
  \<^item> Frida_Uprobe: attach/frida_uprobe_attach_impl, which satisfies the contract too. Its tables, its heap of
    internal entries and the hooks of the interceptor (whose functions are arguments) are a list of attaches; what
    a call of a probed or replaced function does; attach points as text; registers.
  \<^item> Agent_Probes: a context over both implementations, as agent/agent.cpp registers them; the contract of the pair
    follows from the two contracts, and with it that no callback dangles and that detaching removes every hook.
  \<^item> Attach_Ctx: \<^verbatim>\<open>bpf_attach_ctx\<close>, for every implementation of the contract: links and entries correspond, callbacks
    never dangle, what a walk over the table attaches. The walk ends because it goes deeper only at links
    that are not yet in it.
  \<^item> Gpu_Channel: the helper calls of device threads (attach/nv_attach_impl/examples/default_trampoline) and the
    host thread of \<^verbatim>\<open>bpf_attach_ctx_cuda.cpp\<close>, one step per memory access: mutual exclusion, where answers come from, and that
    fair executions answer every call.
  \<^item> Ptx_Guard: the pass over the PTX of a program that saves and restores registers
    (attach/nv_attach_impl/nv_attach_impl_register_guard_patcher.cpp), what it makes of the text, and with a machine for
    the instructions it inserts, that every saved register gets its value back.
  \<^item> Ptx_Patch: the passes that put programs into kernels (nv_attach_impl_patcher.cpp): cleaning of headers, capturing of
    memory accesses, with the instructions that hand a program the text of the access, and probes at the start and at
    the returns of a kernel; the compiler from eBPF to PTX is an argument.
  \<^item> Nv_Attach: the attach implementation of the GPU (nv_attach_impl.cpp): entries, the patching of a binary that is
    registered, the memory of the trampoline; that headers stay single, that the table of maps fits its device variable,
    and where the contract of an attach implementation is not kept.
  \<^item> Mem_Helpers, Map_Helpers: the functions a program calls (\<^verbatim>\<open>bpf_helper.cpp\<close>): copies guarded by a signal handler,
    strings, checksums, packets (extension/userspace_xdp.h); maps, ring buffers, perf events, tail calls through map
    pointers. Round trips from a helper to the reader of the buffer, bounds, what a failed call leaves.
  \<^item> Ufunc: user functions by name and number (\<^verbatim>\<open>ufunc.cpp\<close>), and that the dispatcher is total.
  \<^item> Transporter, Kernel_User_Maps: the four classes of src/bpf_map/shared over the bpf system call, and the eBPF program
    \<^verbatim>\<open>perf_event_array_kernel_user.cpp\<close> loads to move samples into the kernel, with an interpreter for it. A run of the
    program takes at most 119 instructions, which is its fuel (\<open>transporter_run\<close>), on any record, well formed or not.
  \<^item> Syscall_Server: syscall-server/, the library under the loader. Every handler of an intercepted call, with the
    functions of libc behind it as one argument, so that theorems say which calls reach the kernel: sessions on
    maps, mocked files, perf events, mappings, and programs beside the kernel.

  \<^bold>\<open>Not modelled.\<close> The process-global singletons and their destructors; memory protection keys and the verifier, which are
  build options; logging; GPU compilation, the installation of hooks on the CUDA runtime, the injector and the checkpoints of
  attach/nv_attach_impl; the agent's injection and Frida's
  rewriting of code (what it installs is a map of hooks); the LLVM back end, whose sources are a submodule; POS, an imported framework; the daemon and
  the tools, which are input and output around the runtime; the other artifacts of the repository, which are
  snapshots of other projects.
\<close>

end
